(* ===== verification/Vpn_Prelude.thy ===== *)
theory Vpn_Prelude
  imports Main "HOL-Library.Word"
begin

text \<open>
  Shared vocabulary of the development: the machine integer types of the C++ code, the
  \<open>size_t\<close> arithmetic with its wrap-around written out, exceptions as values of a sum
  type, network byte order, and the lemma collections the component proofs use.

  The C++ types are modelled as follows: \<^verbatim>\<open>unsigned char\<close> is \<open>8 word\<close>,
  \<^verbatim>\<open>std::uint32_t\<close> and \<^verbatim>\<open>unsigned int\<close> are \<open>32 word\<close>, \<^verbatim>\<open>oulong\<close> is \<open>64 word\<close>
  (a 64-bit platform), and a \<^verbatim>\<open>size_t\<close> that counts bytes of a buffer is a \<open>nat\<close> whose
  arithmetic is done with \<open>sz_add\<close> and \<open>sz_sub\<close>, that is modulo \<open>2 ^ 64\<close>.
\<close>

unbundle bit_operations_syntax

named_theorems buf_laws \<open>what the buffer operations do to the bytes a buffer holds\<close>
named_theorems byte_order \<open>network byte order conversions\<close>

type_synonym byte = "8 word"
type_synonym u16 = "16 word"
type_synonym u32 = "32 word"
type_synonym u64 = "64 word"


section \<open>size_t arithmetic\<close>

abbreviation (input) size_t_limit :: nat where
  "size_t_limit \<equiv> 18446744073709551616"

definition sz_add :: "nat \<Rightarrow> nat \<Rightarrow> nat" where
  "sz_add a b = (a + b) mod size_t_limit"

definition sz_sub :: "nat \<Rightarrow> nat \<Rightarrow> nat" where
  "sz_sub a b = nat ((int a - int b) mod int size_t_limit)"

lemma sz_add_exact [simp]: "a + b < size_t_limit \<Longrightarrow> sz_add a b = a + b"
  by (simp add: sz_add_def)

lemma sz_sub_exact [simp]: "b \<le> a \<Longrightarrow> a < size_t_limit \<Longrightarrow> sz_sub a b = a - b"
  by (simp add: sz_sub_def nat_diff_distrib')

lemma sz_sub_wraps:
  assumes "a < b" "b \<le> size_t_limit"
  shows "sz_sub a b = size_t_limit - (b - a)"
proof -
  have "(int a - int b) mod int size_t_limit = int a - int b + int size_t_limit"
    using assms by (intro mod_pos_pos_trivial[THEN trans[OF mod_add_self2[symmetric]]]) auto
  then show ?thesis
    using assms by (simp add: sz_sub_def nat_diff_distrib')
qed

lemma sz_add_less: "sz_add a b < size_t_limit"
  by (simp add: sz_add_def)


section \<open>Exceptions as values\<close>

text \<open>
  \<^verbatim>\<open>BufferException::Status\<close> and the exception classes the modelled code throws. A function
  that may throw returns \<open>exn + 'a\<close>, with \<open>Inl\<close> for the exception.
\<close>

datatype buffer_status =
    Buffer_full | Buffer_headroom | Buffer_underflow | Buffer_overflow | Buffer_offset
  | Buffer_index | Buffer_const_index | Buffer_push_front_headroom | Buffer_no_reset_impl
  | Buffer_pop_back | Buffer_set_size | Buffer_range

datatype exn =
    Buffer_exn buffer_status
  | Packet_id_wrap
  | Packet_id_not_initialized
  | Message_window_ref_by_id
  | Message_window_rm_head
  | Frame_context_index
  | Unknown_status_from_ssl_layer
  | Error_code nat
  | Embedded_packet_size_error
  | Packet_not_fully_formed
  | Parse_hex_error
  | Base64_bad_map
  | Base64_decode_error
  | Base64_decode_out_of_bound_error
  | Number_parse_exception string
  | Ip_exception string
  | Option_error string
  | Route_error string
  | Http_error string
  | Std_exception string
  | Proto_error string

type_synonym 'a res = "exn + 'a"

definition bindE :: "'e + 'a \<Rightarrow> ('a \<Rightarrow> 'e + 'b) \<Rightarrow> 'e + 'b" where
  "bindE m f = (case m of Inl e \<Rightarrow> Inl e | Inr x \<Rightarrow> f x)"

lemma bindE_simps [simp]:
  "bindE (Inl e) f = Inl e"
  "bindE (Inr x) f = f x"
  by (simp_all add: bindE_def)

lemma bindE_Inr_iff: "bindE m f = Inr y \<longleftrightarrow> (\<exists>x. m = Inr x \<and> f x = Inr y)"
  by (cases m) auto

lemma bindE_InrE [elim]:
  assumes "bindE m f = Inr y"
  obtains x where "m = Inr x" "f x = Inr y"
  using assms by (auto simp: bindE_Inr_iff)

lemma bindE_Inl_iff:
  "bindE m f = Inl e \<longleftrightarrow> m = Inl e \<or> (\<exists>x. m = Inr x \<and> f x = Inl e)"
  by (cases m) auto

definition ok :: "'e + 'a \<Rightarrow> bool" where
  "ok m \<longleftrightarrow> (\<exists>x. m = Inr x)"

lemma ok_simps [simp]: "ok (Inr x)" "\<not> ok (Inl e)"
  by (simp_all add: ok_def)


section \<open>Words as numbers\<close>

lemma unat_u32_less: "unat (w :: u32) < 4294967296"
  using unsigned_less [of w] by simp

lemma unat_byte_less: "unat (b :: byte) < 256"
  using unsigned_less [of b] by simp

lemma uint_byte_range: "0 \<le> uint (b :: byte)" "uint (b :: byte) < 256"
  using unsigned_less [of b, where ?'a = int] by simp_all

lemma unat_of_nat_u32: "n < 4294967296 \<Longrightarrow> unat (of_nat n :: u32) = n"
  by (simp add: unat_of_nat)

lemma unat_of_nat_byte: "n < 256 \<Longrightarrow> unat (of_nat n :: byte) = n"
  by (simp add: unat_of_nat)

lemma unat_mask:
  assumes "n < LENGTH('a)"
  shows "unat ((w :: 'a::len word) AND (2 ^ n - 1)) = unat w mod 2 ^ n"
proof -
  have "w AND (2 ^ n - 1) = take_bit n w" by (simp add: take_bit_eq_mask mask_eq_exp_minus_1)
  then have "unat (w AND (2 ^ n - 1)) = take_bit n (unat w)" by (simp only: unsigned_take_bit_eq)
  then show ?thesis by (simp only: take_bit_eq_mod)
qed

lemma unat_drop_bit: "unat (drop_bit k w) = unat w div 2 ^ k"
  unfolding unat_drop_bit_eq by (rule drop_bit_eq_div)

lemma unat_add1_u32: "unat (w :: u32) + 1 < 4294967296 \<Longrightarrow> unat (w + 1) = Suc (unat w)"
  by (simp add: unat_plus_if')


section \<open>Network byte order\<close>

text \<open>
  \<^verbatim>\<open>htonl\<close> followed by a copy of the four bytes of the result, and the reverse; likewise for
  two bytes. The host's own byte order cancels out.
\<close>

definition be32 :: "u32 \<Rightarrow> byte list" where
  "be32 w = [ucast (drop_bit 24 w), ucast (drop_bit 16 w), ucast (drop_bit 8 w), ucast w]"

definition of_be32 :: "byte list \<Rightarrow> u32" where
  "of_be32 bs = fold (\<lambda>b w. push_bit 8 w OR ucast b) bs 0"

definition be16 :: "u16 \<Rightarrow> byte list" where
  "be16 w = [ucast (drop_bit 8 w), ucast w]"

definition of_be16 :: "byte list \<Rightarrow> u16" where
  "of_be16 bs = fold (\<lambda>b w. push_bit 8 w OR ucast b) bs 0"

lemma length_be32 [simp]: "length (be32 w) = 4"
  by (simp add: be32_def)

lemma length_be16 [simp]: "length (be16 w) = 2"
  by (simp add: be16_def)

lemma bit_byte_beyond: "8 \<le> n \<Longrightarrow> \<not> bit (b :: byte) n"
  using bit_imp_le_length [of b n] by auto

lemma of_be32_be32 [simp, byte_order]: "of_be32 (be32 w) = w"
proof (rule bit_word_eqI)
  fix n
  assume "n < LENGTH(32)"
  then consider "n < 8" | "8 \<le> n" "n < 16" | "16 \<le> n" "n < 24" | "24 \<le> n" "n < 32"
    by fastforce
  then show "bit (of_be32 (be32 w)) n = bit w n"
    by cases (auto simp: of_be32_def be32_def bit_simps)
qed

lemma of_be16_be16 [simp, byte_order]: "of_be16 (be16 w) = w"
  unfolding of_be16_def be16_def
  by (rule bit_word_eqI) (auto simp: bit_simps)

lemma be32_of_be32 [byte_order]:
  assumes "length bs = 4"
  shows "be32 (of_be32 bs) = bs"
proof -
  from assms obtain a b c d where bs: "bs = [a, b, c, d]"
    by (auto simp: numeral_eq_Suc length_Suc_conv)
  have a: "ucast (drop_bit 24 (of_be32 bs)) = a"
    by (rule bit_word_eqI) (auto simp: of_be32_def bs bit_simps bit_byte_beyond)
  have b: "ucast (drop_bit 16 (of_be32 bs)) = b"
    by (rule bit_word_eqI) (auto simp: of_be32_def bs bit_simps bit_byte_beyond)
  have c: "ucast (drop_bit 8 (of_be32 bs)) = c"
    by (rule bit_word_eqI) (auto simp: of_be32_def bs bit_simps bit_byte_beyond)
  have d: "ucast (of_be32 bs) = d"
    by (rule bit_word_eqI) (auto simp: of_be32_def bs bit_simps bit_byte_beyond)
  show ?thesis by (simp add: be32_def bs a b c d flip: bs)
qed

lemma be16_of_be16 [byte_order]:
  assumes "length bs = 2"
  shows "be16 (of_be16 bs) = bs"
proof -
  from assms obtain a b where bs: "bs = [a, b]"
    by (auto simp: numeral_eq_Suc length_Suc_conv)
  have "ucast (drop_bit 8 (of_be16 bs)) = a"
    by (rule bit_word_eqI) (auto simp: of_be16_def bs bit_simps bit_byte_beyond)
  moreover have "ucast (of_be16 bs) = b"
    by (rule bit_word_eqI) (auto simp: of_be16_def bs bit_simps bit_byte_beyond)
  ultimately show ?thesis by (simp add: be16_def bs flip: bs)
qed

lemma be32_inject [simp]: "be32 v = be32 w \<longleftrightarrow> v = w"
  by (metis of_be32_be32)


section \<open>Lists\<close>

lemma take_append_length [simp]: "length xs = n \<Longrightarrow> take n (xs @ ys) = xs"
  and drop_append_length [simp]: "length xs = n \<Longrightarrow> drop n (xs @ ys) = ys"
  by auto

text \<open>\<^verbatim>\<open>memcpy\<close> of \<open>xs\<close> into a memory at an index.\<close>

definition blit :: "nat \<Rightarrow> 'a list \<Rightarrow> 'a list \<Rightarrow> 'a list" where
  "blit i xs m = take i m @ xs @ drop (i + length xs) m"

lemma length_blit [simp]: "i + length xs \<le> length m \<Longrightarrow> length (blit i xs m) = length m"
  by (simp add: blit_def)

lemma blit_Nil [simp]: "blit i [] m = m"
  by (simp add: blit_def)

lemma take_drop_blit_append:
  "o' + s + length xs \<le> length m \<Longrightarrow>
   take (s + length xs) (drop o' (blit (o' + s) xs m)) = take s (drop o' m) @ xs"
  by (simp add: blit_def drop_take drop_append min_absorb2)

lemma take_drop_blit_prepend:
  "length xs \<le> i \<Longrightarrow> i \<le> length m \<Longrightarrow>
   take (s + length xs) (drop (i - length xs) (blit (i - length xs) xs m))
     = xs @ take s (drop i m)"
  by (simp add: blit_def min_def)

lemma blit_single: "i < length m \<Longrightarrow> blit i [x] m = m[i := x]"
  by (simp add: blit_def upd_conv_take_nth_drop)

lemma drop_blit_before: "i + length xs \<le> j \<Longrightarrow> i \<le> length m \<Longrightarrow> drop j (blit i xs m) = drop j m"
  by (simp add: blit_def min_def)

lemma take_blit_after: "j \<le> i \<Longrightarrow> i \<le> length m \<Longrightarrow> take j (blit i xs m) = take j m"
  by (simp add: blit_def min_def)

end
