(* ===== verification/Buffers.thy ===== *)
theory Buffers
  imports Vpn_Prelude
begin

text \<open>
  \<^verbatim>\<open>buffer/buffer.hpp\<close>: a block of memory with head room. \<open>data_[0 .. capacity_ - 1]\<close> is the
  list \<open>b_mem\<close>, the bytes the buffer holds are the \<open>b_size\<close> ones from index \<open>b_offset\<close>. A
  \<open>BufferType\<close> is a view that never grows (\<open>b_owned = False\<close>), a \<open>BufferAllocatedType\<close>
  owns its memory and grows when the \<open>GROW\<close> flag is set; the two differ in \<open>resize\<close>.
  The content of freshly allocated memory is unspecified in C++: the operations that may
  allocate take it as the argument \<open>junk\<close>.
\<close>


section \<open>State\<close>

record buf =
  b_mem :: "byte list"
  b_offset :: nat
  b_size :: nat
  b_capacity :: nat
  b_flags :: u32
  b_owned :: bool

abbreviation (input) CONSTRUCT_ZERO :: u32 where "CONSTRUCT_ZERO \<equiv> 1"
abbreviation (input) DESTRUCT_ZERO :: u32 where "DESTRUCT_ZERO \<equiv> 2"
abbreviation (input) GROW :: u32 where "GROW \<equiv> 4"
abbreviation (input) ARRAY :: u32 where "ARRAY \<equiv> 8"

definition has_flag :: "u32 \<Rightarrow> u32 \<Rightarrow> bool" where
  "has_flag fs f \<longleftrightarrow> fs AND f \<noteq> 0"

definition fresh_mem :: "(nat \<Rightarrow> byte) \<Rightarrow> nat \<Rightarrow> byte list" where
  "fresh_mem junk n = map junk [0..<n]"

text \<open>The bytes the buffer holds, and the class invariant.\<close>

definition contents :: "buf \<Rightarrow> byte list" where
  "contents b = take (b_size b) (drop (b_offset b) (b_mem b))"

definition buf_wf :: "buf \<Rightarrow> bool" where
  "buf_wf b \<longleftrightarrow> length (b_mem b) = b_capacity b \<and> b_offset b + b_size b \<le> b_capacity b
     \<and> b_capacity b < size_t_limit"


section \<open>Constructors\<close>

definition buf_empty :: buf where
  "buf_empty = \<lparr>b_mem = [], b_offset = 0, b_size = 0, b_capacity = 0, b_flags = 0, b_owned = False\<rparr>"

definition buf_view :: "byte list \<Rightarrow> bool \<Rightarrow> buf" where
  "buf_view data filled =
     \<lparr>b_mem = data, b_offset = 0, b_size = (if filled then length data else 0),
      b_capacity = length data, b_flags = 0, b_owned = False\<rparr>"

definition buf_alloc :: "(nat \<Rightarrow> byte) \<Rightarrow> nat \<Rightarrow> u32 \<Rightarrow> buf" where
  "buf_alloc junk capacity flags =
     \<lparr>b_mem = (if has_flag flags CONSTRUCT_ZERO then replicate capacity 0 else fresh_mem junk capacity),
      b_offset = 0, b_size = (if capacity \<noteq> 0 \<and> has_flag flags ARRAY then capacity else 0),
      b_capacity = capacity, b_flags = flags, b_owned = True\<rparr>"

definition buf_alloc_data :: "byte list \<Rightarrow> u32 \<Rightarrow> buf" where
  "buf_alloc_data data flags =
     \<lparr>b_mem = data, b_offset = 0, b_size = length data, b_capacity = length data,
      b_flags = flags, b_owned = True\<rparr>"

text \<open>The copy constructors: only the bytes in use are copied, the rest of the memory is fresh.\<close>

definition buf_copy :: "(nat \<Rightarrow> byte) \<Rightarrow> buf \<Rightarrow> buf" where
  "buf_copy junk other =
     \<lparr>b_mem = (if b_capacity other \<noteq> 0
               then (if b_size other \<noteq> 0
                     then blit (b_offset other) (contents other) (fresh_mem junk (b_capacity other))
                     else fresh_mem junk (b_capacity other))
               else []),
      b_offset = b_offset other, b_size = b_size other, b_capacity = b_capacity other,
      b_flags = b_flags other, b_owned = True\<rparr>"

text \<open>Copy assignment: the old memory is kept when the capacities agree.\<close>

definition buf_assign :: "(nat \<Rightarrow> byte) \<Rightarrow> buf \<Rightarrow> buf \<Rightarrow> buf" where
  "buf_assign junk b other =
     (let m = (if b_capacity b \<noteq> b_capacity other then fresh_mem junk (b_capacity other) else b_mem b)
      in b\<lparr>b_mem := (if b_size other \<noteq> 0 then blit (b_offset other) (contents other) m else m),
           b_offset := b_offset other, b_size := b_size other, b_capacity := b_capacity other,
           b_flags := b_flags other\<rparr>)"

definition buf_init :: "(nat \<Rightarrow> byte) \<Rightarrow> nat \<Rightarrow> u32 \<Rightarrow> buf \<Rightarrow> buf" where
  "buf_init junk capacity flags b =
     (let m = (if b_capacity b \<noteq> capacity then fresh_mem junk capacity else b_mem b)
      in b\<lparr>b_mem := (if has_flag flags CONSTRUCT_ZERO \<and> capacity \<noteq> 0 then replicate capacity 0 else m),
           b_offset := 0, b_size := (if has_flag flags ARRAY then capacity else 0),
           b_capacity := capacity, b_flags := flags\<rparr>)"

definition buf_init_data :: "byte list \<Rightarrow> u32 \<Rightarrow> buf \<Rightarrow> buf" where
  "buf_init_data data flags b =
     b\<lparr>b_mem := data, b_offset := 0, b_size := length data, b_capacity := length data,
       b_flags := flags\<rparr>"


section \<open>Growing\<close>

definition buf_grow_to :: "(nat \<Rightarrow> byte) \<Rightarrow> nat \<Rightarrow> buf \<Rightarrow> buf" where
  "buf_grow_to junk newcap b =
     b\<lparr>b_mem := (if b_size b \<noteq> 0 then blit (b_offset b) (contents b) (fresh_mem junk newcap)
                 else fresh_mem junk newcap),
       b_capacity := newcap\<rparr>"

definition buf_realloc :: "(nat \<Rightarrow> byte) \<Rightarrow> nat \<Rightarrow> buf \<Rightarrow> buf" where
  "buf_realloc junk newcap b = (if newcap > b_capacity b then buf_grow_to junk newcap b else b)"

text \<open>The virtual \<open>resize\<close>: the base class can only fail, the allocated class grows if it may.\<close>

definition buf_resize_view :: "nat \<Rightarrow> buf \<Rightarrow> buf res" where
  "buf_resize_view new_capacity b =
     (if new_capacity > b_capacity b then Inl (Buffer_exn Buffer_full) else Inr b)"

definition buf_resize_alloc :: "(nat \<Rightarrow> byte) \<Rightarrow> nat \<Rightarrow> buf \<Rightarrow> buf res" where
  "buf_resize_alloc junk new_capacity b =
     (let newcap = max new_capacity ((b_capacity b * 2) mod size_t_limit)
      in if newcap > b_capacity b
         then (if has_flag (b_flags b) GROW then Inr (buf_grow_to junk newcap b)
               else Inl (Buffer_exn Buffer_full))
         else Inr b)"

definition buf_resize :: "(nat \<Rightarrow> byte) \<Rightarrow> nat \<Rightarrow> buf \<Rightarrow> buf res" where
  "buf_resize junk n b =
     (if b_owned b then buf_resize_alloc junk n b else buf_resize_view n b)"

definition buf_reserve :: "(nat \<Rightarrow> byte) \<Rightarrow> nat \<Rightarrow> buf \<Rightarrow> buf res" where
  "buf_reserve junk n b = (if n > b_capacity b then buf_resize junk n b else Inr b)"


section \<open>Offsets and sizes\<close>

definition buf_init_headroom :: "nat \<Rightarrow> buf \<Rightarrow> buf res" where
  "buf_init_headroom headroom b =
     (if headroom > b_capacity b then Inl (Buffer_exn Buffer_headroom)
      else Inr (b\<lparr>b_offset := headroom, b_size := 0\<rparr>))"

definition buf_reset_offset :: "nat \<Rightarrow> buf \<Rightarrow> buf res" where
  "buf_reset_offset off b =
     (let size' = sz_sub (sz_add (b_size b) (b_offset b)) off
      in if off > b_capacity b \<or> size' > b_capacity b \<or> sz_add off size' > b_capacity b
         then Inl (Buffer_exn Buffer_offset)
         else Inr (b\<lparr>b_offset := off, b_size := size'\<rparr>))"

definition buf_reset_size :: "buf \<Rightarrow> buf" where
  "buf_reset_size b = b\<lparr>b_size := 0\<rparr>"

definition buf_reset_content :: "buf \<Rightarrow> buf" where
  "buf_reset_content b = b\<lparr>b_offset := 0, b_size := 0\<rparr>"

definition buf_remaining :: "nat \<Rightarrow> buf \<Rightarrow> nat" where
  "buf_remaining tailroom b =
     (let r = sz_sub (b_capacity b) (sz_add (sz_add (b_offset b) (b_size b)) tailroom)
      in if r \<le> b_capacity b then r else 0)"

definition buf_max_size :: "buf \<Rightarrow> nat" where
  "buf_max_size b =
     (let r = sz_sub (b_capacity b) (b_offset b) in if r \<le> b_capacity b then r else 0)"

definition buf_max_size_tailroom :: "nat \<Rightarrow> buf \<Rightarrow> nat" where
  "buf_max_size_tailroom tailroom b =
     (let r = sz_sub (b_capacity b) (sz_add (b_offset b) tailroom)
      in if r \<le> b_capacity b then r else 0)"

definition buf_set_size :: "nat \<Rightarrow> buf \<Rightarrow> buf res" where
  "buf_set_size n b =
     (if n > buf_max_size b then Inl (Buffer_exn Buffer_set_size) else Inr (b\<lparr>b_size := n\<rparr>))"

definition buf_inc_size :: "nat \<Rightarrow> buf \<Rightarrow> buf res" where
  "buf_inc_size delta b = buf_set_size (sz_add (b_size b) delta) b"

definition buf_advance :: "nat \<Rightarrow> buf \<Rightarrow> buf res" where
  "buf_advance delta b =
     (if delta > b_size b then Inl (Buffer_exn Buffer_overflow)
      else Inr (b\<lparr>b_offset := b_offset b + delta, b_size := b_size b - delta\<rparr>))"

definition buf_realign :: "nat \<Rightarrow> buf \<Rightarrow> buf res" where
  "buf_realign headroom b =
     (if headroom \<noteq> b_offset b
      then (if sz_add headroom (b_size b) > b_capacity b then Inl (Buffer_exn Buffer_headroom)
            else Inr (b\<lparr>b_mem := blit headroom (contents b) (b_mem b), b_offset := headroom\<rparr>))
      else Inr b)"


section \<open>Single elements\<close>

definition buf_index :: "nat \<Rightarrow> buf \<Rightarrow> byte res" where
  "buf_index i b =
     (if i \<ge> b_size b then Inl (Buffer_exn Buffer_const_index) else Inr (b_mem b ! (b_offset b + i)))"

definition buf_front :: "buf \<Rightarrow> byte res" where
  "buf_front b = buf_index 0 b"

definition buf_back :: "buf \<Rightarrow> byte res" where
  "buf_back b = buf_index (sz_sub (b_size b) 1) b"

text \<open>Mutable indexing: \<open>b[i] = x\<close>.\<close>

definition buf_store :: "nat \<Rightarrow> byte \<Rightarrow> buf \<Rightarrow> buf res" where
  "buf_store i x b =
     (if i \<ge> b_size b then Inl (Buffer_exn Buffer_index)
      else Inr (b\<lparr>b_mem := (b_mem b)[b_offset b + i := x]\<rparr>))"

definition buf_push_back :: "(nat \<Rightarrow> byte) \<Rightarrow> byte \<Rightarrow> buf \<Rightarrow> buf res" where
  "buf_push_back junk x b =
     bindE (if buf_remaining 0 b = 0 then buf_resize junk (sz_add (sz_add (b_offset b) (b_size b)) 1) b
            else Inr b)
       (\<lambda>b. Inr (b\<lparr>b_mem := blit (b_offset b + b_size b) [x] (b_mem b), b_size := b_size b + 1\<rparr>))"

definition buf_push_front :: "byte \<Rightarrow> buf \<Rightarrow> buf res" where
  "buf_push_front x b =
     (if b_offset b = 0 then Inl (Buffer_exn Buffer_push_front_headroom)
      else Inr (b\<lparr>b_mem := blit (b_offset b - 1) [x] (b_mem b),
                 b_offset := b_offset b - 1, b_size := b_size b + 1\<rparr>))"

definition buf_pop_back :: "buf \<Rightarrow> (byte \<times> buf) res" where
  "buf_pop_back b =
     (if b_size b = 0 then Inl (Buffer_exn Buffer_pop_back)
      else Inr (b_mem b ! (b_offset b + (b_size b - 1)), b\<lparr>b_size := b_size b - 1\<rparr>))"

definition buf_pop_front :: "buf \<Rightarrow> (byte \<times> buf) res" where
  "buf_pop_front b =
     (if 0 \<ge> b_size b then Inl (Buffer_exn Buffer_index)
      else Inr (b_mem b ! b_offset b, b\<lparr>b_offset := b_offset b + 1, b_size := b_size b - 1\<rparr>))"

definition buf_set_trailer :: "(nat \<Rightarrow> byte) \<Rightarrow> byte \<Rightarrow> buf \<Rightarrow> buf res" where
  "buf_set_trailer junk x b =
     bindE (if buf_remaining 0 b = 0 then buf_resize junk (sz_add (sz_add (b_offset b) (b_size b)) 1) b
            else Inr b)
       (\<lambda>b. Inr (b\<lparr>b_mem := blit (b_offset b + b_size b) [x] (b_mem b)\<rparr>))"

definition buf_null_terminate :: "(nat \<Rightarrow> byte) \<Rightarrow> buf \<Rightarrow> buf res" where
  "buf_null_terminate junk b =
     (if b_size b = 0 then buf_push_back junk 0 b
      else bindE (buf_back b) (\<lambda>x. if x \<noteq> 0 then buf_push_back junk 0 b else Inr b))"


section \<open>Runs of elements\<close>

definition buf_write :: "(nat \<Rightarrow> byte) \<Rightarrow> byte list \<Rightarrow> buf \<Rightarrow> buf res" where
  "buf_write junk xs b =
     bindE (if length xs > buf_remaining 0 b
            then buf_resize junk (sz_add (sz_add (b_offset b) (b_size b)) (length xs)) b
            else Inr b)
       (\<lambda>b. Inr (b\<lparr>b_mem := blit (b_offset b + b_size b) xs (b_mem b),
                   b_size := b_size b + length xs\<rparr>))"

definition buf_prepend_alloc :: "nat \<Rightarrow> buf \<Rightarrow> buf res" where
  "buf_prepend_alloc n b =
     (if n \<le> b_offset b then Inr (b\<lparr>b_offset := b_offset b - n, b_size := b_size b + n\<rparr>)
      else Inl (Buffer_exn Buffer_headroom))"

definition buf_prepend :: "byte list \<Rightarrow> buf \<Rightarrow> buf res" where
  "buf_prepend xs b =
     bindE (buf_prepend_alloc (length xs) b)
       (\<lambda>b. Inr (b\<lparr>b_mem := blit (b_offset b) xs (b_mem b)\<rparr>))"

definition buf_read :: "nat \<Rightarrow> buf \<Rightarrow> (byte list \<times> buf) res" where
  "buf_read n b =
     (if n \<le> b_size b
      then Inr (take n (drop (b_offset b) (b_mem b)),
                b\<lparr>b_offset := b_offset b + n, b_size := b_size b - n\<rparr>)
      else Inl (Buffer_exn Buffer_underflow))"

text \<open>
  \<open>read_alloc_buf\<close> and \<open>range\<close> hand out a second buffer over the same memory; here it is a
  snapshot of that memory.
\<close>

definition buf_read_alloc_buf :: "nat \<Rightarrow> buf \<Rightarrow> (buf \<times> buf) res" where
  "buf_read_alloc_buf n b =
     (if n \<le> b_size b
      then Inr (\<lparr>b_mem = b_mem b, b_offset = b_offset b, b_size = n, b_capacity = b_capacity b,
                 b_flags = 0, b_owned = False\<rparr>,
                b\<lparr>b_offset := b_offset b + n, b_size := b_size b - n\<rparr>)
      else Inl (Buffer_exn Buffer_underflow))"

definition buf_range :: "nat \<Rightarrow> nat \<Rightarrow> buf \<Rightarrow> buf" where
  "buf_range off len b =
     (let len' = (if sz_add off len > b_size b
                  then (if off < b_size b then b_size b - off else 0) else len)
      in \<lparr>b_mem = drop (b_offset b) (b_mem b), b_offset = off, b_size = len', b_capacity = len',
          b_flags = 0, b_owned = False\<rparr>)"

definition buf_append :: "(nat \<Rightarrow> byte) \<Rightarrow> buf \<Rightarrow> buf \<Rightarrow> buf res" where
  "buf_append junk other b = buf_write junk (contents other) b"

definition buf_reset :: "(nat \<Rightarrow> byte) \<Rightarrow> nat \<Rightarrow> u32 \<Rightarrow> buf \<Rightarrow> buf res" where
  "buf_reset junk min_capacity flags b =
     (if min_capacity > b_capacity b
      then (if b_owned b then Inr (buf_init junk min_capacity flags b)
            else Inl (Buffer_exn Buffer_no_reset_impl))
      else Inr b)"

definition buf_reset_headroom :: "(nat \<Rightarrow> byte) \<Rightarrow> nat \<Rightarrow> nat \<Rightarrow> u32 \<Rightarrow> buf \<Rightarrow> buf res" where
  "buf_reset_headroom junk headroom min_capacity flags b =
     bindE (buf_reset junk min_capacity flags b) (buf_init_headroom headroom)"

definition buf_equal :: "buf \<Rightarrow> buf \<Rightarrow> bool" where
  "buf_equal a b \<longleftrightarrow>
     (if b_size a \<noteq> b_size b then False else contents a = contents b)"

definition buf_contains_null :: "buf \<Rightarrow> bool" where
  "buf_contains_null b = list_ex (\<lambda>x. x = 0) (contents b)"

definition buf_is_zeroed :: "buf \<Rightarrow> bool" where
  "buf_is_zeroed b = list_all (\<lambda>x. x = 0) (contents b)"

text \<open>Moving out of a buffer leaves it without memory; \<open>clear\<close> also drops the flags.\<close>

definition buf_move :: "buf \<Rightarrow> buf \<times> buf" where
  "buf_move other =
     (other, other\<lparr>b_mem := [], b_offset := 0, b_size := 0, b_capacity := 0\<rparr>)"

definition buf_clear :: "buf \<Rightarrow> buf" where
  "buf_clear b = b\<lparr>b_mem := [], b_capacity := 0, b_flags := 0, b_size := 0, b_offset := 0\<rparr>"

definition buf_swap :: "buf \<times> buf \<Rightarrow> buf \<times> buf" where
  "buf_swap p = (snd p, fst p)"


section \<open>The bytes a buffer holds\<close>

lemma length_fresh_mem [simp]: "length (fresh_mem junk n) = n"
  by (simp add: fresh_mem_def)

lemma length_contents [simp]: "buf_wf b \<Longrightarrow> length (contents b) = b_size b"
  by (auto simp: contents_def buf_wf_def)

lemma contents_nth: "buf_wf b \<Longrightarrow> i < b_size b \<Longrightarrow> contents b ! i = b_mem b ! (b_offset b + i)"
  by (simp add: contents_def buf_wf_def)

lemma buf_remaining_wf [simp]:
  "buf_wf b \<Longrightarrow> buf_remaining 0 b = b_capacity b - (b_offset b + b_size b)"
  by (simp add: buf_remaining_def buf_wf_def Let_def)

lemma buf_max_size_wf [simp]: "buf_wf b \<Longrightarrow> buf_max_size b = b_capacity b - b_offset b"
  by (simp add: buf_max_size_def buf_wf_def Let_def)

lemma contents_blit_mem:
  "i + length xs \<le> length (b_mem b) \<Longrightarrow> b_offset b = i \<Longrightarrow> b_size b = length xs \<Longrightarrow>
   contents (b\<lparr>b_mem := blit i xs (b_mem b)\<rparr>) = xs"
  by (simp add: contents_def blit_def min_def)

lemma grow_to_wf:
  assumes "buf_wf b" "b_capacity b \<le> n" "n < size_t_limit"
  shows "buf_wf (buf_grow_to junk n b)" and "contents (buf_grow_to junk n b) = contents b"
proof -
  show "buf_wf (buf_grow_to junk n b)"
    using assms by (auto simp: buf_wf_def buf_grow_to_def contents_def)
  show "contents (buf_grow_to junk n b) = contents b"
  proof (cases "b_size b = 0")
    case False
    then show ?thesis
      using assms length_contents [OF assms(1)]
      by (simp add: buf_grow_to_def contents_def [of "_\<lparr>b_mem := _, b_capacity := _\<rparr>"]
          blit_def min_def buf_wf_def)
  qed (simp add: buf_grow_to_def contents_def)
qed

lemma grow_to_fields [simp]:
  "b_offset (buf_grow_to junk n b) = b_offset b" "b_size (buf_grow_to junk n b) = b_size b"
  "b_capacity (buf_grow_to junk n b) = n" "b_flags (buf_grow_to junk n b) = b_flags b"
  "b_owned (buf_grow_to junk n b) = b_owned b"
  by (simp_all add: buf_grow_to_def)

text \<open>Whatever \<open>resize\<close> does, the bytes stay and the requested capacity is there.\<close>

lemma resize_Inr:
  assumes "buf_resize junk n b = Inr b'" "buf_wf b" "n < size_t_limit"
  shows "buf_wf b' \<and> contents b' = contents b \<and> b_offset b' = b_offset b \<and> b_size b' = b_size b
    \<and> n \<le> b_capacity b' \<and> b_flags b' = b_flags b \<and> b_owned b' = b_owned b"
proof -
  let ?c = "max n ((b_capacity b * 2) mod size_t_limit)"
  have "?c < size_t_limit" using assms(3) by simp
  then show ?thesis
    using assms grow_to_wf [OF assms(2), of ?c junk]
    by (auto simp: buf_resize_def buf_resize_view_def buf_resize_alloc_def Let_def not_less
        split: if_splits)
qed

text \<open>A buffer that may not grow, or is only a view, reports \<open>buffer_full\<close>.\<close>

lemma resize_Inl_iff:
  assumes "b_capacity b < n"
  shows "buf_resize junk n b =
    (if b_owned b \<and> has_flag (b_flags b) GROW
     then Inr (buf_grow_to junk (max n ((b_capacity b * 2) mod size_t_limit)) b)
     else Inl (Buffer_exn Buffer_full))"
  using assms by (auto simp: buf_resize_def buf_resize_view_def buf_resize_alloc_def Let_def)

definition can_hold :: "nat \<Rightarrow> buf \<Rightarrow> bool" where
  "can_hold n b \<longleftrightarrow>
     b_offset b + b_size b + n \<le> b_capacity b
     \<or> b_owned b \<and> has_flag (b_flags b) GROW \<and> b_offset b + b_size b + n < size_t_limit"

lemma append_in_place:
  assumes "buf_wf b" "b_offset b + b_size b + length xs \<le> b_capacity b"
  defines "b' \<equiv> b\<lparr>b_mem := blit (b_offset b + b_size b) xs (b_mem b), b_size := b_size b + length xs\<rparr>"
  shows "buf_wf b'" and "contents b' = contents b @ xs"
proof -
  show "buf_wf b'" using assms by (auto simp: buf_wf_def)
  show "contents b' = contents b @ xs"
    using assms take_drop_blit_append [of "b_offset b" "b_size b" xs "b_mem b"]
    by (simp add: contents_def buf_wf_def)
qed

lemma write_Inr:
  assumes "buf_write junk xs b = Inr b'" "buf_wf b"
    "b_offset b + b_size b + length xs < size_t_limit"
  shows "buf_wf b' \<and> contents b' = contents b @ xs \<and> b_offset b' = b_offset b"
proof -
  from assms(1) obtain b1 where b1:
    "(if length xs > buf_remaining 0 b
      then buf_resize junk (sz_add (sz_add (b_offset b) (b_size b)) (length xs)) b else Inr b) = Inr b1"
    and b': "b' = b1\<lparr>b_mem := blit (b_offset b1 + b_size b1) xs (b_mem b1),
                     b_size := b_size b1 + length xs\<rparr>"
    by (auto simp: buf_write_def elim!: bindE_InrE)
  have "buf_wf b1 \<and> contents b1 = contents b \<and> b_offset b1 = b_offset b \<and> b_size b1 = b_size b
    \<and> b_offset b + b_size b + length xs \<le> b_capacity b1"
  proof (cases "length xs > buf_remaining 0 b")
    case True
    then have "buf_resize junk (b_offset b + b_size b + length xs) b = Inr b1"
      using b1 assms(3) by simp
    from resize_Inr [OF this assms(2,3)] show ?thesis by simp
  next
    case False
    then show ?thesis using b1 assms(2) by (auto simp: buf_wf_def)
  qed
  then show ?thesis
    using append_in_place [of b1 xs] unfolding b' by simp
qed

lemma write_ok_iff:
  assumes "buf_wf b" "b_offset b + b_size b + length xs < size_t_limit"
  shows "ok (buf_write junk xs b) \<longleftrightarrow> can_hold (length xs) b"
proof (cases "length xs > buf_remaining 0 b")
  case True
  then have "b_capacity b < b_offset b + b_size b + length xs"
    using assms(1) by (simp add: buf_wf_def)
  then show ?thesis
    using True assms by (simp add: buf_write_def can_hold_def resize_Inl_iff)
next
  case False
  then show ?thesis
    using assms by (auto simp: buf_write_def can_hold_def buf_wf_def)
qed

text \<open>\<open>push_back\<close> and \<open>append\<close> are writes.\<close>

lemma push_back_write: "buf_wf b \<Longrightarrow> buf_push_back junk x b = buf_write junk [x] b"
  by (auto simp: buf_push_back_def buf_write_def)

lemma null_terminate_Inr:
  assumes "buf_null_terminate junk b = Inr b'" "buf_wf b" "b_offset b + b_size b + 1 < size_t_limit"
  shows "contents b' = (if contents b = [] \<or> last (contents b) \<noteq> 0 then contents b @ [0] else contents b)"
proof (cases "b_size b = 0")
  case True
  then have "contents b = []" by (simp add: contents_def)
  then show ?thesis
    using True assms write_Inr [of junk "[0]" b b']
    by (simp add: buf_null_terminate_def push_back_write)
next
  case False
  then have ne: "contents b \<noteq> []" and "sz_sub (b_size b) 1 = b_size b - 1"
    using assms(2) length_contents [OF assms(2)] by (auto simp: buf_wf_def simp flip: length_0_conv)
  then have lst: "buf_back b = Inr (last (contents b))"
    using False assms(2) by (simp add: buf_back_def buf_index_def last_conv_nth contents_nth)
  show ?thesis
    using False ne assms write_Inr [of junk "[0]" b b'] lst
    by (auto simp: buf_null_terminate_def push_back_write split: if_splits)
qed


section \<open>Head room: prepending and reading\<close>

lemma prepend_Inr:
  assumes "buf_prepend xs b = Inr b'" "buf_wf b"
  shows "buf_wf b' \<and> contents b' = xs @ contents b \<and> b_offset b' = b_offset b - length xs
    \<and> b_capacity b' = b_capacity b \<and> b_flags b' = b_flags b \<and> b_owned b' = b_owned b"
  using assms take_drop_blit_prepend [of xs "b_offset b" "b_mem b" "b_size b"]
  by (auto simp: buf_prepend_def buf_prepend_alloc_def buf_wf_def contents_def split: if_splits)

lemma prepend_ok_iff: "ok (buf_prepend xs b) \<longleftrightarrow> length xs \<le> b_offset b"
  by (simp add: buf_prepend_def buf_prepend_alloc_def)

lemma prepend_Inl: "buf_prepend xs b = Inl e \<Longrightarrow> e = Buffer_exn Buffer_headroom"
  by (auto simp: buf_prepend_def buf_prepend_alloc_def split: if_splits)

lemma push_front_prepend:
  "buf_push_front x b = (if b_offset b = 0 then Inl (Buffer_exn Buffer_push_front_headroom)
                         else buf_prepend [x] b)"
  by (auto simp: buf_push_front_def buf_prepend_def buf_prepend_alloc_def)

lemma read_Inr:
  assumes "buf_read n b = Inr (xs, b')" "buf_wf b"
  shows "buf_wf b' \<and> contents b = xs @ contents b' \<and> length xs = n \<and> b_offset b' = b_offset b + n
    \<and> b_capacity b' = b_capacity b"
  using assms take_add [of n "b_size b - n" "drop (b_offset b) (b_mem b)"]
  by (auto simp: buf_read_def buf_wf_def contents_def ac_simps split: if_splits)

lemma read_ok_iff: "ok (buf_read n b) \<longleftrightarrow> n \<le> b_size b"
  by (simp add: buf_read_def)

lemma read_Inl: "buf_read n b = Inl e \<Longrightarrow> e = Buffer_exn Buffer_underflow"
  by (auto simp: buf_read_def split: if_splits)

lemma pop_front_read:
  "buf_pop_front b =
     (if b_size b = 0 then Inl (Buffer_exn Buffer_index)
      else Inr (b_mem b ! b_offset b, b\<lparr>b_offset := b_offset b + 1, b_size := b_size b - 1\<rparr>))"
  by (simp add: buf_pop_front_def)

lemma pop_front_Inr:
  assumes "buf_pop_front b = Inr (x, b')" "buf_wf b"
  shows "buf_wf b' \<and> contents b = x # contents b'"
  using assms read_Inr [of 1 b "[x]" b']
  by (auto simp: buf_pop_front_def buf_read_def buf_wf_def contents_def take_Suc_conv_app_nth
      split: if_splits)

lemma advance_read: "buf_advance n b =
    (case buf_read n b of Inl e \<Rightarrow> Inl (Buffer_exn Buffer_overflow) | Inr (_, b') \<Rightarrow> Inr b')"
  by (simp add: buf_advance_def buf_read_def)

lemma advance_Inr:
  assumes "buf_advance n b = Inr b'" "buf_wf b"
  shows "buf_wf b' \<and> contents b' = drop n (contents b) \<and> n \<le> b_size b"
  using assms by (auto simp: buf_advance_def buf_wf_def contents_def drop_take ac_simps split: if_splits)

lemma realign_Inr:
  assumes "buf_realign h b = Inr b'" "buf_wf b" "h < size_t_limit" "h + b_size b < size_t_limit"
  shows "buf_wf b' \<and> contents b' = contents b \<and> b_offset b' = h"
proof (cases "h = b_offset b")
  case True
  then show ?thesis using assms by (simp add: buf_realign_def)
next
  case False
  then have b': "b' = b\<lparr>b_mem := blit h (contents b) (b_mem b), b_offset := h\<rparr>"
    and le: "h + b_size b \<le> b_capacity b"
    using assms by (auto simp: buf_realign_def split: if_splits)
  have "length (contents b) = b_size b" using assms(2) by simp
  then show ?thesis
    using le assms(2) contents_blit_mem [of h "contents b" "b\<lparr>b_offset := h\<rparr>"]
    by (auto simp: b' buf_wf_def contents_def)
qed


section \<open>The interface: a byte queue with head room\<close>

text \<open>
  What the packet codecs of the protocol rely on: bytes are pushed in front and read off the
  front, both operations fail instead of going out of bounds, and neither touches the other
  bytes. The clients' round trips are proved once, here.
\<close>

locale byte_queue =
  fixes view :: "'b \<Rightarrow> byte list"
    and inv :: "'b \<Rightarrow> bool"
    and room :: "'b \<Rightarrow> nat"
    and prepend :: "byte list \<Rightarrow> 'b \<Rightarrow> 'b res"
    and read :: "nat \<Rightarrow> 'b \<Rightarrow> (byte list \<times> 'b) res"
  assumes prepend_view: "inv b \<Longrightarrow> prepend xs b = Inr b' \<Longrightarrow>
      inv b' \<and> view b' = xs @ view b \<and> room b' = room b - length xs"
    and prepend_ok: "inv b \<Longrightarrow> length xs \<le> room b \<Longrightarrow> ok (prepend xs b)"
    and prepend_full: "inv b \<Longrightarrow> room b < length xs \<Longrightarrow> prepend xs b = Inl (Buffer_exn Buffer_headroom)"
    and read_view: "inv b \<Longrightarrow> read n b = Inr (xs, b') \<Longrightarrow>
      inv b' \<and> view b = xs @ view b' \<and> length xs = n \<and> room b' = room b + n"
    and read_ok: "inv b \<Longrightarrow> n \<le> length (view b) \<Longrightarrow> ok (read n b)"
    and read_short: "inv b \<Longrightarrow> length (view b) < n \<Longrightarrow> read n b = Inl (Buffer_exn Buffer_underflow)"
begin

lemma read_prefix:
  assumes "inv b" "view b = xs @ ys"
  shows "\<exists>b'. read (length xs) b = Inr (xs, b') \<and> inv b' \<and> view b' = ys \<and> room b' = room b + length xs"
proof -
  obtain xs' b' where r: "read (length xs) b = Inr (xs', b')"
    using read_ok [of b "length xs"] assms by (auto simp: ok_def)
  from read_view [OF assms(1) r] have "inv b'" "xs @ ys = xs' @ view b'" "length xs' = length xs"
    "room b' = room b + length xs"
    using assms(2) by auto
  then show ?thesis using r by auto
qed

lemma prepend_read:
  assumes "inv b" "prepend xs b = Inr b'"
  shows "\<exists>b''. read (length xs) b' = Inr (xs, b'') \<and> inv b'' \<and> view b'' = view b"
  using read_prefix [of b' xs "view b"] prepend_view [OF assms] by auto

lemma prepend_twice:
  assumes "inv b" "bindE (prepend xs b) (prepend ys) = Inr b'"
  shows "inv b' \<and> view b' = ys @ xs @ view b \<and> room b' = room b - (length xs + length ys)"
proof -
  from assms(2) obtain b1 where b1: "prepend xs b = Inr b1" "prepend ys b1 = Inr b'"
    by (rule bindE_InrE)
  from prepend_view [OF assms(1) b1(1)] prepend_view [OF _ b1(2)] show ?thesis by simp
qed

lemma prepend_twice_ok:
  assumes "inv b" "length xs + length ys \<le> room b"
  shows "ok (bindE (prepend xs b) (prepend ys))"
proof -
  obtain b1 where "prepend xs b = Inr b1"
    using prepend_ok [OF assms(1), of xs] assms(2) by (auto simp: ok_def)
  moreover from prepend_view [OF assms(1) this] have "ok (prepend ys b1)"
    using prepend_ok [of b1 ys] assms(2) by simp
  ultimately show ?thesis by simp
qed

end

interpretation bufq: byte_queue contents buf_wf b_offset buf_prepend buf_read
proof (unfold_locales, goal_cases)
  case (1 b xs b')
  then show ?case using prepend_Inr by blast
next
  case (2 b xs)
  then show ?case by (simp add: prepend_ok_iff)
next
  case (3 b xs)
  then show ?case by (simp add: buf_prepend_def buf_prepend_alloc_def)
next
  case (4 b n xs b')
  then show ?case using read_Inr by blast
next
  case (5 b n)
  then show ?case by (simp add: read_ok_iff)
next
  case (6 b n)
  then show ?case by (simp add: buf_read_def)
qed

end
