(* ===== verification/Error_Types.thy ===== *)
theory Error_Types
  imports Vpn_Prelude
begin

text \<open>
  \<^verbatim>\<open>error/error.hpp\<close>: the error numbers of the client and the table of their names. The
  enumerators are numbers, as in C++: they index the session statistics
  (\<open>SessionStats::error\<close>), and \<open>name\<close> takes any number.
\<close>

type_synonym error_type = nat

abbreviation (input) SUCCESS :: error_type where "SUCCESS \<equiv> 0"
abbreviation (input) NETWORK_RECV_ERROR :: error_type where "NETWORK_RECV_ERROR \<equiv> 1"
abbreviation (input) NETWORK_EOF_ERROR :: error_type where "NETWORK_EOF_ERROR \<equiv> 2"
abbreviation (input) NETWORK_SEND_ERROR :: error_type where "NETWORK_SEND_ERROR \<equiv> 3"
abbreviation (input) NETWORK_UNAVAILABLE :: error_type where "NETWORK_UNAVAILABLE \<equiv> 4"
abbreviation (input) DECRYPT_ERROR :: error_type where "DECRYPT_ERROR \<equiv> 5"
abbreviation (input) HMAC_ERROR :: error_type where "HMAC_ERROR \<equiv> 6"
abbreviation (input) REPLAY_ERROR :: error_type where "REPLAY_ERROR \<equiv> 7"
abbreviation (input) BUFFER_ERROR :: error_type where "BUFFER_ERROR \<equiv> 8"
abbreviation (input) CC_ERROR :: error_type where "CC_ERROR \<equiv> 9"
abbreviation (input) BAD_SRC_ADDR :: error_type where "BAD_SRC_ADDR \<equiv> 10"
abbreviation (input) COMPRESS_ERROR :: error_type where "COMPRESS_ERROR \<equiv> 11"
abbreviation (input) RESOLVE_ERROR :: error_type where "RESOLVE_ERROR \<equiv> 12"
abbreviation (input) SOCKET_PROTECT_ERROR :: error_type where "SOCKET_PROTECT_ERROR \<equiv> 13"
abbreviation (input) TUN_READ_ERROR :: error_type where "TUN_READ_ERROR \<equiv> 14"
abbreviation (input) TUN_WRITE_ERROR :: error_type where "TUN_WRITE_ERROR \<equiv> 15"
abbreviation (input) TUN_FRAMING_ERROR :: error_type where "TUN_FRAMING_ERROR \<equiv> 16"
abbreviation (input) TUN_SETUP_FAILED :: error_type where "TUN_SETUP_FAILED \<equiv> 17"
abbreviation (input) TUN_IFACE_CREATE :: error_type where "TUN_IFACE_CREATE \<equiv> 18"
abbreviation (input) TUN_IFACE_DISABLED :: error_type where "TUN_IFACE_DISABLED \<equiv> 19"
abbreviation (input) TUN_ERROR :: error_type where "TUN_ERROR \<equiv> 20"
abbreviation (input) TUN_REGISTER_RINGS_ERROR :: error_type where "TUN_REGISTER_RINGS_ERROR \<equiv> 21"
abbreviation (input) TAP_NOT_SUPPORTED :: error_type where "TAP_NOT_SUPPORTED \<equiv> 22"
abbreviation (input) REROUTE_GW_NO_DNS :: error_type where "REROUTE_GW_NO_DNS \<equiv> 23"
abbreviation (input) TRANSPORT_ERROR :: error_type where "TRANSPORT_ERROR \<equiv> 24"
abbreviation (input) TCP_OVERFLOW :: error_type where "TCP_OVERFLOW \<equiv> 25"
abbreviation (input) TCP_SIZE_ERROR :: error_type where "TCP_SIZE_ERROR \<equiv> 26"
abbreviation (input) TCP_CONNECT_ERROR :: error_type where "TCP_CONNECT_ERROR \<equiv> 27"
abbreviation (input) UDP_CONNECT_ERROR :: error_type where "UDP_CONNECT_ERROR \<equiv> 28"
abbreviation (input) SSL_ERROR :: error_type where "SSL_ERROR \<equiv> 29"
abbreviation (input) SSL_PARTIAL_WRITE :: error_type where "SSL_PARTIAL_WRITE \<equiv> 30"
abbreviation (input) SSL_CA_MD_TOO_WEAK :: error_type where "SSL_CA_MD_TOO_WEAK \<equiv> 31"
abbreviation (input) SSL_CA_KEY_TOO_SMALL :: error_type where "SSL_CA_KEY_TOO_SMALL \<equiv> 32"
abbreviation (input) SSL_DH_KEY_TOO_SMALL :: error_type where "SSL_DH_KEY_TOO_SMALL \<equiv> 33"
abbreviation (input) ENCAPSULATION_ERROR :: error_type where "ENCAPSULATION_ERROR \<equiv> 34"
abbreviation (input) EPKI_CERT_ERROR :: error_type where "EPKI_CERT_ERROR \<equiv> 35"
abbreviation (input) EPKI_SIGN_ERROR :: error_type where "EPKI_SIGN_ERROR \<equiv> 36"
abbreviation (input) HANDSHAKE_TIMEOUT :: error_type where "HANDSHAKE_TIMEOUT \<equiv> 37"
abbreviation (input) KEEPALIVE_TIMEOUT :: error_type where "KEEPALIVE_TIMEOUT \<equiv> 38"
abbreviation (input) INACTIVE_TIMEOUT :: error_type where "INACTIVE_TIMEOUT \<equiv> 39"
abbreviation (input) CONNECTION_TIMEOUT :: error_type where "CONNECTION_TIMEOUT \<equiv> 40"
abbreviation (input) PRIMARY_EXPIRE :: error_type where "PRIMARY_EXPIRE \<equiv> 41"
abbreviation (input) TLS_VERSION_MIN :: error_type where "TLS_VERSION_MIN \<equiv> 42"
abbreviation (input) TLS_AUTH_FAIL :: error_type where "TLS_AUTH_FAIL \<equiv> 43"
abbreviation (input) TLS_CRYPT_META_FAIL :: error_type where "TLS_CRYPT_META_FAIL \<equiv> 44"
abbreviation (input) CERT_VERIFY_FAIL :: error_type where "CERT_VERIFY_FAIL \<equiv> 45"
abbreviation (input) PEM_PASSWORD_FAIL :: error_type where "PEM_PASSWORD_FAIL \<equiv> 46"
abbreviation (input) AUTH_FAILED :: error_type where "AUTH_FAILED \<equiv> 47"
abbreviation (input) CLIENT_HALT :: error_type where "CLIENT_HALT \<equiv> 48"
abbreviation (input) CLIENT_RESTART :: error_type where "CLIENT_RESTART \<equiv> 49"
abbreviation (input) TUN_HALT :: error_type where "TUN_HALT \<equiv> 50"
abbreviation (input) RELAY :: error_type where "RELAY \<equiv> 51"
abbreviation (input) RELAY_ERROR :: error_type where "RELAY_ERROR \<equiv> 52"
abbreviation (input) N_PAUSE :: error_type where "N_PAUSE \<equiv> 53"
abbreviation (input) N_RECONNECT :: error_type where "N_RECONNECT \<equiv> 54"
abbreviation (input) N_KEY_LIMIT_RENEG :: error_type where "N_KEY_LIMIT_RENEG \<equiv> 55"
abbreviation (input) KEY_STATE_ERROR :: error_type where "KEY_STATE_ERROR \<equiv> 56"
abbreviation (input) PROXY_ERROR :: error_type where "PROXY_ERROR \<equiv> 57"
abbreviation (input) PROXY_NEED_CREDS :: error_type where "PROXY_NEED_CREDS \<equiv> 58"
abbreviation (input) KEV_NEGOTIATE_ERROR :: error_type where "KEV_NEGOTIATE_ERROR \<equiv> 59"
abbreviation (input) KEV_PENDING_ERROR :: error_type where "KEV_PENDING_ERROR \<equiv> 60"
abbreviation (input) N_KEV_EXPIRE :: error_type where "N_KEV_EXPIRE \<equiv> 61"
abbreviation (input) KEY_EXPANSION_ERROR :: error_type where "KEY_EXPANSION_ERROR \<equiv> 62"
abbreviation (input) PKTID_INVALID :: error_type where "PKTID_INVALID \<equiv> 63"
abbreviation (input) PKTID_BACKTRACK :: error_type where "PKTID_BACKTRACK \<equiv> 64"
abbreviation (input) PKTID_EXPIRE :: error_type where "PKTID_EXPIRE \<equiv> 65"
abbreviation (input) PKTID_REPLAY :: error_type where "PKTID_REPLAY \<equiv> 66"
abbreviation (input) PKTID_TIME_BACKTRACK :: error_type where "PKTID_TIME_BACKTRACK \<equiv> 67"
abbreviation (input) N_ERRORS :: nat where "N_ERRORS \<equiv> 68"

definition error_names :: "string list" where
  "error_names =
   [''SUCCESS'', ''NETWORK_RECV_ERROR'', ''NETWORK_EOF_ERROR'', ''NETWORK_SEND_ERROR'',
    ''NETWORK_UNAVAILABLE'', ''DECRYPT_ERROR'', ''HMAC_ERROR'', ''REPLAY_ERROR'',
    ''BUFFER_ERROR'', ''CC_ERROR'', ''BAD_SRC_ADDR'', ''COMPRESS_ERROR'', ''RESOLVE_ERROR'',
    ''SOCKET_PROTECT_ERROR'', ''TUN_READ_ERROR'', ''TUN_WRITE_ERROR'', ''TUN_FRAMING_ERROR'',
    ''TUN_SETUP_FAILED'', ''TUN_IFACE_CREATE'', ''TUN_IFACE_DISABLED'', ''TUN_ERROR'',
    ''TUN_REGISTER_RINGS_ERROR'', ''TAP_NOT_SUPPORTED'', ''REROUTE_GW_NO_DNS'',
    ''TRANSPORT_ERROR'', ''TCP_OVERFLOW'', ''TCP_SIZE_ERROR'', ''TCP_CONNECT_ERROR'',
    ''UDP_CONNECT_ERROR'', ''SSL_ERROR'', ''SSL_PARTIAL_WRITE'', ''SSL_CA_MD_TOO_WEAK'',
    ''SSL_CA_KEY_TOO_SMALL'', ''SSL_DH_KEY_TOO_SMALL'', ''ENCAPSULATION_ERROR'',
    ''EPKI_CERT_ERROR'', ''EPKI_SIGN_ERROR'', ''HANDSHAKE_TIMEOUT'', ''KEEPALIVE_TIMEOUT'',
    ''INACTIVE_TIMEOUT'', ''CONNECTION_TIMEOUT'', ''PRIMARY_EXPIRE'', ''TLS_VERSION_MIN'',
    ''TLS_AUTH_FAIL'', ''TLS_CRYPT_META_FAIL'', ''CERT_VERIFY_FAIL'', ''PEM_PASSWORD_FAIL'',
    ''AUTH_FAILED'', ''CLIENT_HALT'', ''CLIENT_RESTART'', ''TUN_HALT'', ''RELAY'',
    ''RELAY_ERROR'', ''N_PAUSE'', ''N_RECONNECT'', ''N_KEY_LIMIT_RENEG'', ''KEY_STATE_ERROR'',
    ''PROXY_ERROR'', ''PROXY_NEED_CREDS'', ''KEV_NEGOTIATE_ERROR'', ''KEV_PENDING_ERROR'',
    ''N_KEV_EXPIRE'', ''KEV_EXPANSION_ERROR'', ''PKTID_INVALID'', ''PKTID_BACKTRACK'',
    ''PKTID_EXPIRE'', ''PKTID_REPLAY'', ''PKTID_TIME_BACKTRACK'']"

definition error_name :: "nat \<Rightarrow> string" where
  "error_name t = (if t < N_ERRORS then error_names ! t else ''UNKNOWN_ERROR_TYPE'')"

text \<open>The \<open>static_assert\<close> of the source: the name table has one entry per error number.\<close>

lemma length_error_names: "length error_names = N_ERRORS"
  by (simp add: error_names_def)

lemma distinct_error_names: "distinct error_names"
  by (simp add: error_names_def)

text \<open>The fall-back name is no entry of the table.\<close>

lemma unknown_not_in_names: "''UNKNOWN_ERROR_TYPE'' \<notin> set error_names"
  by (simp add: error_names_def)

end
