(* ===== verification/Packet_Id.thy ===== *)
theory Packet_Id
  imports Buffers Error_Types
begin

text \<open>
  \<^verbatim>\<open>crypto/packet_id.hpp\<close>: the packet IDs that number the packets of a key, their wire form, the
  sender's counter and the receiver's replay window. The window is the code's bitmap
  \<open>history\<close>, a ring of bits whose position \<open>base\<close> stands for the highest ID received; the
  abstract window \<open>aw\<close> is the set of IDs accepted in the current time epoch, and the main
  result is that \<open>do_test_add\<close> decides exactly as the abstract window does.
\<close>


section \<open>Packet IDs and their wire form\<close>

datatype pid_form = SHORT_FORM | LONG_FORM

record pid =
  p_id :: u32
  p_time :: int

definition pid_size :: "pid_form \<Rightarrow> nat" where
  "pid_size form = (if form = LONG_FORM then 4 + 4 else 4)"

definition pid_is_valid :: "pid \<Rightarrow> bool" where
  "pid_is_valid p \<longleftrightarrow> p_id p \<noteq> 0"

definition pid_reset :: pid where
  "pid_reset = \<lparr>p_id = 0, p_time = 0\<rparr>"

definition pid_read :: "pid_form \<Rightarrow> buf \<Rightarrow> (pid \<times> buf) res" where
  "pid_read form b =
     bindE (buf_read 4 b) (\<lambda>(net_id, b).
       if form = LONG_FORM
       then bindE (buf_read 4 b) (\<lambda>(net_time, b).
              Inr (\<lparr>p_id = of_be32 net_id, p_time = uint (of_be32 net_time)\<rparr>, b))
       else Inr (\<lparr>p_id = of_be32 net_id, p_time = 0\<rparr>, b))"

text \<open>\<open>htonl(time)\<close> keeps the low 32 bits of the 64-bit \<open>time_t\<close>.\<close>

definition pid_write :: "(nat \<Rightarrow> byte) \<Rightarrow> pid_form \<Rightarrow> bool \<Rightarrow> pid \<Rightarrow> buf \<Rightarrow> buf res" where
  "pid_write junk form prepend p b =
     (let net_id = be32 (p_id p); net_time = be32 (word_of_int (p_time p))
      in if prepend
         then bindE (if form = LONG_FORM then buf_prepend net_time b else Inr b) (buf_prepend net_id)
         else bindE (buf_write junk net_id b)
                (\<lambda>b. if form = LONG_FORM then buf_write junk net_time b else Inr b))"


section \<open>The sender's counter\<close>

record pid_send =
  ps_pid :: pid
  ps_form :: pid_form

definition pid_send_init :: "pid_form \<Rightarrow> pid_send" where
  "pid_send_init form = \<lparr>ps_pid = \<lparr>p_id = 0, p_time = 0\<rparr>, ps_form = form\<rparr>"

text \<open>
  The counter is changed before \<open>packet_id_wrap\<close> is thrown, so the state after the exception
  is part of the result.
\<close>

definition pid_send_next :: "int \<Rightarrow> pid_send \<Rightarrow> pid res \<times> pid_send" where
  "pid_send_next now s =
     (let time = (if p_time (ps_pid s) = 0 then now else p_time (ps_pid s));
          id = p_id (ps_pid s) + 1
      in if id = 0
         then (if ps_form s \<noteq> LONG_FORM
               then (Inl Packet_id_wrap, s\<lparr>ps_pid := \<lparr>p_id = id, p_time = time\<rparr>\<rparr>)
               else (Inr \<lparr>p_id = 1, p_time = now\<rparr>, s\<lparr>ps_pid := \<lparr>p_id = 1, p_time = now\<rparr>\<rparr>))
         else (Inr \<lparr>p_id = id, p_time = time\<rparr>, s\<lparr>ps_pid := \<lparr>p_id = id, p_time = time\<rparr>\<rparr>))"

definition pid_send_write_next ::
  "(nat \<Rightarrow> byte) \<Rightarrow> bool \<Rightarrow> int \<Rightarrow> pid_send \<Rightarrow> buf \<Rightarrow> buf res \<times> pid_send" where
  "pid_send_write_next junk prepend now s b =
     (case pid_send_next now s of
        (Inl e, s') \<Rightarrow> (Inl e, s')
      | (Inr p, s') \<Rightarrow> (pid_write junk (ps_form s) prepend p b, s'))"

definition pid_send_wrap_warning :: "pid_send \<Rightarrow> bool" where
  "pid_send_wrap_warning s \<longleftrightarrow> p_id (ps_pid s) \<ge> 0xFF000000"


section \<open>The receiver's replay window\<close>

text \<open>\<open>PacketIDReceive\<close> is \<open>PacketIDReceiveType<8, 30>\<close>.\<close>

abbreviation (input) REPLAY_WINDOW_BYTES :: nat where "REPLAY_WINDOW_BYTES \<equiv> 256"
abbreviation (input) REPLAY_WINDOW_SIZE :: u32 where "REPLAY_WINDOW_SIZE \<equiv> 2048"
abbreviation (input) PKTID_RECV_EXPIRE :: int where "PKTID_RECV_EXPIRE \<equiv> 30"

record pid_recv =
  pr_initialized :: bool
  pr_base :: u32
  pr_extent :: u32
  pr_expire :: int
  pr_id_high :: u32
  pr_time_high :: int
  pr_id_floor :: u32
  pr_max_backtrack :: u32
  pr_mode :: int
  pr_form :: pid_form
  pr_unit :: int
  pr_name :: string
  pr_stats :: "error_type list"
  pr_history :: "byte list"

definition pid_recv_init ::
  "int \<Rightarrow> pid_form \<Rightarrow> string \<Rightarrow> int \<Rightarrow> error_type list \<Rightarrow> pid_recv" where
  "pid_recv_init mode form name unit stats =
     \<lparr>pr_initialized = True, pr_base = 0, pr_extent = 0, pr_expire = 0, pr_id_high = 0,
      pr_time_high = 0, pr_id_floor = 0, pr_max_backtrack = 0, pr_mode = mode, pr_form = form,
      pr_unit = unit, pr_name = name, pr_stats = stats,
      pr_history = replicate REPLAY_WINDOW_BYTES 0\<rparr>"

definition replay_index :: "u32 \<Rightarrow> u32 \<Rightarrow> u32" where
  "replay_index base i = (base + i) AND (REPLAY_WINDOW_SIZE - 1)"

definition history_bit :: "byte list \<Rightarrow> u32 \<Rightarrow> bool" where
  "history_bit h i \<longleftrightarrow> h ! unat (i div 8) AND push_bit (unat (i mod 8)) 1 \<noteq> 0"

definition history_set :: "u32 \<Rightarrow> byte list \<Rightarrow> byte list" where
  "history_set i h =
     h[unat (i div 8) := h ! unat (i div 8) OR push_bit (unat (i mod 8)) 1]"

definition history_clear :: "u32 \<Rightarrow> byte list \<Rightarrow> byte list" where
  "history_clear i h =
     h[unat (i div 8) := h ! unat (i div 8) AND NOT (push_bit (unat (i mod 8)) 1)]"

text \<open>The loop that clears the bits of the IDs a forward jump skipped.\<close>

definition history_clear_skipped :: "u32 \<Rightarrow> u32 \<Rightarrow> byte list \<Rightarrow> byte list" where
  "history_clear_skipped base delta h =
     fold (\<lambda>i. history_clear (replay_index base (of_nat i))) [1..<unat delta] h"

text \<open>
  The three ways an ID of the current time epoch is treated: next in sequence, a jump forward,
  a backtrack.
\<close>

definition accept_next :: "pid \<Rightarrow> pid_recv \<Rightarrow> pid_recv" where
  "accept_next pin s =
     (let base = replay_index (pr_base s) (-1)
      in s\<lparr>pr_base := base, pr_history := history_set base (pr_history s),
           pr_extent := (if pr_extent s < REPLAY_WINDOW_SIZE then pr_extent s + 1 else pr_extent s),
           pr_id_high := p_id pin\<rparr>)"

definition accept_jump :: "pid \<Rightarrow> pid_recv \<Rightarrow> pid_recv" where
  "accept_jump pin s =
     (let delta = p_id pin - pr_id_high s
      in if delta < REPLAY_WINDOW_SIZE
         then (let base = replay_index (pr_base s) (- delta);
                   ext = pr_extent s + delta
               in s\<lparr>pr_base := base,
                    pr_extent := (if ext > REPLAY_WINDOW_SIZE then REPLAY_WINDOW_SIZE else ext),
                    pr_history := history_clear_skipped base delta (history_set base (pr_history s)),
                    pr_id_high := p_id pin\<rparr>)
         else s\<lparr>pr_base := 0, pr_extent := REPLAY_WINDOW_SIZE,
                pr_history := (replicate REPLAY_WINDOW_BYTES 0)[0 := 1], pr_id_high := p_id pin\<rparr>)"

definition accept_backtrack :: "pid \<Rightarrow> bool \<Rightarrow> pid_recv \<Rightarrow> error_type \<times> pid_recv" where
  "accept_backtrack pin md s =
     (let delta = pr_id_high s - p_id pin;
          s = (if delta > pr_max_backtrack s then s\<lparr>pr_max_backtrack := delta\<rparr> else s)
      in if delta < pr_extent s
         then (if p_id pin > pr_id_floor s
               then (let ri = replay_index (pr_base s) delta
                     in if history_bit (pr_history s) ri then (PKTID_REPLAY, s)
                        else if \<not> md then (SUCCESS, s)
                        else (SUCCESS, s\<lparr>pr_history := history_set ri (pr_history s)\<rparr>))
               else (PKTID_EXPIRE, s))
         else (PKTID_BACKTRACK, s))"

definition expire_floor :: "int \<Rightarrow> pid_recv \<Rightarrow> pid_recv" where
  "expire_floor now s =
     (if now \<ge> pr_expire s then s\<lparr>pr_id_floor := pr_id_high s, pr_expire := now + PKTID_RECV_EXPIRE\<rparr>
      else s\<lparr>pr_expire := now + PKTID_RECV_EXPIRE\<rparr>)"

definition epoch_reset :: "pid \<Rightarrow> pid_recv \<Rightarrow> pid_recv" where
  "epoch_reset pin s =
     s\<lparr>pr_base := 0, pr_extent := 0, pr_id_high := 0, pr_time_high := p_time pin, pr_id_floor := 0\<rparr>"

definition check_id :: "pid \<Rightarrow> bool \<Rightarrow> pid_recv \<Rightarrow> error_type \<times> pid_recv" where
  "check_id pin md s =
     (if p_id pin = pr_id_high s + 1
      then (SUCCESS, if md then accept_next pin s else s)
      else if p_id pin > pr_id_high s
      then (SUCCESS, if md then accept_jump pin s else s)
      else accept_backtrack pin md s)"

definition do_test_add :: "pid \<Rightarrow> int \<Rightarrow> bool \<Rightarrow> pid_recv \<Rightarrow> (error_type \<times> pid_recv) res" where
  "do_test_add pin now md s =
     (if \<not> pr_initialized s then Inl Packet_id_not_initialized
      else Inr (let s = expire_floor now s
        in if \<not> pid_is_valid pin then (PKTID_INVALID, s)
           else if p_time pin \<noteq> pr_time_high s
           then (if p_time pin > pr_time_high s
                 then (if \<not> md then (SUCCESS, s) else check_id pin md (epoch_reset pin s))
                 else (PKTID_TIME_BACKTRACK, s))
           else check_id pin md s))"

definition test_add :: "pid \<Rightarrow> int \<Rightarrow> bool \<Rightarrow> pid_recv \<Rightarrow> (bool \<times> pid_recv) res" where
  "test_add pin now md s =
     bindE (do_test_add pin now md s) (\<lambda>(err, s).
       if err \<noteq> SUCCESS then Inr (False, s\<lparr>pr_stats := pr_stats s @ [err]\<rparr>) else Inr (True, s))"

definition pid_recv_read_next :: "pid_recv \<Rightarrow> buf \<Rightarrow> (pid \<times> buf) res" where
  "pid_recv_read_next s b =
     (if \<not> pr_initialized s then Inl Packet_id_not_initialized else pid_read (pr_form s) b)"


section \<open>The history bitmap\<close>

lemma unat_replay_index: "unat (replay_index b i) = (unat b + unat i) mod 2048"
proof -
  have "replay_index b i = take_bit 11 (b + i)"
    by (simp add: replay_index_def take_bit_eq_mask mask_eq_exp_minus_1)
  then have "unat (replay_index b i) = (unat b + unat i) mod 2 ^ 32 mod 2 ^ 11"
    by (simp add: unsigned_take_bit_eq take_bit_eq_mod unat_word_ariths)
  then show ?thesis
    by (simp add: mod_mod_cancel)
qed

lemma replay_index_bound [simp]: "unat (replay_index b i) < 2048"
  by (simp add: unat_replay_index)

lemma replay_index_add: "replay_index (replay_index b i) j = replay_index b (i + j)"
proof (rule word_unat_eq_iff [THEN iffD2])
  have "unat (i + j) mod 2048 = (unat i + unat j) mod 2048"
    by (simp add: unat_word_ariths mod_mod_cancel)
  then show "unat (replay_index (replay_index b i) j) = unat (replay_index b (i + j))"
    by (metis (no_types, opaque_lifting) unat_replay_index mod_add_left_eq mod_add_right_eq add.assoc)
qed

lemma replay_index_0: "unat b < 2048 \<Longrightarrow> replay_index b 0 = b"
  by (simp add: word_unat_eq_iff unat_replay_index)

lemma unat_of_nat_small: "d < 2048 \<Longrightarrow> unat (of_nat d :: u32) = d"
  by (simp add: unat_of_nat)

lemma replay_index_inject:
  assumes "i < 2048" "j < 2048" "replay_index b (of_nat i) = replay_index b (of_nat j)"
  shows "i = j"
proof -
  have cancel: "replay_index (replay_index b x) (- b) = replay_index 0 x" for x
    by (simp add: replay_index_add) (simp add: replay_index_def)
  have "unat (replay_index 0 (of_nat i)) = unat (replay_index 0 (of_nat j))"
    using assms(3) cancel by metis
  then show ?thesis
    using assms(1,2) by (simp add: unat_replay_index unat_of_nat_small)
qed

lemma history_bit_iff:
  "history_bit h i \<longleftrightarrow> bit (h ! (unat i div 8)) (unat i mod 8)"
  by (simp add: history_bit_def unat_div unat_mod bit_iff_and_push_bit_not_eq_0)

lemma index_pair_eq: "unat (i :: u32) div 8 = unat j div 8 \<Longrightarrow> unat i mod 8 = unat j mod 8 \<Longrightarrow> i = j"
  by (metis div_mult_mod_eq word_unat_eq_iff)

lemma history_set_nth:
  assumes "length h = REPLAY_WINDOW_BYTES" "unat i < 2048"
  shows "history_set i h ! k = (if k = unat i div 8 then h ! k OR push_bit (unat i mod 8) 1 else h ! k)"
    and "history_clear i h ! k = (if k = unat i div 8 then h ! k AND NOT (push_bit (unat i mod 8) 1) else h ! k)"
proof -
  have "unat i div 8 < 256" using assms(2) by auto
  then show "history_set i h ! k = (if k = unat i div 8 then h ! k OR push_bit (unat i mod 8) 1 else h ! k)"
    "history_clear i h ! k = (if k = unat i div 8 then h ! k AND NOT (push_bit (unat i mod 8) 1) else h ! k)"
    using assms(1) by (simp_all add: history_set_def history_clear_def nth_list_update unat_div unat_mod)
qed

lemma bit_byte_single: "n < 8 \<Longrightarrow> bit (2 ^ m :: byte) n \<longleftrightarrow> n = m"
  by (auto simp: bit_simps)

lemma history_bit_set:
  assumes "length h = REPLAY_WINDOW_BYTES" "unat i < 2048"
  shows "history_bit (history_set i h) j \<longleftrightarrow> i = j \<or> history_bit h j"
proof (cases "unat j div 8 = unat i div 8")
  case True
  then have "i = j \<longleftrightarrow> unat j mod 8 = unat i mod 8"
    using index_pair_eq [of i j] by auto
  then show ?thesis
    using True by (auto simp: history_bit_iff history_set_nth [OF assms] bit_or_iff bit_byte_single)
next
  case False
  then show ?thesis by (auto simp: history_bit_iff history_set_nth [OF assms])
qed

lemma history_bit_clear:
  assumes "length h = REPLAY_WINDOW_BYTES" "unat i < 2048"
  shows "history_bit (history_clear i h) j \<longleftrightarrow> i \<noteq> j \<and> history_bit h j"
proof (cases "unat j div 8 = unat i div 8")
  case True
  then have "i = j \<longleftrightarrow> unat j mod 8 = unat i mod 8"
    using index_pair_eq [of i j] by auto
  then show ?thesis
    using True
    by (auto simp: history_bit_iff history_set_nth [OF assms] bit_and_iff bit_not_iff bit_byte_single)
next
  case False
  then show ?thesis by (auto simp: history_bit_iff history_set_nth [OF assms])
qed

lemma length_history_set [simp]: "length (history_set i h) = length h"
  and length_history_clear [simp]: "length (history_clear i h) = length h"
  by (simp_all add: history_set_def history_clear_def)

lemma fold_history_clear:
  assumes "length h = REPLAY_WINDOW_BYTES" "\<And>i. unat (f i) < 2048" "unat j < 2048"
  shows "length (fold (\<lambda>i. history_clear (f i)) is h) = REPLAY_WINDOW_BYTES
    \<and> (history_bit (fold (\<lambda>i. history_clear (f i)) is h) j \<longleftrightarrow> j \<notin> f ` set is \<and> history_bit h j)"
  using assms by (induction "is" arbitrary: h) (auto simp: history_bit_clear)

lemma history_clear_skipped_bit:
  assumes "length h = REPLAY_WINDOW_BYTES" "unat j < 2048"
  shows "length (history_clear_skipped b delta h) = REPLAY_WINDOW_BYTES"
    and "history_bit (history_clear_skipped b delta h) j
      \<longleftrightarrow> (\<forall>i. 1 \<le> i \<longrightarrow> i < unat delta \<longrightarrow> j \<noteq> replay_index b (of_nat i)) \<and> history_bit h j"
  using fold_history_clear [OF assms(1) _ assms(2), of "\<lambda>i. replay_index b (of_nat i)" "[1..<unat delta]"]
  by (auto simp: history_clear_skipped_def)

lemma history_bit_zero: "unat j < 2048 \<Longrightarrow> \<not> history_bit (replicate REPLAY_WINDOW_BYTES 0) j"
  by (simp add: history_bit_iff less_mult_imp_div_less)

lemma history_bit_one:
  assumes "unat j < 2048"
  shows "history_bit ((replicate REPLAY_WINDOW_BYTES 0)[0 := 1]) j \<longleftrightarrow> j = 0"
proof -
  have "(replicate REPLAY_WINDOW_BYTES 0)[0 := 1] = history_set 0 (replicate REPLAY_WINDOW_BYTES 0)"
    by (simp add: history_set_def)
  then show ?thesis
    using history_bit_set [of "replicate REPLAY_WINDOW_BYTES 0" 0 j] assms history_bit_zero [OF assms]
    by auto
qed


section \<open>The abstract window\<close>

text \<open>
  What the replay window promises: the set of IDs accepted so far, the highest one of the
  current time epoch, and the floor below which late packets are too old. No bitmap, no ring.
\<close>

record awin =
  aw_seen :: "(int \<times> nat) set"
  aw_high :: nat
  aw_time :: int
  aw_floor :: nat
  aw_expire :: int

definition aw_init :: awin where
  "aw_init = \<lparr>aw_seen = {}, aw_high = 0, aw_time = 0, aw_floor = 0, aw_expire = 0\<rparr>"

definition aw_floor_at :: "int \<Rightarrow> awin \<Rightarrow> nat" where
  "aw_floor_at now w = (if now \<ge> aw_expire w then aw_high w else aw_floor w)"

definition aw_verdict :: "pid \<Rightarrow> int \<Rightarrow> awin \<Rightarrow> error_type" where
  "aw_verdict pin now w =
     (let i = unat (p_id pin); t = p_time pin
      in if i = 0 then PKTID_INVALID
         else if t > aw_time w then SUCCESS
         else if t < aw_time w then PKTID_TIME_BACKTRACK
         else if i > aw_high w then SUCCESS
         else if aw_high w - i \<ge> 2048 then PKTID_BACKTRACK
         else if i \<le> aw_floor_at now w then PKTID_EXPIRE
         else if (t, i) \<in> aw_seen w then PKTID_REPLAY
         else SUCCESS)"

definition aw_step :: "pid \<Rightarrow> int \<Rightarrow> bool \<Rightarrow> awin \<Rightarrow> error_type \<times> awin" where
  "aw_step pin now md w =
     (let e = aw_verdict pin now w; i = unat (p_id pin); t = p_time pin;
          w1 = w\<lparr>aw_floor := aw_floor_at now w, aw_expire := now + PKTID_RECV_EXPIRE\<rparr>
      in (e, if md \<and> e = SUCCESS
             then (if t > aw_time w
                   then w1\<lparr>aw_seen := insert (t, i) (aw_seen w), aw_high := i, aw_time := t, aw_floor := 0\<rparr>
                   else w1\<lparr>aw_seen := insert (t, i) (aw_seen w), aw_high := max (aw_high w) i\<rparr>)
             else w1))"

text \<open>The IDs of one epoch, and the part of the bitmap that stands for them.\<close>

definition epoch_ids :: "int \<Rightarrow> (int \<times> nat) set \<Rightarrow> nat set" where
  "epoch_ids t S = {i. (t, i) \<in> S}"

definition hist_ok :: "u32 \<Rightarrow> nat \<Rightarrow> nat \<Rightarrow> byte list \<Rightarrow> nat set \<Rightarrow> bool" where
  "hist_ok base ext high h S \<longleftrightarrow> length h = REPLAY_WINDOW_BYTES \<and>
     (\<forall>d < ext. history_bit h (replay_index base (of_nat d)) \<longleftrightarrow> high - d \<in> S)"

definition win_rel :: "pid_recv \<Rightarrow> awin \<Rightarrow> bool" where
  "win_rel s w \<longleftrightarrow> pr_initialized s \<and> unat (pr_base s) < 2048 \<and> unat (pr_extent s) = min (aw_high w) 2048
     \<and> unat (pr_id_high s) = aw_high w \<and> pr_time_high s = aw_time w
     \<and> unat (pr_id_floor s) = aw_floor w \<and> pr_expire s = aw_expire w
     \<and> (\<forall>(t, i) \<in> aw_seen w. t \<le> aw_time w \<and> (t = aw_time w \<longrightarrow> 0 < i \<and> i \<le> aw_high w))
     \<and> hist_ok (pr_base s) (min (aw_high w) 2048) (aw_high w) (pr_history s)
         (epoch_ids (aw_time w) (aw_seen w))"

lemma win_rel_init: "win_rel (pid_recv_init mode form name unit stats) aw_init"
  by (simp add: win_rel_def pid_recv_init_def aw_init_def hist_ok_def)

lemma hist_ok_jump:
  assumes ok: "hist_ok base ext high h S" and S: "\<And>i. i \<in> S \<Longrightarrow> i \<le> high"
    and delta: "1 \<le> unat delta" "unat delta < 2048"
    and ext': "ext' \<le> ext + unat delta" "ext' \<le> 2048"
    and d_high: "unat delta + high = high'" and low: "ext \<le> high"
  defines "base' \<equiv> replay_index base (- delta)"
  shows "hist_ok base' ext' high'
    (history_clear_skipped base' delta (history_set base' h)) (insert high' S)"
proof -
  have len: "length h = REPLAY_WINDOW_BYTES" using ok by (simp add: hist_ok_def)
  have b': "unat base' < 2048" by (simp add: base'_def)
  have at0: "replay_index base' 0 = base'" using b' by (rule replay_index_0)
  have neq: "replay_index base' (of_nat i) \<noteq> replay_index base' (of_nat j)"
    if "i < 2048" "j < 2048" "i \<noteq> j" for i j
    using replay_index_inject that by blast
  have bit: "history_bit (history_clear_skipped base' delta (history_set base' h))
      (replay_index base' (of_nat d)) \<longleftrightarrow> high' - d \<in> insert high' S" if d: "d < ext'" for d
  proof -
    have d2: "d < 2048" using d ext' by simp
    have skipped: "(\<forall>i. 1 \<le> i \<longrightarrow> i < unat delta \<longrightarrow> replay_index base' (of_nat d) \<noteq> replay_index base' (of_nat i))
        \<longleftrightarrow> d = 0 \<or> unat delta \<le> d"
    proof
      assume "\<forall>i. 1 \<le> i \<longrightarrow> i < unat delta \<longrightarrow> replay_index base' (of_nat d) \<noteq> replay_index base' (of_nat i)"
      then have "\<not> (1 \<le> d \<and> d < unat delta)" by blast
      then show "d = 0 \<or> unat delta \<le> d" by linarith
    next
      assume "d = 0 \<or> unat delta \<le> d"
      then show "\<forall>i. 1 \<le> i \<longrightarrow> i < unat delta \<longrightarrow> replay_index base' (of_nat d) \<noteq> replay_index base' (of_nat i)"
        using d2 delta(2) by (intro allI impI neq) auto
    qed
    have is_set: "base' = replay_index base' (of_nat d) \<longleftrightarrow> d = 0"
      using neq [of 0 d] d2 at0 by (cases "d = 0") auto
    have old: "history_bit h (replay_index base' (of_nat d)) \<longleftrightarrow> high - (d - unat delta) \<in> S"
      if "unat delta \<le> d"
    proof -
      have "replay_index base' (of_nat d) = replay_index base (of_nat (d - unat delta))"
        using that by (simp add: base'_def replay_index_add)
      moreover have "d - unat delta < ext" using that d ext' by linarith
      then have "history_bit h (replay_index base (of_nat (d - unat delta)))
          \<longleftrightarrow> high - (d - unat delta) \<in> S"
        using ok unfolding hist_ok_def by blast
      ultimately show ?thesis by (simp only:)
    qed
    have bits: "history_bit (history_clear_skipped base' delta (history_set base' h))
        (replay_index base' (of_nat d))
        \<longleftrightarrow> (d = 0 \<or> unat delta \<le> d) \<and> (d = 0 \<or> history_bit h (replay_index base' (of_nat d)))"
      using history_clear_skipped_bit(2) [of "history_set base' h" "replay_index base' (of_nat d)"
          base' delta] history_bit_set [OF len b'] len skipped is_set by simp
    consider "d = 0" | "d \<noteq> 0" "d < unat delta" | "d \<noteq> 0" "unat delta \<le> d" by linarith
    then show ?thesis
    proof cases
      case 1
      with bits show ?thesis by simp
    next
      case 2
      then have "high' - d \<noteq> high'" "high' - d \<notin> S" using d_high S [of "high' - d"] by auto
      with 2 bits show ?thesis by simp
    next
      case 3
      then have "high' - d \<noteq> high'" "high' - d = high - (d - unat delta)"
        using d_high delta(1) by auto
      with 3 bits old show ?thesis by simp
    qed
  qed
  have "length (history_clear_skipped base' delta (history_set base' h)) = REPLAY_WINDOW_BYTES"
    using history_clear_skipped_bit(1) [of "history_set base' h" 0] len by simp
  with bit show ?thesis by (simp add: hist_ok_def)
qed


lemma unat_less_u32: "unat (w :: u32) < 4294967296"
proof -
  have "unat w < 2 ^ LENGTH(32)" by (rule unsigned_less)
  then show ?thesis by simp
qed

text \<open>The next ID in sequence is a jump by one.\<close>

lemma hist_ok_next:
  assumes "hist_ok base ext high h S" "\<And>i. i \<in> S \<Longrightarrow> i \<le> high" "ext' \<le> ext + 1" "ext' \<le> 2048"
    "ext \<le> high"
  shows "hist_ok (replay_index base (- 1)) ext' (Suc high)
    (history_set (replay_index base (- 1)) h) (insert (Suc high) S)"
  using hist_ok_jump [of base ext high h S 1 ext' "Suc high"] assms
  by (simp add: history_clear_skipped_def)

lemma hist_ok_insert:
  assumes ok: "hist_ok base ext high h S" and d: "d < ext" "ext \<le> 2048" "ext \<le> high"
  shows "hist_ok base ext high (history_set (replay_index base (of_nat d)) h) (insert (high - d) S)"
proof -
  have len: "length h = REPLAY_WINDOW_BYTES" using ok by (simp add: hist_ok_def)
  have "replay_index base (of_nat d) = replay_index base (of_nat d') \<longleftrightarrow> high - d' = high - d"
    if "d' < ext" for d'
  proof -
    have "high - d' = high - d \<longleftrightarrow> d = d'" using that d by linarith
    then show ?thesis using replay_index_inject [of d d' base] that d by auto
  qed
  then show ?thesis
    using ok d history_bit_set [OF len replay_index_bound] by (auto simp: hist_ok_def)
qed

lemma win_rel_floor:
  assumes "win_rel s w"
  shows "win_rel (expire_floor now s) (w\<lparr>aw_floor := aw_floor_at now w, aw_expire := now + PKTID_RECV_EXPIRE\<rparr>)"
  using assms by (auto simp: win_rel_def expire_floor_def aw_floor_at_def)

lemma win_rel_epoch:
  assumes "win_rel s w" "p_time pin > aw_time w"
  shows "win_rel (epoch_reset pin s) (w\<lparr>aw_time := p_time pin, aw_high := 0, aw_floor := 0\<rparr>)"
  using assms by (fastforce simp: win_rel_def epoch_reset_def hist_ok_def)

lemma win_rel_ids:
  "win_rel s w \<Longrightarrow> i \<in> epoch_ids (aw_time w) (aw_seen w) \<Longrightarrow> i \<le> aw_high w"
  by (auto simp: win_rel_def epoch_ids_def)

lemma epoch_ids_insert [simp]: "epoch_ids t (insert (t, i) S) = insert i (epoch_ids t S)"
  by (auto simp: epoch_ids_def)

lemma win_rel_accept:
  assumes rel: "win_rel s w" and pin: "p_time pin = aw_time w" "unat (p_id pin) > aw_high w"
  defines "w' \<equiv> w\<lparr>aw_seen := insert (p_time pin, unat (p_id pin)) (aw_seen w), aw_high := unat (p_id pin)\<rparr>"
  shows "win_rel (if p_id pin = pr_id_high s + 1 then accept_next pin s else accept_jump pin s) w'"
    (is "win_rel ?s' w'")
proof -
  note r = rel [unfolded win_rel_def]
  have gt: "pr_id_high s < p_id pin" using r pin by (simp add: word_less_nat_alt)
  define delta where "delta = p_id pin - pr_id_high s"
  have d_eq: "unat delta + aw_high w = unat (p_id pin)" "1 \<le> unat delta"
    using gt r pin(2) by (simp_all add: delta_def unat_sub)
  have ids: "\<And>i. i \<in> epoch_ids (aw_time w) (aw_seen w) \<Longrightarrow> i \<le> aw_high w"
    using win_rel_ids [OF rel] .
  have ok: "hist_ok (pr_base s) (min (aw_high w) 2048) (aw_high w) (pr_history s)
      (epoch_ids (aw_time w) (aw_seen w))" using r by blast
  have old: "\<forall>(t, i) \<in> insert (p_time pin, unat (p_id pin)) (aw_seen w).
      t \<le> aw_time w \<and> (t = aw_time w \<longrightarrow> 0 < i \<and> i \<le> unat (p_id pin))"
    using r pin by fastforce
  consider (seq) "p_id pin = pr_id_high s + 1"
    | (jump) "p_id pin \<noteq> pr_id_high s + 1" "unat delta < 2048"
    | (far) "p_id pin \<noteq> pr_id_high s + 1" "2048 \<le> unat delta" by linarith
  then show ?thesis
  proof cases
    case seq
    then have "delta = 1" by (simp add: delta_def)
    then have high': "unat (p_id pin) = Suc (aw_high w)" using d_eq by simp
    have "unat (if pr_extent s < REPLAY_WINDOW_SIZE then pr_extent s + 1 else pr_extent s)
        = min (Suc (aw_high w)) 2048"
      using r by (auto simp: word_less_nat_alt unat_word_ariths min_def)
    then show ?thesis
      using seq r old high' pin hist_ok_next [OF ok ids, of "min (Suc (aw_high w)) 2048"]
      by (simp add: win_rel_def w'_def accept_next_def Let_def)
  next
    case jump
    have ext: "unat (pr_extent s + delta) = unat (pr_extent s) + unat delta"
      using r jump(2) by (simp add: unat_word_ariths)
    have "unat (if pr_extent s + delta > REPLAY_WINDOW_SIZE then REPLAY_WINDOW_SIZE else pr_extent s + delta)
        = min (unat (p_id pin)) 2048"
      using r ext d_eq by (auto simp: word_less_nat_alt min_def)
    then show ?thesis
      using jump r old d_eq pin
        hist_ok_jump [OF ok ids d_eq(2) jump(2), of "min (unat (p_id pin)) 2048" "unat (p_id pin)"]
      by (simp add: win_rel_def w'_def accept_jump_def Let_def word_less_nat_alt flip: delta_def)
  next
    case far
    have "hist_ok 0 2048 (unat (p_id pin)) ((replicate REPLAY_WINDOW_BYTES 0)[0 := 1])
        (insert (unat (p_id pin)) (epoch_ids (aw_time w) (aw_seen w)))"
    proof -
      have "replay_index 0 (of_nat d) = 0 \<longleftrightarrow> d = 0" if "d < 2048" for d
        using that by (simp add: word_unat_eq_iff unat_replay_index unat_of_nat_small)
      moreover have "unat (p_id pin) - d \<in> insert (unat (p_id pin)) (epoch_ids (aw_time w) (aw_seen w))
          \<longleftrightarrow> d = 0" if "d < 2048" for d
        using that d_eq far(2) ids [of "unat (p_id pin) - d"] by auto
      ultimately show ?thesis by (simp add: hist_ok_def history_bit_one)
    qed
    then show ?thesis
      using far r old d_eq pin
      by (simp add: win_rel_def w'_def accept_jump_def Let_def word_less_nat_alt flip: delta_def)
  qed
qed


lemma win_rel_backtrack:
  assumes rel: "win_rel s w" and pin: "p_time pin = aw_time w" "0 < unat (p_id pin)" "unat (p_id pin) \<le> aw_high w"
  defines "i \<equiv> unat (p_id pin)"
  shows "\<exists>s'. accept_backtrack pin md s =
      (if aw_high w - i \<ge> 2048 then PKTID_BACKTRACK
       else if i \<le> aw_floor w then PKTID_EXPIRE
       else if (p_time pin, i) \<in> aw_seen w then PKTID_REPLAY else SUCCESS, s')
    \<and> win_rel s' (if md \<and> aw_high w - i < 2048 \<and> aw_floor w < i \<and> (p_time pin, i) \<notin> aw_seen w
        then w\<lparr>aw_seen := insert (p_time pin, i) (aw_seen w)\<rparr> else w)"
proof -
  note r = rel [unfolded win_rel_def]
  define delta where "delta = pr_id_high s - p_id pin"
  define s1 where "s1 = (if delta > pr_max_backtrack s then s\<lparr>pr_max_backtrack := delta\<rparr> else s)"
  have s1: "win_rel s1 w" "pr_extent s1 = pr_extent s" "pr_id_floor s1 = pr_id_floor s"
    "pr_base s1 = pr_base s" "pr_history s1 = pr_history s"
    using rel by (simp_all add: s1_def win_rel_def)
  have le: "p_id pin \<le> pr_id_high s" using r pin(3) by (simp add: word_le_nat_alt)
  have d: "unat delta = aw_high w - i" using le r by (simp add: delta_def unat_sub i_def)
  have in_win: "delta < pr_extent s \<longleftrightarrow> aw_high w - i < 2048"
    using r d pin by (auto simp: word_less_nat_alt i_def)
  have above: "p_id pin > pr_id_floor s \<longleftrightarrow> aw_floor w < i"
    using r by (simp add: word_less_nat_alt i_def)
  have ok: "hist_ok (pr_base s) (min (aw_high w) 2048) (aw_high w) (pr_history s)
      (epoch_ids (aw_time w) (aw_seen w))" using r by blast
  have delta_nat: "delta = of_nat (aw_high w - i)" using d unat_less_u32 [of delta] by (simp add: word_unat_eq_iff unat_of_nat)
  have seen: "history_bit (pr_history s) (replay_index (pr_base s) delta) \<longleftrightarrow> (p_time pin, i) \<in> aw_seen w"
    if "aw_high w - i < 2048"
  proof -
    have "aw_high w - i < min (aw_high w) 2048" using that pin(2,3) by (simp add: i_def)
    then have "history_bit (pr_history s) (replay_index (pr_base s) (of_nat (aw_high w - i)))
        \<longleftrightarrow> aw_high w - (aw_high w - i) \<in> epoch_ids (aw_time w) (aw_seen w)"
      using ok unfolding hist_ok_def by blast
    moreover have "aw_high w - (aw_high w - i) = i" using pin(3) by (simp add: i_def)
    ultimately have "history_bit (pr_history s) (replay_index (pr_base s) delta)
        \<longleftrightarrow> i \<in> epoch_ids (aw_time w) (aw_seen w)" by (simp only: delta_nat)
    then show ?thesis using pin by (simp add: epoch_ids_def i_def)
  qed
  have ins: "win_rel (s1\<lparr>pr_history := history_set (replay_index (pr_base s) delta) (pr_history s)\<rparr>)
      (w\<lparr>aw_seen := insert (p_time pin, i) (aw_seen w)\<rparr>)" if "aw_high w - i < 2048"
  proof -
    have "hist_ok (pr_base s) (min (aw_high w) 2048) (aw_high w)
        (history_set (replay_index (pr_base s) delta) (pr_history s)) (insert i (epoch_ids (aw_time w) (aw_seen w)))"
      using hist_ok_insert [OF ok, of "aw_high w - i"] that pin by (simp add: delta_nat i_def)
    then show ?thesis using s1(1) pin unfolding win_rel_def
      by (auto simp: s1_def i_def split: if_splits)
  qed
  show ?thesis
    using s1 ins seen
    by (auto simp: accept_backtrack_def Let_def in_win above not_less
        simp flip: delta_def s1_def)
qed

text \<open>
  The refinement: the code's verdict is the abstract one, and the two stay related whatever
  the packet, the clock and the \<open>mod\<close> flag.
\<close>

lemma check_id_refines:
  assumes rel: "win_rel s w" and t: "p_time pin = aw_time w" and i: "0 < unat (p_id pin)"
    and fl: "aw_floor_at now w = aw_floor w"
  shows "\<exists>s'. check_id pin md s = (aw_verdict pin now w, s')
    \<and> win_rel s' (if md \<and> aw_verdict pin now w = SUCCESS
        then w\<lparr>aw_seen := insert (p_time pin, unat (p_id pin)) (aw_seen w),
               aw_high := max (aw_high w) (unat (p_id pin))\<rparr> else w)"
proof (cases "unat (p_id pin) > aw_high w")
  case True
  have "pr_id_high s < p_id pin" using rel True by (simp add: win_rel_def word_less_nat_alt)
  then show ?thesis
    using win_rel_accept [OF rel t True] True i t rel
    by (auto simp: check_id_def aw_verdict_def Let_def max_def)
next
  case False
  then have "\<not> p_id pin > pr_id_high s" using rel by (simp add: win_rel_def word_less_nat_alt)
  moreover have "p_id pin \<noteq> pr_id_high s + 1"
  proof
    assume eq: "p_id pin = pr_id_high s + 1"
    then have "unat (pr_id_high s + 1) \<le> unat (pr_id_high s)" using False rel by (simp add: win_rel_def)
    then have "unat (pr_id_high s + 1) = 0"
      using unat_less_u32 [of "pr_id_high s"] by (auto simp: unat_plus_if' split: if_splits)
    then show False using i eq by simp
  qed
  ultimately have "check_id pin md s = accept_backtrack pin md s" by (simp add: check_id_def)
  moreover have "max (aw_high w) (unat (p_id pin)) = aw_high w" using False by simp
  ultimately show ?thesis
    using win_rel_backtrack [OF rel t i, of md] False i t fl
    by (auto simp: aw_verdict_def Let_def not_less not_le split: if_splits)
qed

lemma do_test_add_refines:
  assumes rel: "win_rel s w"
  shows "\<exists>s'. do_test_add pin now md s = Inr (fst (aw_step pin now md w), s')
    \<and> win_rel s' (snd (aw_step pin now md w))"
proof -
  let ?s = "expire_floor now s"
  let ?w = "w\<lparr>aw_floor := aw_floor_at now w, aw_expire := now + PKTID_RECV_EXPIRE\<rparr>"
  have rel1: "win_rel ?s ?w" using rel by (rule win_rel_floor)
  have init: "pr_initialized s" using rel by (simp add: win_rel_def)
  have time: "pr_time_high ?s = aw_time w" using rel1 by (simp add: win_rel_def)
  have valid: "pid_is_valid pin \<longleftrightarrow> 0 < unat (p_id pin)"
    by (simp add: pid_is_valid_def unat_gt_0)
  consider (zero) "unat (p_id pin) = 0" | (past) "0 < unat (p_id pin)" "p_time pin < aw_time w"
    | (fwd) "0 < unat (p_id pin)" "p_time pin > aw_time w"
    | (same) "0 < unat (p_id pin)" "p_time pin = aw_time w" by linarith
  then show ?thesis
  proof cases
    case zero
    then show ?thesis using rel1 init valid
      by (simp add: do_test_add_def aw_step_def aw_verdict_def Let_def)
  next
    case past
    then show ?thesis using rel1 init valid time
      by (simp add: do_test_add_def aw_step_def aw_verdict_def Let_def)
  next
    case fwd
    let ?ep = "?w\<lparr>aw_time := p_time pin, aw_high := 0, aw_floor := 0\<rparr>"
    have "win_rel (epoch_reset pin ?s) ?ep"
      using win_rel_epoch [OF rel1] fwd(2) by simp
    moreover have "aw_verdict pin now ?ep = SUCCESS" using fwd by (simp add: aw_verdict_def Let_def)
    ultimately obtain s' where
      "check_id pin md (epoch_reset pin ?s) = (SUCCESS, s')"
      and "win_rel s' (if md then ?ep\<lparr>aw_seen := insert (p_time pin, unat (p_id pin)) (aw_seen w),
            aw_high := unat (p_id pin)\<rparr> else ?ep)"
      using check_id_refines [of "epoch_reset pin ?s" ?ep pin now md] fwd
      by (cases md) (auto simp: aw_floor_at_def)
    moreover have "snd (aw_step pin now md w) = (if md
        then ?ep\<lparr>aw_seen := insert (p_time pin, unat (p_id pin)) (aw_seen w), aw_high := unat (p_id pin)\<rparr>
        else ?w)"
      using fwd by (cases md) (simp_all add: aw_step_def aw_verdict_def Let_def)
    moreover have "fst (aw_step pin now md w) = SUCCESS"
      using fwd by (simp add: aw_step_def aw_verdict_def Let_def)
    ultimately show ?thesis using rel1 init valid time fwd
      by (auto simp: do_test_add_def Let_def)
  next
    case same
    have "win_rel ?s ?w" "p_time pin = aw_time ?w" using rel1 same by simp_all
    then have "\<exists>s'. check_id pin md ?s = (aw_verdict pin (now + 29) ?w, s')
      \<and> win_rel s' (if md \<and> aw_verdict pin (now + 29) ?w = SUCCESS
        then ?w\<lparr>aw_seen := insert (p_time pin, unat (p_id pin)) (aw_seen ?w),
               aw_high := max (aw_high ?w) (unat (p_id pin))\<rparr> else ?w)"
      using check_id_refines [OF _ _ same(1), of ?s ?w "now + 29" md] by (simp add: aw_floor_at_def)
    moreover have "aw_verdict pin (now + 29) ?w = aw_verdict pin now w"
      by (simp add: aw_verdict_def aw_floor_at_def Let_def)
    ultimately show ?thesis using init valid time same
      by (auto simp: do_test_add_def aw_step_def Let_def)
  qed
qed



section \<open>The interface: a filter that lets each packet through once\<close>

text \<open>
  \<open>filter_run\<close> feeds a list of packets to a stateful filter and returns those it lets through.
  What a receiver relies on is that a packet that was let through is not among those let through
  before: the invariant carries their keys.
\<close>

fun filter_run :: "('i \<Rightarrow> 's \<Rightarrow> bool \<times> 's) \<Rightarrow> 'i list \<Rightarrow> 's \<Rightarrow> 'i list" where
  "filter_run step [] s = []"
| "filter_run step (x # xs) s =
     (let (a, s') = step x s in if a then x # filter_run step xs s' else filter_run step xs s')"

locale replay_filter =
  fixes step :: "'i \<Rightarrow> 's \<Rightarrow> bool \<times> 's"
    and key :: "'i \<Rightarrow> 'k"
    and inv :: "'s \<Rightarrow> 'k set \<Rightarrow> bool"
  assumes accept_fresh: "inv s K \<Longrightarrow> step x s = (True, s') \<Longrightarrow> key x \<notin> K \<and> inv s' (insert (key x) K)"
    and reject_keeps: "inv s K \<Longrightarrow> step x s = (False, s') \<Longrightarrow> inv s' K"
begin

lemma run_once:
  "inv s K \<Longrightarrow> distinct (map key (filter_run step xs s)) \<and> key ` set (filter_run step xs s) \<inter> K = {}"
proof (induction xs arbitrary: s K)
  case Nil
  then show ?case by simp
next
  case (Cons x xs)
  obtain a s' where st: "step x s = (a, s')" by fastforce
  show ?case
  proof (cases a)
    case True
    with st Cons.prems have "key x \<notin> K" "inv s' (insert (key x) K)"
      using accept_fresh [OF Cons.prems, of x s'] by simp_all
    with Cons.IH [of s' "insert (key x) K"] st True show ?thesis by force
  next
    case False
    with st have "inv s' K" using reject_keeps [OF Cons.prems, of x s'] by simp
    with Cons.IH [of s' K] st False show ?thesis by simp
  qed
qed

end

text \<open>
  The window as such a filter: a packet is let through when \<open>do_test_add\<close> is called with
  \<open>mod\<close> set and answers \<open>SUCCESS\<close>. Test-only calls may be interleaved.
\<close>

definition window_step :: "pid \<times> int \<times> bool \<Rightarrow> pid_recv \<Rightarrow> bool \<times> pid_recv" where
  "window_step x s =
     (case do_test_add (fst x) (fst (snd x)) (snd (snd x)) s of
        Inl _ \<Rightarrow> (False, s)
      | Inr (e, s') \<Rightarrow> (snd (snd x) \<and> e = SUCCESS, s'))"

definition pid_key :: "pid \<Rightarrow> int \<times> nat" where
  "pid_key p = (p_time p, unat (p_id p))"

definition window_inv :: "pid_recv \<Rightarrow> (int \<times> nat) set \<Rightarrow> bool" where
  "window_inv s K \<longleftrightarrow> (\<exists>w. win_rel s w \<and> aw_seen w = K)"

lemma aw_success_fresh:
  assumes "win_rel s w" "aw_verdict pin now w = SUCCESS"
  shows "pid_key pin \<notin> aw_seen w"
  using assms by (fastforce simp: aw_verdict_def win_rel_def pid_key_def Let_def split: if_splits)

interpretation window: replay_filter window_step "\<lambda>x. pid_key (fst x)" window_inv
proof (unfold_locales, goal_cases)
  case (1 s K x s')
  obtain pin now md where x: "x = (pin, now, md)" by (metis prod_cases3)
  from 1(1) obtain w where w: "win_rel s w" "aw_seen w = K" by (auto simp: window_inv_def)
  from do_test_add_refines [OF w(1), of pin now md] 1(2) x have
    md: md and v: "aw_verdict pin now w = SUCCESS" and rel: "win_rel s' (snd (aw_step pin now md w))"
    by (auto simp: window_step_def aw_step_def Let_def)
  have "aw_seen (snd (aw_step pin now md w)) = insert (pid_key pin) K"
    using md v w(2) by (simp add: aw_step_def pid_key_def Let_def)
  then show ?case using aw_success_fresh [OF w(1) v] w(2) rel x by (auto simp: window_inv_def)
next
  case (2 s K x s')
  obtain pin now md where x: "x = (pin, now, md)" by (metis prod_cases3)
  from 2(1) obtain w where w: "win_rel s w" "aw_seen w = K" by (auto simp: window_inv_def)
  from do_test_add_refines [OF w(1), of pin now md] 2(2) x have
    "\<not> (md \<and> aw_verdict pin now w = SUCCESS)" "win_rel s' (snd (aw_step pin now md w))"
    by (auto simp: window_step_def aw_step_def Let_def)
  then show ?case using w(2) unfolding window_inv_def
    by (intro exI [of _ "snd (aw_step pin now md w)"]) (auto simp: aw_step_def Let_def)
qed

lemma window_inv_init: "window_inv (pid_recv_init mode form name unit stats) {}"
  using win_rel_init by (force simp: window_inv_def aw_init_def)


section \<open>The sender's counter\<close>

fun pid_send_run :: "int list \<Rightarrow> pid_send \<Rightarrow> pid res list" where
  "pid_send_run [] s = []"
| "pid_send_run (now # nows) s =
     (let (r, s') = pid_send_next now s in r # pid_send_run nows s')"

lemma pid_send_run_ids:
  assumes "unat (p_id (ps_pid s)) + length nows < 4294967296"
  shows "map (map_sum (\<lambda>e. e) (\<lambda>p. unat (p_id p))) (pid_send_run nows s)
    = map Inr [Suc (unat (p_id (ps_pid s))) ..< Suc (unat (p_id (ps_pid s)) + length nows)]"
  using assms
proof (induction nows arbitrary: s)
  case Nil
  then show ?case by simp
next
  case (Cons n nows)
  let ?i = "p_id (ps_pid s)"
  have nz: "unat (?i + 1) = Suc (unat ?i)" using Cons.prems by (simp add: unat_plus_if')
  then have "?i + 1 \<noteq> 0" by (metis nat.distinct(1) unat_0)
  then obtain s' p where st: "pid_send_next n s = (Inr p, s')" "p_id (ps_pid s') = ?i + 1" "p_id p = ?i + 1"
    by (simp add: pid_send_next_def Let_def)
  then have "map (map_sum (\<lambda>e. e) (\<lambda>p. unat (p_id p))) (pid_send_run nows s')
      = map Inr [Suc (Suc (unat ?i)) ..< Suc (Suc (unat ?i) + length nows)]"
    using Cons.IH [of s'] Cons.prems nz by (simp del: upt_Suc)
  moreover have "[Suc (unat ?i) ..< Suc (unat ?i + length (n # nows))]
      = Suc (unat ?i) # [Suc (Suc (unat ?i)) ..< Suc (Suc (unat ?i) + length nows)]"
    by (simp add: upt_conv_Cons del: upt_Suc)
  ultimately show ?case using st nz by (simp del: upt_Suc)
qed

lemma pid_send_wrap:
  assumes "p_id (ps_pid s) = - 1"
  shows "fst (pid_send_next now s) =
    (if ps_form s = LONG_FORM then Inr \<lparr>p_id = 1, p_time = now\<rparr> else Inl Packet_id_wrap)"
  using assms by (simp add: pid_send_next_def Let_def)


section \<open>The wire form\<close>

text \<open>The 32 bits of time that go over the wire.\<close>

definition pid_wire_time :: "pid_form \<Rightarrow> int \<Rightarrow> int" where
  "pid_wire_time form t = (if form = LONG_FORM then t mod 4294967296 else 0)"

definition pid_bytes :: "pid_form \<Rightarrow> pid \<Rightarrow> byte list" where
  "pid_bytes form p = be32 (p_id p) @ (if form = LONG_FORM then be32 (word_of_int (p_time p)) else [])"

lemma length_pid_bytes [simp]: "length (pid_bytes form p) = pid_size form"
  by (simp add: pid_bytes_def pid_size_def)

lemma pid_write_prepend:
  assumes "buf_wf b" "pid_write junk form True p b = Inr b'"
  shows "buf_wf b' \<and> contents b' = pid_bytes form p @ contents b \<and> b_offset b' = b_offset b - pid_size form"
proof (cases "form = LONG_FORM")
  case True
  then have "bindE (buf_prepend (be32 (word_of_int (p_time p))) b) (buf_prepend (be32 (p_id p))) = Inr b'"
    using assms(2) by (simp add: pid_write_def Let_def)
  from bufq.prepend_twice [OF assms(1) this] True show ?thesis
    by (simp add: pid_bytes_def pid_size_def)
next
  case False
  then have "buf_prepend (be32 (p_id p)) b = Inr b'"
    using assms(2) by (simp add: pid_write_def Let_def)
  from bufq.prepend_view [OF assms(1) this] False show ?thesis
    by (simp add: pid_bytes_def pid_size_def)
qed

lemma pid_write_prepend_ok:
  assumes "buf_wf b" "pid_size form \<le> b_offset b"
  shows "ok (pid_write junk form True p b)"
  using assms bufq.prepend_twice_ok [OF assms(1), of "be32 (word_of_int (p_time p))" "be32 (p_id p)"]
    bufq.prepend_ok [OF assms(1), of "be32 (p_id p)"]
  by (cases form) (auto simp: pid_write_def pid_size_def Let_def)

lemma pid_read_bytes:
  assumes "buf_wf b" "contents b = pid_bytes form p @ rest"
  shows "\<exists>b'. pid_read form b = Inr (p\<lparr>p_time := pid_wire_time form (p_time p)\<rparr>, b')
    \<and> buf_wf b' \<and> contents b' = rest"
proof -
  let ?t = "if form = LONG_FORM then be32 (word_of_int (p_time p)) else []"
  obtain b1 where b1: "buf_read 4 b = Inr (be32 (p_id p), b1)" "buf_wf b1" "contents b1 = ?t @ rest"
    using bufq.read_prefix [of b "be32 (p_id p)" "?t @ rest"] assms by (auto simp: pid_bytes_def)
  show ?thesis
  proof (cases "form = LONG_FORM")
    case True
    then obtain b2 where "buf_read 4 b1 = Inr (be32 (word_of_int (p_time p)), b2)" "buf_wf b2" "contents b2 = rest"
      using bufq.read_prefix [of b1 "be32 (word_of_int (p_time p))" rest] b1 by auto
    then show ?thesis using b1 True by (simp add: pid_read_def pid_wire_time_def uint_word_of_int)
  next
    case False
    then show ?thesis using b1 by (simp add: pid_read_def pid_wire_time_def)
  qed
qed

lemma pid_read_short:
  assumes "buf_wf b" "length (contents b) < pid_size form"
  shows "pid_read form b = Inl (Buffer_exn Buffer_underflow)"
proof (cases "length (contents b) < 4")
  case True
  then show ?thesis using bufq.read_short [OF assms(1)] by (simp add: pid_read_def)
next
  case False
  then have long: "form = LONG_FORM" using assms(2) by (auto simp: pid_size_def split: if_splits)
  obtain xs b1 where r: "buf_read 4 b = Inr (xs, b1)"
    using bufq.read_ok [OF assms(1), of 4] False by (auto simp: ok_def)
  from bufq.read_view [OF assms(1) r] have "buf_wf b1" "length (contents b1) < 4"
    using assms long by (auto simp: pid_size_def simp del: length_contents)
  from bufq.read_short [OF this] show ?thesis using r long by (simp add: pid_read_def)
qed


section \<open>Properties\<close>

text \<open>
  No packet is accepted twice: from a freshly initialised window, whatever packets arrive
  in whatever order, with whatever clock and with test-only calls in between, the packets that
  \<open>do_test_add\<close> accepts and records have pairwise different (time, id) pairs.
\<close>

lemma replay_window_accepts_once:
  "distinct (map (\<lambda>x. pid_key (fst x))
     (filter_run window_step xs (pid_recv_init mode form name unit stats)))"
  using window.run_once [OF window_inv_init] by blast

text \<open>
  C2. The bitmap window refines the abstract window: starting from related states, the code's
  verdict on any packet is the one of the set-based specification, on every branch, and the
  states after the call are related again.
\<close>

theorem replay_window_refines:
  "win_rel s w \<Longrightarrow>
   \<exists>s'. do_test_add pin now md s = Inr (fst (aw_step pin now md w), s')
      \<and> win_rel s' (snd (aw_step pin now md w))"
  by (rule do_test_add_refines)

theorem replay_window_refines_witness:
  "\<exists>s'. do_test_add \<lparr>p_id = 7, p_time = 0\<rparr> 5 True (pid_recv_init 0 SHORT_FORM ''DATA'' 0 [])
     = Inr (SUCCESS, s')
   \<and> win_rel s' (snd (aw_step \<lparr>p_id = 7, p_time = 0\<rparr> 5 True aw_init))"
  using replay_window_refines [OF win_rel_init, of "\<lparr>p_id = 7, p_time = 0\<rparr>" 5 True 0 SHORT_FORM "''DATA''" 0 "[]"]
  by (simp add: aw_step_def aw_verdict_def aw_init_def)

text \<open>
  Packet ID round trip: an ID that \<open>write\<close> prepends to a buffer is what \<open>read\<close> takes off
  it again, with the time reduced to the 32 bits the wire carries, and the rest of the buffer is
  what it was before.
\<close>

lemma pid_roundtrip:
  assumes "buf_wf b" "pid_write junk form True p b = Inr b'"
  shows "\<exists>b''. pid_read form b' = Inr (p\<lparr>p_time := pid_wire_time form (p_time p)\<rparr>, b'')
    \<and> contents b'' = contents b"
  using pid_write_prepend [OF assms] pid_read_bytes by blast

lemma pid_roundtrip_at:
  "\<exists>b' b''. pid_write (\<lambda>_. 0) LONG_FORM True \<lparr>p_id = 9, p_time = 77\<rparr>
       (buf_view (replicate 16 0) False\<lparr>b_offset := 12\<rparr>) = Inr b'
     \<and> pid_read LONG_FORM b' = Inr (\<lparr>p_id = 9, p_time = 77\<rparr>, b'') \<and> contents b'' = []"
proof -
  let ?b = "buf_view (replicate 16 0) False\<lparr>b_offset := 12\<rparr>"
  have wf: "buf_wf ?b" by (simp add: buf_wf_def buf_view_def)
  obtain b' where w: "pid_write (\<lambda>_. 0) LONG_FORM True \<lparr>p_id = 9, p_time = 77\<rparr> ?b = Inr b'"
    using pid_write_prepend_ok [OF wf, of LONG_FORM] by (auto simp: ok_def buf_view_def pid_size_def)
  from pid_roundtrip [OF wf w] show ?thesis
    using w by (auto simp: pid_wire_time_def contents_def buf_view_def)
qed

text \<open>
  Within one key the sender never reuses an ID: the first \<open>2 ^ 32 - 1\<close> calls of \<open>next\<close> on a
  fresh counter return the IDs 1, 2, 3, ... in order, none of them throws.
\<close>

lemma pid_send_counts:
  "length nows < 4294967296 \<Longrightarrow>
   map (map_sum (\<lambda>e. e) (\<lambda>p. unat (p_id p))) (pid_send_run nows (pid_send_init form))
     = map Inr [1 ..< Suc (length nows)]"
  using pid_send_run_ids [of "pid_send_init form" nows] by (simp add: pid_send_init_def del: upt_Suc)

lemma pid_send_counts_at:
  "map (map_sum (\<lambda>e. e) (\<lambda>p. unat (p_id p))) (pid_send_run [5, 6, 7] (pid_send_init SHORT_FORM))
     = [Inr 1, Inr 2, Inr 3]"
proof -
  have "length [5, 6, 7 :: int] < 4294967296" by simp
  from pid_send_counts [OF this, of SHORT_FORM] show ?thesis by (simp add: upt_conv_Cons)
qed

end
