(* ===== verification/Vpn_Time.thy ===== *)
theory Vpn_Time
  imports Vpn_Prelude
begin

text \<open>
  \<^verbatim>\<open>time/time.hpp\<close>: points in time and durations in units of 1/1024 second, held in an
  \<^verbatim>\<open>oulong\<close> (64 bits), with the largest value standing for infinity. Additions saturate at
  infinity but wrap around below it; subtractions stop at zero. The time base \<open>base_\<close> of
  \<open>seconds_since_epoch\<close> is an argument.
\<close>

abbreviation (input) prec :: u64 where "prec \<equiv> 1024"

datatype duration = Duration (dur_raw: u64)
datatype vtime = Time (time_raw: u64)

instantiation duration :: linorder
begin

definition less_eq_duration :: "duration \<Rightarrow> duration \<Rightarrow> bool" where
  "less_eq_duration c d \<longleftrightarrow> dur_raw c \<le> dur_raw d"

definition less_duration :: "duration \<Rightarrow> duration \<Rightarrow> bool" where
  "less_duration c d \<longleftrightarrow> dur_raw c < dur_raw d"

instance
  by standard (auto simp: less_eq_duration_def less_duration_def duration.expand)

end

instantiation vtime :: linorder
begin

definition less_eq_vtime :: "vtime \<Rightarrow> vtime \<Rightarrow> bool" where
  "less_eq_vtime s t \<longleftrightarrow> time_raw s \<le> time_raw t"

definition less_vtime :: "vtime \<Rightarrow> vtime \<Rightarrow> bool" where
  "less_vtime s t \<longleftrightarrow> time_raw s < time_raw t"

instance
  by standard (auto simp: less_eq_vtime_def less_vtime_def vtime.expand)

end

lemmas time_order = less_eq_duration_def less_duration_def less_eq_vtime_def less_vtime_def


section \<open>Durations\<close>

definition dur_seconds :: "u64 \<Rightarrow> duration" where "dur_seconds v = Duration (v * prec)"
definition dur_binary_ms :: "u64 \<Rightarrow> duration" where "dur_binary_ms v = Duration v"
definition dur_infinite :: duration where "dur_infinite = Duration (- 1)"
definition dur_milliseconds :: "u64 \<Rightarrow> duration" where
  "dur_milliseconds v = Duration (v + (v * 3 div 128))"
definition dur_zero :: duration where "dur_zero = Duration 0"

definition dur_defined :: "duration \<Rightarrow> bool" where "dur_defined d \<longleftrightarrow> dur_raw d \<noteq> 0"
definition dur_is_infinite :: "duration \<Rightarrow> bool" where "dur_is_infinite d \<longleftrightarrow> dur_raw d = - 1"
definition dur_enabled :: "duration \<Rightarrow> bool" where
  "dur_enabled d \<longleftrightarrow> dur_defined d \<and> \<not> dur_is_infinite d"

definition dur_add :: "duration \<Rightarrow> duration \<Rightarrow> duration" where
  "dur_add c d =
     (if dur_is_infinite c \<or> dur_is_infinite d then dur_infinite else Duration (dur_raw c + dur_raw d))"

text \<open>\<open>operator+(int)\<close>: stops at zero, does not look at infinity.\<close>

definition dur_add_int :: "duration \<Rightarrow> int \<Rightarrow> duration" where
  "dur_add_int d delta =
     (if delta \<ge> 0 then Duration (dur_raw d + word_of_int delta)
      else (let ndelta = word_of_int (- delta) :: u32
            in if dur_raw d \<ge> ucast ndelta then Duration (dur_raw d - ucast ndelta) else Duration 0))"

definition dur_mult :: "duration \<Rightarrow> u32 \<Rightarrow> duration" where
  "dur_mult d m = Duration (dur_raw d * ucast m)"

definition dur_min :: "duration \<Rightarrow> duration \<Rightarrow> duration" where
  "dur_min c d = (if dur_raw d < dur_raw c then d else c)"

definition dur_max :: "duration \<Rightarrow> duration \<Rightarrow> duration" where
  "dur_max c d = (if dur_raw d > dur_raw c then d else c)"

definition dur_sub :: "duration \<Rightarrow> duration \<Rightarrow> duration" where
  "dur_sub c d =
     (if dur_raw d \<ge> dur_raw c then Duration 0
      else if dur_is_infinite c then dur_infinite
      else Duration (dur_raw c - dur_raw d))"

definition dur_to_seconds :: "duration \<Rightarrow> u64" where "dur_to_seconds d = dur_raw d div prec"

definition dur_to_milliseconds :: "duration \<Rightarrow> u64" where
  "dur_to_milliseconds d = dur_raw d - (dur_raw d * 3 div 128)"


section \<open>Points in time\<close>

definition time_zero :: vtime where "time_zero = Time 0"
definition time_infinite :: vtime where "time_infinite = Time (- 1)"

definition time_from_seconds :: "int \<Rightarrow> int \<Rightarrow> vtime" where
  "time_from_seconds base t =
     (if t \<le> base then Time 1 else Time (word_of_int ((t - base) * 1024)))"

definition time_is_infinite :: "vtime \<Rightarrow> bool" where "time_is_infinite t \<longleftrightarrow> time_raw t = - 1"
definition time_defined :: "vtime \<Rightarrow> bool" where "time_defined t \<longleftrightarrow> time_raw t \<noteq> 0"

definition seconds_since_epoch :: "int \<Rightarrow> vtime \<Rightarrow> int" where
  "seconds_since_epoch base t = base + uint (time_raw t div prec)"

definition fractional_binary_ms :: "vtime \<Rightarrow> u64" where
  "fractional_binary_ms t = time_raw t mod prec"

definition time_add :: "vtime \<Rightarrow> duration \<Rightarrow> vtime" where
  "time_add t d =
     (if time_is_infinite t \<or> dur_is_infinite d then time_infinite else Time (time_raw t + dur_raw d))"

definition time_sub :: "vtime \<Rightarrow> vtime \<Rightarrow> duration" where
  "time_sub s t =
     (if time_raw t \<ge> time_raw s then Duration 0
      else if time_is_infinite s then dur_infinite
      else Duration (time_raw s - time_raw t))"

definition time_min :: "vtime \<Rightarrow> vtime \<Rightarrow> vtime" where
  "time_min s t = (if time_raw t < time_raw s then t else s)"

definition time_max :: "vtime \<Rightarrow> vtime \<Rightarrow> vtime" where
  "time_max s t = (if time_raw t > time_raw s then t else s)"

definition time_delta_prec :: "vtime \<Rightarrow> vtime \<Rightarrow> int" where
  "time_delta_prec s t = sint (time_raw s) - sint (time_raw t)"


section \<open>Laws\<close>

lemma time_min_eq [simp]: "time_min s t = min s t" and time_max_eq [simp]: "time_max s t = max s t"
  by (auto simp: time_min_def time_max_def min_def max_def time_order vtime.expand)

lemma dur_min_eq [simp]: "dur_min c d = min c d" and dur_max_eq [simp]: "dur_max c d = max c d"
  by (auto simp: dur_min_def dur_max_def min_def max_def time_order duration.expand)

text \<open>Waiting for the difference of two times ends at the later one.\<close>

lemma time_add_sub:
  assumes "s \<le> t"
  shows "time_add s (time_sub t s) = t"
proof (cases "time_raw t = time_raw s")
  case True
  then have "t = s" by (simp add: vtime.expand)
  then show ?thesis
    by (cases s) (simp add: time_add_def time_sub_def time_infinite_def time_is_infinite_def dur_is_infinite_def)
next
  case False
  then have lt: "time_raw s < time_raw t" using assms by (simp add: time_order word_le_less_eq)
  show ?thesis
  proof (cases "time_is_infinite t")
    case True
    then have "t = time_infinite" by (simp add: time_is_infinite_def time_infinite_def vtime.expand)
    then show ?thesis using lt True
      by (auto simp: time_add_def time_sub_def dur_infinite_def dur_is_infinite_def dest: leD)
  next
    case fin: False
    have "\<not> time_is_infinite s" using lt by (auto simp: time_is_infinite_def)
    moreover have "time_raw t - time_raw s \<noteq> - 1"
    proof
      assume "time_raw t - time_raw s = - 1"
      then have "unat (time_raw t) - unat (time_raw s) = unat (- 1 :: u64)"
        using lt by (metis order_less_imp_le unat_sub)
      moreover have "unat (time_raw t) \<le> unat (- 1 :: u64)"
        by (simp flip: word_le_nat_alt)
      ultimately have "time_raw t = - 1" by (simp add: word_unat_eq_iff)
      then show False using fin by (simp add: time_is_infinite_def)
    qed
    ultimately show ?thesis using lt fin
      by (cases t) (auto simp: time_add_def time_sub_def dur_is_infinite_def dest: leD)
  qed
qed

lemma time_add_infinite [simp]: "time_add t dur_infinite = time_infinite"
  by (simp add: time_add_def dur_infinite_def dur_is_infinite_def)

lemma time_le_infinite [simp]: "t \<le> time_infinite"
  by (simp add: time_order time_infinite_def)

lemma time_add_mono:
  assumes "unat (time_raw t) + unat (dur_raw d) < 2 ^ 64"
  shows "t \<le> time_add t d"
proof -
  have "unat (time_raw t + dur_raw d) = unat (time_raw t) + unat (dur_raw d)"
    using assms by (simp add: unat_word_ariths)
  then have "t \<le> Time (time_raw t + dur_raw d)" by (simp add: time_order word_le_nat_alt)
  then show ?thesis by (simp add: time_add_def)
qed

text \<open>
  Multiplication does not saturate: twice an infinite duration is a finite one, and adding it
  to a time wraps around into the past.
\<close>

lemma dur_mult_infinite: "dur_mult dur_infinite 2 = Duration (- 2)" "\<not> dur_is_infinite (dur_mult dur_infinite 2)"
  by (simp_all add: dur_mult_def dur_infinite_def dur_is_infinite_def)

end
