(* ===== verification/Reliable.thy ===== *)
theory Reliable
  imports Packet_Id Vpn_Time
begin

text \<open>
  The reliability layer of the control channel: \<^verbatim>\<open>common/msgwin.hpp\<close> (\<open>MessageWindow\<close>),
  \<^verbatim>\<open>reliable/relcommon.hpp\<close>, \<^verbatim>\<open>relrecv.hpp\<close>, \<^verbatim>\<open>relsend.hpp\<close> and \<^verbatim>\<open>relack.hpp\<close>.

  \<open>MessageWindow\<close> is a template over the message class; its methods \<open>M()\<close>, \<open>erase\<close>,
  \<open>erased\<close> and \<open>defined\<close> are arguments of the window operations here, and the locale
  \<open>message_class\<close> states what the window needs of them. A deque is a list, front first.
  Calling \<open>front\<close> or \<open>pop_front\<close> on an empty deque is undefined in C++ and is \<open>None\<close> here.
\<close>


section \<open>Messages\<close>

record 'p message =
  m_packet :: "'p option"
  m_id :: u32
  m_erased :: bool

record 'p send_message = "'p message" +
  m_retransmit_at :: vtime

definition msg_defined :: "('p, 'z) message_scheme \<Rightarrow> bool" where
  "msg_defined m \<longleftrightarrow> m_packet m \<noteq> None"

definition msg_erase :: "('p, 'z) message_scheme \<Rightarrow> ('p, 'z) message_scheme" where
  "msg_erase m = m\<lparr>m_id := 0, m_packet := None, m_erased := True\<rparr>"

definition recv_msg :: "'p message" where
  "recv_msg = \<lparr>m_packet = None, m_id = 0, m_erased = False\<rparr>"

definition send_msg :: "'p send_message" where
  "send_msg = \<lparr>m_packet = None, m_id = 0, m_erased = False, m_retransmit_at = Time 0\<rparr>"


section \<open>The message window\<close>

record 'm msgwin =
  w_head :: u32
  w_span :: u32
  w_q :: "'m list"

definition win_init :: "u32 \<Rightarrow> u32 \<Rightarrow> 'm msgwin" where
  "win_init starting_head_id span = \<lparr>w_head = starting_head_id, w_span = span, w_q = []\<rparr>"

definition in_window :: "u32 \<Rightarrow> 'm msgwin \<Rightarrow> bool" where
  "in_window mid w \<longleftrightarrow> mid \<ge> w_head w \<and> mid < w_head w + w_span w"

definition pre_window :: "u32 \<Rightarrow> 'm msgwin \<Rightarrow> bool" where
  "pre_window mid w \<longleftrightarrow> mid < w_head w"

definition tail_id :: "'m msgwin \<Rightarrow> u32" where
  "tail_id w = w_head w + w_span w"

text \<open>\<open>while (q_.size() <= needed_index) q_.push_back(M())\<close>\<close>

definition win_grow :: "'m \<Rightarrow> u32 \<Rightarrow> 'm msgwin \<Rightarrow> 'm msgwin" where
  "win_grow dflt mid w =
     (let needed_index = unat (mid - w_head w)
      in w\<lparr>w_q := w_q w @ replicate (Suc needed_index - length (w_q w)) dflt\<rparr>)"

text \<open>\<open>ref_by_id\<close> grows the queue and yields the index of the message in it.\<close>

definition win_ref_by_id :: "'m \<Rightarrow> u32 \<Rightarrow> 'm msgwin \<Rightarrow> (nat \<times> 'm msgwin) res" where
  "win_ref_by_id dflt mid w =
     (if in_window mid w then Inr (unat (mid - w_head w), win_grow dflt mid w)
      else Inl Message_window_ref_by_id)"

fun purge_loop :: "('m \<Rightarrow> bool) \<Rightarrow> u32 \<Rightarrow> 'm list \<Rightarrow> u32 \<times> 'm list" where
  "purge_loop erased head [] = (head, [])"
| "purge_loop erased head (m # q) =
     (if erased m then purge_loop erased (head + 1) q else (head, m # q))"

definition win_purge :: "('m \<Rightarrow> bool) \<Rightarrow> 'm msgwin \<Rightarrow> 'm msgwin" where
  "win_purge erased w =
     (let (head, q) = purge_loop erased (w_head w) (w_q w) in w\<lparr>w_head := head, w_q := q\<rparr>)"

definition win_rm_by_id ::
  "'m \<Rightarrow> ('m \<Rightarrow> 'm) \<Rightarrow> ('m \<Rightarrow> bool) \<Rightarrow> u32 \<Rightarrow> 'm msgwin \<Rightarrow> 'm msgwin" where
  "win_rm_by_id dflt erase erased mid w =
     win_purge erased
       (if in_window mid w
        then (let w' = win_grow dflt mid w; i = unat (mid - w_head w)
              in w'\<lparr>w_q := (w_q w')[i := erase (w_q w' ! i)]\<rparr>)
        else w)"

definition head_defined :: "('m \<Rightarrow> bool) \<Rightarrow> 'm msgwin \<Rightarrow> bool" where
  "head_defined defined w = (case w_q w of [] \<Rightarrow> False | m # _ \<Rightarrow> defined m)"

definition win_ref_head :: "'m msgwin \<Rightarrow> 'm option" where
  "win_ref_head w = (case w_q w of [] \<Rightarrow> None | m # _ \<Rightarrow> Some m)"

definition win_rm_head_nocheck :: "'m msgwin \<Rightarrow> 'm msgwin option" where
  "win_rm_head_nocheck w =
     (case w_q w of [] \<Rightarrow> None | _ # q \<Rightarrow> Some (w\<lparr>w_q := q, w_head := w_head w + 1\<rparr>))"

definition win_rm_head :: "('m \<Rightarrow> bool) \<Rightarrow> 'm msgwin \<Rightarrow> 'm msgwin option res" where
  "win_rm_head defined w =
     (if head_defined defined w then Inr (win_rm_head_nocheck w) else Inl Message_window_rm_head)"


section \<open>Receiving: ReliableRecv\<close>

type_synonym 'p rel_recv = "'p message msgwin"

abbreviation (input) ACK_TO_SENDER :: u32 where "ACK_TO_SENDER \<equiv> 1"
abbreviation (input) IN_WINDOW :: u32 where "IN_WINDOW \<equiv> 2"

definition rr_init :: "u32 \<Rightarrow> 'p rel_recv" where
  "rr_init span = win_init 0 span"

definition rr_receive :: "'p \<Rightarrow> u32 \<Rightarrow> 'p rel_recv \<Rightarrow> u32 \<times> 'p rel_recv" where
  "rr_receive packet mid w =
     (if in_window mid w
      then (case win_ref_by_id recv_msg mid w of
              Inr (i, w) \<Rightarrow>
                (ACK_TO_SENDER OR IN_WINDOW,
                 w\<lparr>w_q := (w_q w)[i := (w_q w ! i)\<lparr>m_id := mid, m_packet := Some packet\<rparr>]\<rparr>)
            | Inl _ \<Rightarrow> (0, w))
      else (if pre_window mid w then ACK_TO_SENDER else 0, w))"

definition rr_ready :: "'p rel_recv \<Rightarrow> bool" where
  "rr_ready w = head_defined msg_defined w"

definition rr_next_sequenced :: "'p rel_recv \<Rightarrow> 'p message option" where
  "rr_next_sequenced w = win_ref_head w"

definition rr_advance :: "'p rel_recv \<Rightarrow> 'p rel_recv option" where
  "rr_advance w = win_rm_head_nocheck w"


section \<open>Sending: ReliableSend\<close>

record 'p rel_send =
  rs_next :: u32
  rs_window :: "'p send_message msgwin"

definition rs_init :: "u32 \<Rightarrow> 'p rel_send" where
  "rs_init span = \<lparr>rs_next = 0, rs_window = win_init 0 span\<rparr>"

definition rs_ready :: "'p rel_send \<Rightarrow> bool" where
  "rs_ready s = in_window (rs_next s) (rs_window s)"

text \<open>
  \<open>send\<close> hands out a reference to the message; the caller then stores the packet in it. The
  model returns the index and \<open>rs_set_packet\<close> is the store through the reference.
\<close>

definition rs_send :: "vtime \<Rightarrow> duration \<Rightarrow> 'p rel_send \<Rightarrow> (nat \<times> 'p rel_send) res" where
  "rs_send now tls_timeout s =
     bindE (win_ref_by_id send_msg (rs_next s) (rs_window s)) (\<lambda>(i, w).
       Inr (i, s\<lparr>rs_next := rs_next s + 1,
                rs_window := w\<lparr>w_q := (w_q w)[i := (w_q w ! i)\<lparr>m_id := rs_next s,
                    m_retransmit_at := time_add now tls_timeout\<rparr>]\<rparr>\<rparr>))"

definition rs_set_packet :: "nat \<Rightarrow> 'p \<Rightarrow> 'p rel_send \<Rightarrow> 'p rel_send" where
  "rs_set_packet i p s =
     s\<lparr>rs_window := (rs_window s)\<lparr>w_q := (w_q (rs_window s))[i := (w_q (rs_window s) ! i)\<lparr>m_packet := Some p\<rparr>]\<rparr>\<rparr>"

definition rs_ack :: "u32 \<Rightarrow> 'p rel_send \<Rightarrow> 'p rel_send" where
  "rs_ack mid s = s\<lparr>rs_window := win_rm_by_id send_msg msg_erase m_erased mid (rs_window s)\<rparr>"

definition ready_retransmit :: "vtime \<Rightarrow> 'p send_message \<Rightarrow> bool" where
  "ready_retransmit now m \<longleftrightarrow> msg_defined m \<and> now \<ge> m_retransmit_at m"

definition msg_until_retransmit :: "vtime \<Rightarrow> 'p send_message \<Rightarrow> duration" where
  "msg_until_retransmit now m =
     (if now < m_retransmit_at m then time_sub (m_retransmit_at m) now else dur_zero)"

definition reset_retransmit :: "vtime \<Rightarrow> duration \<Rightarrow> 'p send_message \<Rightarrow> 'p send_message" where
  "reset_retransmit now tls_timeout m = m\<lparr>m_retransmit_at := time_add now tls_timeout\<rparr>"

text \<open>
  The loops \<open>for (id_t i = head_id(); i < tail_id(); ++i)\<close> visit the window front to back;
  \<open>ref_by_id\<close> grows the queue up to the visited message. \<open>window_ids\<close> are the IDs visited: none
  when \<open>tail_id()\<close> wrapped around.
\<close>

definition window_ids :: "'m msgwin \<Rightarrow> u32 list" where
  "window_ids w =
     (if w_head w < tail_id w then map (\<lambda>k. w_head w + of_nat k) [0..<unat (w_span w)] else [])"

fun visit_window :: "'m \<Rightarrow> ('m \<Rightarrow> 'm) \<Rightarrow> u32 list \<Rightarrow> 'm msgwin \<Rightarrow> ('m list \<times> 'm msgwin) res" where
  "visit_window dflt f [] w = Inr ([], w)"
| "visit_window dflt f (mid # ids) w =
     bindE (win_ref_by_id dflt mid w) (\<lambda>(i, w1).
       bindE (visit_window dflt f ids (w1\<lparr>w_q := (w_q w1)[i := f (w_q w1 ! i)]\<rparr>)) (\<lambda>(ms, w2).
         Inr (w_q w1 ! i # ms, w2)))"

definition rs_until_retransmit :: "vtime \<Rightarrow> 'p rel_send \<Rightarrow> (duration \<times> 'p rel_send) res" where
  "rs_until_retransmit now s =
     bindE (visit_window send_msg (\<lambda>m. m) (window_ids (rs_window s)) (rs_window s)) (\<lambda>(ms, w).
       Inr (fold (\<lambda>m ret. if msg_defined m
                          then (let ut = msg_until_retransmit now m in if ut < ret then ut else ret)
                          else ret) ms dur_infinite,
            s\<lparr>rs_window := w\<rparr>))"

definition rs_n_unacked :: "'p rel_send \<Rightarrow> (nat \<times> 'p rel_send) res" where
  "rs_n_unacked s =
     bindE (visit_window send_msg (\<lambda>m. m) (window_ids (rs_window s)) (rs_window s)) (\<lambda>(ms, w).
       Inr (length (filter msg_defined ms), s\<lparr>rs_window := w\<rparr>))"


section \<open>Acknowledgements: ReliableAck\<close>

record rel_ack =
  ra_max :: nat
  ra_data :: "u32 list"

definition ra_new :: "nat \<Rightarrow> rel_ack" where
  "ra_new max_ack_list =
     \<lparr>ra_max = (if max_ack_list \<noteq> 0 then max_ack_list else size_t_limit - 1), ra_data = []\<rparr>"

definition ra_push_back :: "u32 \<Rightarrow> rel_ack \<Rightarrow> rel_ack" where
  "ra_push_back mid a = a\<lparr>ra_data := ra_data a @ [mid]\<rparr>"

definition ra_prepend_id :: "u32 \<Rightarrow> buf \<Rightarrow> buf res" where
  "ra_prepend_id mid b = buf_prepend (be32 mid) b"

definition ra_read_id :: "buf \<Rightarrow> (u32 \<times> buf) res" where
  "ra_read_id b = bindE (buf_read 4 b) (\<lambda>(xs, b). Inr (of_be32 xs, b))"

text \<open>
  The loop of \<open>ack\<close>, \<open>ack_skip\<close> and \<open>read\<close>: \<open>len\<close> IDs are read off the buffer, each is handed
  to \<open>f\<close> before the next one is read. When the buffer runs short the exception leaves what was
  done so far in place, so the state is part of both outcomes.
\<close>

fun ra_read_loop :: "(u32 \<Rightarrow> 's \<Rightarrow> 's) \<Rightarrow> nat \<Rightarrow> buf \<Rightarrow> 's \<Rightarrow> buf res \<times> 's" where
  "ra_read_loop f 0 b s = (Inr b, s)"
| "ra_read_loop f (Suc n) b s =
     (case ra_read_id b of Inl e \<Rightarrow> (Inl e, s) | Inr (mid, b) \<Rightarrow> ra_read_loop f n b (f mid s))"

definition ra_ack :: "'p rel_send \<Rightarrow> buf \<Rightarrow> bool \<Rightarrow> (nat \<times> buf) res \<times> 'p rel_send" where
  "ra_ack s b live =
     (case buf_pop_front b of
        Inl e \<Rightarrow> (Inl e, s)
      | Inr (len, b) \<Rightarrow>
          (case ra_read_loop (\<lambda>mid s. if live then rs_ack mid s else s) (unat len) b s of
             (Inl e, s) \<Rightarrow> (Inl e, s)
           | (Inr b, s) \<Rightarrow> (Inr (unat len, b), s)))"

definition ra_ack_skip :: "buf \<Rightarrow> (nat \<times> buf) res" where
  "ra_ack_skip b =
     bindE (buf_pop_front b) (\<lambda>(len, b).
       bindE (fst (ra_read_loop (\<lambda>_ s. s) (unat len) b ())) (\<lambda>b. Inr (unat len, b)))"

definition ra_read :: "buf \<Rightarrow> rel_ack \<Rightarrow> buf res \<times> rel_ack" where
  "ra_read b a =
     (case buf_pop_front b of
        Inl e \<Rightarrow> (Inl e, a)
      | Inr (len, b) \<Rightarrow> ra_read_loop ra_push_back (unat len) b a)"

fun ra_prepend_ids :: "u32 list \<Rightarrow> buf \<Rightarrow> buf res" where
  "ra_prepend_ids [] b = Inr b"
| "ra_prepend_ids (mid # ids) b = bindE (ra_prepend_ids ids b) (ra_prepend_id mid)"

definition ra_prepend :: "buf \<Rightarrow> rel_ack \<Rightarrow> (buf \<times> rel_ack) res" where
  "ra_prepend b a =
     (let len = min (length (ra_data a)) (ra_max a)
      in bindE (ra_prepend_ids (take len (ra_data a)) b) (\<lambda>b.
         bindE (buf_push_front (of_nat len) b) (\<lambda>b.
         Inr (b, a\<lparr>ra_data := drop len (ra_data a)\<rparr>))))"


section \<open>What a window holds\<close>

text \<open>
  \<open>win_msg d w k\<close> is the message with ID \<open>k\<close>, the default message when the queue does not reach
  that far: growing the queue is then invisible.
\<close>

definition win_msg :: "'m \<Rightarrow> 'm msgwin \<Rightarrow> nat \<Rightarrow> 'm" where
  "win_msg d w k =
     (if unat (w_head w) \<le> k \<and> k - unat (w_head w) < length (w_q w)
      then w_q w ! (k - unat (w_head w)) else d)"

definition win_ok :: "'m msgwin \<Rightarrow> bool" where
  "win_ok w \<longleftrightarrow> unat (w_head w) + length (w_q w) < 4294967296"

lemma in_window_nat:
  assumes "in_window i w"
  shows "unat (w_head w) \<le> unat i" "unat (i - w_head w) = unat i - unat (w_head w)"
    "unat i < unat (w_head w) + unat (w_span w)" "Suc (unat i) < 4294967296"
proof -
  show le: "unat (w_head w) \<le> unat i"
    using assms by (simp add: in_window_def word_le_nat_alt)
  show "unat (i - w_head w) = unat i - unat (w_head w)"
    using assms by (simp add: in_window_def unat_sub)
  have "unat i < unat (w_head w + w_span w)"
    using assms by (simp add: in_window_def word_less_nat_alt)
  also have "\<dots> \<le> unat (w_head w) + unat (w_span w)"
    by (simp add: unat_word_ariths)
  finally show "unat i < unat (w_head w) + unat (w_span w)" .
  have "unat i < unat (w_head w + w_span w)"
    using assms by (simp add: in_window_def word_less_nat_alt)
  then show "Suc (unat i) < 4294967296"
    using unat_u32_less [of "w_head w + w_span w"] by simp
qed

lemma in_window_iff:
  assumes "unat (w_head w) + unat (w_span w) < 4294967296"
  shows "in_window i w \<longleftrightarrow> unat (w_head w) \<le> unat i \<and> unat i < unat (w_head w) + unat (w_span w)"
proof -
  have "unat (w_head w + w_span w) = unat (w_head w) + unat (w_span w)"
    using assms by (simp add: unat_word_ariths)
  then show ?thesis by (simp add: in_window_def word_le_nat_alt word_less_nat_alt)
qed

lemma grow_fields [simp]:
  "w_head (win_grow d i w) = w_head w" "w_span (win_grow d i w) = w_span w"
  by (simp_all add: win_grow_def Let_def)

lemma grow_length: "length (w_q (win_grow d i w)) = max (length (w_q w)) (Suc (unat (i - w_head w)))"
  by (simp add: win_grow_def Let_def max_def)

lemma grow_msg [simp]: "win_msg d (win_grow d i w) k = win_msg d w k"
  by (auto simp: win_msg_def win_grow_def nth_append Let_def)

lemma grow_ok:
  assumes "win_ok w" "in_window i w"
  shows "win_ok (win_grow d i w)"
  using assms in_window_nat [OF assms(2)] by (auto simp: win_ok_def grow_length max_def)

text \<open>Storing into the slot of an ID of the window.\<close>

definition win_upd :: "'m \<Rightarrow> ('m \<Rightarrow> 'm) \<Rightarrow> u32 \<Rightarrow> 'm msgwin \<Rightarrow> 'm msgwin" where
  "win_upd d f i w =
     (let w' = win_grow d i w; j = unat (i - w_head w) in w'\<lparr>w_q := (w_q w')[j := f (w_q w' ! j)]\<rparr>)"

lemma grow_nth:
  assumes "in_window i w"
  shows "w_q (win_grow d i w) ! unat (i - w_head w) = win_msg d w (unat i)"
proof -
  have "w_q (win_grow d i w) ! unat (i - w_head w) = win_msg d (win_grow d i w) (unat i)"
    using in_window_nat [OF assms] by (simp add: win_msg_def grow_length max_def)
  then show ?thesis by simp
qed

lemma upd_msg:
  assumes "in_window i w"
  shows "win_msg d (win_upd d f i w) k = (if k = unat i then f (win_msg d w k) else win_msg d w k)"
proof -
  have "win_msg d (win_upd d f i w) k = (if k = unat i then f (win_msg d (win_grow d i w) k) else win_msg d (win_grow d i w) k)"
    using in_window_nat [OF assms]
    by (auto simp: win_upd_def Let_def win_msg_def nth_list_update grow_length max_def)
  then show ?thesis by simp
qed

lemma upd_fields [simp]:
  "w_head (win_upd d f i w) = w_head w" "w_span (win_upd d f i w) = w_span w"
  by (simp_all add: win_upd_def Let_def)

lemma upd_ok: "win_ok w \<Longrightarrow> in_window i w \<Longrightarrow> win_ok (win_upd d f i w)"
  using grow_ok [of w i d] by (simp add: win_upd_def Let_def win_ok_def)

lemma upd_length:
  "length (w_q (win_upd d f i w)) = max (length (w_q w)) (Suc (unat (i - w_head w)))"
  by (simp add: win_upd_def Let_def grow_length)

lemma ref_by_id_Inr:
  "win_ref_by_id d i w = Inr (j, w') \<longleftrightarrow> in_window i w \<and> j = unat (i - w_head w) \<and> w' = win_grow d i w"
  by (auto simp: win_ref_by_id_def)

text \<open>Taking the head off moves the window on by one.\<close>

lemma rm_head_msg:
  assumes "win_ok w" "w_q w = m # q"
  shows "\<exists>w'. win_rm_head_nocheck w = Some w' \<and> win_ok w' \<and> w_span w' = w_span w
    \<and> unat (w_head w') = Suc (unat (w_head w)) \<and> length (w_q w') = length q
    \<and> (\<forall>k > unat (w_head w). win_msg d w' k = win_msg d w k)"
proof -
  have h: "unat (w_head w + 1) = Suc (unat (w_head w))"
    using assms by (simp add: win_ok_def unat_plus_if')
  let ?w = "w\<lparr>w_q := q, w_head := w_head w + 1\<rparr>"
  have "win_msg d ?w k = win_msg d w k" if gt: "k > unat (w_head w)" for k
  proof -
    obtain j where "k = Suc (unat (w_head w) + j)" using less_imp_Suc_add [OF gt] by blast
    then show ?thesis using h assms(2) by (simp add: win_msg_def)
  qed
  then show ?thesis
    using h assms by (intro exI [of _ ?w]) (simp add: win_rm_head_nocheck_def win_ok_def)
qed

lemma head_msg: "w_q w = m # q \<Longrightarrow> win_msg d w (unat (w_head w)) = m"
  by (simp add: win_msg_def)


section \<open>The interface: a class of messages\<close>

text \<open>
  What \<open>MessageWindow\<close> needs of \<open>M\<close>: a new message is neither defined nor erased, and erasing
  leaves an erased, undefined message.
\<close>

locale message_class =
  fixes new :: 'm
    and erase :: "'m \<Rightarrow> 'm"
    and erased :: "'m \<Rightarrow> bool"
    and defined :: "'m \<Rightarrow> bool"
  assumes new_fresh: "\<not> defined new" "\<not> erased new"
    and erase_erases: "erased (erase m)" "\<not> defined (erase m)"
begin

lemma purge_loop_spec:
  assumes "unat h + length q < 4294967296"
  shows "\<exists>n. purge_loop erased h q = (h + of_nat n, drop n q) \<and> n \<le> length q
    \<and> (\<forall>k < n. erased (q ! k)) \<and> (n < length q \<longrightarrow> \<not> erased (q ! n))"
  using assms
proof (induction q arbitrary: h)
  case Nil
  then show ?case by simp
next
  case (Cons m q)
  show ?case
  proof (cases "erased m")
    case True
    have "unat (h + 1) \<le> Suc (unat h)" by (simp add: unat_word_ariths)
    with Cons.prems have "unat (h + 1) + length q < 4294967296" by simp
    from Cons.IH [OF this] obtain n where n: "purge_loop erased (h + 1) q = (h + 1 + of_nat n, drop n q)" "n \<le> length q"
      "\<forall>k < n. erased (q ! k)" "n < length q \<longrightarrow> \<not> erased (q ! n)"
      by blast
    have "\<forall>k < Suc n. erased ((m # q) ! k)" using True n(3) by (simp add: All_less_Suc2)
    then show ?thesis using True n by (intro exI [of _ "Suc n"]) (simp add: ac_simps)
  next
    case False
    then show ?thesis by (intro exI [of _ 0]) simp
  qed
qed

lemma purge_spec:
  assumes "win_ok w"
  shows "win_ok (win_purge erased w) \<and> w_span (win_purge erased w) = w_span w
    \<and> unat (w_head w) \<le> unat (w_head (win_purge erased w))
    \<and> unat (w_head (win_purge erased w)) + length (w_q (win_purge erased w)) = unat (w_head w) + length (w_q w)
    \<and> (\<forall>k. unat (w_head w) \<le> k \<longrightarrow> k < unat (w_head (win_purge erased w)) \<longrightarrow> erased (win_msg new w k))
    \<and> (\<forall>k. unat (w_head (win_purge erased w)) \<le> k \<longrightarrow> win_msg new (win_purge erased w) k = win_msg new w k)
    \<and> \<not> erased (win_msg new (win_purge erased w) (unat (w_head (win_purge erased w))))"
proof -
  obtain n where n: "purge_loop erased (w_head w) (w_q w) = (w_head w + of_nat n, drop n (w_q w))"
    "n \<le> length (w_q w)" "\<forall>k < n. erased (w_q w ! k)" "n < length (w_q w) \<longrightarrow> \<not> erased (w_q w ! n)"
    using purge_loop_spec [of "w_head w" "w_q w"] assms by (auto simp: win_ok_def)
  have h: "unat (w_head w + of_nat n) = unat (w_head w) + n"
  proof -
    have "n < 4294967296" using n(2) assms by (simp add: win_ok_def)
    then have "unat (of_nat n :: u32) = n" by (simp add: unat_of_nat)
    then show ?thesis using n(2) assms by (simp add: unat_plus_if' win_ok_def)
  qed
  have p: "win_purge erased w = w\<lparr>w_head := w_head w + of_nat n, w_q := drop n (w_q w)\<rparr>"
    using n(1) by (simp add: win_purge_def)
  have "erased (win_msg new w k)" if "unat (w_head w) \<le> k" "k < unat (w_head w) + n" for k
    using that n(2,3) by (auto simp: win_msg_def)
  moreover have "win_msg new (win_purge erased w) k = win_msg new w k" if "unat (w_head w) + n \<le> k" for k
  proof -
    from that obtain j where "k = unat (w_head w) + n + j" using le_Suc_ex by blast
    then show ?thesis using n(2) h unfolding p by (auto simp: win_msg_def)
  qed
  moreover have "\<not> erased (win_msg new (win_purge erased w) (unat (w_head w) + n))"
    using n(2,4) h new_fresh unfolding p by (auto simp: win_msg_def)
  ultimately show ?thesis
    using n(2) h assms by (simp add: p win_ok_def)
qed

lemma rm_by_id_upd:
  "win_rm_by_id new erase erased i w = win_purge erased (if in_window i w then win_upd new erase i w else w)"
  by (simp add: win_rm_by_id_def win_upd_def Let_def)

lemma rm_by_id_spec:
  fixes i :: u32 and k :: nat
  assumes "win_ok w"
  defines "w' \<equiv> win_rm_by_id new erase erased i w"
  shows "win_ok w'" "w_span w' = w_span w" "unat (w_head w) \<le> unat (w_head w')"
    "unat (w_head w') \<le> k \<Longrightarrow>
       win_msg new w' k = (if k = unat i \<and> in_window i w then erase (win_msg new w k) else win_msg new w k)"
    "unat (w_head w) \<le> k \<Longrightarrow> k < unat (w_head w') \<Longrightarrow> k = unat i \<and> in_window i w \<or> erased (win_msg new w k)"
proof -
  let ?u = "if in_window i w then win_upd new erase i w else w"
  have okU: "win_ok ?u" using assms by (simp add: upd_ok)
  have f: "w_span ?u = w_span w" "w_head ?u = w_head w"
    "\<And>k. win_msg new ?u k = (if k = unat i \<and> in_window i w then erase (win_msg new w k) else win_msg new w k)"
    by (auto simp: upd_msg)
  note p = purge_spec [OF okU, folded rm_by_id_upd, folded w'_def, unfolded f]
  show "win_ok w'" "w_span w' = w_span w" "unat (w_head w) \<le> unat (w_head w')" using p by simp_all
  show "unat (w_head w') \<le> k \<Longrightarrow>
       win_msg new w' k = (if k = unat i \<and> in_window i w then erase (win_msg new w k) else win_msg new w k)"
    using p by blast
  show "unat (w_head w) \<le> k \<Longrightarrow> k < unat (w_head w') \<Longrightarrow> k = unat i \<and> in_window i w \<or> erased (win_msg new w k)"
    using p by (auto split: if_splits)
qed

end

interpretation recv_class: message_class recv_msg msg_erase m_erased msg_defined
  by unfold_locales (simp_all add: recv_msg_def msg_erase_def msg_defined_def)

interpretation send_class: message_class send_msg msg_erase m_erased msg_defined
  by unfold_locales (simp_all add: send_msg_def msg_erase_def msg_defined_def)

section \<open>The receiver\<close>

text \<open>
  The receiver against the list \<open>S\<close> of packets the peer submitted: it has delivered a prefix,
  and every message it holds is the one submitted under its ID.
\<close>

definition rcv_inv :: "'p list \<Rightarrow> 'p list \<Rightarrow> 'p rel_recv \<Rightarrow> bool" where
  "rcv_inv S out r \<longleftrightarrow> win_ok r \<and> unat (w_head r) \<le> length S \<and> out = take (unat (w_head r)) S
     \<and> (\<forall>k. msg_defined (win_msg recv_msg r k) \<longrightarrow>
            k < length S \<and> m_packet (win_msg recv_msg r k) = Some (S ! k))"

definition rcv_has :: "'p rel_recv \<Rightarrow> nat \<Rightarrow> bool" where
  "rcv_has r k \<longleftrightarrow> k < unat (w_head r) \<or> msg_defined (win_msg recv_msg r k)"

lemma rr_receive_eq:
  "rr_receive p i r =
    (if in_window i r
     then (ACK_TO_SENDER OR IN_WINDOW, win_upd recv_msg (\<lambda>m. m\<lparr>m_id := i, m_packet := Some p\<rparr>) i r)
     else (if pre_window i r then ACK_TO_SENDER else 0, r))"
  by (simp add: rr_receive_def win_ref_by_id_def win_upd_def Let_def)

lemma pre_window_nat: "pre_window i w \<longleftrightarrow> unat i < unat (w_head w)"
  by (simp add: pre_window_def word_less_nat_alt)

lemma rr_receive_inv:
  assumes "rcv_inv S out r" "unat i < length S" "S ! unat i = p" "rr_receive p i r = (flags, r')"
  shows "rcv_inv S out r'" and "rcv_has r k \<Longrightarrow> rcv_has r' k"
    and "flags AND ACK_TO_SENDER \<noteq> 0 \<Longrightarrow> rcv_has r' (unat i)"
    and "w_head r' = w_head r" and "w_span r' = w_span r"
proof -
  have "rcv_inv S out r' \<and> (rcv_has r k \<longrightarrow> rcv_has r' k)
    \<and> (flags AND ACK_TO_SENDER \<noteq> 0 \<longrightarrow> rcv_has r' (unat i)) \<and> w_head r' = w_head r \<and> w_span r' = w_span r"
  proof (cases "in_window i r")
    case True
    then have r': "r' = win_upd recv_msg (\<lambda>m. m\<lparr>m_id := i, m_packet := Some p\<rparr>) i r"
      using assms(4) by (simp add: rr_receive_eq)
    then show ?thesis
      using assms(1-3) True
      by (auto simp: rcv_inv_def rcv_has_def upd_msg upd_ok msg_defined_def)
  next
    case False
    then show ?thesis
      using assms by (auto simp: rr_receive_eq rcv_has_def pre_window_nat split: if_splits)
  qed
  then show "rcv_inv S out r'" "rcv_has r k \<Longrightarrow> rcv_has r' k"
    "flags AND ACK_TO_SENDER \<noteq> 0 \<Longrightarrow> rcv_has r' (unat i)" "w_head r' = w_head r" "w_span r' = w_span r"
    by blast+
qed

lemma rr_ready_msg:
  "rr_ready r \<Longrightarrow> \<exists>m q p. w_q r = m # q \<and> m_packet m = Some p \<and> rr_next_sequenced r = Some m"
  by (auto simp: rr_ready_def head_defined_def rr_next_sequenced_def win_ref_head_def msg_defined_def
      split: list.splits)

lemma rr_advance_inv:
  assumes "rcv_inv S out r" "rr_ready r" "rr_next_sequenced r = Some m" "m_packet m = Some p"
    "rr_advance r = Some r'"
  shows "rcv_inv S (out @ [p]) r'" and "rcv_has r k \<Longrightarrow> rcv_has r' k" and "w_span r' = w_span r"
    and "unat (w_head r') = Suc (unat (w_head r))"
proof -
  from assms(2,3) obtain q where q: "w_q r = m # q" using rr_ready_msg by fastforce
  have ok: "win_ok r" using assms(1) by (simp add: rcv_inv_def)
  from rm_head_msg [OF ok q, of recv_msg] assms(5)
  have r': "win_ok r'" "w_span r' = w_span r" "unat (w_head r') = Suc (unat (w_head r))"
    and keep: "\<And>k. k > unat (w_head r) \<Longrightarrow> win_msg recv_msg r' k = win_msg recv_msg r k"
    by (auto simp: rr_advance_def)
  have "m = win_msg recv_msg r (unat (w_head r))" using head_msg [OF q] by metis
  then have h: "unat (w_head r) < length S" "p = S ! unat (w_head r)"
    using assms(1,4) by (auto simp: rcv_inv_def msg_defined_def)
  have before: "win_msg recv_msg r' k = recv_msg" if "k \<le> unat (w_head r)" for k
    using that r'(3) by (simp add: win_msg_def)
  have all: "win_msg recv_msg r' k = (if k \<le> unat (w_head r) then recv_msg else win_msg recv_msg r k)" for k
    using before keep by (cases "k \<le> unat (w_head r)") auto
  have nd: "\<not> msg_defined recv_msg" by (simp add: msg_defined_def recv_msg_def)
  show "rcv_inv S (out @ [p]) r'"
    using assms(1) h r'(1,3) nd by (auto simp: rcv_inv_def all take_Suc_conv_app_nth split: if_splits)
  show "rcv_has r k \<Longrightarrow> rcv_has r' k"
    using r'(3) all [of k] by (auto simp: rcv_has_def)
  show "w_span r' = w_span r" "unat (w_head r') = Suc (unat (w_head r))" by (rule r')+
qed



section \<open>The sender\<close>

text \<open>
  The sender against the submitted packets \<open>S\<close> and the set \<open>A\<close> of IDs the peer has: what is
  below the window is at the peer, and each message of the window is the submitted one or has
  been erased because the peer has it.
\<close>

definition snd_inv :: "'p list \<Rightarrow> (nat \<Rightarrow> bool) \<Rightarrow> 'p rel_send \<Rightarrow> bool" where
  "snd_inv S A s \<longleftrightarrow>
     (let w = rs_window s in win_ok w \<and> unat (rs_next s) = length S \<and> unat (w_head w) \<le> length S
       \<and> length S \<le> unat (w_head w) + unat (w_span w)
       \<and> (\<forall>k < unat (w_head w). A k)
       \<and> (\<forall>k. unat (w_head w) \<le> k \<longrightarrow> k < length S \<longrightarrow>
            (let m = win_msg send_msg w k in
              m_packet m = Some (S ! k) \<and> m_id m = of_nat k \<and> \<not> m_erased m
              \<or> m_packet m = None \<and> m_erased m \<and> A k))
       \<and> (\<forall>k \<ge> length S. win_msg send_msg w k = send_msg))"

lemma snd_inv_mono: "snd_inv S A s \<Longrightarrow> (\<And>k. A k \<Longrightarrow> B k) \<Longrightarrow> snd_inv S B s"
  unfolding snd_inv_def Let_def by blast

lemma rs_send_eq:
  "rs_ready s \<Longrightarrow> rs_send now t s =
     Inr (unat (rs_next s - w_head (rs_window s)),
          s\<lparr>rs_next := rs_next s + 1,
            rs_window := win_upd send_msg (\<lambda>m. m\<lparr>m_id := rs_next s, m_retransmit_at := time_add now t\<rparr>)
                                 (rs_next s) (rs_window s)\<rparr>)"
  by (simp add: rs_send_def rs_ready_def win_ref_by_id_def win_upd_def Let_def)

lemma rs_submit_eq:
  assumes "rs_ready s" "rs_send now t s = Inr (j, s1)"
  shows "rs_set_packet j p s1 =
    s\<lparr>rs_next := rs_next s + 1,
      rs_window := win_upd send_msg
        (\<lambda>m. m\<lparr>m_id := rs_next s, m_retransmit_at := time_add now t, m_packet := Some p\<rparr>)
        (rs_next s) (rs_window s)\<rparr>"
proof -
  have "unat (rs_next s - w_head (rs_window s)) < length (w_q (win_grow send_msg (rs_next s) (rs_window s)))"
    by (simp add: grow_length)
  then show ?thesis
    using assms unfolding rs_send_eq [OF assms(1)]
    by (auto simp: rs_set_packet_def win_upd_def Let_def)
qed

lemma rs_submit_inv:
  assumes "snd_inv S A s" "rs_ready s" "rs_send now t s = Inr (j, s1)"
  shows "snd_inv (S @ [p]) A (rs_set_packet j p s1)"
proof -
  let ?w = "rs_window s"
  have win: "in_window (rs_next s) ?w" using assms(2) by (simp add: rs_ready_def)
  note n = in_window_nat [OF win]
  have len: "unat (rs_next s) = length S" using assms(1) by (simp add: snd_inv_def Let_def)
  have "of_nat (unat (rs_next s)) = rs_next s" by simp
  then have next_eq: "unat (rs_next s) = length S" "rs_next s = of_nat (length S)"
    unfolding len by simp_all
  have nx: "unat (rs_next s + 1) = Suc (length S)" using n(4) next_eq by (simp add: unat_add1_u32)
  define w' where "w' = rs_window (rs_set_packet j p s1)"
  have eq: "w' = win_upd send_msg
      (\<lambda>m. m\<lparr>m_id := rs_next s, m_retransmit_at := time_add now t, m_packet := Some p\<rparr>) (rs_next s) ?w"
    by (simp add: w'_def rs_submit_eq [OF assms(2,3)])
  have inv: "win_ok ?w" "unat (w_head ?w) \<le> length S" "\<And>k. k < unat (w_head ?w) \<Longrightarrow> A k"
    "\<And>k. k \<ge> length S \<Longrightarrow> win_msg send_msg ?w k = send_msg"
    and inS: "\<And>k. unat (w_head ?w) \<le> k \<Longrightarrow> k < length S \<Longrightarrow>
       (let m = win_msg send_msg ?w k in m_packet m = Some (S ! k) \<and> m_id m = of_nat k \<and> \<not> m_erased m
              \<or> m_packet m = None \<and> m_erased m \<and> A k)"
    using assms(1) by (auto simp: snd_inv_def Let_def)
  have msg: "win_msg send_msg w' k = (if k = length S
      then send_msg\<lparr>m_id := of_nat (length S), m_retransmit_at := time_add now t, m_packet := Some p\<rparr>
      else win_msg send_msg ?w k)" for k
    using upd_msg [OF win] inv(4) [of "length S"] next_eq by (simp add: eq)
  have head: "w_head w' = w_head ?w" "w_span w' = w_span ?w" "win_ok w'"
    using upd_ok [OF inv(1) win] by (simp_all add: eq)
  have "(let m = win_msg send_msg w' k in m_packet m = Some ((S @ [p]) ! k) \<and> m_id m = of_nat k \<and> \<not> m_erased m
              \<or> m_packet m = None \<and> m_erased m \<and> A k)"
    if "unat (w_head w') \<le> k" "k < length (S @ [p])" for k
  proof (cases "k = length S")
    case True
    then show ?thesis by (simp add: msg send_class.new_fresh)
  next
    case False
    then show ?thesis using inS [of k] that head(1) by (simp add: msg nth_append)
  qed
  moreover have "rs_next (rs_set_packet j p s1) = rs_next s + 1"
    by (simp add: rs_submit_eq [OF assms(2,3)])
  moreover have "\<forall>k \<ge> length (S @ [p]). win_msg send_msg w' k = send_msg"
    using inv(4) by (simp add: msg)
  ultimately show ?thesis
    using nx inv(2,3) head n(3) next_eq(1) unfolding snd_inv_def w'_def [symmetric] by simp
qed

lemma rs_ack_inv:
  assumes "snd_inv S A s" "A (unat i)" "unat i < length S"
  shows "snd_inv S A (rs_ack i s)"
proof -
  let ?w = "rs_window s"
  let ?w' = "win_rm_by_id send_msg msg_erase m_erased i ?w"
  have ok: "win_ok ?w" using assms(1) by (simp add: snd_inv_def Let_def)
  note rm = send_class.rm_by_id_spec [OF ok, where i = i]
  have fresh: "\<And>k. k \<ge> length S \<Longrightarrow> win_msg send_msg ?w k = send_msg"
    using assms(1) by (simp add: snd_inv_def Let_def)
  have head: "unat (w_head ?w') \<le> length S"
  proof (rule ccontr)
    assume "\<not> ?thesis"
    then have "length S = unat i \<and> in_window i ?w \<or> m_erased (win_msg send_msg ?w (length S))"
      using rm(5) [of "length S"] assms(1) by (simp add: snd_inv_def Let_def)
    then show False using assms(3) fresh [of "length S"] by (simp add: send_msg_def)
  qed
  have below: "A k" if "k < unat (w_head ?w')" for k
  proof (cases "k < unat (w_head ?w)")
    case False
    then have "k = unat i \<or> m_erased (win_msg send_msg ?w k)" "k < length S" "unat (w_head ?w) \<le> k"
      using rm(5) [of k] that head by auto
    then show ?thesis using assms(1,2) by (auto simp: snd_inv_def Let_def)
  qed (use assms(1) in \<open>simp add: snd_inv_def Let_def\<close>)
  show ?thesis
    using assms rm(1,2,3) rm(4) below head
    by (auto simp: snd_inv_def Let_def rs_ack_def msg_erase_def)
qed


text \<open>A message of the window is sent again: only its timer changes.\<close>

lemma rs_retransmit_inv:
  assumes "snd_inv S A s" "in_window i (rs_window s)"
    and "m_packet (win_msg send_msg (rs_window s) (unat i)) = Some p"
  shows "snd_inv S A (s\<lparr>rs_window := win_upd send_msg (reset_retransmit now t) i (rs_window s)\<rparr>)"
    and "unat i < length S" "S ! unat i = p" "m_id (win_msg send_msg (rs_window s) (unat i)) = i"
proof -
  let ?w = "rs_window s"
  have inv: "win_ok ?w" "unat (w_head ?w) \<le> length S" "\<And>k. k < unat (w_head ?w) \<Longrightarrow> A k"
    "\<And>k. k \<ge> length S \<Longrightarrow> win_msg send_msg ?w k = send_msg" "unat (rs_next s) = length S"
    "length S \<le> unat (w_head ?w) + unat (w_span ?w)"
    and inS: "\<And>k. unat (w_head ?w) \<le> k \<Longrightarrow> k < length S \<Longrightarrow>
       (let m = win_msg send_msg ?w k in m_packet m = Some (S ! k) \<and> m_id m = of_nat k \<and> \<not> m_erased m
              \<or> m_packet m = None \<and> m_erased m \<and> A k)"
    using assms(1) by (auto simp: snd_inv_def Let_def)
  show lt: "unat i < length S"
    using inv(4) [of "unat i"] assms(3) by (force simp: send_msg_def)
  with inS [of "unat i"] in_window_nat(1) [OF assms(2)] assms(3)
  show "S ! unat i = p" "m_id (win_msg send_msg ?w (unat i)) = i" by (auto simp: Let_def)
  define w' where "w' = win_upd send_msg (reset_retransmit now t) i ?w"
  have msg: "win_msg send_msg w' k = (if k = unat i then reset_retransmit now t (win_msg send_msg ?w k)
      else win_msg send_msg ?w k)" for k
    by (simp add: w'_def upd_msg [OF assms(2)])
  have same: "m_packet (win_msg send_msg w' k) = m_packet (win_msg send_msg ?w k)"
    "m_id (win_msg send_msg w' k) = m_id (win_msg send_msg ?w k)"
    "m_erased (win_msg send_msg w' k) = m_erased (win_msg send_msg ?w k)" for k
    by (simp_all add: msg reset_retransmit_def)
  have head: "w_head w' = w_head ?w" "w_span w' = w_span ?w" "win_ok w'"
    using upd_ok [OF inv(1) assms(2)] by (simp_all add: w'_def)
  have "win_msg send_msg w' k = send_msg" if "k \<ge> length S" for k
    using inv(4) [OF that] lt that by (simp add: msg)
  then show "snd_inv S A (s\<lparr>rs_window := win_upd send_msg (reset_retransmit now t) i ?w\<rparr>)"
    using inv(2,3,5,6) inS head unfolding snd_inv_def w'_def [symmetric] by (simp add: same Let_def)
qed



section \<open>Loops over the window\<close>

text \<open>A loop that only looks at the messages grows the queue and changes nothing else.\<close>

lemma visit_window_look:
  assumes "win_ok w" "\<And>i. i \<in> set ids \<Longrightarrow> in_window i w"
  shows "\<exists>w'. visit_window d (\<lambda>m. m) ids w = Inr (map (\<lambda>i. win_msg d w (unat i)) ids, w')
    \<and> win_ok w' \<and> w_head w' = w_head w \<and> w_span w' = w_span w
    \<and> (\<forall>k. win_msg d w' k = win_msg d w k)"
  using assms
proof (induction ids arbitrary: w)
  case Nil
  then show ?case by simp
next
  case (Cons i ids)
  let ?u = "win_grow d i w"
  have i: "in_window i w" using Cons.prems by simp
  have "win_ok ?u" using grow_ok [OF Cons.prems(1) i] .
  moreover have "\<And>j. j \<in> set ids \<Longrightarrow> in_window j ?u"
    using Cons.prems(2) by (simp add: in_window_def)
  ultimately obtain w' where w': "visit_window d (\<lambda>m. m) ids ?u = Inr (map (\<lambda>i. win_msg d ?u (unat i)) ids, w')"
    "win_ok w'" "w_head w' = w_head ?u" "w_span w' = w_span ?u" "\<forall>k. win_msg d w' k = win_msg d ?u k"
    using Cons.IH [of ?u] by blast
  have "visit_window d (\<lambda>m. m) (i # ids) w = Inr (map (\<lambda>i. win_msg d w (unat i)) (i # ids), w')"
    using i w'(1) grow_nth [OF i, of d] by (simp add: win_ref_by_id_def)
  then show ?case using w' by auto
qed

lemma window_ids_in:
  assumes "i \<in> set (window_ids w)"
  shows "in_window i w"
proof -
  from assms obtain k where h: "w_head w < tail_id w" and k: "i = w_head w + of_nat k" "k < unat (w_span w)"
    by (auto simp: window_ids_def split: if_splits)
  have nw: "unat (w_head w) + unat (w_span w) < 4294967296"
  proof (rule ccontr)
    assume "\<not> ?thesis"
    then have "unat (w_head w + w_span w) < unat (w_head w)"
      using unat_u32_less [of "w_head w"] unat_u32_less [of "w_span w"] by (simp add: unat_plus_if')
    then show False using h by (simp add: tail_id_def word_less_nat_alt)
  qed
  have "unat i = unat (w_head w) + k" using k nw by (simp add: unat_plus_if' unat_of_nat_u32)
  then show ?thesis using k nw by (simp add: in_window_iff)
qed

lemma window_ids_nat:
  assumes "unat (w_head w) + unat (w_span w) < 4294967296"
  shows "map unat (window_ids w) = [unat (w_head w) ..< unat (w_head w) + unat (w_span w)]"
proof -
  have lt: "w_head w < tail_id w \<longleftrightarrow> unat (w_span w) \<noteq> 0"
    using assms by (simp add: tail_id_def word_less_nat_alt unat_plus_if')
  have "unat (w_head w + of_nat k) = unat (w_head w) + k" if "k < unat (w_span w)" for k
    using that assms by (simp add: unat_plus_if' unat_of_nat_u32)
  then have "map (unat \<circ> (\<lambda>k. w_head w + of_nat k)) [0..<unat (w_span w)]
      = map (\<lambda>k. unat (w_head w) + k) [0..<unat (w_span w)]"
    by (intro map_cong) auto
  also have "\<dots> = [unat (w_head w) ..< unat (w_head w) + unat (w_span w)]"
    by (simp add: map_add_upt add.commute)
  finally show ?thesis using lt by (auto simp: window_ids_def)
qed

section \<open>The acknowledgement list on the wire\<close>

lemma prepend_ids_Inr:
  "buf_wf b \<Longrightarrow> ra_prepend_ids ids b = Inr b' \<Longrightarrow>
   buf_wf b' \<and> contents b' = concat (map be32 ids) @ contents b \<and> b_offset b' = b_offset b - 4 * length ids"
proof (induction ids arbitrary: b')
  case (Cons i ids)
  then obtain b1 where b1: "ra_prepend_ids ids b = Inr b1" "buf_prepend (be32 i) b1 = Inr b'"
    by (auto simp: ra_prepend_id_def)
  from Cons.IH [OF Cons.prems(1) b1(1)] bufq.prepend_view [OF _ b1(2)] show ?case by simp
qed simp

lemma prepend_ids_ok:
  assumes "buf_wf b"
  shows "4 * length ids \<le> b_offset b \<Longrightarrow> ok (ra_prepend_ids ids b)"
proof (induction ids)
  case (Cons i ids)
  then obtain b1 where b1: "ra_prepend_ids ids b = Inr b1" by (auto simp: ok_def)
  from prepend_ids_Inr [OF assms b1] have "ok (buf_prepend (be32 i) b1)"
    using Cons.prems bufq.prepend_ok [of b1 "be32 i"] by simp
  then show ?case using b1 by (simp add: ra_prepend_id_def)
qed simp

lemma ra_prepend_Inr:
  assumes "buf_wf b" "ra_prepend b a = Inr (b', a')"
  defines "n \<equiv> min (length (ra_data a)) (ra_max a)"
  shows "buf_wf b'" "contents b' = of_nat n # concat (map be32 (take n (ra_data a))) @ contents b"
    "ra_data a' = drop n (ra_data a)" "ra_max a' = ra_max a"
proof -
  from assms(2) obtain b1 where b1: "ra_prepend_ids (take n (ra_data a)) b = Inr b1"
    "buf_push_front (of_nat n) b1 = Inr b'" "a' = a\<lparr>ra_data := drop n (ra_data a)\<rparr>"
    by (auto simp: ra_prepend_def Let_def n_def)
  from prepend_ids_Inr [OF assms(1) b1(1)] have i: "buf_wf b1"
    "contents b1 = concat (map be32 (take n (ra_data a))) @ contents b" by simp_all
  have "buf_prepend [of_nat n] b1 = Inr b'" using b1(2) by (simp add: push_front_prepend split: if_splits)
  from bufq.prepend_view [OF i(1) this] i(2)
  show "buf_wf b'" "contents b' = of_nat n # concat (map be32 (take n (ra_data a))) @ contents b" by simp_all
  show "ra_data a' = drop n (ra_data a)" "ra_max a' = ra_max a" using b1(3) by simp_all
qed

lemma ra_prepend_ok:
  assumes "buf_wf b" "4 * min (length (ra_data a)) (ra_max a) + 1 \<le> b_offset b"
  shows "ok (ra_prepend b a)"
proof -
  let ?n = "min (length (ra_data a)) (ra_max a)"
  have len: "length (take ?n (ra_data a)) = ?n" by simp
  obtain b1 where b1: "ra_prepend_ids (take ?n (ra_data a)) b = Inr b1"
    using prepend_ids_ok [OF assms(1), of "take ?n (ra_data a)"] assms(2) len by (auto simp: ok_def)
  from prepend_ids_Inr [OF assms(1) b1] have "buf_wf b1" "b_offset b1 \<noteq> 0" using assms(2) len by simp_all
  then show ?thesis using b1 bufq.prepend_ok [of b1 "[of_nat ?n]"]
    by (auto simp: ra_prepend_def Let_def push_front_prepend ok_def)
qed

lemma ra_read_loop_ids:
  "buf_wf b \<Longrightarrow> contents b = concat (map be32 ids) @ rest \<Longrightarrow>
   \<exists>b'. ra_read_loop f (length ids) b s = (Inr b', fold f ids s) \<and> buf_wf b' \<and> contents b' = rest"
proof (induction ids arbitrary: b s)
  case (Cons i ids)
  then obtain b1 where "buf_read 4 b = Inr (be32 i, b1)" "buf_wf b1" "contents b1 = concat (map be32 ids) @ rest"
    using bufq.read_prefix [of b "be32 i" "concat (map be32 ids) @ rest"] by auto
  then show ?case using Cons.IH [of b1 "f i s"] by (simp add: ra_read_id_def)
qed simp

text \<open>Reading a list that \<open>prepend\<close> wrote hands its IDs, in order, to the loop's body.\<close>

lemma ra_prepend_read_loop:
  assumes "buf_wf b" "ra_prepend b a = Inr (b', a')" "ra_max a \<le> 255"
  defines "n \<equiv> min (length (ra_data a)) (ra_max a)"
  shows "\<exists>b1 b2. buf_pop_front b' = Inr (of_nat n, b1) \<and> unat (of_nat n :: byte) = n
    \<and> ra_read_loop f n b1 s = (Inr b2, fold f (take n (ra_data a)) s) \<and> buf_wf b2 \<and> contents b2 = contents b"
proof -
  note p = ra_prepend_Inr [OF assms(1,2), folded n_def]
  have n: "unat (of_nat n :: byte) = n" "length (take n (ra_data a)) = n"
    using assms(3) by (simp_all add: n_def unat_of_nat_byte)
  have "b_size b' \<noteq> 0" using p(1,2) length_contents [OF p(1)] by auto
  then obtain x b1 where pop: "buf_pop_front b' = Inr (x, b1)" by (simp add: pop_front_read)
  from pop_front_Inr [OF this p(1)] p(2) have
    b1: "x = of_nat n" "buf_wf b1" "contents b1 = concat (map be32 (take n (ra_data a))) @ contents b" by auto
  from ra_read_loop_ids [OF b1(2,3), of f s] n show ?thesis using pop b1(1) by auto
qed

lemma fold_push_back: "fold ra_push_back ids a = a\<lparr>ra_data := ra_data a @ ids\<rparr>"
  by (induction ids arbitrary: a) (simp_all add: ra_push_back_def)

lemma ra_ack_skip_fails:
  assumes "buf_pop_front b = Inr (len, b1)" "buf_wf b" "b_size b1 < 4 * unat len"
  shows "ra_ack_skip b = Inl (Buffer_exn Buffer_underflow)"
proof -
  have "fst (ra_read_loop (\<lambda>_ s. s) n c ()) = Inl (Buffer_exn Buffer_underflow)"
    if "buf_wf c" "b_size c < 4 * n" for n c
    using that
  proof (induction n arbitrary: c)
    case (Suc n)
    show ?case
    proof (cases "4 \<le> b_size c")
      case True
      then obtain xs c' where r: "buf_read 4 c = Inr (xs, c')" by (simp add: buf_read_def)
      then have "b_size c' = b_size c - 4" by (auto simp: buf_read_def split: if_splits)
      moreover have "buf_wf c'" using read_Inr [OF r Suc.prems(1)] by simp
      ultimately show ?thesis using True Suc.IH [of c'] Suc.prems(2) r by (simp add: ra_read_id_def)
    next
      case False
      then show ?thesis by (simp add: ra_read_id_def buf_read_def)
    qed
  qed simp
  moreover have "buf_wf b1" using pop_front_Inr [OF assms(1,2)] by simp
  ultimately show ?thesis using assms(1,3) by (simp add: ra_ack_skip_def)
qed

section \<open>Properties\<close>

text \<open>
  Acknowledgements round trip: the IDs that \<open>prepend\<close> puts on a packet are the ones \<open>ack\<close>
  applies to the sender's window at the other end, in the same order, the rest of the list is
  kept for the next packet, and what is left of the packet is what was there before.
\<close>

lemma ack_list_roundtrip:
  assumes "buf_wf b" "ra_max a \<le> 255" "4 * min (length (ra_data a)) (ra_max a) + 1 \<le> b_offset b"
  shows "\<exists>b1 b2. ra_prepend b a = Inr (b1, a\<lparr>ra_data := drop (ra_max a) (ra_data a)\<rparr>)
    \<and> ra_ack s b1 True = (Inr (min (length (ra_data a)) (ra_max a), b2),
                          fold rs_ack (take (ra_max a) (ra_data a)) s)
    \<and> contents b2 = contents b"
proof -
  let ?n = "min (length (ra_data a)) (ra_max a)"
  obtain b1 a' where p: "ra_prepend b a = Inr (b1, a')" using ra_prepend_ok [OF assms(1,3)] by (auto simp: ok_def)
  have a': "a' = a\<lparr>ra_data := drop (ra_max a) (ra_data a)\<rparr>"
    using ra_prepend_Inr(3,4) [OF assms(1) p] by (intro rel_ack.equality) (simp_all add: min_def)
  have t: "take ?n (ra_data a) = take (ra_max a) (ra_data a)" by (simp add: min_def)
  from ra_prepend_read_loop [OF assms(1) p assms(2), of rs_ack s] p a' t
  show ?thesis by (auto simp: ra_ack_def)
qed

lemma ack_list_roundtrip_at:
  "\<exists>b1 b2. ra_prepend (buf_view [0,0,0,0,0,0,0,0,0,0] False\<lparr>b_offset := 10\<rparr>) \<lparr>ra_max = 2, ra_data = [3, 4, 5]\<rparr>
       = Inr (b1, \<lparr>ra_max = 2, ra_data = [5]\<rparr>)
    \<and> ra_ack (rs_init 4 :: nat rel_send) b1 True = (Inr (2, b2), rs_ack 4 (rs_ack 3 (rs_init 4))) \<and> contents b2 = []"
  using ack_list_roundtrip [of "buf_view [0,0,0,0,0,0,0,0,0,0] False\<lparr>b_offset := 10\<rparr>"
      "\<lparr>ra_max = 2, ra_data = [3, 4, 5]\<rparr>" "rs_init 4 :: nat rel_send"]
  by (simp add: buf_wf_def buf_view_def contents_def numeral_2_eq_2)

text \<open>
  \<open>n_unacked\<close> counts exactly the messages of the window that have a packet and have not been
  erased by an acknowledgement, and looking at them changes no message.
\<close>

lemma n_unacked_counts:
  assumes "win_ok (rs_window s)"
    "unat (w_head (rs_window s)) + unat (w_span (rs_window s)) < 4294967296"
  shows "\<exists>s'. rs_n_unacked s = Inr (card {k. unat (w_head (rs_window s)) \<le> k
        \<and> k < unat (w_head (rs_window s)) + unat (w_span (rs_window s))
        \<and> m_packet (win_msg send_msg (rs_window s) k) \<noteq> None}, s')
    \<and> (\<forall>k. win_msg send_msg (rs_window s') k = win_msg send_msg (rs_window s) k)"
proof -
  let ?w = "rs_window s" and ?P = "\<lambda>k. m_packet (win_msg send_msg (rs_window s) k) \<noteq> None"
  have "map (\<lambda>i. win_msg send_msg ?w (unat i)) (window_ids ?w) = map (win_msg send_msg ?w) (map unat (window_ids ?w))"
    by simp
  then have "length (filter msg_defined (map (\<lambda>i. win_msg send_msg ?w (unat i)) (window_ids ?w)))
    = length (filter ?P [unat (w_head ?w) ..< unat (w_head ?w) + unat (w_span ?w)])"
    by (simp add: window_ids_nat [OF assms(2)] filter_map comp_def msg_defined_def)
  also have "\<dots> = card {k. unat (w_head ?w) \<le> k \<and> k < unat (w_head ?w) + unat (w_span ?w) \<and> ?P k}"
    by (subst distinct_length_filter) (auto intro: arg_cong [of _ _ card])
  finally show ?thesis
    using visit_window_look [OF assms(1) window_ids_in, of "window_ids ?w" send_msg]
    by (auto simp: rs_n_unacked_def)
qed

lemma n_unacked_counts_at:
  "\<exists>s'. rs_n_unacked (rs_init 4 :: nat rel_send) = Inr (0, s')"
proof -
  let ?s = "rs_init 4 :: nat rel_send"
  have s: "win_ok (rs_window ?s)" "unat (w_head (rs_window ?s)) + unat (w_span (rs_window ?s)) < 4294967296"
    "\<And>k. win_msg send_msg (rs_window ?s) k = send_msg"
    by (simp_all add: rs_init_def win_init_def win_ok_def win_msg_def)
  from n_unacked_counts [OF s(1,2)] show ?thesis unfolding s(3) by (auto simp: send_msg_def)
qed







end
