(* ===== verification/Reliable_Channel.thy ===== *)
theory Reliable_Channel
  imports Reliable
begin

text \<open>
  The two ends of the reliability layer and the network between them. A state has the list of
  packets submitted so far, the sender's \<open>ReliableSend\<close>, the packets in flight, the receiver's
  \<open>ReliableRecv\<close>, the acknowledgements in flight and the list of packets delivered. The steps
  are the calls \<^verbatim>\<open>ssl/protostack.hpp\<close> makes on the two objects, interleaved in any order with the
  network losing things; a packet in flight may be received any number of times and in any order.
\<close>

section \<open>The channel\<close>

record 'p channel =
  ch_sent :: "'p list"
  ch_snd :: "'p rel_send"
  ch_net :: "(u32 \<times> 'p) set"
  ch_rcv :: "'p rel_recv"
  ch_acks :: "u32 set"
  ch_out :: "'p list"

definition ch_init :: "u32 \<Rightarrow> u32 \<Rightarrow> 'p channel" where
  "ch_init span_s span_r =
     \<lparr>ch_sent = [], ch_snd = rs_init span_s, ch_net = {}, ch_rcv = rr_init span_r, ch_acks = {}, ch_out = []\<rparr>"

inductive ch_step :: "'p channel \<Rightarrow> 'p channel \<Rightarrow> bool" where
  submit: "rs_ready (ch_snd c) \<Longrightarrow> rs_send now t (ch_snd c) = Inr (j, s) \<Longrightarrow>
    ch_step c (c\<lparr>ch_sent := ch_sent c @ [p], ch_snd := rs_set_packet j p s,
                 ch_net := insert (rs_next (ch_snd c), p) (ch_net c)\<rparr>)"
| retransmit: "win_ref_by_id send_msg i (rs_window (ch_snd c)) = Inr (j, w) \<Longrightarrow>
    m = w_q w ! j \<Longrightarrow> ready_retransmit now m \<Longrightarrow> m_packet m = Some p \<Longrightarrow>
    ch_step c (c\<lparr>ch_snd := (ch_snd c)\<lparr>rs_window := w\<lparr>w_q := (w_q w)[j := reset_retransmit now t m]\<rparr>\<rparr>,
                 ch_net := insert (m_id m, p) (ch_net c)\<rparr>)"
| lose: "net \<subseteq> ch_net c \<Longrightarrow> acks \<subseteq> ch_acks c \<Longrightarrow> ch_step c (c\<lparr>ch_net := net, ch_acks := acks\<rparr>)"
| receive: "(i, p) \<in> ch_net c \<Longrightarrow> rr_receive p i (ch_rcv c) = (flags, r) \<Longrightarrow>
    ch_step c (c\<lparr>ch_rcv := r,
                 ch_acks := if flags AND ACK_TO_SENDER \<noteq> 0 then insert i (ch_acks c) else ch_acks c\<rparr>)"
| deliver: "rr_ready (ch_rcv c) \<Longrightarrow> rr_next_sequenced (ch_rcv c) = Some m \<Longrightarrow> m_packet m = Some p \<Longrightarrow>
    rr_advance (ch_rcv c) = Some r \<Longrightarrow>
    ch_step c (c\<lparr>ch_rcv := r, ch_out := ch_out c @ [p]\<rparr>)"
| acked: "i \<in> ch_acks c \<Longrightarrow> ch_step c (c\<lparr>ch_snd := rs_ack i (ch_snd c)\<rparr>)"
| count: "rs_n_unacked (ch_snd c) = Inr (n, s) \<Longrightarrow> ch_step c (c\<lparr>ch_snd := s\<rparr>)"

inductive_cases ch_stepE: "ch_step c c'"

definition ch_reaches :: "'p channel \<Rightarrow> 'p channel \<Rightarrow> bool" where
  "ch_reaches = ch_step\<^sup>*\<^sup>*"

definition ch_inv :: "u32 \<Rightarrow> u32 \<Rightarrow> 'p channel \<Rightarrow> bool" where
  "ch_inv ss sr c \<longleftrightarrow> w_span (rs_window (ch_snd c)) = ss \<and> w_span (ch_rcv c) = sr
     \<and> rcv_inv (ch_sent c) (ch_out c) (ch_rcv c)
     \<and> snd_inv (ch_sent c) (rcv_has (ch_rcv c)) (ch_snd c)
     \<and> (\<forall>(i, p) \<in> ch_net c. unat i < length (ch_sent c) \<and> ch_sent c ! unat i = p)
     \<and> (\<forall>i \<in> ch_acks c. rcv_has (ch_rcv c) (unat i) \<and> unat i < length (ch_sent c))"

lemma rcv_inv_more: "rcv_inv S out r \<Longrightarrow> rcv_inv (S @ [p]) out r"
  by (auto simp: rcv_inv_def nth_append)

lemma ch_inv_init: "ch_inv span_s span_r (ch_init span_s span_r)"
  by (simp add: ch_inv_def ch_init_def rcv_inv_def snd_inv_def rs_init_def rr_init_def win_init_def
      win_ok_def win_msg_def Let_def recv_class.new_fresh)

lemma n_unacked_eq:
  assumes "win_ok (rs_window s)"
  shows "\<exists>w'. rs_n_unacked s = Inr (length (filter msg_defined
      (map (\<lambda>i. win_msg send_msg (rs_window s) (unat i)) (window_ids (rs_window s)))), s\<lparr>rs_window := w'\<rparr>)
    \<and> win_ok w' \<and> w_head w' = w_head (rs_window s) \<and> w_span w' = w_span (rs_window s)
    \<and> (\<forall>k. win_msg send_msg w' k = win_msg send_msg (rs_window s) k)"
  using visit_window_look [OF assms window_ids_in, of "window_ids (rs_window s)" send_msg]
  by (auto simp: rs_n_unacked_def)

lemma rs_ack_span:
  "snd_inv S A s \<Longrightarrow> w_span (rs_window (rs_ack i s)) = w_span (rs_window s)"
  using send_class.rm_by_id_spec(2) [of "rs_window s" i] by (simp add: rs_ack_def snd_inv_def Let_def)

lemma ch_inv_step:
  assumes "ch_step c c'" "ch_inv ss sr c"
  shows "ch_inv ss sr c'"
  using assms
proof (induction rule: ch_step.induct)
  case (submit c now t j s p)
  have nxt: "unat (rs_next (ch_snd c)) = length (ch_sent c)"
    using submit.prems by (simp add: ch_inv_def snd_inv_def Let_def)
  show ?case
    using submit rs_submit_inv [OF _ submit(1,2)] rcv_inv_more nxt rs_submit_eq [OF submit(1,2)]
    by (auto simp: ch_inv_def nth_append)
next
  case (retransmit i c j w m now p t)
  have i: "in_window i (rs_window (ch_snd c))" "j = unat (i - w_head (rs_window (ch_snd c)))"
    "w = win_grow send_msg i (rs_window (ch_snd c))"
    using retransmit(1) by (auto simp: ref_by_id_Inr)
  have m: "m = win_msg send_msg (rs_window (ch_snd c)) (unat i)"
    using retransmit(2) grow_nth [OF i(1)] i(2,3) by simp
  have w: "w\<lparr>w_q := (w_q w)[j := reset_retransmit now t m]\<rparr> = win_upd send_msg (reset_retransmit now t) i (rs_window (ch_snd c))"
    using retransmit(2) i by (simp add: win_upd_def Let_def)
  have s: "snd_inv (ch_sent c) (rcv_has (ch_rcv c)) (ch_snd c)"
    using retransmit.prems by (simp add: ch_inv_def)
  note r = rs_retransmit_inv(1) [OF s i(1), where p = p and now = now and t = t]
    rs_retransmit_inv(2-4) [OF s i(1), where p = p]
  show ?case using retransmit r m unfolding w by (auto simp: ch_inv_def)
next
  case (lose net c acks)
  then show ?case by (auto simp: ch_inv_def)
next
  case (receive i p c flags r)
  have i: "rcv_inv (ch_sent c) (ch_out c) (ch_rcv c)" "unat i < length (ch_sent c)" "ch_sent c ! unat i = p"
    using receive.prems receive(1) by (auto simp: ch_inv_def)
  note r = rr_receive_inv [OF i receive(2)]
  show ?case
    using receive.prems r(1,2,3,5) i(2) snd_inv_mono [of "ch_sent c" "rcv_has (ch_rcv c)" "ch_snd c" "rcv_has r"]
    by (auto simp: ch_inv_def)
next
  case (deliver c m p r)
  have i: "rcv_inv (ch_sent c) (ch_out c) (ch_rcv c)" using deliver.prems by (simp add: ch_inv_def)
  note r = rr_advance_inv [OF i deliver(1-4)]
  show ?case
    using deliver.prems r(1,2,3) snd_inv_mono [of "ch_sent c" "rcv_has (ch_rcv c)" "ch_snd c" "rcv_has r"]
    by (auto simp: ch_inv_def)
next
  case (acked i c)
  then show ?case using rs_ack_inv rs_ack_span by (fastforce simp: ch_inv_def)
next
  case (count c n s)
  have "win_ok (rs_window (ch_snd c))" using count.prems by (simp add: ch_inv_def snd_inv_def Let_def)
  from n_unacked_eq [OF this] count(1) obtain w' where "s = ch_snd c\<lparr>rs_window := w'\<rparr>" "win_ok w'"
    "w_head w' = w_head (rs_window (ch_snd c))" "w_span w' = w_span (rs_window (ch_snd c))"
    "\<forall>k. win_msg send_msg w' k = win_msg send_msg (rs_window (ch_snd c)) k"
    by auto
  then show ?case using count.prems by (auto simp: ch_inv_def snd_inv_def Let_def)
qed

lemma ch_inv_reaches: "ch_reaches c c' \<Longrightarrow> ch_inv ss sr c \<Longrightarrow> ch_inv ss sr c'"
  unfolding ch_reaches_def by (induction rule: rtranclp_induct) (auto intro: ch_inv_step)

section \<open>Progress\<close>

text \<open>
  From any state the next undelivered packet can be delivered: if the receiver does not hold it
  yet, the sender still has it, and one retransmission that gets through is enough.
\<close>

lemma ch_deliver_next:
  assumes "ch_inv ss sr c" "length (ch_out c) < length (ch_sent c)" "rcv_has (ch_rcv c) (length (ch_out c))"
  shows "\<exists>c'. ch_step c c' \<and> ch_sent c' = ch_sent c \<and> length (ch_out c') = Suc (length (ch_out c))"
proof -
  let ?r = "ch_rcv c"
  have out: "length (ch_out c) = unat (w_head ?r)" "win_ok ?r"
    using assms(1) by (auto simp: ch_inv_def rcv_inv_def)
  then have d: "msg_defined (win_msg recv_msg ?r (unat (w_head ?r)))"
    using assms(3) by (simp add: rcv_has_def)
  then obtain m q where q: "w_q ?r = m # q" "msg_defined m"
    by (cases "w_q ?r") (auto simp: win_msg_def recv_class.new_fresh)
  then have rdy: "rr_ready ?r" "rr_next_sequenced ?r = Some m"
    by (simp_all add: rr_ready_def head_defined_def rr_next_sequenced_def win_ref_head_def)
  obtain p where p: "m_packet m = Some p" using q(2) by (auto simp: msg_defined_def)
  obtain r where r: "rr_advance ?r = Some r"
    using q(1) by (simp add: rr_advance_def win_rm_head_nocheck_def)
  from ch_step.deliver [OF rdy p r] show ?thesis by fastforce
qed

lemma ch_receive_next:
  assumes "ch_inv ss sr c" "length (ch_out c) < length (ch_sent c)" "\<not> rcv_has (ch_rcv c) (length (ch_out c))"
    and "length (ch_sent c) + unat sr < 4294967296"
    and "length (ch_sent c) + unat ss < 4294967296" "sr \<noteq> 0"
  shows "\<exists>c'. ch_reaches c c' \<and> ch_sent c' = ch_sent c \<and> ch_out c' = ch_out c
    \<and> rcv_has (ch_rcv c') (length (ch_out c'))"
proof -
  let ?r = "ch_rcv c" and ?s = "ch_snd c" and ?k = "length (ch_out c)"
  let ?m = "win_msg send_msg (rs_window ?s) ?k" and ?i = "of_nat ?k :: u32"
  have spans: "w_span (ch_rcv c) = sr" "w_span (rs_window (ch_snd c)) = ss"
    using assms(1) by (auto simp: ch_inv_def)
  have k: "?k = unat (w_head ?r)" "unat ?i = ?k"
    using assms(1,2,4) by (auto simp: ch_inv_def rcv_inv_def unat_of_nat_u32)
  have snd: "snd_inv (ch_sent c) (rcv_has ?r) ?s" using assms(1) by (simp add: ch_inv_def)
  then have head: "unat (w_head (rs_window ?s)) \<le> ?k"
    using assms(3) by (auto simp: snd_inv_def Let_def not_less)
  then have m: "m_packet ?m = Some (ch_sent c ! ?k)" "m_id ?m = ?i"
    using snd assms(2,3) by (auto simp: snd_inv_def Let_def)
  have iw: "in_window ?i (rs_window ?s)"
    using snd assms(2,5) head k(2) spans by (subst in_window_iff) (auto simp: snd_inv_def Let_def)
  let ?w = "win_grow send_msg ?i (rs_window ?s)" and ?j = "unat (?i - w_head (rs_window ?s))"
  have wj: "w_q ?w ! ?j = ?m" using grow_nth [OF iw] k(2) by simp
  have rdy: "ready_retransmit (m_retransmit_at ?m) (w_q ?w ! ?j)"
    using m by (simp add: ready_retransmit_def msg_defined_def wj)
  obtain c1 where c1: "ch_step c c1" "ch_sent c1 = ch_sent c" "ch_out c1 = ch_out c" "ch_rcv c1 = ?r"
    "(?i, ch_sent c ! ?k) \<in> ch_net c1"
    using ch_step.retransmit [OF ref_by_id_Inr [THEN iffD2, OF conjI [OF iw conjI [OF refl refl]]] refl rdy,
        of "ch_sent c ! ?k" dur_zero] m by (force simp: wj)
  obtain flags r where r: "rr_receive (ch_sent c ! ?k) ?i ?r = (flags, r)" by fastforce
  have inr: "in_window ?i ?r"
    using k assms(2,4) assms(6) spans by (subst in_window_iff) (auto simp: unat_gt_0)
  then have r': "r = win_upd recv_msg (\<lambda>m. m\<lparr>m_id := ?i, m_packet := Some (ch_sent c ! ?k)\<rparr>) ?i ?r"
    using r by (simp add: rr_receive_eq)
  have has: "rcv_has r ?k"
    using upd_msg [OF inr, of recv_msg _ ?k] k(2) by (simp add: rcv_has_def r' msg_defined_def)
  obtain c2 where c2: "ch_step c1 c2" "ch_sent c2 = ch_sent c" "ch_out c2 = ch_out c" "ch_rcv c2 = r"
    using ch_step.receive [OF c1(5), of flags r] r c1(2,3,4) by fastforce
  have "ch_reaches c c2" using c1(1) c2(1) by (auto simp: ch_reaches_def)
  then show ?thesis using c2 has by metis
qed

lemma ch_drain:
  assumes "ch_inv ss sr c" "length (ch_sent c) + unat ss < 4294967296"
    "length (ch_sent c) + unat sr < 4294967296" "sr \<noteq> 0"
  shows "\<exists>c'. ch_reaches c c' \<and> ch_sent c' = ch_sent c \<and> ch_out c' = ch_sent c"
  using assms
proof (induction "length (ch_sent c) - length (ch_out c)" arbitrary: c)
  case 0
  then have "ch_out c = ch_sent c" by (auto simp: ch_inv_def rcv_inv_def)
  then show ?case by (intro exI [of _ c]) (simp add: ch_reaches_def)
next
  case (Suc n)
  then have lt: "length (ch_out c) < length (ch_sent c)" by simp
  obtain c1 where c1: "ch_reaches c c1" "ch_sent c1 = ch_sent c" "ch_out c1 = ch_out c"
    "rcv_has (ch_rcv c1) (length (ch_out c1))"
  proof (cases "rcv_has (ch_rcv c) (length (ch_out c))")
    case True
    then show ?thesis using that [of c] by (simp add: ch_reaches_def)
  next
    case False
    then show ?thesis using that ch_receive_next [OF Suc.prems(1) lt False Suc.prems(3,2,4)] by blast
  qed
  have inv1: "ch_inv ss sr c1" using ch_inv_reaches [OF c1(1) Suc.prems(1)] .
  obtain c2 where c2: "ch_step c1 c2" "ch_sent c2 = ch_sent c1" "length (ch_out c2) = Suc (length (ch_out c1))"
    using ch_deliver_next [OF inv1 _ c1(4)] lt c1(2,3) by auto
  have "ch_inv ss sr c2" using ch_inv_step [OF c2(1) inv1] .
  moreover have "n = length (ch_sent c2) - length (ch_out c2)"
    using Suc.hyps(2) c1(2,3) c2(2,3) by simp
  ultimately obtain c3 where c3: "ch_reaches c2 c3" "ch_sent c3 = ch_sent c2" "ch_out c3 = ch_sent c2"
    using Suc.hyps(1) [of c2] Suc.hyps(2) Suc.prems c1(2,3) c2(2,3) by auto
  have "ch_reaches c c3"
    using c1(1) c2(1) c3(1) unfolding ch_reaches_def by (meson rtranclp.rtrancl_into_rtrancl rtranclp_trans)
  then show ?case using c3 c2(2) c1(2) by auto
qed


section \<open>Properties\<close>

text \<open>
  C1. The control channel delivers in order, without gaps or duplicates: over a network that
  loses, duplicates and reorders packets and acknowledgements, what the receiver has handed up is
  at any time a prefix of what the sender was given.
\<close>

theorem reliable_delivers_prefix:
  "ch_reaches (ch_init span_s span_r) c \<Longrightarrow> \<exists>n \<le> length (ch_sent c). ch_out c = take n (ch_sent c)"
  using ch_inv_reaches [OF _ ch_inv_init] by (auto simp: ch_inv_def rcv_inv_def)

text \<open>
  C34. Nothing is lost: a packet that was submitted has been delivered, or waits in the
  receiver's window, or is still in the sender's window, unchanged, ready to be sent again.
\<close>

theorem reliable_keeps_unacked:
  assumes "ch_reaches (ch_init span_s span_r) c" "k < length (ch_sent c)"
  shows "k < length (ch_out c)
    \<or> m_packet (win_msg recv_msg (ch_rcv c) k) = Some (ch_sent c ! k)
    \<or> m_packet (win_msg send_msg (rs_window (ch_snd c)) k) = Some (ch_sent c ! k)"
proof -
  have inv: "ch_inv span_s span_r c" using ch_inv_reaches [OF assms(1) ch_inv_init] .
  then have out: "length (ch_out c) = unat (w_head (ch_rcv c))" by (auto simp: ch_inv_def rcv_inv_def)
  show ?thesis
  proof (cases "rcv_has (ch_rcv c) k")
    case True
    then show ?thesis using inv out by (auto simp: ch_inv_def rcv_inv_def rcv_has_def)
  next
    case False
    then have "\<not> k < unat (w_head (rs_window (ch_snd c)))"
      using inv by (auto simp: ch_inv_def snd_inv_def Let_def)
    then show ?thesis using False inv assms(2) by (auto simp: ch_inv_def snd_inv_def Let_def not_less)
  qed
qed

text \<open>
  C33. The channel never gets stuck: from every reachable state there are steps of the two ends
  and the network after which everything that was submitted has been delivered (as long as the
  message IDs do not run out).
\<close>

theorem reliable_can_deliver_all:
  assumes "ch_reaches (ch_init span_s span_r) c" "span_r \<noteq> 0"
    "length (ch_sent c) + unat (max span_s span_r) < 4294967296"
  shows "\<exists>c'. ch_reaches c c' \<and> ch_sent c' = ch_sent c \<and> ch_out c' = ch_sent c"
proof -
  have "ch_inv span_s span_r c" using ch_inv_reaches [OF assms(1) ch_inv_init] .
  moreover have "unat span_s \<le> unat (max span_s span_r)" "unat span_r \<le> unat (max span_s span_r)"
    by (simp_all add: max_def word_le_nat_alt)
  ultimately show ?thesis using ch_drain [of span_s span_r c] assms(2,3) by simp
qed

text \<open>A run for the witnesses: one packet is submitted and lost.\<close>

definition ch_one :: "char channel" where
  "ch_one = \<lparr>ch_sent = [CHR ''a''],
     ch_snd = \<lparr>rs_next = 1, rs_window = \<lparr>w_head = 0, w_span = 4,
       w_q = [\<lparr>m_packet = Some CHR ''a'', m_id = 0, m_erased = False, m_retransmit_at = Time 2048\<rparr>]\<rparr>\<rparr>,
     ch_net = {}, ch_rcv = rr_init 4, ch_acks = {}, ch_out = []\<rparr>"

lemma ch_one_reached: "ch_reaches (ch_init 4 4) ch_one"
proof -
  let ?c = "ch_init 4 4 :: char channel"
  have rdy: "rs_ready (ch_snd ?c)"
    by (simp add: ch_init_def rs_init_def rs_ready_def in_window_def win_init_def)
  have snd: "rs_send (Time 1024) (Duration 1024) (ch_snd ?c) =
     Inr (0, \<lparr>rs_next = 1, rs_window = \<lparr>w_head = 0, w_span = 4,
       w_q = [\<lparr>m_packet = None, m_id = 0, m_erased = False, m_retransmit_at = Time 2048\<rparr>]\<rparr>\<rparr>)"
    by code_simp
  from ch_step.submit [OF rdy snd, of "CHR ''a''"]
  have "ch_step ?c (?c\<lparr>ch_sent := [CHR ''a''], ch_snd := ch_snd ch_one, ch_net := {(0, CHR ''a'')}\<rparr>)"
    by (simp add: ch_init_def rs_set_packet_def ch_one_def rs_init_def)
  moreover from ch_step.lose [of "{}" "?c\<lparr>ch_sent := [CHR ''a''], ch_snd := ch_snd ch_one, ch_net := {(0, CHR ''a'')}\<rparr>" "{}"]
  have "ch_step (?c\<lparr>ch_sent := [CHR ''a''], ch_snd := ch_snd ch_one, ch_net := {(0, CHR ''a'')}\<rparr>) ch_one"
    by (simp add: ch_one_def ch_init_def)
  ultimately show ?thesis unfolding ch_reaches_def by (meson r_into_rtranclp rtranclp.rtrancl_into_rtrancl)
qed

theorem reliable_delivers_prefix_witness:
  "\<exists>n \<le> length (ch_sent ch_one). ch_out ch_one = take n (ch_sent ch_one)"
  using reliable_delivers_prefix [OF ch_one_reached] .

theorem reliable_keeps_unacked_witness:
  "0 < length (ch_out ch_one)
    \<or> m_packet (win_msg recv_msg (ch_rcv ch_one) 0) = Some (ch_sent ch_one ! 0)
    \<or> m_packet (win_msg send_msg (rs_window (ch_snd ch_one)) 0) = Some (ch_sent ch_one ! 0)"
  by (rule reliable_keeps_unacked [OF ch_one_reached]) (simp add: ch_one_def)

theorem reliable_can_deliver_all_witness:
  "\<exists>c'. ch_reaches ch_one c' \<and> ch_sent c' = ''a'' \<and> ch_out c' = ''a''"
  using reliable_can_deliver_all [OF ch_one_reached] by (simp add: ch_one_def)

end
