(* ===== verification/Frames.thy ===== *)
theory Frames
  imports Buffers
begin

text \<open>
  \<^verbatim>\<open>frame/frame.hpp\<close> and \<^verbatim>\<open>frame/frame_init.hpp\<close>: the contexts that say how a buffer of each kind is
  laid out (head room, payload, tail room, alignment) and the operations that prepare a buffer.
  The address of a buffer's memory, which the alignment depends on, is the argument \<open>base\<close>.
\<close>

section \<open>Contexts\<close>

record frame_context =
  fc_headroom :: nat
  fc_payload :: nat
  fc_tailroom :: nat
  fc_align_adjust :: nat
  fc_align_block :: nat
  fc_buffer_flags :: u32
  fc_adj_headroom :: nat
  fc_adj_capacity :: nat

definition recalc_derived :: "frame_context \<Rightarrow> frame_context" where
  "recalc_derived c =
     (let h = sz_add (fc_headroom c) (fc_align_block c)
      in c\<lparr>fc_adj_headroom := h, fc_adj_capacity := sz_add (sz_add h (fc_payload c)) (fc_tailroom c)\<rparr>)"

definition make_context :: "nat \<Rightarrow> nat \<Rightarrow> nat \<Rightarrow> nat \<Rightarrow> nat \<Rightarrow> u32 \<Rightarrow> frame_context" where
  "make_context headroom payload tailroom align_adjust align_block buffer_flags =
     recalc_derived
       \<lparr>fc_headroom = headroom, fc_payload = payload, fc_tailroom = tailroom,
        fc_align_adjust = align_adjust, fc_align_block = align_block,
        fc_buffer_flags = buffer_flags, fc_adj_headroom = 0, fc_adj_capacity = 0\<rparr>"

definition reset_align_adjust :: "nat \<Rightarrow> frame_context \<Rightarrow> frame_context" where
  "reset_align_adjust a c = c\<lparr>fc_align_adjust := a\<rparr>"

definition actual_headroom :: "nat \<Rightarrow> frame_context \<Rightarrow> nat" where
  "actual_headroom base c =
     sz_add (fc_headroom c)
       (unat (- (of_nat base + of_nat (fc_headroom c) + of_nat (fc_align_adjust c) :: u64)
              AND (of_nat (fc_align_block c) - 1)))"

definition ctx_prepare :: "(nat \<Rightarrow> byte) \<Rightarrow> nat \<Rightarrow> frame_context \<Rightarrow> buf \<Rightarrow> (nat \<times> buf) res" where
  "ctx_prepare junk base c b =
     bindE (buf_reset junk (fc_adj_capacity c) (fc_buffer_flags c) b) (\<lambda>b.
     bindE (buf_init_headroom (actual_headroom base c) b) (\<lambda>b. Inr (fc_payload c, b)))"

definition ctx_realign :: "nat \<Rightarrow> frame_context \<Rightarrow> buf \<Rightarrow> buf res" where
  "ctx_realign base c b = buf_realign (actual_headroom base c) b"

definition ctx_copy :: "(nat \<Rightarrow> byte) \<Rightarrow> nat \<Rightarrow> frame_context \<Rightarrow> byte list \<Rightarrow> buf res" where
  "ctx_copy junk base c data =
     (let cap = sz_add (sz_add (length data) (fc_adj_headroom c)) (fc_tailroom c);
          b = buf_alloc junk cap (fc_buffer_flags c)
      in bindE (buf_init_headroom (actual_headroom base c) b) (buf_write junk data))"

definition ctx_copy_buf :: "(nat \<Rightarrow> byte) \<Rightarrow> nat \<Rightarrow> frame_context \<Rightarrow> buf option \<Rightarrow> buf res" where
  "ctx_copy_buf junk base c bo =
     (let data = (case bo of None \<Rightarrow> [] | Some b \<Rightarrow> contents b);
          size = length data;
          cap = sz_add (sz_add size (fc_adj_headroom c)) (fc_tailroom c);
          b = buf_alloc junk cap (fc_buffer_flags c)
      in bindE (buf_init_headroom (actual_headroom base c) b)
           (\<lambda>b. if size \<noteq> 0 then buf_write junk data b else Inr b))"

definition remaining_payload :: "frame_context \<Rightarrow> buf \<Rightarrow> nat" where
  "remaining_payload c b = (if fc_payload c > b_size b then fc_payload c - b_size b else 0)"

definition ctx_standardize_capacity :: "nat \<Rightarrow> frame_context \<Rightarrow> frame_context" where
  "ctx_standardize_capacity newcap c =
     (if newcap > fc_adj_capacity c then c\<lparr>fc_adj_capacity := newcap\<rparr> else c)"


section \<open>Frames\<close>

abbreviation (input) READ_LINK_UDP :: nat where "READ_LINK_UDP \<equiv> 4"
abbreviation (input) READ_LINK_TCP :: nat where "READ_LINK_TCP \<equiv> 5"
abbreviation (input) READ_BIO_MEMQ_STREAM :: nat where "READ_BIO_MEMQ_STREAM \<equiv> 8"
abbreviation (input) WRITE_SSL_CLEARTEXT :: nat where "WRITE_SSL_CLEARTEXT \<equiv> 11"
abbreviation (input) N_ALIGN_CONTEXTS :: nat where "N_ALIGN_CONTEXTS \<equiv> 16"

type_synonym frame = "frame_context list"

definition frame_of_context :: "frame_context \<Rightarrow> frame" where
  "frame_of_context c = replicate N_ALIGN_CONTEXTS c"

definition frame_index :: "frame \<Rightarrow> nat \<Rightarrow> frame_context res" where
  "frame_index f i = (if i \<ge> N_ALIGN_CONTEXTS then Inl Frame_context_index else Inr (f ! i))"

definition frame_set :: "nat \<Rightarrow> frame_context \<Rightarrow> frame \<Rightarrow> frame res" where
  "frame_set i c f = (if i \<ge> N_ALIGN_CONTEXTS then Inl Frame_context_index else Inr (f[i := c]))"

definition frame_prepare ::
  "(nat \<Rightarrow> byte) \<Rightarrow> nat \<Rightarrow> nat \<Rightarrow> buf \<Rightarrow> frame \<Rightarrow> (nat \<times> buf) res" where
  "frame_prepare junk base context b f = bindE (frame_index f context) (\<lambda>c. ctx_prepare junk base c b)"

text \<open>The two loops of \<open>standardize_capacity\<close>; the mask loses its lowest bit at each round.\<close>

fun max_capacity :: "frame \<Rightarrow> u32 \<Rightarrow> nat \<Rightarrow> nat" where
  "max_capacity [] m max_cap = max_cap"
| "max_capacity (c # cs) m max_cap =
     max_capacity cs (drop_bit 1 m)
       (if m AND 1 \<noteq> 0 then (if fc_adj_capacity c > max_cap then fc_adj_capacity c else max_cap)
        else max_cap)"

fun set_capacity :: "frame \<Rightarrow> u32 \<Rightarrow> nat \<Rightarrow> frame" where
  "set_capacity [] m cap = []"
| "set_capacity (c # cs) m cap =
     (if m AND 1 \<noteq> 0 then ctx_standardize_capacity cap c else c) # set_capacity cs (drop_bit 1 m) cap"

definition standardize_capacity :: "u32 \<Rightarrow> frame \<Rightarrow> frame" where
  "standardize_capacity context_mask f = set_capacity f context_mask (max_capacity f context_mask 0)"

definition frame_init :: "bool \<Rightarrow> nat \<Rightarrow> nat \<Rightarrow> frame res" where
  "frame_init align_adjust_3_1 tun_mtu control_channel_payload =
     (let payload = max (sz_add tun_mtu 512) 2048; headroom = 512; tailroom = 512;
          align_block = 16; buffer_flags = 0;
          frame = frame_of_context (make_context headroom payload tailroom 0 align_block buffer_flags)
      in bindE (if align_adjust_3_1
                then bindE (frame_set READ_LINK_TCP (make_context headroom payload tailroom 3 align_block buffer_flags) frame)
                       (frame_set READ_LINK_UDP (make_context headroom payload tailroom 1 align_block buffer_flags))
                else Inr frame) (\<lambda>frame.
         bindE (frame_set READ_BIO_MEMQ_STREAM
                  (make_context headroom (min control_channel_payload payload) tailroom 0 align_block buffer_flags) frame) (\<lambda>frame.
         bindE (frame_set WRITE_SSL_CLEARTEXT (make_context headroom payload tailroom 0 align_block GROW) frame) (\<lambda>frame.
         Inr (standardize_capacity (- 1) frame)))))"

definition frame_init_context_simple :: "nat \<Rightarrow> frame_context" where
  "frame_init_context_simple payload = make_context 512 payload 512 0 16 0"

definition frame_init_simple :: "nat \<Rightarrow> frame" where
  "frame_init_simple payload = standardize_capacity (- 1) (frame_of_context (frame_init_context_simple payload))"


section \<open>Alignment\<close>

text \<open>What a usable context satisfies: sizes that do not wrap, a power of two to align to.\<close>

definition ctx_ok :: "frame_context \<Rightarrow> bool" where
  "ctx_ok c \<longleftrightarrow> (\<exists>k < 32. fc_align_block c = 2 ^ k)
     \<and> fc_headroom c + fc_align_block c + fc_payload c + fc_tailroom c \<le> fc_adj_capacity c
     \<and> fc_adj_headroom c = fc_headroom c + fc_align_block c
     \<and> fc_adj_capacity c < size_t_limit"

lemma mask_nat: "k < 64 \<Longrightarrow> unat (x AND (of_nat (2 ^ k) - 1) :: u64) = unat x mod 2 ^ k"
proof -
  assume "k < 64"
  have "(of_nat (2 ^ k) - 1 :: u64) = mask k" by (simp add: mask_eq_exp_minus_1)
  then have "unat (x AND (of_nat (2 ^ k) - 1)) = unat (take_bit k x)" by (simp only: take_bit_eq_mask)
  also have "\<dots> = take_bit k (unat x)" by (rule unsigned_take_bit_eq)
  also have "\<dots> = unat x mod 2 ^ k" by (rule take_bit_eq_mod)
  finally show ?thesis .
qed

lemma actual_headroom_ok:
  assumes "ctx_ok c"
  shows "fc_headroom c \<le> actual_headroom base c"
    and "actual_headroom base c < fc_headroom c + fc_align_block c"
    and "(base + actual_headroom base c + fc_align_adjust c) mod fc_align_block c = 0"
proof -
  obtain k where k: "k < 32" "fc_align_block c = 2 ^ k" using assms by (auto simp: ctx_ok_def)
  let ?n = "base + fc_headroom c + fc_align_adjust c"
  let ?d = "unat (- (of_nat ?n :: u64)) mod 2 ^ k"
  have d: "?d < 2 ^ k" by simp
  have hb: "fc_headroom c + 2 ^ k < size_t_limit" using assms k(2) by (simp add: ctx_ok_def)
  have "actual_headroom base c = sz_add (fc_headroom c) (unat (- (of_nat ?n :: u64) AND (of_nat (2 ^ k) - 1)))"
    by (simp add: actual_headroom_def k(2))
  also have "\<dots> = sz_add (fc_headroom c) ?d" using k(1) by (simp only: mask_nat)
  also have "\<dots> = fc_headroom c + ?d"
  proof (rule sz_add_exact)
    show "fc_headroom c + ?d < size_t_limit" using hb d by linarith
  qed
  finally have ah: "actual_headroom base c = fc_headroom c + ?d" .
  show "fc_headroom c \<le> actual_headroom base c" by (simp add: ah)
  show "actual_headroom base c < fc_headroom c + fc_align_block c" using d by (simp add: ah k(2))
  have p: "(2 :: nat) ^ k dvd 2 ^ 64" using k(1) by (intro le_imp_power_dvd) simp
  have "(of_nat (unat (- (of_nat ?n :: u64)) + ?n) :: u64) = 0" by simp
  then have "(unat (- (of_nat ?n :: u64)) + ?n) mod 2 ^ 64 = 0"
    using unat_of_nat [of "unat (- (of_nat ?n :: u64)) + ?n", where ?'a = 64] by (simp only: unat_0) simp
  then have "2 ^ k dvd unat (- (of_nat ?n :: u64)) + ?n"
    using p by (meson dvd_trans mod_0_imp_dvd)
  then have "(unat (- (of_nat ?n :: u64)) + ?n) mod 2 ^ k = 0" by simp
  then have "(?d + ?n) mod 2 ^ k = 0" by (simp add: mod_add_left_eq)
  then show "(base + actual_headroom base c + fc_align_adjust c) mod fc_align_block c = 0"
    by (simp add: ah k(2) ac_simps)
qed


lemma make_context_ok:
  assumes "k < 32" "headroom + 2 ^ k + payload + tailroom < size_t_limit"
  shows "ctx_ok (make_context headroom payload tailroom a (2 ^ k) fl)"
  using assms by (auto simp: ctx_ok_def make_context_def recalc_derived_def Let_def)

lemma standardize_ok: "ctx_ok c \<Longrightarrow> n < size_t_limit \<Longrightarrow> ctx_ok (ctx_standardize_capacity n c)"
  by (auto simp: ctx_ok_def ctx_standardize_capacity_def)

lemma ctx_prepare_ok:
  assumes "ctx_ok c" "buf_wf b" "b_owned b"
  shows "\<exists>b'. ctx_prepare junk base c b = Inr (fc_payload c, b') \<and> buf_wf b' \<and> contents b' = []
    \<and> b_offset b' = actual_headroom base c \<and> fc_adj_capacity c \<le> b_capacity b' \<and> b_owned b'"
proof -
  obtain b1 where b1: "buf_reset junk (fc_adj_capacity c) (fc_buffer_flags c) b = Inr b1"
    "length (b_mem b1) = b_capacity b1" "b_capacity b1 < size_t_limit" "fc_adj_capacity c \<le> b_capacity b1" "b_owned b1"
  proof (cases "fc_adj_capacity c > b_capacity b")
    case True
    then show ?thesis
      using that [of "buf_init junk (fc_adj_capacity c) (fc_buffer_flags c) b"] assms
      by (auto simp: buf_reset_def buf_init_def buf_wf_def ctx_ok_def Let_def)
  next
    case False
    then show ?thesis using that [of b] assms by (auto simp: buf_reset_def buf_wf_def)
  qed
  have "actual_headroom base c \<le> b_capacity b1"
    using actual_headroom_ok(2) [OF assms(1), of base] b1(4) assms(1) by (simp add: ctx_ok_def)
  then show ?thesis
    using b1 by (simp add: ctx_prepare_def buf_init_headroom_def buf_wf_def contents_def)
qed


section \<open>Frames of the standard layout\<close>

lemma max_capacity_bound:
  "(\<And>c. c \<in> set f \<Longrightarrow> fc_adj_capacity c < n) \<Longrightarrow> cap < n \<Longrightarrow> max_capacity f m cap < n"
  by (induction f m cap rule: max_capacity.induct) auto

lemma set_capacity_all:
  "P cap \<Longrightarrow> (\<And>c. c \<in> set f \<Longrightarrow> Q c) \<Longrightarrow> (\<And>c. Q c \<Longrightarrow> Q (ctx_standardize_capacity cap c)) \<Longrightarrow>
   c \<in> set (set_capacity f m cap) \<Longrightarrow> Q c"
  by (induction f m cap rule: set_capacity.induct) (auto split: if_splits)

lemma length_set_capacity [simp]: "length (set_capacity f m cap) = length f"
  by (induction f m cap rule: set_capacity.induct) auto

lemma standardize_capacity_all:
  assumes "\<And>c. c \<in> set f \<Longrightarrow> ctx_ok c \<and> R c"
    and "\<And>n c. R c \<Longrightarrow> R (ctx_standardize_capacity n c)" "c \<in> set (standardize_capacity m f)"
  shows "ctx_ok c \<and> R c"
proof -
  have "max_capacity f m 0 < size_t_limit"
    using assms(1) by (intro max_capacity_bound) (auto simp: ctx_ok_def)
  then show ?thesis
    using set_capacity_all [of "\<lambda>n. n < size_t_limit" "max_capacity f m 0" f "\<lambda>c. ctx_ok c \<and> R c" c m]
      assms standardize_ok by (auto simp: standardize_capacity_def)
qed

text \<open>What all contexts of the standard frame share.\<close>

definition std_layout :: "nat \<Rightarrow> frame_context \<Rightarrow> bool" where
  "std_layout payload c \<longleftrightarrow> fc_headroom c = 512 \<and> fc_tailroom c = 512 \<and> fc_align_block c = 16
     \<and> fc_payload c \<le> payload"

lemma frame_init_layout:
  assumes "tun_mtu < 9223372036854775808"
  shows "\<exists>f. frame_init adj tun_mtu ccp = Inr f \<and> length f = N_ALIGN_CONTEXTS
    \<and> (\<forall>c \<in> set f. ctx_ok c \<and> std_layout (max (tun_mtu + 512) 2048) c)"
proof -
  let ?p = "max (tun_mtu + 512) 2048"
  have ok: "ctx_ok (make_context 512 q 512 a 16 fl) \<and> std_layout ?p (make_context 512 q 512 a 16 fl)"
    if "q \<le> ?p" for q a fl
    using make_context_ok [of 4 512 q 512 a fl] assms that
    by (simp add: std_layout_def make_context_def recalc_derived_def Let_def)
  have keep: "std_layout ?p (ctx_standardize_capacity n c)" if "std_layout ?p c" for n c
    using that by (simp add: std_layout_def ctx_standardize_capacity_def)
  let ?Q = "\<lambda>c. ctx_ok c \<and> std_layout ?p c"
  have upd: "\<forall>c \<in> set (f[i := d]). ?Q c" if "\<forall>c \<in> set f. ?Q c" "?Q d" for f :: frame and i d
    using that set_update_subset_insert [of f i d] by blast
  let ?d = "make_context 512 ?p 512 0 16 0"
  let ?fa = "frame_of_context ?d"
  let ?fb = "if adj then ?fa[READ_LINK_TCP := make_context 512 ?p 512 3 16 0,
      READ_LINK_UDP := make_context 512 ?p 512 1 16 0] else ?fa"
  let ?f = "?fb[READ_BIO_MEMQ_STREAM := make_context 512 (min ccp ?p) 512 0 16 0,
      WRITE_SSL_CLEARTEXT := make_context 512 ?p 512 0 16 GROW]"
  have fa: "\<forall>c \<in> set ?fa. ?Q c" using ok [of ?p] by (simp add: frame_of_context_def)
  have fb: "\<forall>c \<in> set ?fb. ?Q c"
  proof (cases adj)
    case True
    then show ?thesis by (simp only: if_True) (rule upd [OF upd [OF fa ok [OF order_refl]] ok [OF order_refl]])
  next
    case False
    then show ?thesis by (simp only: if_False) (rule fa)
  qed
  have "\<forall>c \<in> set ?f. ?Q c"
    by (rule upd [OF upd [OF fb ok [OF min.cobounded2]] ok [OF order_refl]])
  then have all: "\<forall>c \<in> set (standardize_capacity (- 1) ?f). ctx_ok c \<and> std_layout ?p c"
    using standardize_capacity_all [where R = "std_layout ?p"] keep by blast
  have "frame_init adj tun_mtu ccp = Inr (standardize_capacity (- 1) ?f)"
    using assms by (simp add: frame_init_def frame_set_def Let_def)
  moreover have "length (standardize_capacity (- 1) ?f) = N_ALIGN_CONTEXTS"
    by (simp add: standardize_capacity_def frame_of_context_def)
  ultimately show ?thesis using all by blast
qed


section \<open>Properties\<close>

text \<open>
  A buffer prepared by the standard frame for any of its contexts has, in front of the
  payload, at least the 512 bytes of head room the encapsulation code uses, behind it room for the
  payload and 512 more bytes, and the byte after the leading \<open>align_adjust\<close> ones sits at an address
  divisible by 16; no exception is thrown.
\<close>

lemma frame_prepare_layout:
  assumes "tun_mtu < 9223372036854775808" "i < N_ALIGN_CONTEXTS" "buf_wf b" "b_owned b"
  shows "\<exists>f c b'. frame_init adj tun_mtu ccp = Inr f \<and> frame_index f i = Inr c
    \<and> frame_prepare junk base i b f = Inr (fc_payload c, b') \<and> contents b' = []
    \<and> 512 \<le> b_offset b' \<and> b_offset b' + fc_payload c + 512 \<le> b_capacity b'
    \<and> (base + b_offset b' + fc_align_adjust c) mod 16 = 0"
proof -
  obtain f where f: "frame_init adj tun_mtu ccp = Inr f" "length f = N_ALIGN_CONTEXTS"
    "\<forall>c \<in> set f. ctx_ok c \<and> std_layout (max (tun_mtu + 512) 2048) c"
    using frame_init_layout [OF assms(1)] by blast
  have c: "frame_index f i = Inr (f ! i)" using assms(2) by (simp add: frame_index_def)
  have ok: "ctx_ok (f ! i)" "std_layout (max (tun_mtu + 512) 2048) (f ! i)"
    using f assms(2) nth_mem [of i f] by auto
  from ctx_prepare_ok [OF ok(1) assms(3,4), of junk base] obtain b' where
    b': "ctx_prepare junk base (f ! i) b = Inr (fc_payload (f ! i), b')" "contents b' = []"
    "b_offset b' = actual_headroom base (f ! i)" "fc_adj_capacity (f ! i) \<le> b_capacity b'" by blast
  note a = actual_headroom_ok [OF ok(1), of base]
  have "512 \<le> b_offset b'" "b_offset b' + fc_payload (f ! i) + 512 \<le> b_capacity b'"
    using a b' ok by (auto simp: std_layout_def ctx_ok_def)
  then show ?thesis using f c b' a(3) ok(2) by (auto simp: frame_prepare_def std_layout_def)
qed

lemma frame_prepare_layout_at:
  "\<exists>f c b'. frame_init True 1500 1250 = Inr f \<and> frame_index f READ_LINK_UDP = Inr c
    \<and> frame_prepare (\<lambda>_. 0) 4100 READ_LINK_UDP (buf_alloc (\<lambda>_. 0) 0 0) f = Inr (fc_payload c, b')
    \<and> 512 \<le> b_offset b'"
  using frame_prepare_layout [of 1500 READ_LINK_UDP "buf_alloc (\<lambda>_. 0) 0 0" True 1250 "\<lambda>_. 0" 4100]
  by (auto simp: buf_wf_def buf_alloc_def has_flag_def fresh_mem_def)

end
