(* ===== verification/Pkt_Stream.thy ===== *)
theory Pkt_Stream
  imports Frames
begin

text \<open>
  \<^verbatim>\<open>transport/pktstream.hpp\<close>: packets on a stream transport, each with its size in front as two
  bytes, and the receive loop of \<^verbatim>\<open>transport/tcplinkcommon.hpp\<close> around it. The main result is
  that the loop, however the stream is cut into fragments, computes \<open>deframe\<close> of the stream.
  Two arguments stand for what the code does not determine: \<open>addr\<close>, the address of a buffer's
  memory, and \<open>leave\<close>, what the read handler leaves of the packet buffer it is given.
\<close>

section \<open>PacketStream\<close>

record pkt_stream =
  st_declared_size :: nat
  st_declared :: bool
  st_buffer :: buf

definition st_init :: pkt_stream where
  "st_init = \<lparr>st_declared_size = 0, st_declared = False, st_buffer = buf_alloc (\<lambda>_. 0) 0 0\<rparr>"

definition size_defined :: "buf \<Rightarrow> bool" where
  "size_defined b \<longleftrightarrow> b_size b \<ge> 2"

definition read_size :: "buf \<Rightarrow> (nat \<times> buf) res" where
  "read_size b = bindE (buf_read 2 b) (\<lambda>(net_len, b). Inr (unat (of_be16 net_len), b))"

definition validate_size :: "nat \<Rightarrow> frame_context \<Rightarrow> unit res" where
  "validate_size n c = (if n = 0 \<or> n > fc_payload c then Inl Embedded_packet_size_error else Inr ())"

definition extract_size :: "frame_context \<Rightarrow> buf \<Rightarrow> pkt_stream \<Rightarrow> (buf \<times> pkt_stream) res" where
  "extract_size c b st =
     bindE (read_size b) (\<lambda>(n, b).
     bindE (validate_size n c) (\<lambda>_.
     Inr (b, st\<lparr>st_declared_size := n, st_declared := True\<rparr>)))"

text \<open>The loop that collects the size byte by byte; \<open>False\<close> when the fragment ends first.\<close>

function collect_size ::
  "(nat \<Rightarrow> byte) \<Rightarrow> frame_context \<Rightarrow> buf \<Rightarrow> pkt_stream \<Rightarrow> (bool \<times> buf \<times> pkt_stream) res" where
  "collect_size junk c b st =
     (if st_declared st then Inr (True, b, st)
      else if b_size b = 0 then Inr (False, b, st)
      else (case buf_pop_front b of
              Inl e \<Rightarrow> Inl e
            | Inr (x, b1) \<Rightarrow>
                (case buf_push_back junk x (st_buffer st) of
                   Inl e \<Rightarrow> Inl e
                 | Inr sb \<Rightarrow>
                     (if size_defined sb
                      then (case extract_size c sb st of
                              Inl e \<Rightarrow> Inl e
                            | Inr (sb1, st1) \<Rightarrow> collect_size junk c b1 (st1\<lparr>st_buffer := sb1\<rparr>))
                      else collect_size junk c b1 (st\<lparr>st_buffer := sb\<rparr>)))))"
  by pat_completeness auto

termination
  by (relation "measure (\<lambda>(_, _, b, _). b_size b)") (auto simp: buf_pop_front_def split: if_splits)

definition st_put ::
  "(nat \<Rightarrow> byte) \<Rightarrow> (buf \<Rightarrow> nat) \<Rightarrow> frame_context \<Rightarrow> buf \<Rightarrow> pkt_stream \<Rightarrow> (buf \<times> pkt_stream) res" where
  "st_put junk addr c b st =
     (if b_size b = 0 then Inr (b, st)
      else if \<not> st_declared st \<and> b_size (st_buffer st) = 0
      then (if size_defined b
            then bindE (extract_size c b st) (\<lambda>(b, st).
                   if b_size b = st_declared_size st then Inr (st_buffer st, st\<lparr>st_buffer := b\<rparr>)
                   else if b_size b < st_declared_size st
                   then (if sz_add (sz_add (b_offset b) (st_declared_size st)) (fc_tailroom c) \<le> b_capacity b
                         then Inr (st_buffer st, st\<lparr>st_buffer := b\<rparr>)
                         else bindE (ctx_realign (addr b) c b) (\<lambda>b.
                                Inr (st_buffer st, st\<lparr>st_buffer := b\<rparr>)))
                   else bindE (ctx_prepare junk (addr (st_buffer st)) c (st_buffer st)) (\<lambda>(_, sb).
                        bindE (buf_read (st_declared_size st) b) (\<lambda>(data, b).
                        bindE (buf_write junk data sb) (\<lambda>sb.
                        Inr (b, st\<lparr>st_buffer := sb\<rparr>)))))
            else bindE (ctx_realign (addr b) c b) (\<lambda>b. Inr (st_buffer st, st\<lparr>st_buffer := b\<rparr>)))
      else bindE (collect_size junk c b st) (\<lambda>(declared, b, st).
             if declared \<and> b_size (st_buffer st) < st_declared_size st
             then (let needed = min (st_declared_size st - b_size (st_buffer st)) (b_size b)
                   in bindE (buf_read needed b) (\<lambda>(data, b).
                      bindE (buf_write junk data (st_buffer st)) (\<lambda>sb.
                      Inr (b, st\<lparr>st_buffer := sb\<rparr>))))
             else Inr (b, st)))"

definition st_ready :: "pkt_stream \<Rightarrow> bool" where
  "st_ready st \<longleftrightarrow> st_declared st \<and> b_size (st_buffer st) \<ge> st_declared_size st"

definition st_get :: "buf \<Rightarrow> pkt_stream \<Rightarrow> (buf \<times> pkt_stream) res" where
  "st_get ret st =
     (if st_declared st \<and> b_size (st_buffer st) = st_declared_size st
      then Inr (st_buffer st, st\<lparr>st_buffer := buf_reset_content ret, st_declared := False\<rparr>)
      else Inl Packet_not_fully_formed)"

definition prepend_size :: "buf \<Rightarrow> buf res" where
  "prepend_size b = buf_prepend (be16 (of_nat (b_size b))) b"


section \<open>The receive loop of the TCP link\<close>

text \<open>
  \<open>put_pktstream\<close>: the fragment is fed to the stream until it is used up, and every complete
  packet is handed to the read handler. The packets handed over are kept in \<open>out\<close>. Not returning
  would be \<open>None\<close>.
\<close>

partial_function (option) put_pktstream ::
  "(nat \<Rightarrow> byte) \<Rightarrow> (buf \<Rightarrow> nat) \<Rightarrow> (buf \<Rightarrow> buf) \<Rightarrow> frame_context \<Rightarrow> buf \<Rightarrow> buf \<Rightarrow> pkt_stream \<Rightarrow>
   byte list list \<Rightarrow> (byte list list \<times> (exn + pkt_stream)) option" where
  "put_pktstream junk addr leave c b pkt st out =
     (if b_size b = 0 then Some (out, Inr st)
      else (case st_put junk addr c b st of
              Inl e \<Rightarrow> Some (out, Inl e)
            | Inr (b, st) \<Rightarrow>
                (if st_ready st
                 then (case st_get pkt st of
                         Inl e \<Rightarrow> Some (out, Inl e)
                       | Inr (pkt, st) \<Rightarrow>
                           put_pktstream junk addr leave c b (leave pkt) st (out @ [contents pkt]))
                 else put_pktstream junk addr leave c b pkt st out)))"

text \<open>
  \<open>process_recv_buffer\<close> for the fragments of a connection, one after the other: an exception
  stops the link.
\<close>

fun recv_fragments ::
  "(nat \<Rightarrow> byte) \<Rightarrow> (buf \<Rightarrow> nat) \<Rightarrow> (buf \<Rightarrow> buf) \<Rightarrow> frame_context \<Rightarrow> buf list \<Rightarrow> pkt_stream \<Rightarrow>
   byte list list \<Rightarrow> (byte list list \<times> (exn + pkt_stream)) option" where
  "recv_fragments junk addr leave c [] st out = Some (out, Inr st)"
| "recv_fragments junk addr leave c (b # bs) st out =
     (case put_pktstream junk addr leave c b (buf_alloc junk 0 0) st out of
        None \<Rightarrow> None
      | Some (out, Inl e) \<Rightarrow> Some (out, Inl e)
      | Some (out, Inr st) \<Rightarrow> recv_fragments junk addr leave c bs st out)"


section \<open>Specification: deframing a byte stream\<close>

text \<open>The packets of a stream, and what is left of it: an incomplete packet, or a bad size.\<close>

function deframe :: "nat \<Rightarrow> byte list \<Rightarrow> byte list list \<times> (exn + byte list)" where
  "deframe payload t =
     (if length t < 2 then ([], Inr t)
      else (let n = unat (of_be16 (take 2 t))
            in if n = 0 \<or> n > payload then ([], Inl Embedded_packet_size_error)
               else if length t < 2 + n then ([], Inr t)
               else (let (ps, r) = deframe payload (drop (2 + n) t) in (take n (drop 2 t) # ps, r))))"
  by pat_completeness auto

termination
  by (relation "measure (\<lambda>(_, t). length t)") auto

declare deframe.simps [simp del]
declare collect_size.simps [simp del]

definition wire_packet :: "byte list \<Rightarrow> byte list" where
  "wire_packet p = be16 (of_nat (length p)) @ p"


section \<open>The stream against the specification\<close>

text \<open>
  The bytes of the packet under construction, its size included, and the invariant: the buffer
  has room for what is still to come.
\<close>

definition st_view :: "pkt_stream \<Rightarrow> byte list" where
  "st_view st = (if st_declared st then be16 (of_nat (st_declared_size st)) else []) @ contents (st_buffer st)"

definition st_inv :: "frame_context \<Rightarrow> pkt_stream \<Rightarrow> bool" where
  "st_inv c st \<longleftrightarrow> buf_wf (st_buffer st) \<and> b_owned (st_buffer st)
     \<and> (if st_declared st
        then 1 \<le> st_declared_size st \<and> st_declared_size st \<le> fc_payload c \<and> st_declared_size st < 65536
          \<and> b_size (st_buffer st) \<le> st_declared_size st
          \<and> b_offset (st_buffer st) + st_declared_size st \<le> b_capacity (st_buffer st)
        else b_size (st_buffer st) = 0
          \<or> b_size (st_buffer st) = 1 \<and> b_offset (st_buffer st) + 2 + fc_payload c \<le> b_capacity (st_buffer st))"

definition stream_ctx :: "frame_context \<Rightarrow> bool" where
  "stream_ctx c \<longleftrightarrow> ctx_ok c \<and> 2 \<le> fc_tailroom c"

text \<open>A buffer of the link: prepared by the context, filled with at most \<open>payload\<close> bytes.\<close>

definition frag_ok :: "frame_context \<Rightarrow> buf \<Rightarrow> bool" where
  "frag_ok c b \<longleftrightarrow> buf_wf b \<and> b_owned b
     \<and> (b_size b \<noteq> 0 \<longrightarrow> fc_adj_capacity c \<le> b_capacity b \<and> b_size b \<le> fc_payload c
           \<and> b_capacity b < 9223372036854775808)"

definition pkt_size :: "byte list \<Rightarrow> nat" where
  "pkt_size t = unat (of_be16 (take 2 t))"

lemma pkt_size_less: "pkt_size t < 65536"
  unfolding pkt_size_def using unsigned_less [of "of_be16 (take 2 t)"] by simp

lemma be16_pkt_size: "2 \<le> length t \<Longrightarrow> be16 (of_nat (pkt_size t)) = take 2 t"
  by (simp add: pkt_size_def be16_of_be16)

lemma extract_size_eq:
  assumes "buf_wf b" "2 \<le> b_size b"
  shows "extract_size c b st =
    (if pkt_size (contents b) = 0 \<or> pkt_size (contents b) > fc_payload c then Inl Embedded_packet_size_error
     else Inr (b\<lparr>b_offset := b_offset b + 2, b_size := b_size b - 2\<rparr>,
               st\<lparr>st_declared_size := pkt_size (contents b), st_declared := True\<rparr>))"
proof -
  have "take 2 (contents b) = take 2 (drop (b_offset b) (b_mem b))"
    using assms(2) by (simp add: contents_def)
  then show ?thesis
    using assms(2) by (simp add: extract_size_def read_size_def buf_read_def validate_size_def pkt_size_def)
qed

lemma advance_contents:
  assumes "buf_wf b" "n \<le> b_size b"
  shows "contents (b\<lparr>b_offset := b_offset b + n, b_size := b_size b - n\<rparr>) = drop n (contents b)"
    and "buf_wf (b\<lparr>b_offset := b_offset b + n, b_size := b_size b - n\<rparr>)"
  using assms by (auto simp: contents_def buf_wf_def drop_take ac_simps)

lemma realign_ok:
  assumes "stream_ctx c" "buf_wf b" "b_owned b" "fc_adj_capacity c \<le> b_capacity b" "b_size b \<le> fc_payload c"
  shows "\<exists>b'. ctx_realign base c b = Inr b' \<and> buf_wf b' \<and> b_owned b' \<and> contents b' = contents b
    \<and> b_size b' = b_size b \<and> b_offset b' + 2 + fc_payload c \<le> b_capacity b'"
proof -
  let ?h = "actual_headroom base c"
  have ctx: "ctx_ok c" "2 \<le> fc_tailroom c" using assms(1) by (auto simp: stream_ctx_def)
  have fit: "?h + fc_payload c + 2 \<le> b_capacity b"
    using actual_headroom_ok(2) [OF ctx(1), of base] ctx assms(4) by (simp add: ctx_ok_def)
  moreover have "b_capacity b < size_t_limit" using assms(2) by (simp add: buf_wf_def)
  ultimately have "?h + b_size b \<le> b_capacity b" "?h + b_size b < size_t_limit" "?h < size_t_limit"
    using assms(5) by simp_all
  then obtain b' where r: "buf_realign ?h b = Inr b'" "b_owned b' = b_owned b" "b_size b' = b_size b"
    "b_capacity b' = b_capacity b"
    by (cases "?h = b_offset b") (simp_all add: buf_realign_def)
  from realign_Inr [OF this(1) assms(2) \<open>?h < size_t_limit\<close> \<open>?h + b_size b < size_t_limit\<close>] r fit assms(3)
  show ?thesis by (auto simp: ctx_realign_def)
qed

lemma write_fits:
  assumes "buf_wf b" "b_offset b + b_size b + length xs \<le> b_capacity b"
  shows "\<exists>b'. buf_write junk xs b = Inr b' \<and> buf_wf b' \<and> contents b' = contents b @ xs
    \<and> b_offset b' = b_offset b \<and> b_size b' = b_size b + length xs \<and> b_owned b' = b_owned b
    \<and> b_capacity b' = b_capacity b"
  using append_in_place [OF assms] assms by (auto simp: buf_write_def)

text \<open>What one \<open>put\<close> achieves: it takes the bytes up to the end of the packet.\<close>

definition put_result :: "frame_context \<Rightarrow> byte list \<Rightarrow> (buf \<times> pkt_stream) res \<Rightarrow> bool" where
  "put_result c t r \<longleftrightarrow>
     (if length t < 2 then (\<exists>b st. r = Inr (b, st) \<and> contents b = [] \<and> st_view st = t \<and> st_inv c st
                              \<and> \<not> st_declared st \<and> frag_ok c b)
      else if pkt_size t = 0 \<or> pkt_size t > fc_payload c then r = Inl Embedded_packet_size_error
      else (\<exists>b st. r = Inr (b, st) \<and> contents b = drop (2 + pkt_size t) t
              \<and> st_view st = take (2 + pkt_size t) t \<and> st_inv c st \<and> st_declared st
              \<and> st_declared_size st = pkt_size t \<and> frag_ok c b))"

lemma put_fresh:
  assumes "stream_ctx c" "st_inv c st" "frag_ok c b" "b_size b \<noteq> 0"
    "\<not> st_declared st" "b_size (st_buffer st) = 0"
  shows "put_result c (contents b) (st_put junk addr c b st)"
proof -
  let ?t = "contents b" and ?n = "pkt_size (contents b)"
  have b: "buf_wf b" "b_owned b" "fc_adj_capacity c \<le> b_capacity b" "b_size b \<le> fc_payload c"
    and cap: "b_capacity b < 9223372036854775808"
    using assms(3,4) by (auto simp: frag_ok_def)
  have len: "length ?t = b_size b" using b(1) by simp
  have sb: "buf_wf (st_buffer st)" "b_owned (st_buffer st)" "contents (st_buffer st) = []"
    using assms(2,6) by (auto simp: st_inv_def contents_def)
  have sb_frag: "frag_ok c (st_buffer st)" using sb assms(6) by (simp add: frag_ok_def)
  show ?thesis
  proof (cases "2 \<le> b_size b")
    case False
    then have one: "b_size b = 1" using assms(4) by simp
    from realign_ok [OF assms(1) b, of "addr b"] obtain b' where
      "ctx_realign (addr b) c b = Inr b'" "buf_wf b'" "b_owned b'" "contents b' = ?t" "b_size b' = 1"
      "b_offset b' + 2 + fc_payload c \<le> b_capacity b'" using one by auto
    then show ?thesis
      using assms(4-6) False sb sb_frag len
      by (simp add: st_put_def size_defined_def put_result_def st_view_def st_inv_def)
  next
    case True
    let ?b = "b\<lparr>b_offset := b_offset b + 2, b_size := b_size b - 2\<rparr>"
    let ?st = "st\<lparr>st_declared_size := ?n, st_declared := True\<rparr>"
    note x = extract_size_eq [OF b(1) True, of c st]
    show ?thesis
    proof (cases "?n = 0 \<or> ?n > fc_payload c")
      case True
      then show ?thesis
        using assms(4-6) \<open>2 \<le> b_size b\<close> x len by (simp add: st_put_def size_defined_def put_result_def)
    next
      case good: False
      have wb: "buf_wf ?b" "contents ?b = drop 2 ?t" using advance_contents [OF b(1) True] by simp_all
      have view: "be16 (of_nat ?n) @ drop 2 ?t = ?t" using be16_pkt_size [of ?t] True len by simp
      have put: "st_put junk addr c b st =
         (if b_size b - 2 = ?n then Inr (st_buffer st, ?st\<lparr>st_buffer := ?b\<rparr>)
          else if b_size b - 2 < ?n
          then (if sz_add (sz_add (b_offset b + 2) ?n) (fc_tailroom c) \<le> b_capacity b
                then Inr (st_buffer st, ?st\<lparr>st_buffer := ?b\<rparr>)
                else bindE (ctx_realign (addr ?b) c ?b) (\<lambda>b. Inr (st_buffer st, ?st\<lparr>st_buffer := b\<rparr>)))
          else bindE (ctx_prepare junk (addr (st_buffer st)) c (st_buffer st)) (\<lambda>(_, sb).
               bindE (buf_read ?n ?b) (\<lambda>(data, b).
               bindE (buf_write junk data sb) (\<lambda>sb. Inr (b, ?st\<lparr>st_buffer := sb\<rparr>)))))"
        using assms(4-6) True x good by (simp add: st_put_def size_defined_def)
      have done_small: "put_result c ?t (Inr (st_buffer st, ?st\<lparr>st_buffer := b'\<rparr>))"
        if "buf_wf b'" "b_owned b'" "contents b' = drop 2 ?t" "b_size b' \<le> ?n" "b_offset b' + ?n \<le> b_capacity b'" for b'
      proof -
        have "length ?t \<le> 2 + ?n" using that(1,3,4) length_contents [OF that(1)] by simp
        then show ?thesis
          using that good sb sb_frag view True len pkt_size_less [of ?t]
          by (auto simp: put_result_def st_view_def st_inv_def)
      qed
      consider "b_size b - 2 = ?n" | "b_size b - 2 < ?n" | "b_size b - 2 > ?n" by linarith
      then show ?thesis
      proof cases
        case 1
        then have "st_put junk addr c b st = Inr (st_buffer st, ?st\<lparr>st_buffer := ?b\<rparr>)" using put by simp
        moreover have "b_offset ?b + ?n = b_offset b + b_size b" using 1 True by simp
        then have "b_offset ?b + ?n \<le> b_capacity ?b" using b(1) by (simp add: buf_wf_def)
        ultimately show ?thesis using done_small [of ?b] wb b(2) 1 by simp
      next
        case 2
        show ?thesis
        proof (cases "sz_add (sz_add (b_offset b + 2) ?n) (fc_tailroom c) \<le> b_capacity b")
          case fits: True
          have "?n + fc_tailroom c \<le> b_capacity b" "b_offset b + 2 \<le> b_capacity b"
            using assms(1) b(1,3) good True by (auto simp: stream_ctx_def ctx_ok_def buf_wf_def)
          then have "b_offset b + 2 + ?n + fc_tailroom c < size_t_limit" using cap by simp
          then have "b_offset ?b + ?n \<le> b_capacity ?b" using fits by simp
          moreover have "st_put junk addr c b st = Inr (st_buffer st, ?st\<lparr>st_buffer := ?b\<rparr>)"
            using put 2 fits by simp
          ultimately show ?thesis using done_small [of ?b] wb b(2) 2 by simp
        next
          case False
          have "b_owned ?b" "fc_adj_capacity c \<le> b_capacity ?b" "b_size ?b \<le> fc_payload c" using b by simp_all
          from realign_ok [OF assms(1) wb(1) this, of "addr ?b"] obtain b' where
            r: "ctx_realign (addr ?b) c ?b = Inr b'" "buf_wf b'" "b_owned b'" "contents b' = drop 2 ?t"
            "b_size b' = b_size b - 2" "b_offset b' + 2 + fc_payload c \<le> b_capacity b'" using wb(2) by auto
          then show ?thesis using put 2 False done_small [of b'] good by simp
        qed
      next
        case 3
        have ctx: "ctx_ok c" "2 \<le> fc_tailroom c" using assms(1) by (auto simp: stream_ctx_def)
        from ctx_prepare_ok [OF ctx(1) sb(1,2), of junk "addr (st_buffer st)"] obtain sb' where
          p: "ctx_prepare junk (addr (st_buffer st)) c (st_buffer st) = Inr (fc_payload c, sb')" "buf_wf sb'"
          "contents sb' = []" "b_offset sb' = actual_headroom (addr (st_buffer st)) c"
          "fc_adj_capacity c \<le> b_capacity sb'" "b_owned sb'" by blast
        let ?data = "take ?n (drop 2 ?t)"
        let ?b2 = "?b\<lparr>b_offset := b_offset ?b + ?n, b_size := b_size ?b - ?n\<rparr>"
        have "take ?n (drop (b_offset ?b) (b_mem ?b)) = take ?n (contents ?b)"
          using 3 by (simp add: contents_def min_def)
        then have rd: "buf_read ?n ?b = Inr (?data, ?b2)"
          using 3 wb(2) by (simp add: buf_read_def)
        have ld: "length ?data = ?n" using 3 len by simp
        have sz: "b_size sb' = 0" using p(2,3) length_contents [OF p(2)] by simp
        have "b_offset sb' + fc_payload c \<le> b_capacity sb'"
          using actual_headroom_ok(2) [OF ctx(1), of "addr (st_buffer st)"] p(4,5) ctx by (simp add: ctx_ok_def)
        then obtain sb2 where w: "buf_write junk ?data sb' = Inr sb2" "buf_wf sb2" "contents sb2 = ?data"
          "b_offset sb2 = b_offset sb'" "b_size sb2 = ?n" "b_owned sb2" "b_capacity sb2 = b_capacity sb'"
          using write_fits [OF p(2), of ?data junk] good ld sz p(3,6) by auto
        have put3: "st_put junk addr c b st = Inr (?b2, ?st\<lparr>st_buffer := sb2\<rparr>)"
          using put 3 p(1) rd w(1) by simp
        have b2: "buf_wf ?b2" "contents ?b2 = drop (2 + ?n) ?t"
          using advance_contents [OF wb(1), of ?n] 3 wb(2) by (simp_all add: add.commute)
        have "be16 (of_nat ?n) @ ?data = take (2 + ?n) ?t"
          using be16_pkt_size [of ?t] True len by (simp only: take_add)
        moreover have "b_offset sb2 + ?n \<le> b_capacity sb2"
          using \<open>b_offset sb' + fc_payload c \<le> b_capacity sb'\<close> w(4,7) good by simp
        moreover have "b_size ?b2 \<le> fc_payload c" by (rule le_trans [OF _ b(4)]) simp
        then have "frag_ok c ?b2" using b b2(1) cap unfolding frag_ok_def by simp
        ultimately show ?thesis
          using put3 b2(2) w good True len pkt_size_less [of ?t]
          by (auto simp: put_result_def st_view_def st_inv_def)
      qed
    qed
  qed
qed


lemma be16_inject: "be16 v = be16 w \<longleftrightarrow> v = w"
  by (metis of_be16_be16)

lemma pkt_size_be16: "n < 65536 \<Longrightarrow> pkt_size (be16 (of_nat n) @ xs) = n"
  by (simp add: pkt_size_def unat_of_nat)

lemma put_declared:
  assumes "st_inv c st" "frag_ok c b" "b_size b \<noteq> 0" "st_declared st"
    "b_size (st_buffer st) < st_declared_size st"
  shows "put_result c (st_view st @ contents b) (st_put junk addr c b st)"
proof -
  let ?n = "st_declared_size st" and ?sb = "st_buffer st"
  let ?k = "min (?n - b_size ?sb) (b_size b)"
  have b: "buf_wf b" "b_owned b" using assms(2) by (auto simp: frag_ok_def)
  have st: "buf_wf ?sb" "b_owned ?sb" "?n \<noteq> 0" "\<not> ?n > fc_payload c" "?n < 65536" "b_offset ?sb + ?n \<le> b_capacity ?sb"
    using assms(1,4) by (auto simp: st_inv_def)
  let ?t = "st_view st @ contents b"
  have view: "st_view st = be16 (of_nat ?n) @ contents ?sb" using assms(4) by (simp add: st_view_def)
  have n: "pkt_size ?t = ?n" "\<not> length ?t < 2" using st(5) by (simp_all add: view pkt_size_be16)
  let ?b = "b\<lparr>b_offset := b_offset b + ?k, b_size := b_size b - ?k\<rparr>"
  have wb: "buf_wf ?b" "contents ?b = drop ?k (contents b)" using advance_contents [OF b(1), of ?k] by simp_all
  have rd: "buf_read ?k b = Inr (take ?k (contents b), ?b)"
    by (simp add: buf_read_def contents_def min_def)
  have lk: "length (take ?k (contents b)) = ?k" using b(1) by simp
  have "b_offset ?sb + b_size ?sb + ?k \<le> b_capacity ?sb" using st(6) assms(5) by simp
  then obtain sb where w: "buf_write junk (take ?k (contents b)) ?sb = Inr sb" "buf_wf sb"
    "contents sb = contents ?sb @ take ?k (contents b)" "b_offset sb = b_offset ?sb"
    "b_size sb = b_size ?sb + ?k" "b_owned sb" "b_capacity sb = b_capacity ?sb"
    using write_fits [OF st(1), of "take ?k (contents b)" junk] st(2) lk by auto
  have "collect_size junk c b st = Inr (True, b, st)" using assms(4) by (simp add: collect_size.simps)
  then have put: "st_put junk addr c b st = Inr (?b, st\<lparr>st_buffer := sb\<rparr>)"
    using assms(3-5) rd w(1) by (simp add: st_put_def Let_def)
  have ls: "length (contents ?sb) = b_size ?sb" "length (contents b) = b_size b" using st(1) b(1) by simp_all
  have "drop (2 + ?n) ?t = drop (?n - b_size ?sb) (contents b)"
    "take (2 + ?n) ?t = be16 (of_nat ?n) @ contents ?sb @ take (?n - b_size ?sb) (contents b)"
    using assms(5) ls by (simp_all add: view)
  moreover have "take ?k (contents b) = take (?n - b_size ?sb) (contents b)"
    "drop ?k (contents b) = drop (?n - b_size ?sb) (contents b)"
    using ls(2) by (auto simp: min_def)
  moreover have "frag_ok c ?b" using assms(2) wb(1) by (auto simp: frag_ok_def)
  ultimately show ?thesis
    using n put wb w st assms(4,5) by (auto simp: put_result_def st_view_def st_inv_def)
qed


lemma put_one_byte:
  assumes "st_inv c st" "frag_ok c b" "b_size b \<noteq> 0" "\<not> st_declared st" "b_size (st_buffer st) \<noteq> 0"
  shows "put_result c (st_view st @ contents b) (st_put junk addr c b st)"
proof -
  let ?sb = "st_buffer st" and ?t = "st_view st @ contents b"
  have b: "buf_wf b" "b_owned b" using assms(2) by (auto simp: frag_ok_def)
  have sb: "buf_wf ?sb" "b_owned ?sb" "b_size ?sb = 1" "b_offset ?sb + 2 + fc_payload c \<le> b_capacity ?sb"
    using assms(1,4,5) by (auto simp: st_inv_def)
  obtain x b1 where pop: "buf_pop_front b = Inr (x, b1)" "b_size b1 = b_size b - 1" "b_owned b1" "b_capacity b1 = b_capacity b"
    using assms(3) b(2) by (simp add: buf_pop_front_def)
  have b1: "buf_wf b1" "contents b = x # contents b1" using pop_front_Inr [OF pop(1) b(1)] by simp_all
  have fr1: "frag_ok c b1" using assms(2,3) pop b1(1) by (auto simp: frag_ok_def)
  have "b_offset ?sb + b_size ?sb + length [x] \<le> b_capacity ?sb" using sb(3,4) by simp
  then obtain sb1 where push: "buf_push_back junk x ?sb = Inr sb1" "buf_wf sb1"
    "contents sb1 = contents ?sb @ [x]" "b_offset sb1 = b_offset ?sb" "b_size sb1 = 2" "b_owned sb1"
    "b_capacity sb1 = b_capacity ?sb"
    using write_fits [OF sb(1), of "[x]" junk] sb(2,3) push_back_write [OF sb(1)] by auto
  have t: "?t = contents sb1 @ contents b1" using assms(4) push(3) b1(2) by (simp add: st_view_def)
  have n: "pkt_size ?t = pkt_size (contents sb1)" "length (contents sb1) = 2"
    using push(2,5) by (simp_all add: t pkt_size_def)
  have two: "2 \<le> b_size sb1" using push(5) by simp
  let ?n = "pkt_size (contents sb1)"
  let ?e = "sb1\<lparr>b_offset := b_offset sb1 + 2, b_size := b_size sb1 - 2\<rparr>"
  let ?st = "st\<lparr>st_declared_size := ?n, st_declared := True, st_buffer := ?e\<rparr>"
  have col: "collect_size junk c b st =
     (if ?n = 0 \<or> ?n > fc_payload c then Inl Embedded_packet_size_error else Inr (True, b1, ?st))"
    using assms(3,4) pop(1) push(1) extract_size_eq [OF push(2) two, of c st] two
    by (simp add: collect_size.simps [of junk c b st] collect_size.simps [of junk c b1] size_defined_def)
  show ?thesis
  proof (cases "?n = 0 \<or> ?n > fc_payload c")
    case True
    then show ?thesis using col n assms(3-5) by (simp add: st_put_def put_result_def t)
  next
    case good: False
    have e: "buf_wf ?e" "contents ?e = []" "b_size ?e = 0"
      using advance_contents [OF push(2) two] n(2) push(5) by simp_all
    have inv: "st_inv c ?st" using e push good sb(4) pkt_size_less [of "contents sb1"] by (simp add: st_inv_def)
    have view: "st_view ?st = contents sb1"
      using e(2) n(2) be16_pkt_size [of "contents sb1"] by (simp add: st_view_def)
    show ?thesis
    proof (cases "b_size b1 = 0")
      case True
      then have "contents b1 = []" by (simp add: contents_def)
      moreover have "st_put junk addr c b st = Inr (b1\<lparr>b_offset := b_offset b1 + 0, b_size := b_size b1 - 0\<rparr>, ?st\<lparr>st_buffer := ?e\<rparr>)"
      proof -
        have "buf_write junk [] ?e = Inr ?e" using e by (simp add: buf_write_def)
        moreover have "buf_read 0 b1 = Inr ([], b1)" by (simp add: buf_read_def)
        ultimately show ?thesis using col good assms(3-5) e(3) True by (simp add: st_put_def Let_def)
      qed
      ultimately show ?thesis
        using good n fr1 inv view t by (auto simp: put_result_def)
    next
      case False
      have "put_result c (st_view ?st @ contents b1) (st_put junk addr c b1 ?st)"
        using put_declared [OF inv fr1 False] e(3) good by simp
      moreover have "st_put junk addr c b1 ?st = st_put junk addr c b st"
        using col good assms(3-5) False by (simp add: st_put_def collect_size.simps)
      ultimately show ?thesis by (simp only: view t)
    qed
  qed
qed

lemma put_any:
  assumes "stream_ctx c" "st_inv c st" "frag_ok c b" "b_size b \<noteq> 0" "\<not> st_ready st"
  shows "put_result c (st_view st @ contents b) (st_put junk addr c b st)"
proof (cases "st_declared st")
  case True
  then show ?thesis using put_declared [OF assms(2-4)] assms(5) by (simp add: st_ready_def)
next
  case False
  show ?thesis
  proof (cases "b_size (st_buffer st) = 0")
    case True
    moreover from this have "st_view st = []" using False by (simp add: st_view_def contents_def)
    ultimately show ?thesis using put_fresh [OF assms(1-4) False] by simp
  next
    case nz: False
    then show ?thesis using put_one_byte [OF assms(2-4) False] by simp
  qed
qed


section \<open>The loop against the specification\<close>

lemma deframe_short: "length t < 2 \<Longrightarrow> deframe m t = ([], Inr t)"
  by (simp add: deframe.simps)

lemma deframe_bad:
  "2 \<le> length t \<Longrightarrow> pkt_size t = 0 \<or> pkt_size t > m \<Longrightarrow> deframe m t = ([], Inl Embedded_packet_size_error)"
  by (simp add: deframe.simps [of m t] pkt_size_def Let_def)

lemma deframe_incomplete:
  "2 \<le> length t \<Longrightarrow> pkt_size t \<noteq> 0 \<Longrightarrow> pkt_size t \<le> m \<Longrightarrow> length t < 2 + pkt_size t \<Longrightarrow>
   deframe m t = ([], Inr t)"
  by (simp add: deframe.simps [of m t] pkt_size_def Let_def)

lemma deframe_packet:
  "pkt_size t \<noteq> 0 \<Longrightarrow> pkt_size t \<le> m \<Longrightarrow> 2 + pkt_size t \<le> length t \<Longrightarrow>
   deframe m t = (let (ps, r) = deframe m (drop (2 + pkt_size t) t) in (take (pkt_size t) (drop 2 t) # ps, r))"
  by (simp add: deframe.simps [of m t] pkt_size_def Let_def)

text \<open>The state between two calls: an incomplete packet.\<close>

definition between :: "frame_context \<Rightarrow> pkt_stream \<Rightarrow> bool" where
  "between c st \<longleftrightarrow> st_inv c st \<and> \<not> st_ready st"

lemma between_short:
  assumes "between c st"
  shows "length (st_view st) < 2 + pkt_size (st_view st @ u)"
  using assms by (cases "st_declared st")
    (auto simp: between_def st_inv_def st_ready_def st_view_def pkt_size_be16)

lemma between_deframe:
  assumes "between c st"
  shows "deframe (fc_payload c) (st_view st) = ([], Inr (st_view st))"
proof (cases "st_declared st")
  case True
  then have n: "st_declared_size st \<noteq> 0" "st_declared_size st \<le> fc_payload c" "st_declared_size st < 65536"
    "b_size (st_buffer st) < st_declared_size st" "buf_wf (st_buffer st)"
    using assms by (auto simp: between_def st_inv_def st_ready_def)
  have v: "pkt_size (st_view st) = st_declared_size st" "length (st_view st) = 2 + b_size (st_buffer st)"
    using True n(3,5) by (simp_all add: st_view_def pkt_size_be16)
  show ?thesis using deframe_incomplete [of "st_view st"] n v by simp
next
  case False
  then have "length (st_view st) < 2" using assms by (auto simp: between_def st_inv_def st_view_def)
  then show ?thesis by (rule deframe_short)
qed

text \<open>What the read handler may leave behind: any buffer that is a buffer.\<close>

definition leave_ok :: "(buf \<Rightarrow> buf) \<Rightarrow> bool" where
  "leave_ok leave \<longleftrightarrow> (\<forall>p. buf_wf p \<longrightarrow> b_owned p \<longrightarrow> buf_wf (leave p) \<and> b_owned (leave p))"

lemma put_loop_deframe:
  assumes "stream_ctx c" "between c st" "frag_ok c b" "buf_wf pkt" "b_owned pkt"
    and leave: "leave_ok leave"
  shows "\<exists>r. put_pktstream junk addr leave c b pkt st out =
      Some (out @ fst (deframe (fc_payload c) (st_view st @ contents b)), r)
    \<and> (case snd (deframe (fc_payload c) (st_view st @ contents b)) of
         Inl e \<Rightarrow> r = Inl e
       | Inr rest \<Rightarrow> (\<exists>st'. r = Inr st' \<and> between c st' \<and> st_view st' = rest))"
  using assms(2-5)
proof (induction "length (contents b)" arbitrary: b pkt st out rule: less_induct)
  case less
  let ?t = "st_view st @ contents b" and ?m = "fc_payload c"
  have wb: "buf_wf b" using less.prems(2) by (simp add: frag_ok_def)
  show ?case
  proof (cases "b_size b = 0")
    case True
    then have "contents b = []" by (simp add: contents_def)
    then show ?thesis
      using between_deframe [OF less.prems(1)] less.prems(1) True
      by (simp add: put_pktstream.simps)
  next
    case False
    have inv: "st_inv c st" "\<not> st_ready st" using less.prems(1) by (simp_all add: between_def)
    note put = put_any [OF assms(1) inv(1) less.prems(2) False inv(2), of junk addr]
    consider "length ?t < 2" | "2 \<le> length ?t" "pkt_size ?t = 0 \<or> pkt_size ?t > ?m"
      | "2 \<le> length ?t" "pkt_size ?t \<noteq> 0" "pkt_size ?t \<le> ?m" by linarith
    then show ?thesis
    proof cases
      case 1
      then obtain b' st' where r: "st_put junk addr c b st = Inr (b', st')" "contents b' = []" "st_view st' = ?t"
        "st_inv c st'" "\<not> st_declared st'" "frag_ok c b'"
        using put by (auto simp: put_result_def)
      have "b_size b' = 0" using r(2,6) length_contents [of b'] by (simp add: frag_ok_def)
      then show ?thesis
        using False r deframe_short [OF 1, of ?m]
        by (simp add: put_pktstream.simps [of _ _ _ _ b] put_pktstream.simps [of _ _ _ _ b'] st_ready_def between_def)
    next
      case 2
      then have "st_put junk addr c b st = Inl Embedded_packet_size_error" using put by (simp add: put_result_def)
      then show ?thesis using False deframe_bad [OF 2] by (simp add: put_pktstream.simps [of _ _ _ _ b])
    next
      case 3
      then obtain b' st' where r: "st_put junk addr c b st = Inr (b', st')" "contents b' = drop (2 + pkt_size ?t) ?t"
        "st_view st' = take (2 + pkt_size ?t) ?t" "st_inv c st'" "st_declared st'"
        "st_declared_size st' = pkt_size ?t" "frag_ok c b'"
        using put by (auto simp: put_result_def)
      have wst: "buf_wf (st_buffer st')" "b_owned (st_buffer st')" using r(4) by (simp_all add: st_inv_def)
      have "length (st_view st') = min (length ?t) (2 + pkt_size ?t)" by (simp only: r(3) length_take)
      moreover have "length (st_view st') = 2 + b_size (st_buffer st')"
        using r(5) wst(1) by (simp add: st_view_def)
      ultimately have sz: "2 + b_size (st_buffer st') = min (length ?t) (2 + pkt_size ?t)" by simp
      show ?thesis
      proof (cases "length ?t < 2 + pkt_size ?t")
        case True
        then have "\<not> st_ready st'" "contents b' = []" using sz r(2,5,6) by (simp_all add: st_ready_def)
        moreover from this have "b_size b' = 0" using r(7) length_contents [of b'] by (simp add: frag_ok_def)
        ultimately show ?thesis
          using False r True deframe_incomplete [OF 3 True]
          by (simp add: put_pktstream.simps [of _ _ _ _ b] put_pktstream.simps [of _ _ _ _ b'] between_def)
      next
        case complete: False
        then have rdy: "st_ready st'" "b_size (st_buffer st') = st_declared_size st'"
          using sz r(5,6) by (simp_all add: st_ready_def)
        let ?st = "st'\<lparr>st_buffer := buf_reset_content pkt, st_declared := False\<rparr>"
        let ?l = "leave (st_buffer st')"
        have get: "st_get pkt st' = Inr (st_buffer st', ?st)" using rdy(2) r(5) by (simp add: st_get_def)
        have rc: "buf_wf (buf_reset_content pkt)" "b_owned (buf_reset_content pkt)" "b_size (buf_reset_content pkt) = 0"
          using less.prems(3,4) by (simp_all add: buf_reset_content_def buf_wf_def)
        have btw: "between c ?st" using rc by (simp add: between_def st_inv_def st_ready_def)
        have view: "st_view ?st = []" using rc(3) by (simp add: st_view_def contents_def)
        have c: "contents (st_buffer st') = take (pkt_size ?t) (drop 2 ?t)"
        proof -
          have "st_view st' = take 2 ?t @ contents (st_buffer st')"
            using r(5,6) be16_pkt_size [OF 3(1)] by (simp only: st_view_def if_True)
          then have "take 2 ?t @ contents (st_buffer st') = take 2 ?t @ take (pkt_size ?t) (drop 2 ?t)"
            using r(3) by (simp only: take_add)
          then show ?thesis by (simp only: same_append_eq)
        qed
        have shorter: "length (contents b') < length (contents b)"
          using between_short [OF less.prems(1), of "contents b"] complete r(2) by simp
        have lv: "buf_wf ?l" "b_owned ?l" using leave wst by (simp_all add: leave_ok_def)
        note IH = less.hyps [OF shorter btw r(7) lv,
            of "out @ [contents (st_buffer st')]"]
        obtain ps rr where d: "deframe ?m (contents b') = (ps, rr)" by fastforce
        have dt: "deframe ?m ?t = (contents (st_buffer st') # ps, rr)"
          using deframe_packet [OF 3(2,3)] complete d unfolding r(2) c by (simp add: not_less)
        have step: "put_pktstream junk addr leave c b pkt st out
            = put_pktstream junk addr leave c b' ?l ?st (out @ [contents (st_buffer st')])"
          using False r(1) rdy(1) get by (simp add: put_pktstream.simps [of _ _ _ _ b])
        show ?thesis using IH unfolding step dt view d append_Nil by simp
      qed
    qed
  qed
qed


text \<open>Deframing a stream in two parts.\<close>

lemma deframe_append:
  "deframe m (t @ u) =
     (case deframe m t of
        (ps, Inl e) \<Rightarrow> (ps, Inl e)
      | (ps, Inr rest) \<Rightarrow> (let (qs, r) = deframe m (rest @ u) in (ps @ qs, r)))"
proof (induction m t rule: deframe.induct)
  case (1 m t)
  consider "length t < 2" | "2 \<le> length t" "pkt_size t = 0 \<or> pkt_size t > m"
    | "pkt_size t \<noteq> 0" "pkt_size t \<le> m" "2 \<le> length t" "length t < 2 + pkt_size t"
    | "pkt_size t \<noteq> 0" "pkt_size t \<le> m" "2 + pkt_size t \<le> length t" by linarith
  then show ?case
  proof cases
    case 1
    then show ?thesis by (simp add: deframe_short)
  next
    case 2
    then have "pkt_size (t @ u) = pkt_size t" by (simp add: pkt_size_def)
    then show ?thesis using 2 by (simp add: deframe_bad)
  next
    case 3
    then show ?thesis by (simp add: deframe_incomplete)
  next
    case 4
    then have tu: "pkt_size (t @ u) = pkt_size t" by (simp add: pkt_size_def)
    have "2 \<le> length t" using 4 by simp
    then have IH: "deframe m (drop (2 + pkt_size t) t @ u) =
     (case deframe m (drop (2 + pkt_size t) t) of
        (ps, Inl e) \<Rightarrow> (ps, Inl e)
      | (ps, Inr rest) \<Rightarrow> (let (qs, r) = deframe m (rest @ u) in (ps @ qs, r)))"
      using 1 4 unfolding pkt_size_def by (simp add: not_less)
    have "deframe m (t @ u) = (let (ps, r) = deframe m (drop (2 + pkt_size t) t @ u) in (take (pkt_size t) (drop 2 t) # ps, r))"
      using deframe_packet [of "t @ u" m] 4 tu by simp
    moreover have "deframe m t = (let (ps, r) = deframe m (drop (2 + pkt_size t) t) in (take (pkt_size t) (drop 2 t) # ps, r))"
      using deframe_packet [OF 4] .
    ultimately show ?thesis unfolding IH
      by (auto simp: Let_def split: prod.splits sum.splits)
  qed
qed

lemma recv_fragments_deframe:
  assumes "stream_ctx c" and leave: "leave_ok leave"
  shows "between c st \<Longrightarrow> list_all (frag_ok c) bs \<Longrightarrow>
    (\<exists>r. recv_fragments junk addr leave c bs st out =
      Some (out @ fst (deframe (fc_payload c) (st_view st @ concat (map contents bs))), r)
    \<and> (case snd (deframe (fc_payload c) (st_view st @ concat (map contents bs))) of
         Inl e \<Rightarrow> r = Inl e
       | Inr rest \<Rightarrow> (\<exists>st'. r = Inr st' \<and> between c st' \<and> st_view st' = rest)))"
proof (induction bs arbitrary: st out)
  case Nil
  then show ?case using between_deframe [of c st] by simp
next
  case (Cons b bs)
  let ?m = "fc_payload c" and ?u = "concat (map contents bs)"
  have pkt: "buf_wf (buf_alloc junk 0 0)" "b_owned (buf_alloc junk 0 0)"
    by (simp_all add: buf_wf_def buf_alloc_def has_flag_def)
  obtain ps rr where d: "deframe ?m (st_view st @ contents b) = (ps, rr)" by fastforce
  have "frag_ok c b" using Cons.prems(2) by simp
  from put_loop_deframe [OF assms(1) Cons.prems(1) this pkt leave, where junk = junk and addr = addr and out = out]
  obtain r where r: "put_pktstream junk addr leave c b (buf_alloc junk 0 0) st out = Some (out @ ps, r)"
    "case rr of Inl e \<Rightarrow> r = Inl e | Inr rest \<Rightarrow> (\<exists>st'. r = Inr st' \<and> between c st' \<and> st_view st' = rest)"
    by (auto simp: d)
  have whole: "deframe ?m (st_view st @ concat (map contents (b # bs))) =
     (case rr of Inl e \<Rightarrow> (ps, Inl e) | Inr rest \<Rightarrow> (let (qs, r) = deframe ?m (rest @ ?u) in (ps @ qs, r)))"
    using deframe_append [of ?m "st_view st @ contents b" ?u] d by (simp split: sum.splits)
  show ?case
  proof (cases rr)
    case (Inl e)
    then show ?thesis unfolding whole using r by simp
  next
    case (Inr rest)
    then obtain st' where st': "r = Inr st'" "between c st'" "st_view st' = rest" using r(2) by auto
    from Cons.IH [OF st'(2), where out = "out @ ps"] Cons.prems(2) st' r(1) show ?thesis
      unfolding whole using Inr by (auto simp: Let_def split: prod.splits)
  qed
qed

lemma deframe_wire:
  "\<forall>p \<in> set ps. p \<noteq> [] \<and> length p \<le> m \<Longrightarrow> m < 65536 \<Longrightarrow>
   deframe m (concat (map wire_packet ps)) = (ps, Inr [])"
proof (induction ps)
  case Nil
  then show ?case by (simp add: deframe_short)
next
  case (Cons p ps)
  then have p: "length p \<noteq> 0" "length p \<le> m" by auto
  then have p3: "length p < 65536" using Cons.prems(2) by simp
  let ?t = "concat (map wire_packet (p # ps))"
  have t: "?t = be16 (of_nat (length p)) @ p @ concat (map wire_packet ps)" by (simp add: wire_packet_def)
  have n: "pkt_size ?t = length p" unfolding t using p3 by (rule pkt_size_be16)
  have "deframe m (concat (map wire_packet ps)) = (ps, Inr [])" using Cons by simp
  moreover have "drop (2 + length p) ?t = concat (map wire_packet ps)" "take (length p) (drop 2 ?t) = p"
    "2 + length p \<le> length ?t" unfolding t by simp_all
  ultimately show ?case using deframe_packet [of ?t m] n p(1,2) by (simp only:) simp
qed


lemma prepend_size_wire:
  assumes "buf_wf b" "prepend_size b = Inr b'"
  shows "contents b' = wire_packet (contents b) \<and> buf_wf b'"
  using bufq.prepend_view [OF assms(1) assms(2) [unfolded prepend_size_def]] assms(1)
  by (simp add: wire_packet_def)


section \<open>Properties\<close>

text \<open>
  C37. The receive loop implements the stream specification: whatever the fragmentation, the
  packets handed to the read handler are those of \<open>deframe\<close> of the whole stream, the loop returns,
  and an exception is thrown exactly when the stream has a bad size in it.
\<close>

theorem recv_refines_deframe:
  assumes "stream_ctx c" "leave_ok leave"
    and "list_all (frag_ok c) bs"
  shows "\<exists>r. recv_fragments junk addr leave c bs st_init [] =
      Some (fst (deframe (fc_payload c) (concat (map contents bs))), r)
    \<and> (case snd (deframe (fc_payload c) (concat (map contents bs))) of
         Inl e \<Rightarrow> r = Inl e
       | Inr rest \<Rightarrow> (\<exists>st'. r = Inr st' \<and> st_view st' = rest))"
proof -
  have i: "between c st_init" "st_view st_init = []"
    by (simp_all add: between_def st_inv_def st_init_def st_ready_def st_view_def buf_wf_def buf_alloc_def
        has_flag_def contents_def)
  from recv_fragments_deframe [OF assms(1,2) i(1) assms(3), where junk = junk and addr = addr and out = "[]"] i(2) show ?thesis
    by (fastforce split: sum.splits)
qed

text \<open>
  Fragmentation does not matter: if the fragments put together are the packets \<open>ps\<close>, each with
  its size in front, then the read handler is given exactly these packets, in order, and no
  exception is thrown.
\<close>

lemma fragmented_packets_delivered:
  assumes "stream_ctx c" "leave_ok leave"
    and "list_all (frag_ok c) bs" "fc_payload c < 65536"
    and "\<forall>p \<in> set ps. p \<noteq> [] \<and> length p \<le> fc_payload c"
    and "concat (map contents bs) = concat (map wire_packet ps)"
  shows "\<exists>st. recv_fragments junk addr leave c bs st_init [] = Some (ps, Inr st)"
proof -
  have i: "between c st_init" "st_view st_init = []"
    by (simp_all add: between_def st_inv_def st_init_def st_ready_def st_view_def buf_wf_def buf_alloc_def
        has_flag_def contents_def)
  from recv_fragments_deframe [OF assms(1,2) i(1) assms(3), where junk = junk and addr = addr and out = "[]"] i(2)
    deframe_wire [OF assms(5,4)] assms(6) show ?thesis by auto
qed


text \<open>The witness: two packets in three fragments, the first cut within the size.\<close>

definition wit_ctx :: frame_context where
  "wit_ctx = make_context 2 8 2 0 1 0"

definition wit_frag :: "byte list \<Rightarrow> buf" where
  "wit_frag xs = \<lparr>b_mem = 0 # 0 # 0 # xs @ replicate (12 - length xs) 0, b_offset = 3, b_size = length xs,
                  b_capacity = 15, b_flags = 0, b_owned = True\<rparr>"

lemma wit_frag_ok: "length xs \<le> 8 \<Longrightarrow> frag_ok wit_ctx (wit_frag xs) \<and> contents (wit_frag xs) = xs"
  by (simp add: frag_ok_def wit_ctx_def wit_frag_def buf_wf_def make_context_def recalc_derived_def contents_def Let_def)

lemma wit_ctx_ok: "stream_ctx wit_ctx"
  unfolding stream_ctx_def wit_ctx_def using make_context_ok [of 0 2 8 2 0 0]
  by (simp add: make_context_def recalc_derived_def Let_def)

theorem recv_refines_deframe_witness:
  "\<exists>r. recv_fragments (\<lambda>_. 0) (\<lambda>_. 0) (\<lambda>b. b) wit_ctx [wit_frag [0, 9]] st_init [] = Some ([], r)
    \<and> r = Inl Embedded_packet_size_error"
proof -
  have "pkt_size [0, 9] = 9" by code_simp
  then have d: "deframe 8 [0, 9] = ([], Inl Embedded_packet_size_error)" by (simp add: deframe_bad)
  have p: "fc_payload wit_ctx = 8" by (simp add: wit_ctx_def make_context_def recalc_derived_def Let_def)
  have l: "leave_ok (\<lambda>b. b)" by (simp add: leave_ok_def)
  have f: "list_all (frag_ok wit_ctx) [wit_frag [0, 9]]" "concat (map contents [wit_frag [0, 9]]) = [0, 9]"
    using wit_frag_ok [of "[0, 9]"] by simp_all
  from recv_refines_deframe [OF wit_ctx_ok l f(1), of "\<lambda>_. 0" "\<lambda>_. 0"] show ?thesis
    unfolding f(2) p d by simp
qed

lemma fragmented_packets_delivered_at:
  "\<exists>st. recv_fragments (\<lambda>_. 0) (\<lambda>_. 0) (\<lambda>b. b) wit_ctx
      [wit_frag [0], wit_frag [2, 7, 8, 0, 1], wit_frag [5]] st_init [] = Some ([[7, 8], [5]], Inr st)"
proof -
  let ?bs = "[wit_frag [0], wit_frag [2, 7, 8, 0, 1], wit_frag [5]]"
  have p: "fc_payload wit_ctx = 8" by (simp add: wit_ctx_def make_context_def recalc_derived_def Let_def)
  have l: "leave_ok (\<lambda>b. b)" by (simp add: leave_ok_def)
  have f: "list_all (frag_ok wit_ctx) ?bs" "concat (map contents ?bs) = [0, 2, 7, 8, 0, 1, 5]"
    using wit_frag_ok by simp_all
  have "concat (map wire_packet [[7, 8], [5]]) = [0, 2, 7, 8, 0, 1, 5]" by code_simp
  then show ?thesis
    using fragmented_packets_delivered [OF wit_ctx_ok l f(1), of "[[7, 8], [5]]" "\<lambda>_. 0" "\<lambda>_. 0"] f(2) p by simp
qed

end
