(* ===== verification/Data_Limit.thy ===== *)
theory Data_Limit
  imports Vpn_Prelude
begin

text \<open>
  \<^verbatim>\<open>ssl/datalimit.hpp\<close>: the limits on the data a key may encrypt and decrypt. Each direction
  goes from \<open>None\<close> through \<open>Green\<close> (it has been used) to \<open>Red\<close> (its limit is reached); the object
  tells its caller about a transition at most once, and tells of the encrypt limit only when the
  peer is known to use the key.
\<close>

section \<open>State and operations\<close>

datatype dl_mode = Encrypt | Decrypt
datatype dl_state = DL_None | Green | Red

definition dl_num :: "dl_state \<Rightarrow> nat" where
  "dl_num s = (case s of DL_None \<Rightarrow> 0 | Green \<Rightarrow> 1 | Red \<Rightarrow> 2)"

instantiation dl_state :: linorder
begin

definition less_eq_dl_state :: "dl_state \<Rightarrow> dl_state \<Rightarrow> bool" where
  "less_eq_dl_state a b \<longleftrightarrow> dl_num a \<le> dl_num b"

definition less_dl_state :: "dl_state \<Rightarrow> dl_state \<Rightarrow> bool" where
  "less_dl_state a b \<longleftrightarrow> dl_num a < dl_num b"

instance
  by standard (auto simp: less_eq_dl_state_def less_dl_state_def dl_num_def split: dl_state.splits)

end

lemmas dl_order = less_eq_dl_state_def less_dl_state_def dl_num_def

record dl_component =
  dc_red_limit :: u32
  dc_bytes :: u32
  dc_state :: dl_state

definition dc_transition :: "dl_component \<Rightarrow> dl_state \<Rightarrow> dl_state" where
  "dc_transition c s =
     (case s of
        DL_None \<Rightarrow> (if dc_bytes c \<noteq> 0 then Green else DL_None)
      | Green \<Rightarrow> (if dc_red_limit c \<noteq> 0 \<and> dc_bytes c \<ge> dc_red_limit c then Red else DL_None)
      | Red \<Rightarrow> DL_None)"

definition dc_update_state :: "dl_state \<Rightarrow> dl_component \<Rightarrow> dl_state \<times> dl_component" where
  "dc_update_state newstate c =
     (if newstate > dc_state c then (newstate, c\<lparr>dc_state := newstate\<rparr>) else (DL_None, c))"

definition dc_add :: "u32 \<Rightarrow> dl_component \<Rightarrow> dl_state \<times> dl_component" where
  "dc_add n c =
     (let c = c\<lparr>dc_bytes := dc_bytes c + n\<rparr> in dc_update_state (dc_transition c (dc_state c)) c)"

record data_limit =
  dl_encrypt :: dl_component
  dl_decrypt :: dl_component
  dl_flags :: u32

definition dl_init :: "u32 \<Rightarrow> u32 \<Rightarrow> data_limit" where
  "dl_init encrypt_red_limit decrypt_red_limit =
     \<lparr>dl_encrypt = \<lparr>dc_red_limit = encrypt_red_limit, dc_bytes = 0, dc_state = DL_None\<rparr>,
      dl_decrypt = \<lparr>dc_red_limit = decrypt_red_limit, dc_bytes = 0, dc_state = DL_None\<rparr>,
      dl_flags = 0\<rparr>"

definition dl_component_of :: "dl_mode \<Rightarrow> data_limit \<Rightarrow> dl_component" where
  "dl_component_of m d = (case m of Encrypt \<Rightarrow> dl_encrypt d | Decrypt \<Rightarrow> dl_decrypt d)"

definition dl_set_component :: "dl_mode \<Rightarrow> dl_component \<Rightarrow> data_limit \<Rightarrow> data_limit" where
  "dl_set_component m c d =
     (case m of Encrypt \<Rightarrow> d\<lparr>dl_encrypt := c\<rparr> | Decrypt \<Rightarrow> d\<lparr>dl_decrypt := c\<rparr>)"

abbreviation (input) ER :: u32 where "ER \<equiv> 2"
abbreviation (input) DG :: u32 where "DG \<equiv> 4"

definition dl_mask :: "dl_mode \<Rightarrow> dl_state \<Rightarrow> u32" where
  "dl_mask mode state =
     push_bit ((dl_num state - 1) + (case mode of Encrypt \<Rightarrow> 0 | Decrypt \<Rightarrow> 2)) 1"

definition elgible :: "dl_mode \<Rightarrow> dl_state \<Rightarrow> data_limit \<Rightarrow> dl_state \<times> data_limit" where
  "elgible mode state d =
     (if state > DL_None
      then (let msk = dl_mask mode state
            in if dl_flags d AND msk = 0
               then (let d = d\<lparr>dl_flags := dl_flags d OR msk\<rparr>
                     in if msk AND (ER OR DG) \<noteq> 0 \<and> dl_flags d AND (ER OR DG) = ER OR DG then (Red, d)
                        else if msk AND ER \<noteq> 0 then (DL_None, d)
                        else (state, d))
               else (DL_None, d))
      else (DL_None, d))"

definition dl_update_state :: "dl_mode \<Rightarrow> dl_state \<Rightarrow> data_limit \<Rightarrow> dl_state \<times> data_limit" where
  "dl_update_state mode newstate d =
     (let (s, c) = dc_update_state newstate (dl_component_of mode d)
      in elgible mode s (dl_set_component mode c d))"

definition dl_add :: "dl_mode \<Rightarrow> u32 \<Rightarrow> data_limit \<Rightarrow> dl_state \<times> data_limit" where
  "dl_add mode n d =
     (let (s, c) = dc_add n (dl_component_of mode d)
      in elgible mode s (dl_set_component mode c d))"

definition is_decrypt_green :: "data_limit \<Rightarrow> bool" where
  "is_decrypt_green d \<longleftrightarrow> dc_state (dl_decrypt d) \<ge> Green"

definition mode_str :: "dl_mode \<Rightarrow> string" where
  "mode_str m = (case m of Encrypt \<Rightarrow> ''Encrypt'' | Decrypt \<Rightarrow> ''Decrypt'')"

definition state_str :: "dl_state \<Rightarrow> string" where
  "state_str s = (case s of DL_None \<Rightarrow> ''None'' | Green \<Rightarrow> ''Green'' | Red \<Rightarrow> ''Red'')"


section \<open>Runs\<close>

text \<open>The calls of \<open>add\<close> over the life of a key, and what they return.\<close>

fun dl_run :: "(dl_mode \<times> u32) list \<Rightarrow> data_limit \<Rightarrow> dl_state list \<times> data_limit" where
  "dl_run [] d = ([], d)"
| "dl_run (x # xs) d =
     (let (s, d1) = dl_add (fst x) (snd x) d; (ss, d2) = dl_run xs d1 in (s # ss, d2))"

text \<open>The flag bits record which transitions have happened.\<close>

definition dl_inv :: "data_limit \<Rightarrow> bool" where
  "dl_inv d \<longleftrightarrow> dl_flags d =
     (if dc_state (dl_encrypt d) \<ge> Green then 1 else 0) OR (if dc_state (dl_encrypt d) = Red then 2 else 0)
     OR (if dc_state (dl_decrypt d) \<ge> Green then 4 else 0) OR (if dc_state (dl_decrypt d) = Red then 8 else 0)"

text \<open>Renegotiation is due: the decrypt limit is reached, or the encrypt limit on a key in use.\<close>

definition dl_due :: "data_limit \<Rightarrow> bool" where
  "dl_due d \<longleftrightarrow> dc_state (dl_decrypt d) = Red
     \<or> dc_state (dl_encrypt d) = Red \<and> dc_state (dl_decrypt d) \<ge> Green"

lemma dc_add_cases:
  "(dc_add n c = (DL_None, c\<lparr>dc_bytes := dc_bytes c + n\<rparr>))
   \<or> dc_state c = DL_None \<and> dc_add n c = (Green, c\<lparr>dc_bytes := dc_bytes c + n, dc_state := Green\<rparr>)
   \<or> dc_state c = Green \<and> dc_add n c = (Red, c\<lparr>dc_bytes := dc_bytes c + n, dc_state := Red\<rparr>)"
  by (auto simp: dc_add_def dc_update_state_def dc_transition_def dl_order Let_def split: dl_state.splits)

lemma dl_mask_vals:
  "dl_mask Encrypt Green = 1" "dl_mask Encrypt Red = 2" "dl_mask Decrypt Green = 4" "dl_mask Decrypt Red = 8"
  by (simp_all add: dl_mask_def dl_num_def)

lemma dl_state_order [simp]:
  "(Green \<le> s) = (s \<noteq> DL_None)" "(DL_None < s) = (s \<noteq> DL_None)"
  by (cases s; simp add: dl_order)+

lemma dl_add_step:
  assumes "dl_inv d" "dl_add m n d = (s, d')"
  shows "dl_inv d' \<and> (dl_due d \<longrightarrow> dl_due d') \<and> (s = Red \<longrightarrow> dl_due d') \<and> (dl_due d' \<and> \<not> dl_due d \<longrightarrow> s = Red)
    \<and> (s = Red \<and> m = Encrypt \<longrightarrow> is_decrypt_green d)"
proof -
  obtain e f fl where d: "d = \<lparr>dl_encrypt = e, dl_decrypt = f, dl_flags = fl\<rparr>" by (cases d) auto
  have fl: "fl = (if dc_state e \<ge> Green then 1 else 0) OR (if dc_state e = Red then 2 else 0)
     OR (if dc_state f \<ge> Green then 4 else 0) OR (if dc_state f = Red then 8 else 0)"
    using assms(1) by (simp add: dl_inv_def d)
  show ?thesis
  proof (cases m)
    case Encrypt
    then show ?thesis
      using assms(2) dc_add_cases [of n e]
      by (cases "dc_state e"; cases "dc_state f")
         (auto simp: d fl dl_add_def dl_component_of_def dl_set_component_def elgible_def dl_mask_vals
            dl_inv_def dl_due_def is_decrypt_green_def Let_def)
  next
    case Decrypt
    then show ?thesis
      using assms(2) dc_add_cases [of n f]
      by (cases "dc_state e"; cases "dc_state f")
         (auto simp: d fl dl_add_def dl_component_of_def dl_set_component_def elgible_def dl_mask_vals
            dl_inv_def dl_due_def is_decrypt_green_def Let_def)
  qed
qed

lemma dl_inv_init: "dl_inv (dl_init a b)" "\<not> dl_due (dl_init a b)"
  by (simp_all add: dl_inv_def dl_due_def dl_init_def dl_order)

lemma dl_run_step:
  "dl_inv d \<Longrightarrow> dl_run xs d = (ss, d') \<Longrightarrow>
   dl_inv d' \<and> (dl_due d \<longrightarrow> dl_due d') \<and> (Red \<in> set ss \<longrightarrow> dl_due d') \<and> (dl_due d' \<and> \<not> dl_due d \<longrightarrow> Red \<in> set ss)"
proof (induction xs arbitrary: d ss)
  case (Cons x xs)
  obtain s d1 where s: "dl_add (fst x) (snd x) d = (s, d1)" by fastforce
  obtain ss2 d2 where r: "dl_run xs d1 = (ss2, d2)" by fastforce
  from Cons.prems s r have e: "ss = s # ss2" "d' = d2" by auto
  from dl_add_step [OF Cons.prems(1) s] Cons.IH [of d1] r e show ?case by auto
qed auto


section \<open>The limit itself\<close>

fun dc_run :: "u32 list \<Rightarrow> dl_component \<Rightarrow> dl_component" where
  "dc_run [] c = c"
| "dc_run (n # ns) c = dc_run ns (snd (dc_add n c))"

lemma dc_add_bytes: "dc_bytes (snd (dc_add n c)) = dc_bytes c + n" "dc_red_limit (snd (dc_add n c)) = dc_red_limit c"
  using dc_add_cases [of n c] by auto

lemma dc_run_bytes:
  "unat (dc_bytes c) + sum_list (map unat ns) < 4294967296 \<Longrightarrow>
   unat (dc_bytes (dc_run ns c)) = unat (dc_bytes c) + sum_list (map unat ns) \<and> dc_red_limit (dc_run ns c) = dc_red_limit c"
proof (induction ns arbitrary: c)
  case (Cons n ns)
  have "unat (dc_bytes (snd (dc_add n c))) = unat (dc_bytes c) + unat n"
    using Cons.prems by (simp add: dc_add_bytes unat_plus_if')
  then show ?case using Cons.IH [of "snd (dc_add n c)"] Cons.prems by (simp add: dc_add_bytes)
qed simp

lemma dc_run_append: "dc_run (xs @ ys) c = dc_run ys (dc_run xs c)"
  by (induction xs arbitrary: c) auto

lemma dc_used_green:
  "dc_state c \<ge> Green \<or> dc_bytes c = 0 \<Longrightarrow>
   (let c' = snd (dc_add n c) in dc_state c' \<ge> Green \<or> dc_bytes c' = 0)"
  by (auto simp: dc_add_def dc_update_state_def dc_transition_def dl_order Let_def split: dl_state.splits)

lemma dc_run_used:
  "dc_state c \<ge> Green \<or> dc_bytes c = 0 \<Longrightarrow> dc_state (dc_run ns c) \<ge> Green \<or> dc_bytes (dc_run ns c) = 0"
  by (induction ns arbitrary: c) (use dc_used_green in \<open>auto simp: Let_def\<close>)

lemma dc_add_reaches:
  assumes "dc_state c \<ge> Green" "dc_red_limit c \<noteq> 0" "dc_bytes c + n \<ge> dc_red_limit c"
  shows "dc_state (snd (dc_add n c)) = Red"
  using assms by (cases "dc_state c") (auto simp: dc_add_def dc_update_state_def dc_transition_def dl_order Let_def)


section \<open>Properties\<close>

text \<open>
  The caller is told to renegotiate exactly when it is due: over the life of a key, some call
  of \<open>add\<close> has returned \<open>Red\<close> if and only if the decrypt limit has been reached, or the encrypt
  limit has been reached and the peer has used the key. In particular the encrypt limit is never
  lost, whichever of the two events comes last.
\<close>

lemma data_limit_signalled:
  "Red \<in> set (fst (dl_run xs (dl_init el rl))) \<longleftrightarrow> dl_due (snd (dl_run xs (dl_init el rl)))"
proof -
  obtain ss d where "dl_run xs (dl_init el rl) = (ss, d)" by fastforce
  with dl_run_step [OF dl_inv_init(1) this] dl_inv_init(2) show ?thesis by auto
qed

text \<open>
  A limit is enforced one packet late at most: once the bytes added to a direction reach its
  limit, the next call of \<open>add\<close> finds the direction in the state \<open>Red\<close>, as long as the count does
  not pass 32 bits.
\<close>

lemma data_limit_enforced:
  assumes "limit \<noteq> 0" "unat limit \<le> sum_list (map unat ns)" "sum_list (map unat (ns @ [n])) < 4294967296"
  shows "dc_state (dc_run (ns @ [n]) \<lparr>dc_red_limit = limit, dc_bytes = 0, dc_state = DL_None\<rparr>) = Red"
proof -
  let ?i = "\<lparr>dc_red_limit = limit, dc_bytes = 0, dc_state = DL_None\<rparr>"
  let ?c = "dc_run ns ?i"
  have b: "unat (dc_bytes ?c) = sum_list (map unat ns)" "dc_red_limit ?c = limit"
    using dc_run_bytes [of ?i ns] assms(3) by auto
  have pos: "unat limit > 0" using assms(1) by (simp add: unat_gt_0)
  have "dc_bytes ?c \<noteq> 0"
  proof
    assume "dc_bytes ?c = 0"
    then have "sum_list (map unat ns) = 0" using b(1) by (simp only: unat_0)
    with pos assms(2) show False by linarith
  qed
  then have "dc_state ?c \<ge> Green" using dc_run_used [of ?i ns] by simp
  moreover have "unat (dc_bytes ?c + n) = sum_list (map unat ns) + unat n"
    using b(1) assms(3) by (simp add: unat_plus_if')
  then have "dc_bytes ?c + n \<ge> dc_red_limit ?c" using b(2) assms(2) by (simp add: word_le_nat_alt)
  ultimately show ?thesis using dc_add_reaches [of ?c n] assms(1) b(2) by (simp add: dc_run_append)
qed

lemma data_limit_enforced_at:
  "dc_state (dc_run ([1500] @ [1]) \<lparr>dc_red_limit = 1000, dc_bytes = 0, dc_state = DL_None\<rparr>) = Red"
  by (rule data_limit_enforced) simp_all

end
