(* ===== verification/Text_Codecs.thy ===== *)
theory Text_Codecs
  imports Vpn_Prelude
begin

text \<open>
  Text forms of binary data: \<^verbatim>\<open>common/hexstr.hpp\<close>, \<^verbatim>\<open>common/number.hpp\<close> and \<^verbatim>\<open>common/base64.hpp\<close>.
  A \<open>std::string\<close> is a list of characters; a C string ends at its first NUL character or at the
  end of the list. A template parameter \<open>T\<close> that is an unsigned integer type is a word type.
\<close>

section \<open>Hexadecimal\<close>

definition render_hex_char :: "int \<Rightarrow> bool \<Rightarrow> char" where
  "render_hex_char c caps =
     (if c < 10 then char_of (48 + c)
      else if c < 16 then char_of ((if caps then 65 else 97) - 10 + c)
      else CHR ''?'')"

definition parse_hex_char :: "char \<Rightarrow> int" where
  "parse_hex_char ch =
     (let c = of_char ch :: int
      in if 48 \<le> c \<and> c \<le> 57 then c - 48
         else if 97 \<le> c \<and> c \<le> 102 then c - 97 + 10
         else if 65 \<le> c \<and> c \<le> 70 then c - 65 + 10
         else - 1)"

definition render_hex_byte :: "byte \<Rightarrow> bool \<Rightarrow> string" where
  "render_hex_byte b caps =
     [render_hex_char (uint (drop_bit 4 b)) caps, render_hex_char (uint (b AND 0x0F)) caps]"

text \<open>A null pointer is \<open>None\<close>.\<close>

definition render_hex :: "byte list option \<Rightarrow> bool \<Rightarrow> string" where
  "render_hex data caps =
     (case data of None \<Rightarrow> ''NULL'' | Some bs \<Rightarrow> concat (map (\<lambda>b. render_hex_byte b caps) bs))"

fun render_hex_sep_loop :: "bool \<Rightarrow> char \<Rightarrow> bool \<Rightarrow> byte list \<Rightarrow> string" where
  "render_hex_sep_loop prsep sep caps [] = []"
| "render_hex_sep_loop prsep sep caps (b # bs) =
     (if prsep then [sep] else []) @ render_hex_byte b caps @ render_hex_sep_loop True sep caps bs"

definition render_hex_sep :: "byte list option \<Rightarrow> char \<Rightarrow> bool \<Rightarrow> string" where
  "render_hex_sep data sep caps =
     (case data of None \<Rightarrow> ''NULL'' | Some bs \<Rightarrow> render_hex_sep_loop False sep caps bs)"

definition render_hex_generic :: "byte list \<Rightarrow> bool \<Rightarrow> string" where
  "render_hex_generic data caps = concat (map (\<lambda>b. render_hex_byte b caps) data)"

text \<open>What has been pushed to \<open>dest\<close> when \<open>parse_hex\<close> throws stays there.\<close>

fun parse_hex :: "byte list \<Rightarrow> string \<Rightarrow> unit res \<times> byte list" where
  "parse_hex dest [] = (Inr (), dest)"
| "parse_hex dest [c] = (Inl Parse_hex_error, dest)"
| "parse_hex dest (c1 # c2 # cs) =
     (let high = parse_hex_char c1; low = parse_hex_char c2
      in if high = - 1 \<or> low = - 1 then (Inl Parse_hex_error, dest)
         else parse_hex (dest @ [word_of_int (push_bit 4 high + low)]) cs)"

fun parse_hex_number_loop :: "'a::len word \<Rightarrow> string \<Rightarrow> 'a word option" where
  "parse_hex_number_loop ret [] = Some ret"
| "parse_hex_number_loop ret (c # cs) =
     (let hd = parse_hex_char c
      in if hd \<ge> 0 then parse_hex_number_loop (ret * 16 + word_of_int hd) cs
         else if c = CHR 0x00 then Some ret
         else None)"

definition parse_hex_number :: "string \<Rightarrow> 'a::len word option" where
  "parse_hex_number str =
     (if str = [] \<or> hd str = CHR 0x00 then None else parse_hex_number_loop 0 str)"

definition parse_hex_number_throw :: "string \<Rightarrow> 'a::len word res" where
  "parse_hex_number_throw str =
     (case parse_hex_number str of None \<Rightarrow> Inl Parse_hex_error | Some r \<Rightarrow> Inr r)"

text \<open>The bytes of the value, highest first: the loop fills the array from its end.\<close>

fun value_bytes :: "nat \<Rightarrow> 'a::len word \<Rightarrow> byte list \<Rightarrow> byte list" where
  "value_bytes 0 v acc = acc"
| "value_bytes (Suc n) v acc = value_bytes n (drop_bit 8 v) (ucast (v AND 0xFF) # acc)"

definition render_hex_number :: "bool \<Rightarrow> 'a::len word \<Rightarrow> string" where
  "render_hex_number caps v = render_hex (Some (value_bytes (LENGTH('a) div 8) v [])) caps"


section \<open>Decimal numbers\<close>

fun parse_number_loop :: "bool \<Rightarrow> 'a::len word \<Rightarrow> string \<Rightarrow> 'a word option" where
  "parse_number_loop nondigit_term ret [] = Some ret"
| "parse_number_loop nondigit_term ret (c # cs) =
     (let n = of_char c :: nat
      in if 48 \<le> n \<and> n \<le> 57 then parse_number_loop nondigit_term (ret * 10 + of_nat (n - 48)) cs
         else if c = CHR 0x00 \<or> nondigit_term then Some ret
         else None)"

text \<open>\<open>parse_number<T>\<close> for an unsigned \<open>T\<close>.\<close>

definition parse_number :: "bool \<Rightarrow> string \<Rightarrow> 'a::len word option" where
  "parse_number nondigit_term str =
     (if str = [] \<or> hd str = CHR 0x00 then None else parse_number_loop nondigit_term 0 str)"

definition parse_number_throw :: "string \<Rightarrow> string \<Rightarrow> 'a::len word res" where
  "parse_number_throw str error =
     (case parse_number False str of None \<Rightarrow> Inl (Number_parse_exception error) | Some r \<Rightarrow> Inr r)"

definition parse_number_validate ::
  "string \<Rightarrow> nat \<Rightarrow> 'a::len word \<Rightarrow> 'a word \<Rightarrow> 'a word option" where
  "parse_number_validate numstr max_len minimum maximum =
     (if length numstr \<le> max_len
      then (case parse_number False numstr of
              None \<Rightarrow> None
            | Some v \<Rightarrow> (if v \<ge> minimum \<and> v \<le> maximum then Some v else None))
      else None)"

fun is_number_loop :: "bool \<Rightarrow> string \<Rightarrow> bool" where
  "is_number_loop found_digit [] = found_digit"
| "is_number_loop found_digit (c # cs) =
     (if c = CHR 0x00 then found_digit
      else if 48 \<le> (of_char c :: nat) \<and> (of_char c :: nat) \<le> 57 then is_number_loop True cs
      else False)"

definition is_number :: "string \<Rightarrow> bool" where
  "is_number str = is_number_loop False str"


section \<open>Base64\<close>

record base64 =
  b64_enc :: "byte list"
  b64_dec :: "byte list"
  b64_equal :: byte

text \<open>The loop that fills \<open>enc[0 .. 61]\<close>.\<close>

fun b64_alphabet :: "nat \<Rightarrow> nat \<Rightarrow> byte list" where
  "b64_alphabet 0 j = []"
| "b64_alphabet (Suc n) j =
     of_nat j # b64_alphabet n (let j = j + 1 in if j = 91 then 97 else if j = 123 then 48 else j)"

fun b64_fill_dec :: "nat \<Rightarrow> byte list \<Rightarrow> byte list \<Rightarrow> byte list res" where
  "b64_fill_dec i [] dec = Inr dec"
| "b64_fill_dec i (c # cs) dec =
     (if c \<ge> 128 then Inl Base64_bad_map
      else b64_fill_dec (Suc i) cs (dec[unat c := of_nat i]))"

definition b64_make :: "byte list option \<Rightarrow> base64 res" where
  "b64_make altmap =
     (let altmap = (case altmap of None \<Rightarrow> [43, 47, 61] | Some m \<Rightarrow> m)
      in if length altmap \<noteq> 3 then Inl Base64_bad_map
         else (let enc = b64_alphabet 62 65 @ [altmap ! 0, altmap ! 1]
               in bindE (b64_fill_dec 0 enc (replicate 128 0xFF))
                    (\<lambda>dec. Inr \<lparr>b64_enc = enc, b64_dec = dec, b64_equal = altmap ! 2\<rparr>)))"

definition encode_size_max :: "nat \<Rightarrow> nat" where
  "encode_size_max decode_size = decode_size * 4 div 3 + 4"

definition b64_token :: "base64 \<Rightarrow> u32 \<Rightarrow> byte list" where
  "b64_token B c =
     [b64_enc B ! unat (drop_bit 18 (c AND 0x00fc0000)), b64_enc B ! unat (drop_bit 12 (c AND 0x0003f000)),
      b64_enc B ! unat (drop_bit 6 (c AND 0x00000fc0)), b64_enc B ! unat (c AND 0x0000003f)]"

text \<open>One round of the loop for three, two or one bytes that are left.\<close>

fun b64_encode :: "base64 \<Rightarrow> byte list \<Rightarrow> byte list" where
  "b64_encode B [] = []"
| "b64_encode B [x] =
     (b64_token B (push_bit 8 (push_bit 8 (ucast x))))[3 := b64_equal B, 2 := b64_equal B]"
| "b64_encode B [x, y] =
     (b64_token B (push_bit 8 (push_bit 8 (ucast x) + ucast y)))[3 := b64_equal B]"
| "b64_encode B (x # y # z # xs) =
     b64_token B (push_bit 8 (push_bit 8 (ucast x) + ucast y) + ucast z) @ b64_encode B xs"

definition decode_base64_char :: "base64 \<Rightarrow> byte \<Rightarrow> u32 res" where
  "decode_base64_char B c =
     (if c \<ge> 128 then Inl Base64_decode_error
      else (let v = b64_dec B ! unat c in if v = 0xFF then Inl Base64_decode_error else Inr (ucast v)))"

text \<open>The loop over the four characters of a token: \<open>val\<close> and the number of equal signs seen.\<close>

fun token_loop :: "base64 \<Rightarrow> byte list \<Rightarrow> u32 \<Rightarrow> nat \<Rightarrow> (u32 \<times> nat) res" where
  "token_loop B [] val marker = Inr (val, marker)"
| "token_loop B (t # ts) val marker =
     (let val = push_bit 6 val
      in if t = b64_equal B then token_loop B ts val (Suc marker)
         else if marker > 0 then Inl Base64_decode_error
         else bindE (decode_base64_char B t) (\<lambda>v. token_loop B ts (val + v) marker))"

definition token_decode :: "base64 \<Rightarrow> byte list \<Rightarrow> (u32 \<times> nat) res" where
  "token_decode B token =
     (if length token < 4 then Inl Base64_decode_error
      else bindE (token_loop B (take 4 token) 0 0) (\<lambda>(val, marker).
             if marker > 2 then Inl Base64_decode_error else Inr (val, marker)))"

definition token_bytes :: "u32 \<times> nat \<Rightarrow> byte list" where
  "token_bytes vm =
     ucast (drop_bit 16 (fst vm) AND 0xff)
     # (if snd vm < 2 then [ucast (drop_bit 8 (fst vm) AND 0xff)] else [])
     @ (if snd vm < 1 then [ucast (fst vm AND 0xff)] else [])"

text \<open>\<open>decode\<close> pushes the bytes of one token after the other; an exception ends it.\<close>

function b64_decode :: "base64 \<Rightarrow> byte list \<Rightarrow> byte list res" where
  "b64_decode B str =
     (if str = [] then Inr []
      else (case token_decode B (take 4 str) of
              Inl e \<Rightarrow> Inl e
            | Inr vm \<Rightarrow> (case b64_decode B (drop 4 str) of
                           Inl e \<Rightarrow> Inl e
                         | Inr rest \<Rightarrow> Inr (token_bytes vm @ rest))))"
  by pat_completeness auto

termination
  by (relation "measure (\<lambda>(_, s). length s)") auto

declare b64_decode.simps [simp del]

definition is_base64_char :: "base64 \<Rightarrow> byte \<Rightarrow> bool" where
  "is_base64_char B c \<longleftrightarrow> c < 128 \<and> b64_dec B ! unat c \<noteq> 0xFF"

definition encoded_len :: "nat \<Rightarrow> nat" where
  "encoded_len decoded_len = (decoded_len * 4 div 3 + 3) div 4 * 4"

definition num_eq :: "nat \<Rightarrow> nat" where
  "num_eq decoded_len = (size_t_limit - 1 - decoded_len) mod 3"

definition is_base64 :: "base64 \<Rightarrow> byte list \<Rightarrow> nat \<Rightarrow> bool" where
  "is_base64 B data expected_decoded_length \<longleftrightarrow>
     (if length data \<noteq> encoded_len expected_decoded_length then False
      else (let eq_begin = length data - num_eq expected_decoded_length
            in list_all (\<lambda>i. if i < eq_begin then is_base64_char B (data ! i) else data ! i = b64_equal B)
                 [0..<length data]))"

section \<open>Hexadecimal round trips\<close>

lemma hex_digit_roundtrip:
  assumes "0 \<le> c" "c < 16"
  shows "parse_hex_char (render_hex_char c caps) = c"
proof -
  have "\<forall>c \<in> set [0..15]. \<forall>caps. parse_hex_char (render_hex_char c caps) = c"
    by code_simp
  then show ?thesis using assms by simp
qed

lemma byte_nibbles:
  "uint (drop_bit 4 (b :: byte)) = uint b div 16" "uint (b AND 0x0F) = uint b mod 16"
proof -
  show "uint (drop_bit 4 b) = uint b div 16" by (simp add: drop_bit_eq_div uint_div)
  have "b AND 0x0F = take_bit 4 b" by (simp add: take_bit_eq_mask mask_eq_exp_minus_1)
  then show "uint (b AND 0x0F) = uint b mod 16" by (simp add: take_bit_eq_mod uint_mod)
qed

lemma nibble_range:
  "0 \<le> uint (b :: byte) div 16" "uint b div 16 < 16" "0 \<le> uint b mod 16" "uint b mod 16 < 16"
  using uint_byte_range [of b] by presburger+

lemma render_hex_byte_parse:
  "render_hex_byte b caps = [c1, c2] \<Longrightarrow>
   parse_hex_char c1 = uint b div 16 \<and> parse_hex_char c2 = uint b mod 16"
proof -
  assume a: "render_hex_byte b caps = [c1, c2]"
  show ?thesis
    using a nibble_range [of b] hex_digit_roundtrip [of "uint b div 16" caps] hex_digit_roundtrip [of "uint b mod 16" caps]
    by (auto simp: render_hex_byte_def byte_nibbles)
qed

lemma render_hex_byte_two: "\<exists>c1 c2. render_hex_byte b caps = [c1, c2]"
  by (simp add: render_hex_byte_def)

lemma parse_hex_render:
  "parse_hex dest (concat (map (\<lambda>b. render_hex_byte b caps) bs)) = (Inr (), dest @ bs)"
proof (induction bs arbitrary: dest)
  case (Cons b bs)
  obtain c1 c2 where r: "render_hex_byte b caps = [c1, c2]" using render_hex_byte_two by blast
  note p = render_hex_byte_parse [OF r]
  have nz: "uint b div 16 \<noteq> - 1" "uint b mod 16 \<noteq> - 1" using nibble_range [of b] by linarith+
  have "push_bit 4 (uint b div 16) + uint b mod 16 = uint b" by (simp add: push_bit_eq_mult)
  then have "word_of_int (push_bit 4 (uint b div 16) + uint b mod 16) = b" by simp
  then show ?case using Cons.IH [of "dest @ [b]"] nz p by (simp add: r Let_def)
qed simp

lemma hex_loop_render:
  "parse_hex_number_loop r (concat (map (\<lambda>b. render_hex_byte b caps) bs) @ s)
     = parse_hex_number_loop (fold (\<lambda>b r. r * 256 + ucast b) bs r) s"
proof (induction bs arbitrary: r)
  case (Cons b bs)
  obtain c1 c2 where h: "render_hex_byte b caps = [c1, c2]" using render_hex_byte_two by blast
  note p = render_hex_byte_parse [OF h]
  have nn: "0 \<le> uint b div 16" "0 \<le> uint b mod 16"
    by (rule nibble_range)+
  have "uint b div 16 * 16 + uint b mod 16 = uint b" by simp
  then have "(word_of_int (uint b div 16) * 16 + word_of_int (uint b mod 16) :: 'a word) = word_of_int (uint b)"
    by (metis of_int_add of_int_mult of_int_numeral)
  moreover have "(r * 16 + x) * 16 + y = r * 256 + (x * 16 + y)" for x y :: "'a word"
    by (simp add: distrib_right mult.assoc)
  ultimately have "(r * 16 + word_of_int (uint b div 16)) * 16 + word_of_int (uint b mod 16) = r * 256 + (ucast b :: 'a word)"
    by (simp only: ucast_eq)
  moreover have "parse_hex_number_loop r (c1 # c2 # cs)
      = parse_hex_number_loop ((r * 16 + word_of_int (uint b div 16)) * 16 + word_of_int (uint b mod 16)) cs" for cs
    using p nn by (simp add: Let_def)
  ultimately have "parse_hex_number_loop r (c1 # c2 # cs) = parse_hex_number_loop (r * 256 + ucast b) cs" for cs
    by (simp only:)
  then show ?case using Cons.IH by (simp add: h del: parse_hex_number_loop.simps)
qed simp

lemma length_value_bytes [simp]: "length (value_bytes n v acc) = n + length acc"
  by (induction n arbitrary: v acc) simp_all

lemma value_bytes_acc: "value_bytes n v acc = value_bytes n v [] @ acc"
proof (induction n arbitrary: v acc)
  case (Suc n)
  let ?x = "ucast (v AND 0xFF)"
  have "value_bytes (Suc n) v acc = value_bytes n (drop_bit 8 v) (?x # acc)" by simp
  also have "\<dots> = value_bytes n (drop_bit 8 v) [] @ (?x # acc)" by (rule Suc)
  finally have 1: "value_bytes (Suc n) v acc = value_bytes n (drop_bit 8 v) [] @ (?x # acc)" .
  have "value_bytes (Suc n) v [] = value_bytes n (drop_bit 8 v) [?x]" by simp
  also have "\<dots> = value_bytes n (drop_bit 8 v) [] @ [?x]" by (rule Suc)
  finally show ?case by (simp only: 1 append_assoc append_Cons append_Nil)
qed simp

lemma value_bytes_fold:
  fixes v :: "'a::len word"
  assumes "8 \<le> LENGTH('a)"
  shows "fold (\<lambda>b r. r * 256 + ucast b) (value_bytes n v []) r = r * 256 ^ n + take_bit (8 * n) v"
proof (induction n arbitrary: v)
  case (Suc n)
  have low: "(ucast (ucast (v AND 0xFF) :: byte) :: 'a word) = take_bit 8 v"
  proof -
    have "v AND 0xFF = take_bit 8 v" by (simp add: take_bit_eq_mask mask_eq_exp_minus_1)
    moreover have "(ucast (ucast (take_bit 8 v) :: byte) :: 'a word) = take_bit 8 v"
      by (rule bit_word_eqI) (auto simp: bit_simps)
    ultimately show ?thesis by simp
  qed
  let ?t = "take_bit (8 * Suc n) v"
  have "?t = push_bit 8 (drop_bit 8 ?t) + take_bit 8 ?t" by (rule bits_ident [symmetric])
  also have "drop_bit 8 ?t = take_bit (8 * n) (drop_bit 8 v)" by (simp add: drop_bit_take_bit)
  also have "take_bit 8 ?t = take_bit 8 v" by simp
  finally have "?t = take_bit (8 * n) (drop_bit 8 v) * 256 + take_bit 8 v" by (simp add: push_bit_eq_mult)
  moreover have "value_bytes (Suc n) v [] = value_bytes n (drop_bit 8 v) [] @ [ucast (v AND 0xFF)]"
    unfolding value_bytes.simps by (rule value_bytes_acc)
  ultimately show ?case using Suc [of "drop_bit 8 v"] low by (simp add: algebra_simps)
qed simp

lemma parse_render_hex_number:
  fixes v :: "'a::len word"
  assumes "LENGTH('a) = 8 * n" "0 < n"
  shows "parse_hex_number (render_hex_number caps v) = Some v"
proof -
  let ?bs = "value_bytes n v []"
  have r: "render_hex_number caps v = concat (map (\<lambda>b. render_hex_byte b caps) ?bs) @ []"
    using assms by (simp add: render_hex_number_def render_hex_def)
  have "parse_hex_number_loop 0 (render_hex_number caps v) = Some (fold (\<lambda>b r. r * 256 + ucast b) ?bs 0)"
    unfolding r hex_loop_render by simp
  also have "\<dots> = Some v" using value_bytes_fold [of n v 0] assms by (simp add: take_bit_word_eq_self)
  finally have loop: "parse_hex_number_loop 0 (render_hex_number caps v) = Some v" .
  obtain b bs where bs: "?bs = b # bs" using assms(2) by (metis length_greater_0_conv length_value_bytes list.exhaust list.size(3) add_gr_0)
  obtain c1 c2 where h: "render_hex_byte b caps = [c1, c2]" using render_hex_byte_two by blast
  have "parse_hex_char c1 = uint b div 16" using render_hex_byte_parse [OF h] by simp
  then have "parse_hex_char c1 \<ge> 0" using nibble_range(1) [of b] by simp
  then have "c1 \<noteq> CHR 0x00" by (auto simp: parse_hex_char_def)
  then have "render_hex_number caps v \<noteq> [] \<and> hd (render_hex_number caps v) \<noteq> CHR 0x00"
    by (simp add: r bs h)
  then show ?thesis using loop by (simp add: parse_hex_number_def)
qed


section \<open>Decimal numbers\<close>

definition is_digit_char :: "char \<Rightarrow> bool" where
  "is_digit_char c \<longleftrightarrow> 48 \<le> (of_char c :: nat) \<and> (of_char c :: nat) \<le> 57"

definition digit_val :: "char \<Rightarrow> nat" where
  "digit_val c = of_char c - 48"

definition dec_value :: "string \<Rightarrow> nat" where
  "dec_value s = fold (\<lambda>c v. 10 * v + digit_val c) s 0"

lemma parse_number_loop_digits:
  assumes "CHR 0x00 \<notin> set s"
  shows "parse_number_loop False (of_nat v :: 'a::len word) s =
    (if list_all is_digit_char s then Some (of_nat (fold (\<lambda>c v. 10 * v + digit_val c) s v)) else None)"
  using assms
proof (induction s arbitrary: v)
  case (Cons c s)
  have "(of_nat v * 10 + of_nat (of_char c - 48) :: 'a word) = of_nat (10 * v + digit_val c)"
    by (simp add: digit_val_def)
  then show ?case using Cons.IH [of "10 * v + digit_val c"] Cons.prems
    by (auto simp: is_digit_char_def Let_def simp del: of_nat_add of_nat_mult of_nat_diff)
qed simp

lemma dec_fold_bound:
  "list_all is_digit_char s \<Longrightarrow> fold (\<lambda>c v. 10 * v + digit_val c) s v < (v + 1) * 10 ^ length s"
proof (induction s arbitrary: v)
  case (Cons c s)
  let ?w = "10 * v + digit_val c"
  have "digit_val c \<le> 9" using Cons.prems by (auto simp: is_digit_char_def digit_val_def simp del: of_nat_diff)
  then have "?w + 1 \<le> 10 * (v + 1)" by simp
  then have "(?w + 1) * 10 ^ length s \<le> 10 * (v + 1) * 10 ^ length s" by (rule mult_right_mono) simp
  moreover have "fold (\<lambda>c v. 10 * v + digit_val c) s ?w < (?w + 1) * 10 ^ length s"
    using Cons.IH [of ?w] Cons.prems by simp
  ultimately have "fold (\<lambda>c v. 10 * v + digit_val c) s ?w < 10 * (v + 1) * 10 ^ length s" by linarith
  then show ?case by (simp add: algebra_simps)
qed simp

lemma dec_value_bound: "list_all is_digit_char s \<Longrightarrow> dec_value s < 10 ^ length s"
  using dec_fold_bound [of s 0] by (simp add: dec_value_def)

lemma parse_number_digits:
  assumes "CHR 0x00 \<notin> set s"
  shows "(parse_number False s :: 'a::len word option) = (if s \<noteq> [] \<and> list_all is_digit_char s then Some (of_nat (dec_value s)) else None)"
proof (cases "s = []")
  case False
  then have "hd s \<noteq> CHR 0x00" using assms by (metis list.set_sel(1))
  then show ?thesis using parse_number_loop_digits [of s, OF assms, where v = 0 and ?'a = 'a] False
    by (simp add: parse_number_def dec_value_def)
qed (simp add: parse_number_def)



section \<open>Base64 round trips\<close>

text \<open>
  What decoding relies on: the decoding map undoes the encoding map, and the padding character is
  not one of the alphabet.
\<close>

locale base64_maps =
  fixes B :: base64
  assumes enc_length: "length (b64_enc B) = 64"
    and dec_enc: "i < 64 \<Longrightarrow> b64_enc B ! i < 128 \<and> b64_dec B ! unat (b64_enc B ! i) = of_nat i"
    and equal_not_enc: "i < 64 \<Longrightarrow> b64_enc B ! i \<noteq> b64_equal B"
begin

lemma decode_enc_char:
  assumes "i < 64"
  shows "decode_base64_char B (b64_enc B ! i) = Inr (of_nat i)"
proof -
  have lt: "unat (of_nat i :: byte) = i" using assms by (simp add: unat_of_nat_byte)
  then have "(of_nat i :: byte) \<noteq> 0xFF" using assms by auto
  moreover have "ucast (of_nat i :: byte) = (of_nat i :: u32)"
    using lt assms by (simp add: word_unat_eq_iff unat_of_nat_u32 unsigned_ucast_eq take_bit_nat_eq_self)
  moreover have "\<not> b64_enc B ! i \<ge> 128" using dec_enc [OF assms] by (simp add: not_le)
  ultimately show ?thesis using dec_enc [OF assms] by (simp add: decode_base64_char_def Let_def)
qed

lemma token_loop_enc:
  assumes "i < 64"
  shows "token_loop B (b64_enc B ! i # ts) (of_nat v) 0 = token_loop B ts (of_nat (v * 64 + i)) 0"
proof -
  have "push_bit 6 (of_nat v :: u32) + of_nat i = of_nat (v * 64 + i)" by (simp add: push_bit_eq_mult)
  then show ?thesis
    using decode_enc_char [OF assms] equal_not_enc [OF assms] by (simp add: Let_def del: of_nat_add of_nat_mult)
qed

end

lemma b64_field:
  assumes "drop_bit k m = (63 :: u32)"
  shows "unat (drop_bit k (w AND m)) = unat w div 2 ^ k mod 64"
proof -
  have "drop_bit k (w AND m) = drop_bit k w AND (2 ^ 6 - 1)" using assms by simp
  then have "unat (drop_bit k (w AND m)) = unat (drop_bit k w) mod 2 ^ 6" using unat_mask [of 6 "drop_bit k w"] by simp
  then show ?thesis by (simp only: unat_drop_bit) simp
qed

lemma b64_token_nat:
  assumes "c < 16777216"
  shows "b64_token B (of_nat c) =
    [b64_enc B ! (c div 262144), b64_enc B ! (c div 4096 mod 64), b64_enc B ! (c div 64 mod 64), b64_enc B ! (c mod 64)]"
proof -
  have c: "unat (of_nat c :: u32) = c" using assms by (simp add: unat_of_nat_u32)
  have "unat (drop_bit 18 ((of_nat c :: u32) AND 0x00fc0000)) = c div 2 ^ 18 mod 64"
    "unat (drop_bit 12 ((of_nat c :: u32) AND 0x0003f000)) = c div 2 ^ 12 mod 64"
    "unat (drop_bit 6 ((of_nat c :: u32) AND 0x00000fc0)) = c div 2 ^ 6 mod 64"
    "unat (drop_bit 0 ((of_nat c :: u32) AND 0x0000003f)) = c div 2 ^ 0 mod 64"
    by (subst b64_field; simp add: c)+
  moreover have "c div 262144 mod 64 = c div 262144" using assms by simp
  ultimately show ?thesis unfolding b64_token_def by simp
qed

lemma b64_group_of_nat:
  "push_bit 8 (push_bit 8 (of_nat x) + of_nat y) + of_nat z = (of_nat (x * 65536 + y * 256 + z) :: u32)"
  by (simp add: push_bit_eq_mult algebra_simps)

lemma b64_group_nat:
  "push_bit 8 (push_bit 8 (ucast (x :: byte)) + ucast (y :: byte)) + ucast (z :: byte)
     = (of_nat (unat x * 65536 + unat y * 256 + unat z) :: u32)"
  using b64_group_of_nat [of "unat x" "unat y" "unat z"] by (simp only: of_nat_unat)

lemma token_bytes_nat:
  assumes "c < 16777216"
  shows "token_bytes (of_nat c, k) =
    of_nat (c div 65536) # (if k < 2 then [of_nat (c div 256 mod 256)] else []) @ (if k < 1 then [of_nat (c mod 256)] else [])"
proof -
  have c: "unat (of_nat c :: u32) = c" using assms by (simp add: unat_of_nat_u32)
  have byte: "(ucast (drop_bit i (of_nat c :: u32) AND 0xff) :: byte) = of_nat (c div 2 ^ i mod 256)" for i
  proof -
    have "unat (drop_bit i (of_nat c :: u32) AND (2 ^ 8 - 1)) = c div 2 ^ i mod 256"
      using unat_mask [of 8 "drop_bit i (of_nat c :: u32)"] by (simp only: unat_drop_bit c) simp
    then have "of_nat (unat (drop_bit i (of_nat c :: u32) AND 0xff)) = (of_nat (c div 2 ^ i mod 256) :: byte)" by simp
    then show ?thesis by (simp only: of_nat_unat)
  qed
  have "c div 65536 mod 256 = c div 65536" using assms by simp
  then show ?thesis using byte [of 16] byte [of 8] byte [of 0] by (simp add: token_bytes_def)
qed

context base64_maps
begin

lemma div_mod_pow: "(c :: nat) mod 4096 = 0 \<Longrightarrow> c div 64 mod 64 = 0"
proof -
  assume "c mod 4096 = 0"
  then obtain q where "c = 4096 * q" by (auto simp: mod_eq_0_iff_dvd dvd_def)
  then have "c div 64 = 64 * q" by simp
  then show ?thesis by simp
qed

lemma four_digits:
  assumes "(c :: nat) < 16777216"
  shows "((c div 262144 * 64 + c div 4096 mod 64) * 64 + c div 64 mod 64) * 64 + c mod 64 = c"
proof -
  have "c div 262144 = c div 4096 div 64" "c div 4096 = c div 64 div 64" by (simp_all add: div_mult2_eq [symmetric])
  then show ?thesis by (metis div_mult_mod_eq)
qed

lemma decode_token:
  assumes "c < 16777216"
  shows "token_decode B (b64_token B (of_nat c)) = Inr (of_nat c, 0)"
    and "c mod 64 = 0 \<Longrightarrow> token_decode B ((b64_token B (of_nat c))[3 := b64_equal B]) = Inr (of_nat c, 1)"
    and "c mod 4096 = 0 \<Longrightarrow>
      token_decode B ((b64_token B (of_nat c))[3 := b64_equal B, 2 := b64_equal B]) = Inr (of_nat c, 2)"
proof -
  let ?i = "c div 262144" and ?j = "c div 4096 mod 64" and ?k = "c div 64 mod 64" and ?l = "c mod 64"
  have lt: "?i < 64" "?j < 64" "?k < 64" "?l < 64" using assms by simp_all
  note tok = b64_token_nat [OF assms, of B]
  have two: "token_loop B (b64_enc B ! ?i # b64_enc B ! ?j # ts) 0 0 = token_loop B ts (of_nat (?i * 64 + ?j)) 0" for ts
    using token_loop_enc [OF lt(1), of "b64_enc B ! ?j # ts" 0] token_loop_enc [OF lt(2), of ts ?i] by simp
  have three: "token_loop B (b64_enc B ! ?i # b64_enc B ! ?j # b64_enc B ! ?k # ts) 0 0
      = token_loop B ts (of_nat ((?i * 64 + ?j) * 64 + ?k)) 0" for ts
    using two [of "b64_enc B ! ?k # ts"] token_loop_enc [OF lt(3), of ts "?i * 64 + ?j"] by (simp only:)
  have four: "token_loop B [b64_enc B ! ?i, b64_enc B ! ?j, b64_enc B ! ?k, b64_enc B ! ?l] 0 0 = Inr (of_nat c, 0)"
    using three [of "[b64_enc B ! ?l]"] token_loop_enc [OF lt(4), of "[]" "(?i * 64 + ?j) * 64 + ?k"]
    by (simp only: four_digits [OF assms] token_loop.simps)
  have pad: "token_loop B [b64_equal B] (of_nat v) 0 = Inr (of_nat (v * 64), 1)"
    "token_loop B [b64_equal B, b64_equal B] (of_nat v) 0 = Inr (of_nat (v * 64 * 64), 2)" for v
    by (simp_all add: push_bit_eq_mult Let_def)
  show "token_decode B (b64_token B (of_nat c)) = Inr (of_nat c, 0)"
    unfolding token_decode_def tok using four by (simp del: token_loop.simps)
  show "token_decode B ((b64_token B (of_nat c))[3 := b64_equal B]) = Inr (of_nat c, 1)" if "c mod 64 = 0"
  proof -
    have "((?i * 64 + ?j) * 64 + ?k) * 64 = c" using four_digits [OF assms] that by linarith
    then have "token_loop B [b64_enc B ! ?i, b64_enc B ! ?j, b64_enc B ! ?k, b64_equal B] 0 0 = Inr (of_nat c, 1)"
      by (simp only: three pad(1))
    then show ?thesis unfolding token_decode_def tok by (simp del: token_loop.simps)
  qed
  show "token_decode B ((b64_token B (of_nat c))[3 := b64_equal B, 2 := b64_equal B]) = Inr (of_nat c, 2)"
    if z: "c mod 4096 = 0"
  proof -
    have h: "c mod 64 = 0" "c div 64 mod 64 = 0"
      using z mod_mod_cancel [of 64 4096 c] div_mod_pow [OF z] by simp_all
    have "(?i * 64 + ?j) * 64 * 64 = c" using four_digits [OF assms] by (simp only: h add_0_right)
    then have "token_loop B [b64_enc B ! ?i, b64_enc B ! ?j, b64_equal B, b64_equal B] 0 0 = Inr (of_nat c, 2)"
      by (simp only: two pad(2))
    then show ?thesis unfolding token_decode_def tok by (simp del: token_loop.simps)
  qed
qed

lemma decode_step:
  assumes "length tok = 4" "token_decode B tok = Inr vm" "b64_decode B s = Inr rest"
  shows "b64_decode B (tok @ s) = Inr (token_bytes vm @ rest)"
proof -
  have "tok \<noteq> []" using assms(1) by auto
  then show ?thesis using assms by (simp add: b64_decode.simps [of B "tok @ s"])
qed

lemma digit: "(r :: nat) < n \<Longrightarrow> (a * n + r) div n = a \<and> (a * n + r) mod n = r"
  by simp

lemma byte_triple:
  fixes x y z :: byte
  defines "c \<equiv> unat x * 65536 + unat y * 256 + unat z"
  shows "c < 16777216" "c div 65536 = unat x" "c div 256 mod 256 = unat y" "c mod 256 = unat z"
proof -
  note r = unat_byte_less [of x] unat_byte_less [of y] unat_byte_less [of z]
  have r1: "unat y * 256 + unat z < 65536" using r by simp
  show "c < 16777216" using r by (simp add: c_def)
  have c1: "c = unat x * 65536 + (unat y * 256 + unat z)" by (simp only: c_def add.assoc)
  have c2: "c = (unat x * 256 + unat y) * 256 + unat z" by (simp add: c_def distrib_right)
  show "c div 65536 = unat x" unfolding c1 using digit [OF r1] by blast
  have "c div 256 = unat x * 256 + unat y" unfolding c2 using digit [OF r(3)] by blast
  then show "c div 256 mod 256 = unat y" using digit [OF r(2), of "unat x"] by simp
  show "c mod 256 = unat z" unfolding c2 using digit [OF r(3)] by blast
qed

lemma length_b64_token: "length (b64_token B w) = 4"
  by (simp add: b64_token_def)

lemma decode_encode: "b64_decode B (b64_encode B xs) = Inr xs"
proof (induction xs rule: length_induct)
  case (1 xs)
  have nil: "b64_decode B [] = Inr []" by (simp add: b64_decode.simps)
  consider "xs = []" | x where "xs = [x]" | x y where "xs = [x, y]" | x y z r where "xs = x # y # z # r"
    by (metis list.exhaust)
  then show ?case
  proof cases
    case 1
    then show ?thesis using nil by simp
  next
    case (2 x)
    have t: "unat x * 65536 < 16777216" "unat x * 65536 div 65536 = unat x"
      using byte_triple(1,2) [of x 0 0] by simp_all
    have g: "push_bit 8 (push_bit 8 (ucast x)) = (of_nat (unat x * 65536) :: u32)"
      using b64_group_nat [of x 0 0] by simp
    have m: "unat x * 65536 mod 4096 = 0" by simp
    have d: "token_decode B ((b64_token B (of_nat (unat x * 65536)))[3 := b64_equal B, 2 := b64_equal B])
        = Inr (of_nat (unat x * 65536), 2)"
      by (rule decode_token(3) [OF t(1) m])
    show ?thesis
      using decode_step [OF _ d nil] token_bytes_nat [OF t(1), of 2] t(2)
      unfolding 2 b64_encode.simps g by (simp add: length_b64_token del: of_nat_mult)
  next
    case (3 x y)
    have t: "unat x * 65536 + unat y * 256 < 16777216" "(unat x * 65536 + unat y * 256) div 65536 = unat x"
      "(unat x * 65536 + unat y * 256) div 256 mod 256 = unat y"
      using byte_triple(1,2,3) [of x y 0] by (simp_all only: unat_0 add_0_right)
    have g: "push_bit 8 (push_bit 8 (ucast x) + ucast y) = (of_nat (unat x * 65536 + unat y * 256) :: u32)"
      using b64_group_nat [of x y 0] by simp
    have m: "(unat x * 65536 + unat y * 256) mod 64 = 0" by simp
    have d: "token_decode B ((b64_token B (of_nat (unat x * 65536 + unat y * 256)))[3 := b64_equal B])
        = Inr (of_nat (unat x * 65536 + unat y * 256), 1)"
      by (rule decode_token(2) [OF t(1) m])
    show ?thesis
      using decode_step [OF _ d nil] token_bytes_nat [OF t(1), of 1] t(2,3)
      unfolding 3 b64_encode.simps g by (simp add: length_b64_token del: of_nat_mult of_nat_add)
  next
    case (4 x y z r)
    note t = byte_triple [of x y z]
    note g = b64_group_nat [of x y z]
    have IH: "b64_decode B (b64_encode B r) = Inr r" using 1 4 by simp
    show ?thesis
      using decode_step [OF length_b64_token decode_token(1) [OF t(1)] IH] token_bytes_nat [OF t(1), of 0] t(2,3,4)
      unfolding 4 b64_encode.simps g by (simp del: of_nat_mult of_nat_add)
  qed
qed

end


text \<open>The two static objects of \<open>base64_init_static\<close>.\<close>

definition base64_default :: base64 where
  "base64_default = projr (b64_make None)"

definition base64_urlsafe :: base64 where
  "base64_urlsafe = projr (b64_make (Some [45, 95, 46]))"

definition maps_check :: "base64 \<Rightarrow> bool" where
  "maps_check B \<longleftrightarrow> length (b64_enc B) = 64
     \<and> list_all (\<lambda>i. b64_enc B ! i < 128 \<and> b64_dec B ! unat (b64_enc B ! i) = of_nat i
                     \<and> b64_enc B ! i \<noteq> b64_equal B) [0..<64]"

lemma maps_check_maps: "maps_check B \<Longrightarrow> base64_maps B"
  by unfold_locales (simp_all add: maps_check_def list_all_iff)

interpretation b64: base64_maps base64_default
  by (rule maps_check_maps) code_simp

interpretation b64url: base64_maps base64_urlsafe
  by (rule maps_check_maps) code_simp

lemma base64_objects:
  "b64_make None = Inr base64_default" "b64_make (Some [45, 95, 46]) = Inr base64_urlsafe"
  by code_simp+

lemma div3_step: "(5 + n) div 3 = Suc (Suc (Suc n) div (3 :: nat))"
  by presburger

lemma length_b64_encode: "length (b64_encode B xs) = 4 * ((length xs + 2) div 3)"
  by (induction B xs rule: b64_encode.induct) (simp_all add: b64_token_def div3_step)


section \<open>Properties\<close>

text \<open>
  Base64 round trip: for both alphabets the program uses, decoding an encoded byte string
  gives it back, and throws nothing.
\<close>

lemma base64_roundtrip:
  "b64_decode base64_default (b64_encode base64_default xs) = Inr xs
   \<and> b64_decode base64_urlsafe (b64_encode base64_urlsafe xs) = Inr xs"
  using b64.decode_encode b64url.decode_encode by blast

text \<open>
  The encoder stays inside the array it allocates: the characters it writes and the closing
  NUL fit into \<open>encode_size_max\<close>, for every input and every alphabet.
\<close>

lemma base64_encode_fits:
  "length (b64_encode B xs) + 1 \<le> encode_size_max (length xs)"
  unfolding length_b64_encode encode_size_max_def by presburger

text \<open>
  Hexadecimal round trip: \<open>parse_hex\<close> of the rendering of any bytes, in either case of
  letters, appends exactly these bytes; \<open>parse_hex_number\<close> of the rendering of an integer of any
  width in bytes is the integer.
\<close>

lemma hex_roundtrip:
  fixes v :: "'a::len word"
  assumes "LENGTH('a) = 8 * n" "0 < n"
  shows "parse_hex dest (render_hex (Some bs) caps) = (Inr (), dest @ bs)
    \<and> parse_hex_number (render_hex_number caps v) = Some v"
  using parse_hex_render [of dest caps bs] parse_render_hex_number [OF assms]
  by (simp add: render_hex_def)

lemma hex_roundtrip_at:
  "parse_hex [] (render_hex (Some [0xDE, 0xAD]) True) = (Inr (), [0xDE, 0xAD])
    \<and> parse_hex_number (render_hex_number True (0xBEEF :: u16)) = Some (0xBEEF :: u16)"
  using hex_roundtrip [where ?'a = 16 and n = 2 and dest = "[]" and bs = "[0xDE, 0xAD]" and caps = True] by simp

text \<open>
  The length limit of \<open>parse_number_validate\<close> makes up for the missing overflow check: when
  \<open>10 ^ max_len\<close> fits the type, the function succeeds exactly on the strings of at most \<open>max_len\<close>
  decimal digits whose value, as a mathematical integer, is in the range, and returns that value.
\<close>

lemma parse_number_validate_exact:
  fixes mn mx :: "'a::len word"
  assumes "10 ^ max_len \<le> (2 :: nat) ^ LENGTH('a)" "CHR 0x00 \<notin> set s"
  shows "parse_number_validate s max_len mn mx = Some v \<longleftrightarrow>
    s \<noteq> [] \<and> length s \<le> max_len \<and> list_all is_digit_char s \<and> unat v = dec_value s \<and> mn \<le> v \<and> v \<le> mx"
proof (cases "s \<noteq> [] \<and> length s \<le> max_len \<and> list_all is_digit_char s")
  case True
  then have "dec_value s < 10 ^ length s" "(10 :: nat) ^ length s \<le> 10 ^ max_len"
    using dec_value_bound by (auto intro: power_increasing)
  then have "dec_value s < 2 ^ LENGTH('a)" using assms(1) by linarith
  then have "unat (of_nat (dec_value s) :: 'a word) = dec_value s" by (simp add: unat_of_nat)
  then have e: "unat v = dec_value s \<longleftrightarrow> of_nat (dec_value s) = v" by (auto simp: word_unat_eq_iff)
  show ?thesis
    unfolding e using True parse_number_digits [OF assms(2), where ?'a = 'a]
    by (auto simp: parse_number_validate_def)
next
  case False
  then show ?thesis
    using parse_number_digits [OF assms(2), where ?'a = 'a]
    by (auto simp: parse_number_validate_def)
qed

lemma parse_number_validate_exact_at:
  "parse_number_validate ''1194'' 5 (1 :: u32) 65535 = Some 1194"
proof -
  have a: "10 ^ 5 \<le> (2 :: nat) ^ LENGTH(32)" "CHR 0x00 \<notin> set ''1194''" by simp_all
  have "dec_value ''1194'' = 1194" "list_all is_digit_char ''1194''" by code_simp+
  then show ?thesis using parse_number_validate_exact [OF a, of 1 65535 1194] by simp
qed

end
