(* ===== verification/Proto_Stack.thy ===== *)
theory Proto_Stack
  imports Reliable Frames Error_Types
begin

text \<open>
  \<^verbatim>\<open>ssl/protostack.hpp\<close>: \<open>ProtoStackBase\<close>, which runs an SSL session and raw packets over the
  reliability layer. The SSL object and the methods of the derived class are code the class is a
  template over; they are the fields of \<open>callbacks\<close>, acting on a state of the SSL object and a
  state of the parent. The parent calls the stack back from three of its methods: \<open>decapsulate\<close>
  may invalidate the session (its result names the reason), \<open>raw_recv\<close> may queue raw packets and
  \<open>app_recv\<close> cleartext (their results list what is queued). The current time is an argument. An
  operation that may throw returns the exception, if any, and the state.
\<close>

section \<open>State\<close>

datatype net_send_type = NET_SEND_SSL | NET_SEND_RAW | NET_SEND_ACK | NET_SEND_RETRANSMIT

record ('p, 'ssl, 'par) stack =
  k_tls_timeout :: duration
  k_ssl :: 'ssl
  k_reentry :: int
  k_invalidated :: bool
  k_reason :: nat
  k_ssl_started :: bool
  k_next_retransmit :: vtime
  k_app_queue :: "byte list list"
  k_raw_queue :: "'p list"
  k_stats :: "nat list"
  k_rel_recv :: "'p rel_recv"
  k_rel_send :: "'p rel_send"
  k_xmit_acks :: rel_ack
  k_par :: 'par

record ('p, 'ssl, 'par) callbacks =
  ssl_start_handshake :: "'ssl \<Rightarrow> 'ssl"
  ssl_write_cleartext :: "byte list \<Rightarrow> 'ssl \<Rightarrow> int res \<times> 'ssl"
  ssl_read_ciphertext_ready :: "'ssl \<Rightarrow> bool"
  ssl_read_ciphertext :: "'ssl \<Rightarrow> 'p \<times> 'ssl"
  ssl_write_ciphertext :: "'p \<Rightarrow> 'ssl \<Rightarrow> 'ssl"
  ssl_read_cleartext_ready :: "'ssl \<Rightarrow> bool"
  ssl_read_cleartext :: "'ssl \<Rightarrow> int res \<times> byte list \<times> 'ssl"
  pkt_is_raw :: "'p \<Rightarrow> bool"
  cb_encapsulate :: "u32 \<Rightarrow> 'p \<Rightarrow> rel_ack \<times> 'par \<Rightarrow> 'p res \<times> rel_ack \<times> 'par"
  cb_decapsulate :: "'p \<Rightarrow> 'p rel_recv \<times> 'p rel_send \<times> rel_ack \<times> 'par
     \<Rightarrow> bool res \<times> nat option \<times> 'p rel_recv \<times> 'p rel_send \<times> rel_ack \<times> 'par"
  cb_generate_ack :: "rel_ack \<times> 'par \<Rightarrow> 'p res \<times> rel_ack \<times> 'par"
  cb_net_send :: "'p \<Rightarrow> net_send_type \<Rightarrow> 'par \<Rightarrow> 'par"
  cb_app_recv :: "byte list \<Rightarrow> 'par \<Rightarrow> unit res \<times> byte list list \<times> 'par"
  cb_raw_recv :: "'p \<Rightarrow> 'par \<Rightarrow> unit res \<times> 'p list \<times> 'par"
  cb_invalidate :: "'par \<Rightarrow> 'par"

abbreviation (input) SHOULD_RETRY :: int where "SHOULD_RETRY \<equiv> - 1"
abbreviation (input) PEER_CLOSE_NOTIFY :: int where "PEER_CLOSE_NOTIFY \<equiv> - 2"

definition stack_init ::
  "'ssl \<Rightarrow> duration \<Rightarrow> u32 \<Rightarrow> nat \<Rightarrow> 'par \<Rightarrow> ('p, 'ssl, 'par) stack" where
  "stack_init ssl tls_timeout span max_ack_list par =
     \<lparr>k_tls_timeout = tls_timeout, k_ssl = ssl, k_reentry = 0, k_invalidated = False,
      k_reason = SUCCESS, k_ssl_started = False, k_next_retransmit = time_infinite,
      k_app_queue = [], k_raw_queue = [], k_stats = [], k_rel_recv = rr_init span,
      k_rel_send = rs_init span, k_xmit_acks = ra_new max_ack_list, k_par = par\<rparr>"


section \<open>Operations\<close>

definition stack_invalidate ::
  "('p, 'ssl, 'par) callbacks \<Rightarrow> nat \<Rightarrow> ('p, 'ssl, 'par) stack \<Rightarrow> ('p, 'ssl, 'par) stack" where
  "stack_invalidate cb reason k =
     (if k_invalidated k then k
      else k\<lparr>k_invalidated := True, k_reason := reason, k_par := cb_invalidate cb (k_par k)\<rparr>)"

definition stack_error ::
  "('p, 'ssl, 'par) callbacks \<Rightarrow> nat \<Rightarrow> ('p, 'ssl, 'par) stack \<Rightarrow> ('p, 'ssl, 'par) stack" where
  "stack_error cb reason k = stack_invalidate cb reason (k\<lparr>k_stats := k_stats k @ [reason]\<rparr>)"

definition update_retransmit ::
  "vtime \<Rightarrow> ('p, 'ssl, 'par) stack \<Rightarrow> unit res \<times> ('p, 'ssl, 'par) stack" where
  "update_retransmit now k =
     (case rs_until_retransmit now (k_rel_send k) of
        Inl e \<Rightarrow> (Inl e, k)
      | Inr (d, s) \<Rightarrow> (Inr (), k\<lparr>k_rel_send := s, k_next_retransmit := time_add now d\<rparr>))"

text \<open>
  The body the two sending loops share: take a message from the window, put the packet in it,
  encapsulate it in place and transmit it.
\<close>

definition send_packet ::
  "('p, 'ssl, 'par) callbacks \<Rightarrow> vtime \<Rightarrow> net_send_type \<Rightarrow> 'p \<Rightarrow> ('p, 'ssl, 'par) stack
   \<Rightarrow> unit res \<times> ('p, 'ssl, 'par) stack" where
  "send_packet cb now nstype p k =
     (case rs_send now (k_tls_timeout k) (k_rel_send k) of
        Inl e \<Rightarrow> (Inl e, k)
      | Inr (i, s) \<Rightarrow>
          (case cb_encapsulate cb (rs_next (k_rel_send k)) p (k_xmit_acks k, k_par k) of
             (Inl e, acks, par) \<Rightarrow>
               (Inl e, stack_error cb ENCAPSULATION_ERROR
                  (k\<lparr>k_rel_send := rs_set_packet i p s, k_xmit_acks := acks, k_par := par\<rparr>))
           | (Inr q, acks, par) \<Rightarrow>
               (Inr (), k\<lparr>k_rel_send := rs_set_packet i q s, k_xmit_acks := acks,
                          k_par := cb_net_send cb q nstype par\<rparr>)))"

lemma send_packet_queue: "k_raw_queue (snd (send_packet cb now ty p k)) = k_raw_queue k"
  by (auto simp: send_packet_def stack_error_def stack_invalidate_def split: sum.splits prod.splits)

function down_stack_raw ::
  "('p, 'ssl, 'par) callbacks \<Rightarrow> vtime \<Rightarrow> ('p, 'ssl, 'par) stack \<Rightarrow> unit res \<times> ('p, 'ssl, 'par) stack" where
  "down_stack_raw cb now k =
     (case k_raw_queue k of
        [] \<Rightarrow> (Inr (), k)
      | p # ps \<Rightarrow>
          (if rs_ready (k_rel_send k)
           then (case send_packet cb now NET_SEND_RAW p (k\<lparr>k_raw_queue := ps\<rparr>) of
                   (Inl e, k) \<Rightarrow> (Inl e, k)
                 | (Inr _, k) \<Rightarrow> down_stack_raw cb now k)
           else (Inr (), k)))"
  by pat_completeness auto

termination
proof (relation "measure (\<lambda>(_, _, k). length (k_raw_queue k))")
  fix cb :: "('p, 'ssl, 'par) callbacks" and now k p ps x k' u
  assume "k_raw_queue k = p # ps" "(x, k') = send_packet cb now NET_SEND_RAW p (k\<lparr>k_raw_queue := ps\<rparr>)"
  moreover from this(2) have "k_raw_queue k' = ps"
    using send_packet_queue [of cb now NET_SEND_RAW p "k\<lparr>k_raw_queue := ps\<rparr>"] by (metis snd_conv stack.select_convs(9) stack.surjective stack.update_convs(9))
  ultimately show "((cb, now, k'), cb, now, k) \<in> measure (\<lambda>(_, _, k). length (k_raw_queue k))" by simp
qed simp


text \<open>Cleartext of the application is pushed through the SSL object.\<close>

fun app_write ::
  "('p, 'ssl, 'par) callbacks \<Rightarrow> byte list list \<Rightarrow> ('p, 'ssl, 'par) stack
   \<Rightarrow> unit res \<times> ('p, 'ssl, 'par) stack" where
  "app_write cb [] k = (Inr (), k\<lparr>k_app_queue := []\<rparr>)"
| "app_write cb (b # q) k =
     (let (r, ssl) = ssl_write_cleartext cb b (k_ssl k); k = k\<lparr>k_ssl := ssl, k_app_queue := b # q\<rparr>
      in case r of
           Inl e \<Rightarrow> (Inl e, stack_error cb SSL_ERROR k)
         | Inr sz \<Rightarrow>
             (if sz = int (length b) then app_write cb q k
              else if sz = SHOULD_RETRY then (Inr (), k)
              else if sz \<ge> 0
              then (if sz > int (length b) then (Inl (Buffer_exn Buffer_overflow), k)
                    else (Inr (), k\<lparr>k_app_queue := drop (nat sz) b # q\<rparr>))
              else (Inl Unknown_status_from_ssl_layer, stack_error cb SSL_ERROR k)))"

lemma send_packet_Inr:
  assumes "send_packet cb now ty p k = (Inr u, k')" "rs_ready (k_rel_send k)"
  shows "rs_next (k_rel_send k') = rs_next (k_rel_send k) + 1
    \<and> w_head (rs_window (k_rel_send k')) = w_head (rs_window (k_rel_send k))
    \<and> w_span (rs_window (k_rel_send k')) = w_span (rs_window (k_rel_send k))"
proof -
  obtain i s where s: "rs_send now (k_tls_timeout k) (k_rel_send k) = Inr (i, s)"
    using rs_send_eq [OF assms(2)] by blast
  obtain r acks par where e: "cb_encapsulate cb (rs_next (k_rel_send k)) p (k_xmit_acks k, k_par k) = (r, acks, par)"
    by (metis prod_cases3)
  from assms(1) s e obtain q where "k_rel_send k' = rs_set_packet i q s"
    by (cases r) (auto simp: send_packet_def)
  then show ?thesis by (simp add: rs_submit_eq [OF assms(2) s])
qed

lemma ready_room:
  assumes "rs_ready s"
  shows "unat (rs_next s + 1) = Suc (unat (rs_next s))" "unat (rs_next s) < unat (tail_id (rs_window s))"
  using assms in_window_nat(4) [of "rs_next s" "rs_window s"]
  by (auto simp: rs_ready_def in_window_def tail_id_def word_less_nat_alt unat_add1_u32)

text \<open>SSL ciphertext is encapsulated and sent while the window has room.\<close>

function send_ciphertext ::
  "('p, 'ssl, 'par) callbacks \<Rightarrow> vtime \<Rightarrow> ('p, 'ssl, 'par) stack \<Rightarrow> unit res \<times> ('p, 'ssl, 'par) stack" where
  "send_ciphertext cb now k =
     (if ssl_read_ciphertext_ready cb (k_ssl k) \<and> rs_ready (k_rel_send k)
      then (case send_packet cb now NET_SEND_SSL (fst (ssl_read_ciphertext cb (k_ssl k)))
                   (k\<lparr>k_ssl := snd (ssl_read_ciphertext cb (k_ssl k))\<rparr>) of
              (Inl e, k) \<Rightarrow> (Inl e, k)
            | (Inr _, k) \<Rightarrow> send_ciphertext cb now k)
      else (Inr (), k))"
  by pat_completeness auto

termination
proof (relation "measure (\<lambda>(_, _, k). unat (tail_id (rs_window (k_rel_send k))) - unat (rs_next (k_rel_send k)))")
  fix cb :: "('p, 'ssl, 'par) callbacks" and now k x k' u
  assume c: "ssl_read_ciphertext_ready cb (k_ssl k) \<and> rs_ready (k_rel_send k)"
    and s: "(x, k') = send_packet cb now NET_SEND_SSL (fst (ssl_read_ciphertext cb (k_ssl k)))
                   (k\<lparr>k_ssl := snd (ssl_read_ciphertext cb (k_ssl k))\<rparr>)" "x = Inr u"
  have "rs_next (k_rel_send k') = rs_next (k_rel_send k) + 1
    \<and> tail_id (rs_window (k_rel_send k')) = tail_id (rs_window (k_rel_send k))"
    using send_packet_Inr [OF s(1) [symmetric, unfolded s(2)]] c by (simp add: tail_id_def)
  then show "((cb, now, k'), cb, now, k)
      \<in> measure (\<lambda>(_, _, k). unat (tail_id (rs_window (k_rel_send k))) - unat (rs_next (k_rel_send k)))"
    using ready_room [OF conjunct2 [OF c]] by simp
qed simp

definition down_stack_app ::
  "('p, 'ssl, 'par) callbacks \<Rightarrow> vtime \<Rightarrow> ('p, 'ssl, 'par) stack \<Rightarrow> unit res \<times> ('p, 'ssl, 'par) stack" where
  "down_stack_app cb now k =
     (if k_ssl_started k
      then (case app_write cb (k_app_queue k) k of
              (Inl e, k) \<Rightarrow> (Inl e, k)
            | (Inr _, k) \<Rightarrow> send_ciphertext cb now k)
      else (Inr (), k))"

definition app_send :: "byte list \<Rightarrow> ('p, 'ssl, 'par) stack \<Rightarrow> ('p, 'ssl, 'par) stack" where
  "app_send b k = (if \<not> k_invalidated k then k\<lparr>k_app_queue := k_app_queue k @ [b]\<rparr> else k)"

definition raw_send :: "'p \<Rightarrow> ('p, 'ssl, 'par) stack \<Rightarrow> ('p, 'ssl, 'par) stack" where
  "raw_send p k = (if \<not> k_invalidated k then k\<lparr>k_raw_queue := k_raw_queue k @ [p]\<rparr> else k)"

text \<open>The first loop of \<open>up_sequenced\<close>: messages in sequence go to the parent or the SSL object.\<close>

function up_deliver ::
  "('p, 'ssl, 'par) callbacks \<Rightarrow> ('p, 'ssl, 'par) stack \<Rightarrow> unit res \<times> ('p, 'ssl, 'par) stack" where
  "up_deliver cb k =
     (if rr_ready (k_rel_recv k)
      then (case (rr_next_sequenced (k_rel_recv k), rr_advance (k_rel_recv k)) of
              (Some m, Some r) \<Rightarrow>
                (case m_packet m of
                   None \<Rightarrow> (Inr (), k)
                 | Some p \<Rightarrow>
                     (if pkt_is_raw cb p
                      then (case cb_raw_recv cb p (k_par k) of
                              (Inl e, queued, par) \<Rightarrow> (Inl e, fold raw_send queued (k\<lparr>k_par := par\<rparr>))
                            | (Inr _, queued, par) \<Rightarrow>
                                up_deliver cb ((fold raw_send queued (k\<lparr>k_par := par\<rparr>))\<lparr>k_rel_recv := r\<rparr>))
                      else if k_ssl_started k
                      then up_deliver cb (k\<lparr>k_ssl := ssl_write_ciphertext cb p (k_ssl k), k_rel_recv := r\<rparr>)
                      else (Inr (), k)))
            | _ \<Rightarrow> (Inr (), k))
      else (Inr (), k))"
  by pat_completeness auto

termination
  by (relation "measure (\<lambda>(_, k). length (w_q (k_rel_recv k)))")
     (auto simp: rr_advance_def win_rm_head_nocheck_def split: list.splits)

declare down_stack_raw.simps [simp del]
declare send_ciphertext.simps [simp del]
declare up_deliver.simps [simp del]

partial_function (option) read_cleartext_loop ::
  "('p, 'ssl, 'par) callbacks \<Rightarrow> ('p, 'ssl, 'par) stack \<Rightarrow> (unit res \<times> ('p, 'ssl, 'par) stack) option" where
  "read_cleartext_loop cb k =
     (if ssl_read_cleartext_ready cb (k_ssl k)
      then (case ssl_read_cleartext cb (k_ssl k) of
              (Inl e, _, ssl) \<Rightarrow> Some (Inl e, stack_error cb SSL_ERROR (k\<lparr>k_ssl := ssl\<rparr>))
            | (Inr sz, data, ssl) \<Rightarrow>
                (let k = k\<lparr>k_ssl := ssl\<rparr>
                 in if sz \<ge> 0
                    then (case cb_app_recv cb (take (nat sz) data) (k_par k) of
                            (Inl e, queued, par) \<Rightarrow> Some (Inl e, fold app_send queued (k\<lparr>k_par := par\<rparr>))
                          | (Inr _, queued, par) \<Rightarrow>
                              read_cleartext_loop cb (fold app_send queued (k\<lparr>k_par := par\<rparr>)))
                    else if sz = SHOULD_RETRY then Some (Inr (), k)
                    else if sz = PEER_CLOSE_NOTIFY
                    then Some (Inl (Error_code CLIENT_HALT), stack_error cb SSL_ERROR k)
                    else Some (Inl Unknown_status_from_ssl_layer, stack_error cb SSL_ERROR k)))
      else Some (Inr (), k))"

definition up_sequenced ::
  "('p, 'ssl, 'par) callbacks \<Rightarrow> ('p, 'ssl, 'par) stack \<Rightarrow> (unit res \<times> ('p, 'ssl, 'par) stack) option" where
  "up_sequenced cb k =
     (case up_deliver cb k of
        (Inl e, k) \<Rightarrow> Some (Inl e, k)
      | (Inr _, k) \<Rightarrow> if k_ssl_started k then read_cleartext_loop cb k else Some (Inr (), k))"

definition start_handshake ::
  "('p, 'ssl, 'par) callbacks \<Rightarrow> ('p, 'ssl, 'par) stack \<Rightarrow> (unit res \<times> ('p, 'ssl, 'par) stack) option" where
  "start_handshake cb k =
     (if \<not> k_invalidated k
      then up_sequenced cb (k\<lparr>k_ssl := ssl_start_handshake cb (k_ssl k), k_ssl_started := True\<rparr>)
      else Some (Inr (), k))"

text \<open>\<open>UseCount\<close> counts the reentry level up for the time of the call, exceptions included.\<close>

definition up_stack ::
  "('p, 'ssl, 'par) callbacks \<Rightarrow> 'p \<Rightarrow> ('p, 'ssl, 'par) stack \<Rightarrow> (bool res \<times> ('p, 'ssl, 'par) stack) option" where
  "up_stack cb p k =
     (let k = k\<lparr>k_reentry := k_reentry k + 1\<rparr>;
          (r, inv, rr, rs, acks, par) =
             cb_decapsulate cb p (k_rel_recv k, k_rel_send k, k_xmit_acks k, k_par k);
          k = k\<lparr>k_rel_recv := rr, k_rel_send := rs, k_xmit_acks := acks, k_par := par\<rparr>;
          k = (case inv of None \<Rightarrow> k | Some reason \<Rightarrow> stack_invalidate cb reason k);
          leave = (\<lambda>k. k\<lparr>k_reentry := k_reentry k - 1\<rparr>)
      in case r of
           Inl e \<Rightarrow> Some (Inl e, leave k)
         | Inr False \<Rightarrow> Some (Inr False, leave k)
         | Inr True \<Rightarrow>
             (case up_sequenced cb k of
                None \<Rightarrow> None
              | Some (Inl e, k) \<Rightarrow> Some (Inl e, leave k)
              | Some (Inr _, k) \<Rightarrow> Some (Inr True, leave k)))"

definition net_recv ::
  "('p, 'ssl, 'par) callbacks \<Rightarrow> 'p \<Rightarrow> ('p, 'ssl, 'par) stack \<Rightarrow> (bool res \<times> ('p, 'ssl, 'par) stack) option" where
  "net_recv cb p k = (if \<not> k_invalidated k then up_stack cb p k else Some (Inr False, k))"

definition stack_flush ::
  "('p, 'ssl, 'par) callbacks \<Rightarrow> vtime \<Rightarrow> ('p, 'ssl, 'par) stack \<Rightarrow> unit res \<times> ('p, 'ssl, 'par) stack" where
  "stack_flush cb now k =
     (if \<not> k_invalidated k \<and> k_reentry k = 0
      then (case down_stack_raw cb now k of
              (Inl e, k) \<Rightarrow> (Inl e, k)
            | (Inr _, k) \<Rightarrow>
                (case down_stack_app cb now k of
                   (Inl e, k) \<Rightarrow> (Inl e, k)
                 | (Inr _, k) \<Rightarrow> update_retransmit now k))
      else (Inr (), k))"

partial_function (option) send_acks_loop ::
  "('p, 'ssl, 'par) callbacks \<Rightarrow> ('p, 'ssl, 'par) stack \<Rightarrow> (unit res \<times> ('p, 'ssl, 'par) stack) option" where
  "send_acks_loop cb k =
     (if ra_data (k_xmit_acks k) \<noteq> []
      then (case cb_generate_ack cb (k_xmit_acks k, k_par k) of
              (Inl e, acks, par) \<Rightarrow> Some (Inl e, k\<lparr>k_xmit_acks := acks, k_par := par\<rparr>)
            | (Inr p, acks, par) \<Rightarrow>
                send_acks_loop cb (k\<lparr>k_xmit_acks := acks, k_par := cb_net_send cb p NET_SEND_ACK par\<rparr>))
      else Some (Inr (), k))"

definition send_pending_acks ::
  "('p, 'ssl, 'par) callbacks \<Rightarrow> ('p, 'ssl, 'par) stack \<Rightarrow> (unit res \<times> ('p, 'ssl, 'par) stack) option" where
  "send_pending_acks cb k = (if \<not> k_invalidated k then send_acks_loop cb k else Some (Inr (), k))"

fun retransmit_loop ::
  "('p, 'ssl, 'par) callbacks \<Rightarrow> vtime \<Rightarrow> u32 list \<Rightarrow> ('p, 'ssl, 'par) stack
   \<Rightarrow> unit res \<times> ('p, 'ssl, 'par) stack" where
  "retransmit_loop cb now [] k = (Inr (), k)"
| "retransmit_loop cb now (i # ids) k =
     (case win_ref_by_id send_msg i (rs_window (k_rel_send k)) of
        Inl e \<Rightarrow> (Inl e, k)
      | Inr (j, w) \<Rightarrow>
          (let m = w_q w ! j
           in retransmit_loop cb now ids
                (case (ready_retransmit now m, m_packet m) of
                   (True, Some p) \<Rightarrow>
                     k\<lparr>k_rel_send := (k_rel_send k)\<lparr>rs_window :=
                         w\<lparr>w_q := (w_q w)[j := reset_retransmit now (k_tls_timeout k) m]\<rparr>\<rparr>,
                       k_par := cb_net_send cb p NET_SEND_RETRANSMIT (k_par k)\<rparr>
                 | _ \<Rightarrow> k\<lparr>k_rel_send := (k_rel_send k)\<lparr>rs_window := w\<rparr>\<rparr>)))"

definition stack_retransmit ::
  "('p, 'ssl, 'par) callbacks \<Rightarrow> vtime \<Rightarrow> ('p, 'ssl, 'par) stack \<Rightarrow> unit res \<times> ('p, 'ssl, 'par) stack" where
  "stack_retransmit cb now k =
     (if \<not> k_invalidated k \<and> now \<ge> k_next_retransmit k
      then (case retransmit_loop cb now (window_ids (rs_window (k_rel_send k))) k of
              (Inl e, k) \<Rightarrow> (Inl e, k)
            | (Inr _, k) \<Rightarrow> update_retransmit now k)
      else (Inr (), k))"

definition next_retransmit :: "('p, 'ssl, 'par) stack \<Rightarrow> vtime" where
  "next_retransmit k = (if \<not> k_invalidated k then k_next_retransmit k else time_infinite)"

section \<open>Sending\<close>

text \<open>
  A parent for the statements about what is sent: encapsulation succeeds and gives \<open>enc i p\<close>, and
  transmission keeps a log.
\<close>

definition logs ::
  "(u32 \<Rightarrow> 'p \<Rightarrow> 'p) \<Rightarrow> ('p, 'ssl, ('p \<times> net_send_type) list) callbacks \<Rightarrow> bool" where
  "logs enc cb \<longleftrightarrow> (\<forall>i p x. cb_encapsulate cb i p x = (Inr (enc i p), x))
     \<and> (\<forall>p ty l. cb_net_send cb p ty l = l @ [(p, ty)])"

text \<open>How many packets the window takes.\<close>

definition send_room :: "'p rel_send \<Rightarrow> nat" where
  "send_room s = (if rs_ready s then unat (tail_id (rs_window s)) - unat (rs_next s) else 0)"

lemma send_packet_log:
  assumes "logs enc cb" "rs_ready (k_rel_send k)"
  shows "\<exists>s. send_packet cb now ty p k =
      (Inr (), k\<lparr>k_rel_send := s, k_par := k_par k @ [(enc (rs_next (k_rel_send k)) p, ty)]\<rparr>)
    \<and> rs_next s = rs_next (k_rel_send k) + 1 \<and> Suc (send_room s) = send_room (k_rel_send k)"
proof -
  let ?s = "k_rel_send k"
  obtain i s where s: "rs_send now (k_tls_timeout k) ?s = Inr (i, s)" using rs_send_eq [OF assms(2)] by blast
  let ?t = "rs_set_packet i (enc (rs_next ?s) p) s"
  have t: "rs_next ?t = rs_next ?s + 1" "tail_id (rs_window ?t) = tail_id (rs_window ?s)"
    "w_head (rs_window ?t) = w_head (rs_window ?s)" "w_span (rs_window ?t) = w_span (rs_window ?s)"
    by (simp_all add: rs_submit_eq [OF assms(2) s] tail_id_def)
  note r = ready_room [OF assms(2)]
  have in_w: "w_head (rs_window ?s) \<le> rs_next ?s" using assms(2) by (simp add: rs_ready_def in_window_def)
  have "rs_ready ?t \<longleftrightarrow> unat (rs_next ?s) + 1 < unat (tail_id (rs_window ?s))"
    using t r in_w by (simp add: rs_ready_def in_window_def tail_id_def word_le_nat_alt word_less_nat_alt)
  then have "Suc (send_room ?t) = send_room ?s"
    using assms(2) r t by (auto simp: send_room_def)
  moreover have "send_packet cb now ty p k =
      (Inr (), k\<lparr>k_rel_send := ?t, k_par := k_par k @ [(enc (rs_next ?s) p, ty)]\<rparr>)"
    using assms(1) s by (simp add: send_packet_def logs_def)
  ultimately show ?thesis using t(1) by blast
qed

lemma down_stack_raw_log:
  assumes "logs enc cb"
  shows "\<exists>s. down_stack_raw cb now k = (Inr (), k\<lparr>k_rel_send := s,
      k_raw_queue := drop (send_room (k_rel_send k)) (k_raw_queue k),
      k_par := k_par k @ map (\<lambda>j. (enc (rs_next (k_rel_send k) + of_nat j) (k_raw_queue k ! j), NET_SEND_RAW))
                             [0..<min (length (k_raw_queue k)) (send_room (k_rel_send k))]\<rparr>)
    \<and> rs_next s = rs_next (k_rel_send k) + of_nat (min (length (k_raw_queue k)) (send_room (k_rel_send k)))"
proof (induction "k_raw_queue k" arbitrary: k)
  case Nil
  then show ?case by (intro exI [of _ "k_rel_send k"]) (simp add: down_stack_raw.simps)
next
  case (Cons p ps)
  let ?s = "k_rel_send k"
  show ?case
  proof (cases "rs_ready ?s")
    case False
    then show ?thesis
      by (intro exI [of _ ?s]) (simp add: down_stack_raw.simps send_room_def Cons(2) [symmetric])
  next
    case True
    then have r: "rs_ready (k_rel_send (k\<lparr>k_raw_queue := ps\<rparr>))" by simp
    obtain s where s: "send_packet cb now NET_SEND_RAW p (k\<lparr>k_raw_queue := ps\<rparr>) =
        (Inr (), k\<lparr>k_raw_queue := ps, k_rel_send := s, k_par := k_par k @ [(enc (rs_next ?s) p, NET_SEND_RAW)]\<rparr>)"
      "rs_next s = rs_next ?s + 1" "Suc (send_room s) = send_room ?s"
      using send_packet_log [OF assms r, of now NET_SEND_RAW p] by auto
    let ?k = "k\<lparr>k_raw_queue := ps, k_rel_send := s, k_par := k_par k @ [(enc (rs_next ?s) p, NET_SEND_RAW)]\<rparr>"
    let ?n = "min (length ps) (send_room s)"
    have step: "down_stack_raw cb now k = down_stack_raw cb now ?k"
      using True s(1) by (simp add: down_stack_raw.simps [of cb now k] Cons(2) [symmetric])
    obtain s' where s': "down_stack_raw cb now ?k = (Inr (), ?k\<lparr>k_rel_send := s',
      k_raw_queue := drop (send_room s) ps,
      k_par := k_par ?k @ map (\<lambda>j. (enc (rs_next s + of_nat j) (ps ! j), NET_SEND_RAW)) [0..<?n]\<rparr>)"
      "rs_next s' = rs_next s + of_nat ?n"
      using Cons(1) [of ?k] by auto
    have m: "min (length (k_raw_queue k)) (send_room ?s) = Suc ?n"
      using Cons(2) s(3) by (metis length_Cons min_Suc_Suc)
    have d: "drop (send_room ?s) (k_raw_queue k) = drop (send_room s) ps"
      using Cons(2) s(3) by (metis drop_Suc_Cons)
    have "map (\<lambda>j. (enc (rs_next ?s + of_nat j) (k_raw_queue k ! j), NET_SEND_RAW)) [0..<Suc ?n]
      = (enc (rs_next ?s) p, NET_SEND_RAW) # map (\<lambda>j. (enc (rs_next s + of_nat j) (ps ! j), NET_SEND_RAW)) [0..<?n]"
      using Cons(2) [symmetric] s(2) by (simp add: map_upt_Suc ac_simps del: upt_Suc)
    then show ?thesis using step s' s(2) by (intro exI [of _ s']) (simp add: m d ac_simps del: upt_Suc)
  qed
qed


section \<open>Retransmitting\<close>

lemma retransmit_loop_log:
  assumes "logs enc cb" "win_ok (rs_window (k_rel_send k))" "distinct ids"
    "\<And>i. i \<in> set ids \<Longrightarrow> in_window i (rs_window (k_rel_send k))"
  shows "\<exists>w. retransmit_loop cb now ids k = (Inr (), k\<lparr>k_rel_send := (k_rel_send k)\<lparr>rs_window := w\<rparr>,
      k_par := k_par k @ map (\<lambda>m. (the (m_packet m), NET_SEND_RETRANSMIT))
        (filter (ready_retransmit now) (map (\<lambda>i. win_msg send_msg (rs_window (k_rel_send k)) (unat i)) ids))\<rparr>)
    \<and> win_ok w \<and> w_head w = w_head (rs_window (k_rel_send k)) \<and> w_span w = w_span (rs_window (k_rel_send k))
    \<and> (\<forall>n. win_msg send_msg w n =
          (let m = win_msg send_msg (rs_window (k_rel_send k)) n
           in if n \<in> unat ` set ids \<and> ready_retransmit now m then reset_retransmit now (k_tls_timeout k) m else m))"
  using assms(2-4)
proof (induction ids arbitrary: k)
  case Nil
  then show ?case by (intro exI [of _ "rs_window (k_rel_send k)"]) simp
next
  case (Cons i ids)
  let ?w = "rs_window (k_rel_send k)"
  let ?m = "win_msg send_msg ?w (unat i)"
  have i: "in_window i ?w" using Cons.prems(3) by simp
  have g: "w_q (win_grow send_msg i ?w) ! unat (i - w_head ?w) = ?m" by (rule grow_nth [OF i])
  define f :: "'a send_message \<Rightarrow> 'a send_message" where "f = (if ready_retransmit now ?m then reset_retransmit now (k_tls_timeout k) else (\<lambda>m. m))"
  define u where "u = win_upd send_msg f i ?w"
  define lg where "lg = (if ready_retransmit now ?m then [(the (m_packet ?m), NET_SEND_RETRANSMIT)] else [])"
  define k1 where "k1 = k\<lparr>k_rel_send := (k_rel_send k)\<lparr>rs_window := u\<rparr>, k_par := k_par k @ lg\<rparr>"
  have k1: "rs_window (k_rel_send k1) = u" "k_par k1 = k_par k @ lg" "k_tls_timeout k1 = k_tls_timeout k"
    "k_rel_send k1 = (k_rel_send k)\<lparr>rs_window := u\<rparr>" by (simp_all add: k1_def)
  have step: "retransmit_loop cb now (i # ids) k = retransmit_loop cb now ids k1"
  proof (cases "ready_retransmit now ?m")
    case True
    then obtain p where "m_packet ?m = Some p" by (auto simp: ready_retransmit_def msg_defined_def)
    then show ?thesis
      using True i g assms(1)
      by (simp add: win_ref_by_id_def win_upd_def Let_def logs_def k1_def u_def f_def lg_def)
  next
    case False
    then show ?thesis
      using i g by (simp add: win_ref_by_id_def win_upd_def Let_def k1_def u_def f_def lg_def)
  qed
  have u: "win_ok u" "w_head u = w_head ?w" "w_span u = w_span ?w"
    "\<And>n. win_msg send_msg u n = (if n = unat i then f (win_msg send_msg ?w n) else win_msg send_msg ?w n)"
    using upd_ok [OF Cons.prems(1) i] upd_msg [OF i] by (auto simp: u_def)
  have ids: "distinct ids" "i \<notin> set ids" "\<And>j. j \<in> set ids \<Longrightarrow> in_window j u"
    using Cons.prems(2,3) u(2,3) by (auto simp: in_window_def)
  have ne: "unat x \<noteq> unat i" if "x \<in> set ids" for x
    using that ids(2) word_unat_eq_iff [of x i] by auto
  have same: "map (\<lambda>i. win_msg send_msg u (unat i)) ids = map (\<lambda>i. win_msg send_msg ?w (unat i)) ids"
    using ne by (simp add: u(4))
  obtain w where w: "retransmit_loop cb now ids k1 = (Inr (), k1\<lparr>k_rel_send := (k_rel_send k1)\<lparr>rs_window := w\<rparr>,
      k_par := k_par k1 @ map (\<lambda>m. (the (m_packet m), NET_SEND_RETRANSMIT))
        (filter (ready_retransmit now) (map (\<lambda>i. win_msg send_msg ?w (unat i)) ids))\<rparr>)"
    "win_ok w" "w_head w = w_head ?w" "w_span w = w_span ?w"
    "\<forall>n. win_msg send_msg w n =
          (let m = win_msg send_msg u n
           in if n \<in> unat ` set ids \<and> ready_retransmit now m then reset_retransmit now (k_tls_timeout k) m else m)"
    using Cons.IH [of k1, unfolded k1(1,3) same, OF u(1) ids(1,3)] unfolding u(2,3) by blast
  have "unat i \<notin> unat ` set ids" using ne by force
  then have "\<forall>n. win_msg send_msg w n = (let m = win_msg send_msg ?w n
      in if n \<in> unat ` set (i # ids) \<and> ready_retransmit now m then reset_retransmit now (k_tls_timeout k) m else m)"
    using w(5) by (auto simp: Let_def u(4) f_def)
  moreover have "retransmit_loop cb now (i # ids) k = (Inr (), k\<lparr>k_rel_send := (k_rel_send k)\<lparr>rs_window := w\<rparr>,
      k_par := k_par k @ map (\<lambda>m. (the (m_packet m), NET_SEND_RETRANSMIT))
        (filter (ready_retransmit now) (map (\<lambda>i. win_msg send_msg ?w (unat i)) (i # ids)))\<rparr>)"
    unfolding step w(1) by (simp add: k1_def lg_def)
  ultimately show ?case using w(2-4) by blast
qed

lemma until_retransmit_eq:
  assumes "win_ok (rs_window s)"
  shows "\<exists>d s'. rs_until_retransmit now s = Inr (d, s') \<and> rs_next s' = rs_next s
    \<and> d = fold (\<lambda>m ret. if msg_defined m
                          then (let ut = msg_until_retransmit now m in if ut < ret then ut else ret)
                          else ret) (map (\<lambda>i. win_msg send_msg (rs_window s) (unat i)) (window_ids (rs_window s))) dur_infinite
    \<and> (\<forall>n. win_msg send_msg (rs_window s') n = win_msg send_msg (rs_window s) n)"
  using visit_window_look [OF assms window_ids_in, of "window_ids (rs_window s)" send_msg]
  by (auto simp: rs_until_retransmit_def)

lemma distinct_window_ids: "distinct (window_ids w)"
proof -
  have "inj_on (\<lambda>k. w_head w + of_nat k) (set [0..<unat (w_span w)])"
  proof (rule inj_onI)
    fix j k
    assume jk: "j \<in> set [0..<unat (w_span w)]" "k \<in> set [0..<unat (w_span w)]" "w_head w + of_nat j = w_head w + of_nat k"
    then have "j < 4294967296" "k < 4294967296" using unat_u32_less [of "w_span w"] by simp_all
    moreover have "(of_nat j :: u32) = of_nat k" using jk(3) by simp
    ultimately show "j = k" using unat_of_nat_u32 [of j] unat_of_nat_u32 [of k] by metis
  qed
  then show ?thesis by (auto simp: window_ids_def distinct_map)
qed

lemma window_ids_cover:
  assumes "unat (w_head w) + unat (w_span w) < 4294967296"
  shows "unat ` set (window_ids w) = {unat (w_head w) ..< unat (w_head w) + unat (w_span w)}"
  using arg_cong [OF window_ids_nat [OF assms], of set] by simp


section \<open>Properties\<close>

text \<open>
  C36. An invalidated session is dead: after an error has invalidated it, no operation changes its
  state, sends anything or calls the SSL object, and it asks for no more retransmissions.
\<close>

theorem invalidated_inert:
  assumes "k_invalidated k"
  shows "start_handshake cb k = Some (Inr (), k) \<and> net_recv cb p k = Some (Inr False, k)
    \<and> app_send b k = k \<and> raw_send p k = k \<and> stack_flush cb now k = (Inr (), k)
    \<and> send_pending_acks cb k = Some (Inr (), k) \<and> stack_retransmit cb now k = (Inr (), k)
    \<and> next_retransmit k = time_infinite \<and> stack_invalidate cb reason k = k"
  using assms
  by (simp_all add: start_handshake_def net_recv_def app_send_def raw_send_def stack_flush_def
      send_pending_acks_def stack_retransmit_def next_retransmit_def stack_invalidate_def)

text \<open>
  Raw packets leave in order, each once, under consecutive IDs, and never beyond the window:
  flushing the queue transmits its first \<open>n\<close> packets, where \<open>n\<close> is what the window has room for,
  numbered from the next ID on, and keeps the others.
\<close>

lemma raw_queue_sent_in_order:
  assumes "logs enc cb" "n = min (length (k_raw_queue k)) (send_room (k_rel_send k))"
  shows "\<exists>k'. down_stack_raw cb now k = (Inr (), k')
    \<and> k_par k' = k_par k @ map (\<lambda>j. (enc (rs_next (k_rel_send k) + of_nat j) (k_raw_queue k ! j), NET_SEND_RAW)) [0..<n]
    \<and> k_raw_queue k' = drop n (k_raw_queue k) \<and> rs_next (k_rel_send k') = rs_next (k_rel_send k) + of_nat n"
proof -
  have "drop (send_room (k_rel_send k)) (k_raw_queue k) = drop n (k_raw_queue k)"
    by (simp add: assms(2) min_def)
  with down_stack_raw_log [OF assms(1), of now k] show ?thesis by (auto simp: assms(2))
qed

text \<open>
  Retransmission: when it is due, \<open>retransmit\<close> sends exactly the unacknowledged messages whose
  timer has run out, in the order of their IDs, and afterwards no message of the window is overdue.
\<close>

lemma retransmit_sends_overdue:
  fixes k :: "('p, 'ssl, ('p \<times> net_send_type) list) stack" and now :: vtime
  assumes "logs enc cb" "win_ok (rs_window (k_rel_send k))"
    and "unat (w_head (rs_window (k_rel_send k))) + unat (w_span (rs_window (k_rel_send k))) < 4294967296"
    and "\<not> k_invalidated k" "k_next_retransmit k \<le> now" "now < time_add now (k_tls_timeout k)"
  defines "msgs \<equiv> map (win_msg send_msg (rs_window (k_rel_send k)))
     [unat (w_head (rs_window (k_rel_send k))) ..< unat (w_head (rs_window (k_rel_send k))) + unat (w_span (rs_window (k_rel_send k)))]"
  shows "\<exists>k'. stack_retransmit cb now k = (Inr (), k')
    \<and> k_par k' = k_par k @ map (\<lambda>m. (the (m_packet m), NET_SEND_RETRANSMIT)) (filter (ready_retransmit now) msgs)
    \<and> (\<forall>n. unat (w_head (rs_window (k_rel_send k))) \<le> n
           \<longrightarrow> n < unat (w_head (rs_window (k_rel_send k))) + unat (w_span (rs_window (k_rel_send k)))
           \<longrightarrow> \<not> ready_retransmit now (win_msg send_msg (rs_window (k_rel_send k')) n))"
proof -
  let ?w = "rs_window (k_rel_send k)"
  obtain w where w: "retransmit_loop cb now (window_ids ?w) k = (Inr (), k\<lparr>k_rel_send := (k_rel_send k)\<lparr>rs_window := w\<rparr>,
      k_par := k_par k @ map (\<lambda>m. (the (m_packet m), NET_SEND_RETRANSMIT))
        (filter (ready_retransmit now) (map (\<lambda>i. win_msg send_msg ?w (unat i)) (window_ids ?w)))\<rparr>)"
    "win_ok w" "\<forall>n. win_msg send_msg w n = (let m = win_msg send_msg ?w n
         in if n \<in> unat ` set (window_ids ?w) \<and> ready_retransmit now m then reset_retransmit now (k_tls_timeout k) m else m)"
    using retransmit_loop_log [OF assms(1,2) distinct_window_ids window_ids_in, of ?w now] by blast
  have ms: "map (\<lambda>i. win_msg send_msg ?w (unat i)) (window_ids ?w) = msgs"
    using window_ids_nat [OF assms(3)] by (metis (no_types, lifting) comp_apply map_eq_conv map_map msgs_def)
  obtain d s' where u: "rs_until_retransmit now ((k_rel_send k)\<lparr>rs_window := w\<rparr>) = Inr (d, s')"
    "\<forall>n. win_msg send_msg (rs_window s') n = win_msg send_msg w n"
    using until_retransmit_eq [of "(k_rel_send k)\<lparr>rs_window := w\<rparr>" now] w(2) by auto
  have "\<not> ready_retransmit now (win_msg send_msg w n)"
    if "unat (w_head ?w) \<le> n" "n < unat (w_head ?w) + unat (w_span ?w)" for n
    using that w(3) assms(6) by (auto simp: window_ids_cover [OF assms(3)] Let_def ready_retransmit_def reset_retransmit_def)
  then show ?thesis
    using assms(4,5) w(1) u by (auto simp: stack_retransmit_def update_retransmit_def ms)
qed


text \<open>Callbacks and a stack for the witnesses: packets are numbers, the SSL object does nothing.\<close>

definition log_cb :: "(nat, unit, (nat \<times> net_send_type) list) callbacks" where
  "log_cb =
     \<lparr>ssl_start_handshake = \<lambda>s. s, ssl_write_cleartext = \<lambda>b s. (Inr (int (length b)), s),
      ssl_read_ciphertext_ready = \<lambda>s. False, ssl_read_ciphertext = \<lambda>s. (0, s),
      ssl_write_ciphertext = \<lambda>p s. s, ssl_read_cleartext_ready = \<lambda>s. False,
      ssl_read_cleartext = \<lambda>s. (Inr 0, [], s), pkt_is_raw = \<lambda>p. True,
      cb_encapsulate = \<lambda>i p x. (Inr (p + 100 * unat i), x),
      cb_decapsulate = \<lambda>p x. (Inr False, None, x), cb_generate_ack = \<lambda>(a, l). (Inr 0, a\<lparr>ra_data := []\<rparr>, l),
      cb_net_send = \<lambda>p ty l. l @ [(p, ty)], cb_app_recv = \<lambda>b l. (Inr (), [], l), cb_raw_recv = \<lambda>p l. (Inr (), [], l),
      cb_invalidate = \<lambda>l. l\<rparr>"

definition log_stack :: "(nat, unit, (nat \<times> net_send_type) list) stack" where
  "log_stack = (stack_init () (Duration 1024) 2 4 [])\<lparr>k_raw_queue := [7, 8, 9]\<rparr>"

lemma log_cb_logs: "logs (\<lambda>i p. p + 100 * unat i) log_cb"
  by (simp add: logs_def log_cb_def)

theorem invalidated_inert_witness:
  "stack_flush log_cb (Time 0) (log_stack\<lparr>k_invalidated := True\<rparr>) = (Inr (), log_stack\<lparr>k_invalidated := True\<rparr>)"
proof -
  have "k_invalidated (log_stack\<lparr>k_invalidated := True\<rparr>)" by simp
  from invalidated_inert [OF this, of log_cb 0 "[]" "Time 0" 0] show ?thesis by blast
qed

lemma raw_queue_sent_in_order_at:
  "\<exists>k'. down_stack_raw log_cb (Time 0) log_stack = (Inr (), k')
    \<and> k_par k' = [(7, NET_SEND_RAW), (108, NET_SEND_RAW)] \<and> k_raw_queue k' = [9]"
proof -
  have r: "send_room (k_rel_send log_stack) = 2" "rs_next (k_rel_send log_stack) = 0"
    "k_raw_queue log_stack = [7, 8, 9]" "k_par log_stack = []" by code_simp+
  have "(2 :: nat) = min (length (k_raw_queue log_stack)) (send_room (k_rel_send log_stack))" by (simp add: r)
  from raw_queue_sent_in_order [OF log_cb_logs this, of "Time 0"] show ?thesis
    by (auto simp: r upt_conv_Cons numeral_2_eq_2)
qed

lemma retransmit_sends_overdue_at:
  "\<exists>k'. stack_retransmit log_cb (Time 9) (log_stack\<lparr>k_next_retransmit := Time 5\<rparr>) = (Inr (), k') \<and> k_par k' = []"
proof -
  let ?k = "log_stack\<lparr>k_next_retransmit := Time 5\<rparr>"
  have w: "rs_window (k_rel_send log_stack) = \<lparr>w_head = 0, w_span = 2, w_q = []\<rparr>" "\<not> k_invalidated log_stack"
    "k_tls_timeout log_stack = Duration 1024" "k_par log_stack = []" by code_simp+
  have nv: "\<not> k_invalidated ?k" "k_par ?k = []" by (simp_all add: w)
  have "time_add (Time 9) (k_tls_timeout ?k) = Time 1033" by (simp add: w) code_simp
  then have t: "Time 9 < time_add (Time 9) (k_tls_timeout ?k)" by (simp add: less_vtime_def)
  have m: "win_msg send_msg (rs_window (k_rel_send log_stack)) n = send_msg" for n by (simp add: w win_msg_def)
  have ok: "win_ok (rs_window (k_rel_send ?k))"
    "unat (w_head (rs_window (k_rel_send ?k))) + unat (w_span (rs_window (k_rel_send ?k))) < 4294967296"
    by (simp_all add: w win_ok_def)
  have le: "k_next_retransmit ?k \<le> Time 9" by (simp add: w less_eq_vtime_def)
  from retransmit_sends_overdue [OF log_cb_logs ok nv(1) le t]
  have "\<exists>k'. stack_retransmit log_cb (Time 9) ?k = (Inr (), k') \<and> k_par k' = k_par ?k @
     map (\<lambda>m. (the (m_packet m), NET_SEND_RETRANSMIT)) (filter (ready_retransmit (Time 9))
       (map (win_msg send_msg (rs_window (k_rel_send ?k)))
         [unat (w_head (rs_window (k_rel_send ?k))) ..< unat (w_head (rs_window (k_rel_send ?k))) + unat (w_span (rs_window (k_rel_send ?k)))]))"
    by blast
  moreover have "filter (ready_retransmit (Time 9)) (map (win_msg send_msg (rs_window (k_rel_send ?k))) xs) = []" for xs
    by (simp add: m filter_empty_conv ready_retransmit_def send_class.new_fresh)
  ultimately show ?thesis unfolding nv(2) by simp
qed

end
