(* ===== verification/Proto_Packets.thy ===== *)
theory Proto_Packets
  imports Text_Codecs Reliable
begin

text \<open>
  The packet formats of \<^verbatim>\<open>ssl/proto.hpp\<close>: the head byte of opcode and key ID, the 32-bit head of
  \<^verbatim>\<open>DATA_V2\<close>, the classification of a received packet (\<open>PacketType\<close>), the keepalive message, the
  session IDs of \<^verbatim>\<open>ssl/psid.hpp\<close> and the strings of the key exchange.
\<close>


section \<open>Opcodes and key IDs\<close>

abbreviation (input) CONTROL_SOFT_RESET_V1 :: u32 where "CONTROL_SOFT_RESET_V1 \<equiv> 3"
abbreviation (input) CONTROL_V1 :: u32 where "CONTROL_V1 \<equiv> 4"
abbreviation (input) ACK_V1 :: u32 where "ACK_V1 \<equiv> 5"
abbreviation (input) DATA_V1 :: u32 where "DATA_V1 \<equiv> 6"
abbreviation (input) CONTROL_HARD_RESET_CLIENT_V2 :: u32 where "CONTROL_HARD_RESET_CLIENT_V2 \<equiv> 7"
abbreviation (input) CONTROL_HARD_RESET_SERVER_V2 :: u32 where "CONTROL_HARD_RESET_SERVER_V2 \<equiv> 8"
abbreviation (input) DATA_V2 :: u32 where "DATA_V2 \<equiv> 9"
abbreviation (input) CONTROL_HARD_RESET_CLIENT_V3 :: u32 where "CONTROL_HARD_RESET_CLIENT_V3 \<equiv> 10"
abbreviation (input) INVALID_OPCODE :: u32 where "INVALID_OPCODE \<equiv> 0"
abbreviation (input) KEY_ID_MASK :: u32 where "KEY_ID_MASK \<equiv> 7"
abbreviation (input) OP_SIZE_V2 :: nat where "OP_SIZE_V2 \<equiv> 4"
abbreviation (input) OP_PEER_ID_UNDEF :: int where "OP_PEER_ID_UNDEF \<equiv> 0x00FFFFFF"

definition opcode_extract :: "u32 \<Rightarrow> u32" where
  "opcode_extract op = drop_bit 3 op"

definition key_id_extract :: "u32 \<Rightarrow> u32" where
  "key_id_extract op = op AND KEY_ID_MASK"

definition op_head_size :: "u32 \<Rightarrow> nat" where
  "op_head_size op = (if opcode_extract op = DATA_V2 then OP_SIZE_V2 else 1)"

definition op_compose :: "u32 \<Rightarrow> u32 \<Rightarrow> u32" where
  "op_compose opcode key_id = push_bit 3 opcode OR key_id"

definition op32_compose :: "u32 \<Rightarrow> u32 \<Rightarrow> int \<Rightarrow> u32" where
  "op32_compose opcode key_id op_peer_id =
     push_bit 24 (op_compose opcode key_id) OR (word_of_int op_peer_id AND 0x00FFFFFF)"

definition opcode_name :: "u32 \<Rightarrow> string option" where
  "opcode_name opcode =
     (if opcode = CONTROL_SOFT_RESET_V1 then Some ''CONTROL_SOFT_RESET_V1''
      else if opcode = CONTROL_V1 then Some ''CONTROL_V1''
      else if opcode = ACK_V1 then Some ''ACK_V1''
      else if opcode = DATA_V1 then Some ''DATA_V1''
      else if opcode = DATA_V2 then Some ''DATA_V2''
      else if opcode = CONTROL_HARD_RESET_CLIENT_V2 then Some ''CONTROL_HARD_RESET_CLIENT_V2''
      else if opcode = CONTROL_HARD_RESET_CLIENT_V3 then Some ''CONTROL_HARD_RESET_CLIENT_V3''
      else if opcode = CONTROL_HARD_RESET_SERVER_V2 then Some ''CONTROL_HARD_RESET_SERVER_V2''
      else None)"


section \<open>Keepalive and exit messages\<close>

definition keepalive_message :: "byte list" where
  "keepalive_message =
     [0x2a, 0x18, 0x7b, 0xf3, 0x64, 0x1e, 0xb4, 0xcb, 0x07, 0xed, 0x2d, 0x0a, 0x98, 0x1f, 0xc7, 0x48]"

definition explicit_exit_notify_message :: "byte list" where
  "explicit_exit_notify_message =
     [0x28, 0x7f, 0x34, 0x6b, 0xd4, 0xef, 0x7a, 0x81, 0x2d, 0x56, 0xb8, 0xd3, 0xaf, 0xc5, 0x45, 0x9c, 6]"

definition is_keepalive :: "buf \<Rightarrow> bool" where
  "is_keepalive b \<longleftrightarrow>
     b_size b \<ge> length keepalive_message \<and> buf_index 0 b = Inr 0x2a
     \<and> take (length keepalive_message) (drop (b_offset b) (b_mem b)) = keepalive_message"


section \<open>Session IDs\<close>

text \<open>
  \<^verbatim>\<open>ssl/psid.hpp\<close>. The array of an undefined ID is zero; \<open>SIZE\<close> random bytes are an argument of
  \<open>randomize\<close>, the generator being a library.
\<close>

abbreviation (input) PSID_SIZE :: nat where "PSID_SIZE \<equiv> 8"

record psid =
  psid_is_defined :: bool
  psid_id :: "byte list"

definition psid_reset :: psid where
  "psid_reset = \<lparr>psid_is_defined = False, psid_id = replicate PSID_SIZE 0\<rparr>"

definition psid_randomize :: "byte list \<Rightarrow> psid" where
  "psid_randomize rand_bytes = \<lparr>psid_is_defined = True, psid_id = take PSID_SIZE rand_bytes\<rparr>"

definition psid_read :: "buf \<Rightarrow> (psid \<times> buf) res" where
  "psid_read b =
     bindE (buf_read PSID_SIZE b) (\<lambda>(xs, b). Inr (\<lparr>psid_is_defined = True, psid_id = xs\<rparr>, b))"

definition psid_write :: "(nat \<Rightarrow> byte) \<Rightarrow> psid \<Rightarrow> buf \<Rightarrow> buf res" where
  "psid_write junk p b = buf_write junk (psid_id p) b"

definition psid_prepend :: "psid \<Rightarrow> buf \<Rightarrow> buf res" where
  "psid_prepend p b = buf_prepend (psid_id p) b"

definition psid_match :: "psid \<Rightarrow> psid \<Rightarrow> bool" where
  "psid_match p q \<longleftrightarrow> psid_is_defined p \<and> psid_is_defined q \<and> psid_id p = psid_id q"

definition psid_str :: "psid \<Rightarrow> string" where
  "psid_str p = render_hex (Some (psid_id p)) False"


section \<open>What a packet off the network is\<close>

abbreviation (input) PT_DEFINED :: u32 where "PT_DEFINED \<equiv> 1"
abbreviation (input) PT_CONTROL :: u32 where "PT_CONTROL \<equiv> 2"
abbreviation (input) PT_SECONDARY :: u32 where "PT_SECONDARY \<equiv> 4"
abbreviation (input) PT_SOFT_RESET :: u32 where "PT_SOFT_RESET \<equiv> 8"

record packet_type =
  pt_flags :: u32
  pt_opcode :: u32
  pt_peer_id :: int

text \<open>
  What \<open>PacketType\<close> reads of the \<open>ProtoContext\<close>: whether it is a server, the key IDs of its two
  key contexts, if there, and the ID the next negotiated key will have.
\<close>

record key_ids =
  ki_server :: bool
  ki_primary :: "u32 option"
  ki_secondary :: "u32 option"
  ki_upcoming :: u32

text \<open>The \<open>switch\<close> on the opcode; \<open>None\<close> is the early return, which leaves the flags at 0.\<close>

definition examine_opcode :: "buf \<Rightarrow> u32 \<Rightarrow> bool \<Rightarrow> packet_type option" where
  "examine_opcode b opc server =
     (if opc = CONTROL_SOFT_RESET_V1 \<or> opc = CONTROL_V1 \<or> opc = ACK_V1
      then Some \<lparr>pt_flags = PT_CONTROL, pt_opcode = opc, pt_peer_id = - 1\<rparr>
      else if opc = DATA_V2
      then (if b_size b < 4 then None
            else (let opi = uint (of_be32 (take 4 (drop (b_offset b) (b_mem b))) AND 0x00FFFFFF)
                  in Some \<lparr>pt_flags = 0, pt_opcode = opc,
                           pt_peer_id = (if opi \<noteq> OP_PEER_ID_UNDEF then opi else - 1)\<rparr>))
      else if opc = DATA_V1
      then Some \<lparr>pt_flags = 0, pt_opcode = opc, pt_peer_id = - 1\<rparr>
      else if opc = CONTROL_HARD_RESET_CLIENT_V2 \<or> opc = CONTROL_HARD_RESET_CLIENT_V3
      then (if \<not> server then None
            else Some \<lparr>pt_flags = PT_CONTROL, pt_opcode = opc, pt_peer_id = - 1\<rparr>)
      else if opc = CONTROL_HARD_RESET_SERVER_V2
      then (if server then None
            else Some \<lparr>pt_flags = PT_CONTROL, pt_opcode = opc, pt_peer_id = - 1\<rparr>)
      else None)"

definition packet_type_of :: "buf \<Rightarrow> key_ids \<Rightarrow> packet_type" where
  "packet_type_of b ki =
     (let undef = \<lparr>pt_flags = 0, pt_opcode = INVALID_OPCODE, pt_peer_id = - 1\<rparr>
      in case buf_index 0 b of
           Inl _ \<Rightarrow> undef
         | Inr x \<Rightarrow>
             (let op = ucast x :: u32
              in case examine_opcode b (opcode_extract op) (ki_server ki) of
                   None \<Rightarrow> undef
                 | Some t \<Rightarrow>
                     (let kid = key_id_extract op
                      in t\<lparr>pt_flags :=
                           (if ki_primary ki = Some kid then pt_flags t OR PT_DEFINED
                            else if ki_secondary ki = Some kid
                            then pt_flags t OR (PT_DEFINED OR PT_SECONDARY)
                            else if pt_opcode t = CONTROL_SOFT_RESET_V1 \<and> kid = ki_upcoming ki
                            then pt_flags t OR (PT_DEFINED OR PT_SECONDARY OR PT_SOFT_RESET)
                            else pt_flags t)\<rparr>)))"

definition pt_is_defined :: "packet_type \<Rightarrow> bool" where
  "pt_is_defined t \<longleftrightarrow> pt_flags t AND PT_DEFINED \<noteq> 0"

definition pt_is_control :: "packet_type \<Rightarrow> bool" where
  "pt_is_control t \<longleftrightarrow> pt_flags t AND (PT_CONTROL OR PT_DEFINED) = (PT_CONTROL OR PT_DEFINED)"

definition pt_is_data :: "packet_type \<Rightarrow> bool" where
  "pt_is_data t \<longleftrightarrow> pt_flags t AND (PT_CONTROL OR PT_DEFINED) = PT_DEFINED"

definition pt_is_soft_reset :: "packet_type \<Rightarrow> bool" where
  "pt_is_soft_reset t \<longleftrightarrow>
     pt_flags t AND (PT_CONTROL OR PT_DEFINED OR PT_SECONDARY OR PT_SOFT_RESET)
       = (PT_CONTROL OR PT_DEFINED OR PT_SECONDARY OR PT_SOFT_RESET)"


section \<open>Strings of the key exchange\<close>

text \<open>Strings are their bytes here; \<open>c_str()\<close> of a string gives all of them.\<close>

definition write_string_length :: "(nat \<Rightarrow> byte) \<Rightarrow> nat \<Rightarrow> buf \<Rightarrow> buf res" where
  "write_string_length junk sz b =
     (if sz > 0xFFFF then Inl (Proto_error ''auth_string_overflow'')
      else buf_write junk (be16 (of_nat sz)) b)"

definition read_string_length :: "buf \<Rightarrow> (nat \<times> buf) res" where
  "read_string_length b =
     (if b_size b \<noteq> 0 then bindE (buf_read 2 b) (\<lambda>(xs, b). Inr (unat (of_be16 xs), b))
      else Inr (0, b))"

definition write_auth_string :: "(nat \<Rightarrow> byte) \<Rightarrow> byte list \<Rightarrow> buf \<Rightarrow> buf res" where
  "write_auth_string junk str b =
     (let len = length str
      in if len \<noteq> 0
         then bindE (write_string_length junk (sz_add len 1) b) (\<lambda>b.
              bindE (buf_write junk str b) (buf_null_terminate junk))
         else write_string_length junk 0 b)"

definition read_auth_string :: "buf \<Rightarrow> (byte list \<times> buf) res" where
  "read_auth_string b =
     bindE (read_string_length b) (\<lambda>(len, b).
       if len \<noteq> 0
       then bindE (buf_read len b) (\<lambda>(xs, b).
              Inr (if len > 1 then take (len - 1) xs else [], b))
       else Inr ([], b))"

definition write_control_string :: "(nat \<Rightarrow> byte) \<Rightarrow> byte list \<Rightarrow> buf \<Rightarrow> buf res" where
  "write_control_string junk str b = bindE (buf_write junk str b) (buf_null_terminate junk)"

definition read_control_string :: "buf \<Rightarrow> byte list" where
  "read_control_string b =
     (let sz = b_size b
      in if sz \<noteq> 0
         then (let sz = (if buf_index (sz - 1) b = Inr 0 then sz - 1 else sz)
               in if sz \<noteq> 0 then take sz (drop (b_offset b) (b_mem b)) else [])
         else [])"

definition skip_string :: "buf \<Rightarrow> buf res" where
  "skip_string b = bindE (read_string_length b) (\<lambda>(len, b). bindE (buf_read len b) (\<lambda>(_, b). Inr b))"

definition write_empty_string :: "(nat \<Rightarrow> byte) \<Rightarrow> buf \<Rightarrow> buf res" where
  "write_empty_string junk b = write_string_length junk 0 b"

section \<open>The head byte\<close>

lemma take_bit_self_iff: "take_bit n (w :: 'a::len word) = w \<longleftrightarrow> unat w < 2 ^ n"
proof -
  have "take_bit n w = w \<longleftrightarrow> unat (take_bit n w) = unat w" by (simp add: word_unat_eq_iff)
  also have "\<dots> \<longleftrightarrow> take_bit n (unat w) = unat w" by (simp only: unsigned_take_bit_eq)
  finally show ?thesis by (simp add: take_bit_nat_eq_self_iff)
qed

lemma bit_beyond_bound: "unat (w :: 'a::len word) < 2 ^ n \<Longrightarrow> n \<le> m \<Longrightarrow> \<not> bit w m"
  by (metis bit_take_bit_iff not_le take_bit_self_iff)

lemma op_compose_extract:
  assumes "opcode < 32" "key_id < 8"
  shows "opcode_extract (op_compose opcode key_id) = opcode" "key_id_extract (op_compose opcode key_id) = key_id"
    "op_compose opcode key_id < 256"
proof -
  have o: "\<not> bit opcode n" if "5 \<le> n" for n
    using bit_beyond_bound [of opcode 5 n] assms(1) that by (simp add: word_less_nat_alt)
  have k: "\<not> bit key_id n" if "3 \<le> n" for n
    using bit_beyond_bound [of key_id 3 n] assms(2) that by (simp add: word_less_nat_alt)
  show "opcode_extract (op_compose opcode key_id) = opcode"
    unfolding opcode_extract_def op_compose_def
    by (rule bit_word_eqI) (use k o in \<open>auto simp: bit_simps not_less intro: ccontr\<close>)
  have m: "w AND KEY_ID_MASK = take_bit 3 w" for w
    by (simp add: take_bit_eq_mask mask_eq_exp_minus_1)
  show "key_id_extract (op_compose opcode key_id) = key_id"
    unfolding key_id_extract_def op_compose_def m
    by (rule bit_word_eqI) (auto simp: bit_simps k intro: ccontr)
  have "take_bit 8 (op_compose opcode key_id) = op_compose opcode key_id"
    unfolding op_compose_def
  proof (rule bit_word_eqI)
    fix n
    show "bit (take_bit 8 (push_bit 3 opcode OR key_id)) n \<longleftrightarrow> bit (push_bit 3 opcode OR key_id) n"
    proof (cases "n < 8")
      case False
      then show ?thesis using k [of n] o [of "n - 3"] by (simp add: bit_simps)
    qed (simp add: bit_simps)
  qed
  then show "op_compose opcode key_id < 256"
    using take_bit_self_iff [of 8 "op_compose opcode key_id"] by (simp add: word_less_nat_alt)
qed

lemma op_byte_widen: "op < 256 \<Longrightarrow> ucast (ucast (op :: u32) :: byte) = op"
  using take_bit_self_iff [of 8 op] by (simp add: word_less_nat_alt unsigned_ucast_eq word_unat_eq_iff take_bit_eq_mod)

lemma be32_op32:
  "be32 (op32_compose opcode key_id peer) = ucast (op_compose opcode key_id) #
     tl (be32 (word_of_int peer AND 0x00FFFFFF))"
  and op32_peer:
  "of_be32 (be32 (op32_compose opcode key_id peer)) AND 0x00FFFFFF = word_of_int peer AND 0x00FFFFFF"
proof -
  have m: "0x00FFFFFF = (mask 24 :: u32)" by (simp add: mask_eq_exp_minus_1)
  show "be32 (op32_compose opcode key_id peer) = ucast (op_compose opcode key_id) #
     tl (be32 (word_of_int peer AND 0x00FFFFFF))"
    unfolding be32_def op32_compose_def m
    by (auto intro!: bit_word_eqI simp: bit_simps)
  show "of_be32 (be32 (op32_compose opcode key_id peer)) AND 0x00FFFFFF = word_of_int peer AND 0x00FFFFFF"
    unfolding of_be32_be32 op32_compose_def m
    by (auto intro!: bit_word_eqI simp: bit_simps)
qed

lemma peer_id_bits: "0 \<le> peer \<Longrightarrow> peer \<le> 0x00FFFFFF \<Longrightarrow> uint ((word_of_int peer :: u32) AND 0x00FFFFFF) = peer"
proof -
  assume p: "0 \<le> peer" "peer \<le> 0x00FFFFFF"
  have "(word_of_int peer :: u32) AND 0x00FFFFFF = take_bit 24 (word_of_int peer)"
    by (simp add: take_bit_eq_mask mask_eq_exp_minus_1)
  then have "uint ((word_of_int peer :: u32) AND 0x00FFFFFF) = take_bit 24 (uint (word_of_int peer :: u32))"
    by (simp only: unsigned_take_bit_eq)
  then show ?thesis using p by (simp add: uint_word_of_int take_bit_eq_mod)
qed

lemma index_0:
  assumes "buf_wf b"
  shows "buf_index 0 b = (case contents b of [] \<Rightarrow> Inl (Buffer_exn Buffer_const_index) | x # _ \<Rightarrow> Inr x)"
  using length_contents [OF assms] contents_nth [OF assms, of 0]
  by (cases "contents b") (auto simp: buf_index_def)


section \<open>Classification\<close>

text \<open>What a packet may be: its opcode, as far as its role and length allow it.\<close>

definition legal_opcode :: "buf \<Rightarrow> u32 \<Rightarrow> bool \<Rightarrow> bool" where
  "legal_opcode b opc server \<longleftrightarrow>
     opc \<in> {CONTROL_SOFT_RESET_V1, CONTROL_V1, ACK_V1, DATA_V1}
     \<or> opc = DATA_V2 \<and> 4 \<le> b_size b
     \<or> opc \<in> {CONTROL_HARD_RESET_CLIENT_V2, CONTROL_HARD_RESET_CLIENT_V3} \<and> server
     \<or> opc = CONTROL_HARD_RESET_SERVER_V2 \<and> \<not> server"

lemma examine_opcode_Some:
  "examine_opcode b opc server = Some t \<Longrightarrow>
   legal_opcode b opc server \<and> pt_opcode t = opc
   \<and> pt_flags t = (if opc = DATA_V1 \<or> opc = DATA_V2 then 0 else PT_CONTROL)"
  by (auto simp: examine_opcode_def legal_opcode_def Let_def split: if_splits)

lemma examine_opcode_None: "examine_opcode b opc server = None \<longleftrightarrow> \<not> legal_opcode b opc server"
  by (auto simp: examine_opcode_def legal_opcode_def Let_def)

definition key_flags :: "u32 \<Rightarrow> u32 \<Rightarrow> key_ids \<Rightarrow> u32" where
  "key_flags opc kid ki =
     (if ki_primary ki = Some kid then PT_DEFINED
      else if ki_secondary ki = Some kid then PT_DEFINED OR PT_SECONDARY
      else if opc = CONTROL_SOFT_RESET_V1 \<and> kid = ki_upcoming ki
      then PT_DEFINED OR PT_SECONDARY OR PT_SOFT_RESET else 0)"

lemma packet_type_of_cases:
  assumes "buf_wf b" "contents b = x # rest"
  shows "packet_type_of b ki =
    (case examine_opcode b (opcode_extract (ucast x)) (ki_server ki) of
       None \<Rightarrow> \<lparr>pt_flags = 0, pt_opcode = INVALID_OPCODE, pt_peer_id = - 1\<rparr>
     | Some t \<Rightarrow> t\<lparr>pt_flags := pt_flags t OR key_flags (opcode_extract (ucast x)) (key_id_extract (ucast x)) ki\<rparr>)"
  using index_0 [OF assms(1)] assms(2)
  by (auto simp: packet_type_of_def Let_def key_flags_def dest!: examine_opcode_Some split: option.split)

definition soft_reset_key :: "u32 \<Rightarrow> u32 \<Rightarrow> key_ids \<Rightarrow> bool" where
  "soft_reset_key opc kid ki \<longleftrightarrow>
     opc = CONTROL_SOFT_RESET_V1 \<and> kid = ki_upcoming ki \<and> ki_primary ki \<noteq> Some kid \<and> ki_secondary ki \<noteq> Some kid"

lemma key_flags_cases:
  "key_flags opc kid ki =
     (if soft_reset_key opc kid ki then 13 else if ki_primary ki = Some kid then 1
      else if ki_secondary ki = Some kid then 5 else 0)"
  by (auto simp: key_flags_def soft_reset_key_def)

lemma packet_type_flags:
  fixes ki :: key_ids
  assumes "buf_wf b" "contents b = x # rest"
  defines "opc \<equiv> opcode_extract (ucast x)" and "kid \<equiv> key_id_extract (ucast x)"
  shows "pt_is_defined (packet_type_of b ki) \<longleftrightarrow> legal_opcode b opc (ki_server ki)
      \<and> (ki_primary ki = Some kid \<or> ki_secondary ki = Some kid \<or> soft_reset_key opc kid ki)"
    "pt_is_data (packet_type_of b ki) \<longleftrightarrow>
      pt_is_defined (packet_type_of b ki) \<and> opc \<in> {DATA_V1, DATA_V2}"
    "pt_is_control (packet_type_of b ki) \<longleftrightarrow>
      pt_is_defined (packet_type_of b ki) \<and> opc \<notin> {DATA_V1, DATA_V2}"
    "pt_is_soft_reset (packet_type_of b ki) \<longleftrightarrow> soft_reset_key opc kid ki"
    "pt_is_defined (packet_type_of b ki) \<Longrightarrow> pt_opcode (packet_type_of b ki) = opc"
proof -
  define a where "a = key_flags opc kid ki"
  have pt: "packet_type_of b ki = (case examine_opcode b opc (ki_server ki) of
       None \<Rightarrow> \<lparr>pt_flags = 0, pt_opcode = INVALID_OPCODE, pt_peer_id = - 1\<rparr>
     | Some t \<Rightarrow> t\<lparr>pt_flags := pt_flags t OR a\<rparr>)"
    unfolding a_def opc_def kid_def by (rule packet_type_of_cases [OF assms(1,2)])
  have soft: "soft_reset_key opc kid ki \<Longrightarrow> opc = CONTROL_SOFT_RESET_V1 \<and> legal_opcode b opc (ki_server ki)"
    by (simp add: soft_reset_key_def legal_opcode_def)
  note d = pt_is_defined_def pt_is_data_def pt_is_control_def pt_is_soft_reset_def
  consider (none) "examine_opcode b opc (ki_server ki) = None" "\<not> legal_opcode b opc (ki_server ki)"
    | (some) t where "examine_opcode b opc (ki_server ki) = Some t" "legal_opcode b opc (ki_server ki)" "pt_opcode t = opc"
      "pt_flags t = (if opc = DATA_V1 \<or> opc = DATA_V2 then 0 else PT_CONTROL)"
    using examine_opcode_None examine_opcode_Some by (cases "examine_opcode b opc (ki_server ki)") blast+
  note c = this
  have a: "a = 13 \<and> soft_reset_key opc kid ki \<and> opc = CONTROL_SOFT_RESET_V1
    \<or> a = 1 \<and> ki_primary ki = Some kid \<and> \<not> soft_reset_key opc kid ki
    \<or> a = 5 \<and> ki_secondary ki = Some kid \<and> \<not> soft_reset_key opc kid ki
    \<or> a = 0 \<and> ki_primary ki \<noteq> Some kid \<and> ki_secondary ki \<noteq> Some kid \<and> \<not> soft_reset_key opc kid ki"
    unfolding a_def key_flags_cases using soft by auto
  show "pt_is_defined (packet_type_of b ki) \<longleftrightarrow> legal_opcode b opc (ki_server ki)
      \<and> (ki_primary ki = Some kid \<or> ki_secondary ki = Some kid \<or> soft_reset_key opc kid ki)"
    using c a soft by cases (elim disjE; auto simp: pt d)+
  show "pt_is_data (packet_type_of b ki) \<longleftrightarrow>
      pt_is_defined (packet_type_of b ki) \<and> opc \<in> {DATA_V1, DATA_V2}"
    using c a by cases (elim disjE; simp add: pt d)+
  show "pt_is_control (packet_type_of b ki) \<longleftrightarrow>
      pt_is_defined (packet_type_of b ki) \<and> opc \<notin> {DATA_V1, DATA_V2}"
    using c a by cases (elim disjE; simp add: pt d)+
  show "pt_is_soft_reset (packet_type_of b ki) \<longleftrightarrow> soft_reset_key opc kid ki"
    using c a soft by cases (elim disjE; auto simp: pt d)+
  show "pt_is_defined (packet_type_of b ki) \<Longrightarrow> pt_opcode (packet_type_of b ki) = opc"
    using c by cases (simp_all add: pt d)
qed

section \<open>Strings on the wire\<close>

definition auth_bytes :: "byte list \<Rightarrow> byte list" where
  "auth_bytes str = (if str = [] then be16 0 else be16 (of_nat (length str + 1)) @ str @ [0])"

definition auth_string :: "byte list \<Rightarrow> bool" where
  "auth_string str \<longleftrightarrow> length str < 0xFFFF \<and> (str \<noteq> [] \<longrightarrow> last str \<noteq> 0)"

fun write_auth_strings :: "(nat \<Rightarrow> byte) \<Rightarrow> byte list list \<Rightarrow> buf \<Rightarrow> buf res" where
  "write_auth_strings junk [] b = Inr b"
| "write_auth_strings junk (s # strs) b = bindE (write_auth_string junk s b) (write_auth_strings junk strs)"

fun read_auth_strings :: "nat \<Rightarrow> buf \<Rightarrow> (byte list list \<times> buf) res" where
  "read_auth_strings 0 b = Inr ([], b)"
| "read_auth_strings (Suc n) b =
     bindE (read_auth_string b) (\<lambda>(s, b). bindE (read_auth_strings n b) (\<lambda>(strs, b). Inr (s # strs, b)))"

lemma null_terminate_write:
  assumes "buf_wf b" "contents b = [] \<or> last (contents b) \<noteq> 0"
  shows "buf_null_terminate junk b = buf_write junk [0] b"
proof (cases "b_size b = 0")
  case False
  then have "contents b \<noteq> []" "sz_sub (b_size b) 1 = b_size b - 1"
    using assms(1) length_contents [OF assms(1)] by (auto simp: buf_wf_def simp flip: length_0_conv)
  then have "buf_back b = Inr (last (contents b))"
    using False assms(1) by (simp add: buf_back_def buf_index_def last_conv_nth contents_nth)
  then show ?thesis
    using False assms \<open>contents b \<noteq> []\<close> by (simp add: buf_null_terminate_def push_back_write)
qed (simp add: buf_null_terminate_def push_back_write [OF assms(1)])

lemma of_be16_length: "n < 65536 \<Longrightarrow> unat (of_be16 (be16 (of_nat n))) = n"
  by (simp add: unat_of_nat)

lemma write_auth_string_parts:
  assumes "s \<noteq> []" "length s < 0xFFFF" "write_auth_string junk s b = Inr b'"
  obtains b1 b2 where "buf_write junk (be16 (of_nat (length s + 1))) b = Inr b1"
    "buf_write junk s b1 = Inr b2" "buf_null_terminate junk b2 = Inr b'"
proof -
  have "write_auth_string junk s b = bindE (buf_write junk (be16 (of_nat (length s + 1))) b)
      (\<lambda>b. bindE (buf_write junk s b) (buf_null_terminate junk))"
    using assms(1,2) by (simp add: write_auth_string_def write_string_length_def)
  with assms(3) that show ?thesis by (auto simp: bindE_Inr_iff)
qed

lemma write_auth_string_Inr:
  assumes "buf_wf b" "auth_string s" "write_auth_string junk s b = Inr b'"
    "b_offset b + b_size b + length s + 3 < size_t_limit"
  shows "buf_wf b' \<and> contents b' = contents b @ auth_bytes s \<and> b_offset b' = b_offset b"
proof (cases "s = []")
  case True
  then have "buf_write junk (be16 0) b = Inr b'"
    using assms(3) by (simp add: write_auth_string_def write_string_length_def)
  from write_Inr [OF this assms(1)] assms(4) True show ?thesis by (simp add: auth_bytes_def)
next
  case False
  then obtain b1 b2 where w: "buf_write junk (be16 (of_nat (length s + 1))) b = Inr b1"
    "buf_write junk s b1 = Inr b2" "buf_null_terminate junk b2 = Inr b'"
    using assms(2,3) by (auto simp: auth_string_def elim: write_auth_string_parts)
  from write_Inr [OF w(1) assms(1)] have
    1: "buf_wf b1" "contents b1 = contents b @ be16 (of_nat (length s + 1))" "b_offset b1 = b_offset b"
    using assms(4) by simp_all
  have s1: "b_size b1 = b_size b + 2" using arg_cong [OF 1(2), of length] 1(1) assms(1) by simp
  from write_Inr [OF w(2) 1(1)] have 2: "buf_wf b2" "contents b2 = contents b1 @ s" "b_offset b2 = b_offset b"
    using assms(4) s1 1(3) by simp_all
  have s2: "b_size b2 = b_size b + 2 + length s" using arg_cong [OF 2(2), of length] s1 2(1) 1(1) by simp
  have "last (contents b2) \<noteq> 0" "b_size b2 \<noteq> 0" using False assms(2) s2 by (auto simp: 2(2) auth_string_def)
  then have "buf_write junk [0] b2 = Inr b'"
    using w(3) null_terminate_write [OF 2(1)] by simp
  from write_Inr [OF this 2(1)] show ?thesis
    using assms(4) s2 2 1 False by (simp add: auth_bytes_def)
qed


lemma read_auth_string_bytes:
  assumes "buf_wf b" "auth_string s" "contents b = auth_bytes s @ rest"
  shows "\<exists>b'. read_auth_string b = Inr (s, b') \<and> buf_wf b' \<and> contents b' = rest"
proof -
  let ?l = "if s = [] then 0 else length s + 1" and ?t = "if s = [] then [] else s @ [0]"
  have c: "contents b = be16 (of_nat ?l) @ ?t @ rest" using assms(3) by (simp add: auth_bytes_def)
  have "b_size b = length (contents b)" using assms(1) by simp
  then have "b_size b \<noteq> 0" by (simp only: c) simp
  moreover obtain b1 where b1: "buf_read 2 b = Inr (be16 (of_nat ?l), b1)" "buf_wf b1" "contents b1 = ?t @ rest"
    using bufq.read_prefix [OF assms(1) c] by auto
  moreover have "unat (of_be16 (be16 (of_nat ?l))) = ?l"
    using assms(2) by (intro of_be16_length) (auto simp: auth_string_def)
  ultimately have len: "read_string_length b = Inr (?l, b1)"
    by (simp add: read_string_length_def del: of_be16_be16)
  show ?thesis
  proof (cases "s = []")
    case True
    then show ?thesis using len b1 by (simp add: read_auth_string_def)
  next
    case False
    then obtain b2 where "buf_read (length s + 1) b1 = Inr (s @ [0], b2)" "buf_wf b2" "contents b2 = rest"
      using bufq.read_prefix [OF b1(2), of "s @ [0]" rest] b1(3) by auto
    then show ?thesis using len False by (simp add: read_auth_string_def)
  qed
qed

lemma read_auth_strings_bytes:
  "buf_wf b \<Longrightarrow> list_all auth_string strs \<Longrightarrow> contents b = concat (map auth_bytes strs) @ rest \<Longrightarrow>
   \<exists>b'. read_auth_strings (length strs) b = Inr (strs, b') \<and> contents b' = rest"
proof (induction strs arbitrary: b)
  case (Cons s strs)
  then obtain b1 where "read_auth_string b = Inr (s, b1)" "buf_wf b1" "contents b1 = concat (map auth_bytes strs) @ rest"
    using read_auth_string_bytes [of b s "concat (map auth_bytes strs) @ rest"] by auto
  with Cons.IH [of b1] Cons.prems show ?case by auto
qed simp

lemma length_auth_bytes: "length (auth_bytes s) \<le> length s + 3"
  by (simp add: auth_bytes_def)

lemma write_auth_strings_Inr:
  "buf_wf b \<Longrightarrow> list_all auth_string strs \<Longrightarrow> write_auth_strings junk strs b = Inr b' \<Longrightarrow>
   b_offset b + b_size b + (\<Sum>s\<leftarrow>strs. length s + 3) < size_t_limit \<Longrightarrow>
   buf_wf b' \<and> contents b' = contents b @ concat (map auth_bytes strs)"
proof (induction strs arbitrary: b)
  case (Cons s strs)
  then obtain b1 where b1: "write_auth_string junk s b = Inr b1" "write_auth_strings junk strs b1 = Inr b'"
    by auto
  from write_auth_string_Inr [OF Cons.prems(1) _ b1(1)] Cons.prems
  have w: "buf_wf b1" "contents b1 = contents b @ auth_bytes s" "b_offset b1 = b_offset b" by auto
  have "b_size b1 \<le> b_size b + length s + 3"
    using arg_cong [OF w(2), of length] w(1) Cons.prems(1) length_auth_bytes [of s] by simp
  with Cons.IH [OF w(1) _ b1(2)] Cons.prems w show ?case by auto
qed simp

text \<open>
  A string that ends in a NUL byte is written without the terminator its length field counts, so
  reading it back runs out of bytes.
\<close>

lemma auth_string_trailing_nul:
  assumes "length s < 0xFFFF" "s \<noteq> []" "last s = 0" "write_auth_string junk s b = Inr b'"
    "buf_wf b" "contents b = []" "b_offset b + length s + 3 < size_t_limit"
  shows "read_auth_string b' = Inl (Buffer_exn Buffer_underflow)"
proof -
  have b0: "b_size b = 0" using length_contents [OF assms(5)] assms(6) by simp
  obtain b1 b2 where w: "buf_write junk (be16 (of_nat (length s + 1))) b = Inr b1"
    "buf_write junk s b1 = Inr b2" "buf_null_terminate junk b2 = Inr b'"
    using write_auth_string_parts [OF assms(2,1,4)] by blast
  from write_Inr [OF w(1) assms(5)] have
    1: "buf_wf b1" "contents b1 = be16 (of_nat (length s + 1))" "b_offset b1 = b_offset b"
    using assms(6,7) b0 by simp_all
  have s1: "b_size b1 = 2" using arg_cong [OF 1(2), of length] 1(1) by simp
  from write_Inr [OF w(2) 1(1)] have 2: "buf_wf b2" "contents b2 = contents b1 @ s" "b_offset b2 = b_offset b"
    using assms(7) s1 1(3) by simp_all
  have s2: "b_size b2 = length s + 2" using arg_cong [OF 2(2), of length] s1 2(1) 1(1) by simp
  then have "buf_back b2 = Inr 0"
    using 2(1) contents_nth [OF 2(1), of "length s + 1"] assms(2,3) 2(2) s1 1(1)
      sz_sub_exact [of 1 "length s + 2"] assms(7)
    by (simp add: buf_back_def buf_index_def nth_append last_conv_nth)
  then have b': "b' = b2" using w(3) s2 by (simp add: buf_null_terminate_def)
  have c: "contents b2 = be16 (of_nat (length s + 1)) @ s" using 2(2) 1(2) by simp
  from bufq.read_prefix [OF 2(1) c] obtain b3 where b3: "buf_read 2 b2 = Inr (be16 (of_nat (length s + 1)), b3)"
    "buf_wf b3" "contents b3 = s" by auto
  then have "buf_read (length s + 1) b3 = Inl (Buffer_exn Buffer_underflow)"
    using bufq.read_short [OF b3(2)] by simp
  then show ?thesis
    using b3(1) s2 of_be16_length [of "length s + 1"] assms(1)
    by (simp add: b' read_auth_string_def read_string_length_def del: of_be16_be16 of_nat_add of_nat_Suc)
qed


text \<open>Only a packet that starts with the sixteen bytes of the ping message is a keepalive.\<close>

lemma is_keepalive_iff:
  assumes "buf_wf b"
  shows "is_keepalive b \<longleftrightarrow> take 16 (contents b) = keepalive_message"
proof -
  have k: "length keepalive_message = 16" "keepalive_message ! 0 = 0x2a" by (simp_all add: keepalive_message_def)
  show ?thesis
  proof (cases "16 \<le> b_size b")
    case True
    then have t: "take 16 (contents b) = take 16 (drop (b_offset b) (b_mem b))"
      by (simp add: contents_def)
    have "b_mem b ! b_offset b = 0x2a" if "take 16 (contents b) = keepalive_message"
    proof -
      have "b_mem b ! b_offset b = take 16 (contents b) ! 0"
        using True contents_nth [OF assms, of 0] by simp
      then show ?thesis unfolding that k(2) .
    qed
    then show ?thesis using True k by (auto simp: is_keepalive_def buf_index_def t)
  next
    case False
    then have "length (take 16 (contents b)) \<noteq> 16" using assms by simp
    then show ?thesis using False k by (auto simp: is_keepalive_def)
  qed
qed


section \<open>Properties\<close>

text \<open>
  Classification is exact: for any packet with a head byte, \<open>PacketType\<close> is defined exactly
  when the opcode is legal for this end and the packet's length and its key ID names the primary
  key, the secondary key or, for a soft reset, the upcoming key; a defined packet is a data
  packet exactly when its opcode is one of the two data opcodes and a control packet otherwise,
  so never both; and a soft reset is recognised exactly when no key context has its ID yet.
\<close>

lemma packet_type_exact:
  assumes "buf_wf b" "contents b = x # rest"
  defines "opc \<equiv> opcode_extract (ucast x)" and "kid \<equiv> key_id_extract (ucast x)"
  shows "pt_is_defined (packet_type_of b ki) = (legal_opcode b opc (ki_server ki)
      \<and> (ki_primary ki = Some kid \<or> ki_secondary ki = Some kid \<or> soft_reset_key opc kid ki))
    \<and> pt_is_data (packet_type_of b ki) = (pt_is_defined (packet_type_of b ki) \<and> opc \<in> {DATA_V1, DATA_V2})
    \<and> pt_is_control (packet_type_of b ki) = (pt_is_defined (packet_type_of b ki) \<and> opc \<notin> {DATA_V1, DATA_V2})
    \<and> pt_is_soft_reset (packet_type_of b ki) = soft_reset_key opc kid ki"
  unfolding opc_def kid_def using packet_type_flags [OF assms(1,2)] by blast

lemma packet_type_exact_at:
  "pt_is_soft_reset (packet_type_of (buf_view [0x19, 0, 0] True)
     \<lparr>ki_server = False, ki_primary = Some 0, ki_secondary = None, ki_upcoming = 1\<rparr>)"
proof -
  have b: "buf_wf (buf_view [0x19, 0, 0] True)" "contents (buf_view [0x19, 0, 0] True) = 0x19 # [0, 0]"
    by (simp_all add: buf_wf_def buf_view_def contents_def)
  show ?thesis
    using packet_type_exact [OF b, of "\<lparr>ki_server = False, ki_primary = Some 0, ki_secondary = None, ki_upcoming = 1\<rparr>"]
    by (simp add: soft_reset_key_def opcode_extract_def key_id_extract_def)
qed

text \<open>
  The head bytes round trip: a \<^verbatim>\<open>DATA_V2\<close> packet whose head was composed by \<open>op32_compose\<close>
  for a key and a peer is recognised at the receiver as a data packet of that key, and the peer
  ID read off it is the one put in, the undefined one being -1; the one-byte head composed by
  \<open>op_compose\<close> gives back its opcode and key ID.
\<close>

lemma data_head_roundtrip:
  assumes "buf_wf b" "contents b = be32 (op32_compose DATA_V2 kid peer) @ rest"
    "kid < 8" "0 \<le> peer" "peer \<le> 0x00FFFFFF" "ki_primary ki = Some kid \<or> ki_secondary ki = Some kid" "opcode < 32"
  shows "pt_is_data (packet_type_of b ki)
    \<and> pt_peer_id (packet_type_of b ki) = (if peer = 0x00FFFFFF then - 1 else peer)
    \<and> opcode_extract (ucast (ucast (op_compose opcode kid) :: byte)) = opcode
    \<and> key_id_extract (ucast (ucast (op_compose opcode kid) :: byte)) = kid"
proof -
  note op = op_compose_extract [OF _ assms(3)]
  let ?x = "ucast (op_compose DATA_V2 kid) :: byte"
  have wide: "ucast (ucast (op_compose o' kid) :: byte) = op_compose o' kid" if "o' < 32" for o'
    using op_byte_widen op(3) [OF that] by simp
  have xs: "contents b = ?x # tl (be32 (word_of_int peer AND 0x00FFFFFF)) @ rest"
    using assms(2) by (simp add: be32_op32)
  have s: "4 \<le> b_size b"
  proof -
    have "b_size b = length (contents b)" using assms(1) by simp
    then show ?thesis by (simp only: assms(2)) simp
  qed
  have x: "opcode_extract (ucast ?x) = DATA_V2" "key_id_extract (ucast ?x) = kid"
    using wide [of DATA_V2] op(1,2) [of DATA_V2] by simp_all
  have "take 4 (drop (b_offset b) (b_mem b)) = take 4 (contents b)"
    using s by (simp add: contents_def)
  then have net: "take 4 (drop (b_offset b) (b_mem b)) = be32 (op32_compose DATA_V2 kid peer)"
    using assms(2) by simp
  have peer: "uint (of_be32 (be32 (op32_compose DATA_V2 kid peer)) AND 0x00FFFFFF) = peer"
    unfolding op32_peer using peer_id_bits assms(4,5) by blast
  have "pt_is_data (packet_type_of b ki)"
    using packet_type_flags(1,2) [OF assms(1) xs, of ki] assms(6) x s by (auto simp: legal_opcode_def)
  moreover have "pt_peer_id (packet_type_of b ki) = (if peer = 0x00FFFFFF then - 1 else peer)"
    using packet_type_of_cases [OF assms(1) xs, of ki] s
    by (simp add: x examine_opcode_def net peer del: of_be32_be32)
  ultimately show ?thesis using op(1,2) [OF assms(7)] wide [OF assms(7)] by simp
qed

lemma data_head_roundtrip_at:
  "pt_peer_id (packet_type_of (buf_view (be32 (op32_compose DATA_V2 3 70000)) True)
     \<lparr>ki_server = False, ki_primary = Some 3, ki_secondary = None, ki_upcoming = 4\<rparr>) = 70000"
  using data_head_roundtrip [of "buf_view (be32 (op32_compose DATA_V2 3 70000)) True" 3 70000 "[]"
      "\<lparr>ki_server = False, ki_primary = Some 3, ki_secondary = None, ki_upcoming = 4\<rparr>" 4]
  by (simp add: buf_wf_def buf_view_def contents_def)

text \<open>
  The strings of the key exchange (options, user name, password, peer info) round trip: any
  sequence of strings that are shorter than 65535 bytes and do not end in a NUL byte, written one
  after the other, is read back in order and nothing is left over. (A string that ends in a NUL
  byte is not: see \<open>auth_string_trailing_nul\<close>.)
\<close>

lemma auth_strings_roundtrip:
  assumes "buf_wf b" "contents b = []" "list_all auth_string strs" "write_auth_strings junk strs b = Inr b'"
    "b_offset b + (\<Sum>s\<leftarrow>strs. length s + 3) < size_t_limit"
  shows "\<exists>b''. read_auth_strings (length strs) b' = Inr (strs, b'') \<and> contents b'' = []"
proof -
  have "b_size b = 0" using length_contents [OF assms(1)] assms(2) by simp
  then have "buf_wf b' \<and> contents b' = concat (map auth_bytes strs)"
    using write_auth_strings_Inr [OF assms(1,3,4)] assms(2,5) by simp
  then show ?thesis using read_auth_strings_bytes [OF _ assms(3), of b' "[]"] by simp
qed

lemma auth_strings_roundtrip_at:
  "\<exists>b' b''. write_auth_strings (\<lambda>_. 0) [[117, 49], [], [112]] (buf_view (replicate 32 0) False) = Inr b'
     \<and> read_auth_strings 3 b' = Inr ([[117, 49], [], [112]], b'') \<and> contents b'' = []"
proof -
  let ?b = "buf_view (replicate 32 0) False"
  have "ok (write_auth_strings (\<lambda>_. 0) [[117, 49], [], [112]] ?b)"
    by (simp add: write_auth_string_def write_string_length_def buf_write_def buf_remaining_def buf_view_def
        buf_null_terminate_def buf_back_def buf_index_def buf_push_back_def Let_def sz_add_def sz_sub_def blit_def)
  then obtain b' where w: "write_auth_strings (\<lambda>_. 0) [[117, 49], [], [112]] ?b = Inr b'" by (auto simp: ok_def)
  have h: "buf_wf ?b" "contents ?b = []" "list_all auth_string [[117, 49], [], [112]]"
    "b_offset ?b + (\<Sum>s\<leftarrow>[[117, 49], [], [112 :: byte]]. length s + 3) < size_t_limit"
    by (simp_all add: buf_wf_def buf_view_def contents_def auth_string_def)
  from auth_strings_roundtrip [OF h(1,2,3) w h(4)] w show ?thesis by (auto simp: numeral_3_eq_3)
qed

end
