(* ===== verification/Control_Wire.thy ===== *)
theory Control_Wire
  imports Proto_Stack Proto_Packets
begin

text \<open>
  The packets of the control channel, \<^verbatim>\<open>ssl/proto.hpp\<close> \<open>KeyContext::encapsulate\<close>, \<open>generate_ack\<close>
  and \<open>decapsulate\<close> without a wrapper (\<open>TLS_PLAIN\<close>) and with \<^verbatim>\<open>--tls-auth\<close> (\<open>TLS_AUTH\<close>), and the
  HMAC layout of \<^verbatim>\<open>crypto/ovpnhmac.hpp\<close>. The HMAC itself is library code: keyed, it is a function
  from the bytes fed to it to the digest, an argument of the definitions that use it. The
  \<open>tls-crypt\<close> modes are not modelled.
\<close>


section \<open>The HMAC of control packets\<close>

record hmac_ctx =
  h_final :: "byte list \<Rightarrow> byte list"
  h_size :: nat

text \<open>\<open>data\<close> is the memory from \<open>data\<close> on, \<open>data_size\<close> bytes of it; the fields of the packet are fed in HMAC order.\<close>

definition ovpn_hmac_pre :: "hmac_ctx \<Rightarrow> byte list \<Rightarrow> nat \<Rightarrow> nat \<Rightarrow> nat \<Rightarrow> byte list option" where
  "ovpn_hmac_pre h data l1 l2 l3 =
     (let lsum = sz_add (sz_add l1 l2) l3
      in if lsum > length data \<or> l2 \<noteq> h_size h then None
         else Some (take l3 (drop (l1 + l2) data) @ take l1 data @ drop lsum data))"

definition ovpn_hmac_gen :: "hmac_ctx \<Rightarrow> byte list \<Rightarrow> nat \<Rightarrow> nat \<Rightarrow> nat \<Rightarrow> byte list res" where
  "ovpn_hmac_gen h data l1 l2 l3 =
     (case ovpn_hmac_pre h data l1 l2 l3 of
        Some fed \<Rightarrow> Inr (blit l1 (h_final h fed) data)
      | None \<Rightarrow> Inl (Std_exception ''ovpn_hmac_context_bad_sizing''))"

definition ovpn_hmac_cmp :: "hmac_ctx \<Rightarrow> byte list \<Rightarrow> nat \<Rightarrow> nat \<Rightarrow> nat \<Rightarrow> bool" where
  "ovpn_hmac_cmp h data l1 l2 l3 =
     (case ovpn_hmac_pre h data l1 l2 l3 of
        Some fed \<Rightarrow> take l2 (drop l1 data) = take l2 (h_final h fed)
      | None \<Rightarrow> False)"


section \<open>State\<close>

datatype tls_wrap = TLS_PLAIN | TLS_AUTH

record packet =
  pk_opcode :: u32
  pk_buf :: buf

text \<open>
  The members of \<open>ProtoContext\<close> and of the \<open>KeyContext\<close> that control packets go through.
  \<open>cw_invalidated\<close> is the reason given to the first \<open>invalidate\<close>.
\<close>

record wire =
  cw_wrap :: tls_wrap
  cw_tcp :: bool
  cw_base :: int
  cw_hmac_size :: nat
  cw_key_id :: u32
  cw_psid_self :: psid
  cw_psid_peer :: psid
  cw_pid_send :: pid_send
  cw_pid_recv :: pid_recv
  cw_stats :: "error_type list"
  cw_invalidated :: "error_type option"
  cw_keepalive_timeout :: duration
  cw_keepalive_expire :: vtime
  cw_recv :: "packet rel_recv"
  cw_send :: "packet rel_send"
  cw_acks :: rel_ack

definition cw_invalidate :: "error_type \<Rightarrow> wire \<Rightarrow> wire" where
  "cw_invalidate reason w = (if cw_invalidated w = None then w\<lparr>cw_invalidated := Some reason\<rparr> else w)"

text \<open>\<open>stats->error\<close>, then \<open>invalidate\<close> when the transport is TCP.\<close>

definition cw_error :: "error_type \<Rightarrow> wire \<Rightarrow> wire" where
  "cw_error reason w =
     (let w = w\<lparr>cw_stats := cw_stats w @ [reason]\<rparr>
      in if cw_tcp w then cw_invalidate reason w else w)"

definition cw_update_last_received :: "vtime \<Rightarrow> wire \<Rightarrow> wire" where
  "cw_update_last_received now w = w\<lparr>cw_keepalive_expire := time_add now (cw_keepalive_timeout w)\<rparr>"



text \<open>A step that may throw, with the state after it in both outcomes, followed by another.\<close>

definition andthen ::
  "'a res \<times> wire \<Rightarrow> ('a \<Rightarrow> wire \<Rightarrow> 'b res \<times> wire) \<Rightarrow> 'b res \<times> wire" where
  "andthen r f = (case r of (Inl e, w) \<Rightarrow> (Inl e, w) | (Inr x, w) \<Rightarrow> f x w)"

lemma andthen_simps [simp]:
  "andthen (Inl e, w) f = (Inl e, w)" "andthen (Inr x, w) f = f x w"
  by (simp_all add: andthen_def)


section \<open>Sending\<close>

definition prepend_dest_psid_and_acks :: "buf \<Rightarrow> wire \<Rightarrow> buf res \<times> wire" where
  "prepend_dest_psid_and_acks b w =
     andthen (if ra_data (cw_acks w) \<noteq> []
              then (if psid_is_defined (cw_psid_peer w) then (psid_prepend (cw_psid_peer w) b, w)
                    else (Inl (Proto_error ''peer_psid_undef''), w\<lparr>cw_stats := cw_stats w @ [CC_ERROR]\<rparr>))
              else (Inr b, w))
       (\<lambda>b w. case ra_prepend b (cw_acks w) of
                Inl e \<Rightarrow> (Inl e, w)
              | Inr (b, acks) \<Rightarrow> (Inr b, w\<lparr>cw_acks := acks\<rparr>))"

definition gen_head_tls_auth ::
  "hmac_ctx \<Rightarrow> (nat \<Rightarrow> byte) \<Rightarrow> vtime \<Rightarrow> u32 \<Rightarrow> buf \<Rightarrow> wire \<Rightarrow> buf res \<times> wire" where
  "gen_head_tls_auth h junk now opcode b w =
     andthen (case pid_send_write_next junk True (seconds_since_epoch (cw_base w) now) (cw_pid_send w) b of
                (r, s) \<Rightarrow> (r, w\<lparr>cw_pid_send := s\<rparr>))
       (\<lambda>b w. (bindE (buf_prepend_alloc (cw_hmac_size w) b) (\<lambda>b.
               bindE (psid_prepend (cw_psid_self w) b) (\<lambda>b.
               bindE (buf_push_front (ucast (op_compose opcode (cw_key_id w))) b) (\<lambda>b.
               bindE (ovpn_hmac_gen h (contents b) (1 + PSID_SIZE) (cw_hmac_size w) (pid_size LONG_FORM)) (\<lambda>data.
               Inr (b\<lparr>b_mem := blit (b_offset b) data (b_mem b)\<rparr>))))), w))"

definition gen_head_tls_plain :: "u32 \<Rightarrow> buf \<Rightarrow> wire \<Rightarrow> buf res \<times> wire" where
  "gen_head_tls_plain opcode b w =
     (bindE (psid_prepend (cw_psid_self w) b) (buf_push_front (ucast (op_compose opcode (cw_key_id w)))), w)"

definition gen_head ::
  "hmac_ctx \<Rightarrow> (nat \<Rightarrow> byte) \<Rightarrow> vtime \<Rightarrow> u32 \<Rightarrow> buf \<Rightarrow> wire \<Rightarrow> buf res \<times> wire" where
  "gen_head h junk now opcode b w =
     (case cw_wrap w of
        TLS_AUTH \<Rightarrow> gen_head_tls_auth h junk now opcode b w
      | TLS_PLAIN \<Rightarrow> gen_head_tls_plain opcode b w)"

definition encapsulate ::
  "hmac_ctx \<Rightarrow> (nat \<Rightarrow> byte) \<Rightarrow> vtime \<Rightarrow> u32 \<Rightarrow> packet \<Rightarrow> wire \<Rightarrow> packet res \<times> wire" where
  "encapsulate h junk now mid pkt w =
     andthen (ra_prepend_id mid (pk_buf pkt), w) (\<lambda>b w.
     andthen (prepend_dest_psid_and_acks b w) (\<lambda>b w.
     andthen (gen_head h junk now (pk_opcode pkt) b w) (\<lambda>b w.
       (Inr (pkt\<lparr>pk_buf := b\<rparr>), w))))"

definition generate_ack ::
  "hmac_ctx \<Rightarrow> (nat \<Rightarrow> byte) \<Rightarrow> vtime \<Rightarrow> packet \<Rightarrow> wire \<Rightarrow> packet res \<times> wire" where
  "generate_ack h junk now pkt w =
     andthen (prepend_dest_psid_and_acks (pk_buf pkt) w) (\<lambda>b w.
     andthen (gen_head h junk now ACK_V1 b w) (\<lambda>b w.
       (Inr (pkt\<lparr>pk_buf := b\<rparr>), w)))"


section \<open>Receiving\<close>

definition verify_src_psid :: "psid \<Rightarrow> wire \<Rightarrow> bool \<times> wire" where
  "verify_src_psid src_psid w =
     (if psid_is_defined (cw_psid_peer w)
      then (if \<not> psid_match (cw_psid_peer w) src_psid then (False, cw_error CC_ERROR w) else (True, w))
      else (True, w\<lparr>cw_psid_peer := src_psid\<rparr>))"

definition verify_dest_psid :: "buf \<Rightarrow> wire \<Rightarrow> (bool \<times> buf) res \<times> wire" where
  "verify_dest_psid b w =
     (case psid_read b of
        Inl e \<Rightarrow> (Inl e, w)
      | Inr (dest_psid, b) \<Rightarrow>
          if \<not> psid_match (cw_psid_self w) dest_psid then (Inr (False, b), cw_error CC_ERROR w)
          else (Inr (True, b), w))"

text \<open>
  ACKs sent by the peer, then our own session ID when there were any; the result is \<open>False\<close> when
  that ID is not ours. \<open>live\<close> is the last argument of \<open>ReliableAck::ack\<close>.
\<close>

definition receive_acks :: "bool \<Rightarrow> buf \<Rightarrow> wire \<Rightarrow> (bool \<times> buf) res \<times> wire" where
  "receive_acks live b w =
     andthen (case ra_ack (cw_send w) b live of (r, s) \<Rightarrow> (r, w\<lparr>cw_send := s\<rparr>))
       (\<lambda>(n, b) w. if n \<noteq> 0 then verify_dest_psid b w else (Inr (True, b), w))"

text \<open>The message goes into the receive window under its sequence number; should it be ACKed, that is noted.\<close>

definition receive_message :: "packet \<Rightarrow> u32 \<Rightarrow> wire \<Rightarrow> bool \<times> wire" where
  "receive_message pkt mid w =
     (let (rflags, rr) = rr_receive pkt mid (cw_recv w);
          w = w\<lparr>cw_recv := rr\<rparr>;
          w = (if rflags AND ACK_TO_SENDER \<noteq> 0 then w\<lparr>cw_acks := ra_push_back mid (cw_acks w)\<rparr> else w)
      in (rflags AND IN_WINDOW \<noteq> 0, w))"

definition cw_test_add :: "pid \<Rightarrow> int \<Rightarrow> bool \<Rightarrow> wire \<Rightarrow> bool res \<times> wire" where
  "cw_test_add p t md w =
     (case test_add p t md (cw_pid_recv w) of
        Inl e \<Rightarrow> (Inl e, w)
      | Inr (ok', r) \<Rightarrow> (Inr ok', w\<lparr>cw_pid_recv := r\<rparr>))"

definition decapsulate_post_process ::
  "vtime \<Rightarrow> packet \<Rightarrow> psid \<Rightarrow> pid \<Rightarrow> wire \<Rightarrow> bool res \<times> wire" where
  "decapsulate_post_process now pkt src_psid p w =
     (let w = cw_update_last_received now w;
          (src_ok, w) = verify_src_psid src_psid w;
          t = seconds_since_epoch (cw_base w) now
      in if \<not> src_ok then (Inr False, w)
         else andthen (cw_test_add p t False w) (\<lambda>pid_ok w.
              andthen (receive_acks pid_ok (pk_buf pkt) w) (\<lambda>(dest_ok, b) w.
              if \<not> dest_ok then (Inr False, w)
              else if pk_opcode pkt \<noteq> ACK_V1
              then andthen (ra_read_id b, w) (\<lambda>(mid, b) w.
                   if pid_ok
                   then (let (in_win, w) = receive_message (pkt\<lparr>pk_buf := b\<rparr>) mid w
                         in if in_win then andthen (cw_test_add p t True w) (\<lambda>_ w. (Inr True, w))
                            else (Inr False, w))
                   else (let w = w\<lparr>cw_stats := cw_stats w @ [REPLAY_ERROR]\<rparr>
                         in (Inr False, if pid_is_valid p then w\<lparr>cw_acks := ra_push_back mid (cw_acks w)\<rparr> else w)))
              else if pid_ok then andthen (cw_test_add p t True w) (\<lambda>_ w. (Inr False, w))
              else (Inr False, w\<lparr>cw_stats := cw_stats w @ [REPLAY_ERROR]\<rparr>))))"

definition decapsulate_tls_auth :: "hmac_ctx \<Rightarrow> vtime \<Rightarrow> packet \<Rightarrow> wire \<Rightarrow> bool res \<times> wire" where
  "decapsulate_tls_auth h now pkt w =
     (let orig_data = contents (pk_buf pkt)
      in andthen (buf_advance 1 (pk_buf pkt), w) (\<lambda>b w.
         andthen (psid_read b, w) (\<lambda>(src_psid, b) w.
         andthen (buf_advance (cw_hmac_size w) b, w) (\<lambda>b w.
         if \<not> ovpn_hmac_cmp h orig_data (1 + PSID_SIZE) (cw_hmac_size w) (pid_size LONG_FORM)
         then (Inr False, cw_error HMAC_ERROR w)
         else andthen (pid_recv_read_next (cw_pid_recv w) b, w) (\<lambda>(p, b) w.
              decapsulate_post_process now (pkt\<lparr>pk_buf := b\<rparr>) src_psid p w)))))"

definition decapsulate_tls_plain :: "vtime \<Rightarrow> packet \<Rightarrow> wire \<Rightarrow> bool res \<times> wire" where
  "decapsulate_tls_plain now pkt w =
     (let w = cw_update_last_received now w
      in andthen (buf_advance 1 (pk_buf pkt), w) (\<lambda>b w.
         andthen (psid_read b, w) (\<lambda>(src_psid, b) w.
         let (src_ok, w) = verify_src_psid src_psid w
         in if \<not> src_ok then (Inr False, w)
            else andthen (receive_acks True b w) (\<lambda>(dest_ok, b) w.
                 if \<not> dest_ok then (Inr False, w)
                 else if pk_opcode pkt \<noteq> ACK_V1
                 then andthen (ra_read_id b, w) (\<lambda>(mid, b) w.
                      let (in_win, w) = receive_message (pkt\<lparr>pk_buf := b\<rparr>) mid w in (Inr in_win, w))
                 else (Inr False, w)))))"

text \<open>A \<open>BufferException\<close> is caught; any other exception leaves \<open>decapsulate\<close>.\<close>

definition decapsulate :: "hmac_ctx \<Rightarrow> vtime \<Rightarrow> packet \<Rightarrow> wire \<Rightarrow> bool res \<times> wire" where
  "decapsulate h now pkt w =
     (case (case cw_wrap w of
              TLS_AUTH \<Rightarrow> decapsulate_tls_auth h now pkt w
            | TLS_PLAIN \<Rightarrow> decapsulate_tls_plain now pkt w) of
        (Inl (Buffer_exn _), w) \<Rightarrow> (Inr False, cw_error BUFFER_ERROR w)
      | r \<Rightarrow> r)"

text \<open>
  \<open>validate_tls_auth\<close> and \<open>validate_tls_plain\<close> look at a packet without any key context; the
  caller catches the \<open>BufferException\<close>.
\<close>

definition validate_tls_plain :: "buf \<Rightarrow> wire \<Rightarrow> bool res" where
  "validate_tls_plain b w =
     bindE (buf_advance 1 b) (\<lambda>b.
     bindE (psid_read b) (\<lambda>(src_psid, b).
     if \<not> psid_match (cw_psid_peer w) src_psid then Inr False
     else bindE (ra_ack_skip b) (\<lambda>(n, b).
          if n \<noteq> 0 then bindE (psid_read b) (\<lambda>(dest_psid, b). Inr (psid_match (cw_psid_self w) dest_psid))
          else Inr True)))"

definition validate_tls_auth :: "hmac_ctx \<Rightarrow> vtime \<Rightarrow> buf \<Rightarrow> wire \<Rightarrow> bool res \<times> wire" where
  "validate_tls_auth h now b w =
     (let orig_data = contents b
      in andthen (buf_advance 1 b, w) (\<lambda>b w.
         andthen (psid_read b, w) (\<lambda>(src_psid, b) w.
         andthen (buf_advance (cw_hmac_size w) b, w) (\<lambda>b w.
         if \<not> ovpn_hmac_cmp h orig_data (1 + PSID_SIZE) (cw_hmac_size w) (pid_size LONG_FORM)
         then (Inr False, w)
         else if \<not> psid_match (cw_psid_peer w) src_psid then (Inr False, w)
         else andthen (pid_recv_read_next (cw_pid_recv w) b, w) (\<lambda>(p, b) w.
              andthen (cw_test_add p (seconds_since_epoch (cw_base w) now) False w) (\<lambda>pid_ok w.
              andthen (ra_ack_skip b, w) (\<lambda>(n, b) w.
              if n \<noteq> 0
              then andthen (psid_read b, w) (\<lambda>(dest_psid, b) w.
                   (Inr (psid_match (cw_psid_self w) dest_psid \<and> pid_ok), w))
              else (Inr pid_ok, w))))))))"


section \<open>What goes over the wire\<close>

definition acks_sent :: "wire \<Rightarrow> u32 list" where
  "acks_sent w = take (ra_max (cw_acks w)) (ra_data (cw_acks w))"

definition ack_part :: "u32 list \<Rightarrow> psid \<Rightarrow> byte list" where
  "ack_part ids dest = of_nat (length ids) # concat (map be32 ids) @ (if ids \<noteq> [] then psid_id dest else [])"

text \<open>
  An end that can send: its session IDs have eight bytes, its own is defined, the peer's is when
  there is something to acknowledge, and a packet carries between 1 and 255 acknowledgements.
\<close>

definition can_send :: "wire \<Rightarrow> bool" where
  "can_send w \<longleftrightarrow> psid_is_defined (cw_psid_self w) \<and> length (psid_id (cw_psid_self w)) = PSID_SIZE
     \<and> length (psid_id (cw_psid_peer w)) = PSID_SIZE
     \<and> (ra_data (cw_acks w) \<noteq> [] \<longrightarrow> psid_is_defined (cw_psid_peer w))
     \<and> 0 < ra_max (cw_acks w) \<and> ra_max (cw_acks w) \<le> 255"

lemma length_concat_be32 [simp]: "length (concat (map be32 ids)) = 4 * length ids"
  by (induction ids) auto

lemma push_front_Inr:
  assumes "buf_wf b" "0 < b_offset b"
  shows "\<exists>b'. buf_push_front x b = Inr b' \<and> buf_wf b' \<and> contents b' = x # contents b \<and> b_offset b' = b_offset b - 1"
proof -
  obtain b' where p: "buf_prepend [x] b = Inr b'" using bufq.prepend_ok [OF assms(1), of "[x]"] assms(2) by (auto simp: ok_def)
  then show ?thesis using bufq.prepend_view [OF assms(1) p] assms(2) by (auto simp: push_front_prepend)
qed

lemma psid_prepend_Inr:
  assumes "buf_wf b" "length (psid_id p) = PSID_SIZE" "PSID_SIZE \<le> b_offset b"
  shows "\<exists>b'. psid_prepend p b = Inr b' \<and> buf_wf b' \<and> contents b' = psid_id p @ contents b \<and> b_offset b' = b_offset b - PSID_SIZE"
proof -
  obtain b' where p: "buf_prepend (psid_id p) b = Inr b'"
    using bufq.prepend_ok [OF assms(1), of "psid_id p"] assms(2,3) by (auto simp: ok_def)
  then show ?thesis using bufq.prepend_view [OF assms(1) p] assms(2) by (auto simp: psid_prepend_def)
qed

lemma prepend_end: "buf_prepend xs b = Inr b' \<Longrightarrow> b_offset b' + b_size b' = b_offset b + b_size b"
  by (auto simp: buf_prepend_def buf_prepend_alloc_def split: if_splits)

lemma prepend_ids_end: "ra_prepend_ids ids b = Inr b' \<Longrightarrow> b_offset b' + b_size b' = b_offset b + b_size b"
  by (induction ids arbitrary: b') (auto simp: ra_prepend_id_def bindE_Inr_iff dest!: prepend_end)

lemma ra_prepend_end: "ra_prepend b a = Inr (b', a') \<Longrightarrow> b_offset b' + b_size b' = b_offset b + b_size b"
  by (auto simp: ra_prepend_def Let_def push_front_prepend bindE_Inr_iff split: if_splits dest!: prepend_end prepend_ids_end)

lemma prepend_acks_Inr:
  assumes "buf_wf b" "can_send w" "length (ack_part (acks_sent w) (cw_psid_peer w)) \<le> b_offset b"
  shows "\<exists>b'. prepend_dest_psid_and_acks b w =
      (Inr b', w\<lparr>cw_acks := (cw_acks w)\<lparr>ra_data := drop (ra_max (cw_acks w)) (ra_data (cw_acks w))\<rparr>\<rparr>)
    \<and> buf_wf b' \<and> contents b' = ack_part (acks_sent w) (cw_psid_peer w) @ contents b
    \<and> b_offset b' = b_offset b - length (ack_part (acks_sent w) (cw_psid_peer w))"
proof -
  let ?a = "cw_acks w" and ?p = "psid_id (cw_psid_peer w)"
  have len: "length (acks_sent w) = min (length (ra_data ?a)) (ra_max ?a)" by (simp add: acks_sent_def)
  have ne: "acks_sent w = [] \<longleftrightarrow> ra_data ?a = []" using assms(2) by (auto simp: acks_sent_def can_send_def)
  have 8: "length ?p = 8" using assms(2) by (simp add: can_send_def)
  obtain b1 where b1: "(if ra_data ?a \<noteq> [] then psid_prepend (cw_psid_peer w) b else Inr b) = Inr b1" "buf_wf b1"
    "contents b1 = (if ra_data ?a \<noteq> [] then ?p else []) @ contents b"
    "b_offset b1 = b_offset b - (if ra_data ?a \<noteq> [] then 8 else 0)"
    using psid_prepend_Inr [OF assms(1), of "cw_psid_peer w"] 8 assms ne by (auto simp: ack_part_def)
  have room: "4 * min (length (ra_data ?a)) (ra_max ?a) + 1 \<le> b_offset b1"
    using assms(3) b1(4) ne 8 len by (auto simp: ack_part_def)
  obtain b2 a2 where p: "ra_prepend b1 ?a = Inr (b2, a2)" using ra_prepend_ok [OF b1(2) room] by (auto simp: ok_def)
  note s = ra_prepend_Inr [OF b1(2) p]
  have a2: "a2 = ?a\<lparr>ra_data := drop (ra_max ?a) (ra_data ?a)\<rparr>"
    using s(3,4) by (intro rel_ack.equality) (simp_all add: min_def)
  have c: "contents b2 = ack_part (acks_sent w) (cw_psid_peer w) @ contents b"
    using s(2) b1(3) ne len by (simp add: ack_part_def acks_sent_def min_def)
  have off: "b_offset b2 = b_offset b - length (ack_part (acks_sent w) (cw_psid_peer w))"
    using ra_prepend_end [OF p] arg_cong [OF b1(3), of length] arg_cong [OF c, of length] assms(1,3) b1(2,4) s(1) ne 8
    by (auto simp: ack_part_def split: if_splits)
  have "prepend_dest_psid_and_acks b w = (Inr b2, w\<lparr>cw_acks := a2\<rparr>)"
    using b1(1) p assms(2) by (auto simp: prepend_dest_psid_and_acks_def can_send_def split: if_splits)
  then show ?thesis using s(1) c off a2 by auto
qed


lemma gen_head_plain_Inr:
  assumes "buf_wf b" "can_send w" "9 \<le> b_offset b"
  shows "\<exists>b'. gen_head_tls_plain opcode b w = (Inr b', w) \<and> buf_wf b'
    \<and> contents b' = ucast (op_compose opcode (cw_key_id w)) # psid_id (cw_psid_self w) @ contents b"
proof -
  obtain b1 where b1: "psid_prepend (cw_psid_self w) b = Inr b1" "buf_wf b1"
    "contents b1 = psid_id (cw_psid_self w) @ contents b" "b_offset b1 = b_offset b - 8"
    using psid_prepend_Inr [OF assms(1), of "cw_psid_self w"] assms(2,3) by (auto simp: can_send_def)
  then show ?thesis
    using push_front_Inr [OF b1(2)] assms(3) by (auto simp: gen_head_tls_plain_def)
qed

definition hmac_fed :: "byte list \<Rightarrow> byte \<Rightarrow> byte list \<Rightarrow> byte list \<Rightarrow> byte list" where
  "hmac_fed pid_field opb psid_field payload = pid_field @ (opb # psid_field) @ payload"

text \<open>What the HMAC is computed over does not depend on what is in its place.\<close>

lemma ovpn_hmac_pre_fields:
  assumes "length ps = PSID_SIZE" "length pf = 8" "length hm = n" "n = h_size h" "n < 1000000"
  shows "ovpn_hmac_pre h (opb # ps @ hm @ pf @ rest) (1 + PSID_SIZE) n (pid_size LONG_FORM)
    = Some (hmac_fed pf opb ps rest)"
  using assms by (simp add: ovpn_hmac_pre_def hmac_fed_def pid_size_def Let_def drop_Cons' take_Cons')

lemma ovpn_hmac_gen_cmp:
  assumes "length ps = PSID_SIZE" "length pf = 8" "length hm = n" "n = h_size h" "n < 1000000"
    "length (h_final h (hmac_fed pf opb ps rest)) = n"
  defines "mac \<equiv> h_final h (hmac_fed pf opb ps rest)"
  shows "ovpn_hmac_gen h (opb # ps @ hm @ pf @ rest) (1 + PSID_SIZE) n (pid_size LONG_FORM)
      = Inr (opb # ps @ mac @ pf @ rest)"
    "ovpn_hmac_cmp h (opb # ps @ mac @ pf @ rest) (1 + PSID_SIZE) n (pid_size LONG_FORM)"
proof -
  show "ovpn_hmac_gen h (opb # ps @ hm @ pf @ rest) (1 + PSID_SIZE) n (pid_size LONG_FORM)
      = Inr (opb # ps @ mac @ pf @ rest)"
    using assms ovpn_hmac_pre_fields [OF assms(1-5)]
    by (simp add: ovpn_hmac_gen_def blit_def mac_def take_Cons' drop_Cons')
  show "ovpn_hmac_cmp h (opb # ps @ mac @ pf @ rest) (1 + PSID_SIZE) n (pid_size LONG_FORM)"
    using assms ovpn_hmac_pre_fields [OF assms(1,2), of mac n h opb rest]
    by (simp add: ovpn_hmac_cmp_def mac_def)
qed


lemma prepend_alloc_Inr:
  assumes "buf_wf b" "n \<le> b_offset b"
  shows "\<exists>b' hm. buf_prepend_alloc n b = Inr b' \<and> buf_wf b' \<and> contents b' = hm @ contents b \<and> length hm = n
    \<and> b_offset b' = b_offset b - n"
proof -
  let ?o = "b_offset b - n"
  have "take (b_size b + n) (drop ?o (b_mem b)) = take n (drop ?o (b_mem b)) @ take (b_size b) (drop n (drop ?o (b_mem b)))"
    by (simp only: take_add add.commute)
  moreover have "drop n (drop ?o (b_mem b)) = drop (b_offset b) (b_mem b)" using assms(2) by simp
  moreover have "length (take n (drop ?o (b_mem b))) = n" using assms by (auto simp: buf_wf_def)
  ultimately show ?thesis using assms by (auto simp: buf_prepend_alloc_def buf_wf_def contents_def)
qed

lemma overwrite_contents:
  assumes "buf_wf b" "length xs = b_size b"
  defines "b' \<equiv> b\<lparr>b_mem := blit (b_offset b) xs (b_mem b)\<rparr>"
  shows "buf_wf b'" "contents b' = xs"
  using assms by (auto simp: buf_wf_def contents_def blit_def)

definition hmac_ok :: "hmac_ctx \<Rightarrow> wire \<Rightarrow> bool" where
  "hmac_ok h w \<longleftrightarrow> h_size h = cw_hmac_size w \<and> h_size h < 1000000"

definition auth_head :: "hmac_ctx \<Rightarrow> byte \<Rightarrow> psid \<Rightarrow> pid \<Rightarrow> byte list \<Rightarrow> byte list" where
  "auth_head h opb src p payload =
     opb # psid_id src @ h_final h (hmac_fed (pid_bytes LONG_FORM p) opb (psid_id src) payload)
       @ pid_bytes LONG_FORM p"

lemma gen_head_auth_Inr:
  fixes opcode :: u32
  assumes "buf_wf b" "can_send w" "ps_form (cw_pid_send w) = LONG_FORM" "hmac_ok h w" "\<And>x. length (h_final h x) = h_size h"
    "pid_send_next (seconds_since_epoch (cw_base w) now) (cw_pid_send w) = (Inr p, s')"
    "17 + h_size h \<le> b_offset b"
  defines "opb \<equiv> ucast (op_compose opcode (cw_key_id w))"
  shows "\<exists>b'. gen_head_tls_auth h junk now opcode b w = (Inr b', w\<lparr>cw_pid_send := s'\<rparr>) \<and> buf_wf b'
    \<and> contents b' = auth_head h opb (cw_psid_self w) p (contents b) @ contents b"
proof -
  let ?ps = "psid_id (cw_psid_self w)" and ?pf = "pid_bytes LONG_FORM p" and ?n = "cw_hmac_size w"
  have ps: "length ?ps = 8" using assms(2) by (simp add: can_send_def)
  have pf: "length ?pf = 8" by (simp add: pid_size_def)
  have n: "?n = h_size h" "?n < 1000000" using assms(4) by (simp_all add: hmac_ok_def)
  obtain b1 where b1: "pid_write junk LONG_FORM True p b = Inr b1"
    using pid_write_prepend_ok [OF assms(1), of LONG_FORM] assms(7) by (auto simp: ok_def pid_size_def)
  have w1: "buf_wf b1" "contents b1 = ?pf @ contents b" and o1: "b_offset b1 = b_offset b - 8"
    using pid_write_prepend [OF assms(1) b1] by (simp_all add: pid_size_def)
  have le: "?n \<le> b_offset b1" using o1 assms(7) n by simp
  obtain b2 hm where b2: "buf_prepend_alloc ?n b1 = Inr b2" "buf_wf b2" "contents b2 = hm @ contents b1"
    "length hm = ?n" "b_offset b2 = b_offset b1 - ?n"
    using prepend_alloc_Inr [OF w1(1) le] by blast
  have le2: "PSID_SIZE \<le> b_offset b2" "0 < b_offset b2 - 8" using b2(5) o1 assms(7) n by simp_all
  obtain b3 where b3: "psid_prepend (cw_psid_self w) b2 = Inr b3" "buf_wf b3"
    "contents b3 = ?ps @ contents b2" "b_offset b3 = b_offset b2 - 8"
    using psid_prepend_Inr [OF b2(2) ps le2(1)] by blast
  obtain b4 where b4: "buf_push_front opb b3 = Inr b4" "buf_wf b4" "contents b4 = opb # contents b3"
    using push_front_Inr [OF b3(2), of opb] b3(4) le2(2) by auto
  have c4: "contents b4 = opb # ?ps @ hm @ ?pf @ contents b"
    using b4(3) b3(3) b2(3) w1 by simp
  let ?d = "auth_head h opb (cw_psid_self w) p (contents b) @ contents b"
  have g: "ovpn_hmac_gen h (contents b4) (1 + PSID_SIZE) ?n (pid_size LONG_FORM) = Inr ?d"
    unfolding c4 using ovpn_hmac_gen_cmp(1) [OF ps pf b2(4) n(1,2)] assms(5) n(1) by (simp add: auth_head_def)
  have "length ?d = length (contents b4)"
    unfolding c4 auth_head_def using b2(4) assms(5) n(1) by simp
  then have "length ?d = b_size b4" using b4(2) by simp
  note ov = overwrite_contents [OF b4(2) this]
  show ?thesis
    using assms(3,6) b1 b2(1) b3(1) b4(1) g ov
    by (auto simp: gen_head_tls_auth_def pid_send_write_next_def opb_def)
qed

text \<open>The receiver's side: the parts come off the front one by one.\<close>

lemma psid_read_Inr:
  assumes "buf_wf b" "contents b = ps @ rest" "length ps = PSID_SIZE"
  shows "\<exists>b'. psid_read b = Inr (\<lparr>psid_is_defined = True, psid_id = ps\<rparr>, b') \<and> buf_wf b' \<and> contents b' = rest"
  using bufq.read_prefix [OF assms(1,2)] assms(3) by (auto simp: psid_read_def)

lemma receive_acks_Inr:
  assumes "buf_wf b" "contents b = ack_part ids (cw_psid_self v) @ rest" "length ids \<le> 255"
    "psid_is_defined (cw_psid_self v)" "length (psid_id (cw_psid_self v)) = PSID_SIZE"
  shows "\<exists>b'. receive_acks live b v = (Inr (True, b'), v\<lparr>cw_send := (if live then fold rs_ack ids else (\<lambda>s. s)) (cw_send v)\<rparr>)
    \<and> buf_wf b' \<and> contents b' = rest"
proof -
  let ?dest = "if ids \<noteq> [] then psid_id (cw_psid_self v) else []"
  let ?f = "\<lambda>mid s. if live then rs_ack mid s else s"
  have c: "contents b = of_nat (length ids) # concat (map be32 ids) @ ?dest @ rest"
    using assms(2) by (simp add: ack_part_def)
  have "b_size b = length (contents b)" using assms(1) by simp
  then have "b_size b \<noteq> 0" by (simp only: c) simp
  then obtain x b1 where pop: "buf_pop_front b = Inr (x, b1)" by (simp add: pop_front_read)
  from pop_front_Inr [OF this assms(1)] c have b1: "x = of_nat (length ids)" "buf_wf b1"
    "contents b1 = concat (map be32 ids) @ ?dest @ rest" by auto
  have n: "unat x = length ids" using assms(3) b1(1) by (simp add: unat_of_nat_byte)
  obtain b2 where b2: "ra_read_loop ?f (length ids) b1 (cw_send v) = (Inr b2, fold ?f ids (cw_send v))" "buf_wf b2"
    "contents b2 = ?dest @ rest"
    using ra_read_loop_ids [OF b1(2,3), of ?f "cw_send v"] by (elim exE conjE) (rule that)
  have f: "fold ?f ids s = (if live then fold rs_ack ids else (\<lambda>s. s)) s" for s :: "packet rel_send"
    by (induction ids arbitrary: s) simp_all
  have ack: "ra_ack (cw_send v) b live = (Inr (length ids, b2), fold ?f ids (cw_send v))"
    using pop n b2(1) by (simp add: ra_ack_def)
  note ack = ack [unfolded f]
  show ?thesis
  proof (cases "ids = []")
    case True
    then show ?thesis using ack b2 by (cases live) (simp_all add: receive_acks_def)
  next
    case False
    then obtain b3 where "psid_read b2 = Inr (\<lparr>psid_is_defined = True, psid_id = psid_id (cw_psid_self v)\<rparr>, b3)"
      "buf_wf b3" "contents b3 = rest"
      using psid_read_Inr [OF b2(2), of "psid_id (cw_psid_self v)" rest] b2(3) assms(5) by auto
    then show ?thesis using ack False assms(4)
      by (cases live) (simp_all add: receive_acks_def verify_dest_psid_def psid_match_def)
  qed
qed


section \<open>A control packet, end to end\<close>

lemma receive_message_eq:
  "receive_message pkt mid w =
     (in_window mid (cw_recv w),
      w\<lparr>cw_recv := snd (rr_receive pkt mid (cw_recv w)),
        cw_acks := (if in_window mid (cw_recv w) \<or> pre_window mid (cw_recv w)
                    then ra_push_back mid (cw_acks w) else cw_acks w)\<rparr>)"
  by (simp add: receive_message_def rr_receive_def win_ref_by_id_def Let_def)

lemma test_add_initialized: "test_add p t md r = Inr (x, r') \<Longrightarrow> pr_initialized r"
  "test_add p t md r = Inr (x, r') \<Longrightarrow> pr_initialized r'"
proof -
  show "pr_initialized r" if "test_add p t md r = Inr (x, r')"
    using that by (auto simp: test_add_def do_test_add_def split: if_splits)
  have c: "pr_initialized (snd (check_id p md s)) = pr_initialized s" for s
    by (simp add: check_id_def accept_next_def accept_jump_def accept_backtrack_def Let_def)
  have e: "pr_initialized (expire_floor t s) = pr_initialized s" "pr_initialized (epoch_reset p s) = pr_initialized s" for s
    by (simp_all add: expire_floor_def epoch_reset_def)
  have d: "pr_initialized (snd y)" if "do_test_add p t md r = Inr y" for y
  proof (cases "pr_initialized r")
    case True
    then show ?thesis using that c e by (simp add: do_test_add_def Let_def split: if_splits) force+
  qed (use that in \<open>simp add: do_test_add_def\<close>)
  show "pr_initialized r'" if "test_add p t md r = Inr (x, r')"
    using that d by (auto simp: test_add_def bindE_Inr_iff split: if_splits)
qed

lemma test_add_Inr: "pr_initialized r \<Longrightarrow> \<exists>x r'. test_add p t md r = Inr (x, r')"
  by (auto simp: test_add_def do_test_add_def split_beta split: prod.split)

lemma message_rest:
  assumes "buf_wf b" "contents b = ack_part ids (cw_psid_self v) @ be32 mid @ payload" "length ids \<le> 255"
    "psid_is_defined (cw_psid_self v)" "length (psid_id (cw_psid_self v)) = PSID_SIZE"
  shows "\<exists>b1 b2. receive_acks True b v = (Inr (True, b1), v\<lparr>cw_send := fold rs_ack ids (cw_send v)\<rparr>)
    \<and> ra_read_id b1 = Inr (mid, b2) \<and> contents b2 = payload"
proof -
  obtain b1 where b1: "receive_acks True b v = (Inr (True, b1), v\<lparr>cw_send := fold rs_ack ids (cw_send v)\<rparr>)"
    "buf_wf b1" "contents b1 = be32 mid @ payload"
    using receive_acks_Inr [OF assms, of True] by auto
  moreover obtain b2 where "buf_read 4 b1 = Inr (be32 mid, b2)" "contents b2 = payload"
    using bufq.read_prefix [OF b1(2,3)] by auto
  ultimately show ?thesis by (simp add: ra_read_id_def)
qed

text \<open>
  What the receiving end must have agreed on with the sender: the wrapper, the sender's session ID
  (or none yet) and its own, and with \<^verbatim>\<open>--tls-auth\<close> a replay window that does not refuse the
  packet's ID.
\<close>

definition pairs_with :: "wire \<Rightarrow> wire \<Rightarrow> bool" where
  "pairs_with v w \<longleftrightarrow> cw_wrap v = cw_wrap w \<and> cw_hmac_size v = cw_hmac_size w
     \<and> psid_is_defined (cw_psid_self v) \<and> length (psid_id (cw_psid_self v)) = PSID_SIZE
     \<and> (acks_sent w \<noteq> [] \<longrightarrow> psid_id (cw_psid_self v) = psid_id (cw_psid_peer w))
     \<and> (psid_is_defined (cw_psid_peer v) \<longrightarrow> psid_id (cw_psid_peer v) = psid_id (cw_psid_self w))"

definition takes_pid :: "vtime \<Rightarrow> pid \<Rightarrow> wire \<Rightarrow> bool" where
  "takes_pid now p v \<longleftrightarrow> pr_form (cw_pid_recv v) = LONG_FORM
     \<and> (\<exists>r. test_add p (seconds_since_epoch (cw_base v) now) False (cw_pid_recv v) = Inr (True, r))"

text \<open>The receiver's part of the outcome.\<close>

definition got :: "u32 list \<Rightarrow> u32 \<Rightarrow> packet \<Rightarrow> byte list \<Rightarrow> wire \<Rightarrow> wire \<Rightarrow> bool" where
  "got ids mid pkt payload v v' \<longleftrightarrow>
     cw_send v' = fold rs_ack ids (cw_send v)
     \<and> (\<exists>b. contents b = payload \<and> cw_recv v' = snd (rr_receive (pkt\<lparr>pk_buf := b\<rparr>) mid (cw_recv v)))
     \<and> cw_acks v' = (if in_window mid (cw_recv v) \<or> pre_window mid (cw_recv v)
                     then ra_push_back mid (cw_acks v) else cw_acks v)
     \<and> cw_stats v' = cw_stats v \<and> cw_invalidated v' = cw_invalidated v"

lemma verify_src_paired:
  assumes "psid_is_defined src" "psid_is_defined (cw_psid_peer v) \<longrightarrow> psid_id (cw_psid_peer v) = psid_id src"
  shows "\<exists>peer. verify_src_psid src v = (True, v\<lparr>cw_psid_peer := peer\<rparr>)"
proof (cases "psid_is_defined (cw_psid_peer v)")
  case True
  then have "verify_src_psid src v = (True, v\<lparr>cw_psid_peer := cw_psid_peer v\<rparr>)"
    using assms by (simp add: verify_src_psid_def psid_match_def)
  then show ?thesis by blast
qed (auto simp: verify_src_psid_def)

lemma ack_part_cong: "ids \<noteq> [] \<longrightarrow> psid_id p = psid_id q \<Longrightarrow> ack_part ids p = ack_part ids q"
  by (auto simp: ack_part_def)

lemma advance_1:
  assumes "buf_wf b" "contents b = x # rest"
  shows "\<exists>b'. buf_advance 1 b = Inr b' \<and> buf_wf b' \<and> contents b' = rest"
proof -
  obtain b' where "buf_advance 1 b = Inr b'"
    using length_contents [OF assms(1)] assms(2) by (auto simp: buf_advance_def)
  then show ?thesis using advance_Inr [OF _ assms(1)] assms(2) by auto
qed

lemma update_last_received_fields [simp]:
  "cw_psid_self (cw_update_last_received now v) = cw_psid_self v"
  "cw_psid_peer (cw_update_last_received now v) = cw_psid_peer v"
  "cw_recv (cw_update_last_received now v) = cw_recv v"
  "cw_send (cw_update_last_received now v) = cw_send v"
  "cw_acks (cw_update_last_received now v) = cw_acks v"
  "cw_stats (cw_update_last_received now v) = cw_stats v"
  "cw_invalidated (cw_update_last_received now v) = cw_invalidated v"
  "cw_pid_recv (cw_update_last_received now v) = cw_pid_recv v"
  "cw_base (cw_update_last_received now v) = cw_base v"
  "cw_tcp (cw_update_last_received now v) = cw_tcp v"
  by (simp_all add: cw_update_last_received_def)

lemma decapsulate_plain_got:
  assumes "buf_wf (pk_buf q)" "contents (pk_buf q) = opb # psid_id src @ ack_part ids (cw_psid_self v) @ be32 mid @ payload"
    "length (psid_id src) = PSID_SIZE" "psid_is_defined (cw_psid_peer v) \<longrightarrow> psid_id (cw_psid_peer v) = psid_id src"
    "psid_is_defined (cw_psid_self v)" "length (psid_id (cw_psid_self v)) = PSID_SIZE"
    "length ids \<le> 255" "pk_opcode q \<noteq> ACK_V1"
  shows "\<exists>v'. decapsulate_tls_plain now q v = (Inr (in_window mid (cw_recv v)), v') \<and> got ids mid q payload v v'"
proof -
  let ?src = "\<lparr>psid_is_defined = True, psid_id = psid_id src\<rparr>" and ?v = "cw_update_last_received now v"
  obtain b1 where b1: "buf_advance 1 (pk_buf q) = Inr b1" "buf_wf b1"
    "contents b1 = psid_id src @ ack_part ids (cw_psid_self v) @ be32 mid @ payload"
    using advance_1 [OF assms(1,2)] by auto
  obtain b2 where b2: "psid_read b1 = Inr (?src, b2)" "buf_wf b2"
    "contents b2 = ack_part ids (cw_psid_self v) @ be32 mid @ payload"
    using psid_read_Inr [OF b1(2,3) assms(3)] by auto
  obtain peer where v1: "verify_src_psid ?src ?v = (True, ?v\<lparr>cw_psid_peer := peer\<rparr>)"
    using verify_src_paired [of ?src ?v] assms(4) by (auto simp: cw_update_last_received_def)
  let ?v1 = "?v\<lparr>cw_psid_peer := peer\<rparr>"
  obtain b3 b4 where r: "receive_acks True b2 ?v1 = (Inr (True, b3), ?v1\<lparr>cw_send := fold rs_ack ids (cw_send ?v1)\<rparr>)"
    "ra_read_id b3 = Inr (mid, b4)" "contents b4 = payload"
    using message_rest [OF b2(2), of ids ?v1 mid payload] b2(3) assms(5-7) by auto
  show ?thesis
    using b1(1) b2(1) v1 r assms(8)
    by (auto simp: decapsulate_tls_plain_def Let_def receive_message_eq got_def)
qed


lemma cw_test_add_Inr:
  "pr_initialized (cw_pid_recv v) \<Longrightarrow> \<exists>x r. cw_test_add p t md v = (Inr x, v\<lparr>cw_pid_recv := r\<rparr>)"
  using test_add_Inr [of "cw_pid_recv v" p t md] by (auto simp: cw_test_add_def)

lemma post_process_got:
  assumes "buf_wf (pk_buf q)" "contents (pk_buf q) = ack_part ids (cw_psid_self v) @ be32 mid @ payload"
    "psid_is_defined src" "psid_is_defined (cw_psid_peer v) \<longrightarrow> psid_id (cw_psid_peer v) = psid_id src"
    "psid_is_defined (cw_psid_self v)" "length (psid_id (cw_psid_self v)) = PSID_SIZE"
    "length ids \<le> 255" "pk_opcode q \<noteq> ACK_V1"
    "test_add p (seconds_since_epoch (cw_base v) now) False (cw_pid_recv v) = Inr (True, r)"
  shows "\<exists>v'. decapsulate_post_process now q src p v = (Inr (in_window mid (cw_recv v)), v') \<and> got ids mid q payload v v'"
proof -
  let ?v = "cw_update_last_received now v"
  obtain peer where v1: "verify_src_psid src ?v = (True, ?v\<lparr>cw_psid_peer := peer\<rparr>)"
    using verify_src_paired [of src ?v] assms(3,4) by auto
  let ?v1 = "?v\<lparr>cw_psid_peer := peer, cw_pid_recv := r\<rparr>"
  have t1: "cw_test_add p (seconds_since_epoch (cw_base ?v) now) False (?v\<lparr>cw_psid_peer := peer\<rparr>) = (Inr True, ?v1)"
    using assms(9) by (simp add: cw_test_add_def)
  obtain b3 b4 where r: "receive_acks True (pk_buf q) ?v1 = (Inr (True, b3), ?v1\<lparr>cw_send := fold rs_ack ids (cw_send ?v1)\<rparr>)"
    "ra_read_id b3 = Inr (mid, b4)" "contents b4 = payload"
    using message_rest [OF assms(1), of ids ?v1 mid payload] assms(2,5-7) by auto
  define v2 where "v2 = snd (receive_message (q\<lparr>pk_buf := b4\<rparr>) mid (?v1\<lparr>cw_send := fold rs_ack ids (cw_send v)\<rparr>))"
  have "pr_initialized (cw_pid_recv v2)"
    using test_add_initialized(2) [OF assms(9)] by (simp add: v2_def receive_message_eq)
  then obtain x r' where t2: "cw_test_add p (seconds_since_epoch (cw_base v) now) True v2 = (Inr x, v2\<lparr>cw_pid_recv := r'\<rparr>)"
    using cw_test_add_Inr by blast
  have m: "receive_message (q\<lparr>pk_buf := b4\<rparr>) mid (?v1\<lparr>cw_send := fold rs_ack ids (cw_send v)\<rparr>) = (in_window mid (cw_recv v), v2)"
    by (simp add: v2_def receive_message_eq)
  have g: "got ids mid q payload v v2" "got ids mid q payload v (v2\<lparr>cw_pid_recv := r'\<rparr>)"
    using r(3) by (auto simp: v2_def receive_message_eq got_def)
  show ?thesis
    using v1 t1 r assms(8) t2 m g by (auto simp: decapsulate_post_process_def Let_def)
qed

lemma decapsulate_auth_got:
  assumes "buf_wf (pk_buf q)" "contents (pk_buf q) = auth_head h opb src p body @ body"
    "body = ack_part ids (cw_psid_self v) @ be32 mid @ payload"
    "length (psid_id src) = PSID_SIZE" "psid_is_defined (cw_psid_peer v) \<longrightarrow> psid_id (cw_psid_peer v) = psid_id src"
    "psid_is_defined (cw_psid_self v)" "length (psid_id (cw_psid_self v)) = PSID_SIZE"
    "length ids \<le> 255" "pk_opcode q \<noteq> ACK_V1"
    "hmac_ok h v" "\<And>x. length (h_final h x) = h_size h"
    "takes_pid now (p\<lparr>p_time := pid_wire_time LONG_FORM (p_time p)\<rparr>) v"
  shows "\<exists>v'. decapsulate_tls_auth h now q v = (Inr (in_window mid (cw_recv v)), v') \<and> got ids mid q payload v v'"
proof -
  let ?src = "\<lparr>psid_is_defined = True, psid_id = psid_id src\<rparr>" and ?n = "cw_hmac_size v"
  let ?mac = "h_final h (hmac_fed (pid_bytes LONG_FORM p) opb (psid_id src) body)" and ?pf = "pid_bytes LONG_FORM p"
  let ?p = "p\<lparr>p_time := pid_wire_time LONG_FORM (p_time p)\<rparr>"
  have n: "?n = h_size h" "?n < 1000000" using assms(10) by (simp_all add: hmac_ok_def)
  have c: "contents (pk_buf q) = opb # psid_id src @ ?mac @ ?pf @ body" using assms(2) by (simp add: auth_head_def)
  have mac: "ovpn_hmac_cmp h (contents (pk_buf q)) (1 + PSID_SIZE) ?n (pid_size LONG_FORM)"
    unfolding c using ovpn_hmac_gen_cmp(2) [OF assms(4), of ?pf ?mac ?n h opb body] n assms(11)
    by (simp add: pid_size_def)
  obtain b1 where b1: "buf_advance 1 (pk_buf q) = Inr b1" "buf_wf b1" "contents b1 = psid_id src @ ?mac @ ?pf @ body"
    using advance_1 [OF assms(1) c] by auto
  obtain b2 where b2: "psid_read b1 = Inr (?src, b2)" "buf_wf b2" "contents b2 = ?mac @ ?pf @ body"
    using psid_read_Inr [OF b1(2,3) assms(4)] by auto
  have "?n \<le> b_size b2" using length_contents [OF b2(2)] b2(3) assms(11) n(1) by simp
  then obtain b3 where a3: "buf_advance ?n b2 = Inr b3" by (auto simp: buf_advance_def)
  from advance_Inr [OF this b2(2)] b2(3) assms(11) n(1) have b3: "buf_wf b3" "contents b3 = ?pf @ body" by simp_all
  obtain b4 where b4: "pid_read LONG_FORM b3 = Inr (?p, b4)" "buf_wf b4" "contents b4 = body"
    using pid_read_bytes [OF b3] by blast
  obtain r where t: "test_add ?p (seconds_since_epoch (cw_base v) now) False (cw_pid_recv v) = Inr (True, r)"
    and form: "pr_form (cw_pid_recv v) = LONG_FORM" using assms(12) by (auto simp: takes_pid_def)
  have "pr_initialized (cw_pid_recv v)" using test_add_initialized(1) [OF t] .
  then have "pid_recv_read_next (cw_pid_recv v) b3 = Inr (?p, b4)"
    using form b4(1) by (simp add: pid_recv_read_next_def)
  moreover obtain v' where v': "decapsulate_post_process now (q\<lparr>pk_buf := b4\<rparr>) ?src ?p v = (Inr (in_window mid (cw_recv v)), v')"
    "got ids mid (q\<lparr>pk_buf := b4\<rparr>) payload v v'"
    using post_process_got [of "q\<lparr>pk_buf := b4\<rparr>" ids v mid payload ?src ?p now r] b4(2,3) assms(3,5-9) t by auto
  moreover have "got ids mid q payload v v'" using v'(2) by (simp add: got_def)
  ultimately show ?thesis using b1(1) b2(1) a3 mac by (auto simp: decapsulate_tls_auth_def Let_def)
qed


lemma encapsulate_parts:
  fixes mid :: u32
  assumes "buf_wf (pk_buf pkt)" "can_send w"
    "length (ack_part (acks_sent w) (cw_psid_peer w)) + 4 + room \<le> b_offset (pk_buf pkt)"
  defines "body \<equiv> ack_part (acks_sent w) (cw_psid_peer w) @ be32 mid @ contents (pk_buf pkt)"
    and "w1 \<equiv> w\<lparr>cw_acks := (cw_acks w)\<lparr>ra_data := drop (ra_max (cw_acks w)) (ra_data (cw_acks w))\<rparr>\<rparr>"
  shows "\<exists>b. encapsulate h junk now mid pkt w =
      andthen (gen_head h junk now (pk_opcode pkt) b w1) (\<lambda>b w. (Inr (pkt\<lparr>pk_buf := b\<rparr>), w))
    \<and> buf_wf b \<and> contents b = body \<and> room \<le> b_offset b"
proof -
  obtain b1 where b1: "buf_prepend (be32 mid) (pk_buf pkt) = Inr b1"
    using bufq.prepend_ok [OF assms(1), of "be32 mid"] assms(3) by (auto simp: ok_def)
  from bufq.prepend_view [OF assms(1) b1]
  have v: "buf_wf b1" "contents b1 = be32 mid @ contents (pk_buf pkt)" "b_offset b1 = b_offset (pk_buf pkt) - 4" by simp_all
  have "length (ack_part (acks_sent w) (cw_psid_peer w)) \<le> b_offset b1" using v(3) assms(3) by simp
  from prepend_acks_Inr [OF v(1) assms(2) this] obtain b2 where "prepend_dest_psid_and_acks b1 w = (Inr b2, w1)" "buf_wf b2"
    "contents b2 = ack_part (acks_sent w) (cw_psid_peer w) @ contents b1"
    "b_offset b2 = b_offset b1 - length (ack_part (acks_sent w) (cw_psid_peer w))"
    unfolding w1_def by blast
  then show ?thesis using b1 v assms(3) by (auto simp: encapsulate_def ra_prepend_id_def body_def)
qed

lemma length_acks_sent: "can_send w \<Longrightarrow> length (acks_sent w) \<le> 255"
  by (auto simp: acks_sent_def can_send_def min_le_iff_disj)


section \<open>Rejected packets\<close>

text \<open>
  What a refused packet leaves: one more error of the given kind is counted and, over TCP only, a
  session that is still valid is invalidated with it. Nothing else changes.
\<close>

definition refused_with :: "error_type \<Rightarrow> wire \<Rightarrow> wire" where
  "refused_with e w =
     w\<lparr>cw_stats := cw_stats w @ [e],
       cw_invalidated := (if cw_tcp w \<and> cw_invalidated w = None then Some e else cw_invalidated w)\<rparr>"

lemma refused_error: "cw_error e w = refused_with e w"
  by (simp add: refused_with_def cw_error_def cw_invalidate_def Let_def)

lemma refused_recv: "cw_recv (refused_with e w) = cw_recv w"
  by (simp add: refused_with_def)

lemma advance_Inl: "buf_advance n b = Inl e \<Longrightarrow> e = Buffer_exn Buffer_overflow"
  by (auto simp: buf_advance_def split: if_splits)

lemma psid_read_Inl: "psid_read b = Inl e \<Longrightarrow> e = Buffer_exn Buffer_underflow"
  by (auto simp: psid_read_def bindE_Inl_iff dest: read_Inl)

lemma decapsulate_auth_bad_mac:
  assumes "\<not> ovpn_hmac_cmp h (contents (pk_buf pkt)) (1 + PSID_SIZE) (cw_hmac_size w) (pid_size LONG_FORM)"
  shows "(\<exists>e. decapsulate_tls_auth h now pkt w = (Inl (Buffer_exn e), w))
    \<or> decapsulate_tls_auth h now pkt w = (Inr False, cw_error HMAC_ERROR w)"
proof (cases "buf_advance 1 (pk_buf pkt)")
  case (Inl e)
  then show ?thesis using advance_Inl [OF Inl] by (simp add: decapsulate_tls_auth_def)
next
  case (Inr b1)
  note 1 = this
  show ?thesis
  proof (cases "psid_read b1")
    case (Inl e)
    then show ?thesis using 1 psid_read_Inl [OF Inl] by (simp add: decapsulate_tls_auth_def)
  next
    case (Inr r)
    obtain src b2 where r: "r = (src, b2)" by (cases r)
    then show ?thesis
      using 1 Inr assms advance_Inl [of "cw_hmac_size w" b2]
      by (cases "buf_advance (cw_hmac_size w) b2") (auto simp: decapsulate_tls_auth_def)
  qed
qed


text \<open>After the session ID of the peer is known, packets with another one are turned away.\<close>

lemma peer_unchanged:
  assumes "psid_is_defined (cw_psid_peer w)"
  shows "cw_psid_peer (snd (verify_src_psid src w)) = cw_psid_peer w"
  using assms by (simp add: verify_src_psid_def cw_error_def cw_invalidate_def Let_def)

lemma receive_keeps_peer:
  "cw_psid_peer (snd (verify_dest_psid b w)) = cw_psid_peer w"
  "cw_psid_peer (snd (receive_acks live b w)) = cw_psid_peer w"
  "cw_psid_peer (snd (receive_message pkt mid w)) = cw_psid_peer w"
  "cw_psid_peer (snd (cw_test_add p t md w)) = cw_psid_peer w"
proof -
  show d: "cw_psid_peer (snd (verify_dest_psid b w)) = cw_psid_peer w" for b w
    by (simp add: verify_dest_psid_def cw_error_def cw_invalidate_def Let_def split: sum.split)
  show "cw_psid_peer (snd (receive_acks live b w)) = cw_psid_peer w"
    by (auto simp: receive_acks_def andthen_def d split: sum.split prod.split)
  show "cw_psid_peer (snd (receive_message pkt mid w)) = cw_psid_peer w"
    by (simp add: receive_message_eq)
  show "cw_psid_peer (snd (cw_test_add p t md w)) = cw_psid_peer w"
    by (simp add: cw_test_add_def split: sum.split prod.split)
qed

lemma foreign_source_rejected:
  assumes "psid_is_defined (cw_psid_peer w)" "psid_id src \<noteq> psid_id (cw_psid_peer w)"
  shows "verify_src_psid src w = (False, cw_error CC_ERROR w)"
  using assms by (simp add: verify_src_psid_def psid_match_def)


section \<open>Each packet ID delivers once\<close>

lemma receive_keeps_window:
  "cw_pid_recv (snd (verify_src_psid src w)) = cw_pid_recv w"
  "cw_pid_recv (snd (verify_dest_psid b w)) = cw_pid_recv w"
  "cw_pid_recv (snd (receive_acks live b w)) = cw_pid_recv w"
  "cw_pid_recv (snd (receive_message pkt mid w)) = cw_pid_recv w"
  "cw_base (snd (verify_src_psid src w)) = cw_base w"
proof -
  show d: "cw_pid_recv (snd (verify_dest_psid b w)) = cw_pid_recv w" for b w
    by (simp add: verify_dest_psid_def cw_error_def cw_invalidate_def Let_def split: sum.split)
  show "cw_pid_recv (snd (receive_acks live b w)) = cw_pid_recv w"
    by (auto simp: receive_acks_def andthen_def d split: sum.split prod.split)
qed (simp_all add: receive_message_eq verify_src_psid_def cw_error_def cw_invalidate_def Let_def)

text \<open>Testing a packet ID and then recording it at the same time agree, and record it.\<close>

lemma test_add_rel:
  assumes "win_rel r w" "test_add p t md r = Inr (a, r1)"
  shows "win_rel r1 (snd (aw_step p t md w))" "a \<longleftrightarrow> aw_verdict p t w = SUCCESS"
proof -
  obtain s where s: "do_test_add p t md r = Inr (fst (aw_step p t md w), s)" "win_rel s (snd (aw_step p t md w))"
    using do_test_add_refines [OF assms(1)] by blast
  have "win_rel (s\<lparr>pr_stats := xs\<rparr>) v = win_rel s v" for xs v by (simp add: win_rel_def)
  then show "win_rel r1 (snd (aw_step p t md w))" "a \<longleftrightarrow> aw_verdict p t w = SUCCESS"
    using assms(2) s by (auto simp: test_add_def aw_step_def Let_def split: if_splits)
qed

lemma aw_step_seen:
  "aw_verdict p t w = SUCCESS \<Longrightarrow> aw_seen (snd (aw_step p t True w)) = insert (pid_key p) (aw_seen w)"
  by (simp add: aw_step_def pid_key_def Let_def)

lemma test_then_record:
  assumes "window_inv r K" "test_add p t False r = Inr (a, r1)"
  shows "window_inv r1 K" "a \<Longrightarrow> pid_key p \<notin> K"
    "a \<Longrightarrow> test_add p t True r1 = Inr (b, r2) \<Longrightarrow> window_inv r2 (insert (pid_key p) K)"
proof -
  from assms(1) obtain w where w: "win_rel r w" "aw_seen w = K" by (auto simp: window_inv_def)
  let ?w = "snd (aw_step p t False w)"
  note 1 = test_add_rel [OF w(1) assms(2)]
  have seen: "aw_seen ?w = K" using w(2) by (simp add: aw_step_def Let_def)
  then show "window_inv r1 K" using 1(1) by (auto simp: window_inv_def)
  show "pid_key p \<notin> K" if a using aw_success_fresh [OF w(1)] 1(2) that w(2) by auto
  have "aw_verdict p t ?w = aw_verdict p t w"
    by (simp add: aw_step_def aw_verdict_def aw_floor_at_def Let_def)
  then show "window_inv r2 (insert (pid_key p) K)" if a "test_add p t True r1 = Inr (b, r2)"
    using test_add_rel(1) [OF 1(1) that(2)] aw_step_seen [of p t ?w] 1(2) that(1) seen
    unfolding window_inv_def by auto
qed

definition post_step :: "vtime \<times> packet \<times> psid \<times> pid \<Rightarrow> wire \<Rightarrow> bool \<times> wire" where
  "post_step x w =
     (let (now, pkt, src, p) = x
      in case decapsulate_post_process now pkt src p w of
           (Inr True, w') \<Rightarrow> (True, w') | (_, w') \<Rightarrow> (False, w'))"

definition wire_window :: "wire \<Rightarrow> (int \<times> nat) set \<Rightarrow> bool" where
  "wire_window w K \<longleftrightarrow> (\<exists>K'. K \<subseteq> K' \<and> window_inv (cw_pid_recv w) K')"


text \<open>The ways through \<open>decapsulate_post_process\<close>, as far as the replay window and delivery are concerned.\<close>

lemma post_process_window:
  assumes K: "window_inv (cw_pid_recv w) K" and d: "decapsulate_post_process now pkt src p w = (res', w')"
  shows "window_inv (cw_pid_recv w') K \<and> res' \<noteq> Inr True
    \<or> pid_key p \<notin> K \<and> window_inv (cw_pid_recv w') (insert (pid_key p) K)"
proof -
  define w1 where "w1 = snd (verify_src_psid src (cw_update_last_received now w))"
  let ?t = "seconds_since_epoch (cw_base w1) now"
  have w1: "cw_pid_recv w1 = cw_pid_recv w" by (simp add: w1_def receive_keeps_window)
  have src: "verify_src_psid src (cw_update_last_received now w) = (fst (verify_src_psid src (cw_update_last_received now w)), w1)"
    by (simp add: w1_def)
  obtain a r1 where t1: "test_add p ?t False (cw_pid_recv w) = Inr (a, r1)"
    using test_add_Inr [of "cw_pid_recv w" p ?t False] K by (auto simp: window_inv_def win_rel_def)
  note one = test_then_record [OF K t1]
  let ?w2 = "w1\<lparr>cw_pid_recv := r1\<rparr>"
  obtain ra w3 where acks: "receive_acks a (pk_buf pkt) ?w2 = (ra, w3)" by fastforce
  have w3: "cw_pid_recv w3 = r1" using receive_keeps_window(3) [of a "pk_buf pkt" ?w2] acks by simp
  have rec: "window_inv (cw_pid_recv w4') (insert (pid_key p) K)"
    if "cw_test_add p ?t True w4 = (x, w4')" "a" "cw_pid_recv w4 = r1" for w4 w4' x
  proof -
    obtain b r2 where "test_add p ?t True r1 = Inr (b, r2)"
      using test_add_Inr [of r1 p ?t True] test_add_initialized(2) [OF t1] by auto
    then show ?thesis using that one(3) by (auto simp: cw_test_add_def)
  qed
  show ?thesis
  proof (cases "fst (verify_src_psid src (cw_update_last_received now w))")
    case False
    then have "verify_src_psid src (cw_update_last_received now w) = (False, w1)" using src by simp
    then show ?thesis using d w1 K by (auto simp: decapsulate_post_process_def Let_def)
  next
    case True
    then have src: "verify_src_psid src (cw_update_last_received now w) = (True, w1)" using src by simp
    have ta: "cw_test_add p (seconds_since_epoch (cw_base w1) now) False w1 = (Inr a, ?w2)"
      using t1 w1 by (simp add: cw_test_add_def)
    have d: "(case ra of Inl e \<Rightarrow> (Inl e, w3) | Inr (dest_ok, b) \<Rightarrow>
        if \<not> dest_ok then (Inr False, w3)
        else if pk_opcode pkt \<noteq> ACK_V1
        then andthen (ra_read_id b, w3) (\<lambda>(mid, b) w.
             if a
             then (let (in_win, w) = receive_message (pkt\<lparr>pk_buf := b\<rparr>) mid w
                   in if in_win then andthen (cw_test_add p ?t True w) (\<lambda>_ w. (Inr True, w)) else (Inr False, w))
             else (let w = w\<lparr>cw_stats := cw_stats w @ [REPLAY_ERROR]\<rparr>
                   in (Inr False, if pid_is_valid p then w\<lparr>cw_acks := ra_push_back mid (cw_acks w)\<rparr> else w)))
        else if a then andthen (cw_test_add p ?t True w3) (\<lambda>_ w. (Inr False, w))
        else (Inr False, w3\<lparr>cw_stats := cw_stats w3 @ [REPLAY_ERROR]\<rparr>)) = (res', w')"
    proof (cases "\<exists>x b. ra = Inr (x, b)")
      case True
      then show ?thesis using d by (auto simp: decapsulate_post_process_def src ta acks Let_def)
    next
      case False
      then obtain e where "ra = Inl e" by (cases ra) auto
      then show ?thesis using d by (simp add: decapsulate_post_process_def src ta acks Let_def)
    qed
    show ?thesis
      using d one(1,2) w3
      by (auto simp: andthen_def receive_message_eq Let_def split: sum.splits prod.splits if_splits dest: rec)
  qed
qed

interpretation deliver: replay_filter post_step "\<lambda>(now, pkt, src, p). pid_key p" wire_window
proof (unfold_locales, goal_cases)
  case (1 w K x w')
  obtain now pkt src p where x: "x = (now, pkt, src, p)" by (metis prod_cases4)
  obtain res' where d: "decapsulate_post_process now pkt src p w = (res', w')" "res' = Inr True"
    using 1(2) x by (auto simp: post_step_def split: prod.splits sum.splits bool.splits)
  from 1(1) obtain K' where K': "K \<subseteq> K'" "window_inv (cw_pid_recv w) K'" by (auto simp: wire_window_def)
  from post_process_window [OF K'(2) d(1)] d(2) K'(1) x show ?case by (auto simp: wire_window_def)
next
  case (2 w K x w')
  obtain now pkt src p where x: "x = (now, pkt, src, p)" by (metis prod_cases4)
  obtain res' where d: "decapsulate_post_process now pkt src p w = (res', w')"
    using 2(2) x by (auto simp: post_step_def split: prod.splits sum.splits bool.splits)
  from 2(1) obtain K' where K': "K \<subseteq> K'" "window_inv (cw_pid_recv w) K'" by (auto simp: wire_window_def)
  from post_process_window [OF K'(2) d] K'(1) show ?case unfolding wire_window_def by blast
qed


section \<open>Properties\<close>

text \<open>
  C3. A control packet gets through: what \<open>encapsulate\<close> makes of a message (in the clear, or
  under \<^verbatim>\<open>--tls-auth\<close> with a shared HMAC key) is accepted by \<open>decapsulate\<close> at a peer that knows
  the two session IDs and has not seen the packet ID: the payload enters the receive window under
  the message's sequence number with nothing added or lost, the acknowledgements the packet
  carries are applied to the peer's send window in order, the message is noted for
  acknowledgement, no error is counted, and the result says whether the window took it.
\<close>

theorem control_packet_delivered:
  fixes w v :: wire
  assumes "buf_wf (pk_buf pkt)" "can_send w" "pairs_with v w" "pk_opcode pkt \<noteq> ACK_V1"
    "length (ack_part (acks_sent w) (cw_psid_peer w)) + 4 + (17 + cw_hmac_size w) \<le> b_offset (pk_buf pkt)"
    and auth: "cw_wrap w = TLS_AUTH \<longrightarrow> hmac_ok h w \<and> (\<forall>x. length (h_final h x) = h_size h)
      \<and> ps_form (cw_pid_send w) = LONG_FORM
      \<and> (\<exists>p s. pid_send_next (seconds_since_epoch (cw_base w) now) (cw_pid_send w) = (Inr p, s)
           \<and> takes_pid now' (p\<lparr>p_time := pid_wire_time LONG_FORM (p_time p)\<rparr>) v)"
  shows "\<exists>q w' v'. encapsulate h junk now mid pkt w = (Inr q, w')
    \<and> decapsulate h now' q v = (Inr (in_window mid (cw_recv v)), v')
    \<and> got (acks_sent w) mid q (contents (pk_buf pkt)) v v'"
proof -
  let ?ids = "acks_sent w" and ?body = "ack_part (acks_sent w) (cw_psid_peer w) @ be32 mid @ contents (pk_buf pkt)"
  let ?w1 = "w\<lparr>cw_acks := (cw_acks w)\<lparr>ra_data := drop (ra_max (cw_acks w)) (ra_data (cw_acks w))\<rparr>\<rparr>"
  obtain b where b: "encapsulate h junk now mid pkt w =
      andthen (gen_head h junk now (pk_opcode pkt) b ?w1) (\<lambda>b w. (Inr (pkt\<lparr>pk_buf := b\<rparr>), w))"
    "buf_wf b" "contents b = ?body" "17 + cw_hmac_size w \<le> b_offset b"
    using encapsulate_parts [OF assms(1,2,5)] by blast
  have w1: "can_send ?w1" using assms(2) by (auto simp: can_send_def)
  have body: "?body = ack_part ?ids (cw_psid_self v) @ be32 mid @ contents (pk_buf pkt)"
    using assms(3) ack_part_cong [of ?ids "cw_psid_self v" "cw_psid_peer w"] by (simp add: pairs_with_def)
  have self: "length (psid_id (cw_psid_self w)) = PSID_SIZE" using assms(2) by (simp add: can_send_def)
  show ?thesis
  proof (cases "cw_wrap w")
    case TLS_PLAIN
    then obtain b' where b': "gen_head h junk now (pk_opcode pkt) b ?w1 = (Inr b', ?w1)" "buf_wf b'"
      "contents b' = ucast (op_compose (pk_opcode pkt) (cw_key_id w)) # psid_id (cw_psid_self w) @ ?body"
      using gen_head_plain_Inr [OF b(2) w1, of "pk_opcode pkt"] b(3,4) by (auto simp: gen_head_def)
    have "\<exists>v'. decapsulate_tls_plain now' (pkt\<lparr>pk_buf := b'\<rparr>) v = (Inr (in_window mid (cw_recv v)), v')
        \<and> got ?ids mid (pkt\<lparr>pk_buf := b'\<rparr>) (contents (pk_buf pkt)) v v'"
      using decapsulate_plain_got [of "pkt\<lparr>pk_buf := b'\<rparr>" _ "cw_psid_self w" ?ids v mid "contents (pk_buf pkt)"]
        b'(2,3) assms(3,4) self length_acks_sent [OF assms(2)] unfolding body by (auto simp: pairs_with_def)
    then show ?thesis using b(1) b'(1) TLS_PLAIN assms(3) by (auto simp: decapsulate_def pairs_with_def)
  next
    case TLS_AUTH
    with auth obtain p s where a: "hmac_ok h w" "\<And>x. length (h_final h x) = h_size h" "ps_form (cw_pid_send w) = LONG_FORM"
      "pid_send_next (seconds_since_epoch (cw_base w) now) (cw_pid_send w) = (Inr p, s)"
      "takes_pid now' (p\<lparr>p_time := pid_wire_time LONG_FORM (p_time p)\<rparr>) v" by auto
    have ok: "hmac_ok h ?w1" "hmac_ok h v" using a(1) assms(3) by (simp_all add: hmac_ok_def pairs_with_def)
    obtain b' where b': "gen_head h junk now (pk_opcode pkt) b ?w1 = (Inr b', ?w1\<lparr>cw_pid_send := s\<rparr>)" "buf_wf b'"
      "contents b' = auth_head h (ucast (op_compose (pk_opcode pkt) (cw_key_id w))) (cw_psid_self w) p ?body @ ?body"
      using gen_head_auth_Inr [OF b(2) w1 _ ok(1) a(2), where now = now and p = p and s' = s and opcode = "pk_opcode pkt" and junk = junk] a(1,3,4) b(3,4) TLS_AUTH
      by (auto simp: gen_head_def hmac_ok_def)
    have "\<exists>v'. decapsulate_tls_auth h now' (pkt\<lparr>pk_buf := b'\<rparr>) v = (Inr (in_window mid (cw_recv v)), v')
        \<and> got ?ids mid (pkt\<lparr>pk_buf := b'\<rparr>) (contents (pk_buf pkt)) v v'"
      using decapsulate_auth_got [of "pkt\<lparr>pk_buf := b'\<rparr>" h _ "cw_psid_self w" p ?body ?ids v mid "contents (pk_buf pkt)" now']
        b'(2,3) assms(3,4) self length_acks_sent [OF assms(2)] ok(2) a(2,5) body by (auto simp: pairs_with_def)
    then show ?thesis using b(1) b'(1) TLS_AUTH assms(3) by (auto simp: decapsulate_def pairs_with_def)
  qed
qed

theorem control_packet_delivered_witness:
  "\<exists>q w' v'.
     (let h = \<lparr>h_final = (\<lambda>x. [fold (+) x 0, 7]), h_size = 2\<rparr>;
          a = \<lparr>psid_is_defined = True, psid_id = [1, 2, 3, 4, 5, 6, 7, 8]\<rparr>;
          b = \<lparr>psid_is_defined = True, psid_id = [8, 7, 6, 5, 4, 3, 2, 1]\<rparr>;
          w = \<lparr>cw_wrap = TLS_AUTH, cw_tcp = False, cw_base = 0, cw_hmac_size = 2, cw_key_id = 0,
               cw_psid_self = a, cw_psid_peer = b, cw_pid_send = pid_send_init LONG_FORM,
               cw_pid_recv = pid_recv_init 0 LONG_FORM '''' 0 [], cw_stats = [], cw_invalidated = None,
               cw_keepalive_timeout = Duration 1024, cw_keepalive_expire = Time 0,
               cw_recv = rr_init 4, cw_send = rs_init 4, cw_acks = \<lparr>ra_max = 4, ra_data = [5, 6]\<rparr>\<rparr>;
          v = w\<lparr>cw_psid_self := b, cw_psid_peer := a\<rparr>
      in encapsulate h (\<lambda>_. 0) (Time 1024) 2 \<lparr>pk_opcode = CONTROL_V1,
             pk_buf = buf_view (replicate 64 9) True\<lparr>b_offset := 60, b_size := 4\<rparr>\<rparr> w = (Inr q, w')
         \<and> decapsulate h (Time 1024) q v = (Inr True, v') \<and> got [5, 6] 2 q (replicate 4 9) v v')"
proof -
  let ?h = "\<lparr>h_final = (\<lambda>x. [fold (+) x 0, 7]), h_size = 2\<rparr> :: hmac_ctx"
  let ?a = "\<lparr>psid_is_defined = True, psid_id = [1, 2, 3, 4, 5, 6, 7, 8]\<rparr>"
  let ?b = "\<lparr>psid_is_defined = True, psid_id = [8, 7, 6, 5, 4, 3, 2, 1]\<rparr>"
  let ?w = "\<lparr>cw_wrap = TLS_AUTH, cw_tcp = False, cw_base = 0, cw_hmac_size = 2, cw_key_id = 0,
               cw_psid_self = ?a, cw_psid_peer = ?b, cw_pid_send = pid_send_init LONG_FORM,
               cw_pid_recv = pid_recv_init 0 LONG_FORM '''' 0 [], cw_stats = [], cw_invalidated = None,
               cw_keepalive_timeout = Duration 1024, cw_keepalive_expire = Time 0,
               cw_recv = rr_init 4, cw_send = rs_init 4, cw_acks = \<lparr>ra_max = 4, ra_data = [5, 6]\<rparr>\<rparr>"
  let ?v = "?w\<lparr>cw_psid_self := ?b, cw_psid_peer := ?a\<rparr>"
  let ?pkt = "\<lparr>pk_opcode = CONTROL_V1, pk_buf = buf_view (replicate 64 9) True\<lparr>b_offset := 60, b_size := 4\<rparr>\<rparr>"
  have p0: "contents (buf_view (replicate 64 9) True\<lparr>b_offset := 60, b_size := 4\<rparr>) = replicate 4 9"
    by (simp add: buf_view_def contents_def)
  have p: "buf_wf (pk_buf ?pkt)" "contents (pk_buf ?pkt) = (replicate 4 9)"
    by (simp_all add: buf_wf_def buf_view_def contents_def)
  have w: "can_send ?w" "pairs_with ?v ?w" "acks_sent ?w = [5, 6]"
    by (simp_all add: can_send_def pairs_with_def acks_sent_def)
  have room: "length (ack_part (acks_sent ?w) (cw_psid_peer ?w)) + 4 + (17 + cw_hmac_size ?w) \<le> b_offset (pk_buf ?pkt)"
    by (simp add: w(3) ack_part_def)
  have e: "seconds_since_epoch 0 (Time 1024) = 1" by (simp add: seconds_since_epoch_def)
  have n: "pid_send_next (seconds_since_epoch (cw_base ?w) (Time 1024)) (cw_pid_send ?w) =
      (Inr \<lparr>p_id = 1, p_time = 1\<rparr>, \<lparr>ps_pid = \<lparr>p_id = 1, p_time = 1\<rparr>, ps_form = LONG_FORM\<rparr>)"
    by (simp add: pid_send_next_def pid_send_init_def e)
  have t: "takes_pid (Time 1024) \<lparr>p_id = 1, p_time = 1\<rparr> ?v"
    by (simp add: takes_pid_def e test_add_def do_test_add_def pid_recv_init_def expire_floor_def pid_is_valid_def)
  have auth: "cw_wrap ?w = TLS_AUTH \<longrightarrow> hmac_ok ?h ?w \<and> (\<forall>x. length (h_final ?h x) = h_size ?h)
      \<and> ps_form (cw_pid_send ?w) = LONG_FORM
      \<and> (\<exists>p s. pid_send_next (seconds_since_epoch (cw_base ?w) (Time 1024)) (cw_pid_send ?w) = (Inr p, s)
           \<and> takes_pid (Time 1024) (p\<lparr>p_time := pid_wire_time LONG_FORM (p_time p)\<rparr>) ?v)"
    using n t by (simp add: hmac_ok_def pid_send_init_def pid_wire_time_def)
  have "in_window 2 (cw_recv ?v)" by (simp add: rr_init_def win_init_def in_window_def)
  with control_packet_delivered [OF p(1) w(1,2) _ room auth, of "\<lambda>_. 0" 2] show ?thesis
    by (simp add: Let_def p0 w(3))
qed

text \<open>
  C35. Under \<^verbatim>\<open>--tls-auth\<close> a packet without a valid HMAC has no effect: whatever its bytes,
  \<open>decapsulate\<close> refuses it, and nothing changes but that one HMAC or buffer error is counted and,
  over TCP, a session that was valid is invalidated with that error; over UDP its validity stays. No
  acknowledgement is applied, no message delivered, no packet ID recorded, no session ID learnt
  and the keepalive timer not reset.
\<close>

theorem forged_packet_inert:
  "cw_wrap w = TLS_AUTH \<Longrightarrow>
   \<not> ovpn_hmac_cmp h (contents (pk_buf pkt)) (1 + PSID_SIZE) (cw_hmac_size w) (pid_size LONG_FORM) \<Longrightarrow>
   \<exists>e \<in> {HMAC_ERROR, BUFFER_ERROR}. decapsulate h now pkt w = (Inr False, refused_with e w)"
  using decapsulate_auth_bad_mac [of h pkt w now] by (auto simp: decapsulate_def refused_error)

theorem forged_packet_inert_witness:
  "\<exists>w h pkt. \<exists>e \<in> {HMAC_ERROR, BUFFER_ERROR}.
     decapsulate h (Time 0) pkt w = (Inr False, refused_with e w) \<and> length (contents (pk_buf pkt)) = 40
     \<and> cw_stats (snd (decapsulate h (Time 0) pkt w)) = [HMAC_ERROR] \<and> \<not> cw_tcp w
     \<and> cw_invalidated (snd (decapsulate h (Time 0) pkt w)) = None \<and> cw_recv (snd (decapsulate h (Time 0) pkt w)) = cw_recv w"
proof -
  let ?h = "\<lparr>h_final = (\<lambda>x. [1, 7]), h_size = 2\<rparr> :: hmac_ctx"
  let ?w = "\<lparr>cw_wrap = TLS_AUTH, cw_tcp = False, cw_base = 0, cw_hmac_size = 2, cw_key_id = 0,
               cw_psid_self = psid_reset, cw_psid_peer = psid_reset, cw_pid_send = pid_send_init LONG_FORM,
               cw_pid_recv = pid_recv_init 0 LONG_FORM '''' 0 [], cw_stats = [], cw_invalidated = None,
               cw_keepalive_timeout = Duration 1024, cw_keepalive_expire = Time 0,
               cw_recv = rr_init 4, cw_send = rs_init 4, cw_acks = \<lparr>ra_max = 4, ra_data = [5, 6]\<rparr>\<rparr>"
  let ?pkt = "\<lparr>pk_opcode = CONTROL_V1, pk_buf = buf_view (replicate 40 0) True\<rparr>"
  have c0: "contents (buf_view (replicate 40 0) True) = replicate 40 0" by (simp add: buf_view_def contents_def)
  have c: "contents (pk_buf ?pkt) = replicate 40 0" by (simp add: buf_view_def contents_def)
  have bad: "\<not> ovpn_hmac_cmp ?h (contents (pk_buf ?pkt)) (1 + PSID_SIZE) (cw_hmac_size ?w) (pid_size LONG_FORM)"
    by (simp add: c0 ovpn_hmac_cmp_def ovpn_hmac_pre_def pid_size_def numeral_2_eq_2)
  have "cw_wrap ?w = TLS_AUTH" by simp
  from forged_packet_inert [OF this bad, of "Time 0"] obtain e where
    e: "e \<in> {HMAC_ERROR, BUFFER_ERROR}" and f: "decapsulate ?h (Time 0) ?pkt ?w = (Inr False, refused_with e ?w)" by blast
  have "cw_stats (snd (decapsulate ?h (Time 0) ?pkt ?w)) = [HMAC_ERROR]"
    using bad by (simp add: decapsulate_def decapsulate_tls_auth_def buf_advance_def psid_read_def buf_read_def
        buf_view_def cw_error_def cw_invalidate_def Let_def)
  moreover have "cw_invalidated (snd (decapsulate ?h (Time 0) ?pkt ?w)) = None"
    unfolding f by (simp add: refused_with_def)
  moreover have "cw_recv (snd (decapsulate ?h (Time 0) ?pkt ?w)) = cw_recv ?w"
    unfolding f using refused_recv by simp
  ultimately show ?thesis using e f c by (intro exI [of _ ?w] exI [of _ ?h] exI [of _ ?pkt] bexI [of _ e]) simp_all
qed

text \<open>
  Under \<^verbatim>\<open>--tls-auth\<close> no packet ID delivers twice: from a fresh replay window, whatever
  packets arrive with whatever session IDs and clock, the packets for which
  \<open>decapsulate_post_process\<close> reports a message for the upper layers carry pairwise different
  (time, id) pairs.
\<close>

lemma control_packets_once:
  "distinct (map (\<lambda>(now, pkt, src, p). pid_key p)
     (filter_run post_step xs (w\<lparr>cw_pid_recv := pid_recv_init mode form name unit stats\<rparr>)))"
proof -
  have "wire_window (w\<lparr>cw_pid_recv := pid_recv_init mode form name unit stats\<rparr>) {}"
    using window_inv_init by (simp add: wire_window_def) blast
  then show ?thesis using deliver.run_once by blast
qed

end
