(* ===== verification/Split_Lines.thy ===== *)
theory Split_Lines
  imports Text_Codecs
begin

text \<open>
  \<^verbatim>\<open>common/splitlines.hpp\<close>: taking a text apart into lines, and the trimming of line ends of
  \<^verbatim>\<open>common/string.hpp\<close> it uses. The position in the text is a \<open>nat\<close>: the sum of the position and
  the limit on a line's length is taken not to reach \<open>2 ^ 64\<close>.
\<close>

abbreviation (input) NL :: char where "NL \<equiv> CHR 0x0A"
abbreviation (input) CR :: char where "CR \<equiv> CHR 0x0D"

definition ends_with_crlf :: "string \<Rightarrow> bool" where
  "ends_with_crlf str \<longleftrightarrow> str \<noteq> [] \<and> (last str = NL \<or> last str = CR)"

function trim_crlf :: "string \<Rightarrow> string" where
  "trim_crlf str = (if ends_with_crlf str then trim_crlf (butlast str) else str)"
  by pat_completeness auto

termination
  by (relation "measure length") (auto simp: ends_with_crlf_def)

declare trim_crlf.simps [simp del]

record split_lines =
  sl_data :: string
  sl_max_line_len :: nat
  sl_index :: nat
  sl_line :: string
  sl_overflow :: bool

definition split_lines_new :: "string \<Rightarrow> nat \<Rightarrow> split_lines" where
  "split_lines_new str max_line_len =
     \<lparr>sl_data = str, sl_max_line_len = max_line_len, sl_index = 0, sl_line = [], sl_overflow = False\<rparr>"

function split_loop :: "bool \<Rightarrow> nat \<Rightarrow> split_lines \<Rightarrow> bool \<times> split_lines" where
  "split_loop trim overflow_index s =
     (if sl_index s < length (sl_data s)
      then (if sl_max_line_len s \<noteq> 0 \<and> sl_index s \<ge> overflow_index
            then (True, s\<lparr>sl_overflow := True\<rparr>)
            else (let c = sl_data s ! sl_index s;
                      s = s\<lparr>sl_index := sl_index s + 1, sl_line := sl_line s @ [c]\<rparr>
                  in if c = NL \<or> sl_index s \<ge> length (sl_data s)
                     then (True, if trim then s\<lparr>sl_line := trim_crlf (sl_line s)\<rparr> else s)
                     else split_loop trim overflow_index s))
      else (False, s))"
  by pat_completeness auto

termination
  by (relation "measure (\<lambda>(_, _, s). length (sl_data s) - sl_index s)") auto

declare split_loop.simps [simp del]

definition split_line :: "bool \<Rightarrow> split_lines \<Rightarrow> bool \<times> split_lines" where
  "split_line trim s =
     split_loop trim (sl_index s + sl_max_line_len s) (s\<lparr>sl_line := [], sl_overflow := False\<rparr>)"

datatype split_status = S_OKAY | S_EOF | S_ERROR

text \<open>\<open>next\<close> moves the line out; the string moved from is left empty.\<close>

definition split_next :: "bool \<Rightarrow> string \<Rightarrow> split_lines \<Rightarrow> split_status \<times> string \<times> split_lines" where
  "split_next trim ln s =
     (let (ok', s) = split_line trim s
      in if \<not> ok' then (S_EOF, ln, s)
         else if sl_overflow s then (S_ERROR, ln, s)
         else (S_OKAY, sl_line s, s\<lparr>sl_line := []\<rparr>))"


section \<open>Progress, and what the lines of a text are\<close>

lemma trim_crlf_id: "\<not> ends_with_crlf str \<Longrightarrow> trim_crlf str = str"
  by (simp add: trim_crlf.simps)

lemma trim_crlf_NL: "\<not> ends_with_crlf str \<Longrightarrow> trim_crlf (str @ [NL]) = str"
  by (subst trim_crlf.simps) (simp add: ends_with_crlf_def trim_crlf_id)

lemma split_loop_progress:
  "split_loop trim oi s = (True, s') \<Longrightarrow> sl_index s < oi \<or> sl_max_line_len s = 0 \<Longrightarrow>
   sl_index s < sl_index s' \<and> sl_data s' = sl_data s"
proof (induction trim oi s rule: split_loop.induct)
  case (1 trim oi s)
  let ?s = "s\<lparr>sl_index := sl_index s + 1, sl_line := sl_line s @ [sl_data s ! sl_index s]\<rparr>"
  show ?case
  proof (cases "sl_index s < length (sl_data s) \<and> \<not> (sl_data s ! sl_index s = NL \<or> length (sl_data s) \<le> sl_index s + 1)")
    case True
    with "1.prems" have r: "split_loop trim oi ?s = (True, s')"
      by (subst (asm) split_loop.simps) (auto simp: Let_def)
    show ?thesis
    proof (cases "sl_index ?s < oi \<or> sl_max_line_len ?s = 0")
      case True2: True
      with "1.IH" [OF _ _ refl refl _ r] True "1.prems"(2) show ?thesis by (auto simp: not_le)
    next
      case False
      with r True show ?thesis by (subst (asm) split_loop.simps) auto
    qed
  next
    case False
    with "1.prems" show ?thesis
      by (subst (asm) split_loop.simps) (auto simp: Let_def split: if_splits)
  qed
qed

lemma split_line_progress:
  "split_line trim s = (True, s') \<Longrightarrow> sl_index s < sl_index s' \<and> sl_data s' = sl_data s"
  using split_loop_progress [of trim "sl_index s + sl_max_line_len s" "s\<lparr>sl_line := [], sl_overflow := False\<rparr>" s']
  by (auto simp: split_line_def)

lemma split_loop_at:
  "sl_data s = pre @ l @ NL # rest \<Longrightarrow> sl_index s = length pre \<Longrightarrow> NL \<notin> set l \<Longrightarrow> sl_max_line_len s = 0 \<Longrightarrow>
   split_loop trim oi s = (True, s\<lparr>sl_index := length pre + length l + 1,
      sl_line := (if trim then trim_crlf (sl_line s @ l @ [NL]) else sl_line s @ l @ [NL])\<rparr>)"
proof (induction l arbitrary: s pre)
  case Nil
  then show ?case by (subst split_loop.simps) (simp add: Let_def nth_append)
next
  case (Cons c l)
  let ?s = "s\<lparr>sl_index := sl_index s + 1, sl_line := sl_line s @ [c]\<rparr>"
  have "split_loop trim oi s = split_loop trim oi ?s"
    using Cons.prems by (subst split_loop.simps) (auto simp: Let_def nth_append)
  also have "\<dots> = (True, ?s\<lparr>sl_index := length (pre @ [c]) + length l + 1,
      sl_line := (if trim then trim_crlf (sl_line ?s @ l @ [NL]) else sl_line ?s @ l @ [NL])\<rparr>)"
    using Cons.prems by (intro Cons.IH) auto
  finally show ?case by simp
qed

lemma split_line_at:
  assumes "sl_data s = pre @ l @ NL # rest" "sl_index s = length pre" "NL \<notin> set l" "CR \<notin> set l" "sl_max_line_len s = 0"
  shows "split_line True s =
     (True, s\<lparr>sl_index := length pre + length l + 1, sl_line := l, sl_overflow := False\<rparr>)"
proof -
  have "\<not> ends_with_crlf l" using assms(3,4) by (metis ends_with_crlf_def last_in_set)
  then show ?thesis
    using split_loop_at [of "s\<lparr>sl_line := [], sl_overflow := False\<rparr>" pre l rest True] assms
    by (simp add: split_line_def trim_crlf_NL)
qed

lemma split_line_end: "length (sl_data s) \<le> sl_index s \<Longrightarrow> fst (split_line trim s) = False"
  by (simp add: split_line_def split_loop.simps)

lemma split_line_measure:
  "(True, s') = split_line trim s \<Longrightarrow> length (sl_data s') - sl_index s' < length (sl_data s) - sl_index s"
proof -
  assume a: "(True, s') = split_line trim s"
  then have "sl_index s < sl_index s' \<and> sl_data s' = sl_data s" using split_line_progress [of trim s s'] by simp
  moreover have "sl_index s < length (sl_data s)" using a split_line_end [of s trim] by (metis fst_conv not_le)
  ultimately show ?thesis by (metis diff_less_mono2)
qed

end
