(* ===== verification/Buffer_Composed.thy ===== *)
theory Buffer_Composed
  imports Vpn_Prelude
begin

text \<open>
  \<^verbatim>\<open>buffer/bufcomplete.hpp\<close>, \<^verbatim>\<open>buffer/bufcomposed.hpp\<close> and the joining of \<^verbatim>\<open>buffer/buflist.hpp\<close>:
  a message that arrives in several buffers, and the parser that tells whether all of it is there.
  A buffer is the list of its bytes; it is defined when it is not empty.
\<close>

section \<open>Operations\<close>

text \<open>The parser: what is left of the current buffer, and the buffers behind the iterator.\<close>

record buf_complete =
  bc_buf :: "byte list"
  bc_iter :: "byte list list"

definition next_buffer :: "buf_complete \<Rightarrow> buf_complete" where
  "next_buffer c =
     (case bc_iter c of
        [] \<Rightarrow> c\<lparr>bc_buf := []\<rparr>
      | b # bs \<Rightarrow> \<lparr>bc_buf = b, bc_iter = bs\<rparr>)"

definition fetch_buffer :: "buf_complete \<Rightarrow> bool \<times> buf_complete" where
  "fetch_buffer c =
     (if bc_buf c \<noteq> [] then (True, c)
      else (let c = next_buffer c in (bc_buf c \<noteq> [], c)))"

definition bc_get :: "buf_complete \<Rightarrow> byte option \<times> buf_complete" where
  "bc_get c =
     (let (ok', c) = fetch_buffer c
      in if \<not> ok' then (None, c)
         else (Some (hd (bc_buf c)), c\<lparr>bc_buf := tl (bc_buf c)\<rparr>))"

function bc_advance :: "nat \<Rightarrow> buf_complete \<Rightarrow> bool \<times> buf_complete" where
  "bc_advance n c =
     (if n \<noteq> 0
      then (let (ok', c) = fetch_buffer c
            in if \<not> ok' then (False, c)
               else (let s = min n (length (bc_buf c))
                     in bc_advance (n - s) (c\<lparr>bc_buf := drop s (bc_buf c)\<rparr>)))
      else (True, c))"
  by pat_completeness auto

termination
  by (relation "measure fst") (auto simp: fetch_buffer_def Let_def split: if_splits)

declare bc_advance.simps [simp del]

definition bc_advance_string :: "buf_complete \<Rightarrow> bool \<times> buf_complete" where
  "bc_advance_string c =
     (case bc_get c of
        (None, c) \<Rightarrow> (False, c)
      | (Some h, c) \<Rightarrow>
          (case bc_get c of
             (None, c) \<Rightarrow> (False, c)
           | (Some l, c) \<Rightarrow> bc_advance (push_bit 8 (unat h) OR unat l) c))"

text \<open>Every call of \<open>get\<close> that succeeds uses up a byte.\<close>

definition bc_rest :: "buf_complete \<Rightarrow> byte list" where
  "bc_rest c = bc_buf c @ concat (bc_iter c)"

lemma bc_get_rest: "bc_get c = (Some x, c') \<Longrightarrow> bc_rest c = x # bc_rest c'"
  by (cases "bc_buf c"; cases "bc_iter c")
     (auto simp: bc_get_def fetch_buffer_def next_buffer_def bc_rest_def Let_def neq_Nil_conv split: if_splits)

function bc_advance_to_null :: "buf_complete \<Rightarrow> bool \<times> buf_complete" where
  "bc_advance_to_null c =
     (case bc_get c of
        (None, c) \<Rightarrow> (False, c)
      | (Some x, c) \<Rightarrow> (if x = 0 then (True, c) else bc_advance_to_null c))"
  by pat_completeness auto

termination
  by (relation "measure (\<lambda>c. length (bc_rest c))") (auto dest: bc_get_rest [OF sym])

declare bc_advance_to_null.simps [simp del]

text \<open>The list of buffers.\<close>

definition join_size :: "byte list list \<Rightarrow> nat" where
  "join_size bv = fold (\<lambda>b n. sz_add n (length b)) bv 0"

text \<open>
  \<open>join(0, 0, true)\<close>: a single buffer is handed out as it is (it always has room for no head and
  no tail), otherwise the bytes are copied into one of the size of all.
\<close>

definition join_buffers :: "byte list list \<Rightarrow> byte list" where
  "join_buffers bv = (if length bv = 1 then hd bv else fold (\<lambda>b big. big @ b) bv [])"

definition composed_put :: "byte list \<Rightarrow> byte list list \<Rightarrow> byte list list" where
  "composed_put bp bv = bv @ [bp]"

definition composed_complete :: "byte list list \<Rightarrow> buf_complete" where
  "composed_complete bv = next_buffer \<lparr>bc_buf = [], bc_iter = bv\<rparr>"

text \<open>\<open>get\<close> of the composed buffer: all of it, and the vector is emptied.\<close>

definition composed_get :: "byte list list \<Rightarrow> byte list \<times> byte list list" where
  "composed_get bv = (join_buffers bv, [])"


section \<open>The parser sees the concatenation\<close>

text \<open>No buffer behind the iterator is empty.\<close>

definition bc_full :: "buf_complete \<Rightarrow> bool" where
  "bc_full c \<longleftrightarrow> [] \<notin> set (bc_iter c)"

lemma fetch_buffer_full:
  assumes "bc_full c"
  shows "fetch_buffer c = (b, c') \<Longrightarrow> (b \<longleftrightarrow> bc_rest c \<noteq> []) \<and> bc_rest c' = bc_rest c \<and> bc_full c'
    \<and> (b \<longrightarrow> bc_buf c' \<noteq> [])"
  using assms
  by (auto simp: fetch_buffer_def next_buffer_def bc_full_def bc_rest_def Let_def
      split: if_splits list.splits)

lemma bc_get_full:
  assumes "bc_full c"
  shows "bc_full (snd (bc_get c)) \<and>
    (case bc_rest c of
       [] \<Rightarrow> fst (bc_get c) = None \<and> bc_rest (snd (bc_get c)) = []
     | x # xs \<Rightarrow> fst (bc_get c) = Some x \<and> bc_rest (snd (bc_get c)) = xs)"
proof -
  obtain b c' where f: "fetch_buffer c = (b, c')" by fastforce
  note g = fetch_buffer_full [OF assms f]
  show ?thesis
  proof (cases b)
    case True
    with g obtain x xs where x: "bc_buf c' = x # xs" by (auto simp: neq_Nil_conv)
    with g have "bc_rest c = x # xs @ concat (bc_iter c')" by (metis append_Cons bc_rest_def)
    with g x True show ?thesis by (simp add: bc_get_def f bc_full_def) (simp add: bc_rest_def)
  next
    case False
    with g have "bc_rest c = []" by blast
    with g False show ?thesis by (simp add: bc_get_def f)
  qed
qed

lemma bc_advance_full:
  "bc_full c \<Longrightarrow> bc_full (snd (bc_advance n c)) \<and> (fst (bc_advance n c) \<longleftrightarrow> n \<le> length (bc_rest c))
     \<and> (n \<le> length (bc_rest c) \<longrightarrow> bc_rest (snd (bc_advance n c)) = drop n (bc_rest c))"
proof (induction n c rule: bc_advance.induct)
  case (1 n c)
  obtain b c' where f: "fetch_buffer c = (b, c')" by fastforce
  note g = fetch_buffer_full [OF "1.prems" f]
  show ?case
  proof (cases "n = 0 \<or> \<not> b")
    case True
    with g "1.prems" show ?thesis by (subst (1 2 3) bc_advance.simps) (auto simp: f)
  next
    case False
    let ?s = "min n (length (bc_buf c'))" and ?c = "c'\<lparr>bc_buf := drop (min n (length (bc_buf c'))) (bc_buf c')\<rparr>"
    have eq: "bc_advance n c = bc_advance (n - ?s) ?c"
      using False by (subst bc_advance.simps) (simp add: f Let_def)
    have full: "bc_full ?c" using g by (simp add: bc_full_def)
    have "bc_rest c = bc_rest c'" using g by simp
    also have "\<dots> = take ?s (bc_buf c') @ bc_rest ?c" unfolding bc_rest_def by (simp flip: append_assoc)
    finally have rest: "bc_rest c = take ?s (bc_buf c') @ bc_rest ?c" .
    have len: "length (take ?s (bc_buf c')) = ?s" by simp
    have ih: "bc_full (snd (bc_advance (n - ?s) ?c)) \<and> (fst (bc_advance (n - ?s) ?c) \<longleftrightarrow> n - ?s \<le> length (bc_rest ?c))
       \<and> (n - ?s \<le> length (bc_rest ?c) \<longrightarrow> bc_rest (snd (bc_advance (n - ?s) ?c)) = drop (n - ?s) (bc_rest ?c))"
      using False full by (intro "1.IH" [OF _ f [symmetric] refl _ refl]) auto
    have "drop n (bc_rest c) = drop (n - ?s) (bc_rest ?c)" by (simp add: rest)
    moreover have "n \<le> length (bc_rest c) \<longleftrightarrow> n - ?s \<le> length (bc_rest ?c)" by (auto simp: rest)
    ultimately show ?thesis using ih by (simp add: eq)
  qed
qed

lemma composed_complete_full:
  assumes "[] \<notin> set bv"
  shows "bc_full (composed_complete bv)" "bc_rest (composed_complete bv) = concat bv"
  using assms by (auto simp: composed_complete_def next_buffer_def bc_full_def bc_rest_def split: list.split)

text \<open>The same steps on the bytes put together.\<close>

definition flat_advance :: "nat \<Rightarrow> byte list \<Rightarrow> byte list option" where
  "flat_advance n xs = (if n \<le> length xs then Some (drop n xs) else None)"

fun flat_string :: "byte list \<Rightarrow> byte list option" where
  "flat_string (h # l # xs) = flat_advance (256 * unat h + unat l) xs"
| "flat_string xs = None"

definition flat_to_null :: "byte list \<Rightarrow> byte list option" where
  "flat_to_null xs = (if 0 \<in> set xs then Some (tl (dropWhile (\<lambda>x. x \<noteq> 0) xs)) else None)"

text \<open>A step of the parser does on the fragments what \<open>f\<close> does on the bytes.\<close>

definition parses :: "(buf_complete \<Rightarrow> bool \<times> buf_complete) \<Rightarrow> (byte list \<Rightarrow> byte list option) \<Rightarrow> bool" where
  "parses step f \<longleftrightarrow> (\<forall>c. bc_full c \<longrightarrow> bc_full (snd (step c)) \<and>
     (case f (bc_rest c) of
        None \<Rightarrow> \<not> fst (step c)
      | Some rest \<Rightarrow> fst (step c) \<and> bc_rest (snd (step c)) = rest))"

lemma parses_advance: "parses (bc_advance n) (flat_advance n)"
  using bc_advance_full by (auto simp: parses_def flat_advance_def split: option.split)

lemma parsesD:
  assumes "parses step f" "bc_full c"
  shows "bc_full (snd (step c))"
    and "f (bc_rest c) = None \<Longrightarrow> \<not> fst (step c)"
    and "f (bc_rest c) = Some rest \<Longrightarrow> fst (step c) \<and> bc_rest (snd (step c)) = rest"
proof -
  from assms have p: "bc_full (snd (step c)) \<and>
     (case f (bc_rest c) of None \<Rightarrow> \<not> fst (step c) | Some rest \<Rightarrow> fst (step c) \<and> bc_rest (snd (step c)) = rest)"
    unfolding parses_def by blast
  then show "bc_full (snd (step c))" by simp
  { assume "f (bc_rest c) = None" then show "\<not> fst (step c)" using p by simp }
  { assume "f (bc_rest c) = Some rest" then show "fst (step c) \<and> bc_rest (snd (step c)) = rest" using p by simp }
qed

lemma length_word_nat: "push_bit 8 (unat h) OR unat l = 256 * unat (h :: byte) + unat (l :: byte)"
proof -
  have "push_bit 8 (unat h) OR unat l = push_bit 8 (unat h) + unat l"
  proof (rule disjunctive_add [symmetric])
    fix n
    have "bit (unat l) n \<Longrightarrow> n < 8" using bit_imp_le_length [of l n] by (simp add: bit_unsigned_iff)
    then show "\<not> bit (push_bit 8 (unat h)) n \<or> \<not> bit (unat l) n" by (auto simp: bit_push_bit_iff)
  qed
  then show ?thesis by (simp add: push_bit_eq_mult)
qed

lemma parses_string: "parses bc_advance_string flat_string"
  unfolding parses_def
proof (intro allI impI)
  fix c
  assume full: "bc_full c"
  obtain h c1 where h: "bc_get c = (h, c1)" by fastforce
  note g = bc_get_full [OF full, unfolded h, simplified]
  obtain l c2 where l: "bc_get c1 = (l, c2)" by fastforce
  note g2 = bc_get_full [OF conjunct1 [OF g], unfolded l, simplified]
  show "bc_full (snd (bc_advance_string c)) \<and>
     (case flat_string (bc_rest c) of None \<Rightarrow> \<not> fst (bc_advance_string c)
      | Some rest \<Rightarrow> fst (bc_advance_string c) \<and> bc_rest (snd (bc_advance_string c)) = rest)"
  proof (cases "bc_rest c")
    case Nil
    with g show ?thesis by (simp add: bc_advance_string_def h)
  next
    case (Cons x xs)
    show ?thesis
    proof (cases xs)
      case Nil
      with Cons g g2 show ?thesis by (simp add: bc_advance_string_def h l)
    next
      case (Cons y ys)
      with \<open>bc_rest c = x # xs\<close> g g2 have "bc_advance_string c = bc_advance (256 * unat x + unat y) c2" "bc_rest c2 = ys" "bc_full c2"
        by (simp_all add: bc_advance_string_def h l length_word_nat)
      then show ?thesis
        using parses_advance [unfolded parses_def, rule_format, of c2 "256 * unat x + unat y"] Cons \<open>bc_rest c = x # xs\<close>
        by (simp split: option.splits)
    qed
  qed
qed

lemma parses_to_null: "parses bc_advance_to_null flat_to_null"
  unfolding parses_def
proof (intro allI impI)
  fix c
  assume "bc_full c"
  then show "bc_full (snd (bc_advance_to_null c)) \<and>
     (case flat_to_null (bc_rest c) of None \<Rightarrow> \<not> fst (bc_advance_to_null c)
      | Some rest \<Rightarrow> fst (bc_advance_to_null c) \<and> bc_rest (snd (bc_advance_to_null c)) = rest)"
  proof (induction c rule: bc_advance_to_null.induct)
    case (1 c)
    obtain o' c' where g: "bc_get c = (o', c')" by fastforce
    note f = bc_get_full [OF "1.prems", unfolded g, simplified]
    show ?case
    proof (cases "bc_rest c")
      case Nil
      with f have "bc_advance_to_null c = (False, c')" by (subst bc_advance_to_null.simps) (simp add: g)
      with Nil f show ?thesis by (simp add: flat_to_null_def)
    next
      case (Cons x xs)
      with f have x: "o' = Some x" "bc_rest c' = xs" "bc_full c'" by auto
      show ?thesis
      proof (cases "x = 0")
        case True
        then have "bc_advance_to_null c = (True, c')" using x by (subst bc_advance_to_null.simps) (simp add: g)
        then show ?thesis using True x Cons by (simp add: flat_to_null_def)
      next
        case False
        then have r: "bc_advance_to_null c = bc_advance_to_null c'" using x by (subst bc_advance_to_null.simps) (simp add: g)
        show ?thesis using "1.IH" [OF g [symmetric] x(1) False x(3)] False x Cons
          by (auto simp: r flat_to_null_def)
      qed
    qed
  qed
qed

lemma join_buffers_concat: "join_buffers bv = concat bv"
proof -
  have "fold (\<lambda>b big. big @ b) bv acc = acc @ concat bv" for acc by (induction bv arbitrary: acc) auto
  from this [of "[]"] show ?thesis by (cases "length bv = 1") (auto simp: join_buffers_def length_Suc_conv)
qed

text \<open>
  An empty buffer in the middle ends the parse early, although there are bytes behind it: the
  message is taken for incomplete.
\<close>

lemma empty_fragment_hides_rest:
  "\<not> fst (bc_advance 2 (composed_complete [[1], [], [2]]))"
  by (simp add: bc_advance.simps composed_complete_def next_buffer_def fetch_buffer_def Let_def)

end
