(* ===== verification/Key_Material.thy ===== *)
theory Key_Material
  imports Split_Lines Buffer_Composed Proto_Packets
begin

text \<open>
  Keys of the data channel: \<^verbatim>\<open>crypto/static_key.hpp\<close> (the 256 bytes of key material, their text
  form and their slices) and \<^verbatim>\<open>ssl/tlsprf.hpp\<close> (the key expansion both ends compute from the
  randomness they exchange). The HMAC is library code: \<open>hm md key data\<close> is the digest. Random
  bytes are taken off a list. The file reader of \<open>parse_from_file\<close> is not modelled.
\<close>

section \<open>Static keys\<close>

text \<open>The key data of an \<open>OpenVPNStaticKey\<close>; it is defined when it is not empty.\<close>

type_synonym static_key = "byte list"

abbreviation (input) KEY_SIZE :: nat where "KEY_SIZE \<equiv> 256"
abbreviation (input) KEY_CIPHER :: u32 where "KEY_CIPHER \<equiv> 0"
abbreviation (input) KEY_HMAC :: u32 where "KEY_HMAC \<equiv> 1"
abbreviation (input) KEY_ENCRYPT :: u32 where "KEY_ENCRYPT \<equiv> 0"
abbreviation (input) KEY_DECRYPT :: u32 where "KEY_DECRYPT \<equiv> 2"
abbreviation (input) KEY_NORMAL :: u32 where "KEY_NORMAL \<equiv> 0"
abbreviation (input) KEY_INVERSE :: u32 where "KEY_INVERSE \<equiv> 4"

definition static_key_defined :: "static_key \<Rightarrow> bool" where
  "static_key_defined k \<longleftrightarrow> length k > 0"

definition key_table :: "nat list" where
  "key_table = [0, 1, 2, 3, 2, 3, 0, 1]"

definition key_slice :: "static_key \<Rightarrow> u32 \<Rightarrow> byte list res" where
  "key_slice k key_specifier =
     (if length k \<noteq> KEY_SIZE then Inl (Std_exception ''static_key_bad_size'')
      else Inr (take (KEY_SIZE div 4) (drop (key_table ! unat (key_specifier AND 7) * 64) k)))"

definition static_key_head :: string where
  "static_key_head = ''-----BEGIN OpenVPN Static key V1-----''"

definition static_key_foot :: string where
  "static_key_foot = ''-----END OpenVPN Static key V1-----''"

definition static_key_render :: "static_key \<Rightarrow> string res" where
  "static_key_render k =
     (if length k \<noteq> KEY_SIZE then Inl (Std_exception ''static_key_bad_size'')
      else Inr (static_key_head @ [NL]
        @ concat (map (\<lambda>j. render_hex (Some (take 16 (drop (16 * j) k))) False @ [NL]) [0..<KEY_SIZE div 16])
        @ static_key_foot @ [NL]))"

text \<open>
  One line of the body is appended to the key data, whose memory of \<open>KEY_SIZE\<close> bytes does not
  grow: the byte that no longer fits throws before anything after it is looked at.
\<close>

definition key_parse_line :: "byte list \<Rightarrow> string \<Rightarrow> byte list res" where
  "key_parse_line data line =
     (let (r, data) = parse_hex data line
      in if length data > KEY_SIZE then Inl (Buffer_exn Buffer_full)
         else bindE r (\<lambda>_. Inr data))"

function key_parse_loop :: "split_lines \<Rightarrow> bool \<Rightarrow> byte list \<Rightarrow> (bool \<times> byte list) res" where
  "key_parse_loop inp in_body data =
     (case split_line True inp of
        (False, _) \<Rightarrow> Inr (in_body, data)
      | (True, inp) \<Rightarrow>
          (if sl_line inp = static_key_head then key_parse_loop inp True data
           else if sl_line inp = static_key_foot then key_parse_loop inp False data
           else if in_body
           then (case key_parse_line data (sl_line inp) of
                   Inl e \<Rightarrow> Inl e
                 | Inr data \<Rightarrow> key_parse_loop inp in_body data)
           else key_parse_loop inp in_body data))"
  by pat_completeness auto

termination
  by (relation "measure (\<lambda>(inp, _, _). length (sl_data inp) - sl_index inp)") (auto dest: split_line_measure)

declare key_parse_loop.simps [simp del]

definition static_key_parse :: "string \<Rightarrow> static_key res" where
  "static_key_parse key_text =
     bindE (key_parse_loop (split_lines_new key_text 0) False []) (\<lambda>(in_body, data).
       if in_body \<or> length data \<noteq> KEY_SIZE then Inl (Std_exception ''static_key_parse_error'')
       else Inr data)"


section \<open>The key expansion\<close>

datatype prf_digest = MD5 | SHA1

text \<open>\<open>CryptoAlgs::size\<close> of the two digests.\<close>

definition digest_size :: "prf_digest \<Rightarrow> nat" where
  "digest_size md = (case md of MD5 \<Rightarrow> 16 | SHA1 \<Rightarrow> 20)"

text \<open>The loop of \<open>hash\<close>, keyed: the bytes it still writes to \<open>out\<close>.\<close>

partial_function (option) prf_hash_loop ::
  "(byte list \<Rightarrow> byte list) \<Rightarrow> nat \<Rightarrow> byte list \<Rightarrow> byte list \<Rightarrow> nat \<Rightarrow> byte list option" where
  "prf_hash_loop f chunk seed A1 olen =
     (if olen > chunk
      then (let out = f (A1 @ seed)
            in Option.bind (prf_hash_loop f chunk seed (f A1) (sz_sub olen (length out)))
                 (\<lambda>rest. Some (out @ rest)))
      else Some (take olen (f (A1 @ seed))))"

definition prf_hash ::
  "(prf_digest \<Rightarrow> byte list \<Rightarrow> byte list \<Rightarrow> byte list) \<Rightarrow> prf_digest \<Rightarrow> byte list \<Rightarrow> byte list \<Rightarrow> nat
   \<Rightarrow> byte list option" where
  "prf_hash hm md sec seed olen = prf_hash_loop (hm md sec) (digest_size md) seed (hm md sec seed) olen"

definition tls_prf_xor ::
  "(prf_digest \<Rightarrow> byte list \<Rightarrow> byte list \<Rightarrow> byte list) \<Rightarrow> byte list \<Rightarrow> byte list \<Rightarrow> nat \<Rightarrow> byte list option" where
  "tls_prf_xor hm label sec olen =
     (let len = length sec div 2;
          S1 = sec; S2 = drop len sec;
          len = len + length sec mod 2
      in Option.bind (prf_hash hm MD5 (take len S1) label olen) (\<lambda>out1.
         Option.bind (prf_hash hm SHA1 (take len S2) label olen) (\<lambda>out2.
         Some (map2 (XOR) out1 out2))))"

definition openvpn_PRF ::
  "(prf_digest \<Rightarrow> byte list \<Rightarrow> byte list \<Rightarrow> byte list) \<Rightarrow> byte list \<Rightarrow> string \<Rightarrow> byte list \<Rightarrow> byte list
   \<Rightarrow> psid option \<Rightarrow> psid option \<Rightarrow> nat \<Rightarrow> byte list option" where
  "openvpn_PRF hm secret label client_seed server_seed client_sid server_sid output_len =
     (let sid = (\<lambda>p. case p of None \<Rightarrow> [] | Some p \<Rightarrow> psid_id p);
          seed = map of_char label @ client_seed @ server_seed @ sid client_sid @ sid server_sid
      in tls_prf_xor hm seed secret output_len)"

text \<open>One end's randomness; the arrays of an object that is not initialised are unspecified.\<close>

record tls_rand =
  tp_initialized :: bool
  tp_server :: bool
  tp_pre_master :: "byte list"
  tp_random1 :: "byte list"
  tp_random2 :: "byte list"

definition tp_new :: "(nat \<Rightarrow> byte) \<Rightarrow> bool \<Rightarrow> tls_rand" where
  "tp_new junk server =
     \<lparr>tp_initialized = False, tp_server = server, tp_pre_master = fresh_mem junk 48,
      tp_random1 = fresh_mem junk 32, tp_random2 = fresh_mem junk 32\<rparr>"

definition tp_randomize :: "byte list \<Rightarrow> tls_rand \<Rightarrow> tls_rand \<times> byte list" where
  "tp_randomize rng t =
     (let (pre, rng) = (if \<not> tp_server t then (take 48 rng, drop 48 rng) else (tp_pre_master t, rng))
      in (t\<lparr>tp_pre_master := pre, tp_random1 := take 32 rng, tp_random2 := take 32 (drop 32 rng),
            tp_initialized := True\<rparr>, drop 64 rng))"

text \<open>A read that throws leaves what was read before it.\<close>

definition tp_read :: "buf \<Rightarrow> tls_rand \<Rightarrow> buf res \<times> tls_rand" where
  "tp_read b t =
     (case (if \<not> tp_server t then buf_read 48 b else Inr (tp_pre_master t, b)) of
        Inl e \<Rightarrow> (Inl e, t)
      | Inr (pre, b) \<Rightarrow>
          (case buf_read 32 b of
             Inl e \<Rightarrow> (Inl e, t\<lparr>tp_pre_master := pre\<rparr>)
           | Inr (r1, b) \<Rightarrow>
               (case buf_read 32 b of
                  Inl e \<Rightarrow> (Inl e, t\<lparr>tp_pre_master := pre, tp_random1 := r1\<rparr>)
                | Inr (r2, b) \<Rightarrow>
                    (Inr b, t\<lparr>tp_pre_master := pre, tp_random1 := r1, tp_random2 := r2,
                              tp_initialized := True\<rparr>))))"

definition tp_read_complete :: "buf_complete \<Rightarrow> tls_rand \<Rightarrow> bool \<times> buf_complete" where
  "tp_read_complete bc t =
     (let need = 32 + 32; need = (if \<not> tp_server t then need + 48 else need)
      in bc_advance need bc)"

definition tp_verify_initialized :: "tls_rand \<Rightarrow> unit res" where
  "tp_verify_initialized t =
     (if \<not> tp_initialized t then Inl (Std_exception ''tlsprf_uninitialized'') else Inr ())"

definition tp_write :: "(nat \<Rightarrow> byte) \<Rightarrow> buf \<Rightarrow> tls_rand \<Rightarrow> buf res" where
  "tp_write junk b t =
     bindE (tp_verify_initialized t) (\<lambda>_.
     bindE (if \<not> tp_server t then buf_write junk (tp_pre_master t) b else Inr b) (\<lambda>b.
     bindE (buf_write junk (tp_random1 t) b) (\<lambda>b.
     buf_write junk (tp_random2 t) b)))"

definition tp_erase :: "tls_rand \<Rightarrow> tls_rand" where
  "tp_erase t =
     (if tp_initialized t
      then t\<lparr>tp_pre_master := (if \<not> tp_server t then replicate 48 0 else tp_pre_master t),
             tp_random1 := replicate 32 0, tp_random2 := replicate 32 0, tp_initialized := False\<rparr>
      else t)"

definition gen_exp ::
  "(prf_digest \<Rightarrow> byte list \<Rightarrow> byte list \<Rightarrow> byte list) \<Rightarrow> tls_rand \<Rightarrow> psid \<Rightarrow> tls_rand \<Rightarrow> psid
   \<Rightarrow> static_key option res" where
  "gen_exp hm client psid_client server psid_server =
     bindE (tp_verify_initialized client) (\<lambda>_.
     bindE (tp_verify_initialized server) (\<lambda>_.
     Inr (Option.bind (openvpn_PRF hm (tp_pre_master client) ''OpenVPN master secret''
            (tp_random1 client) (tp_random1 server) None None 48) (\<lambda>master.
          openvpn_PRF hm master ''OpenVPN key expansion'' (tp_random2 client) (tp_random2 server)
            (Some psid_client) (Some psid_server) KEY_SIZE))))"

definition generate_key_expansion ::
  "(prf_digest \<Rightarrow> byte list \<Rightarrow> byte list \<Rightarrow> byte list) \<Rightarrow> tls_rand \<Rightarrow> tls_rand \<Rightarrow> psid \<Rightarrow> psid
   \<Rightarrow> static_key option res" where
  "generate_key_expansion hm self peer psid_self psid_peer =
     (if tp_server self = tp_server peer then Inl (Std_exception ''tlsprf_client_server_mismatch'')
      else if tp_server self then gen_exp hm peer psid_peer self psid_self
      else gen_exp hm self psid_self peer psid_peer)"

text \<open>\<open>CryptoTLSPRFInstance\<close>: the randomness of this end and of the other.\<close>

record tls_prf =
  tp_self :: tls_rand
  tp_peer :: tls_rand

definition tls_prf_new :: "(nat \<Rightarrow> byte) \<Rightarrow> bool \<Rightarrow> tls_prf" where
  "tls_prf_new junk self_is_server =
     \<lparr>tp_self = tp_new junk self_is_server, tp_peer = tp_new junk (\<not> self_is_server)\<rparr>"

definition self_randomize :: "byte list \<Rightarrow> tls_prf \<Rightarrow> tls_prf \<times> byte list" where
  "self_randomize rng t = (let (s, rng) = tp_randomize rng (tp_self t) in (t\<lparr>tp_self := s\<rparr>, rng))"

definition self_write :: "(nat \<Rightarrow> byte) \<Rightarrow> buf \<Rightarrow> tls_prf \<Rightarrow> buf res" where
  "self_write junk b t = tp_write junk b (tp_self t)"

definition peer_read :: "buf \<Rightarrow> tls_prf \<Rightarrow> buf res \<times> tls_prf" where
  "peer_read b t = (let (r, p) = tp_read b (tp_peer t) in (r, t\<lparr>tp_peer := p\<rparr>))"

definition peer_read_complete :: "buf_complete \<Rightarrow> tls_prf \<Rightarrow> bool \<times> buf_complete" where
  "peer_read_complete bc t = tp_read_complete bc (tp_peer t)"

definition tls_prf_erase :: "tls_prf \<Rightarrow> tls_prf" where
  "tls_prf_erase t = t\<lparr>tp_self := tp_erase (tp_self t), tp_peer := tp_erase (tp_peer t)\<rparr>"

definition tls_prf_key_expansion ::
  "(prf_digest \<Rightarrow> byte list \<Rightarrow> byte list \<Rightarrow> byte list) \<Rightarrow> tls_prf \<Rightarrow> psid \<Rightarrow> psid \<Rightarrow> static_key option res" where
  "tls_prf_key_expansion hm t psid_self psid_peer =
     generate_key_expansion hm (tp_self t) (tp_peer t) psid_self psid_peer"

section \<open>The text form\<close>

text \<open>The loop over the lines of a text, on the list of its lines.\<close>

fun key_parse_lines :: "string list \<Rightarrow> bool \<Rightarrow> byte list \<Rightarrow> (bool \<times> byte list) res" where
  "key_parse_lines [] in_body data = Inr (in_body, data)"
| "key_parse_lines (l # ls) in_body data =
     (if l = static_key_head then key_parse_lines ls True data
      else if l = static_key_foot then key_parse_lines ls False data
      else if in_body then bindE (key_parse_line data l) (\<lambda>data. key_parse_lines ls in_body data)
      else key_parse_lines ls in_body data)"

lemma key_parse_loop_lines:
  "sl_data s = pre @ concat (map (\<lambda>l. l @ [NL]) ls) \<Longrightarrow> sl_index s = length pre \<Longrightarrow> sl_max_line_len s = 0 \<Longrightarrow>
   \<forall>l \<in> set ls. NL \<notin> set l \<and> CR \<notin> set l \<Longrightarrow>
   key_parse_loop s in_body data = key_parse_lines ls in_body data"
proof (induction ls arbitrary: s pre in_body data)
  case Nil
  then have "fst (split_line True s) = False" by (intro split_line_end) simp
  then show ?case by (subst key_parse_loop.simps) (auto split: prod.split)
next
  case (Cons l ls)
  let ?s = "s\<lparr>sl_index := length pre + length l + 1, sl_line := l, sl_overflow := False\<rparr>"
  have step: "split_line True s = (True, ?s)"
    using Cons.prems by (intro split_line_at [where rest = "concat (map (\<lambda>l. l @ [NL]) ls)"]) auto
  have ih: "key_parse_loop ?s b d = key_parse_lines ls b d" for b d
    using Cons.prems by (intro Cons.IH [where pre = "pre @ l @ [NL]"]) auto
  define s' where "s' = ?s"
  note eq = step [folded s'_def] ih [folded s'_def]
  have "sl_line s' = l" by (simp add: s'_def)
  then show ?case
    by (subst key_parse_loop.simps)
       (cases "l = static_key_head"; cases "l = static_key_foot"; simp add: eq bindE_def split: sum.split)
qed

lemma render_hex_chars:
  assumes "c \<in> set (render_hex (Some bs) False)"
  shows "c \<noteq> NL" "c \<noteq> CR" "c \<noteq> CHR ''-''"
proof -
  from assms obtain b where "c \<in> set (render_hex_byte b False)" by (auto simp: render_hex_def)
  then obtain n where n: "c = render_hex_char n False" "0 \<le> n" "n < 16"
    using nibble_range [of b] by (auto simp: render_hex_byte_def byte_nibbles)
  have "of_char c \<ge> (48 :: int)"
  proof -
    have "n \<in> {0..<16}" using n by simp
    then have "n \<in> set [0..15]" by simp
    then show ?thesis unfolding n(1) by (auto simp: render_hex_char_def upto_rec1)
  qed
  then show "c \<noteq> NL" "c \<noteq> CR" "c \<noteq> CHR ''-''" by auto
qed

lemma hex_line_not_marker:
  assumes "bs \<noteq> []"
  shows "render_hex (Some bs) False \<noteq> static_key_head" "render_hex (Some bs) False \<noteq> static_key_foot"
  using render_hex_chars(3) [of "CHR ''-''" bs] by (auto simp: static_key_head_def static_key_foot_def)

lemma key_parse_line_render:
  "length data + length bs \<le> KEY_SIZE \<Longrightarrow> key_parse_line data (render_hex (Some bs) False) = Inr (data @ bs)"
  by (simp add: key_parse_line_def render_hex_def parse_hex_render)

lemma key_parse_body:
  "length data + length (concat bss) \<le> KEY_SIZE \<Longrightarrow> [] \<notin> set bss \<Longrightarrow>
   key_parse_lines (map (\<lambda>bs. render_hex (Some bs) False) bss @ [static_key_foot]) True data
     = Inr (False, data @ concat bss)"
proof (induction bss arbitrary: data)
  case Nil
  then show ?case by (simp add: static_key_head_def static_key_foot_def)
next
  case (Cons bs bss)
  then have "bs \<noteq> []" by auto
  with Cons show ?case
    using hex_line_not_marker [OF \<open>bs \<noteq> []\<close>] by (simp add: key_parse_line_render)
qed

lemma concat_chunks:
  "length k = 16 * n \<Longrightarrow> concat (map (\<lambda>j. take 16 (drop (16 * j) k)) [0..<n]) = k"
proof (induction n arbitrary: k)
  case (Suc n)
  have "concat (map (\<lambda>j. take 16 (drop (16 * j) k)) [0..<Suc n])
      = concat (map (\<lambda>j. take 16 (drop (16 * j) (take (16 * n) k))) [0..<n]) @ drop (16 * n) k"
  proof -
    have "map (\<lambda>j. take 16 (drop (16 * j) k)) [0..<n] = map (\<lambda>j. take 16 (drop (16 * j) (take (16 * n) k))) [0..<n]"
      by (intro map_cong refl) (auto simp: drop_take min_def)
    moreover have "take 16 (drop (16 * n) k) = drop (16 * n) k" using Suc.prems by simp
    ultimately show ?thesis by (simp only: upt_Suc_append map_append concat_append) simp
  qed
  also have "\<dots> = k" using Suc.IH [of "take (16 * n) k"] Suc.prems by simp
  finally show ?case .
qed simp

text \<open>
  The text form of a static key round trips: \<open>parse\<close> of what \<open>render\<close> writes (head line,
  sixteen lines of hexadecimal digits, foot line) gives the key back.
\<close>

lemma static_key_roundtrip:
  assumes "static_key_render k = Inr str"
  shows "static_key_parse str = Inr k"
proof -
  let ?bss = "map (\<lambda>j. take 16 (drop (16 * j) k)) [0..<16]"
  let ?ls = "static_key_head # map (\<lambda>bs. render_hex (Some bs) False) ?bss @ [static_key_foot]"
  have len: "length k = 256" using assms by (auto simp: static_key_render_def split: if_splits)
  have lines: "str = concat (map (\<lambda>l. l @ [NL]) ?ls)"
    using assms len by (simp add: static_key_render_def comp_def)
  have clean: "\<forall>l \<in> set ?ls. NL \<notin> set l \<and> CR \<notin> set l"
    using render_hex_chars by (auto simp: static_key_head_def static_key_foot_def)
  have all: "concat ?bss = k" using concat_chunks [of k 16] len by simp
  have ne: "[] \<notin> set ?bss" using len by auto
  have "key_parse_loop (split_lines_new str 0) False [] = key_parse_lines ?ls False []"
    using clean by (intro key_parse_loop_lines [where pre = "[]"]) (simp_all only: lines split_lines_new_def split_lines.simps append.simps list.size)
  also have "\<dots> = key_parse_lines (map (\<lambda>bs. render_hex (Some bs) False) ?bss @ [static_key_foot]) True []"
    by (simp del: map_map)
  also have "\<dots> = Inr (False, k)"
    using key_parse_body [of "[]" ?bss] ne len unfolding all by simp
  finally show ?thesis using len by (simp add: static_key_parse_def)
qed

lemma static_key_roundtrip_at:
  "\<exists>str. static_key_render (replicate 256 7) = Inr str \<and> static_key_parse str = Inr (replicate 256 7)"
proof -
  obtain str where r: "static_key_render (replicate 256 7) = Inr str" by (simp add: static_key_render_def)
  then show ?thesis using static_key_roundtrip [OF r] by blast
qed


section \<open>The key expansion is the one of TLS 1.0\<close>

text \<open>
  \<open>P_hash\<close> of RFC 2246, section 5: the concatenation of \<open>HMAC(secret, A(i) + seed)\<close> for
  \<open>i = 1, 2, ...\<close>, where \<open>A(0) = seed\<close> and \<open>A(i) = HMAC(secret, A(i - 1))\<close>.
\<close>

definition p_hash :: "(byte list \<Rightarrow> byte list) \<Rightarrow> byte list \<Rightarrow> nat \<Rightarrow> byte list" where
  "p_hash f seed n = take n (concat (map (\<lambda>i. f ((f ^^ Suc i) seed @ seed)) [0..<n]))"

definition hmac_sized :: "(prf_digest \<Rightarrow> byte list \<Rightarrow> byte list \<Rightarrow> byte list) \<Rightarrow> bool" where
  "hmac_sized hm \<longleftrightarrow> (\<forall>md key data. length (hm md key data) = digest_size md)"

lemma concat_blocks_length:
  "(\<And>i. length (g i) = c) \<Longrightarrow> length (concat (map g [a..<a + m])) = c * m"
  by (simp add: length_concat comp_def sum_list_triv)

lemma take_blocks:
  assumes "\<And>i. length (g i) = c" "0 < c" "n \<le> m"
  shows "take n (concat (map g [a..<a + m])) = take n (concat (map g [a..<a + n]))"
proof -
  obtain k where m: "m = n + k" using assms(3) le_Suc_ex by blast
  have "[a..<a + m] = [a..<a + n] @ [a + n..<a + n + k]"
    using upt_add_eq_append [of a "a + n" k] by (simp add: m add.assoc)
  moreover have "n \<le> length (concat (map g [a..<a + n]))"
    using assms(2) by (simp only: concat_blocks_length [OF assms(1)]) (cases c; simp)
  ultimately show ?thesis by simp
qed

lemma prf_hash_loop_blocks:
  assumes "\<And>x. length (f x) = chunk" "0 < chunk" "olen < size_t_limit"
  shows "prf_hash_loop f chunk seed ((f ^^ i) x) olen
    = Some (take olen (concat (map (\<lambda>j. f ((f ^^ j) x @ seed)) [i..<i + olen])))"
  using assms(3)
proof (induction olen arbitrary: i rule: less_induct)
  case (less olen)
  let ?g = "\<lambda>j. f ((f ^^ j) x @ seed)"
  have g: "length (?g j) = chunk" for j using assms(1) by simp
  show ?case
  proof (cases "olen > chunk")
    case True
    let ?o = "olen - chunk"
    have o: "sz_sub olen (length (f ((f ^^ i) x @ seed))) = ?o" using True less.prems assms(1) by simp
    have ih: "prf_hash_loop f chunk seed ((f ^^ Suc i) x) ?o = Some (take ?o (concat (map ?g [Suc i..<Suc i + ?o])))"
      using True less.prems assms(2) by (intro less.IH) auto
    have "[i..<i + olen] = i # [Suc i..<Suc i + (olen - 1)]" using True by (simp add: upt_conv_Cons)
    then have "take olen (concat (map ?g [i..<i + olen])) = ?g i @ take ?o (concat (map ?g [Suc i..<Suc i + (olen - 1)]))"
      using True assms(1) by simp
    also have "take ?o (concat (map ?g [Suc i..<Suc i + (olen - 1)])) = take ?o (concat (map ?g [Suc i..<Suc i + ?o]))"
      using g assms(2) True by (intro take_blocks) auto
    finally show ?thesis using True o ih by (subst prf_hash_loop.simps) (simp add: Let_def)
  next
    case False
    show ?thesis
    proof (cases olen)
      case 0
      then show ?thesis using False by (subst prf_hash_loop.simps) simp
    next
      case (Suc n)
      then have "[i..<i + olen] = i # [Suc i..<i + olen]" by (simp add: upt_conv_Cons)
      then show ?thesis using False assms(1) by (subst prf_hash_loop.simps) simp
    qed
  qed
qed

lemma prf_hash_p_hash:
  assumes "hmac_sized hm" "olen < size_t_limit"
  shows "prf_hash hm md sec seed olen = Some (p_hash (hm md sec) seed olen)"
proof -
  have l: "length (hm md sec x) = digest_size md" for x using assms(1) by (simp add: hmac_sized_def)
  have p: "0 < digest_size md" by (simp add: digest_size_def split: prf_digest.split)
  have "prf_hash hm md sec seed olen = prf_hash_loop (hm md sec) (digest_size md) seed ((hm md sec ^^ 0) (hm md sec seed)) olen"
    by (simp add: prf_hash_def)
  also have "\<dots> = Some (take olen (concat (map (\<lambda>j. hm md sec ((hm md sec ^^ j) (hm md sec seed) @ seed)) [0..<0 + olen])))"
    by (rule prf_hash_loop_blocks [OF l p assms(2)])
  finally show ?thesis by (simp add: p_hash_def funpow_swap1)
qed

lemma length_p_hash:
  assumes "hmac_sized hm" shows "length (p_hash (hm md sec) seed n) = n"
proof -
  have l: "length (hm md sec x) = digest_size md" for x using assms(1) by (simp add: hmac_sized_def)
  have "length (concat (map (\<lambda>i. hm md sec ((hm md sec ^^ Suc i) seed @ seed)) [0..<0 + n])) = digest_size md * n"
    by (rule concat_blocks_length) (rule l)
  moreover have "0 < digest_size md" by (simp add: digest_size_def split: prf_digest.split)
  ultimately show ?thesis by (simp add: p_hash_def) 
qed

definition tls_prf_spec ::
  "(prf_digest \<Rightarrow> byte list \<Rightarrow> byte list \<Rightarrow> byte list) \<Rightarrow> byte list \<Rightarrow> byte list \<Rightarrow> nat \<Rightarrow> byte list" where
  "tls_prf_spec hm sec seed n =
     (let h = (length sec + 1) div 2
      in map2 (XOR) (p_hash (hm MD5 (take h sec)) seed n)
                    (p_hash (hm SHA1 (drop (length sec - h) sec)) seed n))"

lemma tls_prf_xor_spec:
  assumes "hmac_sized hm" "olen < size_t_limit"
  shows "tls_prf_xor hm label sec olen = Some (tls_prf_spec hm sec label olen)"
proof -
  have h: "length sec div 2 + length sec mod 2 = (length sec + 1) div 2" by presburger
  have "length sec - (length sec + 1) div 2 = length sec div 2" by presburger
  moreover have "take ((length sec + 1) div 2) (drop (length sec div 2) sec) = drop (length sec div 2) sec"
  proof (rule take_all)
    have "n - n div 2 \<le> (n + 1) div 2" for n :: nat by presburger
    then show "length (drop (length sec div 2) sec) \<le> (length sec + 1) div 2" by simp
  qed
  ultimately show ?thesis
    by (simp add: tls_prf_xor_def tls_prf_spec_def Let_def prf_hash_p_hash [OF assms] h)
qed

lemma length_tls_prf_spec: "hmac_sized hm \<Longrightarrow> length (tls_prf_spec hm sec seed n) = n"
  by (simp add: tls_prf_spec_def Let_def length_p_hash)

text \<open>
  The key expansion is the PRF of TLS 1.0 (RFC 2246): for any HMAC whose digests have their
  nominal size, \<open>openvpn_PRF\<close> returns, and what it computes is \<open>P_MD5\<close> of the first half of the
  secret xor \<open>P_SHA1\<close> of the second half, over the label, the seeds and the session IDs, cut to
  the length asked for.
\<close>

lemma openvpn_PRF_is_tls_prf:
  assumes "hmac_sized hm" "n < size_t_limit"
  shows "openvpn_PRF hm secret label cs ss csid ssid n = Some (tls_prf_spec hm secret
     (map of_char label @ cs @ ss @ (case csid of None \<Rightarrow> [] | Some p \<Rightarrow> psid_id p)
        @ (case ssid of None \<Rightarrow> [] | Some p \<Rightarrow> psid_id p)) n)
    \<and> length (tls_prf_spec hm secret
     (map of_char label @ cs @ ss @ (case csid of None \<Rightarrow> [] | Some p \<Rightarrow> psid_id p)
        @ (case ssid of None \<Rightarrow> [] | Some p \<Rightarrow> psid_id p)) n) = n"
  using assms by (simp add: openvpn_PRF_def Let_def tls_prf_xor_spec length_tls_prf_spec)

definition wit_hmac :: "prf_digest \<Rightarrow> byte list \<Rightarrow> byte list \<Rightarrow> byte list" where
  "wit_hmac md key data = replicate (digest_size md) (fold (+) (key @ data) 1)"

lemma wit_hmac_sized: "hmac_sized wit_hmac"
  by (simp add: hmac_sized_def wit_hmac_def)

lemma openvpn_PRF_is_tls_prf_at:
  "\<exists>out. openvpn_PRF wit_hmac [1, 2, 3] ''x'' [4] [5] None None 40 = Some out \<and> length out = 40"
  using openvpn_PRF_is_tls_prf [OF wit_hmac_sized, of 40 "[1, 2, 3]" "''x''" "[4]" "[5]" None None] by simp

section \<open>Both ends compute the same keys\<close>

definition rand_bytes :: "tls_rand \<Rightarrow> byte list" where
  "rand_bytes t = (if tp_server t then [] else tp_pre_master t) @ tp_random1 t @ tp_random2 t"

definition rand_wf :: "tls_rand \<Rightarrow> bool" where
  "rand_wf t \<longleftrightarrow> length (tp_pre_master t) = 48 \<and> length (tp_random1 t) = 32 \<and> length (tp_random2 t) = 32"

lemma tp_write_bytes:
  assumes "tp_write junk b t = Inr b'" "buf_wf b" "rand_wf t" "b_offset b + b_size b + 112 < size_t_limit"
  shows "buf_wf b' \<and> contents b' = contents b @ rand_bytes t \<and> tp_initialized t \<and> b_offset b' = b_offset b"
proof -
  have i: "tp_initialized t" using assms(1) by (cases "tp_initialized t") (auto simp: tp_write_def tp_verify_initialized_def)
  obtain b1 b2 where w: "(if \<not> tp_server t then buf_write junk (tp_pre_master t) b else Inr b) = Inr b1"
     "buf_write junk (tp_random1 t) b1 = Inr b2" "buf_write junk (tp_random2 t) b2 = Inr b'"
    using assms(1) i by (auto simp: tp_write_def tp_verify_initialized_def bindE_Inr_iff)
  have 1: "buf_wf b1 \<and> contents b1 = contents b @ (if tp_server t then [] else tp_pre_master t) \<and> b_offset b1 = b_offset b"
    using w(1) assms(2,3,4) write_Inr [of junk "tp_pre_master t" b b1]
    by (auto simp: rand_wf_def split: if_splits)
  then have s1: "b_size b1 \<le> b_size b + 48"
    using length_contents [of b1] length_contents [OF assms(2)] assms(3) by (auto simp: rand_wf_def split: if_splits)
  have 2: "buf_wf b2 \<and> contents b2 = contents b1 @ tp_random1 t \<and> b_offset b2 = b_offset b1"
    using write_Inr [OF w(2)] 1 s1 assms(3,4) by (auto simp: rand_wf_def)
  then have s2: "b_size b2 = b_size b1 + 32"
    using length_contents [of b1] length_contents [of b2] 1 assms(3) by (auto simp: rand_wf_def)
  have "buf_wf b' \<and> contents b' = contents b2 @ tp_random2 t \<and> b_offset b' = b_offset b2"
    using write_Inr [OF w(3)] 1 2 s1 s2 assms(3,4) by (auto simp: rand_wf_def)
  with 1 2 i show ?thesis by (simp add: rand_bytes_def)
qed

lemma tp_read_bytes:
  assumes "buf_wf b" "contents b = rand_bytes s @ rest" "rand_wf s" "tp_server s = tp_server t"
  shows "\<exists>b' t'. tp_read b t = (Inr b', t') \<and> buf_wf b' \<and> contents b' = rest \<and> tp_initialized t' \<and> tp_server t' = tp_server t
    \<and> (\<not> tp_server t \<longrightarrow> tp_pre_master t' = tp_pre_master s) \<and> tp_random1 t' = tp_random1 s \<and> tp_random2 t' = tp_random2 s"
proof -
  have len: "length (tp_pre_master s) = 48" "length (tp_random1 s) = 32" "length (tp_random2 s) = 32"
    using assms(3) by (auto simp: rand_wf_def)
  obtain pre b1 where 1: "(if \<not> tp_server t then buf_read 48 b else Inr (tp_pre_master t, b)) = Inr (pre, b1)"
    "buf_wf b1" "contents b1 = tp_random1 s @ tp_random2 s @ rest" "\<not> tp_server t \<longrightarrow> pre = tp_pre_master s"
  proof (cases "tp_server t")
    case True
    then show thesis using that [of "tp_pre_master t" b] assms by (simp add: rand_bytes_def)
  next
    case False
    then show thesis
      using bufq.read_prefix [OF assms(1), of "tp_pre_master s" "tp_random1 s @ tp_random2 s @ rest"] that assms(2,4) len
      by (auto simp: rand_bytes_def)
  qed
  obtain b2 where 2: "buf_read 32 b1 = Inr (tp_random1 s, b2)" "buf_wf b2" "contents b2 = tp_random2 s @ rest"
    using bufq.read_prefix [OF 1(2,3)] len by auto
  obtain b3 where "buf_read 32 b2 = Inr (tp_random2 s, b3)" "buf_wf b3" "contents b3 = rest"
    using bufq.read_prefix [OF 2(2,3)] len by auto
  with 1 2 show ?thesis by (simp add: tp_read_def)
qed

lemma gen_exp_cong:
  assumes "tp_initialized c = tp_initialized c'" "tp_initialized s = tp_initialized s'"
    "tp_pre_master c = tp_pre_master c'" "tp_random1 c = tp_random1 c'" "tp_random2 c = tp_random2 c'"
    "tp_random1 s = tp_random1 s'" "tp_random2 s = tp_random2 s'"
  shows "gen_exp hm c pc s ps = gen_exp hm c' pc s' ps"
  using assms by (simp add: gen_exp_def tp_verify_initialized_def)

lemma gen_exp_key:
  assumes "hmac_sized hm" "tp_initialized c" "tp_initialized s"
  shows "\<exists>key. gen_exp hm c pc s ps = Inr (Some key) \<and> length key = KEY_SIZE"
  using assms
  by (simp add: gen_exp_def tp_verify_initialized_def openvpn_PRF_def Let_def tls_prf_xor_spec
      length_tls_prf_spec del: list.map append.simps)

lemma randomize_fields:
  assumes "tp_randomize rng t = (t', rest)" "64 + (if tp_server t then 0 else 48) \<le> length rng" "rand_wf t"
  shows "tp_initialized t' \<and> tp_server t' = tp_server t \<and> rand_wf t'"
  using assms by (auto simp: tp_randomize_def rand_wf_def Let_def split: prod.splits if_splits)

lemma tp_new_fields: "tp_server (tp_new junk b) = b" "rand_wf (tp_new junk b)"
  by (simp_all add: tp_new_def rand_wf_def)

lemma key_slice_pairs:
  "key_slice key 0 = key_slice key 6" "key_slice key 2 = key_slice key 4"
  "key_slice key 1 = key_slice key 7" "key_slice key 3 = key_slice key 5"
  by (simp_all add: key_slice_def key_table_def)

text \<open>
  C31. Both ends of a session derive the same data channel keys: after each end has drawn its
  randomness and read what the other has written, the key expansions of client and server, from
  their own view of the session IDs, are the same 256 bytes; and the slice the client encrypts with
  is the one the server decrypts with, in both directions, for the cipher and for the HMAC.
\<close>

theorem data_keys_agree:
  fixes junkc junks rc rs
  defines "c \<equiv> fst (self_randomize rc (tls_prf_new junkc False))"
    and "s \<equiv> fst (self_randomize rs (tls_prf_new junks True))"
  assumes "hmac_sized hm" "112 \<le> length rc" "64 \<le> length rs"
    and bufs: "buf_wf b" "contents b = []" "b_offset b < 65536" "buf_wf b'" "contents b' = []" "b_offset b' < 65536"
    and written: "self_write junk b c = Inr bc" "self_write junk b' s = Inr bs"
  shows "\<exists>key b1 b2. fst (peer_read bs c) = Inr b1 \<and> contents b1 = [] \<and> fst (peer_read bc s) = Inr b2 \<and> contents b2 = []
    \<and> tls_prf_key_expansion hm (snd (peer_read bs c)) psc pss = Inr (Some key)
    \<and> tls_prf_key_expansion hm (snd (peer_read bc s)) pss psc = Inr (Some key) \<and> length key = KEY_SIZE
    \<and> (\<forall>what \<in> {KEY_CIPHER, KEY_HMAC}.
         key_slice key (what OR KEY_ENCRYPT OR KEY_NORMAL) = key_slice key (what OR KEY_DECRYPT OR KEY_INVERSE)
       \<and> key_slice key (what OR KEY_DECRYPT OR KEY_NORMAL) = key_slice key (what OR KEY_ENCRYPT OR KEY_INVERSE))"
proof -
  have c: "tp_initialized (tp_self c)" "\<not> tp_server (tp_self c)" "rand_wf (tp_self c)" "tp_server (tp_peer c)" "rand_wf (tp_peer c)"
    using randomize_fields [of rc "tp_new junkc False"] assms(4) tp_new_fields
    by (auto simp: c_def self_randomize_def tls_prf_new_def split: prod.splits)
  have s: "tp_initialized (tp_self s)" "tp_server (tp_self s)" "rand_wf (tp_self s)" "\<not> tp_server (tp_peer s)" "rand_wf (tp_peer s)"
    using randomize_fields [of rs "tp_new junks True"] assms(5) tp_new_fields
    by (auto simp: s_def self_randomize_def tls_prf_new_def split: prod.splits)
  have z: "b_size b = 0" "b_size b' = 0" using bufs length_contents [of b] length_contents [of b'] by auto
  have wc: "buf_wf bc" "contents bc = rand_bytes (tp_self c) @ []"
    using tp_write_bytes [OF written(1) [unfolded self_write_def] bufs(1) c(3)] bufs z by auto
  have ws: "buf_wf bs" "contents bs = rand_bytes (tp_self s) @ []"
    using tp_write_bytes [OF written(2) [unfolded self_write_def] bufs(4) s(3)] bufs z by auto
  obtain b1 ps where r1: "tp_read bs (tp_peer c) = (Inr b1, ps)" "contents b1 = []" "tp_initialized ps" "tp_server ps"
    "tp_random1 ps = tp_random1 (tp_self s)" "tp_random2 ps = tp_random2 (tp_self s)"
    using tp_read_bytes [OF ws s(3), of "tp_peer c"] c s by auto
  obtain b2 pc where r2: "tp_read bc (tp_peer s) = (Inr b2, pc)" "contents b2 = []" "tp_initialized pc" "\<not> tp_server pc"
    "tp_pre_master pc = tp_pre_master (tp_self c)"
    "tp_random1 pc = tp_random1 (tp_self c)" "tp_random2 pc = tp_random2 (tp_self c)"
    using tp_read_bytes [OF wc c(3), of "tp_peer s"] c s by auto
  obtain key where key: "gen_exp hm (tp_self c) psc ps pss = Inr (Some key)" "length key = KEY_SIZE"
    using gen_exp_key [OF assms(3) c(1) r1(3)] by blast
  have same: "gen_exp hm pc psc (tp_self s) pss = gen_exp hm (tp_self c) psc ps pss"
    using c s r1 r2 by (intro gen_exp_cong) auto
  show ?thesis
    using r1 r2 c(2) s(2) key same
    by - (rule exI [of _ key], rule exI [of _ b1], rule exI [of _ b2], simp add: peer_read_def tls_prf_key_expansion_def generate_key_expansion_def key_slice_pairs)
qed

lemma write_grows:
  "b_owned b \<Longrightarrow> has_flag (b_flags b) GROW \<Longrightarrow>
   \<exists>b'. buf_write junk xs b = Inr b' \<and> b_owned b' \<and> has_flag (b_flags b') GROW"
  by (auto simp: buf_write_def buf_resize_def buf_resize_alloc_def Let_def)

lemma tp_write_grows:
  assumes "tp_initialized t" "b_owned b" "has_flag (b_flags b) GROW"
  shows "\<exists>b'. tp_write junk b t = Inr b'"
proof -
  obtain b1 where 1: "(if \<not> tp_server t then buf_write junk (tp_pre_master t) b else Inr b) = Inr b1"
    "b_owned b1" "has_flag (b_flags b1) GROW"
    using write_grows [OF assms(2,3)] assms(2,3) by (cases "tp_server t") auto
  obtain b2 where 2: "buf_write junk (tp_random1 t) b1 = Inr b2" "b_owned b2" "has_flag (b_flags b2) GROW"
    using write_grows [OF 1(2,3)] by blast
  show ?thesis using write_grows [OF 2(2,3)] 1 2 assms(1) by (auto simp: tp_write_def tp_verify_initialized_def)
qed

theorem data_keys_agree_witness:
  "\<exists>key c s. tls_prf_key_expansion wit_hmac c psid_reset psid_reset = Inr (Some key)
    \<and> tls_prf_key_expansion wit_hmac s psid_reset psid_reset = Inr (Some key) \<and> length key = 256"
proof -
  let ?c = "fst (self_randomize (replicate 112 1) (tls_prf_new (\<lambda>_. 0) False))"
  let ?s = "fst (self_randomize (replicate 64 2) (tls_prf_new (\<lambda>_. 0) True))"
  let ?b = "buf_alloc (\<lambda>_. 0) 0 GROW"
  have b: "buf_wf ?b" "contents ?b = []" "b_offset ?b < 65536" "b_owned ?b" "has_flag (b_flags ?b) GROW"
    by (simp_all add: buf_alloc_def buf_wf_def contents_def fresh_mem_def has_flag_def)
  have i: "tp_initialized (tp_self ?c)" "tp_initialized (tp_self ?s)"
    by (simp_all add: self_randomize_def tp_randomize_def Let_def split: prod.split)
  obtain bc bs where w: "self_write (\<lambda>_. 0) ?b ?c = Inr bc" "self_write (\<lambda>_. 0) ?b ?s = Inr bs"
    using tp_write_grows [OF i(1) b(4,5), of "\<lambda>_. 0"] tp_write_grows [OF i(2) b(4,5), of "\<lambda>_. 0"]
    unfolding self_write_def by blast
  have l: "112 \<le> length (replicate 112 (1 :: byte))" "64 \<le> length (replicate 64 (2 :: byte))" by simp_all
  from data_keys_agree [OF wit_hmac_sized l b(1-3) b(1-3) w, of psid_reset psid_reset] show ?thesis by blast
qed

end
