(* ===== verification/Mss_Fix.thy ===== *)
theory Mss_Fix
  imports Buffers
begin

text \<open>
  \<^verbatim>\<open>transport/mssfix.hpp\<close> with the headers of \<^verbatim>\<open>ip/ipcommon.hpp\<close>, \<^verbatim>\<open>ip/ip4.hpp\<close>, \<^verbatim>\<open>ip/ip6.hpp\<close>
  and \<^verbatim>\<open>ip/tcp.hpp\<close>: the maximum segment size a TCP SYN packet inside the tunnel asks for is
  lowered in place and the TCP checksum is adjusted to it. A packet is its list of bytes; a 16-bit
  field is read off memory as a little-endian host does where the code does not convert it.
\<close>

section \<open>Headers\<close>

definition ip_version :: "byte \<Rightarrow> byte" where
  "ip_version version_len_prio = drop_bit 4 version_len_prio AND 0x0F"

definition ipv4_header_length :: "byte \<Rightarrow> nat" where
  "ipv4_header_length version_len = push_bit 2 (unat (version_len AND 0x0F))"

definition ipv4_ver_len :: "u32 \<Rightarrow> u32 \<Rightarrow> byte" where
  "ipv4_ver_len version len = ucast ((drop_bit 2 len AND 0x0F) OR push_bit 4 (version AND 0x0F))"

definition tcp_header_length :: "byte \<Rightarrow> nat" where
  "tcp_header_length doff_res = drop_bit 2 (unat (doff_res AND 0xF0))"

abbreviation (input) IP_TCP :: byte where "IP_TCP \<equiv> 6"
abbreviation (input) IPV4_HEADER :: nat where "IPV4_HEADER \<equiv> 20"
abbreviation (input) IPV6_HEADER :: nat where "IPV6_HEADER \<equiv> 40"
abbreviation (input) TCP_HEADER :: nat where "TCP_HEADER \<equiv> 20"
abbreviation (input) TCP_CHECK :: nat where "TCP_CHECK \<equiv> 16"
abbreviation (input) OPT_EOL :: byte where "OPT_EOL \<equiv> 0"
abbreviation (input) OPT_NOP :: byte where "OPT_NOP \<equiv> 1"
abbreviation (input) OPT_MAXSEG :: byte where "OPT_MAXSEG \<equiv> 2"
abbreviation (input) OPTLEN_MAXSEG :: nat where "OPTLEN_MAXSEG \<equiv> 4"

text \<open>A field in network order, and as it lies in memory.\<close>

definition net16 :: "byte list \<Rightarrow> nat \<Rightarrow> int" where
  "net16 t p = 256 * uint (t ! p) + uint (t ! (p + 1))"

definition raw16 :: "byte list \<Rightarrow> nat \<Rightarrow> int" where
  "raw16 t p = uint (t ! p) + 256 * uint (t ! (p + 1))"

definition set_raw16 :: "byte list \<Rightarrow> nat \<Rightarrow> u16 \<Rightarrow> byte list" where
  "set_raw16 t p w = t[p := ucast w, p + 1 := ucast (drop_bit 8 w)]"

definition fold_carries :: "int \<Rightarrow> int" where
  "fold_carries a = (let a = drop_bit 16 a + (a AND 0xffff) in a + drop_bit 16 a)"

definition tcp_adjust_checksum :: "int \<Rightarrow> u16 \<Rightarrow> u16" where
  "tcp_adjust_checksum acc cksum =
     (let a = acc + uint cksum
      in if a < 0 then NOT (word_of_int (fold_carries (- a))) else word_of_int (fold_carries a))"


section \<open>The fix\<close>

text \<open>
  One MSS option with its value at \<open>p\<close>: the difference of the old and the new value, both as they
  lie in memory, is added to the checksum.
\<close>

definition fix_mss_option :: "int \<Rightarrow> nat \<Rightarrow> byte list \<Rightarrow> byte list" where
  "fix_mss_option max_mss p t =
     (let mssval = net16 t p
      in if mssval > max_mss
         then (let t' = t[p := word_of_int (drop_bit 8 max_mss AND 0xff), p + 1 := word_of_int (max_mss AND 0xff)];
                   accumulate = raw16 t p - raw16 t' p
               in set_raw16 t' TCP_CHECK (tcp_adjust_checksum accumulate (word_of_int (raw16 t' TCP_CHECK))))
         else t)"

text \<open>The loop over the options: \<open>opt\<close> is the offset of the option from the TCP header.\<close>

function mss_option_loop :: "int \<Rightarrow> nat \<Rightarrow> nat \<Rightarrow> byte list \<Rightarrow> byte list" where
  "mss_option_loop max_mss olen opt t =
     (if olen > 1
      then (if t ! opt = OPT_EOL then t
            else if t ! opt = OPT_NOP then mss_option_loop max_mss (olen - 1) (opt + 1) t
            else (let optlen = unat (t ! (opt + 1))
                  in if optlen = 0 \<or> optlen > olen then t
                     else mss_option_loop max_mss (olen - optlen) (opt + optlen)
                            (if t ! opt = OPT_MAXSEG \<and> optlen = OPTLEN_MAXSEG
                             then fix_mss_option max_mss (opt + 2) t else t)))
      else t)"
  by pat_completeness auto

termination
  by (relation "measure (\<lambda>(_, olen, _). olen)") auto

declare mss_option_loop.simps [simp del]

definition do_mssfix :: "int \<Rightarrow> nat \<Rightarrow> byte list \<Rightarrow> byte list" where
  "do_mssfix max_mss ip_payload_len t =
     (if t ! 13 AND 2 = 0 then t
      else (let tcphlen = tcp_header_length (t ! 12)
            in if tcphlen \<le> TCP_HEADER \<or> tcphlen > ip_payload_len then t
               else mss_option_loop max_mss (tcphlen - TCP_HEADER) TCP_HEADER t))"

definition mssfix :: "int \<Rightarrow> byte list \<Rightarrow> byte list" where
  "mssfix mss_inter b =
     (if b = [] then b
      else if ip_version (b ! 0) = 4
      then (if length b \<le> IPV4_HEADER then b
            else (let hlen = ipv4_header_length (b ! 0)
                  in if b ! 9 = IP_TCP \<and> net16 b 2 = int (length b)
                        \<and> net16 b 6 AND 0x1fff = 0 \<and> hlen \<le> length b \<and> length b - hlen \<ge> TCP_HEADER
                     then take hlen b @ do_mssfix (mss_inter - int (IPV4_HEADER + TCP_HEADER)) (length b - hlen) (drop hlen b)
                     else b))
      else if ip_version (b ! 0) = 6
      then (if length b \<le> IPV6_HEADER then b
            else if int (length b) \<noteq> net16 b 4 + int IPV6_HEADER then b
            else if b ! 6 \<noteq> IP_TCP then b
            else if length b - IPV6_HEADER \<ge> TCP_HEADER
            then take IPV6_HEADER b
              @ do_mssfix (mss_inter - int (IPV6_HEADER + TCP_HEADER)) (length b - IPV6_HEADER) (drop IPV6_HEADER b)
            else b)
      else b)"

definition buf_mssfix :: "int \<Rightarrow> buf \<Rightarrow> buf" where
  "buf_mssfix mss_inter b = b\<lparr>b_mem := blit (b_offset b) (mssfix mss_inter (contents b)) (b_mem b)\<rparr>"


section \<open>Checksums\<close>

text \<open>The sum of the 16-bit words of a segment, as the Internet checksum takes it (modulo 65535).\<close>

definition word_sum :: "byte list \<Rightarrow> int" where
  "word_sum t = (\<Sum>j<length t. (if even j then 1 else 256) * uint (t ! j))"

lemma word_sum_update:
  assumes "p < length t"
  shows "word_sum (t[p := x]) = word_sum t + (if even p then 1 else 256) * (uint x - uint (t ! p))"
proof -
  let ?w = "\<lambda>j. if even j then 1 else (256 :: int)"
  have "word_sum (t[p := x]) = (\<Sum>j<length t. ?w j * uint (t ! j) + (if j = p then ?w p * (uint x - uint (t ! p)) else 0))"
    using assms by (auto simp: word_sum_def nth_list_update algebra_simps intro!: sum.cong)
  also have "\<dots> = word_sum t + (\<Sum>j<length t. if j = p then ?w p * (uint x - uint (t ! p)) else 0)"
    by (simp add: sum.distrib word_sum_def)
  finally show ?thesis using assms by simp
qed

lemma fold_carries_mod:
  assumes "0 \<le> a" "a \<le> 131070"
  shows "0 \<le> fold_carries a" "fold_carries a \<le> 65535" "fold_carries a mod 65535 = a mod 65535"
proof -
  have k: "mask 16 = (0xffff :: int)" by (simp add: mask_eq_exp_minus_1)
  have m: "x AND 0xffff = x mod 65536" "drop_bit 16 x = x div 65536" for x :: int
    unfolding k [symmetric] take_bit_eq_mask [symmetric] take_bit_eq_mod drop_bit_eq_div by simp_all
  have r: "0 \<le> a div 65536 + a mod 65536 \<and> a div 65536 + a mod 65536 \<le> 65535
    \<and> (a div 65536 + a mod 65536) mod 65535 = a mod 65535"
  proof (cases "a < 65536")
    case False
    have "a div 65536 = (a - 65536) div 65536 + 1" using False by (intro div_pos_geq) simp_all
    moreover have "(a - 65536) div 65536 = 0" using False assms by (intro div_pos_pos_trivial) simp_all
    ultimately have d: "a div 65536 = 1" by simp
    have "65536 * (a div 65536) + a mod 65536 = a" by (rule mult_div_mod_eq)
    with d have "a mod 65536 = a - 65536" by linarith
    moreover have "(1 + (a - 65536)) mod 65535 = (1 + (a - 65536) + 65535) mod 65535" by simp
    ultimately show ?thesis unfolding d using False assms by simp
  qed (use assms in simp)
  have "x div 65536 = 0" if "0 \<le> x \<and> x \<le> 65535" for x :: int using that by simp
  then have "(a div 65536 + a mod 65536) div 65536 = 0" using r by blast
  then have "fold_carries a = a div 65536 + a mod 65536" by (simp add: fold_carries_def m Let_def)
  then show "0 \<le> fold_carries a" "fold_carries a \<le> 65535" "fold_carries a mod 65535 = a mod 65535"
    using r by simp_all
qed

lemma tcp_adjust_checksum_mod:
  assumes "\<bar>acc\<bar> \<le> 65535"
  shows "uint (tcp_adjust_checksum acc ck) mod 65535 = (acc + uint ck) mod 65535"
proof -
  have ck: "0 \<le> uint ck" "uint ck \<le> 65535" using unsigned_less [of ck, where ?'a = int] by simp_all
  show ?thesis
  proof (cases "acc + uint ck < 0")
    case True
    then have r: "0 \<le> - (acc + uint ck)" "- (acc + uint ck) \<le> 131070" using assms ck by linarith+
    let ?c = "fold_carries (- (acc + uint ck))"
    note c = fold_carries_mod [OF r]
    have "NOT (word_of_int ?c :: u16) = word_of_int (- ?c - 1)" by (simp add: not_eq_complement)
    then have "uint (NOT (word_of_int ?c :: u16)) = (- ?c - 1) mod 65536"
      by (simp only: uint_word_of_int) simp
    also have "\<dots> = (- ?c - 1 + 65536) mod 65536" by (simp only: mod_add_self2)
    also have "\<dots> = 65535 - ?c" using c by (subst mod_pos_pos_trivial) linarith+
    finally have u: "uint (tcp_adjust_checksum acc ck) = 65535 - ?c"
      using True by (simp add: tcp_adjust_checksum_def Let_def)
    have "(65535 - ?c) mod 65535 = (0 - ?c) mod 65535" by (metis diff_0 minus_mod_self1)
    also have "\<dots> = (0 - (- (acc + uint ck))) mod 65535" using c(3) by (rule mod_diff_cong [OF refl])
    finally show ?thesis unfolding u by (simp add: add.commute)
  next
    case False
    then have r: "0 \<le> acc + uint ck" "acc + uint ck \<le> 131070" using assms ck by linarith+
    note c = fold_carries_mod [OF r]
    have "uint (tcp_adjust_checksum acc ck) = fold_carries (acc + uint ck) mod 65536"
      using False by (simp add: tcp_adjust_checksum_def Let_def uint_word_of_int)
    also have "\<dots> = fold_carries (acc + uint ck)" using c by (intro mod_pos_pos_trivial) linarith+
    finally show ?thesis using c(3) by simp
  qed
qed

lemma raw16_range: "0 \<le> raw16 t p \<and> raw16 t p \<le> 65535"
  using uint_byte_range [of "t ! p"] uint_byte_range [of "t ! (p + 1)"] by (simp add: raw16_def)

lemma word_sum_update2:
  assumes "p + 1 < length t" "even p"
  shows "word_sum (t[p := x, p + 1 := y]) = word_sum t + raw16 (t[p := x, p + 1 := y]) p - raw16 t p"
  using assms by (simp add: word_sum_update raw16_def)

lemma set_raw16_get: "p + 1 < length t \<Longrightarrow> raw16 (set_raw16 t p w) p = uint w"
proof -
  assume "p + 1 < length t"
  then have "raw16 (set_raw16 t p w) p = uint (ucast w :: byte) + 256 * uint (ucast (drop_bit 8 w) :: byte)"
    by (simp add: raw16_def set_raw16_def)
  also have "\<dots> = uint w mod 256 + 256 * ((uint w div 256) mod 256)"
    by (simp add: unsigned_ucast_eq take_bit_eq_mod drop_bit_eq_div uint_div unsigned_take_bit_eq)
  also have "\<dots> = uint w"
  proof -
    have "uint w div 256 < 256" "0 \<le> uint w div 256"
      using unsigned_less [of w, where ?'a = int] by (simp_all add: pos_imp_zdiv_nonneg_iff)
    then show ?thesis by simp
  qed
  finally show ?thesis .
qed

lemma fix_mss_option_sum:
  assumes "p + 1 < length t" "even p" "18 \<le> p"
  shows "word_sum (fix_mss_option max_mss p t) mod 65535 = word_sum t mod 65535"
proof (cases "net16 t p > max_mss")
  case True
  let ?t = "t[p := word_of_int (drop_bit 8 max_mss AND 0xff), p + 1 := word_of_int (max_mss AND 0xff)]"
  let ?acc = "raw16 t p - raw16 ?t p"
  let ?ck = "word_of_int (raw16 ?t TCP_CHECK) :: u16"
  have eq: "fix_mss_option max_mss p t = set_raw16 ?t TCP_CHECK (tcp_adjust_checksum ?acc ?ck)"
    using True by (simp add: fix_mss_option_def Let_def)
  have len: "TCP_CHECK + 1 < length ?t" using assms by simp
  have ck: "uint ?ck = raw16 ?t TCP_CHECK" using raw16_range [of ?t TCP_CHECK] by (simp add: uint_word_of_int)
  have acc: "\<bar>?acc\<bar> \<le> 65535" using raw16_range [of t p] raw16_range [of ?t p] by linarith
  have "word_sum (fix_mss_option max_mss p t) = word_sum ?t + uint (tcp_adjust_checksum ?acc ?ck) - raw16 ?t TCP_CHECK"
    using word_sum_update2 [of TCP_CHECK ?t] set_raw16_get [OF len] len unfolding eq set_raw16_def by simp
  also have "word_sum ?t = word_sum t + raw16 ?t p - raw16 t p" using assms by (rule_tac word_sum_update2)
  finally have "word_sum (fix_mss_option max_mss p t) = word_sum t - ?acc - raw16 ?t TCP_CHECK + uint (tcp_adjust_checksum ?acc ?ck)"
    by linarith
  then have "word_sum (fix_mss_option max_mss p t) mod 65535
      = (word_sum t - ?acc - raw16 ?t TCP_CHECK + uint (tcp_adjust_checksum ?acc ?ck)) mod 65535" by (rule arg_cong)
  also have "\<dots> = (word_sum t - ?acc - raw16 ?t TCP_CHECK + (?acc + uint ?ck)) mod 65535"
    using tcp_adjust_checksum_mod [OF acc, of ?ck] by (rule mod_add_cong [OF refl])
  finally show ?thesis unfolding ck by simp
qed (simp add: fix_mss_option_def Let_def)

section \<open>The checksum stays valid, and the size is bounded\<close>

text \<open>Where the loop finds the values of MSS options.\<close>

function mss_positions :: "nat \<Rightarrow> nat \<Rightarrow> byte list \<Rightarrow> nat list" where
  "mss_positions olen opt t =
     (if olen > 1
      then (if t ! opt = OPT_EOL then []
            else if t ! opt = OPT_NOP then mss_positions (olen - 1) (opt + 1) t
            else (let optlen = unat (t ! (opt + 1))
                  in if optlen = 0 \<or> optlen > olen then []
                     else (if t ! opt = OPT_MAXSEG \<and> optlen = OPTLEN_MAXSEG then [opt + 2] else [])
                       @ mss_positions (olen - optlen) (opt + optlen) t))
      else [])"
  by pat_completeness auto

termination
  by (relation "measure (\<lambda>(olen, _). olen)") auto

declare mss_positions.simps [simp del]

text \<open>The MSS options of a packet the code touches.\<close>

definition mss_options :: "nat \<Rightarrow> byte list \<Rightarrow> nat list" where
  "mss_options len t =
     (if t ! 13 AND 2 = 0 \<or> tcp_header_length (t ! 12) \<le> TCP_HEADER \<or> tcp_header_length (t ! 12) > len then []
      else mss_positions (tcp_header_length (t ! 12) - TCP_HEADER) TCP_HEADER t)"

lemma length_fix_mss_option [simp]: "length (fix_mss_option max_mss p t) = length t"
  by (simp add: fix_mss_option_def set_raw16_def Let_def)

lemma fix_mss_option_nth:
  "q \<noteq> p \<Longrightarrow> q \<noteq> p + 1 \<Longrightarrow> q \<noteq> TCP_CHECK \<Longrightarrow> q \<noteq> TCP_CHECK + 1 \<Longrightarrow> fix_mss_option max_mss p t ! q = t ! q"
  by (simp add: fix_mss_option_def set_raw16_def Let_def)

lemma mss_positions_cong:
  "(\<And>q. opt \<le> q \<Longrightarrow> q < opt + olen \<Longrightarrow> t ! q = t' ! q) \<Longrightarrow> mss_positions olen opt t = mss_positions olen opt t'"
proof (induction olen opt t rule: mss_positions.induct)
  case (1 olen opt t)
  show ?case
  proof (cases "olen > 1")
    case True
    then have e: "t ! opt = t' ! opt" "t ! (opt + 1) = t' ! (opt + 1)" using "1.prems" by auto
    consider "t ! opt = OPT_EOL" | "t ! opt = OPT_NOP" | "t ! opt \<noteq> OPT_EOL" "t ! opt \<noteq> OPT_NOP" by blast
    then show ?thesis
    proof cases
      case 2
      then have "mss_positions (olen - 1) (opt + 1) t = mss_positions (olen - 1) (opt + 1) t'"
        using True "1.prems" by (intro "1.IH"(1)) auto
      then show ?thesis using True 2 e by (subst (1 2) mss_positions.simps) simp
    next
      case 3
      let ?l = "unat (t ! (opt + 1))"
      have "mss_positions (olen - ?l) (opt + ?l) t = mss_positions (olen - ?l) (opt + ?l) t'" if "\<not> (?l = 0 \<or> ?l > olen)"
        using True "1.prems" 3 that by (intro "1.IH"(2) [OF _ _ _ refl]) auto
      then show ?thesis using True 3 e by (subst (1 2) mss_positions.simps) (auto simp: Let_def)
    qed (use True e in \<open>subst (1 2) mss_positions.simps, simp\<close>)
  qed (subst (1 2) mss_positions.simps, simp)
qed

lemma mss_positions_range:
  "q \<in> set (mss_positions olen opt t) \<Longrightarrow> opt + 2 \<le> q \<and> q + 2 \<le> opt + olen"
proof (induction olen opt t rule: mss_positions.induct)
  case (1 olen opt t)
  let ?l = "unat (t ! (opt + 1))"
  from "1.prems" have o: "olen > 1" "t ! opt \<noteq> OPT_EOL"
    by (subst (asm) mss_positions.simps, simp split: if_splits)+ 
  show ?case
  proof (cases "t ! opt = OPT_NOP")
    case True
    with o "1.prems" have "q \<in> set (mss_positions (olen - 1) (opt + 1) t)"
      by (subst (asm) mss_positions.simps) simp
    from "1.IH"(1) [OF o True this] show ?thesis using o by auto
  next
    case False
    with o have eq: "mss_positions olen opt t = (if ?l = 0 \<or> ?l > olen then []
        else (if t ! opt = OPT_MAXSEG \<and> ?l = OPTLEN_MAXSEG then [opt + 2] else []) @ mss_positions (olen - ?l) (opt + ?l) t)"
      by (subst mss_positions.simps) (simp add: Let_def)
    have q: "\<not> (?l = 0 \<or> ?l > olen)"
      "q = opt + 2 \<and> ?l = OPTLEN_MAXSEG \<or> q \<in> set (mss_positions (olen - ?l) (opt + ?l) t)"
      using "1.prems" unfolding eq by (auto split: if_splits)
    from q(2) show ?thesis
    proof
      assume "q \<in> set (mss_positions (olen - ?l) (opt + ?l) t)"
      from "1.IH"(2) [OF o False refl q(1) this] show ?thesis using q(1) by auto
    qed (use q(1) in auto)
  qed
qed

text \<open>What the loop does: one fix after the other, at the places of the packet it was given.\<close>

lemma mss_option_loop_fold:
  "18 \<le> opt \<Longrightarrow> mss_option_loop max_mss olen opt t = fold (fix_mss_option max_mss) (mss_positions olen opt t) t"
proof (induction max_mss olen opt t rule: mss_option_loop.induct)
  case (1 max_mss olen opt t)
  show ?case
  proof (cases "olen > 1 \<and> t ! opt \<noteq> OPT_EOL")
    case True
    show ?thesis
    proof (cases "t ! opt = OPT_NOP")
      case nop: True
      have "mss_option_loop max_mss (olen - 1) (opt + 1) t = fold (fix_mss_option max_mss) (mss_positions (olen - 1) (opt + 1) t) t"
        using True nop "1.prems" by (intro "1.IH"(1)) auto
      then show ?thesis
        using True nop by (subst mss_option_loop.simps, subst mss_positions.simps) simp
    next
      case False
      let ?l = "unat (t ! (opt + 1))"
      let ?t = "if t ! opt = OPT_MAXSEG \<and> ?l = OPTLEN_MAXSEG then fix_mss_option max_mss (opt + 2) t else t"
      show ?thesis
      proof (cases "?l = 0 \<or> ?l > olen")
        case bad: True
        then show ?thesis using True False by (subst mss_option_loop.simps, subst mss_positions.simps) simp
      next
        case good: False
        have ih: "mss_option_loop max_mss (olen - ?l) (opt + ?l) ?t = fold (fix_mss_option max_mss) (mss_positions (olen - ?l) (opt + ?l) ?t) ?t"
          using True False good "1.prems" by (intro "1.IH"(2) [OF _ _ _ refl]) auto
        have same: "mss_positions (olen - ?l) (opt + ?l) ?t = mss_positions (olen - ?l) (opt + ?l) t"
          using "1.prems" by (intro mss_positions_cong) (auto simp: fix_mss_option_nth)
        have "mss_option_loop max_mss olen opt t = mss_option_loop max_mss (olen - ?l) (opt + ?l) ?t"
          using True False good by (subst mss_option_loop.simps) (simp add: Let_def)
        moreover have "mss_positions olen opt t =
            (if t ! opt = OPT_MAXSEG \<and> ?l = OPTLEN_MAXSEG then [opt + 2] else []) @ mss_positions (olen - ?l) (opt + ?l) t"
          using True False good by (subst mss_positions.simps) (simp add: Let_def)
        then have "fold (fix_mss_option max_mss) (mss_positions olen opt t) t
            = fold (fix_mss_option max_mss) (mss_positions (olen - ?l) (opt + ?l) t) ?t" by simp
        ultimately show ?thesis by (simp only: ih same)
      qed
    qed
  next
    case False
    then show ?thesis by (subst mss_option_loop.simps, subst mss_positions.simps) auto
  qed
qed

lemma do_mssfix_fold: "do_mssfix max_mss len t = fold (fix_mss_option max_mss) (mss_options len t) t"
  by (simp add: do_mssfix_def mss_options_def mss_option_loop_fold Let_def)

lemma length_fold_fix: "length (fold (fix_mss_option m) ps t) = length t"
  by (induction ps arbitrary: t) auto

lemma fold_fix_sum:
  "\<forall>p \<in> set ps. p + 1 < length t \<and> even p \<and> 18 \<le> p \<Longrightarrow>
   word_sum (fold (fix_mss_option m) ps t) mod 65535 = word_sum t mod 65535"
  by (induction ps arbitrary: t) (simp_all add: fix_mss_option_sum)

lemma mss_options_range:
  "p \<in> set (mss_options len t) \<Longrightarrow> 22 \<le> p \<and> p + 2 \<le> len"
  using mss_positions_range [of p "tcp_header_length (t ! 12) - TCP_HEADER" TCP_HEADER t]
  by (auto simp: mss_options_def split: if_splits)

lemma fold_fix_nth:
  "q \<notin> set ps \<Longrightarrow> (\<forall>p \<in> set ps. q \<noteq> p + 1) \<Longrightarrow> q \<noteq> TCP_CHECK \<Longrightarrow> q \<noteq> TCP_CHECK + 1 \<Longrightarrow>
   fold (fix_mss_option m) ps t ! q = t ! q"
  by (induction ps arbitrary: t) (auto simp: fix_mss_option_nth)

lemma fix_mss_option_value:
  assumes "p + 1 < length t" "18 \<le> p" "0 \<le> m" "m \<le> 65535"
  shows "net16 (fix_mss_option m p t) p = min m (net16 t p)"
proof (cases "net16 t p > m")
  case True
  have k: "mask 8 = (0xff :: int)" by (simp add: mask_eq_exp_minus_1)
  have b: "drop_bit 8 m AND 0xff = m div 256" "m AND 0xff = m mod 256"
    using assms(3,4) unfolding k [symmetric] take_bit_eq_mask [symmetric] take_bit_eq_mod drop_bit_eq_div by simp_all
  have d: "m div 256 < 256" "0 \<le> m div 256" using assms(3,4) by (simp_all add: pos_imp_zdiv_nonneg_iff)
  have "net16 (fix_mss_option m p t) p = 256 * (m div 256) + m mod 256"
    using True assms(1,2) d by (simp add: fix_mss_option_def set_raw16_def Let_def b net16_def uint_word_of_int)
  then show ?thesis using True by simp
qed (simp add: fix_mss_option_def Let_def)

lemma fix_mss_option_other:
  assumes "18 \<le> p" "18 \<le> q" "q + 1 < p \<or> p + 1 < q"
  shows "net16 (fix_mss_option m p t) q = net16 t q"
  using assms fix_mss_option_nth [of q p m t] fix_mss_option_nth [of "q + 1" p m t]
  by (auto simp: net16_def)

text \<open>The values of a list of MSS options that do not overlap.\<close>

definition spaced :: "nat list \<Rightarrow> bool" where
  "spaced ps \<longleftrightarrow> sorted_wrt (\<lambda>p q. p + 1 < q) ps \<and> (\<forall>p \<in> set ps. 18 \<le> p)"

lemma fold_fix_value:
  "spaced ps \<Longrightarrow> \<forall>p \<in> set ps. p + 1 < length t \<Longrightarrow> 0 \<le> m \<Longrightarrow> m \<le> 65535 \<Longrightarrow>
   (\<forall>p \<in> set ps. net16 (fold (fix_mss_option m) ps t) p = min m (net16 t p))
   \<and> (\<forall>q. 18 \<le> q \<longrightarrow> (\<forall>p \<in> set ps. q + 1 < p \<or> p + 1 < q) \<longrightarrow> net16 (fold (fix_mss_option m) ps t) q = net16 t q)"
proof (induction ps arbitrary: t)
  case (Cons p ps)
  let ?t = "fix_mss_option m p t"
  have ih: "\<forall>q \<in> set ps. net16 (fold (fix_mss_option m) ps ?t) q = min m (net16 ?t q)"
    "\<forall>q. 18 \<le> q \<longrightarrow> (\<forall>r \<in> set ps. q + 1 < r \<or> r + 1 < q) \<longrightarrow> net16 (fold (fix_mss_option m) ps ?t) q = net16 ?t q"
    using Cons.IH [of ?t] Cons.prems by (auto simp: spaced_def)
  have p: "18 \<le> p" "p + 1 < length t" "\<forall>q \<in> set ps. p + 1 < q" using Cons.prems by (auto simp: spaced_def)
  have q: "\<forall>q \<in> set ps. net16 ?t q = net16 t q"
    using p Cons.prems by (auto simp: spaced_def intro!: fix_mss_option_other)
  have v: "net16 ?t p = min m (net16 t p)" using p Cons.prems by (intro fix_mss_option_value) auto
  show ?case
  proof (intro conjI allI impI ballI)
    fix r
    assume "r \<in> set (p # ps)"
    then show "net16 (fold (fix_mss_option m) (p # ps) t) r = min m (net16 t r)"
      using ih p q v by auto
  next
    fix r
    assume "18 \<le> r" "\<forall>q \<in> set (p # ps). r + 1 < q \<or> q + 1 < r"
    then show "net16 (fold (fix_mss_option m) (p # ps) t) r = net16 t r"
      using ih(2) fix_mss_option_other [of p r m t] p by auto
  qed
qed simp

lemma mss_positions_spaced: "18 \<le> opt \<Longrightarrow> spaced (mss_positions olen opt t)"
proof (induction olen opt t rule: mss_positions.induct)
  case (1 olen opt t)
  let ?l = "unat (t ! (opt + 1))"
  show ?case
  proof (cases "olen > 1 \<and> t ! opt \<noteq> OPT_EOL")
    case True
    show ?thesis
    proof (cases "t ! opt = OPT_NOP")
      case nop: True
      then have "mss_positions olen opt t = mss_positions (olen - 1) (opt + 1) t"
        using True by (subst mss_positions.simps) simp
      then show ?thesis using "1.IH"(1) True nop "1.prems" by simp
    next
      case False
      with True have eq: "mss_positions olen opt t = (if ?l = 0 \<or> ?l > olen then []
          else (if t ! opt = OPT_MAXSEG \<and> ?l = OPTLEN_MAXSEG then [opt + 2] else []) @ mss_positions (olen - ?l) (opt + ?l) t)"
        by (subst mss_positions.simps) (simp add: Let_def)
      have ih: "spaced (mss_positions (olen - ?l) (opt + ?l) t)" if "\<not> (?l = 0 \<or> ?l > olen)"
        using "1.IH"(2) [OF _ _ False refl that] True "1.prems" by simp
      have "?l = OPTLEN_MAXSEG \<Longrightarrow> \<forall>q \<in> set (mss_positions (olen - ?l) (opt + ?l) t). opt + 2 + 1 < q"
        using mss_positions_range by fastforce
      then show ?thesis unfolding eq using ih "1.prems" by (auto simp: spaced_def)
    qed
  next
    case False
    then show ?thesis by (subst mss_positions.simps) (auto simp: spaced_def)
  qed
qed

lemma mss_options_spaced: "spaced (mss_options len t)"
  using mss_positions_spaced [of TCP_HEADER] by (simp add: mss_options_def) (simp add: spaced_def)

text \<open>
  C40. The MSS fix bounds every segment size and keeps the packet intact: in a TCP segment each MSS
  option the parser meets ends up with the smaller of its value and the limit, no byte changes
  other than these options' values and the checksum, and as long as the options lie at even
  offsets the checksum stays as valid as it was (the sum of the 16-bit words of the segment is the
  same modulo 65535).
\<close>

theorem mssfix_bounds_and_checksum:
  assumes "TCP_HEADER \<le> length t" "0 \<le> max_mss" "max_mss \<le> 65535"
  shows "length (do_mssfix max_mss (length t) t) = length t
    \<and> (\<forall>p \<in> set (mss_options (length t) t). net16 (do_mssfix max_mss (length t) t) p = min max_mss (net16 t p))
    \<and> (\<forall>q. q \<notin> set (mss_options (length t) t) \<longrightarrow> (\<forall>p \<in> set (mss_options (length t) t). q \<noteq> p + 1)
          \<longrightarrow> q \<noteq> TCP_CHECK \<longrightarrow> q \<noteq> TCP_CHECK + 1 \<longrightarrow> do_mssfix max_mss (length t) t ! q = t ! q)
    \<and> ((\<forall>p \<in> set (mss_options (length t) t). even p)
          \<longrightarrow> word_sum (do_mssfix max_mss (length t) t) mod 65535 = word_sum t mod 65535)"
proof -
  have r: "\<forall>p \<in> set (mss_options (length t) t). 18 \<le> p \<and> p + 1 < length t"
    using mss_options_range by fastforce
  show ?thesis
    unfolding do_mssfix_fold
    using fold_fix_value [OF mss_options_spaced _ assms(2,3), where t = t] r
    by (simp add: length_fold_fix fold_fix_nth fold_fix_sum)
qed

definition wit_syn :: "byte list \<Rightarrow> byte list" where
  "wit_syn options = replicate 12 0 @ [112, 2, 0, 0, 0, 0, 0, 0] @ options"

theorem mssfix_bounds_and_checksum_witness:
  "do_mssfix 1000 28 (wit_syn [2, 4, 5, 180, 0, 0, 0, 0]) \<noteq> wit_syn [2, 4, 5, 180, 0, 0, 0, 0]
   \<and> net16 (do_mssfix 1000 28 (wit_syn [2, 4, 5, 180, 0, 0, 0, 0])) 22 = 1000"
proof -
  let ?t = "wit_syn [2, 4, 5, 180, 0, 0, 0, 0]"
  have l: "length ?t = 28" by (simp add: wit_syn_def)
  have o: "mss_options 28 ?t = [22]" by code_simp
  have v: "net16 ?t 22 = 1460" by code_simp
  have "net16 (do_mssfix 1000 28 ?t) 22 = 1000"
    using mssfix_bounds_and_checksum [of ?t 1000] by (simp add: l o v)
  then show ?thesis using v by auto
qed

text \<open>
  At an odd offset the adjustment is wrong: for a SYN whose MSS option follows a single
  no-operation byte, the segment's checksum is no longer valid after the fix, because the
  difference of the values is added to the wrong bytes of the 16-bit words.
\<close>

lemma mssfix_odd_option_breaks_checksum:
  "word_sum (do_mssfix 1000 28 (wit_syn [1, 2, 4, 5, 180, 0, 0, 0])) mod 65535
     \<noteq> word_sum (wit_syn [1, 2, 4, 5, 180, 0, 0, 0]) mod 65535"
  by code_simp

end
