(* ===== verification/Compression.thy ===== *)
theory Compression
  imports Frames Error_Types
begin

text \<open>
  \<^verbatim>\<open>compress/\<close>: the framing of the data channel's compression (\<^verbatim>\<open>compress.hpp\<close>, \<^verbatim>\<open>compnull.hpp\<close>,
  \<^verbatim>\<open>compstub.hpp\<close>, \<^verbatim>\<open>lz4.hpp\<close>, \<^verbatim>\<open>lzoasym.hpp\<close>) and the choice of a compressor. The LZ4 routines
  are a vendored library and the LZO routine is chosen when the library is built: they are fields
  of \<open>comp_env\<close>. As in the project's build files, \<^verbatim>\<open>HAVE_LZ4\<close> is set and \<^verbatim>\<open>NO_LZO\<close> and
  \<^verbatim>\<open>HAVE_SNAPPY\<close> are not.
\<close>

section \<open>Choosing a compressor\<close>

datatype comp_type =
  NONE | COMP_STUB | COMP_STUBv2 | ANY | ANY_LZO | LZO | LZO_SWAP | LZO_STUB | LZ4 | LZ4v2 | SNAPPY

datatype compressor =
    CompressNull
  | CompressStub bool
  | CompressStubV2
  | CompressLZO bool
  | CompressLZ4 bool
  | CompressLZ4v2 bool

record comp_context =
  cx_type :: comp_type
  cx_asym :: bool

definition compressor_available :: "comp_type \<Rightarrow> bool" where
  "compressor_available t = (t \<noteq> SNAPPY)"

definition make_comp_context :: "comp_type \<Rightarrow> bool \<Rightarrow> comp_context res" where
  "make_comp_context t asymm =
     (if \<not> compressor_available t then Inl (Std_exception ''compressor_unavailable'')
      else Inr \<lparr>cx_type = t, cx_asym = asymm\<rparr>)"

definition extra_payload_bytes :: "comp_context \<Rightarrow> nat" where
  "extra_payload_bytes c =
     (case cx_type c of NONE \<Rightarrow> 0 | COMP_STUBv2 \<Rightarrow> 2 | LZ4v2 \<Rightarrow> 2 | _ \<Rightarrow> 1)"

definition new_compressor :: "comp_context \<Rightarrow> compressor res" where
  "new_compressor c =
     (case cx_type c of
        NONE \<Rightarrow> Inr CompressNull
      | ANY \<Rightarrow> Inr (CompressStub False)
      | ANY_LZO \<Rightarrow> Inr (CompressStub False)
      | LZO_STUB \<Rightarrow> Inr (CompressStub False)
      | COMP_STUB \<Rightarrow> Inr (CompressStub True)
      | COMP_STUBv2 \<Rightarrow> Inr CompressStubV2
      | LZO \<Rightarrow> Inr (CompressLZO False)
      | LZO_SWAP \<Rightarrow> Inr (CompressLZO True)
      | LZ4 \<Rightarrow> Inr (CompressLZ4 (cx_asym c))
      | LZ4v2 \<Rightarrow> Inr (CompressLZ4v2 (cx_asym c))
      | SNAPPY \<Rightarrow> Inl (Std_exception ''compressor_unavailable''))"

abbreviation (input) LF :: char where "LF \<equiv> CHR 0x0A"

definition comp_peer_info_string :: "comp_context \<Rightarrow> string option" where
  "comp_peer_info_string c =
     (case cx_type c of
        LZO \<Rightarrow> Some (''IV_LZO=1'' @ [LF])
      | LZO_SWAP \<Rightarrow> Some (''IV_LZO_SWAP=1'' @ [LF])
      | LZ4 \<Rightarrow> Some (''IV_LZ4=1'' @ [LF])
      | LZ4v2 \<Rightarrow> Some (''IV_LZ4v2=1'' @ [LF])
      | ANY \<Rightarrow> Some (''IV_LZO=1'' @ LF # ''IV_LZO_SWAP=1'' @ LF # ''IV_LZ4=1'' @ LF # ''IV_LZ4v2=1'' @ LF
                  # ''IV_COMP_STUB=1'' @ LF # ''IV_COMP_STUBv2=1'' @ [LF])
      | ANY_LZO \<Rightarrow> Some (''IV_LZO=1'' @ LF # ''IV_LZO_SWAP=1'' @ LF # ''IV_COMP_STUB=1'' @ LF
                      # ''IV_COMP_STUBv2=1'' @ [LF])
      | LZO_STUB \<Rightarrow> Some (''IV_LZO_STUB=1'' @ LF # ''IV_COMP_STUB=1'' @ LF # ''IV_COMP_STUBv2=1'' @ [LF])
      | COMP_STUB \<Rightarrow> Some (''IV_LZO_STUB=1'' @ LF # ''IV_COMP_STUB=1'' @ LF # ''IV_COMP_STUBv2=1'' @ [LF])
      | COMP_STUBv2 \<Rightarrow> Some (''IV_LZO_STUB=1'' @ LF # ''IV_COMP_STUB=1'' @ LF # ''IV_COMP_STUBv2=1'' @ [LF])
      | NONE \<Rightarrow> None
      | SNAPPY \<Rightarrow> None)"

definition comp_peer_info_string_v1 :: "comp_context \<Rightarrow> string option" where
  "comp_peer_info_string_v1 c =
     (case cx_type c of
        LZO \<Rightarrow> Some (''IV_LZO=1'' @ [LF])
      | LZO_SWAP \<Rightarrow> Some (''IV_LZO_SWAP=1'' @ [LF])
      | LZ4 \<Rightarrow> Some (''IV_LZ4=1'' @ [LF])
      | LZO_STUB \<Rightarrow> Some (''IV_LZO_STUB=1'' @ LF # ''IV_COMP_STUB=1'' @ [LF])
      | COMP_STUB \<Rightarrow> Some (''IV_LZO_STUB=1'' @ LF # ''IV_COMP_STUB=1'' @ [LF])
      | ANY \<Rightarrow> Some (''IV_LZO=1'' @ LF # ''IV_LZO_SWAP=1'' @ LF # ''IV_LZ4=1'' @ LF # ''IV_COMP_STUB=1'' @ [LF])
      | ANY_LZO \<Rightarrow> Some (''IV_LZO=1'' @ LF # ''IV_LZO_SWAP=1'' @ LF # ''IV_COMP_STUB=1'' @ [LF])
      | _ \<Rightarrow> None)"

definition comp_options_string :: "comp_context \<Rightarrow> string option" where
  "comp_options_string c = (if cx_type c = NONE then None else Some ''comp-lzo'')"

definition comp_str :: "comp_context \<Rightarrow> string" where
  "comp_str c =
     (case cx_type c of
        LZO \<Rightarrow> ''LZO'' | LZO_SWAP \<Rightarrow> ''LZO_SWAP'' | LZ4 \<Rightarrow> ''LZ4'' | LZ4v2 \<Rightarrow> ''LZ4v2''
      | SNAPPY \<Rightarrow> ''SNAPPY'' | LZO_STUB \<Rightarrow> ''LZO_STUB'' | COMP_STUB \<Rightarrow> ''COMP_STUB''
      | COMP_STUBv2 \<Rightarrow> ''COMP_STUBv2'' | ANY \<Rightarrow> ''ANY'' | ANY_LZO \<Rightarrow> ''ANY_LZO'' | NONE \<Rightarrow> ''NONE'')"

definition method_to_string :: "comp_context \<Rightarrow> string option" where
  "method_to_string c =
     (case cx_type c of
        LZO \<Rightarrow> Some ''lzo'' | LZO_SWAP \<Rightarrow> Some ''lzo-swap'' | LZO_STUB \<Rightarrow> Some ''lzo-stub''
      | LZ4 \<Rightarrow> Some ''lz4'' | LZ4v2 \<Rightarrow> Some ''lz4v2'' | SNAPPY \<Rightarrow> Some ''snappy''
      | COMP_STUB \<Rightarrow> Some ''stub'' | COMP_STUBv2 \<Rightarrow> Some ''stub-v2'' | _ \<Rightarrow> None)"

definition parse_method :: "string \<Rightarrow> comp_type" where
  "parse_method m =
     (if m = ''stub-v2'' then COMP_STUBv2
      else if m = ''lz4-v2'' then LZ4v2
      else if m = ''lz4'' then LZ4
      else if m = ''lzo'' then LZO
      else if m = ''lzo-swap'' then LZO_SWAP
      else if m = ''lzo-stub'' then LZO_STUB
      else if m = ''snappy'' then SNAPPY
      else if m = ''stub'' then COMP_STUB
      else NONE)"

definition comp_stub :: "comp_type \<Rightarrow> comp_type" where
  "comp_stub t = (case t of COMP_STUBv2 \<Rightarrow> COMP_STUBv2 | LZ4v2 \<Rightarrow> COMP_STUBv2 | _ \<Rightarrow> COMP_STUB)"

definition is_any_stub :: "comp_type \<Rightarrow> bool" where
  "is_any_stub t = (case t of LZO_STUB \<Rightarrow> True | COMP_STUB \<Rightarrow> True | COMP_STUBv2 \<Rightarrow> True | _ \<Rightarrow> False)"


section \<open>Framing\<close>

abbreviation (input) NO_COMPRESS :: byte where "NO_COMPRESS \<equiv> 0xFA"
abbreviation (input) NO_COMPRESS_SWAP :: byte where "NO_COMPRESS_SWAP \<equiv> 0xFB"
abbreviation (input) COMPRESS_V2_ESCAPE :: byte where "COMPRESS_V2_ESCAPE \<equiv> 0x50"
abbreviation (input) OVPN_COMPv2_NONE :: byte where "OVPN_COMPv2_NONE \<equiv> 0"
abbreviation (input) OVPN_COMPv2_LZ4 :: byte where "OVPN_COMPv2_LZ4 \<equiv> 1"
abbreviation (input) LZO_COMPRESS :: byte where "LZO_COMPRESS \<equiv> 0x66"
abbreviation (input) LZO_COMPRESS_SWAP :: byte where "LZO_COMPRESS_SWAP \<equiv> 0x67"
abbreviation (input) LZ4_COMPRESS :: byte where "LZ4_COMPRESS \<equiv> 0x69"
abbreviation (input) COMPRESS_WORK :: nat where "COMPRESS_WORK \<equiv> 2"
abbreviation (input) DECOMPRESS_WORK :: nat where "DECOMPRESS_WORK \<equiv> 3"

text \<open>
  \<open>lz4_compress src dst_capacity\<close> is empty when the library returns 0; the two decompressors get
  the room for the result and return \<open>None\<close> on an error code.
\<close>

record comp_env =
  ce_frame :: frame
  ce_junk :: "nat \<Rightarrow> byte"
  ce_addr :: nat
  lz4_compress :: "byte list \<Rightarrow> nat \<Rightarrow> byte list"
  lz4_decompress :: "byte list \<Rightarrow> nat \<Rightarrow> byte list option"
  lzo_decompress :: "byte list \<Rightarrow> nat \<Rightarrow> byte list option"

record comp_state =
  cm_work :: buf
  cm_stats :: "error_type list"

definition comp_error :: "buf \<Rightarrow> comp_state \<Rightarrow> buf \<times> comp_state" where
  "comp_error b st = (buf_reset_size b, st\<lparr>cm_stats := cm_stats st @ [COMPRESS_ERROR]\<rparr>)"

definition do_swap :: "(nat \<Rightarrow> byte) \<Rightarrow> byte \<Rightarrow> buf \<Rightarrow> buf res" where
  "do_swap junk op b =
     (if b_size b \<noteq> 0
      then bindE (buf_index 0 b) (\<lambda>x. bindE (buf_push_back junk x b) (buf_store 0 op))
      else buf_push_back junk op b)"

definition do_unswap :: "buf \<Rightarrow> buf res" where
  "do_unswap b =
     (if b_size b \<ge> 2 then bindE (buf_pop_back b) (\<lambda>(first, b). buf_push_front first b) else Inr b)"

definition v2_push :: "byte \<Rightarrow> buf \<Rightarrow> buf res" where
  "v2_push value b =
     bindE (buf_index 0 b) (\<lambda>uc.
       if value = 0 \<and> uc \<noteq> COMPRESS_V2_ESCAPE then Inr b
       else bindE (buf_prepend_alloc 2 b) (\<lambda>b.
            Inr (b\<lparr>b_mem := blit (b_offset b) [COMPRESS_V2_ESCAPE, value] (b_mem b)\<rparr>)))"

definition v2_pull :: "buf \<Rightarrow> (byte \<times> buf) res" where
  "v2_pull b =
     bindE (buf_index 0 b) (\<lambda>uc.
       if uc \<noteq> COMPRESS_V2_ESCAPE then Inr (0, b)
       else bindE (buf_index 1 b) (\<lambda>uc. bindE (buf_advance 2 b) (\<lambda>b. Inr (uc, b))))"

text \<open>The library has written \<open>out\<close> to the work buffer; the work buffer and the packet change places.\<close>

definition swap_in_work :: "byte list \<Rightarrow> buf \<Rightarrow> buf \<Rightarrow> comp_state \<Rightarrow> buf res \<times> comp_state" where
  "swap_in_work out work b st =
     (case buf_set_size (length out) (work\<lparr>b_mem := blit (b_offset work) out (b_mem work)\<rparr>) of
        Inl e \<Rightarrow> (Inl e, st\<lparr>cm_work := work\<rparr>)
      | Inr work \<Rightarrow> (Inr work, st\<lparr>cm_work := b\<rparr>))"

definition lzo_decompress_work :: "comp_env \<Rightarrow> buf \<Rightarrow> comp_state \<Rightarrow> buf res \<times> comp_state" where
  "lzo_decompress_work env b st =
     (case frame_prepare (ce_junk env) (ce_addr env) DECOMPRESS_WORK (cm_work st) (ce_frame env) of
        Inl e \<Rightarrow> (Inl e, st)
      | Inr (zlen, work) \<Rightarrow>
          (case lzo_decompress env (contents b) zlen of
             None \<Rightarrow> (let (b, st) = comp_error b (st\<lparr>cm_work := work\<rparr>) in (Inr b, st))
           | Some out \<Rightarrow> swap_in_work out work b st))"

definition lz4_do_decompress :: "comp_env \<Rightarrow> buf \<Rightarrow> comp_state \<Rightarrow> buf res \<times> comp_state" where
  "lz4_do_decompress env b st =
     (case frame_prepare (ce_junk env) (ce_addr env) DECOMPRESS_WORK (cm_work st) (ce_frame env) of
        Inl e \<Rightarrow> (Inl e, st)
      | Inr (payload_size, work) \<Rightarrow>
          (case lz4_decompress env (contents b) payload_size of
             None \<Rightarrow> (let (b, st) = comp_error b (st\<lparr>cm_work := work\<rparr>) in (Inr b, st))
           | Some out \<Rightarrow> swap_in_work out work b st))"

definition lz4_extra_buffer :: "nat \<Rightarrow> nat" where
  "lz4_extra_buffer len = (if len < 65535 then len + len div 256 + 17 else len + len div 255 + 16)"

definition lz4_do_compress :: "comp_env \<Rightarrow> buf \<Rightarrow> comp_state \<Rightarrow> (bool \<times> buf) res \<times> comp_state" where
  "lz4_do_compress env b st =
     (case frame_prepare (ce_junk env) (ce_addr env) COMPRESS_WORK (cm_work st) (ce_frame env) of
        Inl e \<Rightarrow> (Inl e, st)
      | Inr (_, work) \<Rightarrow>
          (if lz4_extra_buffer (b_size b) > buf_max_size work
           then (let (b, st) = comp_error b (st\<lparr>cm_work := work\<rparr>) in (Inr (False, b), st))
           else (let out = lz4_compress env (contents b) (b_capacity work)
                 in if length out < b_size b
                    then (if length out \<le> 0
                          then (let (b, st) = comp_error b (st\<lparr>cm_work := work\<rparr>) in (Inr (False, b), st))
                          else (case swap_in_work out work b st of
                                  (Inl e, st) \<Rightarrow> (Inl e, st)
                                | (Inr b, st) \<Rightarrow> (Inr (True, b), st)))
                    else (Inr (False, b), st\<lparr>cm_work := work\<lparr>b_mem := blit (b_offset work) out (b_mem work)\<rparr>\<rparr>))))"


section \<open>The compressors\<close>

definition comp_compress :: "comp_env \<Rightarrow> compressor \<Rightarrow> bool \<Rightarrow> buf \<Rightarrow> comp_state \<Rightarrow> buf res \<times> comp_state" where
  "comp_compress env c hint b st =
     (case c of
        CompressNull \<Rightarrow> (Inr b, st)
      | CompressStub support_swap \<Rightarrow>
          (if b_size b = 0 then Inr b
           else if support_swap then do_swap (ce_junk env) NO_COMPRESS_SWAP b
           else buf_push_front NO_COMPRESS b, st)
      | CompressStubV2 \<Rightarrow> (if b_size b = 0 then Inr b else v2_push OVPN_COMPv2_NONE b, st)
      | CompressLZO support_swap \<Rightarrow>
          (if b_size b = 0 then Inr b
           else if support_swap then do_swap (ce_junk env) NO_COMPRESS_SWAP b
           else buf_push_front NO_COMPRESS b, st)
      | CompressLZ4 asymm \<Rightarrow>
          (if b_size b = 0 then (Inr b, st)
           else if hint \<and> \<not> asymm
           then (case lz4_do_compress env b st of
                   (Inl e, st) \<Rightarrow> (Inl e, st)
                 | (Inr (True, b), st) \<Rightarrow> (do_swap (ce_junk env) LZ4_COMPRESS b, st)
                 | (Inr (False, b), st) \<Rightarrow> (do_swap (ce_junk env) NO_COMPRESS_SWAP b, st))
           else (do_swap (ce_junk env) NO_COMPRESS_SWAP b, st))
      | CompressLZ4v2 asymm \<Rightarrow>
          (if b_size b = 0 then (Inr b, st)
           else if hint \<and> \<not> asymm
           then (case lz4_do_compress env b st of
                   (Inl e, st) \<Rightarrow> (Inl e, st)
                 | (Inr (True, b), st) \<Rightarrow> (v2_push OVPN_COMPv2_LZ4 b, st)
                 | (Inr (False, b), st) \<Rightarrow> (v2_push OVPN_COMPv2_NONE b, st))
           else (v2_push OVPN_COMPv2_NONE b, st)))"

text \<open>What the decompressors of version 1 do with the byte they take off the front.\<close>

definition decompress_v1 ::
  "(byte \<Rightarrow> buf \<Rightarrow> comp_state \<Rightarrow> buf res \<times> comp_state) \<Rightarrow> buf \<Rightarrow> comp_state \<Rightarrow> buf res \<times> comp_state" where
  "decompress_v1 f b st =
     (if b_size b = 0 then (Inr b, st)
      else (case buf_pop_front b of Inl e \<Rightarrow> (Inl e, st) | Inr (c, b) \<Rightarrow> f c b st))"

definition decompress_v2 ::
  "(byte \<Rightarrow> buf \<Rightarrow> comp_state \<Rightarrow> buf res \<times> comp_state) \<Rightarrow> buf \<Rightarrow> comp_state \<Rightarrow> buf res \<times> comp_state" where
  "decompress_v2 f b st =
     (if b_size b = 0 then (Inr b, st)
      else (case v2_pull b of Inl e \<Rightarrow> (Inl e, st) | Inr (c, b) \<Rightarrow> f c b st))"

definition unswap_then ::
  "(buf \<Rightarrow> comp_state \<Rightarrow> buf res \<times> comp_state) \<Rightarrow> buf \<Rightarrow> comp_state \<Rightarrow> buf res \<times> comp_state" where
  "unswap_then f b st = (case do_unswap b of Inl e \<Rightarrow> (Inl e, st) | Inr b \<Rightarrow> f b st)"

definition comp_fail :: "buf \<Rightarrow> comp_state \<Rightarrow> buf res \<times> comp_state" where
  "comp_fail b st = (let (b, st) = comp_error b st in (Inr b, st))"

definition stub_op :: "comp_env \<Rightarrow> byte \<Rightarrow> buf \<Rightarrow> comp_state \<Rightarrow> buf res \<times> comp_state" where
  "stub_op env c b st =
     (if c = NO_COMPRESS_SWAP then (do_unswap b, st)
      else if c = NO_COMPRESS then (Inr b, st)
      else if c = LZO_COMPRESS then lzo_decompress_work env b st
      else comp_fail b st)"

definition lzo_op :: "comp_env \<Rightarrow> byte \<Rightarrow> buf \<Rightarrow> comp_state \<Rightarrow> buf res \<times> comp_state" where
  "lzo_op env c b st =
     (if c = NO_COMPRESS_SWAP then (do_unswap b, st)
      else if c = NO_COMPRESS then (Inr b, st)
      else if c = LZO_COMPRESS_SWAP then unswap_then (lzo_decompress_work env) b st
      else if c = LZO_COMPRESS then lzo_decompress_work env b st
      else comp_fail b st)"

definition lz4_op :: "comp_env \<Rightarrow> byte \<Rightarrow> buf \<Rightarrow> comp_state \<Rightarrow> buf res \<times> comp_state" where
  "lz4_op env c b st =
     (if c = NO_COMPRESS_SWAP then (do_unswap b, st)
      else if c = LZ4_COMPRESS then unswap_then (lz4_do_decompress env) b st
      else comp_fail b st)"

definition stub_v2_op :: "byte \<Rightarrow> buf \<Rightarrow> comp_state \<Rightarrow> buf res \<times> comp_state" where
  "stub_v2_op cop b st = (if cop \<noteq> 0 then comp_fail b st else (Inr b, st))"

definition lz4_v2_op :: "comp_env \<Rightarrow> byte \<Rightarrow> buf \<Rightarrow> comp_state \<Rightarrow> buf res \<times> comp_state" where
  "lz4_v2_op env c b st =
     (if c = OVPN_COMPv2_NONE then (Inr b, st)
      else if c = OVPN_COMPv2_LZ4 then lz4_do_decompress env b st
      else comp_fail b st)"

definition comp_decompress :: "comp_env \<Rightarrow> compressor \<Rightarrow> buf \<Rightarrow> comp_state \<Rightarrow> buf res \<times> comp_state" where
  "comp_decompress env c b st =
     (case c of
        CompressNull \<Rightarrow> (Inr b, st)
      | CompressStub _ \<Rightarrow> decompress_v1 (stub_op env) b st
      | CompressStubV2 \<Rightarrow> decompress_v2 stub_v2_op b st
      | CompressLZO _ \<Rightarrow> decompress_v1 (lzo_op env) b st
      | CompressLZ4 _ \<Rightarrow> decompress_v1 (lz4_op env) b st
      | CompressLZ4v2 _ \<Rightarrow> decompress_v2 (lz4_v2_op env) b st)"

section \<open>The framing is undone at the other end\<close>

lemma index_front:
  assumes "buf_wf b" "contents b = x # xs"
  shows "buf_index 0 b = Inr x"
  using length_contents [OF assms(1)] contents_nth [OF assms(1), of 0] assms(2) by (auto simp: buf_index_def)

lemma push_back_Inr:
  assumes "buf_push_back junk x b = Inr b'" "buf_wf b" "b_offset b + b_size b + 1 < size_t_limit"
  shows "buf_wf b' \<and> contents b' = contents b @ [x] \<and> b_offset b' = b_offset b"
  using write_Inr [of junk "[x]" b b'] assms by (simp add: push_back_write)

lemma store_front:
  assumes "buf_store 0 y b = Inr b'" "buf_wf b" "contents b = x # xs"
  shows "buf_wf b' \<and> contents b' = y # xs \<and> b_offset b' = b_offset b"
proof -
  from assms(1) have b': "b' = b\<lparr>b_mem := (b_mem b)[b_offset b := y]\<rparr>" and s: "0 < b_size b"
    by (auto simp: buf_store_def split: if_splits)
  have "b_offset b < length (b_mem b)" using assms(2) s by (auto simp: buf_wf_def)
  then have "drop (b_offset b) ((b_mem b)[b_offset b := y]) = y # drop (Suc (b_offset b)) (b_mem b)"
    by (simp add: upd_conv_take_nth_drop)
  moreover have "drop (b_offset b) (b_mem b) = b_mem b ! b_offset b # drop (Suc (b_offset b)) (b_mem b)"
    using \<open>b_offset b < length (b_mem b)\<close> by (simp add: Cons_nth_drop_Suc)
  ultimately show ?thesis using assms(2,3) s by (cases "b_size b") (auto simp: b' buf_wf_def contents_def)
qed

lemma pop_back_contents:
  assumes "buf_wf b" "contents b = xs @ [y]"
  shows "\<exists>b'. buf_pop_back b = Inr (y, b') \<and> buf_wf b' \<and> contents b' = xs \<and> b_offset b' = b_offset b"
proof -
  have s: "b_size b = Suc (length xs)" using length_contents [OF assms(1)] assms(2) by simp
  have y: "b_mem b ! (b_offset b + length xs) = y" using contents_nth [OF assms(1), of "length xs"] assms(2) s by simp
  have "take (length xs) (contents b) = xs" using assms(2) by simp
  then have "take (length xs) (drop (b_offset b) (b_mem b)) = xs" using s by (simp add: contents_def)
  then show ?thesis using assms(1) s y by (auto simp: buf_pop_back_def buf_wf_def contents_def)
qed

lemma push_front_contents:
  assumes "buf_wf b" "0 < b_offset b"
  shows "\<exists>b'. buf_push_front x b = Inr b' \<and> buf_wf b' \<and> contents b' = x # contents b"
proof -
  obtain b' where p: "buf_prepend [x] b = Inr b'" using bufq.prepend_ok [OF assms(1), of "[x]"] assms(2) by (auto simp: ok_def)
  then show ?thesis using bufq.prepend_view [OF assms(1) p] assms(2) by (auto simp: push_front_prepend)
qed

lemma pop_front_contents:
  assumes "buf_wf b" "contents b = x # xs"
  shows "\<exists>b'. buf_pop_front b = Inr (x, b') \<and> buf_wf b' \<and> contents b' = xs \<and> b_offset b' = Suc (b_offset b)"
proof -
  have s: "b_size b = Suc (length xs)" using length_contents [OF assms(1)] assms(2) by simp
  then obtain y b' where p: "buf_pop_front b = Inr (y, b')" by (simp add: buf_pop_front_def)
  from pop_front_Inr [OF p assms(1)] assms(2) have "buf_wf b'" "y = x" "contents b' = xs" by auto
  then show ?thesis using p by (auto simp: buf_pop_front_def split: if_splits)
qed

lemma do_swap_Inr:
  assumes "do_swap junk op b = Inr b'" "buf_wf b" "b_offset b + b_size b + 1 < size_t_limit"
  shows "buf_wf b' \<and> contents b' = op # (case contents b of [] \<Rightarrow> [] | x # xs \<Rightarrow> xs @ [x])"
proof (cases "contents b")
  case Nil
  then have "b_size b = 0" using length_contents [OF assms(2)] by simp
  then have "buf_push_back junk op b = Inr b'" using assms(1) by (simp add: do_swap_def)
  from push_back_Inr [OF this assms(2,3)] show ?thesis using Nil by simp
next
  case (Cons x xs)
  then have "b_size b \<noteq> 0" using length_contents [OF assms(2)] by auto
  with assms(1) index_front [OF assms(2) Cons] obtain b1 where p: "buf_push_back junk x b = Inr b1" "buf_store 0 op b1 = Inr b'"
    by (auto simp: do_swap_def bindE_Inr_iff)
  from push_back_Inr [OF p(1) assms(2,3)] have b1: "buf_wf b1" "contents b1 = x # xs @ [x]" using Cons by auto
  show ?thesis using store_front [OF p(2) b1] Cons by simp
qed

lemma do_unswap_rotated:
  assumes "buf_wf b" "contents b = (case c of [] \<Rightarrow> [] | x # xs \<Rightarrow> xs @ [x])" "0 < b_offset b"
  shows "\<exists>b'. do_unswap b = Inr b' \<and> buf_wf b' \<and> contents b' = c"
proof -
  have s: "b_size b = length c" using length_contents [OF assms(1)] assms(2) by (simp split: list.splits)
  show ?thesis
  proof (cases "2 \<le> length c")
    case True
    then obtain x xs where c: "c = x # xs" by (cases c) auto
    obtain b1 where 1: "buf_pop_back b = Inr (x, b1)" "buf_wf b1" "contents b1 = xs" "b_offset b1 = b_offset b"
      using pop_back_contents [OF assms(1), of xs x] assms(2) c by auto
    then show ?thesis using push_front_contents [of b1 x] assms(3) True s c by (auto simp: do_unswap_def)
  next
    case False
    then have "contents b = c" using assms(2) by (cases c; cases "tl c") auto
    then show ?thesis using False s assms(1) by (simp add: do_unswap_def)
  qed
qed

lemma v2_push_Inr:
  assumes "v2_push v b = Inr b'" "buf_wf b" "contents b = x # xs"
  shows "buf_wf b' \<and> contents b' = (if v = 0 \<and> x \<noteq> COMPRESS_V2_ESCAPE then [] else [COMPRESS_V2_ESCAPE, v]) @ contents b"
proof (cases "v = 0 \<and> x \<noteq> COMPRESS_V2_ESCAPE")
  case True
  then show ?thesis using assms index_front [OF assms(2,3)] by (simp add: v2_push_def)
next
  case False
  then have "buf_prepend [COMPRESS_V2_ESCAPE, v] b = Inr b'"
    using assms(1) index_front [OF assms(2,3)]
    by (simp only: v2_push_def bindE_simps buf_prepend_def list.size numeral_2_eq_2 if_False) simp
  from bufq.prepend_view [OF assms(2) this] show ?thesis using False by simp
qed

lemma v2_pull_pushed:
  assumes "buf_wf b" "contents b = (if v = 0 \<and> x \<noteq> COMPRESS_V2_ESCAPE then [] else [COMPRESS_V2_ESCAPE, v]) @ x # xs"
  shows "\<exists>b'. v2_pull b = Inr (v, b') \<and> buf_wf b' \<and> contents b' = x # xs"
proof (cases "v = 0 \<and> x \<noteq> COMPRESS_V2_ESCAPE")
  case True
  then show ?thesis using assms index_front [OF assms(1), of x xs] by (simp add: v2_pull_def)
next
  case False
  then have c: "contents b = COMPRESS_V2_ESCAPE # v # x # xs" using assms(2) by (auto split: if_splits)
  have s: "2 \<le> b_size b" using length_contents [OF assms(1)] c by simp
  have "buf_index 1 b = Inr v" using contents_nth [OF assms(1), of 1] c s by (simp add: buf_index_def)
  moreover obtain b' where a: "buf_advance 2 b = Inr b'" using s by (simp add: buf_advance_def)
  moreover have "buf_wf b' \<and> contents b' = x # xs" using advance_Inr [OF a assms(1)] c by simp
  ultimately show ?thesis using index_front [OF assms(1) c] by (simp add: v2_pull_def)
qed

text \<open>The vendored LZ4: what it compresses it decompresses, when there is room for the result.\<close>

definition lz4_inverse :: "comp_env \<Rightarrow> bool" where
  "lz4_inverse env \<longleftrightarrow> (\<forall>x cap n. lz4_compress env x cap \<noteq> [] \<longrightarrow> length x \<le> n
     \<longrightarrow> lz4_decompress env (lz4_compress env x cap) n = Some x)"

definition comp_frame_ok :: "comp_env \<Rightarrow> bool" where
  "comp_frame_ok env \<longleftrightarrow> length (ce_frame env) = N_ALIGN_CONTEXTS
     \<and> (\<forall>c \<in> set (ce_frame env). ctx_ok c \<and> fc_adj_capacity c < 9223372036854775808)"

definition work_ok :: "comp_state \<Rightarrow> bool" where
  "work_ok st \<longleftrightarrow> buf_wf (cm_work st) \<and> b_owned (cm_work st)"

lemma prepare_work:
  assumes "comp_frame_ok env" "work_ok st" "i < N_ALIGN_CONTEXTS"
  shows "\<exists>w. frame_prepare (ce_junk env) (ce_addr env) i (cm_work st) (ce_frame env) = Inr (fc_payload (ce_frame env ! i), w)
    \<and> buf_wf w \<and> b_owned w \<and> fc_payload (ce_frame env ! i) \<le> buf_max_size w \<and> b_offset w < 9223372036854775808"
proof -
  let ?c = "ce_frame env ! i"
  have c: "ctx_ok ?c" "fc_adj_capacity ?c < 9223372036854775808" using assms(1,3) by (auto simp: comp_frame_ok_def)
  obtain w where w: "ctx_prepare (ce_junk env) (ce_addr env) ?c (cm_work st) = Inr (fc_payload ?c, w)" "buf_wf w"
    "b_offset w = actual_headroom (ce_addr env) ?c" "fc_adj_capacity ?c \<le> b_capacity w" "b_owned w"
    using ctx_prepare_ok [OF c(1)] assms(2) unfolding work_ok_def by blast
  have "actual_headroom (ce_addr env) ?c < fc_headroom ?c + fc_align_block ?c" using c(1) by (rule actual_headroom_ok)
  moreover have "fc_headroom ?c + fc_align_block ?c + fc_payload ?c \<le> fc_adj_capacity ?c" using c(1) by (simp add: ctx_ok_def)
  ultimately show ?thesis using w c(2) assms(3) by (auto simp: frame_prepare_def frame_index_def)
qed

lemma swap_in_work_contents:
  assumes "buf_wf w" "length out \<le> buf_max_size w"
  shows "\<exists>b'. swap_in_work out w b st = (Inr b', st\<lparr>cm_work := b\<rparr>) \<and> buf_wf b' \<and> contents b' = out \<and> b_offset b' = b_offset w"
proof -
  let ?w = "w\<lparr>b_mem := blit (b_offset w) out (b_mem w)\<rparr>"
  have fit: "b_offset w + length out \<le> length (b_mem w)" using assms by (auto simp: buf_wf_def)
  have m: "buf_max_size ?w = buf_max_size w" by (simp add: buf_max_size_def)
  have "contents (?w\<lparr>b_size := length out\<rparr>) = out"
    using fit by (simp add: contents_def blit_def min_def)
  then show ?thesis using assms fit m by (auto simp: swap_in_work_def buf_set_size_def buf_wf_def)
qed

lemma lz4_decompress_contents:
  assumes "comp_frame_ok env" "work_ok st" "lz4_decompress env (contents b) (fc_payload (ce_frame env ! DECOMPRESS_WORK)) = Some x"
    "length x \<le> fc_payload (ce_frame env ! DECOMPRESS_WORK)"
  shows "\<exists>b' st'. lz4_do_decompress env b st = (Inr b', st') \<and> buf_wf b' \<and> contents b' = x \<and> cm_stats st' = cm_stats st"
proof -
  obtain w where w: "frame_prepare (ce_junk env) (ce_addr env) DECOMPRESS_WORK (cm_work st) (ce_frame env)
      = Inr (fc_payload (ce_frame env ! DECOMPRESS_WORK), w)" "buf_wf w"
    "fc_payload (ce_frame env ! DECOMPRESS_WORK) \<le> buf_max_size w"
    using prepare_work [OF assms(1,2), of DECOMPRESS_WORK] by auto
  obtain b' where "swap_in_work x w b st = (Inr b', st\<lparr>cm_work := b\<rparr>)" "buf_wf b'" "contents b' = x"
    using swap_in_work_contents [OF w(2), of x b st] assms(4) w(3) by auto
  then show ?thesis using w(1) assms(3) by (simp add: lz4_do_decompress_def)
qed

text \<open>Compression without an error leaves the packet, or puts its compressed form in its place.\<close>

lemma lz4_compress_cases:
  assumes "lz4_do_compress env b st = (Inr (r, b'), st')" "comp_frame_ok env" "work_ok st" "cm_stats st' = cm_stats st"
    "b_size b < 9223372036854775808"
  shows "if r then buf_wf b' \<and> contents b' \<noteq> [] \<and> (\<exists>cap. contents b' = lz4_compress env (contents b) cap)
      \<and> b_offset b' + b_size b' + 1 < size_t_limit else b' = b"
proof -
  obtain w where w: "frame_prepare (ce_junk env) (ce_addr env) COMPRESS_WORK (cm_work st) (ce_frame env)
      = Inr (fc_payload (ce_frame env ! COMPRESS_WORK), w)" "buf_wf w" "b_offset w < 9223372036854775808"
    using prepare_work [OF assms(2,3), of COMPRESS_WORK] by auto
  let ?out = "lz4_compress env (contents b) (b_capacity w)"
  have max: "\<not> lz4_extra_buffer (b_size b) > buf_max_size w"
    using assms(1,4) w(1) by (auto simp: lz4_do_compress_def comp_error_def split: if_splits)
  show ?thesis
  proof (cases "length ?out < b_size b")
    case True
    then have ne: "length ?out > 0"
      using assms(1,4) w(1) max by (auto simp: lz4_do_compress_def comp_error_def split: if_splits)
    have fit: "length ?out \<le> buf_max_size w" using True max by (auto simp: lz4_extra_buffer_def split: if_splits)
    obtain b1 where b1: "swap_in_work ?out w b st = (Inr b1, st\<lparr>cm_work := b\<rparr>)" "buf_wf b1" "contents b1 = ?out" "b_offset b1 = b_offset w"
      using swap_in_work_contents [OF w(2) fit] by blast
    have "r \<and> b' = b1" using assms(1) w(1) max True ne b1 by (auto simp: lz4_do_compress_def Let_def split: if_splits)
    moreover have "b_size b1 = length ?out" using length_contents [OF b1(2)] b1(3) by simp
    ultimately show ?thesis using b1 ne True w(3) assms(5) by auto
  next
    case False
    then show ?thesis using assms(1) w(1) max by (auto simp: lz4_do_compress_def Let_def)
  qed
qed

lemma decompress_v1_rotated:
  assumes "buf_wf b1" "contents b1 = op # (case c of [] \<Rightarrow> [] | x # xs \<Rightarrow> xs @ [x])"
  shows "\<exists>b2. decompress_v1 f b1 st = f op b2 st \<and> (\<exists>b3. do_unswap b2 = Inr b3 \<and> buf_wf b3 \<and> contents b3 = c)"
proof -
  obtain b2 where p: "buf_pop_front b1 = Inr (op, b2)" "buf_wf b2" "contents b2 = (case c of [] \<Rightarrow> [] | x # xs \<Rightarrow> xs @ [x])" "0 < b_offset b2"
    using pop_front_contents [OF assms] by auto
  have "b_size b1 \<noteq> 0" using length_contents [OF assms(1)] assms(2) by auto
  then show ?thesis using p do_unswap_rotated [OF p(2-4)] by (auto simp: decompress_v1_def)
qed

lemma decompress_v1_plain:
  assumes "buf_wf b1" "contents b1 = op # xs"
  shows "\<exists>b2. decompress_v1 f b1 st = f op b2 st \<and> buf_wf b2 \<and> contents b2 = xs"
proof -
  have "b_size b1 \<noteq> 0" using length_contents [OF assms(1)] assms(2) by auto
  then show ?thesis using pop_front_contents [OF assms] by (auto simp: decompress_v1_def)
qed

lemma decompress_v2_pushed:
  assumes "v2_push v b = Inr b1" "buf_wf b" "contents b = x # xs" "buf_wf r1" "contents r1 = contents b1"
  shows "\<exists>b2. decompress_v2 f r1 st = f v b2 st \<and> buf_wf b2 \<and> contents b2 = x # xs"
proof -
  note p = v2_push_Inr [OF assms(1-3)]
  obtain b2 where "v2_pull r1 = Inr (v, b2)" "buf_wf b2" "contents b2 = x # xs"
    using v2_pull_pushed [of r1 v x xs] p assms(3-5) by auto
  moreover have "b_size r1 \<noteq> 0" using length_contents [of r1] p assms(3-5) by auto
  ultimately show ?thesis by (auto simp: decompress_v2_def)
qed

lemma lz4_decompress_inverse:
  assumes "lz4_inverse env" "comp_frame_ok env" "work_ok st" "contents b = lz4_compress env x cap" "contents b \<noteq> []"
    "length x \<le> fc_payload (ce_frame env ! DECOMPRESS_WORK)"
  shows "\<exists>b' st'. lz4_do_decompress env b st = (Inr b', st') \<and> buf_wf b' \<and> contents b' = x \<and> cm_stats st' = cm_stats st"
proof -
  have "lz4_decompress env (contents b) (fc_payload (ce_frame env ! DECOMPRESS_WORK)) = Some x"
    using assms(1,4,5,6) by (simp add: lz4_inverse_def)
  from lz4_decompress_contents [OF assms(2,3) this assms(6)] show ?thesis .
qed

text \<open>The two framings of a packet that is sent as it is. \<open>r1\<close> is the packet as it arrives, in a buffer of
  its own.\<close>

lemma swapped_uncompressed:
  assumes "do_swap junk NO_COMPRESS_SWAP b = Inr b1" "buf_wf b" "b_offset b + b_size b + 1 < size_t_limit"
    "\<And>b st. f NO_COMPRESS_SWAP b st = (do_unswap b, st)" "buf_wf r1" "contents r1 = contents b1"
  shows "\<exists>b2. decompress_v1 f r1 st = (Inr b2, st) \<and> buf_wf b2 \<and> contents b2 = contents b"
proof -
  note s = do_swap_Inr [OF assms(1-3)]
  obtain b2 b3 where "decompress_v1 f r1 st = f NO_COMPRESS_SWAP b2 st" "do_unswap b2 = Inr b3" "buf_wf b3" "contents b3 = contents b"
    using decompress_v1_rotated [of r1 NO_COMPRESS_SWAP "contents b" f st] s assms(5,6) by force
  then show ?thesis using assms(4) by simp
qed

lemma prefixed_uncompressed:
  assumes "buf_push_front NO_COMPRESS b = Inr b1" "buf_wf b" "\<And>b st. f NO_COMPRESS b st = (Inr b, st)"
    "buf_wf r1" "contents r1 = contents b1"
  shows "\<exists>b2. decompress_v1 f r1 st = (Inr b2, st) \<and> buf_wf b2 \<and> contents b2 = contents b"
proof -
  have "buf_prepend [NO_COMPRESS] b = Inr b1" using assms(1) by (simp add: push_front_prepend split: if_splits)
  from bufq.prepend_view [OF assms(2) this] have "buf_wf b1" "contents b1 = NO_COMPRESS # contents b" by auto
  then obtain b2 where "decompress_v1 f r1 st = f NO_COMPRESS b2 st" "buf_wf b2" "contents b2 = contents b"
    using decompress_v1_plain [of r1 NO_COMPRESS "contents b" f st] assms(4,5) by auto
  then show ?thesis using assms(3) by simp
qed

lemma escaped_uncompressed:
  assumes "v2_push OVPN_COMPv2_NONE b = Inr b1" "buf_wf b" "b_size b \<noteq> 0" "\<And>b st. f OVPN_COMPv2_NONE b st = (Inr b, st)"
    "buf_wf r1" "contents r1 = contents b1"
  shows "\<exists>b2. decompress_v2 f r1 st = (Inr b2, st) \<and> buf_wf b2 \<and> contents b2 = contents b"
proof -
  obtain x xs where c: "contents b = x # xs" using assms(3) length_contents [OF assms(2)] by (cases "contents b") auto
  obtain b2 where "decompress_v2 f r1 st = f OVPN_COMPv2_NONE b2 st" "buf_wf b2" "contents b2 = contents b"
    using decompress_v2_pushed [OF assms(1,2) c assms(5,6), of f st] c by auto
  then show ?thesis using assms(4) by simp
qed

lemma lz4_swapped_compressed:
  assumes "do_swap junk LZ4_COMPRESS b = Inr b1" "buf_wf b" "b_offset b + b_size b + 1 < size_t_limit"
    "contents b = lz4_compress env x cap" "contents b \<noteq> []" "lz4_inverse env" "comp_frame_ok env" "work_ok st"
    "length x \<le> fc_payload (ce_frame env ! DECOMPRESS_WORK)" "buf_wf r1" "contents r1 = contents b1"
  shows "\<exists>b2 st'. decompress_v1 (lz4_op env) r1 st = (Inr b2, st') \<and> buf_wf b2 \<and> contents b2 = x \<and> cm_stats st' = cm_stats st"
proof -
  note s = do_swap_Inr [OF assms(1-3)]
  obtain b2 b3 where b: "decompress_v1 (lz4_op env) r1 st = lz4_op env LZ4_COMPRESS b2 st" "do_unswap b2 = Inr b3" "contents b3 = contents b"
    using decompress_v1_rotated [of r1 LZ4_COMPRESS "contents b" "lz4_op env" st] s assms(10,11) by force
  then show ?thesis using lz4_decompress_inverse [of env st b3 x cap] assms(4-9)
    by (simp add: lz4_op_def unswap_then_def)
qed

lemma lz4_escaped_compressed:
  assumes "v2_push OVPN_COMPv2_LZ4 b = Inr b1" "buf_wf b"
    "contents b = lz4_compress env x cap" "contents b \<noteq> []" "lz4_inverse env" "comp_frame_ok env" "work_ok st"
    "length x \<le> fc_payload (ce_frame env ! DECOMPRESS_WORK)" "buf_wf r1" "contents r1 = contents b1"
  shows "\<exists>b2 st'. decompress_v2 (lz4_v2_op env) r1 st = (Inr b2, st') \<and> buf_wf b2 \<and> contents b2 = x \<and> cm_stats st' = cm_stats st"
proof -
  obtain y ys where c: "contents b = y # ys" using assms(4) by (cases "contents b") auto
  obtain b2 where b: "decompress_v2 (lz4_v2_op env) r1 st = lz4_v2_op env OVPN_COMPv2_LZ4 b2 st" "contents b2 = contents b"
    using decompress_v2_pushed [OF assms(1,2) c assms(9,10), of "lz4_v2_op env" st] c by auto
  then show ?thesis using lz4_decompress_inverse [of env st b2 x cap] assms(3-8)
    by (simp add: lz4_v2_op_def)
qed

lemma comp_ops_uncompressed:
  "stub_op env NO_COMPRESS_SWAP b st = (do_unswap b, st)" "stub_op env NO_COMPRESS b st = (Inr b, st)"
  "lzo_op env NO_COMPRESS_SWAP b st = (do_unswap b, st)" "lzo_op env NO_COMPRESS b st = (Inr b, st)"
  "lz4_op env NO_COMPRESS_SWAP b st = (do_unswap b, st)"
  "stub_v2_op OVPN_COMPv2_NONE b st = (Inr b, st)" "lz4_v2_op env OVPN_COMPv2_NONE b st = (Inr b, st)"
  by (simp_all add: stub_op_def lzo_op_def lz4_op_def stub_v2_op_def lz4_v2_op_def)

lemma decompress_empty:
  assumes "b_size b = 0" shows "comp_decompress env c b st = (Inr b, st)"
  using assms by (cases c) (simp_all add: comp_decompress_def decompress_v1_def decompress_v2_def)

definition packet_ok :: "comp_env \<Rightarrow> buf \<Rightarrow> bool" where
  "packet_ok env b \<longleftrightarrow> buf_wf b \<and> b_size b < 9223372036854775808 \<and> b_offset b + b_size b + 1 < size_t_limit
     \<and> b_size b \<le> fc_payload (ce_frame env ! DECOMPRESS_WORK)"

lemma lz4_roundtrip:
  assumes "lz4_inverse env" "comp_frame_ok env" "work_ok st" "work_ok st2" "packet_ok env b" "b_size b \<noteq> 0"
    "comp_compress env (CompressLZ4 a) hint b st = (Inr b1, st1)" "cm_stats st1 = cm_stats st"
    "buf_wf r1" "contents r1 = contents b1"
  shows "\<exists>b2 st3. decompress_v1 (lz4_op env) r1 st2 = (Inr b2, st3) \<and> buf_wf b2 \<and> contents b2 = contents b \<and> cm_stats st3 = cm_stats st2"
proof -
  have p: "buf_wf b" "b_offset b + b_size b + 1 < size_t_limit" "b_size b < 9223372036854775808"
    "length (contents b) \<le> fc_payload (ce_frame env ! DECOMPRESS_WORK)" using assms(5) length_contents [of b] by (auto simp: packet_ok_def)
  show ?thesis
  proof (cases "hint \<and> \<not> a")
    case True
    then obtain r b' where l: "lz4_do_compress env b st = (Inr (r, b'), st1)"
      and s: "do_swap (ce_junk env) (if r then LZ4_COMPRESS else NO_COMPRESS_SWAP) b' = Inr b1"
      using assms(6,7) by (auto simp: comp_compress_def split: prod.splits sum.splits bool.splits)
    note cs = lz4_compress_cases [OF l assms(2,3,8) p(3)]
    show ?thesis
    proof (cases r)
      case r: True
      then obtain cap where "contents b' = lz4_compress env (contents b) cap" using cs by auto
      with r cs s show ?thesis
        using lz4_swapped_compressed [of "ce_junk env" b' b1 env "contents b" cap st2 r1] assms(1,2,4,9,10) p(4) by auto
    next
      case False
      then show ?thesis using cs s swapped_uncompressed [of "ce_junk env" b b1 "lz4_op env" r1 st2] p assms(9,10) comp_ops_uncompressed by auto
    qed
  next
    case False
    then have "do_swap (ce_junk env) NO_COMPRESS_SWAP b = Inr b1" using assms(6,7) by (auto simp: comp_compress_def split: if_splits)
    from swapped_uncompressed [OF this p(1,2), of "lz4_op env" r1 st2] show ?thesis using assms(9,10) comp_ops_uncompressed by auto
  qed
qed

lemma lz4_v2_roundtrip:
  assumes "lz4_inverse env" "comp_frame_ok env" "work_ok st" "work_ok st2" "packet_ok env b" "b_size b \<noteq> 0"
    "comp_compress env (CompressLZ4v2 a) hint b st = (Inr b1, st1)" "cm_stats st1 = cm_stats st"
    "buf_wf r1" "contents r1 = contents b1"
  shows "\<exists>b2 st3. decompress_v2 (lz4_v2_op env) r1 st2 = (Inr b2, st3) \<and> buf_wf b2 \<and> contents b2 = contents b \<and> cm_stats st3 = cm_stats st2"
proof -
  have p: "buf_wf b" "b_size b < 9223372036854775808"
    "length (contents b) \<le> fc_payload (ce_frame env ! DECOMPRESS_WORK)" using assms(5) length_contents [of b] by (auto simp: packet_ok_def)
  show ?thesis
  proof (cases "hint \<and> \<not> a")
    case True
    then obtain r b' where l: "lz4_do_compress env b st = (Inr (r, b'), st1)"
      and s: "v2_push (if r then OVPN_COMPv2_LZ4 else OVPN_COMPv2_NONE) b' = Inr b1"
      using assms(6,7) by (auto simp: comp_compress_def split: prod.splits sum.splits bool.splits)
    note cs = lz4_compress_cases [OF l assms(2,3,8) p(2)]
    show ?thesis
    proof (cases r)
      case r: True
      then obtain cap where "contents b' = lz4_compress env (contents b) cap" using cs by auto
      with r cs s show ?thesis
        using lz4_escaped_compressed [of b' b1 env "contents b" cap st2 r1] assms(1,2,4,9,10) p(3) by auto
    next
      case False
      then show ?thesis using cs s escaped_uncompressed [of b b1 "lz4_v2_op env" r1 st2] p assms(6,9,10) comp_ops_uncompressed by auto
    qed
  next
    case False
    then have "v2_push OVPN_COMPv2_NONE b = Inr b1" using assms(6,7) by (auto simp: comp_compress_def split: if_splits)
    from escaped_uncompressed [OF this p(1) assms(6), of "lz4_v2_op env" r1 st2] show ?thesis using assms(9,10) comp_ops_uncompressed by auto
  qed
qed

lemma comp_compress_wf:
  assumes "comp_frame_ok env" "work_ok st" "packet_ok env b"
    "comp_compress env c hint b st = (Inr b1, st1)" "cm_stats st1 = cm_stats st"
  shows "buf_wf b1"
proof -
  have p: "buf_wf b" "b_offset b + b_size b + 1 < size_t_limit" "b_size b < 9223372036854775808"
    using assms(3) by (auto simp: packet_ok_def)
  have swap: "buf_wf b1" if "do_swap junk op b' = Inr b1" "buf_wf b'" "b_offset b' + b_size b' + 1 < size_t_limit" for junk op b'
    using do_swap_Inr [OF that] by blast
  have prefix: "buf_wf b1" if "buf_push_front NO_COMPRESS b = Inr b1"
  proof -
    have "buf_prepend [NO_COMPRESS] b = Inr b1" using that by (simp add: push_front_prepend split: if_splits)
    from bufq.prepend_view [OF p(1) this] show ?thesis by simp
  qed
  have escape: "buf_wf b1" if "v2_push v b' = Inr b1" "buf_wf b'" "contents b' \<noteq> []" for v b'
    using that v2_push_Inr [OF that(1,2)] by (cases "contents b'") auto
  have ne: "contents b \<noteq> []" if "b_size b \<noteq> 0" using that length_contents [OF p(1)] by auto
  have lz4: "if r then buf_wf b' \<and> contents b' \<noteq> [] \<and> b_offset b' + b_size b' + 1 < size_t_limit else b' = b"
    if "lz4_do_compress env b st = (Inr (r, b'), st1)" for r b'
    using lz4_compress_cases [OF that assms(1,2,5) p(3)] by (auto split: if_splits)
  show ?thesis
  proof (cases "b_size b = 0")
    case True
    then show ?thesis using assms(4) p(1) by (cases c) (auto simp: comp_compress_def)
  next
    case False
    show ?thesis
    proof (cases c)
      case (CompressLZ4 a)
      then consider r b' where "lz4_do_compress env b st = (Inr (r, b'), st1)"
          "do_swap (ce_junk env) (if r then LZ4_COMPRESS else NO_COMPRESS_SWAP) b' = Inr b1"
        | "do_swap (ce_junk env) NO_COMPRESS_SWAP b = Inr b1"
        using assms(4) False by (auto simp: comp_compress_def split: prod.splits sum.splits bool.splits if_splits)
      then show ?thesis
      proof cases
        case 1
        then show ?thesis using lz4 [OF 1(1)] swap [OF 1(2)] p by (cases r) auto
      next
        case 2
        from swap [OF this p(1,2)] show ?thesis .
      qed
    next
      case (CompressLZ4v2 a)
      then consider r b' where "lz4_do_compress env b st = (Inr (r, b'), st1)"
          "v2_push (if r then OVPN_COMPv2_LZ4 else OVPN_COMPv2_NONE) b' = Inr b1"
        | "v2_push OVPN_COMPv2_NONE b = Inr b1"
        using assms(4) False by (auto simp: comp_compress_def split: prod.splits sum.splits bool.splits if_splits)
      then show ?thesis
      proof cases
        case 1
        then show ?thesis using lz4 [OF 1(1)] escape [OF 1(2)] p ne [OF False] by (cases r) auto
      next
        case 2
        from escape [OF this p(1) ne [OF False]] show ?thesis .
      qed
    qed (use assms(4) False p ne swap prefix escape in \<open>auto simp: comp_compress_def split: if_splits\<close>)
  qed
qed

lemma compress_arrives:
  assumes "lz4_inverse env" "comp_frame_ok env" "work_ok st" "work_ok st2" "packet_ok env b"
    "comp_compress env c hint b st = (Inr b1, st1)" "cm_stats st1 = cm_stats st"
    "buf_wf r1" "contents r1 = contents b1"
  shows "\<exists>b2 st3. comp_decompress env c r1 st2 = (Inr b2, st3) \<and> buf_wf b2 \<and> contents b2 = contents b \<and> cm_stats st3 = cm_stats st2"
proof (cases "b_size b = 0")
  case True
  then have "b1 = b" using assms(6) by (cases c) (auto simp: comp_compress_def)
  moreover have "b_size r1 = b_size b"
    using calculation length_contents [OF assms(8)] length_contents [of b] assms(5,9) by (simp add: packet_ok_def)
  ultimately show ?thesis using decompress_empty [of r1] True assms(8,9) by simp
next
  case False
  have p: "buf_wf b" "b_offset b + b_size b + 1 < size_t_limit" using assms(5) by (auto simp: packet_ok_def)
  show ?thesis
  proof (cases c)
    case (CompressStub s)
    then show ?thesis using assms(6) False swapped_uncompressed [OF _ p, of "ce_junk env" b1 "stub_op env" r1 st2]
        prefixed_uncompressed [OF _ p(1), of b1 "stub_op env" r1 st2] assms(8,9) comp_ops_uncompressed
      by (cases s) (auto simp: comp_compress_def comp_decompress_def)
  next
    case CompressStubV2
    then show ?thesis using assms(6) False escaped_uncompressed [OF _ p(1), of b1 stub_v2_op r1 st2] assms(8,9) comp_ops_uncompressed
      by (auto simp: comp_compress_def comp_decompress_def)
  next
    case (CompressLZO s)
    then show ?thesis using assms(6) False swapped_uncompressed [OF _ p, of "ce_junk env" b1 "lzo_op env" r1 st2]
        prefixed_uncompressed [OF _ p(1), of b1 "lzo_op env" r1 st2] assms(8,9) comp_ops_uncompressed
      by (cases s) (auto simp: comp_compress_def comp_decompress_def)
  next
    case (CompressLZ4 a)
    then show ?thesis using lz4_roundtrip [OF assms(1-5) False _ assms(7,8,9)] assms(6) by (simp add: comp_decompress_def)
  next
    case (CompressLZ4v2 a)
    then show ?thesis using lz4_v2_roundtrip [OF assms(1-5) False _ assms(7,8,9)] assms(6) by (simp add: comp_decompress_def)
  qed (use assms(6,8,9) in \<open>simp add: comp_compress_def comp_decompress_def\<close>)
qed

text \<open>
  C32. Whatever a compressor of the project makes of a packet, without having counted an error, the
  decompressor of the same method turns back into the packet, without counting one: the packet
  sent as it is behind a prefix byte, rotated behind a swapped first byte, escaped by the
  version-2 framing, or compressed by LZ4.
\<close>

theorem compress_roundtrip:
  assumes "lz4_inverse env" "comp_frame_ok env" "work_ok st" "work_ok st2" "packet_ok env b"
    "comp_compress env c hint b st = (Inr b1, st1)" "cm_stats st1 = cm_stats st"
  shows "\<exists>b2 st3. comp_decompress env c b1 st2 = (Inr b2, st3) \<and> contents b2 = contents b \<and> cm_stats st3 = cm_stats st2"
  using compress_arrives [OF assms comp_compress_wf [OF assms(2,3,5,6,7)] refl] by blast

text \<open>A library that only knows how to shorten eight zeros, and a frame of sixteen equal contexts.\<close>

definition zeros_env :: comp_env where
  "zeros_env =
     \<lparr>ce_frame = frame_of_context (make_context 16 64 16 0 1 0), ce_junk = (\<lambda>_. 7), ce_addr = 0,
      lz4_compress = (\<lambda>x cap. if x = replicate 8 0 then [1] else []),
      lz4_decompress = (\<lambda>x n. if x = [1] \<and> 8 \<le> n then Some (replicate 8 0) else None),
      lzo_decompress = (\<lambda>x n. None)\<rparr>"

lemma zeros_env_ok: "lz4_inverse zeros_env" "comp_frame_ok zeros_env"
  by (auto simp: lz4_inverse_def comp_frame_ok_def zeros_env_def frame_of_context_def ctx_ok_def make_context_def
      recalc_derived_def sz_add_def split: if_splits intro: exI [of _ 0])

definition zeros_state :: comp_state where
  "zeros_state = \<lparr>cm_work = buf_alloc (\<lambda>_. 0) 0 0, cm_stats = []\<rparr>"

definition zeros_packet :: buf where
  "zeros_packet = \<lparr>b_mem = replicate 12 0, b_offset = 3, b_size = 8, b_capacity = 12, b_flags = 0, b_owned = True\<rparr>"

lemma zeros_compressed:
  "case comp_compress zeros_env (CompressLZ4 False) True zeros_packet zeros_state of
     (Inr b1, st1) \<Rightarrow> cm_stats st1 = [] \<and> contents b1 = [LZ4_COMPRESS, 1] | _ \<Rightarrow> False"
proof -
  obtain w where w: "frame_prepare (\<lambda>_. 7) 0 COMPRESS_WORK (cm_work zeros_state) (ce_frame zeros_env) = Inr (64, w)"
    "b_offset w = 16" "b_capacity w = 97" "b_owned w" "length (b_mem w) = 97"
    by (auto simp: frame_prepare_def frame_index_def ctx_prepare_def actual_headroom_def zeros_env_def zeros_state_def
        frame_of_context_def make_context_def recalc_derived_def buf_reset_def buf_init_def buf_init_headroom_def
        buf_alloc_def has_flag_def fresh_mem_def sz_add_def)
  have env: "ce_junk zeros_env = (\<lambda>_. 7)" "ce_addr zeros_env = 0" "lz4_compress zeros_env (replicate 8 0) cap = [1]" for cap
    by (simp_all add: zeros_env_def)
  have pk: "b_size zeros_packet = 8" "contents zeros_packet = replicate 8 0" by (simp_all add: zeros_packet_def contents_def)
  let ?b = "w\<lparr>b_mem := blit 16 [1] (b_mem w), b_size := 1\<rparr>"
  have max: "buf_max_size w = 81" "buf_max_size (w\<lparr>b_mem := m\<rparr>) = 81" for m using w by (simp_all add: buf_max_size_def sz_sub_def)
  have "lz4_do_compress zeros_env zeros_packet zeros_state = (Inr (True, ?b), zeros_state\<lparr>cm_work := zeros_packet\<rparr>)"
    using w(1,2) max by (simp add: lz4_do_compress_def env pk lz4_extra_buffer_def swap_in_work_def buf_set_size_def)
  moreover have "buf_remaining 0 ?b = 80" using w by (simp add: buf_remaining_def sz_sub_def sz_add_def)
  then have "\<exists>b1. do_swap (\<lambda>_. 7) LZ4_COMPRESS ?b = Inr b1 \<and> contents b1 = [LZ4_COMPRESS, 1]"
    using w(2-5) by (simp add: do_swap_def buf_index_def buf_push_back_def buf_store_def contents_def blit_def nth_append
        list_update_append)
  ultimately show ?thesis by (auto simp: comp_compress_def env pk zeros_state_def)
qed

theorem compress_roundtrip_witness:
  "\<exists>b1 st1 b2 st3. comp_compress zeros_env (CompressLZ4 False) True zeros_packet zeros_state = (Inr b1, st1)
    \<and> contents b1 = [LZ4_COMPRESS, 1]
    \<and> comp_decompress zeros_env (CompressLZ4 False) b1 zeros_state = (Inr b2, st3)
    \<and> contents b2 = replicate 8 0 \<and> cm_stats st3 = []"
proof -
  obtain b1 st1 where c: "comp_compress zeros_env (CompressLZ4 False) True zeros_packet zeros_state = (Inr b1, st1)"
    "cm_stats st1 = []" "contents b1 = [LZ4_COMPRESS, 1]"
    using zeros_compressed by (auto split: prod.splits sum.splits)
  have s: "work_ok zeros_state" "cm_stats zeros_state = []" by (auto simp: work_ok_def zeros_state_def buf_wf_def buf_alloc_def has_flag_def fresh_mem_def)
  have p: "packet_ok zeros_env zeros_packet" "contents zeros_packet = replicate 8 0"
    by (auto simp: packet_ok_def zeros_packet_def buf_wf_def zeros_env_def frame_of_context_def make_context_def recalc_derived_def contents_def)
  show ?thesis using compress_roundtrip [OF zeros_env_ok s(1) s(1) p(1) c(1)] c(2,3) c(1) s(2) p(2) by auto
qed


section \<open>Bounds and names\<close>

text \<open>
  The work buffer that the LZ4 compressors require is never smaller than the worst case of
  the library (\<open>LZ4_COMPRESSBOUND\<close>), and exceeds it by at most one byte, although one of the two
  branches divides by 256 in place of 255.
\<close>

lemma lz4_extra_buffer_bound:
  "len + len div 255 + 16 \<le> lz4_extra_buffer len \<and> lz4_extra_buffer len \<le> len + len div 255 + 17"
proof (cases "len < 65535")
  case True
  define q where "q = len div 255"
  have l: "255 * q \<le> len" "len < 255 * q + 255" by (auto simp: q_def)
  have q: "q < 257" using l True by linarith
  have "256 * (len div 256) \<le> len" "len < 256 * (len div 256) + 256" by auto
  then have "len div 256 \<le> q" "q \<le> len div 256 + 1" using l q by linarith+
  then show ?thesis using True by (simp add: lz4_extra_buffer_def q_def)
qed (simp add: lz4_extra_buffer_def)

text \<open>The name the method 4v2 is printed with is not one that the parser knows.\<close>

lemma method_names_parsed:
  assumes "method_to_string c = Some m" shows "parse_method m = (if cx_type c = LZ4v2 then NONE else cx_type c)"
  using assms by (cases "cx_type c") (auto simp: method_to_string_def parse_method_def)

end
