(* ===== verification/Key_Events.thy ===== *)
theory Key_Events
  imports Proto_Stack Data_Limit
begin

text \<open>
  The events of a \<open>KeyContext\<close>, \<^verbatim>\<open>ssl/proto.hpp\<close>: the timetable by which a key becomes active,
  becomes primary, is renegotiated and expires, the deadlines of the negotiation, and what the data
  limits do to it. \<open>key_ev\<close> holds the members of \<open>KeyContext\<close> these operations use; it is the state
  of the parent of a protocol stack, whose invalidation they read and set. The current time and the
  settings are arguments.
\<close>

section \<open>State\<close>

abbreviation (input) STATE_UNDEF :: int where "STATE_UNDEF \<equiv> - 1"
abbreviation (input) C_WAIT_RESET_ACK :: int where "C_WAIT_RESET_ACK \<equiv> 0"
abbreviation (input) C_WAIT_AUTH_ACK :: int where "C_WAIT_AUTH_ACK \<equiv> 1"
abbreviation (input) S_WAIT_RESET_ACK :: int where "S_WAIT_RESET_ACK \<equiv> 2"
abbreviation (input) S_WAIT_AUTH_ACK :: int where "S_WAIT_AUTH_ACK \<equiv> 3"
abbreviation (input) LAST_ACK_STATE :: int where "LAST_ACK_STATE \<equiv> 3"
abbreviation (input) C_INITIAL :: int where "C_INITIAL \<equiv> 4"
abbreviation (input) C_WAIT_RESET :: int where "C_WAIT_RESET \<equiv> 5"
abbreviation (input) C_WAIT_AUTH :: int where "C_WAIT_AUTH \<equiv> 6"
abbreviation (input) S_INITIAL :: int where "S_INITIAL \<equiv> 7"
abbreviation (input) S_WAIT_RESET :: int where "S_WAIT_RESET \<equiv> 8"
abbreviation (input) S_WAIT_AUTH :: int where "S_WAIT_AUTH \<equiv> 9"
abbreviation (input) ACTIVE :: int where "ACTIVE \<equiv> 10"

datatype key_event =
    KEV_NONE | KEV_ACTIVE | KEV_NEGOTIATE | KEV_BECOME_PRIMARY | KEV_PRIMARY_PENDING
  | KEV_RENEGOTIATE | KEV_RENEGOTIATE_FORCE | KEV_RENEGOTIATE_QUEUE | KEV_EXPIRE

record key_ev =
  kv_state :: int
  kv_key_id :: u32
  kv_limit_fired :: bool
  kv_construct_time :: vtime
  kv_reached_active :: vtime
  kv_next_time :: vtime
  kv_current :: key_event
  kv_next :: key_event
  kv_data_limit :: "data_limit option"

text \<open>The settings: times of \<open>ProtoContext::Config\<close> and the mode.\<close>

record event_config =
  ec_server :: bool
  ec_handshake_window :: duration
  ec_become_primary :: duration
  ec_renegotiate :: duration
  ec_expire :: duration

type_synonym ('p, 'ssl, 'a) ev_stack = "('p, 'ssl, 'a key_ev_scheme) stack"
type_synonym ('p, 'ssl, 'a) ev_callbacks = "('p, 'ssl, 'a key_ev_scheme) callbacks"

text \<open>The callbacks of a stack whose parent is a key: invalidation clears its timetable.\<close>

definition set_event :: "key_event \<Rightarrow> 'a key_ev_scheme \<Rightarrow> 'a key_ev_scheme" where
  "set_event cur e = e\<lparr>kv_current := cur\<rparr>"

definition set_events ::
  "key_event \<Rightarrow> key_event \<Rightarrow> vtime \<Rightarrow> 'a key_ev_scheme \<Rightarrow> 'a key_ev_scheme" where
  "set_events cur nxt next_time e = e\<lparr>kv_current := cur, kv_next := nxt, kv_next_time := next_time\<rparr>"

definition reset_event :: "'a key_ev_scheme \<Rightarrow> 'a key_ev_scheme" where
  "reset_event e = e\<lparr>kv_current := KEV_NONE\<rparr>"

definition invalidate_callback :: "'a key_ev_scheme \<Rightarrow> 'a key_ev_scheme" where
  "invalidate_callback e =
     e\<lparr>kv_reached_active := time_zero, kv_next := KEV_NONE, kv_next_time := time_infinite\<rparr>"

definition ev_callbacks :: "('p, 'ssl, 'a) ev_callbacks \<Rightarrow> bool" where
  "ev_callbacks cb \<longleftrightarrow> cb_invalidate cb = invalidate_callback"

definition on_ev ::
  "('a key_ev_scheme \<Rightarrow> 'a key_ev_scheme) \<Rightarrow> ('p, 'ssl, 'a) ev_stack \<Rightarrow> ('p, 'ssl, 'a) ev_stack" where
  "on_ev f k = k\<lparr>k_par := f (k_par k)\<rparr>"

definition count_error :: "error_type \<Rightarrow> ('p, 'ssl, 'par) stack \<Rightarrow> ('p, 'ssl, 'par) stack" where
  "count_error reason k = k\<lparr>k_stats := k_stats k @ [reason]\<rparr>"


section \<open>Operations\<close>

definition data_limit_expire :: "event_config \<Rightarrow> vtime \<Rightarrow> vtime" where
  "data_limit_expire c now = time_add now (dur_mult (ec_handshake_window c) 2)"

definition prepare_expire ::
  "event_config \<Rightarrow> vtime \<Rightarrow> key_event \<Rightarrow> 'a key_ev_scheme \<Rightarrow> 'a key_ev_scheme" where
  "prepare_expire c now current_ev e =
     set_events current_ev KEV_EXPIRE
       (if kv_limit_fired e then data_limit_expire c now
        else time_add (kv_construct_time e) (ec_expire c)) e"

definition set_next_event_if_unspecified ::
  "event_config \<Rightarrow> vtime \<Rightarrow> ('p, 'ssl, 'a) ev_stack \<Rightarrow> ('p, 'ssl, 'a) ev_stack" where
  "set_next_event_if_unspecified c now k =
     (if kv_next (k_par k) = KEV_NONE \<and> \<not> k_invalidated k
      then on_ev (prepare_expire c now KEV_NONE) k else k)"

definition key_limit_reneg ::
  "event_config \<Rightarrow> key_event \<Rightarrow> vtime \<Rightarrow> 'a key_ev_scheme \<Rightarrow> 'a key_ev_scheme" where
  "key_limit_reneg c ev t e =
     (if time_defined t
      then set_events KEV_NONE ev (time_add t (dur_seconds (if ec_server c then 2 else 1))) e else e)"

definition become_primary_time :: "'a key_ev_scheme \<Rightarrow> vtime" where
  "become_primary_time e = (if kv_next e = KEV_BECOME_PRIMARY then kv_next_time e else time_zero)"

text \<open>\<open>key_id_\<close> is 0 for the first key only.\<close>

definition data_limit_defer :: "event_config \<Rightarrow> 'a key_ev_scheme \<Rightarrow> bool" where
  "data_limit_defer c e \<longleftrightarrow> \<not> ec_server c
     \<and> (case kv_data_limit e of None \<Rightarrow> False | Some d \<Rightarrow> kv_key_id e \<noteq> 0 \<and> \<not> is_decrypt_green d)"

definition schedule_key_limit_renegotiation ::
  "event_config \<Rightarrow> vtime \<Rightarrow> ('p, 'ssl, 'a) ev_stack \<Rightarrow> ('p, 'ssl, 'a) ev_stack" where
  "schedule_key_limit_renegotiation c now k =
     (if \<not> kv_limit_fired (k_par k) \<and> kv_state (k_par k) \<ge> ACTIVE \<and> \<not> k_invalidated k
      then (let k = count_error N_KEY_LIMIT_RENEG (on_ev (\<lambda>e. e\<lparr>kv_limit_fired := True\<rparr>) k)
            in if kv_next (k_par k) = KEV_BECOME_PRIMARY then on_ev (set_event KEV_RENEGOTIATE_QUEUE) k
               else on_ev (key_limit_reneg c KEV_RENEGOTIATE now) k)
      else k)"

text \<open>\<open>data_limit\<close> is dereferenced: the callers test it, or have it from a context that has one.\<close>

definition data_limit_event ::
  "event_config \<Rightarrow> vtime \<Rightarrow> dl_state \<Rightarrow> ('p, 'ssl, 'a) ev_stack \<Rightarrow> ('p, 'ssl, 'a) ev_stack" where
  "data_limit_event c now state k =
     (let k = (if state = Red then schedule_key_limit_renegotiation c now k else k)
      in case kv_data_limit (k_par k) of
           None \<Rightarrow> k
         | Some d \<Rightarrow>
             (if kv_next (k_par k) = KEV_PRIMARY_PENDING \<and> is_decrypt_green d
              then on_ev (set_events KEV_NONE KEV_BECOME_PRIMARY (time_add now (dur_seconds 1))) k
              else k))"

definition data_limit_add ::
  "event_config \<Rightarrow> vtime \<Rightarrow> dl_mode \<Rightarrow> u32 \<Rightarrow> ('p, 'ssl, 'a) ev_stack \<Rightarrow> ('p, 'ssl, 'a) ev_stack" where
  "data_limit_add c now mode n k =
     (case kv_data_limit (k_par k) of
        None \<Rightarrow> k
      | Some d \<Rightarrow>
          (let (state, d) = dl_add mode n d; k = on_ev (\<lambda>e. e\<lparr>kv_data_limit := Some d\<rparr>) k
           in if state > DL_None then data_limit_event c now state k else k))"

definition data_limit_notify ::
  "event_config \<Rightarrow> vtime \<Rightarrow> dl_mode \<Rightarrow> dl_state \<Rightarrow> ('p, 'ssl, 'a) ev_stack \<Rightarrow> ('p, 'ssl, 'a) ev_stack" where
  "data_limit_notify c now mode status k =
     (case kv_data_limit (k_par k) of
        None \<Rightarrow> k
      | Some d \<Rightarrow>
          (let (state, d) = dl_update_state mode status d
           in data_limit_event c now state (on_ev (\<lambda>e. e\<lparr>kv_data_limit := Some d\<rparr>) k)))"

definition active_event :: "event_config \<Rightarrow> 'a key_ev_scheme \<Rightarrow> 'a key_ev_scheme" where
  "active_event c e =
     set_events KEV_ACTIVE KEV_BECOME_PRIMARY (time_add (kv_reached_active e) (ec_become_primary c)) e"

text \<open>The end of the constructor: the deadline of the negotiation.\<close>

definition negotiate_event :: "event_config \<Rightarrow> 'a key_ev_scheme \<Rightarrow> 'a key_ev_scheme" where
  "negotiate_event c e =
     set_events KEV_NONE KEV_NEGOTIATE (time_add (kv_construct_time e) (ec_handshake_window c)) e"

definition kev_error ::
  "('p, 'ssl, 'a) ev_callbacks \<Rightarrow> key_event \<Rightarrow> error_type \<Rightarrow> ('p, 'ssl, 'a) ev_stack \<Rightarrow> ('p, 'ssl, 'a) ev_stack" where
  "kev_error cb ev reason k = on_ev (set_event ev) (stack_invalidate cb reason (count_error reason k))"

definition process_next_event ::
  "('p, 'ssl, 'a) ev_callbacks \<Rightarrow> event_config \<Rightarrow> vtime \<Rightarrow> ('p, 'ssl, 'a) ev_stack \<Rightarrow> ('p, 'ssl, 'a) ev_stack" where
  "process_next_event cb c now k =
     (let e = k_par k
      in if now \<ge> kv_next_time e
         then (case kv_next e of
                 KEV_BECOME_PRIMARY \<Rightarrow>
                   if data_limit_defer c e
                   then on_ev (set_events KEV_NONE KEV_PRIMARY_PENDING (data_limit_expire c now)) k
                   else on_ev (set_events KEV_BECOME_PRIMARY KEV_RENEGOTIATE
                                 (time_add (kv_construct_time e) (ec_renegotiate c))) k
               | KEV_RENEGOTIATE \<Rightarrow> on_ev (prepare_expire c now (kv_next e)) k
               | KEV_RENEGOTIATE_FORCE \<Rightarrow> on_ev (prepare_expire c now (kv_next e)) k
               | KEV_NEGOTIATE \<Rightarrow> kev_error cb KEV_NEGOTIATE KEV_NEGOTIATE_ERROR k
               | KEV_PRIMARY_PENDING \<Rightarrow> kev_error cb KEV_PRIMARY_PENDING KEV_PENDING_ERROR k
               | KEV_EXPIRE \<Rightarrow> kev_error cb KEV_EXPIRE N_KEV_EXPIRE k
               | _ \<Rightarrow> k)
         else k)"

definition event_pending ::
  "('p, 'ssl, 'a) ev_callbacks \<Rightarrow> event_config \<Rightarrow> vtime \<Rightarrow> ('p, 'ssl, 'a) ev_stack
   \<Rightarrow> bool \<times> ('p, 'ssl, 'a) ev_stack" where
  "event_pending cb c now k =
     (let k = (if kv_current (k_par k) = KEV_NONE \<and> now \<ge> kv_next_time (k_par k)
               then process_next_event cb c now k else k)
      in (kv_current (k_par k) \<noteq> KEV_NONE, k))"

text \<open>\<open>next_retransmit\<close> of the key: the stack's, or the next event when that is earlier.\<close>

definition kv_next_retransmit :: "('p, 'ssl, 'a) ev_stack \<Rightarrow> vtime" where
  "kv_next_retransmit k =
     (if next_retransmit k \<le> kv_next_time (k_par k) then next_retransmit k else kv_next_time (k_par k))"


section \<open>The timetable of a key\<close>

lemma on_ev_sel [simp]:
  "k_par (on_ev f k) = f (k_par k)" "k_invalidated (on_ev f k) = k_invalidated k"
  "k_reason (on_ev f k) = k_reason k" "k_stats (on_ev f k) = k_stats k"
  by (simp_all add: on_ev_def)

lemma count_error_sel [simp]:
  "k_par (count_error r k) = k_par k" "k_invalidated (count_error r k) = k_invalidated k"
  "k_reason (count_error r k) = k_reason k" "k_stats (count_error r k) = k_stats k @ [r]"
  by (simp_all add: count_error_def)

lemma stack_invalidate_sel:
  assumes "ev_callbacks cb"
  shows "k_par (stack_invalidate cb reason k) = (if k_invalidated k then k_par k else invalidate_callback (k_par k))"
    "k_invalidated (stack_invalidate cb reason k)"
    "k_reason (stack_invalidate cb reason k) = (if k_invalidated k then k_reason k else reason)"
    "k_stats (stack_invalidate cb reason k) = k_stats k"
  using assms by (simp_all add: stack_invalidate_def ev_callbacks_def)

lemmas ev_ops = set_event_def set_events_def reset_event_def invalidate_callback_def active_event_def
  prepare_expire_def data_limit_defer_def

text \<open>
  One round of the owner of the key: it asks for an event, takes it, and gives the key the default
  next event.
\<close>

definition key_poll ::
  "('p, 'ssl, 'a) ev_callbacks \<Rightarrow> event_config \<Rightarrow> vtime \<Rightarrow> ('p, 'ssl, 'a) ev_stack
   \<Rightarrow> key_event option \<times> ('p, 'ssl, 'a) ev_stack" where
  "key_poll cb c now k =
     (let (pending, k) = event_pending cb c now k
      in if pending
         then (Some (kv_current (k_par k)), set_next_event_if_unspecified c now (on_ev reset_event k))
         else (None, k))"

fun key_run ::
  "('p, 'ssl, 'a) ev_callbacks \<Rightarrow> event_config \<Rightarrow> vtime list \<Rightarrow> ('p, 'ssl, 'a) ev_stack
   \<Rightarrow> (vtime \<times> key_event) list" where
  "key_run cb c [] k = []"
| "key_run cb c (t # ts) k =
     (case key_poll cb c t k of
        (None, k) \<Rightarrow> key_run cb c ts k
      | (Some ev, k) \<Rightarrow> (t, ev) # key_run cb c ts k)"

text \<open>
  A timetable lists what happens to a key: each entry at the first round at or after its time, in
  the order listed. The time may depend on the round of the entry before; an entry without an event
  is a step the owner does not see.
\<close>

fun timetable ::
  "(key_event option \<times> (vtime \<Rightarrow> vtime)) list \<Rightarrow> vtime \<Rightarrow> vtime list \<Rightarrow> (vtime \<times> key_event) list" where
  "timetable ((ev, due) # es) prev (t # ts) =
     (if due prev \<le> t then (case ev of None \<Rightarrow> [] | Some e \<Rightarrow> [(t, e)]) @ timetable es t ts
      else timetable ((ev, due) # es) prev ts)"
| "timetable _ _ _ = []"

lemma timetable_Nil [simp]: "timetable [] prev ts = []"
  by (cases ts) auto

text \<open>An invalidated key with an empty timetable has no more events.\<close>

definition key_over :: "('p, 'ssl, 'a) ev_stack \<Rightarrow> bool" where
  "key_over k \<longleftrightarrow> k_invalidated k \<and> kv_current (k_par k) = KEV_NONE \<and> kv_next (k_par k) = KEV_NONE"

lemma key_over_poll: "key_over k \<Longrightarrow> key_poll cb c t k = (None, k)"
  by (simp add: key_over_def key_poll_def event_pending_def process_next_event_def Let_def)

lemma key_over_run: "key_over k \<Longrightarrow> key_run cb c ts k = []"
  by (induction ts) (simp_all add: key_over_poll)

text \<open>A key that waits for its next event: what one round does.\<close>

definition waits_for :: "key_event \<Rightarrow> vtime \<Rightarrow> ('p, 'ssl, 'a) ev_stack \<Rightarrow> bool" where
  "waits_for ev due k \<longleftrightarrow> \<not> k_invalidated k \<and> kv_current (k_par k) = KEV_NONE
     \<and> kv_next (k_par k) = ev \<and> kv_next_time (k_par k) = due"

lemma poll_early: "waits_for ev due k \<Longrightarrow> \<not> due \<le> t \<Longrightarrow> key_poll cb c t k = (None, k)"
  by (simp add: waits_for_def key_poll_def event_pending_def Let_def)

text \<open>Polling a waiting key is a step of its timetable, if what the round does is as listed.\<close>

lemma run_waits:
  assumes "waits_for next (due prev) k"
    "\<And>t. due prev \<le> t \<Longrightarrow> fst (key_poll cb c t k) = ev
      \<and> (\<forall>ts. key_run cb c ts (snd (key_poll cb c t k)) = timetable es t ts)"
  shows "key_run cb c ts k = timetable ((ev, due) # es) prev ts"
proof (induction ts)
  case (Cons t ts)
  show ?case
  proof (cases "due prev \<le> t")
    case True
    then show ?thesis using assms(2) [OF True] by (auto split: prod.split option.split)
  next
    case False
    then show ?thesis using Cons poll_early [OF assms(1)] by simp
  qed
qed simp

lemma poll_error:
  assumes "ev_callbacks cb" "waits_for ev due k" "due \<le> t"
    "ev \<in> {KEV_NEGOTIATE, KEV_PRIMARY_PENDING, KEV_EXPIRE}"
  shows "fst (key_poll cb c t k) = Some ev" "key_over (snd (key_poll cb c t k))"
    "k_reason (snd (key_poll cb c t k)) = (case ev of KEV_NEGOTIATE \<Rightarrow> KEV_NEGOTIATE_ERROR
       | KEV_PRIMARY_PENDING \<Rightarrow> KEV_PENDING_ERROR | _ \<Rightarrow> N_KEV_EXPIRE)"
proof -
  have "process_next_event cb c t k = kev_error cb ev (case ev of KEV_NEGOTIATE \<Rightarrow> KEV_NEGOTIATE_ERROR
       | KEV_PRIMARY_PENDING \<Rightarrow> KEV_PENDING_ERROR | _ \<Rightarrow> N_KEV_EXPIRE) k"
    using assms(2-4) by (auto simp: waits_for_def process_next_event_def Let_def)
  moreover have "ev \<noteq> KEV_NONE" using assms(4) by auto
  ultimately show "fst (key_poll cb c t k) = Some ev" "key_over (snd (key_poll cb c t k))"
    "k_reason (snd (key_poll cb c t k)) = (case ev of KEV_NEGOTIATE \<Rightarrow> KEV_NEGOTIATE_ERROR
       | KEV_PRIMARY_PENDING \<Rightarrow> KEV_PENDING_ERROR | _ \<Rightarrow> N_KEV_EXPIRE)"
    using assms(2,3)
    by (simp_all add: waits_for_def key_poll_def event_pending_def kev_error_def key_over_def ev_ops Let_def
        set_next_event_if_unspecified_def stack_invalidate_sel [OF assms(1)])
qed

lemma run_error:
  assumes "ev_callbacks cb" "waits_for ev (due prev) k" "ev \<in> {KEV_NEGOTIATE, KEV_PRIMARY_PENDING, KEV_EXPIRE}"
  shows "key_run cb c ts k = timetable [(Some ev, due)] prev ts"
  by (rule run_waits [where due = due and prev = prev, OF assms(2)]) (simp add: poll_error [OF assms(1,2) _ assms(3)] key_over_run)

text \<open>The date on which a renegotiated key expires: a setting, or after a data limit relative to the
  round of the renegotiation.\<close>

definition expire_date :: "event_config \<Rightarrow> 'a key_ev_scheme \<Rightarrow> vtime \<Rightarrow> vtime" where
  "expire_date c e prev =
     (if kv_limit_fired e then data_limit_expire c prev else time_add (kv_construct_time e) (ec_expire c))"

lemma run_renegotiate:
  assumes "ev_callbacks cb" "waits_for ev (due prev) k" "ev \<in> {KEV_RENEGOTIATE, KEV_RENEGOTIATE_FORCE}"
  shows "key_run cb c ts k = timetable [(Some ev, due), (Some KEV_EXPIRE, expire_date c (k_par k))] prev ts"
proof (rule run_waits [where due = due and prev = prev, OF assms(2)])
  fix t assume t: "due prev \<le> t"
  have p: "process_next_event cb c t k = on_ev (prepare_expire c t ev) k"
    using assms(2,3) t by (auto simp: waits_for_def process_next_event_def Let_def)
  have "ev \<noteq> KEV_NONE" using assms(3) by auto
  then have "fst (key_poll cb c t k) = Some ev"
    "waits_for KEV_EXPIRE (expire_date c (k_par k) t) (snd (key_poll cb c t k))"
    using assms(2) t p
    by (auto simp: waits_for_def key_poll_def event_pending_def ev_ops expire_date_def Let_def set_next_event_if_unspecified_def)
  then show "fst (key_poll cb c t k) = Some ev
      \<and> (\<forall>ts. key_run cb c ts (snd (key_poll cb c t k)) = timetable [(Some KEV_EXPIRE, expire_date c (k_par k))] t ts)"
    using run_error [OF assms(1), of KEV_EXPIRE "expire_date c (k_par k)" t] by auto
qed

lemma run_become_primary:
  assumes "ev_callbacks cb" "waits_for KEV_BECOME_PRIMARY (due prev) k" "\<not> data_limit_defer c (k_par k)"
  shows "key_run cb c ts k = timetable [(Some KEV_BECOME_PRIMARY, due),
      (Some KEV_RENEGOTIATE, \<lambda>_. time_add (kv_construct_time (k_par k)) (ec_renegotiate c)),
      (Some KEV_EXPIRE, expire_date c (k_par k))] prev ts"
proof (rule run_waits [where due = due and prev = prev, OF assms(2)])
  fix t assume t: "due prev \<le> t"
  let ?k = "snd (key_poll cb c t k)" and ?due = "\<lambda>_ :: vtime. time_add (kv_construct_time (k_par k)) (ec_renegotiate c)"
  have p: "process_next_event cb c t k
      = on_ev (set_events KEV_BECOME_PRIMARY KEV_RENEGOTIATE (time_add (kv_construct_time (k_par k)) (ec_renegotiate c))) k"
    using assms(2,3) t by (simp add: waits_for_def process_next_event_def Let_def)
  have k: "fst (key_poll cb c t k) = Some KEV_BECOME_PRIMARY" "waits_for KEV_RENEGOTIATE (?due t) ?k"
    "expire_date c (k_par ?k) = expire_date c (k_par k)"
    using assms(2) t p
    by (auto simp: waits_for_def key_poll_def event_pending_def ev_ops expire_date_def [abs_def] Let_def set_next_event_if_unspecified_def)
  then show "fst (key_poll cb c t k) = Some KEV_BECOME_PRIMARY
      \<and> (\<forall>ts. key_run cb c ts ?k = timetable [(Some KEV_RENEGOTIATE, ?due), (Some KEV_EXPIRE, expire_date c (k_par k))] t ts)"
    using run_renegotiate [OF assms(1), of KEV_RENEGOTIATE ?due t ?k] by simp
qed

lemma run_deferred:
  assumes "ev_callbacks cb" "waits_for KEV_BECOME_PRIMARY (due prev) k" "data_limit_defer c (k_par k)"
  shows "key_run cb c ts k = timetable [(None, due), (Some KEV_PRIMARY_PENDING, data_limit_expire c)] prev ts"
proof (rule run_waits [where due = due and prev = prev, OF assms(2)])
  fix t assume t: "due prev \<le> t"
  have p: "process_next_event cb c t k = on_ev (set_events KEV_NONE KEV_PRIMARY_PENDING (data_limit_expire c t)) k"
    using assms(2,3) t by (simp add: waits_for_def process_next_event_def Let_def)
  have "fst (key_poll cb c t k) = None" "waits_for KEV_PRIMARY_PENDING (data_limit_expire c t) (snd (key_poll cb c t k))"
    using assms(2) t p by (auto simp: waits_for_def key_poll_def event_pending_def ev_ops Let_def)
  then show "fst (key_poll cb c t k) = None
      \<and> (\<forall>ts. key_run cb c ts (snd (key_poll cb c t k)) = timetable [(Some KEV_PRIMARY_PENDING, data_limit_expire c)] t ts)"
    using run_error [OF assms(1), of KEV_PRIMARY_PENDING "data_limit_expire c" t] by auto
qed

text \<open>
  What an active key does. On a client a renegotiated key under a data limit on which nothing has
  been decrypted yet does not become primary on its date: it goes on waiting, and fails when nothing
  has come for two handshake windows.
\<close>

definition active_timetable :: "event_config \<Rightarrow> 'a key_ev_scheme \<Rightarrow> (key_event option \<times> (vtime \<Rightarrow> vtime)) list" where
  "active_timetable c e =
     (Some KEV_ACTIVE, \<lambda>_. time_zero) #
     (if data_limit_defer c e
      then [(None, \<lambda>_. time_add (kv_reached_active e) (ec_become_primary c)),
            (Some KEV_PRIMARY_PENDING, data_limit_expire c)]
      else [(Some KEV_BECOME_PRIMARY, \<lambda>_. time_add (kv_reached_active e) (ec_become_primary c)),
            (Some KEV_RENEGOTIATE, \<lambda>_. time_add (kv_construct_time e) (ec_renegotiate c)),
            (Some KEV_EXPIRE, expire_date c e)])"

lemma run_active:
  assumes "ev_callbacks cb" "\<not> k_invalidated k"
  shows "key_run cb c ts (on_ev (active_event c) k) = timetable (active_timetable c (k_par k)) prev ts"
proof (cases ts)
  case (Cons t us)
  let ?k = "snd (key_poll cb c t (on_ev (active_event c) k))"
    and ?due = "\<lambda>_ :: vtime. time_add (kv_reached_active (k_par k)) (ec_become_primary c)"
  have k: "fst (key_poll cb c t (on_ev (active_event c) k)) = Some KEV_ACTIVE" "waits_for KEV_BECOME_PRIMARY (?due t) ?k"
    "expire_date c (k_par ?k) = expire_date c (k_par k)" "data_limit_defer c (k_par ?k) = data_limit_defer c (k_par k)"
    "kv_construct_time (k_par ?k) = kv_construct_time (k_par k)"
    using assms(2)
    by (auto simp: waits_for_def key_poll_def event_pending_def ev_ops expire_date_def [abs_def] Let_def
        set_next_event_if_unspecified_def split: option.splits)
  show ?thesis
    using run_become_primary [OF assms(1), of ?due t ?k c us] run_deferred [OF assms(1), of ?due t ?k c us] k Cons
    by (cases "key_poll cb c t (on_ev (active_event c) k)") (simp add: active_timetable_def time_order time_zero_def)
qed simp


section \<open>Properties\<close>

text \<open>
  C18. A key that is only polled keeps its timetable, however often and whenever its owner asks for
  events. A key that does not become active raises one event, the end of the negotiation, at the
  first round after the handshake window. A key that became active raises four, each once and at the
  first round at or after its time: active, become primary, renegotiate, expire; when a data limit
  has fired, it expires two handshake windows after the round of the renegotiation instead of on its
  date. A renegotiated key of a client that still waits for the first packet under a data limit
  raises two: active, and, two handshake windows after the round in which it was to become primary,
  the failure of that wait.
\<close>

theorem key_timetable:
  assumes "ev_callbacks cb" "\<not> k_invalidated k"
  shows "key_run cb c ts (on_ev (negotiate_event c) k) = timetable
       [(Some KEV_NEGOTIATE, \<lambda>_. time_add (kv_construct_time (k_par k)) (ec_handshake_window c))] prev ts
    \<and> key_run cb c ts (on_ev (active_event c) k) = timetable
       ((Some KEV_ACTIVE, \<lambda>_. time_zero) #
        (if data_limit_defer c (k_par k)
         then [(None, \<lambda>_. time_add (kv_reached_active (k_par k)) (ec_become_primary c)),
               (Some KEV_PRIMARY_PENDING, data_limit_expire c)]
         else [(Some KEV_BECOME_PRIMARY, \<lambda>_. time_add (kv_reached_active (k_par k)) (ec_become_primary c)),
               (Some KEV_RENEGOTIATE, \<lambda>_. time_add (kv_construct_time (k_par k)) (ec_renegotiate c)),
               (Some KEV_EXPIRE, \<lambda>r. if kv_limit_fired (k_par k) then data_limit_expire c r
                  else time_add (kv_construct_time (k_par k)) (ec_expire c))])) prev ts"
proof (intro conjI)
  show "key_run cb c ts (on_ev (negotiate_event c) k) = timetable
       [(Some KEV_NEGOTIATE, \<lambda>_. time_add (kv_construct_time (k_par k)) (ec_handshake_window c))] prev ts"
    using assms(2) by (intro run_error [OF assms(1)]) (simp_all add: waits_for_def negotiate_event_def ev_ops)
qed (use run_active [OF assms, of c ts prev] in \<open>simp add: active_timetable_def expire_date_def [abs_def]\<close>)

definition plain_callbacks :: "('a key_ev_scheme \<Rightarrow> 'a key_ev_scheme) \<Rightarrow> (unit, unit, 'a) ev_callbacks" where
  "plain_callbacks on_inv =
     \<lparr>ssl_start_handshake = \<lambda>s. s, ssl_write_cleartext = \<lambda>b s. (Inr (int (length b)), s),
      ssl_read_ciphertext_ready = \<lambda>s. False, ssl_read_ciphertext = \<lambda>s. ((), s),
      ssl_write_ciphertext = \<lambda>p s. s, ssl_read_cleartext_ready = \<lambda>s. False,
      ssl_read_cleartext = \<lambda>s. (Inr 0, [], s), pkt_is_raw = \<lambda>p. True,
      cb_encapsulate = \<lambda>i p (acks, par). (Inr p, acks, par),
      cb_decapsulate = \<lambda>p (rr, rs, acks, par). (Inr True, None, rr, rs, acks, par),
      cb_generate_ack = \<lambda>(acks, par). (Inr (), acks, par), cb_net_send = \<lambda>p ty par. par,
      cb_app_recv = \<lambda>b par. (Inr (), [], par), cb_raw_recv = \<lambda>p par. (Inr (), [], par),
      cb_invalidate = on_inv\<rparr>"

definition plain_key :: "u32 \<Rightarrow> data_limit option \<Rightarrow> (unit, unit, key_ev) stack" where
  "plain_key key_id limit = stack_init () (dur_seconds 2) 4 4
     \<lparr>kv_state = ACTIVE, kv_key_id = key_id, kv_limit_fired = False, kv_construct_time = Time 1000,
      kv_reached_active = Time 3000, kv_next_time = time_infinite, kv_current = KEV_NONE,
      kv_next = KEV_NONE, kv_data_limit = limit\<rparr>"

definition plain_config :: "bool \<Rightarrow> event_config" where
  "plain_config server = \<lparr>ec_server = server, ec_handshake_window = dur_seconds 60,
     ec_become_primary = dur_seconds 5, ec_renegotiate = dur_seconds 3600, ec_expire = dur_seconds 7200\<rparr>"

lemma plain_callbacks_ev: "ev_callbacks (plain_callbacks invalidate_callback)"
  by (simp add: ev_callbacks_def plain_callbacks_def)

theorem key_timetable_witness:
  "key_run (plain_callbacks invalidate_callback) (plain_config False)
     [Time 3100, Time 8000, Time 9000, Time 4000000, Time 4000001, Time 9000000]
     (on_ev (active_event (plain_config False)) (plain_key 0 None))
   = [(Time 3100, KEV_ACTIVE), (Time 9000, KEV_BECOME_PRIMARY), (Time 4000000, KEV_RENEGOTIATE),
      (Time 9000000, KEV_EXPIRE)]
   \<and> key_run (plain_callbacks invalidate_callback) (plain_config False)
     [Time 3100, Time 9000, Time 9500, Time 131880, Time 4000000]
     (on_ev (active_event (plain_config False)) (plain_key 1 (Some (dl_init 100 100))))
   = [(Time 3100, KEV_ACTIVE), (Time 131880, KEV_PRIMARY_PENDING)]"
proof -
  let ?lim = "Some (dl_init 100 100)"
  have k: "\<not> k_invalidated (plain_key i l)" "\<not> kv_limit_fired (k_par (plain_key i l))"
    "kv_construct_time (k_par (plain_key i l)) = Time 1000" "kv_reached_active (k_par (plain_key i l)) = Time 3000"
    "\<not> data_limit_defer (plain_config False) (k_par (plain_key 0 None))"
    "data_limit_defer (plain_config False) (k_par (plain_key 1 ?lim))" for i l
    by (simp_all add: plain_key_def stack_init_def data_limit_defer_def plain_config_def is_decrypt_green_def dl_init_def)
  have d: "time_add (Time 3000) (ec_become_primary (plain_config False)) = Time 8120"
    "time_add (Time 1000) (ec_renegotiate (plain_config False)) = Time 3687400"
    "time_add (Time 1000) (ec_expire (plain_config False)) = Time 7373800"
    "data_limit_expire (plain_config False) (Time 9000) = Time 131880"
    by (simp_all add: plain_config_def data_limit_expire_def time_add_def dur_seconds_def dur_mult_def
        time_is_infinite_def dur_is_infinite_def)
  note run = conjunct2 [OF key_timetable [OF plain_callbacks_ev k(1), where prev = time_zero]]
  show ?thesis
    by (simp only: run) (simp add: k(2-6) d time_order time_zero_def)
qed

lemma schedule_eq:
  assumes "\<not> kv_limit_fired (k_par k)" "kv_state (k_par k) \<ge> ACTIVE" "\<not> k_invalidated k"
  shows "schedule_key_limit_renegotiation c now k =
    (let k = count_error N_KEY_LIMIT_RENEG (on_ev (\<lambda>e. e\<lparr>kv_limit_fired := True\<rparr>) k)
     in if kv_next (k_par k) = KEV_BECOME_PRIMARY then on_ev (set_event KEV_RENEGOTIATE_QUEUE) k
        else on_ev (key_limit_reneg c KEV_RENEGOTIATE now) k)"
  using assms by (simp add: schedule_key_limit_renegotiation_def)

lemma schedule_fired: "kv_limit_fired (k_par k) \<Longrightarrow> schedule_key_limit_renegotiation c now k = k"
  by (simp add: schedule_key_limit_renegotiation_def)

lemma poll_renegotiate_limited:
  assumes "waits_for KEV_RENEGOTIATE due k" "kv_limit_fired (k_par k)" "due \<le> t"
  shows "fst (key_poll cb c t k) = Some KEV_RENEGOTIATE"
    "waits_for KEV_EXPIRE (data_limit_expire c t) (snd (key_poll cb c t k))"
proof -
  have p: "process_next_event cb c t k = on_ev (prepare_expire c t KEV_RENEGOTIATE) k"
    using assms(1,3) by (auto simp: waits_for_def process_next_event_def Let_def)
  then show "fst (key_poll cb c t k) = Some KEV_RENEGOTIATE"
    "waits_for KEV_EXPIRE (data_limit_expire c t) (snd (key_poll cb c t k))"
    using assms by (auto simp: waits_for_def key_poll_def event_pending_def ev_ops Let_def set_next_event_if_unspecified_def)
qed

text \<open>
  A key that exceeds its data limit, or runs out of packet IDs, is renegotiated once: the first
  notice counts the error and makes the key, if it is in use, raise the renegotiation one second
  later (two on a server) and expire two handshake windows after that was taken; if the key is still
  waiting to become primary it raises a queued renegotiation at once and keeps that date. A second
  notice changes nothing.
\<close>

lemma key_limit_renegotiates_once:
  fixes c now
  assumes "kv_state (k_par k) \<ge> ACTIVE" "\<not> k_invalidated k" "\<not> kv_limit_fired (k_par k)" "time_defined now"
  defines "k' \<equiv> schedule_key_limit_renegotiation c now k"
  shows "k_stats k' = k_stats k @ [N_KEY_LIMIT_RENEG]
    \<and> (\<forall>now'. schedule_key_limit_renegotiation c now' k' = k')
    \<and> (if kv_next (k_par k) = KEV_BECOME_PRIMARY
       then kv_current (k_par k') = KEV_RENEGOTIATE_QUEUE \<and> become_primary_time (k_par k') = kv_next_time (k_par k)
       else waits_for KEV_RENEGOTIATE (time_add now (dur_seconds (if ec_server c then 2 else 1))) k'
         \<and> (\<forall>cb t. time_add now (dur_seconds (if ec_server c then 2 else 1)) \<le> t \<longrightarrow>
               fst (key_poll cb c t k') = Some KEV_RENEGOTIATE
             \<and> waits_for KEV_EXPIRE (data_limit_expire c t) (snd (key_poll cb c t k'))))"
proof -
  note s = schedule_eq [OF assms(3,1,2), of c now, folded k'_def]
  have f: "kv_limit_fired (k_par k')" by (simp add: s ev_ops key_limit_reneg_def Let_def)
  have st: "k_stats k' = k_stats k @ [N_KEY_LIMIT_RENEG]" by (simp add: s Let_def)
  have b: "kv_current (k_par k') = KEV_RENEGOTIATE_QUEUE \<and> become_primary_time (k_par k') = kv_next_time (k_par k)"
    if "kv_next (k_par k) = KEV_BECOME_PRIMARY"
    using that by (simp add: s ev_ops become_primary_time_def Let_def)
  have w: "waits_for KEV_RENEGOTIATE (time_add now (dur_seconds (if ec_server c then 2 else 1))) k'"
    if "kv_next (k_par k) \<noteq> KEV_BECOME_PRIMARY"
    using that assms(2,4) by (simp add: s ev_ops key_limit_reneg_def waits_for_def Let_def)
  show ?thesis
    using st schedule_fired [OF f] b w poll_renegotiate_limited [OF w f] by simp
qed

lemma key_limit_renegotiates_once_at:
  "k_stats (schedule_key_limit_renegotiation (plain_config True) (Time 5000) (plain_key 0 None)) = [N_KEY_LIMIT_RENEG]
   \<and> waits_for KEV_RENEGOTIATE (Time 7048)
       (schedule_key_limit_renegotiation (plain_config True) (Time 5000) (plain_key 0 None))"
proof -
  have k: "kv_state (k_par (plain_key 0 None)) \<ge> ACTIVE" "\<not> k_invalidated (plain_key 0 None)"
    "\<not> kv_limit_fired (k_par (plain_key 0 None))" "kv_next (k_par (plain_key 0 None)) \<noteq> KEV_BECOME_PRIMARY"
    "k_stats (plain_key 0 None) = []"
    by (simp_all add: plain_key_def stack_init_def)
  have "time_add (Time 5000) (dur_seconds (if ec_server (plain_config True) then 2 else 1)) = Time 7048"
    by (simp add: plain_config_def time_add_def dur_seconds_def time_is_infinite_def dur_is_infinite_def)
  then show ?thesis
    using key_limit_renegotiates_once [OF k(1-3), of "Time 5000" "plain_config True"] k(4,5)
    by (simp add: time_defined_def)
qed

text \<open>
  A client does not send under a renegotiated key with a data limit before it has heard from the
  server on it: the date on which the key would become primary only makes it wait; it becomes primary
  one second after the first packet decrypted under it, and is invalidated when none has been by the
  end of two handshake windows.
\<close>

lemma primary_waits_for_peer:
  fixes cb c t
  assumes "ev_callbacks cb" "waits_for KEV_BECOME_PRIMARY due k" "due \<le> t" "\<not> ec_server c"
    "kv_key_id (k_par k) \<noteq> 0" "kv_data_limit (k_par k) = Some d" "dc_state (dl_decrypt d) = DL_None"
    "dc_state (dl_encrypt d) \<noteq> Red" "dl_inv d" "n \<noteq> 0"
  defines "k1 \<equiv> snd (key_poll cb c t k)"
  shows "fst (key_poll cb c t k) = None \<and> waits_for KEV_PRIMARY_PENDING (data_limit_expire c t) k1
    \<and> (\<forall>u. data_limit_expire c t \<le> u \<longrightarrow> fst (key_poll cb c u k1) = Some KEV_PRIMARY_PENDING
         \<and> k_invalidated (snd (key_poll cb c u k1)) \<and> k_reason (snd (key_poll cb c u k1)) = KEV_PENDING_ERROR)
    \<and> (\<forall>u. dc_bytes (dl_decrypt d) = 0 \<longrightarrow>
         waits_for KEV_BECOME_PRIMARY (time_add u (dur_seconds 1)) (data_limit_add c u Decrypt n k1))"
proof -
  have g: "\<not> is_decrypt_green d" using assms(7) by (simp add: is_decrypt_green_def)
  have df: "data_limit_defer c (k_par k)" using assms(4-6) g by (simp add: data_limit_defer_def)
  have p: "process_next_event cb c t k = on_ev (set_events KEV_NONE KEV_PRIMARY_PENDING (data_limit_expire c t)) k"
    using assms(2,3) df by (simp add: waits_for_def process_next_event_def Let_def)
  have k1: "k1 = on_ev (set_events KEV_NONE KEV_PRIMARY_PENDING (data_limit_expire c t)) k"
    and n: "fst (key_poll cb c t k) = None"
    using assms(2,3) p by (auto simp: k1_def waits_for_def key_poll_def event_pending_def set_events_def Let_def)
  have w: "waits_for KEV_PRIMARY_PENDING (data_limit_expire c t) k1"
    using assms(2) by (simp add: k1 waits_for_def set_events_def)
  have e: "k_invalidated (snd (key_poll cb c u k1))" if "data_limit_expire c t \<le> u" for u
    using poll_error(2) [OF assms(1) w that] by (simp add: key_over_def)
  have "waits_for KEV_BECOME_PRIMARY (time_add u (dur_seconds 1)) (data_limit_add c u Decrypt n k1)"
    if "dc_bytes (dl_decrypt d) = 0" for u
  proof -
    let ?f = "(dl_decrypt d)\<lparr>dc_bytes := n, dc_state := Green\<rparr>"
    have a: "dc_add n (dl_decrypt d) = (Green, ?f)"
      using assms(7,10) that by (auto simp: dc_add_def dc_transition_def dc_update_state_def dl_order Let_def)
    have "dl_flags d AND 4 = 0" "(dl_flags d OR 4) AND 6 \<noteq> 6"
      using assms(7-9) by (cases "dc_state (dl_encrypt d)"; simp add: dl_inv_def)+
    then have "dl_add Decrypt n d = (Green, d\<lparr>dl_decrypt := ?f, dl_flags := dl_flags d OR 4\<rparr>)"
      by (simp add: dl_add_def dl_component_of_def dl_set_component_def a elgible_def dl_mask_vals Let_def)
    moreover have "is_decrypt_green (d\<lparr>dl_decrypt := ?f, dl_flags := x\<rparr>)" for x
      by (simp add: is_decrypt_green_def)
    ultimately show ?thesis
      using assms(2,6)
      by (auto simp: data_limit_add_def data_limit_event_def k1 waits_for_def set_events_def
          schedule_key_limit_renegotiation_def key_limit_reneg_def Let_def)
  qed
  then show ?thesis using n w poll_error [OF assms(1) w] e by simp
qed

lemma primary_waits_for_peer_at:
  "\<exists>k :: (unit, unit, key_ev) stack. waits_for KEV_BECOME_PRIMARY (Time 8000) k
     \<and> waits_for KEV_PRIMARY_PENDING (Time 130880)
         (snd (key_poll (plain_callbacks invalidate_callback) (plain_config False) (Time 8000) k))"
proof -
  let ?k = "on_ev (set_events KEV_NONE KEV_BECOME_PRIMARY (Time 8000)) (plain_key 1 (Some (dl_init 100 100)))"
  have w: "waits_for KEV_BECOME_PRIMARY (Time 8000) ?k"
    by (simp add: waits_for_def set_events_def plain_key_def stack_init_def)
  have k: "Time 8000 \<le> Time 8000" "\<not> ec_server (plain_config False)" "kv_key_id (k_par ?k) \<noteq> 0"
    "kv_data_limit (k_par ?k) = Some (dl_init 100 100)" "dc_state (dl_decrypt (dl_init 100 100)) = DL_None"
    "dc_state (dl_encrypt (dl_init 100 100)) \<noteq> Red" "(1 :: u32) \<noteq> 0"
    by (simp_all add: plain_config_def set_events_def plain_key_def stack_init_def dl_init_def)
  have "data_limit_expire (plain_config False) (Time 8000) = Time 130880"
    by (simp add: data_limit_expire_def plain_config_def time_add_def dur_seconds_def dur_mult_def
        time_is_infinite_def dur_is_infinite_def)
  then show ?thesis
    using w primary_waits_for_peer [OF plain_callbacks_ev w k(1-6) dl_inv_init(1) k(7)] by metis
qed

end
