(* ===== verification/Key_Exchange.thy ===== *)
theory Key_Exchange
  imports Proto_Packets Key_Material Buffer_Composed Frames
begin

text \<open>
  The message both ends exchange once the TLS session is up, \<^verbatim>\<open>ssl/proto.hpp\<close> \<open>send_auth\<close>,
  \<open>recv_auth_complete\<close> and \<open>recv_auth\<close>: a prefix, the sender's randomness, its options and, from a
  client, user name, password and peer info. What \<open>Config\<close> makes of the options and of the peer info
  and the two virtual methods for the credentials are fields of \<open>auth_env\<close>.
\<close>

section \<open>Writing and reading the message\<close>

abbreviation (input) WRITE_SSL_CLEARTEXT :: nat where "WRITE_SSL_CLEARTEXT \<equiv> 11"

definition auth_prefix :: "byte list" where "auth_prefix = [0, 0, 0, 0, 2]"

text \<open>User name, password and peer info, as \<open>server_auth\<close> gets them.\<close>

type_synonym credentials = "byte list \<times> byte list \<times> byte list"

record auth_env =
  au_server :: bool
  au_xmit_creds :: bool
  au_options :: "byte list"
  au_peer_info :: "byte list"
  au_client_auth :: "buf \<Rightarrow> buf res"
  au_server_auth :: "credentials \<Rightarrow> unit res"
  au_frame :: frame
  au_junk :: "nat \<Rightarrow> byte"
  au_addr :: nat

text \<open>\<open>ProtoContext::client_auth\<close> when it is not overridden, and what is sent without credentials.\<close>

definition write_no_creds :: "(nat \<Rightarrow> byte) \<Rightarrow> buf \<Rightarrow> buf res" where
  "write_no_creds junk b = bindE (write_empty_string junk b) (write_empty_string junk)"

text \<open>
  \<open>send_auth\<close> up to the call of \<open>app_send_validate\<close>: the cleartext, the randomness drawn from
  \<open>rng\<close>, and what is left of \<open>rng\<close>.
\<close>

definition write_auth ::
  "auth_env \<Rightarrow> byte list \<Rightarrow> tls_prf \<Rightarrow> buf res \<times> tls_prf \<times> byte list" where
  "write_auth env rng t =
     (let junk = au_junk env in
      case bindE (frame_prepare junk (au_addr env) WRITE_SSL_CLEARTEXT (buf_alloc junk 0 0) (au_frame env))
                 (\<lambda>(_, b). buf_write junk auth_prefix b) of
        Inl e \<Rightarrow> (Inl e, t, rng)
      | Inr b \<Rightarrow>
          (let (t, rng) = self_randomize rng t
           in (bindE (self_write junk b t) (\<lambda>b.
               bindE (write_auth_string junk (au_options env) b) (\<lambda>b.
               if \<not> au_server env
               then bindE (if au_xmit_creds env then au_client_auth env b else write_no_creds junk b)
                          (write_auth_string junk (au_peer_info env))
               else Inr b)), t, rng)))"

text \<open>\<open>recv_auth_complete\<close>: is all of the message there?\<close>

definition recv_auth_complete :: "bool \<Rightarrow> tls_prf \<Rightarrow> buf_complete \<Rightarrow> bool \<times> buf_complete" where
  "recv_auth_complete server t bc =
     (let (r, bc) = bc_advance (length auth_prefix) bc in if \<not> r then (False, bc)
      else let (r, bc) = peer_read_complete bc t in if \<not> r then (False, bc)
      else let (r, bc) = bc_advance_string bc in if \<not> r then (False, bc)
      else if server
      then let (r, bc) = bc_advance_string bc in if \<not> r then (False, bc)
           else let (r, bc) = bc_advance_string bc in if \<not> r then (False, bc)
           else let (r, bc) = bc_advance_string bc in if \<not> r then (False, bc)
           else (True, bc)
      else (True, bc))"

text \<open>\<open>recv_auth\<close>: the options string it reads is discarded; a server hands on the credentials.\<close>

definition recv_auth :: "auth_env \<Rightarrow> buf \<Rightarrow> tls_prf \<Rightarrow> credentials option res \<times> tls_prf" where
  "recv_auth env b t =
     (case buf_read (length auth_prefix) b of
        Inl e \<Rightarrow> (Inl e, t)
      | Inr (pre, b) \<Rightarrow>
          (if pre \<noteq> auth_prefix then (Inl (Proto_error ''bad_auth_prefix''), t)
           else (case peer_read b t of
                   (Inl e, t) \<Rightarrow> (Inl e, t)
                 | (Inr b, t) \<Rightarrow>
                     (bindE (read_auth_string b) (\<lambda>(options, b).
                      if au_server env
                      then bindE (read_auth_string b) (\<lambda>(username, b).
                           bindE (read_auth_string b) (\<lambda>(password, b).
                           bindE (read_auth_string b) (\<lambda>(peer_info, b).
                           bindE (au_server_auth env (username, password, peer_info)) (\<lambda>_.
                           Inr (Some (username, password, peer_info))))))
                      else Inr None), t))))"


section \<open>When the message is complete\<close>

text \<open>\<open>f\<close> takes exactly the bytes \<open>u\<close> off the front: it waits for all of them and for no more.\<close>

definition takes :: "(byte list \<Rightarrow> byte list option) \<Rightarrow> byte list \<Rightarrow> bool" where
  "takes f u \<longleftrightarrow> (\<forall>r. f (u @ r) = Some r) \<and> (\<forall>v w. u = v @ w \<longrightarrow> w \<noteq> [] \<longrightarrow> f v = None)"

lemma takes_advance: "length u = n \<Longrightarrow> takes (flat_advance n) u"
  by (auto simp: takes_def flat_advance_def)

lemma takes_bind:
  assumes "takes f u" "takes g v"
  shows "takes (\<lambda>xs. Option.bind (f xs) g) (u @ v)"
  unfolding takes_def
proof (intro conjI allI impI)
  show "Option.bind (f ((u @ v) @ r)) g = Some r" for r using assms by (simp add: takes_def)
next
  fix p w assume e: "u @ v = p @ w" and w: "w \<noteq> []"
  then consider x where "u = p @ x" "x \<noteq> []" | x where "p = u @ x" "v = x @ w"
    by (metis append_eq_append_conv2 append.right_neutral)
  then show "Option.bind (f p) g = None"
    using assms w by cases (auto simp: takes_def)
qed

lemma takes_string:
  assumes "auth_string s"
  shows "takes flat_string (auth_bytes s)"
proof -
  obtain n u where b: "auth_bytes s = be16 (of_nat n) @ u" and n: "length u = n" "n < 65536"
  proof
    show "auth_bytes s = be16 (of_nat (if s = [] then 0 else length s + 1)) @ (if s = [] then [] else s @ [0])"
      by (simp add: auth_bytes_def)
  qed (use assms in \<open>simp_all add: auth_string_def\<close>)
  obtain h l where hl: "be16 (of_nat n) = [h, l]"
    using length_be16 [of "of_nat n"] by (auto simp: numeral_2_eq_2 length_Suc_conv simp del: length_be16)
  let ?w = "of_nat n :: u16"
  have w: "unat ?w = n" using n(2) by (simp add: unat_of_nat)
  have "h = ucast (drop_bit 8 ?w)" "l = ucast ?w" using hl by (simp_all add: be16_def)
  then have "unat h = (n div 2 ^ 8) mod 256" "unat l = n mod 256"
    by (simp_all only: unsigned_ucast_eq take_bit_eq_mod unat_drop_bit w) simp_all
  then have n2: "256 * unat h + unat l = n" using n(2) by simp
  show ?thesis
    unfolding takes_def b hl
  proof (intro conjI allI impI)
    show "flat_string (([h, l] @ u) @ r) = Some r" for r using n n2 by (simp add: flat_advance_def)
  next
    fix v w assume e: "[h, l] @ u = v @ w" and w: "w \<noteq> []"
    show "flat_string v = None"
    proof (cases v rule: flat_string.cases)
      case (1 x y xs)
      then have "x = h" "y = l" "u = xs @ w" using e by auto
      then show ?thesis using 1 w n n2 by (cases w) (simp_all add: flat_advance_def)
    qed simp_all
  qed
qed

text \<open>Two steps of the parser, one after the other.\<close>

definition then_step ::
  "(buf_complete \<Rightarrow> bool \<times> buf_complete) \<Rightarrow> (buf_complete \<Rightarrow> bool \<times> buf_complete)
   \<Rightarrow> buf_complete \<Rightarrow> bool \<times> buf_complete" where
  "then_step s1 s2 c = (let (r, c) = s1 c in if \<not> r then (False, c) else s2 c)"

lemma parses_then:
  assumes "parses s1 f" "parses s2 g"
  shows "parses (then_step s1 s2) (\<lambda>xs. Option.bind (f xs) g)"
  unfolding parses_def
proof (intro allI impI)
  fix c assume c: "bc_full c"
  obtain r c1 where s: "s1 c = (r, c1)" by fastforce
  note p = parsesD [OF assms(1) c, unfolded s, simplified]
  show "bc_full (snd (then_step s1 s2 c)) \<and>
     (case Option.bind (f (bc_rest c)) g of None \<Rightarrow> \<not> fst (then_step s1 s2 c)
      | Some rest \<Rightarrow> fst (then_step s1 s2 c) \<and> bc_rest (snd (then_step s1 s2 c)) = rest)"
  proof (cases "f (bc_rest c)")
    case None
    then show ?thesis using p(1,2) s by (simp add: then_step_def)
  next
    case (Some rest)
    then have "r" "bc_rest c1 = rest" using p(3) by simp_all
    then show ?thesis
      using Some s parsesD(1) [OF assms(2) p(1)] parsesD(2,3) [OF assms(2) p(1)]
      by (simp add: then_step_def split: option.split)
  qed
qed

text \<open>What follows the options string.\<close>

definition rest_step :: "bool \<Rightarrow> buf_complete \<Rightarrow> bool \<times> buf_complete" where
  "rest_step server = (if server
     then then_step bc_advance_string (then_step bc_advance_string (then_step bc_advance_string (\<lambda>c. (True, c))))
     else (\<lambda>c. (True, c)))"

definition flat_rest :: "bool \<Rightarrow> byte list \<Rightarrow> byte list option" where
  "flat_rest server = (if server
     then (\<lambda>xs. Option.bind (flat_string xs) (\<lambda>xs. Option.bind (flat_string xs) (\<lambda>xs. Option.bind (flat_string xs) Some)))
     else Some)"

definition flat_auth :: "bool \<Rightarrow> nat \<Rightarrow> byte list \<Rightarrow> byte list option" where
  "flat_auth server need =
     (\<lambda>xs. Option.bind (flat_advance (length auth_prefix) xs) (\<lambda>xs. Option.bind (flat_advance need xs) (\<lambda>xs.
       Option.bind (flat_string xs) (flat_rest server))))"

lemma parses_rest: "parses (rest_step server) (flat_rest server)"
proof -
  have "parses (\<lambda>c. (True, c)) Some" by (simp add: parses_def)
  then show ?thesis by (cases server) (simp_all only: rest_step_def flat_rest_def if_True if_False parses_then parses_string)
qed

lemma recv_auth_complete_steps:
  "recv_auth_complete server t
    = then_step (bc_advance (length auth_prefix)) (then_step (\<lambda>bc. peer_read_complete bc t) (then_step bc_advance_string (rest_step server)))"
  by (rule ext) (cases server; simp add: recv_auth_complete_def then_step_def rest_step_def Let_def split_def)

lemma parses_auth:
  "parses (recv_auth_complete server t) (flat_auth server (if tp_server (tp_peer t) then 64 else 112))"
proof -
  have "(\<lambda>bc. peer_read_complete bc t) = bc_advance (if tp_server (tp_peer t) then 64 else 112)"
    by (rule ext) (simp add: peer_read_complete_def tp_read_complete_def)
  then show ?thesis
    by (simp add: recv_auth_complete_steps flat_auth_def parses_then parses_advance parses_string parses_rest del: if_split)
qed

section \<open>What is written is read\<close>

definition auth_message :: "auth_env \<Rightarrow> tls_rand \<Rightarrow> credentials \<Rightarrow> byte list" where
  "auth_message env r creds =
     auth_prefix @ rand_bytes r @ auth_bytes (au_options env)
       @ (if au_server env then []
          else auth_bytes (fst creds) @ auth_bytes (fst (snd creds)) @ auth_bytes (snd (snd creds)))"

text \<open>
  The strings fit, and what \<open>client_auth\<close> writes is a user name and a password; without credentials
  these are empty.
\<close>

definition auth_strings_ok :: "auth_env \<Rightarrow> credentials \<Rightarrow> bool" where
  "auth_strings_ok env creds \<longleftrightarrow>
     auth_string (au_options env) \<and> auth_string (fst creds) \<and> auth_string (fst (snd creds))
     \<and> auth_string (snd (snd creds)) \<and> au_peer_info env = snd (snd creds)
     \<and> (if au_xmit_creds env
        then au_client_auth env = write_auth_strings (au_junk env) [fst creds, fst (snd creds)]
        else fst creds = [] \<and> fst (snd creds) = [])"

definition auth_frame_ok :: "auth_env \<Rightarrow> bool" where
  "auth_frame_ok env \<longleftrightarrow> length (au_frame env) = N_ALIGN_CONTEXTS
     \<and> ctx_ok (au_frame env ! WRITE_SSL_CLEARTEXT) \<and> fc_adj_capacity (au_frame env ! WRITE_SSL_CLEARTEXT) < 9223372036854775808"

lemma write_no_creds_strings: "write_no_creds junk b = write_auth_strings junk [[], []] b"
  by (simp add: write_no_creds_def write_empty_string_def write_auth_string_def bindE_def split: sum.split)

lemma auth_prepare:
  assumes "auth_frame_ok env"
  shows "\<exists>n b. frame_prepare (au_junk env) (au_addr env) WRITE_SSL_CLEARTEXT (buf_alloc (au_junk env) 0 0) (au_frame env) = Inr (n, b)
    \<and> buf_wf b \<and> contents b = [] \<and> b_offset b < 9223372036854775808"
proof -
  let ?c = "au_frame env ! WRITE_SSL_CLEARTEXT" and ?b = "buf_alloc (au_junk env) 0 0"
  have c: "ctx_ok ?c" using assms by (simp add: auth_frame_ok_def)
  have "buf_wf ?b" "b_owned ?b" by (simp_all add: buf_wf_def buf_alloc_def has_flag_def fresh_mem_def)
  from ctx_prepare_ok [OF c this] obtain b where
    "ctx_prepare (au_junk env) (au_addr env) ?c ?b = Inr (fc_payload ?c, b)" "buf_wf b" "contents b = []"
    "b_offset b = actual_headroom (au_addr env) ?c" by blast
  moreover have "actual_headroom (au_addr env) ?c < 9223372036854775808"
    using actual_headroom_ok(2) [OF c, of "au_addr env"] assms c by (auto simp: auth_frame_ok_def ctx_ok_def)
  ultimately show ?thesis using assms by (auto simp: frame_prepare_def frame_index_def auth_frame_ok_def)
qed

lemma write_auth_message:
  assumes "write_auth env rng t = (Inr b', t', rest)" "auth_frame_ok env" "auth_strings_ok env creds"
    "tp_server (tp_self t) = au_server env" "rand_wf (tp_self t)"
    "64 + (if au_server env then 0 else 48) \<le> length rng"
  shows "buf_wf b' \<and> contents b' = auth_message env (tp_self t') creds \<and> rand_wf (tp_self t')
    \<and> tp_server (tp_self t') = au_server env"
proof -
  let ?j = "au_junk env"
  obtain n b0 where b0: "frame_prepare ?j (au_addr env) WRITE_SSL_CLEARTEXT (buf_alloc ?j 0 0) (au_frame env) = Inr (n, b0)"
    "buf_wf b0" "contents b0 = []" "b_offset b0 < 9223372036854775808" using auth_prepare [OF assms(2)] by blast
  have z: "b_size b0 = 0" using length_contents [OF b0(2)] b0(3) by simp
  obtain b1 where b1: "buf_write ?j auth_prefix b0 = Inr b1"
    using assms(1) b0(1) by (auto simp: write_auth_def Let_def split: sum.splits prod.splits)
  from write_Inr [OF b1 b0(2)] b0(3,4) z have w1: "buf_wf b1" "contents b1 = auth_prefix" "b_offset b1 = b_offset b0"
    by (simp_all add: auth_prefix_def)
  have s1: "b_size b1 = 5" using length_contents [OF w1(1)] w1(2) by (simp add: auth_prefix_def)
  obtain t2 rest2 where sr: "self_randomize rng t = (t2, rest2)" by fastforce
  have t2: "t2 = t'" using assms(1) by (simp add: write_auth_def b0(1) b1 sr Let_def)
  have "bindE (self_write ?j b1 t') (\<lambda>b. bindE (write_auth_string ?j (au_options env) b) (\<lambda>b.
       if \<not> au_server env
       then bindE (if au_xmit_creds env then au_client_auth env b else write_no_creds ?j b) (write_auth_string ?j (au_peer_info env))
       else Inr b)) = Inr b'"
    using assms(1) sr unfolding t2 by (simp add: write_auth_def b0(1) b1 Let_def)
  then obtain b2 b3 where b2: "self_write ?j b1 t' = Inr b2" and b3: "write_auth_string ?j (au_options env) b2 = Inr b3"
    and b4: "(if \<not> au_server env
       then bindE (if au_xmit_creds env then au_client_auth env b3 else write_no_creds ?j b3) (write_auth_string ?j (au_peer_info env))
       else Inr b3) = Inr b'"
    unfolding bindE_Inr_iff by blast
  have t': "t' = fst (self_randomize rng t)" using sr t2 by simp
  have r: "rand_wf (tp_self t')" "tp_server (tp_self t') = au_server env"
    using randomize_fields [of rng "tp_self t"] assms(4-6) t'
    by (auto simp: self_randomize_def split: prod.splits)
  have w2: "buf_wf b2" "contents b2 = auth_prefix @ rand_bytes (tp_self t')" "b_offset b2 = b_offset b0"
    using tp_write_bytes [OF b2 [unfolded self_write_def] w1(1) r(1)] w1 s1 b0(4) by auto
  have l: "length (rand_bytes (tp_self t')) \<le> 112" using r(1) by (simp add: rand_bytes_def rand_wf_def)
  have s2: "b_size b2 \<le> 117"
    using length_contents [OF w2(1)] w2(2) l by (simp add: auth_prefix_def)
  have lens: "length (au_options env) < 65535" "length (fst creds) < 65535" "length (fst (snd creds)) < 65535"
     "length (snd (snd creds)) < 65535" "auth_string (au_options env)"
    using assms(3) by (auto simp: auth_strings_ok_def auth_string_def)
  have w3: "buf_wf b3" "contents b3 = contents b2 @ auth_bytes (au_options env)" "b_offset b3 = b_offset b0"
    using write_auth_string_Inr [OF w2(1) lens(5) b3] w2(3) s2 lens(1) b0(4) by auto
  have s3: "b_size b3 \<le> 65655"
    using length_contents [OF w3(1)] length_contents [OF w2(1)] w3(2) s2 lens(1) length_auth_bytes [of "au_options env"] by simp
  show ?thesis
  proof (cases "au_server env")
    case True
    then show ?thesis using b4 w3 w2 r by (simp add: auth_message_def)
  next
    case False
    have "write_auth_strings ?j [fst creds, fst (snd creds), snd (snd creds)] b3 = Inr b'"
      using b4 False assms(3) by (auto simp: auth_strings_ok_def write_no_creds_strings bindE_Inr_iff split: if_splits)
    moreover have "list_all auth_string [fst creds, fst (snd creds), snd (snd creds)]"
      using assms(3) by (simp add: auth_strings_ok_def)
    ultimately have "buf_wf b' \<and> contents b' = contents b3 @ concat (map auth_bytes [fst creds, fst (snd creds), snd (snd creds)])"
      using w3(1,3) s3 lens b0(4) by (intro write_auth_strings_Inr) auto
    then show ?thesis using False w3(2) w2(2) r by (simp add: auth_message_def)
  qed
qed

lemma takes_message:
  assumes "auth_strings_ok env creds" "rand_wf r" "tp_server r = au_server env"
  shows "takes (flat_auth (\<not> au_server env) (if au_server env then 64 else 112)) (auth_message env r creds)"
proof -
  have n: "length (rand_bytes r) = (if au_server env then 64 else 112)"
    using assms(2,3) by (simp add: rand_bytes_def rand_wf_def)
  have a: "auth_string (au_options env)" "auth_string (fst creds)" "auth_string (fst (snd creds))" "auth_string (snd (snd creds))"
    using assms(1) by (auto simp: auth_strings_ok_def)
  have "takes Some []" by (simp add: takes_def)
  then have r: "takes (flat_rest (\<not> au_server env)) (if au_server env then []
      else auth_bytes (fst creds) @ auth_bytes (fst (snd creds)) @ auth_bytes (snd (snd creds)) @ [])"
    unfolding flat_rest_def by (cases "au_server env") (simp_all only: if_True if_False not_True_eq_False not_False_eq_True takes_bind takes_string a)
  show ?thesis
    using takes_bind [OF takes_advance [OF refl, of auth_prefix] takes_bind [OF takes_advance [OF n] takes_bind [OF takes_string [OF a(1)] r]]]
    by (cases "au_server env") (simp_all add: flat_auth_def auth_message_def)
qed

lemma recv_auth_message:
  assumes "buf_wf b" "contents b = auth_message senv r creds @ rest" "auth_strings_ok senv creds" "rand_wf r"
    "tp_server r = au_server senv" "tp_server (tp_peer t) = au_server senv" "au_server env = (\<not> au_server senv)"
  shows "\<exists>t'. recv_auth env b t = (if au_server env then bindE (au_server_auth env creds) (\<lambda>_. Inr (Some creds)) else Inr None, t')
    \<and> tp_self t' = tp_self t \<and> tp_initialized (tp_peer t') \<and> tp_server (tp_peer t') = au_server senv
    \<and> (\<not> au_server senv \<longrightarrow> tp_pre_master (tp_peer t') = tp_pre_master r)
    \<and> tp_random1 (tp_peer t') = tp_random1 r \<and> tp_random2 (tp_peer t') = tp_random2 r"
proof -
  obtain u p i where cr: "creds = (u, p, i)" by (cases creds) auto
  have a: "auth_string (au_options senv)" "auth_string u" "auth_string p" "auth_string i"
    using assms(3) by (auto simp: auth_strings_ok_def cr)
  let ?tail = "(if au_server senv then [] else auth_bytes u @ auth_bytes p @ auth_bytes i) @ rest"
  have "contents b = auth_prefix @ rand_bytes r @ auth_bytes (au_options senv) @ ?tail"
    using assms(2) by (simp add: auth_message_def cr)
  from bufq.read_prefix [OF assms(1) this] obtain b1 where b1: "buf_read (length auth_prefix) b = Inr (auth_prefix, b1)"
    "buf_wf b1" "contents b1 = rand_bytes r @ auth_bytes (au_options senv) @ ?tail" by auto
  from tp_read_bytes [OF b1(2,3) assms(4), of "tp_peer t"] assms(5,6) obtain b2 q where q: "tp_read b1 (tp_peer t) = (Inr b2, q)"
    "buf_wf b2" "contents b2 = auth_bytes (au_options senv) @ ?tail" "tp_initialized q" "tp_server q = au_server senv"
    "\<not> au_server senv \<longrightarrow> tp_pre_master q = tp_pre_master r" "tp_random1 q = tp_random1 r" "tp_random2 q = tp_random2 r"
    by auto
  from read_auth_string_bytes [OF q(2) a(1) q(3)] obtain b3 where b3: "read_auth_string b2 = Inr (au_options senv, b3)"
    "buf_wf b3" "contents b3 = ?tail" by blast
  have pr: "peer_read b1 t = (Inr b2, t\<lparr>tp_peer := q\<rparr>)" using q(1) by (simp add: peer_read_def)
  show ?thesis
  proof (cases "au_server env")
    case False
    then have "recv_auth env b t = (Inr None, t\<lparr>tp_peer := q\<rparr>)" by (simp add: recv_auth_def b1(1) pr b3(1))
    then show ?thesis using False q by simp
  next
    case True
    then have "contents b3 = auth_bytes u @ auth_bytes p @ auth_bytes i @ rest" using b3(3) assms(7) by simp
    from read_auth_string_bytes [OF b3(2) a(2) this] obtain b4 where b4: "read_auth_string b3 = Inr (u, b4)" "buf_wf b4"
      "contents b4 = auth_bytes p @ auth_bytes i @ rest" by blast
    from read_auth_string_bytes [OF b4(2) a(3) b4(3)] obtain b5 where b5: "read_auth_string b4 = Inr (p, b5)" "buf_wf b5"
      "contents b5 = auth_bytes i @ rest" by blast
    from read_auth_string_bytes [OF b5(2) a(4) b5(3)] obtain b6 where b6: "read_auth_string b5 = Inr (i, b6)" by blast
    have "recv_auth env b t = (bindE (au_server_auth env creds) (\<lambda>_. Inr (Some creds)), t\<lparr>tp_peer := q\<rparr>)"
      using True by (simp add: recv_auth_def b1(1) pr b3(1) b4(1) b5(1) b6 cr)
    then show ?thesis using True q by simp
  qed
qed


section \<open>Properties\<close>

text \<open>
  C17. The key exchange message round trips through any fragmentation. What one end writes, cut into
  any non-empty pieces, is recognised by the other end as complete when all of it has arrived and at
  no earlier point, in no other fragmentation either; reading it then gives the reader the
  randomness of the writer, and a server hands exactly the client's user name, password and peer
  info to its authentication method, whose verdict it returns. The options string between them is
  read over and dropped.
\<close>

theorem auth_message_exchanged:
  assumes "write_auth env rng t = (Inr b, t', rest)" "auth_frame_ok env" "auth_strings_ok env creds"
    "tp_server (tp_self t) = au_server env" "rand_wf (tp_self t)" "64 + (if au_server env then 0 else 48) \<le> length rng"
    "au_server env' = (\<not> au_server env)" "tp_server (tp_peer r) = au_server env"
    "concat frs = contents b" "[] \<notin> set frs"
  shows "fst (recv_auth_complete (au_server env') r (composed_complete frs))
    \<and> (\<forall>part more. concat part @ more = contents b \<longrightarrow> more \<noteq> [] \<longrightarrow> [] \<notin> set part
         \<longrightarrow> \<not> fst (recv_auth_complete (au_server env') r (composed_complete part)))
    \<and> (\<exists>r'. recv_auth env' (buf_view (join_buffers frs) True) r
           = (if au_server env' then bindE (au_server_auth env' creds) (\<lambda>_. Inr (Some creds)) else Inr None, r')
         \<and> tp_self r' = tp_self r \<and> tp_initialized (tp_peer r')
         \<and> (\<not> au_server env \<longrightarrow> tp_pre_master (tp_peer r') = tp_pre_master (tp_self t'))
         \<and> tp_random1 (tp_peer r') = tp_random1 (tp_self t') \<and> tp_random2 (tp_peer r') = tp_random2 (tp_self t'))"
proof -
  note w = write_auth_message [OF assms(1-6)]
  let ?n = "if au_server env then 64 else (112 :: nat)"
  have tk: "takes (flat_auth (au_server env') ?n) (contents b)"
    using takes_message [OF assms(3), of "tp_self t'"] w assms(7) by simp
  have ps: "parses (recv_auth_complete (au_server env') r) (flat_auth (au_server env') ?n)"
    using parses_auth [of "au_server env'" r] assms(8) by simp
  have 1: "fst (recv_auth_complete (au_server env') r (composed_complete frs))"
  proof -
    have "flat_auth (au_server env') ?n (contents b @ []) = Some []" using tk unfolding takes_def by blast
    then show ?thesis
      using parsesD(3) [OF ps composed_complete_full(1) [OF assms(10)], of "[]"] composed_complete_full(2) [OF assms(10)] assms(9)
      by simp
  qed
  have 2: "\<not> fst (recv_auth_complete (au_server env') r (composed_complete part))"
    if "concat part @ more = contents b" "more \<noteq> []" "[] \<notin> set part" for part more
  proof -
    have "flat_auth (au_server env') ?n (concat part) = None"
      using tk that(1,2) unfolding takes_def by metis
    then show ?thesis
      using parsesD(2) [OF ps composed_complete_full(1) [OF that(3)]] composed_complete_full(2) [OF that(3)] by simp
  qed
  have "buf_wf (buf_view (contents b) True)" "contents (buf_view (contents b) True) = auth_message env (tp_self t') creds @ []"
    using w length_contents [of b] by (auto simp: buf_wf_def buf_view_def contents_def)
  from recv_auth_message [OF this assms(3) _ _ assms(8,7)] w
  show ?thesis using 1 2 assms(9) by (auto simp: join_buffers_concat)
qed

text \<open>A client \<open>u\<close> with password \<open>p\<close>, and a server.\<close>

definition plain_auth_env :: "bool \<Rightarrow> auth_env" where
  "plain_auth_env server =
     \<lparr>au_server = server, au_xmit_creds = True, au_options = [86], au_peer_info = [73],
      au_client_auth = write_auth_strings (\<lambda>_. 0) [[117], [112]], au_server_auth = (\<lambda>_. Inr ()),
      au_frame = frame_of_context (make_context 16 200 16 0 1 0), au_junk = (\<lambda>_. 0), au_addr = 0\<rparr>"

lemma plain_auth_env_ok: "auth_frame_ok (plain_auth_env s)" "auth_strings_ok (plain_auth_env s) ([117], [112], [73])"
  by (auto simp: auth_frame_ok_def auth_strings_ok_def plain_auth_env_def frame_of_context_def ctx_ok_def make_context_def
      recalc_derived_def auth_string_def intro: exI [of _ 0])

text \<open>Writing succeeds where there is room.\<close>

definition room :: "buf \<Rightarrow> nat \<Rightarrow> bool" where
  "room b n \<longleftrightarrow> buf_wf b \<and> b_offset b + b_size b + n \<le> b_capacity b"

lemma room_write:
  assumes "room b (length xs + n)"
  shows "\<exists>b'. buf_write junk xs b = Inr b' \<and> room b' n \<and> b_size b' = b_size b + length xs"
proof -
  have w: "buf_wf b" "b_offset b + b_size b + (length xs + n) \<le> b_capacity b" "b_capacity b < size_t_limit"
    using assms by (auto simp: room_def buf_wf_def)
  then have "length xs \<le> buf_remaining 0 b" by (simp add: buf_remaining_def)
  then have e: "buf_write junk xs b = Inr (b\<lparr>b_mem := blit (b_offset b + b_size b) xs (b_mem b), b_size := b_size b + length xs\<rparr>)"
    by (simp add: buf_write_def)
  moreover have "room (b\<lparr>b_mem := blit (b_offset b + b_size b) xs (b_mem b), b_size := b_size b + length xs\<rparr>) n"
    using w by (auto simp: room_def buf_wf_def)
  ultimately show ?thesis by simp
qed

lemma room_less: "room b (m + n) \<Longrightarrow> room b n"
  by (simp add: room_def)

lemma room_auth_string:
  assumes "room b (length s + 3 + n)" "length s < 65535"
  shows "\<exists>b'. write_auth_string junk s b = Inr b' \<and> room b' n"
proof (cases "s = []")
  case True
  have "room b (length (be16 0) + (1 + n))" using assms(1) True by (simp add: room_def)
  then show ?thesis
    using room_write [of b "be16 0" "1 + n" junk] room_less [of _ 1 n] True
    by (auto simp: write_auth_string_def write_string_length_def)
next
  case False
  have "room b (length (be16 (of_nat (length s + 1))) + (length s + (1 + n)))" using assms(1) by (simp add: room_def)
  then obtain b1 where b1: "buf_write junk (be16 (of_nat (length s + 1))) b = Inr b1" "room b1 (length s + (1 + n))"
    using room_write by blast
  then obtain b2 where b2: "buf_write junk s b1 = Inr b2" "room b2 (1 + n)" "b_size b2 = b_size b1 + length s"
    using room_write by blast
  have wf: "buf_wf b2" "b_size b2 \<noteq> 0" using b2 False by (auto simp: room_def)
  have "\<exists>x. buf_back b2 = Inr x" using wf by (auto simp: buf_back_def buf_index_def buf_wf_def)
  moreover obtain b3 where b3: "buf_write junk [0] b2 = Inr b3" "room b3 n" using room_write [of b2 "[0]" n junk] b2(2) by auto
  ultimately have "\<exists>b'. buf_null_terminate junk b2 = Inr b' \<and> room b' n"
    using b2(2) wf room_less [of b2 1 n] by (auto simp: buf_null_terminate_def push_back_write)
  moreover have "write_auth_string junk s b = bindE (buf_write junk (be16 (of_nat (length s + 1))) b)
      (\<lambda>b. bindE (buf_write junk s b) (buf_null_terminate junk))"
    using False assms(2) by (simp add: write_auth_string_def write_string_length_def)
  ultimately show ?thesis using b1 b2 by simp
qed

lemma room_self_write:
  assumes "room b (112 + n)" "rand_wf (tp_self t)" "tp_initialized (tp_self t)"
  shows "\<exists>b'. self_write junk b t = Inr b' \<and> room b' n"
proof -
  let ?r = "tp_self t"
  have l: "length (tp_pre_master ?r) = 48" "length (tp_random1 ?r) = 32" "length (tp_random2 ?r) = 32"
    using assms(2) by (auto simp: rand_wf_def)
  have "room b (48 + (32 + (32 + n)))" using assms(1) by (simp add: room_def)
  then obtain b1 where b1: "(if \<not> tp_server ?r then buf_write junk (tp_pre_master ?r) b else Inr b) = Inr b1" "room b1 (32 + (32 + n))"
    using room_write [of b "tp_pre_master ?r" "32 + (32 + n)" junk] room_less [of b 48] l(1) by (cases "tp_server ?r") auto
  from b1(2) obtain b2 where b2: "buf_write junk (tp_random1 ?r) b1 = Inr b2" "room b2 (32 + n)"
    using room_write [of b1 "tp_random1 ?r" "32 + n" junk] l(2) by auto
  then obtain b3 where "buf_write junk (tp_random2 ?r) b2 = Inr b3" "room b3 n"
    using room_write [of b2 "tp_random2 ?r" n junk] l(3) by auto
  then show ?thesis using b1 b2 assms(3) by (simp add: self_write_def tp_write_def tp_verify_initialized_def)
qed

lemma auth_prepare_room:
  assumes "auth_frame_ok env" "n \<le> fc_payload (au_frame env ! WRITE_SSL_CLEARTEXT)"
  shows "\<exists>m b. frame_prepare (au_junk env) (au_addr env) WRITE_SSL_CLEARTEXT (buf_alloc (au_junk env) 0 0) (au_frame env) = Inr (m, b)
    \<and> room b n"
proof -
  let ?c = "au_frame env ! WRITE_SSL_CLEARTEXT" and ?b = "buf_alloc (au_junk env) 0 0"
  have c: "ctx_ok ?c" using assms by (simp add: auth_frame_ok_def)
  have "buf_wf ?b" "b_owned ?b" by (simp_all add: buf_wf_def buf_alloc_def has_flag_def fresh_mem_def)
  from ctx_prepare_ok [OF c this] obtain b where b:
    "ctx_prepare (au_junk env) (au_addr env) ?c ?b = Inr (fc_payload ?c, b)" "buf_wf b" "contents b = []"
    "b_offset b = actual_headroom (au_addr env) ?c" "fc_adj_capacity ?c \<le> b_capacity b" by blast
  have "b_size b = 0" using length_contents [OF b(2)] b(3) by simp
  then have "room b n"
    using b actual_headroom_ok(2) [OF c, of "au_addr env"] assms(2) c by (auto simp: room_def ctx_ok_def)
  then show ?thesis using b(1) assms(1) by (auto simp: frame_prepare_def frame_index_def auth_frame_ok_def)
qed

text \<open>A message that fits the payload of its frame context is written.\<close>

lemma write_auth_room:
  assumes "auth_frame_ok env" "auth_strings_ok env (u, p, i)" "rand_wf (tp_self t)" "tp_server (tp_self t) = au_server env"
    "64 + (if au_server env then 0 else 48) \<le> length rng"
    "129 + length (au_options env) + length u + length p + length i \<le> fc_payload (au_frame env ! WRITE_SSL_CLEARTEXT)"
  shows "\<exists>b t' rest. write_auth env rng t = (Inr b, t', rest)"
proof -
  let ?j = "au_junk env" and ?o = "length (au_options env) + 3" and ?u = "length u + 3" and ?p = "length p + 3" and ?i = "length i + 3"
  have a: "length (au_options env) < 65535" "length u < 65535" "length p < 65535" "length i < 65535"
    using assms(2) by (auto simp: auth_strings_ok_def auth_string_def)
  obtain m b0 where b0: "frame_prepare ?j (au_addr env) WRITE_SSL_CLEARTEXT (buf_alloc ?j 0 0) (au_frame env) = Inr (m, b0)"
    "room b0 (length auth_prefix + (112 + (?o + (?u + (?p + (?i + 0))))))"
    using auth_prepare_room [OF assms(1), of "length auth_prefix + (112 + (?o + (?u + (?p + (?i + 0)))))"] assms(6)
    by (auto simp: auth_prefix_def)
  obtain b1 where b1: "buf_write ?j auth_prefix b0 = Inr b1" "room b1 (112 + (?o + (?u + (?p + (?i + 0)))))"
    using room_write [OF b0(2)] by blast
  obtain t' rest where sr: "self_randomize rng t = (t', rest)" by fastforce
  have r: "rand_wf (tp_self t')" "tp_initialized (tp_self t')"
    using randomize_fields [of rng "tp_self t"] assms(3-5) sr by (auto simp: self_randomize_def split: prod.splits)
  obtain b2 where b2: "self_write ?j b1 t' = Inr b2" "room b2 (?o + (?u + (?p + (?i + 0))))"
    using room_self_write [OF b1(2) r] by blast
  obtain b3 where b3: "write_auth_string ?j (au_options env) b2 = Inr b3" "room b3 (?u + (?p + (?i + 0)))"
    using room_auth_string [OF b2(2) a(1)] by blast
  obtain b4 where b4: "write_auth_string ?j u b3 = Inr b4" "room b4 (?p + (?i + 0))" using room_auth_string [OF b3(2) a(2)] by blast
  obtain b5 where b5: "write_auth_string ?j p b4 = Inr b5" "room b5 (?i + 0)" using room_auth_string [OF b4(2) a(3)] by blast
  obtain b6 where b6: "write_auth_string ?j i b5 = Inr b6" using room_auth_string [OF b5(2) a(4)] by blast
  have "(if au_xmit_creds env then au_client_auth env b3 else write_no_creds ?j b3) = Inr b5"
    using assms(2) b4(1) b5(1) by (auto simp: auth_strings_ok_def write_no_creds_strings)
  then show ?thesis
    using b6 assms(2) by (simp add: write_auth_def b0(1) b1(1) sr b2(1) b3(1) auth_strings_ok_def Let_def)
qed

theorem auth_message_exchanged_witness:
  "\<exists>b t' rest r'. write_auth (plain_auth_env False) (replicate 112 1) (tls_prf_new (\<lambda>_. 0) False) = (Inr b, t', rest)
     \<and> recv_auth (plain_auth_env True) (buf_view (join_buffers [contents b]) True) (tls_prf_new (\<lambda>_. 0) True)
       = (Inr (Some ([117], [112], [73])), r')"
proof -
  let ?t = "tls_prf_new (\<lambda>_. 0) False" and ?r = "tls_prf_new (\<lambda>_. 0) True"
  have t: "tp_server (tp_self ?t) = au_server (plain_auth_env False)" "rand_wf (tp_self ?t)"
    "64 + (if au_server (plain_auth_env False) then 0 else 48) \<le> length (replicate 112 (1 :: byte))"
    "au_server (plain_auth_env True) = (\<not> au_server (plain_auth_env False))"
    "tp_server (tp_peer ?r) = au_server (plain_auth_env False)"
    using tp_new_fields by (simp_all add: tls_prf_new_def plain_auth_env_def)
  have "129 + length (au_options (plain_auth_env False)) + length [117::byte] + length [112::byte] + length [73::byte]
      \<le> fc_payload (au_frame (plain_auth_env False) ! WRITE_SSL_CLEARTEXT)"
    by (simp add: plain_auth_env_def frame_of_context_def make_context_def recalc_derived_def)
  from write_auth_room [OF plain_auth_env_ok(1) plain_auth_env_ok(2) t(2,1,3) this]
  obtain b t' rest where w: "write_auth (plain_auth_env False) (replicate 112 1) ?t = (Inr b, t', rest)" by blast
  have "contents b = auth_prefix @ tl (contents b) \<or> contents b \<noteq> []"
    using write_auth_message [OF w plain_auth_env_ok t(1-3)] by (auto simp: auth_message_def auth_prefix_def)
  then have "concat [contents b] = contents b" "[] \<notin> set [contents b]" by (auto simp: auth_prefix_def)
  from auth_message_exchanged [OF w plain_auth_env_ok t this]
  show ?thesis using w by (auto simp: plain_auth_env_def)
qed

end
