(* ===== verification/Crypto_Algs.thy ===== *)
theory Crypto_Algs
  imports Vpn_Prelude
begin

text \<open>
  \<^verbatim>\<open>crypto/cryptoalgs.hpp\<close>: the ciphers and digests the protocol knows, their table and the
  questions the data channel asks about them.
\<close>

section \<open>The table\<close>

datatype key_derivation = UNDEFINED | OPENVPN_PRF | TLS_EKM

definition key_derivation_name :: "key_derivation \<Rightarrow> string" where
  "key_derivation_name kd =
     (case kd of UNDEFINED \<Rightarrow> ''[PRF undefined]'' | OPENVPN_PRF \<Rightarrow> ''OpenVPN PRF''
      | TLS_EKM \<Rightarrow> ''TLS Keying Material Exporter [RFC5705]'')"

datatype crypto_alg =
    ALG_NONE
  | AES_128_CBC | AES_192_CBC | AES_256_CBC | DES_CBC | DES_EDE3_CBC | BF_CBC
  | AES_256_CTR
  | AES_128_GCM | AES_192_GCM | AES_256_GCM | CHACHA20_POLY1305
  | ALG_MD4 | ALG_MD5 | ALG_SHA1 | ALG_SHA224 | ALG_SHA256 | ALG_SHA384 | ALG_SHA512

datatype crypto_mode = MODE_UNDEF | CBC_HMAC | AEAD | MODE_MASK

text \<open>The flag word: the mode in the two low bits, the flags above.\<close>

abbreviation (input) F_CBC_HMAC :: u32 where "F_CBC_HMAC \<equiv> 1"
abbreviation (input) F_AEAD :: u32 where "F_AEAD \<equiv> 2"
abbreviation (input) F_CIPHER :: u32 where "F_CIPHER \<equiv> 4"
abbreviation (input) F_DIGEST :: u32 where "F_DIGEST \<equiv> 8"
abbreviation (input) F_ALLOW_DC :: u32 where "F_ALLOW_DC \<equiv> 16"
abbreviation (input) F_NO_CIPHER_DIGEST :: u32 where "F_NO_CIPHER_DIGEST \<equiv> 32"

record alg =
  al_name :: string
  al_flags :: u32
  al_size :: nat
  al_iv_length :: nat
  al_block_size :: nat

definition mk_alg :: "string \<Rightarrow> u32 \<Rightarrow> nat \<Rightarrow> nat \<Rightarrow> nat \<Rightarrow> alg" where
  "mk_alg name flags sz iv_length block_size =
     \<lparr>al_name = name, al_flags = flags, al_size = sz, al_iv_length = iv_length, al_block_size = block_size\<rparr>"

definition alg_mode :: "alg \<Rightarrow> crypto_mode" where
  "alg_mode a = [MODE_UNDEF, CBC_HMAC, AEAD, MODE_MASK] ! unat (al_flags a AND 3)"

definition algs :: "alg list" where
  "algs =
    [mk_alg ''NONE'' (F_CIPHER OR F_DIGEST OR F_ALLOW_DC OR F_CBC_HMAC) 0 0 0,
     mk_alg ''AES-128-CBC'' (F_CIPHER OR F_ALLOW_DC OR F_CBC_HMAC) 16 16 16,
     mk_alg ''AES-192-CBC'' (F_CIPHER OR F_ALLOW_DC OR F_CBC_HMAC) 24 16 16,
     mk_alg ''AES-256-CBC'' (F_CIPHER OR F_ALLOW_DC OR F_CBC_HMAC) 32 16 16,
     mk_alg ''DES-CBC'' (F_CIPHER OR F_ALLOW_DC OR F_CBC_HMAC) 8 8 8,
     mk_alg ''DES-EDE3-CBC'' (F_CIPHER OR F_ALLOW_DC OR F_CBC_HMAC) 24 8 8,
     mk_alg ''BF-CBC'' (F_CIPHER OR F_ALLOW_DC OR F_CBC_HMAC) 16 8 8,
     mk_alg ''AES-256-CTR'' F_CIPHER 32 16 16,
     mk_alg ''AES-128-GCM'' (F_CIPHER OR F_ALLOW_DC OR F_AEAD OR F_NO_CIPHER_DIGEST) 16 12 16,
     mk_alg ''AES-192-GCM'' (F_CIPHER OR F_ALLOW_DC OR F_AEAD OR F_NO_CIPHER_DIGEST) 24 12 16,
     mk_alg ''AES-256-GCM'' (F_CIPHER OR F_ALLOW_DC OR F_AEAD OR F_NO_CIPHER_DIGEST) 32 12 16,
     mk_alg ''CHACHA20-POLY1305'' (F_CIPHER OR F_ALLOW_DC OR F_AEAD OR F_NO_CIPHER_DIGEST) 32 12 16,
     mk_alg ''MD4'' F_DIGEST 16 0 0,
     mk_alg ''MD5'' (F_DIGEST OR F_ALLOW_DC) 16 0 0,
     mk_alg ''SHA1'' (F_DIGEST OR F_ALLOW_DC) 20 0 0,
     mk_alg ''SHA224'' (F_DIGEST OR F_ALLOW_DC) 28 0 0,
     mk_alg ''SHA256'' (F_DIGEST OR F_ALLOW_DC) 32 0 0,
     mk_alg ''SHA384'' (F_DIGEST OR F_ALLOW_DC) 48 0 0,
     mk_alg ''SHA512'' (F_DIGEST OR F_ALLOW_DC) 64 0 0]"

text \<open>The enumeration in order: the conversions between a value and its index.\<close>

definition alg_types :: "crypto_alg list" where
  "alg_types = [ALG_NONE, AES_128_CBC, AES_192_CBC, AES_256_CBC, DES_CBC, DES_EDE3_CBC, BF_CBC, AES_256_CTR,
     AES_128_GCM, AES_192_GCM, AES_256_GCM, CHACHA20_POLY1305, ALG_MD4, ALG_MD5, ALG_SHA1, ALG_SHA224,
     ALG_SHA256, ALG_SHA384, ALG_SHA512]"

definition alg_index :: "crypto_alg \<Rightarrow> nat" where
  "alg_index t = length (takeWhile (\<lambda>x. x \<noteq> t) alg_types)"


section \<open>Questions\<close>

definition alg_defined :: "crypto_alg \<Rightarrow> bool" where
  "alg_defined t = (t \<noteq> ALG_NONE)"

definition get_index :: "nat \<Rightarrow> alg res" where
  "get_index i = (if i \<ge> length algs then Inl (Std_exception ''crypto_alg_index'') else Inr (algs ! i))"

definition alg_get :: "crypto_alg \<Rightarrow> alg res" where
  "alg_get t = get_index (alg_index t)"

text \<open>\<open>strcasecmp\<close> in the C locale compares without regard to the case of ASCII letters.\<close>

definition ascii_lower :: "char \<Rightarrow> char" where
  "ascii_lower c =
     (case map_of (zip ''ABCDEFGHIJKLMNOPQRSTUVWXYZ'' ''abcdefghijklmnopqrstuvwxyz'') c of Some d \<Rightarrow> d | None \<Rightarrow> c)"

definition strcase_eq :: "string \<Rightarrow> string \<Rightarrow> bool" where
  "strcase_eq s t = (map ascii_lower s = map ascii_lower t)"

fun alg_lookup_from :: "nat \<Rightarrow> alg list \<Rightarrow> string \<Rightarrow> crypto_alg res" where
  "alg_lookup_from i [] name = Inl (Std_exception (''crypto_alg: '' @ name @ '': not found''))"
| "alg_lookup_from i (a # as) name =
     (if strcase_eq name (al_name a) then Inr (alg_types ! i) else alg_lookup_from (Suc i) as name)"

definition alg_lookup :: "string \<Rightarrow> crypto_alg res" where
  "alg_lookup name = alg_lookup_from 0 algs name"

definition alg_name :: "crypto_alg \<Rightarrow> string res" where
  "alg_name t = bindE (alg_get t) (\<lambda>a. Inr (al_name a))"

definition alg_name_default :: "crypto_alg \<Rightarrow> string \<Rightarrow> string res" where
  "alg_name_default t default_name = (if t = ALG_NONE then Inr default_name else alg_name t)"

definition alg_size :: "crypto_alg \<Rightarrow> nat res" where
  "alg_size t = bindE (alg_get t) (\<lambda>a. Inr (al_size a))"

definition alg_key_length :: "crypto_alg \<Rightarrow> nat res" where
  "alg_key_length t = bindE (alg_get t) (\<lambda>a. Inr (al_size a))"

definition alg_iv_length :: "crypto_alg \<Rightarrow> nat res" where
  "alg_iv_length t = bindE (alg_get t) (\<lambda>a. Inr (al_iv_length a))"

definition alg_block_size :: "crypto_alg \<Rightarrow> nat res" where
  "alg_block_size t = bindE (alg_get t) (\<lambda>a. Inr (al_block_size a))"

definition alg_type_mode :: "crypto_alg \<Rightarrow> crypto_mode res" where
  "alg_type_mode t = bindE (alg_get t) (\<lambda>a. Inr (alg_mode a))"

definition legal_dc_cipher :: "crypto_alg \<Rightarrow> crypto_alg res" where
  "legal_dc_cipher t =
     bindE (alg_get t) (\<lambda>a.
       if al_flags a AND (F_CIPHER OR F_ALLOW_DC) \<noteq> F_CIPHER OR F_ALLOW_DC
       then Inl (Std_exception (''crypto_alg: '' @ al_name a @ '': bad cipher for data channel use''))
       else Inr t)"

definition legal_dc_digest :: "crypto_alg \<Rightarrow> crypto_alg res" where
  "legal_dc_digest t =
     bindE (alg_get t) (\<lambda>a.
       if al_flags a AND (F_DIGEST OR F_ALLOW_DC) \<noteq> F_DIGEST OR F_ALLOW_DC
       then Inl (Std_exception (''crypto_alg: '' @ al_name a @ '': bad digest for data channel use''))
       else Inr t)"

definition use_cipher_digest :: "crypto_alg \<Rightarrow> bool res" where
  "use_cipher_digest t = bindE (alg_get t) (\<lambda>a. Inr (al_flags a AND F_NO_CIPHER_DIGEST = 0))"


section \<open>The table is consistent with the enumeration\<close>

lemma alg_types_all: "set alg_types = UNIV" "distinct alg_types"
proof -
  have "t \<in> set alg_types" for t by (cases t) (simp_all add: alg_types_def)
  then show "set alg_types = UNIV" by blast
qed (simp add: alg_types_def)

lemma alg_types_index: "alg_types ! alg_index t = t"
  by (cases t) (simp_all add: alg_index_def alg_types_def)

lemma alg_get_total: "alg_get t = Inr (algs ! alg_index t)"
  by (cases t) (simp_all add: alg_get_def get_index_def alg_index_def alg_types_def algs_def)

lemma all_algs: "list_all P alg_types \<Longrightarrow> P t"
  using alg_types_all by (auto simp: list_all_iff)

text \<open>Every algorithm is found under its name.\<close>

lemma alg_lookup_name: "bindE (alg_name t) alg_lookup = Inr t"
  by (rule all_algs [where P = "\<lambda>t. bindE (alg_name t) alg_lookup = Inr t"]) code_simp

text \<open>What the data channel may use: a cipher is legal exactly when it runs in CBC or AEAD mode.\<close>

lemma legal_dc_cipher_iff:
  "ok (legal_dc_cipher t) \<longleftrightarrow> alg_type_mode t = Inr CBC_HMAC \<or> alg_type_mode t = Inr AEAD"
proof -
  have "list_all (\<lambda>t. (case legal_dc_cipher t of Inl _ \<Rightarrow> False | Inr _ \<Rightarrow> True)
      = (alg_type_mode t = Inr CBC_HMAC \<or> alg_type_mode t = Inr AEAD)) alg_types"
    by code_simp
  from all_algs [OF this, of t] show ?thesis by (cases "legal_dc_cipher t") auto
qed

lemma aead_ciphers:
  "alg_type_mode t = Inr AEAD \<longleftrightarrow> use_cipher_digest t = Inr False"
  "alg_type_mode t = Inr AEAD \<longrightarrow> alg_iv_length t = Inr 12"
proof -
  have "list_all (\<lambda>t. (alg_type_mode t = Inr AEAD \<longleftrightarrow> use_cipher_digest t = Inr False)
    \<and> (alg_type_mode t = Inr AEAD \<longrightarrow> alg_iv_length t = Inr 12)) alg_types"
    by code_simp
  from all_algs [OF this] show "alg_type_mode t = Inr AEAD \<longleftrightarrow> use_cipher_digest t = Inr False"
    "alg_type_mode t = Inr AEAD \<longrightarrow> alg_iv_length t = Inr 12" by auto
qed

end
