(* ===== verification/Crypto_Dc.thy ===== *)
theory Crypto_Dc
  imports Crypto_Algs Frames Error_Types
begin

text \<open>
  \<^verbatim>\<open>crypto/cryptodc.hpp\<close> and \<^verbatim>\<open>crypto/cryptodcsel.hpp\<close>: the settings of the data channel, the choice
  between its two implementations, and what the protocol relies on in either of them, as a locale.
\<close>

section \<open>Choosing an implementation\<close>

datatype dc_context =
    CryptoContextCHM crypto_alg crypto_alg key_derivation
  | AeadCryptoContext crypto_alg key_derivation

record dc_info =
  di_cipher_alg :: crypto_alg
  di_hmac_alg :: crypto_alg
  di_key_derivation :: key_derivation

abbreviation (input) AUTH_TAG_LEN :: nat where "AUTH_TAG_LEN \<equiv> 16"

definition dc_select :: "crypto_alg \<Rightarrow> crypto_alg \<Rightarrow> key_derivation \<Rightarrow> dc_context res" where
  "dc_select cipher digest method =
     bindE (alg_get cipher) (\<lambda>alg.
       if al_flags alg AND F_CBC_HMAC \<noteq> 0
       then bindE (legal_dc_cipher cipher) (\<lambda>c. bindE (legal_dc_digest digest) (\<lambda>d.
            Inr (CryptoContextCHM c d method)))
       else if al_flags alg AND F_AEAD \<noteq> 0
       then bindE (legal_dc_cipher cipher) (\<lambda>c. Inr (AeadCryptoContext c method))
       else Inl (Std_exception (''crypto_dc_select: '' @ al_name alg
              @ '': only CBC/HMAC and AEAD cipher modes supported'')))"

definition dc_crypto_info :: "dc_context \<Rightarrow> dc_info" where
  "dc_crypto_info c =
     (case c of
        CryptoContextCHM cipher digest kd \<Rightarrow>
          \<lparr>di_cipher_alg = cipher, di_hmac_alg = digest, di_key_derivation = kd\<rparr>
      | AeadCryptoContext cipher kd \<Rightarrow>
          \<lparr>di_cipher_alg = cipher, di_hmac_alg = ALG_NONE, di_key_derivation = kd\<rparr>)"

definition encap_overhead :: "dc_context \<Rightarrow> nat res" where
  "encap_overhead c =
     (case c of
        CryptoContextCHM cipher digest kd \<Rightarrow>
          bindE (alg_size digest) (\<lambda>n. bindE (alg_iv_length cipher) (\<lambda>iv.
          bindE (alg_block_size cipher) (\<lambda>bs. Inr (n + iv + bs))))
      | AeadCryptoContext cipher kd \<Rightarrow> Inr AUTH_TAG_LEN)"

text \<open>What \<open>defined\<close> answers: which of the initialisers may be called.\<close>

abbreviation (input) CIPHER_DEFINED :: u32 where "CIPHER_DEFINED \<equiv> 1"
abbreviation (input) HMAC_DEFINED :: u32 where "HMAC_DEFINED \<equiv> 2"
abbreviation (input) CRYPTO_DEFINED :: u32 where "CRYPTO_DEFINED \<equiv> 4"

definition dc_chm_defined :: "crypto_alg \<Rightarrow> crypto_alg \<Rightarrow> u32" where
  "dc_chm_defined cipher digest =
     (let ret = CRYPTO_DEFINED;
          ret = (if alg_defined cipher then ret OR CIPHER_DEFINED else ret)
      in if alg_defined digest then ret OR HMAC_DEFINED else ret)"

definition dc_aead_defined :: "crypto_alg \<Rightarrow> u32" where
  "dc_aead_defined cipher =
     (if alg_defined cipher then CRYPTO_DEFINED OR (CIPHER_DEFINED OR HMAC_DEFINED) else CRYPTO_DEFINED)"


section \<open>Settings\<close>

record 'c dc_settings =
  ds_cipher :: crypto_alg
  ds_digest :: crypto_alg
  ds_key_derivation :: key_derivation
  ds_factory :: "(crypto_alg \<Rightarrow> crypto_alg \<Rightarrow> key_derivation \<Rightarrow> 'c res) option"
  ds_context :: "'c option"
  ds_dirty :: bool

definition ds_new :: "'c dc_settings" where
  "ds_new = \<lparr>ds_cipher = ALG_NONE, ds_digest = ALG_NONE, ds_key_derivation = OPENVPN_PRF,
     ds_factory = None, ds_context = None, ds_dirty = False\<rparr>"

definition ds_set_factory ::
  "(crypto_alg \<Rightarrow> crypto_alg \<Rightarrow> key_derivation \<Rightarrow> 'c res) option \<Rightarrow> 'c dc_settings \<Rightarrow> 'c dc_settings" where
  "ds_set_factory f s = s\<lparr>ds_factory := f, ds_context := None, ds_dirty := False\<rparr>"

definition ds_set_cipher :: "crypto_alg \<Rightarrow> 'c dc_settings \<Rightarrow> 'c dc_settings" where
  "ds_set_cipher c s = (if c \<noteq> ds_cipher s then s\<lparr>ds_cipher := c, ds_dirty := True\<rparr> else s)"

definition ds_set_digest :: "crypto_alg \<Rightarrow> 'c dc_settings \<Rightarrow> 'c dc_settings" where
  "ds_set_digest d s = (if d \<noteq> ds_digest s then s\<lparr>ds_digest := d, ds_dirty := True\<rparr> else s)"

definition ds_set_key_derivation :: "key_derivation \<Rightarrow> 'c dc_settings \<Rightarrow> 'c dc_settings" where
  "ds_set_key_derivation k s = s\<lparr>ds_key_derivation := k\<rparr>"

definition ds_get_context :: "'c dc_settings \<Rightarrow> 'c res \<times> 'c dc_settings" where
  "ds_get_context s =
     (case ds_context s of
        Some c \<Rightarrow>
          if \<not> ds_dirty s then (Inr c, s)
          else (case ds_factory s of
                  None \<Rightarrow> (Inl (Std_exception ''no_data_channel_factory''), s)
                | Some f \<Rightarrow>
                    (case f (ds_cipher s) (ds_digest s) (ds_key_derivation s) of
                       Inl e \<Rightarrow> (Inl e, s)
                     | Inr c \<Rightarrow> (Inr c, s\<lparr>ds_context := Some c, ds_dirty := False\<rparr>)))
      | None \<Rightarrow>
          (case ds_factory s of
             None \<Rightarrow> (Inl (Std_exception ''no_data_channel_factory''), s)
           | Some f \<Rightarrow>
               (case f (ds_cipher s) (ds_digest s) (ds_key_derivation s) of
                  Inl e \<Rightarrow> (Inl e, s)
                | Inr c \<Rightarrow> (Inr c, s\<lparr>ds_context := Some c, ds_dirty := False\<rparr>))))"

definition ds_reset :: "'c dc_settings \<Rightarrow> 'c dc_settings" where
  "ds_reset s = s\<lparr>ds_factory := None, ds_context := None, ds_dirty := False\<rparr>"

definition ds_get_digest :: "'c dc_settings \<Rightarrow> crypto_alg res" where
  "ds_get_digest s = bindE (use_cipher_digest (ds_cipher s)) (\<lambda>u. Inr (if u then ds_digest s else ALG_NONE))"

text \<open>Calls on the settings in any order.\<close>

datatype 'c ds_call =
    Call_set_factory "(crypto_alg \<Rightarrow> crypto_alg \<Rightarrow> key_derivation \<Rightarrow> 'c res) option"
  | Call_set_cipher crypto_alg | Call_set_digest crypto_alg | Call_set_key_derivation key_derivation
  | Call_context | Call_reset

definition ds_call :: "'c ds_call \<Rightarrow> 'c dc_settings \<Rightarrow> 'c dc_settings" where
  "ds_call c s =
     (case c of
        Call_set_factory f \<Rightarrow> ds_set_factory f s | Call_set_cipher a \<Rightarrow> ds_set_cipher a s
      | Call_set_digest a \<Rightarrow> ds_set_digest a s | Call_set_key_derivation k \<Rightarrow> ds_set_key_derivation k s
      | Call_context \<Rightarrow> snd (ds_get_context s) | Call_reset \<Rightarrow> ds_reset s)"

definition ds_current :: "'c dc_settings \<Rightarrow> bool" where
  "ds_current s \<longleftrightarrow> (\<forall>c. ds_context s = Some c \<longrightarrow> \<not> ds_dirty s \<longrightarrow>
     (\<exists>f k. ds_factory s = Some f \<and> f (ds_cipher s) (ds_digest s) k = Inr c))"

lemma ds_call_current: "ds_current s \<Longrightarrow> ds_current (ds_call c s)"
  by (cases c) (auto simp: ds_call_def ds_current_def ds_set_factory_def ds_set_cipher_def ds_set_digest_def
      ds_set_key_derivation_def ds_reset_def ds_get_context_def split: option.splits sum.splits)

lemma ds_calls_current: "ds_current s \<Longrightarrow> ds_current (fold ds_call cs s)"
  by (induction cs arbitrary: s) (simp_all add: ds_call_current)

lemma ds_new_current: "ds_current ds_new"
  by (simp add: ds_current_def ds_new_def)

lemma ds_get_context_current:
  assumes "ds_current s" "ds_get_context s = (Inr c, s')"
  shows "\<exists>f k. ds_factory s' = Some f \<and> f (ds_cipher s) (ds_digest s) k = Inr c \<and> ds_context s' = Some c \<and> \<not> ds_dirty s'"
  using assms by (auto simp: ds_get_context_def ds_current_def split: option.splits sum.splits if_splits)

text \<open>A change of the key derivation alone does not reach a context that exists already.\<close>

lemma ds_key_derivation_stale:
  assumes "ds_context s = Some c" "\<not> ds_dirty s"
  shows "fst (ds_get_context (ds_set_key_derivation k s)) = Inr c"
  using assms by (simp add: ds_get_context_def ds_set_key_derivation_def)

text \<open>
  The data channel context the protocol works with is never out of date: after any sequence of
  calls on the settings, what \<open>context()\<close> returns is what the present factory makes of the present
  cipher and digest, whenever they were set.
\<close>

lemma dc_context_current:
  "ds_get_context (fold ds_call cs ds_new) = (Inr c, s') \<Longrightarrow>
   \<exists>f k. ds_factory s' = Some f
     \<and> f (ds_cipher (fold ds_call cs ds_new)) (ds_digest (fold ds_call cs ds_new)) k = Inr c"
  by (drule ds_get_context_current [OF ds_calls_current [OF ds_new_current]]) auto

lemma dc_context_current_at:
  "\<exists>s'. ds_get_context (fold ds_call [Call_set_factory (Some dc_select), Call_set_cipher AES_256_CBC,
       Call_set_digest ALG_SHA1, Call_context, Call_set_cipher AES_256_GCM] ds_new)
     = (Inr (AeadCryptoContext AES_256_GCM OPENVPN_PRF), s')
   \<and> (\<exists>f k. ds_factory s' = Some f \<and> f AES_256_GCM ALG_SHA1 k = Inr (AeadCryptoContext AES_256_GCM OPENVPN_PRF))"
proof -
  let ?cs = "[Call_set_factory (Some dc_select), Call_set_cipher AES_256_CBC, Call_set_digest ALG_SHA1,
    Call_context, Call_set_cipher AES_256_GCM]"
  have s: "dc_select AES_256_CBC ALG_SHA1 OPENVPN_PRF = Inr (CryptoContextCHM AES_256_CBC ALG_SHA1 OPENVPN_PRF)"
    "dc_select AES_256_GCM ALG_SHA1 OPENVPN_PRF = Inr (AeadCryptoContext AES_256_GCM OPENVPN_PRF)"
    by code_simp+
  note run = ds_call_def ds_new_def ds_set_factory_def ds_set_cipher_def ds_set_digest_def ds_get_context_def s
  obtain s' where g: "ds_get_context (fold ds_call ?cs ds_new) = (Inr (AeadCryptoContext AES_256_GCM OPENVPN_PRF), s')"
    by (simp add: run)
  have "ds_cipher (fold ds_call ?cs ds_new) = AES_256_GCM" "ds_digest (fold ds_call ?cs ds_new) = ALG_SHA1"
    by (simp_all add: run)
  then show ?thesis using g dc_context_current [OF g] by metis
qed

section \<open>What the protocol relies on\<close>

text \<open>
  The interface of \<open>CryptoDCInstance\<close>. \<open>paired s r\<close>: sender and receiver hold the two ends of one
  key, and the receiver has seen nothing newer than the sender has sent; \<open>left s\<close> packets may still be
  sent under the key. A packet that is sent is either lost, or decrypted to what it was; there is room in front of it for the head of the protocol.
\<close>

record dc_event =
  ev_op32 :: "byte list option"
  ev_sent :: int
  ev_received :: int
  ev_lost :: bool
  ev_packet :: buf

fun channel_run ::
  "(byte list option \<Rightarrow> int \<Rightarrow> buf \<Rightarrow> 's \<Rightarrow> (buf \<times> bool) res \<times> 's)
   \<Rightarrow> (byte list option \<Rightarrow> int \<Rightarrow> buf \<Rightarrow> 'r \<Rightarrow> (error_type \<times> buf) res \<times> 'r)
   \<Rightarrow> dc_event list \<Rightarrow> 's \<Rightarrow> 'r \<Rightarrow> (error_type \<times> byte list) res list" where
  "channel_run enc dec [] s r = []"
| "channel_run enc dec (e # es) s r =
     (case enc (ev_op32 e) (ev_sent e) (ev_packet e) s of
        (Inl x, s) \<Rightarrow> Inl x # channel_run enc dec es s r
      | (Inr (b, _), s) \<Rightarrow>
          (if ev_lost e then channel_run enc dec es s r
           else (case dec (ev_op32 e) (ev_received e) b r of
                   (Inl x, r) \<Rightarrow> Inl x # channel_run enc dec es s r
                 | (Inr (err, b), r) \<Rightarrow> Inr (err, contents b) # channel_run enc dec es s r)))"

text \<open>A buffer in which the bytes of \<open>b\<close> have arrived, after whatever memory they went through.\<close>

definition arrives :: "buf \<Rightarrow> buf \<Rightarrow> bool" where
  "arrives rb b \<longleftrightarrow> buf_wf rb \<and> b_owned rb \<and> contents rb = contents b"

locale data_channel =
  fixes enc :: "byte list option \<Rightarrow> int \<Rightarrow> buf \<Rightarrow> 's \<Rightarrow> (buf \<times> bool) res \<times> 's"
    and dec :: "byte list option \<Rightarrow> int \<Rightarrow> buf \<Rightarrow> 'r \<Rightarrow> (error_type \<times> buf) res \<times> 'r"
    and paired :: "'s \<Rightarrow> 'r \<Rightarrow> bool"
    and sendable :: "byte list option \<Rightarrow> buf \<Rightarrow> bool"
    and left :: "'s \<Rightarrow> nat"
  assumes transmit: "paired s r \<Longrightarrow> sendable opc b \<Longrightarrow> 0 < left s \<Longrightarrow>
    \<exists>b' warn s'. enc opc now b s = (Inr (b', warn), s') \<and> left s \<le> Suc (left s') \<and> paired s' r
      \<and> arrives b' b' \<and> 4 \<le> b_offset b'
      \<and> (\<forall>now' rb. arrives rb b' \<longrightarrow> (\<exists>b'' r'. dec opc now' rb r = (Inr (SUCCESS, b''), r') \<and> buf_wf b''
           \<and> contents b'' = contents b \<and> paired s' r'))"
begin

text \<open>Whatever is lost, the rest arrives in order and unchanged.\<close>

lemma run_delivers:
  assumes "paired s r" "\<And>e. e \<in> set es \<Longrightarrow> sendable (ev_op32 e) (ev_packet e)" "length es \<le> left s"
  shows "channel_run enc dec es s r = map (\<lambda>e. Inr (SUCCESS, contents (ev_packet e))) (filter (\<lambda>e. \<not> ev_lost e) es)"
  using assms
proof (induction es arbitrary: s r)
  case (Cons e es)
  obtain b' warn s' where t: "enc (ev_op32 e) (ev_sent e) (ev_packet e) s = (Inr (b', warn), s')"
    "left s \<le> Suc (left s')" "paired s' r"
    "\<forall>now'. \<exists>b'' r'. dec (ev_op32 e) now' b' r = (Inr (SUCCESS, b''), r') \<and> contents b'' = contents (ev_packet e) \<and> paired s' r'"
    using transmit [OF Cons.prems(1), of "ev_op32 e" "ev_packet e" "ev_sent e"] Cons.prems(2,3) by fastforce
  obtain b'' r' where d: "dec (ev_op32 e) (ev_received e) b' r = (Inr (SUCCESS, b''), r')"
    "contents b'' = contents (ev_packet e)" "paired s' r'" using t(4) by blast
  have l: "length es \<le> left s'" using Cons.prems(3) t(2) by simp
  show ?case
    using t(1) d Cons.IH [OF t(3) _ l] Cons.IH [OF d(3) _ l] Cons.prems(2) by simp
qed simp

end


section \<open>Working buffers\<close>

definition frame_ok :: "frame \<Rightarrow> bool" where
  "frame_ok f \<longleftrightarrow> length f = N_ALIGN_CONTEXTS \<and> (\<forall>c \<in> set f. ctx_ok c)"

lemma frame_prepare_ok:
  assumes "frame_ok f" "buf_wf w" "b_owned w" "i < N_ALIGN_CONTEXTS"
  shows "\<exists>w'. frame_prepare junk base i w f = Inr (fc_payload (f ! i), w') \<and> buf_wf w' \<and> contents w' = []
    \<and> b_owned w' \<and> b_size w' = 0 \<and> fc_payload (f ! i) \<le> buf_max_size w' \<and> fc_headroom (f ! i) \<le> b_offset w'"
proof -
  let ?c = "f ! i"
  have c: "ctx_ok ?c" using assms(1,4) by (simp add: frame_ok_def)
  obtain w' where w: "ctx_prepare junk base ?c w = Inr (fc_payload ?c, w')" "buf_wf w'" "contents w' = []"
    "b_offset w' = actual_headroom base ?c" "fc_adj_capacity ?c \<le> b_capacity w'" "b_owned w'"
    using ctx_prepare_ok [OF c assms(2,3)] by blast
  have "actual_headroom base ?c < fc_headroom ?c + fc_align_block ?c" "fc_headroom ?c \<le> actual_headroom base ?c"
    using actual_headroom_ok [OF c] by auto
  moreover have "fc_headroom ?c + fc_align_block ?c + fc_payload ?c \<le> fc_adj_capacity ?c" using c by (simp add: ctx_ok_def)
  moreover have "b_size w' = 0" using length_contents [OF w(2)] w(3) by simp
  ultimately show ?thesis using w assms(4) by (auto simp: frame_prepare_def frame_index_def)
qed

text \<open>A library call that writes its output into a prepared working buffer.\<close>

lemma write_work:
  assumes "buf_wf w" "length out \<le> buf_max_size w"
  shows "buf_wf (w\<lparr>b_mem := blit (b_offset w) out (b_mem w), b_size := length out\<rparr>)
    \<and> contents (w\<lparr>b_mem := blit (b_offset w) out (b_mem w), b_size := length out\<rparr>) = out"
  using assms by (auto simp: buf_wf_def contents_def blit_def min_def)

end
