(* ===== verification/Transport_Protocol.thy ===== *)
theory Transport_Protocol
  imports Crypto_Algs
begin

text \<open>
  \<^verbatim>\<open>transport/protocol.hpp\<close> and \<^verbatim>\<open>tun/layer.hpp\<close>: the transport protocols, their names and what the
  protocol code asks of them.
\<close>

section \<open>Protocols\<close>

datatype protocol =
  PROTO_NONE | UDPv4 | TCPv4 | UDPv6 | TCPv6 | TLSv4 | TLSv6 | UnixStream | UnixDGram | NamedPipe

datatype allow_suffix = NO_SUFFIX | CLIENT_SUFFIX | SERVER_SUFFIX

datatype addr_version = ADDR_UNSPEC | ADDR_V4 | ADDR_V6

definition is_udp :: "protocol \<Rightarrow> bool" where "is_udp p \<longleftrightarrow> p = UDPv4 \<or> p = UDPv6"
definition is_tcp :: "protocol \<Rightarrow> bool" where "is_tcp p \<longleftrightarrow> p = TCPv4 \<or> p = TCPv6"
definition is_tls :: "protocol \<Rightarrow> bool" where "is_tls p \<longleftrightarrow> p = TLSv4 \<or> p = TLSv6"
definition is_reliable :: "protocol \<Rightarrow> bool" where "is_reliable p \<longleftrightarrow> is_tcp p \<or> is_tls p"
definition is_ipv6 :: "protocol \<Rightarrow> bool" where "is_ipv6 p \<longleftrightarrow> p = UDPv6 \<or> p = TCPv6 \<or> p = TLSv6"
definition is_unix :: "protocol \<Rightarrow> bool" where "is_unix p \<longleftrightarrow> p = UnixStream \<or> p = UnixDGram"
definition is_local :: "protocol \<Rightarrow> bool" where "is_local p \<longleftrightarrow> is_unix p \<or> p = NamedPipe"

definition extra_transport_bytes :: "protocol \<Rightarrow> nat" where
  "extra_transport_bytes p = (if is_tcp p \<or> is_tls p then 2 else 0)"

definition mod_addr_version :: "addr_version \<Rightarrow> protocol \<Rightarrow> protocol" where
  "mod_addr_version v p =
     (case v of
        ADDR_UNSPEC \<Rightarrow> p
      | ADDR_V4 \<Rightarrow> (if is_udp p then UDPv4 else if is_tcp p then TCPv4 else if is_tls p then TLSv4 else p)
      | ADDR_V6 \<Rightarrow> (if is_udp p then UDPv6 else if is_tcp p then TCPv6 else if is_tls p then TLSv6 else p))"

definition transport_proto :: "protocol \<Rightarrow> int" where
  "transport_proto p =
     (case p of
        UDPv4 \<Rightarrow> 0 | TCPv4 \<Rightarrow> 1 | UDPv6 \<Rightarrow> 0 | TCPv6 \<Rightarrow> 1 | UnixDGram \<Rightarrow> 2 | UnixStream \<Rightarrow> 3
      | NamedPipe \<Rightarrow> 4 | TLSv4 \<Rightarrow> 5 | TLSv6 \<Rightarrow> 5 | PROTO_NONE \<Rightarrow> - 1)"

definition transport_match :: "protocol \<Rightarrow> protocol \<Rightarrow> bool" where
  "transport_match p q \<longleftrightarrow> transport_proto p = transport_proto q"

definition protocol_str :: "protocol \<Rightarrow> string" where
  "protocol_str p =
     (case p of
        UDPv4 \<Rightarrow> ''UDPv4'' | TCPv4 \<Rightarrow> ''TCPv4'' | UDPv6 \<Rightarrow> ''UDPv6'' | TCPv6 \<Rightarrow> ''TCPv6''
      | TLSv4 \<Rightarrow> ''TLS/TCPv4'' | TLSv6 \<Rightarrow> ''TLS/TCPv6'' | UnixStream \<Rightarrow> ''UnixStream''
      | UnixDGram \<Rightarrow> ''UnixDGram'' | NamedPipe \<Rightarrow> ''NamedPipe'' | PROTO_NONE \<Rightarrow> ''UNDEF_PROTO'')"

definition protocol_to_string :: "protocol \<Rightarrow> string" where
  "protocol_to_string p =
     (case p of
        UDPv4 \<Rightarrow> ''udp4'' | TCPv4 \<Rightarrow> ''tcp4'' | UDPv6 \<Rightarrow> ''udp6'' | TCPv6 \<Rightarrow> ''tcp6''
      | TLSv4 \<Rightarrow> ''tls4'' | TLSv6 \<Rightarrow> ''tls6'' | UnixStream \<Rightarrow> ''unix-stream''
      | UnixDGram \<Rightarrow> ''unix-dgram'' | NamedPipe \<Rightarrow> ''named-pipe'' | PROTO_NONE \<Rightarrow> ''adaptive'')"

definition str_client :: "bool \<Rightarrow> protocol \<Rightarrow> string" where
  "str_client force_ipv4 p =
     (case p of
        UDPv4 \<Rightarrow> ''UDPv4'' | TCPv4 \<Rightarrow> ''TCPv4_CLIENT''
      | UDPv6 \<Rightarrow> (if force_ipv4 then ''UDPv4'' else ''UDPv6'')
      | TCPv6 \<Rightarrow> (if force_ipv4 then ''TCPv4_CLIENT'' else ''TCPv6_CLIENT'')
      | TLSv4 \<Rightarrow> ''TLSv4'' | TLSv6 \<Rightarrow> (if force_ipv4 then ''TLSv4'' else ''TLSv6'')
      | _ \<Rightarrow> ''UNDEF_PROTO'')"


section \<open>Parsing\<close>

definition starts_with :: "string \<Rightarrow> string \<Rightarrow> bool" where
  "starts_with s p \<longleftrightarrow> length p \<le> length s \<and> take (length p) s = p"

definition ends_with :: "string \<Rightarrow> string \<Rightarrow> bool" where
  "ends_with s p \<longleftrightarrow> length p \<le> length s \<and> drop (length s - length p) s = p"

definition parse_type :: "string \<Rightarrow> allow_suffix \<Rightarrow> protocol" where
  "parse_type str sfx =
     (let s = map ascii_lower str;
          s = (case sfx of
                 NO_SUFFIX \<Rightarrow> s
               | CLIENT_SUFFIX \<Rightarrow> if ends_with s ''-client'' then take (length s - 7) s else s
               | SERVER_SUFFIX \<Rightarrow> if ends_with s ''-server'' then take (length s - 7) s else s)
      in if starts_with s ''unix''
         then (if s = ''unix-stream'' then UnixStream else if s = ''unix-dgram'' then UnixDGram else PROTO_NONE)
         else if s = ''named-pipe'' then NamedPipe
         else if length s \<ge> 3
         then (let s1 = take 3 s; s2 = drop 3 s
               in if s2 = [] \<or> s2 = ''4'' \<or> s2 = ''v4''
                  then (if s1 = ''udp'' then UDPv4 else if s1 = ''tcp'' then TCPv4
                        else if s1 = ''tls'' then TLSv4 else PROTO_NONE)
                  else if s2 = ''6'' \<or> s2 = ''v6''
                  then (if s1 = ''udp'' then UDPv6 else if s1 = ''tcp'' then TCPv6
                        else if s1 = ''tls'' then TLSv6 else PROTO_NONE)
                  else PROTO_NONE)
         else PROTO_NONE)"

text \<open>\<open>strcasecmp\<close> reads a string up to its first NUL.\<close>

definition protocol_parse :: "string \<Rightarrow> allow_suffix \<Rightarrow> string \<Rightarrow> protocol res" where
  "protocol_parse str sfx title =
     (if strcase_eq (takeWhile (\<lambda>c. c \<noteq> CHR 0x00) str) ''adaptive'' then Inr PROTO_NONE
      else (let t = parse_type str sfx
            in if t = PROTO_NONE then Inl (Option_error (''error parsing '' @ title @ '': '' @ str))
               else Inr t))"

definition is_local_type :: "string \<Rightarrow> bool" where
  "is_local_type str =
     (case str of
        [] \<Rightarrow> False
      | c # _ \<Rightarrow>
          if c \<noteq> CHR ''u'' \<and> c \<noteq> CHR ''U'' \<and> c \<noteq> CHR ''n'' \<and> c \<noteq> CHR ''N'' then False
          else (case parse_type str NO_SUFFIX of UnixStream \<Rightarrow> True | UnixDGram \<Rightarrow> True | NamedPipe \<Rightarrow> True | _ \<Rightarrow> False))"


section \<open>Layers\<close>

datatype layer = LAYER_NONE | OSI_LAYER_2 | OSI_LAYER_3

definition dev_type :: "layer \<Rightarrow> string" where
  "dev_type l = (case l of OSI_LAYER_2 \<Rightarrow> ''tap'' | OSI_LAYER_3 \<Rightarrow> ''tun'' | LAYER_NONE \<Rightarrow> ''null'')"

definition layer_str :: "layer \<Rightarrow> string" where
  "layer_str l = (case l of LAYER_NONE \<Rightarrow> ''UNDEF_LAYER'' | OSI_LAYER_2 \<Rightarrow> ''OSI_LAYER_2'' | OSI_LAYER_3 \<Rightarrow> ''OSI_LAYER_3'')"

definition layer_value :: "layer \<Rightarrow> int" where
  "layer_value l = (case l of LAYER_NONE \<Rightarrow> 0 | OSI_LAYER_2 \<Rightarrow> 2 | OSI_LAYER_3 \<Rightarrow> 3)"

definition layer_from_str :: "string \<Rightarrow> layer res" where
  "layer_from_str s =
     (if s = ''OSI_LAYER_3'' then Inr OSI_LAYER_3
      else if s = ''OSI_LAYER_2'' then Inr OSI_LAYER_2
      else if s = ''UNDEF_LAYER'' then Inr LAYER_NONE
      else Inl (Std_exception ''Layer: unrecognized layer string''))"

definition layer_from_value :: "int \<Rightarrow> layer res" where
  "layer_from_value v =
     (if v = 3 then Inr OSI_LAYER_3 else if v = 2 then Inr OSI_LAYER_2 else if v = 0 then Inr LAYER_NONE
      else Inl (Std_exception ''Layer: unrecognized layer value''))"

lemma layer_roundtrip: "layer_from_str (layer_str l) = Inr l" "layer_from_value (layer_value l) = Inr l"
  by (cases l; simp add: layer_from_str_def layer_str_def layer_from_value_def layer_value_def)+


section \<open>Names\<close>

lemma lower_chars:
  "ascii_lower (CHR ''a'') = CHR ''a''"
  "ascii_lower (CHR ''b'') = CHR ''b''"
  "ascii_lower (CHR ''c'') = CHR ''c''"
  "ascii_lower (CHR ''d'') = CHR ''d''"
  "ascii_lower (CHR ''e'') = CHR ''e''"
  "ascii_lower (CHR ''f'') = CHR ''f''"
  "ascii_lower (CHR ''g'') = CHR ''g''"
  "ascii_lower (CHR ''h'') = CHR ''h''"
  "ascii_lower (CHR ''i'') = CHR ''i''"
  "ascii_lower (CHR ''j'') = CHR ''j''"
  "ascii_lower (CHR ''k'') = CHR ''k''"
  "ascii_lower (CHR ''l'') = CHR ''l''"
  "ascii_lower (CHR ''m'') = CHR ''m''"
  "ascii_lower (CHR ''n'') = CHR ''n''"
  "ascii_lower (CHR ''o'') = CHR ''o''"
  "ascii_lower (CHR ''p'') = CHR ''p''"
  "ascii_lower (CHR ''q'') = CHR ''q''"
  "ascii_lower (CHR ''r'') = CHR ''r''"
  "ascii_lower (CHR ''s'') = CHR ''s''"
  "ascii_lower (CHR ''t'') = CHR ''t''"
  "ascii_lower (CHR ''u'') = CHR ''u''"
  "ascii_lower (CHR ''v'') = CHR ''v''"
  "ascii_lower (CHR ''w'') = CHR ''w''"
  "ascii_lower (CHR ''x'') = CHR ''x''"
  "ascii_lower (CHR ''y'') = CHR ''y''"
  "ascii_lower (CHR ''z'') = CHR ''z''"
  "ascii_lower (CHR ''0'') = CHR ''0''"
  "ascii_lower (CHR ''1'') = CHR ''1''"
  "ascii_lower (CHR ''2'') = CHR ''2''"
  "ascii_lower (CHR ''3'') = CHR ''3''"
  "ascii_lower (CHR ''4'') = CHR ''4''"
  "ascii_lower (CHR ''5'') = CHR ''5''"
  "ascii_lower (CHR ''6'') = CHR ''6''"
  "ascii_lower (CHR ''7'') = CHR ''7''"
  "ascii_lower (CHR ''8'') = CHR ''8''"
  "ascii_lower (CHR ''9'') = CHR ''9''"
  "ascii_lower (CHR ''-'') = CHR ''-''"
  "ascii_lower (CHR 0x00) = CHR 0x00"
  by (simp_all add: ascii_lower_def)

lemma parse_type_lower:
  assumes "map ascii_lower s = map ascii_lower t"
  shows "parse_type s sfx = parse_type t sfx"
  by (simp only: parse_type_def assms)

lemma names_parse_type:
  "parse_type (protocol_to_string p) NO_SUFFIX = p" "parse_type (protocol_to_string p) CLIENT_SUFFIX = p"
  "parse_type (protocol_to_string p) SERVER_SUFFIX = p"
  "parse_type (protocol_to_string p @ ''-client'') CLIENT_SUFFIX = p"
  "parse_type (protocol_to_string p @ ''-server'') SERVER_SUFFIX = p"
  by (cases p; simp add: protocol_to_string_def parse_type_def starts_with_def ends_with_def lower_chars)+

lemma names_lower:
  "map ascii_lower (protocol_to_string p) = protocol_to_string p"
  "CHR 0x00 \<notin> set (protocol_to_string p)"
  "strcase_eq (protocol_to_string p) ''adaptive'' = (p = PROTO_NONE)"
  "\<not> strcase_eq (protocol_to_string p @ ''-client'') ''adaptive''"
  "\<not> strcase_eq (protocol_to_string p @ ''-server'') ''adaptive''"
  by (cases p; simp add: protocol_to_string_def strcase_eq_def lower_chars)+

lemma lower_NUL: "ascii_lower (CHR 0x00) = CHR 0x00" "map ascii_lower ''-client'' = ''-client''" "map ascii_lower ''-server'' = ''-server''"
  by (simp_all add: lower_chars)

lemma no_NUL:
  assumes "map ascii_lower s = protocol_to_string p"
  shows "CHR 0x00 \<notin> set s"
proof
  assume "CHR 0x00 \<in> set s"
  then have "ascii_lower (CHR 0x00) \<in> set (map ascii_lower s)" by simp
  then show False using names_lower(2) [of p] by (simp only: assms lower_NUL)
qed

lemma takeWhile_NUL: "CHR 0x00 \<notin> set s \<Longrightarrow> takeWhile (\<lambda>c. c \<noteq> CHR 0x00) s = s"
  by (auto simp: takeWhile_eq_all_conv)

text \<open>
  The names of the transport protocols are parsed back: whatever the case of its letters, the
  string \<open>protocol_to_string\<close> gives for a protocol is parsed to that protocol under every suffix
  rule, and so is a name followed by the suffix of the side that allows it (except that no suffix
  may follow \<^verbatim>\<open>adaptive\<close>).
\<close>

lemma protocol_names_parsed:
  assumes "map ascii_lower s = protocol_to_string p"
  shows "protocol_parse s sfx title = Inr p
    \<and> (p \<noteq> PROTO_NONE \<longrightarrow> protocol_parse (s @ ''-client'') CLIENT_SUFFIX title = Inr p
         \<and> protocol_parse (s @ ''-server'') SERVER_SUFFIX title = Inr p)
    \<and> is_local_type s = is_local p"
proof -
  have t: "parse_type s x = parse_type (protocol_to_string p) x" for x
    by (rule parse_type_lower) (simp add: assms names_lower(1))
  have tc: "parse_type (s @ ''-client'') x = parse_type (protocol_to_string p @ ''-client'') x"
    "parse_type (s @ ''-server'') x = parse_type (protocol_to_string p @ ''-server'') x" for x
    by (rule parse_type_lower; simp only: map_append assms names_lower(1))+
  have pt: "parse_type s x = p" for x by (cases x) (simp_all only: t names_parse_type)
  note nul = no_NUL [OF assms]
  have c0: "CHR 0x00 \<notin> set (s @ ''-client'')" "CHR 0x00 \<notin> set (s @ ''-server'')" using nul by auto
  have eq: "strcase_eq s ''adaptive'' = (p = PROTO_NONE)"
    "\<not> strcase_eq (s @ ''-client'') ''adaptive''" "\<not> strcase_eq (s @ ''-server'') ''adaptive''"
    using names_lower(3-5) [of p] by (simp_all only: strcase_eq_def map_append assms names_lower(1) not_False_eq_True)
  have first: "is_local_type s = is_local p"
  proof (cases s)
    case Nil
    then show ?thesis using assms by (cases p) (auto simp: protocol_to_string_def)
  next
    case (Cons c cs)
    have "p \<in> {UnixStream, UnixDGram, NamedPipe} \<Longrightarrow> ascii_lower c \<in> {CHR ''u'', CHR ''n''}"
      using assms Cons by (auto simp: protocol_to_string_def)
    moreover have "ascii_lower c = CHR ''u'' \<Longrightarrow> c \<in> {CHR ''u'', CHR ''U''}" "ascii_lower c = CHR ''n'' \<Longrightarrow> c \<in> {CHR ''n'', CHR ''N''}"
      by (auto simp: ascii_lower_def split: option.splits if_splits)
    ultimately show ?thesis
      using pt [of NO_SUFFIX] Cons by (cases p) (auto simp: is_local_type_def is_local_def is_unix_def)
  qed
  show ?thesis
    using first pt names_parse_type(4,5) [of p] eq takeWhile_NUL [OF nul] takeWhile_NUL [OF c0(1)] takeWhile_NUL [OF c0(2)]
    by (auto simp only: protocol_parse_def tc Let_def split: if_split)
qed

lemma protocol_names_parsed_at:
  "protocol_parse ''TCP6-client'' CLIENT_SUFFIX [] = Inr TCPv6"
proof -
  have "map ascii_lower ''TCP6'' = protocol_to_string TCPv6" by (simp add: ascii_lower_def protocol_to_string_def)
  from protocol_names_parsed [OF this, of NO_SUFFIX "[]"] show ?thesis by simp
qed

end
