(* ===== verification/Key_Context.thy ===== *)
theory Key_Context
  imports Key_Events Key_Exchange Control_Wire Compression Mss_Fix Crypto_Dc Transport_Protocol
begin

text \<open>
  \<open>KeyContext\<close> of \<^verbatim>\<open>ssl/proto.hpp\<close>: one TLS session, from the first packet to the keyed data channel.
  A key is a protocol stack (\<open>ProtoStackBase\<close>) whose parent state \<open>kpar\<close> extends the events with the
  members of \<open>KeyContext\<close>; the members of \<open>ProtoContext\<close> a key reads and changes are its component
  \<open>kp_sh\<close>, which the owner hands from one key to the other. An operation that may throw returns the
  exception, if any, and the state; \<open>None\<close> is an operation that does not return, as in \<open>Proto_Stack\<close>.
  The \<open>CryptoDCInstance\<close> of a key is an object behind its virtual methods, \<open>dc_ops\<close>.
\<close>

section \<open>State\<close>

abbreviation (input) READ_TUN :: nat where "READ_TUN \<equiv> 6"
abbreviation (input) WRITE_SSL_INIT :: nat where "WRITE_SSL_INIT \<equiv> 10"
abbreviation (input) WRITE_ACK_STANDALONE :: nat where "WRITE_ACK_STANDALONE \<equiv> 12"
abbreviation (input) WRITE_DC_MSG :: nat where "WRITE_DC_MSG \<equiv> 13"
abbreviation (input) APP_MSG_MAX :: nat where "APP_MSG_MAX \<equiv> 65536"
abbreviation (input) OPENVPN_BS64_DATA_LIMIT :: u32 where "OPENVPN_BS64_DATA_LIMIT \<equiv> 48000000"
abbreviation (input) EXPLICIT_EXIT_NOTIFY_DEFINED :: u32 where "EXPLICIT_EXIT_NOTIFY_DEFINED \<equiv> 8"

datatype rekey_type =
    ACTIVATE_PRIMARY | ACTIVATE_PRIMARY_MOVE | NEW_SECONDARY | PRIMARY_SECONDARY_SWAP
  | DEACTIVATE_SECONDARY | DEACTIVATE_ALL

record 'dc dc_ops =
  dc_encrypt :: "byte list option \<Rightarrow> int \<Rightarrow> buf \<Rightarrow> 'dc \<Rightarrow> (buf \<times> bool) res \<times> 'dc"
  dc_decrypt :: "byte list option \<Rightarrow> int \<Rightarrow> buf \<Rightarrow> 'dc \<Rightarrow> (error_type \<times> buf) res \<times> 'dc"
  dc_defined :: "'dc \<Rightarrow> u32"
  dc_init_cipher :: "byte list \<Rightarrow> byte list \<Rightarrow> 'dc \<Rightarrow> unit res \<times> 'dc"
  dc_init_hmac :: "byte list \<Rightarrow> byte list \<Rightarrow> 'dc \<Rightarrow> unit res \<times> 'dc"
  dc_init_pid :: "pid_form \<Rightarrow> int \<Rightarrow> pid_form \<Rightarrow> string \<Rightarrow> int \<Rightarrow> error_type list \<Rightarrow> 'dc \<Rightarrow> 'dc"
  dc_init_remote_peer_id :: "int \<Rightarrow> 'dc \<Rightarrow> 'dc"
  dc_consider_compression :: "comp_context \<Rightarrow> 'dc \<Rightarrow> bool"
  dc_rekey :: "rekey_type \<Rightarrow> 'dc \<Rightarrow> 'dc"
  dc_explicit_exit_notify :: "'dc \<Rightarrow> 'dc"
  dc_new_obj :: "dc_context \<Rightarrow> u32 \<Rightarrow> 'dc"

text \<open>\<open>DataChannelKey\<close>: an undefined key is empty; the type is there when \<open>rekey_defined\<close>.\<close>

record data_channel_key =
  dk_key :: static_key
  dk_rekey :: "rekey_type option"

text \<open>
  The members of \<open>ProtoContext\<close> and its \<open>Config\<close> that keys use and change. What is handed to
  \<open>control_net_send\<close> and \<open>control_recv\<close> is kept in two logs, and so are the credentials of a key that
  \<open>server_auth\<close> has accepted (\<open>kp_auth_out\<close>). The error counters are
  the lists \<open>k_stats\<close> and \<open>cw_stats\<close>, of which the object \<open>stats\<close> holds the numbers.
\<close>

record proto_shared =
  ps_wire :: wire
  ps_protocol :: protocol
  ps_settings :: "dc_context dc_settings"
  ps_comp_ctx :: comp_context
  ps_mss_inter :: u32
  ps_dc_deferred :: bool
  ps_enable_op32 :: bool
  ps_remote_peer_id :: int
  ps_rng :: "byte list"
  ps_slowest_handshake :: duration
  ps_net_out :: "byte list list"
  ps_app_out :: "byte list list"

record 'dc kpar = key_ev +
  kp_sh :: proto_shared
  kp_crypto_flags :: u32
  kp_remote_peer_id :: int
  kp_enable_op32 :: bool
  kp_dirty :: bool
  kp_is_reliable :: bool
  kp_compress :: "compressor option"
  kp_comp_state :: comp_state
  kp_crypto :: "'dc option"
  kp_tlsprf :: tls_prf
  kp_app_pre_write :: "byte list list"
  kp_dck :: "data_channel_key option"
  kp_app_recv_buf :: "byte list list"
  kp_auth_out :: "credentials list"

type_synonym ('ssl, 'dc) key = "(packet, 'ssl, 'dc kpar) stack"
type_synonym ('ssl, 'dc) key_callbacks = "(packet, 'ssl, 'dc kpar) callbacks"

text \<open>
  What does not change: settings of \<open>Config\<close>, the SSL object's methods, the keyed HMACs of tls-auth.
  \<open>pe_addr\<close> is the address a new buffer gets, \<open>pe_junk\<close> what its memory holds.
\<close>

record 'ssl ssl_api =
  sl_start_handshake :: "'ssl \<Rightarrow> 'ssl"
  sl_write_cleartext :: "byte list \<Rightarrow> 'ssl \<Rightarrow> int res \<times> 'ssl"
  sl_read_ciphertext_ready :: "'ssl \<Rightarrow> bool"
  sl_read_ciphertext :: "'ssl \<Rightarrow> buf \<times> 'ssl"
  sl_write_ciphertext :: "buf \<Rightarrow> 'ssl \<Rightarrow> 'ssl"
  sl_read_cleartext_ready :: "'ssl \<Rightarrow> bool"
  sl_read_cleartext :: "'ssl \<Rightarrow> int res \<times> byte list \<times> 'ssl"
  sl_export_keying_material :: "'ssl \<Rightarrow> string \<Rightarrow> nat \<Rightarrow> byte list option"

record ('ssl, 'dc) proto_env =
  pe_ev :: event_config
  pe_auth :: auth_env
  pe_comp :: comp_env
  pe_dc :: "'dc dc_ops"
  pe_ssl :: "'ssl ssl_api"
  pe_frame :: frame
  pe_junk :: "nat \<Rightarrow> byte"
  pe_addr :: nat
  pe_hmac_send :: hmac_ctx
  pe_hmac_recv :: hmac_ctx
  pe_prf :: "prf_digest \<Rightarrow> byte list \<Rightarrow> byte list \<Rightarrow> byte list"
  pe_pid_mode :: int
  pe_mss_mtu :: bool
  pe_mssfix :: u32
  pe_tls_timeout :: duration
  pe_window :: u32
  pe_max_ack_list :: nat

abbreviation (input) pe_server :: "('ssl, 'dc) proto_env \<Rightarrow> bool" where
  "pe_server env \<equiv> ec_server (pe_ev env)"

definition on_sh :: "(proto_shared \<Rightarrow> proto_shared) \<Rightarrow> 'dc kpar \<Rightarrow> 'dc kpar" where
  "on_sh f p = p\<lparr>kp_sh := f (kp_sh p)\<rparr>"

definition key_tcp :: "'dc kpar \<Rightarrow> bool" where
  "key_tcp p \<longleftrightarrow> is_tcp (ps_protocol (kp_sh p))"


section \<open>Sequencing\<close>

definition seq_step ::
  "('a res \<times> 's) option \<Rightarrow> ('a \<Rightarrow> 's \<Rightarrow> ('b res \<times> 's) option) \<Rightarrow> ('b res \<times> 's) option" where
  "seq_step m f =
     (case m of
        None \<Rightarrow> None
      | Some (Inl e, s) \<Rightarrow> Some (Inl e, s)
      | Some (Inr x, s) \<Rightarrow> f x s)"

lemma seq_step_simps [simp]:
  "seq_step None f = None" "seq_step (Some (Inl e, s)) f = Some (Inl e, s)"
  "seq_step (Some (Inr x, s)) f = f x s"
  by (simp_all add: seq_step_def)


section \<open>Control packets\<close>

text \<open>\<open>gen_head\<close> and the rest of \<open>Control_Wire\<close>, on the members of the key and its parent.\<close>

definition key_wire :: "rel_ack \<Rightarrow> 'dc kpar \<Rightarrow> wire" where
  "key_wire acks p =
     (ps_wire (kp_sh p))\<lparr>cw_tcp := key_tcp p, cw_key_id := kv_key_id p, cw_acks := acks, cw_invalidated := None\<rparr>"

definition put_wire :: "wire \<Rightarrow> 'dc kpar \<Rightarrow> 'dc kpar" where
  "put_wire w = on_sh (\<lambda>s. s\<lparr>ps_wire := w\<rparr>)"

definition key_encapsulate ::
  "('ssl, 'dc) proto_env \<Rightarrow> vtime \<Rightarrow> u32 \<Rightarrow> packet \<Rightarrow> rel_ack \<times> 'dc kpar \<Rightarrow> packet res \<times> rel_ack \<times> 'dc kpar" where
  "key_encapsulate env now mid pkt = (\<lambda>(acks, p).
     let (r, w) = encapsulate (pe_hmac_send env) (pe_junk env) now mid pkt (key_wire acks p)
     in (r, cw_acks w, put_wire w p))"

definition key_generate_ack ::
  "('ssl, 'dc) proto_env \<Rightarrow> vtime \<Rightarrow> rel_ack \<times> 'dc kpar \<Rightarrow> packet res \<times> rel_ack \<times> 'dc kpar" where
  "key_generate_ack env now = (\<lambda>(acks, p).
     case frame_prepare (pe_junk env) (pe_addr env) WRITE_ACK_STANDALONE (buf_alloc (pe_junk env) 0 0) (pe_frame env) of
       Inl e \<Rightarrow> (Inl e, acks, p)
     | Inr (_, b) \<Rightarrow>
         (let (r, w) = generate_ack (pe_hmac_send env) (pe_junk env) now \<lparr>pk_opcode = INVALID_OPCODE, pk_buf = b\<rparr> (key_wire acks p)
          in (r, cw_acks w, put_wire w p)))"

definition key_decapsulate ::
  "('ssl, 'dc) proto_env \<Rightarrow> vtime \<Rightarrow> packet \<Rightarrow> packet rel_recv \<times> packet rel_send \<times> rel_ack \<times> 'dc kpar
   \<Rightarrow> bool res \<times> nat option \<times> packet rel_recv \<times> packet rel_send \<times> rel_ack \<times> 'dc kpar" where
  "key_decapsulate env now pkt = (\<lambda>(rr, rs, acks, p).
     let (r, w) = decapsulate (pe_hmac_recv env) now pkt ((key_wire acks p)\<lparr>cw_recv := rr, cw_send := rs\<rparr>)
     in (r, cw_invalidated w, cw_recv w, cw_send w, cw_acks w, put_wire w p))"

text \<open>\<open>net_send\<close>: over a reliable transport nothing is retransmitted.\<close>

definition key_net_send :: "packet \<Rightarrow> net_send_type \<Rightarrow> 'dc kpar \<Rightarrow> 'dc kpar" where
  "key_net_send pkt nstype p =
     (if \<not> kp_is_reliable p \<or> nstype \<noteq> NET_SEND_RETRANSMIT
      then on_sh (\<lambda>s. s\<lparr>ps_net_out := ps_net_out s @ [contents (pk_buf pkt)]\<rparr>) p else p)"

text \<open>\<open>initial_op\<close> without tls-crypt-v2.\<close>

definition initial_op :: "('ssl, 'dc) proto_env \<Rightarrow> bool \<Rightarrow> 'dc kpar \<Rightarrow> u32" where
  "initial_op env sender p =
     (if kv_key_id p \<noteq> 0 then CONTROL_SOFT_RESET_V1
      else if pe_server env = sender then CONTROL_HARD_RESET_SERVER_V2
      else CONTROL_HARD_RESET_CLIENT_V2)"

definition reset_packet :: "('ssl, 'dc) proto_env \<Rightarrow> 'dc kpar \<Rightarrow> packet res" where
  "reset_packet env p =
     bindE (frame_prepare (pe_junk env) (pe_addr env) WRITE_SSL_INIT (buf_alloc (pe_junk env) 0 0) (pe_frame env))
       (\<lambda>(_, b). Inr \<lparr>pk_opcode = initial_op env True p, pk_buf = b\<rparr>)"

definition send_reset :: "('ssl, 'dc) proto_env \<Rightarrow> ('ssl, 'dc) key \<Rightarrow> unit res \<times> ('ssl, 'dc) key" where
  "send_reset env k =
     (case reset_packet env (k_par k) of
        Inl e \<Rightarrow> (Inl e, k)
      | Inr pkt \<Rightarrow> (Inr (), raw_send pkt k))"

definition set_state :: "int \<Rightarrow> 'a key_ev_scheme \<Rightarrow> 'a key_ev_scheme" where
  "set_state newstate e = e\<lparr>kv_state := newstate\<rparr>"

text \<open>\<open>raw_recv\<close>: the packets it queues are its second result.\<close>

definition key_raw_recv ::
  "('ssl, 'dc) proto_env \<Rightarrow> packet \<Rightarrow> 'dc kpar \<Rightarrow> unit res \<times> packet list \<times> 'dc kpar" where
  "key_raw_recv env pkt p =
     (if b_size (pk_buf pkt) = 0 \<and> pk_opcode pkt = initial_op env False p
      then (if kv_state p = C_WAIT_RESET then (Inr (), [], set_state C_WAIT_RESET_ACK p)
            else if kv_state p = S_WAIT_RESET
            then (case reset_packet env p of
                    Inl e \<Rightarrow> (Inl e, [], p)
                  | Inr q \<Rightarrow> (Inr (), [q], set_state S_WAIT_RESET_ACK p))
            else (Inr (), [], p))
      else (Inr (), [], p))"

section \<open>Application messages and the key exchange\<close>

definition app_send_validate :: "byte list \<Rightarrow> ('ssl, 'dc) key \<Rightarrow> unit res \<times> ('ssl, 'dc) key" where
  "app_send_validate bp k =
     (if length bp > APP_MSG_MAX
      then (Inl (Proto_error ''app_send: sent control message is too large''), k)
      else (Inr (), app_send bp k))"

definition set_dirty :: "('ssl, 'dc) key \<Rightarrow> ('ssl, 'dc) key" where
  "set_dirty k = k\<lparr>k_par := (k_par k)\<lparr>kp_dirty := True\<rparr>\<rparr>"

definition key_app_send :: "byte list \<Rightarrow> ('ssl, 'dc) key \<Rightarrow> unit res \<times> ('ssl, 'dc) key" where
  "key_app_send bp k =
     (if kv_state (k_par k) \<ge> ACTIVE
      then (case app_send_validate bp k of (Inl e, k) \<Rightarrow> (Inl e, k) | (Inr _, k) \<Rightarrow> (Inr (), set_dirty k))
      else (Inr (), k\<lparr>k_par := (k_par k)\<lparr>kp_app_pre_write := kp_app_pre_write (k_par k) @ [bp]\<rparr>\<rparr>))"

definition key_auth_env :: "('ssl, 'dc) proto_env \<Rightarrow> auth_env" where
  "key_auth_env env =
     (pe_auth env)\<lparr>au_server := pe_server env, au_frame := pe_frame env, au_junk := pe_junk env, au_addr := pe_addr env\<rparr>"

text \<open>\<open>send_auth\<close> up to the message handed to \<open>Base::app_send\<close>.\<close>

definition make_auth :: "('ssl, 'dc) proto_env \<Rightarrow> 'dc kpar \<Rightarrow> byte list res \<times> 'dc kpar" where
  "make_auth env p =
     (let (r, t, rng) = write_auth (key_auth_env env) (ps_rng (kp_sh p)) (kp_tlsprf p);
          p = on_sh (\<lambda>s. s\<lparr>ps_rng := rng\<rparr>) (p\<lparr>kp_tlsprf := t\<rparr>)
      in case r of
           Inl e \<Rightarrow> (Inl e, p)
         | Inr b \<Rightarrow>
             (if length (contents b) > APP_MSG_MAX
              then (Inl (Proto_error ''app_send: sent control message is too large''), p)
              else (Inr (contents b), p\<lparr>kp_dirty := True\<rparr>)))"

definition send_auth :: "('ssl, 'dc) proto_env \<Rightarrow> ('ssl, 'dc) key \<Rightarrow> unit res \<times> ('ssl, 'dc) key" where
  "send_auth env k =
     (case make_auth env (k_par k) of
        (Inl e, p) \<Rightarrow> (Inl e, k\<lparr>k_par := p\<rparr>)
      | (Inr bs, p) \<Rightarrow> (Inr (), app_send bs (k\<lparr>k_par := p\<rparr>)))"

text \<open>\<open>bcc.get()\<close> hands out all of the composed buffer, also what follows the message.\<close>

definition take_auth :: "('ssl, 'dc) proto_env \<Rightarrow> 'dc kpar \<Rightarrow> unit res \<times> 'dc kpar" where
  "take_auth env p =
     (let (bytes, bv) = composed_get (kp_app_recv_buf p); p = p\<lparr>kp_app_recv_buf := bv\<rparr>;
          (r, t) = recv_auth (key_auth_env env) (buf_view bytes True) (kp_tlsprf p); p = p\<lparr>kp_tlsprf := t\<rparr>
      in case r of
           Inl e \<Rightarrow> (Inl e, p)
         | Inr None \<Rightarrow> (Inr (), p)
         | Inr (Some creds) \<Rightarrow> (Inr (), p\<lparr>kp_auth_out := kp_auth_out p @ [creds]\<rparr>))"

text \<open>\<open>app_recv\<close>: the cleartext it queues is its second result.\<close>

definition key_app_recv ::
  "('ssl, 'dc) proto_env \<Rightarrow> byte list \<Rightarrow> 'dc kpar \<Rightarrow> unit res \<times> byte list list \<times> 'dc kpar" where
  "key_app_recv env bp p =
     (let p = p\<lparr>kp_app_recv_buf := composed_put bp (kp_app_recv_buf p)\<rparr>
      in if join_size (kp_app_recv_buf p) > APP_MSG_MAX
         then (Inl (Proto_error ''app_recv: received control message is too large''), [], p)
         else (let bcc = composed_complete (kp_app_recv_buf p);
                   complete = fst (recv_auth_complete (pe_server env) (kp_tlsprf p) bcc)
               in if kv_state p = C_WAIT_AUTH
                  then (if complete
                        then (case take_auth env p of
                                (Inl e, p) \<Rightarrow> (Inl e, [], p)
                              | (Inr _, p) \<Rightarrow> (Inr (), [], set_state C_WAIT_AUTH_ACK p))
                        else (Inr (), [], p))
                  else if kv_state p = S_WAIT_AUTH
                  then (if complete
                        then (case take_auth env p of
                                (Inl e, p) \<Rightarrow> (Inl e, [], p)
                              | (Inr _, p) \<Rightarrow>
                                  (case make_auth env p of
                                     (Inl e, p) \<Rightarrow> (Inl e, [], p)
                                   | (Inr bs, p) \<Rightarrow> (Inr (), [bs], set_state S_WAIT_AUTH_ACK p)))
                        else (Inr (), [], p))
                  else if kv_state p = S_WAIT_AUTH_ACK \<or> kv_state p = ACTIVE
                  then (if fst (bc_advance_to_null bcc)
                        then (let (bytes, bv) = composed_get (kp_app_recv_buf p)
                              in (Inr (), [], on_sh (\<lambda>s. s\<lparr>ps_app_out := ps_app_out s @ [bytes]\<rparr>)
                                                (p\<lparr>kp_app_recv_buf := bv\<rparr>)))
                        else (Inr (), [], p))
                  else (Inr (), [], p)))"

text \<open>The callbacks of the stack of a key.\<close>

definition key_cb :: "('ssl, 'dc) proto_env \<Rightarrow> vtime \<Rightarrow> ('ssl, 'dc) key_callbacks" where
  "key_cb env now =
     \<lparr>ssl_start_handshake = sl_start_handshake (pe_ssl env),
      ssl_write_cleartext = sl_write_cleartext (pe_ssl env),
      ssl_read_ciphertext_ready = sl_read_ciphertext_ready (pe_ssl env),
      ssl_read_ciphertext = (\<lambda>ssl. let (b, ssl) = sl_read_ciphertext (pe_ssl env) ssl
                                   in (\<lparr>pk_opcode = CONTROL_V1, pk_buf = b\<rparr>, ssl)),
      ssl_write_ciphertext = (\<lambda>pkt. sl_write_ciphertext (pe_ssl env) (pk_buf pkt)),
      ssl_read_cleartext_ready = sl_read_cleartext_ready (pe_ssl env),
      ssl_read_cleartext = sl_read_cleartext (pe_ssl env),
      pkt_is_raw = (\<lambda>pkt. pk_opcode pkt \<noteq> CONTROL_V1),
      cb_encapsulate = key_encapsulate env now,
      cb_decapsulate = key_decapsulate env now,
      cb_generate_ack = key_generate_ack env now,
      cb_net_send = key_net_send,
      cb_app_recv = key_app_recv env,
      cb_raw_recv = key_raw_recv env,
      cb_invalidate = invalidate_callback\<rparr>"

lemma key_cb_events: "ev_callbacks (key_cb env now)"
  by (simp add: ev_callbacks_def key_cb_def)

definition key_invalidate :: "('ssl, 'dc) proto_env \<Rightarrow> error_type \<Rightarrow> ('ssl, 'dc) key \<Rightarrow> ('ssl, 'dc) key" where
  "key_invalidate env reason k = stack_invalidate (key_cb env time_zero) reason k"


section \<open>The data channel\<close>

definition cache_op32 :: "'dc kpar \<Rightarrow> 'dc kpar" where
  "cache_op32 p = p\<lparr>kp_enable_op32 := ps_enable_op32 (kp_sh p), kp_remote_peer_id := ps_remote_peer_id (kp_sh p)\<rparr>"

definition is_bs64_cipher :: "crypto_alg \<Rightarrow> bool res" where
  "is_bs64_cipher cipher = bindE (alg_block_size cipher) (\<lambda>n. Inr (n = 8))"

definition generate_datachannel_keys ::
  "('ssl, 'dc) proto_env \<Rightarrow> ('ssl, 'dc) key \<Rightarrow> (unit res \<times> ('ssl, 'dc) key) option" where
  "generate_datachannel_keys env k =
     (let p = k_par k; w = ps_wire (kp_sh p);
          key = (if ds_key_derivation (ps_settings (kp_sh p)) = TLS_EKM
                 then (case sl_export_keying_material (pe_ssl env) (k_ssl k) ''EXPORTER-OpenVPN-datakeys'' KEY_SIZE of
                         None \<Rightarrow> Inl (Error_code KEY_EXPANSION_ERROR)
                       | Some key \<Rightarrow> Inr (Some key))
                 else tls_prf_key_expansion (pe_prf env) (kp_tlsprf p) (cw_psid_self w) (cw_psid_peer w))
      in case key of
           Inl e \<Rightarrow> Some (Inl e, k)
         | Inr None \<Rightarrow> None
         | Inr (Some key) \<Rightarrow>
             Some (Inr (), k\<lparr>k_par := p\<lparr>kp_tlsprf := tls_prf_erase (kp_tlsprf p),
                kp_dck := Some \<lparr>dk_key = key, dk_rekey = Option.bind (kp_dck p) dk_rekey\<rparr>\<rparr>\<rparr>))"

definition init_with_slices ::
  "(byte list \<Rightarrow> byte list \<Rightarrow> 'dc \<Rightarrow> unit res \<times> 'dc) \<Rightarrow> u32 \<Rightarrow> u32 \<Rightarrow> static_key \<Rightarrow> 'dc \<Rightarrow> unit res \<times> 'dc" where
  "init_with_slices ini what key_dir key dc =
     (case bindE (key_slice key (what OR KEY_ENCRYPT OR key_dir)) (\<lambda>e.
           bindE (key_slice key (what OR KEY_DECRYPT OR key_dir)) (\<lambda>d. Inr (e, d))) of
        Inl x \<Rightarrow> (Inl x, dc)
      | Inr (e, d) \<Rightarrow> ini e d dc)"

text \<open>The crypto context of a key: made by the factory, given the keys, the packet IDs and the peer ID.\<close>

definition init_crypto ::
  "('ssl, 'dc) proto_env \<Rightarrow> static_key \<Rightarrow> 'dc kpar \<Rightarrow> unit res \<times> 'dc kpar" where
  "init_crypto env key p =
     (let ops = pe_dc env; key_dir = (if pe_server env then KEY_INVERSE else KEY_NORMAL);
          (c, settings) = ds_get_context (ps_settings (kp_sh p));
          p = on_sh (\<lambda>s. s\<lparr>ps_settings := settings\<rparr>) p
      in case c of
           Inl e \<Rightarrow> (Inl e, p)
         | Inr ctx \<Rightarrow>
             (let dc = dc_new_obj ops ctx (kv_key_id p); flags = dc_defined ops dc;
                  p = p\<lparr>kp_crypto_flags := flags\<rparr>;
                  (r, dc) = (if flags AND CIPHER_DEFINED \<noteq> 0
                             then init_with_slices (dc_init_cipher ops) KEY_CIPHER key_dir key dc else (Inr (), dc))
              in case r of
                   Inl e \<Rightarrow> (Inl e, p\<lparr>kp_crypto := Some dc\<rparr>)
                 | Inr _ \<Rightarrow>
                     (let (r, dc) = (if flags AND HMAC_DEFINED \<noteq> 0
                                     then init_with_slices (dc_init_hmac ops) KEY_HMAC key_dir key dc else (Inr (), dc))
                      in case r of
                           Inl e \<Rightarrow> (Inl e, p\<lparr>kp_crypto := Some dc\<rparr>)
                         | Inr _ \<Rightarrow>
                             (let dc = dc_init_pid ops SHORT_FORM (pe_pid_mode env) SHORT_FORM ''DATA'' (uint (kv_key_id p)) [] dc;
                                  dc = dc_init_remote_peer_id ops (ps_remote_peer_id (kp_sh p)) dc
                              in (Inr (), p\<lparr>kp_crypto := Some dc\<rparr>)))))"

text \<open>The space all layers of a packet take off a segment.\<close>

definition transport_encap :: "('ssl, 'dc) proto_env \<Rightarrow> protocol \<Rightarrow> nat" where
  "transport_encap env pr =
     (if pe_mss_mtu env
      then (if is_tcp pr then 20 else 8) + (if is_ipv6 pr then 40 else 20) + extra_transport_bytes pr
      else 0)"

definition set_mss_inter ::
  "('ssl, 'dc) proto_env \<Rightarrow> nat \<Rightarrow> 'dc kpar \<Rightarrow> 'dc kpar" where
  "set_mss_inter env overhead p =
     (let crypto_encap = (if kp_enable_op32 p then OP_SIZE_V2 else 1) + extra_payload_bytes (ps_comp_ctx (kp_sh p))
            + pid_size SHORT_FORM + overhead
      in if pe_mssfix env \<noteq> 0
         then on_sh (\<lambda>s. s\<lparr>ps_mss_inter := pe_mssfix env - of_nat (crypto_encap + transport_encap env (ps_protocol s))\<rparr>) p
         else p)"

text \<open>From the compressor on.\<close>

definition finish_data_channel ::
  "('ssl, 'dc) proto_env \<Rightarrow> 'dc kpar \<Rightarrow> unit res \<times> 'dc kpar" where
  "finish_data_channel env p =
     (let enable_compress = (case kp_crypto p of None \<Rightarrow> False | Some dc \<Rightarrow> dc_consider_compression (pe_dc env) (ps_comp_ctx (kp_sh p)) dc);
          p = (case Option.bind (kp_dck p) dk_rekey of
                 None \<Rightarrow> p
               | Some ty \<Rightarrow> p\<lparr>kp_crypto := map_option (dc_rekey (pe_dc env) ty) (kp_crypto p)\<rparr>);
          p = p\<lparr>kp_dck := None\<rparr>
      in case (if enable_compress then bindE (new_compressor (ps_comp_ctx (kp_sh p))) (\<lambda>c. Inr (Some c)) else Inr None) of
           Inl e \<Rightarrow> (Inl e, p)
         | Inr c \<Rightarrow>
             (let p = cache_op32 (p\<lparr>kp_compress := c\<rparr>);
                  (ctx, settings) = ds_get_context (ps_settings (kp_sh p));
                  p = on_sh (\<lambda>s. s\<lparr>ps_settings := settings\<rparr>) p
              in case bindE ctx encap_overhead of
                   Inl e \<Rightarrow> (Inl e, p)
                 | Inr overhead \<Rightarrow> (Inr (), set_mss_inter env overhead p)))"

definition init_data_channel ::
  "('ssl, 'dc) proto_env \<Rightarrow> ('ssl, 'dc) key \<Rightarrow> (unit res \<times> ('ssl, 'dc) key) option" where
  "init_data_channel env k =
     seq_step (if (case kp_dck (k_par k) of None \<Rightarrow> True | Some d \<Rightarrow> \<not> static_key_defined (dk_key d))
               then generate_datachannel_keys env k else Some (Inr (), k)) (\<lambda>_ k.
       let p = k_par k; key = (case kp_dck p of None \<Rightarrow> [] | Some d \<Rightarrow> dk_key d)
       in case is_bs64_cipher (ds_cipher (ps_settings (kp_sh p))) of
            Inl e \<Rightarrow> Some (Inl e, k)
          | Inr bs64 \<Rightarrow>
              (let p = (if bs64 then p\<lparr>kv_data_limit := Some (dl_init OPENVPN_BS64_DATA_LIMIT OPENVPN_BS64_DATA_LIMIT)\<rparr> else p)
               in case init_crypto env key p of
                    (Inl e, p) \<Rightarrow> Some (Inl e, k\<lparr>k_par := p\<rparr>)
                  | (Inr _, p) \<Rightarrow>
                      (let (r, p) = finish_data_channel env p in Some (r, k\<lparr>k_par := p\<rparr>))))"

text \<open>\<open>do_encrypt\<close>; \<open>crypto\<close> is there when its flags say so, which the callers test.\<close>

definition key_now :: "('ssl, 'dc) key \<Rightarrow> vtime \<Rightarrow> int" where
  "key_now k now = seconds_since_epoch (cw_base (ps_wire (kp_sh (k_par k)))) now"

definition maybe_mssfix :: "('ssl, 'dc) key \<Rightarrow> buf \<Rightarrow> buf" where
  "maybe_mssfix k b =
     (let mss = ps_mss_inter (kp_sh (k_par k)) in if mss > 0 then buf_mssfix (sint mss) b else b)"

definition do_encrypt ::
  "('ssl, 'dc) proto_env \<Rightarrow> vtime \<Rightarrow> bool \<Rightarrow> buf \<Rightarrow> ('ssl, 'dc) key \<Rightarrow> (bool \<times> buf) res \<times> ('ssl, 'dc) key" where
  "do_encrypt env now hint b k =
     (let b = maybe_mssfix k b;
          (r, k) = (case kp_compress (k_par k) of
                      None \<Rightarrow> (Inr b, k)
                    | Some c \<Rightarrow>
                        (let (r, st) = comp_compress (pe_comp env) c hint b (kp_comp_state (k_par k))
                         in (r, k\<lparr>k_par := (k_par k)\<lparr>kp_comp_state := st\<rparr>\<rparr>)))
      in case r of
           Inl e \<Rightarrow> (Inl e, k)
         | Inr b \<Rightarrow>
             (let k = data_limit_add (pe_ev env) now Encrypt (of_nat (b_size b)) k; p = k_par k;
                  op32 = (if kp_enable_op32 p then Some (be32 (op32_compose DATA_V2 (kv_key_id p) (kp_remote_peer_id p))) else None)
              in case kp_crypto p of
                   None \<Rightarrow> (Inr (False, b), k)
                 | Some dc \<Rightarrow>
                     (case dc_encrypt (pe_dc env) op32 (key_now k now) b dc of
                        (r, dc) \<Rightarrow>
                          (bindE r (\<lambda>(b, pid_wrap).
                           bindE (case op32 of
                                    Some op \<Rightarrow> buf_prepend op b
                                  | None \<Rightarrow> buf_push_front (ucast (op_compose DATA_V1 (kv_key_id p))) b) (\<lambda>b.
                           Inr (pid_wrap, b))), k\<lparr>k_par := p\<lparr>kp_crypto := Some dc\<rparr>\<rparr>))))"

definition data_ready :: "('ssl, 'dc) key \<Rightarrow> bool" where
  "data_ready k \<longleftrightarrow> kv_state (k_par k) \<ge> ACTIVE \<and> kp_crypto_flags (k_par k) AND CRYPTO_DEFINED \<noteq> 0
     \<and> \<not> k_invalidated k"

definition key_encrypt ::
  "('ssl, 'dc) proto_env \<Rightarrow> vtime \<Rightarrow> buf \<Rightarrow> ('ssl, 'dc) key \<Rightarrow> buf res \<times> ('ssl, 'dc) key" where
  "key_encrypt env now b k =
     (if data_ready k
      then (case do_encrypt env now True b k of
              (Inl e, k) \<Rightarrow> (Inl e, k)
            | (Inr (pid_wrap, b), k) \<Rightarrow>
                (Inr b, if pid_wrap then schedule_key_limit_renegotiation (pe_ev env) now k else k))
      else (Inr (buf_reset_size b), k))"

text \<open>The body of the \<open>try\<close> block of \<open>decrypt\<close>.\<close>

definition do_decrypt ::
  "('ssl, 'dc) proto_env \<Rightarrow> vtime \<Rightarrow> buf \<Rightarrow> ('ssl, 'dc) key \<Rightarrow> buf res \<times> ('ssl, 'dc) key" where
  "do_decrypt env now b k =
     (case bindE (buf_index 0 b) (\<lambda>op.
           let head_size = op_head_size (ucast op) in
           bindE (buf_advance head_size b) (\<lambda>b'.
           Inr (if head_size = OP_SIZE_V2 then Some (take 4 (drop (b_offset b) (b_mem b))) else None, b'))) of
        Inl e \<Rightarrow> (Inl e, k)
      | Inr (op32, b) \<Rightarrow>
          (case kp_crypto (k_par k) of
             None \<Rightarrow> (Inr b, k)
           | Some dc \<Rightarrow>
               (let (r, dc) = dc_decrypt (pe_dc env) op32 (key_now k now) b dc;
                    k = k\<lparr>k_par := (k_par k)\<lparr>kp_crypto := Some dc\<rparr>\<rparr>
                in case r of
                     Inl e \<Rightarrow> (Inl e, k)
                   | Inr (err, b) \<Rightarrow>
                       (let k = (if err \<noteq> SUCCESS
                                 then (let k = count_error err k
                                       in if key_tcp (k_par k) \<and> (err = DECRYPT_ERROR \<or> err = HMAC_ERROR)
                                          then key_invalidate env err k else k)
                                 else k);
                            k = data_limit_add (pe_ev env) now Decrypt (of_nat (b_size b)) k;
                            (r, k) = (case kp_compress (k_par k) of
                                        None \<Rightarrow> (Inr b, k)
                                      | Some c \<Rightarrow>
                                          (let (r, st) = comp_decompress (pe_comp env) c b (kp_comp_state (k_par k))
                                           in (r, k\<lparr>k_par := (k_par k)\<lparr>kp_comp_state := st\<rparr>\<rparr>)))
                        in (bindE r (\<lambda>b. Inr (maybe_mssfix k b)), k)))))"

definition key_decrypt ::
  "('ssl, 'dc) proto_env \<Rightarrow> vtime \<Rightarrow> buf \<Rightarrow> ('ssl, 'dc) key \<Rightarrow> buf res \<times> ('ssl, 'dc) key" where
  "key_decrypt env now b k =
     (if data_ready k
      then (case do_decrypt env now b k of
              (Inl (Buffer_exn _), k) \<Rightarrow>
                (let k = count_error BUFFER_ERROR k
                 in (Inr (buf_reset_size b), if key_tcp (k_par k) then key_invalidate env BUFFER_ERROR k else k))
            | (r, k) \<Rightarrow> (r, k))
      else (Inr (buf_reset_size b), k))"

definition send_data_channel_message ::
  "('ssl, 'dc) proto_env \<Rightarrow> vtime \<Rightarrow> byte list \<Rightarrow> ('ssl, 'dc) key \<Rightarrow> unit res \<times> ('ssl, 'dc) key" where
  "send_data_channel_message env now data k =
     (if data_ready k
      then (case bindE (frame_prepare (pe_junk env) (pe_addr env) WRITE_DC_MSG (buf_alloc (pe_junk env) 0 0) (pe_frame env))
                       (\<lambda>(_, b). buf_write (pe_junk env) data b) of
              Inl e \<Rightarrow> (Inl e, k)
            | Inr b \<Rightarrow>
                (case do_encrypt env now False b k of
                   (Inl e, k) \<Rightarrow> (Inl e, k)
                 | (Inr (_, b), k) \<Rightarrow>
                     (Inr (), k\<lparr>k_par := on_sh (\<lambda>s. s\<lparr>ps_net_out := ps_net_out s @ [contents b]\<rparr>) (k_par k)\<rparr>)))
      else (Inr (), k))"

definition send_keepalive ::
  "('ssl, 'dc) proto_env \<Rightarrow> vtime \<Rightarrow> ('ssl, 'dc) key \<Rightarrow> unit res \<times> ('ssl, 'dc) key" where
  "send_keepalive env now k = send_data_channel_message env now keepalive_message k"

definition send_explicit_exit_notify ::
  "('ssl, 'dc) proto_env \<Rightarrow> vtime \<Rightarrow> ('ssl, 'dc) key \<Rightarrow> unit res \<times> ('ssl, 'dc) key" where
  "send_explicit_exit_notify env now k =
     (if kp_crypto_flags (k_par k) AND EXPLICIT_EXIT_NOTIFY_DEFINED \<noteq> 0
      then (Inr (), k\<lparr>k_par := (k_par k)\<lparr>kp_crypto := map_option (dc_explicit_exit_notify (pe_dc env)) (kp_crypto (k_par k))\<rparr>\<rparr>)
      else send_data_channel_message env now explicit_exit_notify_message k)"

definition key_rekey :: "('ssl, 'dc) proto_env \<Rightarrow> rekey_type \<Rightarrow> 'dc kpar \<Rightarrow> 'dc kpar" where
  "key_rekey env ty p =
     (case kp_crypto p of
        Some dc \<Rightarrow> p\<lparr>kp_crypto := Some (dc_rekey (pe_dc env) ty dc)\<rparr>
      | None \<Rightarrow>
          (case kp_dck p of
             Some d \<Rightarrow> p\<lparr>kp_dck := Some (d\<lparr>dk_rekey := Some ty\<rparr>)\<rparr>
           | None \<Rightarrow> p))"


section \<open>Life of a key\<close>

text \<open>The constructor; the parent gives the key ID.\<close>

definition key_new ::
  "('ssl, 'dc) proto_env \<Rightarrow> vtime \<Rightarrow> 'ssl \<Rightarrow> bool \<Rightarrow> u32 \<Rightarrow> proto_shared \<Rightarrow> ('ssl, 'dc) key" where
  "key_new env now ssl initiator key_id sh =
     stack_init ssl (pe_tls_timeout env) (pe_window env) (pe_max_ack_list env)
       (negotiate_event (pe_ev env) (cache_op32
          \<lparr>kv_state = (if pe_server env then S_INITIAL else C_INITIAL) + (if initiator then 0 else 1),
           kv_key_id = key_id, kv_limit_fired = False, kv_construct_time = now,
           kv_reached_active = time_zero, kv_next_time = time_zero, kv_current = KEV_NONE, kv_next = KEV_NONE,
           kv_data_limit = None, kp_sh = sh, kp_crypto_flags = 0, kp_remote_peer_id = 0, kp_enable_op32 = False,
           kp_dirty = False, kp_is_reliable = is_reliable (ps_protocol sh), kp_compress = None,
           kp_comp_state = \<lparr>cm_work = buf_alloc (pe_junk env) 0 0, cm_stats = []\<rparr>, kp_crypto = None,
           kp_tlsprf = tls_prf_new (pe_junk env) (pe_server env), kp_app_pre_write = [], kp_dck = None,
           kp_app_recv_buf = [], kp_auth_out = []\<rparr>))"

definition key_set_protocol :: "protocol \<Rightarrow> 'dc kpar \<Rightarrow> 'dc kpar" where
  "key_set_protocol pr p = p\<lparr>kp_is_reliable := is_reliable pr\<rparr>"

definition key_start :: "('ssl, 'dc) proto_env \<Rightarrow> ('ssl, 'dc) key \<Rightarrow> unit res \<times> ('ssl, 'dc) key" where
  "key_start env k =
     (if kv_state (k_par k) = C_INITIAL \<or> kv_state (k_par k) = S_INITIAL
      then (case send_reset env k of
              (Inl e, k) \<Rightarrow> (Inl e, k)
            | (Inr _, k) \<Rightarrow> (Inr (), set_dirty (on_ev (set_state (kv_state (k_par k) + 1)) k)))
      else (Inr (), k))"

text \<open>The messages the application sent too early; one that is too large stays at the head of the queue.\<close>

fun flush_pre_write :: "byte list list \<Rightarrow> ('ssl, 'dc) key \<Rightarrow> unit res \<times> ('ssl, 'dc) key" where
  "flush_pre_write [] k = (Inr (), k\<lparr>k_par := (k_par k)\<lparr>kp_app_pre_write := []\<rparr>\<rparr>)"
| "flush_pre_write (bp # q) k =
     (case app_send_validate bp k of
        (Inl e, k) \<Rightarrow> (Inl e, k\<lparr>k_par := (k_par k)\<lparr>kp_app_pre_write := bp # q\<rparr>\<rparr>)
      | (Inr _, k) \<Rightarrow> flush_pre_write q (set_dirty k))"

definition key_active ::
  "('ssl, 'dc) proto_env \<Rightarrow> vtime \<Rightarrow> ('ssl, 'dc) key \<Rightarrow> (unit res \<times> ('ssl, 'dc) key) option" where
  "key_active env now k =
     (let k = k\<lparr>k_par := (k_par k)\<lparr>kp_dck := Some \<lparr>dk_key = [], dk_rekey = None\<rparr>\<rparr>\<rparr>
      in seq_step (if \<not> ps_dc_deferred (kp_sh (k_par k)) then init_data_channel env k else Some (Inr (), k)) (\<lambda>_ k.
         seq_step (Some (flush_pre_write (kp_app_pre_write (k_par k)) k)) (\<lambda>_ k.
         let p = (k_par k)\<lparr>kv_reached_active := now\<rparr>;
             p = on_sh (\<lambda>s. s\<lparr>ps_slowest_handshake := dur_max (ps_slowest_handshake s) (time_sub now (kv_construct_time p))\<rparr>) p
         in Some (Inr (), k\<lparr>k_par := active_event (pe_ev env) p\<rparr>))))"

definition post_ack_action ::
  "('ssl, 'dc) proto_env \<Rightarrow> vtime \<Rightarrow> ('ssl, 'dc) key \<Rightarrow> (unit res \<times> ('ssl, 'dc) key) option" where
  "post_ack_action env now k =
     (if kv_state (k_par k) \<le> LAST_ACK_STATE
      then (case rs_n_unacked (k_rel_send k) of
              Inl e \<Rightarrow> Some (Inl e, k)
            | Inr (n, rs) \<Rightarrow>
                (let k = k\<lparr>k_rel_send := rs\<rparr>
                 in if n = 0
                    then (let state = kv_state (k_par k);
                              become = (\<lambda>s k. Some (Inr (), on_ev (set_state s) k))
                          in if state = C_WAIT_RESET_ACK
                             then seq_step (start_handshake (key_cb env now) k) (\<lambda>_ k.
                                  seq_step (Some (send_auth env k)) (\<lambda>_. become C_WAIT_AUTH))
                             else if state = S_WAIT_RESET_ACK
                             then seq_step (start_handshake (key_cb env now) k) (\<lambda>_. become S_WAIT_AUTH)
                             else if state = C_WAIT_AUTH_ACK \<or> state = S_WAIT_AUTH_ACK
                             then seq_step (key_active env now k) (\<lambda>_. become ACTIVE)
                             else Some (Inr (), k))
                    else Some (Inr (), k)))
      else Some (Inr (), k))"

definition key_flush ::
  "('ssl, 'dc) proto_env \<Rightarrow> vtime \<Rightarrow> ('ssl, 'dc) key \<Rightarrow> (unit res \<times> ('ssl, 'dc) key) option" where
  "key_flush env now k =
     (if kp_dirty (k_par k)
      then seq_step (post_ack_action env now k) (\<lambda>_ k.
           seq_step (Some (stack_flush (key_cb env now) now k)) (\<lambda>_ k.
           seq_step (send_pending_acks (key_cb env now) k) (\<lambda>_ k.
           Some (Inr (), k\<lparr>k_par := (k_par k)\<lparr>kp_dirty := False\<rparr>\<rparr>))))
      else Some (Inr (), k))"

definition key_net_recv ::
  "('ssl, 'dc) proto_env \<Rightarrow> vtime \<Rightarrow> packet \<Rightarrow> ('ssl, 'dc) key \<Rightarrow> (bool res \<times> ('ssl, 'dc) key) option" where
  "key_net_recv env now pkt k =
     seq_step (net_recv (key_cb env now) pkt k) (\<lambda>ret k. Some (Inr ret, set_dirty k))"

definition key_retransmit ::
  "('ssl, 'dc) proto_env \<Rightarrow> vtime \<Rightarrow> ('ssl, 'dc) key \<Rightarrow> unit res \<times> ('ssl, 'dc) key" where
  "key_retransmit env now k = stack_retransmit (key_cb env now) now k"

text \<open>\<open>validate\<close>: a packet looked at for the owner, before there is a key for it.\<close>

definition key_validate :: "('ssl, 'dc) proto_env \<Rightarrow> vtime \<Rightarrow> buf \<Rightarrow> wire \<Rightarrow> bool res \<times> wire" where
  "key_validate env now b w =
     (case (case cw_wrap w of
              TLS_AUTH \<Rightarrow> validate_tls_auth (pe_hmac_recv env) now b w
            | TLS_PLAIN \<Rightarrow> (validate_tls_plain b w, w)) of
        (Inl (Buffer_exn _), w) \<Rightarrow> (Inr False, w)
      | r \<Rightarrow> r)"

end
