(* ===== verification/Stack_Parent.thy ===== *)
theory Stack_Parent
  imports Proto_Stack
begin

text \<open>
  What a class derived from \<open>ProtoStackBase\<close> may rely on: the stack changes the state of its parent
  only through the virtual methods it calls, so what each of them keeps (a preorder \<open>R\<close> on the state
  of the parent, say that a state machine only advances) every operation of the stack keeps, the
  loops that end only by grace of the SSL object included.
\<close>

locale stack_parent =
  fixes cb :: "('p, 'ssl, 'par) callbacks" and R :: "'par \<Rightarrow> 'par \<Rightarrow> bool"
  assumes R_refl: "R x x"
    and R_trans: "R x y \<Longrightarrow> R y z \<Longrightarrow> R x z"
    and R_encapsulate: "cb_encapsulate cb i p (acks, x) = (r1, acks', y) \<Longrightarrow> R x y"
    and R_decapsulate: "cb_decapsulate cb p (rr, rs, acks, x) = (r2, iv, rr', rs', acks', y) \<Longrightarrow> R x y"
    and R_generate_ack: "cb_generate_ack cb (acks, x) = (r3, acks', y) \<Longrightarrow> R x y"
    and R_net_send: "R x (cb_net_send cb p ty x)"
    and R_app_recv: "cb_app_recv cb bs x = (r4, bss, y) \<Longrightarrow> R x y"
    and R_raw_recv: "cb_raw_recv cb p x = (r5, ps, y) \<Longrightarrow> R x y"
    and R_invalidate: "R x (cb_invalidate cb x)"
begin

lemma R_stack_invalidate: "R (k_par k) (k_par (stack_invalidate cb reason k))"
  by (simp add: stack_invalidate_def R_refl R_invalidate)

lemma R_stack_error: "R (k_par k) (k_par (stack_error cb reason k))"
  using R_stack_invalidate [of "k\<lparr>k_stats := k_stats k @ [reason]\<rparr>" reason] by (simp add: stack_error_def)

lemma R_update_retransmit: "R (k_par k) (k_par (snd (update_retransmit now k)))"
  by (simp add: update_retransmit_def R_refl split: sum.splits prod.splits)

lemma R_send_packet: "R (k_par k) (k_par (snd (send_packet cb now ty p k)))"
proof (cases "rs_send now (k_tls_timeout k) (k_rel_send k)")
  case (Inl e)
  then show ?thesis by (simp add: send_packet_def R_refl)
next
  case (Inr m)
  obtain i s where m: "m = (i, s)" by (cases m)
  obtain r acks par where e: "cb_encapsulate cb (rs_next (k_rel_send k)) p (k_xmit_acks k, k_par k) = (r, acks, par)"
    by (metis prod_cases3)
  note step = R_encapsulate [OF e]
  show ?thesis
  proof (cases r)
    case r: (Inl x)
    show ?thesis
      using R_trans [OF step R_stack_error [of "k\<lparr>k_rel_send := rs_set_packet i p s, k_xmit_acks := acks, k_par := par\<rparr>" ENCAPSULATION_ERROR, simplified]]
      by (simp add: send_packet_def Inr m e r)
  next
    case r: (Inr q)
    show ?thesis using R_trans [OF step R_net_send] by (simp add: send_packet_def Inr m e r)
  qed
qed

lemma R_down_stack_raw: "R (k_par k) (k_par (snd (down_stack_raw cb now k)))"
proof (induction "k_raw_queue k" arbitrary: k)
  case Nil
  then show ?case by (simp add: down_stack_raw.simps R_refl)
next
  case (Cons p ps)
  obtain r k' where s: "send_packet cb now NET_SEND_RAW p (k\<lparr>k_raw_queue := ps\<rparr>) = (r, k')" by fastforce
  with R_send_packet [of "k\<lparr>k_raw_queue := ps\<rparr>" now NET_SEND_RAW p] have step: "R (k_par k) (k_par k')" by simp
  from s send_packet_queue [of cb now NET_SEND_RAW p "k\<lparr>k_raw_queue := ps\<rparr>"] have "ps = k_raw_queue k'" by simp
  from R_trans [OF step Cons(1) [OF this]] step show ?case
    by (simp add: down_stack_raw.simps [of cb now k] Cons(2) [symmetric] s R_refl split: sum.splits)
qed

lemma R_app_write: "R (k_par k) (k_par (snd (app_write cb q k)))"
proof (induction q arbitrary: k)
  case (Cons b q)
  obtain r ssl where w: "ssl_write_cleartext cb b (k_ssl k) = (r, ssl)" by fastforce
  let ?k = "k\<lparr>k_ssl := ssl, k_app_queue := b # q\<rparr>"
  from Cons [of ?k] R_stack_error [of ?k SSL_ERROR] show ?case
    by (simp add: w R_refl Let_def split: sum.splits)
qed (simp add: R_refl)

lemma R_send_ciphertext:
  assumes "c = cb"
  shows "R (k_par k) (k_par (snd (send_ciphertext c now k)))"
  using assms
proof (induction c now k rule: send_ciphertext.induct)
  case (1 c now k)
  let ?k = "k\<lparr>k_ssl := snd (ssl_read_ciphertext cb (k_ssl k))\<rparr>" and ?p = "fst (ssl_read_ciphertext cb (k_ssl k))"
  obtain r k' where s: "send_packet cb now NET_SEND_SSL ?p ?k = (r, k')" by fastforce
  with R_send_packet [of ?k now NET_SEND_SSL ?p] have step: "R (k_par k) (k_par k')" by simp
  show ?case
  proof (cases "ssl_read_ciphertext_ready cb (k_ssl k) \<and> rs_ready (k_rel_send k)")
    case True
    then have "R (k_par k') (k_par (snd (send_ciphertext cb now k')))" if "r = Inr u" for u
      using 1(1) [OF _ _ that] s [symmetric] True 1(2) by (simp add: that)
    with True step R_trans [OF step] s show ?thesis
      by (cases r) (simp_all add: send_ciphertext.simps [of cb now k] 1(2))
  next
    case False
    then show ?thesis by (auto simp: send_ciphertext.simps [of cb now k] R_refl 1(2))
  qed
qed

lemma R_down_stack_app: "R (k_par k) (k_par (snd (down_stack_app cb now k)))"
proof -
  obtain r k' where s: "app_write cb (k_app_queue k) k = (r, k')" by fastforce
  with R_app_write [of k "k_app_queue k"] have step: "R (k_par k) (k_par k')" by simp
  show ?thesis
    using step R_trans [OF step R_send_ciphertext [OF refl]]
    by (simp add: down_stack_app_def s R_refl split: sum.splits)
qed

lemma par_fold_raw_send: "k_par (fold raw_send ps k) = k_par k"
  by (induction ps arbitrary: k) (simp_all add: raw_send_def)

lemma par_fold_app_send: "k_par (fold app_send bs k) = k_par k"
  by (induction bs arbitrary: k) (simp_all add: app_send_def)

lemma R_up_deliver:
  assumes "c = cb"
  shows "R (k_par k) (k_par (snd (up_deliver c k)))"
  using assms
proof (induction c k rule: up_deliver.induct)
  case (1 c k)
  show ?case
  proof (cases "rr_ready (k_rel_recv k)")
    case ready: True
    show ?thesis
    proof (cases "rr_next_sequenced (k_rel_recv k)")
      case None
      with ready show ?thesis by (simp add: up_deliver.simps [of cb k] 1(3) R_refl)
    next
      case m: (Some m)
      show ?thesis
      proof (cases "rr_advance (k_rel_recv k)")
        case None
        with ready m show ?thesis by (simp add: up_deliver.simps [of cb k] 1(3) R_refl)
      next
        case a: (Some a)
        show ?thesis
        proof (cases "m_packet m")
          case None
          with ready m a show ?thesis by (simp add: up_deliver.simps [of cb k] 1(3) R_refl)
        next
          case p: (Some p)
          obtain r5 queued y where v: "cb_raw_recv cb p (k_par k) = (r5, queued, y)" by (metis prod_cases3)
          note step = R_raw_recv [OF v]
          let ?k = "(fold raw_send queued (k\<lparr>k_par := y\<rparr>))\<lparr>k_rel_recv := a\<rparr>"
          have "R (k_par ?k) (k_par (snd (up_deliver cb ?k)))" if "pkt_is_raw cb p" "r5 = Inr u" for u
            using 1(1) [OF ready _ m a p _ v [symmetric, folded 1(3)]] 1(3) that by simp
          moreover have "R (k_par k) (k_par (snd (up_deliver cb (k\<lparr>k_ssl := ssl_write_ciphertext cb p (k_ssl k), k_rel_recv := a\<rparr>))))"
            if "\<not> pkt_is_raw cb p" "k_ssl_started k"
            using 1(2) [OF ready _ m a p] 1(3) that by simp
          ultimately show ?thesis
            using ready m a p v step R_trans [OF step]
            by (cases r5) (simp_all add: up_deliver.simps [of cb k] 1(3) R_refl par_fold_raw_send)
        qed
      qed
    qed
  qed (simp add: up_deliver.simps [of cb k] 1(3) R_refl)
qed

lemma R_read_cleartext_loop:
  assumes "read_cleartext_loop cb k = Some (r, k')"
  shows "R (k_par k) (k_par k')"
proof -
  have "c = cb \<longrightarrow> R (k_par k) (k_par (snd x))" if "read_cleartext_loop c k = Some x" for c k x
    using that
  proof (induction c k x rule: read_cleartext_loop.raw_induct [rotated, consumes 1, case_names step])
    case (step loop c k x)
    show ?case
    proof
      assume c: "c = cb"
      obtain r4 data ssl where v: "ssl_read_cleartext cb (k_ssl k) = (r4, data, ssl)" by (metis prod_cases3)
      let ?k = "k\<lparr>k_ssl := ssl\<rparr>"
      note e = R_stack_error [of ?k SSL_ERROR, simplified]
      show "R (k_par k) (k_par (snd x))"
      proof (cases r4)
        case (Inl z)
        with step(2) c v e show ?thesis by (auto simp: R_refl split: if_splits)
      next
        case (Inr sz)
        obtain r5 queued y where a: "cb_app_recv cb (take (nat sz) data) (k_par k) = (r5, queued, y)"
          by (metis prod_cases3)
        note move = R_app_recv [OF a]
        have "R y (k_par (snd x))" if "loop cb (fold app_send queued (k\<lparr>k_ssl := ssl, k_par := y\<rparr>)) = Some x"
          using step(1) [OF that] by (simp add: par_fold_app_send)
        with step(2) c v Inr a e move R_trans [OF move] show ?thesis
          by (cases r5) (auto simp: R_refl Let_def par_fold_app_send split: if_splits)
      qed
    qed
  qed
  from this [OF assms] show ?thesis by simp
qed

lemma R_up_sequenced:
  assumes "up_sequenced cb k = Some (r, k')"
  shows "R (k_par k) (k_par k')"
proof -
  obtain u k1 where d: "up_deliver cb k = (u, k1)" by fastforce
  with R_up_deliver [OF refl, of k] have step: "R (k_par k) (k_par k1)" by simp
  from assms d step R_trans [OF step R_read_cleartext_loop] show ?thesis
    by (auto simp: up_sequenced_def split: sum.splits if_splits)
qed

lemma R_start_handshake:
  assumes "start_handshake cb k = Some (r, k')"
  shows "R (k_par k) (k_par k')"
  using assms R_up_sequenced [of "k\<lparr>k_ssl := ssl_start_handshake cb (k_ssl k), k_ssl_started := True\<rparr>"]
  by (auto simp: start_handshake_def R_refl split: if_splits)

lemma R_net_recv:
  assumes "net_recv cb p k = Some (r, k')"
  shows "R (k_par k) (k_par k')"
proof (cases "k_invalidated k")
  case True
  with assms show ?thesis by (simp add: net_recv_def R_refl)
next
  case False
  obtain r2 iv rr rs acks y where d:
      "cb_decapsulate cb p (k_rel_recv k, k_rel_send k, k_xmit_acks k, k_par k) = (r2, iv, rr, rs, acks, y)"
    by (metis prod_cases6)
  let ?k = "k\<lparr>k_reentry := k_reentry k + 1, k_rel_recv := rr, k_rel_send := rs, k_xmit_acks := acks, k_par := y\<rparr>"
  let ?k2 = "case iv of None \<Rightarrow> ?k | Some reason \<Rightarrow> stack_invalidate cb reason ?k"
  note step = R_decapsulate [OF d]
  have "R y (k_par ?k2)" using R_stack_invalidate [of ?k] by (simp add: R_refl split: option.splits)
  from R_trans [OF step this] have step2: "R (k_par k) (k_par ?k2)" .
  have "R (k_par ?k2) (k_par k3)" if "up_sequenced cb ?k2 = Some (x, k3)" for x k3
    by (rule R_up_sequenced [OF that])
  with assms False d step2 R_trans [OF step2] show ?thesis
    by (cases r2) (auto simp: net_recv_def up_stack_def Let_def split: option.splits bool.splits sum.splits)
qed

lemma R_stack_flush:
  assumes "stack_flush cb now k = (r, k')"
  shows "R (k_par k) (k_par k')"
proof (cases "\<not> k_invalidated k \<and> k_reentry k = 0")
  case True
  obtain u k1 where a: "down_stack_raw cb now k = (u, k1)" by fastforce
  obtain v k2 where b: "down_stack_app cb now k1 = (v, k2)" by fastforce
  from a R_down_stack_raw [of k now] have s1: "R (k_par k) (k_par k1)" by simp
  from b R_down_stack_app [of k1 now] R_trans [OF s1] have s2: "R (k_par k) (k_par k2)" by simp
  from R_update_retransmit [of k2 now] R_trans [OF s2] have s3: "R (k_par k) (k_par (snd (update_retransmit now k2)))" by simp
  from assms True a b s1 s2 s3 show ?thesis
    by (auto simp: stack_flush_def split: sum.splits)
next
  case False
  with assms show ?thesis by (auto simp: stack_flush_def R_refl split: if_splits)
qed

lemma R_send_pending_acks:
  assumes "send_pending_acks cb k = Some (r, k')"
  shows "R (k_par k) (k_par k')"
proof -
  have "c = cb \<longrightarrow> R (k_par k) (k_par (snd x))" if "send_acks_loop c k = Some x" for c k x
    using that
  proof (induction c k x rule: send_acks_loop.raw_induct [rotated, consumes 1, case_names step])
    case (step loop c k x)
    obtain r3 acks y where g: "cb_generate_ack cb (k_xmit_acks k, k_par k) = (r3, acks, y)" by (metis prod_cases3)
    note move = R_generate_ack [OF g]
    have "R y (k_par (snd x))"
      if "loop cb (k\<lparr>k_xmit_acks := acks, k_par := cb_net_send cb p NET_SEND_ACK y\<rparr>) = Some x" for p
      using R_trans [OF R_net_send [of y p NET_SEND_ACK]] step(1) [OF that] by simp
    with step(2) g move R_trans [OF move] show ?case
      by (cases r3) (auto simp: R_refl split: if_splits)
  qed
  from this [of cb k "(r, k')"] assms show ?thesis
    by (auto simp: send_pending_acks_def R_refl split: if_splits)
qed

lemma R_retransmit_loop: "R (k_par k) (k_par (snd (retransmit_loop cb now ids k)))"
proof (induction ids arbitrary: k)
  case (Cons i ids)
  show ?case
  proof (cases "win_ref_by_id send_msg i (rs_window (k_rel_send k))")
    case (Inr jw)
    obtain j w where jw: "jw = (j, w)" by (cases jw)
    show ?thesis
    proof (cases "(ready_retransmit now (w_q w ! j), m_packet (w_q w ! j))")
      case (Pair t p)
      let ?k = "k\<lparr>k_rel_send := (k_rel_send k)\<lparr>rs_window :=
                         w\<lparr>w_q := (w_q w)[j := reset_retransmit now (k_tls_timeout k) (w_q w ! j)]\<rparr>\<rparr>,
                  k_par := cb_net_send cb (the p) NET_SEND_RETRANSMIT (k_par k)\<rparr>"
      from Cons [of ?k] R_trans [OF R_net_send [of "k_par k" "the p" NET_SEND_RETRANSMIT]]
        Cons [of "k\<lparr>k_rel_send := (k_rel_send k)\<lparr>rs_window := w\<rparr>\<rparr>"] Inr jw Pair
      show ?thesis by (cases t; cases p) (simp_all add: Let_def)
    qed
  qed (simp add: R_refl)
qed (simp add: R_refl)

lemma R_stack_retransmit:
  assumes "stack_retransmit cb now k = (r, k')"
  shows "R (k_par k) (k_par k')"
proof -
  obtain u k1 where a: "retransmit_loop cb now (window_ids (rs_window (k_rel_send k))) k = (u, k1)" by fastforce
  with R_retransmit_loop [of k now "window_ids (rs_window (k_rel_send k))"] have s1: "R (k_par k) (k_par k1)" by simp
  from assms a s1 R_update_retransmit [of k1 now] R_trans [OF s1] show ?thesis
    by (auto simp: stack_retransmit_def R_refl split: sum.splits if_splits)
qed

end

end
