(* ===== verification/Key_Life.thy ===== *)
theory Key_Life
  imports Key_Context Stack_Parent
begin

text \<open>
  The state machine of a key, \<^verbatim>\<open>ssl/proto.hpp\<close> \<open>KeyContext\<close>: which operations take it from one state to
  the next. \<open>key_step\<close> is any call the owner of a key makes, at any time, with any result of the
  network, the SSL object and the changes other keys make to the shared members; its properties
  rest on an interpretation of \<open>stack_parent\<close> on the callbacks of a key.
\<close>

section \<open>The states of a key\<close>

text \<open>The states in the order a key goes through them.\<close>

definition key_path :: "bool \<Rightarrow> int list" where
  "key_path server =
     (if server then [S_INITIAL, S_WAIT_RESET, S_WAIT_RESET_ACK, S_WAIT_AUTH, S_WAIT_AUTH_ACK, ACTIVE]
      else [C_INITIAL, C_WAIT_RESET, C_WAIT_RESET_ACK, C_WAIT_AUTH, C_WAIT_AUTH_ACK, ACTIVE])"

fun position :: "int list \<Rightarrow> int \<Rightarrow> nat" where
  "position [] x = 0"
| "position (y # ys) x = (if x = y then 0 else Suc (position ys x))"

definition key_stage :: "('ssl, 'dc) proto_env \<Rightarrow> 'dc kpar \<Rightarrow> nat" where
  "key_stage env p = position (key_path (pe_server env)) (kv_state p)"

text \<open>From stage 4 on the peer's authentication message has been taken in.\<close>

definition key_ok :: "('ssl, 'dc) proto_env \<Rightarrow> 'dc kpar \<Rightarrow> bool" where
  "key_ok env p \<longleftrightarrow> kv_state p \<in> set (key_path (pe_server env))
     \<and> (pe_server env \<longrightarrow> key_stage env p \<ge> 4 \<longrightarrow> kp_auth_out p \<noteq> [])
     \<and> (\<forall>c \<in> set (kp_auth_out p). au_server_auth (pe_auth env) c = Inr ())"

definition key_advances :: "('ssl, 'dc) proto_env \<Rightarrow> 'dc kpar \<Rightarrow> 'dc kpar \<Rightarrow> bool" where
  "key_advances env p p' \<longleftrightarrow> kv_key_id p' = kv_key_id p
     \<and> (key_ok env p \<longrightarrow> key_ok env p' \<and> key_stage env p \<le> key_stage env p')"

text \<open>What the stack may do to it besides: the states that wait for acknowledgements are left by \<open>post_ack_action\<close> only.\<close>

definition stack_advances :: "('ssl, 'dc) proto_env \<Rightarrow> 'dc kpar \<Rightarrow> 'dc kpar \<Rightarrow> bool" where
  "stack_advances env p p' \<longleftrightarrow> key_advances env p p'
     \<and> (kv_state p \<le> LAST_ACK_STATE \<longrightarrow> kv_state p' = kv_state p)"

definition key_core :: "'dc kpar \<Rightarrow> int \<times> u32 \<times> credentials list" where
  "key_core p = (kv_state p, kv_key_id p, kp_auth_out p)"

lemma key_advances_trans: "key_advances env x y \<Longrightarrow> key_advances env y z \<Longrightarrow> key_advances env x z"
  by (auto simp: key_advances_def)

lemma stack_advances_trans: "stack_advances env x y \<Longrightarrow> stack_advances env y z \<Longrightarrow> stack_advances env x z"
  by (auto simp: stack_advances_def intro: key_advances_trans)

lemma stack_advances_core: "key_core p' = key_core p \<Longrightarrow> stack_advances env p p'"
  by (simp add: stack_advances_def key_advances_def key_core_def key_ok_def key_stage_def)

lemma stack_advances_key: "stack_advances env p p' \<Longrightarrow> key_advances env p p'"
  by (simp add: stack_advances_def)

lemma key_advances_core: "key_core p' = key_core p \<Longrightarrow> key_advances env p p'"
  by (rule stack_advances_key [OF stack_advances_core])

lemma core_on_sh [simp]: "key_core (on_sh f p) = key_core p" "kv_state (on_sh f p) = kv_state p"
  "kp_auth_out (on_sh f p) = kp_auth_out p" "kv_key_id (on_sh f p) = kv_key_id p"
  by (simp_all add: on_sh_def key_core_def)

lemma core_put_wire [simp]: "key_core (put_wire w p) = key_core p"
  by (simp add: put_wire_def)

text \<open>One move along the path.\<close>

lemma position_nth: "distinct ys \<Longrightarrow> i < length ys \<Longrightarrow> position ys (ys ! i) = i"
proof (induction ys arbitrary: i)
  case (Cons y ys)
  then show ?case by (cases i) auto
qed simp

lemma key_path_facts: "distinct (key_path server)" "length (key_path server) = 6"
  by (simp_all add: key_path_def)

lemma set_state_advances:
  assumes "kv_state p = key_path (pe_server env) ! i" "s = key_path (pe_server env) ! Suc i" "i < 5"
    "pe_server env \<Longrightarrow> i = 3 \<Longrightarrow> kp_auth_out p \<noteq> []"
  shows "key_advances env p (set_state s p)"
proof -
  have "key_stage env p = i" "key_stage env (set_state s p) = Suc i"
    using assms(1-3) key_path_facts [of "pe_server env"] by (simp_all add: key_stage_def set_state_def position_nth)
  moreover have "i \<ge> 4 \<or> i = 3 \<or> Suc i < 4" by linarith
  moreover have "key_path (pe_server env) ! Suc i \<in> set (key_path (pe_server env))"
    using assms(3) key_path_facts(2) [of "pe_server env"] by simp
  ultimately show ?thesis
    using assms(2,4) by (auto simp: key_advances_def key_ok_def set_state_def)
qed

definition key_moves :: "bool \<Rightarrow> (int \<times> int) set" where
  "key_moves server = set (zip (key_path server) (tl (key_path server)))"

lemma set_state_moves:
  assumes "kv_state p \<in> set (key_path (pe_server env)) \<Longrightarrow> (kv_state p, s) \<in> key_moves (pe_server env)"
    "s = S_WAIT_AUTH_ACK \<Longrightarrow> kp_auth_out p \<noteq> []"
  shows "key_advances env p (set_state s p)"
proof (cases "kv_state p \<in> set (key_path (pe_server env))")
  case True
  from assms(1) [OF True] obtain i where "i < 5"
    "kv_state p = key_path (pe_server env) ! i" "s = key_path (pe_server env) ! Suc i"
    using key_path_facts(2) [of "pe_server env"] by (auto simp: key_moves_def in_set_zip nth_tl)
  then show ?thesis
    using assms(2) by (intro set_state_advances) (auto simp: key_path_def numeral_eq_Suc)
next
  case False
  then show ?thesis by (simp add: key_advances_def key_ok_def set_state_def)
qed

lemmas moves = key_moves_def key_path_def

section \<open>The callbacks of a key\<close>

lemma core_encapsulate:
  assumes "key_encapsulate env now i p (acks, x) = (r, acks', y)"
  shows "key_core y = key_core x"
  using assms by (auto simp: key_encapsulate_def split: prod.splits)

lemma core_generate_ack:
  assumes "key_generate_ack env now (acks, x) = (r, acks', y)"
  shows "key_core y = key_core x"
  using assms by (auto simp: key_generate_ack_def split: prod.splits sum.splits)

lemma core_decapsulate:
  assumes "key_decapsulate env now p (rr, rs, acks, x) = (r, iv, rr', rs', acks', y)"
  shows "key_core y = key_core x"
  using assms by (auto simp: key_decapsulate_def split: prod.splits)

lemma core_net_send: "key_core (key_net_send p ty x) = key_core x"
  by (simp add: key_net_send_def)

lemma core_invalidate: "key_core (invalidate_callback x) = key_core x"
  by (simp add: invalidate_callback_def key_core_def)

lemma core_make_auth:
  assumes "make_auth env p = (r, p')"
  shows "key_core p' = key_core p"
  using assms by (auto simp: make_auth_def key_core_def on_sh_def Let_def split: prod.splits sum.splits if_splits)

text \<open>Taking in the peer's message leaves the state, and on a server logs credentials that were accepted.\<close>

lemma recv_auth_accepts:
  assumes "recv_auth e b t = (Inr c, t')"
  shows "au_server e = (c \<noteq> None)" "c = Some x \<Longrightarrow> au_server_auth e x = Inr ()"
  using assms
  by (auto simp: recv_auth_def bindE_Inr_iff split: sum.splits if_splits prod.splits)

lemma take_auth_logs:
  assumes "take_auth env p = (r, p')"
  shows "kv_state p' = kv_state p \<and> kv_key_id p' = kv_key_id p
    \<and> (\<exists>l. kp_auth_out p' = kp_auth_out p @ l \<and> (\<forall>c \<in> set l. au_server_auth (pe_auth env) c = Inr ())
        \<and> (pe_server env \<longrightarrow> r = Inr () \<longrightarrow> l \<noteq> []))"
proof -
  obtain bytes bv where g: "composed_get (kp_app_recv_buf p) = (bytes, bv)" by fastforce
  obtain r1 t where a: "recv_auth (key_auth_env env) (buf_view bytes True) (kp_tlsprf p) = (r1, t)" by fastforce
  show ?thesis
  proof (cases r1)
    case (Inl e)
    then show ?thesis using assms g a by (auto simp: take_auth_def)
  next
    case (Inr c)
    with recv_auth_accepts [OF a [unfolded Inr]] assms g a show ?thesis
      by (cases c) (auto simp: take_auth_def key_auth_env_def)
  qed
qed

lemma logs_advance:
  assumes "kv_state p' = kv_state p" "kv_key_id p' = kv_key_id p" "kp_auth_out p' = kp_auth_out p @ l"
    "\<forall>c \<in> set l. au_server_auth (pe_auth env) c = Inr ()"
  shows "stack_advances env p p'"
  using assms by (auto simp: stack_advances_def key_advances_def key_ok_def key_stage_def)

lemma leaves_running: "kv_state x > LAST_ACK_STATE \<Longrightarrow> key_advances env x y \<Longrightarrow> stack_advances env x y"
  by (simp add: stack_advances_def)

lemma raw_recv_advances:
  assumes "key_raw_recv env p x = (r, ps, y)"
  shows "stack_advances env x y"
proof -
  have "y = x \<or> kv_state x = C_WAIT_RESET \<and> y = set_state C_WAIT_RESET_ACK x
      \<or> kv_state x = S_WAIT_RESET \<and> y = set_state S_WAIT_RESET_ACK x"
    using assms by (auto simp: key_raw_recv_def split: if_splits sum.splits)
  then show ?thesis
  proof (elim disjE)
    assume "y = x"
    then show ?thesis by (simp add: stack_advances_core)
  qed (auto simp: stack_advances_def moves split: if_splits intro!: set_state_moves)
qed

lemma app_recv_advances:
  assumes "key_app_recv env bp x = (r, bss, y)"
  shows "stack_advances env x y"
proof -
  define x1 where "x1 = x\<lparr>kp_app_recv_buf := composed_put bp (kp_app_recv_buf x)\<rparr>"
  have s1: "key_core x1 = key_core x" by (simp add: x1_def key_core_def)
  define complete where
    "complete = fst (recv_auth_complete (pe_server env) (kp_tlsprf x1) (composed_complete (kp_app_recv_buf x1)))"
  show ?thesis
  proof (cases "(kv_state x1 = C_WAIT_AUTH \<or> kv_state x1 = S_WAIT_AUTH) \<and> complete
      \<and> \<not> join_size (kp_app_recv_buf x1) > APP_MSG_MAX")
    case True
    obtain r2 x2 where t: "take_auth env x1 = (r2, x2)" by fastforce
    obtain l where l: "kv_state x2 = kv_state x1" "kv_key_id x2 = kv_key_id x1" "kp_auth_out x2 = kp_auth_out x1 @ l"
      "\<forall>c \<in> set l. au_server_auth (pe_auth env) c = Inr ()" "pe_server env \<longrightarrow> r2 = Inr () \<longrightarrow> l \<noteq> []"
      using take_auth_logs [OF t] by auto
    have "stack_advances env x1 x2" by (rule logs_advance [OF l(1-4)])
    then have s2: "stack_advances env x x2" by (rule stack_advances_trans [OF stack_advances_core [OF s1]])
    obtain r3 x3 where m: "make_auth env x2 = (r3, x3)" by fastforce
    note s3 = core_make_auth [OF m]
    from True t m assms have y: "y = x2 \<or> y = x3 \<or> r2 = Inr () \<and> (kv_state x1 = C_WAIT_AUTH \<and> y = set_state C_WAIT_AUTH_ACK x2
        \<or> kv_state x1 = S_WAIT_AUTH \<and> y = set_state S_WAIT_AUTH_ACK x3)"
      by (auto simp: key_app_recv_def x1_def [symmetric] complete_def [symmetric] Let_def split: sum.splits if_splits)
    have big: "kv_state x > LAST_ACK_STATE" using True s1 by (auto simp: key_core_def)
    have core3: "kv_state x3 = kv_state x2" "kp_auth_out x3 = kp_auth_out x2" using s3 by (simp_all add: key_core_def)
    have c: "key_advances env x2 (set_state C_WAIT_AUTH_ACK x2)" if "kv_state x1 = C_WAIT_AUTH"
      by (rule set_state_moves) (use that l(1) in \<open>auto simp: moves split: if_splits\<close>)
    have d: "key_advances env x3 (set_state S_WAIT_AUTH_ACK x3)" if "kv_state x1 = S_WAIT_AUTH" "r2 = Inr ()" "pe_server env"
      by (rule set_state_moves) (use that l core3 in \<open>auto simp: moves split: if_splits\<close>)
    have d': "key_advances env x3 (set_state S_WAIT_AUTH_ACK x3)" if "kv_state x1 = S_WAIT_AUTH" "\<not> pe_server env"
      using that core3 l(1) by (simp add: key_advances_def key_ok_def set_state_def key_path_def)
    have "stack_advances env x2 x3" by (rule stack_advances_core [OF s3])
    note a3 = stack_advances_trans [OF s2 this]
    note through = leaves_running [OF big key_advances_trans]
    from y show ?thesis
    proof (elim disjE conjE)
      assume "r2 = Inr ()" "kv_state x1 = C_WAIT_AUTH" "y = set_state C_WAIT_AUTH_ACK x2"
      then show ?thesis using through [OF stack_advances_key [OF s2] c] by simp
    next
      assume "r2 = Inr ()" "kv_state x1 = S_WAIT_AUTH" "y = set_state S_WAIT_AUTH_ACK x3"
      then show ?thesis using through [OF stack_advances_key [OF a3]] d d' by blast
    qed (simp_all add: s2 a3)
  next
    case False
    then have "key_core y = key_core x1"
      using assms by (auto simp: key_app_recv_def x1_def [symmetric] complete_def [symmetric] Let_def
          split: if_splits prod.splits) (simp_all add: key_core_def)
    then show ?thesis by (simp add: s1 stack_advances_core)
  qed
qed

interpretation ks: stack_parent "key_cb env now" "stack_advances env"
proof unfold_locales
  show "stack_advances env x x" for x by (simp add: stack_advances_core)
  show "stack_advances env x y \<Longrightarrow> stack_advances env y z \<Longrightarrow> stack_advances env x z" for x y z
    by (rule stack_advances_trans)
qed (simp_all add: key_cb_def raw_recv_advances app_recv_advances stack_advances_core [OF core_net_send]
    stack_advances_core [OF core_encapsulate] stack_advances_core [OF core_decapsulate]
    stack_advances_core [OF core_generate_ack] stack_advances_core [OF core_invalidate])

section \<open>The operations of a key\<close>

abbreviation (input) moves_to ::
  "('ssl, 'dc) proto_env \<Rightarrow> ('ssl, 'dc) key \<Rightarrow> ('ssl, 'dc) key \<Rightarrow> bool" where
  "moves_to env k k' \<equiv> key_advances env (k_par k) (k_par k')"

lemmas advances_trans = key_advances_trans

lemma raw_send_par [simp]: "k_par (raw_send p k) = k_par k"
  by (simp add: raw_send_def)

lemma app_send_par [simp]: "k_par (app_send p k) = k_par k"
  by (simp add: app_send_def)

lemma set_dirty_core [simp]: "key_core (k_par (set_dirty k)) = key_core (k_par k)"
  by (simp add: set_dirty_def key_core_def)

lemma core_cache_op32 [simp]: "key_core (cache_op32 p) = key_core p"
  by (simp add: cache_op32_def key_core_def)

lemma core_send_auth:
  assumes "send_auth env k = (r, k')"
  shows "key_core (k_par k') = key_core (k_par k)"
  using assms core_make_auth by (auto simp: send_auth_def split: prod.splits sum.splits)

lemma core_app_send_validate:
  assumes "app_send_validate bp k = (r, k')"
  shows "key_core (k_par k') = key_core (k_par k)"
  using assms by (auto simp: app_send_validate_def split: if_splits)

lemma core_key_app_send:
  assumes "key_app_send bp k = (r, k')"
  shows "key_core (k_par k') = key_core (k_par k)"
  using assms core_app_send_validate
  by (auto simp: key_app_send_def key_core_def set_dirty_def split: if_splits prod.splits sum.splits)

lemma core_generate:
  assumes "generate_datachannel_keys env k = Some (r, k')"
  shows "key_core (k_par k') = key_core (k_par k)"
  using assms by (auto simp: generate_datachannel_keys_def key_core_def Let_def split: sum.splits option.splits if_splits)

lemma core_init_crypto:
  assumes "init_crypto env key p = (r, p')"
  shows "key_core p' = key_core p"
  using assms by (auto simp: init_crypto_def key_core_def on_sh_def Let_def split: sum.splits prod.splits)

lemma core_finish:
  assumes "finish_data_channel env p = (r, p')"
  shows "key_core p' = key_core p"
  using assms
  by (auto simp: finish_data_channel_def set_mss_inter_def key_core_def on_sh_def cache_op32_def Let_def
      split: sum.splits prod.splits option.splits if_splits)

lemma core_init_data_channel:
  assumes "init_data_channel env k = Some (r, k')"
  shows "key_core (k_par k') = key_core (k_par k)"
proof -
  let ?g = "if (case kp_dck (k_par k) of None \<Rightarrow> True | Some d \<Rightarrow> \<not> static_key_defined (dk_key d))
               then generate_datachannel_keys env k else Some (Inr (), k)"
  obtain r1 k1 where g: "?g = Some (r1, k1)" using assms by (cases ?g) (auto simp: init_data_channel_def)
  then have c1: "key_core (k_par k1) = key_core (k_par k)" by (auto intro: core_generate split: if_splits)
  show ?thesis
  proof (cases r1)
    case (Inl e)
    with assms g c1 show ?thesis by (simp add: init_data_channel_def)
  next
    case (Inr u)
    define p where "p = (if is_bs64_cipher (ds_cipher (ps_settings (kp_sh (k_par k1)))) = Inr True
        then (k_par k1)\<lparr>kv_data_limit := Some (dl_init OPENVPN_BS64_DATA_LIMIT OPENVPN_BS64_DATA_LIMIT)\<rparr> else k_par k1)"
    have cp: "key_core p = key_core (k_par k1)" by (simp add: p_def key_core_def)
    let ?key = "case kp_dck (k_par k1) of None \<Rightarrow> [] | Some d \<Rightarrow> dk_key d"
    obtain r2 p2 where i: "init_crypto env ?key p = (r2, p2)" by fastforce
    obtain r3 p3 where f: "finish_data_channel env p2 = (r3, p3)" by fastforce
    have "k_par k' \<in> {k_par k1, p2, p3}"
      using assms g i f Inr
      by (auto simp: init_data_channel_def p_def Let_def split: sum.splits if_splits)
    then show ?thesis using c1 cp core_init_crypto [OF i] core_finish [OF f] by auto
  qed
qed

lemma core_flush_pre_write:
  assumes "flush_pre_write q k = (r, k')"
  shows "key_core (k_par k') = key_core (k_par k)"
  using assms
proof (induction q arbitrary: k)
  case Nil
  then show ?case by (auto simp: key_core_def)
next
  case (Cons bp q)
  obtain r1 k1 where v: "app_send_validate bp k = (r1, k1)" by fastforce
  note c = core_app_send_validate [OF v]
  show ?case
  proof (cases r1)
    case (Inl e)
    with Cons.prems v c show ?thesis by (auto simp: key_core_def)
  next
    case (Inr u)
    with Cons.prems v have "flush_pre_write q (set_dirty k1) = (r, k')" by simp
    from Cons.IH [OF this] c show ?thesis by simp
  qed
qed

lemma seq_step_Some:
  assumes "seq_step m f = Some (r, s)"
  obtains e where "m = Some (Inl e, s)" "r = Inl e" | x s1 where "m = Some (Inr x, s1)" "f x s1 = Some (r, s)"
  using assms by (auto simp: seq_step_def split: option.splits sum.splits)

text \<open>The first step establishes \<open>P\<close>, the second makes \<open>Q\<close> of it.\<close>

lemma seq_step_keeps:
  assumes "seq_step m f = Some (r, s)" "\<And>x s1. m = Some (x, s1) \<Longrightarrow> P s1" "\<And>s1. P s1 \<Longrightarrow> Q s1"
    "\<And>x s1. P s1 \<Longrightarrow> f x s1 = Some (r, s) \<Longrightarrow> Q s"
  shows "Q s"
  using assms by (auto elim!: seq_step_Some)

lemma core_key_active:
  fixes k :: "('ssl, 'dc) key"
  assumes "key_active env now k = Some (r, k')"
  shows "key_core (k_par k') = key_core (k_par k)"
proof -
  let ?k = "k\<lparr>k_par := (k_par k)\<lparr>kp_dck := Some \<lparr>dk_key = [], dk_rekey = None\<rparr>\<rparr>\<rparr>"
  let ?i = "if \<not> ps_dc_deferred (kp_sh (k_par ?k)) then init_data_channel env ?k else Some (Inr (), ?k)"
  let ?P = "\<lambda>k1 :: ('ssl, 'dc) key. key_core (k_par k1) = key_core (k_par k)"
  have ci: "?P k1" if "?i = Some (x, k1)" for x k1
    using that core_init_data_channel [of env ?k x k1]
    by (auto simp: key_core_def split: if_splits)
  show ?thesis
  proof (rule seq_step_keeps [OF assms [unfolded key_active_def Let_def], where P = ?P and Q = ?P])
    fix x and k1 :: "('ssl, 'dc) key"
    assume k1: "?P k1"
    assume f: "seq_step (Some (flush_pre_write (kp_app_pre_write (k_par k1)) k1)) (\<lambda>_ k.
        Some (Inr (), k\<lparr>k_par := active_event (pe_ev env) (on_sh
          (\<lambda>s. s\<lparr>ps_slowest_handshake := dur_max (ps_slowest_handshake s) (time_sub now
             (kv_construct_time (k_par k\<lparr>kv_reached_active := now\<rparr>)))\<rparr>) (k_par k\<lparr>kv_reached_active := now\<rparr>))\<rparr>)) = Some (r, k')"
    show "?P k'"
    proof (rule seq_step_keeps [OF f, where P = ?P and Q = ?P])
      show "?P k2" if "Some (flush_pre_write (kp_app_pre_write (k_par k1)) k1) = Some (y, k2)" for y k2
        using core_flush_pre_write [of _ k1 y k2] that k1 by simp
    qed (auto simp: key_core_def active_event_def set_events_def on_sh_def)
  qed (use ci in \<open>auto simp del: stack.update_convs\<close>)
qed

lemma leaves_ack_state:
  assumes "stack_advances env x y" "(kv_state x, s) \<in>
      {(C_WAIT_RESET_ACK, C_WAIT_AUTH), (S_WAIT_RESET_ACK, S_WAIT_AUTH), (C_WAIT_AUTH_ACK, ACTIVE), (S_WAIT_AUTH_ACK, ACTIVE)}"
  shows "key_advances env x (set_state s y)"
proof -
  have "kv_state y = kv_state x" using assms by (auto simp: stack_advances_def)
  then have "key_advances env y (set_state s y)"
    using assms(2) by (intro set_state_moves) (auto simp: moves split: if_splits)
  from key_advances_trans [OF stack_advances_key [OF assms(1)] this] show ?thesis .
qed

lemma post_ack_advances:
  fixes k :: "('ssl, 'dc) key"
  assumes "post_ack_action env now k = Some (r, k')"
  shows "moves_to env k k'"
proof (cases "kv_state (k_par k) \<le> LAST_ACK_STATE \<and> (\<exists>rs. rs_n_unacked (k_rel_send k) = Inr (0, rs))")
  case False
  with assms show ?thesis
    by (auto simp: post_ack_action_def Let_def intro!: key_advances_core split: if_splits sum.splits prod.splits)
next
  case True
  then obtain rs where rs: "rs_n_unacked (k_rel_send k) = Inr (0, rs)" by blast
  let ?k = "k\<lparr>k_rel_send := rs\<rparr>"
  let ?st = "kv_state (k_par k)"
  let ?P = "\<lambda>k1 :: ('ssl, 'dc) key. stack_advances env (k_par k) (k_par k1)" and ?Q = "\<lambda>k1 :: ('ssl, 'dc) key. key_advances env (k_par k) (k_par k1)"
  let ?become = "\<lambda>s (k :: ('ssl, 'dc) key). Some (Inr () :: unit res, on_ev (set_state s) k)"
  have PQ: "?P k1 \<Longrightarrow> ?Q k1" for k1 by (rule stack_advances_key)
  have hs: "?P k1" if "start_handshake (key_cb env now) ?k = Some (x, k1)" for x k1
    using ks.R_start_handshake [OF that] by simp
  have become: "?Q k1" if "?P k2" "?become s k2 = Some (y, k1)" "(?st, s) \<in>
      {(C_WAIT_RESET_ACK, C_WAIT_AUTH), (S_WAIT_RESET_ACK, S_WAIT_AUTH), (C_WAIT_AUTH_ACK, ACTIVE), (S_WAIT_AUTH_ACK, ACTIVE)}"
    for k1 k2 s y
    using leaves_ack_state [OF that(1,3)] that(2) by auto
  consider (1) "?st = C_WAIT_RESET_ACK" | (2) "?st = S_WAIT_RESET_ACK" | (3) "?st = C_WAIT_AUTH_ACK \<or> ?st = S_WAIT_AUTH_ACK"
    | (4) "?st \<notin> {C_WAIT_RESET_ACK, S_WAIT_RESET_ACK, C_WAIT_AUTH_ACK, S_WAIT_AUTH_ACK}"
    by blast
  then show ?thesis
  proof cases
    case 1
    have e: "seq_step (start_handshake (key_cb env now) ?k) (\<lambda>_ k1. seq_step (Some (send_auth env k1)) (\<lambda>_. ?become C_WAIT_AUTH)) = Some (r, k')"
      using assms True rs 1 by (simp add: post_ack_action_def)
    show ?thesis
    proof (rule seq_step_keeps [OF e, where P = ?P and Q = ?Q])
      fix k1 assume k1: "?P k1" and f: "seq_step (Some (send_auth env k1)) (\<lambda>_. ?become C_WAIT_AUTH) = Some (r, k')"
      have "?P k2" if "send_auth env k1 = (y, k2)" for y k2
        using stack_advances_trans [OF k1 stack_advances_core [OF core_send_auth [OF that]]] .
      then show "?Q k'"
        using seq_step_keeps [OF f, where P = ?P and Q = ?Q] PQ become 1 by blast
    qed (use hs PQ in blast)+
  next
    case 2
    have e: "seq_step (start_handshake (key_cb env now) ?k) (\<lambda>_. ?become S_WAIT_AUTH) = Some (r, k')"
      using assms True rs 2 by (simp add: post_ack_action_def)
    show ?thesis
      using seq_step_keeps [OF e, where P = ?P and Q = ?Q] hs PQ become 2 by blast
  next
    case 3
    then have e: "seq_step (key_active env now ?k) (\<lambda>_. ?become ACTIVE) = Some (r, k')"
      using assms True rs by (auto simp: post_ack_action_def)
    have "?P k1" if "key_active env now ?k = Some (x, k1)" for x k1
      using stack_advances_core [OF core_key_active [OF that]] by simp
    then show ?thesis
      using seq_step_keeps [OF e, where P = ?P and Q = ?Q] PQ become 3 by blast
  qed (use assms True rs in \<open>auto simp: post_ack_action_def key_advances_core\<close>)
qed

lemma flush_advances:
  fixes k :: "('ssl, 'dc) key"
  assumes "key_flush env now k = Some (r, k')"
  shows "moves_to env k k'"
proof (cases "kp_dirty (k_par k)")
  case True
  let ?Q = "\<lambda>k1 :: ('ssl, 'dc) key. key_advances env (k_par k) (k_par k1)"
  let ?flush = "\<lambda>k1. Some (stack_flush (key_cb env now) now k1)" and ?acks = "send_pending_acks (key_cb env now)"
  let ?fin = "\<lambda>k1 :: ('ssl, 'dc) key. Some (Inr () :: unit res, k1\<lparr>k_par := (k_par k1)\<lparr>kp_dirty := False\<rparr>\<rparr>)"
  have fl: "?Q k2" if "?Q k1" "?flush k1 = Some (x, k2)" for x k1 k2
    using key_advances_trans [OF that(1) stack_advances_key [OF ks.R_stack_flush]] that(2) by blast
  have ac: "?Q k2" if "?Q k1" "?acks k1 = Some (x, k2)" for x k1 k2
    using key_advances_trans [OF that(1) stack_advances_key [OF ks.R_send_pending_acks [OF that(2)]]] .
  have en: "?Q k2" if "?Q k1" "?fin k1 = Some (x, k2)" for x k1 k2
    using key_advances_trans [OF that(1) key_advances_core] that(2) by (auto simp: key_core_def)
  have e: "seq_step (post_ack_action env now k) (\<lambda>_ k1. seq_step (?flush k1) (\<lambda>_ k1. seq_step (?acks k1) (\<lambda>_. ?fin)))
      = Some (r, k')"
    using assms True by (simp add: key_flush_def)
  show ?thesis
  proof (rule seq_step_keeps [OF e, where P = ?Q and Q = ?Q])
    fix k1 assume k1: "?Q k1" and f: "seq_step (?flush k1) (\<lambda>_ k1. seq_step (?acks k1) (\<lambda>_. ?fin)) = Some (r, k')"
    show "?Q k'"
    proof (rule seq_step_keeps [OF f, where P = ?Q and Q = ?Q])
      fix k2 assume k2: "?Q k2" and g: "seq_step (?acks k2) (\<lambda>_. ?fin) = Some (r, k')"
      show "?Q k'" using seq_step_keeps [OF g, where P = ?Q and Q = ?Q] ac [OF k2] en by blast
    qed (use fl [OF k1] in blast)+
  qed (use post_ack_advances in blast)+
next
  case False
  with assms show ?thesis by (simp add: key_flush_def key_advances_core)
qed

lemma start_advances:
  assumes "key_start env k = (r, k')"
  shows "moves_to env k k'"
proof -
  obtain r1 k1 where s: "send_reset env k = (r1, k1)" by fastforce
  then have p: "k_par k1 = k_par k" by (auto simp: send_reset_def split: sum.splits)
  have "key_advances env (k_par k) (set_state (kv_state (k_par k) + 1) (k_par k))"
    if "kv_state (k_par k) = C_INITIAL \<or> kv_state (k_par k) = S_INITIAL"
    by (rule set_state_moves) (use that in \<open>auto simp: moves split: if_splits\<close>)
  then show ?thesis
    using assms s p by (auto simp: key_start_def set_dirty_def key_advances_core split: if_splits sum.splits
        intro: key_advances_trans [OF _ key_advances_core] simp: key_core_def)
qed

lemma net_recv_advances:
  assumes "key_net_recv env now pkt k = Some (r, k')"
  shows "moves_to env k k'"
proof (rule seq_step_keeps [OF assms [unfolded key_net_recv_def], where P = "moves_to env k" and Q = "moves_to env k"])
  show "moves_to env k k1" if "net_recv (key_cb env now) pkt k = Some (x, k1)" for x k1
    by (rule stack_advances_key [OF ks.R_net_recv [OF that]])
  show "moves_to env k k'" if "moves_to env k k1" "Some (Inr x, set_dirty k1) = Some (r, k')" for x k1
    using key_advances_trans [OF that(1) key_advances_core [of "k_par (set_dirty k1)"]] that(2) by auto
qed

lemma retransmit_advances:
  assumes "key_retransmit env now k = (r, k')"
  shows "moves_to env k k'"
  using stack_advances_key [OF ks.R_stack_retransmit] assms by (simp add: key_retransmit_def)

section \<open>Operations that leave the state machine alone\<close>

lemma core_on_ev: "key_core (f (k_par k)) = key_core (k_par k) \<Longrightarrow> key_core (k_par (on_ev f k)) = key_core (k_par k)"
  by simp

lemma core_set_events [simp]: "key_core (set_events c n t p) = key_core p" "key_core (set_event c p) = key_core p"
  "key_core (p\<lparr>kv_limit_fired := b\<rparr>) = key_core p" "key_core (p\<lparr>kv_data_limit := dl\<rparr>) = key_core p"
  "key_core (reset_event p) = key_core p"
  by (simp_all add: set_events_def set_event_def reset_event_def key_core_def)

lemma core_update [simp]: "key_core (p\<lparr>kp_crypto := x1\<rparr>) = key_core p" "key_core (p\<lparr>kp_comp_state := x2\<rparr>) = key_core p"
  "key_core (p\<lparr>kp_dck := x3\<rparr>) = key_core p" "key_core (p\<lparr>kp_is_reliable := x4\<rparr>) = key_core p"
  "key_core (p\<lparr>kp_sh := x5\<rparr>) = key_core p"
  by (simp_all add: key_core_def)

lemma core_key_invalidate [simp]: "key_core (k_par (stack_invalidate (key_cb env now) reason k)) = key_core (k_par k)"
  by (simp add: stack_invalidate_def key_cb_def core_invalidate)

lemma core_prepare_expire [simp]: "key_core (prepare_expire c now ev p) = key_core p"
  by (simp add: prepare_expire_def)

lemma core_key_limit_reneg [simp]: "key_core (key_limit_reneg c ev t p) = key_core p"
  by (simp add: key_limit_reneg_def)

lemma core_schedule [simp]: "key_core (k_par (schedule_key_limit_renegotiation c now k)) = key_core (k_par k)"
  by (simp add: schedule_key_limit_renegotiation_def Let_def)

lemma core_data_limit_event [simp]: "key_core (k_par (data_limit_event c now st k)) = key_core (k_par k)"
  by (simp add: data_limit_event_def Let_def split: option.splits)

lemma core_data_limit [simp]:
  "key_core (k_par (data_limit_add c now mode n k)) = key_core (k_par k)"
  "key_core (k_par (data_limit_notify c now mode st k)) = key_core (k_par k)"
  by (simp_all add: data_limit_add_def data_limit_notify_def Let_def split: option.splits prod.splits)

lemma core_kev_error [simp]: "key_core (k_par (kev_error (key_cb env now) ev reason k)) = key_core (k_par k)"
  by (simp add: kev_error_def)

lemma core_process_next_event [simp]:
  "key_core (k_par (process_next_event (key_cb env now) c t k)) = key_core (k_par k)"
  by (simp add: process_next_event_def Let_def split: key_event.split)

lemma core_event_pending [simp]: "key_core (k_par (snd (event_pending (key_cb env now) c t k))) = key_core (k_par k)"
  by (simp add: event_pending_def Let_def)

lemma core_do_encrypt:
  assumes "do_encrypt env now hint b k = (r, k')"
  shows "key_core (k_par k') = key_core (k_par k)"
proof -
  obtain r1 k1 where c: "(case kp_compress (k_par k) of
                      None \<Rightarrow> (Inr (maybe_mssfix k b), k)
                    | Some c \<Rightarrow>
                        (let (r, st) = comp_compress (pe_comp env) c hint (maybe_mssfix k b) (kp_comp_state (k_par k))
                         in (r, k\<lparr>k_par := (k_par k)\<lparr>kp_comp_state := st\<rparr>\<rparr>))) = (r1, k1)" by (metis surj_pair)
  have k1: "key_core (k_par k1) = key_core (k_par k)"
    using c by (auto simp: key_core_def split: option.splits prod.splits)
  have "key_core (k_par (data_limit_add (pe_ev env) now Encrypt n k1)) = key_core (k_par k)" for n
    using k1 by simp
  then show ?thesis
    using assms k1 by (auto simp: do_encrypt_def c Let_def split: sum.splits option.splits prod.splits)
qed

lemma core_do_decrypt:
  assumes "do_decrypt env now b k = (r, k')"
  shows "key_core (k_par k') = key_core (k_par k)"
  using assms
  by (auto simp: do_decrypt_def Let_def key_invalidate_def split: sum.splits option.splits prod.splits if_splits)

lemma core_key_encrypt:
  assumes "key_encrypt env now b k = (r, k')"
  shows "key_core (k_par k') = key_core (k_par k)"
  using assms core_do_encrypt by (fastforce simp: key_encrypt_def split: if_splits sum.splits prod.splits)

lemma core_key_decrypt:
  assumes "key_decrypt env now b k = (r, k')"
  shows "key_core (k_par k') = key_core (k_par k)"
proof -
  obtain r1 k1 where d: "do_decrypt env now b k = (r1, k1)" by fastforce
  note c = core_do_decrypt [OF d]
  have "k' = k \<or> k' = k1 \<or> k' = count_error BUFFER_ERROR k1 \<or> k' = key_invalidate env BUFFER_ERROR (count_error BUFFER_ERROR k1)"
    using assms by (auto simp: key_decrypt_def d Let_def split: if_splits sum.splits exn.splits)
  then show ?thesis using c by (auto simp: key_invalidate_def)
qed

lemma core_send_message:
  assumes "send_data_channel_message env now bs k = (r, k')"
  shows "key_core (k_par k') = key_core (k_par k)"
  using assms core_do_encrypt
  by (fastforce simp: send_data_channel_message_def split: if_splits sum.splits prod.splits)

lemma core_exit_notify:
  assumes "send_explicit_exit_notify env now k = (r, k')"
  shows "key_core (k_par k') = key_core (k_par k)"
  using assms core_send_message by (auto simp: send_explicit_exit_notify_def split: if_splits)

lemma core_rekey [simp]: "key_core (key_rekey env ty p) = key_core p"
  by (simp add: key_rekey_def split: option.splits)

section \<open>All calls\<close>

text \<open>
  Any call the owner of a key makes, and any change another key makes to the shared members. The
  results are dropped: an exception leaves the key in the state it was thrown in.
\<close>

inductive key_step :: "('ssl, 'dc) proto_env \<Rightarrow> ('ssl, 'dc) key \<Rightarrow> ('ssl, 'dc) key \<Rightarrow> bool"
  for env where
  step_start: "key_start env k = (r1, k') \<Longrightarrow> key_step env k k'"
| step_flush: "key_flush env now k = Some (r1, k') \<Longrightarrow> key_step env k k'"
| step_net_recv: "key_net_recv env now pkt k = Some (r2, k') \<Longrightarrow> key_step env k k'"
| step_retransmit: "key_retransmit env now k = (r1, k') \<Longrightarrow> key_step env k k'"
| step_app_send: "key_app_send bp k = (r1, k') \<Longrightarrow> key_step env k k'"
| step_encrypt: "key_encrypt env now b k = (r3, k') \<Longrightarrow> key_step env k k'"
| step_decrypt: "key_decrypt env now b k = (r3, k') \<Longrightarrow> key_step env k k'"
| step_message: "send_data_channel_message env now bs k = (r1, k') \<Longrightarrow> key_step env k k'"
| step_exit_notify: "send_explicit_exit_notify env now k = (r1, k') \<Longrightarrow> key_step env k k'"
| step_invalidate: "key_step env k (key_invalidate env reason k)"
| step_rekey: "key_step env k (on_ev (key_rekey env ty) k)"
| step_event: "key_step env k (snd (event_pending (key_cb env now) (pe_ev env) now k))"
| step_reset_event: "key_step env k (on_ev reset_event k)"
| step_next_event: "key_step env k (set_next_event_if_unspecified (pe_ev env) now k)"
| step_expire: "key_step env k (on_ev (prepare_expire (pe_ev env) now ev) k)"
| step_limit_reneg: "key_step env k (on_ev (key_limit_reneg (pe_ev env) ev now) k)"
| step_limit_notify: "key_step env k (data_limit_notify (pe_ev env) now mode st k)"
| step_init_data: "init_data_channel env k = Some (r1, k') \<Longrightarrow> key_step env k k'"
| step_set_protocol: "key_step env k (on_ev (key_set_protocol pr) k)"
| step_shared: "key_step env k (on_ev (on_sh f) k)"

lemma step_advances:
  assumes "key_step env k k'"
  shows "moves_to env k k'"
  using assms
proof cases
  case (step_net_recv now pkt r2)
  then show ?thesis by (rule net_recv_advances)
next
  case (step_app_send bp r1)
  from key_advances_core [OF core_key_app_send [OF this]] show ?thesis .
next
  case (step_encrypt now b r3)
  from key_advances_core [OF core_key_encrypt [OF this]] show ?thesis .
next
  case (step_decrypt now b r3)
  from key_advances_core [OF core_key_decrypt [OF this]] show ?thesis .
next
  case (step_message now bs r1)
  from key_advances_core [OF core_send_message [OF this]] show ?thesis .
next
  case (step_exit_notify now r1)
  from key_advances_core [OF core_exit_notify [OF this]] show ?thesis .
next
  case (step_init_data r1)
  from key_advances_core [OF core_init_data_channel [OF this]] show ?thesis .
qed (auto intro: start_advances flush_advances retransmit_advances key_advances_core
    simp: key_invalidate_def set_next_event_if_unspecified_def key_set_protocol_def)

definition key_reaches :: "('ssl, 'dc) proto_env \<Rightarrow> ('ssl, 'dc) key \<Rightarrow> ('ssl, 'dc) key \<Rightarrow> bool" where
  "key_reaches env = (key_step env)\<^sup>*\<^sup>*"

lemma reaches_advances:
  assumes "key_reaches env k k'"
  shows "moves_to env k k'"
  using assms unfolding key_reaches_def
proof (induction rule: rtranclp_induct)
  case base
  show ?case by (simp add: key_advances_core)
next
  case (step y z)
  from key_advances_trans [OF step(3) step_advances [OF step(2)]] show ?case .
qed

lemma new_ok: "key_ok env (k_par (key_new env now ssl initiator i sh)) \<and> kv_key_id (k_par (key_new env now ssl initiator i sh)) = i"
  by (simp add: key_new_def stack_init_def key_ok_def key_path_def key_stage_def negotiate_event_def set_events_def cache_op32_def)

section \<open>Properties\<close>

text \<open>
  C14. A key keeps its ID and only moves forward along the states of its role (client: INITIAL,
  WAIT_RESET, WAIT_RESET_ACK, WAIT_AUTH, WAIT_AUTH_ACK, ACTIVE; likewise a server), whatever calls
  are made on it, whatever packets arrive, whatever the SSL object does and whichever of the calls
  end with an exception.
\<close>

theorem key_states_advance:
  fixes env now ssl initiator i sh
  assumes "key_reaches env (key_new env now ssl initiator i sh) k" "key_reaches env k k'"
  shows "kv_key_id (k_par k') = i \<and> kv_state (k_par k') \<in> set (key_path (pe_server env))
    \<and> position (key_path (pe_server env)) (kv_state (k_par k)) \<le> position (key_path (pe_server env)) (kv_state (k_par k'))"
proof -
  have k: "key_ok env (k_par k) \<and> kv_key_id (k_par k) = i"
    using reaches_advances [OF assms(1)] new_ok [of env now ssl initiator i sh] by (simp add: key_advances_def)
  then have "key_ok env (k_par k') \<and> key_stage env (k_par k) \<le> key_stage env (k_par k') \<and> kv_key_id (k_par k') = i"
    using reaches_advances [OF assms(2)] by (simp add: key_advances_def)
  then show ?thesis by (simp add: key_ok_def key_stage_def)
qed

lemma not_ready:
  assumes "\<not> data_ready k"
  shows "key_encrypt env now b k = (Inr (buf_reset_size b), k)" "key_decrypt env now b k = (Inr (buf_reset_size b), k)"
    "send_data_channel_message env now bs k = (Inr (), k)"
  using assms by (simp_all add: key_encrypt_def key_decrypt_def send_data_channel_message_def)

text \<open>
  \<open>flush\<close> does not ask whether the key is still valid: once the last acknowledgement is in, a key that
  has been invalidated meanwhile becomes active all the same, and the event it raises takes the place of
  the one that told of the failure.
\<close>

lemma invalidated_key_activates:
  assumes "k_invalidated k" "kv_state (k_par k) = C_WAIT_AUTH_ACK \<or> kv_state (k_par k) = S_WAIT_AUTH_ACK"
    "kp_dirty (k_par k)" "rs_n_unacked (k_rel_send k) = Inr (0, rs)" "ps_dc_deferred (kp_sh (k_par k))"
    "kp_app_pre_write (k_par k) = []"
  shows "\<exists>k'. key_flush env now k = Some (Inr (), k') \<and> k_invalidated k' \<and> kv_state (k_par k') = ACTIVE
    \<and> kv_current (k_par k') = KEV_ACTIVE \<and> kv_next (k_par k') = KEV_BECOME_PRIMARY"
  using assms
  by (auto simp: key_flush_def post_ack_action_def key_active_def Let_def on_sh_def active_event_def set_events_def
      set_state_def stack_flush_def send_pending_acks_def on_ev_def)

text \<open>A setting in the clear, with an SSL object that does nothing.\<close>

definition plain_wire :: wire where
  "plain_wire =
     \<lparr>cw_wrap = TLS_PLAIN, cw_tcp = False, cw_base = 0, cw_hmac_size = 0, cw_key_id = 0,
      cw_psid_self = \<lparr>psid_is_defined = True, psid_id = [1, 2, 3, 4, 5, 6, 7, 8]\<rparr>,
      cw_psid_peer = \<lparr>psid_is_defined = True, psid_id = [8, 7, 6, 5, 4, 3, 2, 1]\<rparr>,
      cw_pid_send = pid_send_init LONG_FORM, cw_pid_recv = pid_recv_init 0 LONG_FORM '''' 0 [],
      cw_stats = [], cw_invalidated = None, cw_keepalive_timeout = dur_seconds 10, cw_keepalive_expire = Time 0,
      cw_recv = rr_init 4, cw_send = rs_init 4, cw_acks = ra_new 4\<rparr>"

definition plain_shared :: proto_shared where
  "plain_shared =
     \<lparr>ps_wire = plain_wire, ps_protocol = UDPv4, ps_settings = ds_new, ps_comp_ctx = \<lparr>cx_type = NONE, cx_asym = False\<rparr>,
      ps_mss_inter = 0, ps_dc_deferred = True, ps_enable_op32 = True, ps_remote_peer_id = 5,
      ps_rng = replicate 112 1, ps_slowest_handshake = Duration 0, ps_net_out = [], ps_app_out = []\<rparr>"

definition plain_frame :: frame where
  "plain_frame = frame_of_context (make_context 96 200 16 0 1 0)"

definition plain_env :: "bool \<Rightarrow> comp_env \<Rightarrow> 'dc dc_ops \<Rightarrow> (unit, 'dc) proto_env" where
  "plain_env server ce ops =
     \<lparr>pe_ev = plain_config server, pe_auth = plain_auth_env server, pe_comp = ce, pe_dc = ops,
      pe_ssl = \<lparr>sl_start_handshake = id, sl_write_cleartext = (\<lambda>bs s. (Inr (int (length bs)), s)),
        sl_read_ciphertext_ready = (\<lambda>_. False), sl_read_ciphertext = (\<lambda>s. (buf_alloc (\<lambda>_. 0) 0 0, s)),
        sl_write_ciphertext = (\<lambda>_ s. s), sl_read_cleartext_ready = (\<lambda>_. False),
        sl_read_cleartext = (\<lambda>s. (Inr 0, [], s)), sl_export_keying_material = (\<lambda>_ _ _. None)\<rparr>,
      pe_frame = plain_frame, pe_junk = (\<lambda>_. 0), pe_addr = 0,
      pe_hmac_send = \<lparr>h_final = id, h_size = 0\<rparr>, pe_hmac_recv = \<lparr>h_final = id, h_size = 0\<rparr>,
      pe_prf = (\<lambda>_ _ x. x), pe_pid_mode = 0, pe_mss_mtu = False, pe_mssfix = 0,
      pe_tls_timeout = dur_seconds 1, pe_window = 4, pe_max_ack_list = 4\<rparr>"

lemma plain_frame_ok: "frame_ok plain_frame"
  by (auto simp: plain_frame_def frame_ok_def frame_of_context_def ctx_ok_def make_context_def recalc_derived_def sz_add_def
      intro: exI [of _ 0])

lemma plain_frame_prepare:
  assumes "i < N_ALIGN_CONTEXTS"
  shows "\<exists>n b. frame_prepare (\<lambda>_. 0) 0 i (buf_alloc (\<lambda>_. 0) 0 0) plain_frame = Inr (n, b)"
proof -
  have "buf_wf (buf_alloc (\<lambda>_. 0) 0 0)" "b_owned (buf_alloc (\<lambda>_. 0) 0 0)"
    by (simp_all add: buf_wf_def buf_alloc_def has_flag_def fresh_mem_def)
  then show ?thesis using frame_prepare_ok [OF plain_frame_ok _ _ assms] by blast
qed

definition plain_new :: "bool \<Rightarrow> comp_env \<Rightarrow> 'dc dc_ops \<Rightarrow> (unit, 'dc) key" where
  "plain_new server ce ops = key_new (plain_env server ce ops) (Time 1024) () True 3 plain_shared"

lemma key_new_fields:
  "kv_state (k_par (key_new env now ssl initiator i sh)) = (if pe_server env then S_INITIAL else C_INITIAL) + (if initiator then 0 else 1)"
  "kp_auth_out (k_par (key_new env now ssl initiator i sh)) = []"
  by (simp_all add: key_new_def stack_init_def negotiate_event_def set_events_def cache_op32_def)

lemma plain_fields:
  "pe_server (plain_env server ce ops) = server" "pe_frame (plain_env server ce ops) = plain_frame"
  "pe_junk (plain_env server ce ops) = (\<lambda>_. 0)" "pe_addr (plain_env server ce ops) = 0"
  "pe_comp (plain_env server ce ops) = ce" "pe_dc (plain_env server ce ops) = ops"
  by (simp_all add: plain_env_def plain_config_def)

lemma plain_new_fields:
  "kv_state (k_par (plain_new server ce ops)) = (if server then S_INITIAL else C_INITIAL)"
  "kp_auth_out (k_par (plain_new server ce ops)) = []"
  by (simp_all add: plain_new_def key_new_fields plain_fields)

lemma plain_started:
  "kv_state (k_par (snd (key_start (plain_env False ce ops) (plain_new False ce ops)))) = C_WAIT_RESET"
proof -
  obtain n b where "frame_prepare (\<lambda>_. 0) 0 WRITE_SSL_INIT (buf_alloc (\<lambda>_. 0) 0 0) plain_frame = Inr (n, b)"
    using plain_frame_prepare [of WRITE_SSL_INIT] by auto
  then have "\<exists>pkt. reset_packet (plain_env False ce ops) p = Inr pkt" for p
    by (simp add: reset_packet_def plain_fields)
  then obtain pkt where "reset_packet (plain_env False ce ops) (k_par (plain_new False ce ops)) = Inr pkt" by blast
  then show ?thesis
    by (simp add: key_start_def send_reset_def set_dirty_def set_state_def plain_fields plain_new_fields)
qed

definition null_dc :: "unit dc_ops" where
  "null_dc =
     \<lparr>dc_encrypt = (\<lambda>_ _ b s. (Inr (b, False), s)), dc_decrypt = (\<lambda>_ _ b s. (Inr (SUCCESS, b), s)),
      dc_defined = (\<lambda>_. CRYPTO_DEFINED), dc_init_cipher = (\<lambda>_ _ s. (Inr (), s)), dc_init_hmac = (\<lambda>_ _ s. (Inr (), s)),
      dc_init_pid = (\<lambda>_ _ _ _ _ _ s. s), dc_init_remote_peer_id = (\<lambda>_ s. s), dc_consider_compression = (\<lambda>_ _. True),
      dc_rekey = (\<lambda>_ s. s), dc_explicit_exit_notify = id, dc_new_obj = (\<lambda>_ _. ())\<rparr>"

lemma started_reached:
  "key_reaches env (key_new env now ssl initiator i sh) (snd (key_start env (key_new env now ssl initiator i sh)))"
proof -
  have "key_step env (key_new env now ssl initiator i sh) (snd (key_start env (key_new env now ssl initiator i sh)))"
    by (rule step_start [of _ _ "fst (key_start env (key_new env now ssl initiator i sh))"]) simp
  then show ?thesis by (simp add: key_reaches_def)
qed

theorem key_states_advance_witness:
  "kv_key_id (k_par (snd (key_start (plain_env False zeros_env null_dc) (plain_new False zeros_env null_dc)))) = 3
   \<and> kv_state (k_par (plain_new False zeros_env null_dc)) = C_INITIAL
   \<and> position (key_path False) C_INITIAL \<le> position (key_path False) C_WAIT_RESET"
proof -
  let ?env = "plain_env False zeros_env null_dc" and ?k = "plain_new False zeros_env null_dc"
  have r: "key_reaches ?env ?k (snd (key_start ?env ?k))" using started_reached by (simp add: plain_new_def)
  have r0: "key_reaches ?env ?k ?k" by (simp add: key_reaches_def)
  have s: "kv_state (k_par ?k) = C_INITIAL" "\<not> pe_server ?env" by (simp_all add: plain_fields plain_new_fields)
  from key_states_advance [OF r0 [unfolded plain_new_def] r [unfolded plain_new_def]] s show ?thesis
    by (simp add: plain_new_def [symmetric] plain_started)
qed

end
