(* ===== verification/Aead.thy ===== *)
theory Aead
  imports Crypto_Dc Packet_Id
begin

text \<open>
  \<^verbatim>\<open>crypto/crypto_aead.hpp\<close>: the data channel under an AEAD cipher, and
  \<^verbatim>\<open>mbedtls/crypto/cipheraead.hpp\<close>, the wrapper of the library it is built with. The library
  itself is a parameter.
\<close>

section \<open>Nonces\<close>

text \<open>\<open>data\<close>: four bytes for the packet head, four for the packet ID, eight of the nonce tail.\<close>

record nonce =
  n_ad_op32 :: bool
  n_data :: "byte list"

definition nonce_new :: nonce where
  "nonce_new = \<lparr>n_ad_op32 = False, n_data = replicate 16 0\<rparr>"

definition nonce_set_tail :: "byte list \<Rightarrow> nonce \<Rightarrow> nonce res" where
  "nonce_set_tail sk n =
     (if length sk < 8 then Inl (Std_exception ''aead_error: insufficient key material for nonce tail'')
      else Inr (n\<lparr>n_data := blit 8 (take 8 sk) (n_data n)\<rparr>))"

definition nonce_with_op32 :: "byte list option \<Rightarrow> byte list \<Rightarrow> nonce" where
  "nonce_with_op32 op32 data =
     (case op32 of
        Some h \<Rightarrow> \<lparr>n_ad_op32 = True, n_data = blit 0 (take 4 h) data\<rparr>
      | None \<Rightarrow> \<lparr>n_ad_op32 = False, n_data = data\<rparr>)"

definition nonce_for_encrypt ::
  "(nat \<Rightarrow> byte) \<Rightarrow> nonce \<Rightarrow> pid_send \<Rightarrow> int \<Rightarrow> byte list option \<Rightarrow> nonce res \<times> pid_send" where
  "nonce_for_encrypt junk ref ps now op32 =
     (case pid_send_write_next junk False now ps (buf_view (take 4 (drop 4 (n_data ref))) False) of
        (Inl e, ps) \<Rightarrow> (Inl e, ps)
      | (Inr v, ps) \<Rightarrow> (Inr (nonce_with_op32 op32 (blit 4 (b_mem v) (n_data ref))), ps))"

definition nonce_prepend_ad :: "nonce \<Rightarrow> buf \<Rightarrow> buf res" where
  "nonce_prepend_ad n b = buf_prepend (take 4 (drop 4 (n_data n))) b"

definition nonce_for_decrypt :: "nonce \<Rightarrow> buf \<Rightarrow> byte list option \<Rightarrow> (nonce \<times> buf) res" where
  "nonce_for_decrypt ref b op32 =
     bindE (buf_read 4 b) (\<lambda>(bs, b). Inr (nonce_with_op32 op32 (blit 4 bs (n_data ref)), b))"

definition nonce_verify_packet_id :: "nonce \<Rightarrow> pid_recv \<Rightarrow> int \<Rightarrow> (bool \<times> pid_recv) res" where
  "nonce_verify_packet_id n pr now =
     bindE (pid_recv_read_next pr (buf_view (take 4 (drop 4 (n_data n))) True)) (\<lambda>(p, _). test_add p now True pr)"

definition nonce_iv :: "nonce \<Rightarrow> byte list" where
  "nonce_iv n = take 12 (drop 4 (n_data n))"

definition nonce_ad_len :: "nonce \<Rightarrow> nat" where
  "nonce_ad_len n = (if n_ad_op32 n then 8 else 4)"

definition nonce_ad :: "nonce \<Rightarrow> byte list" where
  "nonce_ad n = take (nonce_ad_len n) (if n_ad_op32 n then n_data n else drop 4 (n_data n))"


section \<open>Encryption and decryption\<close>

text \<open>
  The template parameter \<open>CRYPTO_API::CipherContextAEAD\<close>: keyed contexts \<open>'k\<close>; encryption gives
  ciphertext and tag, decryption whether the packet is authentic and the bytes it has written.
\<close>

record 'k aead_api =
  api_in_place :: bool
  api_init :: "crypto_alg \<Rightarrow> byte list \<Rightarrow> bool \<Rightarrow> 'k res"
  api_encrypt :: "'k \<Rightarrow> byte list \<Rightarrow> byte list \<Rightarrow> byte list \<Rightarrow> (byte list \<times> byte list) res"
  api_decrypt :: "'k \<Rightarrow> byte list \<Rightarrow> byte list \<Rightarrow> byte list \<Rightarrow> byte list \<Rightarrow> (bool \<times> byte list) res"

record 'k aead_env =
  av_frame :: frame
  av_junk :: "nat \<Rightarrow> byte"
  av_addr :: nat
  av_api :: "'k aead_api"

record 'k aead_send =
  ae_impl :: 'k
  ae_nonce :: nonce
  ae_pid :: pid_send
  ae_work :: buf

record 'k aead_recv =
  ad_impl :: 'k
  ad_nonce :: nonce
  ad_pid :: pid_recv
  ad_work :: buf

abbreviation (input) ENCRYPT_WORK :: nat where "ENCRYPT_WORK \<equiv> 0"
abbreviation (input) DECRYPT_WORK :: nat where "DECRYPT_WORK \<equiv> 1"

text \<open>The two branches of \<open>encrypt\<close>: in place, and into the work buffer.\<close>

definition aead_in_place ::
  "'k aead_env \<Rightarrow> nonce \<Rightarrow> buf \<Rightarrow> 'k aead_send \<Rightarrow> buf res \<times> 'k aead_send" where
  "aead_in_place env n b e =
     (case buf_prepend_alloc AUTH_TAG_LEN b of
        Inl x \<Rightarrow> (Inl x, e)
      | Inr b' \<Rightarrow>
          (case api_encrypt (av_api env) (ae_impl e) (contents b) (nonce_iv n) (nonce_ad n) of
             Inl x \<Rightarrow> (Inl x, e)
           | Inr (ct, tag) \<Rightarrow>
               (Inr (b'\<lparr>b_mem := blit (b_offset b') tag (blit (b_offset b) ct (b_mem b'))\<rparr>), e)))"

definition aead_via_work ::
  "'k aead_env \<Rightarrow> nonce \<Rightarrow> buf \<Rightarrow> 'k aead_send \<Rightarrow> buf res \<times> 'k aead_send" where
  "aead_via_work env n b e =
     (case frame_prepare (av_junk env) (av_addr env) ENCRYPT_WORK (ae_work e) (av_frame env) of
        Inl x \<Rightarrow> (Inl x, e)
      | Inr (_, work) \<Rightarrow>
          (if buf_max_size work < b_size b
           then (Inl (Std_exception ''aead_error: encrypt work buffer too small''), e\<lparr>ae_work := work\<rparr>)
           else (case buf_prepend_alloc AUTH_TAG_LEN work of
                   Inl x \<Rightarrow> (Inl x, e\<lparr>ae_work := work\<rparr>)
                 | Inr w1 \<Rightarrow>
                     (case api_encrypt (av_api env) (ae_impl e) (contents b) (nonce_iv n) (nonce_ad n) of
                        Inl x \<Rightarrow> (Inl x, e\<lparr>ae_work := w1\<rparr>)
                      | Inr (ct, tag) \<Rightarrow>
                          (case buf_write (av_junk env) ct w1 of
                             Inl x \<Rightarrow> (Inl x, e\<lparr>ae_work := w1\<rparr>)
                           | Inr w2 \<Rightarrow>
                               (Inr (w2\<lparr>b_mem := blit (b_offset w1) tag (b_mem w2)\<rparr>), e\<lparr>ae_work := b\<rparr>))))))"

definition aead_encrypt ::
  "'k aead_env \<Rightarrow> byte list option \<Rightarrow> int \<Rightarrow> buf \<Rightarrow> 'k aead_send \<Rightarrow> (buf \<times> bool) res \<times> 'k aead_send" where
  "aead_encrypt env op32 now b e =
     (if b_size b = 0 then (Inr (b, pid_send_wrap_warning (ae_pid e)), e)
      else (case nonce_for_encrypt (av_junk env) (ae_nonce e) (ae_pid e) now op32 of
              (Inl x, ps) \<Rightarrow> (Inl x, e\<lparr>ae_pid := ps\<rparr>)
            | (Inr n, ps) \<Rightarrow>
                (case (if api_in_place (av_api env) then aead_in_place env n b (e\<lparr>ae_pid := ps\<rparr>)
                       else aead_via_work env n b (e\<lparr>ae_pid := ps\<rparr>)) of
                   (Inl x, e) \<Rightarrow> (Inl x, e)
                 | (Inr b, e) \<Rightarrow>
                     (case nonce_prepend_ad n b of
                        Inl x \<Rightarrow> (Inl x, e)
                      | Inr b \<Rightarrow> (Inr (b, pid_send_wrap_warning (ae_pid e)), e)))))"

definition aead_decrypt ::
  "'k aead_env \<Rightarrow> byte list option \<Rightarrow> int \<Rightarrow> buf \<Rightarrow> 'k aead_recv \<Rightarrow> (error_type \<times> buf) res \<times> 'k aead_recv" where
  "aead_decrypt env op32 now b d =
     (if b_size b = 0 then (Inr (SUCCESS, b), d)
      else (case nonce_for_decrypt (ad_nonce d) b op32 of
        Inl x \<Rightarrow> (Inl x, d)
      | Inr (n, b) \<Rightarrow>
     (case buf_read AUTH_TAG_LEN b of
        Inl x \<Rightarrow> (Inl x, d)
      | Inr (tag, b) \<Rightarrow>
     (case frame_prepare (av_junk env) (av_addr env) DECRYPT_WORK (ad_work d) (av_frame env) of
        Inl x \<Rightarrow> (Inl x, d)
      | Inr (_, work) \<Rightarrow>
     (if buf_max_size work < b_size b
      then (Inl (Std_exception ''aead_error: decrypt work buffer too small''), d\<lparr>ad_work := work\<rparr>)
      else (case api_decrypt (av_api env) (ad_impl d) (contents b) (nonce_iv n) tag (nonce_ad n) of
        Inl x \<Rightarrow> (Inl x, d\<lparr>ad_work := work\<rparr>)
      | Inr (authentic, out) \<Rightarrow>
          (let work = work\<lparr>b_mem := blit (b_offset work) out (b_mem work)\<rparr>
           in if \<not> authentic
              then (Inr (DECRYPT_ERROR, buf_reset_size b), d\<lparr>ad_work := work\<rparr>)
              else (case buf_set_size (b_size b) work of
                      Inl x \<Rightarrow> (Inl x, d\<lparr>ad_work := work\<rparr>)
                    | Inr work \<Rightarrow>
                        (case nonce_verify_packet_id n (ad_pid d) now of
                           Inl x \<Rightarrow> (Inl x, d\<lparr>ad_work := work\<rparr>)
                         | Inr (False, pr) \<Rightarrow>
                             (Inr (REPLAY_ERROR, buf_reset_size b), d\<lparr>ad_work := work, ad_pid := pr\<rparr>)
                         | Inr (True, pr) \<Rightarrow>
                             (Inr (SUCCESS, work), d\<lparr>ad_work := b, ad_pid := pr\<rparr>))))))))))"

text \<open>The object: both directions and their initialisation.\<close>

record 'k aead_crypto =
  ac_cipher :: crypto_alg
  ac_e :: "'k aead_send"
  ac_d :: "'k aead_recv"

definition aead_init_cipher ::
  "'k aead_env \<Rightarrow> byte list \<Rightarrow> byte list \<Rightarrow> 'k aead_crypto \<Rightarrow> unit res \<times> 'k aead_crypto" where
  "aead_init_cipher env encrypt_key decrypt_key c =
     (case api_init (av_api env) (ac_cipher c) encrypt_key True of
        Inl x \<Rightarrow> (Inl x, c)
      | Inr k \<Rightarrow>
          (let c = c\<lparr>ac_e := (ac_e c)\<lparr>ae_impl := k\<rparr>\<rparr>
           in case api_init (av_api env) (ac_cipher c) decrypt_key False of
                Inl x \<Rightarrow> (Inl x, c)
              | Inr k \<Rightarrow> (Inr (), c\<lparr>ac_d := (ac_d c)\<lparr>ad_impl := k\<rparr>\<rparr>)))"

definition aead_init_hmac ::
  "byte list \<Rightarrow> byte list \<Rightarrow> 'k aead_crypto \<Rightarrow> unit res \<times> 'k aead_crypto" where
  "aead_init_hmac encrypt_key decrypt_key c =
     (case nonce_set_tail encrypt_key (ae_nonce (ac_e c)) of
        Inl x \<Rightarrow> (Inl x, c)
      | Inr n \<Rightarrow>
          (let c = c\<lparr>ac_e := (ac_e c)\<lparr>ae_nonce := n\<rparr>\<rparr>
           in case nonce_set_tail decrypt_key (ad_nonce (ac_d c)) of
                Inl x \<Rightarrow> (Inl x, c)
              | Inr n \<Rightarrow> (Inr (), c\<lparr>ac_d := (ac_d c)\<lparr>ad_nonce := n\<rparr>\<rparr>)))"

definition aead_init_pid ::
  "pid_form \<Rightarrow> int \<Rightarrow> pid_form \<Rightarrow> string \<Rightarrow> int \<Rightarrow> error_type list \<Rightarrow> 'k aead_crypto \<Rightarrow> 'k aead_crypto" where
  "aead_init_pid send_form recv_mode recv_form recv_name recv_unit stats c =
     c\<lparr>ac_e := (ac_e c)\<lparr>ae_pid := pid_send_init send_form\<rparr>,
       ac_d := (ac_d c)\<lparr>ad_pid := pid_recv_init recv_mode recv_form recv_name recv_unit stats\<rparr>\<rparr>"


section \<open>The library's wrapper\<close>

text \<open>
  \<open>MbedTLSCrypto::CipherContextAEAD\<close>; a context that is not initialised is \<open>None\<close>. The library is
  its set-up function (\<open>None\<close> when it fails) and \<open>mbedtls_cipher_auth_encrypt\<close>: status, output, tag.
\<close>

record 'k mbed_lib =
  lib_setup :: "crypto_alg \<Rightarrow> byte list \<Rightarrow> bool \<Rightarrow> 'k option"
  lib_auth_encrypt :: "'k \<Rightarrow> byte list \<Rightarrow> byte list \<Rightarrow> byte list \<Rightarrow> int \<times> byte list \<times> byte list"

definition mbed_cipher_keysize :: "crypto_alg \<Rightarrow> nat option" where
  "mbed_cipher_keysize alg =
     (case alg of AES_128_GCM \<Rightarrow> Some 16 | AES_192_GCM \<Rightarrow> Some 24 | AES_256_GCM \<Rightarrow> Some 32 | _ \<Rightarrow> None)"

definition mbed_init :: "'k mbed_lib \<Rightarrow> crypto_alg \<Rightarrow> byte list \<Rightarrow> bool \<Rightarrow> 'k option res" where
  "mbed_init lib alg key encrypting =
     (case mbed_cipher_keysize alg of
        None \<Rightarrow> bindE (alg_name alg) (\<lambda>n. Inl (Std_exception (''mbedtls_aead_error: '' @ n @ '': not usable'')))
      | Some ckeysz \<Rightarrow>
          (if ckeysz > length key then Inl (Std_exception ''mbedtls_aead_error: insufficient key material'')
           else (case lib_setup lib alg (take ckeysz key) encrypting of
                   None \<Rightarrow> Inl (Std_exception ''mbedtls_aead_error: mbedtls_cipher_setkey'')
                 | Some k \<Rightarrow> Inr (Some k))))"

definition mbed_encrypt ::
  "'k mbed_lib \<Rightarrow> 'k option \<Rightarrow> byte list \<Rightarrow> byte list \<Rightarrow> byte list \<Rightarrow> (byte list \<times> byte list) res" where
  "mbed_encrypt lib ctx input iv ad =
     (case ctx of
        None \<Rightarrow> Inl (Std_exception ''mbedtls_cipher_uninitialized'')
      | Some k \<Rightarrow>
          (let (status, output, tag) = lib_auth_encrypt lib k iv ad input
           in if status \<noteq> 0 then Inl (Std_exception ''mbedtls_aead_error: mbedtls_gcm_crypt_and_tag failed'')
              else Inr (output, tag)))"

definition mbed_decrypt ::
  "'k mbed_lib \<Rightarrow> 'k option \<Rightarrow> byte list \<Rightarrow> byte list \<Rightarrow> byte list \<Rightarrow> byte list \<Rightarrow> (bool \<times> byte list) res" where
  "mbed_decrypt lib ctx input iv tag ad =
     (case ctx of
        None \<Rightarrow> Inl (Std_exception ''mbedtls_cipher_uninitialized'')
      | Some k \<Rightarrow>
          (let (status, output, tag) = lib_auth_encrypt lib k iv ad input in Inr (status = 0, output)))"

definition mbed_api :: "'k mbed_lib \<Rightarrow> 'k option aead_api" where
  "mbed_api lib =
     \<lparr>api_in_place = True, api_init = mbed_init lib, api_encrypt = mbed_encrypt lib, api_decrypt = mbed_decrypt lib\<rparr>"

section \<open>Nonces of a packet\<close>

definition op32_ok :: "byte list option \<Rightarrow> bool" where
  "op32_ok op32 = (case op32 of Some h \<Rightarrow> length h = 4 | None \<Rightarrow> True)"

definition op32_bytes :: "byte list option \<Rightarrow> byte list" where
  "op32_bytes op32 = (case op32 of Some h \<Rightarrow> h | None \<Rightarrow> [])"

definition packet_nonce :: "nonce \<Rightarrow> byte list option \<Rightarrow> u32 \<Rightarrow> nonce" where
  "packet_nonce ref op32 i = nonce_with_op32 op32 (blit 4 (be32 i) (n_data ref))"

definition nonce_tail :: "nonce \<Rightarrow> byte list" where
  "nonce_tail n = drop 8 (n_data n)"

lemma packet_nonce_parts:
  assumes "length (n_data ref) = 16" "op32_ok op32"
  shows "nonce_iv (packet_nonce ref op32 i) = be32 i @ nonce_tail ref"
    and "nonce_ad (packet_nonce ref op32 i) = op32_bytes op32 @ be32 i"
    and "take 4 (drop 4 (n_data (packet_nonce ref op32 i))) = be32 i"
  using assms by (auto simp: packet_nonce_def nonce_with_op32_def nonce_iv_def nonce_ad_def nonce_ad_len_def
      nonce_tail_def op32_ok_def op32_bytes_def blit_def split: option.splits)

lemma pid_send_next_step:
  "p_id (ps_pid s) \<noteq> - 1 \<Longrightarrow> \<exists>t s'. pid_send_next now s = (Inr \<lparr>p_id = p_id (ps_pid s) + 1, p_time = t\<rparr>, s')
     \<and> p_id (ps_pid s') = p_id (ps_pid s) + 1 \<and> ps_form s' = ps_form s"
proof -
  assume "p_id (ps_pid s) \<noteq> - 1"
  then have "p_id (ps_pid s) + 1 \<noteq> 0" by (metis add_eq_0_iff2)
  then show ?thesis by (auto simp: pid_send_next_def Let_def)
qed

lemma nonce_for_encrypt_next:
  assumes "length (n_data ref) = 16" "ps_form ps = SHORT_FORM" "p_id (ps_pid ps) \<noteq> - 1"
  shows "\<exists>ps'. nonce_for_encrypt junk ref ps now op32 = (Inr (packet_nonce ref op32 (p_id (ps_pid ps) + 1)), ps')
    \<and> p_id (ps_pid ps') = p_id (ps_pid ps) + 1 \<and> ps_form ps' = SHORT_FORM"
proof -
  obtain t ps' where n: "pid_send_next now ps = (Inr \<lparr>p_id = p_id (ps_pid ps) + 1, p_time = t\<rparr>, ps')"
    "p_id (ps_pid ps') = p_id (ps_pid ps) + 1" "ps_form ps' = ps_form ps"
    using pid_send_next_step [OF assms(3)] by blast
  let ?v = "buf_view (take 4 (drop 4 (n_data ref))) False"
  have "pid_write junk SHORT_FORM False \<lparr>p_id = p_id (ps_pid ps) + 1, p_time = t\<rparr> ?v
      = Inr (?v\<lparr>b_mem := be32 (p_id (ps_pid ps) + 1), b_size := 4\<rparr>)"
    using assms(1) by (simp add: pid_write_def buf_write_def buf_view_def buf_remaining_def blit_def Let_def)
  then show ?thesis using n assms(2)
    by (simp add: nonce_for_encrypt_def pid_send_write_next_def packet_nonce_def)
qed

lemma nonce_for_decrypt_head:
  assumes "buf_wf b" "contents b = be32 i @ rest"
  shows "\<exists>b'. nonce_for_decrypt ref b op32 = Inr (packet_nonce ref op32 i, b') \<and> buf_wf b' \<and> contents b' = rest
    \<and> b_owned b' = b_owned b"
proof -
  obtain b' where r: "buf_read 4 b = Inr (be32 i, b')" "buf_wf b'" "contents b' = rest"
    using bufq.read_prefix [of b "be32 i" rest] assms by auto
  moreover have "b_owned b' = b_owned b" using r(1) by (auto simp: buf_read_def split: if_splits)
  ultimately show ?thesis by (simp add: nonce_for_decrypt_def packet_nonce_def)
qed

lemma verify_packet_nonce:
  assumes "length (n_data ref) = 16" "op32_ok op32" "pr_initialized pr" "pr_form pr = SHORT_FORM"
  shows "nonce_verify_packet_id (packet_nonce ref op32 i) pr now = test_add \<lparr>p_id = i, p_time = 0\<rparr> now True pr"
proof -
  have "buf_wf (buf_view (be32 i) True)" "contents (buf_view (be32 i) True) = pid_bytes SHORT_FORM \<lparr>p_id = i, p_time = 0\<rparr> @ []"
    by (simp_all add: buf_wf_def buf_view_def contents_def pid_bytes_def)
  from pid_read_bytes [OF this] show ?thesis
    using assms packet_nonce_parts(3) [OF assms(1,2)]
    by (auto simp: nonce_verify_packet_id_def pid_recv_read_next_def pid_wire_time_def)
qed


section \<open>The packet both branches make\<close>

lemma aead_in_place_packet:
  assumes "buf_wf b" "AUTH_TAG_LEN \<le> b_offset b"
    "api_encrypt (av_api env) (ae_impl e) (contents b) (nonce_iv n) (nonce_ad n) = Inr (ct, tag)"
    "length ct = b_size b" "length tag = AUTH_TAG_LEN"
  shows "\<exists>b'. aead_in_place env n b e = (Inr b', e) \<and> buf_wf b' \<and> contents b' = tag @ ct
    \<and> b_offset b' = b_offset b - AUTH_TAG_LEN \<and> b_owned b' = b_owned b"
proof -
  let ?o = "b_offset b - AUTH_TAG_LEN"
  let ?b' = "b\<lparr>b_offset := ?o, b_size := b_size b + AUTH_TAG_LEN,
    b_mem := blit ?o tag (blit (b_offset b) ct (b_mem b))\<rparr>"
  have l: "b_offset b + length ct \<le> length (b_mem b)" using assms(1,4) by (auto simp: buf_wf_def)
  have "take (b_size b + AUTH_TAG_LEN) (drop ?o (blit ?o tag (blit (b_offset b) ct (b_mem b))))
      = tag @ take (b_size b) (drop (b_offset b) (blit (b_offset b) ct (b_mem b)))"
    using take_drop_blit_prepend [of tag "b_offset b" "blit (b_offset b) ct (b_mem b)" "b_size b"] assms(2,5) l by simp
  also have "take (b_size b) (drop (b_offset b) (blit (b_offset b) ct (b_mem b))) = ct"
    using l assms(4) by (simp add: blit_def min_def)
  finally have "contents ?b' = tag @ ct" by (simp add: contents_def)
  moreover have "buf_wf ?b'" using assms(1,2,5) l by (auto simp: buf_wf_def)
  ultimately show ?thesis using assms(2,3)
    by (intro exI [of _ ?b']) (simp add: aead_in_place_def buf_prepend_alloc_def)
qed

lemma aead_via_work_packet:
  assumes "frame_ok (av_frame env)" "buf_wf (ae_work e)" "b_owned (ae_work e)" "buf_wf b"
    "b_size b \<le> fc_payload (av_frame env ! ENCRYPT_WORK)" "AUTH_TAG_LEN \<le> fc_headroom (av_frame env ! ENCRYPT_WORK)"
    "api_encrypt (av_api env) (ae_impl e) (contents b) (nonce_iv n) (nonce_ad n) = Inr (ct, tag)"
    "length ct = b_size b" "length tag = AUTH_TAG_LEN"
  shows "\<exists>b'. aead_via_work env n b e = (Inr b', e\<lparr>ae_work := b\<rparr>) \<and> buf_wf b' \<and> contents b' = tag @ ct
    \<and> fc_headroom (av_frame env ! ENCRYPT_WORK) - AUTH_TAG_LEN \<le> b_offset b' \<and> b_owned b'"
proof -
  obtain w where w: "frame_prepare (av_junk env) (av_addr env) ENCRYPT_WORK (ae_work e) (av_frame env)
      = Inr (fc_payload (av_frame env ! ENCRYPT_WORK), w)"
    "buf_wf w" "b_owned w" "b_size w = 0" "fc_payload (av_frame env ! ENCRYPT_WORK) \<le> buf_max_size w"
    "fc_headroom (av_frame env ! ENCRYPT_WORK) \<le> b_offset w"
    using frame_prepare_ok [OF assms(1-3)] by (metis zero_less_numeral)
  let ?w1 = "w\<lparr>b_offset := b_offset w - AUTH_TAG_LEN, b_size := AUTH_TAG_LEN\<rparr>"
  let ?w2 = "?w1\<lparr>b_mem := blit (b_offset w) ct (b_mem w), b_size := AUTH_TAG_LEN + length ct\<rparr>"
  let ?b' = "?w2\<lparr>b_mem := blit (b_offset w - AUTH_TAG_LEN) tag (blit (b_offset w) ct (b_mem w))\<rparr>"
  have o: "AUTH_TAG_LEN \<le> b_offset w" using w(6) assms(6) by simp
  have fit: "b_offset w + length ct \<le> length (b_mem w)" "b_size b \<le> buf_max_size w"
    using w(2,5) assms(5,8) by (auto simp: buf_wf_def)
  have wf1: "buf_wf ?w1" using w(2) o by (auto simp: buf_wf_def)
  have "buf_remaining 0 ?w1 = b_capacity w - (b_offset w - AUTH_TAG_LEN + AUTH_TAG_LEN)"
    using buf_remaining_wf [OF wf1] by simp
  then have "length ct \<le> buf_remaining 0 ?w1" using fit(1) w(2) o by (simp add: buf_wf_def)
  moreover have "b_offset w - AUTH_TAG_LEN + AUTH_TAG_LEN = b_offset w" using o by simp
  ultimately have "buf_write (av_junk env) ct ?w1 = Inr ?w2" by (simp add: buf_write_def)
  then have run: "aead_via_work env n b e = (Inr ?b', e\<lparr>ae_work := b\<rparr>)"
    using w(1,4) fit(2) o assms(7) by (simp add: aead_via_work_def buf_prepend_alloc_def)
  have "take (length ct + AUTH_TAG_LEN) (drop (b_offset w - AUTH_TAG_LEN) (b_mem ?b'))
      = tag @ take (length ct) (drop (b_offset w) (blit (b_offset w) ct (b_mem w)))"
    using take_drop_blit_prepend [of tag "b_offset w" "blit (b_offset w) ct (b_mem w)" "length ct"] o fit assms(9) by simp
  also have "take (length ct) (drop (b_offset w) (blit (b_offset w) ct (b_mem w))) = ct"
    using fit(1) by (simp add: blit_def min_def)
  finally have "contents ?b' = tag @ ct" by (simp add: contents_def add.commute)
  moreover have "buf_wf ?b'" using w(2) o fit(1) assms(9) by (auto simp: buf_wf_def)
  ultimately show ?thesis using run w(3,6) by auto
qed

section \<open>Whole packets\<close>

definition aead_total :: "'k aead_api \<Rightarrow> 'k \<Rightarrow> bool" where
  "aead_total api k \<longleftrightarrow> (\<forall>p iv ad. \<exists>ct tag. api_encrypt api k p iv ad = Inr (ct, tag)
     \<and> length ct = length p \<and> length tag = AUTH_TAG_LEN)"

definition aead_send_ok :: "'k aead_env \<Rightarrow> 'k aead_send \<Rightarrow> bool" where
  "aead_send_ok env e \<longleftrightarrow> frame_ok (av_frame env) \<and> buf_wf (ae_work e) \<and> b_owned (ae_work e)
     \<and> length (n_data (ae_nonce e)) = 16 \<and> ps_form (ae_pid e) = SHORT_FORM \<and> aead_total (av_api env) (ae_impl e)"

definition aead_recv_ok :: "'k aead_env \<Rightarrow> 'k aead_recv \<Rightarrow> bool" where
  "aead_recv_ok env d \<longleftrightarrow> frame_ok (av_frame env) \<and> buf_wf (ad_work d) \<and> b_owned (ad_work d)
     \<and> length (n_data (ad_nonce d)) = 16 \<and> pr_initialized (ad_pid d) \<and> pr_form (ad_pid d) = SHORT_FORM"

definition aead_packet_ok :: "'k aead_env \<Rightarrow> byte list option \<Rightarrow> buf \<Rightarrow> bool" where
  "aead_packet_ok env op32 b \<longleftrightarrow> buf_wf b \<and> b_owned b \<and> op32_ok op32
     \<and> b_size b \<le> fc_payload (av_frame env ! ENCRYPT_WORK)
     \<and> 20 \<le> (if api_in_place (av_api env) then b_offset b else fc_headroom (av_frame env ! ENCRYPT_WORK))"

abbreviation (input) send_id :: "'k aead_send \<Rightarrow> u32" where "send_id e \<equiv> p_id (ps_pid (ae_pid e))"

lemma aead_encrypt_packet:
  assumes "aead_send_ok env e" "aead_packet_ok env op32 b" "b_size b \<noteq> 0" "send_id e \<noteq> - 1"
  shows "\<exists>b' warn e' ct tag. aead_encrypt env op32 now b e = (Inr (b', warn), e')
    \<and> api_encrypt (av_api env) (ae_impl e) (contents b) (be32 (send_id e + 1) @ nonce_tail (ae_nonce e))
        (op32_bytes op32 @ be32 (send_id e + 1)) = Inr (ct, tag)
    \<and> length ct = b_size b \<and> length tag = AUTH_TAG_LEN
    \<and> contents b' = be32 (send_id e + 1) @ tag @ ct \<and> buf_wf b' \<and> b_owned b' \<and> aead_send_ok env e'
    \<and> (if api_in_place (av_api env) then b_offset b else fc_headroom (av_frame env ! ENCRYPT_WORK)) - 20 \<le> b_offset b'
    \<and> send_id e' = send_id e + 1 \<and> ae_impl e' = ae_impl e \<and> ae_nonce e' = ae_nonce e"
proof -
  let ?n = "packet_nonce (ae_nonce e) op32 (send_id e + 1)"
  have e: "length (n_data (ae_nonce e)) = 16" "ps_form (ae_pid e) = SHORT_FORM" "frame_ok (av_frame env)"
    "buf_wf (ae_work e)" "b_owned (ae_work e)" "aead_total (av_api env) (ae_impl e)"
    using assms(1) by (auto simp: aead_send_ok_def)
  have b: "buf_wf b" "b_owned b" "op32_ok op32" "b_size b \<le> fc_payload (av_frame env ! ENCRYPT_WORK)"
    using assms(2) by (auto simp: aead_packet_ok_def)
  note parts = packet_nonce_parts [OF e(1) b(3), of "send_id e + 1"]
  obtain ps' where ps: "nonce_for_encrypt (av_junk env) (ae_nonce e) (ae_pid e) now op32 = (Inr ?n, ps')"
    "p_id (ps_pid ps') = send_id e + 1" "ps_form ps' = SHORT_FORM"
    using nonce_for_encrypt_next [OF e(1,2) assms(4)] by blast
  obtain ct tag where c: "api_encrypt (av_api env) (ae_impl e) (contents b) (nonce_iv ?n) (nonce_ad ?n) = Inr (ct, tag)"
    "length ct = b_size b" "length tag = AUTH_TAG_LEN"
    using e(6) length_contents [OF b(1)] unfolding aead_total_def by metis
  let ?e = "e\<lparr>ae_pid := ps'\<rparr>"
  obtain b1 e1 where m: "(if api_in_place (av_api env) then aead_in_place env ?n b ?e else aead_via_work env ?n b ?e) = (Inr b1, e1)"
    "buf_wf b1" "contents b1 = tag @ ct" "4 \<le> b_offset b1" "b_owned b1" "aead_send_ok env e1"
    "(if api_in_place (av_api env) then b_offset b else fc_headroom (av_frame env ! ENCRYPT_WORK)) - 16 \<le> b_offset b1"
    "ae_pid e1 = ps'" "ae_impl e1 = ae_impl e" "ae_nonce e1 = ae_nonce e"
  proof (cases "api_in_place (av_api env)")
    case True
    then have o: "20 \<le> b_offset b" using assms(2) by (simp add: aead_packet_ok_def)
    then have "AUTH_TAG_LEN \<le> b_offset b" by simp
    from aead_in_place_packet [OF b(1) this, where env = env and e = ?e and n = ?n and ct = ct and tag = tag]
    show ?thesis using that True c o b(2) assms(1) ps(3) by (auto simp: aead_send_ok_def)
  next
    case False
    then have o: "20 \<le> fc_headroom (av_frame env ! ENCRYPT_WORK)" using assms(2) by (simp add: aead_packet_ok_def)
    then have "AUTH_TAG_LEN \<le> fc_headroom (av_frame env ! ENCRYPT_WORK)" by simp
    from aead_via_work_packet [OF e(3) _ _ b(1,4) this, where e = ?e and n = ?n and ct = ct and tag = tag]
    show ?thesis using that False c o b(1,2) assms(1) e ps(3) by (auto simp: aead_send_ok_def)
  qed
  obtain b2 where p: "nonce_prepend_ad ?n b1 = Inr b2"
    using prepend_ok_iff [of "be32 (send_id e + 1)" b1] m(4) parts(3) by (auto simp: nonce_prepend_ad_def ok_def)
  from p have "buf_wf b2 \<and> contents b2 = be32 (send_id e + 1) @ tag @ ct \<and> b_owned b2 \<and> b_offset b2 = b_offset b1 - 4"
    using prepend_Inr [of "be32 (send_id e + 1)" b1 b2] m(2,3,5) parts(3) by (simp add: nonce_prepend_ad_def)
  moreover have "aead_encrypt env op32 now b e = (Inr (b2, pid_send_wrap_warning ps'), e1)"
    using assms(3) ps(1) m(1,8) p by (simp add: aead_encrypt_def)
  moreover have "(if api_in_place (av_api env) then b_offset b else fc_headroom (av_frame env ! ENCRYPT_WORK)) - 20 \<le> b_offset b2"
    using calculation(1) m(7) by linarith
  ultimately show ?thesis using c m(6,8-10) ps(2) parts by auto
qed

lemma test_add_form:
  "test_add p now md pr = Inr (a, pr') \<Longrightarrow> pr_form pr' = pr_form pr \<and> pr_initialized pr' = pr_initialized pr"
  by (auto simp: test_add_def do_test_add_def bindE_Inr_iff expire_floor_def epoch_reset_def check_id_def accept_next_def
      accept_jump_def accept_backtrack_def Let_def split: if_splits prod.splits)

lemma aead_decrypt_packet:
  assumes "aead_recv_ok env d" "buf_wf b" "b_owned b" "contents b = be32 i @ tag @ ct" "length tag = AUTH_TAG_LEN"
    "length ct \<le> fc_payload (av_frame env ! DECRYPT_WORK)" "op32_ok op32"
    "api_decrypt (av_api env) (ad_impl d) ct (be32 i @ nonce_tail (ad_nonce d)) tag (op32_bytes op32 @ be32 i) = Inr (True, p)"
    "length p = length ct" "test_add \<lparr>p_id = i, p_time = 0\<rparr> now True (ad_pid d) = Inr (True, pr)"
  shows "\<exists>b' d'. aead_decrypt env op32 now b d = (Inr (SUCCESS, b'), d') \<and> buf_wf b' \<and> contents b' = p \<and> aead_recv_ok env d'
    \<and> ad_pid d' = pr \<and> ad_nonce d' = ad_nonce d \<and> ad_impl d' = ad_impl d"
proof -
  have d: "length (n_data (ad_nonce d)) = 16" "frame_ok (av_frame env)" "buf_wf (ad_work d)" "b_owned (ad_work d)"
    "pr_initialized (ad_pid d)" "pr_form (ad_pid d) = SHORT_FORM" using assms(1) by (auto simp: aead_recv_ok_def)
  let ?n = "packet_nonce (ad_nonce d) op32 i"
  note parts = packet_nonce_parts [OF d(1) assms(7), of i]
  obtain b1 where b1: "nonce_for_decrypt (ad_nonce d) b op32 = Inr (?n, b1)" "buf_wf b1" "contents b1 = tag @ ct" "b_owned b1"
    using nonce_for_decrypt_head [OF assms(2,4)] assms(3) by blast
  obtain b2 where b2: "buf_read AUTH_TAG_LEN b1 = Inr (tag, b2)" "buf_wf b2" "contents b2 = ct"
    using bufq.read_prefix [OF b1(2,3)] assms(5) by auto
  have own: "b_owned b2" using b2(1) b1(4) by (auto simp: buf_read_def split: if_splits)
  have s2: "b_size b2 = length ct" using length_contents [OF b2(2)] b2(3) by simp
  obtain w where w: "frame_prepare (av_junk env) (av_addr env) DECRYPT_WORK (ad_work d) (av_frame env)
      = Inr (fc_payload (av_frame env ! DECRYPT_WORK), w)" "buf_wf w" "b_owned w"
    "fc_payload (av_frame env ! DECRYPT_WORK) \<le> buf_max_size w"
    using frame_prepare_ok [OF d(2-4), of DECRYPT_WORK] by (metis one_less_numeral_iff semiring_norm(76))
  let ?w = "w\<lparr>b_mem := blit (b_offset w) p (b_mem w)\<rparr>"
  have fit: "length p \<le> buf_max_size w" using w(4) assms(6,9) by simp
  note out = write_work [OF w(2) fit]
  have set: "buf_set_size (b_size b2) ?w = Inr (?w\<lparr>b_size := length p\<rparr>)"
    using fit s2 assms(9) by (simp add: buf_set_size_def buf_max_size_def)
  have v: "nonce_verify_packet_id ?n (ad_pid d) now = Inr (True, pr)"
    using verify_packet_nonce [OF d(1) assms(7) d(5,6)] assms(10) by simp
  have sz: "b_size b \<noteq> 0" using length_contents [OF assms(2)] assms(4) by simp
  have "aead_decrypt env op32 now b d = (Inr (SUCCESS, ?w\<lparr>b_size := length p\<rparr>), d\<lparr>ad_work := b2, ad_pid := pr\<rparr>)"
    using sz b1(1) b2(1,3) w(1) fit s2 assms(8,9) set v parts by (simp add: aead_decrypt_def Let_def)
  then show ?thesis using out d b2(2) own test_add_form [OF assms(10)] by (auto simp: aead_recv_ok_def)
qed

section \<open>The two ends of a key\<close>

text \<open>
  What the cipher promises: the context of the receiver restores and accepts what the context of the
  sender has made, under the same IV and additional data.
\<close>

definition aead_inverse :: "'k aead_api \<Rightarrow> 'k \<Rightarrow> 'j aead_api \<Rightarrow> 'j \<Rightarrow> bool" where
  "aead_inverse api ke api' kd \<longleftrightarrow> aead_total api ke
     \<and> (\<forall>p iv ad ct tag. api_encrypt api ke p iv ad = Inr (ct, tag) \<longrightarrow> api_decrypt api' kd ct iv tag ad = Inr (True, p))"

definition window_behind :: "pid_recv \<Rightarrow> u32 \<Rightarrow> bool" where
  "window_behind pr i \<longleftrightarrow> (\<exists>w. win_rel pr w \<and> aw_time w = 0 \<and> aw_high w \<le> unat i)"

definition aead_paired :: "'k aead_env \<Rightarrow> 'j aead_env \<Rightarrow> 'k aead_send \<Rightarrow> 'j aead_recv \<Rightarrow> bool" where
  "aead_paired env env' e d \<longleftrightarrow> aead_send_ok env e \<and> aead_recv_ok env' d
     \<and> nonce_tail (ae_nonce e) = nonce_tail (ad_nonce d)
     \<and> aead_inverse (av_api env) (ae_impl e) (av_api env') (ad_impl d)
     \<and> window_behind (ad_pid d) (send_id e)"

definition aead_sendable :: "'k aead_env \<Rightarrow> 'j aead_env \<Rightarrow> byte list option \<Rightarrow> buf \<Rightarrow> bool" where
  "aead_sendable env env' op32 b \<longleftrightarrow> aead_packet_ok env op32 b \<and> b_size b \<le> fc_payload (av_frame env' ! DECRYPT_WORK)
     \<and> 4 \<le> b_offset b \<and> 24 \<le> (if api_in_place (av_api env) then b_offset b else fc_headroom (av_frame env ! ENCRYPT_WORK))"

definition aead_left :: "'k aead_send \<Rightarrow> nat" where
  "aead_left e = 4294967295 - unat (send_id e)"

lemma unat_next_id: "i \<noteq> - 1 \<Longrightarrow> unat (i + 1 :: u32) = Suc (unat i)"
  by (metis unatSuc add.commute add_eq_0_iff2)

lemma unat_last_id: "unat (- 1 :: u32) = 4294967295"
  by (simp add: unsigned_minus_1_eq_mask mask_eq_exp_minus_1)

text \<open>A newer ID is accepted, whatever the clock says.\<close>

lemma window_behind_newer:
  assumes "window_behind pr i" "i \<noteq> - 1"
  shows "\<exists>pr'. test_add \<lparr>p_id = i + 1, p_time = 0\<rparr> now True pr = Inr (True, pr') \<and> window_behind pr' (i + 1)"
proof -
  obtain w where w: "win_rel pr w" "aw_time w = 0" "aw_high w \<le> unat i" using assms(1) by (auto simp: window_behind_def)
  note i = unat_next_id [OF assms(2)]
  let ?p = "\<lparr>p_id = i + 1, p_time = 0\<rparr>"
  have v: "aw_verdict ?p now w = SUCCESS" using w i by (simp add: aw_verdict_def)
  then have h: "aw_high (snd (aw_step ?p now True w)) = Suc (unat i)" "aw_time (snd (aw_step ?p now True w)) = 0"
    using w i by (simp_all add: aw_step_def Let_def)
  obtain pr' where "do_test_add ?p now True pr = Inr (SUCCESS, pr')" "win_rel pr' (snd (aw_step ?p now True w))"
    using do_test_add_refines [OF w(1), of ?p now True] v by (auto simp: aw_step_def Let_def)
  then show ?thesis using h i by (auto simp: test_add_def window_behind_def)
qed

lemma window_behind_mono: "window_behind pr i \<Longrightarrow> i \<noteq> - 1 \<Longrightarrow> window_behind pr (i + 1)"
  by (auto simp: window_behind_def unat_next_id intro: le_SucI)

lemma aead_transmit:
  assumes "aead_paired env env' s r" "aead_sendable env env' op32 b" "0 < aead_left s"
  shows "\<exists>b' warn s'. aead_encrypt env op32 now b s = (Inr (b', warn), s') \<and> aead_left s \<le> Suc (aead_left s')
    \<and> aead_paired env env' s' r
    \<and> arrives b' b' \<and> 4 \<le> b_offset b'
    \<and> (\<forall>now' rb. arrives rb b' \<longrightarrow> (\<exists>b'' r'. aead_decrypt env' op32 now' rb r = (Inr (SUCCESS, b''), r') \<and> buf_wf b''
        \<and> contents b'' = contents b \<and> aead_paired env env' s' r'))"
proof (cases "b_size b = 0")
  case True
  have b: "buf_wf b" "b_owned b" "4 \<le> b_offset b" using assms(2) by (auto simp: aead_sendable_def aead_packet_ok_def)
  have "b_size rb = 0" if "arrives rb b" for rb
    using that True length_contents [of rb] length_contents [OF b(1)] by (simp add: arrives_def)
  then show ?thesis using assms(1) b True by (simp add: aead_encrypt_def aead_decrypt_def arrives_def)
next
  case False
  have ok: "aead_send_ok env s" "aead_packet_ok env op32 b" "aead_recv_ok env' r" "op32_ok op32"
    "b_size b \<le> fc_payload (av_frame env' ! DECRYPT_WORK)" "nonce_tail (ae_nonce s) = nonce_tail (ad_nonce r)"
    and wb: "window_behind (ad_pid r) (send_id s)"
    and inv: "aead_inverse (av_api env) (ae_impl s) (av_api env') (ad_impl r)"
    using assms(1,2) by (auto simp: aead_paired_def aead_sendable_def aead_packet_ok_def)
  have i: "send_id s \<noteq> - 1" using assms(3) by (auto simp: aead_left_def unat_last_id)
  obtain b' warn s' ct tag where e: "aead_encrypt env op32 now b s = (Inr (b', warn), s')"
    "api_encrypt (av_api env) (ae_impl s) (contents b) (be32 (send_id s + 1) @ nonce_tail (ae_nonce s))
        (op32_bytes op32 @ be32 (send_id s + 1)) = Inr (ct, tag)"
    "length ct = b_size b" "length tag = AUTH_TAG_LEN" "contents b' = be32 (send_id s + 1) @ tag @ ct"
    "buf_wf b'" "b_owned b'" "aead_send_ok env s'" "send_id s' = send_id s + 1" "ae_impl s' = ae_impl s" "ae_nonce s' = ae_nonce s"
    "(if api_in_place (av_api env) then b_offset b else fc_headroom (av_frame env ! ENCRYPT_WORK)) - 20 \<le> b_offset b'"
    using aead_encrypt_packet [OF ok(1,2) False i] by blast
  have room: "4 \<le> b_offset b'" using e(12) assms(2) by (auto simp: aead_sendable_def split: if_splits)
  have left: "aead_left s \<le> Suc (aead_left s')" using e(9) i by (simp add: aead_left_def unat_next_id)
  have p: "aead_paired env env' s' r" using assms(1) e(8-11) window_behind_mono [OF wb i] by (simp add: aead_paired_def)
  have d: "api_decrypt (av_api env') (ad_impl r) ct (be32 (send_id s + 1) @ nonce_tail (ad_nonce r)) tag
      (op32_bytes op32 @ be32 (send_id s + 1)) = Inr (True, contents b)"
    using inv e(2) ok(6) by (simp add: aead_inverse_def)
  have l: "length (contents b) = length ct" using e(3) ok(2) by (simp add: aead_packet_ok_def)
  have "\<exists>b'' r'. aead_decrypt env' op32 now' rb r = (Inr (SUCCESS, b''), r') \<and> buf_wf b'' \<and> contents b'' = contents b
      \<and> aead_paired env env' s' r'" if rb: "arrives rb b'" for now' rb
  proof -
    have a: "buf_wf rb" "b_owned rb" "contents rb = be32 (send_id s + 1) @ tag @ ct" using rb e(5) by (auto simp: arrives_def)
    obtain pr where t: "test_add \<lparr>p_id = send_id s + 1, p_time = 0\<rparr> now' True (ad_pid r) = Inr (True, pr)" "window_behind pr (send_id s + 1)"
      using window_behind_newer [OF wb i] by blast
    obtain b'' r' where "aead_decrypt env' op32 now' rb r = (Inr (SUCCESS, b''), r')" "buf_wf b''" "contents b'' = contents b"
      "aead_recv_ok env' r'" "ad_pid r' = pr" "ad_nonce r' = ad_nonce r" "ad_impl r' = ad_impl r"
      using aead_decrypt_packet [OF ok(3) a e(4) _ ok(4) d l t(1)] e(3) ok(5) by auto
    then show ?thesis using p t(2) e(9) by (auto simp: aead_paired_def)
  qed
  moreover have "arrives b' b'" using e(6,7) by (simp add: arrives_def)
  ultimately show ?thesis using e(1) left p room by blast
qed

interpretation aead: data_channel "aead_encrypt env" "aead_decrypt env'" "aead_paired env env'"
    "aead_sendable env env'" aead_left for env env'
  by unfold_locales (rule aead_transmit)

section \<open>Replays\<close>

lemma window_inv_stats [simp]: "window_inv (pr\<lparr>pr_stats := x\<rparr>) K \<longleftrightarrow> window_inv pr K"
  by (simp add: window_inv_def win_rel_def)

lemma test_add_window:
  assumes "test_add p now True pr = Inr (a, pr')" "window_inv pr K"
  shows "(a \<longrightarrow> pid_key p \<notin> K \<and> window_inv pr' (insert (pid_key p) K)) \<and> (\<not> a \<longrightarrow> window_inv pr' K)"
proof -
  obtain err s where t: "do_test_add p now True pr = Inr (err, s)"
    "(a, pr') = (if err \<noteq> SUCCESS then (False, s\<lparr>pr_stats := pr_stats s @ [err]\<rparr>) else (True, s))"
    using assms(1) by (auto simp: test_add_def bindE_Inr_iff split: if_splits)
  then have st: "window_step (p, now, True) pr = (err = SUCCESS, s)" by (simp add: window_step_def)
  show ?thesis
  proof (cases "err = SUCCESS")
    case True
    then show ?thesis using window.accept_fresh [OF assms(2), of "(p, now, True)" s] st t(2) by simp
  next
    case False
    then show ?thesis using window.reject_keeps [OF assms(2), of "(p, now, True)" s] st t(2) by simp
  qed
qed

lemma buf_read_head:
  assumes "buf_read n b = Inr (bs, b')" "buf_wf b"
  shows "bs = take n (contents b)"
  using read_Inr [OF assms] by (metis append_eq_conv_conj)

definition packet_pid :: "buf \<Rightarrow> pid" where
  "packet_pid b = \<lparr>p_id = of_be32 (take 4 (contents b)), p_time = 0\<rparr>"

text \<open>Whatever arrives: only the check of the packet ID changes the replay window, and only it lets a packet through.\<close>

lemma aead_decrypt_window:
  assumes "aead_decrypt env op32 now b d = (r, d')" "buf_wf b" "b_size b \<noteq> 0" "op32_ok op32"
    "length (n_data (ad_nonce d)) = 16" "pr_initialized (ad_pid d)" "pr_form (ad_pid d) = SHORT_FORM"
  shows "ad_nonce d' = ad_nonce d \<and>
    (ad_pid d' = ad_pid d \<and> (\<forall>b'. r \<noteq> Inr (SUCCESS, b'))
     \<or> (\<exists>a. test_add (packet_pid b) now True (ad_pid d) = Inr (a, ad_pid d') \<and> ((\<exists>b'. r = Inr (SUCCESS, b')) \<longleftrightarrow> a)))"
proof (cases "nonce_for_decrypt (ad_nonce d) b op32")
  case (Inl x)
  then show ?thesis using assms(1,3) by (auto simp: aead_decrypt_def)
next
  case (Inr nb)
  then obtain n b1 where n: "nonce_for_decrypt (ad_nonce d) b op32 = Inr (n, b1)" by (cases nb) auto
  then obtain bs where bs: "buf_read 4 b = Inr (bs, b1)" "n = nonce_with_op32 op32 (blit 4 bs (n_data (ad_nonce d)))"
    by (auto simp: nonce_for_decrypt_def bindE_Inr_iff)
  have "length bs = 4" using read_Inr [OF bs(1) assms(2)] by simp
  then have "n = packet_nonce (ad_nonce d) op32 (of_be32 (take 4 (contents b)))"
    using bs(2) buf_read_head [OF bs(1) assms(2)] be32_of_be32 [of bs] by (simp add: packet_nonce_def)
  then have v: "nonce_verify_packet_id n (ad_pid d) now = test_add (packet_pid b) now True (ad_pid d)"
    using verify_packet_nonce [OF assms(5,4,6,7)] by (simp add: packet_pid_def)
  show ?thesis
  proof (cases "test_add (packet_pid b) now True (ad_pid d)")
    case (Inl x)
    then show ?thesis using assms(1,3) n v
      by (auto simp: aead_decrypt_def Let_def split: sum.splits prod.splits if_splits bool.splits)
  next
    case (Inr y)
    then obtain a pr where t: "test_add (packet_pid b) now True (ad_pid d) = Inr (a, pr)" by (cases y) auto
    note v' = v [unfolded t]
    show ?thesis unfolding t using assms(1,3) n v'
      by (cases a) (auto simp: aead_decrypt_def Let_def split: sum.splits prod.splits if_splits bool.splits)
  qed
qed

definition aead_recv_step ::
  "'k aead_env \<Rightarrow> byte list option \<times> int \<times> buf \<Rightarrow> 'k aead_recv \<Rightarrow> bool \<times> 'k aead_recv" where
  "aead_recv_step env x d =
     (case x of (op32, now, b) \<Rightarrow>
        if \<not> buf_wf b \<or> b_size b = 0 \<or> \<not> op32_ok op32 then (False, d)
        else (case aead_decrypt env op32 now b d of
                (Inr (err, _), d') \<Rightarrow> (err = SUCCESS, d')
              | (Inl _, d') \<Rightarrow> (False, d')))"

definition aead_recv_inv :: "'k aead_recv \<Rightarrow> (int \<times> nat) set \<Rightarrow> bool" where
  "aead_recv_inv d K \<longleftrightarrow> length (n_data (ad_nonce d)) = 16 \<and> pr_initialized (ad_pid d)
     \<and> pr_form (ad_pid d) = SHORT_FORM \<and> window_inv (ad_pid d) K"

lemma aead_recv_step_inv:
  assumes "aead_recv_inv d K" "aead_recv_step env x d = (a, d')"
  shows "(a \<longrightarrow> pid_key (packet_pid (snd (snd x))) \<notin> K \<and> aead_recv_inv d' (insert (pid_key (packet_pid (snd (snd x)))) K))
    \<and> (\<not> a \<longrightarrow> aead_recv_inv d' K)"
proof -
  obtain op32 now b where x: "x = (op32, now, b)" by (metis prod_cases3)
  show ?thesis
  proof (cases "\<not> buf_wf b \<or> b_size b = 0 \<or> \<not> op32_ok op32")
    case True
    then show ?thesis using assms x by (auto simp: aead_recv_step_def)
  next
    case False
    obtain r d1 where r: "aead_decrypt env op32 now b d = (r, d1)" by fastforce
    have d1: "d1 = d'" "a \<longleftrightarrow> (\<exists>b'. r = Inr (SUCCESS, b'))"
      using assms(2) False r x by (auto simp: aead_recv_step_def split: sum.splits prod.splits)
    have i: "length (n_data (ad_nonce d)) = 16" "pr_initialized (ad_pid d)" "pr_form (ad_pid d) = SHORT_FORM"
      "window_inv (ad_pid d) K" using assms(1) by (auto simp: aead_recv_inv_def)
    from aead_decrypt_window [OF r _ _ _ i(1-3)] False d1(1)
    consider "ad_nonce d' = ad_nonce d" "ad_pid d' = ad_pid d" "\<forall>b'. r \<noteq> Inr (SUCCESS, b')"
      | t where "ad_nonce d' = ad_nonce d" "test_add (packet_pid b) now True (ad_pid d) = Inr (t, ad_pid d')" "a = t"
      using d1(2) by auto
    then show ?thesis
    proof cases
      case 1
      then show ?thesis using i d1(2) by (simp add: aead_recv_inv_def)
    next
      case 2
      note w = test_add_window [OF 2(2) i(4)]
      show ?thesis using test_add_window [OF 2(2) i(4)] test_add_form [OF 2(2)] i 2(1,3) x by (auto simp: aead_recv_inv_def)
    qed
  qed
qed

interpretation aead_once: replay_filter "aead_recv_step env" "\<lambda>x. pid_key (packet_pid (snd (snd x)))" aead_recv_inv for env
  by unfold_locales (use aead_recv_step_inv in blast)+

definition aead_recv_init :: "'k \<Rightarrow> nonce \<Rightarrow> int \<Rightarrow> string \<Rightarrow> int \<Rightarrow> error_type list \<Rightarrow> 'k aead_recv" where
  "aead_recv_init k n mode name unit stats =
     \<lparr>ad_impl = k, ad_nonce = n, ad_pid = pid_recv_init mode SHORT_FORM name unit stats, ad_work = buf_alloc (\<lambda>_. 0) 0 0\<rparr>"

lemma aead_recv_inv_init: "length (n_data n) = 16 \<Longrightarrow> aead_recv_inv (aead_recv_init k n mode name unit stats) {}"
  using window_inv_init by (auto simp: aead_recv_inv_def aead_recv_init_def pid_recv_init_def)


section \<open>The initialisation vectors of a sender\<close>

fun aead_send_run :: "'k aead_env \<Rightarrow> (byte list option \<times> int \<times> buf) list \<Rightarrow> 'k aead_send \<Rightarrow> buf res list" where
  "aead_send_run env [] e = []"
| "aead_send_run env ((op32, now, b) # xs) e =
     (let (r, e) = aead_encrypt env op32 now b e in map_sum (\<lambda>x. x) fst r # aead_send_run env xs e)"

text \<open>The IV of the packet number \<open>i\<close> from now on: its packet ID and the tail of the key.\<close>

definition aead_iv :: "'k aead_send \<Rightarrow> nat \<Rightarrow> byte list" where
  "aead_iv e i = be32 (send_id e + of_nat (Suc i)) @ nonce_tail (ae_nonce e)"

text \<open>
  What the cipher is called with for the packet number \<open>i\<close>, and that its results are what the
  packet carries.
\<close>

definition sealed_with :: "'k aead_env \<Rightarrow> 'k aead_send \<Rightarrow> nat \<Rightarrow> byte list option \<times> int \<times> buf \<Rightarrow> buf \<Rightarrow> bool" where
  "sealed_with env e i x b' \<longleftrightarrow>
     (case x of (op32, now, b) \<Rightarrow>
        (case api_encrypt (av_api env) (ae_impl e) (contents b) (aead_iv e i) (op32_bytes op32 @ take 4 (aead_iv e i)) of
           Inl _ \<Rightarrow> False
         | Inr (ct, tag) \<Rightarrow> contents b' = take 4 (aead_iv e i) @ tag @ ct))"

lemma aead_iv_Suc:
  "send_id e' = send_id e + 1 \<Longrightarrow> ae_nonce e' = ae_nonce e \<Longrightarrow> aead_iv e' i = aead_iv e (Suc i)"
  by (simp add: aead_iv_def ac_simps)

lemma take_aead_iv [simp]: "take 4 (aead_iv e i) = be32 (send_id e + of_nat (Suc i))"
  by (simp add: aead_iv_def length_be32)

lemma sealed_head: "sealed_with env e i x b' \<Longrightarrow> take 4 (contents b') = take 4 (aead_iv e i)"
  by (auto simp: sealed_with_def length_be32 split: prod.splits sum.splits)

lemma aead_send_run_sealed:
  assumes "aead_send_ok env e" "\<And>op32 now b. (op32, now, b) \<in> set xs \<Longrightarrow> aead_packet_ok env op32 b \<and> b_size b \<noteq> 0"
    "unat (send_id e) + length xs < 4294967296"
  shows "\<exists>bs. aead_send_run env xs e = map Inr bs \<and> length bs = length xs
    \<and> (\<forall>i < length xs. sealed_with env e i (xs ! i) (bs ! i))"
  using assms
proof (induction xs arbitrary: e)
  case (Cons x xs)
  obtain op32 now b where x: "x = (op32, now, b)" by (metis prod_cases3)
  have b: "aead_packet_ok env op32 b" "b_size b \<noteq> 0" using Cons.prems(2) x by auto
  have i: "send_id e \<noteq> - 1" using Cons.prems(3) by (auto simp: unat_last_id)
  obtain b' warn e' ct tag where e: "aead_encrypt env op32 now b e = (Inr (b', warn), e')"
    "api_encrypt (av_api env) (ae_impl e) (contents b) (be32 (send_id e + 1) @ nonce_tail (ae_nonce e))
        (op32_bytes op32 @ be32 (send_id e + 1)) = Inr (ct, tag)"
    "contents b' = be32 (send_id e + 1) @ tag @ ct" "aead_send_ok env e'" "send_id e' = send_id e + 1"
    "ae_impl e' = ae_impl e" "ae_nonce e' = ae_nonce e"
    using aead_encrypt_packet [OF Cons.prems(1) b i] by blast
  have n: "unat (send_id e') = Suc (unat (send_id e))" using e(5) unat_next_id [OF i] by simp
  obtain bs where bs: "aead_send_run env xs e' = map Inr bs" "length bs = length xs"
    "\<forall>i < length xs. sealed_with env e' i (xs ! i) (bs ! i)"
    using Cons.IH [OF e(4)] Cons.prems(2,3) n by auto
  have "sealed_with env e' j = sealed_with env e (Suc j)" for j
    unfolding sealed_with_def aead_iv_Suc [OF e(5,7)] e(6) ..
  then have rest: "\<forall>j < length xs. sealed_with env e (Suc j) (xs ! j) (bs ! j)" using bs(3) by simp
  have first: "sealed_with env e 0 x b'" using e(2,3) by (simp add: sealed_with_def x aead_iv_def length_be32)
  show ?case using bs(1,2) e(1) x first rest by (intro exI [of _ "b' # bs"]) (simp add: All_less_Suc2)
qed simp

lemma aead_iv_inj: "i < 4294967295 \<Longrightarrow> j < 4294967295 \<Longrightarrow> aead_iv e i = aead_iv e j \<Longrightarrow> i = j"
proof -
  assume a: "i < 4294967295" "j < 4294967295" "aead_iv e i = aead_iv e j"
  have "be32 (send_id e + of_nat (Suc i)) = be32 (send_id e + of_nat (Suc j))"
    using a(3) take_aead_iv by metis
  then have "of_be32 (be32 (send_id e + of_nat (Suc i))) = of_be32 (be32 (send_id e + of_nat (Suc j)))" by simp
  then have "(of_nat (Suc i) :: u32) = of_nat (Suc j)" by (simp only: of_be32_be32 add_left_cancel)
  then have "unat (of_nat (Suc i) :: u32) = unat (of_nat (Suc j) :: u32)" by simp
  then show "i = j" using a(1,2) by (simp add: unat_of_nat del: of_nat_Suc)
qed


section \<open>Properties\<close>

text \<open>
  C12. The data channel under AEAD delivers: when both ends hold one key, every packet that is not lost
  on the way is decrypted to what was encrypted, in order and with the result SUCCESS, for any
  clocks, through both ways of encrypting, as long as the packet IDs last.
\<close>

theorem aead_channel_delivers:
  assumes "aead_paired env env' s r" "\<forall>e \<in> set es. aead_sendable env env' (ev_op32 e) (ev_packet e)"
    "length es \<le> aead_left s"
  shows "channel_run (aead_encrypt env) (aead_decrypt env') es s r
    = map (\<lambda>e. Inr (SUCCESS, contents (ev_packet e))) (filter (\<lambda>e. \<not> ev_lost e) es)"
proof (rule aead.run_delivers)
  show "aead_paired env env' s r" by (rule assms(1))
  show "aead_sendable env env' (ev_op32 e) (ev_packet e)" if "e \<in> set es" for e using assms(2) that by blast
  show "length es \<le> aead_left s" by (rule assms(3))
qed

text \<open>
  C28. No packet ID is accepted twice under one key: whatever packets arrive at a fresh receiver, genuine,
  forged, replayed or malformed, those that \<open>decrypt\<close> lets through have pairwise different IDs.
\<close>

theorem aead_accepts_once:
  "length (n_data n) = 16 \<Longrightarrow>
   distinct (map (\<lambda>x. pid_key (packet_pid (snd (snd x))))
     (filter_run (aead_recv_step env) xs (aead_recv_init k n mode name unit stats)))"
  by (rule conjunct1 [OF aead_once.run_once [OF aead_recv_inv_init]])

text \<open>
  C29. An IV is never used twice under one key. For the packet number \<open>i\<close> of a fresh sender the
  cipher is called with the IV \<open>aead_iv e i\<close>, and what it returns is what the packet carries behind
  its ID; this holds for every cipher, so also for one whose tag shows the IV it was given. These
  IVs, the IDs 1, 2, 3, ... followed by the tail of the key, are pairwise different.
\<close>

theorem aead_ivs_never_repeat:
  assumes "aead_send_ok env e" "send_id e = 0"
    "\<forall>(op32, now, b) \<in> set xs. aead_packet_ok env op32 b \<and> b_size b \<noteq> 0" "length xs < 4294967296"
  shows "\<exists>bs. aead_send_run env xs e = map Inr bs \<and> length bs = length xs
    \<and> (\<forall>i < length xs. sealed_with env e i (xs ! i) (bs ! i) \<and> unat (of_be32 (take 4 (contents (bs ! i)))) = Suc i)
    \<and> distinct (map (aead_iv e) [0 ..< length xs])"
proof -
  have "unat (send_id e) + length xs < 4294967296" using assms(2,4) by simp
  moreover have "aead_packet_ok env op32 b \<and> b_size b \<noteq> 0" if "(op32, now, b) \<in> set xs" for op32 now b
    using assms(3) that by fastforce
  ultimately obtain bs where bs: "aead_send_run env xs e = map Inr bs" "length bs = length xs"
    "\<forall>i < length xs. sealed_with env e i (xs ! i) (bs ! i)"
    using aead_send_run_sealed [OF assms(1)] by blast
  have "unat (of_be32 (take 4 (contents (bs ! i)))) = Suc i" if i: "i < length xs" for i
  proof -
    have "take 4 (contents (bs ! i)) = be32 (of_nat (Suc i))"
      using bs(3) i assms(2) sealed_head by (fastforce simp del: of_nat_Suc)
    then show ?thesis using i assms(4) by (simp add: of_be32_be32 unat_of_nat del: of_nat_Suc)
  qed
  moreover have "distinct (map (aead_iv e) [0 ..< length xs])"
    using aead_iv_inj [of _ _ e] assms(4) by (auto simp: distinct_map inj_on_def)
  ultimately show ?thesis using bs by blast
qed

text \<open>
  What an encrypted packet is: the packet ID, the tag and the ciphertext of the payload, under
  the ID and the nonce tail as IV and the packet head and the ID as additional data; the same
  whether the cipher works in place or through the work buffer.
\<close>

lemma aead_packet_format:
  assumes "aead_send_ok env e" "aead_packet_ok env op32 b" "b_size b \<noteq> 0" "send_id e \<noteq> - 1"
  shows "\<exists>b' warn e' ct tag. aead_encrypt env op32 now b e = (Inr (b', warn), e')
    \<and> api_encrypt (av_api env) (ae_impl e) (contents b) (be32 (send_id e + 1) @ nonce_tail (ae_nonce e))
        (op32_bytes op32 @ be32 (send_id e + 1)) = Inr (ct, tag)
    \<and> contents b' = be32 (send_id e + 1) @ tag @ ct"
  using aead_encrypt_packet [OF assms] by blast

text \<open>
  C27. The tag of a received packet is not checked: the wrapper's \<open>decrypt\<close> calls the library's
  encryption, which computes a tag in place of comparing it. Two packets that differ in their tags
  only have the same outcome, whatever library function is behind the call, so a packet whose
  tag is wrong is treated as the genuine one.
\<close>

theorem mbed_tag_not_checked:
  assumes "buf_wf b" "buf_wf b'" "contents b = h @ tag @ ct" "contents b' = h @ tag' @ ct"
    "length h = 4" "length tag = AUTH_TAG_LEN" "length tag' = AUTH_TAG_LEN" "av_api env = mbed_api lib"
  shows "map_sum (\<lambda>x. x) (map_prod (\<lambda>x. x) contents) (fst (aead_decrypt env op32 now b d))
      = map_sum (\<lambda>x. x) (map_prod (\<lambda>x. x) contents) (fst (aead_decrypt env op32 now b' d))
    \<and> ad_pid (snd (aead_decrypt env op32 now b d)) = ad_pid (snd (aead_decrypt env op32 now b' d))"
proof -
  have sz: "b_size b \<noteq> 0" "b_size b' \<noteq> 0"
    using length_contents [OF assms(1)] length_contents [OF assms(2)] assms(3-5) by auto
  obtain b1 where b1: "buf_read 4 b = Inr (h, b1)" "buf_wf b1" "contents b1 = tag @ ct"
    using bufq.read_prefix [OF assms(1,3)] assms(5) by auto
  obtain b1' where b1': "buf_read 4 b' = Inr (h, b1')" "buf_wf b1'" "contents b1' = tag' @ ct"
    using bufq.read_prefix [OF assms(2,4)] assms(5) by auto
  obtain b2 where b2: "buf_read AUTH_TAG_LEN b1 = Inr (tag, b2)" "buf_wf b2" "contents b2 = ct"
    using bufq.read_prefix [OF b1(2,3)] assms(6) by auto
  obtain b2' where b2': "buf_read AUTH_TAG_LEN b1' = Inr (tag', b2')" "buf_wf b2'" "contents b2' = ct"
    using bufq.read_prefix [OF b1'(2,3)] assms(7) by auto
  have s: "b_size b2' = b_size b2" using length_contents [OF b2(2)] length_contents [OF b2'(2)] b2(3) b2'(3) by simp
  define n where "n = nonce_with_op32 op32 (blit 4 h (n_data (ad_nonce d)))"
  have n: "nonce_for_decrypt (ad_nonce d) b op32 = Inr (n, b1)" "nonce_for_decrypt (ad_nonce d) b' op32 = Inr (n, b1')"
    using b1(1) b1'(1) by (simp_all add: nonce_for_decrypt_def n_def)
  have dec: "api_decrypt (av_api env) k x iv t ad = mbed_decrypt lib k x iv tag ad" for k x iv t ad
    by (simp add: assms(8) mbed_api_def mbed_decrypt_def)
  have reset: "contents (buf_reset_size x) = []" for x by (simp add: contents_def buf_reset_size_def)
  show ?thesis
    using sz n b2 b2' s
    by (simp add: aead_decrypt_def dec reset Let_def split: sum.splits prod.splits bool.splits)
qed

text \<open>The wrapper still restores what it has encrypted, because the library's cipher is its own inverse.\<close>

definition lib_involutive :: "'k mbed_lib \<Rightarrow> 'k \<Rightarrow> 'k \<Rightarrow> bool" where
  "lib_involutive lib ke kd \<longleftrightarrow> (\<forall>iv ad p. \<exists>ct tag tag'. lib_auth_encrypt lib ke iv ad p = (0, ct, tag)
     \<and> length ct = length p \<and> length tag = AUTH_TAG_LEN \<and> lib_auth_encrypt lib kd iv ad ct = (0, p, tag'))"

lemma mbed_inverse:
  assumes "lib_involutive lib ke kd"
  shows "aead_inverse (mbed_api lib) (Some ke) (mbed_api lib) (Some kd)"
proof -
  have "\<exists>ct tag tag'. lib_auth_encrypt lib ke iv ad p = (0, ct, tag) \<and> length ct = length p
    \<and> length tag = AUTH_TAG_LEN \<and> lib_auth_encrypt lib kd iv ad ct = (0, p, tag')" for iv ad p
    using assms by (simp add: lib_involutive_def)
  note lib = this
  have e: "mbed_encrypt lib (Some k) p iv ad = Inr (ct, tag) \<longleftrightarrow> lib_auth_encrypt lib k iv ad p = (0, ct, tag)" for k p iv ad ct tag
    by (auto simp: mbed_encrypt_def split: prod.splits)
  have "aead_total (mbed_api lib) (Some ke)" using lib by (fastforce simp: aead_total_def mbed_api_def e)
  moreover have "mbed_decrypt lib (Some kd) ct iv t ad = Inr (True, p)" if enc: "lib_auth_encrypt lib ke iv ad p = (0, ct, tag)" for p iv ad ct tag t
  proof -
    obtain tag' where "lib_auth_encrypt lib kd iv ad ct = (0, p, tag')" using lib [of iv ad p] enc by auto
    then show ?thesis by (simp add: mbed_decrypt_def)
  qed
  ultimately show ?thesis by (simp add: aead_inverse_def mbed_api_def e)
qed


section \<open>A concrete channel\<close>

definition xor_lib :: "byte mbed_lib" where
  "xor_lib = \<lparr>lib_setup = (\<lambda>alg key mode. Some (hd key)),
     lib_auth_encrypt = (\<lambda>k iv ad x. (0, map (\<lambda>y. y XOR k) x, replicate 16 (fold (+) (iv @ ad @ x) k)))\<rparr>"

definition xor_env :: "byte option aead_env" where
  "xor_env = \<lparr>av_frame = frame_of_context (make_context 32 64 16 0 1 0), av_junk = (\<lambda>_. 7), av_addr = 0,
     av_api = mbed_api xor_lib\<rparr>"

definition tail_nonce :: nonce where
  "tail_nonce = \<lparr>n_ad_op32 = False, n_data = [0, 0, 0, 0, 0, 0, 0, 0, 1, 2, 3, 4, 5, 6, 7, 8]\<rparr>"

definition xor_send :: "byte option aead_send" where
  "xor_send = \<lparr>ae_impl = Some 90, ae_nonce = tail_nonce, ae_pid = pid_send_init SHORT_FORM,
     ae_work = buf_alloc (\<lambda>_. 0) 0 0\<rparr>"

definition xor_recv :: "byte option aead_recv" where
  "xor_recv = aead_recv_init (Some 90) tail_nonce 0 ''DATA'' 0 []"

definition data_packet :: "byte list \<Rightarrow> buf" where
  "data_packet bs = \<lparr>b_mem = replicate 24 0 @ bs, b_offset = 24, b_size = length bs, b_capacity = 24 + length bs,
     b_flags = 0, b_owned = True\<rparr>"

lemma xor_frame_ok: "frame_ok (av_frame xor_env)"
  by (auto simp: frame_ok_def xor_env_def frame_of_context_def ctx_ok_def make_context_def recalc_derived_def sz_add_def
      intro: exI [of _ 0])

lemma xor_paired: "aead_paired xor_env xor_env xor_send xor_recv"
proof -
  have inv: "lib_involutive xor_lib 90 90"
    by (simp add: lib_involutive_def xor_lib_def comp_def xor.assoc)
  have wf: "buf_wf (buf_alloc (\<lambda>_. 0) 0 0)" "b_owned (buf_alloc (\<lambda>_. 0) 0 0)"
    by (simp_all add: buf_wf_def buf_alloc_def has_flag_def fresh_mem_def)
  have "window_behind (ad_pid xor_recv) (send_id xor_send)"
    using win_rel_init by (force simp: window_behind_def xor_recv_def xor_send_def aead_recv_init_def pid_send_init_def aw_init_def)
  moreover have "aead_inverse (av_api xor_env) (ae_impl xor_send) (av_api xor_env) (ad_impl xor_recv)"
    using mbed_inverse [OF inv] by (simp add: xor_env_def xor_send_def xor_recv_def aead_recv_init_def)
  ultimately show ?thesis
    using xor_frame_ok wf
    by (simp add: aead_paired_def aead_send_ok_def aead_recv_ok_def aead_inverse_def xor_send_def xor_recv_def
        aead_recv_init_def tail_nonce_def pid_send_init_def pid_recv_init_def)
qed

lemma data_packet_ok:
  assumes "length bs \<le> 64" "op32_ok op32"
  shows "aead_packet_ok xor_env op32 (data_packet bs)" "aead_sendable xor_env xor_env op32 (data_packet bs)"
    "contents (data_packet bs) = bs"
  using assms by (auto simp: aead_packet_ok_def aead_sendable_def data_packet_def buf_wf_def xor_env_def mbed_api_def
      frame_of_context_def make_context_def recalc_derived_def contents_def)

theorem aead_channel_delivers_witness:
  "channel_run (aead_encrypt xor_env) (aead_decrypt xor_env)
     (map (\<lambda>(lost, bs). \<lparr>ev_op32 = None, ev_sent = 5, ev_received = 9, ev_lost = lost, ev_packet = data_packet bs\<rparr>)
        [(False, [1, 2, 3]), (True, [4]), (False, [5, 6])]) xor_send xor_recv
   = [Inr (SUCCESS, [1, 2, 3]), Inr (SUCCESS, [5, 6])]"
proof -
  let ?es = "map (\<lambda>(lost, bs). \<lparr>ev_op32 = None, ev_sent = 5, ev_received = 9, ev_lost = lost, ev_packet = data_packet bs\<rparr>)
        [(False, [1, 2, 3]), (True, [4]), (False, [5, 6])]"
  have a: "\<forall>e \<in> set ?es. aead_sendable xor_env xor_env (ev_op32 e) (ev_packet e)"
    by (simp add: data_packet_ok op32_ok_def)
  have l: "length ?es \<le> aead_left xor_send" by (simp add: aead_left_def xor_send_def pid_send_init_def)
  show ?thesis
    unfolding aead_channel_delivers [OF xor_paired a l] by (simp add: data_packet_ok [of _ None] op32_ok_def)
qed

theorem aead_accepts_once_witness:
  "distinct (map (\<lambda>x. pid_key (packet_pid (snd (snd x)))) (filter_run (aead_recv_step xor_env)
     [(None, 1, data_packet (replicate 21 9)), (None, 2, data_packet (replicate 21 9))]
     (aead_recv_init (Some 90) tail_nonce 0 ''DATA'' 0 [])))"
  by (rule aead_accepts_once) (simp add: tail_nonce_def)

theorem aead_ivs_never_repeat_witness:
  "(\<exists>bs. aead_send_run xor_env [(None, 3, data_packet [1]), (None, 4, data_packet [1])] xor_send = map Inr bs
      \<and> sealed_with xor_env xor_send 1 (None, 4, data_packet [1]) (bs ! 1))
    \<and> aead_iv xor_send 0 = [0, 0, 0, 1, 1, 2, 3, 4, 5, 6, 7, 8] \<and> aead_iv xor_send 1 = [0, 0, 0, 2, 1, 2, 3, 4, 5, 6, 7, 8]"
proof -
  have "aead_send_ok xor_env xor_send" using xor_paired by (simp add: aead_paired_def)
  moreover have i: "send_id xor_send = 0" by (simp add: xor_send_def pid_send_init_def)
  moreover have "b_size (data_packet [1]) \<noteq> 0" by (simp add: data_packet_def)
  ultimately have "\<exists>bs. aead_send_run xor_env [(None, 3, data_packet [1]), (None, 4, data_packet [1])] xor_send = map Inr bs
      \<and> sealed_with xor_env xor_send 1 (None, 4, data_packet [1]) (bs ! 1)"
    using aead_ivs_never_repeat [of xor_env xor_send "[(None, 3, data_packet [1]), (None, 4, data_packet [1])]"]
    by (auto simp: data_packet_ok op32_ok_def)
  then show ?thesis
    by (simp add: aead_iv_def i be32_def) (simp add: xor_send_def nonce_tail_def tail_nonce_def)
qed

lemma aead_packet_format_at:
  "\<exists>b' warn e' ct tag. aead_encrypt xor_env (Some [72, 0, 0, 1]) 3 (data_packet [1, 2]) xor_send = (Inr (b', warn), e')
    \<and> api_encrypt (av_api xor_env) (Some 90) [1, 2] ([0, 0, 0, 1] @ [1, 2, 3, 4, 5, 6, 7, 8]) ([72, 0, 0, 1] @ [0, 0, 0, 1]) = Inr (ct, tag)
    \<and> contents b' = [0, 0, 0, 1] @ tag @ ct"
proof -
  have s: "aead_send_ok xor_env xor_send" using xor_paired by (simp add: aead_paired_def)
  have i: "send_id xor_send = 0" "be32 1 = [0, 0, 0, 1]" by (simp_all add: xor_send_def pid_send_init_def be32_def)
  have p: "aead_packet_ok xor_env (Some [72, 0, 0, 1]) (data_packet [1, 2])" "contents (data_packet [1, 2]) = [1, 2]"
    by (simp_all add: data_packet_ok [of _ None] data_packet_ok [of _ "Some [72, 0, 0, 1]"] op32_ok_def)
  have z: "b_size (data_packet [1, 2]) \<noteq> 0" "send_id xor_send \<noteq> - 1" by (simp_all add: data_packet_def i)
  have k: "ae_impl xor_send = Some 90" "nonce_tail (ae_nonce xor_send) = [1, 2, 3, 4, 5, 6, 7, 8]"
    by (simp_all add: xor_send_def nonce_tail_def tail_nonce_def)
  show ?thesis using aead_packet_format [OF s p(1) z, of 3] by (simp add: i k p op32_bytes_def)
qed

theorem mbed_tag_not_checked_witness:
  "map_sum (\<lambda>x. x) (map_prod (\<lambda>x. x) contents)
       (fst (aead_decrypt xor_env None 9 (data_packet ([0, 0, 0, 1] @ replicate 16 1 @ [91])) xor_recv))
   = map_sum (\<lambda>x. x) (map_prod (\<lambda>x. x) contents)
       (fst (aead_decrypt xor_env None 9 (data_packet ([0, 0, 0, 1] @ replicate 16 2 @ [91])) xor_recv))"
proof -
  have w: "buf_wf (data_packet bs)" "contents (data_packet bs) = bs" if "length bs \<le> 64" for bs
    using data_packet_ok [OF that, of None] by (simp_all add: aead_packet_ok_def op32_ok_def)
  show ?thesis
    using mbed_tag_not_checked [of "data_packet ([0, 0, 0, 1] @ replicate 16 1 @ [91])"
        "data_packet ([0, 0, 0, 1] @ replicate 16 2 @ [91])" "[0, 0, 0, 1]" "replicate 16 1" "[91]" "replicate 16 2"
        xor_env xor_lib None 9 xor_recv] w
    by (simp add: xor_env_def)
qed

end
