(* ===== verification/Crypto_Chm.thy ===== *)
theory Crypto_Chm
  imports Aead Control_Wire
begin

text \<open>
  \<^verbatim>\<open>crypto/crypto_chm.hpp\<close>, \<^verbatim>\<open>encrypt_chm.hpp\<close>, \<^verbatim>\<open>decrypt_chm.hpp\<close> and \<^verbatim>\<open>cipher.hpp\<close>: the data channel
  under a CBC cipher and an HMAC, either of which may be absent. The block cipher and the digest
  are library code, parameters of the definitions; the random bytes are a sequence that is read
  from a position on.
\<close>

section \<open>Ciphers\<close>

text \<open>
  \<open>CRYPTO_API::CipherContext\<close> with contexts \<open>'k\<close>: \<open>ch_crypt\<close> is \<open>reset\<close>, \<open>update\<close> and \<open>final\<close> in a row
  (\<open>None\<close> when one of them fails).
\<close>

record 'k chm_api =
  ch_init :: "crypto_alg \<Rightarrow> byte list \<Rightarrow> bool \<Rightarrow> 'k res"
  ch_iv_length :: "'k \<Rightarrow> nat"
  ch_block_size :: "'k \<Rightarrow> nat"
  ch_cbc_mode :: "'k \<Rightarrow> bool"
  ch_crypt :: "'k \<Rightarrow> byte list \<Rightarrow> byte list \<Rightarrow> byte list option"

datatype cipher_direction = CIPHER_UNDEF | CIPHER_ENCRYPT | CIPHER_DECRYPT

record 'k cipher_context =
  cc_mode :: cipher_direction
  cc_ctx :: "'k option"

abbreviation (input) MAX_IV_LENGTH :: nat where "MAX_IV_LENGTH \<equiv> 16"

definition cipher_init ::
  "'k chm_api \<Rightarrow> crypto_alg \<Rightarrow> byte list \<Rightarrow> cipher_direction \<Rightarrow> 'k cipher_context res" where
  "cipher_init api cipher key mode =
     bindE (alg_get cipher) (\<lambda>alg.
       if length key < al_size alg then Inl (Std_exception ''cipher_init_insufficient_key_material'')
       else if al_iv_length alg > MAX_IV_LENGTH then Inl (Std_exception ''cipher_internal_error'')
       else bindE (ch_init api cipher key (mode = CIPHER_ENCRYPT)) (\<lambda>k.
            Inr \<lparr>cc_mode = mode, cc_ctx = Some k\<rparr>))"

definition cipher_defined :: "'k cipher_context \<Rightarrow> bool" where
  "cipher_defined c = (cc_ctx c \<noteq> None)"

definition cipher_output_size :: "'k chm_api \<Rightarrow> 'k cipher_context \<Rightarrow> nat \<Rightarrow> nat res" where
  "cipher_output_size api c in_size =
     (case cc_ctx c of
        None \<Rightarrow> Inl (Std_exception ''mbedtls_cipher_uninitialized'')
      | Some k \<Rightarrow> Inr (in_size + ch_block_size api k))"

text \<open>The bytes written; none when the code returns 0.\<close>

definition encrypt_decrypt ::
  "'k chm_api \<Rightarrow> 'k cipher_context \<Rightarrow> byte list \<Rightarrow> nat \<Rightarrow> byte list \<Rightarrow> byte list res" where
  "encrypt_decrypt api c iv out_size inp =
     bindE (cipher_output_size api c (length inp)) (\<lambda>n.
       if out_size < n then Inl (Std_exception ''cipher_output_buffer'')
       else (case cc_ctx c of
               None \<Rightarrow> Inl (Std_exception ''mbedtls_cipher_uninitialized'')
             | Some k \<Rightarrow> (case ch_crypt api k iv inp of None \<Rightarrow> Inr [] | Some out \<Rightarrow> Inr out)))"

definition cipher_encrypt ::
  "'k chm_api \<Rightarrow> 'k cipher_context \<Rightarrow> byte list \<Rightarrow> nat \<Rightarrow> byte list \<Rightarrow> byte list res" where
  "cipher_encrypt api c iv out_size inp =
     (if cc_mode c \<noteq> CIPHER_ENCRYPT then Inl (Std_exception ''cipher_mode_error'')
      else encrypt_decrypt api c iv out_size inp)"

definition cipher_decrypt ::
  "'k chm_api \<Rightarrow> 'k cipher_context \<Rightarrow> byte list \<Rightarrow> nat \<Rightarrow> byte list \<Rightarrow> byte list res" where
  "cipher_decrypt api c iv out_size inp =
     (if cc_mode c \<noteq> CIPHER_DECRYPT then Inl (Std_exception ''cipher_mode_error'')
      else encrypt_decrypt api c iv out_size inp)"

text \<open>\<open>OvpnHMAC::init\<close>; the library's keyed digest is the argument \<open>hm\<close>.\<close>

definition hmac_init :: "(crypto_alg \<Rightarrow> byte list \<Rightarrow> byte list \<Rightarrow> byte list) \<Rightarrow> crypto_alg \<Rightarrow> byte list \<Rightarrow> hmac_ctx res" where
  "hmac_init hm digest key =
     bindE (alg_get digest) (\<lambda>alg.
       if length key < al_size alg then Inl (Std_exception ''ovpn_hmac_context_digest_size'')
       else Inr \<lparr>h_final = hm digest (take (al_size alg) key), h_size = al_size alg\<rparr>)"


section \<open>Encryption\<close>

record 'k chm_env =
  cv_api :: "'k chm_api"
  cv_frame :: frame
  cv_junk :: "nat \<Rightarrow> byte"
  cv_addr :: nat
  cv_random :: "nat \<Rightarrow> byte"

record 'k chm_send =
  cs_cipher :: "'k cipher_context"
  cs_hmac :: "hmac_ctx option"
  cs_pid :: pid_send
  cs_work :: buf
  cs_drawn :: nat

definition rand_bytes :: "(nat \<Rightarrow> byte) \<Rightarrow> nat \<Rightarrow> nat \<Rightarrow> byte list" where
  "rand_bytes random drawn n = map random [drawn ..< drawn + n]"

definition prepend_hmac :: "hmac_ctx option \<Rightarrow> buf \<Rightarrow> buf res" where
  "prepend_hmac hmac b =
     (case hmac of
        None \<Rightarrow> Inr b
      | Some h \<Rightarrow>
          bindE (buf_prepend_alloc (h_size h) b) (\<lambda>b'.
            Inr (b'\<lparr>b_mem := blit (b_offset b') (h_final h (contents b)) (b_mem b')\<rparr>)))"

definition chm_encrypt :: "'k chm_env \<Rightarrow> int \<Rightarrow> buf \<Rightarrow> 'k chm_send \<Rightarrow> buf res \<times> 'k chm_send" where
  "chm_encrypt env now b s =
     (if b_size b = 0 then (Inr b, s)
      else (case cc_ctx (cs_cipher s) of
        Some k \<Rightarrow>
          (if \<not> ch_cbc_mode (cv_api env) k then (Inl (Std_exception ''chm_unsupported_cipher_mode''), s)
           else (let n = ch_iv_length (cv_api env) k; iv = rand_bytes (cv_random env) (cs_drawn s) n;
                     s = s\<lparr>cs_drawn := cs_drawn s + n\<rparr>
                 in case pid_send_write_next (cv_junk env) True now (cs_pid s) b of
                      (Inl e, ps) \<Rightarrow> (Inl e, s\<lparr>cs_pid := ps\<rparr>)
                    | (Inr b, ps) \<Rightarrow>
                        (let s = s\<lparr>cs_pid := ps\<rparr>
                         in case frame_prepare (cv_junk env) (cv_addr env) ENCRYPT_WORK (cs_work s) (cv_frame env) of
                              Inl e \<Rightarrow> (Inl e, s)
                            | Inr (_, work) \<Rightarrow>
                                (case cipher_encrypt (cv_api env) (cs_cipher s) iv (buf_max_size work) (contents b) of
                                   Inl e \<Rightarrow> (Inl e, s\<lparr>cs_work := work\<rparr>)
                                 | Inr out \<Rightarrow>
                                     (if out = [] then (Inr (buf_reset_size b), s\<lparr>cs_work := work\<rparr>)
                                      else (case bindE (buf_set_size (length out)
                                                    (work\<lparr>b_mem := blit (b_offset work) out (b_mem work)\<rparr>))
                                                  (\<lambda>w. bindE (buf_prepend iv w) (prepend_hmac (cs_hmac s))) of
                                              Inl e \<Rightarrow> (Inl e, s\<lparr>cs_work := work\<rparr>)
                                            | Inr w \<Rightarrow> (Inr w, s\<lparr>cs_work := b\<rparr>)))))))
      | None \<Rightarrow>
          (case pid_send_write_next (cv_junk env) True now (cs_pid s) b of
             (Inl e, ps) \<Rightarrow> (Inl e, s\<lparr>cs_pid := ps\<rparr>)
           | (Inr b, ps) \<Rightarrow> (prepend_hmac (cs_hmac s) b, s\<lparr>cs_pid := ps\<rparr>))))"


section \<open>Decryption\<close>

record 'k chm_recv =
  cr_cipher :: "'k cipher_context"
  cr_hmac :: "hmac_ctx option"
  cr_pid :: pid_recv
  cr_work :: buf

definition chm_verify_packet_id :: "pid_recv \<Rightarrow> int \<Rightarrow> buf \<Rightarrow> (bool \<times> buf \<times> pid_recv) res" where
  "chm_verify_packet_id pr now b =
     (if pr_initialized pr
      then bindE (pid_recv_read_next pr b) (\<lambda>(p, b).
           bindE (test_add p now True pr) (\<lambda>(fresh, pr). Inr (fresh, b, pr)))
      else Inr (True, b, pr))"

definition chm_verify_hmac :: "hmac_ctx option \<Rightarrow> buf \<Rightarrow> (bool \<times> buf) res" where
  "chm_verify_hmac hmac b =
     (case hmac of
        None \<Rightarrow> Inr (True, b)
      | Some h \<Rightarrow>
          bindE (buf_read (h_size h) b) (\<lambda>(packet_hmac, b). Inr (h_final h (contents b) = packet_hmac, b)))"

definition chm_decrypt_payload ::
  "'k chm_env \<Rightarrow> 'k \<Rightarrow> int \<Rightarrow> buf \<Rightarrow> 'k chm_recv \<Rightarrow> (error_type \<times> buf) res \<times> 'k chm_recv" where
  "chm_decrypt_payload env k now b r =
     (case buf_read (ch_iv_length (cv_api env) k) b of
        Inl e \<Rightarrow> (Inl e, r)
      | Inr (iv, b) \<Rightarrow>
     (case frame_prepare (cv_junk env) (cv_addr env) DECRYPT_WORK (cr_work r) (cv_frame env) of
        Inl e \<Rightarrow> (Inl e, r)
      | Inr (_, work) \<Rightarrow>
     (case cipher_decrypt (cv_api env) (cr_cipher r) iv (buf_max_size work) (contents b) of
        Inl e \<Rightarrow> (Inl e, r\<lparr>cr_work := work\<rparr>)
      | Inr out \<Rightarrow>
     (if out = [] then (Inr (DECRYPT_ERROR, buf_reset_size b), r\<lparr>cr_work := work\<rparr>)
      else (case buf_set_size (length out) (work\<lparr>b_mem := blit (b_offset work) out (b_mem work)\<rparr>) of
        Inl e \<Rightarrow> (Inl e, r\<lparr>cr_work := work\<rparr>)
      | Inr work \<Rightarrow>
     (if \<not> ch_cbc_mode (cv_api env) k
      then (Inl (Std_exception ''chm_unsupported_cipher_mode''), r\<lparr>cr_work := work\<rparr>)
      else (case chm_verify_packet_id (cr_pid r) now work of
        Inl e \<Rightarrow> (Inl e, r\<lparr>cr_work := work\<rparr>)
      | Inr (fresh, work, pr) \<Rightarrow>
          (if \<not> fresh then (Inr (REPLAY_ERROR, buf_reset_size b), r\<lparr>cr_work := work, cr_pid := pr\<rparr>)
           else (Inr (SUCCESS, work), r\<lparr>cr_work := b, cr_pid := pr\<rparr>)))))))))"

definition chm_decrypt ::
  "'k chm_env \<Rightarrow> int \<Rightarrow> buf \<Rightarrow> 'k chm_recv \<Rightarrow> (error_type \<times> buf) res \<times> 'k chm_recv" where
  "chm_decrypt env now b r =
     (if b_size b = 0 then (Inr (SUCCESS, b), r)
      else (case chm_verify_hmac (cr_hmac r) b of
        Inl e \<Rightarrow> (Inl e, r)
      | Inr (genuine, b) \<Rightarrow>
          (if \<not> genuine then (Inr (HMAC_ERROR, buf_reset_size b), r)
           else (case cc_ctx (cr_cipher r) of
                   Some k \<Rightarrow> chm_decrypt_payload env k now b r
                 | None \<Rightarrow>
                     (case chm_verify_packet_id (cr_pid r) now b of
                        Inl e \<Rightarrow> (Inl e, r)
                      | Inr (fresh, b, pr) \<Rightarrow>
                          (if \<not> fresh then (Inr (REPLAY_ERROR, buf_reset_size b), r\<lparr>cr_pid := pr\<rparr>)
                           else (Inr (SUCCESS, b), r\<lparr>cr_pid := pr\<rparr>)))))))"


section \<open>The object\<close>

record 'k chm_crypto =
  ck_cipher :: crypto_alg
  ck_digest :: crypto_alg
  ck_encrypt :: "'k chm_send"
  ck_decrypt :: "'k chm_recv"

definition chm_obj_encrypt ::
  "'k chm_env \<Rightarrow> byte list option \<Rightarrow> int \<Rightarrow> buf \<Rightarrow> 'k chm_send \<Rightarrow> (buf \<times> bool) res \<times> 'k chm_send" where
  "chm_obj_encrypt env op32 now b s =
     (case chm_encrypt env now b s of
        (Inl e, s) \<Rightarrow> (Inl e, s)
      | (Inr b, s) \<Rightarrow> (Inr (b, pid_send_wrap_warning (cs_pid s)), s))"

definition chm_obj_decrypt ::
  "'k chm_env \<Rightarrow> byte list option \<Rightarrow> int \<Rightarrow> buf \<Rightarrow> 'k chm_recv \<Rightarrow> (error_type \<times> buf) res \<times> 'k chm_recv" where
  "chm_obj_decrypt env op32 now b r = chm_decrypt env now b r"

definition chm_init_cipher ::
  "'k chm_api \<Rightarrow> byte list \<Rightarrow> byte list \<Rightarrow> 'k chm_crypto \<Rightarrow> unit res \<times> 'k chm_crypto" where
  "chm_init_cipher api encrypt_key decrypt_key c =
     (case cipher_init api (ck_cipher c) encrypt_key CIPHER_ENCRYPT of
        Inl e \<Rightarrow> (Inl e, c)
      | Inr x \<Rightarrow>
          (let c = c\<lparr>ck_encrypt := (ck_encrypt c)\<lparr>cs_cipher := x\<rparr>\<rparr>
           in case cipher_init api (ck_cipher c) decrypt_key CIPHER_DECRYPT of
                Inl e \<Rightarrow> (Inl e, c)
              | Inr x \<Rightarrow> (Inr (), c\<lparr>ck_decrypt := (ck_decrypt c)\<lparr>cr_cipher := x\<rparr>\<rparr>)))"

definition chm_init_hmac ::
  "(crypto_alg \<Rightarrow> byte list \<Rightarrow> byte list \<Rightarrow> byte list) \<Rightarrow> byte list \<Rightarrow> byte list \<Rightarrow> 'k chm_crypto
   \<Rightarrow> unit res \<times> 'k chm_crypto" where
  "chm_init_hmac hm encrypt_key decrypt_key c =
     (case hmac_init hm (ck_digest c) encrypt_key of
        Inl e \<Rightarrow> (Inl e, c)
      | Inr h \<Rightarrow>
          (let c = c\<lparr>ck_encrypt := (ck_encrypt c)\<lparr>cs_hmac := Some h\<rparr>\<rparr>
           in case hmac_init hm (ck_digest c) decrypt_key of
                Inl e \<Rightarrow> (Inl e, c)
              | Inr h \<Rightarrow> (Inr (), c\<lparr>ck_decrypt := (ck_decrypt c)\<lparr>cr_hmac := Some h\<rparr>\<rparr>)))"

definition chm_init_pid ::
  "pid_form \<Rightarrow> int \<Rightarrow> pid_form \<Rightarrow> string \<Rightarrow> int \<Rightarrow> error_type list \<Rightarrow> 'k chm_crypto \<Rightarrow> 'k chm_crypto" where
  "chm_init_pid send_form recv_mode recv_form recv_name recv_unit stats c =
     c\<lparr>ck_encrypt := (ck_encrypt c)\<lparr>cs_pid := pid_send_init send_form\<rparr>,
       ck_decrypt := (ck_decrypt c)\<lparr>cr_pid := pid_recv_init recv_mode recv_form recv_name recv_unit stats\<rparr>\<rparr>"

section \<open>What a packet becomes\<close>

definition hmac_sound :: "hmac_ctx option \<Rightarrow> bool" where
  "hmac_sound hmac = (case hmac of None \<Rightarrow> True | Some h \<Rightarrow> h_size h \<le> 64 \<and> (\<forall>x. length (h_final h x) = h_size h))"

definition hmac_bytes :: "hmac_ctx option \<Rightarrow> byte list \<Rightarrow> byte list" where
  "hmac_bytes hmac x = (case hmac of None \<Rightarrow> [] | Some h \<Rightarrow> h_final h x)"

lemma length_hmac_bytes: "hmac_sound hmac \<Longrightarrow> length (hmac_bytes hmac x) \<le> 64"
  by (auto simp: hmac_sound_def hmac_bytes_def split: option.splits)

lemma prepend_owned: "buf_prepend xs b = Inr b' \<Longrightarrow> b_owned b' = b_owned b"
  by (auto simp: buf_prepend_def buf_prepend_alloc_def split: if_splits)

lemma prepend_hmac_packet:
  assumes "hmac_sound hmac" "buf_wf b" "64 \<le> b_offset b"
  shows "\<exists>b'. prepend_hmac hmac b = Inr b' \<and> buf_wf b' \<and> contents b' = hmac_bytes hmac (contents b) @ contents b
    \<and> b_owned b' = b_owned b \<and> b_offset b - 64 \<le> b_offset b'"
proof (cases hmac)
  case (Some h)
  have l: "length (h_final h (contents b)) = h_size h" "h_size h \<le> b_offset b"
    using assms(1,3) Some by (auto simp: hmac_sound_def)
  then obtain b' where p: "buf_prepend (h_final h (contents b)) b = Inr b'"
    using prepend_ok_iff [of "h_final h (contents b)" b] by (auto simp: ok_def)
  moreover have "prepend_hmac hmac b = buf_prepend (h_final h (contents b)) b"
    using Some l(1) by (simp add: prepend_hmac_def buf_prepend_def)
  moreover have "b_offset b - 64 \<le> b_offset b'"
    using prepend_Inr [OF p assms(2)] l(1) assms(1) Some by (auto simp: hmac_sound_def)
  ultimately show ?thesis using prepend_Inr [OF p assms(2)] prepend_owned [OF p] Some by (auto simp: hmac_bytes_def)
qed (use assms in \<open>simp add: prepend_hmac_def hmac_bytes_def\<close>)

lemma verify_hmac_packet:
  assumes "hmac_sound hmac" "buf_wf b" "contents b = hmac_bytes hmac x @ x"
  shows "\<exists>b'. chm_verify_hmac hmac b = Inr (True, b') \<and> buf_wf b' \<and> contents b' = x \<and> b_owned b' = b_owned b"
proof (cases hmac)
  case (Some h)
  then obtain b' where r: "buf_read (h_size h) b = Inr (h_final h x, b')" "buf_wf b'" "contents b' = x"
    using bufq.read_prefix [OF assms(2), of "h_final h x" x] assms(1,3) by (auto simp: hmac_sound_def hmac_bytes_def)
  moreover have "b_owned b' = b_owned b" using r(1) by (auto simp: buf_read_def split: if_splits)
  ultimately show ?thesis using Some by (simp add: chm_verify_hmac_def)
qed (use assms in \<open>simp add: chm_verify_hmac_def hmac_bytes_def\<close>)

lemma write_next_packet:
  assumes "buf_wf b" "4 \<le> b_offset b" "ps_form ps = SHORT_FORM" "p_id (ps_pid ps) \<noteq> - 1"
  shows "\<exists>b' ps'. pid_send_write_next junk True now ps b = (Inr b', ps') \<and> buf_wf b'
    \<and> contents b' = be32 (p_id (ps_pid ps) + 1) @ contents b \<and> b_offset b' = b_offset b - 4 \<and> b_owned b' = b_owned b
    \<and> p_id (ps_pid ps') = p_id (ps_pid ps) + 1 \<and> ps_form ps' = SHORT_FORM"
proof -
  obtain t ps' where n: "pid_send_next now ps = (Inr \<lparr>p_id = p_id (ps_pid ps) + 1, p_time = t\<rparr>, ps')"
    "p_id (ps_pid ps') = p_id (ps_pid ps) + 1" "ps_form ps' = ps_form ps"
    using pid_send_next_step [OF assms(4)] by blast
  obtain b' where p: "buf_prepend (be32 (p_id (ps_pid ps) + 1)) b = Inr b'"
    using prepend_ok_iff [of "be32 (p_id (ps_pid ps) + 1)" b] assms(2) by (auto simp: ok_def)
  then show ?thesis using n assms(3) prepend_Inr [OF p assms(1)] prepend_owned [OF p]
    by (simp add: pid_send_write_next_def pid_write_def Let_def)
qed

lemma verify_next_packet:
  assumes "buf_wf b" "contents b = be32 i @ x" "pr_initialized pr" "pr_form pr = SHORT_FORM"
    "test_add \<lparr>p_id = i, p_time = 0\<rparr> now True pr = Inr (True, pr')"
  shows "\<exists>b'. chm_verify_packet_id pr now b = Inr (True, b', pr') \<and> buf_wf b' \<and> contents b' = x"
proof -
  obtain b' where "pid_read SHORT_FORM b = Inr (\<lparr>p_id = i, p_time = 0\<rparr>, b')" "buf_wf b'" "contents b' = x"
    using pid_read_bytes [OF assms(1), of SHORT_FORM "\<lparr>p_id = i, p_time = 0\<rparr>" x] assms(2)
    by (auto simp: pid_bytes_def pid_wire_time_def)
  then show ?thesis using assms(3-5) by (simp add: chm_verify_packet_id_def pid_recv_read_next_def)
qed


section \<open>The two ends of a key\<close>

text \<open>What the block cipher promises: the receiver's context undoes the sender's, in CBC mode, with at most a block of padding.\<close>

definition cipher_pair :: "'k chm_api \<Rightarrow> 'k \<Rightarrow> 'j chm_api \<Rightarrow> 'j \<Rightarrow> bool" where
  "cipher_pair api ke api' kd \<longleftrightarrow> ch_cbc_mode api ke \<and> ch_cbc_mode api' kd \<and> ch_iv_length api ke = ch_iv_length api' kd
     \<and> ch_iv_length api ke \<le> 16 \<and> ch_block_size api ke \<le> 16 \<and> ch_block_size api' kd \<le> 16
     \<and> (\<forall>iv x. length iv = ch_iv_length api ke \<longrightarrow> (\<exists>ct. ch_crypt api ke iv x = Some ct \<and> ct \<noteq> []
           \<and> length ct \<le> length x + 16 \<and> ch_crypt api' kd iv ct = Some x))"

definition ciphers_match :: "'k chm_env \<Rightarrow> 'j chm_env \<Rightarrow> 'k cipher_context \<Rightarrow> 'j cipher_context \<Rightarrow> bool" where
  "ciphers_match env env' c d =
     (case (cc_ctx c, cc_ctx d) of
        (None, None) \<Rightarrow> True
      | (Some ke, Some kd) \<Rightarrow> cc_mode c = CIPHER_ENCRYPT \<and> cc_mode d = CIPHER_DECRYPT
          \<and> cipher_pair (cv_api env) ke (cv_api env') kd
      | _ \<Rightarrow> False)"

definition chm_paired :: "'k chm_env \<Rightarrow> 'j chm_env \<Rightarrow> 'k chm_send \<Rightarrow> 'j chm_recv \<Rightarrow> bool" where
  "chm_paired env env' s r \<longleftrightarrow> frame_ok (cv_frame env) \<and> frame_ok (cv_frame env')
     \<and> buf_wf (cs_work s) \<and> b_owned (cs_work s) \<and> buf_wf (cr_work r) \<and> b_owned (cr_work r)
     \<and> ciphers_match env env' (cs_cipher s) (cr_cipher r) \<and> cs_hmac s = cr_hmac r \<and> hmac_sound (cs_hmac s)
     \<and> ps_form (cs_pid s) = SHORT_FORM \<and> pr_form (cr_pid r) = SHORT_FORM \<and> pr_initialized (cr_pid r)
     \<and> window_behind (cr_pid r) (p_id (ps_pid (cs_pid s)))"

definition chm_sendable :: "'k chm_env \<Rightarrow> 'j chm_env \<Rightarrow> byte list option \<Rightarrow> buf \<Rightarrow> bool" where
  "chm_sendable env env' op32 b \<longleftrightarrow> buf_wf b \<and> b_owned b \<and> 72 \<le> b_offset b
     \<and> 84 \<le> fc_headroom (cv_frame env ! ENCRYPT_WORK)
     \<and> b_size b + 20 \<le> fc_payload (cv_frame env ! ENCRYPT_WORK)
     \<and> b_size b + 36 \<le> fc_payload (cv_frame env' ! DECRYPT_WORK)"

definition chm_left :: "'k chm_send \<Rightarrow> nat" where
  "chm_left s = 4294967295 - unat (p_id (ps_pid (cs_pid s)))"

text \<open>Without a cipher.\<close>

lemma chm_transmit_plain:
  assumes "chm_paired env env' s r" "chm_sendable env env' op32 b" "0 < chm_left s" "b_size b \<noteq> 0" "cc_ctx (cs_cipher s) = None"
  shows "\<exists>b' s'. chm_encrypt env now b s = (Inr b', s') \<and> chm_left s \<le> Suc (chm_left s') \<and> chm_paired env env' s' r
    \<and> arrives b' b' \<and> 4 \<le> b_offset b'
    \<and> (\<forall>now' rb. arrives rb b' \<longrightarrow> (\<exists>b'' r'. chm_decrypt env' now' rb r = (Inr (SUCCESS, b''), r') \<and> buf_wf b''
        \<and> contents b'' = contents b \<and> chm_paired env env' s' r'))"
proof -
  let ?i = "p_id (ps_pid (cs_pid s))"
  have i: "?i \<noteq> - 1" using assms(3) by (auto simp: chm_left_def unat_last_id)
  have p: "ps_form (cs_pid s) = SHORT_FORM" "hmac_sound (cs_hmac s)" "cs_hmac s = cr_hmac r" "pr_form (cr_pid r) = SHORT_FORM"
    "pr_initialized (cr_pid r)" "window_behind (cr_pid r) ?i" using assms(1) by (auto simp: chm_paired_def)
  have d: "cc_ctx (cr_cipher r) = None" using assms(1,5) by (auto simp: chm_paired_def ciphers_match_def split: option.splits)
  have b: "buf_wf b" "4 \<le> b_offset b" "72 \<le> b_offset b" "b_owned b" using assms(2) by (auto simp: chm_sendable_def)
  obtain b1 ps where w: "pid_send_write_next (cv_junk env) True now (cs_pid s) b = (Inr b1, ps)" "buf_wf b1"
    "contents b1 = be32 (?i + 1) @ contents b" "b_offset b1 = b_offset b - 4" "p_id (ps_pid ps) = ?i + 1" "ps_form ps = SHORT_FORM"
    "b_owned b1 = b_owned b"
    using write_next_packet [OF b(1,2) p(1) i] by blast
  have "68 \<le> b_offset b1" using w(4) b(3) by linarith
  then obtain b2 where h: "prepend_hmac (cs_hmac s) b1 = Inr b2" "buf_wf b2" "contents b2 = hmac_bytes (cs_hmac s) (contents b1) @ contents b1"
    "b_owned b2 = b_owned b1" "4 \<le> b_offset b2"
    using prepend_hmac_packet [OF p(2) w(2)] by force
  have enc: "chm_encrypt env now b s = (Inr b2, s\<lparr>cs_pid := ps\<rparr>)"
    using assms(4,5) w(1) h(1) by (simp add: chm_encrypt_def)
  have left: "chm_left s \<le> Suc (chm_left (s\<lparr>cs_pid := ps\<rparr>))" using w(5) unat_next_id [OF i] by (simp add: chm_left_def)
  have pair: "chm_paired env env' (s\<lparr>cs_pid := ps\<rparr>) r"
    using assms(1) p(2,3) w(5,6) window_behind_mono [OF p(6) i] by (simp add: chm_paired_def)
  have "\<exists>b'' r'. chm_decrypt env' now' rb r = (Inr (SUCCESS, b''), r') \<and> buf_wf b'' \<and> contents b'' = contents b
      \<and> chm_paired env env' (s\<lparr>cs_pid := ps\<rparr>) r'" if rb: "arrives rb b2" for now' rb
  proof -
    have a: "buf_wf rb" "contents rb = hmac_bytes (cs_hmac s) (contents b1) @ contents b1" using rb h(3) by (simp_all add: arrives_def)
    obtain b3 where v: "chm_verify_hmac (cr_hmac r) rb = Inr (True, b3)" "buf_wf b3" "contents b3 = contents b1"
      using verify_hmac_packet [OF p(2) a] p(3) by auto
    obtain pr where t: "test_add \<lparr>p_id = ?i + 1, p_time = 0\<rparr> now' True (cr_pid r) = Inr (True, pr)" "window_behind pr (?i + 1)"
      using window_behind_newer [OF p(6) i] by blast
    obtain b4 where n: "chm_verify_packet_id (cr_pid r) now' b3 = Inr (True, b4, pr)" "buf_wf b4" "contents b4 = contents b"
      using verify_next_packet [OF v(2) _ p(5,4) t(1)] v(3) w(3) by auto
    have "b_size rb \<noteq> 0" using length_contents [OF a(1)] a(2) w(3) by auto
    then have "chm_decrypt env' now' rb r = (Inr (SUCCESS, b4), r\<lparr>cr_pid := pr\<rparr>)"
      using v(1) n(1) d by (simp add: chm_decrypt_def)
    then show ?thesis using n(2,3) pair t(2) w(5) test_add_form [OF t(1)] by (auto simp: chm_paired_def)
  qed
  moreover have "arrives b2 b2" using h(2,4) w(7) b(4) by (simp add: arrives_def)
  ultimately show ?thesis using enc left pair h(5) by blast
qed

text \<open>With a cipher.\<close>

lemma length_rand_bytes [simp]: "length (rand_bytes f k n) = n"
  by (simp add: rand_bytes_def)

lemma chm_encrypt_packet:
  assumes "chm_paired env env' s r" "chm_sendable env env' op32 b" "p_id (ps_pid (cs_pid s)) \<noteq> - 1" "b_size b \<noteq> 0"
    "cc_ctx (cs_cipher s) = Some ke" "cc_ctx (cr_cipher r) = Some kd"
  shows "\<exists>b' s' iv ct. chm_encrypt env now b s = (Inr b', s') \<and> length iv = ch_iv_length (cv_api env) ke
    \<and> ch_crypt (cv_api env) ke iv (be32 (p_id (ps_pid (cs_pid s)) + 1) @ contents b) = Some ct
    \<and> ch_crypt (cv_api env') kd iv ct = Some (be32 (p_id (ps_pid (cs_pid s)) + 1) @ contents b)
    \<and> length ct \<le> b_size b + 20
    \<and> buf_wf b' \<and> b_owned b' \<and> 4 \<le> b_offset b' \<and> contents b' = hmac_bytes (cs_hmac s) (iv @ ct) @ iv @ ct
    \<and> cs_cipher s' = cs_cipher s \<and> cs_hmac s' = cs_hmac s \<and> buf_wf (cs_work s') \<and> b_owned (cs_work s')
    \<and> p_id (ps_pid (cs_pid s')) = p_id (ps_pid (cs_pid s)) + 1 \<and> ps_form (cs_pid s') = SHORT_FORM"
proof -
  let ?i = "p_id (ps_pid (cs_pid s))" and ?iv = "rand_bytes (cv_random env) (cs_drawn s) (ch_iv_length (cv_api env) ke)"
  let ?x = "be32 (?i + 1) @ contents b"
  have p: "ps_form (cs_pid s) = SHORT_FORM" "hmac_sound (cs_hmac s)" "frame_ok (cv_frame env)" "buf_wf (cs_work s)" "b_owned (cs_work s)"
    "cipher_pair (cv_api env) ke (cv_api env') kd" "cc_mode (cs_cipher s) = CIPHER_ENCRYPT"
    using assms(1,5,6) by (auto simp: chm_paired_def ciphers_match_def)
  have b: "buf_wf b" "4 \<le> b_offset b" "b_owned b" "b_size b + 20 \<le> fc_payload (cv_frame env ! ENCRYPT_WORK)"
    "84 \<le> fc_headroom (cv_frame env ! ENCRYPT_WORK)" using assms(2) by (auto simp: chm_sendable_def)
  obtain ct where ct: "ch_crypt (cv_api env) ke ?iv ?x = Some ct" "ct \<noteq> []" "length ct \<le> length ?x + 16"
    "ch_crypt (cv_api env') kd ?iv ct = Some ?x"
    using p(6) unfolding cipher_pair_def by (metis length_rand_bytes)
  have c: "ch_cbc_mode (cv_api env) ke" "ch_iv_length (cv_api env) ke \<le> 16" "ch_block_size (cv_api env) ke \<le> 16"
    using p(6) by (auto simp: cipher_pair_def)
  obtain b1 ps where w: "pid_send_write_next (cv_junk env) True now (cs_pid s) b = (Inr b1, ps)" "buf_wf b1"
    "contents b1 = ?x" "b_owned b1" "p_id (ps_pid ps) = ?i + 1" "ps_form ps = SHORT_FORM"
    using write_next_packet [OF b(1,2) p(1) assms(3)] b(3) by blast
  obtain wk where wk: "frame_prepare (cv_junk env) (cv_addr env) ENCRYPT_WORK (cs_work s) (cv_frame env)
      = Inr (fc_payload (cv_frame env ! ENCRYPT_WORK), wk)" "buf_wf wk" "b_owned wk"
    "fc_payload (cv_frame env ! ENCRYPT_WORK) \<le> buf_max_size wk" "fc_headroom (cv_frame env ! ENCRYPT_WORK) \<le> b_offset wk"
    using frame_prepare_ok [OF p(3-5)] by (metis zero_less_numeral)
  have lx: "length ?x = b_size b + 4" using b(1) by simp
  have l: "length ct \<le> b_size b + 20" using ct(3) lx by simp
  then have fit: "length ct \<le> buf_max_size wk" using wk(4) b(4) by simp
  have room: "\<not> buf_max_size wk < length ?x + ch_block_size (cv_api env) ke" using wk(4) b(4) c(3) lx by linarith
  have enc: "cipher_encrypt (cv_api env) (cs_cipher s) ?iv (buf_max_size wk) ?x = Inr ct"
    using p(7) assms(5) room ct(1) by (simp add: cipher_encrypt_def encrypt_decrypt_def cipher_output_size_def)
  let ?w = "wk\<lparr>b_mem := blit (b_offset wk) ct (b_mem wk)\<rparr>"
  note out = write_work [OF wk(2) fit]
  have set: "buf_set_size (length ct) ?w = Inr (?w\<lparr>b_size := length ct\<rparr>)"
    using fit by (simp add: buf_set_size_def buf_max_size_def)
  have o: "84 \<le> b_offset wk" using wk(5) b(5) by linarith
  obtain w2 where w2: "buf_prepend ?iv (?w\<lparr>b_size := length ct\<rparr>) = Inr w2"
    using prepend_ok_iff [of ?iv "?w\<lparr>b_size := length ct\<rparr>"] o c(2) by (auto simp: ok_def)
  from prepend_Inr [OF w2] out have c2: "buf_wf w2" "contents w2 = ?iv @ ct" "b_offset w2 = b_offset wk - length ?iv" by auto
  then have "68 \<le> b_offset w2" using o c(2) length_rand_bytes [of "cv_random env" "cs_drawn s" "ch_iv_length (cv_api env) ke"] by linarith
  then obtain w3 where w3: "prepend_hmac (cs_hmac s) w2 = Inr w3" "buf_wf w3" "contents w3 = hmac_bytes (cs_hmac s) (?iv @ ct) @ ?iv @ ct" "b_owned w3" "4 \<le> b_offset w3"
    using prepend_hmac_packet [OF p(2) c2(1)] c2(2) prepend_owned [OF w2] wk(3) by force
  have "chm_encrypt env now b s = (Inr w3, s\<lparr>cs_drawn := cs_drawn s + ch_iv_length (cv_api env) ke, cs_pid := ps, cs_work := b1\<rparr>)"
    using assms(4,5) c(1) w(1,3) wk(1) enc ct(2) set w2 w3(1) by (simp add: chm_encrypt_def Let_def)
  moreover have "cs_cipher (s\<lparr>cs_drawn := cs_drawn s + ch_iv_length (cv_api env) ke, cs_pid := ps, cs_work := b1\<rparr>) = cs_cipher s"
    "cs_hmac (s\<lparr>cs_drawn := cs_drawn s + ch_iv_length (cv_api env) ke, cs_pid := ps, cs_work := b1\<rparr>) = cs_hmac s"
    "cs_work (s\<lparr>cs_drawn := cs_drawn s + ch_iv_length (cv_api env) ke, cs_pid := ps, cs_work := b1\<rparr>) = b1"
    "cs_pid (s\<lparr>cs_drawn := cs_drawn s + ch_iv_length (cv_api env) ke, cs_pid := ps, cs_work := b1\<rparr>) = ps"
    by simp_all
  ultimately show ?thesis
    using ct(1,4) l w3(2-5) w(2,4-6) length_rand_bytes [of "cv_random env" "cs_drawn s" "ch_iv_length (cv_api env) ke"]
    by (metis (no_types, lifting))
qed

lemma chm_decrypt_packet:
  assumes "frame_ok (cv_frame env)" "buf_wf (cr_work r)" "b_owned (cr_work r)" "hmac_sound (cr_hmac r)"
    "cc_ctx (cr_cipher r) = Some kd" "cc_mode (cr_cipher r) = CIPHER_DECRYPT" "ch_cbc_mode (cv_api env) kd"
    "length iv = ch_iv_length (cv_api env) kd" "ch_block_size (cv_api env) kd \<le> 16" "ct \<noteq> []"
    "ch_crypt (cv_api env) kd iv ct = Some (be32 i @ x)" "length ct + 16 \<le> fc_payload (cv_frame env ! DECRYPT_WORK)"
    "length (be32 i @ x) \<le> fc_payload (cv_frame env ! DECRYPT_WORK)"
    "buf_wf b" "b_owned b" "contents b = hmac_bytes (cr_hmac r) (iv @ ct) @ iv @ ct"
    "pr_initialized (cr_pid r)" "pr_form (cr_pid r) = SHORT_FORM"
    "test_add \<lparr>p_id = i, p_time = 0\<rparr> now True (cr_pid r) = Inr (True, pr)"
  shows "\<exists>b' r'. chm_decrypt env now b r = (Inr (SUCCESS, b'), r') \<and> buf_wf b' \<and> contents b' = x
    \<and> cr_cipher r' = cr_cipher r \<and> cr_hmac r' = cr_hmac r \<and> cr_pid r' = pr \<and> buf_wf (cr_work r') \<and> b_owned (cr_work r')"
proof -
  obtain b1 where b1: "chm_verify_hmac (cr_hmac r) b = Inr (True, b1)" "buf_wf b1" "contents b1 = iv @ ct" "b_owned b1"
    using verify_hmac_packet [OF assms(4,14,16)] assms(15) by blast
  obtain b2 where b2: "buf_read (ch_iv_length (cv_api env) kd) b1 = Inr (iv, b2)" "buf_wf b2" "contents b2 = ct"
    using bufq.read_prefix [OF b1(2,3)] assms(8) by auto
  have own: "b_owned b2" using b2(1) b1(4) by (auto simp: buf_read_def split: if_splits)
  obtain w where w: "frame_prepare (cv_junk env) (cv_addr env) DECRYPT_WORK (cr_work r) (cv_frame env)
      = Inr (fc_payload (cv_frame env ! DECRYPT_WORK), w)" "buf_wf w"
    "fc_payload (cv_frame env ! DECRYPT_WORK) \<le> buf_max_size w"
    using frame_prepare_ok [OF assms(1-3), of DECRYPT_WORK] by (metis one_less_numeral_iff semiring_norm(76))
  have room: "\<not> buf_max_size w < length ct + ch_block_size (cv_api env) kd" using w(3) assms(9,12) by linarith
  have dec: "cipher_decrypt (cv_api env) (cr_cipher r) iv (buf_max_size w) ct = Inr (be32 i @ x)"
    using assms(5,6,11) room by (simp add: cipher_decrypt_def encrypt_decrypt_def cipher_output_size_def)
  have fit: "length (be32 i @ x) \<le> buf_max_size w" using w(3) assms(13) by linarith
  let ?w = "w\<lparr>b_mem := blit (b_offset w) (be32 i @ x) (b_mem w)\<rparr>"
  note out = write_work [OF w(2) fit]
  have set: "buf_set_size (length (be32 i @ x)) ?w = Inr (?w\<lparr>b_size := length (be32 i @ x)\<rparr>)"
    using fit by (simp add: buf_set_size_def buf_max_size_def)
  obtain b3 where b3: "chm_verify_packet_id (cr_pid r) now (?w\<lparr>b_size := length (be32 i @ x)\<rparr>) = Inr (True, b3, pr)" "buf_wf b3" "contents b3 = x"
    using verify_next_packet [OF conjunct1 [OF out] conjunct2 [OF out] assms(17,18,19)] by blast
  have "length (contents b) \<noteq> 0" using assms(16,10) by simp
  then have ne: "be32 i @ x \<noteq> []" "b_size b \<noteq> 0" using length_contents [OF assms(14)] by (simp_all add: be32_def)
  have "chm_decrypt_payload env kd now b1 r = (Inr (SUCCESS, b3), r\<lparr>cr_work := b2, cr_pid := pr\<rparr>)"
    using b2(1,3) w(1) dec ne(1) set b3(1) assms(7) by (simp add: chm_decrypt_payload_def del: length_append)
  then have "chm_decrypt env now b r = (Inr (SUCCESS, b3), r\<lparr>cr_work := b2, cr_pid := pr\<rparr>)"
    using ne(2) b1(1) assms(5) by (simp add: chm_decrypt_def)
  then show ?thesis using b3(2,3) b2(2) own by simp
qed

lemma chm_transmit_cipher:
  assumes "chm_paired env env' s r" "chm_sendable env env' op32 b" "0 < chm_left s" "b_size b \<noteq> 0" "cc_ctx (cs_cipher s) = Some ke"
  shows "\<exists>b' s'. chm_encrypt env now b s = (Inr b', s') \<and> chm_left s \<le> Suc (chm_left s') \<and> chm_paired env env' s' r
    \<and> arrives b' b' \<and> 4 \<le> b_offset b'
    \<and> (\<forall>now' rb. arrives rb b' \<longrightarrow> (\<exists>b'' r'. chm_decrypt env' now' rb r = (Inr (SUCCESS, b''), r') \<and> buf_wf b''
        \<and> contents b'' = contents b \<and> chm_paired env env' s' r'))"
proof -
  let ?i = "p_id (ps_pid (cs_pid s))"
  have i: "?i \<noteq> - 1" using assms(3) by (auto simp: chm_left_def unat_last_id)
  obtain kd where kd: "cc_ctx (cr_cipher r) = Some kd" "cc_mode (cr_cipher r) = CIPHER_DECRYPT" "cipher_pair (cv_api env) ke (cv_api env') kd"
    using assms(1,5) by (auto simp: chm_paired_def ciphers_match_def split: option.splits)
  have p: "hmac_sound (cr_hmac r)" "cs_hmac s = cr_hmac r" "pr_form (cr_pid r) = SHORT_FORM"
    "pr_initialized (cr_pid r)" "window_behind (cr_pid r) ?i" "frame_ok (cv_frame env')" "buf_wf (cr_work r)" "b_owned (cr_work r)"
    "frame_ok (cv_frame env)" "ciphers_match env env' (cs_cipher s) (cr_cipher r)"
    using assms(1) unfolding chm_paired_def by metis+
  obtain b' s' iv ct where e: "chm_encrypt env now b s = (Inr b', s')" "length iv = ch_iv_length (cv_api env) ke"
    "ch_crypt (cv_api env) ke iv (be32 (?i + 1) @ contents b) = Some ct"
    "ch_crypt (cv_api env') kd iv ct = Some (be32 (?i + 1) @ contents b)" "length ct \<le> b_size b + 20"
    "buf_wf b'" "b_owned b'" "contents b' = hmac_bytes (cs_hmac s) (iv @ ct) @ iv @ ct"
    "cs_cipher s' = cs_cipher s" "cs_hmac s' = cs_hmac s" "buf_wf (cs_work s')" "b_owned (cs_work s')"
    "p_id (ps_pid (cs_pid s')) = ?i + 1" "ps_form (cs_pid s') = SHORT_FORM" "4 \<le> b_offset b'"
    using chm_encrypt_packet [OF assms(1,2) i assms(4,5) kd(1)] by blast
  have left: "chm_left s \<le> Suc (chm_left s')" using e(13) unat_next_id [OF i] by (simp add: chm_left_def)
  have pair: "chm_paired env env' s' r"
    unfolding chm_paired_def using e(9-14) p window_behind_mono [OF p(5) i] by simp
  have k: "ch_cbc_mode (cv_api env') kd" "length iv = ch_iv_length (cv_api env') kd" "ch_block_size (cv_api env') kd \<le> 16"
    using kd(3) e(2) by (auto simp: cipher_pair_def)
  have ne: "ct \<noteq> []" using kd(3) e(2,3) unfolding cipher_pair_def by (metis option.inject)
  have b: "buf_wf b" "b_size b + 36 \<le> fc_payload (cv_frame env' ! DECRYPT_WORK)" using assms(2) by (auto simp: chm_sendable_def)
  have "length ct + 16 \<le> fc_payload (cv_frame env' ! DECRYPT_WORK)"
    "length (be32 (?i + 1) @ contents b) \<le> fc_payload (cv_frame env' ! DECRYPT_WORK)"
    using e(5) b by simp_all
  note d = chm_decrypt_packet [OF p(6-8,1) kd(1,2) k(1,2,3) ne e(4) this _ _ _ p(4,3)]
  have "\<exists>b'' r'. chm_decrypt env' now' rb r = (Inr (SUCCESS, b''), r') \<and> buf_wf b'' \<and> contents b'' = contents b
      \<and> chm_paired env env' s' r'" if rb: "arrives rb b'" for now' rb
  proof -
    obtain pr where t: "test_add \<lparr>p_id = ?i + 1, p_time = 0\<rparr> now' True (cr_pid r) = Inr (True, pr)" "window_behind pr (?i + 1)"
      using window_behind_newer [OF p(5) i] by blast
    obtain b'' r' where r: "chm_decrypt env' now' rb r = (Inr (SUCCESS, b''), r')" "buf_wf b''" "contents b'' = contents b"
      "cr_cipher r' = cr_cipher r" "cr_hmac r' = cr_hmac r" "cr_pid r' = pr" "buf_wf (cr_work r')" "b_owned (cr_work r')"
      using d [of rb, OF _ _ _ t(1)] e(8) p(2) rb by (auto simp: arrives_def)
    have "chm_paired env env' s' r'"
      using pair p(1) r(4-8) t(2) e(13) test_add_form [OF t(1)] unfolding chm_paired_def by simp
    then show ?thesis using r(1-3) by blast
  qed
  moreover have "arrives b' b'" using e(6,7) by (simp add: arrives_def)
  ultimately show ?thesis using e(1) left pair e(15) by blast
qed

lemma chm_transmit:
  assumes "chm_paired env env' s r" "chm_sendable env env' op32 b" "0 < chm_left s"
  shows "\<exists>b' warn s'. chm_obj_encrypt env op32 now b s = (Inr (b', warn), s') \<and> chm_left s \<le> Suc (chm_left s')
    \<and> chm_paired env env' s' r
    \<and> arrives b' b' \<and> 4 \<le> b_offset b'
    \<and> (\<forall>now' rb. arrives rb b' \<longrightarrow> (\<exists>b'' r'. chm_obj_decrypt env' op32 now' rb r = (Inr (SUCCESS, b''), r') \<and> buf_wf b''
        \<and> contents b'' = contents b \<and> chm_paired env env' s' r'))"
proof (cases "b_size b = 0")
  case True
  have b: "buf_wf b" "b_owned b" "4 \<le> b_offset b" using assms(2) by (auto simp: chm_sendable_def)
  have "b_size rb = 0" if "arrives rb b" for rb
    using that True length_contents [of rb] length_contents [OF b(1)] by (simp add: arrives_def)
  then show ?thesis using assms(1) b True
    by (simp add: chm_obj_encrypt_def chm_obj_decrypt_def chm_encrypt_def chm_decrypt_def arrives_def)
next
  case False
  have "\<exists>b' s'. chm_encrypt env now b s = (Inr b', s') \<and> chm_left s \<le> Suc (chm_left s') \<and> chm_paired env env' s' r
    \<and> arrives b' b' \<and> 4 \<le> b_offset b'
    \<and> (\<forall>now' rb. arrives rb b' \<longrightarrow> (\<exists>b'' r'. chm_decrypt env' now' rb r = (Inr (SUCCESS, b''), r') \<and> buf_wf b''
        \<and> contents b'' = contents b \<and> chm_paired env env' s' r'))"
    using chm_transmit_plain [OF assms False] chm_transmit_cipher [OF assms False] by (cases "cc_ctx (cs_cipher s)") auto
  then show ?thesis by (fastforce simp: chm_obj_encrypt_def chm_obj_decrypt_def)
qed

interpretation chm: data_channel "chm_obj_encrypt env" "chm_obj_decrypt env'" "chm_paired env env'"
    "chm_sendable env env'" chm_left for env env'
  by unfold_locales (rule chm_transmit)

section \<open>Properties\<close>

text \<open>
  C30. The data channel under a CBC cipher and an HMAC, under either alone or under neither, delivers:
  when both ends hold one key, every packet that is not lost on the way is decrypted to what was
  encrypted, in order and with the result SUCCESS, as long as the packet IDs last.
\<close>

theorem chm_channel_delivers:
  assumes "chm_paired env env' s r" "\<forall>e \<in> set es. chm_sendable env env' (ev_op32 e) (ev_packet e)"
    "length es \<le> chm_left s"
  shows "channel_run (chm_obj_encrypt env) (chm_obj_decrypt env') es s r
    = map (\<lambda>e. Inr (SUCCESS, contents (ev_packet e))) (filter (\<lambda>e. \<not> ev_lost e) es)"
proof (rule chm.run_delivers)
  show "chm_paired env env' s r" by (rule assms(1))
  show "chm_sendable env env' (ev_op32 e) (ev_packet e)" if "e \<in> set es" for e using assms(2) that by blast
  show "length es \<le> chm_left s" by (rule assms(3))
qed

text \<open>A cipher that shifts every byte by the key and the first byte of the IV, and pads with one byte.\<close>

definition shift_api :: "(bool \<times> byte) chm_api" where
  "shift_api = \<lparr>ch_init = (\<lambda>alg key mode. Inr (mode, hd key)), ch_iv_length = (\<lambda>_. 2), ch_block_size = (\<lambda>_. 1),
     ch_cbc_mode = (\<lambda>_. True),
     ch_crypt = (\<lambda>k iv x. if fst k then Some (7 # map (\<lambda>y. y + snd k + hd iv) x)
                          else Some (map (\<lambda>y. y - snd k - hd iv) (tl x)))\<rparr>"

definition shift_env :: "(bool \<times> byte) chm_env" where
  "shift_env = \<lparr>cv_api = shift_api, cv_frame = frame_of_context (make_context 96 64 16 0 1 0), cv_junk = (\<lambda>_. 7),
     cv_addr = 0, cv_random = of_nat\<rparr>"

definition sum_hmac :: hmac_ctx where
  "sum_hmac = \<lparr>h_final = (\<lambda>x. [fold (+) x 3]), h_size = 1\<rparr>"

definition shift_send :: "(bool \<times> byte) chm_send" where
  "shift_send = \<lparr>cs_cipher = \<lparr>cc_mode = CIPHER_ENCRYPT, cc_ctx = Some (True, 90)\<rparr>, cs_hmac = Some sum_hmac,
     cs_pid = pid_send_init SHORT_FORM, cs_work = buf_alloc (\<lambda>_. 0) 0 0, cs_drawn = 0\<rparr>"

definition shift_recv :: "(bool \<times> byte) chm_recv" where
  "shift_recv = \<lparr>cr_cipher = \<lparr>cc_mode = CIPHER_DECRYPT, cc_ctx = Some (False, 90)\<rparr>, cr_hmac = Some sum_hmac,
     cr_pid = pid_recv_init 0 SHORT_FORM ''DATA'' 0 [], cr_work = buf_alloc (\<lambda>_. 0) 0 0\<rparr>"

definition chm_packet :: "byte list \<Rightarrow> buf" where
  "chm_packet bs = \<lparr>b_mem = replicate 72 0 @ bs, b_offset = 72, b_size = length bs, b_capacity = 72 + length bs,
     b_flags = 0, b_owned = True\<rparr>"

lemma shift_paired: "chm_paired shift_env shift_env shift_send shift_recv"
proof -
  have "cipher_pair shift_api (True, 90) shift_api (False, 90)"
    by (simp add: cipher_pair_def shift_api_def comp_def)
  moreover have "frame_ok (cv_frame shift_env)"
    by (auto simp: frame_ok_def shift_env_def frame_of_context_def ctx_ok_def make_context_def recalc_derived_def sz_add_def
        intro: exI [of _ 0])
  moreover have "buf_wf (buf_alloc (\<lambda>_. 0) 0 0)" "b_owned (buf_alloc (\<lambda>_. 0) 0 0)"
    by (simp_all add: buf_wf_def buf_alloc_def has_flag_def fresh_mem_def)
  moreover have "window_behind (pid_recv_init 0 SHORT_FORM ''DATA'' 0 []) 0"
    using win_rel_init by (force simp: window_behind_def aw_init_def)
  ultimately show ?thesis
    by (simp add: chm_paired_def ciphers_match_def shift_send_def shift_recv_def hmac_sound_def sum_hmac_def
        pid_send_init_def) (simp add: shift_env_def pid_recv_init_def)
qed

lemma chm_packet_ok:
  assumes "length bs \<le> 20"
  shows "chm_sendable shift_env shift_env op32 (chm_packet bs)" "contents (chm_packet bs) = bs"
  using assms by (auto simp: chm_sendable_def chm_packet_def buf_wf_def shift_env_def
      frame_of_context_def make_context_def recalc_derived_def contents_def)

theorem chm_channel_delivers_witness:
  "channel_run (chm_obj_encrypt shift_env) (chm_obj_decrypt shift_env)
     (map (\<lambda>(lost, bs). \<lparr>ev_op32 = None, ev_sent = 5, ev_received = 9, ev_lost = lost, ev_packet = chm_packet bs\<rparr>)
        [(True, [1, 2, 3]), (False, [4, 4]), (False, [5, 6])]) shift_send shift_recv
   = [Inr (SUCCESS, [4, 4]), Inr (SUCCESS, [5, 6])]"
proof -
  let ?es = "map (\<lambda>(lost, bs). \<lparr>ev_op32 = None, ev_sent = 5, ev_received = 9, ev_lost = lost, ev_packet = chm_packet bs\<rparr>)
        [(True, [1, 2, 3]), (False, [4, 4]), (False, [5, 6])]"
  have a: "\<forall>e \<in> set ?es. chm_sendable shift_env shift_env (ev_op32 e) (ev_packet e)" by (simp add: chm_packet_ok)
  have l: "length ?es \<le> chm_left shift_send" by (simp add: chm_left_def shift_send_def pid_send_init_def)
  show ?thesis unfolding chm_channel_delivers [OF shift_paired a l] by (simp add: chm_packet_ok)
qed

end
