(* ===== verification/Data_Path.thy ===== *)
theory Data_Path
  imports Key_Life Aead Crypto_Chm
begin

text \<open>
  The way of a packet through the data channel of a key and of the peer's: the two classes behind
  \<open>CryptoDCInstance\<close> (\<^verbatim>\<open>crypto/crypto_aead.hpp\<close>, \<^verbatim>\<open>crypto/crypto_chm.hpp\<close>) as the objects a key holds, and the
  composition of segment size, compression, encryption and packet head in \<^verbatim>\<open>ssl/proto.hpp\<close>
  \<open>KeyContext::encrypt\<close> and \<open>decrypt\<close>. The locale \<open>key_channel\<close> states what a key relies on; it is
  interpreted for both classes.
\<close>

section \<open>The objects\<close>

datatype ('k, 'c) dc_object = AeadCrypto "'k aead_crypto" | CryptoCHM "'c chm_crypto"

text \<open>\<open>de_aead_none\<close> and \<open>de_recv_none\<close> are a cipher context and a replay window that are not initialised.\<close>

record ('k, 'c) dc_env =
  de_aead :: "'k aead_env"
  de_aead_none :: 'k
  de_chm :: "'c chm_env"
  de_hmac :: "crypto_alg \<Rightarrow> byte list \<Rightarrow> byte list \<Rightarrow> byte list"
  de_recv_none :: pid_recv

definition aead_crypto_new :: "('k, 'c) dc_env \<Rightarrow> crypto_alg \<Rightarrow> 'k aead_crypto" where
  "aead_crypto_new env cipher =
     (let work = buf_alloc (av_junk (de_aead env)) 0 0 in
      \<lparr>ac_cipher = cipher,
       ac_e = \<lparr>ae_impl = de_aead_none env, ae_nonce = nonce_new, ae_pid = pid_send_init SHORT_FORM, ae_work = work\<rparr>,
       ac_d = \<lparr>ad_impl = de_aead_none env, ad_nonce = nonce_new, ad_pid = de_recv_none env, ad_work = work\<rparr>\<rparr>)"

definition chm_crypto_new :: "('k, 'c) dc_env \<Rightarrow> crypto_alg \<Rightarrow> crypto_alg \<Rightarrow> 'c chm_crypto" where
  "chm_crypto_new env cipher digest =
     (let work = buf_alloc (cv_junk (de_chm env)) 0 0; none = \<lparr>cc_mode = CIPHER_UNDEF, cc_ctx = None\<rparr> in
      \<lparr>ck_cipher = cipher, ck_digest = digest,
       ck_encrypt = \<lparr>cs_cipher = none, cs_hmac = None, cs_pid = pid_send_init SHORT_FORM, cs_work = work, cs_drawn = 0\<rparr>,
       ck_decrypt = \<lparr>cr_cipher = none, cr_hmac = None, cr_pid = de_recv_none env, cr_work = work\<rparr>\<rparr>)"

definition dc_object_new :: "('k, 'c) dc_env \<Rightarrow> dc_context \<Rightarrow> u32 \<Rightarrow> ('k, 'c) dc_object" where
  "dc_object_new env ctx key_id =
     (case ctx of
        AeadCryptoContext cipher _ \<Rightarrow> AeadCrypto (aead_crypto_new env cipher)
      | CryptoContextCHM cipher digest _ \<Rightarrow> CryptoCHM (chm_crypto_new env cipher digest))"

definition dc_object_encrypt ::
  "('k, 'c) dc_env \<Rightarrow> byte list option \<Rightarrow> int \<Rightarrow> buf \<Rightarrow> ('k, 'c) dc_object \<Rightarrow> (buf \<times> bool) res \<times> ('k, 'c) dc_object" where
  "dc_object_encrypt env op32 now b dc =
     (case dc of
        AeadCrypto c \<Rightarrow> (let (r, e) = aead_encrypt (de_aead env) op32 now b (ac_e c) in (r, AeadCrypto (c\<lparr>ac_e := e\<rparr>)))
      | CryptoCHM c \<Rightarrow>
          (let (r, e) = chm_obj_encrypt (de_chm env) op32 now b (ck_encrypt c) in (r, CryptoCHM (c\<lparr>ck_encrypt := e\<rparr>))))"

definition dc_object_decrypt ::
  "('k, 'c) dc_env \<Rightarrow> byte list option \<Rightarrow> int \<Rightarrow> buf \<Rightarrow> ('k, 'c) dc_object
   \<Rightarrow> (error_type \<times> buf) res \<times> ('k, 'c) dc_object" where
  "dc_object_decrypt env op32 now b dc =
     (case dc of
        AeadCrypto c \<Rightarrow> (let (r, d) = aead_decrypt (de_aead env) op32 now b (ac_d c) in (r, AeadCrypto (c\<lparr>ac_d := d\<rparr>)))
      | CryptoCHM c \<Rightarrow>
          (let (r, d) = chm_obj_decrypt (de_chm env) op32 now b (ck_decrypt c) in (r, CryptoCHM (c\<lparr>ck_decrypt := d\<rparr>))))"

definition dc_object_ops :: "('k, 'c) dc_env \<Rightarrow> ('k, 'c) dc_object dc_ops" where
  "dc_object_ops env =
     \<lparr>dc_encrypt = dc_object_encrypt env,
      dc_decrypt = dc_object_decrypt env,
      dc_defined = (\<lambda>dc. case dc of AeadCrypto c \<Rightarrow> dc_aead_defined (ac_cipher c)
                                  | CryptoCHM c \<Rightarrow> dc_chm_defined (ck_cipher c) (ck_digest c)),
      dc_init_cipher = (\<lambda>ek dk dc. case dc of
          AeadCrypto c \<Rightarrow> map_prod id AeadCrypto (aead_init_cipher (de_aead env) ek dk c)
        | CryptoCHM c \<Rightarrow> map_prod id CryptoCHM (chm_init_cipher (cv_api (de_chm env)) ek dk c)),
      dc_init_hmac = (\<lambda>ek dk dc. case dc of
          AeadCrypto c \<Rightarrow> map_prod id AeadCrypto (aead_init_hmac ek dk c)
        | CryptoCHM c \<Rightarrow> map_prod id CryptoCHM (chm_init_hmac (de_hmac env) ek dk c)),
      dc_init_pid = (\<lambda>sf rm rf name un stats dc. case dc of
          AeadCrypto c \<Rightarrow> AeadCrypto (aead_init_pid sf rm rf name un stats c)
        | CryptoCHM c \<Rightarrow> CryptoCHM (chm_init_pid sf rm rf name un stats c)),
      dc_init_remote_peer_id = (\<lambda>_ dc. dc),
      dc_consider_compression = (\<lambda>_ _. True),
      dc_rekey = (\<lambda>_ dc. dc),
      dc_explicit_exit_notify = (\<lambda>dc. dc),
      dc_new_obj = dc_object_new env\<rparr>"


section \<open>The two ends of a key\<close>

definition dc_paired ::
  "('k, 'c) dc_env \<Rightarrow> ('k2, 'c2) dc_env \<Rightarrow> ('k, 'c) dc_object \<Rightarrow> ('k2, 'c2) dc_object \<Rightarrow> bool" where
  "dc_paired env env' s r =
     (case (s, r) of
        (AeadCrypto c, AeadCrypto d) \<Rightarrow> aead_paired (de_aead env) (de_aead env') (ac_e c) (ac_d d)
      | (CryptoCHM c, CryptoCHM d) \<Rightarrow> chm_paired (de_chm env) (de_chm env') (ck_encrypt c) (ck_decrypt d)
      | _ \<Rightarrow> False)"

text \<open>Room for either class; \<open>dc_left\<close> packets may still be sent.\<close>

definition dc_sendable :: "('k, 'c) dc_env \<Rightarrow> ('k2, 'c2) dc_env \<Rightarrow> byte list option \<Rightarrow> buf \<Rightarrow> bool" where
  "dc_sendable env env' op32 b \<longleftrightarrow> aead_sendable (de_aead env) (de_aead env') op32 b
     \<and> chm_sendable (de_chm env) (de_chm env') op32 b"

definition dc_left :: "('k, 'c) dc_object \<Rightarrow> nat" where
  "dc_left s = (case s of AeadCrypto c \<Rightarrow> aead_left (ac_e c) | CryptoCHM c \<Rightarrow> chm_left (ck_encrypt c))"

lemma dc_transmit:
  assumes "dc_paired env env' s r" "dc_sendable env env' op32 b" "0 < dc_left s"
  shows "\<exists>b' warn s'. dc_object_encrypt env op32 now b s = (Inr (b', warn), s') \<and> dc_left s \<le> Suc (dc_left s')
    \<and> dc_paired env env' s' r \<and> arrives b' b' \<and> 4 \<le> b_offset b'
    \<and> (\<forall>now' rb. arrives rb b' \<longrightarrow> (\<exists>b'' r'. dc_object_decrypt env' op32 now' rb r = (Inr (SUCCESS, b''), r') \<and> buf_wf b''
        \<and> contents b'' = contents b \<and> dc_paired env env' s' r'))"
proof (cases s)
  case (AeadCrypto c)
  then obtain d where d: "r = AeadCrypto d" "aead_paired (de_aead env) (de_aead env') (ac_e c) (ac_d d)"
    using assms(1) by (cases r) (auto simp: dc_paired_def)
  have "aead_sendable (de_aead env) (de_aead env') op32 b" "0 < aead_left (ac_e c)"
    using assms(2,3) AeadCrypto by (auto simp: dc_sendable_def dc_left_def)
  from aead_transmit [OF d(2) this, of now]
  obtain b' warn e where e: "aead_encrypt (de_aead env) op32 now b (ac_e c) = (Inr (b', warn), e)"
    "aead_left (ac_e c) \<le> Suc (aead_left e)" "aead_paired (de_aead env) (de_aead env') e (ac_d d)" "arrives b' b'" "4 \<le> b_offset b'"
    "\<forall>now' rb. arrives rb b' \<longrightarrow> (\<exists>b'' r'. aead_decrypt (de_aead env') op32 now' rb (ac_d d) = (Inr (SUCCESS, b''), r')
        \<and> buf_wf b'' \<and> contents b'' = contents b \<and> aead_paired (de_aead env) (de_aead env') e r')"
    by blast
  have "\<exists>b'' r'. dc_object_decrypt env' op32 now' rb r = (Inr (SUCCESS, b''), r') \<and> buf_wf b''
      \<and> contents b'' = contents b \<and> dc_paired env env' (AeadCrypto (c\<lparr>ac_e := e\<rparr>)) r'" if a: "arrives rb b'" for now' rb
  proof -
    obtain b'' r' where "aead_decrypt (de_aead env') op32 now' rb (ac_d d) = (Inr (SUCCESS, b''), r')"
        "buf_wf b''" "contents b'' = contents b" "aead_paired (de_aead env) (de_aead env') e r'"
      using e(6) a by blast
    then show ?thesis using d(1) by (simp add: dc_object_decrypt_def dc_paired_def)
  qed
  then show ?thesis using e(1-5) AeadCrypto d(1) by (simp add: dc_object_encrypt_def dc_paired_def dc_left_def)
next
  case (CryptoCHM c)
  then obtain d where d: "r = CryptoCHM d" "chm_paired (de_chm env) (de_chm env') (ck_encrypt c) (ck_decrypt d)"
    using assms(1) by (cases r) (auto simp: dc_paired_def)
  have "chm_sendable (de_chm env) (de_chm env') op32 b" "0 < chm_left (ck_encrypt c)"
    using assms(2,3) CryptoCHM by (auto simp: dc_sendable_def dc_left_def)
  from chm_transmit [OF d(2) this, of now]
  obtain b' warn e where e: "chm_obj_encrypt (de_chm env) op32 now b (ck_encrypt c) = (Inr (b', warn), e)"
    "chm_left (ck_encrypt c) \<le> Suc (chm_left e)" "chm_paired (de_chm env) (de_chm env') e (ck_decrypt d)" "arrives b' b'" "4 \<le> b_offset b'"
    "\<forall>now' rb. arrives rb b' \<longrightarrow> (\<exists>b'' r'. chm_obj_decrypt (de_chm env') op32 now' rb (ck_decrypt d) = (Inr (SUCCESS, b''), r')
        \<and> buf_wf b'' \<and> contents b'' = contents b \<and> chm_paired (de_chm env) (de_chm env') e r')"
    by blast
  have "\<exists>b'' r'. dc_object_decrypt env' op32 now' rb r = (Inr (SUCCESS, b''), r') \<and> buf_wf b''
      \<and> contents b'' = contents b \<and> dc_paired env env' (CryptoCHM (c\<lparr>ck_encrypt := e\<rparr>)) r'" if a: "arrives rb b'" for now' rb
  proof -
    obtain b'' r' where "chm_obj_decrypt (de_chm env') op32 now' rb (ck_decrypt d) = (Inr (SUCCESS, b''), r')"
        "buf_wf b''" "contents b'' = contents b" "chm_paired (de_chm env) (de_chm env') e r'"
      using e(6) a by blast
    then show ?thesis using d(1) by (simp add: dc_object_decrypt_def dc_paired_def)
  qed
  then show ?thesis using e(1-5) CryptoCHM d(1) by (simp add: dc_object_encrypt_def dc_paired_def dc_left_def)
qed

section \<open>Packets of a key\<close>

definition packet_op :: "'dc kpar \<Rightarrow> byte list option" where
  "packet_op p = (if kp_enable_op32 p then Some (be32 (op32_compose DATA_V2 (kv_key_id p) (kp_remote_peer_id p))) else None)"

definition packet_head :: "'dc kpar \<Rightarrow> byte list" where
  "packet_head p = (case packet_op p of Some h \<Rightarrow> h | None \<Rightarrow> [ucast (op_compose DATA_V1 (kv_key_id p))])"

lemma length_packet_head: "length (packet_head p) = (if kp_enable_op32 p then 4 else 1)"
  by (simp add: packet_head_def packet_op_def)

text \<open>The receiver finds the head as it was written.\<close>

lemma packet_head_byte:
  assumes "kv_key_id p < 8"
  shows "op_head_size (ucast (hd (packet_head p))) = length (packet_head p)"
proof -
  let ?opc = "if kp_enable_op32 p then DATA_V2 else DATA_V1"
  have "hd (packet_head p) = ucast (op_compose ?opc (kv_key_id p))"
    by (simp add: packet_head_def packet_op_def be32_op32)
  moreover have "ucast (ucast (op_compose ?opc (kv_key_id p)) :: byte) = op_compose ?opc (kv_key_id p)"
    using op_compose_extract(3) [OF _ assms, of ?opc] by (simp add: op_byte_widen)
  moreover have "opcode_extract (op_compose ?opc (kv_key_id p)) = ?opc"
    using op_compose_extract(1) [OF _ assms, of ?opc] by simp
  ultimately show ?thesis by (simp add: op_head_size_def length_packet_head)
qed

lemma head_found:
  assumes "buf_wf rb" "b_owned rb" "contents rb = packet_head p @ xs" "kv_key_id p < 8"
  shows "\<exists>op b'. buf_index 0 rb = Inr op \<and> op_head_size (ucast op) = length (packet_head p)
    \<and> buf_advance (length (packet_head p)) rb = Inr b' \<and> buf_wf b' \<and> b_owned b' \<and> contents b' = xs
    \<and> (if length (packet_head p) = OP_SIZE_V2 then Some (take 4 (drop (b_offset rb) (b_mem rb))) else None) = packet_op p"
proof -
  have ne: "packet_head p \<noteq> []" using length_packet_head [of p] by (auto split: if_splits)
  have s: "b_size rb = length (packet_head p) + length xs" using length_contents [OF assms(1)] assms(3) by simp
  have "buf_index 0 rb = Inr (hd (packet_head p))"
    by (rule index_front [OF assms(1), of _ "tl (packet_head p) @ xs"]) (use assms(3) ne in simp)
  moreover obtain b' where b': "buf_advance (length (packet_head p)) rb = Inr b'" using s by (simp add: buf_advance_def)
  moreover from advance_Inr [OF b' assms(1)] have "buf_wf b' \<and> contents b' = xs" using assms(3) by simp
  moreover have "b_owned b'" using b' assms(2) by (auto simp: buf_advance_def split: if_splits)
  moreover have "(if length (packet_head p) = OP_SIZE_V2 then Some (take 4 (drop (b_offset rb) (b_mem rb))) else None) = packet_op p"
  proof (cases "kp_enable_op32 p")
    case True
    then have l: "length (packet_head p) = 4" by (simp add: length_packet_head)
    have "take 4 (contents rb) = take 4 (drop (b_offset rb) (b_mem rb))" using s l by (simp add: contents_def)
    moreover have "take 4 (contents rb) = packet_head p" using assms(3) l by simp
    ultimately show ?thesis using True l by (simp add: packet_head_def packet_op_def)
  qed (simp add: length_packet_head packet_op_def)
  ultimately show ?thesis using packet_head_byte [OF assms(4)] by blast
qed

lemma head_prepended:
  assumes "buf_wf b" "b_owned b" "4 \<le> b_offset b"
  shows "\<exists>b'. (case packet_op p of Some op \<Rightarrow> buf_prepend op b
      | None \<Rightarrow> buf_push_front (ucast (op_compose DATA_V1 (kv_key_id p))) b) = Inr b'
    \<and> buf_wf b' \<and> b_owned b' \<and> contents b' = packet_head p @ contents b"
proof -
  have "length (packet_head p) \<le> b_offset b" using assms(3) by (simp add: length_packet_head)
  then obtain b' where p: "buf_prepend (packet_head p) b = Inr b'" using prepend_ok_iff [of "packet_head p" b] by (auto simp: ok_def)
  have "0 < b_offset b" using assms(3) by simp
  then have "(case packet_op p of Some op \<Rightarrow> buf_prepend op b
      | None \<Rightarrow> buf_push_front (ucast (op_compose DATA_V1 (kv_key_id p))) b) = buf_prepend (packet_head p) b"
    by (cases "packet_op p") (simp_all add: packet_head_def push_front_prepend)
  then show ?thesis using p prepend_Inr [OF p assms(1)] assms(2) by auto
qed

text \<open>The segment size is fixed in place.\<close>

lemma length_do_mssfix [simp]: "length (do_mssfix m n t) = length t"
  by (simp add: do_mssfix_fold length_fold_fix)

lemma length_mssfix [simp]: "length (mssfix m xs) = length xs"
  by (auto simp: mssfix_def Let_def)

definition mss_fixed :: "u32 \<Rightarrow> byte list \<Rightarrow> byte list" where
  "mss_fixed mss xs = (if mss > 0 then mssfix (sint mss) xs else xs)"

lemma maybe_mssfix_contents:
  assumes "buf_wf b"
  shows "buf_wf (maybe_mssfix k b)" "contents (maybe_mssfix k b) = mss_fixed (ps_mss_inter (kp_sh (k_par k))) (contents b)"
proof -
  have l: "length (mssfix m (contents b)) = b_size b" for m using assms by simp
  have "b_offset b + b_size b \<le> length (b_mem b)" using assms by (auto simp: buf_wf_def)
  then show "buf_wf (maybe_mssfix k b)" "contents (maybe_mssfix k b) = mss_fixed (ps_mss_inter (kp_sh (k_par k))) (contents b)"
    using assms l
    by (auto simp: maybe_mssfix_def mss_fixed_def buf_mssfix_def buf_wf_def contents_def blit_def min_def Let_def)
qed

text \<open>What the data limits leave alone.\<close>

definition data_view where
  "data_view p = (kp_crypto p, kp_compress p, kp_comp_state p, kp_sh p, kp_crypto_flags p, kp_enable_op32 p,
     kp_remote_peer_id p, kv_key_id p, kv_state p)"

lemma view_updates [simp]: "data_view (set_events c n t p) = data_view p" "data_view (set_event c p) = data_view p"
  "data_view (p\<lparr>kv_limit_fired := b\<rparr>) = data_view p" "data_view (p\<lparr>kv_data_limit := dl\<rparr>) = data_view p"
  "data_view (key_limit_reneg ec ev t p) = data_view p"
  by (simp_all add: set_events_def set_event_def key_limit_reneg_def data_view_def)

lemma view_schedule [simp]:
  "data_view (k_par (schedule_key_limit_renegotiation c now k)) = data_view (k_par k)"
  "k_invalidated (schedule_key_limit_renegotiation c now k) = k_invalidated k"
  by (simp_all add: schedule_key_limit_renegotiation_def Let_def)

lemma view_limit_event [simp]:
  "data_view (k_par (data_limit_event c now st k)) = data_view (k_par k)"
  "k_invalidated (data_limit_event c now st k) = k_invalidated k"
  by (simp_all add: data_limit_event_def Let_def split: option.splits)

lemma view_limit_add:
  "data_view (k_par (data_limit_add c now m n k)) = data_view (k_par k)"
  "k_invalidated (data_limit_add c now m n k) = k_invalidated k"
  by (simp_all add: data_limit_add_def Let_def split: option.splits prod.splits)

lemma data_limit_add_keeps [simp]:
  "kp_crypto (k_par (data_limit_add c now m n k)) = kp_crypto (k_par k)"
  "kp_compress (k_par (data_limit_add c now m n k)) = kp_compress (k_par k)"
  "kp_comp_state (k_par (data_limit_add c now m n k)) = kp_comp_state (k_par k)"
  "kp_sh (k_par (data_limit_add c now m n k)) = kp_sh (k_par k)"
  "kp_crypto_flags (k_par (data_limit_add c now m n k)) = kp_crypto_flags (k_par k)"
  "kp_enable_op32 (k_par (data_limit_add c now m n k)) = kp_enable_op32 (k_par k)"
  "kp_remote_peer_id (k_par (data_limit_add c now m n k)) = kp_remote_peer_id (k_par k)"
  "kv_key_id (k_par (data_limit_add c now m n k)) = kv_key_id (k_par k)"
  "kv_state (k_par (data_limit_add c now m n k)) = kv_state (k_par k)"
  using view_limit_add(1) [of c now m n k] by (simp_all add: data_view_def)

section \<open>From key to key\<close>

definition compressed :: "('ssl, 'dc) proto_env \<Rightarrow> bool \<Rightarrow> ('ssl, 'dc) key \<Rightarrow> buf \<Rightarrow> buf res \<times> comp_state" where
  "compressed env hint k b =
     (case kp_compress (k_par k) of
        None \<Rightarrow> (Inr b, kp_comp_state (k_par k))
      | Some c \<Rightarrow> comp_compress (pe_comp env) c hint b (kp_comp_state (k_par k)))"

text \<open>Both ends have agreed on a method, and their work buffers are sound.\<close>

definition comp_link_ok :: "comp_env \<Rightarrow> 'a kpar \<Rightarrow> 'b kpar \<Rightarrow> bool" where
  "comp_link_ok ce p p' \<longleftrightarrow> kp_compress p' = kp_compress p \<and> lz4_inverse ce \<and> comp_frame_ok ce
     \<and> work_ok (kp_comp_state p) \<and> work_ok (kp_comp_state p')"

lemma packet_ok_mssfix: "packet_ok ce b \<Longrightarrow> packet_ok ce (maybe_mssfix k b)"
  using maybe_mssfix_contents(1) [of b k]
  by (auto simp: packet_ok_def maybe_mssfix_def buf_mssfix_def Let_def)

lemma do_encrypt_eq:
  assumes "compressed env hint k (maybe_mssfix k b) = (Inr b1, st1)" "kp_crypto (k_par k) = Some dc"
    "dc_encrypt (pe_dc env) (packet_op (k_par k)) (key_now k now) b1 dc = (Inr (b2, warn), dc1)"
    "(case packet_op (k_par k) of Some op \<Rightarrow> buf_prepend op b2
        | None \<Rightarrow> buf_push_front (ucast (op_compose DATA_V1 (kv_key_id (k_par k)))) b2) = Inr b3"
  shows "\<exists>k1. do_encrypt env now hint b k = (Inr (warn, b3), k1) \<and> kp_crypto (k_par k1) = Some dc1
    \<and> kv_state (k_par k1) = kv_state (k_par k) \<and> kp_crypto_flags (k_par k1) = kp_crypto_flags (k_par k)
    \<and> k_invalidated k1 = k_invalidated k"
proof -
  define k0 where "k0 = (case kp_compress (k_par k) of None \<Rightarrow> k | Some c \<Rightarrow> k\<lparr>k_par := (k_par k)\<lparr>kp_comp_state := st1\<rparr>\<rparr>)"
  have c: "(case kp_compress (k_par k) of None \<Rightarrow> (Inr (maybe_mssfix k b), k)
      | Some c \<Rightarrow> (case comp_compress (pe_comp env) c hint (maybe_mssfix k b) (kp_comp_state (k_par k)) of
          (r, st) \<Rightarrow> (r, k\<lparr>k_par := (k_par k)\<lparr>kp_comp_state := st\<rparr>\<rparr>))) = (Inr b1, k0)"
    using assms(1) by (auto simp: compressed_def k0_def split: option.splits)
  have k0: "kp_crypto (k_par k0) = Some dc" "kp_sh (k_par k0) = kp_sh (k_par k)" "kp_enable_op32 (k_par k0) = kp_enable_op32 (k_par k)"
    "kp_remote_peer_id (k_par k0) = kp_remote_peer_id (k_par k)" "kv_key_id (k_par k0) = kv_key_id (k_par k)"
    "kv_state (k_par k0) = kv_state (k_par k)" "kp_crypto_flags (k_par k0) = kp_crypto_flags (k_par k)"
    "k_invalidated k0 = k_invalidated k"
    using assms(2) by (simp_all add: k0_def split: option.split)
  let ?k = "data_limit_add (pe_ev env) now Encrypt (of_nat (b_size b1)) k0"
  have now: "key_now ?k now = key_now k now" by (simp add: key_now_def k0(2))
  have op: "(if kp_enable_op32 (k_par k0) then Some (be32 (op32_compose DATA_V2 (kv_key_id (k_par k)) (kp_remote_peer_id (k_par k0)))) else None)
      = packet_op (k_par k)"
    by (simp add: packet_op_def k0)
  have "do_encrypt env now hint b k = (Inr (warn, b3), ?k\<lparr>k_par := (k_par ?k)\<lparr>kp_crypto := Some dc1\<rparr>\<rparr>)"
    unfolding do_encrypt_def
    by (simp only: c Let_def prod.case sum.case now data_limit_add_keeps k0(1,5) option.case op assms(3,4) bindE_simps)
  then show ?thesis using k0 by (simp add: view_limit_add)
qed

lemma do_decrypt_eq:
  assumes "buf_wf rb" "b_owned rb" "contents rb = packet_head p @ xs" "kv_key_id p < 8" "kp_crypto (k_par k) = Some dc"
    "\<And>b. buf_wf b \<Longrightarrow> b_owned b \<Longrightarrow> contents b = xs \<Longrightarrow>
       \<exists>b2 dc1. dc_decrypt (pe_dc env) (packet_op p) (key_now k now) b dc = (Inr (SUCCESS, b2), dc1) \<and> buf_wf b2 \<and> contents b2 = ys \<and> Q dc1"
    "\<And>b. buf_wf b \<Longrightarrow> contents b = ys \<Longrightarrow> kp_compress (k_par k) = Some c \<Longrightarrow>
       \<exists>b2 st. comp_decompress (pe_comp env) c b (kp_comp_state (k_par k)) = (Inr b2, st) \<and> buf_wf b2 \<and> contents b2 = zs"
    "kp_compress (k_par k) = None \<Longrightarrow> zs = ys" "\<And>c'. kp_compress (k_par k) = Some c' \<Longrightarrow> c' = c"
  shows "\<exists>b2 k1 dc1. do_decrypt env now rb k = (Inr b2, k1) \<and> contents b2 = mss_fixed (ps_mss_inter (kp_sh (k_par k))) zs
    \<and> kp_crypto (k_par k1) = Some dc1 \<and> Q dc1 \<and> kv_state (k_par k1) = kv_state (k_par k)
    \<and> kp_crypto_flags (k_par k1) = kp_crypto_flags (k_par k) \<and> k_invalidated k1 = k_invalidated k"
proof -
  obtain op b where h: "buf_index 0 rb = Inr op" "op_head_size (ucast op) = length (packet_head p)"
    "buf_advance (length (packet_head p)) rb = Inr b" "buf_wf b" "b_owned b" "contents b = xs"
    "(if length (packet_head p) = OP_SIZE_V2 then Some (take 4 (drop (b_offset rb) (b_mem rb))) else None) = packet_op p"
    using head_found [OF assms(1-4)] by blast
  obtain b2 dc1 where d: "dc_decrypt (pe_dc env) (packet_op p) (key_now k now) b dc = (Inr (SUCCESS, b2), dc1)" "buf_wf b2"
    "contents b2 = ys" "Q dc1"
    using assms(6) [OF h(4-6)] by blast
  let ?k0 = "k\<lparr>k_par := (k_par k)\<lparr>kp_crypto := Some dc1\<rparr>\<rparr>"
  let ?k = "data_limit_add (pe_ev env) now Decrypt (of_nat (b_size b2)) ?k0"
  obtain b3 k3 where c: "(case kp_compress (k_par ?k) of None \<Rightarrow> (Inr b2, ?k)
      | Some c \<Rightarrow> (let (r, st) = comp_decompress (pe_comp env) c b2 (kp_comp_state (k_par ?k))
                   in (r, ?k\<lparr>k_par := (k_par ?k)\<lparr>kp_comp_state := st\<rparr>\<rparr>))) = (Inr b3, k3)"
    and b3: "buf_wf b3" "contents b3 = zs" and k3: "kp_crypto (k_par k3) = Some dc1" "kp_sh (k_par k3) = kp_sh (k_par k)"
      "kv_state (k_par k3) = kv_state (k_par k)" "kp_crypto_flags (k_par k3) = kp_crypto_flags (k_par k)" "k_invalidated k3 = k_invalidated k"
  proof (cases "kp_compress (k_par k)")
    case None
    then show ?thesis using that d(2,3) assms(8) by (simp add: view_limit_add)
  next
    case (Some c')
    with assms(9) have c': "kp_compress (k_par k) = Some c" by blast
    from assms(7) [OF d(2,3) c'] obtain b3 st where "comp_decompress (pe_comp env) c b2 (kp_comp_state (k_par k)) = (Inr b3, st)"
      "buf_wf b3" "contents b3 = zs" by blast
    then show ?thesis using that c' by (simp add: view_limit_add)
  qed
  have "do_decrypt env now rb k = (Inr (maybe_mssfix k3 b3), k3)"
    using h(7) c by (simp add: do_decrypt_def h(1-3) Let_def assms(5) d(1))
  then show ?thesis
    using maybe_mssfix_contents(2) [OF b3(1), of k3] b3(2) k3 d(4) by (auto simp: k3(2))
qed

locale key_channel = data_channel "dc_encrypt ops" "dc_decrypt ops'" paired sendable left
  for ops :: "'s dc_ops" and ops' :: "'r dc_ops" and paired :: "'s \<Rightarrow> 'r \<Rightarrow> bool" and sendable and left
begin

lemma key_transmit:
  fixes env :: "('ssl, 's) proto_env" and env' :: "('ssl2, 'r) proto_env"
  assumes "pe_dc env = ops" "pe_dc env' = ops'" "pe_comp env' = pe_comp env"
    "data_ready k" "data_ready k'" "kp_crypto (k_par k) = Some s" "kp_crypto (k_par k') = Some r"
    "paired s r" "0 < left s" "kv_key_id (k_par k) < 8" "comp_link_ok (pe_comp env) (k_par k) (k_par k')"
    "packet_ok (pe_comp env) b" "compressed env True k (maybe_mssfix k b) = (Inr b1, st1)"
    "cm_stats st1 = cm_stats (kp_comp_state (k_par k))" "sendable (packet_op (k_par k)) b1"
  shows "\<exists>b' k1 s1. key_encrypt env now b k = (Inr b', k1) \<and> data_ready k1 \<and> kp_crypto (k_par k1) = Some s1
    \<and> left s \<le> Suc (left s1) \<and> paired s1 r \<and> arrives b' b'
    \<and> (\<forall>now' rb. arrives rb b' \<longrightarrow> (\<exists>b'' k2 r1. key_decrypt env' now' rb k' = (Inr b'', k2)
         \<and> contents b'' = mss_fixed (ps_mss_inter (kp_sh (k_par k'))) (mss_fixed (ps_mss_inter (kp_sh (k_par k))) (contents b))
         \<and> data_ready k2 \<and> kp_crypto (k_par k2) = Some r1 \<and> paired s1 r1))"
proof -
  let ?b = "maybe_mssfix k b" and ?op = "packet_op (k_par k)"
  let ?c = "mss_fixed (ps_mss_inter (kp_sh (k_par k))) (contents b)"
  have wf: "buf_wf b" using assms(12) by (simp add: packet_ok_def)
  have mss: "packet_ok (pe_comp env) ?b" "contents ?b = ?c"
    using packet_ok_mssfix [OF assms(12)] maybe_mssfix_contents(2) [OF wf] by auto
  obtain b2 warn s1 where e: "dc_encrypt ops ?op (key_now k now) b1 s = (Inr (b2, warn), s1)" "left s \<le> Suc (left s1)" "paired s1 r"
    "arrives b2 b2" "4 \<le> b_offset b2"
    "\<And>now' rb. arrives rb b2 \<Longrightarrow> \<exists>b'' r'. dc_decrypt ops' ?op now' rb r = (Inr (SUCCESS, b''), r') \<and> buf_wf b''
           \<and> contents b'' = contents b1 \<and> paired s1 r'"
    using transmit [OF assms(8,15,9), of "key_now k now"] by blast
  obtain b3 where b3: "(case ?op of Some op \<Rightarrow> buf_prepend op b2
        | None \<Rightarrow> buf_push_front (ucast (op_compose DATA_V1 (kv_key_id (k_par k)))) b2) = Inr b3"
    "buf_wf b3" "b_owned b3" "contents b3 = packet_head (k_par k) @ contents b2"
    using head_prepended [of b2 "k_par k"] e(4,5) by (auto simp: arrives_def)
  obtain k1 where k1: "do_encrypt env now True b k = (Inr (warn, b3), k1)" "kp_crypto (k_par k1) = Some s1"
    "kv_state (k_par k1) = kv_state (k_par k)" "kp_crypto_flags (k_par k1) = kp_crypto_flags (k_par k)" "k_invalidated k1 = k_invalidated k"
    using do_encrypt_eq [OF assms(13,6) _ b3(1)] e(1) assms(1) by blast
  let ?k1 = "if warn then schedule_key_limit_renegotiation (pe_ev env) now k1 else k1"
  have enc: "key_encrypt env now b k = (Inr b3, ?k1)" using assms(4) k1(1) by (simp add: key_encrypt_def)
  have "data_view (k_par ?k1) = data_view (k_par k1)" "k_invalidated ?k1 = k_invalidated k1" by simp_all
  then have r1: "data_ready ?k1" "kp_crypto (k_par ?k1) = Some s1"
    using assms(4) k1 by (simp_all add: data_ready_def data_view_def)
  have "\<exists>b'' k2 r1. key_decrypt env' now' rb k' = (Inr b'', k2)
      \<and> contents b'' = mss_fixed (ps_mss_inter (kp_sh (k_par k'))) ?c \<and> data_ready k2
      \<and> kp_crypto (k_par k2) = Some r1 \<and> paired s1 r1" if "arrives rb b3" for now' rb
  proof -
    have rb: "buf_wf rb" "b_owned rb" "contents rb = packet_head (k_par k) @ contents b2"
      using that b3(4) by (auto simp: arrives_def)
    have d: "\<exists>b5 dc1. dc_decrypt (pe_dc env') ?op (key_now k' now') b4 r = (Inr (SUCCESS, b5), dc1) \<and> buf_wf b5
        \<and> contents b5 = contents b1 \<and> paired s1 dc1" if "buf_wf b4" "b_owned b4" "contents b4 = contents b2" for b4
      using e(6) [of b4 "key_now k' now'"] that assms(2) by (auto simp: arrives_def)
    have c: "\<exists>b5 st. comp_decompress (pe_comp env') c b4 (kp_comp_state (k_par k')) = (Inr b5, st) \<and> buf_wf b5 \<and> contents b5 = ?c"
      if "buf_wf b4" "contents b4 = contents b1" "kp_compress (k_par k') = Some c" for b4 c
    proof -
      have "kp_compress (k_par k) = Some c" using assms(11) that(3) by (simp add: comp_link_ok_def)
      then have "comp_compress (pe_comp env) c True ?b (kp_comp_state (k_par k)) = (Inr b1, st1)"
        using assms(13) by (simp add: compressed_def)
      moreover have "lz4_inverse (pe_comp env)" "comp_frame_ok (pe_comp env)" "work_ok (kp_comp_state (k_par k))"
        "work_ok (kp_comp_state (k_par k'))" using assms(11) by (auto simp: comp_link_ok_def)
      ultimately show ?thesis
        using compress_arrives [of "pe_comp env"] mss assms(3,14) that(1,2) by metis
    qed
    have n: "?c = contents b1" if "kp_compress (k_par k') = None"
      using assms(11,13) that mss(2) by (simp add: compressed_def comp_link_ok_def)
    have "\<exists>b2 k1 dc1. do_decrypt env' now' rb k' = (Inr b2, k1) \<and> contents b2 = mss_fixed (ps_mss_inter (kp_sh (k_par k'))) ?c
      \<and> kp_crypto (k_par k1) = Some dc1 \<and> paired s1 dc1 \<and> kv_state (k_par k1) = kv_state (k_par k')
      \<and> kp_crypto_flags (k_par k1) = kp_crypto_flags (k_par k') \<and> k_invalidated k1 = k_invalidated k'"
      by (rule do_decrypt_eq [OF rb assms(10,7) d c n, where c = "the (kp_compress (k_par k'))"]) auto
    then obtain b5 k2 r1 where dd: "do_decrypt env' now' rb k' = (Inr b5, k2)" "contents b5 = mss_fixed (ps_mss_inter (kp_sh (k_par k'))) ?c"
      "kp_crypto (k_par k2) = Some r1" "paired s1 r1" "kv_state (k_par k2) = kv_state (k_par k')"
      "kp_crypto_flags (k_par k2) = kp_crypto_flags (k_par k')" "k_invalidated k2 = k_invalidated k'"
      by blast
    then have "key_decrypt env' now' rb k' = (Inr b5, k2)" "data_ready k2"
      using assms(5) by (simp_all add: key_decrypt_def data_ready_def)
    then show ?thesis using dd(2-4) by blast
  qed
  moreover have "arrives b3 b3" using b3(2,3) by (simp add: arrives_def)
  ultimately show ?thesis using enc r1 e(2,3) by blast
qed

end

interpretation kc: key_channel "dc_object_ops e" "dc_object_ops e'" "dc_paired e e'" "dc_sendable e e'" dc_left for e e'
  by unfold_locales (use dc_transmit in \<open>simp add: dc_object_ops_def\<close>)

section \<open>Properties\<close>

text \<open>
  C11. A packet given to an active key arrives: what \<open>encrypt\<close> makes of it (segment size fixed,
  compressed by any of the methods, encrypted by either class of data channel, behind a head of one
  or four bytes) \<open>decrypt\<close> of the peer's key, from whatever buffer the bytes were received in and at
  any time, turns back into the packet, its segment size fixed for the other direction as well. Both
  keys stay ready, one packet ID is used up, and their data channels are paired as before.
\<close>

theorem data_packet_delivered:
  assumes "pe_dc env = dc_object_ops e" "pe_dc env' = dc_object_ops e'" "pe_comp env' = pe_comp env"
    "data_ready k" "data_ready k'" "kp_crypto (k_par k) = Some s" "kp_crypto (k_par k') = Some r"
    "dc_paired e e' s r" "0 < dc_left s" "kv_key_id (k_par k) < 8" "comp_link_ok (pe_comp env) (k_par k) (k_par k')"
    "packet_ok (pe_comp env) b" "compressed env True k (maybe_mssfix k b) = (Inr b1, st1)"
    "cm_stats st1 = cm_stats (kp_comp_state (k_par k))" "dc_sendable e e' (packet_op (k_par k)) b1"
  shows "\<exists>b' k1 s1. key_encrypt env now b k = (Inr b', k1) \<and> data_ready k1 \<and> kp_crypto (k_par k1) = Some s1
    \<and> dc_left s \<le> Suc (dc_left s1) \<and> dc_paired e e' s1 r \<and> arrives b' b'
    \<and> (\<forall>now' rb. arrives rb b' \<longrightarrow> (\<exists>b'' k2 r1. key_decrypt env' now' rb k' = (Inr b'', k2)
         \<and> contents b'' = mss_fixed (ps_mss_inter (kp_sh (k_par k'))) (mss_fixed (ps_mss_inter (kp_sh (k_par k))) (contents b))
         \<and> data_ready k2 \<and> kp_crypto (k_par k2) = Some r1 \<and> dc_paired e e' s1 r1))"
  by (rule kc.key_transmit [OF assms])

definition plain_dc :: "(byte option, bool \<times> byte) dc_env" where
  "plain_dc = \<lparr>de_aead = xor_env, de_aead_none = None, de_chm = shift_env, de_hmac = (\<lambda>_ _ x. x),
     de_recv_none = pid_recv_init 0 SHORT_FORM '''' 0 []\<rparr>"

text \<open>An active key with the data channel \<open>dc\<close> and the compressor \<open>c\<close>.\<close>

definition active_key :: "bool \<Rightarrow> compressor option \<Rightarrow> (byte option, bool \<times> byte) dc_object
   \<Rightarrow> (unit, (byte option, bool \<times> byte) dc_object) key" where
  "active_key server c dc =
     (let k = plain_new server zeros_env (dc_object_ops plain_dc)
      in k\<lparr>k_par := (k_par k)\<lparr>kv_state := ACTIVE, kp_crypto := Some dc, kp_crypto_flags := CRYPTO_DEFINED, kp_compress := c\<rparr>\<rparr>)"

lemma key_new_more:
  "kv_key_id (k_par (key_new env now ssl initiator i sh)) = i" "kp_sh (k_par (key_new env now ssl initiator i sh)) = sh"
  "kp_comp_state (k_par (key_new env now ssl initiator i sh)) = \<lparr>cm_work = buf_alloc (pe_junk env) 0 0, cm_stats = []\<rparr>"
  "kp_enable_op32 (k_par (key_new env now ssl initiator i sh)) = ps_enable_op32 sh"
  "k_invalidated (key_new env now ssl initiator i sh) = False"
  by (simp_all add: key_new_def stack_init_def negotiate_event_def set_events_def cache_op32_def)

lemma active_key_fields:
  "data_ready (active_key server c dc)" "kp_crypto (k_par (active_key server c dc)) = Some dc"
  "kp_compress (k_par (active_key server c dc)) = c" "kv_key_id (k_par (active_key server c dc)) = 3"
  "ps_mss_inter (kp_sh (k_par (active_key server c dc))) = 0" "work_ok (kp_comp_state (k_par (active_key server c dc)))"
  "cm_stats (kp_comp_state (k_par (active_key server c dc))) = []" "kp_enable_op32 (k_par (active_key server c dc))"
  by (simp_all add: active_key_def data_ready_def Let_def plain_new_def key_new_more plain_shared_def work_ok_def buf_wf_def
      buf_alloc_def has_flag_def fresh_mem_def plain_fields)

definition tun_packet :: buf where
  "tun_packet = \<lparr>b_mem = replicate 80 0 @ [5, 6, 7, 8] @ replicate 16 0, b_offset = 80, b_size = 4, b_capacity = 100, b_flags = 0,
     b_owned = True\<rparr>"

text \<open>The stub puts a byte in place of the first one, which goes to the end.\<close>

lemma tun_packet_swapped:
  "comp_compress zeros_env (CompressStub True) True tun_packet st =
     (Inr (tun_packet\<lparr>b_mem := replicate 80 0 @ [NO_COMPRESS_SWAP, 6, 7, 8, 5] @ replicate 15 0, b_size := 5\<rparr>), st)"
proof -
  have r: "replicate 16 (0 :: byte) = 0 # replicate 15 0" by (simp add: numeral_eq_Suc)
  show ?thesis
    by (simp add: comp_compress_def tun_packet_def do_swap_def buf_index_def buf_push_back_def buf_remaining_def buf_store_def
        sz_add_def sz_sub_def zeros_env_def r nth_append list_update_append blit_def)
qed

lemma xor_shift_sendable:
  assumes "b \<in> {b. buf_wf b \<and> b_owned b \<and> 72 \<le> b_offset b \<and> b_size b \<le> 20}" "op32_ok op32"
  shows "dc_sendable plain_dc plain_dc op32 b"
  using assms
  by (simp add: dc_sendable_def plain_dc_def aead_sendable_def aead_packet_ok_def chm_sendable_def xor_env_def shift_env_def
      mbed_api_def frame_of_context_def make_context_def recalc_derived_def)

text \<open>For example the packet \<open>5 6 7 8\<close> through the AEAD channel behind the compression stub.\<close>

theorem data_packet_delivered_witness:
  "\<exists>dc :: (byte option, bool \<times> byte) dc_object.
     (let env = plain_env False zeros_env (dc_object_ops plain_dc); env' = plain_env True zeros_env (dc_object_ops plain_dc);
          k = active_key False (Some (CompressStub True)) dc; k' = active_key True (Some (CompressStub True)) dc
      in \<exists>b' k1 b'' k2. key_encrypt env (Time 2048) tun_packet k = (Inr b', k1)
           \<and> key_decrypt env' (Time 9999) b' k' = (Inr b'', k2) \<and> contents b'' = [5, 6, 7, 8] \<and> data_ready k1 \<and> data_ready k2)"
proof -
  define dc :: "(byte option, bool \<times> byte) dc_object" where
    "dc = AeadCrypto \<lparr>ac_cipher = AES_128_GCM, ac_e = xor_send, ac_d = xor_recv\<rparr>"
  let ?ops = "dc_object_ops plain_dc"
  let ?env = "plain_env False zeros_env ?ops" and ?env' = "plain_env True zeros_env ?ops"
  let ?k = "active_key False (Some (CompressStub True)) dc" and ?k' = "active_key True (Some (CompressStub True)) dc"
  have p: "dc_paired plain_dc plain_dc dc dc" using xor_paired by (simp add: dc_paired_def dc_def plain_dc_def)
  have l: "0 < dc_left dc" by (simp add: dc_left_def dc_def aead_left_def xor_send_def pid_send_init_def)
  have mss: "maybe_mssfix k tun_packet = tun_packet" if "k = active_key s c d" for k s c d
    by (simp add: that maybe_mssfix_def active_key_fields)
  let ?b1 = "tun_packet\<lparr>b_mem := replicate 80 0 @ [NO_COMPRESS_SWAP, 6, 7, 8, 5] @ replicate 15 0, b_size := 5\<rparr>"
  have c: "compressed ?env True ?k (maybe_mssfix ?k tun_packet) = (Inr ?b1, kp_comp_state (k_par ?k))"
    by (simp only: mss [OF refl] compressed_def active_key_fields option.case plain_fields tun_packet_swapped)
  have ok: "comp_link_ok (pe_comp ?env) (k_par ?k) (k_par ?k')"
    using zeros_env_ok by (simp add: comp_link_ok_def active_key_fields plain_fields)
  have pk: "packet_ok (pe_comp ?env) tun_packet"
    by (simp add: plain_fields packet_ok_def buf_wf_def tun_packet_def zeros_env_def frame_of_context_def make_context_def recalc_derived_def)
  have "op32_ok (packet_op (k_par ?k))" by (simp add: packet_op_def op32_ok_def)
  then have room: "dc_sendable plain_dc plain_dc (packet_op (k_par ?k)) ?b1"
    by (intro xor_shift_sendable) (simp_all add: tun_packet_def buf_wf_def)
  have "kv_key_id (k_par ?k) < 8" by (simp add: active_key_fields)
  note key = this
  have ce: "pe_comp ?env' = pe_comp ?env" by (simp add: plain_fields)
  note d = data_packet_delivered [OF plain_fields(6) plain_fields(6) ce active_key_fields(1,1,2,2) p l key ok pk c refl room,
      where now = "Time 2048"]
  from d obtain b' k1 where e: "key_encrypt ?env (Time 2048) tun_packet ?k = (Inr b', k1)" "data_ready k1" "arrives b' b'"
    "\<And>now' rb. arrives rb b' \<Longrightarrow> \<exists>b'' k2. key_decrypt ?env' now' rb ?k' = (Inr b'', k2)
         \<and> contents b'' = mss_fixed (ps_mss_inter (kp_sh (k_par ?k'))) (mss_fixed (ps_mss_inter (kp_sh (k_par ?k))) (contents tun_packet))
         \<and> data_ready k2"
    by blast
  have "contents tun_packet = [5, 6, 7, 8]" by (simp add: contents_def tun_packet_def)
  with e(4) [OF e(3), of "Time 9999"]
  have "\<exists>b'' k2. key_decrypt ?env' (Time 9999) b' ?k' = (Inr b'', k2) \<and> contents b'' = [5, 6, 7, 8] \<and> data_ready k2"
    by (simp add: mss_fixed_def active_key_fields)
  then show ?thesis unfolding Let_def using e(1,2) by blast
qed

end
