(* ===== verification/Proto_Context.thy ===== *)
theory Proto_Context
  imports Key_Life
begin

text \<open>
  \<open>ProtoContext\<close> of \<^verbatim>\<open>ssl/proto.hpp\<close>: the session, which owns at most two keys, gives them their IDs,
  takes their events, lets the newer one take over, and watches the keepalive. Its state is the two
  keys, the members the keys share (\<open>po_shared\<close>, lent to a key for the time of a call) and those they
  do not see. The current time is an argument; an operation that may throw returns the exception, if
  any, and the state; \<open>None\<close> is a call that does not return.
\<close>

section \<open>State\<close>

record ('ssl, 'dc) proto =
  po_primary :: "('ssl, 'dc) key option"
  po_secondary :: "('ssl, 'dc) key option"
  po_shared :: proto_shared
  po_upcoming_key_id :: u32
  po_n_key_ids :: u32
  po_keepalive_ping :: duration
  po_keepalive_xmit :: vtime
  po_active_calls :: nat

text \<open>
  What does not change: the settings of the keys, the SSL object a factory makes, the bytes the
  random generator gives for a session ID, \<open>dc_deferred\<close> of \<open>Config\<close>. \<open>po_active_calls\<close> counts the
  calls of the virtual method \<open>active\<close>.
\<close>

record ('ssl, 'dc) session_env =
  se_proto :: "('ssl, 'dc) proto_env"
  se_ssl :: 'ssl
  se_psid :: "byte list"
  se_dc_deferred :: bool

abbreviation (input) se_server :: "('ssl, 'dc) session_env \<Rightarrow> bool" where
  "se_server env \<equiv> pe_server (se_proto env)"

datatype key_slot = Primary | Secondary

fun slot_key :: "key_slot \<Rightarrow> ('ssl, 'dc) proto \<Rightarrow> ('ssl, 'dc) key option" where
  "slot_key Primary p = po_primary p"
| "slot_key Secondary p = po_secondary p"

fun put_key :: "key_slot \<Rightarrow> ('ssl, 'dc) key option \<Rightarrow> ('ssl, 'dc) proto \<Rightarrow> ('ssl, 'dc) proto" where
  "put_key Primary k p = p\<lparr>po_primary := k\<rparr>"
| "put_key Secondary k p = p\<lparr>po_secondary := k\<rparr>"

text \<open>A key works on the shared members: it gets them before a call and hands them back after it.\<close>

definition lend :: "('ssl, 'dc) proto \<Rightarrow> ('ssl, 'dc) key \<Rightarrow> ('ssl, 'dc) key" where
  "lend p k = k\<lparr>k_par := (k_par k)\<lparr>kp_sh := po_shared p\<rparr>\<rparr>"

definition give_back :: "key_slot \<Rightarrow> ('ssl, 'dc) key \<Rightarrow> ('ssl, 'dc) proto \<Rightarrow> ('ssl, 'dc) proto" where
  "give_back s k p = put_key s (Some k) (p\<lparr>po_shared := kp_sh (k_par k)\<rparr>)"

text \<open>A call of a key, when it is there: one that cannot fail, one that may throw, one that may not return.\<close>

definition on_key ::
  "key_slot \<Rightarrow> (('ssl, 'dc) key \<Rightarrow> ('ssl, 'dc) key) \<Rightarrow> ('ssl, 'dc) proto \<Rightarrow> ('ssl, 'dc) proto" where
  "on_key s f p = (case slot_key s p of None \<Rightarrow> p | Some k \<Rightarrow> give_back s (f (lend p k)) p)"

definition try_key ::
  "key_slot \<Rightarrow> (('ssl, 'dc) key \<Rightarrow> 'a res \<times> ('ssl, 'dc) key) \<Rightarrow> ('ssl, 'dc) key \<Rightarrow> ('ssl, 'dc) proto
   \<Rightarrow> 'a res \<times> ('ssl, 'dc) proto" where
  "try_key s f k p = (case f (lend p k) of (r, k) \<Rightarrow> (r, give_back s k p))"

definition run_key ::
  "key_slot \<Rightarrow> (('ssl, 'dc) key \<Rightarrow> ('a res \<times> ('ssl, 'dc) key) option) \<Rightarrow> ('ssl, 'dc) key \<Rightarrow> ('ssl, 'dc) proto
   \<Rightarrow> ('a res \<times> ('ssl, 'dc) proto) option" where
  "run_key s f k p =
     (case f (lend p k) of None \<Rightarrow> None | Some (r, k) \<Rightarrow> Some (r, give_back s k p))"

definition when_key ::
  "key_slot \<Rightarrow> (('ssl, 'dc) key \<Rightarrow> (unit res \<times> ('ssl, 'dc) key) option) \<Rightarrow> ('ssl, 'dc) proto
   \<Rightarrow> (unit res \<times> ('ssl, 'dc) proto) option" where
  "when_key s f p = (case slot_key s p of None \<Rightarrow> Some (Inr (), p) | Some k \<Rightarrow> run_key s f k p)"

definition on_wire :: "(wire \<Rightarrow> wire) \<Rightarrow> ('ssl, 'dc) proto \<Rightarrow> ('ssl, 'dc) proto" where
  "on_wire f p = p\<lparr>po_shared := (po_shared p)\<lparr>ps_wire := f (ps_wire (po_shared p))\<rparr>\<rparr>"

abbreviation (input) proto_wire :: "('ssl, 'dc) proto \<Rightarrow> wire" where "proto_wire p \<equiv> ps_wire (po_shared p)"

definition proto_error :: "error_type \<Rightarrow> ('ssl, 'dc) proto \<Rightarrow> ('ssl, 'dc) proto" where
  "proto_error e = on_wire (\<lambda>w. w\<lparr>cw_stats := cw_stats w @ [e]\<rparr>)"


section \<open>Keys and timers\<close>

definition next_key_id :: "('ssl, 'dc) proto \<Rightarrow> u32 \<times> ('ssl, 'dc) proto" where
  "next_key_id p =
     (let up = (po_upcoming_key_id p + 1) AND KEY_ID_MASK
      in (po_upcoming_key_id p,
          p\<lparr>po_n_key_ids := po_n_key_ids p + 1, po_upcoming_key_id := (if up = 0 then 1 else up)\<rparr>))"

definition make_key ::
  "('ssl, 'dc) session_env \<Rightarrow> vtime \<Rightarrow> key_slot \<Rightarrow> bool \<Rightarrow> ('ssl, 'dc) proto \<Rightarrow> ('ssl, 'dc) proto" where
  "make_key env now s initiator p =
     (let (i, p) = next_key_id p
      in put_key s (Some (key_new (se_proto env) now (se_ssl env) initiator i (po_shared p))) p)"

definition new_secondary_key ::
  "('ssl, 'dc) session_env \<Rightarrow> vtime \<Rightarrow> bool \<Rightarrow> ('ssl, 'dc) proto \<Rightarrow> ('ssl, 'dc) proto" where
  "new_secondary_key env now initiator p = make_key env now Secondary initiator p"

definition proto_rekey ::
  "('ssl, 'dc) session_env \<Rightarrow> key_slot \<Rightarrow> rekey_type \<Rightarrow> ('ssl, 'dc) proto \<Rightarrow> ('ssl, 'dc) proto" where
  "proto_rekey env s ty = on_key s (on_ev (key_rekey (se_proto env) ty))"

definition reset_all :: "('ssl, 'dc) session_env \<Rightarrow> ('ssl, 'dc) proto \<Rightarrow> ('ssl, 'dc) proto" where
  "reset_all env p = (proto_rekey env Primary DEACTIVATE_ALL p)\<lparr>po_primary := None, po_secondary := None\<rparr>"

definition update_last_sent :: "vtime \<Rightarrow> ('ssl, 'dc) proto \<Rightarrow> ('ssl, 'dc) proto" where
  "update_last_sent now p = p\<lparr>po_keepalive_xmit := time_add now (po_keepalive_ping p)\<rparr>"

definition update_last_received :: "vtime \<Rightarrow> ('ssl, 'dc) proto \<Rightarrow> ('ssl, 'dc) proto" where
  "update_last_received now = on_wire (cw_update_last_received now)"

definition keepalive_parms_modified :: "vtime \<Rightarrow> ('ssl, 'dc) proto \<Rightarrow> ('ssl, 'dc) proto" where
  "keepalive_parms_modified now p =
     (let p = update_last_received now p; kx = time_add now (po_keepalive_ping p)
      in if kx < po_keepalive_xmit p then p\<lparr>po_keepalive_xmit := kx\<rparr> else p)"

definition is_keepalive_enabled :: "('ssl, 'dc) proto \<Rightarrow> bool" where
  "is_keepalive_enabled p \<longleftrightarrow> dur_enabled (po_keepalive_ping p) \<or> dur_enabled (cw_keepalive_timeout (proto_wire p))"

text \<open>The two results are \<open>unsigned int\<close>.\<close>

definition disable_keepalive :: "vtime \<Rightarrow> ('ssl, 'dc) proto \<Rightarrow> (u32 \<times> u32) \<times> ('ssl, 'dc) proto" where
  "disable_keepalive now p =
     (let secs = (\<lambda>d. if dur_enabled d then ucast (dur_to_seconds d) else 0)
      in ((secs (po_keepalive_ping p), secs (cw_keepalive_timeout (proto_wire p))),
          keepalive_parms_modified now
            (on_wire (\<lambda>w. w\<lparr>cw_keepalive_timeout := dur_infinite\<rparr>) (p\<lparr>po_keepalive_ping := dur_infinite\<rparr>))))"

text \<open>The slices of the static key that tls-auth uses in the two directions.\<close>

definition tls_auth_slices :: "int \<Rightarrow> static_key \<Rightarrow> (byte list \<times> byte list) res" where
  "tls_auth_slices key_direction key =
     (if key_direction \<ge> 0
      then (let key_dir = (if key_direction \<noteq> 0 then KEY_INVERSE else KEY_NORMAL)
            in bindE (key_slice key (KEY_HMAC OR KEY_ENCRYPT OR key_dir)) (\<lambda>s.
               bindE (key_slice key (KEY_HMAC OR KEY_DECRYPT OR key_dir)) (\<lambda>r. Inr (s, r))))
      else bindE (key_slice key KEY_HMAC) (\<lambda>s. bindE (key_slice key KEY_HMAC) (\<lambda>r. Inr (s, r))))"

text \<open>\<open>reset\<close> in the clear and under tls-auth, whose keyed HMACs are in the environment.\<close>

definition proto_reset :: "('ssl, 'dc) session_env \<Rightarrow> vtime \<Rightarrow> ('ssl, 'dc) proto \<Rightarrow> ('ssl, 'dc) proto" where
  "proto_reset env now p =
     (let p = p\<lparr>po_shared := (po_shared p)\<lparr>ps_dc_deferred := se_dc_deferred env\<rparr>\<rparr>;
          p = (reset_all env p)\<lparr>po_upcoming_key_id := 0\<rparr>;
          p = (if cw_wrap (proto_wire p) = TLS_AUTH
               then on_wire (\<lambda>w. w\<lparr>cw_pid_send := pid_send_init LONG_FORM,
                      cw_pid_recv := pid_recv_init (pe_pid_mode (se_proto env)) LONG_FORM ''SSL-CC'' 0 []\<rparr>) p
               else p);
          p = on_wire (\<lambda>w. w\<lparr>cw_psid_self := psid_randomize (se_psid env), cw_psid_peer := psid_reset\<rparr>) p;
          p = make_key env now Primary (\<not> se_server env) p;
          p = on_wire (\<lambda>w. w\<lparr>cw_keepalive_expire := time_infinite\<rparr>) p
      in update_last_sent now p)"

definition proto_set_protocol :: "protocol \<Rightarrow> ('ssl, 'dc) proto \<Rightarrow> ('ssl, 'dc) proto" where
  "proto_set_protocol pr p =
     on_key Secondary (on_ev (key_set_protocol pr)) (on_key Primary (on_ev (key_set_protocol pr))
       (p\<lparr>po_shared := (po_shared p)\<lparr>ps_protocol := pr\<rparr>\<rparr>))"

definition pre_destroy :: "('ssl, 'dc) session_env \<Rightarrow> ('ssl, 'dc) proto \<Rightarrow> ('ssl, 'dc) proto" where
  "pre_destroy = reset_all"

definition proto_invalidated :: "('ssl, 'dc) proto \<Rightarrow> bool" where
  "proto_invalidated p = (case po_primary p of None \<Rightarrow> False | Some k \<Rightarrow> k_invalidated k)"

definition invalidation_reason :: "('ssl, 'dc) proto \<Rightarrow> error_type option" where
  "invalidation_reason p = map_option k_reason (po_primary p)"

definition disconnect :: "('ssl, 'dc) session_env \<Rightarrow> error_type \<Rightarrow> ('ssl, 'dc) proto \<Rightarrow> ('ssl, 'dc) proto" where
  "disconnect env reason p =
     on_key Secondary (key_invalidate (se_proto env) reason) (on_key Primary (key_invalidate (se_proto env) reason) p)"


section \<open>Starting and renegotiating\<close>

definition proto_start ::
  "('ssl, 'dc) session_env \<Rightarrow> vtime \<Rightarrow> ('ssl, 'dc) proto \<Rightarrow> unit res \<times> ('ssl, 'dc) proto" where
  "proto_start env now p =
     (case po_primary p of
        None \<Rightarrow> (Inl (Proto_error ''start: no primary key''), p)
      | Some k \<Rightarrow>
          (case try_key Primary (key_start (se_proto env)) k p of
             (Inl e, p) \<Rightarrow> (Inl e, p)
           | (Inr _, p) \<Rightarrow> (Inr (), update_last_received now p)))"

definition renegotiate ::
  "('ssl, 'dc) session_env \<Rightarrow> vtime \<Rightarrow> ('ssl, 'dc) proto \<Rightarrow> unit res \<times> ('ssl, 'dc) proto" where
  "renegotiate env now p =
     (let p = new_secondary_key env now True p
      in case po_secondary p of
           None \<Rightarrow> (Inr (), p)
         | Some k \<Rightarrow> try_key Secondary (key_start (se_proto env)) k p)"

definition promote_secondary_to_primary ::
  "('ssl, 'dc) session_env \<Rightarrow> vtime \<Rightarrow> ('ssl, 'dc) proto \<Rightarrow> ('ssl, 'dc) proto" where
  "promote_secondary_to_primary env now p =
     (let p = p\<lparr>po_primary := po_secondary p, po_secondary := po_primary p\<rparr>
      in on_key Secondary (on_ev (prepare_expire (pe_ev (se_proto env)) now KEV_NONE))
           (proto_rekey env Primary PRIMARY_SECONDARY_SWAP p))"


section \<open>Events of the keys\<close>

definition finish_event ::
  "('ssl, 'dc) session_env \<Rightarrow> vtime \<Rightarrow> key_slot \<Rightarrow> unit res \<times> ('ssl, 'dc) proto \<Rightarrow> unit res \<times> ('ssl, 'dc) proto" where
  "finish_event env now s m =
     (case m of
        (Inl e, p) \<Rightarrow> (Inl e, p)
      | (Inr _, p) \<Rightarrow> (Inr (), on_key s (set_next_event_if_unspecified (pe_ev (se_proto env)) now) p))"

definition secondary_valid :: "('ssl, 'dc) proto \<Rightarrow> bool" where
  "secondary_valid p = (case po_secondary p of None \<Rightarrow> False | Some k \<Rightarrow> \<not> k_invalidated k)"

definition primary_event ::
  "('ssl, 'dc) session_env \<Rightarrow> vtime \<Rightarrow> key_event \<Rightarrow> ('ssl, 'dc) proto \<Rightarrow> unit res \<times> ('ssl, 'dc) proto" where
  "primary_event env now ev p =
     (case ev of
        KEV_ACTIVE \<Rightarrow> (let p = proto_rekey env Primary ACTIVATE_PRIMARY p in (Inr (), p\<lparr>po_active_calls := po_active_calls p + 1\<rparr>))
      | KEV_RENEGOTIATE \<Rightarrow> renegotiate env now p
      | KEV_RENEGOTIATE_FORCE \<Rightarrow> renegotiate env now p
      | KEV_EXPIRE \<Rightarrow>
          (Inr (), if secondary_valid p then promote_secondary_to_primary env now p
                   else disconnect env PRIMARY_EXPIRE (proto_error PRIMARY_EXPIRE p))
      | KEV_NEGOTIATE \<Rightarrow> (Inr (), disconnect env HANDSHAKE_TIMEOUT (proto_error HANDSHAKE_TIMEOUT p))
      | _ \<Rightarrow> (Inr (), p))"

definition process_primary_event ::
  "('ssl, 'dc) session_env \<Rightarrow> vtime \<Rightarrow> ('ssl, 'dc) key \<Rightarrow> ('ssl, 'dc) proto \<Rightarrow> unit res \<times> ('ssl, 'dc) proto" where
  "process_primary_event env now k p =
     (let ev = kv_current (k_par k)
      in finish_event env now Primary
           (if ev \<noteq> KEV_NONE then primary_event env now ev (on_key Primary (on_ev reset_event) p) else (Inr (), p)))"

text \<open>The \<open>case\<close> of \<open>KEV_NEGOTIATE\<close> has no \<open>break\<close>: it goes on to renegotiate.\<close>

definition secondary_event ::
  "('ssl, 'dc) session_env \<Rightarrow> vtime \<Rightarrow> key_event \<Rightarrow> ('ssl, 'dc) proto \<Rightarrow> unit res \<times> ('ssl, 'dc) proto" where
  "secondary_event env now ev p =
     (case ev of
        KEV_ACTIVE \<Rightarrow>
          (Inr (), on_key Primary (on_ev (prepare_expire (pe_ev (se_proto env)) now KEV_NONE))
                     (proto_rekey env Secondary NEW_SECONDARY p))
      | KEV_BECOME_PRIMARY \<Rightarrow> (Inr (), if secondary_valid p then promote_secondary_to_primary env now p else p)
      | KEV_EXPIRE \<Rightarrow> (Inr (), (proto_rekey env Secondary DEACTIVATE_SECONDARY p)\<lparr>po_secondary := None\<rparr>)
      | KEV_RENEGOTIATE_QUEUE \<Rightarrow>
          (Inr (), case po_secondary p of
                     None \<Rightarrow> p
                   | Some k \<Rightarrow> on_key Primary (on_ev (key_limit_reneg (pe_ev (se_proto env)) KEV_RENEGOTIATE_FORCE
                                                     (become_primary_time (k_par k)))) p)
      | KEV_NEGOTIATE \<Rightarrow> renegotiate env now (proto_error HANDSHAKE_TIMEOUT p)
      | KEV_PRIMARY_PENDING \<Rightarrow> renegotiate env now p
      | KEV_RENEGOTIATE_FORCE \<Rightarrow> renegotiate env now p
      | _ \<Rightarrow> (Inr (), p))"

definition process_secondary_event ::
  "('ssl, 'dc) session_env \<Rightarrow> vtime \<Rightarrow> ('ssl, 'dc) key \<Rightarrow> ('ssl, 'dc) proto \<Rightarrow> unit res \<times> ('ssl, 'dc) proto" where
  "process_secondary_event env now k p =
     (let ev = kv_current (k_par k)
      in finish_event env now Secondary
           (if ev \<noteq> KEV_NONE then secondary_event env now ev (on_key Secondary (on_ev reset_event) p) else (Inr (), p)))"

text \<open>\<open>event_pending\<close> of the key in a slot, and its event taken when there is one.\<close>

definition slot_events ::
  "('ssl, 'dc) session_env \<Rightarrow> vtime \<Rightarrow> key_slot \<Rightarrow> ('ssl, 'dc) proto \<Rightarrow> bool res \<times> ('ssl, 'dc) proto" where
  "slot_events env now s p =
     (case slot_key s p of
        None \<Rightarrow> (Inr False, p)
      | Some k \<Rightarrow>
          (let (pending, k) = event_pending (key_cb (se_proto env) now) (pe_ev (se_proto env)) now (lend p k);
               p = give_back s k p
           in if pending
              then (case (case s of Primary \<Rightarrow> process_primary_event env now k p
                                  | Secondary \<Rightarrow> process_secondary_event env now k p) of
                      (Inl e, p) \<Rightarrow> (Inl e, p)
                    | (Inr _, p) \<Rightarrow> (Inr True, p))
              else (Inr False, p)))"

definition process_events ::
  "('ssl, 'dc) session_env \<Rightarrow> vtime \<Rightarrow> ('ssl, 'dc) proto \<Rightarrow> bool res \<times> ('ssl, 'dc) proto" where
  "process_events env now p =
     (case slot_events env now Primary p of
        (Inl e, p) \<Rightarrow> (Inl e, p)
      | (Inr w1, p) \<Rightarrow>
          (case slot_events env now Secondary p of
             (Inl e, p) \<Rightarrow> (Inl e, p)
           | (Inr w2, p) \<Rightarrow> (Inr (w1 \<or> w2), p)))"


section \<open>Flushing and housekeeping\<close>

text \<open>One round of the loop of \<open>flush\<close>.\<close>

definition flush_round ::
  "('ssl, 'dc) session_env \<Rightarrow> vtime \<Rightarrow> ('ssl, 'dc) proto \<Rightarrow> (bool res \<times> ('ssl, 'dc) proto) option" where
  "flush_round env now p =
     seq_step (when_key Primary (key_flush (se_proto env) now) p) (\<lambda>_ p.
     seq_step (when_key Secondary (key_flush (se_proto env) now) p) (\<lambda>_ p.
     Some (process_events env now p)))"

partial_function (option) flush_loop ::
  "('ssl, 'dc) session_env \<Rightarrow> vtime \<Rightarrow> ('ssl, 'dc) proto \<Rightarrow> (unit res \<times> ('ssl, 'dc) proto) option" where
  "flush_loop env now p =
     (case flush_round env now p of
        None \<Rightarrow> None
      | Some (Inl e, p) \<Rightarrow> Some (Inl e, p)
      | Some (Inr again, p) \<Rightarrow> (if again then flush_loop env now p else Some (Inr (), p)))"

definition proto_flush ::
  "('ssl, 'dc) session_env \<Rightarrow> vtime \<Rightarrow> bool \<Rightarrow> ('ssl, 'dc) proto \<Rightarrow> (unit res \<times> ('ssl, 'dc) proto) option" where
  "proto_flush env now control_channel p =
     (if control_channel then flush_loop env now p
      else (case process_events env now p of
              (Inl e, p) \<Rightarrow> Some (Inl e, p)
            | (Inr work, p) \<Rightarrow> (if work then flush_loop env now p else Some (Inr (), p))))"

definition keepalive_housekeeping ::
  "('ssl, 'dc) session_env \<Rightarrow> vtime \<Rightarrow> ('ssl, 'dc) proto \<Rightarrow> unit res \<times> ('ssl, 'dc) proto" where
  "keepalive_housekeeping env now p =
     (case (case po_primary p of
              Some k \<Rightarrow>
                (if now \<ge> po_keepalive_xmit p
                 then (case try_key Primary (send_keepalive (se_proto env) now) k p of
                         (Inl e, p) \<Rightarrow> (Inl e, p)
                       | (Inr _, p) \<Rightarrow> (Inr (), update_last_sent now p))
                 else (Inr (), p))
            | None \<Rightarrow> (Inr (), p)) of
        (Inl e, p) \<Rightarrow> (Inl e, p)
      | (Inr _, p) \<Rightarrow>
          (Inr (), if now \<ge> cw_keepalive_expire (proto_wire p)
                   then disconnect env KEEPALIVE_TIMEOUT (proto_error KEEPALIVE_TIMEOUT p)
                   else p))"

definition housekeeping ::
  "('ssl, 'dc) session_env \<Rightarrow> vtime \<Rightarrow> ('ssl, 'dc) proto \<Rightarrow> (unit res \<times> ('ssl, 'dc) proto) option" where
  "housekeeping env now p =
     seq_step (when_key Primary (\<lambda>k. Some (key_retransmit (se_proto env) now k)) p) (\<lambda>_ p.
     seq_step (when_key Secondary (\<lambda>k. Some (key_retransmit (se_proto env) now k)) p) (\<lambda>_ p.
     seq_step (proto_flush env now False p) (\<lambda>_ p.
     Some (keepalive_housekeeping env now p))))"

definition next_housekeeping :: "('ssl, 'dc) proto \<Rightarrow> vtime" where
  "next_housekeeping p =
     (if \<not> proto_invalidated p
      then (let ret = time_infinite;
                ret = (case po_primary p of None \<Rightarrow> ret | Some k \<Rightarrow> time_min ret (kv_next_retransmit k));
                ret = (case po_secondary p of None \<Rightarrow> ret | Some k \<Rightarrow> time_min ret (kv_next_retransmit k))
            in time_min (time_min ret (po_keepalive_xmit p)) (cw_keepalive_expire (proto_wire p)))
      else time_zero)"


section \<open>Traffic\<close>

text \<open>What \<open>PacketType\<close> reads of the session.\<close>

definition proto_key_ids :: "('ssl, 'dc) session_env \<Rightarrow> ('ssl, 'dc) proto \<Rightarrow> key_ids" where
  "proto_key_ids env p =
     \<lparr>ki_server = se_server env, ki_primary = map_option (\<lambda>k. kv_key_id (k_par k)) (po_primary p),
      ki_secondary = map_option (\<lambda>k. kv_key_id (k_par k)) (po_secondary p), ki_upcoming = po_upcoming_key_id p\<rparr>"

definition proto_packet_type :: "('ssl, 'dc) session_env \<Rightarrow> ('ssl, 'dc) proto \<Rightarrow> buf \<Rightarrow> packet_type" where
  "proto_packet_type env p b = packet_type_of b (proto_key_ids env p)"

definition select_key_context ::
  "packet_type \<Rightarrow> bool \<Rightarrow> ('ssl, 'dc) proto \<Rightarrow> (key_slot \<times> ('ssl, 'dc) key) res" where
  "select_key_context t control p =
     (let flags = pt_flags t AND (PT_DEFINED OR PT_SECONDARY OR PT_CONTROL);
          kind = (if control then PT_CONTROL else 0)
      in case (flags = PT_DEFINED OR kind, po_primary p) of
           (True, Some k) \<Rightarrow> Inr (Primary, k)
         | _ \<Rightarrow> (case (flags = PT_DEFINED OR PT_SECONDARY OR kind, po_secondary p) of
                   (True, Some k) \<Rightarrow> Inr (Secondary, k)
                 | _ \<Rightarrow> Inl (Std_exception ''select_key_context_error'')))"

definition control_send :: "byte list \<Rightarrow> ('ssl, 'dc) proto \<Rightarrow> unit res \<times> ('ssl, 'dc) proto" where
  "control_send bp p =
     (case po_primary p of
        None \<Rightarrow> (Inl (Proto_error ''select_control_send_context: no primary key''), p)
      | Some k \<Rightarrow> try_key Primary (key_app_send bp) k p)"

definition control_net_validate ::
  "('ssl, 'dc) session_env \<Rightarrow> vtime \<Rightarrow> packet_type \<Rightarrow> buf \<Rightarrow> ('ssl, 'dc) proto \<Rightarrow> bool res \<times> ('ssl, 'dc) proto" where
  "control_net_validate env now t b p =
     (if pt_is_defined t
      then (case key_validate (se_proto env) now b (proto_wire p) of (r, w) \<Rightarrow> (r, on_wire (\<lambda>_. w) p))
      else (Inr False, p))"

definition renegotiate_request ::
  "('ssl, 'dc) session_env \<Rightarrow> vtime \<Rightarrow> buf \<Rightarrow> ('ssl, 'dc) proto \<Rightarrow> bool res \<times> ('ssl, 'dc) proto" where
  "renegotiate_request env now b p =
     (case key_validate (se_proto env) now b (proto_wire p) of
        (r, w) \<Rightarrow>
          (let p = on_wire (\<lambda>_. w) p
           in case r of
                Inl e \<Rightarrow> (Inl e, p)
              | Inr valid \<Rightarrow> if valid then (Inr True, new_secondary_key env now False p) else (Inr False, p)))"

definition control_net_recv ::
  "('ssl, 'dc) session_env \<Rightarrow> vtime \<Rightarrow> packet_type \<Rightarrow> buf \<Rightarrow> ('ssl, 'dc) proto
   \<Rightarrow> (bool res \<times> ('ssl, 'dc) proto) option" where
  "control_net_recv env now t b p =
     (let pkt = \<lparr>pk_opcode = pt_opcode t, pk_buf = b\<rparr>
      in case (if pt_is_soft_reset t then renegotiate_request env now b p else (Inr True, p)) of
           (Inl e, p) \<Rightarrow> Some (Inl e, p)
         | (Inr False, p) \<Rightarrow> Some (Inr False, p)
         | (Inr True, p) \<Rightarrow>
             (case select_key_context t True p of
                Inl e \<Rightarrow> Some (Inl e, p)
              | Inr (s, k) \<Rightarrow> run_key s (key_net_recv (se_proto env) now pkt) k p))"

definition data_encrypt ::
  "('ssl, 'dc) session_env \<Rightarrow> vtime \<Rightarrow> buf \<Rightarrow> ('ssl, 'dc) proto \<Rightarrow> buf res \<times> ('ssl, 'dc) proto" where
  "data_encrypt env now b p =
     (case po_primary p of
        None \<Rightarrow> (Inl (Proto_error ''data_encrypt: no primary key''), p)
      | Some k \<Rightarrow> try_key Primary (key_encrypt (se_proto env) now b) k p)"

definition data_decrypt ::
  "('ssl, 'dc) session_env \<Rightarrow> vtime \<Rightarrow> packet_type \<Rightarrow> buf \<Rightarrow> ('ssl, 'dc) proto
   \<Rightarrow> (bool \<times> buf) res \<times> ('ssl, 'dc) proto" where
  "data_decrypt env now t b p =
     (case select_key_context t False p of
        Inl e \<Rightarrow> (Inl e, p)
      | Inr (s, k) \<Rightarrow>
          (case try_key s (key_decrypt (se_proto env) now b) k p of
             (Inl e, p) \<Rightarrow> (Inl e, p)
           | (Inr b, p) \<Rightarrow>
               (Inr (b_size b \<noteq> 0, if is_keepalive b then buf_reset_size b else b),
                if b_size b \<noteq> 0 then update_last_received now p else p)))"

definition proto_send_explicit_exit_notify ::
  "('ssl, 'dc) session_env \<Rightarrow> vtime \<Rightarrow> ('ssl, 'dc) proto \<Rightarrow> unit res \<times> ('ssl, 'dc) proto" where
  "proto_send_explicit_exit_notify env now p =
     (case po_primary p of
        Some k \<Rightarrow>
          (if \<not> se_server env \<and> is_udp (ps_protocol (po_shared p))
           then try_key Primary (send_explicit_exit_notify (se_proto env) now) k p else (Inr (), p))
      | None \<Rightarrow> (Inr (), p))"

definition data_channel_ready :: "('ssl, 'dc) proto \<Rightarrow> bool" where
  "data_channel_ready p = (case po_primary p of None \<Rightarrow> False | Some k \<Rightarrow> kv_state (k_par k) \<ge> ACTIVE)"

definition proto_init_data_channel ::
  "('ssl, 'dc) session_env \<Rightarrow> ('ssl, 'dc) proto \<Rightarrow> (unit res \<times> ('ssl, 'dc) proto) option" where
  "proto_init_data_channel env p =
     (let p = p\<lparr>po_shared := (po_shared p)\<lparr>ps_dc_deferred := False\<rparr>\<rparr>
      in seq_step (when_key Primary (init_data_channel (se_proto env)) p) (\<lambda>_ p.
         when_key Secondary (init_data_channel (se_proto env)) p))"

definition proto_data_limit_notify ::
  "('ssl, 'dc) session_env \<Rightarrow> vtime \<Rightarrow> u32 \<Rightarrow> dl_mode \<Rightarrow> dl_state \<Rightarrow> ('ssl, 'dc) proto \<Rightarrow> ('ssl, 'dc) proto" where
  "proto_data_limit_notify env now key_id mode status p =
     (let notify = data_limit_notify (pe_ev (se_proto env)) now mode status;
          named = (\<lambda>k. kv_key_id (k_par k) = key_id)
      in if pred_option named (po_primary p) \<and> po_primary p \<noteq> None then on_key Primary notify p
         else if pred_option named (po_secondary p) \<and> po_secondary p \<noteq> None then on_key Secondary notify p
         else p)"

definition align_adjust_hint :: "('ssl, 'dc) proto \<Rightarrow> nat" where
  "align_adjust_hint p = (if ps_enable_op32 (po_shared p) then 0 else 1)"

definition uses_bs64_cipher :: "('ssl, 'dc) proto \<Rightarrow> bool res" where
  "uses_bs64_cipher p = is_bs64_cipher (ds_cipher (ps_settings (po_shared p)))"

end
