(* ===== verification/Session_Life.thy ===== *)
theory Session_Life
  imports Proto_Context
begin

text \<open>
  What holds of a session whatever is done with it: its two keys are keys in the sense of \<open>Key_Life\<close>,
  that is, every operation of \<open>ProtoContext\<close> is a sequence of the calls a key allows, and the IDs it
  gives them stay in range. \<open>session_step\<close> is any call the owner of a session makes, at any time, with
  any packet.
\<close>

section \<open>Keys of a session\<close>

text \<open>A key that some session has made and on which nothing but the operations of a key was called.\<close>

definition born :: "('ssl, 'dc) session_env \<Rightarrow> ('ssl, 'dc) key \<Rightarrow> bool" where
  "born env k \<longleftrightarrow> (\<exists>now initiator i sh. i \<le> KEY_ID_MASK
     \<and> key_reaches (se_proto env) (key_new (se_proto env) now (se_ssl env) initiator i sh) k)"

definition key_num :: "('ssl, 'dc) key \<Rightarrow> u32" where
  "key_num k = kv_key_id (k_par k)"

definition all_keys :: "(('ssl, 'dc) key \<Rightarrow> bool) \<Rightarrow> ('ssl, 'dc) proto \<Rightarrow> bool" where
  "all_keys P p \<longleftrightarrow> pred_option P (po_primary p) \<and> pred_option P (po_secondary p)"

text \<open>
  The invariant: the keys are such keys, the next ID is one of 1, ..., 7, and no two keys have the ID 0,
  which the first key alone gets.
\<close>

definition session_ok :: "('ssl, 'dc) session_env \<Rightarrow> ('ssl, 'dc) proto \<Rightarrow> bool" where
  "session_ok env p \<longleftrightarrow> all_keys (born env) p \<and> po_upcoming_key_id p \<in> {1..KEY_ID_MASK}
     \<and> \<not> (map_option key_num (po_primary p) = Some 0 \<and> map_option key_num (po_secondary p) = Some 0)"

lemma reaches_refl [simp, intro]: "key_reaches env k k"
  by (simp add: key_reaches_def)

lemma reaches_trans [trans]: "key_reaches env x y \<Longrightarrow> key_reaches env y z \<Longrightarrow> key_reaches env x z"
  by (simp add: key_reaches_def)

lemma step_reaches: "key_step env k k' \<Longrightarrow> key_reaches env k k'"
  by (simp add: key_reaches_def)

lemma reaches_num: "key_reaches env k k' \<Longrightarrow> key_num k' = key_num k"
  using reaches_advances [of env k k'] by (simp add: key_num_def key_advances_def)

lemma born_reaches: "born env k \<Longrightarrow> key_reaches (se_proto env) k k' \<Longrightarrow> born env k'"
  unfolding born_def using reaches_trans by blast

lemma lend_reaches: "key_reaches env k (lend p k)"
  using step_shared [of env k "\<lambda>_. po_shared p"]
  by (intro step_reaches) (simp add: lend_def on_ev_def on_sh_def)

lemma slot_put [simp]: "slot_key s (put_key s k p) = k"
  "slot_key Primary (put_key Secondary k p) = slot_key Primary p"
  "slot_key Secondary (put_key Primary k p) = slot_key Secondary p"
  by (cases s; simp)+

lemma slot_born: "session_ok env p \<Longrightarrow> slot_key s p = Some k \<Longrightarrow> born env k"
  by (cases s) (simp_all add: session_ok_def all_keys_def)

lemma session_put:
  assumes "session_ok env p" "slot_key s p = Some k" "key_reaches (se_proto env) k k'"
  shows "session_ok env (put_key s (Some k') p)"
proof -
  have "born env k'" "key_num k' = key_num k"
    using born_reaches [OF slot_born [OF assms(1,2)] assms(3)] reaches_num [OF assms(3)] by simp_all
  with assms(1,2) show ?thesis by (cases s) (simp_all add: session_ok_def all_keys_def)
qed

lemma session_ok_cong:
  assumes "session_ok env p" "po_primary p' = po_primary p" "po_secondary p' = po_secondary p"
    "po_upcoming_key_id p' = po_upcoming_key_id p"
  shows "session_ok env p'"
  using assms by (simp add: session_ok_def all_keys_def)

lemma session_give_back:
  assumes "session_ok env p" "slot_key s p = Some k" "key_reaches (se_proto env) k k'"
  shows "session_ok env (give_back s k' p)"
proof -
  let ?p = "p\<lparr>po_shared := kp_sh (k_par k')\<rparr>"
  have "session_ok env ?p" by (rule session_ok_cong [OF assms(1)]) simp_all
  moreover have "slot_key s ?p = Some k" using assms(2) by (cases s) simp_all
  ultimately show ?thesis using session_put assms(3) by (simp add: give_back_def)
qed

lemma session_lent:
  assumes "session_ok env p" "slot_key s p = Some k" "key_step (se_proto env) (lend p k) k'"
  shows "session_ok env (give_back s k' p)"
  by (rule session_give_back [OF assms(1,2) reaches_trans [OF lend_reaches step_reaches [OF assms(3)]]])

lemma session_on_key:
  assumes "session_ok env p" "\<And>k. key_step (se_proto env) k (f k)"
  shows "session_ok env (on_key s f p)"
  using assms session_lent [OF assms(1) _ assms(2)] by (simp add: on_key_def split: option.split)

lemma session_try_key:
  assumes "session_ok env p" "slot_key s p = Some k" "try_key s f k p = (r, p')"
    "\<And>k r k'. f k = (r, k') \<Longrightarrow> key_step (se_proto env) k k'"
  shows "session_ok env p'"
  using assms(3) session_lent [OF assms(1,2) assms(4)] by (auto simp: try_key_def split: prod.splits)

lemma session_run_key:
  assumes "session_ok env p" "slot_key s p = Some k" "run_key s f k p = Some (r, p')"
    "\<And>k r k'. f k = Some (r, k') \<Longrightarrow> key_step (se_proto env) k k'"
  shows "session_ok env p'"
  using assms(3) session_lent [OF assms(1,2) assms(4)] by (auto simp: run_key_def split: prod.splits option.splits)

lemma session_when_key:
  assumes "session_ok env p" "when_key s f p = Some (r, p')"
    "\<And>k r k'. f k = Some (r, k') \<Longrightarrow> key_step (se_proto env) k k'"
  shows "session_ok env p'"
proof (cases "slot_key s p")
  case (Some k)
  with assms(2) have "run_key s f k p = Some (r, p')" by (simp add: when_key_def)
  from session_run_key [OF assms(1) Some this assms(3)] show ?thesis .
qed (use assms in \<open>simp add: when_key_def\<close>)

section \<open>Every operation keeps the invariant\<close>

lemma session_on_wire: "session_ok env p \<Longrightarrow> session_ok env (on_wire f p)"
  by (rule session_ok_cong) (simp_all add: on_wire_def)

lemma session_error: "session_ok env p \<Longrightarrow> session_ok env (proto_error e p)"
  by (simp add: proto_error_def session_on_wire)

lemma next_id_range: "let up = (u + 1) AND KEY_ID_MASK :: u32 in (if up = 0 then 1 else up) \<in> {1..KEY_ID_MASK}"
proof -
  have "(u + 1) AND KEY_ID_MASK \<le> KEY_ID_MASK" by (rule word_and_le1)
  moreover have "1 \<le> x" if "x \<noteq> 0" for x :: u32 using that by (simp add: word_le_nat_alt unat_gt_0 Suc_leI)
  ultimately show ?thesis by (simp add: Let_def)
qed

lemma key_new_num: "key_num (key_new env now ssl initiator i sh) = i"
  using new_ok [of env now ssl initiator i sh] by (simp add: key_num_def)

lemma key_new_born:
  "i \<le> KEY_ID_MASK \<Longrightarrow> born env (key_new (se_proto env) now (se_ssl env) initiator i sh)"
  unfolding born_def using reaches_refl by blast

lemma session_new_secondary:
  assumes "session_ok env p"
  shows "session_ok env (new_secondary_key env now initiator p)"
proof -
  have "po_upcoming_key_id p \<le> KEY_ID_MASK" "po_upcoming_key_id p \<noteq> 0" using assms by (auto simp: session_ok_def)
  then show ?thesis
    using assms next_id_range [of "po_upcoming_key_id p"] key_new_born
    by (simp add: new_secondary_key_def make_key_def next_key_id_def session_ok_def all_keys_def key_new_num Let_def)
qed

text \<open>A session starts with one key, which has the ID 0, whatever there was before.\<close>

lemma session_reset: "session_ok env (proto_reset env now p)"
  by (simp add: key_new_born proto_reset_def make_key_def next_key_id_def session_ok_def all_keys_def key_new_num Let_def
      reset_all_def on_wire_def update_last_sent_def)

lemma session_rekey: "session_ok env p \<Longrightarrow> session_ok env (proto_rekey env s ty p)"
  unfolding proto_rekey_def by (rule session_on_key [OF _ step_rekey])

lemma session_disconnect: "session_ok env p \<Longrightarrow> session_ok env (disconnect env reason p)"
  unfolding disconnect_def by (intro session_on_key step_invalidate)

lemma session_set_protocol:
  assumes "session_ok env p"
  shows "session_ok env (proto_set_protocol pr p)"
proof -
  have "session_ok env (p\<lparr>po_shared := (po_shared p)\<lparr>ps_protocol := pr\<rparr>\<rparr>)"
    by (rule session_ok_cong [OF assms]) simp_all
  then show ?thesis unfolding proto_set_protocol_def by (intro session_on_key step_set_protocol)
qed

lemma session_updates:
  assumes "session_ok env p"
  shows "session_ok env (update_last_sent now p)" "session_ok env (update_last_received now p)"
    "session_ok env (p\<lparr>po_active_calls := n\<rparr>)" "session_ok env (p\<lparr>po_shared := sh\<rparr>)"
  using assms session_ok_cong [OF assms] by (simp_all add: update_last_sent_def update_last_received_def session_on_wire)

lemma session_promote:
  assumes "session_ok env p"
  shows "session_ok env (promote_secondary_to_primary env now p)"
proof -
  have "session_ok env (p\<lparr>po_primary := po_secondary p, po_secondary := po_primary p\<rparr>)"
    using assms by (auto simp: session_ok_def all_keys_def)
  then show ?thesis
    unfolding promote_secondary_to_primary_def Let_def by (intro session_on_key session_rekey step_expire)
qed

lemma session_drop:
  assumes "session_ok env p"
  shows "session_ok env (p\<lparr>po_secondary := None\<rparr>)"
  using assms by (simp add: session_ok_def all_keys_def)

lemma session_start:
  assumes "session_ok env p" "proto_start env now p = (r, p')"
  shows "session_ok env p'"
proof (cases "po_primary p")
  case (Some k)
  obtain r1 p1 where t: "try_key Primary (key_start (se_proto env)) k p = (r1, p1)" by fastforce
  have "session_ok env p1" by (rule session_try_key [OF assms(1) _ t step_start]) (simp_all add: Some)
  with assms(2) t Some session_updates show ?thesis by (auto simp: proto_start_def split: sum.splits)
qed (use assms in \<open>simp add: proto_start_def\<close>)

lemma session_renegotiate:
  assumes "session_ok env p" "renegotiate env now p = (r, p')"
  shows "session_ok env p'"
proof (cases "po_secondary (new_secondary_key env now True p)")
  case (Some k)
  with assms(2) have t: "try_key Secondary (key_start (se_proto env)) k (new_secondary_key env now True p) = (r, p')"
    by (simp add: renegotiate_def)
  show ?thesis
    by (rule session_try_key [OF session_new_secondary [OF assms(1)] _ t step_start]) (simp_all add: Some)
qed (use assms session_new_secondary in \<open>auto simp: renegotiate_def\<close>)

lemma session_finish_event:
  assumes "finish_event env now s (r, p) = (r', p')" "session_ok env p"
  shows "session_ok env p'"
  using assms session_on_key [OF assms(2) step_next_event] by (auto simp: finish_event_def split: sum.splits)

lemma session_primary_event:
  assumes "session_ok env p" "primary_event env now ev p = (r, p')"
  shows "session_ok env p'"
proof -
  note keeps = session_rekey session_updates session_promote session_error session_disconnect session_renegotiate
  show ?thesis
    using assms by (cases ev) (auto simp: primary_event_def Let_def intro!: keeps split: if_splits elim!: session_renegotiate [rotated])
qed

lemma session_secondary_event:
  assumes "session_ok env p" "secondary_event env now ev p = (r, p')"
  shows "session_ok env p'"
proof -
  have step: "session_ok env (on_key s (on_ev (prepare_expire (pe_ev (se_proto env)) now ev)) p)"
    "session_ok env (on_key s (on_ev (key_limit_reneg (pe_ev (se_proto env)) ev t)) p)"
    if "session_ok env p" for s ev t p
    using session_on_key [OF that step_expire] session_on_key [OF that step_limit_reneg] .
  note keeps = session_rekey session_drop session_promote session_error step
  show ?thesis
    using assms by (cases ev) (auto simp: secondary_event_def intro!: keeps split: if_splits option.splits
        elim!: session_renegotiate [rotated])
qed

lemma session_slot_events:
  assumes "session_ok env p" "slot_events env now s p = (r, p')"
  shows "session_ok env p'"
proof (cases "slot_key s p")
  case (Some k)
  obtain pending k1 where e: "event_pending (key_cb (se_proto env) now) (pe_ev (se_proto env)) now (lend p k) = (pending, k1)"
    by fastforce
  then have "key_step (se_proto env) (lend p k) k1"
    using step_event [of "se_proto env" "lend p k" now] by simp
  note p1 = session_lent [OF assms(1) Some this]
  let ?p = "\<lambda>s. on_key s (on_ev reset_event) (give_back s k1 p)"
  have p2: "session_ok env (?p s)" by (rule session_on_key [OF p1 step_reset_event])
  obtain r1 p3 where 1: "primary_event env now (kv_current (k_par k1)) (?p s) = (r1, p3)" by fastforce
  obtain r2 p4 where 2: "secondary_event env now (kv_current (k_par k1)) (?p s) = (r2, p4)" by fastforce
  have fin: "session_ok env (snd (finish_event env now s' (r0, q)))" if "session_ok env q" for s' r0 q
    using session_finish_event [of env now s' r0 q] that by (metis prod.collapse)
  have "session_ok env (snd (process_primary_event env now k1 (give_back s k1 p)))" if "s = Primary"
    using fin [OF session_primary_event [OF p2 1]] fin [OF p1] 1 that by (simp add: process_primary_event_def Let_def)
  moreover have "session_ok env (snd (process_secondary_event env now k1 (give_back s k1 p)))" if "s = Secondary"
    using fin [OF session_secondary_event [OF p2 2]] fin [OF p1] 2 that by (simp add: process_secondary_event_def Let_def)
  ultimately show ?thesis
    using assms(2) Some e p1 by (cases s) (auto simp: slot_events_def Let_def split: if_splits prod.splits sum.splits)
qed (use assms in \<open>simp add: slot_events_def\<close>)

lemma session_process_events:
  assumes "session_ok env p" "process_events env now p = (r, p')"
  shows "session_ok env p'"
proof -
  obtain r1 p1 where 1: "slot_events env now Primary p = (r1, p1)" by fastforce
  obtain r2 p2 where 2: "slot_events env now Secondary p1 = (r2, p2)" by fastforce
  note ok1 = session_slot_events [OF assms(1) 1]
  from assms(2) 1 2 ok1 session_slot_events [OF ok1 2] show ?thesis by (auto simp: process_events_def split: sum.splits)
qed

text \<open>Sequences of calls keep what each call keeps.\<close>

lemma seq_keeps:
  assumes "seq_step m f = Some (r, p')" "\<And>x q. m = Some (x, q) \<Longrightarrow> session_ok env q"
    "\<And>x q. session_ok env q \<Longrightarrow> f x q = Some (r, p') \<Longrightarrow> session_ok env p'"
  shows "session_ok env p'"
  using seq_step_keeps [OF assms(1), where P = "session_ok env" and Q = "session_ok env"] assms(2,3) by blast

lemma session_flush_round:
  assumes "session_ok env p" "flush_round env now p = Some (r, p')"
  shows "session_ok env p'"
proof (rule seq_keeps [OF assms(2) [unfolded flush_round_def]])
  show "session_ok env q" if "when_key Primary (key_flush (se_proto env) now) p = Some (x, q)" for x q
    by (rule session_when_key [OF assms(1) that step_flush])
  fix x q
  assume q: "session_ok env q" and rest: "seq_step (when_key Secondary (key_flush (se_proto env) now) q)
      (\<lambda>_ p. Some (process_events env now p)) = Some (r, p')"
  show "session_ok env p'"
  proof (rule seq_keeps [OF rest])
    show "session_ok env q'" if "when_key Secondary (key_flush (se_proto env) now) q = Some (x, q')" for x q'
      by (rule session_when_key [OF q that step_flush])
  qed (use session_process_events in blast)
qed

lemma session_flush_loop:
  assumes "flush_loop env now p = Some (r, p')" "session_ok env p"
  shows "session_ok env p'"
proof -
  have "session_ok env p \<longrightarrow> session_ok env (snd (r, p'))"
  proof (rule flush_loop.raw_induct [rotated, OF assms(1), of "\<lambda>env now p m. session_ok env p \<longrightarrow> session_ok env (snd m)"])
    fix loop env now p m
    assume IH: "\<And>env now p m. loop env now p = Some m \<Longrightarrow> session_ok env p \<longrightarrow> session_ok env (snd m)"
      and eq: "(case flush_round env now p of None \<Rightarrow> None | Some (Inl e, p) \<Rightarrow> Some (Inl e, p)
        | Some (Inr again, p) \<Rightarrow> (if again then loop env now p else Some (Inr (), p))) = Some m"
    then obtain r1 p1 where 1: "flush_round env now p = Some (r1, p1)" by (auto split: option.splits)
    from eq 1 IH session_flush_round [OF _ 1] show "session_ok env p \<longrightarrow> session_ok env (snd m)"
      by (auto split: sum.splits if_splits)
  qed
  with assms(2) show ?thesis by simp
qed

lemma session_flush:
  assumes "session_ok env p" "proto_flush env now cc p = Some (r, p')"
  shows "session_ok env p'"
proof -
  obtain r1 p1 where 1: "process_events env now p = (r1, p1)" by fastforce
  from assms(2) 1 session_process_events [OF assms(1) 1] session_flush_loop assms(1) show ?thesis
    by (auto simp: proto_flush_def split: if_splits sum.splits)
qed

lemma session_when_retransmit:
  assumes "session_ok env p" "when_key s (\<lambda>k. Some (key_retransmit (se_proto env) now k)) p = Some (r, p')"
  shows "session_ok env p'"
  by (rule session_when_key [OF assms step_retransmit]) simp

lemma session_keepalive:
  assumes "session_ok env p" "keepalive_housekeeping env now p = (r, p')"
  shows "session_ok env p'"
proof -
  have sent: "session_ok env q" if "try_key Primary (send_keepalive (se_proto env) now) k p = (x, q)" "po_primary p = Some k"
    for k x q
    by (rule session_try_key [OF assms(1) _ that(1) step_message [OF trans [OF send_keepalive_def [symmetric]]]])
      (simp_all add: that)
  show ?thesis
    using assms sent
    by (auto simp: keepalive_housekeeping_def intro!: session_disconnect session_error session_updates
        split: option.splits if_splits prod.splits sum.splits)
qed

lemma session_housekeeping:
  assumes "session_ok env p" "housekeeping env now p = Some (r, p')"
  shows "session_ok env p'"
proof (rule seq_keeps [OF assms(2) [unfolded housekeeping_def]])
  show "session_ok env q" if "when_key Primary (\<lambda>k. Some (key_retransmit (se_proto env) now k)) p = Some (x, q)" for x q
    by (rule session_when_retransmit [OF assms(1) that])
  fix x q
  assume q: "session_ok env q" and rest: "seq_step (when_key Secondary (\<lambda>k. Some (key_retransmit (se_proto env) now k)) q)
      (\<lambda>_ p. seq_step (proto_flush env now False p) (\<lambda>_ p. Some (keepalive_housekeeping env now p))) = Some (r, p')"
  show "session_ok env p'"
  proof (rule seq_keeps [OF rest])
    show "session_ok env q1" if "when_key Secondary (\<lambda>k. Some (key_retransmit (se_proto env) now k)) q = Some (x, q1)" for x q1
      by (rule session_when_retransmit [OF q that])
    fix x q1
    assume q1: "session_ok env q1"
      and rest: "seq_step (proto_flush env now False q1) (\<lambda>_ p. Some (keepalive_housekeeping env now p)) = Some (r, p')"
    show "session_ok env p'"
      by (rule seq_keeps [OF rest]) (use q1 session_flush session_keepalive in blast)+
  qed
qed

lemma select_key_slot:
  assumes "select_key_context t control p = Inr (s, k)"
  shows "slot_key s p = Some k"
  using assms by (auto simp: select_key_context_def Let_def split: option.splits bool.splits)

lemma session_control_net_recv:
  assumes "session_ok env p" "control_net_recv env now t b p = Some (r, p')"
  shows "session_ok env p'"
proof -
  obtain v w where v: "key_validate (se_proto env) now b (proto_wire p) = (v, w)" by fastforce
  obtain x q where x: "(if pt_is_soft_reset t then renegotiate_request env now b p else (Inr True, p)) = (x, q)" by fastforce
  have "q \<in> {p, on_wire (\<lambda>_. w) p, new_secondary_key env now False (on_wire (\<lambda>_. w) p)}"
    using x v by (auto simp: renegotiate_request_def Let_def split: if_splits sum.splits)
  then have q: "session_ok env q" using assms(1) by (auto simp: session_on_wire session_new_secondary)
  show ?thesis
  proof (cases "x = Inr True \<and> (\<exists>s k. select_key_context t True q = Inr (s, k))")
    case True
    then obtain s k where s: "select_key_context t True q = Inr (s, k)" by blast
    with True assms(2) x have "run_key s (key_net_recv (se_proto env) now \<lparr>pk_opcode = pt_opcode t, pk_buf = b\<rparr>) k q = Some (r, p')"
      by (simp add: control_net_recv_def)
    from session_run_key [OF q select_key_slot [OF s] this step_net_recv] show ?thesis .
  next
    case False
    with assms(2) x q show ?thesis
      by (auto simp: control_net_recv_def split: sum.splits bool.splits prod.splits)
  qed
qed

lemma session_control_send:
  assumes "session_ok env p" "control_send bp p = (r, p')"
  shows "session_ok env p'"
proof (cases "po_primary p")
  case (Some k)
  with assms(2) have t: "try_key Primary (key_app_send bp) k p = (r, p')" by (simp add: control_send_def)
  show ?thesis by (rule session_try_key [OF assms(1) _ t step_app_send]) (simp_all add: Some)
qed (use assms in \<open>simp add: control_send_def\<close>)

lemma session_validate:
  assumes "session_ok env p" "control_net_validate env now t b p = (r, p')"
  shows "session_ok env p'"
  using assms by (auto simp: control_net_validate_def intro: session_on_wire split: if_splits prod.splits)

lemma session_encrypt:
  assumes "session_ok env p" "data_encrypt env now b p = (r, p')"
  shows "session_ok env p'"
proof (cases "po_primary p")
  case (Some k)
  with assms(2) have t: "try_key Primary (key_encrypt (se_proto env) now b) k p = (r, p')" by (simp add: data_encrypt_def)
  show ?thesis by (rule session_try_key [OF assms(1) _ t step_encrypt]) (simp_all add: Some)
qed (use assms in \<open>simp add: data_encrypt_def\<close>)

lemma session_decrypt:
  assumes "session_ok env p" "data_decrypt env now t b p = (r, p')"
  shows "session_ok env p'"
proof (cases "select_key_context t False p")
  case (Inr sk)
  obtain s k where sk: "sk = (s, k)" by fastforce
  obtain x q where t: "try_key s (key_decrypt (se_proto env) now b) k p = (x, q)" by fastforce
  have "session_ok env q"
    by (rule session_try_key [OF assms(1) select_key_slot [OF Inr [unfolded sk]] t step_decrypt])
  with assms(2) t sk Inr session_updates show ?thesis by (auto simp: data_decrypt_def split: sum.splits if_splits)
qed (use assms in \<open>simp add: data_decrypt_def\<close>)

lemma session_exit_notify:
  assumes "session_ok env p" "proto_send_explicit_exit_notify env now p = (r, p')"
  shows "session_ok env p'"
proof -
  have "session_ok env q" if "try_key Primary (send_explicit_exit_notify (se_proto env) now) k p = (x, q)" "po_primary p = Some k"
    for k x q
    by (rule session_try_key [OF assms(1) _ that(1) step_exit_notify]) (simp_all add: that)
  with assms show ?thesis by (auto simp: proto_send_explicit_exit_notify_def split: option.splits if_splits)
qed

lemma session_init_data:
  assumes "session_ok env p" "proto_init_data_channel env p = Some (r, p')"
  shows "session_ok env p'"
proof -
  let ?p = "p\<lparr>po_shared := (po_shared p)\<lparr>ps_dc_deferred := False\<rparr>\<rparr>"
  have p: "session_ok env ?p" by (rule session_updates [OF assms(1)])
  show ?thesis
  proof (rule seq_keeps [OF assms(2) [unfolded proto_init_data_channel_def Let_def]])
    show "session_ok env q" if "when_key Primary (init_data_channel (se_proto env)) ?p = Some (x, q)" for x q
      by (rule session_when_key [OF p that step_init_data])
    show "session_ok env p'" if "session_ok env q" "when_key Secondary (init_data_channel (se_proto env)) q = Some (r, p')" for q x
      by (rule session_when_key [OF that step_init_data])
  qed
qed

lemma session_limit_notify:
  assumes "session_ok env p"
  shows "session_ok env (proto_data_limit_notify env now i mode st p)"
  using session_on_key [OF assms step_limit_notify] assms by (simp add: proto_data_limit_notify_def Let_def)

lemma session_keepalive_parms:
  assumes "session_ok env p"
  shows "session_ok env (keepalive_parms_modified now p)" "session_ok env (snd (disable_keepalive now p))"
proof -
  have "session_ok env (keepalive_parms_modified now q)" if "session_ok env q" for q
  proof -
    have "session_ok env (q'\<lparr>po_keepalive_xmit := t\<rparr>)" if "session_ok env q'" for q' t
      by (rule session_ok_cong [OF that]) simp_all
    then show ?thesis using session_updates [OF that] by (simp add: keepalive_parms_modified_def Let_def)
  qed
  moreover have "session_ok env (p\<lparr>po_keepalive_ping := d\<rparr>)" for d by (rule session_ok_cong [OF assms]) simp_all
  ultimately show "session_ok env (keepalive_parms_modified now p)" "session_ok env (snd (disable_keepalive now p))"
    using assms by (simp_all add: disable_keepalive_def session_on_wire)
qed

section \<open>All calls\<close>

text \<open>\<open>ses_settings\<close>: pushed options change settings between the calls.\<close>

inductive session_step :: "('ssl, 'dc) session_env \<Rightarrow> ('ssl, 'dc) proto \<Rightarrow> ('ssl, 'dc) proto \<Rightarrow> bool"
  for env where
  ses_reset: "session_step env p (proto_reset env now p)"
| ses_set_protocol: "session_step env p (proto_set_protocol pr p)"
| ses_start: "proto_start env now p = (r1, p') \<Longrightarrow> session_step env p p'"
| ses_renegotiate: "renegotiate env now p = (r1, p') \<Longrightarrow> session_step env p p'"
| ses_flush: "proto_flush env now cc p = Some (r1, p') \<Longrightarrow> session_step env p p'"
| ses_housekeeping: "housekeeping env now p = Some (r1, p') \<Longrightarrow> session_step env p p'"
| ses_control_send: "control_send bp p = (r1, p') \<Longrightarrow> session_step env p p'"
| ses_validate: "control_net_validate env now t b p = (r2, p') \<Longrightarrow> session_step env p p'"
| ses_control_recv: "control_net_recv env now t b p = Some (r2, p') \<Longrightarrow> session_step env p p'"
| ses_encrypt: "data_encrypt env now b p = (r3, p') \<Longrightarrow> session_step env p p'"
| ses_decrypt: "data_decrypt env now t b p = (r4, p') \<Longrightarrow> session_step env p p'"
| ses_disconnect: "session_step env p (disconnect env reason p)"
| ses_exit_notify: "proto_send_explicit_exit_notify env now p = (r1, p') \<Longrightarrow> session_step env p p'"
| ses_sent: "session_step env p (update_last_sent now p)"
| ses_init_data: "proto_init_data_channel env p = Some (r1, p') \<Longrightarrow> session_step env p p'"
| ses_limit: "session_step env p (proto_data_limit_notify env now i mode st p)"
| ses_keepalive: "session_step env p (keepalive_parms_modified now p)"
| ses_no_keepalive: "session_step env p (snd (disable_keepalive now p))"
| ses_settings: "session_step env p (p\<lparr>po_shared := sh, po_keepalive_ping := d\<rparr>)"

lemma session_step_ok: "session_step env p p' \<Longrightarrow> session_ok env p \<Longrightarrow> session_ok env p'"
proof (induction rule: session_step.induct)
  case (ses_settings p sh d)
  show ?case by (rule session_ok_cong [OF ses_settings]) simp_all
qed (simp_all only: session_reset session_set_protocol session_disconnect session_updates session_limit_notify
    session_keepalive_parms, (rule session_start session_renegotiate session_flush session_housekeeping
    session_control_send session_validate session_control_net_recv session_encrypt session_decrypt
    session_exit_notify session_init_data, assumption, assumption)+)

definition session_reaches :: "('ssl, 'dc) session_env \<Rightarrow> ('ssl, 'dc) proto \<Rightarrow> ('ssl, 'dc) proto \<Rightarrow> bool" where
  "session_reaches env = (session_step env)\<^sup>*\<^sup>*"

lemma session_invariant:
  assumes "session_reaches env (proto_reset env now p0) p"
  shows "session_ok env p"
  using assms unfolding session_reaches_def
  by (induction rule: rtranclp_induct) (simp_all add: session_reset session_step_ok)

lemma born_ok:
  assumes "born env k"
  shows "key_ok (se_proto env) (k_par k) \<and> key_num k \<le> KEY_ID_MASK"
proof -
  obtain now ini i sh where i: "i \<le> KEY_ID_MASK"
    and r: "key_reaches (se_proto env) (key_new (se_proto env) now (se_ssl env) ini i sh) k"
    using assms by (auto simp: born_def)
  from reaches_advances [OF r] new_ok [of "se_proto env" now "se_ssl env" ini i sh] i
  show ?thesis by (simp add: key_advances_def key_num_def)
qed

section \<open>Properties\<close>

text \<open>
  C13. Whatever calls are made on a session since its last \<open>reset\<close>, whatever packets arrive and whichever
  of the calls end with an exception: both keys are in a state of their role, their IDs fit the three
  bits they have in a packet, the next ID is never 0, so that at most one of the two keys is the first
  key, and on a server an active key is one whose client \<open>server_auth\<close> has accepted.
\<close>

theorem session_keys_wellformed:
  assumes "session_reaches env (proto_reset env now p0) p" "slot_key s p = Some k"
  shows "kv_state (k_par k) \<in> set (key_path (se_server env)) \<and> kv_key_id (k_par k) < 8
    \<and> po_upcoming_key_id p \<in> {1..7}
    \<and> (\<forall>k1 k2. po_primary p = Some k1 \<longrightarrow> po_secondary p = Some k2 \<longrightarrow>
         kv_key_id (k_par k1) \<noteq> 0 \<or> kv_key_id (k_par k2) \<noteq> 0)
    \<and> (se_server env \<and> kv_state (k_par k) = ACTIVE \<longrightarrow>
         (\<exists>c \<in> set (kp_auth_out (k_par k)). au_server_auth (pe_auth (se_proto env)) c = Inr ()))"
proof -
  note inv = session_invariant [OF assms(1)]
  have k: "key_ok (se_proto env) (k_par k)" "key_num k \<le> KEY_ID_MASK"
    using born_ok [OF slot_born [OF inv assms(2)]] by simp_all
  have "kv_key_id (k_par k) < 8"
    using k(2) by (simp add: key_num_def word_le_nat_alt word_less_nat_alt)
  moreover have "\<exists>c \<in> set (kp_auth_out (k_par k)). au_server_auth (pe_auth (se_proto env)) c = Inr ()"
    if "se_server env" "kv_state (k_par k) = ACTIVE"
  proof -
    have "kp_auth_out (k_par k) \<noteq> []"
      using k(1) that by (simp add: key_ok_def key_stage_def key_path_def)
    then show ?thesis using k(1) by (cases "kp_auth_out (k_par k)") (auto simp: key_ok_def)
  qed
  ultimately show ?thesis
    using k(1) inv by (auto simp: key_ok_def session_ok_def key_num_def)
qed

text \<open>A key of a server that has accepted no client does nothing with data.\<close>

lemma unaccepted_inert:
  assumes "session_ok env p" "slot_key s p = Some k" "se_server env"
    "\<forall>c \<in> set (kp_auth_out (k_par k)). au_server_auth (pe_auth (se_proto env)) c \<noteq> Inr ()"
  shows "try_key s (key_encrypt (se_proto env) t b) k p = (Inr (buf_reset_size b), give_back s (lend p k) p)
    \<and> try_key s (key_decrypt (se_proto env) t b) k p = (Inr (buf_reset_size b), give_back s (lend p k) p)
    \<and> try_key s (send_data_channel_message (se_proto env) t bs) k p = (Inr (), give_back s (lend p k) p)"
proof -
  have k: "key_ok (se_proto env) (k_par k)" using born_ok [OF slot_born [OF assms(1,2)]] by simp
  then have "kp_auth_out (k_par k) = []"
    using assms(4) by (cases "kp_auth_out (k_par k)") (auto simp: key_ok_def)
  with k assms(3) have "\<not> kv_state (k_par k) \<ge> ACTIVE"
    by (auto simp: key_ok_def key_stage_def key_path_def)
  then have "\<not> data_ready (lend p k)" by (simp add: data_ready_def lend_def)
  then show ?thesis by (simp add: try_key_def not_ready)
qed

lemma give_back_lent [simp]: "po_shared (give_back s (lend p k) p) = po_shared p"
  by (cases s) (simp_all add: give_back_def lend_def)

lemma disconnect_wire: "po_shared (disconnect env reason p) = po_shared p"
proof -
  have sh: "kp_sh (k_par (key_invalidate e reason k)) = kp_sh (k_par k)" for e :: "('a, 'b) proto_env" and k
    by (simp add: key_invalidate_def stack_invalidate_sel [OF key_cb_events] invalidate_callback_def)
  show ?thesis
    by (cases "po_primary p"; cases "po_secondary p") (simp_all add: disconnect_def on_key_def give_back_def sh lend_def)
qed

lemma keepalive_check_sends_nothing:
  "ps_net_out (po_shared (if now \<ge> cw_keepalive_expire (proto_wire p)
     then disconnect env KEEPALIVE_TIMEOUT (proto_error KEEPALIVE_TIMEOUT p) else p)) = ps_net_out (po_shared p)"
  by (simp add: disconnect_wire proto_error_def on_wire_def)

text \<open>
  C4. A server passes no data under a key before it has accepted the client for that key, also when
  another key of the session has been accepted: while \<open>server_auth\<close> has accepted none of the
  credentials this key has received, \<open>data_encrypt\<close> with it as primary key and \<open>data_decrypt\<close> of a
  packet that is for it empty the packet, whatever it holds and whatever was called before, and what
  comes in does not put off the keepalive timeout; no message of the data channel (the keepalive,
  which goes out under the primary key, among them) is sent under it, and a server sends no exit
  notification at all.
\<close>

theorem session_no_data_before_auth:
  assumes "session_reaches env (proto_reset env now p0) p" "se_server env" "slot_key s p = Some k"
    "\<forall>c \<in> set (kp_auth_out (k_par k)). au_server_auth (pe_auth (se_proto env)) c \<noteq> Inr ()"
  shows "(s = Primary \<longrightarrow> fst (data_encrypt env t b p) = Inr (buf_reset_size b)
        \<and> po_shared (snd (data_encrypt env t b p)) = po_shared p)
    \<and> (select_key_context ty False p = Inr (s, k) \<longrightarrow> fst (data_decrypt env t ty b p) = Inr (False, buf_reset_size b)
        \<and> po_shared (snd (data_decrypt env t ty b p)) = po_shared p)
    \<and> (fst (try_key s (send_data_channel_message (se_proto env) t bs) k p) = Inr ()
        \<and> po_shared (snd (try_key s (send_data_channel_message (se_proto env) t bs) k p)) = po_shared p)
    \<and> (s = Primary \<longrightarrow> ps_net_out (po_shared (snd (keepalive_housekeeping env t p))) = ps_net_out (po_shared p))
    \<and> po_shared (snd (proto_send_explicit_exit_notify env t p)) = po_shared p"
proof -
  note inert = unaccepted_inert [OF session_invariant [OF assms(1)] assms(3,2,4)]
  have e: "fst (data_encrypt env t b p) = Inr (buf_reset_size b) \<and> po_shared (snd (data_encrypt env t b p)) = po_shared p"
    if "s = Primary"
    using inert [where b = b and t = t and bs = bs] assms(3) that by (simp add: data_encrypt_def)
  have "b_size (buf_reset_size b) = 0" "\<not> is_keepalive (buf_reset_size b)"
    by (simp_all add: buf_reset_size_def is_keepalive_def keepalive_message_def)
  then have d: "fst (data_decrypt env t ty b p) = Inr (False, buf_reset_size b)
      \<and> po_shared (snd (data_decrypt env t ty b p)) = po_shared p" if "select_key_context ty False p = Inr (s, k)"
    using inert [where b = b and t = t and bs = bs] that by (simp add: data_decrypt_def)
  have m: "try_key s (send_data_channel_message (se_proto env) t bs) k p = (Inr (), give_back s (lend p k) p)" for bs
    using inert [where b = b and t = t and bs = bs] by simp
  have h: "ps_net_out (po_shared (snd (keepalive_housekeeping env t p))) = ps_net_out (po_shared p)" if s: "s = Primary"
  proof (cases "t \<ge> po_keepalive_xmit p")
    case True
    have "po_shared (update_last_sent t (give_back Primary (lend p k) p)) = po_shared p"
      by (simp add: update_last_sent_def)
    moreover have "try_key Primary (send_keepalive (se_proto env) t) k p = (Inr (), give_back Primary (lend p k) p)"
      using m s by (simp add: send_keepalive_def [abs_def])
    ultimately show ?thesis
      using True assms(3) s
      keepalive_check_sends_nothing [where now = t and p = "update_last_sent t (give_back Primary (lend p k) p)" and env = env]
      by (simp add: keepalive_housekeeping_def)
  next
    case False
    with assms(3) s keepalive_check_sends_nothing [where now = t and p = p and env = env] show ?thesis by (simp add: keepalive_housekeeping_def)
  qed
  have x: "po_shared (snd (proto_send_explicit_exit_notify env t p)) = po_shared p"
    using assms(2) by (simp add: proto_send_explicit_exit_notify_def split: option.split)
  from e d m h x show ?thesis by simp
qed

section \<open>A session in the clear\<close>

definition plain_session :: "bool \<Rightarrow> (unit, unit) session_env" where
  "plain_session server =
     \<lparr>se_proto = plain_env server zeros_env null_dc, se_ssl = (), se_psid = [1, 2, 3, 4, 5, 6, 7, 8], se_dc_deferred = True\<rparr>"

definition plain_proto :: "(unit, unit) proto" where
  "plain_proto =
     \<lparr>po_primary = None, po_secondary = None, po_shared = plain_shared, po_upcoming_key_id = 0, po_n_key_ids = 0,
      po_keepalive_ping = dur_seconds 8, po_keepalive_xmit = Time 9000, po_active_calls = 0\<rparr>"

lemma reset_keys:
  "\<exists>sh. po_primary (proto_reset env now p) = Some (key_new (se_proto env) now (se_ssl env) (\<not> se_server env) 0 sh)
     \<and> po_secondary (proto_reset env now p) = None"
  by (auto simp: proto_reset_def make_key_def next_key_id_def Let_def reset_all_def on_wire_def update_last_sent_def)

theorem session_keys_wellformed_witness:
  "\<exists>k. po_primary (proto_reset (plain_session True) (Time 1024) plain_proto) = Some k \<and> kv_key_id (k_par k) < 8
     \<and> kv_state (k_par k) \<in> {S_INITIAL, S_WAIT_RESET, S_WAIT_RESET_ACK, S_WAIT_AUTH, S_WAIT_AUTH_ACK, ACTIVE}"
proof -
  let ?env = "plain_session True" and ?p = "proto_reset (plain_session True) (Time 1024) plain_proto"
  obtain sh where k: "po_primary ?p = Some (key_new (se_proto ?env) (Time 1024) (se_ssl ?env) (\<not> se_server ?env) 0 sh)"
    using reset_keys [of ?env "Time 1024" plain_proto] by blast
  have "session_reaches ?env ?p ?p" by (simp add: session_reaches_def)
  from session_keys_wellformed [OF this, of Primary] k show ?thesis
    by (simp add: plain_session_def plain_fields key_path_def)
qed

theorem session_no_data_before_auth_witness:
  "fst (data_encrypt (plain_session True) (Time 2048) (buf_view [1, 2, 3] True)
      (proto_reset (plain_session True) (Time 1024) plain_proto)) = Inr (buf_reset_size (buf_view [1, 2, 3] True))
   \<and> ps_net_out (po_shared (snd (keepalive_housekeeping (plain_session True) (Time 99999)
      (proto_reset (plain_session True) (Time 1024) plain_proto)))) = []"
proof -
  let ?env = "plain_session True" and ?p = "proto_reset (plain_session True) (Time 1024) plain_proto"
  obtain sh where k: "po_primary ?p = Some (key_new (se_proto ?env) (Time 1024) (se_ssl ?env) (\<not> se_server ?env) 0 sh)"
      "po_secondary ?p = None"
    using reset_keys [of ?env "Time 1024" plain_proto] by blast
  have r: "session_reaches ?env ?p ?p" by (simp add: session_reaches_def)
  have s: "se_server ?env" by (simp add: plain_session_def plain_fields)
  have slot: "slot_key Primary ?p = Some (key_new (se_proto ?env) (Time 1024) (se_ssl ?env) (\<not> se_server ?env) 0 sh)"
    using k by simp
  have none: "\<forall>c \<in> set (kp_auth_out (k_par (key_new (se_proto ?env) (Time 1024) (se_ssl ?env) (\<not> se_server ?env) 0 sh))).
      au_server_auth (pe_auth (se_proto ?env)) c \<noteq> Inr ()"
    by (simp add: key_new_fields)
  have "ps_net_out (po_shared ?p) = []"
    by (simp add: proto_reset_def make_key_def next_key_id_def Let_def reset_all_def on_wire_def update_last_sent_def
        proto_rekey_def on_key_def plain_proto_def plain_shared_def key_new_def stack_init_def negotiate_event_def set_events_def cache_op32_def)
  then show ?thesis
    using session_no_data_before_auth [OF r s slot none, of "Time 2048"] session_no_data_before_auth [OF r s slot none, of "Time 99999"]
    by simp
qed

end
