(* ===== verification/Session_Props.thy ===== *)
theory Session_Props
  imports Session_Life
begin

text \<open>
  The IDs of keys, the way packets find their key, and the keepalive of a session (\<^verbatim>\<open>ssl/proto.hpp\<close>
  \<open>ProtoContext\<close>).
\<close>

section \<open>Key IDs\<close>

definition nth_key_id :: "nat \<Rightarrow> u32" where
  "nth_key_id n = (if n = 0 then 0 else of_nat ((n - 1) mod 7 + 1))"

lemma nth_key_id_next:
  "(let up = (nth_key_id n + 1) AND KEY_ID_MASK in if up = 0 then 1 else up) = nth_key_id (Suc n)"
proof -
  have step: "(let up = (of_nat m + 1 :: u32) AND KEY_ID_MASK in if up = 0 then 1 else up)
      = of_nat (if m = 7 then 1 else m + 1)" if "m \<le> 7" for m :: nat
  proof -
    from that have "m \<in> {0, 1, 2, 3, 4, 5, 6, 7}" by auto
    then show ?thesis by (elim insertE emptyE) simp_all
  qed
  have "n mod 7 = (if (n - 1) mod 7 = 6 then 0 else (n - 1) mod 7 + 1)" if "n > 0"
    using that by (cases n) (simp_all add: mod_Suc)
  moreover have "(n - 1) mod 7 < 7" by simp
  ultimately show ?thesis
    using step [of "if n = 0 then 0 else (n - 1) mod 7 + 1"] by (auto simp: nth_key_id_def split: if_splits)
qed

text \<open>
  C39. The IDs a session gives to its keys from a reset on: the first is 0, no later one is, the others
  run through 1, ..., 7 in turn. The eighth key after the first has again the ID of the first of them.
\<close>

theorem key_ids_in_turn:
  assumes "po_upcoming_key_id p = 0"
  shows "fst (next_key_id (((snd \<circ> next_key_id) ^^ n) p)) = (if n = 0 then 0 else of_nat ((n - 1) mod 7 + 1))"
proof -
  have "po_upcoming_key_id (((snd \<circ> next_key_id) ^^ n) p) = nth_key_id n"
  proof (induction n)
    case 0
    then show ?case by (simp add: assms nth_key_id_def)
  next
    case (Suc n)
    with nth_key_id_next [of n] show ?case by (simp add: next_key_id_def Let_def split: if_splits)
  qed
  then show ?thesis by (simp add: next_key_id_def nth_key_id_def Let_def)
qed

section \<open>Packets and keys\<close>

definition addressed :: "('ssl, 'dc) session_env \<Rightarrow> ('ssl, 'dc) proto \<Rightarrow> u32 \<Rightarrow> key_slot \<Rightarrow> bool" where
  "addressed env p kid s \<longleftrightarrow>
     (case s of Primary \<Rightarrow> ki_primary (proto_key_ids env p) = Some kid
      | Secondary \<Rightarrow> ki_primary (proto_key_ids env p) \<noteq> Some kid \<and> ki_secondary (proto_key_ids env p) = Some kid)"

lemma select_key_iff:
  "select_key_context t control p = Inr (s, k) \<longleftrightarrow> slot_key s p = Some k
    \<and> pt_flags t AND 7 = (if s = Primary then 1 else 5) OR (if control then 2 else 0)"
  by (cases s; cases "pt_flags t AND 7 = 1 OR (if control then 2 else 0)")
    (auto simp: select_key_context_def Let_def split: option.splits if_splits bool.splits)

text \<open>
  C15. A packet finds its key: \<open>select_key_context\<close> gives a key for a data packet exactly when its head
  is legal and the key has the ID in the head, the newer of the two keys only when the primary one has
  another ID; for a control packet likewise, and besides the newer key for a soft reset, which has made it.
\<close>

theorem packet_finds_key:
  assumes "buf_wf b" "contents b = x # rest"
  defines "opc \<equiv> opcode_extract (ucast x)" and "kid \<equiv> key_id_extract (ucast x)"
  shows "select_key_context (proto_packet_type env p b) control p = Inr (s, k) \<longleftrightarrow>
    slot_key s p = Some k \<and> legal_opcode b opc (se_server env) \<and> (control \<longleftrightarrow> opc \<notin> {DATA_V1, DATA_V2})
    \<and> (addressed env p kid s \<or> s = Secondary \<and> soft_reset_key opc kid (proto_key_ids env p))"
proof -
  let ?ki = "proto_key_ids env p"
  define a where "a = key_flags opc kid ?ki"
  have server: "ki_server ?ki = se_server env" by (simp add: proto_key_ids_def)
  have pt: "proto_packet_type env p b = (case examine_opcode b opc (se_server env) of
       None \<Rightarrow> \<lparr>pt_flags = 0, pt_opcode = INVALID_OPCODE, pt_peer_id = - 1\<rparr>
     | Some t \<Rightarrow> t\<lparr>pt_flags := pt_flags t OR a\<rparr>)"
    using packet_type_of_cases [OF assms(1,2), of ?ki]
    unfolding proto_packet_type_def a_def opc_def kid_def server .
  have soft: "soft_reset_key opc kid ?ki \<Longrightarrow> opc = CONTROL_SOFT_RESET_V1"
    by (simp add: soft_reset_key_def)
  have ids: "ki_primary ?ki = map_option key_num (po_primary p)" "ki_secondary ?ki = map_option key_num (po_secondary p)"
    by (simp_all add: proto_key_ids_def key_num_def [abs_def])
  have a: "a = 13 \<and> soft_reset_key opc kid ?ki \<and> opc = CONTROL_SOFT_RESET_V1 \<and> ki_primary ?ki \<noteq> Some kid
      \<and> ki_secondary ?ki \<noteq> Some kid
    \<or> a = 1 \<and> ki_primary ?ki = Some kid \<and> \<not> soft_reset_key opc kid ?ki
    \<or> a = 5 \<and> ki_primary ?ki \<noteq> Some kid \<and> ki_secondary ?ki = Some kid \<and> \<not> soft_reset_key opc kid ?ki
    \<or> a = 0 \<and> ki_primary ?ki \<noteq> Some kid \<and> ki_secondary ?ki \<noteq> Some kid \<and> \<not> soft_reset_key opc kid ?ki"
    unfolding a_def key_flags_cases by (auto simp: soft_reset_key_def)
  let ?f = "pt_flags (proto_packet_type env p b) AND 7" and ?data = "opc = DATA_V1 \<or> opc = DATA_V2"
  have flags: "?f = (if legal_opcode b opc (se_server env) then (if ?data then a else PT_CONTROL OR a) AND 7 else 0)"
  proof (cases "examine_opcode b opc (se_server env)")
    case None
    with examine_opcode_None [of b opc "se_server env"] show ?thesis by (simp add: pt)
  next
    case (Some t)
    with examine_opcode_Some [OF Some] show ?thesis by (auto simp: pt)
  qed
  have dest: "?f = (if s = Primary then 1 else 5) OR (if control then 2 else 0) \<longleftrightarrow>
      legal_opcode b opc (se_server env) \<and> (control \<longleftrightarrow> \<not> ?data)
      \<and> (a = (if s = Primary then 1 else 5) \<or> s = Secondary \<and> a = 13)"
    using a unfolding flags by (cases s; elim disjE conjE) simp_all
  have "(a = (if s = Primary then 1 else 5) \<or> s = Secondary \<and> a = 13)
      \<longleftrightarrow> addressed env p kid s \<or> s = Secondary \<and> soft_reset_key opc kid ?ki"
    using a by (cases s) (auto simp: addressed_def)
  with dest show ?thesis unfolding select_key_iff by auto
qed

section \<open>Keepalive\<close>

lemma events_stack [simp]:
  "k_invalidated (on_ev f k) = k_invalidated k" "k_reason (on_ev f k) = k_reason k"
  by (simp_all add: on_ev_def)

lemma data_limit_add_stack:
  "k_invalidated (data_limit_add c now mode n k) = k_invalidated k \<and> k_reason (data_limit_add c now mode n k) = k_reason k"
  by (simp add: data_limit_add_def data_limit_event_def schedule_key_limit_renegotiation_def Let_def
      split: option.splits prod.splits)

definition key_wire_of :: "('ssl, 'dc) key \<Rightarrow> wire" where
  "key_wire_of k = ps_wire (kp_sh (k_par k))"

lemma shared_events [simp]: "kp_sh (set_events c n t p) = kp_sh p" "kp_sh (set_event c p) = kp_sh p"
  by (simp_all add: set_events_def set_event_def)

lemma shared_limit_reneg [simp]: "kp_sh (key_limit_reneg c ev t p) = kp_sh p"
  by (simp add: key_limit_reneg_def)

lemma shared_schedule [simp]: "kp_sh (k_par (schedule_key_limit_renegotiation c now k)) = kp_sh (k_par k)"
  by (simp add: schedule_key_limit_renegotiation_def Let_def on_ev_def)

lemma shared_limit_event [simp]: "kp_sh (k_par (data_limit_event c now st k)) = kp_sh (k_par k)"
  by (simp add: data_limit_event_def Let_def on_ev_def split: option.splits)

lemma data_limit_add_wire: "key_wire_of (data_limit_add c now mode n k) = key_wire_of k"
  by (simp add: data_limit_add_def key_wire_of_def Let_def split: option.splits prod.splits)

lemma do_encrypt_stack:
  assumes "do_encrypt env now hint b k = (r, k')"
  shows "k_invalidated k' = k_invalidated k \<and> k_reason k' = k_reason k \<and> key_wire_of k' = key_wire_of k"
proof -
  obtain r1 k1 where c: "(case kp_compress (k_par k) of
                      None \<Rightarrow> (Inr (maybe_mssfix k b), k)
                    | Some c \<Rightarrow>
                        (let (r, st) = comp_compress (pe_comp env) c hint (maybe_mssfix k b) (kp_comp_state (k_par k))
                         in (r, k\<lparr>k_par := (k_par k)\<lparr>kp_comp_state := st\<rparr>\<rparr>))) = (r1, k1)" by (metis surj_pair)
  have k1: "k_invalidated k1 = k_invalidated k \<and> k_reason k1 = k_reason k \<and> key_wire_of k1 = key_wire_of k"
    using c by (auto simp: key_wire_of_def split: option.splits prod.splits)
  note l = data_limit_add_stack [of "pe_ev env" now Encrypt _ k1] data_limit_add_wire [of "pe_ev env" now Encrypt _ k1]
  show ?thesis
    using assms k1 l
    by (auto simp: do_encrypt_def c Let_def key_wire_of_def split: sum.splits option.splits prod.splits)
qed

lemma send_message_stack:
  assumes "send_data_channel_message env now bs k = (r, k')"
  shows "k_invalidated k' = k_invalidated k \<and> k_reason k' = k_reason k \<and> key_wire_of k' = key_wire_of k"
proof -
  let ?m = "bindE (frame_prepare (pe_junk env) (pe_addr env) WRITE_DC_MSG (buf_alloc (pe_junk env) 0 0) (pe_frame env))
      (\<lambda>(_, b). buf_write (pe_junk env) bs b)"
  consider "k' = k" | b where "data_ready k" "?m = Inr b"
    using assms unfolding send_data_channel_message_def by (cases "data_ready k"; cases ?m) simp_all
  then show ?thesis
  proof cases
    case (2 b)
    obtain r1 k1 where e: "do_encrypt env now False b k = (r1, k1)" by fastforce
    have "k' = k1 \<or> (\<exists>sh. k' = k1\<lparr>k_par := on_sh sh (k_par k1)\<rparr> \<and> (\<forall>s. ps_wire (sh s) = ps_wire s))"
      using assms unfolding send_data_channel_message_def 2(2) if_P [OF 2(1)] sum.case e prod.case
      by (auto split: sum.splits)
    with do_encrypt_stack [OF e] show ?thesis by (auto simp: key_wire_of_def on_sh_def)
  qed simp
qed

lemma disconnect_slot:
  "slot_key s (disconnect env reason p) = map_option (\<lambda>k. key_invalidate (se_proto env) reason (lend p k)) (slot_key s p)"
proof -
  have sh: "kp_sh (k_par (key_invalidate e reason k)) = kp_sh (k_par k)" for e :: "('a, 'b) proto_env" and k
    by (simp add: key_invalidate_def stack_invalidate_sel [OF key_cb_events] invalidate_callback_def)
  have l: "kp_sh (k_par (lend p k)) = po_shared p" "lend q k = k\<lparr>k_par := (k_par k)\<lparr>kp_sh := po_shared q\<rparr>\<rparr>" for k q
    by (simp_all add: lend_def)
  show ?thesis
    by (cases s; cases "po_primary p"; cases "po_secondary p")
      (simp_all add: disconnect_def on_key_def give_back_def sh l)
qed

lemma invalidate_key:
  "k_invalidated (key_invalidate env reason (lend p k))"
  "k_reason (key_invalidate env reason (lend p k)) = (if k_invalidated k then k_reason k else reason)"
  by (simp_all add: key_invalidate_def stack_invalidate_sel [OF key_cb_events] lend_def)

definition same_validity :: "('ssl, 'dc) proto \<Rightarrow> ('ssl, 'dc) proto \<Rightarrow> bool" where
  "same_validity p p' \<longleftrightarrow> (\<forall>s. map_option (\<lambda>k. (k_invalidated k, k_reason k)) (slot_key s p')
     = map_option (\<lambda>k. (k_invalidated k, k_reason k)) (slot_key s p))"

lemma all_slots: "(\<forall>s. P s) \<longleftrightarrow> P Primary \<and> P Secondary"
  by (metis key_slot.exhaust)

lemma sent_keepalive:
  assumes "try_key Primary (send_keepalive (se_proto env) now) k p = (r, p')" "po_primary p = Some k"
  shows "same_validity p p' \<and> proto_wire p' = proto_wire p"
proof -
  obtain r1 k1 where s: "send_keepalive (se_proto env) now (lend p k) = (r1, k1)" by fastforce
  have "k_invalidated k1 = k_invalidated k \<and> k_reason k1 = k_reason k \<and> ps_wire (kp_sh (k_par k1)) = proto_wire p"
    using send_message_stack [OF s [unfolded send_keepalive_def]] by (simp add: lend_def key_wire_of_def)
  moreover have "p' = give_back Primary k1 p" using assms(1) s by (simp add: try_key_def)
  ultimately show ?thesis using assms(2) by (simp add: same_validity_def give_back_def all_slots)
qed

text \<open>The last part of \<open>housekeeping\<close>: the keepalive that is due is sent, then the deadline is looked at.\<close>

lemma keepalive_part:
  assumes "keepalive_housekeeping env now p = (Inr (), p')"
  shows "(now < cw_keepalive_expire (proto_wire p) \<longrightarrow> same_validity p p')
    \<and> (cw_keepalive_expire (proto_wire p) \<le> now \<longrightarrow>
         (\<forall>s k. slot_key s p = Some k \<longrightarrow> (\<exists>k'. slot_key s p' = Some k' \<and> k_invalidated k'
            \<and> k_reason k' = (if k_invalidated k then k_reason k else KEEPALIVE_TIMEOUT))))
    \<and> cw_keepalive_expire (proto_wire p') = cw_keepalive_expire (proto_wire p)"
proof -
  obtain q where q: "same_validity p q" "proto_wire q = proto_wire p"
    and p': "p' = (if now \<ge> cw_keepalive_expire (proto_wire q)
                   then disconnect env KEEPALIVE_TIMEOUT (proto_error KEEPALIVE_TIMEOUT q) else q)"
  proof (cases "\<exists>k. po_primary p = Some k \<and> now \<ge> po_keepalive_xmit p")
    case True
    then obtain k where k: "po_primary p = Some k" "now \<ge> po_keepalive_xmit p" by blast
    obtain r q where t: "try_key Primary (send_keepalive (se_proto env) now) k p = (r, q)" by fastforce
    note s = sent_keepalive [OF t k(1)]
    let ?q = "update_last_sent now q"
    have "same_validity p ?q" "proto_wire ?q = proto_wire p"
      using s by (simp_all add: update_last_sent_def same_validity_def all_slots)
    with that [of ?q] assms t k show thesis by (auto simp: keepalive_housekeeping_def split: sum.splits if_splits)
  next
    case False
    with that [of p] assms show thesis
      by (auto simp: keepalive_housekeeping_def same_validity_def split: option.splits if_splits)
  qed
  have "\<exists>k'. slot_key s p' = Some k' \<and> k_invalidated k'
      \<and> k_reason k' = (if k_invalidated k then k_reason k else KEEPALIVE_TIMEOUT)"
    if late: "cw_keepalive_expire (proto_wire p) \<le> now" and slot: "slot_key s p = Some k" for s k
  proof -
    have "map_option (\<lambda>k. (k_invalidated k, k_reason k)) (slot_key s q) = Some (k_invalidated k, k_reason k)"
      using q(1) slot by (simp add: same_validity_def)
    then obtain k1 where "slot_key s q = Some k1" "k_invalidated k1 = k_invalidated k" "k_reason k1 = k_reason k"
      by auto
    then have "slot_key s (proto_error KEEPALIVE_TIMEOUT q) = Some k1" by (cases s) (simp_all add: proto_error_def on_wire_def)
    then show ?thesis using late q(2) \<open>k_reason k1 = _\<close> \<open>k_invalidated k1 = _\<close>
      by (simp add: p' disconnect_slot invalidate_key)
  qed
  moreover have "cw_keepalive_expire (proto_wire p') = cw_keepalive_expire (proto_wire p)"
    using q(2) by (simp add: p' disconnect_wire proto_error_def on_wire_def)
  ultimately show ?thesis using q p' by (auto simp: not_le [symmetric])
qed

lemma keepalive_slots:
  fixes p :: "('ssl, 'dc) proto"
  assumes "keepalive_housekeeping env now p = (Inr (), p')" "slot_key s p = None"
  shows "slot_key s p' = None"
proof -
  have t: "slot_key s q = None" if "try_key Primary f k p = (r, q)" "po_primary p = Some k" for f k r q
    using that assms(2) by (cases s) (auto simp: try_key_def give_back_def split: prod.splits)
  have "slot_key s (disconnect env KEEPALIVE_TIMEOUT (proto_error KEEPALIVE_TIMEOUT q)) = None" if "slot_key s q = None" for q :: "('ssl, 'dc) proto"
    using that disconnect_slot [of s env KEEPALIVE_TIMEOUT "proto_error KEEPALIVE_TIMEOUT q"]
    by (cases s) (simp_all add: proto_error_def on_wire_def)
  moreover have "slot_key s (update_last_sent now q) = slot_key s q" for q :: "('ssl, 'dc) proto"
    by (cases s) (simp_all add: update_last_sent_def)
  note facts = this calculation
  show ?thesis
  proof (cases "\<exists>k. po_primary p = Some k \<and> now \<ge> po_keepalive_xmit p")
    case True
    then obtain k where k: "po_primary p = Some k" "now \<ge> po_keepalive_xmit p" by blast
    obtain r q where q: "try_key Primary (send_keepalive (se_proto env) now) k p = (r, q)" by fastforce
    have "slot_key s (update_last_sent now q) = None" using t [OF q k(1)] facts by simp
    then show ?thesis
      using assms(1) q k facts(2) [of "update_last_sent now q"] by (auto simp: keepalive_housekeeping_def split: sum.splits if_splits)
  next
    case False
    then show ?thesis
      using assms facts(2) [of p] by (auto simp: keepalive_housekeeping_def split: option.splits if_splits)
  qed
qed

text \<open>What \<open>housekeeping\<close> does before it: both keys retransmit, and the session is flushed.\<close>

definition before_keepalive ::
  "('ssl, 'dc) session_env \<Rightarrow> vtime \<Rightarrow> ('ssl, 'dc) proto \<Rightarrow> (unit res \<times> ('ssl, 'dc) proto) option" where
  "before_keepalive env now p =
     seq_step (when_key Primary (\<lambda>k. Some (key_retransmit (se_proto env) now k)) p) (\<lambda>_ p.
     seq_step (when_key Secondary (\<lambda>k. Some (key_retransmit (se_proto env) now k)) p) (\<lambda>_ p.
     proto_flush env now False p))"

lemma housekeeping_parts:
  assumes "housekeeping env now p0 = Some (Inr u, p')"
  shows "\<exists>p. before_keepalive env now p0 = Some (Inr (), p) \<and> keepalive_housekeeping env now p = (Inr (), p')"
  using assms unfolding housekeeping_def before_keepalive_def by (auto elim!: seq_step_Some)

text \<open>
  C16. The keepalive timeout. \<open>housekeeping\<close> is due no later than the deadline of a valid session. When it
  returns without an exception, it has retransmitted and flushed, which may invalidate keys for reasons
  of their own, and then looked at the deadline as the session has it: before it the validity of the
  keys is left alone; from it on every key ends up invalidated, one that was still valid with the
  reason \<open>KEEPALIVE_TIMEOUT\<close>, and none appears or disappears.
\<close>

theorem keepalive_timeout:
  assumes "housekeeping env now p0 = Some (Inr (), p')"
  shows "(\<exists>p. before_keepalive env now p0 = Some (Inr (), p)
        \<and> cw_keepalive_expire (proto_wire p') = cw_keepalive_expire (proto_wire p)
        \<and> (now < cw_keepalive_expire (proto_wire p') \<longrightarrow> same_validity p p')
        \<and> (cw_keepalive_expire (proto_wire p') \<le> now \<longrightarrow>
             (\<forall>s. rel_option (\<lambda>k k'. k_invalidated k'
                 \<and> k_reason k' = (if k_invalidated k then k_reason k else KEEPALIVE_TIMEOUT)) (slot_key s p) (slot_key s p'))))
    \<and> (\<not> proto_invalidated p0 \<longrightarrow> next_housekeeping p0 \<le> cw_keepalive_expire (proto_wire p0))"
proof -
  obtain p where p: "before_keepalive env now p0 = Some (Inr (), p)" "keepalive_housekeeping env now p = (Inr (), p')"
    using housekeeping_parts [OF assms] by blast
  note k = keepalive_part [OF p(2)]
  have "rel_option (\<lambda>k k'. k_invalidated k' \<and> k_reason k' = (if k_invalidated k then k_reason k else KEEPALIVE_TIMEOUT))
      (slot_key s p) (slot_key s p')" if late: "cw_keepalive_expire (proto_wire p') \<le> now" for s
  proof (cases "slot_key s p")
    case None
    then show ?thesis using keepalive_slots [OF p(2), of s] by simp
  next
    case (Some k)
    then show ?thesis using keepalive_part [OF p(2)] late by fastforce
  qed
  moreover have "next_housekeeping p0 \<le> cw_keepalive_expire (proto_wire p0)" if "\<not> proto_invalidated p0"
    using that by (simp add: next_housekeeping_def Let_def)
  ultimately show ?thesis using p(1) k by auto
qed

text \<open>
  A negotiation of the primary key that is not over by its deadline ends the session: the event is
  taken, both failures are counted, the primary key is invalidated with \<open>KEV_NEGOTIATE_ERROR\<close> (the
  reason \<open>HANDSHAKE_TIMEOUT\<close> that \<open>disconnect\<close> is given comes too late for it), a valid second key with
  \<open>HANDSHAKE_TIMEOUT\<close>, and the owner is to call \<open>housekeeping\<close> at once.
\<close>

lemma negotiation_timeout:
  assumes "po_primary p = Some k" "waits_for KEV_NEGOTIATE due k" "due \<le> now"
  shows "\<exists>p' k'. slot_events env now Primary p = (Inr True, p') \<and> po_primary p' = Some k'
    \<and> k_stats k' = k_stats k @ [KEV_NEGOTIATE_ERROR]
    \<and> cw_stats (proto_wire p') = cw_stats (proto_wire p) @ [HANDSHAKE_TIMEOUT]
    \<and> proto_invalidated p' \<and> invalidation_reason p' = Some KEV_NEGOTIATE_ERROR
    \<and> (\<forall>k2. po_secondary p = Some k2 \<longrightarrow> (\<exists>k2'. po_secondary p' = Some k2' \<and> k_invalidated k2'
         \<and> k_reason k2' = (if k_invalidated k2 then k_reason k2 else HANDSHAKE_TIMEOUT)))
    \<and> next_housekeeping p' = time_zero"
proof -
  let ?e = "se_proto env" and ?cb = "key_cb (se_proto env) now"
  have w: "waits_for KEV_NEGOTIATE due (lend p k)" using assms(2) by (simp add: waits_for_def lend_def)
  define k1 where "k1 = kev_error ?cb KEV_NEGOTIATE KEV_NEGOTIATE_ERROR (lend p k)"
  have pend: "event_pending ?cb (pe_ev ?e) now (lend p k) = (True, k1)"
    using w assms(3) by (simp add: event_pending_def process_next_event_def waits_for_def k1_def Let_def kev_error_def ev_ops)
  have k1: "k_invalidated k1" "k_reason k1 = KEV_NEGOTIATE_ERROR" "k_stats k1 = k_stats k @ [KEV_NEGOTIATE_ERROR]"
    "kv_current (k_par k1) = KEV_NEGOTIATE" "kp_sh (k_par k1) = po_shared p"
    using w by (simp_all add: k1_def kev_error_def stack_invalidate_sel [OF key_cb_events] waits_for_def lend_def ev_ops)
  define q where "q = proto_error HANDSHAKE_TIMEOUT (on_key Primary (on_ev reset_event) (give_back Primary k1 p))"
  define k2 where "k2 = on_ev reset_event k1"
  have q: "po_primary q = Some k2" "po_secondary q = po_secondary p"
    "cw_stats (proto_wire q) = cw_stats (proto_wire p) @ [HANDSHAKE_TIMEOUT]"
    using k1(5) by (simp_all add: q_def k2_def proto_error_def on_wire_def on_key_def give_back_def lend_def reset_event_def on_ev_def)
  have k2: "k_invalidated k2" "k_reason k2 = KEV_NEGOTIATE_ERROR" "k_stats k2 = k_stats k @ [KEV_NEGOTIATE_ERROR]"
    using k1 by (simp_all add: k2_def)
  define r where "r = disconnect env HANDSHAKE_TIMEOUT q"
  have r: "po_primary r = Some (key_invalidate ?e HANDSHAKE_TIMEOUT (lend q k2))"
    "po_secondary r = map_option (\<lambda>k. key_invalidate ?e HANDSHAKE_TIMEOUT (lend q k)) (po_secondary p)"
    "po_shared r = po_shared q"
    using disconnect_slot [of Primary env HANDSHAKE_TIMEOUT q] disconnect_slot [of Secondary env HANDSHAKE_TIMEOUT q] q
    by (simp_all add: r_def disconnect_wire)
  define k3 where "k3 = key_invalidate ?e HANDSHAKE_TIMEOUT (lend q k2)"
  have k3: "k_invalidated k3" "k_reason k3 = KEV_NEGOTIATE_ERROR" "k_stats k3 = k_stats k @ [KEV_NEGOTIATE_ERROR]"
    using k2 by (simp_all add: k3_def invalidate_key) (simp add: key_invalidate_def stack_invalidate_sel [OF key_cb_events] lend_def)
  have stay: "set_next_event_if_unspecified c now (lend r k3) = lend r k3" for c
    using k3(1) by (simp add: set_next_event_if_unspecified_def lend_def)
  have ev: "slot_events env now Primary p = (Inr True, give_back Primary (lend r k3) r)"
    using pend k1(4) assms(1) r(1)
    by (simp add: slot_events_def process_primary_event_def primary_event_def finish_event_def q_def [symmetric]
        r_def [symmetric] on_key_def [of _ "set_next_event_if_unspecified _ _"] k3_def [symmetric] stay Let_def)
  let ?p = "give_back Primary (lend r k3) r"
  have p': "po_primary ?p = Some (lend r k3)" "po_secondary ?p = po_secondary r" "po_shared ?p = po_shared r"
    by (simp_all add: give_back_def lend_def)
  have l: "k_invalidated (lend r k3)" "k_reason (lend r k3) = KEV_NEGOTIATE_ERROR"
    "k_stats (lend r k3) = k_stats k @ [KEV_NEGOTIATE_ERROR]"
    using k3 by (simp_all add: lend_def)
  have i: "proto_invalidated ?p" using p'(1) l(1) by (simp add: proto_invalidated_def)
  have "invalidation_reason ?p = Some KEV_NEGOTIATE_ERROR" using p'(1) l(2) by (simp add: invalidation_reason_def)
  moreover have "next_housekeeping ?p = time_zero" using i by (simp add: next_housekeeping_def)
  ultimately show ?thesis
    using ev i p' r(2,3) q(3) l(3) by (intro exI [of _ ?p] exI [of _ "lend r k3"]) (simp add: invalidate_key)
qed

section \<open>Pending acknowledgements\<close>

lemma gen_head_acks: "cw_acks (snd (gen_head h junk now op b w)) = cw_acks w"
  by (auto simp: gen_head_def gen_head_tls_auth_def gen_head_tls_plain_def andthen_def
      split: tls_wrap.split sum.split prod.split)

lemma generate_ack_acks:
  assumes "generate_ack h junk now pkt w = (r, w')"
  shows "ra_max (cw_acks w') = ra_max (cw_acks w)
    \<and> (r = Inr p \<longrightarrow> ra_data (cw_acks w') = drop (ra_max (cw_acks w)) (ra_data (cw_acks w)))"
proof -
  obtain r1 w1 where d: "prepend_dest_psid_and_acks (pk_buf pkt) w = (r1, w1)" by fastforce
  have 1: "ra_max (cw_acks w1) = ra_max (cw_acks w)
    \<and> (\<forall>b. r1 = Inr b \<longrightarrow> ra_data (cw_acks w1) = drop (ra_max (cw_acks w)) (ra_data (cw_acks w)))"
    using d by (auto simp: prepend_dest_psid_and_acks_def andthen_def ra_prepend_def Let_def bindE_Inr_iff min_def
        split: sum.splits if_splits prod.splits)
  show ?thesis
    using assms d 1 gen_head_acks [of h junk now ACK_V1 _ w1]
    by (auto simp: generate_ack_def andthen_def split: sum.splits prod.splits) (metis snd_conv)+
qed

text \<open>
  What a packet that carries acknowledgements is: behind the head (opcode and key ID, the session
  ID of the sender and, under tls-auth, the HMAC and the packet ID) the number of the IDs, the IDs and
  the session ID of the peer. The session IDs have eight bytes and the HMAC has its size.
\<close>

definition sound_wire :: "hmac_ctx \<Rightarrow> wire \<Rightarrow> bool" where
  "sound_wire h w \<longleftrightarrow> length (psid_id (cw_psid_self w)) = PSID_SIZE \<and> length (psid_id (cw_psid_peer w)) = PSID_SIZE
     \<and> (cw_wrap w = TLS_AUTH \<longrightarrow> ps_form (cw_pid_send w) = LONG_FORM \<and> hmac_ok h w
          \<and> (\<forall>x. length (h_final h x) = h_size h))"

definition carries_acks :: "wire \<Rightarrow> byte list \<Rightarrow> u32 list \<Rightarrow> bool" where
  "carries_acks w bs ids \<longleftrightarrow>
     (let n = (case cw_wrap w of TLS_PLAIN \<Rightarrow> 9 | TLS_AUTH \<Rightarrow> 17 + cw_hmac_size w)
      in n \<le> length bs \<and> hd bs = ucast (op_compose ACK_V1 (cw_key_id w)) \<and> drop n bs = ack_part ids (cw_psid_peer w))"

definition same_end :: "wire \<Rightarrow> wire \<Rightarrow> bool" where
  "same_end w w' \<longleftrightarrow> cw_wrap w' = cw_wrap w \<and> cw_hmac_size w' = cw_hmac_size w \<and> cw_key_id w' = cw_key_id w
     \<and> cw_psid_self w' = cw_psid_self w \<and> cw_psid_peer w' = cw_psid_peer w
     \<and> ps_form (cw_pid_send w') = ps_form (cw_pid_send w)"

lemma same_end_carries: "same_end w w' \<Longrightarrow> carries_acks w' = carries_acks w"
  by (cases "cw_wrap w") (simp_all add: same_end_def carries_acks_def fun_eq_iff)

lemma same_end_sound: "same_end w w' \<Longrightarrow> sound_wire h w \<Longrightarrow> sound_wire h w'"
  by (auto simp: same_end_def sound_wire_def hmac_ok_def)

lemma ack_front_contents:
  assumes "buf_push_front x b = Inr b'" "buf_wf b"
  shows "buf_wf b' \<and> contents b' = x # contents b"
  using assms prepend_Inr [of "[x]" b b'] by (simp add: push_front_prepend split: if_splits)

lemma send_next_form: "pid_send_next t s = (r, s') \<Longrightarrow> ps_form s' = ps_form s"
  by (auto simp: pid_send_next_def Let_def split: if_splits)

lemma gen_head_auth_contents:
  assumes "gen_head_tls_auth h junk now opcode b w = (Inr b', w')" "buf_wf b" "sound_wire h w" "cw_wrap w = TLS_AUTH"
  shows "same_end w w' \<and> (\<exists>mac pf. length mac = cw_hmac_size w \<and> length pf = 8
    \<and> contents b' = ucast (op_compose opcode (cw_key_id w)) # psid_id (cw_psid_self w) @ mac @ pf @ contents b)"
proof -
  let ?n = "cw_hmac_size w" and ?ps = "psid_id (cw_psid_self w)" and ?opb = "ucast (op_compose opcode (cw_key_id w)) :: byte"
  have w: "length ?ps = 8" "ps_form (cw_pid_send w) = LONG_FORM" "?n = h_size h" "?n < 1000000"
    "\<And>x. length (h_final h x) = h_size h"
    using assms(3,4) by (auto simp: sound_wire_def hmac_ok_def)
  obtain r s where wr: "pid_send_write_next junk True (seconds_since_epoch (cw_base w) now) (cw_pid_send w) b = (r, s)"
    by fastforce
  with assms(1) obtain b1 where r: "r = Inr b1" by (cases r) (auto simp: gen_head_tls_auth_def)
  with wr obtain p where p: "pid_send_next (seconds_since_epoch (cw_base w) now) (cw_pid_send w) = (Inr p, s)"
      "pid_write junk LONG_FORM True p b = Inr b1"
    using w(2) by (auto simp: pid_send_write_next_def split: prod.splits sum.splits)
  have 1: "buf_wf b1" "contents b1 = pid_bytes LONG_FORM p @ contents b"
    using pid_write_prepend [OF assms(2) p(2)] by simp_all
  have w': "w' = w\<lparr>cw_pid_send := s\<rparr>" using assms(1) wr r by (simp add: gen_head_tls_auth_def)
  obtain b2 b3 b4 d where b: "buf_prepend_alloc ?n b1 = Inr b2" "psid_prepend (cw_psid_self w) b2 = Inr b3"
      "buf_push_front ?opb b3 = Inr b4"
      "ovpn_hmac_gen h (contents b4) (1 + PSID_SIZE) ?n (pid_size LONG_FORM) = Inr d"
      "b' = b4\<lparr>b_mem := blit (b_offset b4) d (b_mem b4)\<rparr>"
    using assms(1) wr r by (auto simp: gen_head_tls_auth_def bindE_Inr_iff)
  have "?n \<le> b_offset b1" using b(1) by (auto simp: buf_prepend_alloc_def split: if_splits)
  then obtain hm where 2: "buf_wf b2" "contents b2 = hm @ contents b1" "length hm = ?n"
    using prepend_alloc_Inr [OF 1(1)] b(1) by fastforce
  have 3: "buf_wf b3" "contents b3 = ?ps @ contents b2"
    using prepend_Inr [OF b(2) [unfolded psid_prepend_def] 2(1)] by simp_all
  have 4: "buf_wf b4" "contents b4 = ?opb # ?ps @ hm @ pid_bytes LONG_FORM p @ contents b"
    using ack_front_contents [OF b(3) 3(1)] 3(2) 2(2) 1(2) by simp_all
  have pf: "length (pid_bytes LONG_FORM p) = 8" by (simp add: pid_size_def)
  define mac where "mac = h_final h (hmac_fed (pid_bytes LONG_FORM p) ?opb ?ps (contents b))"
  have mac: "length mac = ?n" by (simp add: mac_def w)
  have d: "d = ?opb # ?ps @ mac @ pid_bytes LONG_FORM p @ contents b"
    using ovpn_hmac_gen_cmp(1) [OF w(1) pf 2(3) w(3,4), of ?opb "contents b"] b(4) w(3,5)
    unfolding 4(2) mac_def by simp
  have "length d = b_size b4"
    using length_contents [OF 4(1)] mac 2(3) unfolding d 4(2) by simp
  from overwrite_contents(2) [OF 4(1) this] have "contents b' = d" using b(5) by simp
  moreover have "same_end w w'" using send_next_form [OF p(1)] by (simp add: w' same_end_def)
  ultimately show ?thesis using d mac pf by blast
qed

lemma generate_ack_carries:
  assumes "generate_ack h junk now pkt w = (Inr q, w')" "buf_wf (pk_buf pkt)" "contents (pk_buf pkt) = []"
    "sound_wire h w" "ra_data (cw_acks w) \<noteq> []" "0 < ra_max (cw_acks w)"
  shows "same_end w w' \<and> carries_acks w (contents (pk_buf q)) (acks_sent w)"
proof -
  let ?p = "psid_id (cw_psid_peer w)"
  obtain b2 w2 where d: "prepend_dest_psid_and_acks (pk_buf pkt) w = (Inr b2, w2)"
    and g: "gen_head h junk now ACK_V1 b2 w2 = (Inr (pk_buf q), w')"
    using assms(1) by (auto simp: generate_ack_def andthen_def split: prod.splits sum.splits)
  from d obtain b1 a where b1: "psid_prepend (cw_psid_peer w) (pk_buf pkt) = Inr b1" "ra_prepend b1 (cw_acks w) = Inr (b2, a)"
    and w2: "w2 = w\<lparr>cw_acks := a\<rparr>"
    using assms(5) by (auto simp: prepend_dest_psid_and_acks_def andthen_def split: if_splits sum.splits prod.splits)
  have 1: "buf_wf b1" "contents b1 = ?p"
    using prepend_Inr [OF b1(1) [unfolded psid_prepend_def] assms(2)] assms(3) by simp_all
  have "acks_sent w \<noteq> []" "take (min (length (ra_data (cw_acks w))) (ra_max (cw_acks w))) (ra_data (cw_acks w)) = acks_sent w"
    "length (acks_sent w) = min (length (ra_data (cw_acks w))) (ra_max (cw_acks w))"
    using assms(5,6) by (simp_all add: acks_sent_def min_def)
  then have 2: "buf_wf b2" "contents b2 = ack_part (acks_sent w) (cw_psid_peer w)"
    using ra_prepend_Inr(1,2) [OF 1(1) b1(2)] 1(2) by (simp_all add: ack_part_def)
  have e2: "same_end w w2" by (simp add: w2 same_end_def)
  note s2 = same_end_sound [OF e2 assms(4)]
  have f2: "cw_key_id w2 = cw_key_id w" "cw_psid_self w2 = cw_psid_self w" "cw_wrap w2 = cw_wrap w"
    "cw_hmac_size w2 = cw_hmac_size w" "length (psid_id (cw_psid_self w)) = 8"
    using assms(4) by (simp_all add: w2 sound_wire_def)
  show ?thesis
  proof (cases "cw_wrap w")
    case TLS_PLAIN
    then have "gen_head_tls_plain ACK_V1 b2 w2 = (Inr (pk_buf q), w')" using g f2(3) by (simp add: gen_head_def)
    then obtain b3 where b3: "psid_prepend (cw_psid_self w2) b2 = Inr b3" "w' = w2"
        "buf_push_front (ucast (op_compose ACK_V1 (cw_key_id w2))) b3 = Inr (pk_buf q)"
      unfolding gen_head_tls_plain_def prod.inject bindE_Inr_iff by blast
    have c3: "buf_wf b3" "contents b3 = psid_id (cw_psid_self w) @ contents b2"
      using prepend_Inr [OF b3(1) [unfolded psid_prepend_def] 2(1)] f2(2) by simp_all
    have "contents (pk_buf q) = ucast (op_compose ACK_V1 (cw_key_id w)) # psid_id (cw_psid_self w)
        @ ack_part (acks_sent w) (cw_psid_peer w)"
      using ack_front_contents [OF b3(3) c3(1)] c3(2) 2(2) f2(1) by simp
    with b3(2) have "w' = w2" "contents (pk_buf q) = ucast (op_compose ACK_V1 (cw_key_id w)) # psid_id (cw_psid_self w)
        @ ack_part (acks_sent w) (cw_psid_peer w)" by simp_all
    then show ?thesis using e2 f2(5) TLS_PLAIN by (simp add: carries_acks_def Let_def)
  next
    case TLS_AUTH
    with g f2(3) have "gen_head_tls_auth h junk now ACK_V1 b2 w2 = (Inr (pk_buf q), w')" by (simp add: gen_head_def)
    from gen_head_auth_contents [OF this 2(1) s2] TLS_AUTH f2 2(2) obtain mac pf where
      e: "same_end w2 w'" "length mac = cw_hmac_size w" "length pf = 8"
      "contents (pk_buf q) = ucast (op_compose ACK_V1 (cw_key_id w)) # psid_id (cw_psid_self w) @ mac @ pf
        @ ack_part (acks_sent w) (cw_psid_peer w)" by auto
    have "same_end w w'" using e2 e(1) by (simp add: same_end_def)
    moreover have "drop (17 + cw_hmac_size w) (contents (pk_buf q)) = ack_part (acks_sent w) (cw_psid_peer w)"
      using e(2-4) f2(5) by (simp add: drop_Cons')
    ultimately show ?thesis using e(2-4) f2(5) TLS_AUTH by (simp add: carries_acks_def Let_def)
  qed
qed

lemma key_generate_ack_acks:
  assumes "key_generate_ack env now (acks, p) = (r, acks', p')"
  shows "ra_max acks' = ra_max acks \<and> (r = Inr pkt \<longrightarrow> ra_data acks' = drop (ra_max acks) (ra_data acks))
    \<and> ps_net_out (kp_sh p') = ps_net_out (kp_sh p)"
    and "r = Inr pkt \<Longrightarrow> frame_ok (pe_frame env) \<Longrightarrow> sound_wire (pe_hmac_send env) (key_wire acks p) \<Longrightarrow>
      ra_data acks \<noteq> [] \<Longrightarrow> 0 < ra_max acks \<Longrightarrow>
      same_end (key_wire acks p) (key_wire acks' p')
        \<and> carries_acks (key_wire acks p) (contents (pk_buf pkt)) (take (ra_max acks) (ra_data acks))"
proof -
  let ?prep = "frame_prepare (pe_junk env) (pe_addr env) WRITE_ACK_STANDALONE (buf_alloc (pe_junk env) 0 0) (pe_frame env)"
  have ak: "cw_acks (key_wire acks p) = acks" by (simp add: key_wire_def)
  have "ra_max acks' = ra_max acks \<and> (r = Inr pkt \<longrightarrow> ra_data acks' = drop (ra_max acks) (ra_data acks))
      \<and> ps_net_out (kp_sh p') = ps_net_out (kp_sh p)
    \<and> (r = Inr pkt \<longrightarrow> frame_ok (pe_frame env) \<longrightarrow> sound_wire (pe_hmac_send env) (key_wire acks p) \<longrightarrow>
         ra_data acks \<noteq> [] \<longrightarrow> 0 < ra_max acks \<longrightarrow> same_end (key_wire acks p) (key_wire acks' p')
          \<and> carries_acks (key_wire acks p) (contents (pk_buf pkt)) (take (ra_max acks) (ra_data acks)))"
  proof (cases ?prep)
    case (Inl e)
    with assms show ?thesis by (auto simp: key_generate_ack_def)
  next
    case (Inr m)
    obtain n b where m: "m = (n, b)" by fastforce
    let ?pkt = "\<lparr>pk_opcode = INVALID_OPCODE, pk_buf = b\<rparr>"
    obtain r1 w where g: "generate_ack (pe_hmac_send env) (pe_junk env) now ?pkt (key_wire acks p) = (r1, w)" by fastforce
    have out: "r = r1" "acks' = cw_acks w" "p' = put_wire w p" using assms Inr m g by (auto simp: key_generate_ack_def)
    have "same_end (key_wire acks p) (key_wire acks' p')" if "same_end (key_wire acks p) w"
      using that by (simp add: out same_end_def key_wire_def put_wire_def on_sh_def)
    moreover have "buf_wf (buf_alloc (pe_junk env) 0 0)" "b_owned (buf_alloc (pe_junk env) 0 0)"
      by (simp_all add: buf_wf_def buf_alloc_def fresh_mem_def)
    then have "buf_wf b \<and> contents b = []" if "frame_ok (pe_frame env)"
      using frame_prepare_ok [OF that, of "buf_alloc (pe_junk env) 0 0" WRITE_ACK_STANDALONE "pe_junk env" "pe_addr env"] Inr m
      by auto
    moreover have "same_end (key_wire acks p) w \<and> carries_acks (key_wire acks p) (contents (pk_buf pkt)) (take (ra_max acks) (ra_data acks))"
      if "r1 = Inr pkt" "buf_wf b" "contents b = []" "sound_wire (pe_hmac_send env) (key_wire acks p)" "ra_data acks \<noteq> []" "0 < ra_max acks"
      using generate_ack_carries [OF g [unfolded that(1)]] that ak by (simp add: acks_sent_def)
    ultimately show ?thesis
      using generate_ack_acks [OF g, of pkt] ak out by (auto simp: put_wire_def on_sh_def)
  qed
  then show "ra_max acks' = ra_max acks \<and> (r = Inr pkt \<longrightarrow> ra_data acks' = drop (ra_max acks) (ra_data acks))
      \<and> ps_net_out (kp_sh p') = ps_net_out (kp_sh p)"
    and "r = Inr pkt \<Longrightarrow> frame_ok (pe_frame env) \<Longrightarrow> sound_wire (pe_hmac_send env) (key_wire acks p) \<Longrightarrow>
      ra_data acks \<noteq> [] \<Longrightarrow> 0 < ra_max acks \<Longrightarrow> same_end (key_wire acks p) (key_wire acks' p')
        \<and> carries_acks (key_wire acks p) (contents (pk_buf pkt)) (take (ra_max acks) (ra_data acks))"
    by blast+
qed

lemma rounds_left:
  fixes n m :: nat
  assumes "0 < n" "0 < m"
  shows "(n + m - 1) div m = Suc ((n - m + m - 1) div m)"
proof -
  have e: "n + m - 1 = m + (n - 1)" using assms by simp
  have "(m + x) div m = Suc (x div m)" for x using div_add_self1 [of m x] assms(2) by simp
  then have "(n + m - 1) div m = Suc ((n - 1) div m)" unfolding e .
  moreover have "(n - m + m - 1) div m = (n - 1) div m"
    using assms by (cases "n \<le> m") simp_all
  ultimately show ?thesis by simp
qed

text \<open>The packets sent, one for each part of the list.\<close>

definition acks_out :: "('ssl, 'dc) proto_env \<Rightarrow> ('ssl, 'dc) key \<Rightarrow> byte list list \<Rightarrow> bool" where
  "acks_out env k outs \<longleftrightarrow>
     length outs = (length (ra_data (k_xmit_acks k)) + ra_max (k_xmit_acks k) - 1) div ra_max (k_xmit_acks k)
     \<and> (frame_ok (pe_frame env) \<and> sound_wire (pe_hmac_send env) (key_wire (k_xmit_acks k) (k_par k)) \<longrightarrow>
          (\<exists>parts. list_all2 (carries_acks (key_wire (k_xmit_acks k) (k_par k))) outs parts
             \<and> concat parts = ra_data (k_xmit_acks k) \<and> (\<forall>part \<in> set parts. length part \<le> ra_max (k_xmit_acks k))))"

lemma send_acks_returns:
  assumes "ra_max (k_xmit_acks k) > 0"
  shows "\<exists>r k'. send_acks_loop (key_cb env now) k = Some (r, k')
    \<and> (r = Inr () \<longrightarrow> ra_data (k_xmit_acks k') = []
        \<and> (\<exists>outs. ps_net_out (kp_sh (k_par k')) = ps_net_out (kp_sh (k_par k)) @ outs \<and> acks_out env k outs))"
  using assms
proof (induction "length (ra_data (k_xmit_acks k))" arbitrary: k rule: less_induct)
  case less
  let ?cb = "key_cb env now" and ?m = "ra_max (k_xmit_acks k)" and ?n = "length (ra_data (k_xmit_acks k))"
  let ?w = "key_wire (k_xmit_acks k) (k_par k)"
  note rec = send_acks_loop.simps [of ?cb k]
  show ?case
  proof (cases "ra_data (k_xmit_acks k) = []")
    case True
    then have "acks_out env k []" using less(2) by (simp add: acks_out_def)
    with rec True show ?thesis by (intro exI [of _ "Inr ()"] exI [of _ k]) simp
  next
    case False
    obtain r acks p where g: "key_generate_ack env now (k_xmit_acks k, k_par k) = (r, acks, p)" by (metis prod_cases3)
    show ?thesis
    proof (cases r)
      case (Inl e)
      with rec False g show ?thesis by (simp add: key_cb_def)
    next
      case (Inr pkt)
      note a = key_generate_ack_acks [OF g, of pkt]
      let ?k = "k\<lparr>k_xmit_acks := acks, k_par := key_net_send pkt NET_SEND_ACK p\<rparr>"
      let ?w' = "key_wire acks (key_net_send pkt NET_SEND_ACK p)"
      have w': "?w' = key_wire acks p" by (simp add: key_wire_def key_net_send_def on_sh_def key_tcp_def)
      have out: "ps_net_out (kp_sh (k_par ?k)) = ps_net_out (kp_sh (k_par k)) @ [contents (pk_buf pkt)]"
        using a(1) by (simp add: key_net_send_def on_sh_def)
      have left: "ra_data acks = drop ?m (ra_data (k_xmit_acks k))" "ra_max acks = ?m" using a(1) Inr by simp_all
      have "?n > 0" using False by simp
      then have "length (ra_data (k_xmit_acks ?k)) < ?n" "ra_max (k_xmit_acks ?k) > 0"
        using left less(2) by simp_all
      from less(1) [OF this] obtain r' k' where ih: "send_acks_loop ?cb ?k = Some (r', k')"
        "r' = Inr () \<longrightarrow> ra_data (k_xmit_acks k') = []
          \<and> (\<exists>outs. ps_net_out (kp_sh (k_par k')) = ps_net_out (kp_sh (k_par ?k)) @ outs \<and> acks_out env ?k outs)" by blast
      have len: "(?n + ?m - 1) div ?m = Suc ((?n - ?m + ?m - 1) div ?m)"
        by (rule rounds_left) (use \<open>?n > 0\<close> less(2) in simp_all)
      have "acks_out env k (contents (pk_buf pkt) # outs)" if outs: "acks_out env ?k outs" for outs
      proof -
        have "\<exists>parts. list_all2 (carries_acks ?w) (contents (pk_buf pkt) # outs) parts \<and> concat parts = ra_data (k_xmit_acks k)
            \<and> (\<forall>part \<in> set parts. length part \<le> ?m)"
          if sound: "frame_ok (pe_frame env)" "sound_wire (pe_hmac_send env) ?w"
        proof -
          have c: "same_end ?w (key_wire acks p)" "carries_acks ?w (contents (pk_buf pkt)) (take ?m (ra_data (k_xmit_acks k)))"
            using a(2) [OF Inr sound False less(2)] by simp_all
          have "sound_wire (pe_hmac_send env) (key_wire (k_xmit_acks ?k) (k_par ?k))"
            using same_end_sound [OF c(1) sound(2)] w' by simp
          with outs sound(1) obtain parts where
            "list_all2 (carries_acks (key_wire (k_xmit_acks ?k) (k_par ?k))) outs parts"
            "concat parts = ra_data (k_xmit_acks ?k)" "\<forall>part \<in> set parts. length part \<le> ra_max (k_xmit_acks ?k)"
            by (auto simp: acks_out_def)
          then have "list_all2 (carries_acks ?w) outs parts" "concat parts = drop ?m (ra_data (k_xmit_acks k))"
            "\<forall>part \<in> set parts. length part \<le> ?m"
            using w' same_end_carries [OF c(1)] left by simp_all
          with c(2) show ?thesis by (intro exI [of _ "take ?m (ra_data (k_xmit_acks k)) # parts"]) simp
        qed
        with outs len left show ?thesis by (simp add: acks_out_def)
      qed
      with ih rec False g Inr out show ?thesis by (fastforce simp: key_cb_def)
    qed
  qed
qed

text \<open>
  C26. \<open>send_pending_acks\<close> of a valid key always returns: its loop takes IDs off the list in every round,
  as the constructor of the list allows at least one per packet. When nothing is thrown on the way, the
  list is empty and as few packets as the limit allows have gone out, ACK_V1 packets of this key that
  carry the pending IDs in their order, each no more than the limit (for a frame that can be prepared,
  session IDs of eight bytes and an HMAC of its size).
\<close>

theorem pending_acks_return:
  assumes "k_xmit_acks k = (ra_new max_ack_list)\<lparr>ra_data := ids\<rparr>" "\<not> k_invalidated k"
  shows "\<exists>r k'. send_pending_acks (key_cb env now) k = Some (r, k')
    \<and> (r = Inr () \<longrightarrow> ra_data (k_xmit_acks k') = []
        \<and> (\<exists>outs. ps_net_out (kp_sh (k_par k')) = ps_net_out (kp_sh (k_par k)) @ outs
            \<and> length outs = (length ids + ra_max (ra_new max_ack_list) - 1) div ra_max (ra_new max_ack_list)
            \<and> (frame_ok (pe_frame env) \<and> sound_wire (pe_hmac_send env) (key_wire (k_xmit_acks k) (k_par k)) \<longrightarrow>
                (\<exists>parts. list_all2 (carries_acks (key_wire (k_xmit_acks k) (k_par k))) outs parts \<and> concat parts = ids
                   \<and> (\<forall>part \<in> set parts. length part \<le> ra_max (ra_new max_ack_list))))))"
proof -
  have m: "ra_max (k_xmit_acks k) = ra_max (ra_new max_ack_list)" "ra_data (k_xmit_acks k) = ids"
    "ra_max (k_xmit_acks k) > 0"
    using assms(1) by (simp_all add: ra_new_def)
  from send_acks_returns [OF m(3), of env now] show ?thesis
    unfolding m(1,2) acks_out_def send_pending_acks_def using assms(2) by simp
qed

section \<open>The properties at work\<close>

theorem key_ids_in_turn_witness:
  "fst (next_key_id (((snd \<circ> next_key_id) ^^ 8) plain_proto)) = 1"
  using key_ids_in_turn [of plain_proto 8] by (simp add: plain_proto_def)

text \<open>A session that has one key, with the ID 3.\<close>

definition one_key :: "(unit, unit) proto" where
  "one_key = plain_proto\<lparr>po_primary := Some (plain_new False zeros_env null_dc)\<rparr>"

lemma plain_new_num: "key_num (plain_new server ce ops) = 3"
  by (simp add: plain_new_def key_new_num)

theorem packet_finds_key_witness:
  "select_key_context (proto_packet_type (plain_session False) one_key (buf_view [0x33, 1, 2, 3] True)) False one_key
   = Inr (Primary, plain_new False zeros_env null_dc)"
proof -
  let ?b = "buf_view [0x33, 1, 2, 3] True"
  have b: "buf_wf ?b" "contents ?b = 0x33 # [1, 2, 3]"
    by (simp_all add: buf_wf_def buf_view_def contents_def)
  have a: "addressed (plain_session False) one_key 3 Primary"
    using plain_new_num [of False zeros_env null_dc]
    by (simp add: addressed_def proto_key_ids_def one_key_def key_num_def)
  have x: "opcode_extract (ucast (0x33 :: byte)) = DATA_V1" "key_id_extract (ucast (0x33 :: byte)) = 3"
    by (simp_all add: opcode_extract_def key_id_extract_def)
  show ?thesis
    using packet_finds_key [OF b, of "plain_session False" one_key False Primary "plain_new False zeros_env null_dc"] a
    unfolding x by (simp add: one_key_def legal_opcode_def)
qed

lemma plain_new_waits: "waits_for KEV_NEGOTIATE (Time 62464) (plain_new server ce ops)"
proof -
  have "time_add (Time 1024) (dur_seconds 60) = Time 62464"
    by (simp add: time_add_def dur_seconds_def time_is_infinite_def dur_is_infinite_def)
  then show ?thesis
    by (simp add: waits_for_def plain_new_def key_new_def stack_init_def negotiate_event_def set_events_def
        cache_op32_def plain_env_def plain_config_def)
qed

text \<open>At 8 seconds nothing of this key is due but the keepalive timeout.\<close>

lemma one_key_housekeeping:
  shows one_key_before: "before_keepalive (plain_session False) (Time 8000) one_key = Some (Inr (), one_key)"
    and "\<exists>p'. housekeeping (plain_session False) (Time 8000) one_key = Some (Inr (), p')
     \<and> cw_keepalive_expire (proto_wire p') = Time 0"
proof -
  let ?env = "plain_session False" and ?k = "plain_new False zeros_env null_dc"
  have early: "\<not> Time 8000 \<ge> Time 9000" "\<not> Time 62464 \<le> Time 8000" "cw_keepalive_expire (proto_wire one_key) = Time 0"
    by (simp_all add: less_eq_vtime_def one_key_def plain_proto_def plain_shared_def plain_wire_def)
  have k: "lend one_key ?k = ?k" "kp_sh (k_par ?k) = plain_shared"
    by (simp_all add: lend_def one_key_def plain_proto_def plain_new_def key_new_def stack_init_def negotiate_event_def
        set_events_def cache_op32_def)
  have one: "give_back Primary ?k one_key = one_key"
    by (simp add: give_back_def k one_key_def plain_proto_def)
  have slots: "po_primary one_key = Some ?k" "po_secondary one_key = None" "po_keepalive_xmit one_key = Time 9000"
    by (simp_all add: one_key_def plain_proto_def)
  have retr: "key_retransmit (se_proto ?env) (Time 8000) ?k = (Inr (), ?k)"
  proof -
    have "k_next_retransmit ?k = time_infinite"
      by (simp add: plain_new_def key_new_def stack_init_def)
    moreover have "\<not> time_infinite \<le> Time 8000" by code_simp
    ultimately show ?thesis by (simp add: key_retransmit_def stack_retransmit_def)
  qed
  have ev: "event_pending (key_cb (se_proto ?env) (Time 8000)) (pe_ev (se_proto ?env)) (Time 8000) ?k = (False, ?k)"
    using plain_new_waits [of False zeros_env null_dc] early(2) by (simp add: event_pending_def waits_for_def)
  have fl: "proto_flush ?env (Time 8000) False one_key = Some (Inr (), one_key)"
    using ev by (simp add: proto_flush_def process_events_def slot_events_def slots k one)
  obtain p' where h: "keepalive_housekeeping ?env (Time 8000) one_key = (Inr (), p')"
    using early(1) by (simp add: keepalive_housekeeping_def slots)
  have "housekeeping ?env (Time 8000) one_key = Some (Inr (), p')"
    using retr fl h by (simp add: housekeeping_def when_key_def run_key_def seq_step_def slots k one)
  then show "\<exists>p'. housekeeping ?env (Time 8000) one_key = Some (Inr (), p') \<and> cw_keepalive_expire (proto_wire p') = Time 0"
    using keepalive_part [OF h] early(3) by auto
  show "before_keepalive ?env (Time 8000) one_key = Some (Inr (), one_key)"
    using retr fl by (simp add: before_keepalive_def when_key_def run_key_def seq_step_def slots k one)
qed

theorem keepalive_timeout_witness:
  "\<exists>p' k. housekeeping (plain_session False) (Time 8000) one_key = Some (Inr (), p')
     \<and> po_primary p' = Some k \<and> k_invalidated k"
proof -
  obtain p' where h: "housekeeping (plain_session False) (Time 8000) one_key = Some (Inr (), p')"
    "cw_keepalive_expire (proto_wire p') = Time 0" using one_key_housekeeping(2) by blast
  have le: "cw_keepalive_expire (proto_wire p') \<le> Time 8000" by (simp add: h(2) less_eq_vtime_def)
  from conjunct1 [OF keepalive_timeout [OF h(1)]] obtain p where
    p: "before_keepalive (plain_session False) (Time 8000) one_key = Some (Inr (), p)"
      "cw_keepalive_expire (proto_wire p') \<le> Time 8000 \<longrightarrow> (\<forall>s. rel_option (\<lambda>k k'. k_invalidated k'
         \<and> k_reason k' = (if k_invalidated k then k_reason k else KEEPALIVE_TIMEOUT)) (slot_key s p) (slot_key s p'))"
    by blast
  have "p = one_key" using p(1) one_key_before by simp
  then have "po_primary p = Some (plain_new False zeros_env null_dc)" by (simp add: one_key_def)
  with p(2) [rule_format, OF le, of Primary] obtain k where "po_primary p' = Some k" "k_invalidated k"
    by (cases "po_primary p'") auto
  with h(1) show ?thesis by blast
qed

lemma negotiation_timeout_at:
  "\<exists>p'. slot_events (plain_session False) (Time 70000) Primary one_key = (Inr True, p')
     \<and> invalidation_reason p' = Some KEV_NEGOTIATE_ERROR"
proof -
  have "po_primary one_key = Some (plain_new False zeros_env null_dc)" "Time 62464 \<le> Time 70000"
    by (simp_all add: one_key_def less_eq_vtime_def)
  from negotiation_timeout [OF this(1) plain_new_waits this(2), of "plain_session False"] show ?thesis by blast
qed

text \<open>A key with two pending acknowledgements.\<close>

definition ack_key :: "(unit, unit) key" where
  "ack_key = (plain_new False zeros_env null_dc)\<lparr>k_xmit_acks := (ra_new 4)\<lparr>ra_data := [5, 7]\<rparr>\<rparr>"

lemma ack_key_fields:
  "k_xmit_acks ack_key = (ra_new 4)\<lparr>ra_data := [5, 7]\<rparr>" "\<not> k_invalidated ack_key" "ps_net_out (kp_sh (k_par ack_key)) = []"
  "ps_wire (kp_sh (k_par ack_key)) = plain_wire" "kv_key_id (k_par ack_key) = 3"
  by (simp_all add: ack_key_def plain_new_def key_new_def stack_init_def negotiate_event_def set_events_def cache_op32_def
      plain_shared_def)

lemma ack_key_wire:
  "sound_wire (pe_hmac_send (plain_env server ce ops)) (key_wire acks (k_par ack_key))"
  "cw_wrap (key_wire acks (k_par ack_key)) = TLS_PLAIN" "cw_key_id (key_wire acks (k_par ack_key)) = 3"
  "psid_id (cw_psid_peer (key_wire acks (k_par ack_key))) = [8, 7, 6, 5, 4, 3, 2, 1]"
  by (simp_all add: sound_wire_def key_wire_def ack_key_fields plain_wire_def)

lemma ack_key_generates:
  "\<exists>pkt p. key_generate_ack (plain_env False zeros_env null_dc) now (k_xmit_acks ack_key, k_par ack_key) = (Inr pkt, ra_new 4, p)"
proof -
  let ?e = "plain_env False zeros_env null_dc" and ?a = "k_xmit_acks ack_key"
  let ?w = "key_wire ?a (k_par ack_key)"
  have wf: "buf_wf (buf_alloc (\<lambda>_. 0) 0 0)" "b_owned (buf_alloc (\<lambda>_. 0) 0 0)"
    by (simp_all add: buf_wf_def buf_alloc_def fresh_mem_def)
  have "WRITE_ACK_STANDALONE < N_ALIGN_CONTEXTS" by simp
  from frame_prepare_ok [OF plain_frame_ok wf this] obtain n b where
    b: "frame_prepare (\<lambda>_. 0) 0 WRITE_ACK_STANDALONE (buf_alloc (\<lambda>_. 0) 0 0) plain_frame = Inr (n, b)" "buf_wf b"
    "fc_headroom (plain_frame ! WRITE_ACK_STANDALONE) \<le> b_offset b" by blast
  have room: "26 \<le> b_offset b"
    using b(3) by (simp add: plain_frame_def frame_of_context_def make_context_def recalc_derived_def)
  have cs: "can_send ?w" by (simp add: can_send_def key_wire_def ack_key_fields plain_wire_def ra_new_def)
  have part: "length (ack_part (acks_sent ?w) (cw_psid_peer ?w)) = 17"
    by (simp add: ack_part_def acks_sent_def key_wire_def ack_key_fields plain_wire_def ra_new_def)
  then have le: "length (ack_part (acks_sent ?w) (cw_psid_peer ?w)) \<le> b_offset b" using room by simp
  let ?w1 = "?w\<lparr>cw_acks := (cw_acks ?w)\<lparr>ra_data := drop (ra_max (cw_acks ?w)) (ra_data (cw_acks ?w))\<rparr>\<rparr>"
  obtain b1 where b1: "prepend_dest_psid_and_acks b ?w = (Inr b1, ?w1)" "buf_wf b1" "b_offset b1 = b_offset b - 17"
    using prepend_acks_Inr [OF b(2) cs le] part by auto
  have cs1: "can_send ?w1" using cs by (auto simp: can_send_def)
  obtain b2 where b2: "gen_head_tls_plain ACK_V1 b1 ?w1 = (Inr b2, ?w1)"
    using gen_head_plain_Inr [OF b1(2) cs1] b1(3) room by fastforce
  have "generate_ack h junk now \<lparr>pk_opcode = INVALID_OPCODE, pk_buf = b\<rparr> ?w = (Inr \<lparr>pk_opcode = INVALID_OPCODE, pk_buf = b2\<rparr>, ?w1)" for h junk
    using b1(1) b2 ack_key_wire(2) by (simp add: generate_ack_def gen_head_def)
  moreover have "cw_acks ?w1 = ra_new 4" by (simp add: key_wire_def ack_key_fields ra_new_def)
  ultimately show ?thesis using b(1) by (simp add: key_generate_ack_def plain_fields)
qed

theorem pending_acks_return_witness:
  "\<exists>k' out part. send_pending_acks (key_cb (plain_env False zeros_env null_dc) (Time 2048)) ack_key = Some (Inr (), k')
     \<and> ps_net_out (kp_sh (k_par k')) = [out] \<and> drop 9 out = ack_part [5, 7] part \<and> psid_id part = [8, 7, 6, 5, 4, 3, 2, 1]"
proof -
  let ?e = "plain_env False zeros_env null_dc" and ?w = "key_wire (k_xmit_acks ack_key) (k_par ack_key)"
  obtain pkt p where g: "key_generate_ack ?e (Time 2048) (k_xmit_acks ack_key, k_par ack_key) = (Inr pkt, ra_new 4, p)"
    using ack_key_generates by blast
  let ?k = "ack_key\<lparr>k_xmit_acks := ra_new 4, k_par := key_net_send pkt NET_SEND_ACK p\<rparr>"
  have r: "send_pending_acks (key_cb ?e (Time 2048)) ack_key = Some (Inr (), ?k)"
    using g send_acks_loop.simps [of "key_cb ?e (Time 2048)" ack_key] send_acks_loop.simps [of "key_cb ?e (Time 2048)" ?k]
    by (simp add: send_pending_acks_def ack_key_fields ra_new_def key_cb_def)
  from pending_acks_return [OF ack_key_fields(1,2), of ?e "Time 2048"] r obtain outs where
    o: "ps_net_out (kp_sh (k_par ?k)) = outs" "length outs = (length [5 :: u32, 7] + ra_max (ra_new 4) - 1) div ra_max (ra_new 4)"
      "frame_ok (pe_frame ?e) \<and> sound_wire (pe_hmac_send ?e) ?w \<longrightarrow>
        (\<exists>parts. list_all2 (carries_acks ?w) outs parts \<and> concat parts = [5, 7])"
    unfolding ack_key_fields(3) by auto
  have "length outs = 1" using o(2) by (simp add: ra_new_def)
  then obtain out where out: "outs = [out]" by (cases outs) auto
  have "frame_ok (pe_frame ?e)" using plain_frame_ok by (simp add: plain_fields)
  with o(3) ack_key_wire(1) [of False zeros_env null_dc "k_xmit_acks ack_key"] out obtain ids where "carries_acks ?w out ids" "ids = [5, 7]"
    by (auto simp: list_all2_Cons1)
  then have "drop 9 out = ack_part [5, 7] (cw_psid_peer ?w)" using ack_key_wire(2) by (simp add: carries_acks_def)
  with r o(1) out ack_key_wire(4) show ?thesis by blast
qed

end
