(* ===== verification/Unicode.thy ===== *)
theory Unicode
  imports Text_Codecs
begin

text \<open>
  \<^verbatim>\<open>common/unicode.hpp\<close> and the test of a UTF-8 sequence in \<^verbatim>\<open>common/unicode-impl.hpp\<close>, with the
  character classes of \<^verbatim>\<open>common/string.hpp\<close> (the C library's, in the C locale).

  A byte is read at an offset of a string: behind its last character there is the NUL of
  \<open>c_str()\<close>, and behind that whatever the memory holds, an argument \<open>mem\<close> of the functions
  whose code can read there. Flags and limits are 64-bit words, as in the code, where the flags
  of value \<open>1 << 31\<close> are negative numbers and so set all high bits.
\<close>

section \<open>Character classes\<close>

definition is_space :: "char \<Rightarrow> bool" where
  "is_space c = (let n = of_char c :: nat in n = 32 \<or> (9 \<le> n \<and> n \<le> 13))"

definition is_ctrl :: "char \<Rightarrow> bool" where
  "is_ctrl c = (let n = of_char c :: nat in n < 32 \<or> n = 127)"


section \<open>Bytes of a string, legal sequences\<close>

definition str_byte :: "(nat \<Rightarrow> byte) \<Rightarrow> string \<Rightarrow> nat \<Rightarrow> nat" where
  "str_byte mem str i =
     (if i < length str then of_char (str ! i) else if i = length str then 0 else unat (mem i))"

definition trailing_bytes :: "nat \<Rightarrow> nat" where
  "trailing_bytes c =
     (if c < 0xC0 then 0 else if c < 0xE0 then 1 else if c < 0xF0 then 2
      else if c < 0xF8 then 3 else if c < 0xFC then 4 else 5)"

text \<open>The cases of the outer switch fall through; \<open>source\<close> gives the byte at an offset.\<close>

definition legal_second :: "nat \<Rightarrow> nat \<Rightarrow> bool" where
  "legal_second b0 a =
     (a \<le> 0xBF \<and>
      (if b0 = 0xE0 then a \<ge> 0xA0 else if b0 = 0xED then a \<le> 0x9F
       else if b0 = 0xF0 then a \<ge> 0x90 else if b0 = 0xF4 then a \<le> 0x8F
       else a \<ge> 0x80))"

definition is_legal_utf8 :: "(nat \<Rightarrow> nat) \<Rightarrow> nat \<Rightarrow> bool" where
  "is_legal_utf8 source len =
     (if len = 0 \<or> len > 4 then False
      else if len \<ge> 4 \<and> (source 3 < 0x80 \<or> source 3 > 0xBF) then False
      else if len \<ge> 3 \<and> (source 2 < 0x80 \<or> source 2 > 0xBF) then False
      else if len \<ge> 2 \<and> \<not> legal_second (source 0) (source 1) then False
      else if 0x80 \<le> source 0 \<and> source 0 < 0xC2 then False
      else \<not> source 0 > 0xF4)"

definition legal_at :: "(nat \<Rightarrow> byte) \<Rightarrow> string \<Rightarrow> nat \<Rightarrow> nat \<Rightarrow> bool" where
  "legal_at mem str pos len = is_legal_utf8 (\<lambda>i. str_byte mem str (pos + i)) len"


section \<open>Validation, indexing, truncation\<close>

abbreviation (input) UTF8_NO_CTRL :: u64 where "UTF8_NO_CTRL \<equiv> 0x40000000"
abbreviation (input) UTF8_NO_SPACE :: u64 where "UTF8_NO_SPACE \<equiv> 0xFFFFFFFF80000000"

text \<open>\<open>is_valid_utf8_uchar_buf\<close>: \<open>source\<close> is the rest of the buffer. Nothing is read behind it.\<close>

function valid_utf8_loop :: "u64 \<Rightarrow> nat \<Rightarrow> string \<Rightarrow> bool" where
  "valid_utf8_loop max_len_flags unicode_len source =
     (case source of
        [] \<Rightarrow> True
      | ch # _ \<Rightarrow>
        (let max_len = unat (max_len_flags AND (UTF8_NO_CTRL - 1));
             c = of_char ch :: nat;
             len = trailing_bytes c + 1
         in if c = 0 then False
            else if len > length source then False
            else if \<not> legal_at (\<lambda>_. 0) source 0 len then False
            else if len = 1 \<and> max_len_flags AND UTF8_NO_CTRL \<noteq> 0 \<and> is_ctrl ch then False
            else if len = 1 \<and> max_len_flags AND UTF8_NO_SPACE \<noteq> 0 \<and> is_space ch then False
            else if max_len \<noteq> 0 \<and> unicode_len + 1 > max_len then False
            else valid_utf8_loop max_len_flags (unicode_len + 1) (drop len source)))"
  by pat_completeness auto

termination
  by (relation "measure (\<lambda>(_, _, source). length source)") (auto split: list.splits)

declare valid_utf8_loop.simps [simp del]

definition is_valid_utf8 :: "string \<Rightarrow> u64 \<Rightarrow> bool" where
  "is_valid_utf8 str max_len_flags = valid_utf8_loop max_len_flags 0 str"

datatype utf8_status = UTF8_GOOD | UTF8_BAD | UTF8_RANGE

text \<open>The character index comes in and the byte position goes out in the same variable.\<close>

function utf8_index_loop :: "string \<Rightarrow> nat \<Rightarrow> nat \<Rightarrow> nat \<Rightarrow> utf8_status \<times> nat" where
  "utf8_index_loop str index upos pos =
     (if pos < length str
      then (let len = trailing_bytes (of_char (str ! pos)) + 1
            in if pos + len > length str \<or> \<not> legal_at (\<lambda>_. 0) str pos len then (UTF8_BAD, index)
               else if upos \<ge> index then (UTF8_GOOD, pos)
               else utf8_index_loop str index (upos + 1) (pos + len))
      else (UTF8_RANGE, index))"
  by pat_completeness auto

termination
  by (relation "measure (\<lambda>(str, _, _, pos). length str - pos)") auto

declare utf8_index_loop.simps [simp del]

definition utf8_index :: "string \<Rightarrow> nat \<Rightarrow> utf8_status \<times> nat" where
  "utf8_index str index = utf8_index_loop str index 0 0"

definition utf8_truncate :: "string \<Rightarrow> nat \<Rightarrow> string" where
  "utf8_truncate str max_len =
     (let (status, max_len) = utf8_index str max_len
      in if status = UTF8_GOOD \<or> status = UTF8_BAD then take max_len str else str)"


section \<open>Printable strings, lengths, iteration\<close>

abbreviation (input) UTF8_PASS_FMT :: u64 where "UTF8_PASS_FMT \<equiv> 0xFFFFFFFF80000000"
abbreviation (input) UTF8_FILTER :: u64 where "UTF8_FILTER \<equiv> 0x40000000"

definition printable_subst :: "u64 \<Rightarrow> char \<Rightarrow> char" where
  "printable_subst max_len_flags c =
     (if c = CHR 0x0D \<or> c = CHR 0x0A \<or> c = CHR 0x09
      then (if max_len_flags AND UTF8_PASS_FMT = 0 then CHR '' '' else c)
      else if max_len_flags AND UTF8_FILTER \<noteq> 0 then CHR 0x00
      else CHR ''?'')"

function utf8_printable_loop :: "string \<Rightarrow> u64 \<Rightarrow> string \<Rightarrow> nat \<Rightarrow> nat \<Rightarrow> string" where
  "utf8_printable_loop str max_len_flags ret upos pos =
     (let max_len = unat (max_len_flags AND (UTF8_FILTER - 1))
      in if pos < length str
         then (if max_len = 0 \<or> upos < max_len
               then (let c = of_char (str ! pos) :: nat;
                         len = trailing_bytes c + 1
                     in if pos + len \<le> length str \<and> c \<ge> 0x20 \<and> c \<noteq> 0x7F \<and> legal_at (\<lambda>_. 0) str pos len
                        then utf8_printable_loop str max_len_flags (ret @ take len (drop pos str)) (upos + 1) (pos + len)
                        else (let s = printable_subst max_len_flags (str ! pos)
                              in utf8_printable_loop str max_len_flags
                                   (if s \<noteq> CHR 0x00 then ret @ [s] else ret) (upos + 1) (pos + 1)))
               else ret @ ''...'')
         else ret)"
  by pat_completeness auto

termination
  by (relation "measure (\<lambda>(str, _, _, _, pos). length str - pos)") auto

declare utf8_printable_loop.simps [simp del]

definition utf8_printable :: "string \<Rightarrow> u64 \<Rightarrow> string" where
  "utf8_printable str max_len_flags = utf8_printable_loop str max_len_flags [] 0 0"

text \<open>The length of a sequence is bounded by the size of the whole string, not by what is left
  of it, so the test reads on behind the string.\<close>

function utf8_length_loop :: "(nat \<Rightarrow> byte) \<Rightarrow> string \<Rightarrow> nat \<Rightarrow> nat \<Rightarrow> nat" where
  "utf8_length_loop mem str upos pos =
     (if pos < length str
      then (let len = min (trailing_bytes (of_char (str ! pos)) + 1) (length str);
                len = (if \<not> legal_at mem str pos len then 1 else len)
            in utf8_length_loop mem str (upos + 1) (pos + len))
      else upos)"
  by pat_completeness auto

termination
  by (relation "measure (\<lambda>(_, str, _, pos). length str - pos)") (auto simp: Let_def min_def)

declare utf8_length_loop.simps [simp del]

definition utf8_length :: "(nat \<Rightarrow> byte) \<Rightarrow> string \<Rightarrow> nat" where
  "utf8_length mem str = utf8_length_loop mem str 0 0"

text \<open>\<open>UTF8Iterator\<close>: \<open>get\<close> gives the bytes of the next character, \<open>None\<close> for a malformed one
  (\<open>Char::valid\<close>), and the rest. The array of a character has four bytes, which a legal one
  fills at most.\<close>

definition utf8_iter_get :: "string \<Rightarrow> (string option \<times> string) option" where
  "utf8_iter_get str =
     (case str of
        [] \<Rightarrow> None
      | ch # rest \<Rightarrow>
        (let len = min (trailing_bytes (of_char ch) + 1) (length str)
         in if legal_at (\<lambda>_. 0) str 0 len then Some (Some (take (min len 4) str), drop (min len 4) str)
            else Some (None, rest)))"



section \<open>What validation and printing let through\<close>

lemma legal_at_append: "pos + len \<le> length s \<Longrightarrow> legal_at mem (s @ t) pos len = legal_at mem' s pos len"
  by (auto simp: legal_at_def is_legal_utf8_def str_byte_def nth_append)

lemma legal_at_drop: "pos + len \<le> length s \<Longrightarrow> legal_at mem (take len (drop pos s)) 0 len = legal_at mem' s pos len"
  by (auto simp: legal_at_def is_legal_utf8_def str_byte_def)

lemma valid_utf8_loop_Nil [simp]: "valid_utf8_loop fl n []"
  by (simp add: valid_utf8_loop.simps)

definition utf8_len_at :: "string \<Rightarrow> nat" where
  "utf8_len_at s = trailing_bytes (of_char (hd s)) + 1"

lemma valid_utf8_step:
  "s \<noteq> [] \<Longrightarrow> valid_utf8_loop 0 n s \<longleftrightarrow>
     of_char (hd s) \<noteq> (0::nat) \<and> utf8_len_at s \<le> length s \<and> legal_at (\<lambda>_. 0) s 0 (utf8_len_at s) \<and>
     valid_utf8_loop 0 (n + 1) (drop (utf8_len_at s) s)"
  by (cases s) (auto simp: valid_utf8_loop.simps [of 0 n] utf8_len_at_def Let_def split: if_splits)

lemma valid_utf8_count: "valid_utf8_loop 0 n s \<Longrightarrow> valid_utf8_loop 0 m s"
proof (induction "length s" arbitrary: s n m rule: less_induct)
  case less
  show ?case
  proof (cases "s = []")
    case False
    have "length (drop (utf8_len_at s) s) < length s" using False by (simp add: utf8_len_at_def)
    from less.hyps [OF this] less.prems False show ?thesis by (auto simp: valid_utf8_step [OF False])
  qed simp
qed

lemma valid_utf8_append:
  "valid_utf8_loop 0 n a \<Longrightarrow> valid_utf8_loop 0 m b \<Longrightarrow> valid_utf8_loop 0 n (a @ b)"
proof (induction "length a" arbitrary: a n rule: less_induct)
  case less
  show ?case
  proof (cases "a = []")
    case True
    with less.prems(2) show ?thesis by (simp add: valid_utf8_count)
  next
    case False
    have "length (drop (utf8_len_at a) a) < length a" using False by (simp add: utf8_len_at_def)
    from less.hyps [OF this _ less.prems(2)] less.prems(1) False
    have "valid_utf8_loop 0 (n + 1) (drop (utf8_len_at a) a @ b)" by (auto simp: valid_utf8_step [OF False])
    moreover have "utf8_len_at (a @ b) = utf8_len_at a" using False by (simp add: utf8_len_at_def)
    ultimately show ?thesis
      using less.prems(1) False legal_at_append [of 0 "utf8_len_at a" a "\<lambda>_. 0" b "\<lambda>_. 0"]
      by (auto simp: valid_utf8_step)
  qed
qed

lemma valid_utf8_piece:
  assumes "legal_at (\<lambda>_. 0) s 0 (trailing_bytes (of_char (hd s)) + 1)" "length s = trailing_bytes (of_char (hd s)) + 1"
    "of_char (hd s) \<noteq> (0::nat)"
  shows "valid_utf8_loop 0 n s"
  using assms by (cases s) (auto simp: valid_utf8_loop.simps)

lemma valid_utf8_ascii: "0 < (of_char c :: nat) \<Longrightarrow> (of_char c :: nat) < 128 \<Longrightarrow> valid_utf8_loop 0 n [c]"
  by (rule valid_utf8_piece) (auto simp: trailing_bytes_def legal_at_def is_legal_utf8_def str_byte_def)

text \<open>A control character stands in the text only where the flags let it, or second in a
  sequence begun by one of two bytes.\<close>

definition lax_lead :: "char \<Rightarrow> bool" where
  "lax_lead c \<longleftrightarrow> c = CHR 0xED \<or> c = CHR 0xF4"

definition passes_fmt :: "u64 \<Rightarrow> char \<Rightarrow> bool" where
  "passes_fmt fl c \<longleftrightarrow> fl AND UTF8_PASS_FMT \<noteq> 0 \<and> (c = CHR 0x0D \<or> c = CHR 0x0A \<or> c = CHR 0x09)"

fun ctrl_ok :: "u64 \<Rightarrow> bool \<Rightarrow> string \<Rightarrow> bool" where
  "ctrl_ok fl lax [] = True"
| "ctrl_ok fl lax (c # cs) = ((is_ctrl c \<longrightarrow> lax \<or> passes_fmt fl c) \<and> ctrl_ok fl (lax_lead c) cs)"

lemma ctrl_ok_mono: "ctrl_ok fl False cs \<Longrightarrow> ctrl_ok fl lax cs"
  by (cases cs) auto

lemma ctrl_ok_append: "ctrl_ok fl lax a \<Longrightarrow> ctrl_ok fl False b \<Longrightarrow> ctrl_ok fl lax (a @ b)"
  by (induction a arbitrary: lax) (auto intro: ctrl_ok_mono)

lemma ctrl_ok_nth:
  "ctrl_ok fl lax cs \<Longrightarrow> i < length cs \<Longrightarrow> is_ctrl (cs ! i) \<Longrightarrow>
   passes_fmt fl (cs ! i) \<or> (i = 0 \<and> lax) \<or> (i > 0 \<and> lax_lead (cs ! (i - 1)))"
proof (induction cs arbitrary: lax i)
  case (Cons c cs)
  then show ?case by (cases i) (force split: if_splits)+
qed simp


lemma legal_ctrl_ok:
  assumes "legal_at (\<lambda>_. 0) s 0 (length s)" "length s = utf8_len_at s" "s \<noteq> []" "\<not> is_ctrl (hd s)"
  shows "ctrl_ok fl False s"
proof -
  from assms(3) obtain c r where s: "s = c # r" by (cases s) auto
  have len: "length s \<le> 4" using assms(1) by (auto simp: legal_at_def is_legal_utf8_def split: if_splits)
  have hi: "of_char ch \<ge> (0x80 :: nat) \<Longrightarrow> \<not> is_ctrl ch" for ch by (simp add: is_ctrl_def)
  have "(of_char c = (of_char (CHR 0xED) :: nat)) = (c = CHR 0xED)" "(of_char c = (of_char (CHR 0xF4) :: nat)) = (c = CHR 0xF4)"
    by (rule of_char_eq_iff)+
  then have lead: "of_char c = (0xED :: nat) \<Longrightarrow> c = CHR 0xED" "of_char c = (0xF4 :: nat) \<Longrightarrow> c = CHR 0xF4"
    by simp_all
  have sec: "legal_second (of_char c) (of_char d) \<Longrightarrow> \<not> is_ctrl d \<or> lax_lead c" for d
    using lead hi [of d] by (auto simp: legal_second_def lax_lead_def split: if_splits)
  show ?thesis
  proof (cases r)
    case Nil
    with s assms(4) show ?thesis by simp
  next
    case r: (Cons d r2)
    show ?thesis
    proof (cases r2)
      case Nil
      with s r assms(1,4) sec [of d] show ?thesis
        by (auto simp: legal_at_def is_legal_utf8_def str_byte_def split: if_splits)
    next
      case r2: (Cons e r3)
      show ?thesis
      proof (cases r3)
        case Nil
        with s r r2 assms(1,4) sec [of d] hi [of e] show ?thesis
          by (auto simp: legal_at_def is_legal_utf8_def str_byte_def numeral_2_eq_2 split: if_splits)
      next
        case r3: (Cons f r4)
        with len s r r2 have "r4 = []" by simp
        with s r r2 r3 assms(1,4) sec [of d] hi [of e] hi [of f] show ?thesis
          by (auto simp: legal_at_def is_legal_utf8_def str_byte_def numeral_2_eq_2 numeral_3_eq_3 split: if_splits)
      qed
    qed
  qed
qed

text \<open>
  The grammar of RFC 3629, section 4: \<open>UTF8-octets = *( UTF8-char )\<close>. It does not depend on the
  functions above, which are laxer: their test of a second byte after ED and F4 has no lower bound.
\<close>

definition utf8_tail :: "nat \<Rightarrow> bool" where
  "utf8_tail b \<longleftrightarrow> 0x80 \<le> b \<and> b \<le> 0xBF"

fun utf8_char :: "nat list \<Rightarrow> bool" where
  "utf8_char [a] = (a \<le> 0x7F)"
| "utf8_char [a, b] = (0xC2 \<le> a \<and> a \<le> 0xDF \<and> utf8_tail b)"
| "utf8_char [a, b, c] =
     ((a = 0xE0 \<and> 0xA0 \<le> b \<and> b \<le> 0xBF \<or> 0xE1 \<le> a \<and> a \<le> 0xEC \<and> utf8_tail b
       \<or> a = 0xED \<and> 0x80 \<le> b \<and> b \<le> 0x9F \<or> 0xEE \<le> a \<and> a \<le> 0xEF \<and> utf8_tail b) \<and> utf8_tail c)"
| "utf8_char [a, b, c, d] =
     ((a = 0xF0 \<and> 0x90 \<le> b \<and> b \<le> 0xBF \<or> 0xF1 \<le> a \<and> a \<le> 0xF3 \<and> utf8_tail b
       \<or> a = 0xF4 \<and> 0x80 \<le> b \<and> b \<le> 0x8F) \<and> utf8_tail c \<and> utf8_tail d)"
| "utf8_char _ = False"

inductive utf8_octets :: "string \<Rightarrow> bool" where
  none: "utf8_octets []"
| some: "utf8_char (map of_char c) \<Longrightarrow> utf8_octets s \<Longrightarrow> utf8_octets (c @ s)"

lemma utf8_octets_append: "utf8_octets a \<Longrightarrow> utf8_octets b \<Longrightarrow> utf8_octets (a @ b)"
  by (induction rule: utf8_octets.induct) (auto intro: utf8_octets.some)

lemma utf8_octets_char: "utf8_char (map of_char c) \<Longrightarrow> utf8_octets c"
  using utf8_octets.some [OF _ utf8_octets.none] by simp

lemma lax_lead_byte: "lax_lead c \<longleftrightarrow> of_char c = (0xED :: nat) \<or> of_char c = (0xF4 :: nat)"
proof -
  have "(of_char c = (of_char (CHR 0xED) :: nat)) = (c = CHR 0xED)" "(of_char c = (of_char (CHR 0xF4) :: nat)) = (c = CHR 0xF4)"
    by (rule of_char_eq_iff)+
  then show ?thesis by (simp add: lax_lead_def)
qed

text \<open>No character that starts with ED or F4 goes on with a byte below 0x80.\<close>

definition lead_bound :: "string \<Rightarrow> bool" where
  "lead_bound s \<longleftrightarrow> (\<forall>i < length s - 1. lax_lead (s ! i) \<longrightarrow> 0x80 \<le> (of_char (s ! (i + 1)) :: nat))"

lemma legal_utf8_char:
  assumes "legal_at (\<lambda>_. 0) s 0 (length s)" "length s = utf8_len_at s" "s \<noteq> []"
    and "length s > 1 \<Longrightarrow> lax_lead (hd s) \<Longrightarrow> 0x80 \<le> (of_char (s ! 1) :: nat)"
  shows "utf8_char (map of_char s)"
proof -
  from assms(3) obtain c r where s: "s = c # r" by (cases s) auto
  have len: "length s \<le> 4" using assms(1) by (auto simp: legal_at_def is_legal_utf8_def split: if_splits)
  consider "r = []" | d where "r = [d]" | d e where "r = [d, e]" | d e f where "r = [d, e, f]"
    using len s by (cases r; cases "tl r"; cases "tl (tl r)"; cases "tl (tl (tl r))") auto
  then show ?thesis
  proof cases
    case 1
    with s assms(1,2) show ?thesis
      by (auto simp: legal_at_def is_legal_utf8_def str_byte_def utf8_len_at_def trailing_bytes_def split: if_splits)
  next
    case 2
    with s assms(1,2) show ?thesis
      by (auto simp: legal_at_def is_legal_utf8_def str_byte_def utf8_len_at_def trailing_bytes_def
          legal_second_def utf8_tail_def split: if_splits)
  next
    case 3
    with s assms(1,2,4) show ?thesis
      by (auto simp: legal_at_def is_legal_utf8_def str_byte_def utf8_len_at_def trailing_bytes_def
          legal_second_def utf8_tail_def numeral_2_eq_2 lax_lead_byte split: if_splits)
  next
    case 4
    with s assms(1,2,4) show ?thesis
      by (auto simp: legal_at_def is_legal_utf8_def str_byte_def utf8_len_at_def trailing_bytes_def
          legal_second_def utf8_tail_def numeral_2_eq_2 numeral_3_eq_3 lax_lead_byte split: if_splits)
  qed
qed

lemma printable_subst_ok:
  "printable_subst fl c \<noteq> CHR 0x00 \<Longrightarrow>
   valid_utf8_loop 0 n [printable_subst fl c] \<and> ctrl_ok fl False [printable_subst fl c]
     \<and> utf8_octets [printable_subst fl c]"
  by (auto simp: printable_subst_def passes_fmt_def is_ctrl_def intro!: valid_utf8_ascii utf8_octets_char split: if_splits)

lemma printable_loop_ok:
  "valid_utf8_loop 0 0 ret \<Longrightarrow> ctrl_ok fl False ret \<Longrightarrow>
   unat (fl AND (UTF8_FILTER - 1)) = 0 \<or> (length ret \<le> 4 * upos \<and> upos \<le> unat (fl AND (UTF8_FILTER - 1))) \<Longrightarrow>
   (lead_bound str \<longrightarrow> utf8_octets ret) \<Longrightarrow>
   out = utf8_printable_loop str fl ret upos pos \<Longrightarrow>
   valid_utf8_loop 0 0 out \<and> ctrl_ok fl False out \<and> (lead_bound str \<longrightarrow> utf8_octets out) \<and>
   (unat (fl AND (UTF8_FILTER - 1)) = 0 \<or> length out \<le> 4 * unat (fl AND (UTF8_FILTER - 1)) + 3)"
proof (induction str fl ret upos pos arbitrary: out rule: utf8_printable_loop.induct)
  case (1 str fl ret upos pos)
  let ?max = "unat (fl AND (UTF8_FILTER - 1))"
  let ?len = "trailing_bytes (of_char (str ! pos)) + 1"
  let ?piece = "take ?len (drop pos str)"
  let ?sub = "printable_subst fl (str ! pos)"
  consider (over) "\<not> pos < length str" | (cut) "pos < length str" "?max \<noteq> 0" "\<not> upos < ?max"
    | (piece) "pos < length str" "?max = 0 \<or> upos < ?max"
        "pos + ?len \<le> length str \<and> of_char (str ! pos) \<ge> (0x20::nat) \<and> of_char (str ! pos) \<noteq> (0x7F::nat) \<and> legal_at (\<lambda>_. 0) str pos ?len"
    | (sub) "pos < length str" "?max = 0 \<or> upos < ?max"
        "\<not> (pos + ?len \<le> length str \<and> of_char (str ! pos) \<ge> (0x20::nat) \<and> of_char (str ! pos) \<noteq> (0x7F::nat) \<and> legal_at (\<lambda>_. 0) str pos ?len)"
    by argo
  then show ?case
  proof cases
    case over
    with "1.prems" show ?thesis by (subst (asm) utf8_printable_loop.simps) (auto simp: Let_def)
  next
    case cut
    have "utf8_octets [CHR ''.'', CHR ''.'', CHR ''.'']"
      using utf8_octets_append [of "[CHR ''.'']"] utf8_octets_char [of "[CHR ''.'']"] by simp
    moreover have "valid_utf8_loop 0 0 ''...''" by (simp add: valid_utf8_loop.simps trailing_bytes_def legal_at_def is_legal_utf8_def str_byte_def)
    ultimately show ?thesis
      using cut "1.prems" by (subst (asm) utf8_printable_loop.simps)
        (auto simp: Let_def is_ctrl_def intro!: valid_utf8_append ctrl_ok_append utf8_octets_append)
  next
    case piece
    have out: "out = utf8_printable_loop str fl (ret @ ?piece) (upos + 1) (pos + ?len)"
      using piece "1.prems"(5) by (subst (asm) utf8_printable_loop.simps) (simp only: Let_def if_True simp_thms)
    have p: "?piece \<noteq> []" "hd ?piece = str ! pos" "length ?piece = ?len"
      using piece by (auto simp: hd_drop_conv_nth)
    have l: "legal_at (\<lambda>_. 0) ?piece 0 ?len" using piece legal_at_drop by blast
    have four: "?len \<le> 4" using l by (auto simp: legal_at_def is_legal_utf8_def split: if_splits)
    have "valid_utf8_loop 0 0 ?piece" using l p piece by (intro valid_utf8_piece) auto
    moreover have "ctrl_ok fl False ?piece"
      using l p piece by (intro legal_ctrl_ok) (auto simp: utf8_len_at_def is_ctrl_def)
    moreover have "utf8_octets ?piece" if bound: "lead_bound str"
    proof (intro utf8_octets_char legal_utf8_char)
      show "0x80 \<le> (of_char (?piece ! 1) :: nat)" if "length ?piece > 1" "lax_lead (hd ?piece)"
        using that bound p piece(3) by (auto simp: lead_bound_def)
    qed (use l p in \<open>auto simp: utf8_len_at_def\<close>)
    ultimately show ?thesis
      using "1.prems"(1-4) piece p(3) four
      by (intro "1.IH"(1) [OF refl piece(1,2) refl refl piece(3) _ _ _ _ out])
        (auto intro: valid_utf8_append ctrl_ok_append utf8_octets_append)
  next
    case sub
    have out: "out = utf8_printable_loop str fl (if ?sub \<noteq> CHR 0x00 then ret @ [?sub] else ret) (upos + 1) (pos + 1)"
      using sub "1.prems"(5) by (subst (asm) utf8_printable_loop.simps) (simp only: Let_def if_True if_False simp_thms)
    show ?thesis
      using "1.prems"(1-4) sub(2) printable_subst_ok [of fl "str ! pos"]
      by (intro "1.IH"(2) [OF refl sub(1,2) refl refl sub(3) refl _ _ _ _ out])
        (auto intro: valid_utf8_append ctrl_ok_append utf8_octets_append)
  qed
qed

text \<open>The test of a second byte after ED and F4 has no lower bound, so a newline gets through both
  the validation that forbids control characters and the printable form.\<close>

lemma utf8_control_passes:
  "is_valid_utf8 [CHR 0xED, CHR 0x0A, CHR 0x80] UTF8_NO_CTRL"
  "utf8_printable [CHR 0xED, CHR 0x0A, CHR 0x80] 0 = [CHR 0xED, CHR 0x0A, CHR 0x80]"
  by (simp_all add: is_valid_utf8_def valid_utf8_loop.simps utf8_printable_def utf8_printable_loop.simps
      trailing_bytes_def legal_at_def is_legal_utf8_def legal_second_def str_byte_def)

text \<open>C25. The printable form of any string is accepted by the program's own UTF-8 test, is bounded
  by the limit given, and has a control character only where the flags pass it or second in a
  sequence that begins with one of the bytes ED and F4. When no ED or F4 of the string is followed
  by a byte below 0x80, which that test lets through, the printable form is UTF-8 by the grammar of
  RFC 3629, whatever else the string holds.\<close>

theorem utf8_printable_clean:
  fixes str :: string and fl :: u64
  defines "out \<equiv> utf8_printable str fl"
  shows "is_valid_utf8 out 0 \<and> (lead_bound str \<longrightarrow> utf8_octets out) \<and>
    (let max_len = unat (fl AND 0x3FFFFFFF) in max_len = 0 \<or> length out \<le> 4 * max_len + 3) \<and>
    (\<forall>i<length out. is_ctrl (out ! i) \<longrightarrow> passes_fmt fl (out ! i) \<or> (i > 0 \<and> lax_lead (out ! (i - 1))))"
proof -
  have "valid_utf8_loop 0 0 out \<and> ctrl_ok fl False out \<and> (lead_bound str \<longrightarrow> utf8_octets out) \<and>
    (unat (fl AND (UTF8_FILTER - 1)) = 0 \<or> length out \<le> 4 * unat (fl AND (UTF8_FILTER - 1)) + 3)"
    unfolding out_def utf8_printable_def by (rule printable_loop_ok) (auto intro: utf8_octets.none)
  then show ?thesis using ctrl_ok_nth [of fl False out] by (fastforce simp: is_valid_utf8_def Let_def)
qed

text \<open>The bad bytes FF and C0 become question marks between the two bytes of an e with acute; the
  newline after ED passes.\<close>

theorem utf8_printable_clean_witness:
  "utf8_octets (utf8_printable [CHR 0xFF, CHR 0xC3, CHR 0xA9, CHR 0xC0] 0) \<and>
   utf8_printable [CHR 0xFF, CHR 0xC3, CHR 0xA9, CHR 0xC0] 0 = [CHR ''?'', CHR 0xC3, CHR 0xA9, CHR ''?''] \<and>
   utf8_printable [CHR 0xED, CHR 0x0A, CHR 0x80] 0 ! 1 = CHR 0x0A \<and>
   (passes_fmt 0 (CHR 0x0A) \<or> lax_lead (utf8_printable [CHR 0xED, CHR 0x0A, CHR 0x80] 0 ! 0))"
proof -
  have "lead_bound [CHR 0xFF, CHR 0xC3, CHR 0xA9, CHR 0xC0]"
    by (auto simp: lead_bound_def lax_lead_def less_Suc_eq numeral_3_eq_3)
  moreover have "utf8_printable [CHR 0xFF, CHR 0xC3, CHR 0xA9, CHR 0xC0] 0 = [CHR ''?'', CHR 0xC3, CHR 0xA9, CHR ''?'']"
    by (simp add: utf8_printable_def utf8_printable_loop.simps trailing_bytes_def legal_at_def is_legal_utf8_def
        legal_second_def str_byte_def printable_subst_def Let_def)
  ultimately show ?thesis
    using utf8_printable_clean [of "[CHR 0xFF, CHR 0xC3, CHR 0xA9, CHR 0xC0]" 0]
      utf8_printable_clean [of "[CHR 0xED, CHR 0x0A, CHR 0x80]" 0] by (auto simp: utf8_control_passes is_ctrl_def)
qed

text \<open>What lies behind the string does not change its length.\<close>

definition utf8_length_step :: "(nat \<Rightarrow> byte) \<Rightarrow> string \<Rightarrow> nat \<Rightarrow> nat" where
  "utf8_length_step mem str pos =
     (let l = min (trailing_bytes (of_char (str ! pos)) + 1) (length str)
      in if \<not> legal_at mem str pos l then 1 else l)"

lemma utf8_length_loop_step:
  "utf8_length_loop mem str upos pos =
     (if pos < length str then utf8_length_loop mem str (upos + 1) (pos + utf8_length_step mem str pos) else upos)"
  by (subst utf8_length_loop.simps) (simp add: utf8_length_step_def Let_def)

lemma utf8_length_step_pos: "str \<noteq> [] \<Longrightarrow> 0 < utf8_length_step mem str pos"
  by (simp add: utf8_length_step_def Let_def)

lemma legal_at_mem: "pos + l \<le> length str + 1 \<Longrightarrow> legal_at mem str pos l = legal_at mem' str pos l"
  by (auto simp: legal_at_def is_legal_utf8_def str_byte_def)

lemma legal_at_nul: "pos + 2 = length str \<Longrightarrow> 3 \<le> l \<Longrightarrow> \<not> legal_at mem str pos l"
  by (auto simp: legal_at_def is_legal_utf8_def str_byte_def)

lemma legal_at_four: "legal_at mem str pos l \<Longrightarrow> l \<le> 4"
  by (auto simp: legal_at_def is_legal_utf8_def split: if_splits)

lemma utf8_length_step_mem:
  assumes "pos < length str"
  shows "utf8_length_step mem str pos = utf8_length_step mem' str pos \<or>
     (length str \<le> pos + utf8_length_step mem str pos \<and> length str \<le> pos + utf8_length_step mem' str pos)"
proof -
  let ?l = "min (trailing_bytes (of_char (str ! pos)) + 1) (length str)"
  have s: "str \<noteq> []" using assms by auto
  consider "pos + ?l \<le> length str + 1" | "length str = pos + 1" | "length str = pos + 2" "3 \<le> ?l"
    | "length str > pos + 2" "pos + ?l > length str + 1"
    using assms by linarith
  then show ?thesis
  proof cases
    case 1
    from legal_at_mem [OF this, of mem mem'] show ?thesis by (simp add: utf8_length_step_def)
  next
    case 2
    with utf8_length_step_pos [OF s] show ?thesis by (metis Suc_eq_plus1 Suc_leI add_le_cancel_left One_nat_def)
  next
    case 3
    with legal_at_nul [of pos str ?l] show ?thesis by (simp add: utf8_length_step_def Let_def)
  next
    case 4
    then have "4 < ?l" by linarith
    then have "\<not> legal_at m str pos ?l" for m using legal_at_four leD by blast
    then show ?thesis by (simp add: utf8_length_step_def Let_def)
  qed
qed

lemma utf8_length_loop_mem:
  "utf8_length_loop mem str upos pos = utf8_length_loop mem' str upos pos"
proof (induction "length str - pos" arbitrary: upos pos rule: less_induct)
  case less
  show ?case
  proof (cases "pos < length str")
    case True
    then have s: "str \<noteq> []" by auto
    from utf8_length_step_mem [OF True] show ?thesis
    proof
      assume e: "utf8_length_step mem str pos = utf8_length_step mem' str pos"
      have "length str - (pos + utf8_length_step mem str pos) < length str - pos"
        using utf8_length_step_pos [OF s] True by (simp add: diff_less_mono2)
      from less.hyps [OF this] True e show ?thesis
        by (simp add: utf8_length_loop_step [of _ str upos pos])
    next
      assume "length str \<le> pos + utf8_length_step mem str pos \<and> length str \<le> pos + utf8_length_step mem' str pos"
      with True show ?thesis
        by (simp add: utf8_length_loop_step [of _ str upos pos] utf8_length_loop_step [of _ str "Suc upos"])
    qed
  qed (simp add: utf8_length_loop_step)
qed

lemma utf8_length_mem: "utf8_length mem str = utf8_length mem' str"
  unfolding utf8_length_def by (rule utf8_length_loop_mem)

end
