(* ===== verification/Lex_Split.thy ===== *)
theory Lex_Split
  imports Unicode
begin

text \<open>
  \<^verbatim>\<open>common/lex.hpp\<close> and \<^verbatim>\<open>common/split.hpp\<close>: the lexical analysers and the functions that split a
  string by a character or by spaces. A class given as template parameter \<open>LEX\<close> is a record of its
  methods over its state; \<open>LexComment\<close> of \<^verbatim>\<open>common/options.hpp\<close> is defined here with the others.
  The parameter \<open>LIM\<close> is the class \<open>Limits\<close> of \<^verbatim>\<open>common/options.hpp\<close>; its null pointer, and
  \<open>NullLimit\<close>, is \<open>None\<close>. When a limit throws, what has been split off so far is not returned.
\<close>

section \<open>Lexical analysers\<close>

text \<open>\<open>ch\<close> is an \<open>int\<close> that a (signed) \<open>char\<close> is assigned to; \<open>- 1\<close> says that there is none.\<close>

definition schar :: "char \<Rightarrow> int" where
  "schar c = (let n = of_char c :: int in if n < 128 then n else n - 256)"

record 'l lexer =
  lx_new :: 'l
  lx_put :: "char \<Rightarrow> 'l \<Rightarrow> 'l"
  lx_get :: "'l \<Rightarrow> int"
  lx_in_quote :: "'l \<Rightarrow> bool"

definition lx_available :: "'l lexer \<Rightarrow> 'l \<Rightarrow> bool" where
  "lx_available L l \<longleftrightarrow> lx_get L l \<noteq> - 1"

record std_lex =
  sx_in_quote :: bool
  sx_backslash :: bool
  sx_in_backslash :: bool
  sx_ch :: int

definition std_put :: "char \<Rightarrow> std_lex \<Rightarrow> std_lex" where
  "std_put c l =
     (let l = l\<lparr>sx_in_backslash := False\<rparr>
      in if sx_backslash l then l\<lparr>sx_ch := schar c, sx_backslash := False, sx_in_backslash := True\<rparr>
         else if c = CHR 0x5C then l\<lparr>sx_backslash := True, sx_ch := - 1\<rparr>
         else if c = CHR 0x22 then l\<lparr>sx_in_quote := \<not> sx_in_quote l, sx_ch := - 1\<rparr>
         else l\<lparr>sx_ch := schar c\<rparr>)"

definition StandardLex :: "std_lex lexer" where
  "StandardLex =
     \<lparr>lx_new = \<lparr>sx_in_quote = False, sx_backslash = False, sx_in_backslash = False, sx_ch = - 1\<rparr>,
      lx_put = std_put, lx_get = sx_ch, lx_in_quote = sx_in_quote\<rparr>"

definition NullLex :: "int lexer" where
  "NullLex = \<lparr>lx_new = - 1, lx_put = (\<lambda>c _. schar c), lx_get = (\<lambda>ch. ch), lx_in_quote = (\<lambda>_. False)\<rparr>"

definition is_comment :: "char \<Rightarrow> bool" where
  "is_comment c \<longleftrightarrow> c = CHR ''#'' \<or> c = CHR '';''"

record comment_lex =
  cx_in_quote :: bool
  cx_in_comment :: bool
  cx_backslash :: bool
  cx_ch :: int

definition comment_put :: "char \<Rightarrow> comment_lex \<Rightarrow> comment_lex" where
  "comment_put c l =
     (if cx_in_comment l then l\<lparr>cx_ch := - 1\<rparr>
      else if cx_backslash l then l\<lparr>cx_ch := schar c, cx_backslash := False\<rparr>
      else if c = CHR 0x5C then l\<lparr>cx_backslash := True, cx_ch := - 1\<rparr>
      else if c = CHR 0x22 then l\<lparr>cx_in_quote := \<not> cx_in_quote l, cx_ch := - 1\<rparr>
      else if is_comment c \<and> \<not> cx_in_quote l then l\<lparr>cx_in_comment := True, cx_ch := - 1\<rparr>
      else l\<lparr>cx_ch := schar c\<rparr>)"

definition LexComment :: "comment_lex lexer" where
  "LexComment =
     \<lparr>lx_new = \<lparr>cx_in_quote = False, cx_in_comment = False, cx_backslash = False, cx_ch = - 1\<rparr>,
      lx_put = comment_put, lx_get = cx_ch, lx_in_quote = cx_in_quote\<rparr>"


section \<open>Limits\<close>

record limits =
  lm_bytes :: u64
  lm_max_bytes :: u64
  lm_extra_bytes_per_opt :: nat
  lm_extra_bytes_per_term :: nat
  lm_max_line_len :: nat
  lm_max_directive_len :: nat
  lm_err :: string

definition limits_new :: "string \<Rightarrow> u64 \<Rightarrow> nat \<Rightarrow> nat \<Rightarrow> nat \<Rightarrow> nat \<Rightarrow> limits" where
  "limits_new error_message max_bytes extra_opt extra_term max_line_len max_directive_len =
     \<lparr>lm_bytes = 0, lm_max_bytes = max_bytes, lm_extra_bytes_per_opt = extra_opt,
      lm_extra_bytes_per_term = extra_term, lm_max_line_len = max_line_len,
      lm_max_directive_len = max_directive_len, lm_err = error_message\<rparr>"

definition lm_check_overflow :: "limits \<Rightarrow> limits res" where
  "lm_check_overflow l = (if lm_bytes l \<ge> lm_max_bytes l then Inl (Option_error (lm_err l)) else Inr l)"

definition lm_add_bytes :: "nat \<Rightarrow> limits \<Rightarrow> limits res" where
  "lm_add_bytes n l = lm_check_overflow (l\<lparr>lm_bytes := lm_bytes l + of_nat n\<rparr>)"

definition lm_add_string :: "string \<Rightarrow> limits \<Rightarrow> limits res" where
  "lm_add_string str l = lm_check_overflow (l\<lparr>lm_bytes := lm_bytes l + of_nat (length str)\<rparr>)"

definition lm_add_term :: "limits \<Rightarrow> limits res" where
  "lm_add_term l = lm_check_overflow (l\<lparr>lm_bytes := lm_bytes l + of_nat (lm_extra_bytes_per_term l)\<rparr>)"

definition lm_add_opt :: "limits \<Rightarrow> limits res" where
  "lm_add_opt l = lm_check_overflow (l\<lparr>lm_bytes := lm_bytes l + of_nat (lm_extra_bytes_per_opt l)\<rparr>)"

text \<open>A call through a pointer that may be null (\<open>if (lim) lim->f()\<close>).\<close>

definition if_lim :: "(limits \<Rightarrow> limits res) \<Rightarrow> limits option \<Rightarrow> limits option res" where
  "if_lim f lim = (case lim of None \<Rightarrow> Inr None | Some l \<Rightarrow> bindE (f l) (\<lambda>l. Inr (Some l)))"


section \<open>Splitting\<close>

abbreviation (input) TRIM_LEADING_SPACES :: u32 where "TRIM_LEADING_SPACES \<equiv> 1"
abbreviation (input) TRIM_SPECIAL :: u32 where "TRIM_SPECIAL \<equiv> 2"

fun by_char_loop ::
  "'l lexer \<Rightarrow> char \<Rightarrow> u32 \<Rightarrow> u32 \<Rightarrow> string \<Rightarrow> 'l \<Rightarrow> u32 \<Rightarrow> string \<Rightarrow> string list \<Rightarrow> limits option \<Rightarrow>
   (string list \<times> limits option) res" where
  "by_char_loop L split_by flags max_terms [] lx nterms tm ret lim =
     bindE (if_lim lm_add_term lim) (\<lambda>lim. Inr (ret @ [tm], lim))"
| "by_char_loop L split_by flags max_terms (c # cs) lx nterms tm ret lim =
     (let lx = lx_put L c lx
      in if \<not> lx_in_quote L lx \<and> c = split_by \<and> nterms < max_terms
         then bindE (if_lim lm_add_term lim)
           (\<lambda>lim. by_char_loop L split_by flags max_terms cs lx (nterms + 1) [] (ret @ [tm]) lim)
         else if (flags AND TRIM_SPECIAL = 0 \<or> lx_available L lx) \<and>
                 (flags AND TRIM_LEADING_SPACES = 0 \<or> tm \<noteq> [] \<or> \<not> is_space c)
         then by_char_loop L split_by flags max_terms cs lx nterms (tm @ [c]) ret lim
         else by_char_loop L split_by flags max_terms cs lx nterms tm ret lim)"

text \<open>\<open>by_char_void\<close> appends to \<open>ret\<close>; \<open>by_char\<close> starts with an empty list.\<close>

definition by_char ::
  "'l lexer \<Rightarrow> string list \<Rightarrow> string \<Rightarrow> char \<Rightarrow> u32 \<Rightarrow> u32 \<Rightarrow> limits option \<Rightarrow>
   (string list \<times> limits option) res" where
  "by_char L ret input split_by flags max_terms lim =
     by_char_loop L split_by flags max_terms input (lx_new L) 0 [] ret lim"

fun by_space_loop ::
  "'l lexer \<Rightarrow> string \<Rightarrow> 'l \<Rightarrow> string \<Rightarrow> bool \<Rightarrow> string list \<Rightarrow> limits option \<Rightarrow>
   (string list \<times> limits option) res" where
  "by_space_loop L [] lx tm defined ret lim =
     (if defined then bindE (if_lim lm_add_term lim) (\<lambda>lim. Inr (ret @ [tm], lim))
      else Inr (ret, lim))"
| "by_space_loop L (c # cs) lx tm defined ret lim =
     (let lx = lx_put L c lx;
          defined = (defined \<or> lx_in_quote L lx)
      in if lx_available L lx
         then (let tc = char_of (lx_get L lx)
               in if \<not> is_space tc \<or> lx_in_quote L lx
                  then by_space_loop L cs lx (tm @ [tc]) True ret lim
                  else if defined
                  then bindE (if_lim lm_add_term lim)
                    (\<lambda>lim. by_space_loop L cs lx [] False (ret @ [tm]) lim)
                  else by_space_loop L cs lx tm defined ret lim)
         else by_space_loop L cs lx tm defined ret lim)"

definition by_space ::
  "'l lexer \<Rightarrow> string list \<Rightarrow> string \<Rightarrow> limits option \<Rightarrow> (string list \<times> limits option) res" where
  "by_space L ret input lim = by_space_loop L input (lx_new L) [] False ret lim"


section \<open>Lexical analysers that understand quoting\<close>

lemma schar_char [simp]: "char_of (schar c) = c"
proof -
  have "schar c mod 256 = of_char c" by (auto simp: schar_def Let_def)
  then have "of_char (char_of (schar c)) = (of_char c :: int)" by simp
  then show ?thesis by (rule of_char_eqI)
qed

lemma schar_minus1: "schar c = - 1 \<longleftrightarrow> c = CHR 0xFF"
proof
  assume "schar c = - 1"
  moreover have "0 \<le> (of_char c :: int)" by (metis of_char_mod_256 pos_mod_sign zero_less_numeral)
  ultimately have "(of_char c :: int) = of_char (CHR 0xFF)" by (auto simp: schar_def Let_def split: if_splits)
  then show "c = CHR 0xFF" by (rule of_char_eqI)
qed (simp add: schar_def)

text \<open>Text with its quotes and backslashes escaped (the loop of \<open>Option::escape_string\<close>).\<close>

fun escape_chars :: "string \<Rightarrow> string" where
  "escape_chars [] = []"
| "escape_chars (c # cs) =
     (if c = CHR 0x22 \<or> c = CHR 0x5C then CHR 0x5C # c # escape_chars cs else c # escape_chars cs)"

text \<open>
  What the splitting of escaped text needs of an analyser: states at rest and states inside
  quotes, how quotes lead from one to the other, that a backslash makes any character literal,
  and which characters are literal at rest.
\<close>

locale quoting_lexer =
  fixes L :: "'l lexer" and rest :: "'l \<Rightarrow> bool" and inq :: "'l \<Rightarrow> bool" and plain :: "char \<Rightarrow> bool"
  assumes new: "rest (lx_new L)"
    and rest_out: "rest l \<Longrightarrow> \<not> lx_in_quote L l"
    and inq_in: "inq l \<Longrightarrow> lx_in_quote L l"
    and put_plain: "rest l \<Longrightarrow> plain c \<Longrightarrow> rest (lx_put L c l) \<and> lx_get L (lx_put L c l) = schar c"
    and put_quote: "rest l \<Longrightarrow> inq (lx_put L (CHR 0x22) l) \<and> lx_get L (lx_put L (CHR 0x22) l) = - 1"
    and put_unquote: "inq l \<Longrightarrow> rest (lx_put L (CHR 0x22) l) \<and> lx_get L (lx_put L (CHR 0x22) l) = - 1"
    and put_in: "inq l \<Longrightarrow> c \<noteq> CHR 0x22 \<Longrightarrow> c \<noteq> CHR 0x5C \<Longrightarrow> inq (lx_put L c l) \<and> lx_get L (lx_put L c l) = schar c"
    and backslash: "rest l \<Longrightarrow> \<not> lx_in_quote L (lx_put L (CHR 0x5C) l) \<and> lx_get L (lx_put L (CHR 0x5C) l) = - 1 \<and>
        rest (lx_put L c (lx_put L (CHR 0x5C) l)) \<and> lx_get L (lx_put L c (lx_put L (CHR 0x5C) l)) = schar c"
    and backslash_in: "inq l \<Longrightarrow> lx_in_quote L (lx_put L (CHR 0x5C) l) \<and> lx_get L (lx_put L (CHR 0x5C) l) = - 1 \<and>
        inq (lx_put L c (lx_put L (CHR 0x5C) l)) \<and> lx_get L (lx_put L c (lx_put L (CHR 0x5C) l)) = schar c"
begin

lemmas laws = rest_out inq_in put_plain put_quote put_unquote put_in backslash backslash_in

lemma space_inside:
  assumes "inq l" "CHR 0xFF \<notin> set t"
  shows "\<exists>l'. inq l' \<and> by_space_loop L (escape_chars t @ inp) l tm True ret lim = by_space_loop L inp l' (tm @ t) True ret lim"
  using assms
proof (induction t arbitrary: l tm)
  case (Cons c t)
  have c: "schar c \<noteq> - 1" using Cons.prems(2) by (auto simp: schar_minus1)
  show ?case
  proof (cases "c = CHR 0x22 \<or> c = CHR 0x5C")
    case True
    note b = backslash_in [OF Cons.prems(1), of c]
    from Cons.IH [of "lx_put L c (lx_put L (CHR 0x5C) l)" "tm @ [c]"] b Cons.prems(2) True c
    show ?thesis by (auto simp: lx_available_def inq_in Let_def)
  next
    case False
    with put_in [OF Cons.prems(1), of c] Cons.IH [of "lx_put L c l" "tm @ [c]"] Cons.prems(2) c
    show ?thesis by (auto simp: lx_available_def inq_in Let_def)
  qed
qed auto

lemma space_outside:
  assumes "rest l" "CHR 0xFF \<notin> set t" "\<forall>c\<in>set t. \<not> is_space c \<and> (plain c \<or> c = CHR 0x22 \<or> c = CHR 0x5C)"
  shows "\<exists>l'. rest l' \<and> by_space_loop L (escape_chars t @ inp) l tm d ret lim = by_space_loop L inp l' (tm @ t) (d \<or> t \<noteq> []) ret lim"
  using assms
proof (induction t arbitrary: l tm d)
  case (Cons c t)
  have c: "schar c \<noteq> - 1" using Cons.prems(2) by (auto simp: schar_minus1)
  show ?case
  proof (cases "c = CHR 0x22 \<or> c = CHR 0x5C")
    case True
    note b = backslash [OF Cons.prems(1), of c]
    from Cons.IH [of "lx_put L c (lx_put L (CHR 0x5C) l)" "tm @ [c]" True] b Cons.prems(2,3) True c
    show ?thesis by (auto simp: lx_available_def rest_out Let_def)
  next
    case False
    with put_plain [OF Cons.prems(1), of c] Cons.IH [of "lx_put L c l" "tm @ [c]" True] Cons.prems(2,3) c
    show ?thesis by (auto simp: lx_available_def rest_out Let_def)
  qed
qed auto

lemma char_inside:
  assumes "inq l"
  shows "\<exists>l'. inq l' \<and> by_char_loop L sp 0 m (escape_chars t @ inp) l n tm ret lim =
    by_char_loop L sp 0 m inp l' n (tm @ escape_chars t) ret lim"
  using assms
proof (induction t arbitrary: l tm)
  case (Cons c t)
  show ?case
  proof (cases "c = CHR 0x22 \<or> c = CHR 0x5C")
    case True
    with backslash_in [OF Cons.prems(1), of c] Cons.IH [of "lx_put L c (lx_put L (CHR 0x5C) l)" "tm @ [CHR 0x5C, c]"]
    show ?thesis by (auto simp: inq_in Let_def)
  next
    case False
    with put_in [OF Cons.prems(1), of c] Cons.IH [of "lx_put L c l" "tm @ [c]"]
    show ?thesis by (auto simp: inq_in Let_def)
  qed
qed auto

lemma char_outside:
  assumes "rest l" "\<forall>c\<in>set t. c \<noteq> sp \<and> (plain c \<or> c = CHR 0x22 \<or> c = CHR 0x5C)" "sp \<noteq> CHR 0x5C"
  shows "\<exists>l'. rest l' \<and> by_char_loop L sp 0 m (escape_chars t @ inp) l n tm ret lim =
    by_char_loop L sp 0 m inp l' n (tm @ escape_chars t) ret lim"
  using assms
proof (induction t arbitrary: l tm)
  case (Cons c t)
  show ?case
  proof (cases "c = CHR 0x22 \<or> c = CHR 0x5C")
    case True
    with backslash [OF Cons.prems(1), of c] Cons.IH [of "lx_put L c (lx_put L (CHR 0x5C) l)" "tm @ [CHR 0x5C, c]"] Cons.prems(2,3)
    show ?thesis by (auto simp: rest_out Let_def)
  next
    case False
    with put_plain [OF Cons.prems(1), of c] Cons.IH [of "lx_put L c l" "tm @ [c]"] Cons.prems(2,3)
    show ?thesis by (auto simp: rest_out Let_def)
  qed
qed auto

end

interpretation std: quoting_lexer StandardLex "\<lambda>l. \<not> sx_in_quote l \<and> \<not> sx_backslash l" "\<lambda>l. sx_in_quote l \<and> \<not> sx_backslash l"
    "\<lambda>c. c \<noteq> CHR 0x22 \<and> c \<noteq> CHR 0x5C"
  by unfold_locales (auto simp: StandardLex_def std_put_def Let_def)

interpretation cmt: quoting_lexer LexComment "\<lambda>l. \<not> cx_in_quote l \<and> \<not> cx_backslash l \<and> \<not> cx_in_comment l"
    "\<lambda>l. cx_in_quote l \<and> \<not> cx_backslash l \<and> \<not> cx_in_comment l" "\<lambda>c. c \<noteq> CHR 0x22 \<and> c \<noteq> CHR 0x5C \<and> \<not> is_comment c"
  by unfold_locales (auto simp: LexComment_def comment_put_def is_comment_def)

text \<open>Without a lexical analyser a string is split at the first separator.\<close>

lemma null_split_plain:
  "c \<notin> set k \<Longrightarrow> by_char_loop NullLex c 0 m (k @ inp) l n tm ret lim =
     by_char_loop NullLex c 0 m inp (if k = [] then l else schar (last k)) n (tm @ k) ret lim"
  by (induction k arbitrary: l tm) (auto simp: NullLex_def)

lemma null_split_rest:
  "\<not> n < m \<Longrightarrow> by_char_loop NullLex c 0 m v l n tm ret None = Inr (ret @ [tm @ v], None)"
  by (induction v arbitrary: l tm) (auto simp: NullLex_def if_lim_def)

end
