(* ===== verification/Conf_Option.thy ===== *)
theory Conf_Option
  imports Lex_Split
begin

text \<open>
  The class \<open>Option\<close> of \<^verbatim>\<open>common/options.hpp\<close>: a directive and its arguments. The \<open>touched\<close> bit is
  metadata that the code changes through a const reference; here \<open>touch\<close> returns the option.
  The template parameter \<open>T\<close> of \<open>get_num\<close> is an unsigned integer type. The length of an argument in
  characters does not depend on what lies behind it in memory (\<open>utf8_length_mem\<close>).
\<close>

record conf_option =
  o_touched :: bool
  o_data :: "string list"

definition opt_of :: "string list \<Rightarrow> conf_option" where
  "opt_of xs = \<lparr>o_touched = False, o_data = xs\<rparr>"

lemma o_data_opt_of [simp]: "o_data (opt_of xs) = xs"
  by (simp add: opt_of_def)

abbreviation (input) MULTILINE :: u64 where "MULTILINE \<equiv> 0x8000000"

datatype validate_status = STATUS_GOOD | STATUS_MULTILINE | STATUS_LENGTH

fun dec_string :: "nat \<Rightarrow> string" where
  "dec_string n = (if n < 10 then [char_of (48 + n)] else dec_string (n div 10) @ [char_of (48 + n mod 10)])"

declare dec_string.simps [simp del]


section \<open>Validation and access\<close>

definition opt_validate :: "string \<Rightarrow> u64 \<Rightarrow> validate_status" where
  "opt_validate str max_len =
     (let len = unat (max_len AND (MULTILINE - 1))
      in if (CHR 0x0D \<in> set str \<or> CHR 0x0A \<in> set str) \<and> max_len AND MULTILINE = 0 then STATUS_MULTILINE
         else if len > 0 \<and> utf8_length (\<lambda>_. 0) str > len then STATUS_LENGTH
         else STATUS_GOOD)"

definition validate_status_description :: "validate_status \<Rightarrow> string" where
  "validate_status_description status =
     (case status of STATUS_GOOD \<Rightarrow> ''good'' | STATUS_MULTILINE \<Rightarrow> ''multiline'' | STATUS_LENGTH \<Rightarrow> ''too long'')"

definition printable_directive :: "conf_option \<Rightarrow> string" where
  "printable_directive opt = (if length (o_data opt) > 0 then utf8_printable (o_data opt ! 0) 32 else '''')"

definition err_ref :: "conf_option \<Rightarrow> string" where
  "err_ref opt =
     ''option'' @ (if o_data opt \<noteq> [] then '' '' @ [CHR 0x27] @ printable_directive opt @ [CHR 0x27] else '''')"

definition min_args :: "nat \<Rightarrow> conf_option \<Rightarrow> unit res" where
  "min_args n opt =
     (if length (o_data opt) < n
      then Inl (Option_error (err_ref opt @ '' must have at least '' @ dec_string n @ '' arguments''))
      else Inr ())"

definition exact_args :: "nat \<Rightarrow> conf_option \<Rightarrow> unit res" where
  "exact_args n opt =
     (if length (o_data opt) \<noteq> n
      then Inl (Option_error (err_ref opt @ '' must have exactly '' @ dec_string n @ '' arguments''))
      else Inr ())"

definition validate_arg :: "nat \<Rightarrow> u64 \<Rightarrow> conf_option \<Rightarrow> unit res" where
  "validate_arg index max_len opt =
     (if max_len > 0 \<and> index < length (o_data opt)
      then (let status = opt_validate (o_data opt ! index) max_len
            in if status \<noteq> STATUS_GOOD
               then Inl (Option_error (err_ref opt @ '' is '' @ validate_status_description status))
               else Inr ())
      else Inr ())"

definition validate_string :: "string \<Rightarrow> string \<Rightarrow> u64 \<Rightarrow> unit res" where
  "validate_string name str max_len =
     (let status = opt_validate str max_len
      in if status \<noteq> STATUS_GOOD then Inl (Option_error (name @ '' is '' @ validate_status_description status))
         else Inr ())"

definition opt_get :: "nat \<Rightarrow> u64 \<Rightarrow> conf_option \<Rightarrow> string res" where
  "opt_get index max_len opt =
     bindE (min_args (index + 1) opt) (\<lambda>_. bindE (validate_arg index max_len opt) (\<lambda>_.
       Inr (o_data opt ! index)))"

definition opt_get_default :: "nat \<Rightarrow> u64 \<Rightarrow> string \<Rightarrow> conf_option \<Rightarrow> string res" where
  "opt_get_default index max_len default_value opt =
     bindE (validate_arg index max_len opt) (\<lambda>_.
       Inr (if index < length (o_data opt) then o_data opt ! index else default_value))"

definition opt_get_optional :: "nat \<Rightarrow> u64 \<Rightarrow> conf_option \<Rightarrow> string res" where
  "opt_get_optional index max_len opt =
     bindE (validate_arg index max_len opt) (\<lambda>_.
       Inr (if index < length (o_data opt) then o_data opt ! index else ''''))"

definition opt_get_ptr :: "nat \<Rightarrow> u64 \<Rightarrow> conf_option \<Rightarrow> string option res" where
  "opt_get_ptr index max_len opt =
     bindE (validate_arg index max_len opt) (\<lambda>_.
       Inr (if index < length (o_data opt) then Some (o_data opt ! index) else None))"


section \<open>Numbers\<close>

definition opt_get_num :: "nat \<Rightarrow> conf_option \<Rightarrow> 'a::len word res" where
  "opt_get_num idx opt =
     bindE (opt_get idx 64 opt) (\<lambda>numstr.
       if length numstr \<ge> 2 \<and> numstr ! 0 = CHR ''0'' \<and> numstr ! 1 = CHR ''x''
       then (case parse_hex_number (drop 2 numstr) of
               None \<Rightarrow> Inl (Option_error (err_ref opt @ ''['' @ dec_string idx @ ''] expecting a hex number''))
             | Some n \<Rightarrow> Inr n)
       else (case parse_number False numstr of
               None \<Rightarrow> Inl (Option_error (err_ref opt @ ''['' @ dec_string idx @ ''] must be a number''))
             | Some n \<Rightarrow> Inr n))"

definition opt_get_num_default :: "nat \<Rightarrow> 'a::len word \<Rightarrow> conf_option \<Rightarrow> 'a word res" where
  "opt_get_num_default idx default_value opt =
     (if length (o_data opt) > idx then opt_get_num idx opt else Inr default_value)"

definition range_error :: "nat \<Rightarrow> 'a::len word \<Rightarrow> 'a word \<Rightarrow> conf_option \<Rightarrow> exn" where
  "range_error idx min_value max_value opt =
     Option_error (err_ref opt @ ''['' @ dec_string idx @ ''] must be in the range ['' @
       dec_string (unat min_value) @ '','' @ dec_string (unat max_value) @ '']'')"

definition opt_get_num_default_range ::
  "nat \<Rightarrow> 'a::len word \<Rightarrow> 'a word \<Rightarrow> 'a word \<Rightarrow> conf_option \<Rightarrow> 'a word res" where
  "opt_get_num_default_range idx default_value min_value max_value opt =
     bindE (opt_get_num_default idx default_value opt) (\<lambda>ret.
       if ret \<noteq> default_value \<and> (ret < min_value \<or> ret > max_value)
       then Inl (range_error idx min_value max_value opt) else Inr ret)"

definition opt_get_num_range :: "nat \<Rightarrow> 'a::len word \<Rightarrow> 'a word \<Rightarrow> conf_option \<Rightarrow> 'a word res" where
  "opt_get_num_range idx min_value max_value opt =
     bindE (opt_get_num idx opt) (\<lambda>ret.
       if ret < min_value \<or> ret > max_value then Inl (range_error idx min_value max_value opt) else Inr ret)"


section \<open>Rendering and escaping\<close>

abbreviation (input) RENDER_TRUNC_64 :: u32 where "RENDER_TRUNC_64 \<equiv> 1"
abbreviation (input) RENDER_PASS_FMT :: u32 where "RENDER_PASS_FMT \<equiv> 2"
abbreviation (input) RENDER_NUMBER :: u32 where "RENDER_NUMBER \<equiv> 4"
abbreviation (input) RENDER_BRACKET :: u32 where "RENDER_BRACKET \<equiv> 8"
abbreviation (input) RENDER_UNUSED :: u32 where "RENDER_UNUSED \<equiv> 16"

fun render_loop :: "u32 \<Rightarrow> u64 \<Rightarrow> bool \<Rightarrow> string list \<Rightarrow> string" where
  "render_loop flags max_len_flags first [] = ''''"
| "render_loop flags max_len_flags first (x # xs) =
     (if \<not> first then '' '' else '''') @
     (if flags AND RENDER_BRACKET \<noteq> 0 then ''['' else '''') @
     utf8_printable x max_len_flags @
     (if flags AND RENDER_BRACKET \<noteq> 0 then '']'' else '''') @
     render_loop flags max_len_flags False xs"

definition opt_render :: "u32 \<Rightarrow> conf_option \<Rightarrow> string" where
  "opt_render flags opt =
     (let max_len_flags = (if flags AND RENDER_TRUNC_64 \<noteq> 0 then 64 else 0);
          max_len_flags = (if flags AND RENDER_PASS_FMT \<noteq> 0 then max_len_flags OR UTF8_PASS_FMT else max_len_flags)
      in render_loop flags max_len_flags True (o_data opt))"

definition escape_string :: "string \<Rightarrow> bool \<Rightarrow> string" where
  "escape_string trm must_quote =
     (if must_quote then [CHR 0x22] else []) @ escape_chars trm @ (if must_quote then [CHR 0x22] else [])"

definition must_quote_string :: "string \<Rightarrow> bool \<Rightarrow> bool" where
  "must_quote_string str csv = list_ex (\<lambda>c. is_space c \<or> (csv \<and> c = CHR '','')) str"

fun escape_loop :: "bool \<Rightarrow> bool \<Rightarrow> string list \<Rightarrow> string" where
  "escape_loop csv mr [] = ''''"
| "escape_loop csv mr (trm # ts) =
     (if mr then '' '' else '''') @ escape_string trm (must_quote_string trm csv) @ escape_loop csv True ts"

definition opt_escape :: "bool \<Rightarrow> conf_option \<Rightarrow> string" where
  "opt_escape csv opt = escape_loop csv False (o_data opt)"

definition opt_remove_first :: "nat \<Rightarrow> conf_option \<Rightarrow> conf_option" where
  "opt_remove_first n_elements opt =
     (let n = min (length (o_data opt)) n_elements
      in if n \<noteq> 0 then opt\<lparr>o_data := drop n (o_data opt)\<rparr> else opt)"

definition opt_push_back :: "string \<Rightarrow> conf_option \<Rightarrow> conf_option" where
  "opt_push_back item opt = opt\<lparr>o_data := o_data opt @ [item]\<rparr>"

definition opt_touch :: "conf_option \<Rightarrow> conf_option" where
  "opt_touch opt = opt\<lparr>o_touched := True\<rparr>"

text \<open>\<open>operator==\<close> compares the strings only.\<close>

definition opt_eq :: "conf_option \<Rightarrow> conf_option \<Rightarrow> bool" where
  "opt_eq a b = (o_data a = o_data b)"


section \<open>Escaped options are read back\<close>

context quoting_lexer
begin

lemma space_escaped:
  assumes "rest l" "CHR 0xFF \<notin> set t"
    "q \<or> (\<forall>c\<in>set t. \<not> is_space c \<and> (plain c \<or> c = CHR 0x22 \<or> c = CHR 0x5C))"
  shows "\<exists>l'. rest l' \<and> by_space_loop L (escape_string t q @ inp) l [] False ret lim =
    by_space_loop L inp l' t (q \<or> t \<noteq> []) ret lim"
proof (cases q)
  case False
  with space_outside [OF assms(1,2), of inp "[]" False ret lim] assms(3) show ?thesis by (simp add: escape_string_def)
next
  case True
  let ?l = "lx_put L (CHR 0x22) l"
  note q = put_quote [OF assms(1)]
  from space_inside [OF q [THEN conjunct1] assms(2), of "CHR 0x22 # inp" "[]" ret lim]
  obtain l1 where l1: "inq l1" "by_space_loop L (escape_chars t @ CHR 0x22 # inp) ?l [] True ret lim =
      by_space_loop L (CHR 0x22 # inp) l1 t True ret lim" by auto
  with True q put_unquote [OF l1(1)] show ?thesis
    by (intro exI [of _ "lx_put L (CHR 0x22) l1"]) (simp add: escape_string_def lx_available_def inq_in rest_out Let_def)
qed

lemma space_sep:
  assumes "rest l" "plain (CHR '' '')"
  shows "\<exists>l'. rest l' \<and> by_space_loop L (CHR '' '' # inp) l t True ret lim =
    bindE (if_lim lm_add_term lim) (\<lambda>lim. by_space_loop L inp l' [] False (ret @ [t]) lim)"
  using put_plain [OF assms] rest_out [of "lx_put L (CHR '' '') l"]
  by (intro exI [of _ "lx_put L (CHR '' '') l"]) (auto simp: lx_available_def is_space_def schar_minus1 Let_def)

text \<open>As many terms are counted as the option has.\<close>

lemma space_options:
  assumes "rest l" "plain (CHR '' '')"
    "\<forall>t\<in>set ts. t \<noteq> [] \<and> CHR 0xFF \<notin> set t \<and>
      (must_quote_string t csv \<or> (\<forall>c\<in>set t. plain c \<or> c = CHR 0x22 \<or> c = CHR 0x5C))"
  shows "by_space_loop L (escape_loop csv False ts) l [] False ret None = Inr (ret @ ts, None)"
  using assms(1,3)
proof (induction ts arbitrary: l ret)
  case (Cons t ts)
  have t: "t \<noteq> []" "CHR 0xFF \<notin> set t"
    "must_quote_string t csv \<or> (\<forall>c\<in>set t. \<not> is_space c \<and> (plain c \<or> c = CHR 0x22 \<or> c = CHR 0x5C))"
    using Cons.prems(2) by (auto simp: must_quote_string_def list_ex_iff)
  have sep: "ts \<noteq> [] \<Longrightarrow> escape_loop csv True ts = CHR '' '' # escape_loop csv False ts" by (cases ts) auto
  from space_escaped [OF Cons.prems(1) t(2,3), of "escape_loop csv True ts" ret None] t(1)
  obtain l1 where l1: "rest l1" "by_space_loop L (escape_loop csv False (t # ts)) l [] False ret None =
      by_space_loop L (escape_loop csv True ts) l1 t True ret None" by auto
  show ?case
  proof (cases "ts = []")
    case True
    with l1 show ?thesis by (simp add: if_lim_def)
  next
    case False
    from space_sep [OF l1(1) assms(2), of "escape_loop csv False ts" t ret None]
    obtain l2 where l2: "rest l2" "by_space_loop L (CHR '' '' # escape_loop csv False ts) l1 t True ret None =
        by_space_loop L (escape_loop csv False ts) l2 [] False (ret @ [t]) None" by (auto simp: if_lim_def)
    from l1 l2 sep [OF False] Cons.IH [OF l2(1)] Cons.prems(2) show ?thesis by simp
  qed
qed simp

lemma options_read_back:
  assumes "plain (CHR '' '')"
    "\<forall>t\<in>set ts. t \<noteq> [] \<and> CHR 0xFF \<notin> set t \<and>
      (must_quote_string t csv \<or> (\<forall>c\<in>set t. plain c \<or> c = CHR 0x22 \<or> c = CHR 0x5C))"
  shows "by_space L [] (escape_loop csv False ts) None = Inr (ts, None)"
  using space_options [OF new assms, of "[]"] by (simp add: by_space_def)

end

end
