(* ===== verification/Option_List.thy ===== *)
theory Option_List
  imports Conf_Option Split_Lines Transport_Protocol
begin

text \<open>
  The class \<open>OptionList\<close> of \<^verbatim>\<open>common/options.hpp\<close>: the list of options with the hash map that
  gives, for a name, the indexes of its options, the parsers that fill the list, and the lookups.
  A lookup touches options through a const reference: it returns the list with its result. What a
  parser that throws has pushed before is not returned.
\<close>

record option_list =
  ol_opts :: "conf_option list"
  ol_map :: "string \<Rightarrow> u32 list option"

definition ol_new :: option_list where
  "ol_new = \<lparr>ol_opts = [], ol_map = (\<lambda>_. None)\<rparr>"

definition ol_clear :: "option_list \<Rightarrow> option_list" where
  "ol_clear ol = ol\<lparr>ol_opts := [], ol_map := (\<lambda>_. None)\<rparr>"

definition ol_push_back :: "conf_option \<Rightarrow> option_list \<Rightarrow> option_list" where
  "ol_push_back opt ol = ol\<lparr>ol_opts := ol_opts ol @ [opt]\<rparr>"


section \<open>The index map\<close>

text \<open>\<open>map_[name].push_back(i)\<close>: the subscript creates an entry that is not there.\<close>

definition map_push :: "string \<Rightarrow> nat \<Rightarrow> (string \<Rightarrow> u32 list option) \<Rightarrow> (string \<Rightarrow> u32 list option)" where
  "map_push name i m = m(name \<mapsto> (case m name of None \<Rightarrow> [] | Some l \<Rightarrow> l) @ [of_nat i])"

fun update_map_loop :: "nat \<Rightarrow> conf_option list \<Rightarrow> (string \<Rightarrow> u32 list option) \<Rightarrow> (string \<Rightarrow> u32 list option)" where
  "update_map_loop i [] m = m"
| "update_map_loop i (opt # opts) m =
     update_map_loop (i + 1) opts (if o_data opt \<noteq> [] then map_push (o_data opt ! 0) i m else m)"

definition update_map :: "option_list \<Rightarrow> option_list" where
  "update_map ol = ol\<lparr>ol_map := update_map_loop 0 (ol_opts ol) (\<lambda>_. None)\<rparr>"

definition add_item :: "conf_option \<Rightarrow> option_list \<Rightarrow> option_list" where
  "add_item opt ol =
     (if o_data opt \<noteq> []
      then (let i = length (ol_opts ol); ol = ol_push_back opt ol
            in ol\<lparr>ol_map := map_push (o_data opt ! 0) i (ol_map ol)\<rparr>)
      else ol)"


section \<open>Key-value lists\<close>

record key_value =
  kv_key :: string
  kv_value :: string
  kv_priority :: u32

text \<open>\<open>parse_number<int>\<close>: \<open>int\<close> arithmetic as it wraps in two's complement.\<close>

definition parse_number_int :: "string \<Rightarrow> u32 option" where
  "parse_number_int str =
     (if str = [] \<or> hd str = CHR 0x00 then None
      else if hd str = CHR ''-'' then map_option uminus (parse_number_loop False 0 (tl str))
      else parse_number_loop False 0 str)"

fun kv_unescape_loop :: "bool \<Rightarrow> string \<Rightarrow> string \<Rightarrow> bool \<Rightarrow> string \<times> bool" where
  "kv_unescape_loop bs [] ret newline_present = (if bs then ret @ [CHR 0x5C] else ret, newline_present)"
| "kv_unescape_loop bs (c # cs) ret newline_present =
     (if bs
      then (if c = CHR ''n'' then kv_unescape_loop False cs (ret @ [NL]) True
            else if c = CHR 0x5C then kv_unescape_loop False cs (ret @ [CHR 0x5C]) newline_present
            else kv_unescape_loop False cs (ret @ [CHR 0x5C] @ [c]) newline_present)
      else if c = CHR 0x5C then kv_unescape_loop True cs ret newline_present
      else kv_unescape_loop False cs (ret @ [c]) newline_present)"

definition kv_unescape :: "string \<Rightarrow> string \<times> bool" where
  "kv_unescape value = kv_unescape_loop False value [] False"

definition singular_arg :: "string \<Rightarrow> bool" where
  "singular_arg key =
     (list_ex (\<lambda>c. 65 \<le> schar c \<and> schar c \<le> 90) key \<and> \<not> list_ex (\<lambda>c. 97 \<le> schar c \<and> schar c \<le> 122) key)"

definition combined_length :: "key_value \<Rightarrow> nat" where
  "combined_length kv = length (kv_key kv) + length (kv_value kv)"

definition convert_to_option :: "key_value \<Rightarrow> limits option \<Rightarrow> (conf_option \<times> limits option) res" where
  "convert_to_option kv lim =
     (let (unesc_value, newline_present) = kv_unescape (kv_value kv)
      in if newline_present \<or> singular_arg (kv_key kv) then Inr (opt_of [kv_key kv, unesc_value], lim)
         else if unesc_value \<noteq> ''NOARGS''
         then bindE (by_space StandardLex [kv_key kv] unesc_value lim) (\<lambda>(xs, lim). Inr (opt_of xs, lim))
         else Inr (opt_of [kv_key kv], lim))"

definition split_priority :: "key_value \<Rightarrow> key_value" where
  "split_priority kv =
     (if CHR ''.'' \<in> set (kv_key kv)
      then (let dp = length (kv_key kv) - 1 - length (takeWhile (\<lambda>c. c \<noteq> CHR ''.'') (rev (kv_key kv)));
                tp = dp + 1
            in if tp < length (kv_key kv)
               then (case parse_number_int (drop tp (kv_key kv)) of
                       None \<Rightarrow> kv
                     | Some n \<Rightarrow> kv\<lparr>kv_priority := n, kv_key := take dp (kv_key kv)\<rparr>)
               else kv)
      else kv)"

text \<open>\<open>std::string::compare\<close> compares characters as unsigned numbers.\<close>

fun str_compare :: "string \<Rightarrow> string \<Rightarrow> int" where
  "str_compare [] [] = 0"
| "str_compare [] (_ # _) = - 1"
| "str_compare (_ # _) [] = 1"
| "str_compare (a # as) (b # bs) =
     (if a = b then str_compare as bs else if (of_char a :: nat) < of_char b then - 1 else 1)"

definition kv_compare :: "key_value \<Rightarrow> key_value \<Rightarrow> bool" where
  "kv_compare a b =
     (let cmp = str_compare (kv_key a) (kv_key b)
      in if cmp < 0 then True else if cmp > 0 then False else kv_priority a <s kv_priority b)"

text \<open>\<open>std::sort\<close> leaves the order of equal elements open, so it is an argument.\<close>

definition kv_preprocess :: "((key_value \<Rightarrow> key_value \<Rightarrow> bool) \<Rightarrow> key_value list \<Rightarrow> key_value list) \<Rightarrow> key_value list \<Rightarrow> key_value list" where
  "kv_preprocess srt xs = srt kv_compare (map split_priority xs)"


section \<open>Parsers\<close>

definition validate_directive :: "conf_option \<Rightarrow> limits \<Rightarrow> limits res" where
  "validate_directive opt l = bindE (validate_arg 0 (of_nat (lm_max_directive_len l)) opt) (\<lambda>_. Inr l)"

text \<open>\<open>if (lim) { lim->add_opt(); lim->validate_directive(opt); } push_back(opt)\<close>, which ends every parser.\<close>

definition push_checked :: "conf_option \<Rightarrow> option_list \<Rightarrow> limits option \<Rightarrow> (option_list \<times> limits option) res" where
  "push_checked opt ol lim =
     bindE (if_lim lm_add_opt lim) (\<lambda>lim. bindE (if_lim (validate_directive opt) lim) (\<lambda>lim.
       Inr (ol_push_back opt ol, lim)))"

fun csv_loop :: "string list \<Rightarrow> option_list \<Rightarrow> limits option \<Rightarrow> (option_list \<times> limits option) res" where
  "csv_loop [] ol lim = Inr (ol, lim)"
| "csv_loop (x # xs) ol lim =
     bindE (by_space StandardLex [] x lim) (\<lambda>(opt, lim).
       if opt \<noteq> []
       then bindE (push_checked (opt_of opt) ol lim) (\<lambda>(ol, lim). csv_loop xs ol lim)
       else csv_loop xs ol lim)"

definition parse_from_csv :: "string \<Rightarrow> option_list \<Rightarrow> limits option \<Rightarrow> (option_list \<times> limits option) res" where
  "parse_from_csv str ol lim =
     bindE (if_lim (lm_add_string str) lim) (\<lambda>lim.
       bindE (by_char StandardLex [] str (CHR '','') 0 0xFFFFFFFF lim) (\<lambda>(xs, lim). csv_loop xs ol lim))"

fun argv_loop :: "string list \<Rightarrow> conf_option \<Rightarrow> option_list \<Rightarrow> conf_option \<times> option_list" where
  "argv_loop [] opt ol = (opt, ol)"
| "argv_loop (a # as) opt ol =
     (let (a, opt, ol) =
        (if starts_with a ''--''
         then (drop 2 a, if o_data opt \<noteq> [] then opt_of [] else opt, if o_data opt \<noteq> [] then ol_push_back opt ol else ol)
         else (a, opt, ol))
      in argv_loop as (if a \<noteq> [] then opt_push_back a opt else opt) ol)"

definition parse_from_argv :: "string list \<Rightarrow> option_list \<Rightarrow> option_list" where
  "parse_from_argv argv ol =
     (let (opt, ol) = argv_loop argv (opt_of []) ol
      in if o_data opt \<noteq> [] then ol_push_back opt ol else ol)"

function peer_info_loop :: "split_lines \<Rightarrow> option_list \<Rightarrow> limits option \<Rightarrow> (option_list \<times> limits option) res" where
  "peer_info_loop sl ol lim =
     (case split_line True sl of
        (False, _) \<Rightarrow> Inr (ol, lim)
      | (True, sl) \<Rightarrow>
          (case by_char NullLex [] (sl_line sl) (CHR ''='') 0 1 lim of
             Inl e \<Rightarrow> Inl e
           | Inr (opt, lim) \<Rightarrow>
               (if opt \<noteq> []
                then (case push_checked (opt_of opt) ol lim of
                        Inl e \<Rightarrow> Inl e
                      | Inr (ol, lim) \<Rightarrow> peer_info_loop sl ol lim)
                else peer_info_loop sl ol lim)))"
  by pat_completeness auto

termination
  by (relation "measure (\<lambda>(sl, _, _). length (sl_data sl) - sl_index sl)") (auto dest: split_line_measure)

declare peer_info_loop.simps [simp del]

definition parse_from_peer_info :: "string \<Rightarrow> option_list \<Rightarrow> limits option \<Rightarrow> (option_list \<times> limits option) res" where
  "parse_from_peer_info str ol lim =
     bindE (if_lim (lm_add_string str) lim) (\<lambda>lim. peer_info_loop (split_lines_new str 0) ol lim)"

fun parse_from_key_value_list ::
  "key_value list \<Rightarrow> option_list \<Rightarrow> limits option \<Rightarrow> (option_list \<times> limits option) res" where
  "parse_from_key_value_list [] ol lim = Inr (ol, lim)"
| "parse_from_key_value_list (kv # kvs) ol lim =
     bindE (if_lim (lm_add_bytes (combined_length kv)) lim) (\<lambda>lim.
       bindE (convert_to_option kv lim) (\<lambda>(opt, lim).
         bindE (push_checked opt ol lim) (\<lambda>(ol, lim). parse_from_key_value_list kvs ol lim)))"


section \<open>Configuration files\<close>

definition ignore_line :: "string \<Rightarrow> bool" where
  "ignore_line line = (case dropWhile is_space line of [] \<Rightarrow> True | c # _ \<Rightarrow> is_comment c)"

definition is_open_tag :: "string \<Rightarrow> bool" where
  "is_open_tag str \<longleftrightarrow> length str \<ge> 3 \<and> str ! 0 = CHR ''<'' \<and> str ! 1 \<noteq> CHR ''/'' \<and> last str = CHR ''>''"

definition is_close_tag :: "string \<Rightarrow> string \<Rightarrow> bool" where
  "is_close_tag str tag \<longleftrightarrow>
     length str \<ge> 4 \<and> str ! 0 = CHR ''<'' \<and> str ! 1 = CHR ''/'' \<and>
     take (length str - 3) (drop 2 str) = tag \<and> last str = CHR ''>''"

definition untag_open_tag :: "string \<Rightarrow> string" where
  "untag_open_tag str = (if length str \<ge> 3 then take (length str - 2) (drop 1 str) else str)"

definition is_open_meta_tag :: "string \<Rightarrow> bool" where
  "is_open_meta_tag str = ends_with str ''_START''"

definition is_close_meta_tag :: "string \<Rightarrow> string \<Rightarrow> string \<Rightarrow> bool" where
  "is_close_meta_tag str prefix tag \<longleftrightarrow> prefix @ tag @ ''_STOP'' = str"

definition untag_open_meta_tag :: "string \<Rightarrow> string" where
  "untag_open_meta_tag str = (if length str \<ge> 6 then take (length str - 6) str else str)"

definition extraneous_err :: "nat \<Rightarrow> string \<Rightarrow> conf_option \<Rightarrow> exn" where
  "extraneous_err line_num type opt =
     Option_error (''line '' @ dec_string line_num @ '': '' @ type @ '' <'' @ printable_directive opt @
       ''> is followed by extraneous text'')"

definition not_closed_out_err :: "string \<Rightarrow> conf_option \<Rightarrow> exn" where
  "not_closed_out_err type opt =
     Option_error (type @ '' <'' @ printable_directive opt @ ''> was not properly closed out'')"

definition line_too_long :: "nat \<Rightarrow> exn" where
  "line_too_long line_num = Option_error (''line '' @ dec_string line_num @ '' is too long'')"

definition parse_option_from_line :: "string \<Rightarrow> limits option \<Rightarrow> (conf_option \<times> limits option) res" where
  "parse_option_from_line line lim =
     bindE (by_space LexComment [] line lim) (\<lambda>(xs, lim). Inr (opt_of xs, lim))"

text \<open>The option collected between an open and a close tag; \<open>None\<close> when not \<open>in_multiline\<close>.\<close>

definition multiline_add :: "string \<Rightarrow> conf_option \<Rightarrow> conf_option" where
  "multiline_add line multiline =
     multiline\<lparr>o_data := (o_data multiline)[1 := o_data multiline ! 1 @ line @ [NL]]\<rparr>"

definition multiline_open :: "(string \<Rightarrow> string) \<Rightarrow> conf_option \<Rightarrow> conf_option" where
  "multiline_open untag opt = opt\<lparr>o_data := (o_data opt)[0 := untag (o_data opt ! 0)] @ [[]]\<rparr>"

text \<open>What one line of the file does to the option being collected, the list and the limits.\<close>

type_synonym parse_state = "conf_option option \<times> option_list \<times> limits option"

definition config_line :: "nat \<Rightarrow> string \<Rightarrow> parse_state \<Rightarrow> parse_state res" where
  "config_line line_num line = (\<lambda>(multiline, ol, lim).
     (case multiline of
        Some ml \<Rightarrow>
          (if is_close_tag line (o_data ml ! 0)
           then bindE (push_checked ml ol lim) (\<lambda>(ol, lim). Inr (None, ol, lim))
           else Inr (Some (multiline_add line ml), ol, lim))
      | None \<Rightarrow>
          (if \<not> ignore_line line
           then bindE (parse_option_from_line line lim) (\<lambda>(opt, lim).
             if o_data opt \<noteq> []
             then (if is_open_tag (o_data opt ! 0)
                   then (if length (o_data opt) > 1 then Inl (extraneous_err line_num ''option'' opt)
                         else Inr (Some (multiline_open untag_open_tag opt), ol, lim))
                   else bindE (push_checked opt ol lim) (\<lambda>(ol, lim). Inr (None, ol, lim)))
             else Inr (None, ol, lim))
           else Inr (None, ol, lim))))"

definition meta_line :: "string \<Rightarrow> nat \<Rightarrow> string \<Rightarrow> parse_state \<Rightarrow> parse_state res" where
  "meta_line prefix line_num line = (\<lambda>(multiline, ol, lim).
     (if starts_with line ''# ''
      then (let line = drop 2 line
            in case multiline of
                 Some ml \<Rightarrow>
                   (if is_close_meta_tag line prefix (o_data ml ! 0)
                    then bindE (push_checked ml ol lim) (\<lambda>(ol, lim). Inr (None, ol, lim))
                    else Inr (Some (multiline_add line ml), ol, lim))
               | None \<Rightarrow>
                   (if starts_with line prefix
                    then bindE (by_char NullLex [] (drop (length prefix) line) (CHR ''='') 0 1 lim) (\<lambda>(opt, lim).
                      let opt = opt_of opt
                      in if o_data opt \<noteq> []
                         then (if is_open_meta_tag (o_data opt ! 0)
                               then (if length (o_data opt) > 1 then Inl (extraneous_err line_num ''meta option'' opt)
                                     else Inr (Some (multiline_open untag_open_meta_tag opt), ol, lim))
                               else bindE (push_checked opt ol lim) (\<lambda>(ol, lim). Inr (None, ol, lim)))
                         else Inr (None, ol, lim))
                    else Inr (None, ol, lim)))
      else Inr (multiline, ol, lim)))"

text \<open>The loop over the lines, which the two parsers of files have in common.\<close>

function lines_loop ::
  "(nat \<Rightarrow> string \<Rightarrow> parse_state \<Rightarrow> parse_state res) \<Rightarrow> split_lines \<Rightarrow> nat \<Rightarrow> parse_state \<Rightarrow> parse_state res" where
  "lines_loop f sl line_num st =
     (case split_line True sl of
        (False, _) \<Rightarrow> Inr st
      | (True, sl) \<Rightarrow>
          (if sl_overflow sl then Inl (line_too_long (line_num + 1))
           else (case f (line_num + 1) (sl_line sl) st of
                   Inl e \<Rightarrow> Inl e
                 | Inr st \<Rightarrow> lines_loop f sl (line_num + 1) st)))"
  by pat_completeness auto

termination
  by (relation "measure (\<lambda>(_, sl, _, _). length (sl_data sl) - sl_index sl)") (auto dest: split_line_measure)

declare lines_loop.simps [simp del]

definition lines_end :: "string \<Rightarrow> parse_state \<Rightarrow> (option_list \<times> limits option) res" where
  "lines_end type = (\<lambda>(multiline, ol, lim).
     (case multiline of Some ml \<Rightarrow> Inl (not_closed_out_err type ml) | None \<Rightarrow> Inr (ol, lim)))"

definition lim_line_len :: "limits option \<Rightarrow> nat" where
  "lim_line_len lim = (case lim of None \<Rightarrow> 0 | Some l \<Rightarrow> lm_max_line_len l)"

definition parse_from_config :: "string \<Rightarrow> option_list \<Rightarrow> limits option \<Rightarrow> (option_list \<times> limits option) res" where
  "parse_from_config str ol lim =
     bindE (if_lim (lm_add_string str) lim) (\<lambda>lim.
       bindE (lines_loop config_line (split_lines_new str (lim_line_len lim)) 0 (None, ol, lim)) (lines_end ''option''))"

definition parse_meta_from_config ::
  "string \<Rightarrow> string \<Rightarrow> option_list \<Rightarrow> limits option \<Rightarrow> (option_list \<times> limits option) res" where
  "parse_meta_from_config str tag ol lim =
     bindE (lines_loop (meta_line (tag @ ''_'')) (split_lines_new str (lim_line_len lim)) 0 (None, ol, lim))
       (lines_end ''meta option'')"

definition parse_static ::
  "(option_list \<Rightarrow> limits option \<Rightarrow> (option_list \<times> limits option) res) \<Rightarrow> limits option \<Rightarrow> (option_list \<times> limits option) res" where
  "parse_static p lim = bindE (p ol_new lim) (\<lambda>(ol, lim). Inr (update_map ol, lim))"

fun breakout_loop :: "string \<Rightarrow> string \<Rightarrow> string \<Rightarrow> bool" where
  "breakout_loop tag line [] = False"
| "breakout_loop tag line (c # cs) =
     (if c = NL \<or> c = CR then breakout_loop tag [] cs
      else (let line = line @ [c]
            in if (if tag = [] then length line \<ge> 2 \<and> line ! 0 = CHR ''<'' \<and> line ! 1 = CHR ''/''
                   else is_close_tag line tag)
               then True
               else breakout_loop tag line cs))"

definition detect_multiline_breakout_nothrow :: "string \<Rightarrow> string \<Rightarrow> bool" where
  "detect_multiline_breakout_nothrow opt tag = breakout_loop tag [] opt"

definition detect_multiline_breakout :: "string \<Rightarrow> string \<Rightarrow> unit res" where
  "detect_multiline_breakout opt tag =
     (if detect_multiline_breakout_nothrow opt tag then Inl (Option_error ''multiline breakout detected'') else Inr ())"

end
