(* ===== verification/Option_Lookup.thy ===== *)
theory Option_Lookup
  imports Option_List
begin

text \<open>
  The lookups of \<open>OptionList\<close> (\<^verbatim>\<open>common/options.hpp\<close>), its ways of taking over options of another
  list, and rendering. A lookup returns its result, or the exception it throws, and the list with the
  options it has touched; an \<open>Option*\<close> is the option with its index.
\<close>

definition ol_at :: "u32 \<Rightarrow> option_list \<Rightarrow> conf_option" where
  "ol_at i ol = ol_opts ol ! unat i"

definition touch_at :: "u32 \<Rightarrow> option_list \<Rightarrow> option_list" where
  "touch_at i ol = ol\<lparr>ol_opts := (ol_opts ol)[unat i := opt_touch (ol_at i ol)]\<rparr>"

definition ol_get_ptr :: "string \<Rightarrow> option_list \<Rightarrow> conf_option option \<times> option_list" where
  "ol_get_ptr name ol =
     (case ol_map ol name of
        None \<Rightarrow> (None, ol)
      | Some il \<Rightarrow>
          (if length il \<noteq> 0
           then (let i = il ! (length il - 1); ol = touch_at i ol in (Some (ol_at i ol), ol))
           else (None, ol)))"

definition ol_get_unique_ptr :: "string \<Rightarrow> option_list \<Rightarrow> conf_option option res \<times> option_list" where
  "ol_get_unique_ptr name ol =
     (case ol_map ol name of
        None \<Rightarrow> (Inr None, ol)
      | Some il \<Rightarrow>
          (if il = [] then (Inr None, ol)
           else if length il = 1
           then (let i = il ! 0; ol = touch_at i ol in (Inr (Some (ol_at i ol)), ol))
           else (Inl (Option_error (''more than one instance of option '' @ [CHR 0x27] @ name @ [CHR 0x27])), ol)))"

fun consistent_loop :: "string \<Rightarrow> u32 \<Rightarrow> u32 list \<Rightarrow> option_list \<Rightarrow> unit res \<times> option_list" where
  "consistent_loop name first [] ol = (Inr (), ol)"
| "consistent_loop name first (i # il) ol =
     (let ol = touch_at i ol
      in if \<not> opt_eq (ol_at i ol) (ol_at first ol)
         then (Inl (Option_error (''more than one instance of option '' @ [CHR 0x27] @ name @ [CHR 0x27] @
                 '' with inconsistent argument(s)'')), ol)
         else consistent_loop name first il ol)"

definition ol_get_consistent :: "string \<Rightarrow> option_list \<Rightarrow> conf_option option res \<times> option_list" where
  "ol_get_consistent name ol =
     (case ol_map ol name of
        None \<Rightarrow> (Inr None, ol)
      | Some [] \<Rightarrow> (Inr None, ol)
      | Some (first # il) \<Rightarrow>
          (let ol = touch_at first ol;
               (r, ol) = consistent_loop name first il ol
           in (bindE r (\<lambda>_. Inr (Some (ol_at first ol))), ol)))"

definition option_not_found :: "string \<Rightarrow> exn" where
  "option_not_found name = Option_error (''option '' @ [CHR 0x27] @ name @ [CHR 0x27] @ '' not found'')"

definition ol_get :: "string \<Rightarrow> option_list \<Rightarrow> conf_option res \<times> option_list" where
  "ol_get name ol =
     (let (p, ol) = ol_get_ptr name ol
      in (case p of Some opt \<Rightarrow> Inr opt | None \<Rightarrow> Inl (option_not_found name), ol))"

definition ol_get_index_ptr :: "string \<Rightarrow> option_list \<Rightarrow> u32 list option" where
  "ol_get_index_ptr name ol = (case ol_map ol name of None \<Rightarrow> None | Some il \<Rightarrow> if il = [] then None else Some il)"

definition ol_get_index :: "string \<Rightarrow> option_list \<Rightarrow> u32 list res" where
  "ol_get_index name ol = (case ol_get_index_ptr name ol of None \<Rightarrow> Inl (option_not_found name) | Some il \<Rightarrow> Inr il)"

definition add_trailing :: "string \<Rightarrow> char \<Rightarrow> string" where
  "add_trailing str c = (if str \<noteq> [] \<and> last str = c then str else str @ [c])"

text \<open>The loop of \<open>cat\<close> that computes the size is where the arity is checked.\<close>

fun cat_check :: "string \<Rightarrow> u32 list \<Rightarrow> option_list \<Rightarrow> unit res" where
  "cat_check name [] ol = Inr ()"
| "cat_check name (i # il) ol =
     (if length (o_data (ol_at i ol)) = 2 then cat_check name il ol
      else Inl (Option_error (''option '' @ [CHR 0x27] @ name @ [CHR 0x27] @ '' ('' @
             dec_string (length (o_data (ol_at i ol))) @ '') must have exactly one parameter'')))"

fun cat_loop :: "u32 list \<Rightarrow> string \<Rightarrow> option_list \<Rightarrow> string \<times> option_list" where
  "cat_loop [] ret ol = (ret, ol)"
| "cat_loop (i # il) ret ol =
     (if length (o_data (ol_at i ol)) \<ge> 2
      then (let ol = touch_at i ol
            in cat_loop il (add_trailing (ret @ o_data (ol_at i ol) ! 1) NL) ol)
      else cat_loop il ret ol)"

definition ol_cat :: "string \<Rightarrow> option_list \<Rightarrow> string res \<times> option_list" where
  "ol_cat name ol =
     (case ol_get_index_ptr name ol of
        None \<Rightarrow> (Inr [], ol)
      | Some il \<Rightarrow>
          (case cat_check name il ol of
             Inl e \<Rightarrow> (Inl e, ol)
           | Inr _ \<Rightarrow> (let (ret, ol) = cat_loop il [] ol in (Inr ret, ol))))"

definition ol_exists_unique :: "string \<Rightarrow> option_list \<Rightarrow> bool res \<times> option_list" where
  "ol_exists_unique name ol =
     (let (r, ol) = ol_get_unique_ptr name ol in (bindE r (\<lambda>p. Inr (p \<noteq> None)), ol))"

definition ol_exists :: "string \<Rightarrow> option_list \<Rightarrow> bool \<times> option_list" where
  "ol_exists name ol = (let (p, ol) = ol_get_ptr name ol in (p \<noteq> None, ol))"

definition ol_touch :: "string \<Rightarrow> option_list \<Rightarrow> option_list" where
  "ol_touch name ol = snd (ol_get_ptr name ol)"


section \<open>Arguments by name\<close>

definition ol_get_arg :: "string \<Rightarrow> nat \<Rightarrow> u64 \<Rightarrow> option_list \<Rightarrow> string res \<times> option_list" where
  "ol_get_arg name index max_len ol =
     (let (r, ol) = ol_get name ol in (bindE r (opt_get index max_len), ol))"

text \<open>The convenience methods differ in what they do with the option and without it.\<close>

definition ol_with :: "string \<Rightarrow> (conf_option \<Rightarrow> 'a res) \<Rightarrow> 'a \<Rightarrow> option_list \<Rightarrow> 'a res \<times> option_list" where
  "ol_with name f default_value ol =
     (let (p, ol) = ol_get_ptr name ol
      in (case p of Some opt \<Rightarrow> f opt | None \<Rightarrow> Inr default_value, ol))"

definition ol_get_optional :: "string \<Rightarrow> nat \<Rightarrow> u64 \<Rightarrow> option_list \<Rightarrow> string res \<times> option_list" where
  "ol_get_optional name index max_len = ol_with name (opt_get index max_len) ''''"

definition ol_get_optional_relaxed :: "string \<Rightarrow> nat \<Rightarrow> u64 \<Rightarrow> option_list \<Rightarrow> string res \<times> option_list" where
  "ol_get_optional_relaxed name index max_len = ol_with name (opt_get_optional index max_len) ''''"

definition ol_get_optional_noexcept :: "string \<Rightarrow> nat \<Rightarrow> u64 \<Rightarrow> option_list \<Rightarrow> string \<times> option_list" where
  "ol_get_optional_noexcept name index max_len ol =
     (let (r, ol) = ol_get_optional name index max_len ol
      in (case r of Inl _ \<Rightarrow> '''' | Inr s \<Rightarrow> s, ol))"

definition ol_get_c_str :: "string \<Rightarrow> nat \<Rightarrow> u64 \<Rightarrow> option_list \<Rightarrow> string option res \<times> option_list" where
  "ol_get_c_str name index max_len =
     ol_with name (\<lambda>opt. bindE (opt_get index max_len opt) (\<lambda>s. Inr (Some (takeWhile (\<lambda>c. c \<noteq> CHR 0x00) s)))) None"

definition ol_get_default :: "string \<Rightarrow> nat \<Rightarrow> u64 \<Rightarrow> string \<Rightarrow> option_list \<Rightarrow> string res \<times> option_list" where
  "ol_get_default name index max_len default_value = ol_with name (opt_get index max_len) default_value"

definition ol_get_default_relaxed :: "string \<Rightarrow> nat \<Rightarrow> u64 \<Rightarrow> string \<Rightarrow> option_list \<Rightarrow> string res \<times> option_list" where
  "ol_get_default_relaxed name index max_len default_value =
     ol_with name (\<lambda>opt. bindE (opt_get_ptr index max_len opt) (\<lambda>p.
       Inr (case p of Some s \<Rightarrow> s | None \<Rightarrow> default_value))) default_value"

definition ol_get_num :: "string \<Rightarrow> nat \<Rightarrow> option_list \<Rightarrow> 'a::len word res \<times> option_list" where
  "ol_get_num name idx ol = (let (r, ol) = ol_get name ol in (bindE r (opt_get_num idx), ol))"

definition ol_get_num_range ::
  "string \<Rightarrow> nat \<Rightarrow> 'a::len word \<Rightarrow> 'a word \<Rightarrow> option_list \<Rightarrow> 'a word res \<times> option_list" where
  "ol_get_num_range name idx min_value max_value ol =
     (let (r, ol) = ol_get name ol in (bindE r (opt_get_num_range idx min_value max_value), ol))"

definition ol_get_num_default :: "string \<Rightarrow> nat \<Rightarrow> 'a::len word \<Rightarrow> option_list \<Rightarrow> 'a word res \<times> option_list" where
  "ol_get_num_default name idx default_value = ol_with name (opt_get_num_default idx default_value) default_value"

definition ol_get_num_default_range ::
  "string \<Rightarrow> nat \<Rightarrow> 'a::len word \<Rightarrow> 'a word \<Rightarrow> 'a word \<Rightarrow> option_list \<Rightarrow> 'a word res \<times> option_list" where
  "ol_get_num_default_range name idx default_value min_value max_value =
     ol_with name (opt_get_num_default_range idx default_value min_value max_value) default_value"


section \<open>Taking over options of another list\<close>

text \<open>An option is copied before it is touched. Both lists are returned, self first.\<close>

fun extend_loop :: "(conf_option \<Rightarrow> bool) \<Rightarrow> conf_option list \<Rightarrow> option_list \<Rightarrow> option_list \<times> conf_option list" where
  "extend_loop keep [] self = (self, [])"
| "extend_loop keep (opt # opts) self =
     (if keep opt
      then (let (self, opts) = extend_loop keep opts (ol_push_back opt self) in (self, opt_touch opt # opts))
      else (let (self, opts) = extend_loop keep opts self in (self, opt # opts)))"

definition ol_extend :: "option_list \<Rightarrow> (conf_option \<Rightarrow> bool) option \<Rightarrow> option_list \<Rightarrow> option_list \<times> option_list" where
  "ol_extend other filt self =
     (let (self, opts) = extend_loop (\<lambda>opt. filt = None \<or> the filt opt) (ol_opts other) self
      in (self, other\<lparr>ol_opts := opts\<rparr>))"

fun extend_name_loop :: "u32 list \<Rightarrow> nat \<Rightarrow> option_list \<Rightarrow> option_list \<Rightarrow> nat \<times> option_list \<times> option_list" where
  "extend_name_loop [] count self other = (count, self, other)"
| "extend_name_loop (i # il) count self other =
     extend_name_loop il (count + 1) (ol_push_back (ol_at i other) self) (touch_at i other)"

definition ol_extend_name :: "option_list \<Rightarrow> string \<Rightarrow> option_list \<Rightarrow> nat \<times> option_list \<times> option_list" where
  "ol_extend_name other name self =
     extend_name_loop (case ol_map other name of None \<Rightarrow> [] | Some il \<Rightarrow> il) 0 self other"

definition ol_extend_nonexistent :: "option_list \<Rightarrow> option_list \<Rightarrow> option_list \<times> option_list" where
  "ol_extend_nonexistent other self =
     (let (self, opts) = extend_loop (\<lambda>opt. o_data opt \<noteq> [] \<and> ol_map self (o_data opt ! 0) = None) (ol_opts other) self
      in (self, other\<lparr>ol_opts := opts\<rparr>))"


section \<open>Rendering\<close>

fun ol_render_loop :: "u32 \<Rightarrow> nat \<Rightarrow> conf_option list \<Rightarrow> string" where
  "ol_render_loop flags i [] = ''''"
| "ol_render_loop flags i (opt # opts) =
     (if flags AND RENDER_UNUSED = 0 \<or> \<not> o_touched opt
      then (if flags AND RENDER_NUMBER \<noteq> 0 then dec_string i @ '' '' else '''') @ opt_render flags opt @ [NL]
      else '''') @ ol_render_loop flags (i + 1) opts"

definition ol_render :: "u32 \<Rightarrow> option_list \<Rightarrow> string" where
  "ol_render flags ol = ol_render_loop flags 0 (ol_opts ol)"

fun render_csv_loop :: "bool \<Rightarrow> conf_option list \<Rightarrow> string" where
  "render_csv_loop first [] = ''''"
| "render_csv_loop first (opt # opts) =
     (if \<not> first then '','' else '''') @ opt_escape True opt @ render_csv_loop False opts"

definition render_csv :: "option_list \<Rightarrow> string" where
  "render_csv ol = render_csv_loop True (ol_opts ol)"

fun n_unused_loop :: "nat \<Rightarrow> conf_option list \<Rightarrow> nat" where
  "n_unused_loop n [] = n"
| "n_unused_loop n (opt # opts) = n_unused_loop (if \<not> o_touched opt then n + 1 else n) opts"

definition n_unused :: "option_list \<Rightarrow> nat" where
  "n_unused ol = n_unused_loop 0 (ol_opts ol)"


section \<open>The map finds what the list holds\<close>

text \<open>The indexes of the options with a name, and the map that has exactly these.\<close>

definition name_at :: "string \<Rightarrow> conf_option list \<Rightarrow> nat \<Rightarrow> bool" where
  "name_at name opts i \<longleftrightarrow> o_data (opts ! i) \<noteq> [] \<and> o_data (opts ! i) ! 0 = name"

definition indexes :: "string \<Rightarrow> conf_option list \<Rightarrow> nat list" where
  "indexes name opts = filter (name_at name opts) [0..<length opts]"

definition map_exact :: "option_list \<Rightarrow> bool" where
  "map_exact ol \<longleftrightarrow>
     (\<forall>name. ol_map ol name = (if indexes name (ol_opts ol) = [] then None
                               else Some (map of_nat (indexes name (ol_opts ol)))))"

lemma indexes_snoc:
  "indexes name (opts @ [opt]) =
     indexes name opts @ (if o_data opt \<noteq> [] \<and> o_data opt ! 0 = name then [length opts] else [])"
proof -
  have "filter (name_at name (opts @ [opt])) [0..<length opts] = filter (name_at name opts) [0..<length opts]"
    by (rule filter_cong) (auto simp: name_at_def nth_append)
  then show ?thesis by (simp add: indexes_def name_at_def)
qed

definition idx_map :: "conf_option list \<Rightarrow> string \<Rightarrow> u32 list option" where
  "idx_map opts name = (if indexes name opts = [] then None else Some (map of_nat (indexes name opts)))"

lemma idx_map_snoc:
  "idx_map (opts @ [opt]) =
     (if o_data opt \<noteq> [] then map_push (o_data opt ! 0) (length opts) (idx_map opts) else idx_map opts)"
  by (rule ext) (auto simp: idx_map_def indexes_snoc map_push_def)

lemma update_map_loop_idx: "update_map_loop (length pre) opts (idx_map pre) = idx_map (pre @ opts)"
proof (induction opts arbitrary: pre)
  case (Cons opt opts)
  from Cons [of "pre @ [opt]"] show ?case by (simp add: idx_map_snoc)
qed simp

lemma idx_map_Nil: "idx_map [] = (\<lambda>_. None)"
  by (rule ext) (simp add: idx_map_def indexes_def)

lemma update_map_exact: "map_exact (update_map ol)"
  using update_map_loop_idx [of "[]" "ol_opts ol"]
  by (simp add: map_exact_def update_map_def idx_map_Nil idx_map_def)

lemma add_item_exact: "map_exact ol \<Longrightarrow> map_exact (add_item opt ol)"
proof -
  assume "map_exact ol"
  then have "ol_map ol = idx_map (ol_opts ol)" by (auto simp: map_exact_def idx_map_def)
  then have "ol_map (add_item opt ol) = idx_map (ol_opts (add_item opt ol))"
    by (simp add: add_item_def ol_push_back_def idx_map_snoc Let_def)
  then show ?thesis by (simp add: map_exact_def idx_map_def)
qed

lemma touched_data: "j < length xs \<Longrightarrow> o_data (xs[i := opt_touch (xs ! i)] ! j) = o_data (xs ! j)"
  by (cases "i = j") (simp_all add: opt_touch_def)

lemma indexes_touch: "indexes name ((ol_opts ol)[i := opt_touch (ol_opts ol ! i)]) = indexes name (ol_opts ol)"
  unfolding indexes_def by (auto intro!: filter_cong simp: name_at_def touched_data)

lemma touch_at_exact: "map_exact ol \<Longrightarrow> map_exact (touch_at i ol)"
  by (simp add: map_exact_def touch_at_def ol_at_def indexes_touch)

lemma indexes_bound: "i \<in> set (indexes name opts) \<Longrightarrow> i < length opts"
  by (simp add: indexes_def)

lemma indexes_sorted: "sorted (indexes name opts)"
  by (simp add: indexes_def sorted_wrt_filter)

definition named :: "string \<Rightarrow> conf_option \<Rightarrow> bool" where
  "named name opt \<longleftrightarrow> o_data opt \<noteq> [] \<and> o_data opt ! 0 = name"

lemma indexes_filter: "map (\<lambda>i. opts ! i) (indexes name opts) = filter (named name) opts"
proof (induction opts rule: rev_induct)
  case (snoc opt opts)
  have "map (\<lambda>i. (opts @ [opt]) ! i) (indexes name opts) = map (\<lambda>i. opts ! i) (indexes name opts)"
    by (rule map_cong) (auto simp: nth_append dest: indexes_bound)
  with snoc show ?case by (simp add: indexes_snoc named_def)
qed (simp add: indexes_def)

lemma indexes_Nil: "indexes name opts = [] \<longleftrightarrow> filter (named name) opts = []"
  by (metis Nil_is_map_conv indexes_filter)

lemma last_filter_find: "find P (rev xs) = (if filter P xs = [] then None else Some (last (filter P xs)))"
  by (induction xs rule: rev_induct) auto

lemma touch_at_self: "unat i < length (ol_opts ol) \<Longrightarrow> ol_at i (touch_at i ol) = opt_touch (ol_at i ol)"
  by (simp add: ol_at_def touch_at_def)

lemma index_word:
  assumes "length opts < 2 ^ 32" "i \<in> set (indexes name opts)"
  shows "unat (of_nat i :: u32) = i"
  using indexes_bound [OF assms(2)] assms(1) by (simp add: unat_of_nat take_bit_nat_eq_self)

lemma get_ptr_find:
  assumes "map_exact ol" "length (ol_opts ol) < 2 ^ 32"
  shows "fst (ol_get_ptr name ol) = map_option opt_touch (find (named name) (rev (ol_opts ol)))"
proof (cases "indexes name (ol_opts ol) = []")
  case True
  with assms(1) show ?thesis by (simp add: map_exact_def ol_get_ptr_def last_filter_find indexes_Nil)
next
  case False
  let ?il = "indexes name (ol_opts ol)"
  have i: "last ?il \<in> set ?il" using False by simp
  have "last (filter (named name) (ol_opts ol)) = ol_opts ol ! last ?il"
    using False indexes_filter [of "ol_opts ol" name] by (metis last_map)
  moreover have "filter (named name) (ol_opts ol) \<noteq> []" using False indexes_Nil by blast
  moreover have "map of_nat ?il ! (length ?il - 1) = (of_nat (last ?il) :: u32)" using False by (simp add: last_conv_nth)
  ultimately show ?thesis
    using assms False indexes_bound [OF i] index_word [OF assms(2) i]
    by (simp add: map_exact_def ol_get_ptr_def last_filter_find touch_at_self Let_def) (simp add: ol_at_def)
qed

lemma get_unique_filter:
  assumes "map_exact ol" "length (ol_opts ol) < 2 ^ 32"
  shows "fst (ol_get_unique_ptr name ol) =
    (case filter (named name) (ol_opts ol) of
       [] \<Rightarrow> Inr None | [opt] \<Rightarrow> Inr (Some (opt_touch opt))
     | _ \<Rightarrow> Inl (Option_error (''more than one instance of option '' @ [CHR 0x27] @ name @ [CHR 0x27])))"
proof -
  let ?il = "indexes name (ol_opts ol)"
  consider (none) "?il = []" | (one) i where "?il = [i]" | (more) i j ks where "?il = i # j # ks"
    by (metis list.exhaust)
  then show ?thesis
  proof cases
    case none
    with assms(1) show ?thesis by (simp add: map_exact_def ol_get_unique_ptr_def indexes_filter [symmetric])
  next
    case one
    then have i: "i \<in> set ?il" by simp
    from one assms indexes_bound [OF i] index_word [OF assms(2) i] show ?thesis
      by (simp add: map_exact_def ol_get_unique_ptr_def indexes_filter [symmetric] touch_at_self Let_def)
        (simp add: ol_at_def)
  next
    case more
    with assms(1) show ?thesis by (simp add: map_exact_def ol_get_unique_ptr_def indexes_filter [symmetric])
  qed
qed

text \<open>Touching an option changes its metadata only.\<close>

lemma get_ptr_data: "map o_data (ol_opts (snd (ol_get_ptr name ol))) = map o_data (ol_opts ol)"
proof -
  have "map o_data (xs[i := opt_touch (xs ! i)]) = map o_data xs" for xs :: "conf_option list" and i
    by (rule nth_equalityI) (simp_all add: touched_data)
  then show ?thesis by (simp add: ol_get_ptr_def touch_at_def ol_at_def Let_def split: option.split)
qed

text \<open>C23. After \<open>update_map\<close> (or \<open>add_item\<close>, which keeps the map exact) a lookup by name gives the last
  option of that name in the list, touched, and none when there is none; \<open>get_unique_ptr\<close> throws
  exactly when there are several. Fewer than \<open>2 ^ 32\<close> options are assumed: indexes are 32 bits wide.\<close>

theorem lookup_finds_last:
  assumes "length (ol_opts ol) < 2 ^ 32"
  shows "fst (ol_get_ptr name (update_map ol)) = map_option opt_touch (find (named name) (rev (ol_opts ol))) \<and>
    fst (ol_get_unique_ptr name (update_map ol)) =
      (case filter (named name) (ol_opts ol) of
         [] \<Rightarrow> Inr None | [opt] \<Rightarrow> Inr (Some (opt_touch opt))
       | _ \<Rightarrow> Inl (Option_error (''more than one instance of option '' @ [CHR 0x27] @ name @ [CHR 0x27]))) \<and>
    map o_data (ol_opts (snd (ol_get_ptr name (update_map ol)))) = map o_data (ol_opts ol)"
proof -
  have u: "ol_opts (update_map ol) = ol_opts ol" by (simp add: update_map_def)
  show ?thesis
    using get_ptr_find [OF update_map_exact, of ol name] get_unique_filter [OF update_map_exact, of ol name]
      get_ptr_data [of name "update_map ol"] assms by (simp add: u)
qed

theorem lookup_finds_last_witness:
  "fst (ol_get_ptr ''a'' (update_map \<lparr>ol_opts = [opt_of [''a'', ''1''], opt_of [''a'', ''2''], opt_of [''b'']], ol_map = (\<lambda>_. None)\<rparr>))
     = Some \<lparr>o_touched = True, o_data = [''a'', ''2'']\<rparr>"
  using lookup_finds_last [of "\<lparr>ol_opts = [opt_of [''a'', ''1''], opt_of [''a'', ''2''], opt_of [''b'']], ol_map = (\<lambda>_. None)\<rparr>" "''a''"]
  by (simp add: opt_of_def named_def opt_touch_def)

end
