(* ===== verification/Option_Files.thy ===== *)
theory Option_Files
  imports Option_Lookup
begin

text \<open>
  What the parsers of \<open>OptionList\<close> make of text: a rendered list comes back from its CSV form, a
  configuration file of directives and inline blocks is read as it was written when the breakout
  test finds nothing, and the limits bound what a text can make the parser store.
\<close>

section \<open>Lists separated by commas\<close>

context quoting_lexer
begin

lemma char_escaped:
  assumes "rest l" "q \<or> (\<forall>c\<in>set t. c \<noteq> sp \<and> (plain c \<or> c = CHR 0x22 \<or> c = CHR 0x5C))"
    "sp \<noteq> CHR 0x5C" "sp \<noteq> CHR 0x22"
  shows "\<exists>l'. rest l' \<and> by_char_loop L sp 0 m (escape_string t q @ inp) l n tm ret lim =
    by_char_loop L sp 0 m inp l' n (tm @ escape_string t q) ret lim"
proof (cases q)
  case False
  with char_outside [OF assms(1) _ assms(3), of t m inp n tm ret lim] assms(2) show ?thesis by (simp add: escape_string_def)
next
  case True
  let ?l = "lx_put L (CHR 0x22) l"
  note q = put_quote [OF assms(1)]
  from char_inside [OF q [THEN conjunct1], of sp m t "CHR 0x22 # inp" n "tm @ [CHR 0x22]" ret lim]
  obtain l1 where l1: "inq l1" "by_char_loop L sp 0 m (escape_chars t @ CHR 0x22 # inp) ?l n (tm @ [CHR 0x22]) ret lim =
      by_char_loop L sp 0 m (CHR 0x22 # inp) l1 n (tm @ [CHR 0x22] @ escape_chars t) ret lim" by auto
  with True q put_unquote [OF l1(1)] assms(4) show ?thesis
    by (intro exI [of _ "lx_put L (CHR 0x22) l1"]) (simp add: escape_string_def inq_in rest_out Let_def)
qed

lemma char_options:
  assumes "rest l" "plain (CHR '' '')"
    "\<forall>t\<in>set ts. must_quote_string t True \<or> (\<forall>c\<in>set t. plain c \<or> c = CHR 0x22 \<or> c = CHR 0x5C)"
  shows "\<exists>l'. rest l' \<and> by_char_loop L (CHR '','') 0 m (escape_loop True mr ts @ inp) l n tm ret lim =
    by_char_loop L (CHR '','') 0 m inp l' n (tm @ escape_loop True mr ts) ret lim"
  using assms(1,3)
proof (induction ts arbitrary: l mr tm)
  case (Cons t ts)
  let ?q = "must_quote_string t True"
  have q: "?q \<or> (\<forall>c\<in>set t. c \<noteq> CHR '','' \<and> (plain c \<or> c = CHR 0x22 \<or> c = CHR 0x5C))"
    using Cons.prems(2) by (auto simp: must_quote_string_def list_ex_iff)
  have "\<exists>l1. rest l1 \<and> by_char_loop L (CHR '','') 0 m (escape_loop True mr (t # ts) @ inp) l n tm ret lim =
      by_char_loop L (CHR '','') 0 m (escape_string t ?q @ escape_loop True True ts @ inp) l1 n (if mr then tm @ '' '' else tm) ret lim"
    using Cons.prems(1) put_plain [OF Cons.prems(1) assms(2)] rest_out [of "lx_put L (CHR '' '') l"]
    by (intro exI [of _ "if mr then lx_put L (CHR '' '') l else l"]) (simp add: Let_def)
  then obtain l1 where l1: "rest l1" "by_char_loop L (CHR '','') 0 m (escape_loop True mr (t # ts) @ inp) l n tm ret lim =
      by_char_loop L (CHR '','') 0 m (escape_string t ?q @ escape_loop True True ts @ inp) l1 n (if mr then tm @ '' '' else tm) ret lim"
    by blast
  obtain l2 where l2: "rest l2" "by_char_loop L (CHR '','') 0 m (escape_string t ?q @ escape_loop True True ts @ inp) l1 n (if mr then tm @ '' '' else tm) ret lim =
      by_char_loop L (CHR '','') 0 m (escape_loop True True ts @ inp) l2 n ((if mr then tm @ '' '' else tm) @ escape_string t ?q) ret lim"
    using char_escaped [OF l1(1) q] by blast
  from Cons.IH [OF l2(1), of True "(if mr then tm @ '' '' else tm) @ escape_string t ?q"] Cons.prems(2) l1(2) l2(2)
  show ?case by auto
qed auto

lemma char_lists:
  assumes "rest l" "plain (CHR '' '')" "plain (CHR '','')" "opts \<noteq> []" "unat n + length opts \<le> 2 ^ 32 - 1"
    "\<forall>opt\<in>set opts. \<forall>t\<in>set (o_data opt). must_quote_string t True \<or> (\<forall>c\<in>set t. plain c \<or> c = CHR 0x22 \<or> c = CHR 0x5C)"
  shows "by_char_loop L (CHR '','') 0 0xFFFFFFFF (render_csv_loop True opts) l n [] ret None = Inr (ret @ map (opt_escape True) opts, None)"
  using assms(1,4-6)
proof (induction opts arbitrary: l n ret)
  case (Cons opt opts)
  obtain l1 where l1: "rest l1" "by_char_loop L (CHR '','') 0 0xFFFFFFFF (render_csv_loop True (opt # opts)) l n [] ret None =
      by_char_loop L (CHR '','') 0 0xFFFFFFFF (render_csv_loop False opts) l1 n (opt_escape True opt) ret None"
    using char_options [OF Cons.prems(1) assms(2), of "o_data opt" "0xFFFFFFFF" False "render_csv_loop False opts" n "[]" ret None] Cons.prems(4)
    by (auto simp: opt_escape_def)
  show ?case
  proof (cases "opts = []")
    case True
    with l1 show ?thesis by (simp add: if_lim_def)
  next
    case False
    then have sep: "render_csv_loop False opts = CHR '','' # render_csv_loop True opts" by (cases opts) auto
    from False have n: "n < 0xFFFFFFFF" "unat (n + 1) = unat n + 1"
      using Cons.prems(3) by (auto simp: word_less_nat_alt unat_add_lem [THEN iffD1] neq_Nil_conv)
    from put_plain [OF l1(1) assms(3)] have r: "rest (lx_put L (CHR '','') l1)" by simp
    from Cons.IH [OF r False, of "n + 1" "ret @ [opt_escape True opt]"] Cons.prems(3,4) n sep l1(2) rest_out [OF r]
    show ?thesis by (simp add: if_lim_def)
  qed
qed simp

end

text \<open>The options a CSV text can hold: every argument is non-empty and has no byte FF, which the
  lexical analysers take for the absence of a character.\<close>

definition csv_ok :: "conf_option \<Rightarrow> bool" where
  "csv_ok opt \<longleftrightarrow> o_data opt \<noteq> [] \<and> (\<forall>t\<in>set (o_data opt). t \<noteq> [] \<and> CHR 0xFF \<notin> set t)"

lemma csv_loop_read:
  "\<forall>opt\<in>set opts. csv_ok opt \<Longrightarrow>
   csv_loop (map (opt_escape True) opts) ol None = Inr (ol\<lparr>ol_opts := ol_opts ol @ map (\<lambda>opt. opt_of (o_data opt)) opts\<rparr>, None)"
proof (induction opts arbitrary: ol)
  case (Cons opt opts)
  have "by_space StandardLex [] (opt_escape True opt) None = Inr (o_data opt, None)"
    unfolding opt_escape_def using Cons.prems by (intro std.options_read_back) (auto simp: csv_ok_def)
  with Cons show ?case by (simp add: push_checked_def if_lim_def ol_push_back_def csv_ok_def)
qed simp

text \<open>What \<open>render_csv\<close> makes of a list of options is parsed back to these options, quotes,
  backslashes, spaces and commas in their arguments included.\<close>

lemma csv_read_back:
  assumes "\<forall>opt\<in>set (ol_opts ol). csv_ok opt" "length (ol_opts ol) < 2 ^ 32"
  shows "parse_from_csv (render_csv ol) ol_new None =
    Inr (ol_new\<lparr>ol_opts := map (\<lambda>opt. opt_of (o_data opt)) (ol_opts ol)\<rparr>, None)"
proof (cases "ol_opts ol = []")
  case True
  then show ?thesis
    by (simp add: parse_from_csv_def render_csv_def by_char_def if_lim_def by_space_def ol_new_def)
next
  case False
  have "by_char StandardLex [] (render_csv ol) (CHR '','') 0 0xFFFFFFFF None = Inr (map (opt_escape True) (ol_opts ol), None)"
    unfolding by_char_def render_csv_def
    using std.char_lists [OF std.new _ _ False, of 0 "[]"] assms(2) by auto
  then show ?thesis using csv_loop_read [OF assms(1)] by (simp add: parse_from_csv_def if_lim_def ol_new_def)
qed

text \<open>An empty argument is not quoted, so it is lost; in a line of a file so is what follows a
  character that begins a comment.\<close>

lemma escape_loses:
  "by_space StandardLex [] (opt_escape False (opt_of [''a'', '''', ''b''])) None = Inr ([''a'', ''b''], None)"
  "by_space LexComment [] (opt_escape False (opt_of [''a'', ''b#c''])) None = Inr ([''a'', ''b''], None)"
  by (simp_all add: opt_of_def opt_escape_def escape_string_def must_quote_string_def is_space_def by_space_def
      StandardLex_def std_put_def LexComment_def comment_put_def is_comment_def lx_available_def schar_minus1 if_lim_def)


section \<open>Files\<close>

text \<open>Lines without line ends, as the splitter gives them to a parser.\<close>

definition unlines :: "string list \<Rightarrow> string" where
  "unlines ls = concat (map (\<lambda>l. l @ [NL]) ls)"

definition plain_line :: "string \<Rightarrow> bool" where
  "plain_line l \<longleftrightarrow> NL \<notin> set l \<and> CR \<notin> set l"

fun lines_fold ::
  "(nat \<Rightarrow> string \<Rightarrow> parse_state \<Rightarrow> parse_state res) \<Rightarrow> nat \<Rightarrow> string list \<Rightarrow> parse_state \<Rightarrow> parse_state res" where
  "lines_fold f n [] st = Inr st"
| "lines_fold f n (l # ls) st = bindE (f (n + 1) l st) (lines_fold f (n + 1) ls)"

lemma lines_fold_append:
  "lines_fold f n (as @ bs) st = bindE (lines_fold f n as st) (lines_fold f (n + length as) bs)"
proof (induction as arbitrary: n st)
  case (Cons a as)
  then show ?case by (cases "f (n + 1) a st") auto
qed simp

lemma lines_loop_fold:
  assumes "sl_data sl = pre @ unlines ls" "sl_index sl = length pre" "sl_max_line_len sl = 0" "\<forall>l\<in>set ls. plain_line l"
  shows "lines_loop f sl n st = lines_fold f n ls st"
  using assms
proof (induction ls arbitrary: sl pre n st)
  case Nil
  then have "fst (split_line True sl) = False" by (intro split_line_end) (simp add: unlines_def)
  then show ?case by (subst lines_loop.simps) (auto split: prod.split)
next
  case (Cons l ls)
  let ?sl = "sl\<lparr>sl_index := length pre + length l + 1, sl_line := l, sl_overflow := False\<rparr>"
  from Cons.prems have "split_line True sl = (True, ?sl)"
    by (intro split_line_at [where rest = "unlines ls"]) (auto simp: unlines_def plain_line_def)
  moreover have "lines_loop f ?sl m st' = lines_fold f m ls st'" for m st'
    using Cons.prems by (intro Cons.IH [of _ "pre @ l @ [NL]"]) (auto simp: unlines_def)
  ultimately show ?case by (subst lines_loop.simps) (simp split: sum.split)
qed

text \<open>A file is a sequence of directives, escaped as \<open>Option::escape\<close> does it, and inline blocks.\<close>

datatype conf_entry = Directive "string list" | Block string "string list"

fun entry_lines :: "conf_entry \<Rightarrow> string list" where
  "entry_lines (Directive xs) = [opt_escape False (opt_of xs)]"
| "entry_lines (Block tag ls) = [''<'' @ tag @ ''>''] @ ls @ [''</'' @ tag @ ''>'']"

fun entry_option :: "conf_entry \<Rightarrow> conf_option" where
  "entry_option (Directive xs) = opt_of xs"
| "entry_option (Block tag ls) = opt_of [tag, unlines ls]"

text \<open>The condition on the text of a block is the test the code makes.\<close>

fun entry_ok :: "conf_entry \<Rightarrow> bool" where
  "entry_ok (Directive xs) =
     (xs \<noteq> [] \<and> \<not> is_open_tag (xs ! 0) \<and>
      (\<forall>t\<in>set xs. t \<noteq> [] \<and> plain_line t \<and> CHR 0xFF \<notin> set t \<and>
         (must_quote_string t False \<or> (\<forall>c\<in>set t. \<not> is_comment c))))"
| "entry_ok (Block tag ls) =
     (tag \<noteq> [] \<and> tag ! 0 \<noteq> CHR ''/'' \<and>
      (\<forall>c\<in>set tag. \<not> is_space c \<and> \<not> is_comment c \<and> c \<noteq> CHR 0x22 \<and> c \<noteq> CHR 0x5C \<and> c \<noteq> CHR 0xFF) \<and>
      (\<forall>l\<in>set ls. plain_line l) \<and> \<not> detect_multiline_breakout_nothrow (unlines ls) tag)"

definition file_text :: "conf_entry list \<Rightarrow> string" where
  "file_text es = unlines (concat (map entry_lines es))"

lemma breakout_append:
  "\<forall>c\<in>set l. c \<noteq> NL \<and> c \<noteq> CR \<Longrightarrow> tag \<noteq> [] \<Longrightarrow> \<not> breakout_loop tag line (l @ NL # cs) \<Longrightarrow>
   (l \<noteq> [] \<longrightarrow> \<not> is_close_tag (line @ l) tag) \<and> \<not> breakout_loop tag [] cs"
proof (induction l arbitrary: line)
  case (Cons c l)
  then have "\<not> is_close_tag (line @ [c]) tag" "\<not> breakout_loop tag (line @ [c]) (l @ NL # cs)"
    by (auto simp: Let_def split: if_splits)
  with Cons.IH [of "line @ [c]"] Cons.prems show ?case by (cases l) auto
qed simp

text \<open>What the test lets through has no line that closes the block.\<close>

lemma no_breakout_lines:
  "\<forall>l\<in>set ls. plain_line l \<Longrightarrow> tag \<noteq> [] \<Longrightarrow> \<not> breakout_loop tag [] (unlines ls) \<Longrightarrow> l \<in> set ls \<Longrightarrow> \<not> is_close_tag l tag"
proof (induction ls)
  case (Cons k ls)
  have "unlines (k # ls) = k @ NL # unlines ls" by (simp add: unlines_def)
  with Cons.prems breakout_append [of k tag "[]" "unlines ls"]
  have "k \<noteq> [] \<longrightarrow> \<not> is_close_tag k tag" "\<not> breakout_loop tag [] (unlines ls)"
    by (auto simp: plain_line_def)
  with Cons show ?case by (auto simp: is_close_tag_def)
qed simp

lemma block_lines_fold:
  assumes "\<forall>l\<in>set ls. \<not> is_close_tag l tag"
  shows "lines_fold config_line n ls (Some (opt_of [tag, s]), ol, lim) = Inr (Some (opt_of [tag, s @ unlines ls]), ol, lim)"
  using assms
proof (induction ls arbitrary: n s)
  case (Cons l ls)
  have "config_line (n + 1) l (Some (opt_of [tag, s]), ol, lim) = Inr (Some (opt_of [tag, s @ l @ [NL]]), ol, lim)"
    using Cons.prems by (simp add: config_line_def opt_of_def multiline_add_def)
  with Cons show ?case by (simp add: unlines_def)
qed (simp add: unlines_def)

lemma tag_line_read:
  assumes "entry_ok (Block tag ls)"
  shows "by_space LexComment [] (''<'' @ tag @ ''>'') None = Inr ([''<'' @ tag @ ''>''], None)"
proof -
  have "must_quote_string (''<'' @ tag @ ''>'') False = False"
    using assms by (auto simp: must_quote_string_def list_ex_iff is_space_def)
  moreover have "escape_chars t = t" if "\<forall>c\<in>set t. c \<noteq> CHR 0x22 \<and> c \<noteq> CHR 0x5C" for t
    using that by (induction t) auto
  ultimately have "escape_loop False False [''<'' @ tag @ ''>''] = ''<'' @ tag @ ''>''"
    using assms by (auto simp: escape_string_def)
  moreover have "by_space LexComment [] (escape_loop False False [''<'' @ tag @ ''>'']) None = Inr ([''<'' @ tag @ ''>''], None)"
    using assms by (intro cmt.options_read_back) (auto simp: is_comment_def)
  ultimately show ?thesis by simp
qed

lemma tag_facts:
  assumes "entry_ok (Block tag ls)"
  shows "is_open_tag (''<'' @ tag @ ''>'')" "untag_open_tag (''<'' @ tag @ ''>'') = tag"
    "is_close_tag (''</'' @ tag @ ''>'') tag" "NL \<notin> set tag" "CR \<notin> set tag"
proof -
  from assms obtain c cs where t: "tag = c # cs" "c \<noteq> CHR ''/''" by (cases tag) auto
  then show "is_open_tag (''<'' @ tag @ ''>'')" by (simp add: is_open_tag_def)
  from t show "untag_open_tag (''<'' @ tag @ ''>'') = tag" by (simp add: untag_open_tag_def)
  from t show "is_close_tag (''</'' @ tag @ ''>'') tag" by (simp add: is_close_tag_def)
  have "is_space NL" "is_space CR" by (simp_all add: is_space_def)
  with assms show "NL \<notin> set tag" "CR \<notin> set tag" by auto
qed

lemma directive_fold:
  assumes "entry_ok (Directive xs)"
  shows "config_line n (opt_escape False (opt_of xs)) (None, ol, None) = Inr (None, ol_push_back (opt_of xs) ol, None)"
proof -
  have e: "opt_escape False (opt_of xs) = escape_loop False False xs" by (simp add: opt_escape_def opt_of_def)
  have r: "by_space LexComment [] (opt_escape False (opt_of xs)) None = Inr (xs, None)"
    unfolding e by (rule cmt.options_read_back) (use assms in \<open>auto simp: is_comment_def\<close>)
  from assms obtain t ts where xs: "xs = t # ts" "t \<noteq> []" by (cases xs) auto
  then obtain c cs where t: "t = c # cs" by (cases t) auto
  have "\<not> ignore_line (opt_escape False (opt_of xs))"
    using assms xs t
    by (auto simp: ignore_line_def opt_escape_def opt_of_def escape_string_def must_quote_string_def is_comment_def is_space_def)
  with r assms xs show ?thesis
    by (simp add: config_line_def parse_option_from_line_def opt_of_def push_checked_def if_lim_def)
qed

lemma block_fold:
  assumes "entry_ok (Block tag ls)"
  shows "lines_fold config_line n (entry_lines (Block tag ls)) (None, ol, None) =
    Inr (None, ol_push_back (opt_of [tag, unlines ls]) ol, None)"
proof -
  let ?o = "''<'' @ tag @ ''>''"
  have "ignore_line ?o = False" by (simp add: ignore_line_def is_space_def is_comment_def)
  then have 1: "config_line (n + 1) ?o (None, ol, None) = Inr (Some (opt_of [tag, []]), ol, None)"
    using tag_line_read [OF assms] tag_facts [OF assms]
    by (simp add: config_line_def parse_option_from_line_def opt_of_def multiline_open_def)
  have "\<forall>l\<in>set ls. \<not> is_close_tag l tag"
    using assms no_breakout_lines [of ls tag] by (auto simp: detect_multiline_breakout_nothrow_def)
  then have 2: "lines_fold config_line (n + 1) ls (Some (opt_of [tag, []]), ol, None) =
      Inr (Some (opt_of [tag, unlines ls]), ol, None)"
    using block_lines_fold [of ls tag "n + 1" "[]"] by simp
  from tag_facts(3) [OF assms] have 3: "config_line m (''</'' @ tag @ ''>'') (Some (opt_of [tag, unlines ls]), ol, None) =
      Inr (None, ol_push_back (opt_of [tag, unlines ls]) ol, None)" for m
    by (simp add: config_line_def opt_of_def push_checked_def if_lim_def)
  show ?thesis using 1 2 3 by (simp add: lines_fold_append)
qed

lemma entries_fold:
  "\<forall>e\<in>set es. entry_ok e \<Longrightarrow>
   lines_fold config_line n (concat (map entry_lines es)) (None, ol, None) =
   Inr (None, ol\<lparr>ol_opts := ol_opts ol @ map entry_option es\<rparr>, None)"
proof (induction es arbitrary: n ol)
  case (Cons e es)
  have "lines_fold config_line n (entry_lines e) (None, ol, None) = Inr (None, ol_push_back (entry_option e) ol, None)"
    using Cons.prems directive_fold block_fold by (cases e) auto
  with Cons show ?case by (simp add: lines_fold_append ol_push_back_def)
qed simp

lemma entry_lines_plain: "entry_ok e \<Longrightarrow> l \<in> set (entry_lines e) \<Longrightarrow> plain_line l"
proof (cases e)
  case (Directive xs)
  assume a: "entry_ok e" "l \<in> set (entry_lines e)"
  have esc: "set (escape_chars t) \<subseteq> set t \<union> {CHR 0x5C}" for t by (induction t) auto
  have "set (escape_loop False mr ts) \<subseteq> \<Union> (set ` set ts) \<union> {CHR 0x5C, CHR 0x22, CHR '' ''}" for mr ts
  proof (induction ts arbitrary: mr)
    case (Cons t ts)
    from Cons [of True] esc [of t] show ?case by (auto simp: escape_string_def)
  qed simp
  from this [of False xs] a Directive show ?thesis by (auto simp: plain_line_def opt_escape_def opt_of_def)
next
  case (Block tag ls)
  assume a: "entry_ok e" "l \<in> set (entry_lines e)"
  with Block tag_facts [of tag ls] have t: "NL \<notin> set tag" "CR \<notin> set tag" by blast+
  have ls: "\<forall>l\<in>set ls. plain_line l" using a(1) Block by simp
  have "l = ''<'' @ tag @ ''>'' \<or> l \<in> set ls \<or> l = ''</'' @ tag @ ''>''" using a(2) Block by (simp, blast)
  then show ?thesis using t ls by (elim disjE) (simp_all add: plain_line_def)
qed

text \<open>C5. A file of directives and inline blocks is read as exactly these options, in order: a
  text that the breakout test passes stays inside its block whatever it holds.\<close>

theorem config_read_back:
  assumes "\<forall>e\<in>set es. entry_ok e"
  shows "parse_from_config (file_text es) ol_new None = Inr (ol_new\<lparr>ol_opts := map entry_option es\<rparr>, None)"
proof -
  have "lines_loop config_line (split_lines_new (file_text es) 0) 0 (None, ol_new, None) =
    lines_fold config_line 0 (concat (map entry_lines es)) (None, ol_new, None)"
    using assms entry_lines_plain
    by (intro lines_loop_fold [where pre = "[]"]) (auto simp: split_lines_new_def file_text_def)
  with entries_fold [OF assms] show ?thesis
    by (simp add: parse_from_config_def if_lim_def lim_line_len_def lines_end_def ol_new_def)
qed

theorem config_read_back_witness:
  "parse_from_config (file_text [Directive [''remote'', ''a b''], Block ''ca'' [''<x>'', ''</cb>'']]) ol_new None =
    Inr (ol_new\<lparr>ol_opts := [opt_of [''remote'', ''a b''], opt_of [''ca'', unlines [''<x>'', ''</cb>'']]]\<rparr>, None)"
  using config_read_back [of "[Directive [''remote'', ''a b''], Block ''ca'' [''<x>'', ''</cb>'']]"]
  by (simp add: is_open_tag_def plain_line_def is_comment_def is_space_def must_quote_string_def
      detect_multiline_breakout_nothrow_def unlines_def is_close_tag_def)


section \<open>Limits\<close>

text \<open>Limits whose sums do not wrap around, and the accounting of a call that did not throw.\<close>

definition lm_sane :: "limits \<Rightarrow> bool" where
  "lm_sane l \<longleftrightarrow> unat (lm_max_bytes l) \<le> 2 ^ 62 \<and> lm_extra_bytes_per_opt l \<le> 2 ^ 62 \<and>
     lm_extra_bytes_per_term l \<le> 2 ^ 62 \<and> lm_bytes l \<le> lm_max_bytes l"

definition charged :: "nat \<Rightarrow> limits \<Rightarrow> limits \<Rightarrow> bool" where
  "charged n l l' \<longleftrightarrow> lm_sane l' \<and> lm_max_bytes l' = lm_max_bytes l \<and>
     lm_extra_bytes_per_opt l' = lm_extra_bytes_per_opt l \<and> lm_extra_bytes_per_term l' = lm_extra_bytes_per_term l \<and>
     unat (lm_bytes l') = unat (lm_bytes l) + n \<and> (n > 0 \<longrightarrow> lm_bytes l' < lm_max_bytes l)"

lemma charged_0: "lm_sane l \<Longrightarrow> charged 0 l l"
  by (simp add: charged_def)

lemma charged_trans: "charged n l l' \<Longrightarrow> charged m l' l'' \<Longrightarrow> charged (n + m) l l''"
  unfolding charged_def by (cases "m = 0") (auto simp: word_less_nat_alt)

lemma charged_sane: "charged n l l' \<Longrightarrow> lm_sane l'"
  by (simp add: charged_def)

lemma charged_same:
  "charged n l l' \<Longrightarrow> lm_extra_bytes_per_opt l' = lm_extra_bytes_per_opt l \<and>
     lm_extra_bytes_per_term l' = lm_extra_bytes_per_term l \<and> lm_max_bytes l' = lm_max_bytes l"
  by (simp add: charged_def)

lemma check_charged:
  assumes "lm_sane l" "n \<le> 2 ^ 62" "lm_check_overflow (l\<lparr>lm_bytes := lm_bytes l + of_nat n\<rparr>) = Inr l'"
  shows "charged n l l'"
proof -
  have l': "l' = l\<lparr>lm_bytes := lm_bytes l + of_nat n\<rparr>" "lm_bytes l + of_nat n < lm_max_bytes l"
    using assms(3) by (auto simp: lm_check_overflow_def split: if_splits)
  have "unat (lm_bytes l) \<le> 2 ^ 62" using assms(1) by (auto simp: lm_sane_def word_le_nat_alt)
  then have "unat (lm_bytes l + of_nat n :: u64) = unat (lm_bytes l) + n"
    using assms(2) by (simp add: unat_word_ariths unat_of_nat)
  with l' assms(1) show ?thesis by (auto simp: charged_def lm_sane_def)
qed

lemmas check_adds = lm_add_bytes_def lm_add_string_def lm_add_term_def lm_add_opt_def

lemma add_term_charged: "lm_sane l \<Longrightarrow> lm_add_term l = Inr l' \<Longrightarrow> charged (lm_extra_bytes_per_term l) l l'"
  by (rule check_charged) (auto simp: check_adds lm_sane_def)

lemma add_opt_charged: "lm_sane l \<Longrightarrow> lm_add_opt l = Inr l' \<Longrightarrow> charged (lm_extra_bytes_per_opt l) l l'"
  by (rule check_charged) (auto simp: check_adds lm_sane_def)

lemma add_string_charged: "lm_sane l \<Longrightarrow> length str \<le> 2 ^ 62 \<Longrightarrow> lm_add_string str l = Inr l' \<Longrightarrow> charged (length str) l l'"
  by (rule check_charged) (auto simp: check_adds)

text \<open>What the parsers do with the limits: the count goes up by the cost of what they produce.\<close>

definition lim_charged :: "nat \<Rightarrow> limits \<Rightarrow> limits option \<Rightarrow> bool" where
  "lim_charged n l lim \<longleftrightarrow> (\<exists>l'. lim = Some l' \<and> charged n l l')"

lemma if_lim_Some: "if_lim f (Some l) = Inr lim \<longleftrightarrow> (\<exists>l'. f l = Inr l' \<and> lim = Some l')"
  by (auto simp: if_lim_def bindE_Inr_iff)

lemma lim_charged_trans: "charged n l l' \<Longrightarrow> lim_charged m l' lim \<Longrightarrow> lim_charged (n + m) l lim"
  by (auto simp: lim_charged_def dest: charged_trans)

lemma space_charged:
  "by_space_loop L s lx tm d ret (Some l) = Inr (xs, lim) \<Longrightarrow> lm_sane l \<Longrightarrow>
   length ret \<le> length xs \<and> lim_charged ((length xs - length ret) * lm_extra_bytes_per_term l) l lim"
proof (induction s arbitrary: lx tm d ret l)
  case Nil
  then show ?case
    by (auto simp: if_lim_Some lim_charged_def bindE_Inr_iff charged_0 dest: add_term_charged split: if_splits)
next
  case (Cons c s)
  let ?lx = "lx_put L c lx"
  consider (skip) tm' d' where "by_space_loop L s ?lx tm' d' ret (Some l) = Inr (xs, lim)"
    | (split) l1 where "lm_add_term l = Inr l1" "by_space_loop L s ?lx [] False (ret @ [tm]) (Some l1) = Inr (xs, lim)"
    using Cons.prems(1) by (auto simp: Let_def if_lim_Some bindE_Inr_iff split: if_splits)
  then show ?case
  proof cases
    case skip
    then show ?thesis using Cons.IH Cons.prems(2) by blast
  next
    case split
    note c = add_term_charged [OF Cons.prems(2) split(1)]
    from Cons.IH [OF split(2) charged_sane [OF c]] charged_same [OF c]
    have l: "Suc (length ret) \<le> length xs" "lim_charged ((length xs - Suc (length ret)) * lm_extra_bytes_per_term l) l1 lim"
      by auto
    moreover have "(length xs - length ret) * lm_extra_bytes_per_term l =
        lm_extra_bytes_per_term l + (length xs - Suc (length ret)) * lm_extra_bytes_per_term l"
      using l(1) by (simp add: Suc_diff_Suc [symmetric] Suc_le_eq)
    ultimately show ?thesis using lim_charged_trans [OF c l(2)] by simp
  qed
qed

lemma push_checked_charged:
  assumes "push_checked opt ol (Some l) = Inr (ol', lim)" "lm_sane l"
  shows "length (ol_opts ol') = Suc (length (ol_opts ol)) \<and> lim_charged (lm_extra_bytes_per_opt l) l lim"
  using assms
  by (auto simp: push_checked_def bindE_Inr_iff if_lim_Some validate_directive_def ol_push_back_def lim_charged_def
      dest: add_opt_charged)

text \<open>The number of options stored, with those being collected, and what a line adds to it.\<close>

definition stored :: "parse_state \<Rightarrow> nat" where
  "stored = (\<lambda>(multiline, ol, lim). length (ol_opts ol))"

lemma config_line_charged:
  assumes "config_line n line (ml, ol, Some l) = Inr (ml', ol', lim)" "lm_sane l"
  shows "length (ol_opts ol) \<le> length (ol_opts ol') \<and>
    (\<exists>k. lim_charged ((length (ol_opts ol') - length (ol_opts ol)) * lm_extra_bytes_per_opt l + k) l lim)"
proof -
  have zero: "lim_charged (0 + 0) l (Some l)" using assms(2) by (simp add: lim_charged_def charged_0)
  show ?thesis
  proof (cases ml)
    case (Some m)
    then show ?thesis
      using assms zero push_checked_charged [of m ol l]
      by (fastforce simp: config_line_def bindE_Inr_iff intro: exI [of _ 0] split: if_splits)
  next
    case None
    show ?thesis
    proof (cases "ignore_line line")
      case True
      with None assms(1) zero show ?thesis by (auto simp: config_line_def)
    next
      case False
      with None assms(1) obtain xs l1' where
        s: "by_space LexComment [] line (Some l) = Inr (xs, l1')" and
        r: "(if xs \<noteq> [] then (if is_open_tag (xs ! 0)
             then (if length xs > 1 then Inl (extraneous_err n ''option'' (opt_of xs))
                   else Inr (Some (multiline_open untag_open_tag (opt_of xs)), ol, l1'))
             else bindE (push_checked (opt_of xs) ol l1') (\<lambda>(ol, lim). Inr (None, ol, lim)))
           else Inr (None, ol, l1')) = Inr (ml', ol', lim)"
        by (auto simp: config_line_def parse_option_from_line_def bindE_Inr_iff cong: if_cong)
      from space_charged [OF s [unfolded by_space_def] assms(2)] obtain l1 k where
        l1: "l1' = Some l1" "charged k l l1" by (auto simp: lim_charged_def)
      note sane = charged_sane [OF l1(2)] and same = charged_same [OF l1(2)]
      consider "ol' = ol" "lim = Some l1" | "push_checked (opt_of xs) ol (Some l1) = Inr (ol', lim)"
        using r l1 by (auto simp: bindE_Inr_iff split: if_splits)
      then show ?thesis
      proof cases
        case 1
        with l1 show ?thesis by (auto simp: lim_charged_def)
      next
        case 2
        from push_checked_charged [OF this sane] same
        have "length (ol_opts ol') = Suc (length (ol_opts ol))" "lim_charged (lm_extra_bytes_per_opt l) l1 lim" by auto
        with lim_charged_trans [OF l1(2), of "lm_extra_bytes_per_opt l" lim] show ?thesis
          by (auto simp: add.commute [of k] intro!: exI [of _ k])
      qed
    qed
  qed
qed

lemma lines_loop_charged:
  "lines_loop config_line sl n (ml, ol, Some l) = Inr (ml', ol', lim) \<Longrightarrow> lm_sane l \<Longrightarrow>
   length (ol_opts ol) \<le> length (ol_opts ol') \<and>
   (\<exists>k. lim_charged ((length (ol_opts ol') - length (ol_opts ol)) * lm_extra_bytes_per_opt l + k) l lim)"
proof (induction "config_line" sl n "(ml, ol, Some l)" arbitrary: ml ol l rule: lines_loop.induct)
  case (1 sl n ml ol l)
  show ?case
  proof (cases "split_line True sl")
    case (Pair b sl1)
    show ?thesis
    proof (cases b)
      case False
      with Pair "1.prems" have "ol' = ol" "lim = Some l" by (auto simp: lines_loop.simps [of _ sl])
      with "1.prems"(2) show ?thesis by (auto simp: lim_charged_def intro!: exI [of _ 0] charged_0)
    next
      case True
      with Pair "1.prems"(1) obtain ml1 ol1 lim1 where
        c: "config_line (n + 1) (sl_line sl1) (ml, ol, Some l) = Inr (ml1, ol1, lim1)" and
        r: "lines_loop config_line sl1 (n + 1) (ml1, ol1, lim1) = Inr (ml', ol', lim)" and o: "\<not> sl_overflow sl1"
        by (auto simp: lines_loop.simps [of _ sl] split: if_splits sum.splits)
      from config_line_charged [OF c "1.prems"(2)] obtain l1 k where
        l1: "lim1 = Some l1" "length (ol_opts ol) \<le> length (ol_opts ol1)"
        "charged ((length (ol_opts ol1) - length (ol_opts ol)) * lm_extra_bytes_per_opt l + k) l l1"
        by (auto simp: lim_charged_def)
      from "1.hyps" [of b sl1 ml1 ol1 l1] Pair True o c r l1(1) charged_sane [OF l1(3)]
      obtain k' where k': "length (ol_opts ol1) \<le> length (ol_opts ol')"
        "lim_charged ((length (ol_opts ol') - length (ol_opts ol1)) * lm_extra_bytes_per_opt l1 + k') l1 lim" by auto
      have e: "(length (ol_opts ol1) - length (ol_opts ol)) * x + k + ((length (ol_opts ol') - length (ol_opts ol1)) * x + k') =
          (length (ol_opts ol') - length (ol_opts ol)) * x + (k + k')" for x
        using l1(2) k'(1) by (simp add: add_mult_distrib [symmetric])
      from lim_charged_trans [OF l1(3) k'(2)] charged_same [OF l1(3)] l1(2) k'(1) show ?thesis
        by (auto simp: e intro!: exI [of _ "k + k'"])
    qed
  qed
qed

text \<open>C24. When a file is parsed under limits and nothing is thrown, its length and the price of every
  option stored are below the maximum: a text cannot make the parser store more.\<close>

theorem config_limits_hold:
  assumes "parse_from_config str ol (Some l) = Inr (ol', Some l')" "lm_sane l" "length str \<le> 2 ^ 62" "str \<noteq> []"
  shows "unat (lm_bytes l) + length str + (length (ol_opts ol') - length (ol_opts ol)) * lm_extra_bytes_per_opt l
    < unat (lm_max_bytes l)"
proof -
  from assms(1) obtain l1 ml where
    s: "lm_add_string str l = Inr l1" and
    r: "lines_loop config_line (split_lines_new str (lm_max_line_len l1)) 0 (None, ol, Some l1) = Inr (ml, ol', Some l')"
    by (auto simp: parse_from_config_def bindE_Inr_iff if_lim_Some lim_line_len_def lines_end_def split: option.splits)
  note c = add_string_charged [OF assms(2,3) s]
  from lines_loop_charged [OF r charged_sane [OF c]] obtain k where
    "charged ((length (ol_opts ol') - length (ol_opts ol)) * lm_extra_bytes_per_opt l1 + k) l1 l'"
    by (auto simp: lim_charged_def)
  from charged_trans [OF c this] charged_same [OF c] assms(4) show ?thesis
    by (auto simp: charged_def word_less_nat_alt)
qed

theorem config_limits_hold_witness:
  "\<exists>ol' l'. parse_from_config (''a b'' @ [NL] @ ''c'') ol_new (Some (limits_new ''big'' 100 16 4 32 8)) = Inr (ol', Some l') \<and>
     5 + length (ol_opts ol') * 16 < 100"
proof -
  let ?p = "parse_from_config (''a b'' @ [NL] @ ''c'') ol_new (Some (limits_new ''big'' 100 16 4 32 8))"
  have "case ?p of Inr (_, Some _) \<Rightarrow> True | _ \<Rightarrow> False" by code_simp
  then obtain ol' l' where p: "?p = Inr (ol', Some l')" by (auto split: sum.splits option.splits)
  from config_limits_hold [OF p] have "5 + length (ol_opts ol') * 16 < 100"
    by (simp add: lm_sane_def limits_new_def ol_new_def)
  with p show ?thesis by blast
qed

end
