(* ===== verification/Challenge.thy ===== *)
theory Challenge
  imports Option_Files
begin

text \<open>
  \<^verbatim>\<open>auth/cr.hpp\<close>: static and dynamic challenges and their responses. A \<open>std::string\<close> that
  goes through base64 is the list of the bytes of its characters. The constructor that takes a cookie and a user
  is \<open>cr_new\<close>; \<open>init\<close> gives the parsed object or its exception.
\<close>

record challenge =
  cr_echo :: bool
  cr_response_required :: bool
  cr_state_id :: string
  cr_username :: string
  cr_challenge_text :: string

definition byte_char :: "byte \<Rightarrow> char" where "byte_char b = char_of (unat b)"

definition b64_string :: "string \<Rightarrow> string" where
  "b64_string s = map byte_char (b64_encode base64_default (map of_char s))"

definition unb64_string :: "string \<Rightarrow> string res" where
  "unb64_string s = bindE (b64_decode base64_default (map of_char s)) (\<lambda>xs. Inr (map byte_char xs))"

definition split_null :: "string \<Rightarrow> char \<Rightarrow> u32 \<Rightarrow> string list" where
  "split_null input split_by max_terms =
     (case by_char NullLex [] input split_by 0 max_terms None of Inl e \<Rightarrow> [] | Inr (sl, lim) \<Rightarrow> sl)"

definition is_dynamic :: "string \<Rightarrow> bool" where "is_dynamic s = starts_with s ''CRV1:''"
definition is_static :: "string \<Rightarrow> bool" where "is_static s = starts_with s ''SCRV1:''"

abbreviation (input) dynamic_challenge_parse_error :: exn where
  "dynamic_challenge_parse_error \<equiv> Std_exception ''dynamic_challenge_parse_error''"
abbreviation (input) static_challenge_parse_error :: exn where
  "static_challenge_parse_error \<equiv> Std_exception ''static_challenge_parse_error''"

fun cr_options :: "string list \<Rightarrow> challenge \<Rightarrow> challenge" where
  "cr_options [] cr = cr"
| "cr_options (i # is) cr =
     cr_options is (if i = ''E'' then cr\<lparr>cr_echo := True\<rparr>
                    else if i = ''R'' then cr\<lparr>cr_response_required := True\<rparr> else cr)"

definition cr_init :: "string \<Rightarrow> challenge \<Rightarrow> challenge res" where
  "cr_init cookie cr =
     (let sl = split_null cookie (CHR '':'') 4
      in if length sl \<noteq> 5 then Inl dynamic_challenge_parse_error
         else if sl ! 0 \<noteq> ''CRV1'' then Inl dynamic_challenge_parse_error
         else (let cr = cr_options (split_null (sl ! 1) (CHR '','') 0xFFFFFFFF) cr;
                   cr = cr\<lparr>cr_state_id := sl ! 2\<rparr>
               in case unb64_string (sl ! 3) of
                    Inl e \<Rightarrow> Inl (if e = Base64_decode_error then dynamic_challenge_parse_error else e)
                  | Inr user \<Rightarrow> Inr (cr\<lparr>cr_username := user, cr_challenge_text := sl ! 4\<rparr>)))"

definition cr_empty :: challenge where
  "cr_empty = \<lparr>cr_echo = False, cr_response_required = False, cr_state_id = '''', cr_username = '''', cr_challenge_text = ''''\<rparr>"

definition cr_of_cookie :: "string \<Rightarrow> challenge res" where
  "cr_of_cookie cookie = cr_init cookie cr_empty"

definition cr_new :: "string \<Rightarrow> string \<Rightarrow> challenge res" where
  "cr_new cookie user =
     (if \<not> is_dynamic cookie \<and> CHR '':'' \<notin> set cookie
      then Inr (cr_empty\<lparr>cr_state_id := cookie, cr_username := user\<rparr>)
      else cr_init cookie cr_empty)"

definition validate_dynamic :: "string \<Rightarrow> unit res" where
  "validate_dynamic cookie = bindE (cr_of_cookie cookie) (\<lambda>_. Inr ())"

definition construct_dynamic_password :: "challenge \<Rightarrow> string \<Rightarrow> string" where
  "construct_dynamic_password cr response = ''CRV1::'' @ cr_state_id cr @ ''::'' @ response"

definition construct_static_password :: "string \<Rightarrow> string \<Rightarrow> string" where
  "construct_static_password password response = ''SCRV1:'' @ b64_string password @ '':'' @ b64_string response"

text \<open>The two reference arguments \<open>password\<close> and \<open>response\<close> are the results.\<close>

definition parse_static_cookie :: "string \<Rightarrow> (string \<times> string) res" where
  "parse_static_cookie cookie =
     (let sl = split_null cookie (CHR '':'') 0xFFFFFFFF;
          err = (\<lambda>e. if e = Base64_decode_error then static_challenge_parse_error else e)
      in if length sl \<noteq> 3 then Inl static_challenge_parse_error
         else if sl ! 0 \<noteq> ''SCRV1'' then Inl static_challenge_parse_error
         else case unb64_string (sl ! 1) of
                Inl e \<Rightarrow> Inl (err e)
              | Inr password \<Rightarrow>
                  (case unb64_string (sl ! 2) of Inl e \<Rightarrow> Inl (err e) | Inr response \<Rightarrow> Inr (password, response)))"

definition generate_dynamic_challenge :: "string \<Rightarrow> string \<Rightarrow> string \<Rightarrow> bool \<Rightarrow> bool \<Rightarrow> string" where
  "generate_dynamic_challenge session_token username challenge echo response_required =
     (let os = ''CRV1:''; comma = False;
          (os, comma) = (if echo then (os @ (if comma then '','' else '''') @ ''E'', True) else (os, comma));
          (os, comma) = (if response_required then (os @ (if comma then '','' else '''') @ ''R'', True) else (os, comma))
      in os @ '':'' @ session_token @ '':'' @ b64_string username @ '':'' @ challenge)"


section \<open>Splitting without a lexical analyser\<close>

text \<open>\<open>split_pieces\<close> says what the split without quoting computes: cut at the first \<open>n\<close> separators.\<close>

fun split_pieces :: "char \<Rightarrow> nat \<Rightarrow> string \<Rightarrow> string \<Rightarrow> string list" where
  "split_pieces c n tm [] = [tm]"
| "split_pieces c n tm (x # xs) =
     (if x = c \<and> n > 0 then tm # split_pieces c (n - 1) [] xs else split_pieces c n (tm @ [x]) xs)"

lemma split_null_loop:
  assumes "unat k \<le> unat m"
  shows "by_char_loop NullLex c 0 m s l k tm ret None = Inr (ret @ split_pieces c (unat m - unat k) tm s, None)"
  using assms
proof (induction s arbitrary: l k tm ret)
  case (Cons x xs)
  have "k < m \<Longrightarrow> unat (k + 1) = unat k + 1"
    using unsigned_less [of m, where ?'a = nat] by (simp add: unat_word_ariths word_less_nat_alt)
  with Cons show ?case
    by (cases "k < m") (auto simp: NullLex_def if_lim_def word_less_nat_alt)
qed (simp add: if_lim_def)

lemma split_null_pieces: "split_null s c m = split_pieces c (unat m) [] s"
  by (simp add: split_null_def by_char_def split_null_loop)

lemma split_pieces_at:
  "c \<notin> set k \<Longrightarrow> n > 0 \<Longrightarrow> split_pieces c n tm (k @ c # s) = (tm @ k) # split_pieces c (n - 1) [] s"
  by (induction k arbitrary: tm) auto

lemma split_pieces_none: "c \<notin> set k \<or> n = 0 \<Longrightarrow> split_pieces c n tm k = [tm @ k]"
  by (induction k arbitrary: tm) auto

lemmas split_eval = split_null_pieces split_pieces_at split_pieces_none

text \<open>Nothing is lost by splitting: the pieces joined by the separator are the text.\<close>

lemma split_pieces_join:
  "\<exists>p ps. split_pieces c n tm s = p # ps \<and> p @ concat (map (\<lambda>q. c # q) ps) = tm @ s \<and> length ps \<le> n"
proof (induction c n tm s rule: split_pieces.induct)
  case (2 c n tm x xs)
  show ?case
  proof (cases "x = c \<and> n > 0")
    case True
    from 2(1) [OF this] obtain p ps where "split_pieces c (n - 1) [] xs = p # ps"
      "p @ concat (map (\<lambda>q. c # q) ps) = xs" "length ps \<le> n - 1" by auto
    with True show ?thesis by auto
  next
    case False
    then have e: "split_pieces c n tm (x # xs) = split_pieces c n (tm @ [x]) xs" by auto
    from 2(2) [OF False] show ?thesis unfolding e by auto
  qed
qed auto


section \<open>Base64 text\<close>

lemma byte_char_of_char [simp]: "byte_char (of_char c) = c"
proof -
  have "unat (of_char c :: byte) = (of_char c :: nat)"
    by (metis of_char_mod_256 of_nat_of_char unat_of_nat_byte mod_less_divisor zero_less_numeral)
  then show ?thesis by (simp add: byte_char_def)
qed

lemma b64_token_chars:
  assumes "length (b64_enc B) = 64"
  shows "set (b64_token B w) \<subseteq> set (b64_enc B)"
proof -
  have lt: "unat (v AND 63) < 64" for v :: u32
    using word_and_le1 [of v "63"] by (simp add: word_le_nat_alt)
  have "drop_bit 18 (w AND 0x00fc0000) = drop_bit 18 w AND 63" "drop_bit 12 (w AND 0x0003f000) = drop_bit 12 w AND 63"
    "drop_bit 6 (w AND 0x00000fc0) = drop_bit 6 w AND 63"
    by (simp_all add: drop_bit_and)
  with lt assms show ?thesis by (simp add: b64_token_def)
qed

lemma b64_encode_chars:
  assumes "length (b64_enc B) = 64"
  shows "set (b64_encode B xs) \<subseteq> insert (b64_equal B) (set (b64_enc B))"
proof -
  note t = b64_token_chars [OF assms, THEN subsetD]
  note u = set_update_subset_insert [THEN subsetD]
  from assms show ?thesis
    by (induction B xs rule: b64_encode.induct) (auto dest!: u dest: b64_token_chars [THEN subsetD])
qed

lemma b64_string_no_colon: "CHR '':'' \<notin> set (b64_string s)"
proof -
  have l: "length (b64_enc base64_default) = 64" by code_simp
  have "list_all (\<lambda>b. byte_char b \<noteq> CHR '':'') (b64_equal base64_default # b64_enc base64_default)" by code_simp
  then have "byte_char b \<noteq> CHR '':''" if "b \<in> insert (b64_equal base64_default) (set (b64_enc base64_default))" for b
    using that by (auto simp: list_all_iff)
  with b64_encode_chars [OF l] show ?thesis by (force simp: b64_string_def)
qed

lemma unb64_b64_string [simp]: "unb64_string (b64_string s) = Inr s"
proof -
  have c: "(of_char (byte_char b) :: byte) = b" for b
  proof -
    have "unat b < 256" using unsigned_less [of b, where ?'a = nat] by simp
    then have "(of_char (char_of (unat b)) :: nat) = unat b" by simp
    then have "(of_nat (of_char (char_of (unat b)) :: nat) :: byte) = b" by simp
    then show ?thesis by (simp only: byte_char_def of_nat_of_char)
  qed
  have "map of_char (map byte_char xs) = xs" for xs :: "byte list"
    by (induction xs) (simp_all add: c)
  moreover have "map byte_char (map of_char t) = t" for t :: string
    by (induction t) simp_all
  ultimately show ?thesis
    using b64.decode_encode [of "map of_char s"] by (simp add: unb64_string_def b64_string_def comp_def)
qed


section \<open>What is generated is read back\<close>

lemma dynamic_challenge_reads:
  assumes "CHR '':'' \<notin> set token"
  shows "cr_of_cookie (generate_dynamic_challenge token user text echo rr) =
    Inr \<lparr>cr_echo = echo, cr_response_required = rr, cr_state_id = token, cr_username = user, cr_challenge_text = text\<rparr>"
proof -
  define flags where "flags = (if echo then ''E'' else []) @ (if echo \<and> rr then '','' else []) @ (if rr then ''R'' else [])"
  have c: "CHR '':'' \<notin> set ''CRV1''" "CHR '':'' \<notin> set flags" by (auto simp: flags_def)
  have g: "generate_dynamic_challenge token user text echo rr =
      ''CRV1'' @ CHR '':'' # flags @ CHR '':'' # token @ CHR '':'' # b64_string user @ CHR '':'' # text"
    by (simp add: generate_dynamic_challenge_def flags_def)
  have "split_null (generate_dynamic_challenge token user text echo rr) (CHR '':'') 4 =
      [''CRV1'', flags, token, b64_string user, text]"
    unfolding g split_null_pieces
    by (simp add: split_pieces_at [OF c(1)] split_pieces_at [OF c(2)] split_pieces_at [OF assms]
        split_pieces_at [OF b64_string_no_colon] split_pieces_none del: append_Cons)
  moreover have "cr_options (split_null flags (CHR '','') 0xFFFFFFFF) cr_empty = cr_empty\<lparr>cr_echo := echo, cr_response_required := rr\<rparr>"
    by (simp add: flags_def split_null_pieces cr_empty_def)
  ultimately show ?thesis by (simp add: cr_of_cookie_def cr_init_def cr_empty_def)
qed

lemma static_cookie_reads: "parse_static_cookie (construct_static_password password response) = Inr (password, response)"
proof -
  have c: "CHR '':'' \<notin> set ''SCRV1''" by simp
  have "construct_static_password password response = ''SCRV1'' @ CHR '':'' # b64_string password @ CHR '':'' # b64_string response"
    by (simp add: construct_static_password_def)
  then have "split_null (construct_static_password password response) (CHR '':'') 0xFFFFFFFF =
      [''SCRV1'', b64_string password, b64_string response]"
    by (simp add: split_null_pieces split_pieces_at [OF c] split_pieces_at [OF b64_string_no_colon]
        split_pieces_none b64_string_no_colon del: append_Cons)
  then show ?thesis by (simp add: parse_static_cookie_def)
qed

text \<open>A challenge that is not accepted says so with one of the two exceptions of the class.\<close>

lemma token_loop_error: "token_loop B ts val k = Inl e \<Longrightarrow> e = Base64_decode_error"
  by (induction B ts val k rule: token_loop.induct)
    (auto simp: decode_base64_char_def Let_def bindE_Inl_iff split: if_splits)

lemma decode_error: "b64_decode B xs = Inl e \<Longrightarrow> e = Base64_decode_error"
  by (induction B xs rule: b64_decode.induct)
    (subst (asm) b64_decode.simps, auto simp: token_decode_def bindE_Inl_iff split: if_splits sum.splits dest: token_loop_error)

lemma unb64_error: "unb64_string s = Inl e \<Longrightarrow> e = Base64_decode_error"
  by (auto simp: unb64_string_def bindE_Inl_iff dest: decode_error)

lemma cr_init_error: "cr_init cookie cr = Inl e \<Longrightarrow> e = dynamic_challenge_parse_error"
  by (auto simp: cr_init_def Let_def dest: unb64_error split: if_splits sum.splits)

lemma parse_static_error: "parse_static_cookie cookie = Inl e \<Longrightarrow> e = static_challenge_parse_error"
  by (auto simp: parse_static_cookie_def Let_def dest: unb64_error split: if_splits sum.splits)


section \<open>Properties\<close>

text \<open>C21. A challenge that \<open>generate_dynamic_challenge\<close> makes is read back with all its parts, whatever the challenge
  text and the user name contain, if the token has no colon; a static response cookie gives back password and
  response for any strings.\<close>

theorem challenge_roundtrip:
  assumes "CHR '':'' \<notin> set token"
  shows "cr_new (generate_dynamic_challenge token user text echo rr) other =
      Inr \<lparr>cr_echo = echo, cr_response_required = rr, cr_state_id = token, cr_username = user, cr_challenge_text = text\<rparr> \<and>
    is_dynamic (generate_dynamic_challenge token user text echo rr) \<and>
    parse_static_cookie (construct_static_password password response) = Inr (password, response)"
proof -
  have d: "is_dynamic (generate_dynamic_challenge token user text echo rr)"
    by (cases echo; cases rr; simp add: is_dynamic_def generate_dynamic_challenge_def starts_with_def Let_def)
  with dynamic_challenge_reads [OF assms] static_cookie_reads show ?thesis
    by (simp add: cr_new_def cr_of_cookie_def)
qed

theorem challenge_roundtrip_witness:
  "cr_new (generate_dynamic_challenge ''tok1'' ''joe:x'' ''PIN: now'' True False) [] =
    Inr \<lparr>cr_echo = True, cr_response_required = False, cr_state_id = ''tok1'', cr_username = ''joe:x'', cr_challenge_text = ''PIN: now''\<rparr>"
  using challenge_roundtrip [of "''tok1''" "''joe:x''" "''PIN: now''" True False "[]"] by simp

end
