(* ===== verification/Client_Creds.thy ===== *)
theory Client_Creds
  imports Challenge
begin

text \<open>
  \<^verbatim>\<open>client/clicreds.hpp\<close>: the credentials of a client. A session ID the server sends replaces the password
  for later authentications; the password may be cached and restored when the session ID is refused. The
  pointer to a dynamic challenge is an option.
\<close>

record creds =
  cc_username :: string
  cc_password :: string
  cc_allow_cache_password :: bool
  cc_password_save_defined :: bool
  cc_password_save :: string
  cc_response :: string
  cc_dynamic_challenge :: "challenge option"
  cc_replace :: bool
  cc_did_replace :: bool

definition creds_new :: creds where
  "creds_new =
     \<lparr>cc_username = '''', cc_password = '''', cc_allow_cache_password = False, cc_password_save_defined = False,
      cc_password_save = '''', cc_response = '''', cc_dynamic_challenge = None, cc_replace = False, cc_did_replace = False\<rparr>"

definition set_username :: "string \<Rightarrow> creds \<Rightarrow> creds" where
  "set_username username_arg c = c\<lparr>cc_username := username_arg\<rparr>"

definition set_password :: "string \<Rightarrow> creds \<Rightarrow> creds" where
  "set_password password_arg c = c\<lparr>cc_password := password_arg, cc_did_replace := False\<rparr>"

definition set_response :: "string \<Rightarrow> creds \<Rightarrow> creds" where
  "set_response response_arg c = c\<lparr>cc_response := response_arg\<rparr>"

definition set_dynamic_challenge_cookie :: "string \<Rightarrow> string \<Rightarrow> creds \<Rightarrow> creds res" where
  "set_dynamic_challenge_cookie cookie username c =
     (if cookie \<noteq> [] then bindE (cr_new cookie username) (\<lambda>cr. Inr (c\<lparr>cc_dynamic_challenge := Some cr\<rparr>)) else Inr c)"

definition set_replace_password_with_session_id :: "bool \<Rightarrow> creds \<Rightarrow> creds" where
  "set_replace_password_with_session_id value c = c\<lparr>cc_replace := value\<rparr>"

definition enable_password_cache :: "bool \<Rightarrow> creds \<Rightarrow> creds" where
  "enable_password_cache value c = c\<lparr>cc_allow_cache_password := value\<rparr>"

definition set_session_id :: "string \<Rightarrow> string \<Rightarrow> creds \<Rightarrow> creds" where
  "set_session_id user sess_id c =
     (let c = (if cc_dynamic_challenge c \<noteq> None \<and> \<not> cc_replace c then c\<lparr>cc_replace := True\<rparr> else c)
      in if cc_replace c
         then (let c = (if cc_allow_cache_password c \<and> \<not> cc_password_save_defined c
                        then c\<lparr>cc_password_save := cc_password c, cc_password_save_defined := True\<rparr> else c);
                   c = c\<lparr>cc_password := sess_id, cc_response := ''''\<rparr>;
                   c = (case cc_dynamic_challenge c of
                          Some cr \<Rightarrow> c\<lparr>cc_username := cr_username cr, cc_dynamic_challenge := None\<rparr>
                        | None \<Rightarrow> if user \<noteq> [] then c\<lparr>cc_username := user\<rparr> else c)
               in c\<lparr>cc_did_replace := True\<rparr>)
         else c)"

definition get_username :: "creds \<Rightarrow> string" where
  "get_username c = (case cc_dynamic_challenge c of Some cr \<Rightarrow> cr_username cr | None \<Rightarrow> cc_username c)"

definition get_password :: "creds \<Rightarrow> string" where
  "get_password c =
     (case cc_dynamic_challenge c of
        Some cr \<Rightarrow> construct_dynamic_password cr (cc_response c)
      | None \<Rightarrow> if cc_response c = [] then cc_password c else construct_static_password (cc_password c) (cc_response c))"

definition username_defined :: "creds \<Rightarrow> bool" where "username_defined c \<longleftrightarrow> cc_username c \<noteq> []"
definition password_defined :: "creds \<Rightarrow> bool" where "password_defined c \<longleftrightarrow> cc_password c \<noteq> []"
definition session_id_defined :: "creds \<Rightarrow> bool" where "session_id_defined c \<longleftrightarrow> cc_did_replace c"

definition can_retry_auth_with_cached_password :: "creds \<Rightarrow> bool \<times> creds" where
  "can_retry_auth_with_cached_password c =
     (if cc_password_save_defined c
      then (True, c\<lparr>cc_password := cc_password_save c, cc_password_save := '''', cc_password_save_defined := False,
                     cc_did_replace := False\<rparr>)
      else (False, c))"

definition purge_session_id :: "creds \<Rightarrow> creds" where
  "purge_session_id c =
     (let (retry, c) = can_retry_auth_with_cached_password c
      in if \<not> retry then c\<lparr>cc_password := '''', cc_did_replace := False\<rparr> else c)"

definition auth_info :: "creds \<Rightarrow> string" where
  "auth_info c =
     (if cc_dynamic_challenge c \<noteq> None then ''DynamicChallenge''
      else if cc_response c = []
      then (if cc_username c \<noteq> [] then ''Username'' else ''UsernameEmpty'') @ ''/'' @
           (if cc_password c \<noteq> [] then (if cc_did_replace c then ''SessionID'' else ''Password'') else ''PasswordEmpty'')
      else ''StaticChallenge'')"


section \<open>What is sent and what is kept\<close>

text \<open>Later session IDs go the same way as the first: the cached password stays the one the user gave.\<close>

fun set_session_ids :: "(string \<times> string) list \<Rightarrow> creds \<Rightarrow> creds" where
  "set_session_ids [] c = c"
| "set_session_ids ((user, sess_id) # ss) c = set_session_ids ss (set_session_id user sess_id c)"

lemma set_session_id_replaced:
  fixes user sess_id :: string and c :: creds
  assumes "cc_replace c \<or> cc_dynamic_challenge c \<noteq> None"
  defines "d \<equiv> set_session_id user sess_id c"
  shows "cc_replace d" "cc_dynamic_challenge d = None" "get_password d = sess_id" "cc_did_replace d"
    "cc_allow_cache_password d = cc_allow_cache_password c"
    "cc_password_save_defined d = (cc_allow_cache_password c \<or> cc_password_save_defined c)"
    "cc_password_save d = (if cc_password_save_defined c \<or> \<not> cc_allow_cache_password c then cc_password_save c else cc_password c)"
    "get_username d = (if cc_dynamic_challenge c = None \<and> user \<noteq> [] then user else get_username c)"
  using assms(1) unfolding d_def
  by (auto simp: set_session_id_def get_password_def get_username_def Let_def split: option.splits)

text \<open>After a session ID neither a challenge nor a response is left to go into the password.\<close>

definition plain_password :: "creds \<Rightarrow> bool" where
  "plain_password c \<longleftrightarrow> cc_dynamic_challenge c = None \<and> cc_response c = []"

lemma plain_password_sent: "plain_password c \<Longrightarrow> get_password c = cc_password c"
  by (simp add: plain_password_def get_password_def)

lemma set_session_id_plain:
  "cc_replace c \<or> cc_dynamic_challenge c \<noteq> None \<Longrightarrow> plain_password (set_session_id user sess_id c)"
  by (auto simp: set_session_id_def plain_password_def Let_def split: option.splits)

lemma session_ids_kept:
  assumes "cc_replace c \<or> cc_dynamic_challenge c \<noteq> None" "ss \<noteq> []"
  shows "get_password (set_session_ids ss c) = snd (last ss) \<and> plain_password (set_session_ids ss c)
    \<and> cc_password_save_defined (set_session_ids ss c) = (cc_allow_cache_password c \<or> cc_password_save_defined c)
    \<and> (cc_password_save_defined c \<longrightarrow> cc_password_save (set_session_ids ss c) = cc_password_save c)
    \<and> (\<not> cc_password_save_defined c \<longrightarrow> cc_allow_cache_password c \<longrightarrow> cc_password_save (set_session_ids ss c) = cc_password c)"
  using assms
proof (induction ss arbitrary: c)
  case (Cons s ss)
  obtain u p where s: "s = (u, p)" by (cases s)
  note r = set_session_id_replaced [OF Cons.prems(1), of u p] set_session_id_plain [OF Cons.prems(1), of u p]
  show ?case
    using Cons.IH [of "set_session_id u p c"] r by (cases "ss = []") (auto simp: s)
qed simp

text \<open>Without the setting and without a dynamic challenge a session ID is dropped.\<close>

lemma session_ids_dropped:
  "\<not> cc_replace c \<Longrightarrow> cc_dynamic_challenge c = None \<Longrightarrow> set_session_ids ss c = c"
  by (induction ss) (auto simp: set_session_id_def)

text \<open>A refused session ID is forgotten: what is sent next is the cached password, or nothing.\<close>

lemma purge_forgets:
  "cc_did_replace (purge_session_id c) = False"
  "cc_password_save_defined (purge_session_id c) = False"
  "cc_password (purge_session_id c) = (if cc_password_save_defined c then cc_password_save c else '''')"
  by (simp_all add: purge_session_id_def can_retry_auth_with_cached_password_def)

text \<open>The cache is not part of what \<open>set_password\<close> sets: a password given after it was filled is lost.\<close>

lemma stale_cached_password:
  assumes "cc_password_save_defined c"
  shows "cc_password (snd (can_retry_auth_with_cached_password (set_password pw c))) = cc_password_save c"
  using assms by (simp add: can_retry_auth_with_cached_password_def set_password_def)

text \<open>C19. Session IDs stand in for the password and it comes back. When they are to replace the password, by
  the setting or because the credentials answer a dynamic challenge, then after any number of session IDs
  the last one is what is sent; when it is refused and the cache is allowed, the password the user gave is
  what is sent again, once, and a second refusal has nothing to retry with; without the cache already the
  first has nothing. Otherwise, which is the default, session IDs are ignored: the credentials stay as they
  are and no session ID is ever sent.\<close>

theorem session_ids_stand_in:
  assumes "\<not> cc_password_save_defined c" "ss \<noteq> []"
  defines "c' \<equiv> set_session_ids ss c"
  shows "if cc_replace c \<or> cc_dynamic_challenge c \<noteq> None
    then get_password c' = snd (last ss) \<and>
      (if cc_allow_cache_password c
       then (\<exists>d. can_retry_auth_with_cached_password c' = (True, d) \<and> get_password d = cc_password c \<and>
              \<not> session_id_defined d \<and> \<not> fst (can_retry_auth_with_cached_password d))
       else can_retry_auth_with_cached_password c' = (False, c'))
    else c' = c"
  using session_ids_kept [OF _ assms(2), of c] session_ids_dropped [of c ss] assms(1) unfolding c'_def
  by (auto simp: can_retry_auth_with_cached_password_def session_id_defined_def plain_password_def get_password_def)

theorem session_ids_stand_in_witness:
  "(\<exists>d. can_retry_auth_with_cached_password (set_session_ids [([], ''id1''), (''joe'', ''id2'')]
      (creds_new\<lparr>cc_password := ''secret'', cc_replace := True, cc_allow_cache_password := True\<rparr>)) = (True, d)
        \<and> get_password d = ''secret'') \<and>
   set_session_ids [(''joe'', ''id1'')] (creds_new\<lparr>cc_password := ''secret''\<rparr>) = creds_new\<lparr>cc_password := ''secret''\<rparr>"
  using session_ids_stand_in [of "creds_new\<lparr>cc_password := ''secret'', cc_replace := True, cc_allow_cache_password := True\<rparr>"
      "[([], ''id1''), (''joe'', ''id2'')]"]
    session_ids_stand_in [of "creds_new\<lparr>cc_password := ''secret''\<rparr>" "[(''joe'', ''id1'')]"]
  by (auto simp: creds_new_def)

end
