(* ===== verification/Client_Event.thy ===== *)
theory Client_Event
  imports Client_Creds
begin

text \<open>
  \<^verbatim>\<open>client/clievent.hpp\<close>: the events a client reports, and \<^verbatim>\<open>client/clihalt.hpp\<close>: the HALT and RESTART
  messages of the server. The enumerators of the event types are numbers, as in C++; an event is its type with
  what its class adds to it.
\<close>

type_synonym event_type = nat

abbreviation (input) EV_DISCONNECTED :: event_type where "EV_DISCONNECTED \<equiv> 0"
abbreviation (input) EV_CONNECTED :: event_type where "EV_CONNECTED \<equiv> 1"
abbreviation (input) EV_RECONNECTING :: event_type where "EV_RECONNECTING \<equiv> 2"
abbreviation (input) EV_AUTH_PENDING :: event_type where "EV_AUTH_PENDING \<equiv> 3"
abbreviation (input) EV_RESOLVE :: event_type where "EV_RESOLVE \<equiv> 4"
abbreviation (input) EV_WAIT :: event_type where "EV_WAIT \<equiv> 5"
abbreviation (input) EV_WAIT_PROXY :: event_type where "EV_WAIT_PROXY \<equiv> 6"
abbreviation (input) EV_CONNECTING :: event_type where "EV_CONNECTING \<equiv> 7"
abbreviation (input) EV_GET_CONFIG :: event_type where "EV_GET_CONFIG \<equiv> 8"
abbreviation (input) EV_ASSIGN_IP :: event_type where "EV_ASSIGN_IP \<equiv> 9"
abbreviation (input) EV_ADD_ROUTES :: event_type where "EV_ADD_ROUTES \<equiv> 10"
abbreviation (input) EV_ECHO_OPT :: event_type where "EV_ECHO_OPT \<equiv> 11"
abbreviation (input) EV_INFO :: event_type where "EV_INFO \<equiv> 12"
abbreviation (input) EV_WARN :: event_type where "EV_WARN \<equiv> 13"
abbreviation (input) EV_PAUSE :: event_type where "EV_PAUSE \<equiv> 14"
abbreviation (input) EV_RESUME :: event_type where "EV_RESUME \<equiv> 15"
abbreviation (input) EV_RELAY :: event_type where "EV_RELAY \<equiv> 16"
abbreviation (input) EV_COMPRESSION_ENABLED :: event_type where "EV_COMPRESSION_ENABLED \<equiv> 17"
abbreviation (input) EV_UNSUPPORTED_FEATURE :: event_type where "EV_UNSUPPORTED_FEATURE \<equiv> 18"
abbreviation (input) EV_TRANSPORT_ERROR :: event_type where "EV_TRANSPORT_ERROR \<equiv> 19"
abbreviation (input) EV_TUN_ERROR :: event_type where "EV_TUN_ERROR \<equiv> 20"
abbreviation (input) EV_CLIENT_RESTART :: event_type where "EV_CLIENT_RESTART \<equiv> 21"
abbreviation (input) EV_AUTH_FAILED :: event_type where "EV_AUTH_FAILED \<equiv> 22"
abbreviation (input) EV_CERT_VERIFY_FAIL :: event_type where "EV_CERT_VERIFY_FAIL \<equiv> 23"
abbreviation (input) EV_TLS_VERSION_MIN :: event_type where "EV_TLS_VERSION_MIN \<equiv> 24"
abbreviation (input) EV_CLIENT_HALT :: event_type where "EV_CLIENT_HALT \<equiv> 25"
abbreviation (input) EV_CLIENT_SETUP :: event_type where "EV_CLIENT_SETUP \<equiv> 26"
abbreviation (input) EV_TUN_HALT :: event_type where "EV_TUN_HALT \<equiv> 27"
abbreviation (input) EV_CONNECTION_TIMEOUT :: event_type where "EV_CONNECTION_TIMEOUT \<equiv> 28"
abbreviation (input) EV_INACTIVE_TIMEOUT :: event_type where "EV_INACTIVE_TIMEOUT \<equiv> 29"
abbreviation (input) EV_DYNAMIC_CHALLENGE :: event_type where "EV_DYNAMIC_CHALLENGE \<equiv> 30"
abbreviation (input) EV_PROXY_NEED_CREDS :: event_type where "EV_PROXY_NEED_CREDS \<equiv> 31"
abbreviation (input) EV_PROXY_ERROR :: event_type where "EV_PROXY_ERROR \<equiv> 32"
abbreviation (input) EV_TUN_SETUP_FAILED :: event_type where "EV_TUN_SETUP_FAILED \<equiv> 33"
abbreviation (input) EV_TUN_IFACE_CREATE :: event_type where "EV_TUN_IFACE_CREATE \<equiv> 34"
abbreviation (input) EV_TUN_IFACE_DISABLED :: event_type where "EV_TUN_IFACE_DISABLED \<equiv> 35"
abbreviation (input) EV_EPKI_ERROR :: event_type where "EV_EPKI_ERROR \<equiv> 36"
abbreviation (input) EV_EPKI_INVALID_ALIAS :: event_type where "EV_EPKI_INVALID_ALIAS \<equiv> 37"
abbreviation (input) EV_RELAY_ERROR :: event_type where "EV_RELAY_ERROR \<equiv> 38"
abbreviation (input) EV_N_TYPES :: nat where "EV_N_TYPES \<equiv> 39"

abbreviation (input) NONFATAL_ERROR_START :: event_type where "NONFATAL_ERROR_START \<equiv> EV_TRANSPORT_ERROR"
abbreviation (input) FATAL_ERROR_START :: event_type where "FATAL_ERROR_START \<equiv> EV_AUTH_FAILED"

definition event_names :: "string list" where
  "event_names =
     [''DISCONNECTED'', ''CONNECTED'', ''RECONNECTING'', ''AUTH_PENDING'', ''RESOLVE'', ''WAIT'', ''WAIT_PROXY'', ''CONNECTING'',
      ''GET_CONFIG'', ''ASSIGN_IP'', ''ADD_ROUTES'', ''ECHO'', ''INFO'', ''WARN'', ''PAUSE'', ''RESUME'', ''RELAY'',
      ''COMPRESSION_ENABLED'', ''UNSUPPORTED_FEATURE'', ''TRANSPORT_ERROR'', ''TUN_ERROR'', ''CLIENT_RESTART'', ''AUTH_FAILED'',
      ''CERT_VERIFY_FAIL'', ''TLS_VERSION_MIN'', ''CLIENT_HALT'', ''CLIENT_SETUP'', ''TUN_HALT'', ''CONNECTION_TIMEOUT'',
      ''INACTIVE_TIMEOUT'', ''DYNAMIC_CHALLENGE'', ''PROXY_NEED_CREDS'', ''PROXY_ERROR'', ''TUN_SETUP_FAILED'', ''TUN_IFACE_CREATE'',
      ''TUN_IFACE_DISABLED'', ''EPKI_ERROR'', ''EPKI_INVALID_ALIAS'', ''RELAY_ERROR'']"

definition event_name :: "event_type \<Rightarrow> string" where
  "event_name type = (if type < EV_N_TYPES then event_names ! type else ''UNKNOWN_EVENT_TYPE'')"

lemma length_event_names: "length event_names = EV_N_TYPES"
  by (simp add: event_names_def)

record connected =
  ev_user :: string
  ev_server_host :: string
  ev_server_port :: string
  ev_server_proto :: string
  ev_server_ip :: string
  ev_vpn_ip4 :: string
  ev_vpn_ip6 :: string
  ev_vpn_gw4 :: string
  ev_vpn_gw6 :: string
  ev_client_ip :: string
  ev_tun_name :: string

datatype client_event =
    Plain_event event_type
  | Reason_event event_type string
  | Connected_event connected
  | Auth_pending_event int string
  | Unsupported_feature_event string string bool

fun ev_id :: "client_event \<Rightarrow> event_type" where
  "ev_id (Plain_event t) = t"
| "ev_id (Reason_event t reason) = t"
| "ev_id (Connected_event c) = EV_CONNECTED"
| "ev_id (Auth_pending_event timeout reason) = EV_AUTH_PENDING"
| "ev_id (Unsupported_feature_event name reason critical) = EV_UNSUPPORTED_FEATURE"

definition ev_is_error :: "client_event \<Rightarrow> bool" where "ev_is_error e \<longleftrightarrow> ev_id e \<ge> NONFATAL_ERROR_START"
definition ev_is_fatal :: "client_event \<Rightarrow> bool" where "ev_is_fatal e \<longleftrightarrow> ev_id e \<ge> FATAL_ERROR_START"

definition connected_render :: "connected \<Rightarrow> string" where
  "connected_render c =
     (if ev_user c \<noteq> [] then ev_user c @ ''@'' else '''') @
     (if CHR '':'' \<notin> set (ev_server_host c) then ev_server_host c else ''['' @ ev_server_host c @ '']'') @
     '':'' @ ev_server_port c @ '' ('' @ ev_server_ip c @ '') via '' @ ev_client_ip c @ ''/'' @ ev_server_proto c @
     '' on '' @ ev_tun_name c @ ''/'' @ ev_vpn_ip4 c @ ''/'' @ ev_vpn_ip6 c @
     '' gw=['' @ ev_vpn_gw4 c @ ''/'' @ ev_vpn_gw6 c @ '']''"

fun ev_render :: "client_event \<Rightarrow> string" where
  "ev_render (Plain_event t) = ''''"
| "ev_render (Reason_event t reason) = reason"
| "ev_render (Connected_event c) = connected_render c"
| "ev_render (Auth_pending_event timeout reason) = reason"
| "ev_render (Unsupported_feature_event name reason critical) =
     ''name: '' @ name @ '', reason: '' @ reason @ '', critical: '' @ (if critical then ''1'' else ''0'')"

definition client_setup_make :: "string \<Rightarrow> string \<Rightarrow> string" where
  "client_setup_make status message = status @ (if status \<noteq> [] \<and> message \<noteq> [] then '': '' else '''') @ message"


section \<open>HALT and RESTART\<close>

record client_halt =
  ch_restart :: bool
  ch_psid :: bool
  ch_reason :: string

definition halt_parse_msg :: "string \<Rightarrow> string list" where
  "halt_parse_msg msg = split_null msg (CHR '','') 1"

definition is_halt :: "string list \<Rightarrow> bool" where "is_halt sl \<longleftrightarrow> length sl \<ge> 1 \<and> sl ! 0 = ''HALT''"
definition is_restart :: "string list \<Rightarrow> bool" where "is_restart sl \<longleftrightarrow> length sl \<ge> 1 \<and> sl ! 0 = ''RESTART''"

definition client_halt_new :: "string \<Rightarrow> bool \<Rightarrow> client_halt res" where
  "client_halt_new msg unicode_filter =
     (let sl = halt_parse_msg msg
      in bindE (if is_halt sl then Inr False else if is_restart sl then Inr True else Inl (Std_exception ''client_halt_error''))
           (\<lambda>restart.
              if length sl \<ge> 2
              then (let psid = (restart \<and> starts_with (sl ! 1) ''[P]:'');
                        reason = drop (if psid then 4 else 0) (sl ! 1);
                        reason = (if unicode_filter then utf8_printable reason 256 else reason)
                    in Inr \<lparr>ch_restart = restart, ch_psid = psid, ch_reason = reason\<rparr>)
              else Inr \<lparr>ch_restart = restart, ch_psid = False, ch_reason = ''''\<rparr>))"

definition halt_match :: "string \<Rightarrow> bool" where
  "halt_match msg \<longleftrightarrow> (let sl = halt_parse_msg msg in is_halt sl \<or> is_restart sl)"

definition halt_render :: "client_halt \<Rightarrow> string" where
  "halt_render ch =
     (if ch_restart ch then ''RESTART'' else ''HALT'') @ '' psid='' @ (if ch_psid ch then ''1'' else ''0'') @
     '' reason='' @ [CHR 0x27] @ ch_reason ch @ [CHR 0x27]"

text \<open>A message that matches can be read, and only such a message.\<close>

lemma halt_match_ok: "halt_match msg \<longleftrightarrow> ok (client_halt_new msg f)"
  by (simp add: halt_match_def client_halt_new_def Let_def)

lemma halt_pieces:
  "halt_parse_msg msg = (if CHR '','' \<in> set msg then [takeWhile (\<lambda>c. c \<noteq> CHR '','') msg, tl (dropWhile (\<lambda>c. c \<noteq> CHR '','') msg)] else [msg])"
proof (cases "CHR '','' \<in> set msg")
  case True
  then obtain a b where "msg = a @ CHR '','' # b" "CHR '','' \<notin> set a" by (meson split_list_first)
  moreover from this have "takeWhile (\<lambda>c. c \<noteq> CHR '','') (a @ CHR '','' # b) = a" "dropWhile (\<lambda>c. c \<noteq> CHR '','') (a @ CHR '','' # b) = CHR '','' # b"
    by (simp_all add: takeWhile_append dropWhile_append)
  ultimately show ?thesis by (simp add: halt_parse_msg_def split_null_pieces split_pieces_at split_pieces_none)
next
  case False
  then show ?thesis by (simp add: halt_parse_msg_def split_null_pieces split_pieces_none)
qed

end
