(* ===== verification/Push_Options.thy ===== *)
theory Push_Options
  imports Option_Files
begin

text \<open>
  Options a server pushes: \<^verbatim>\<open>options/continuation_fragment.hpp\<close> (the server side, which cuts a long
  PUSH_REPLY into messages), \<^verbatim>\<open>options/continuation.hpp\<close> (the client side, which puts the options
  of the messages together), \<^verbatim>\<open>options/servpush.hpp\<close> and the filter of \<^verbatim>\<open>client/optfilt.hpp\<close>.

  A buffer that is only read from the front and filled at the end is the string of its bytes. The
  buffers of the fragments are allocated with a fixed size and not marked as growing, so that filling
  them beyond it throws \<open>Buffer_full\<close>.
\<close>

section \<open>The client's filter\<close>

definition filt :: "bool \<Rightarrow> conf_option \<Rightarrow> bool" where
  "filt route_nopull opt =
     (if route_nopull \<and> length (o_data opt) \<ge> 1
      then o_data opt ! 0 \<notin>
        {''block-ipv6'', ''client-nat'', ''dhcp-option'', ''dhcp-renew'', ''dhcp-pre-release'', ''dhcp-release'',
         ''ip-win32'', ''route'', ''route-ipv6'', ''route-metric'', ''redirect-gateway'', ''redirect-private'',
         ''register-dns'', ''route-delay'', ''route-method'', ''tap-sleep''}
      else True)"


section \<open>Continuations\<close>

text \<open>The options of the profile that pushed ones are added to: \<open>multi\<close> before, \<open>singleton\<close> after.\<close>

record push_options_base =
  pb_multi :: option_list
  pb_singleton :: option_list

record continuation =
  oc_list :: option_list
  oc_partial :: bool
  oc_complete :: bool
  oc_push_base :: "push_options_base option"

definition continuation_new :: "push_options_base option \<Rightarrow> continuation" where
  "continuation_new push_base =
     (case push_base of
        None \<Rightarrow> \<lparr>oc_list = ol_new, oc_partial = False, oc_complete = False, oc_push_base = None\<rparr>
      | Some pb \<Rightarrow>
          (let (self, multi) = ol_extend (pb_multi pb) None ol_new
           in \<lparr>oc_list = self, oc_partial = False, oc_complete = False, oc_push_base = Some (pb\<lparr>pb_multi := multi\<rparr>)\<rparr>))"

definition is_continuation :: "option_list \<Rightarrow> bool \<times> option_list" where
  "is_continuation opt =
     (let (p, opt) = ol_get_ptr ''push-continuation'' opt
      in (case p of None \<Rightarrow> False | Some x \<Rightarrow> length (o_data x) \<ge> 2 \<and> o_data x ! 1 = ''2'', opt))"

text \<open>\<open>add\<close> returns the list it was given with the options it touched.\<close>

definition continuation_add ::
  "option_list \<Rightarrow> (conf_option \<Rightarrow> bool) option \<Rightarrow> continuation \<Rightarrow> (option_list \<times> continuation) res" where
  "continuation_add other fl oc =
     (if \<not> oc_complete oc
      then (let oc = oc\<lparr>oc_partial := True\<rparr>;
                (self, other) = ol_extend other fl (oc_list oc);
                (cont, other) = is_continuation other
            in if \<not> cont
               then (let (self, base) =
                       (case oc_push_base oc of
                          None \<Rightarrow> (self, None)
                        | Some pb \<Rightarrow>
                            (let (self, single) = ol_extend_nonexistent (pb_singleton pb) (update_map self)
                             in (self, Some (pb\<lparr>pb_singleton := single\<rparr>))))
                     in Inr (other, oc\<lparr>oc_list := update_map self, oc_complete := True, oc_push_base := base\<rparr>))
               else Inr (other, oc\<lparr>oc_list := self\<rparr>))
      else Inl (Std_exception ''olc_complete''))"


section \<open>Fragments\<close>

abbreviation (input) FRAGMENT_SIZE :: nat where "FRAGMENT_SIZE \<equiv> 1023"

definition should_fragment :: "string \<Rightarrow> bool" where
  "should_fragment buf \<longleftrightarrow> length buf > FRAGMENT_SIZE"

definition frag_append :: "string \<Rightarrow> string \<Rightarrow> string res" where
  "frag_append str buf =
     (if length buf + length str > FRAGMENT_SIZE + 1 then Inl (Buffer_exn Buffer_full) else Inr (buf @ str))"

text \<open>\<open>Lex::next\<close>: the next option, still escaped, and what is left in the buffer.\<close>

fun frag_lex_loop :: "std_lex \<Rightarrow> string \<Rightarrow> string \<Rightarrow> string \<times> string" where
  "frag_lex_loop lx ret [] = (ret, [])"
| "frag_lex_loop lx ret (c # cs) =
     (let lx = std_put c lx
      in if sx_ch lx = of_char (CHR '','') \<and> \<not> (sx_in_quote lx \<or> sx_in_backslash lx) then (ret, cs)
         else frag_lex_loop lx (ret @ [c]) cs)"

definition frag_lex_next :: "string \<Rightarrow> string \<times> string" where
  "frag_lex_next buf = frag_lex_loop (lx_new StandardLex) [] buf"

lemma frag_lex_loop_less: "(x, y) = frag_lex_loop lx ret s \<Longrightarrow> length y \<le> length s"
  by (induction lx ret s rule: frag_lex_loop.induct) (auto simp: Let_def split: if_splits)

lemma frag_lex_next_less: "(x, y) = frag_lex_next s \<Longrightarrow> s \<noteq> [] \<Longrightarrow> length y < length s"
  by (cases s) (auto simp: frag_lex_next_def Let_def less_Suc_eq_le split: if_splits dest: frag_lex_loop_less)

definition append_push_continuation :: "bool \<Rightarrow> string \<Rightarrow> string res" where
  "append_push_continuation last_one buf =
     bindE (frag_append '',push-continuation '' buf) (frag_append (if last_one then ''1'' else ''2''))"

text \<open>The buffers so far, the last of them apart (none before the first option).\<close>

function fragment_loop :: "string \<Rightarrow> string list \<Rightarrow> string option \<Rightarrow> bool \<Rightarrow> (string list \<times> string option \<times> bool) res" where
  "fragment_loop buf done_bufs last_buf did_continuation =
     (if buf \<noteq> []
      then (let (escaped_opt, buf') = frag_lex_next buf;
                back = (case last_buf of None \<Rightarrow> ''PUSH_REPLY'' | Some b \<Rightarrow> b)
            in bindE (if length back + length escaped_opt + 20 + 1 > FRAGMENT_SIZE
                      then bindE (append_push_continuation False back) (\<lambda>b. Inr (done_bufs @ [b], ''PUSH_REPLY'', True))
                      else Inr (done_bufs, back, did_continuation))
                 (\<lambda>(done_bufs, back, did_continuation).
                    bindE (frag_append '','' back) (\<lambda>back.
                      bindE (frag_append escaped_opt back) (\<lambda>back.
                        fragment_loop buf' done_bufs (Some back) did_continuation))))
      else Inr (done_bufs, last_buf, did_continuation))"
  by pat_completeness auto

termination
  by (relation "measure (\<lambda>(buf, _). length buf)") (auto dest: frag_lex_next_less)

declare fragment_loop.simps [simp del]

definition push_fragment :: "string \<Rightarrow> string list res" where
  "push_fragment buf =
     (if \<not> starts_with buf ''PUSH_REPLY,''
      then Inl (Std_exception ''push_continuation_fragment_error: not a valid PUSH_REPLY message'')
      else bindE (fragment_loop (drop 11 buf) [] None False) (\<lambda>(done_bufs, last_buf, did_continuation).
        (case last_buf of
           None \<Rightarrow> Inr done_bufs
         | Some back \<Rightarrow>
             (if did_continuation
              then bindE (append_push_continuation True back) (\<lambda>b. Inr (done_bufs @ [b]))
              else Inr (done_bufs @ [back])))))"

text \<open>\<open>defragment\<close>: a null pointer is \<open>None\<close>. The buffer it fills is as long as all fragments.\<close>

fun defragment_loop :: "string list \<Rightarrow> string \<Rightarrow> string res" where
  "defragment_loop [] ret = Inr ret"
| "defragment_loop (buf # bufs) ret =
     (let pc = (if bufs = [] then '',push-continuation 1'' else '',push-continuation 2'')
      in if starts_with buf ''PUSH_REPLY,'' \<and> ends_with buf pc
         then defragment_loop bufs (ret @ take (length buf - 10 - 20) (drop 10 buf))
         else Inl (Std_exception ''push_continuation_fragment_error: badly formatted fragments''))"

definition defragment :: "string list \<Rightarrow> string option res" where
  "defragment bv =
     (case bv of
        [] \<Rightarrow> Inr None
      | [b] \<Rightarrow> Inr (Some b)
      | _ \<Rightarrow> bindE (defragment_loop bv ''PUSH_REPLY'') (\<lambda>s. Inr (Some s)))"


section \<open>The list of options a server pushes\<close>

fun server_push_loop :: "u32 list \<Rightarrow> option_list \<Rightarrow> string list \<Rightarrow> string list res \<times> option_list" where
  "server_push_loop [] opt self = (Inr self, opt)"
| "server_push_loop (i # il) opt self =
     (let opt = touch_at i opt
      in case opt_get 1 512 (ol_at i opt) of
           Inl e \<Rightarrow> (Inl e, opt)
         | Inr s \<Rightarrow> server_push_loop il opt (self @ [s]))"

definition server_push_parse :: "string \<Rightarrow> option_list \<Rightarrow> string list \<Rightarrow> string list res \<times> option_list" where
  "server_push_parse opt_name opt self =
     (case ol_get_index_ptr opt_name opt of None \<Rightarrow> (Inr self, opt) | Some il \<Rightarrow> server_push_loop il opt self)"

definition output_arg :: "string \<Rightarrow> string" where
  "output_arg e = escape_string e (CHR '','' \<in> set e)"

definition output_csv :: "string list \<Rightarrow> string" where
  "output_csv xs = concat (map (\<lambda>e. CHR '','' # output_arg e) xs)"

definition server_push_to_option_list :: "string list \<Rightarrow> (option_list \<times> limits option) res" where
  "server_push_to_option_list xs = parse_static (parse_from_csv (output_csv xs)) None"


section \<open>What the server cuts up the client puts together\<close>

text \<open>The analyser of the fragmenter stops at the commas between escaped options and at no other.\<close>

abbreviation (input) std_rest :: "std_lex \<Rightarrow> bool" where "std_rest l \<equiv> \<not> sx_in_quote l \<and> \<not> sx_backslash l"
abbreviation (input) std_inq :: "std_lex \<Rightarrow> bool" where "std_inq l \<equiv> sx_in_quote l \<and> \<not> sx_backslash l"

lemma schar_comma: "schar c = 44 \<longleftrightarrow> c = CHR '',''"
proof
  assume "schar c = 44"
  moreover have "(of_char c :: int) < 256" by (metis of_char_mod_256 pos_mod_bound zero_less_numeral)
  ultimately have "(of_char c :: int) = of_char (CHR '','')" by (auto simp: schar_def Let_def split: if_splits)
  then show "c = CHR '',''" by (rule of_char_eqI)
qed (simp add: schar_def)

lemma frag_inside:
  "std_inq l \<Longrightarrow> \<exists>l'. std_inq l' \<and> frag_lex_loop l ret (escape_chars t @ inp) = frag_lex_loop l' (ret @ escape_chars t) inp"
proof (induction t arbitrary: l ret)
  case (Cons c t)
  show ?case
  proof (cases "c = CHR 0x22 \<or> c = CHR 0x5C")
    case True
    from Cons.prems have "std_inq (std_put c (std_put (CHR 0x5C) l))" by (simp add: std_put_def Let_def)
    from Cons.IH [OF this, of "ret @ [CHR 0x5C, c]"] True Cons.prems show ?thesis by (auto simp: std_put_def Let_def)
  next
    case False
    with Cons.prems have "std_inq (std_put c l)" by (simp add: std_put_def Let_def)
    from Cons.IH [OF this, of "ret @ [c]"] False Cons.prems show ?thesis by (auto simp: std_put_def Let_def)
  qed
qed auto

lemma frag_outside:
  "std_rest l \<Longrightarrow> CHR '','' \<notin> set t \<Longrightarrow>
   \<exists>l'. std_rest l' \<and> frag_lex_loop l ret (escape_chars t @ inp) = frag_lex_loop l' (ret @ escape_chars t) inp"
proof (induction t arbitrary: l ret)
  case (Cons c t)
  show ?case
  proof (cases "c = CHR 0x22 \<or> c = CHR 0x5C")
    case True
    from Cons.prems have "std_rest (std_put c (std_put (CHR 0x5C) l))" by (simp add: std_put_def Let_def)
    from Cons.IH [OF this, of "ret @ [CHR 0x5C, c]"] True Cons.prems show ?thesis by (auto simp: std_put_def Let_def)
  next
    case False
    with Cons.prems have "std_rest (std_put c l)" by (simp add: std_put_def Let_def)
    from Cons.IH [OF this, of "ret @ [c]"] False Cons.prems show ?thesis by (auto simp: std_put_def Let_def schar_comma)
  qed
qed auto

lemma frag_escaped:
  assumes "std_rest l" "q \<or> CHR '','' \<notin> set t"
  shows "\<exists>l'. std_rest l' \<and> frag_lex_loop l ret (escape_string t q @ inp) = frag_lex_loop l' (ret @ escape_string t q) inp"
proof (cases q)
  case False
  with frag_outside [OF assms(1), of t ret inp] assms(2) show ?thesis by (simp add: escape_string_def)
next
  case True
  have "std_inq (std_put (CHR 0x22) l)" using assms(1) by (simp add: std_put_def Let_def)
  from frag_inside [OF this, of "ret @ [CHR 0x22]" t "CHR 0x22 # inp"] obtain l1 where
    l1: "std_inq l1" "frag_lex_loop (std_put (CHR 0x22) l) (ret @ [CHR 0x22]) (escape_chars t @ CHR 0x22 # inp) =
      frag_lex_loop l1 (ret @ [CHR 0x22] @ escape_chars t) (CHR 0x22 # inp)" by auto
  with True assms(1) show ?thesis
    by (intro exI [of _ "std_put (CHR 0x22) l1"]) (simp add: escape_string_def std_put_def Let_def)
qed

lemma frag_options:
  "std_rest l \<Longrightarrow> \<exists>l'. std_rest l' \<and> frag_lex_loop l ret (escape_loop True mr ts @ inp) = frag_lex_loop l' (ret @ escape_loop True mr ts) inp"
proof (induction ts arbitrary: l ret mr)
  case (Cons t ts)
  let ?q = "must_quote_string t True"
  have q: "?q \<or> CHR '','' \<notin> set t" by (auto simp: must_quote_string_def list_ex_iff)
  have "\<exists>l1. std_rest l1 \<and> frag_lex_loop l ret (escape_loop True mr (t # ts) @ inp) =
      frag_lex_loop l1 (if mr then ret @ '' '' else ret) (escape_string t ?q @ escape_loop True True ts @ inp)"
    using Cons.prems
    by (intro exI [of _ "if mr then std_put (CHR '' '') l else l"]) (simp add: std_put_def Let_def schar_comma)
  then obtain l1 where l1: "std_rest l1" "frag_lex_loop l ret (escape_loop True mr (t # ts) @ inp) =
      frag_lex_loop l1 (if mr then ret @ '' '' else ret) (escape_string t ?q @ escape_loop True True ts @ inp)" by blast
  from frag_escaped [OF l1(1) q] obtain l2 where l2: "std_rest l2"
    "frag_lex_loop l1 (if mr then ret @ '' '' else ret) (escape_string t ?q @ escape_loop True True ts @ inp) =
     frag_lex_loop l2 ((if mr then ret @ '' '' else ret) @ escape_string t ?q) (escape_loop True True ts @ inp)" by blast
  from Cons.IH [OF l2(1), of "(if mr then ret @ '' '' else ret) @ escape_string t ?q" True] l1(2) l2(2)
  show ?case by auto
qed auto

lemma frag_next_option:
  "frag_lex_next (render_csv_loop True (opt # opts)) = (opt_escape True opt, render_csv_loop True opts)"
proof -
  have "std_rest (lx_new StandardLex)" by (simp add: StandardLex_def)
  from frag_options [OF this, of "[]" False "o_data opt" "render_csv_loop False opts"] obtain l' where
    l': "std_rest l'" "frag_lex_next (render_csv_loop True (opt # opts)) = frag_lex_loop l' (opt_escape True opt) (render_csv_loop False opts)"
    by (auto simp: frag_lex_next_def opt_escape_def)
  then show ?thesis by (cases opts) (auto simp: std_put_def Let_def schar_comma)
qed

text \<open>The text of a message with some options.\<close>

definition csv_tail :: "conf_option list \<Rightarrow> string" where
  "csv_tail opts = concat (map (\<lambda>opt. CHR '','' # opt_escape True opt) opts)"

lemma render_csv_tail: "render_csv_loop False opts = csv_tail opts"
  by (induction opts) (auto simp: csv_tail_def)

lemma csv_tail_snoc: "csv_tail (g @ [opt]) = csv_tail g @ CHR '','' # opt_escape True opt"
  by (simp add: csv_tail_def)

lemma csv_tail_render: "opts \<noteq> [] \<Longrightarrow> csv_tail opts = CHR '','' # render_csv_loop True opts"
  by (cases opts) (auto simp: csv_tail_def render_csv_tail)

definition pc_option :: "string \<Rightarrow> conf_option" where
  "pc_option n = opt_of [''push-continuation'', n]"

lemma pc_escape: "opt_escape True (pc_option ''1'') = ''push-continuation 1''" "opt_escape True (pc_option ''2'') = ''push-continuation 2''"
  by (simp_all add: pc_option_def opt_escape_def escape_string_def must_quote_string_def is_space_def)

definition short_opt :: "conf_option \<Rightarrow> bool" where
  "short_opt opt \<longleftrightarrow> csv_ok opt \<and> \<not> named ''push-continuation'' opt \<and> length (opt_escape True opt) \<le> 992"

definition group_ok :: "conf_option list \<Rightarrow> bool" where
  "group_ok g \<longleftrightarrow> length (csv_tail g) + 30 \<le> FRAGMENT_SIZE"

lemma opt_escape_ne: "csv_ok opt \<Longrightarrow> opt_escape csv opt \<noteq> []"
proof -
  have "t \<noteq> [] \<Longrightarrow> escape_string t q \<noteq> []" for t q by (cases t) (auto simp: escape_string_def)
  then show "csv_ok opt \<Longrightarrow> opt_escape csv opt \<noteq> []" by (cases "o_data opt") (auto simp: csv_ok_def opt_escape_def)
qed

lemma fragment_groups:
  "\<forall>opt\<in>set opts. short_opt opt \<Longrightarrow> group_ok g \<Longrightarrow>
   \<exists>gs gl. fragment_loop (render_csv_loop True opts) dn (Some (''PUSH_REPLY'' @ csv_tail g)) dc =
       Inr (dn @ map (\<lambda>h. ''PUSH_REPLY'' @ csv_tail (h @ [pc_option ''2''])) gs, Some (''PUSH_REPLY'' @ csv_tail gl), dc \<or> gs \<noteq> []) \<and>
     concat gs @ gl = g @ opts \<and> (\<forall>h\<in>set gs. group_ok h) \<and> group_ok gl \<and> (g @ opts \<noteq> [] \<longrightarrow> gl \<noteq> [])"
proof (induction opts arbitrary: g dn dc)
  case Nil
  then show ?case by (intro exI [of _ "[]"] exI [of _ g]) (simp add: fragment_loop.simps)
next
  case (Cons opt opts)
  have ne: "render_csv_loop True (opt # opts) \<noteq> []"
    using Cons.prems(1) opt_escape_ne by (simp add: short_opt_def)
  have opt: "short_opt opt" "\<forall>opt\<in>set opts. short_opt opt" using Cons.prems(1) by auto
  let ?e = "opt_escape True opt"
  let ?b = "''PUSH_REPLY'' @ csv_tail g"
  have step: "fragment_loop (render_csv_loop True (opt # opts)) dn (Some ?b) dc =
      bindE (if length ?b + length ?e + 20 + 1 > FRAGMENT_SIZE
             then bindE (append_push_continuation False ?b) (\<lambda>b. Inr (dn @ [b], ''PUSH_REPLY'', True))
             else Inr (dn, ?b, dc))
        (\<lambda>(dn, back, dc). bindE (frag_append '','' back) (\<lambda>back. bindE (frag_append ?e back) (\<lambda>back.
           fragment_loop (render_csv_loop True opts) dn (Some back) dc)))"
    using ne by (subst fragment_loop.simps) (simp add: frag_next_option del: render_csv_loop.simps)
  show ?case
  proof (cases "length ?b + length ?e + 20 + 1 > FRAGMENT_SIZE")
    case False
    then have "group_ok (g @ [opt])" by (simp add: group_ok_def csv_tail_snoc)
    from Cons.IH [OF opt(2) this, of dn dc] False show ?thesis
      unfolding step by (simp add: frag_append_def csv_tail_snoc)
  next
    case True
    have g: "group_ok [opt]" using opt(1) by (simp add: group_ok_def csv_tail_def short_opt_def)
    have pc: "append_push_continuation False ?b = Inr (''PUSH_REPLY'' @ csv_tail (g @ [pc_option ''2'']))"
      using Cons.prems(2) by (simp add: append_push_continuation_def frag_append_def group_ok_def csv_tail_snoc pc_escape)
    have "length ?e \<le> 992" using opt(1) by (simp add: short_opt_def)
    with True pc have eq: "fragment_loop (render_csv_loop True (opt # opts)) dn (Some ?b) dc =
        fragment_loop (render_csv_loop True opts) (dn @ [''PUSH_REPLY'' @ csv_tail (g @ [pc_option ''2''])])
          (Some (''PUSH_REPLY'' @ csv_tail [opt])) True"
      unfolding step by (simp add: frag_append_def csv_tail_def)
    from Cons.IH [OF opt(2) g, of "dn @ [''PUSH_REPLY'' @ csv_tail (g @ [pc_option ''2''])]" True] obtain gs gl where
      gs: "fragment_loop (render_csv_loop True (opt # opts)) dn (Some ?b) dc =
         Inr ((dn @ [''PUSH_REPLY'' @ csv_tail (g @ [pc_option ''2''])]) @ map (\<lambda>h. ''PUSH_REPLY'' @ csv_tail (h @ [pc_option ''2''])) gs,
           Some (''PUSH_REPLY'' @ csv_tail gl), True)"
      "concat gs @ gl = [opt] @ opts" "\<forall>h\<in>set gs. group_ok h" "group_ok gl" "gl \<noteq> []"
      unfolding eq by auto
    with Cons.prems(2) show ?thesis by (intro exI [of _ "g # gs"] exI [of _ gl]) simp
  qed
qed

lemma fragment_start:
  "buf \<noteq> [] \<Longrightarrow> fragment_loop buf dn None dc = fragment_loop buf dn (Some ''PUSH_REPLY'') dc"
  by (subst (1 2) fragment_loop.simps) simp

text \<open>The buffers of a message: all but the last announce that more follow.\<close>

definition fragments_of :: "conf_option list list \<Rightarrow> conf_option list \<Rightarrow> string list" where
  "fragments_of gs gl =
     map (\<lambda>h. ''PUSH_REPLY'' @ csv_tail (h @ [pc_option ''2''])) gs @
     [''PUSH_REPLY'' @ csv_tail (gl @ (if gs = [] then [] else [pc_option ''1'']))]"

lemma push_fragment_groups:
  assumes "\<forall>opt\<in>set opts. short_opt opt" "opts \<noteq> []"
  shows "\<exists>gs gl. push_fragment (''PUSH_REPLY,'' @ render_csv_loop True opts) = Inr (fragments_of gs gl) \<and>
    concat gs @ gl = opts \<and> (\<forall>h\<in>set gs. group_ok h) \<and> group_ok gl \<and> gl \<noteq> []"
proof -
  have ne: "render_csv_loop True opts \<noteq> []"
    using assms opt_escape_ne by (cases opts) (auto simp: short_opt_def)
  have "group_ok []" by (simp add: group_ok_def csv_tail_def)
  from fragment_groups [OF assms(1) this, of "[]" False] obtain gs gl where
    gs: "fragment_loop (render_csv_loop True opts) [] (Some ''PUSH_REPLY'') False =
       Inr (map (\<lambda>h. ''PUSH_REPLY'' @ csv_tail (h @ [pc_option ''2''])) gs, Some (''PUSH_REPLY'' @ csv_tail gl), gs \<noteq> [])"
    "concat gs @ gl = opts" "\<forall>h\<in>set gs. group_ok h" "group_ok gl" "gl \<noteq> []"
    using assms(2) by (auto simp: csv_tail_def)
  have "append_push_continuation True (''PUSH_REPLY'' @ csv_tail gl) = Inr (''PUSH_REPLY'' @ csv_tail (gl @ [pc_option ''1'']))"
    using gs(4) by (simp add: append_push_continuation_def frag_append_def group_ok_def csv_tail_snoc pc_escape)
  with gs ne show ?thesis
    by (intro exI [of _ gs] exI [of _ gl])
      (simp add: push_fragment_def starts_with_def fragment_start fragments_of_def del: render_csv_loop.simps)
qed

text \<open>The client's side: every message is parsed and added (\<open>control_recv\<close> of \<^verbatim>\<open>client/cliproto.hpp\<close>).\<close>

fun receive_push :: "string list \<Rightarrow> continuation \<Rightarrow> continuation res" where
  "receive_push [] oc = Inr oc"
| "receive_push (msg # msgs) oc =
     bindE (parse_static (parse_from_csv (drop 11 msg)) None) (\<lambda>(other, _).
       bindE (continuation_add other None oc) (\<lambda>(_, oc). receive_push msgs oc))"

lemma extend_all:
  "extend_loop (\<lambda>_. True) opts self = (self\<lparr>ol_opts := ol_opts self @ opts\<rparr>, map opt_touch opts)"
  by (induction opts arbitrary: self) (auto simp: ol_push_back_def)

lemma indexes_data: "map o_data xs = map o_data ys \<Longrightarrow> indexes name xs = indexes name ys"
proof -
  assume a: "map o_data xs = map o_data ys"
  then have "length xs = length ys" by (rule map_eq_imp_length_eq)
  moreover have "i < length xs \<Longrightarrow> o_data (xs ! i) = o_data (ys ! i)" for i
    using a calculation by (metis nth_map)
  ultimately show ?thesis unfolding indexes_def by (auto intro!: filter_cong simp: name_at_def)
qed

lemma is_continuation_last:
  assumes "map_exact ol" "length (ol_opts ol) < 2 ^ 32"
  shows "fst (is_continuation ol) =
    (case find (named ''push-continuation'') (rev (ol_opts ol)) of
       None \<Rightarrow> False | Some x \<Rightarrow> length (o_data x) \<ge> 2 \<and> o_data x ! 1 = ''2'')"
  using get_ptr_find [OF assms, of "''push-continuation''"]
  by (auto simp: is_continuation_def opt_touch_def split: prod.split option.split)

lemma parse_message:
  assumes "\<forall>opt\<in>set opts. csv_ok opt" "length opts < 2 ^ 32" "opts \<noteq> []"
  shows "\<exists>other. parse_static (parse_from_csv (drop 11 (''PUSH_REPLY'' @ csv_tail opts))) None = Inr (other, None) \<and>
    ol_opts other = map (\<lambda>opt. opt_of (o_data opt)) opts \<and> map_exact other"
proof -
  let ?ol = "\<lparr>ol_opts = opts, ol_map = (\<lambda>_. None)\<rparr>"
  have "drop 11 (''PUSH_REPLY'' @ csv_tail opts) = render_csv ?ol"
    using assms(3) by (simp add: csv_tail_render render_csv_def)
  moreover have "parse_from_csv (render_csv ?ol) ol_new None = Inr (ol_new\<lparr>ol_opts := map (\<lambda>opt. opt_of (o_data opt)) opts\<rparr>, None)"
    using csv_read_back [of ?ol] assms(1,2) by simp
  ultimately show ?thesis
    using update_map_exact by (simp add: parse_static_def) (simp add: update_map_def)
qed

lemma add_message:
  assumes "\<forall>opt\<in>set opts. csv_ok opt" "length opts < 2 ^ 32" "opts \<noteq> []"
    "\<not> oc_complete oc" "oc_push_base oc = None"
  defines "goes_on \<equiv> (case find (named ''push-continuation'') (rev opts) of
       None \<Rightarrow> False | Some x \<Rightarrow> length (o_data x) \<ge> 2 \<and> o_data x ! 1 = ''2'')"
  shows "\<exists>oc'. receive_push ((''PUSH_REPLY'' @ csv_tail opts) # msgs) oc = receive_push msgs oc' \<and>
    map o_data (ol_opts (oc_list oc')) = map o_data (ol_opts (oc_list oc)) @ map o_data opts \<and>
    oc_complete oc' = (\<not> goes_on) \<and> oc_push_base oc' = None"
proof -
  from parse_message [OF assms(1-3)] obtain other where
    p: "parse_static (parse_from_csv (drop 11 (''PUSH_REPLY'' @ csv_tail opts))) None = Inr (other, None)"
    "ol_opts other = map (\<lambda>opt. opt_of (o_data opt)) opts" "map_exact other" by blast
  let ?other = "other\<lparr>ol_opts := map opt_touch (ol_opts other)\<rparr>"
  let ?self = "(oc_list oc)\<lparr>ol_opts := ol_opts (oc_list oc) @ ol_opts other\<rparr>"
  have e: "ol_extend other None (oc_list oc) = (?self, ?other)" by (simp add: ol_extend_def extend_all)
  have d: "map o_data (ol_opts ?other) = map o_data opts" using p(2) by (simp add: opt_touch_def)
  have x: "map_exact ?other"
    using p(3) indexes_data [of "ol_opts ?other" "ol_opts other"] by (simp add: map_exact_def opt_touch_def)
  have len: "length (ol_opts ?other) < 2 ^ 32" using p(2) assms(2) by simp
  have f: "find (named n) (map g xs) = map_option g (find (named n) xs)" if "\<And>y. o_data (g y) = o_data y" for g n xs
    using that by (induction xs) (auto simp: named_def)
  have m: "fst (is_continuation ?other) = goes_on"
    unfolding is_continuation_last [OF x len] goes_on_def
    using p(2) by (simp add: rev_map f opt_touch_def split: option.split)
  have dd: "map o_data (ol_opts other) = map o_data opts" using p(2) by simp
  obtain other2 where i: "is_continuation ?other = (goes_on, other2)" using m by (cases "is_continuation ?other") auto
  let ?oc = "if goes_on then oc\<lparr>oc_partial := True, oc_list := ?self\<rparr>
    else oc\<lparr>oc_partial := True, oc_list := update_map ?self, oc_complete := True, oc_push_base := None\<rparr>"
  have "continuation_add other None oc = Inr (other2, ?oc)"
    using assms(4,5) e i by (cases goes_on) (simp_all add: continuation_add_def)
  with p(1) dd assms(4,5) show ?thesis by (intro exI [of _ ?oc]) (simp add: update_map_def)
qed

lemma receive_groups:
  assumes "\<forall>h\<in>set gs. \<forall>opt\<in>set h. short_opt opt" "\<forall>opt\<in>set gl. short_opt opt" "gl \<noteq> []"
    "\<forall>h\<in>set gs. length h + 1 < 2 ^ 32" "length gl + 1 < 2 ^ 32" "\<not> oc_complete oc" "oc_push_base oc = None"
    "pcs = [] \<or> pcs = [pc_option ''1'']"
  shows "\<exists>oc'. receive_push (map (\<lambda>h. ''PUSH_REPLY'' @ csv_tail (h @ [pc_option ''2''])) gs @ [''PUSH_REPLY'' @ csv_tail (gl @ pcs)]) oc = Inr oc' \<and>
    oc_complete oc' \<and>
    filter (\<lambda>d. d ! 0 \<noteq> ''push-continuation'') (map o_data (ol_opts (oc_list oc'))) =
    filter (\<lambda>d. d ! 0 \<noteq> ''push-continuation'') (map o_data (ol_opts (oc_list oc))) @ map o_data (concat gs @ gl)"
  using assms(1,4,6,7)
proof (induction gs arbitrary: oc)
  case Nil
  have short: "csv_ok opt \<and> \<not> named ''push-continuation'' opt" if "opt \<in> set gl" for opt
    using assms(2) that by (simp add: short_opt_def)
  have ok: "\<forall>opt\<in>set (gl @ pcs). csv_ok opt" using short assms(8) by (auto simp: pc_option_def csv_ok_def)
  have n: "find (named ''push-continuation'') (rev gl) = None" using short by (auto simp: find_None_iff)
  have keep: "filter (\<lambda>d. d ! 0 \<noteq> ''push-continuation'') (map o_data gl) = map o_data gl"
    using short by (intro filter_True) (auto simp: named_def csv_ok_def)
  have len: "length (gl @ pcs) < 2 ^ 32" "gl @ pcs \<noteq> []" using assms(3,5,8) by auto
  from add_message [OF ok len Nil.prems(3,4), of "[]"] n keep assms(8) show ?case
    by (auto simp: pc_option_def named_def)
next
  case (Cons h gs)
  have short: "csv_ok opt \<and> \<not> named ''push-continuation'' opt" if "opt \<in> set h" for opt
    using Cons.prems(1) that by (simp add: short_opt_def)
  have ok: "\<forall>opt\<in>set (h @ [pc_option ''2'']). csv_ok opt" using short by (auto simp: pc_option_def csv_ok_def)
  have keep: "filter (\<lambda>d. d ! 0 \<noteq> ''push-continuation'') (map o_data h) = map o_data h"
    using short by (intro filter_True) (auto simp: named_def csv_ok_def)
  have len: "length (h @ [pc_option ''2'']) < 2 ^ 32" "h @ [pc_option ''2''] \<noteq> []" using Cons.prems(2) by auto
  have goes_on: "(case find (named ''push-continuation'') (rev (h @ [pc_option ''2''])) of
       None \<Rightarrow> False | Some x \<Rightarrow> length (o_data x) \<ge> 2 \<and> o_data x ! 1 = ''2'')"
    by (simp add: pc_option_def named_def)
  let ?rest = "map (\<lambda>h. ''PUSH_REPLY'' @ csv_tail (h @ [pc_option ''2''])) gs @ [''PUSH_REPLY'' @ csv_tail (gl @ pcs)]"
  from add_message [OF ok len Cons.prems(3,4), of ?rest] goes_on obtain oc1 where
    oc1: "receive_push ((''PUSH_REPLY'' @ csv_tail (h @ [pc_option ''2''])) # ?rest) oc = receive_push ?rest oc1"
    "map o_data (ol_opts (oc_list oc1)) = map o_data (ol_opts (oc_list oc)) @ map o_data (h @ [pc_option ''2''])"
    "\<not> oc_complete oc1" "oc_push_base oc1 = None" by auto
  from Cons.IH [OF _ _ oc1(3,4)] Cons.prems(1,2) oc1 keep show ?case by (auto simp: pc_option_def)
qed

lemma csv_tail_length: "length opts \<le> length (csv_tail opts)"
  by (induction opts) (auto simp: csv_tail_def)

lemma csv_tail_append: "csv_tail (a @ b) = csv_tail a @ csv_tail b"
  by (simp add: csv_tail_def)

lemma ends_with_append: "ends_with (a @ b) b"
  by (simp add: ends_with_def)

lemma starts_with_append: "starts_with (a @ b) a"
  by (simp add: starts_with_def)

lemma middle_part: "length a = 10 \<Longrightarrow> length q = 20 \<Longrightarrow> take (length (a @ b @ q) - 10 - 20) (drop 10 (a @ b @ q)) = b"
  by simp

lemma defragment_step:
  assumes "p = (if bufs = [] then ''1'' else ''2'')"
  shows "defragment_loop ((''PUSH_REPLY'' @ csv_tail (g @ [pc_option p])) # bufs) ret = defragment_loop bufs (ret @ csv_tail g)"
proof -
  let ?q = "'',push-continuation '' @ p"
  define m where "m = ''PUSH_REPLY'' @ csv_tail (g @ [pc_option p])"
  have t: "m = ''PUSH_REPLY'' @ csv_tail g @ ?q"
    using assms by (auto simp: m_def csv_tail_snoc pc_escape)
  have "ends_with m ?q" using ends_with_append [of "''PUSH_REPLY'' @ csv_tail g" ?q] by (simp only: t append_assoc)
  moreover have "starts_with m ''PUSH_REPLY,''"
    by (simp add: m_def csv_tail_render starts_with_def)
  moreover have "take (length m - 10 - 20) (drop 10 m) = csv_tail g"
    unfolding t by (rule middle_part) (simp_all add: assms)
  moreover have "?q = (if bufs = [] then '',push-continuation 1'' else '',push-continuation 2'')" using assms by simp
  ultimately have "defragment_loop (m # bufs) ret = defragment_loop bufs (ret @ csv_tail g)"
    by (simp only: defragment_loop.simps Let_def simp_thms if_True)
  then show ?thesis by (simp only: m_def)
qed

lemma defragment_groups:
  assumes "gl \<noteq> []"
  shows "defragment (fragments_of gs gl) = Inr (Some (''PUSH_REPLY'' @ csv_tail (concat gs @ gl)))"
proof (cases gs)
  case Nil
  then show ?thesis by (simp add: fragments_of_def defragment_def)
next
  case (Cons h hs)
  define m where "m = (\<lambda>g p. ''PUSH_REPLY'' @ csv_tail (g @ [pc_option p]))"
  have step: "defragment_loop (m g p # bufs) ret = defragment_loop bufs (ret @ csv_tail g)"
    if "p = (if bufs = [] then ''1'' else ''2'')" for g p bufs ret
    unfolding m_def using that by (rule defragment_step)
  have d: "defragment_loop (map (\<lambda>h. m h ''2'') ks @ [m gl ''1'']) ret = Inr (ret @ csv_tail (concat ks @ gl))" for ks ret
    by (induction ks arbitrary: ret) (simp_all add: step csv_tail_append del: defragment_loop.simps(2))
  have f: "fragments_of gs gl = map (\<lambda>h. m h ''2'') gs @ [m gl ''1'']" using Cons by (simp add: fragments_of_def m_def)
  have e: "defragment bv = bindE (defragment_loop bv ''PUSH_REPLY'') (\<lambda>s. Inr (Some s))" if "length bv \<ge> 2" for bv
    using that by (cases bv rule: remdups_adj.cases) (simp_all add: defragment_def)
  show ?thesis
    unfolding f using e [of "map (\<lambda>h. m h ''2'') gs @ [m gl ''1'']"] d [of gs "''PUSH_REPLY''"] Cons by (simp only: length_append length_map) simp
qed

text \<open>C6. A PUSH_REPLY whose options each fit is cut into messages of at most \<open>FRAGMENT_SIZE\<close> bytes;
  the client that gets them has a complete list only after the last, and it holds exactly the pushed
  options in order (apart from the \<open>push-continuation\<close> directives); \<open>defragment\<close> gives the reply back.\<close>

theorem push_reply_reassembled:
  assumes "\<forall>opt\<in>set (ol_opts ol). short_opt opt" "ol_opts ol \<noteq> []"
  shows "\<exists>bufs oc. push_fragment (''PUSH_REPLY,'' @ render_csv ol) = Inr bufs \<and>
    (\<forall>b\<in>set bufs. length b \<le> FRAGMENT_SIZE) \<and>
    receive_push bufs (continuation_new None) = Inr oc \<and> oc_complete oc \<and>
    filter (\<lambda>d. d ! 0 \<noteq> ''push-continuation'') (map o_data (ol_opts (oc_list oc))) = map o_data (ol_opts ol) \<and>
    defragment bufs = Inr (Some (''PUSH_REPLY,'' @ render_csv ol))"
proof -
  from push_fragment_groups [OF assms] obtain gs gl where
    p: "push_fragment (''PUSH_REPLY,'' @ render_csv ol) = Inr (fragments_of gs gl)" "concat gs @ gl = ol_opts ol"
      "\<forall>h\<in>set gs. group_ok h" "group_ok gl" "gl \<noteq> []"
    by (auto simp: render_csv_def)
  have "length b \<le> FRAGMENT_SIZE" if "b \<in> set (fragments_of gs gl)" for b
    using that p(3,4) by (auto simp: fragments_of_def csv_tail_snoc pc_escape group_ok_def)
  moreover have short: "\<forall>h\<in>set gs. \<forall>opt\<in>set h. short_opt opt" "\<forall>opt\<in>set gl. short_opt opt"
    using assms(1) p(2) [symmetric] by auto
  moreover have few: "group_ok h \<Longrightarrow> length h + 1 < 2 ^ 32" for h
    using csv_tail_length [of h] by (simp add: group_ok_def)
  then have "\<forall>h\<in>set gs. length h + 1 < 2 ^ 32" "length gl + 1 < 2 ^ 32" using p(3,4) by auto
  moreover have "\<not> oc_complete (continuation_new None)" "oc_push_base (continuation_new None) = None"
    "map o_data (ol_opts (oc_list (continuation_new None))) = []"
    by (simp_all add: continuation_new_def ol_new_def)
  moreover have "(if gs = [] then [] else [pc_option ''1'']) = [] \<or> (if gs = [] then [] else [pc_option ''1'']) = [pc_option ''1'']"
    by simp
  ultimately obtain oc where "receive_push (fragments_of gs gl) (continuation_new None) = Inr oc" "oc_complete oc"
    "filter (\<lambda>d. d ! 0 \<noteq> ''push-continuation'') (map o_data (ol_opts (oc_list oc))) = map o_data (concat gs @ gl)"
    using receive_groups [OF short p(5), of "continuation_new None" "if gs = [] then [] else [pc_option ''1'']"]
    unfolding fragments_of_def by auto
  moreover have "''PUSH_REPLY'' @ csv_tail (concat gs @ gl) = ''PUSH_REPLY,'' @ render_csv ol"
    using assms(2) p(2) by (simp add: csv_tail_render render_csv_def)
  ultimately show ?thesis
    using p(1,2) defragment_groups [OF p(5), of gs] \<open>\<And>b. b \<in> set (fragments_of gs gl) \<Longrightarrow> length b \<le> FRAGMENT_SIZE\<close>
    by auto
qed

theorem push_reply_reassembled_witness:
  "\<exists>bufs oc. push_fragment ''PUSH_REPLY,route 10.0.0.0,ping 8'' = Inr bufs \<and> receive_push bufs (continuation_new None) = Inr oc \<and>
    filter (\<lambda>d. d ! 0 \<noteq> ''push-continuation'') (map o_data (ol_opts (oc_list oc))) = [[''route'', ''10.0.0.0''], [''ping'', ''8'']]"
  using push_reply_reassembled [of "\<lparr>ol_opts = [opt_of [''route'', ''10.0.0.0''], opt_of [''ping'', ''8'']], ol_map = (\<lambda>_. None)\<rparr>"]
  by (auto simp: short_opt_def csv_ok_def named_def opt_escape_def escape_string_def must_quote_string_def is_space_def render_csv_def)

text \<open>An option of a server's push list that has a comma is quoted as a whole and comes back as one term.\<close>

lemma server_push_comma:
  "by_space StandardLex [] (output_arg ''echo a,b'') None = Inr ([''echo a,b''], None)"
  "by_space StandardLex [] (output_arg ''echo a'') None = Inr ([''echo'', ''a''], None)"
  by (simp_all add: output_arg_def escape_string_def is_space_def by_space_def StandardLex_def std_put_def
      lx_available_def schar_minus1 if_lim_def)

end
