(* ===== verification/Client_Session.thy ===== *)
theory Client_Session
  imports Client_Event Push_Options Key_Exchange Compression
begin

text \<open>
  \<^verbatim>\<open>client/cliproto.hpp\<close>: the client's session, on top of the protocol context and below the connection logic
  (\<open>Client_Connect\<close>).

  The state is the fields of \<open>Session\<close>; \<open>cs_parent\<close> is the state of the object behind \<open>NotifyCallback*\<close>, whose
  methods are the functions of \<open>notify\<close>. The event queue \<open>cli_events\<close> is shared with it. The session calls four
  objects: the protocol context it derives from, the transport, the tun interface and the timers. What it tells
  them is kept in \<open>cs_calls\<close>, in order. What they answer is the environment \<open>env\<close> of a step: which
  callbacks a call makes while it runs, what it throws and what it returns. An \<open>async_wait\<close> adds to
  \<open>cs_waits\<close>; the handler runs later with or without an error.

  A method returns the exception that leaves it, if any, with the state. Of the exception classes only
  \<open>ExceptionCode\<close> is told apart, as the handlers do. The limits of the pushed options are those before the
  message when its parsing throws.
\<close>

section \<open>Coarse times and durations\<close>

record coarse_time =
  ct_time :: vtime
  ct_pre :: duration
  ct_post :: duration

definition coarse_init :: "duration \<Rightarrow> duration \<Rightarrow> coarse_time \<Rightarrow> coarse_time" where
  "coarse_init pre post c = c\<lparr>ct_pre := pre, ct_post := post\<rparr>"

definition coarse_reset :: "vtime \<Rightarrow> coarse_time \<Rightarrow> coarse_time" where
  "coarse_reset t c = c\<lparr>ct_time := t\<rparr>"

definition coarse_similar :: "vtime \<Rightarrow> coarse_time \<Rightarrow> bool" where
  "coarse_similar t c =
     (if time_defined (ct_time c)
      then (if t \<ge> ct_time c then time_sub t (ct_time c) \<le> ct_post c else time_sub (ct_time c) t \<le> ct_pre c)
      else False)"

definition set_duration_parm :: "string \<Rightarrow> string \<Rightarrow> u32 \<Rightarrow> bool \<Rightarrow> bool \<Rightarrow> duration res" where
  "set_duration_parm name valstr min_value x2 ms =
     (let maxdur = (if ms then 86400000 else 604800 :: u32)
      in case parse_number False valstr of
           None \<Rightarrow> Inl (Option_error (name @ '': error parsing number of '' @ (if ms then ''milliseconds'' else ''seconds'')))
         | Some value \<Rightarrow>
             (let value = (if x2 then value * 2 else value);
                  value = (if value = 0 \<or> value > maxdur then maxdur else value);
                  value = (if value < min_value then min_value else value)
              in Inr (if ms then dur_milliseconds (ucast value) else dur_seconds (ucast value))))"

text \<open>The option that gave the duration with the duration, and the list with the options touched.\<close>

definition load_duration_parm ::
  "string \<Rightarrow> option_list \<Rightarrow> u32 \<Rightarrow> bool \<Rightarrow> bool \<Rightarrow> (conf_option \<times> duration) option res \<times> option_list" where
  "load_duration_parm name opt min_value x2 allow_ms =
     (let (ms, opt) = (if allow_ms then ol_get_ptr (name @ ''-ms'') opt else (None, opt))
      in case ms of
           Some x \<Rightarrow>
             (bindE (opt_get 1 16 x) (\<lambda>v. bindE (set_duration_parm name v min_value x2 True) (\<lambda>d. Inr (Some (x, d)))), opt)
         | None \<Rightarrow>
             (let (p, opt) = ol_get_ptr name opt
              in case p of
                   None \<Rightarrow> (Inr None, opt)
                 | Some x \<Rightarrow>
                     (bindE (opt_get 1 16 x) (\<lambda>v.
                        bindE (set_duration_parm name v (if allow_ms then 1 else min_value) x2 False) (\<lambda>d. Inr (Some (x, d)))), opt)))"


section \<open>State and environment\<close>

datatype cl_exn = Ex_code error_type bool string | Ex_lib exn | Ex_client cl_exn

fun exn_code_defined :: "cl_exn \<Rightarrow> bool" where
  "exn_code_defined (Ex_code code fatal err) = (code \<noteq> 0 \<or> fatal)"
| "exn_code_defined _ = False"

datatype wait = Wait_push duration | Wait_housekeeping vtime | Wait_inactive duration | Wait_info duration

datatype base_op =
    Op_set_protocol | Op_start | Op_flush bool | Op_control_net_recv | Op_data_decrypt | Op_data_encrypt | Op_housekeeping
  | Op_write_control_string string | Op_process_push option_list | Op_tun_start option_list | Op_init_data_channel
  | Op_explicit_exit_notify

datatype call =
    Call_base base_op | Call_update_last_sent | Call_stats_error error_type
  | Call_transport_start | Call_transport_stop | Call_transport_send "byte list" | Call_reset_align_adjust
  | Call_tun_set_disconnect | Call_tun_stop | Call_tun_send "byte list" | Call_cancel_timers
  | Call_terminate | Call_connected | Call_auth_pending_timeout int

datatype base_callback = Cb_control_recv "byte list" | Cb_control_net_send "byte list" | Cb_active

datatype tun_callback = Cb_tun_pre_tun_config | Cb_tun_pre_route_config | Cb_tun_connected | Cb_tun_error error_type string

datatype packet_class = Pk_data | Pk_control | Pk_other

text \<open>\<open>transport_send\<close> says whether the packet was sent, or reports an error before it returns false.\<close>

datatype send_outcome = Sent | Not_sent | Send_error error_type string

record env =
  e_now :: vtime
  e_base_callbacks :: "base_op \<Rightarrow> base_callback list"
  e_tun_callbacks :: "tun_callback list"
  e_throws :: "base_op \<Rightarrow> cl_exn option"
  e_packet_type :: "byte list \<Rightarrow> packet_class"
  e_data_decrypt :: "byte list \<Rightarrow> byte list"
  e_data_encrypt :: "byte list \<Rightarrow> byte list"
  e_next_housekeeping :: vtime
  e_invalidated :: bool
  e_has_send_queue :: bool
  e_queue_size :: nat
  e_transport_send :: "byte list \<Rightarrow> send_outcome"
  e_tun_bytes :: u64
  e_mss_inter :: nat
  e_icmp_ptb :: "byte list \<Rightarrow> byte list"
  e_tls_warnings :: u32
  e_bs64_cipher :: bool
  e_comp_type :: comp_type
  e_comp_asym :: bool
  e_renegotiate :: duration
  e_connection_info :: connected
  e_validate_ip :: "string \<Rightarrow> string res"

record 'n session =
  cs_halt :: bool
  cs_transport :: bool
  cs_tun :: bool
  cs_transport_has_send_queue :: bool
  cs_housekeeping_schedule :: coarse_time
  cs_received_options :: continuation
  cs_creds :: "creds option"
  cs_first_packet_received :: bool
  cs_sent_push_request :: bool
  cs_auth_pending :: bool
  cs_connected :: "connected option"
  cs_fatal :: error_type
  cs_fatal_reason :: string
  cs_pushed_options_limit :: limits
  cs_inactive_duration :: duration
  cs_inactive_bytes :: u32
  cs_inactive_last_sample :: u64
  cs_info_hold :: "client_event list option"
  cs_events :: "client_event list"
  cs_waits :: "wait list"
  cs_calls :: "call list"
  cs_parent :: 'n

type_synonym 'n step = "cl_exn option \<times> 'n session"

record 'n notify =
  nf_terminate :: "'n session \<Rightarrow> 'n step"
  nf_connected :: "'n session \<Rightarrow> 'n session"
  nf_auth_pending_timeout :: "int \<Rightarrow> 'n session \<Rightarrow> 'n session"

record 'n session_config =
  sc_notify :: "'n notify option"
  sc_transport_is_relay :: bool
  sc_tcp_queue_limit :: u32
  sc_echo :: bool
  sc_info :: bool
  sc_autologin_sessions :: bool
  sc_relay_mode :: bool
  sc_filter :: "(conf_option \<Rightarrow> bool) option"

abbreviation (input) MAX_PUSH_SIZE :: u64 where "MAX_PUSH_SIZE \<equiv> 262144"

definition session_limits :: limits where
  "session_limits = limits_new ''server-pushed options data too large'' MAX_PUSH_SIZE 64 16 0 64"

definition session_new :: "push_options_base option \<Rightarrow> creds option \<Rightarrow> client_event list \<Rightarrow> call list \<Rightarrow> wait list \<Rightarrow> 'n \<Rightarrow> 'n session" where
  "session_new push_base creds evs calls waits parent =
     \<lparr>cs_halt = False, cs_transport = False, cs_tun = False, cs_transport_has_send_queue = False,
      cs_housekeeping_schedule = \<lparr>ct_time = time_zero, ct_pre = dur_zero, ct_post = dur_zero\<rparr>,
      cs_received_options = continuation_new push_base, cs_creds = creds, cs_first_packet_received = False,
      cs_sent_push_request = False, cs_auth_pending = False, cs_connected = None, cs_fatal = 0, cs_fatal_reason = '''',
      cs_pushed_options_limit = session_limits, cs_inactive_duration = dur_zero, cs_inactive_bytes = 0,
      cs_inactive_last_sample = 0, cs_info_hold = Some [], cs_events = evs, cs_waits = waits, cs_calls = calls,
      cs_parent = parent\<rparr>"


section \<open>Steps\<close>

definition then_do :: "'n step \<Rightarrow> ('n session \<Rightarrow> 'n step) \<Rightarrow> 'n step" where
  "then_do m f = (case m of (None, s) \<Rightarrow> f s | (Some e, s) \<Rightarrow> (Some e, s))"

definition catch :: "'n step \<Rightarrow> (cl_exn \<Rightarrow> 'n session \<Rightarrow> 'n step) \<Rightarrow> 'n step" where
  "catch m h = (case m of (None, s) \<Rightarrow> (None, s) | (Some e, s) \<Rightarrow> h e s)"

definition say :: "call \<Rightarrow> 'n session \<Rightarrow> 'n session" where
  "say c s = s\<lparr>cs_calls := cs_calls s @ [c]\<rparr>"

definition add_event :: "client_event \<Rightarrow> 'n session \<Rightarrow> 'n session" where
  "add_event ev s = s\<lparr>cs_events := cs_events s @ [ev]\<rparr>"

definition add_wait :: "wait \<Rightarrow> 'n session \<Rightarrow> 'n session" where
  "add_wait w s = s\<lparr>cs_waits := cs_waits s @ [w]\<rparr>"

text \<open>A call whose answer the environment gives: it may throw.\<close>

definition ask :: "base_op \<Rightarrow> env \<Rightarrow> 'n session \<Rightarrow> 'n step" where
  "ask c E s = (e_throws E c, say (Call_base c) s)"

definition throw_lib :: "string \<Rightarrow> 'n session \<Rightarrow> 'n step" where
  "throw_lib what s = (Some (Ex_lib (Std_exception what)), s)"

definition session_send_explicit_exit_notify :: "env \<Rightarrow> 'n session \<Rightarrow> 'n step" where
  "session_send_explicit_exit_notify E s = (if \<not> cs_halt s then ask Op_explicit_exit_notify E s else (None, s))"

definition tun_set_disconnect :: "'n session \<Rightarrow> 'n session" where
  "tun_set_disconnect s = (if cs_tun s then say Call_tun_set_disconnect s else s)"

text \<open>\<open>stop\<close>: the parent is told before the tun interface and the transport are stopped.\<close>

definition session_stop :: "'n session_config \<Rightarrow> bool \<Rightarrow> 'n session \<Rightarrow> 'n step" where
  "session_stop C call_terminate_callback s =
     (if \<not> cs_halt s
      then (let s = say Call_cancel_timers (s\<lparr>cs_halt := True\<rparr>)
            in then_do
                 (case sc_notify C of
                    None \<Rightarrow> (None, s)
                  | Some N \<Rightarrow> if call_terminate_callback then nf_terminate N (say Call_terminate s) else (None, s))
                 (\<lambda>s. let s = (if cs_tun s then say Call_tun_stop s else s);
                          s = (if cs_transport s then say Call_transport_stop s else s)
                      in (None, s)))
      else (None, s))"

text \<open>\<open>if (notify_callback) stop(true); else throw ...\<close>, which ends every fatal condition.\<close>

definition stop_or_throw :: "'n session_config \<Rightarrow> string \<Rightarrow> 'n session \<Rightarrow> 'n step" where
  "stop_or_throw C what s = (if sc_notify C \<noteq> None then session_stop C True s else throw_lib what s)"

definition set_fatal :: "error_type \<Rightarrow> string \<Rightarrow> 'n session \<Rightarrow> 'n session" where
  "set_fatal err reason s = s\<lparr>cs_fatal := err, cs_fatal_reason := reason\<rparr>"

definition transport_error :: "'n session_config \<Rightarrow> error_type \<Rightarrow> string \<Rightarrow> 'n session \<Rightarrow> 'n step" where
  "transport_error C fatal_err err_text s =
     stop_or_throw C (''transport_exception: '' @ err_text) (if fatal_err \<noteq> 0 then set_fatal fatal_err err_text s else s)"

definition proxy_error :: "'n session_config \<Rightarrow> error_type \<Rightarrow> string \<Rightarrow> 'n session \<Rightarrow> 'n step" where
  "proxy_error C fatal_err err_text s =
     stop_or_throw C (''proxy_exception: '' @ err_text) (if fatal_err \<noteq> 0 then set_fatal fatal_err err_text s else s)"

definition tun_error :: "'n session_config \<Rightarrow> env \<Rightarrow> error_type \<Rightarrow> string \<Rightarrow> 'n session \<Rightarrow> 'n step" where
  "tun_error C E fatal_err err_text s =
     then_do (if fatal_err = TUN_HALT then session_send_explicit_exit_notify E s else (None, s))
       (\<lambda>s. stop_or_throw C (''tun_exception: '' @ err_text) (if fatal_err \<noteq> 0 then set_fatal fatal_err err_text s else s))"

definition process_exception :: "'n session_config \<Rightarrow> cl_exn \<Rightarrow> 'n session \<Rightarrow> 'n step" where
  "process_exception C e s =
     (if sc_notify C \<noteq> None then session_stop C True s else (Some (Ex_client e), s))"

definition process_halt_restart :: "'n session_config \<Rightarrow> client_halt \<Rightarrow> 'n session \<Rightarrow> 'n step" where
  "process_halt_restart C ch s =
     (let s = (if \<not> ch_psid ch then s\<lparr>cs_creds := map_option purge_session_id (cs_creds s)\<rparr> else s);
          s = set_fatal (if ch_restart ch then CLIENT_RESTART else CLIENT_HALT) (ch_reason ch) s
      in stop_or_throw C (''client_halt_restart: '' @ halt_render ch) s)"


section \<open>Timers\<close>

definition schedule_push_request_callback :: "duration \<Rightarrow> 'n session \<Rightarrow> 'n session" where
  "schedule_push_request_callback dur s =
     (if \<not> oc_partial (cs_received_options s) then add_wait (Wait_push dur) s else s)"

definition set_housekeeping_timer :: "env \<Rightarrow> 'n session \<Rightarrow> 'n session" where
  "set_housekeeping_timer E s =
     (if cs_halt s then s
      else (let nxt = e_next_housekeeping E
            in if \<not> coarse_similar nxt (cs_housekeeping_schedule s)
               then (if \<not> time_is_infinite nxt
                     then (let nxt = (if e_now E > nxt then e_now E else nxt)
                           in add_wait (Wait_housekeeping nxt)
                                (s\<lparr>cs_housekeeping_schedule := coarse_reset nxt (cs_housekeeping_schedule s)\<rparr>))
                     else s\<lparr>cs_housekeeping_schedule := coarse_reset time_zero (cs_housekeeping_schedule s)\<rparr>)
               else s))"

definition schedule_inactive_timer :: "'n session \<Rightarrow> 'n session" where
  "schedule_inactive_timer s = add_wait (Wait_inactive (cs_inactive_duration s)) s"

definition schedule_info_hold_callback :: "'n session \<Rightarrow> 'n session" where
  "schedule_info_hold_callback s = add_wait (Wait_info (dur_seconds 1)) s"


section \<open>Pushed options\<close>

text \<open>The session ID and the user name in a list of options, given to the credentials.\<close>

definition extract_auth_token :: "option_list \<Rightarrow> creds option \<Rightarrow> creds option res \<times> option_list" where
  "extract_auth_token opt creds =
     (let (p, opt) = ol_get_ptr ''auth-token-user'' opt
      in case (case p of None \<Rightarrow> Inr [] | Some x \<Rightarrow> bindE (opt_get 1 340 x) unb64_string) of
           Inl e \<Rightarrow> (Inl e, opt)
         | Inr username \<Rightarrow>
             (let (p, opt) = ol_get_ptr ''auth-token'' opt
              in case p of
                   None \<Rightarrow> (Inr creds, opt)
                 | Some x \<Rightarrow> (bindE (opt_get 1 256 x) (\<lambda>sess_id. Inr (map_option (set_session_id username sess_id) creds)), opt)))"

definition auth_token_step :: "option_list \<Rightarrow> 'n session \<Rightarrow> option_list \<times> 'n step" where
  "auth_token_step opt s =
     (case extract_auth_token opt (cs_creds s) of
        (Inl e, opt) \<Rightarrow> (opt, Some (Ex_lib e), s)
      | (Inr creds, opt) \<Rightarrow> (opt, None, s\<lparr>cs_creds := creds\<rparr>))"

text \<open>The list of the session itself, with the options that were touched.\<close>

definition put_options :: "option_list \<Rightarrow> 'n session \<Rightarrow> 'n session" where
  "put_options opt s = s\<lparr>cs_received_options := (cs_received_options s)\<lparr>oc_list := opt\<rparr>\<rparr>"

fun echo_loop :: "u32 list \<Rightarrow> option_list \<Rightarrow> 'n session \<Rightarrow> option_list \<times> 'n step" where
  "echo_loop [] opt s = (opt, None, s)"
| "echo_loop (i # is) opt s =
     (let opt = touch_at i opt
      in case opt_get 1 512 (ol_at i opt) of
           Inl e \<Rightarrow> (opt, Some (Ex_lib e), s)
         | Inr value \<Rightarrow> echo_loop is opt (add_event (Reason_event EV_ECHO_OPT value) s))"

definition process_echo :: "option_list \<Rightarrow> 'n session \<Rightarrow> option_list \<times> 'n step" where
  "process_echo opt s = (case ol_map opt ''echo'' of None \<Rightarrow> (opt, None, s) | Some is \<Rightarrow> echo_loop is opt s)"

definition process_inactive :: "option_list \<Rightarrow> 'n session \<Rightarrow> option_list \<times> 'n step" where
  "process_inactive opt s =
     (case load_duration_parm ''inactive'' opt 1 False False of
        (Inl e, opt) \<Rightarrow> (opt, None, s)
      | (Inr None, opt) \<Rightarrow> (opt, None, s)
      | (Inr (Some (x, d)), opt) \<Rightarrow>
          (let s = s\<lparr>cs_inactive_duration := d\<rparr>
           in if length (o_data x) \<ge> 3
              then (case bindE (opt_get 2 16 x) (\<lambda>v. parse_number_throw v ''inactive bytes'') of
                      Inl e \<Rightarrow> (opt, None, s)
                    | Inr n \<Rightarrow> (opt, None, schedule_inactive_timer (s\<lparr>cs_inactive_bytes := n\<rparr>)))
              else (opt, None, schedule_inactive_timer s)))"

text \<open>A method applied to the session's own list of options.\<close>

definition on_options :: "(option_list \<Rightarrow> 'n session \<Rightarrow> option_list \<times> 'n step) \<Rightarrow> 'n session \<Rightarrow> 'n step" where
  "on_options f s = (let (opt, e, s) = f (oc_list (cs_received_options s)) s in (e, put_options opt s))"


section \<open>The tun interface\<close>

definition tun_connected :: "env \<Rightarrow> 'n session \<Rightarrow> 'n session" where
  "tun_connected E s =
     (let (client_ip, opt) = ol_get_optional ''client-ip'' 1 256 (oc_list (cs_received_options s));
          s = put_options opt s;
          ev = (e_connection_info E)\<lparr>ev_user := (case cs_creds s of Some c \<Rightarrow> get_username c | None \<Rightarrow> []), ev_client_ip := []\<rparr>;
          ev = (case bindE client_ip (\<lambda>ip. if ip \<noteq> [] then e_validate_ip E ip else Inr []) of
                  Inl e \<Rightarrow> ev | Inr ip \<Rightarrow> ev\<lparr>ev_client_ip := ip\<rparr>)
      in s\<lparr>cs_connected := Some ev\<rparr>)"

fun tun_parent :: "'n session_config \<Rightarrow> env \<Rightarrow> tun_callback \<Rightarrow> 'n session \<Rightarrow> 'n step" where
  "tun_parent C E Cb_tun_pre_tun_config s = (None, add_event (Plain_event EV_ASSIGN_IP) s)"
| "tun_parent C E Cb_tun_pre_route_config s = (None, add_event (Plain_event EV_ADD_ROUTES) s)"
| "tun_parent C E Cb_tun_connected s = (None, tun_connected E s)"
| "tun_parent C E (Cb_tun_error fatal_err err_text) s = tun_error C E fatal_err err_text s"

fun tun_callbacks :: "'n session_config \<Rightarrow> env \<Rightarrow> tun_callback list \<Rightarrow> 'n session \<Rightarrow> 'n step" where
  "tun_callbacks C E [] s = (None, s)"
| "tun_callbacks C E (cb # cbs) s = then_do (tun_parent C E cb s) (tun_callbacks C E cbs)"

definition tun_start :: "'n session_config \<Rightarrow> env \<Rightarrow> 'n session \<Rightarrow> 'n step" where
  "tun_start C E s =
     (let opt = oc_list (cs_received_options s)
      in then_do (tun_callbacks C E (e_tun_callbacks E) (say (Call_base (Op_tun_start opt)) (s\<lparr>cs_tun := True\<rparr>)))
           (\<lambda>s. (e_throws E (Op_tun_start opt), s)))"


section \<open>Control messages\<close>

definition read_control_text :: "byte list \<Rightarrow> string" where
  "read_control_text buf = map byte_char (if buf \<noteq> [] \<and> last buf = 0 then butlast buf else buf)"

text \<open>It is the string that \<open>read_control_string\<close> takes from a buffer.\<close>

lemma read_control_text_buf:
  assumes "buf_wf b"
  shows "read_control_text (contents b) = map byte_char (read_control_string b)"
proof (cases "b_size b = 0")
  case False
  with assms have l: "contents b \<noteq> []" "last (contents b) = b_mem b ! (b_offset b + (b_size b - 1))"
    by (auto simp: last_conv_nth contents_nth simp flip: length_0_conv)
  have c: "take (b_size b) (drop (b_offset b) (b_mem b)) = contents b" by (simp add: contents_def)
  have "butlast (contents b) = take (b_size b - 1) (drop (b_offset b) (b_mem b))"
    using assms butlast_take [of "b_size b" "drop (b_offset b) (b_mem b)"] by (auto simp: contents_def buf_wf_def)
  then show ?thesis
    using False l c by (cases "b_size b = 1") (auto simp: read_control_text_def read_control_string_def buf_index_def Let_def)
qed (simp add: read_control_text_def read_control_string_def contents_def)

definition trim_left_copy :: "string \<Rightarrow> string" where
  "trim_left_copy str = dropWhile is_space str"

text \<open>\<open>std::stoul\<close>; \<open>None\<close> for its \<open>std::logic_error\<close>s.\<close>

definition stoul :: "string \<Rightarrow> u64 option" where
  "stoul str =
     (let t = dropWhile is_space str;
          neg = (t \<noteq> [] \<and> hd t = CHR ''-'');
          ds = takeWhile is_digit_char (if t \<noteq> [] \<and> (hd t = CHR ''-'' \<or> hd t = CHR ''+'') then tl t else t)
      in if ds = [] \<or> dec_value ds \<ge> size_t_limit then None
         else Some (if neg then - of_nat (dec_value ds) else of_nat (dec_value ds)))"

definition check_tls_warnings :: "env \<Rightarrow> 'n session \<Rightarrow> 'n session" where
  "check_tls_warnings E s =
     (let s = (if e_tls_warnings E AND 1 \<noteq> 0 then add_event (Reason_event EV_WARN ''TLS: received certificate signed with MD5. Please inform your admin to upgrade to a stronger algorithm. Support for MD5 will be dropped at end of Apr 2018'') s else s)
      in if e_tls_warnings E AND 2 \<noteq> 0 then add_event (Reason_event EV_WARN ''TLS: received certificate signed with SHA1. Please inform your admin to upgrade to a stronger algorithm. Support for SHA1 signatures will be dropped in the future'') s else s)"

definition check_proto_warnings :: "env \<Rightarrow> 'n session \<Rightarrow> 'n session" where
  "check_proto_warnings E s =
     (let s = (if e_bs64_cipher E then add_event (Reason_event EV_WARN ''Proto: Using a 64-bit block cipher that is vulnerable to the SWEET32 attack. Please inform your admin to upgrade to a stronger algorithm. Support for 64-bit block cipher will be dropped in the future.'') s else s)
      in if e_comp_type E \<noteq> NONE \<and> \<not> is_any_stub (e_comp_type E)
         then add_event (Reason_event EV_COMPRESSION_ENABLED
                ((if e_comp_asym E then ''Asymmetric compression enabled.  Server may send compressed data.'' else ''Compression enabled.'')
                 @ ''  This may be a potential security issue.'')) s
         else s)"

definition report_connected :: "'n session_config \<Rightarrow> env \<Rightarrow> 'n session \<Rightarrow> 'n session" where
  "report_connected C E s =
     (let s = (case sc_notify C of Some N \<Rightarrow> nf_connected N (say Call_connected s) | None \<Rightarrow> s);
          s = schedule_info_hold_callback s;
          s = (case cs_connected s of Some ev \<Rightarrow> add_event (Connected_event ev) s | None \<Rightarrow> s)
      in check_proto_warnings E s)"

text \<open>The options are complete: the tunnel is set up.\<close>

definition options_complete :: "'n session_config \<Rightarrow> env \<Rightarrow> 'n session \<Rightarrow> 'n step" where
  "options_complete C E s =
     (if sc_relay_mode C then tun_error C E RELAY_ERROR ''tunnel not permitted to relay server'' s
      else then_do (if sc_echo C then on_options process_echo s else (None, s)) (\<lambda>s.
           then_do (on_options auth_token_step s) (\<lambda>s.
           then_do (ask (Op_process_push (oc_list (cs_received_options s))) E s) (\<lambda>s.
           then_do (tun_start C E s) (\<lambda>s.
           case cs_connected s of
             None \<Rightarrow> throw_lib ''tun_exception: not connected'' s
           | Some ev \<Rightarrow>
               then_do (ask Op_init_data_channel E s) (\<lambda>s.
               then_do (on_options process_inactive (say Call_reset_align_adjust s)) (\<lambda>s.
                 (None, report_connected C E s))))))))"

definition recv_push_reply :: "'n session_config \<Rightarrow> env \<Rightarrow> string \<Rightarrow> 'n session \<Rightarrow> 'n step" where
  "recv_push_reply C E msg s =
     (case parse_static (parse_from_csv (drop 11 msg)) (Some (cs_pushed_options_limit s)) of
        Inl e \<Rightarrow> (Some (Ex_lib e), s)
      | Inr (opts, lim) \<Rightarrow>
          (let s = (case lim of Some l \<Rightarrow> s\<lparr>cs_pushed_options_limit := l\<rparr> | None \<Rightarrow> s)
           in case continuation_add opts (sc_filter C) (cs_received_options s) of
                Inl e \<Rightarrow> (Some (Ex_lib e), s)
              | Inr (opts, oc) \<Rightarrow>
                  (let s = s\<lparr>cs_received_options := oc\<rparr>
                   in if oc_complete oc then options_complete C E s else (None, s))))"

definition recv_auth_failed :: "'n session_config \<Rightarrow> string \<Rightarrow> 'n session \<Rightarrow> 'n step" where
  "recv_auth_failed C msg s =
     (let reason = (if length msg \<ge> 13 then trim_left_copy (drop 12 msg) else []);
          (retry, s) =
            (if starts_with reason ''SESSION:''
             then (if sc_autologin_sessions C then (True, s)
                   else (case cs_creds s of
                           None \<Rightarrow> (False, s)
                         | Some c \<Rightarrow> (let (r, c) = can_retry_auth_with_cached_password c in (r, s\<lparr>cs_creds := Some c\<rparr>))))
             else (False, s))
      in stop_or_throw C ''authentication_failed'' (if retry then s else set_fatal AUTH_FAILED reason s))"

definition recv_info :: "string \<Rightarrow> 'n session \<Rightarrow> 'n session" where
  "recv_info msg s =
     (let ev = Reason_event EV_INFO (drop 5 msg)
      in case cs_info_hold s of Some hold \<Rightarrow> s\<lparr>cs_info_hold := Some (hold @ [ev])\<rparr> | None \<Rightarrow> add_event ev s)"

definition auth_pending_timeout :: "env \<Rightarrow> string \<Rightarrow> u32" where
  "auth_pending_timeout E timeout_str =
     (if timeout_str \<noteq> []
      then (case stoul timeout_str of
              None \<Rightarrow> 0
            | Some t \<Rightarrow> (let timeout = ucast t :: u32; cap = ucast (dur_to_seconds (e_renegotiate E) div 2) in if cap < timeout then cap else timeout))
      else 0)"

definition recv_auth_pending :: "'n session_config \<Rightarrow> env \<Rightarrow> string \<Rightarrow> 'n session \<Rightarrow> 'n step" where
  "recv_auth_pending C E msg s =
     (if \<not> cs_auth_pending s
      then (let s = s\<lparr>cs_auth_pending := True\<rparr>;
                key_words = (if starts_with msg ''AUTH_PENDING,'' then drop 13 msg else [])
            in case (if starts_with msg ''AUTH_PENDING,''
                     then bindE (parse_static (parse_from_csv key_words) None)
                            (\<lambda>(opts, _). fst (ol_get_optional ''timeout'' 1 20 opts))
                     else Inr []) of
                 Inl e \<Rightarrow> (Some (Ex_lib e), s)
               | Inr timeout_str \<Rightarrow>
                   (let timeout = auth_pending_timeout E timeout_str;
                        t = sint timeout;
                        s = (case sc_notify C of
                               Some N \<Rightarrow> if timeout > 0 then nf_auth_pending_timeout N t (say (Call_auth_pending_timeout t) s) else s
                             | None \<Rightarrow> s)
                    in (None, add_event (Auth_pending_event t key_words) s)))
      else (None, s))"

definition recv_relay :: "'n session_config \<Rightarrow> 'n session \<Rightarrow> 'n step" where
  "recv_relay C s =
     stop_or_throw C ''relay_event''
       (if sc_relay_mode C then set_fatal RELAY [] s else set_fatal RELAY_ERROR ''not in relay mode'' s)"

definition control_msg :: "'n session_config \<Rightarrow> env \<Rightarrow> string \<Rightarrow> 'n session \<Rightarrow> 'n step" where
  "control_msg C E msg s =
     (if \<not> oc_complete (cs_received_options s) \<and> starts_with msg ''PUSH_REPLY,'' then recv_push_reply C E msg s
      else if oc_complete (cs_received_options s) \<and> starts_with msg ''PUSH_REPLY,''
      then (case parse_static (parse_from_csv (drop 11 msg)) None of
              Inl e \<Rightarrow> (Some (Ex_lib e), s)
            | Inr (opts, _) \<Rightarrow> snd (auth_token_step opts s))
      else if starts_with msg ''AUTH_FAILED'' then recv_auth_failed C msg s
      else if halt_match msg
      then (case client_halt_new msg True of Inl e \<Rightarrow> (Some (Ex_lib e), s) | Inr ch \<Rightarrow> process_halt_restart C ch s)
      else if sc_info C \<and> starts_with msg ''INFO,'' then (None, recv_info msg s)
      else if sc_info C \<and> starts_with msg ''INFO_PRE,'' then (None, add_event (Reason_event EV_INFO (drop 9 msg)) s)
      else if msg = ''AUTH_PENDING'' \<or> starts_with msg ''AUTH_PENDING,'' then recv_auth_pending C E msg s
      else if msg = ''RELAY'' then recv_relay C s
      else (None, s))"

definition control_text :: "byte list \<Rightarrow> string" where
  "control_text app_bp = utf8_printable (read_control_text app_bp) (UTF8_FILTER OR UTF8_PASS_FMT)"

definition control_recv :: "'n session_config \<Rightarrow> env \<Rightarrow> byte list \<Rightarrow> 'n session \<Rightarrow> 'n step" where
  "control_recv C E app_bp s = control_msg C E (control_text app_bp) s"


section \<open>Calls to the protocol context and the transport\<close>

definition transport_send :: "'n session_config \<Rightarrow> env \<Rightarrow> byte list \<Rightarrow> 'n session \<Rightarrow> bool \<times> 'n step" where
  "transport_send C E buf s =
     (let s = say (Call_transport_send buf) s
      in case e_transport_send E buf of
           Sent \<Rightarrow> (True, None, s)
         | Not_sent \<Rightarrow> (False, None, s)
         | Send_error fatal_err err_text \<Rightarrow> (False, transport_error C fatal_err err_text s))"

definition control_net_send :: "'n session_config \<Rightarrow> env \<Rightarrow> byte list \<Rightarrow> 'n session \<Rightarrow> 'n step" where
  "control_net_send C E net_buf s =
     (let (sent, m) = transport_send C E net_buf s
      in then_do m (\<lambda>s. (None, if sent then say Call_update_last_sent s else s)))"

definition active :: "env \<Rightarrow> 'n session \<Rightarrow> 'n session" where
  "active E s = schedule_push_request_callback (dur_seconds 0) (check_tls_warnings E s)"

fun base_parent :: "'n session_config \<Rightarrow> env \<Rightarrow> base_callback \<Rightarrow> 'n session \<Rightarrow> 'n step" where
  "base_parent C E (Cb_control_recv buf) s = control_recv C E buf s"
| "base_parent C E (Cb_control_net_send buf) s = control_net_send C E buf s"
| "base_parent C E Cb_active s = (None, active E s)"

fun base_callbacks :: "'n session_config \<Rightarrow> env \<Rightarrow> base_callback list \<Rightarrow> 'n session \<Rightarrow> 'n step" where
  "base_callbacks C E [] s = (None, s)"
| "base_callbacks C E (cb # cbs) s = then_do (base_parent C E cb s) (base_callbacks C E cbs)"

definition base_call :: "'n session_config \<Rightarrow> env \<Rightarrow> base_op \<Rightarrow> 'n session \<Rightarrow> 'n step" where
  "base_call C E c s =
     then_do (base_callbacks C E (e_base_callbacks E c) (say (Call_base c) s)) (\<lambda>s. (e_throws E c, s))"

text \<open>\<open>client_auth\<close> fills the buffer of the key exchange (\<open>au_client_auth\<close> of \<open>Key_Exchange\<close>).\<close>

definition client_auth :: "bool \<Rightarrow> creds option \<Rightarrow> (nat \<Rightarrow> byte) \<Rightarrow> buf \<Rightarrow> buf res" where
  "client_auth relay_mode creds junk b =
     (case creds of
        Some c \<Rightarrow>
          if \<not> relay_mode
          then bindE (write_auth_string junk (map of_char (get_username c)) b) (write_auth_string junk (map of_char (get_password c)))
          else bindE (write_empty_string junk b) (write_empty_string junk)
      | None \<Rightarrow> bindE (write_empty_string junk b) (write_empty_string junk))"


text \<open>So the credentials fit the message of \<open>Key_Exchange\<close>: it carries user name and password, or two empty strings.\<close>

lemma client_auth_strings:
  "client_auth relay_mode creds junk =
     write_auth_strings junk
       (case creds of
          Some c \<Rightarrow> if relay_mode then [[], []] else [map of_char (get_username c), map of_char (get_password c)]
        | None \<Rightarrow> [[], []])"
proof (rule ext)
  fix b
  have two: "write_auth_strings junk [u, p] b = bindE (write_auth_string junk u b) (write_auth_string junk p)" for u p
    by (simp add: bindE_def split: sum.split)
  have none: "bindE (write_empty_string junk b) (write_empty_string junk) = write_auth_strings junk [[], []] b"
    using write_no_creds_strings [of junk b] by (simp only: write_no_creds_def)
  show "client_auth relay_mode creds junk b =
      write_auth_strings junk
        (case creds of
           Some c \<Rightarrow> if relay_mode then [[], []] else [map of_char (get_username c), map of_char (get_password c)]
         | None \<Rightarrow> [[], []]) b"
    unfolding client_auth_def none two [symmetric] by (auto split: option.split)
qed


section \<open>Handlers\<close>

definition transport_connecting :: "'n session_config \<Rightarrow> env \<Rightarrow> 'n session \<Rightarrow> 'n step" where
  "transport_connecting C E s =
     catch (then_do (ask Op_set_protocol E s) (\<lambda>s. then_do (base_call C E Op_start s) (\<lambda>s.
              then_do (base_call C E (Op_flush True) s) (\<lambda>s. (None, set_housekeeping_timer E s)))))
       (process_exception C)"

definition client_start :: "'n session_config \<Rightarrow> env \<Rightarrow> 'n session \<Rightarrow> 'n step" where
  "client_start C E s =
     (if \<not> cs_halt s
      then (let s = s\<lparr>cs_housekeeping_schedule := coarse_init (dur_binary_ms 512) (dur_binary_ms 1024) (cs_housekeeping_schedule s),
                      cs_transport := True, cs_transport_has_send_queue := e_has_send_queue E\<rparr>
            in if sc_transport_is_relay C then transport_connecting C E s else (None, say Call_transport_start s))
      else (None, s))"

definition transport_recv_body :: "'n session_config \<Rightarrow> env \<Rightarrow> byte list \<Rightarrow> 'n session \<Rightarrow> 'n step" where
  "transport_recv_body C E buf s =
     (let s = (if \<not> cs_first_packet_received s
               then (add_event (Plain_event EV_CONNECTING) s)\<lparr>cs_first_packet_received := True\<rparr> else s)
      in then_do
           (case e_packet_type E buf of
              Pk_data \<Rightarrow>
                then_do (ask Op_data_decrypt E s) (\<lambda>s.
                  let b = e_data_decrypt E buf;
                      s = (if b \<noteq> [] \<and> cs_tun s then say (Call_tun_send b) s else s)
                  in base_call C E (Op_flush False) s)
            | Pk_control \<Rightarrow> then_do (base_call C E Op_control_net_recv s) (base_call C E (Op_flush True))
            | Pk_other \<Rightarrow> (None, say (Call_stats_error KEY_STATE_ERROR) s))
           (\<lambda>s. (None, set_housekeeping_timer E s)))"

definition transport_recv :: "'n session_config \<Rightarrow> env \<Rightarrow> byte list \<Rightarrow> 'n session \<Rightarrow> 'n step" where
  "transport_recv C E buf s =
     catch (transport_recv_body C E buf s)
       (\<lambda>e s. case e of
          Ex_code code fatal err \<Rightarrow>
            if exn_code_defined e
            then (if fatal then transport_error C code err s else (None, say (Call_stats_error code) s))
            else process_exception C e s
        | _ \<Rightarrow> process_exception C e s)"

definition tun_recv :: "'n session_config \<Rightarrow> env \<Rightarrow> byte list \<Rightarrow> 'n session \<Rightarrow> 'n step" where
  "tun_recv C E buf s =
     catch
       (let (buf, s) =
              (if cs_transport_has_send_queue s \<and> e_queue_size E > unat (sc_tcp_queue_limit C)
               then ([], say (Call_stats_error TCP_OVERFLOW) s) else (buf, s));
            fin = (\<lambda>s. then_do (base_call C E (Op_flush False) s) (\<lambda>s. (None, set_housekeeping_timer E s)))
        in if buf \<noteq> []
           then (if e_mss_inter E > 0 \<and> length buf > e_mss_inter E
                 then fin (say (Call_tun_send (e_icmp_ptb E buf)) s)
                 else then_do (ask Op_data_encrypt E s) (\<lambda>s.
                   let buf = e_data_encrypt E buf
                   in if buf \<noteq> []
                      then (let (sent, m) = transport_send C E buf s
                            in then_do m (\<lambda>s.
                                 if sent then fin (say Call_update_last_sent s)
                                 else if cs_halt s then (None, s)
                                 else fin s))
                      else fin s))
           else fin s)
       (process_exception C)"

definition transport_pre_resolve :: "'n session \<Rightarrow> 'n session" where
  "transport_pre_resolve s = add_event (Plain_event EV_RESOLVE) s"
definition transport_wait_proxy :: "'n session \<Rightarrow> 'n session" where
  "transport_wait_proxy s = add_event (Plain_event EV_WAIT_PROXY) s"
definition transport_wait :: "'n session \<Rightarrow> 'n session" where
  "transport_wait s = add_event (Plain_event EV_WAIT) s"

definition post_cc_msg :: "'n session_config \<Rightarrow> env \<Rightarrow> string \<Rightarrow> 'n session \<Rightarrow> 'n step" where
  "post_cc_msg C E msg s =
     then_do (ask (Op_write_control_string msg) E s) (\<lambda>s. then_do (base_call C E (Op_flush True) s) (\<lambda>s.
       (None, set_housekeeping_timer E s)))"

text \<open>The timer handlers; \<open>e\<close> says that the wait ended with an error (it was cancelled).\<close>

definition send_push_request_callback :: "'n session_config \<Rightarrow> env \<Rightarrow> duration \<Rightarrow> bool \<Rightarrow> 'n session \<Rightarrow> 'n step" where
  "send_push_request_callback C E dur e s =
     catch
       (if \<not> e \<and> \<not> cs_halt s \<and> \<not> oc_partial (cs_received_options s)
        then (let s = (if \<not> cs_sent_push_request s
                       then (add_event (Plain_event EV_GET_CONFIG) s)\<lparr>cs_sent_push_request := True\<rparr> else s)
              in then_do (ask (Op_write_control_string ''PUSH_REQUEST'') E s) (\<lambda>s.
                 then_do (base_call C E (Op_flush True) s) (\<lambda>s.
                   let s = set_housekeeping_timer E s
                   in (None, schedule_push_request_callback
                         (if cs_auth_pending s then dur_seconds 8 else dur_min (dur_add dur (dur_seconds 1)) (dur_seconds 3)) s))))
        else (None, s))
       (process_exception C)"

definition housekeeping_callback :: "'n session_config \<Rightarrow> env \<Rightarrow> bool \<Rightarrow> 'n session \<Rightarrow> 'n step" where
  "housekeeping_callback C E e s =
     catch
       (if \<not> e \<and> \<not> cs_halt s
        then then_do (base_call C E Op_housekeeping
                        (s\<lparr>cs_housekeeping_schedule := coarse_reset time_zero (cs_housekeeping_schedule s)\<rparr>)) (\<lambda>s.
             then_do (if e_invalidated E then stop_or_throw C ''session_invalidated'' s else (None, s)) (\<lambda>s.
               (None, set_housekeeping_timer E s)))
        else (None, s))
       (process_exception C)"

definition inactive_callback :: "'n session_config \<Rightarrow> env \<Rightarrow> bool \<Rightarrow> 'n session \<Rightarrow> 'n step" where
  "inactive_callback C E e s =
     catch
       (if \<not> e \<and> \<not> cs_halt s
        then (let sample = e_tun_bytes E; delta = sample - cs_inactive_last_sample s
              in if sint delta \<le> uint (cs_inactive_bytes s)
                 then then_do (session_send_explicit_exit_notify E (s\<lparr>cs_fatal := INACTIVE_TIMEOUT\<rparr>))
                        (stop_or_throw C ''inactive_timer_expired'')
                 else (None, schedule_inactive_timer (s\<lparr>cs_inactive_last_sample := sample\<rparr>)))
        else (None, s))
       (process_exception C)"

definition info_hold_callback :: "bool \<Rightarrow> 'n session \<Rightarrow> 'n session" where
  "info_hold_callback e s =
     (if \<not> e \<and> \<not> cs_halt s
      then (case cs_info_hold s of
              Some hold \<Rightarrow> s\<lparr>cs_events := cs_events s @ hold, cs_info_hold := None\<rparr>
            | None \<Rightarrow> s)
      else s)"

end
