(* ===== verification/Client_Run.thy ===== *)
theory Client_Run
  imports Client_Session
begin

text \<open>
  The runs of a client session: the handlers as steps, what every step keeps, and the properties of the
  states that are reached. The object behind the callback is any that keeps the contract \<open>session_parent\<close>;
  \<open>Client_Connect\<close> does.
\<close>

section \<open>The contract of the parent\<close>

definition plain_ev :: "client_event \<Rightarrow> bool" where
  "plain_ev e \<longleftrightarrow> ev_id e \<noteq> EV_CONNECTED \<and> ev_id e \<noteq> EV_INFO"

text \<open>A callback may change the parent's own state, report events of its own and call the session's
  public methods that do not stop it.\<close>

definition parent_frame :: "'n session \<Rightarrow> 'n session \<Rightarrow> bool" where
  "parent_frame s s' \<longleftrightarrow>
     (\<exists>p evs cs. s' = s\<lparr>cs_parent := p, cs_events := cs_events s @ evs, cs_calls := cs_calls s @ cs\<rparr> \<and>
        (\<forall>e\<in>set evs. plain_ev e) \<and> Call_terminate \<notin> set cs)"

locale session_parent =
  fixes C :: "'n session_config"
  assumes terminate_frame: "sc_notify C = Some N \<Longrightarrow> cs_halt s \<Longrightarrow> parent_frame s (snd (nf_terminate N s))"
    and connected_frame: "sc_notify C = Some N \<Longrightarrow> parent_frame s (nf_connected N s)"
    and auth_pending_frame: "sc_notify C = Some N \<Longrightarrow> parent_frame s (nf_auth_pending_timeout N t s)"


section \<open>Calm changes\<close>

text \<open>What every operation may do to a session, apart from completing its options, reporting the
  connection and passing on INFO messages.\<close>

fun is_wait_info :: "wait \<Rightarrow> bool" where
  "is_wait_info (Wait_info d) = True"
| "is_wait_info _ = False"

definition terms :: "'n session \<Rightarrow> nat" where
  "terms s = count_list (cs_calls s) Call_terminate"

definition plain_ext :: "client_event list \<Rightarrow> client_event list \<Rightarrow> bool" where
  "plain_ext es es' \<longleftrightarrow> (\<exists>evs. es' = es @ evs \<and> (\<forall>e\<in>set evs. plain_ev e))"

lemma plain_ext_refl [simp]: "plain_ext es es"
  by (simp add: plain_ext_def)

lemma plain_ext_same [simp]: "plain_ext es (es @ evs) \<longleftrightarrow> (\<forall>e\<in>set evs. plain_ev e)"
  by (simp add: plain_ext_def)

lemma plain_ext_trans: "plain_ext es es' \<Longrightarrow> plain_ext es' es'' \<Longrightarrow> plain_ext es es''"
  unfolding plain_ext_def by (metis Un_iff append.assoc set_append)

lemma plain_ext_append: "\<forall>e\<in>set evs. plain_ev e \<Longrightarrow> plain_ext es es' \<Longrightarrow> plain_ext es (es' @ evs)"
  by (erule plain_ext_trans) (auto simp: plain_ext_def)

definition calm :: "'n session \<Rightarrow> 'n session \<Rightarrow> bool" where
  "calm s t \<longleftrightarrow>
     plain_ext (cs_events s) (cs_events t) \<and>
     filter is_wait_info (cs_waits t) = filter is_wait_info (cs_waits s) \<and>
     cs_info_hold t = cs_info_hold s \<and>
     oc_complete (cs_received_options t) = oc_complete (cs_received_options s) \<and>
     (cs_connected s \<noteq> None \<longrightarrow> cs_connected t \<noteq> None) \<and>
     (cs_halt s \<longrightarrow> cs_halt t) \<and>
     terms t \<le> terms s + (if cs_halt t \<and> \<not> cs_halt s then 1 else 0)"

named_theorems calm_intros \<open>operations whose changes are calm\<close>

lemma calm_refl [simp, calm_intros]: "calm s s"
  by (simp add: calm_def)

lemma calm_trans [trans]:
  assumes "calm s t" "calm t u"
  shows "calm s u"
proof -
  note d = assms [unfolded calm_def]
  have "plain_ext (cs_events s) (cs_events u)" using d plain_ext_trans by blast
  moreover have "terms u \<le> terms s + (if cs_halt u \<and> \<not> cs_halt s then 1 else 0)"
    using d by (cases "cs_halt s"; cases "cs_halt t"; cases "cs_halt u") auto
  ultimately show ?thesis using d unfolding calm_def by (intro conjI) (blast | metis)+
qed

lemma calm_fields [simp]:
  "calm s (t\<lparr>cs_creds := x1\<rparr>) = calm s t" "calm s (t\<lparr>cs_fatal := x2\<rparr>) = calm s t"
  "calm s (t\<lparr>cs_fatal_reason := x3\<rparr>) = calm s t" "calm s (t\<lparr>cs_pushed_options_limit := x4\<rparr>) = calm s t"
  "calm s (t\<lparr>cs_inactive_duration := x5\<rparr>) = calm s t" "calm s (t\<lparr>cs_inactive_bytes := x6\<rparr>) = calm s t"
  "calm s (t\<lparr>cs_inactive_last_sample := x7\<rparr>) = calm s t" "calm s (t\<lparr>cs_housekeeping_schedule := x8\<rparr>) = calm s t"
  "calm s (t\<lparr>cs_first_packet_received := x9\<rparr>) = calm s t" "calm s (t\<lparr>cs_sent_push_request := y1\<rparr>) = calm s t"
  "calm s (t\<lparr>cs_auth_pending := y2\<rparr>) = calm s t" "calm s (t\<lparr>cs_transport := y3\<rparr>) = calm s t"
  "calm s (t\<lparr>cs_tun := y4\<rparr>) = calm s t" "calm s (t\<lparr>cs_transport_has_send_queue := y5\<rparr>) = calm s t"
  "calm s (t\<lparr>cs_parent := y6\<rparr>) = calm s t"
  by (simp_all add: calm_def terms_def)

lemma calm_connected [calm_intros]: "calm s t \<Longrightarrow> calm s (t\<lparr>cs_connected := Some ev\<rparr>)"
  by (simp add: calm_def terms_def)

lemma calm_say [calm_intros]: "c \<noteq> Call_terminate \<Longrightarrow> calm s t \<Longrightarrow> calm s (say c t)"
  by (simp add: calm_def say_def terms_def)

lemma calm_add_event [calm_intros]: "plain_ev ev \<Longrightarrow> calm s t \<Longrightarrow> calm s (add_event ev t)"
  by (auto simp: calm_def add_event_def terms_def intro: plain_ext_append)

lemma calm_add_wait [calm_intros]: "\<not> is_wait_info w \<Longrightarrow> calm s t \<Longrightarrow> calm s (add_wait w t)"
  by (simp add: calm_def add_wait_def terms_def)

lemma calm_put_options [calm_intros]: "calm s t \<Longrightarrow> calm s (put_options opt t)"
  by (simp add: calm_def put_options_def terms_def)

lemma calm_parent: "calm s t \<Longrightarrow> parent_frame t u \<Longrightarrow> calm s u"
  by (erule calm_trans) (auto simp: parent_frame_def calm_def terms_def count_list_0_iff intro: plain_ext_append)

lemma calm_then_do [calm_intros]:
  assumes "calm s (snd m)" "\<And>t. calm s t \<Longrightarrow> calm s (snd (f t))"
  shows "calm s (snd (then_do m f))"
  using assms by (cases m) (auto simp: then_do_def split: option.splits)

lemma calm_catch [calm_intros]:
  assumes "calm s (snd m)" "\<And>e t. calm s t \<Longrightarrow> calm s (snd (h e t))"
  shows "calm s (snd (catch m h))"
  using assms by (cases m) (auto simp: catch_def split: option.splits)

lemma plain_evs [simp]:
  "plain_ev (Plain_event k) = (k \<noteq> EV_CONNECTED \<and> k \<noteq> EV_INFO)"
  "plain_ev (Reason_event k r) = (k \<noteq> EV_CONNECTED \<and> k \<noteq> EV_INFO)"
  "plain_ev (Auth_pending_event n r)" "\<not> plain_ev (Connected_event c)"
  by (simp_all add: plain_ev_def)

lemma calm_ask [calm_intros]: "calm s t \<Longrightarrow> calm s (snd (ask c E t))"
  by (simp add: ask_def calm_intros)

lemma calm_if [calm_intros]: "(b \<Longrightarrow> calm s (snd m)) \<Longrightarrow> (\<not> b \<Longrightarrow> calm s (snd n)) \<Longrightarrow> calm s (snd (if b then m else n))"
  by simp

lemma calm_if_state [calm_intros]: "(b \<Longrightarrow> calm s t) \<Longrightarrow> (\<not> b \<Longrightarrow> calm s u) \<Longrightarrow> calm s (if b then t else u)"
  by simp

lemma calm_none [calm_intros]: "calm s t \<Longrightarrow> calm s (snd (e, t))"
  by simp

lemma calm_exit_notify [calm_intros]: "calm s t \<Longrightarrow> calm s (snd (session_send_explicit_exit_notify E t))"
  by (simp add: session_send_explicit_exit_notify_def calm_intros)

lemma calm_push_timer [calm_intros]: "calm s t \<Longrightarrow> calm s (schedule_push_request_callback d t)"
  by (simp add: schedule_push_request_callback_def calm_intros)

lemma calm_housekeeping_timer [calm_intros]: "calm s t \<Longrightarrow> calm s (set_housekeeping_timer E t)"
  by (simp add: set_housekeeping_timer_def Let_def calm_intros)

lemma calm_inactive_timer [calm_intros]: "calm s t \<Longrightarrow> calm s (schedule_inactive_timer t)"
  by (simp add: schedule_inactive_timer_def calm_intros)

lemma calm_tls_warnings [calm_intros]: "calm s t \<Longrightarrow> calm s (check_tls_warnings E t)"
  unfolding check_tls_warnings_def Let_def by (intro calm_intros) simp_all

lemma calm_proto_warnings [calm_intros]: "calm s t \<Longrightarrow> calm s (check_proto_warnings E t)"
  unfolding check_proto_warnings_def Let_def by (intro calm_intros) simp_all

lemma calm_active [calm_intros]: "calm s t \<Longrightarrow> calm s (active E t)"
  by (simp add: active_def calm_intros)

lemma calm_on_options [calm_intros]:
  "(\<And>opt. calm s (snd (snd (f opt t)))) \<Longrightarrow> calm s (snd (on_options f t))"
  by (auto simp: on_options_def calm_intros split: prod.splits) (metis calm_put_options snd_conv)

lemma calm_auth_token [calm_intros]: "calm s t \<Longrightarrow> calm s (snd (snd (auth_token_step opt t)))"
  by (simp add: auth_token_step_def split: prod.splits sum.splits)

lemma calm_echo_loop: "calm s t \<Longrightarrow> calm s (snd (snd (echo_loop is opt t)))"
  by (induction "is" opt t rule: echo_loop.induct) (auto simp: Let_def calm_intros split: sum.splits)

lemma calm_echo [calm_intros]: "calm s t \<Longrightarrow> calm s (snd (snd (process_echo opt t)))"
  by (simp add: process_echo_def calm_echo_loop split: option.splits)

lemma calm_inactive [calm_intros]: "calm s t \<Longrightarrow> calm s (snd (snd (process_inactive opt t)))"
  by (auto simp: process_inactive_def Let_def calm_intros split: prod.splits sum.splits option.splits)

lemma calm_tun_connected [calm_intros]: "calm s t \<Longrightarrow> calm s (tun_connected E t)"
  unfolding tun_connected_def Let_def by (auto intro!: calm_intros split: prod.splits)

context session_parent
begin

lemma stop_calm [calm_intros]:
  assumes "calm s t"
  shows "calm s (snd (session_stop C b t))"
proof (cases "cs_halt t")
  case False
  define u where "u = say Call_cancel_timers (t\<lparr>cs_halt := True\<rparr>)"
  have u: "calm s u" using assms False by (auto simp: u_def calm_def say_def terms_def)
  have stop: "calm s (if cs_transport v' then say Call_transport_stop v' else v')"
    if "calm s v" "v' = (if cs_tun v then say Call_tun_stop v else v)" for v v'
    using that by (simp add: calm_intros)
  have "calm s (snd (nf_terminate N (say Call_terminate u)))" if N: "sc_notify C = Some N" for N
  proof -
    have "parent_frame (say Call_terminate u) (snd (nf_terminate N (say Call_terminate u)))"
      using terminate_frame [OF N, of "say Call_terminate u"] by (simp add: u_def say_def)
    then obtain p evs cs where f: "snd (nf_terminate N (say Call_terminate u)) =
        (say Call_terminate u)\<lparr>cs_parent := p, cs_events := cs_events (say Call_terminate u) @ evs,
          cs_calls := cs_calls (say Call_terminate u) @ cs\<rparr>" "\<forall>e\<in>set evs. plain_ev e" "Call_terminate \<notin> set cs"
      by (auto simp: parent_frame_def)
    have "calm t (snd (nf_terminate N (say Call_terminate u)))"
      unfolding f(1) using f(2,3) False by (auto simp: calm_def u_def say_def terms_def count_list_0_iff intro: plain_ext_append)
    with assms show ?thesis by (rule calm_trans)
  qed
  with u stop False show ?thesis
    unfolding session_stop_def u_def [symmetric] Let_def
    by (auto intro!: calm_then_do split: option.splits)
qed (simp add: session_stop_def assms)

lemma stop_or_throw_calm [calm_intros]: "calm s t \<Longrightarrow> calm s (snd (stop_or_throw C what t))"
  by (simp add: stop_or_throw_def throw_lib_def stop_calm)

lemma transport_error_calm [calm_intros]: "calm s t \<Longrightarrow> calm s (snd (transport_error C code err t))"
  by (auto simp: transport_error_def set_fatal_def intro!: stop_or_throw_calm)

lemma proxy_error_calm [calm_intros]: "calm s t \<Longrightarrow> calm s (snd (proxy_error C code err t))"
  by (auto simp: proxy_error_def set_fatal_def intro!: stop_or_throw_calm)

lemma tun_error_calm [calm_intros]: "calm s t \<Longrightarrow> calm s (snd (tun_error C E code err t))"
  unfolding tun_error_def set_fatal_def
  by (intro calm_intros stop_or_throw_calm) (auto intro: calm_intros)

lemma process_exception_calm [calm_intros]: "calm s t \<Longrightarrow> calm s (snd (process_exception C e t))"
  by (simp add: process_exception_def stop_calm)

lemma halt_restart_calm [calm_intros]: "calm s t \<Longrightarrow> calm s (snd (process_halt_restart C ch t))"
  by (auto simp: process_halt_restart_def Let_def set_fatal_def intro!: stop_or_throw_calm)

lemma tun_parent_calm [calm_intros]: "calm s t \<Longrightarrow> calm s (snd (tun_parent C E cb t))"
  by (cases cb) (simp_all add: calm_intros tun_error_calm)

lemma tun_callbacks_calm [calm_intros]: "calm s t \<Longrightarrow> calm s (snd (tun_callbacks C E cbs t))"
  by (induction cbs arbitrary: t) (simp_all add: calm_then_do tun_parent_calm)

lemma tun_start_calm [calm_intros]: "calm s t \<Longrightarrow> calm s (snd (tun_start C E t))"
  unfolding tun_start_def Let_def by (intro calm_then_do tun_callbacks_calm calm_say) simp_all

lemma auth_failed_calm [calm_intros]: "calm s t \<Longrightarrow> calm s (snd (recv_auth_failed C msg t))"
  by (auto simp: recv_auth_failed_def Let_def set_fatal_def split: option.splits prod.splits intro!: stop_or_throw_calm)

lemma relay_calm [calm_intros]: "calm s t \<Longrightarrow> calm s (snd (recv_relay C t))"
  by (auto simp: recv_relay_def set_fatal_def intro!: stop_or_throw_calm)

lemma auth_pending_calm [calm_intros]: "calm s t \<Longrightarrow> calm s (snd (recv_auth_pending C E msg t))"
  by (auto simp: recv_auth_pending_def Let_def split: sum.splits option.splits
      intro!: calm_add_event calm_parent [OF _ auth_pending_frame] calm_say)

lemma transport_send_calm [calm_intros]: "calm s t \<Longrightarrow> calm s (snd (snd (transport_send C E buf t)))"
  by (auto simp: transport_send_def Let_def split: send_outcome.splits intro!: transport_error_calm calm_say)

lemma net_send_calm [calm_intros]: "calm s t \<Longrightarrow> calm s (snd (control_net_send C E buf t))"
  using transport_send_calm [of s t E buf]
  by (auto simp: control_net_send_def split: prod.splits intro!: calm_then_do calm_say)

end


section \<open>Connecting\<close>

definition connects :: "'n session \<Rightarrow> 'n session \<Rightarrow> bool" where
  "connects s u \<longleftrightarrow> calm s u \<or>
     (\<exists>m ev. calm s m \<and> cs_connected m = Some ev \<and> calm (add_event (Connected_event ev) (schedule_info_hold_callback m)) u)"

lemma calm_connects: "calm s u \<Longrightarrow> connects s u"
  by (simp add: connects_def)

lemma connects_trans: "calm s t \<Longrightarrow> connects t u \<Longrightarrow> connects s u"
  unfolding connects_def by (meson calm_trans)

lemma connects_then_do:
  assumes "calm s (snd m)" "\<And>t. calm s t \<Longrightarrow> connects s (snd (f t))"
  shows "connects s (snd (then_do m f))"
  using assms by (cases m) (auto simp: then_do_def calm_connects split: option.splits)

context session_parent
begin

lemma report_connects:
  assumes "calm s t" "cs_connected t = Some ev"
  shows "connects s (report_connected C E t)"
proof -
  let ?n = "case sc_notify C of Some N \<Rightarrow> nf_connected N (say Call_connected t) | None \<Rightarrow> t"
  have n: "calm t ?n" by (auto intro!: calm_intros calm_parent [OF _ connected_frame] split: option.splits)
  then obtain ev' where ev: "cs_connected ?n = Some ev'" using assms(2) by (auto simp: calm_def)
  have "calm s ?n" using assms(1) n by (rule calm_trans)
  moreover have "cs_connected (schedule_info_hold_callback ?n) = Some ev'"
    using ev by (simp add: schedule_info_hold_callback_def add_wait_def)
  ultimately show ?thesis
    unfolding connects_def report_connected_def Let_def using ev
    by (intro disjI2 exI [of _ ?n] exI [of _ ev']) (simp add: calm_proto_warnings)
qed

lemma complete_connects: "connects s (snd (options_complete C E s))"
proof -
  have fin: "connects s (snd (then_do (ask Op_init_data_channel E t) (\<lambda>t.
        then_do (on_options process_inactive (say Call_reset_align_adjust t)) (\<lambda>t. (None, report_connected C E t)))))"
    if t: "calm s t" "cs_connected t = Some ev" for t ev
  proof (rule connects_trans [OF t(1)], intro connects_then_do)
    fix u v assume "calm t u" "calm t v"
    then obtain ev' where "cs_connected v = Some ev'" using t(2) by (auto simp: calm_def)
    with \<open>calm t v\<close> show "connects t (snd (None, report_connected C E v))"
      by (simp add: report_connects)
  qed (auto intro!: calm_intros)
  show ?thesis
  proof (cases "sc_relay_mode C")
    case True
    then show ?thesis by (simp add: options_complete_def calm_connects tun_error_calm)
  next
    case False
    show ?thesis
      unfolding options_complete_def using False
      by (auto intro!: connects_then_do calm_intros tun_start_calm fin split: option.splits
          simp: throw_lib_def calm_connects)
  qed
qed

end


section \<open>The invariant of a session\<close>

definition is_conn :: "client_event \<Rightarrow> bool" where "is_conn e \<longleftrightarrow> ev_id e = EV_CONNECTED"
definition is_info :: "client_event \<Rightarrow> bool" where "is_info e \<longleftrightarrow> ev_id e = EV_INFO"

text \<open>No INFO event comes before the session is reported as connected.\<close>

definition infos_wait :: "client_event list \<Rightarrow> bool" where
  "infos_wait es \<longleftrightarrow> list_all (\<lambda>e. \<not> is_info e) (takeWhile (\<lambda>e. \<not> is_conn e) es)"

text \<open>\<open>old\<close> are the events before this session, \<open>n\<close> the terminations reported before it; \<open>q\<close> says that
  the server sends no INFO_PRE messages.\<close>

definition session_inv :: "bool \<Rightarrow> client_event list \<Rightarrow> nat \<Rightarrow> 'n session \<Rightarrow> bool" where
  "session_inv q old n s \<longleftrightarrow>
     (\<exists>es. cs_events s = old @ es \<and> length (filter is_conn es) \<le> 1 \<and>
        (list_ex is_conn es \<longrightarrow> oc_complete (cs_received_options s) \<and> cs_connected s \<noteq> None) \<and>
        (cs_info_hold s = None \<or> filter is_wait_info (cs_waits s) \<noteq> [] \<longrightarrow> list_ex is_conn es) \<and>
        (q \<longrightarrow> infos_wait es)) \<and>
     (\<forall>hold. cs_info_hold s = Some hold \<longrightarrow> list_all is_info hold) \<and>
     terms s \<le> n + (if cs_halt s then 1 else 0)"

lemma list_ex_take: "list_ex P es \<Longrightarrow> takeWhile (\<lambda>e. \<not> P e) (es @ fs) = takeWhile (\<lambda>e. \<not> P e) es"
  by (induction es) auto

lemma infos_wait_conn: "list_ex is_conn es \<Longrightarrow> infos_wait (es @ fs) = infos_wait es"
  by (simp add: infos_wait_def list_ex_take)

lemma infos_wait_none: "list_all (\<lambda>e. \<not> is_info e) fs \<Longrightarrow> infos_wait es \<Longrightarrow> infos_wait (es @ fs)"
  by (cases "list_ex is_conn es")
    (auto simp: infos_wait_def list_ex_take list_all_iff list_ex_iff takeWhile_append takeWhile_eq_all_conv [THEN iffD2] dest: set_takeWhileD)

lemma not_conn_filter: "\<not> list_ex is_conn es \<Longrightarrow> filter is_conn es = []"
  by (induction es) auto

lemma plain_not: "plain_ev e \<longleftrightarrow> \<not> is_conn e \<and> \<not> is_info e"
  by (simp add: plain_ev_def is_conn_def is_info_def)

lemma plain_all:
  assumes "\<forall>e\<in>set evs. plain_ev e"
  shows "filter is_conn evs = []" "\<not> list_ex is_conn evs" "list_all (\<lambda>e. \<not> is_info e) evs"
  using assms by (auto simp: plain_not filter_empty_conv list_ex_iff list_all_iff)

lemma inv_calm:
  assumes "calm s t" "session_inv q old n s"
  shows "session_inv q old n t"
proof -
  from assms(1) obtain evs where evs: "cs_events t = cs_events s @ evs" "\<forall>e\<in>set evs. plain_ev e"
    by (auto simp: calm_def plain_ext_def)
  note p = plain_all [OF evs(2)]
  from assms(2) obtain es where es: "cs_events s = old @ es" "length (filter is_conn es) \<le> 1"
    "list_ex is_conn es \<longrightarrow> oc_complete (cs_received_options s) \<and> cs_connected s \<noteq> None"
    "cs_info_hold s = None \<or> filter is_wait_info (cs_waits s) \<noteq> [] \<longrightarrow> list_ex is_conn es" "q \<longrightarrow> infos_wait es"
    by (auto simp: session_inv_def)
  have "\<exists>es. cs_events t = old @ es \<and> length (filter is_conn es) \<le> 1 \<and>
        (list_ex is_conn es \<longrightarrow> oc_complete (cs_received_options t) \<and> cs_connected t \<noteq> None) \<and>
        (cs_info_hold t = None \<or> filter is_wait_info (cs_waits t) \<noteq> [] \<longrightarrow> list_ex is_conn es) \<and> (q \<longrightarrow> infos_wait es)"
    using evs(1) es p assms(1) infos_wait_none [OF p(3)] unfolding calm_def
    by (intro exI [of _ "es @ evs"]) auto
  moreover have "terms t \<le> n + (if cs_halt t then 1 else 0)"
    using assms unfolding calm_def session_inv_def by (cases "cs_halt s"; cases "cs_halt t") auto
  ultimately show ?thesis using assms unfolding session_inv_def calm_def by simp
qed

lemma inv_then_do:
  assumes "session_inv q old n (snd m)" "\<And>t. session_inv q old n t \<Longrightarrow> session_inv q old n (snd (f t))"
  shows "session_inv q old n (snd (then_do m f))"
  using assms by (cases m) (auto simp: then_do_def split: option.splits)

lemma inv_catch:
  assumes "session_inv q old n (snd m)" "\<And>e t. session_inv q old n t \<Longrightarrow> session_inv q old n (snd (h e t))"
  shows "session_inv q old n (snd (catch m h))"
  using assms by (cases m) (auto simp: catch_def split: option.splits)

lemma inv_if:
  "(b \<Longrightarrow> session_inv q old n (snd m)) \<Longrightarrow> (\<not> b \<Longrightarrow> session_inv q old n (snd k)) \<Longrightarrow> session_inv q old n (snd (if b then m else k))"
  by simp

lemma inv_new: "session_inv q evs (count_list calls Call_terminate) (session_new pb creds evs calls [] p)"
  by (simp add: session_inv_def session_new_def infos_wait_def terms_def)

text \<open>The options become complete while the session has reported no connection, and then it may.\<close>

lemma inv_connects:
  assumes "session_inv q old n s" "\<not> oc_complete (cs_received_options s)"
    and s1: "cs_events s1 = cs_events s" "cs_waits s1 = cs_waits s" "cs_info_hold s1 = cs_info_hold s"
      "cs_halt s1 = cs_halt s" "cs_calls s1 = cs_calls s" "oc_complete (cs_received_options s1)"
    and u: "connects s1 u"
  shows "session_inv q old n u"
proof -
  from assms(1,2) obtain es where es: "cs_events s = old @ es" "\<not> list_ex is_conn es"
    "cs_info_hold s \<noteq> None" "filter is_wait_info (cs_waits s) = []" "q \<longrightarrow> infos_wait es"
    by (auto simp: session_inv_def)
  have s1i: "session_inv q old n s1"
    using assms(1,2) es s1 not_conn_filter [OF es(2)] by (auto simp: session_inv_def terms_def)
  from u show ?thesis unfolding connects_def
  proof (elim disjE exE conjE)
    assume "calm s1 u" then show ?thesis using s1i by (rule inv_calm)
  next
    fix m ev assume m: "calm s1 m" "cs_connected m = Some ev"
      and u: "calm (add_event (Connected_event ev) (schedule_info_hold_callback m)) u"
    from m(1) obtain evs where evs: "cs_events m = cs_events s1 @ evs" "\<forall>e\<in>set evs. plain_ev e"
      by (auto simp: calm_def plain_ext_def)
    note p = plain_all [OF evs(2)]
    have mi: "session_inv q old n m" using m(1) s1i by (rule inv_calm)
    have "q \<longrightarrow> infos_wait (es @ evs @ [Connected_event ev])"
      using es(5) infos_wait_none [of "evs @ [Connected_event ev]" es] p(3) by (auto simp: is_info_def)
    then have "session_inv q old n (add_event (Connected_event ev) (schedule_info_hold_callback m))"
      using mi m evs p es s1 not_conn_filter [OF es(2)]
      unfolding session_inv_def add_event_def schedule_info_hold_callback_def add_wait_def terms_def
      by (intro conjI exI [of _ "es @ evs @ [Connected_event ev]"]) (auto simp: calm_def is_conn_def)
    with u show ?thesis by (rule inv_calm)
  qed
qed

lemma inv_info: "session_inv q old n s \<Longrightarrow> session_inv q old n (recv_info msg s)"
proof (cases "cs_info_hold s")
  case None
  assume "session_inv q old n s"
  with None obtain es where es: "cs_events s = old @ es" "length (filter is_conn es) \<le> 1"
    "oc_complete (cs_received_options s) \<and> cs_connected s \<noteq> None" "list_ex is_conn es" "q \<longrightarrow> infos_wait es"
    "terms s \<le> n + (if cs_halt s then 1 else 0)"
    by (auto simp: session_inv_def)
  then show ?thesis
    using None unfolding session_inv_def recv_info_def Let_def add_event_def
    by (intro conjI exI [of _ "es @ [Reason_event EV_INFO (drop 5 msg)]"]) (auto simp: is_conn_def infos_wait_conn terms_def)
qed (auto simp: session_inv_def recv_info_def is_info_def terms_def)

lemma inv_info_pre:
  assumes "session_inv False old n s"
  shows "session_inv False old n (add_event (Reason_event EV_INFO r) s)"
proof -
  from assms obtain es where es: "cs_events s = old @ es" "length (filter is_conn es) \<le> 1"
    "list_ex is_conn es \<longrightarrow> oc_complete (cs_received_options s) \<and> cs_connected s \<noteq> None"
    "cs_info_hold s = None \<or> filter is_wait_info (cs_waits s) \<noteq> [] \<longrightarrow> list_ex is_conn es"
    by (auto simp: session_inv_def)
  then show ?thesis
    using assms unfolding session_inv_def add_event_def
    by (intro conjI exI [of _ "es @ [Reason_event EV_INFO r]"]) (auto simp: is_conn_def terms_def)
qed

lemma inv_hold_out:
  assumes "session_inv q old n s" "filter is_wait_info (cs_waits s) \<noteq> []" "cs_waits t = remove1 w (cs_waits s)"
    "t = s\<lparr>cs_waits := remove1 w (cs_waits s)\<rparr>"
  shows "session_inv q old n (info_hold_callback e t)"
proof (cases "\<not> e \<and> \<not> cs_halt s \<and> cs_info_hold s \<noteq> None")
  case True
  from assms(1,2) obtain es where es: "cs_events s = old @ es" "length (filter is_conn es) \<le> 1"
    "oc_complete (cs_received_options s) \<and> cs_connected s \<noteq> None" "list_ex is_conn es" "q \<longrightarrow> infos_wait es"
    "\<forall>hold. cs_info_hold s = Some hold \<longrightarrow> list_all is_info hold" "terms s \<le> n"
    using True by (auto simp: session_inv_def)
  from True obtain hold where hold: "cs_info_hold s = Some hold" by auto
  with es(6) have "filter is_conn hold = []" "list_ex is_conn hold = False"
    by (auto simp: list_all_iff is_info_def is_conn_def filter_empty_conv list_ex_iff)
  then show ?thesis
    using True hold es(1-5,7) assms(4) unfolding session_inv_def info_hold_callback_def
    by (intro conjI exI [of _ "es @ hold"]) (auto simp: infos_wait_conn terms_def)
next
  case False
  have "session_inv q old n t"
    using assms unfolding session_inv_def terms_def
    by (auto simp: filter_remove1 filter_empty_conv dest: notin_set_remove1) 
  then show ?thesis using False assms(4) by (auto simp: info_hold_callback_def)
qed

definition quiet :: "env \<Rightarrow> bool" where
  "quiet E \<longleftrightarrow> (\<forall>c buf. Cb_control_recv buf \<in> set (e_base_callbacks E c) \<longrightarrow> \<not> starts_with (control_text buf) ''INFO_PRE,'')"

context session_parent
begin

lemma inv_push_reply:
  assumes "session_inv q old n s" "\<not> oc_complete (cs_received_options s)"
  shows "session_inv q old n (snd (recv_push_reply C E msg s))"
proof -
  have yes: "session_inv q old n (snd (options_complete C E (s\<lparr>cs_pushed_options_limit := l, cs_received_options := oc\<rparr>)))"
    if "oc_complete oc" for l oc
    using that by (intro inv_connects [OF assms _ _ _ _ _ _ complete_connects]) auto
  have no: "session_inv q old n (s\<lparr>cs_pushed_options_limit := l, cs_received_options := oc\<rparr>)" if "\<not> oc_complete oc" for l oc
    using assms(1) by (rule inv_calm [rotated]) (use that assms(2) in \<open>simp add: calm_def terms_def\<close>)
  have l: "session_inv q old n (s\<lparr>cs_pushed_options_limit := l\<rparr>)" for l
    using assms(1) by (rule inv_calm [rotated]) simp
  note yes1 = yes [of _ "cs_pushed_options_limit s", simplified] and no1 = no [of _ "cs_pushed_options_limit s", simplified]
  show ?thesis
    unfolding recv_push_reply_def Let_def
    by (auto simp: assms(1) l yes no yes1 no1 split: sum.splits prod.splits option.splits)
qed

lemma inv_control_msg:
  assumes "session_inv q old n s" "q \<Longrightarrow> \<not> starts_with msg ''INFO_PRE,''"
  shows "session_inv q old n (snd (control_msg C E msg s))"
proof -
  note c = inv_calm [OF _ assms(1)]
  have pre: "session_inv q old n (add_event (Reason_event EV_INFO (drop 9 msg)) s)" if "starts_with msg ''INFO_PRE,''"
    using assms that inv_info_pre by (cases q) auto
  show ?thesis
    unfolding control_msg_def
  proof (intro inv_if)
    show "session_inv q old n (snd (case parse_static (parse_from_csv (drop 11 msg)) None of
        Inl e \<Rightarrow> (Some (Ex_lib e), s) | Inr (opts, _) \<Rightarrow> snd (auth_token_step opts s)))"
      by (auto simp: assms(1) split: sum.split intro!: c calm_auth_token)
    show "session_inv q old n (snd (case client_halt_new msg True of
        Inl e \<Rightarrow> (Some (Ex_lib e), s) | Inr ch \<Rightarrow> process_halt_restart C ch s))"
      by (auto simp: assms(1) split: sum.split intro!: c halt_restart_calm)
  qed (simp_all add: inv_push_reply assms(1) inv_info pre c auth_failed_calm relay_calm auth_pending_calm)
qed

lemma inv_base_callbacks:
  assumes "session_inv q old n s" "\<And>buf. q \<Longrightarrow> Cb_control_recv buf \<in> set cbs \<Longrightarrow> \<not> starts_with (control_text buf) ''INFO_PRE,''"
  shows "session_inv q old n (snd (base_callbacks C E cbs s))"
  using assms
proof (induction cbs arbitrary: s)
  case (Cons cb cbs)
  have "session_inv q old n (snd (base_parent C E cb s))"
  proof (cases cb)
    case (Cb_control_recv buf)
    with Cons.prems show ?thesis by (auto simp: control_recv_def intro: inv_control_msg)
  next
    case (Cb_control_net_send buf)
    with Cons.prems(1) show ?thesis by (auto intro: inv_calm [OF net_send_calm [OF calm_refl]])
  next
    case Cb_active
    with Cons.prems(1) show ?thesis by (auto intro: inv_calm [OF calm_active [OF calm_refl]])
  qed
  with Cons show ?case by (auto intro: inv_then_do)
qed simp

lemma inv_base_call:
  assumes "session_inv q old n s" "q \<Longrightarrow> quiet E"
  shows "session_inv q old n (snd (base_call C E c s))"
proof -
  have "session_inv q old n (say (Call_base c) s)"
    using assms(1) by (intro inv_calm [OF calm_say [OF _ calm_refl]]) simp
  then have "session_inv q old n (snd (base_callbacks C E (e_base_callbacks E c) (say (Call_base c) s)))"
    by (rule inv_base_callbacks) (use assms(2) in \<open>auto simp: quiet_def\<close>)
  then show ?thesis unfolding base_call_def by (rule inv_then_do) simp
qed

end

end
