(* ===== verification/Client_Reach.thy ===== *)
theory Client_Reach
  imports Client_Run
begin

text \<open>
  The states a client session reaches: the step relation over its handlers, with any environment in each step
  (or only those that satisfy a condition), the invariant of \<open>Client_Run\<close> for every step, and the properties
  of the reached states.
\<close>

section \<open>Steps\<close>

text \<open>\<open>K\<close> restricts the error codes that the transport and the tun interface report.\<close>

text \<open>An \<open>async_wait\<close> that ends: the handler runs without the wait.\<close>

definition fired :: "wait \<Rightarrow> 'n session \<Rightarrow> 'n session" where
  "fired w s = s\<lparr>cs_waits := remove1 w (cs_waits s)\<rparr>"

inductive session_handler :: "'n session_config \<Rightarrow> (error_type \<Rightarrow> bool) \<Rightarrow> env \<Rightarrow> 'n session \<Rightarrow> 'n step \<Rightarrow> bool" for C K E where
  sh_connecting: "session_handler C K E s (transport_connecting C E s)"
| sh_transport_recv: "session_handler C K E s (transport_recv C E buf s)"
| sh_tun_recv: "session_handler C K E s (tun_recv C E buf s)"
| sh_transport_error: "K code \<Longrightarrow> session_handler C K E s (transport_error C code err s)"
| sh_proxy_error: "K code \<Longrightarrow> session_handler C K E s (proxy_error C code err s)"
| sh_pre_resolve: "session_handler C K E s (None, transport_pre_resolve s)"
| sh_wait_proxy: "session_handler C K E s (None, transport_wait_proxy s)"
| sh_wait: "session_handler C K E s (None, transport_wait s)"
| sh_tun: "(\<And>code err. cb = Cb_tun_error code err \<Longrightarrow> K code) \<Longrightarrow> session_handler C K E s (tun_parent C E cb s)"
| sh_push_request: "Wait_push d \<in> set (cs_waits s) \<Longrightarrow>
    session_handler C K E s (send_push_request_callback C E d e (fired (Wait_push d) s))"
| sh_housekeeping: "Wait_housekeeping t \<in> set (cs_waits s) \<Longrightarrow>
    session_handler C K E s (housekeeping_callback C E e (fired (Wait_housekeeping t) s))"
| sh_inactive: "Wait_inactive d \<in> set (cs_waits s) \<Longrightarrow>
    session_handler C K E s (inactive_callback C E e (fired (Wait_inactive d) s))"
| sh_info: "Wait_info d \<in> set (cs_waits s) \<Longrightarrow> session_handler C K E s (None, info_hold_callback e (fired (Wait_info d) s))"

text \<open>The owner of the session starts and stops it and has it send messages.\<close>

inductive client_step :: "'n session_config \<Rightarrow> env \<Rightarrow> 'n session \<Rightarrow> 'n session \<Rightarrow> bool" for C E where
  ss_handler: "session_handler C (\<lambda>_. True) E s m \<Longrightarrow> client_step C E s (snd m)"
| ss_start: "client_step C E s (snd (client_start C E s))"
| ss_stop: "client_step C E s (snd (session_stop C b s))"
| ss_exit_notify: "client_step C E s (snd (session_send_explicit_exit_notify E s))"
| ss_disconnect: "client_step C E s (tun_set_disconnect s)"
| ss_post_cc_msg: "client_step C E s (snd (post_cc_msg C E msg s))"

inductive session_reach :: "'n session_config \<Rightarrow> (env \<Rightarrow> bool) \<Rightarrow> 'n session \<Rightarrow> 'n session \<Rightarrow> bool" for C Q s where
  sr_start: "session_reach C Q s s"
| sr_step: "session_reach C Q s t \<Longrightarrow> Q E \<Longrightarrow> client_step C E t u \<Longrightarrow> session_reach C Q s u"


section \<open>Every step keeps the invariant\<close>

lemma calm_fired: "\<not> is_wait_info w \<Longrightarrow> calm s (fired w s)"
  by (cases w) (simp_all add: calm_def fired_def terms_def filter_remove1)

lemmas inv_say = inv_calm [OF calm_say [OF _ calm_refl]]
lemmas inv_event = inv_calm [OF calm_add_event [OF _ calm_refl]]
lemmas inv_wait = inv_calm [OF calm_add_wait [OF _ calm_refl]]
lemmas inv_ask = inv_calm [OF calm_ask [OF calm_refl]]
lemmas inv_housekeeping_timer = inv_calm [OF calm_housekeeping_timer [OF calm_refl]]
lemmas inv_push_timer = inv_calm [OF calm_push_timer [OF calm_refl]]

context session_parent
begin

lemmas inv_process_exception = inv_calm [OF process_exception_calm [OF calm_refl]]
lemmas inv_transport_error = inv_calm [OF transport_error_calm [OF calm_refl]]
lemmas inv_stop = inv_calm [OF stop_calm [OF calm_refl]]
lemmas inv_stop_or_throw = inv_calm [OF stop_or_throw_calm [OF calm_refl]]

lemma inv_connecting:
  assumes "session_inv q old n s" "q \<Longrightarrow> quiet E"
  shows "session_inv q old n (snd (transport_connecting C E s))"
  unfolding transport_connecting_def
  by (intro inv_catch inv_then_do inv_process_exception inv_ask inv_base_call)
    (auto simp: assms inv_housekeeping_timer)

lemma inv_start:
  assumes "session_inv q old n s" "q \<Longrightarrow> quiet E"
  shows "session_inv q old n (snd (client_start C E s))"
proof -
  have "session_inv q old n (s\<lparr>cs_housekeeping_schedule := c, cs_transport := True, cs_transport_has_send_queue := b\<rparr>)" for c b
    using assms(1) by (rule inv_calm [rotated]) simp
  then show ?thesis by (simp add: client_start_def Let_def inv_connecting assms inv_say)
qed

lemma inv_transport_recv:
  assumes "session_inv q old n s" "q \<Longrightarrow> quiet E"
  shows "session_inv q old n (snd (transport_recv C E buf s))"
proof -
  define s1 where "s1 = (if \<not> cs_first_packet_received s
      then (add_event (Plain_event EV_CONNECTING) s)\<lparr>cs_first_packet_received := True\<rparr> else s)"
  have "calm s s1" by (auto simp: s1_def intro: calm_add_event)
  then have s1: "session_inv q old n s1" using assms(1) by (rule inv_calm)
  have h: "session_inv q old n (snd (then_do (ask Op_data_decrypt E s1) (\<lambda>s.
      let b = e_data_decrypt E buf; s = (if b \<noteq> [] \<and> cs_tun s then say (Call_tun_send b) s else s) in base_call C E (Op_flush False) s)))"
    by (rule inv_then_do) (auto simp: Let_def s1 assms(2) intro!: inv_ask inv_base_call inv_say)
  have d: "session_inv q old n (snd (then_do (base_call C E Op_control_net_recv s1) (base_call C E (Op_flush True))))"
    by (rule inv_then_do) (auto simp: s1 assms(2) intro!: inv_base_call)
  have b: "session_inv q old n (snd (transport_recv_body C E buf s))"
    unfolding transport_recv_body_def s1_def [symmetric] Let_def
    by (rule inv_then_do)
      (use h d in \<open>auto simp: Let_def s1 inv_say inv_housekeeping_timer split: packet_class.split\<close>)
  show ?thesis
    unfolding transport_recv_def
    by (rule inv_catch [OF b]) (auto simp: inv_transport_error inv_process_exception inv_say split: cl_exn.split)
qed

lemma inv_tun_recv:
  assumes "session_inv q old n s" "q \<Longrightarrow> quiet E"
  shows "session_inv q old n (snd (tun_recv C E buf s))"
proof -
  have fin: "session_inv q old n (snd (then_do (base_call C E (Op_flush False) t) (\<lambda>s. (None, set_housekeeping_timer E s))))"
    if "session_inv q old n t" for t
    using that by (intro inv_then_do inv_base_call) (auto simp: assms(2) inv_housekeeping_timer)
  have ts: "session_inv q old n (snd (snd (transport_send C E b t)))" if "session_inv q old n t" for b t
    using that by (rule inv_calm [OF transport_send_calm [OF calm_refl]])
  have tsb: "session_inv q old n t \<Longrightarrow> transport_send C E b t = (x, a, u) \<Longrightarrow> session_inv q old n u" for b t x a u
    using ts [of t b] by simp
  have send: "session_inv q old n (snd (let (sent, m) = transport_send C E b t
      in then_do m (\<lambda>s. if sent then then_do (base_call C E (Op_flush False) (say Call_update_last_sent s)) (\<lambda>s. (None, set_housekeeping_timer E s))
         else if cs_halt s then (None, s) else then_do (base_call C E (Op_flush False) s) (\<lambda>s. (None, set_housekeeping_timer E s)))))"
    if "session_inv q old n t" for b t
    using ts [OF that, of b] by (auto split: prod.split intro!: inv_then_do fin simp: inv_say)
  show ?thesis
    unfolding tun_recv_def
    by (rule inv_catch, auto simp: Let_def assms(1) inv_say inv_ask inv_process_exception
        intro!: fin send [simplified Let_def] inv_then_do split: prod.split) (erule (1) tsb)+
qed

lemma inv_push_request:
  assumes "session_inv q old n s" "q \<Longrightarrow> quiet E"
  shows "session_inv q old n (snd (send_push_request_callback C E d e s))"
proof -
  have "calm s ((add_event (Plain_event EV_GET_CONFIG) s)\<lparr>cs_sent_push_request := True\<rparr>)" by (simp add: calm_add_event)
  then have s1: "session_inv q old n ((add_event (Plain_event EV_GET_CONFIG) s)\<lparr>cs_sent_push_request := True\<rparr>)"
    using assms(1) by (rule inv_calm)
  show ?thesis
    unfolding send_push_request_callback_def
    by (intro inv_catch inv_if inv_process_exception)
      (auto simp: Let_def assms s1 inv_ask inv_housekeeping_timer inv_push_timer intro!: inv_then_do inv_base_call)
qed

lemma inv_housekeeping:
  assumes "session_inv q old n s" "q \<Longrightarrow> quiet E"
  shows "session_inv q old n (snd (housekeeping_callback C E e s))"
proof -
  have s1: "session_inv q old n (s\<lparr>cs_housekeeping_schedule := c\<rparr>)" for c
    using assms(1) by (rule inv_calm [rotated]) simp
  show ?thesis
    unfolding housekeeping_callback_def
    by (intro inv_catch inv_if inv_process_exception)
      (auto simp: assms s1 inv_stop_or_throw inv_housekeeping_timer intro!: inv_then_do inv_base_call)
qed

lemma inv_inactive:
  assumes "session_inv q old n s"
  shows "session_inv q old n (snd (inactive_callback C E e s))"
proof -
  have "calm s (snd (inactive_callback C E e s))"
    unfolding inactive_callback_def Let_def
    by (intro calm_catch calm_if calm_then_do) (simp_all add: calm_intros process_exception_calm stop_or_throw_calm)
  then show ?thesis using assms by (rule inv_calm)
qed

lemma inv_post_cc_msg:
  assumes "session_inv q old n s" "q \<Longrightarrow> quiet E"
  shows "session_inv q old n (snd (post_cc_msg C E msg s))"
  unfolding post_cc_msg_def
  by (intro inv_then_do inv_ask inv_base_call) (auto simp: assms inv_housekeeping_timer)

lemma handler_inv:
  assumes "session_handler C K E s m" "session_inv q old n s" "q \<Longrightarrow> quiet E"
  shows "session_inv q old n (snd m)"
  using assms(1)
proof (cases rule: session_handler.cases)
  case (sh_push_request d e)
  then show ?thesis using inv_push_request [OF inv_calm [OF calm_fired assms(2)] assms(3)] by simp
next
  case (sh_housekeeping w e)
  then show ?thesis using inv_housekeeping [OF inv_calm [OF calm_fired assms(2)] assms(3)] by simp
next
  case (sh_inactive d e)
  then show ?thesis using inv_inactive [OF inv_calm [OF calm_fired assms(2)]] by simp
next
  case (sh_info d e)
  then have "filter is_wait_info (cs_waits s) \<noteq> []" by (auto simp: filter_empty_conv intro!: bexI [of _ "Wait_info d"])
  then show ?thesis using inv_hold_out [OF assms(2)] sh_info by (simp add: fired_def)
next
  case (sh_tun cb)
  then show ?thesis using assms(2) inv_calm [OF tun_parent_calm [OF calm_refl]] by simp
next
  case (sh_proxy_error code err)
  then show ?thesis using assms(2) inv_calm [OF proxy_error_calm [OF calm_refl]] by simp
qed (simp_all add: inv_connecting inv_transport_recv inv_tun_recv inv_transport_error
      transport_pre_resolve_def transport_wait_def transport_wait_proxy_def inv_event assms)

lemma step_inv:
  assumes "client_step C E s t" "session_inv q old n s" "q \<Longrightarrow> quiet E"
  shows "session_inv q old n t"
  using assms(1)
proof (cases rule: client_step.cases)
  case (ss_handler m)
  then show ?thesis using handler_inv assms(2,3) by blast
next
  case ss_disconnect
  then show ?thesis using assms(2) by (simp add: tun_set_disconnect_def inv_say)
next
  case ss_exit_notify
  then show ?thesis using assms(2) inv_calm [OF calm_exit_notify [OF calm_refl]] by simp
qed (simp_all add: inv_start inv_stop inv_post_cc_msg assms)

lemma reach_inv:
  assumes "session_reach C Q s t" "session_inv q old n s" "\<And>E. q \<Longrightarrow> Q E \<Longrightarrow> quiet E"
  shows "session_inv q old n t"
  using assms by (induction rule: session_reach.induct) (auto intro: step_inv)

end

end
