(* ===== verification/Client_Core.thy ===== *)
theory Client_Core
  imports Client_Reach
begin

text \<open>
  Invariants of a session and its parent that look only at whether the session has halted, at its fatal error
  and at the parent: they are proved once for every handler, from a few laws (\<open>session_core\<close>).
\<close>

section \<open>Invariants over the core of the state\<close>

text \<open>
  Other invariants look only at whether the session has halted, at its fatal error and at the parent. They
  are kept by every handler when they are kept by the end of a session, by the parent's callbacks and by
  the error codes \<open>known\<close> that the environment reports.
\<close>

definition known_env :: "(error_type \<Rightarrow> bool) \<Rightarrow> env \<Rightarrow> bool" where
  "known_env known E \<longleftrightarrow>
     (\<forall>c code err. e_throws E c = Some (Ex_code code True err) \<longrightarrow> known code) \<and>
     (\<forall>buf code err. e_transport_send E buf = Send_error code err \<longrightarrow> known code) \<and>
     (\<forall>code err. Cb_tun_error code err \<in> set (e_tun_callbacks E) \<longrightarrow> known code)"

lemma known_env_codes:
  "known_env known E \<Longrightarrow> e_throws E c = Some (Ex_code code True err) \<Longrightarrow> known code"
  "known_env known E \<Longrightarrow> e_transport_send E buf = Send_error code err \<Longrightarrow> known code"
  "known_env known E \<Longrightarrow> Cb_tun_error code err \<in> set (e_tun_callbacks E) \<Longrightarrow> known code"
  unfolding known_env_def by blast+

text \<open>A step that keeps \<open>P\<close> and throws no fatal error code but a known one.\<close>

definition good :: "('n session \<Rightarrow> bool) \<Rightarrow> (error_type \<Rightarrow> bool) \<Rightarrow> 'n step \<Rightarrow> bool" where
  "good P known m \<longleftrightarrow> P (snd m) \<and> (\<forall>code err. fst m = Some (Ex_code code True err) \<longrightarrow> known code)"

lemma good_pair [simp]: "good P known (e, s) \<longleftrightarrow> P s \<and> (\<forall>code err. e = Some (Ex_code code True err) \<longrightarrow> known code)"
  by (simp add: good_def)

locale session_core =
  fixes C :: "'n session_config" and P :: "'n session \<Rightarrow> bool" and known :: "error_type \<Rightarrow> bool"
  assumes core: "P s \<Longrightarrow> cs_halt t = cs_halt s \<Longrightarrow> cs_fatal t = cs_fatal s \<Longrightarrow> cs_parent t = cs_parent s \<Longrightarrow> P t"
    and fatal: "P s \<Longrightarrow> known code \<Longrightarrow> P (s\<lparr>cs_fatal := code\<rparr>)"
    and stop: "P s \<Longrightarrow> good P known (session_stop C True s)"
    and notify: "P s \<Longrightarrow> sc_notify C = Some N \<Longrightarrow> P (nf_connected N s) \<and> P (nf_auth_pending_timeout N k s)"
    and known_codes: "known AUTH_FAILED" "known CLIENT_HALT" "known CLIENT_RESTART" "known RELAY" "known RELAY_ERROR"
      "known INACTIVE_TIMEOUT"
begin

lemma P_say: "P s \<Longrightarrow> P (say c s)" by (erule core) (simp_all add: say_def)
lemma P_event: "P s \<Longrightarrow> P (add_event ev s)" by (erule core) (simp_all add: add_event_def)
lemma P_wait: "P s \<Longrightarrow> P (add_wait w s)" by (erule core) (simp_all add: add_wait_def)
lemma P_options: "P s \<Longrightarrow> P (put_options opt s)" by (erule core) (simp_all add: put_options_def)
lemma P_fired: "P s \<Longrightarrow> P (fired w s)" by (erule core) (simp_all add: fired_def)

lemma P_then_do: "good P known m \<Longrightarrow> (\<And>t. P t \<Longrightarrow> good P known (f t)) \<Longrightarrow> good P known (then_do m f)"
  by (cases m) (auto simp: then_do_def split: option.splits)

lemma P_ask: "P s \<Longrightarrow> known_env known E \<Longrightarrow> good P known (ask c E s)"
  by (auto simp: ask_def P_say dest: known_env_codes)

lemma P_exit_notify: "P s \<Longrightarrow> known_env known E \<Longrightarrow> good P known (session_send_explicit_exit_notify E s)"
  by (simp add: session_send_explicit_exit_notify_def P_ask)

lemma P_stop_or_throw: "P s \<Longrightarrow> good P known (stop_or_throw C what s)"
  by (simp add: stop_or_throw_def throw_lib_def stop)

lemma P_process_exception: "P s \<Longrightarrow> good P known (process_exception C e s)"
  by (simp add: process_exception_def stop)

lemma P_catch:
  "good P known m \<Longrightarrow> (\<And>e t. P t \<Longrightarrow> (\<And>code err. e = Ex_code code True err \<Longrightarrow> known code) \<Longrightarrow> good P known (h e t)) \<Longrightarrow> good P known (catch m h)"
  by (cases m) (auto simp: catch_def split: option.splits)

lemma P_set_fatal: "P s \<Longrightarrow> known code \<Longrightarrow> P (set_fatal code reason s)"
  unfolding set_fatal_def by (rule core [OF fatal [of s code]]) auto

lemma P_transport_error: "P s \<Longrightarrow> known code \<Longrightarrow> good P known (transport_error C code err s)"
  by (simp add: transport_error_def P_stop_or_throw P_set_fatal)

lemma P_proxy_error: "P s \<Longrightarrow> known code \<Longrightarrow> good P known (proxy_error C code err s)"
  by (simp add: proxy_error_def P_stop_or_throw P_set_fatal)

lemma P_tun_error: "P s \<Longrightarrow> known_env known E \<Longrightarrow> known code \<Longrightarrow> good P known (tun_error C E code err s)"
  unfolding tun_error_def by (rule P_then_do) (auto simp: P_exit_notify P_stop_or_throw P_set_fatal)

lemma P_creds: "P s \<Longrightarrow> P (s\<lparr>cs_creds := c\<rparr>)" by (erule core) simp_all

lemma P_halt_restart: "P s \<Longrightarrow> good P known (process_halt_restart C ch s)"
  by (simp add: process_halt_restart_def Let_def P_stop_or_throw P_set_fatal known_codes P_creds)

lemma P_push_timer: "P s \<Longrightarrow> P (schedule_push_request_callback d s)"
  by (simp add: schedule_push_request_callback_def P_wait)

lemma P_housekeeping_timer: "P s \<Longrightarrow> P (set_housekeeping_timer E s)"
  by (erule core) (auto simp: set_housekeeping_timer_def add_wait_def Let_def)

lemma P_active: "P s \<Longrightarrow> P (active E s)"
  by (simp add: active_def check_tls_warnings_def Let_def P_push_timer P_event)

lemma P_on_options: "(\<And>opt. good P known (snd (f opt s))) \<Longrightarrow> good P known (on_options f s)"
proof -
  assume f: "\<And>opt. good P known (snd (f opt s))"
  obtain opt e t where "f (oc_list (cs_received_options s)) s = (opt, e, t)" by (cases "f (oc_list (cs_received_options s)) s")
  with f [of "oc_list (cs_received_options s)"] show ?thesis by (auto simp: on_options_def P_options)
qed

lemma P_auth_token: "P s \<Longrightarrow> good P known (snd (auth_token_step opt s))"
  by (auto simp: auth_token_step_def P_creds split: prod.splits sum.splits)

lemma P_echo_loop: "P s \<Longrightarrow> good P known (snd (echo_loop is opt s))"
  by (induction "is" opt s rule: echo_loop.induct) (auto simp: Let_def P_event split: sum.splits)

lemma P_echo: "P s \<Longrightarrow> good P known (snd (process_echo opt s))"
  by (simp add: process_echo_def P_echo_loop split: option.splits)

lemma P_inactive: "P s \<Longrightarrow> good P known (snd (process_inactive opt s))"
proof -
  assume s: "P s"
  have 1: "P (t\<lparr>cs_inactive_duration := d\<rparr>)" "P (t\<lparr>cs_inactive_bytes := b\<rparr>)" if "P t" for t d b
    using that by (auto elim!: core)
  show ?thesis
    by (auto simp: process_inactive_def Let_def schedule_inactive_timer_def s 1 P_wait split: prod.splits sum.splits option.splits)
qed

lemma P_tun_parent:
  "P s \<Longrightarrow> known_env known E \<Longrightarrow> (\<And>code err. cb = Cb_tun_error code err \<Longrightarrow> known code) \<Longrightarrow> good P known (tun_parent C E cb s)"
proof (cases cb)
  case Cb_tun_connected
  assume "P s"
  then have "P (tun_connected E s)"
    by (rule core) (auto simp: tun_connected_def put_options_def Let_def split: prod.splits sum.splits)
  with Cb_tun_connected show ?thesis by simp
qed (simp_all add: P_event P_tun_error)

lemma P_tun_callbacks:
  assumes "P s" "known_env known E" "\<And>code err. Cb_tun_error code err \<in> set cbs \<Longrightarrow> known code"
  shows "good P known (tun_callbacks C E cbs s)"
  using assms by (induction cbs arbitrary: s) (auto intro!: P_then_do P_tun_parent)

lemma P_tun_start: "P s \<Longrightarrow> known_env known E \<Longrightarrow> good P known (tun_start C E s)"
proof -
  assume "P s" and E: "known_env known E"
  then have "P (s\<lparr>cs_tun := True\<rparr>)" by (rule_tac core) simp_all
  with E show ?thesis
    unfolding tun_start_def Let_def by (intro P_then_do P_tun_callbacks) (auto simp: P_say dest: known_env_codes)
qed

lemma P_report: "P s \<Longrightarrow> P (report_connected C E s)"
  using notify by (simp add: report_connected_def check_proto_warnings_def schedule_info_hold_callback_def Let_def P_say P_event P_wait
      split: option.split)

lemma P_complete: "P s \<Longrightarrow> known_env known E \<Longrightarrow> good P known (options_complete C E s)"
  unfolding options_complete_def
  by (auto intro!: P_then_do P_on_options simp: P_tun_error P_echo P_auth_token P_ask P_tun_start P_inactive P_say P_report
      throw_lib_def known_codes split: option.split)

lemma P_push_reply: "P s \<Longrightarrow> known_env known E \<Longrightarrow> good P known (recv_push_reply C E msg s)"
proof -
  assume s: "P s" and E: "known_env known E"
  have 1: "P (t\<lparr>cs_received_options := oc\<rparr>)" if "P t" for t oc using that by (rule core) simp_all
  have 2: "P (t\<lparr>cs_pushed_options_limit := l\<rparr>)" if "P t" for t l using that by (rule core) simp_all
  show ?thesis
    by (simp add: recv_push_reply_def Let_def s E 1 2 P_complete split: sum.split prod.split option.split)
qed

lemma P_auth_failed: "P s \<Longrightarrow> good P known (recv_auth_failed C msg s)"
  by (auto simp: recv_auth_failed_def Let_def P_creds known_codes split: option.split prod.split intro!: P_stop_or_throw P_set_fatal)

lemma P_auth_pending: "P s \<Longrightarrow> good P known (recv_auth_pending C E msg s)"
proof -
  assume s: "P s"
  have 1: "P (t\<lparr>cs_auth_pending := c\<rparr>)" if "P t" for t c using that by (rule core) simp_all
  show ?thesis
    using notify by (simp add: recv_auth_pending_def Let_def s 1 P_event P_say split: sum.split option.split)
qed

lemma P_info: "P s \<Longrightarrow> P (recv_info msg s)"
  by (erule core) (auto simp: recv_info_def Let_def add_event_def split: option.split)

lemma P_relay: "P s \<Longrightarrow> good P known (recv_relay C s)"
  by (simp add: recv_relay_def P_stop_or_throw P_set_fatal known_codes)

lemma P_control_msg: "P s \<Longrightarrow> known_env known E \<Longrightarrow> good P known (control_msg C E msg s)"
  unfolding control_msg_def
  by (simp add: P_push_reply P_auth_token P_auth_failed P_halt_restart P_info P_event P_auth_pending P_relay split: sum.split prod.split)

lemma P_send: "P s \<Longrightarrow> known_env known E \<Longrightarrow> good P known (snd (transport_send C E buf s))"
  by (auto simp: transport_send_def Let_def P_say split: send_outcome.split intro!: P_transport_error dest: known_env_codes)

lemma P_net_send: "P s \<Longrightarrow> known_env known E \<Longrightarrow> good P known (control_net_send C E buf s)"
  using P_send [of s E buf] by (auto simp: control_net_send_def P_say simp del: good_pair split: prod.split intro!: P_then_do) (simp_all add: P_say)

lemma P_callbacks: "P s \<Longrightarrow> known_env known E \<Longrightarrow> good P known (base_callbacks C E cbs s)"
proof (induction cbs arbitrary: s)
  case (Cons cb cbs)
  then show ?case by (cases cb) (auto intro!: P_then_do simp: control_recv_def P_control_msg P_net_send P_active)
qed simp

lemma P_base_call: "P s \<Longrightarrow> known_env known E \<Longrightarrow> good P known (base_call C E c s)"
  unfolding base_call_def by (rule P_then_do) (auto simp: P_callbacks P_say dest: known_env_codes)


lemma P_connecting: "P s \<Longrightarrow> known_env known E \<Longrightarrow> good P known (transport_connecting C E s)"
  unfolding transport_connecting_def
  by (intro P_catch P_then_do P_ask P_base_call P_process_exception) (auto simp: P_housekeeping_timer)

lemma P_start: "P s \<Longrightarrow> known_env known E \<Longrightarrow> good P known (client_start C E s)"
proof -
  assume s: "P s" and E: "known_env known E"
  have "P (s\<lparr>cs_housekeeping_schedule := c, cs_transport := True, cs_transport_has_send_queue := b\<rparr>)" for c b
    using s by (rule core) simp_all
  then show ?thesis by (simp add: client_start_def Let_def s E P_connecting P_say)
qed

lemma P_transport_recv: "P s \<Longrightarrow> known_env known E \<Longrightarrow> good P known (transport_recv C E buf s)"
proof -
  assume s: "P s" and E: "known_env known E"
  have 1: "P (t\<lparr>cs_first_packet_received := b\<rparr>)" if "P t" for t b using that by (rule core) simp_all
  have d: "good P known (then_do (ask Op_data_decrypt E t) (\<lambda>s.
      let b = e_data_decrypt E buf; s = (if b \<noteq> [] \<and> cs_tun s then say (Call_tun_send b) s else s) in base_call C E (Op_flush False) s))"
    if "P t" for t
    by (rule P_then_do) (use that E in \<open>auto simp: Let_def P_ask P_base_call P_say\<close>)
  have c: "good P known (then_do (base_call C E Op_control_net_recv t) (base_call C E (Op_flush True)))" if "P t" for t
    by (rule P_then_do) (use that E in \<open>auto simp: P_base_call\<close>)
  have b: "good P known (transport_recv_body C E buf s)"
    unfolding transport_recv_body_def Let_def
    by (rule P_then_do) (use d c in \<open>auto simp: Let_def s 1 P_event P_say P_housekeeping_timer split: packet_class.split\<close>)
  show ?thesis
    unfolding transport_recv_def
    by (rule P_catch [OF b]) (auto simp: P_transport_error P_process_exception P_say split: cl_exn.split)
qed

lemma P_tun_recv: "P s \<Longrightarrow> known_env known E \<Longrightarrow> good P known (tun_recv C E buf s)"
proof -
  assume s: "P s" and E: "known_env known E"
  have fin: "good P known (then_do (base_call C E (Op_flush False) t) (\<lambda>s. (None, set_housekeeping_timer E s)))" if "P t" for t
    by (rule P_then_do) (use that E in \<open>auto simp: P_base_call P_housekeeping_timer\<close>)
  have 1: "P u" if "P t" "transport_send C E b t = (x, a, u)" for b t x a u
    using P_send [OF that(1) E, of b] that(2) by simp
  have 2: "known code" if "P t" "transport_send C E b t = (x, Some (Ex_code code True err), u)" for b t x u code err
    using P_send [OF that(1) E, of b] that(2) by simp
  show ?thesis
    unfolding tun_recv_def Let_def
    by (rule P_catch, auto simp: s E P_say P_ask P_process_exception simp del: good_pair intro!: fin P_then_do split: prod.split, auto)
      (erule (1) 1 | erule (1) 2)+
qed

lemma P_push_request: "P s \<Longrightarrow> known_env known E \<Longrightarrow> good P known (send_push_request_callback C E d e s)"
proof -
  assume s: "P s" and E: "known_env known E"
  have 1: "P (t\<lparr>cs_sent_push_request := b\<rparr>)" if "P t" for t b using that by (rule core) simp_all
  show ?thesis
    unfolding send_push_request_callback_def
    by (rule P_catch) (auto simp: Let_def s E 1 P_event P_ask P_base_call P_process_exception P_housekeeping_timer P_push_timer intro!: P_then_do)
qed

lemma P_schedule: "P s \<Longrightarrow> P (s\<lparr>cs_housekeeping_schedule := c\<rparr>)" by (erule core) simp_all

lemma P_housekeeping: "P s \<Longrightarrow> known_env known E \<Longrightarrow> good P known (housekeeping_callback C E e s)"
  unfolding housekeeping_callback_def
  by (rule P_catch) (auto simp: P_schedule P_base_call P_stop_or_throw P_process_exception P_housekeeping_timer intro!: P_then_do)

lemma P_inactive_callback: "P s \<Longrightarrow> known_env known E \<Longrightarrow> good P known (inactive_callback C E e s)"
proof -
  assume s: "P s" and E: "known_env known E"
  have 1: "P (t\<lparr>cs_inactive_last_sample := b\<rparr>)" if "P t" for t b using that by (rule core) simp_all
  show ?thesis
    unfolding inactive_callback_def schedule_inactive_timer_def
    by (rule P_catch) (auto simp: Let_def s E 1 fatal known_codes P_wait P_exit_notify P_stop_or_throw P_process_exception intro!: P_then_do)
qed

lemma P_info_hold: "P s \<Longrightarrow> P (info_hold_callback e s)"
  by (erule core) (auto simp: info_hold_callback_def split: option.split)

lemma P_handler:
  assumes "session_handler C known E s m" "P s" "known_env known E"
  shows "good P known m"
  using assms(1)
  by (cases rule: session_handler.cases)
    (auto simp: assms(2,3) P_connecting P_transport_recv P_tun_recv P_transport_error P_proxy_error P_push_request P_housekeeping
      P_inactive_callback P_info_hold P_fired P_event transport_pre_resolve_def transport_wait_def transport_wait_proxy_def
      simp del: tun_parent.simps intro!: P_tun_parent)

end

end
