(* ===== verification/Client_Connect.thy ===== *)
theory Client_Connect
  imports Client_Core
begin

text \<open>
  \<^verbatim>\<open>client/cliconnect.hpp\<close>: \<open>ClientConnect\<close>, which keeps a session going: it starts one session after
  another, with a timer between them, until it is stopped or an error ends the attempts.

  It is the parent of the session: its state is the \<open>cs_parent\<close> of the current session, so that a
  world is a \<open>connect session\<close>. Without a client (\<open>cn_client\<close> false) only the credentials and the event
  queue of the session record mean anything; both belong to the client options. A new session replaces the
  session's fields and keeps these. The waits of a replaced session are dropped: their handlers do nothing
  once the session has halted (\<open>halted_handlers\<close>).

  Each of the three timers holds the wait it is armed with; \<open>cn_waits\<close> are all waits ever made, since a
  handler that asio has already queued runs although its timer is cancelled or armed again. The options are
  read through \<open>connect_options\<close>; what is asked of them, of the life cycle and of the statistics is kept in
  \<open>cn_calls\<close>. The clock is in milliseconds.
\<close>

section \<open>State\<close>

datatype cn_wait = Cw_restart u32 duration | Cw_server_poll u32 duration | Cw_conn u32 int

datatype cn_call =
    Cc_finalize bool | Cc_remote_reset_cache_item | Cc_next | Cc_stats_error error_type
  | Cc_lifecycle_start | Cc_lifecycle_stop | Cc_pre_resolve_start | Cc_pre_resolve_cancel
  | Cc_asio_work bool | Cc_transport_factory_relay

record connect_options =
  co_network_available :: bool
  co_lifecycle :: bool
  co_pre_resolve_work :: bool
  co_pause_on_connection_timeout :: bool
  co_retry_on_auth_failed :: bool
  co_asio_work_always_on :: bool
  co_server_poll_timeout_enabled :: bool
  co_server_poll_timeout :: duration
  co_conn_timeout :: int
  co_relay :: bool
  co_push_base :: "push_options_base option"
  co_tcp_queue_limit :: u32
  co_echo :: bool
  co_info :: bool
  co_autologin_sessions :: bool
  co_filter :: "(conf_option \<Rightarrow> bool) option"

record connect =
  cn_generation :: u32
  cn_halt :: bool
  cn_paused :: bool
  cn_client :: bool
  cn_client_finalized :: bool
  cn_dont_restart :: bool
  cn_lifecycle_started :: bool
  cn_conn_timer_pending :: bool
  cn_transport_factory_relay :: bool
  cn_relay_mode :: bool
  cn_over_relay :: bool
  cn_pre_resolve :: bool
  cn_restart_timer :: "cn_wait option"
  cn_server_poll_timer :: "cn_wait option"
  cn_conn_timer :: "cn_wait option"
  cn_conn_expiry :: int
  cn_now :: int
  cn_waits :: "cn_wait list"
  cn_calls :: "cn_call list"

type_synonym world = "connect session"

definition connect_new :: connect where
  "connect_new =
     \<lparr>cn_generation = 0, cn_halt = False, cn_paused = False, cn_client = False, cn_client_finalized = False,
      cn_dont_restart = False, cn_lifecycle_started = False, cn_conn_timer_pending = False, cn_transport_factory_relay = False,
      cn_relay_mode = False, cn_over_relay = False, cn_pre_resolve = False, cn_restart_timer = None, cn_server_poll_timer = None,
      cn_conn_timer = None, cn_conn_expiry = 0, cn_now = 0, cn_waits = [], cn_calls = []\<rparr>"

definition world_new :: "creds option \<Rightarrow> world" where
  "world_new creds = session_new None creds [] [] [] connect_new"

definition on_cn :: "(connect \<Rightarrow> connect) \<Rightarrow> world \<Rightarrow> world" where
  "on_cn f w = w\<lparr>cs_parent := f (cs_parent w)\<rparr>"

abbreviation (input) cn :: "world \<Rightarrow> connect" where "cn w \<equiv> cs_parent w"

definition tell :: "cn_call \<Rightarrow> world \<Rightarrow> world" where
  "tell c = on_cn (\<lambda>p. p\<lparr>cn_calls := cn_calls p @ [c]\<rparr>)"


section \<open>Stopping\<close>

definition interim_finalize :: "world \<Rightarrow> world" where
  "interim_finalize w =
     (if \<not> cn_client_finalized (cn w) then on_cn (\<lambda>p. p\<lparr>cn_client_finalized := True\<rparr>) (tell (Cc_finalize False) w) else w)"

definition cancel_timers :: "world \<Rightarrow> world" where
  "cancel_timers =
     on_cn (\<lambda>p. p\<lparr>cn_restart_timer := None, cn_server_poll_timer := None, cn_conn_timer := None, cn_conn_timer_pending := False\<rparr>)"

text \<open>\<open>client->stop(false)\<close> does not call back, so that the configuration of the session does not matter.\<close>

definition client_stop :: "world \<Rightarrow> world" where
  "client_stop w =
     snd (session_stop \<lparr>sc_notify = None, sc_transport_is_relay = False, sc_tcp_queue_limit = 0, sc_echo = False, sc_info = False,
       sc_autologin_sessions = False, sc_relay_mode = False, sc_filter = None\<rparr> False w)"

definition connect_stop :: "connect_options \<Rightarrow> world \<Rightarrow> world" where
  "connect_stop co w =
     (if \<not> cn_halt (cn w)
      then (let w = on_cn (\<lambda>p. p\<lparr>cn_halt := True\<rparr>) w;
                w = (if cn_pre_resolve (cn w) then tell Cc_pre_resolve_cancel w else w);
                w = (if cn_client (cn w) then client_stop (tun_set_disconnect w) else w);
                w = tell (Cc_asio_work False) (cancel_timers w);
                w = tell (Cc_finalize True) w;
                w = (if cn_lifecycle_started (cn w) \<and> co_lifecycle co then tell Cc_lifecycle_stop w else w)
            in add_event (Plain_event EV_DISCONNECTED) w)
      else w)"

definition connect_send_explicit_exit_notify :: "env \<Rightarrow> world \<Rightarrow> connect step" where
  "connect_send_explicit_exit_notify E w =
     (if \<not> cn_halt (cn w) \<and> cn_client (cn w) then session_send_explicit_exit_notify E w else (None, w))"

definition graceful_stop :: "connect_options \<Rightarrow> env \<Rightarrow> world \<Rightarrow> connect step" where
  "graceful_stop co E w = then_do (connect_send_explicit_exit_notify E w) (\<lambda>w. (None, connect_stop co w))"


section \<open>Callbacks of the session\<close>

definition arm_restart :: "duration \<Rightarrow> world \<Rightarrow> world" where
  "arm_restart d w =
     (let c = Cw_restart (cn_generation (cn w)) d
      in on_cn (\<lambda>p. p\<lparr>cn_restart_timer := Some c, cn_waits := cn_waits p @ [c]\<rparr>) w)"

definition cancel_server_poll :: "world \<Rightarrow> world" where
  "cancel_server_poll = on_cn (\<lambda>p. p\<lparr>cn_server_poll_timer := None\<rparr>)"

definition queue_restart :: "u64 \<Rightarrow> world \<Rightarrow> world" where
  "queue_restart delay_ms w =
     arm_restart (dur_milliseconds delay_ms) (tell Cc_remote_reset_cache_item (interim_finalize (cancel_server_poll w)))"

definition conn_timer_start :: "int \<Rightarrow> world \<Rightarrow> world" where
  "conn_timer_start timeout w =
     (if \<not> cn_conn_timer_pending (cn w) \<and> timeout > 0
      then (let c = Cw_conn (cn_generation (cn w)) timeout
            in on_cn (\<lambda>p. p\<lparr>cn_conn_timer := Some c, cn_conn_expiry := cn_now p + 1000 * timeout, cn_waits := cn_waits p @ [c],
                            cn_conn_timer_pending := True\<rparr>) w)
      else w)"

definition client_proto_connected :: "connect_options \<Rightarrow> world \<Rightarrow> world" where
  "client_proto_connected co w =
     (let w = on_cn (\<lambda>p. p\<lparr>cn_conn_timer := None, cn_conn_timer_pending := False\<rparr>) w
      in if \<not> cn_lifecycle_started (cn w) \<and> co_lifecycle co
         then on_cn (\<lambda>p. p\<lparr>cn_lifecycle_started := True\<rparr>) (tell Cc_lifecycle_start w) else w)"

definition client_proto_auth_pending_timeout :: "int \<Rightarrow> world \<Rightarrow> world" where
  "client_proto_auth_pending_timeout timeout w =
     (if cn_conn_timer_pending (cn w)
      then (let d = cn_conn_expiry (cn w) - cn_now (cn w); timer_left = sgn d * (\<bar>d\<bar> div 1000)
            in if timer_left < timeout
               then conn_timer_start timeout (on_cn (\<lambda>p. p\<lparr>cn_conn_timer := None, cn_conn_timer_pending := False\<rparr>) w)
               else w)
      else w)"

definition report :: "client_event \<Rightarrow> error_type \<Rightarrow> world \<Rightarrow> world" where
  "report ev err w = tell (Cc_stats_error err) (add_event ev w)"

text \<open>The cases of the switch on \<open>client->fatal()\<close>.\<close>

definition terminate_fatal :: "connect_options \<Rightarrow> error_type \<Rightarrow> string \<Rightarrow> world \<Rightarrow> connect step" where
  "terminate_fatal co err reason w =
     (let stop_with = (\<lambda>ev. (None, connect_stop co (report ev err w)));
          restart_with = (\<lambda>ev ms. (None, queue_restart ms (report ev err w)))
      in if err = 0 then (None, queue_restart 2000 w)
         else if err = AUTH_FAILED
         then (if is_dynamic reason then (None, connect_stop co (add_event (Reason_event EV_DYNAMIC_CHALLENGE reason) w))
               else (None, (if co_retry_on_auth_failed co then queue_restart 5000 else connect_stop co)
                             (report (Reason_event EV_AUTH_FAILED reason) err w)))
         else if err = TUN_SETUP_FAILED then stop_with (Reason_event EV_TUN_SETUP_FAILED reason)
         else if err = TUN_REGISTER_RINGS_ERROR then stop_with (Reason_event EV_TUN_SETUP_FAILED reason)
         else if err = TUN_IFACE_CREATE then stop_with (Reason_event EV_TUN_IFACE_CREATE reason)
         else if err = TUN_IFACE_DISABLED then restart_with (Reason_event EV_TUN_IFACE_DISABLED reason) 5000
         else if err = PROXY_ERROR then stop_with (Reason_event EV_PROXY_ERROR reason)
         else if err = PROXY_NEED_CREDS then stop_with (Reason_event EV_PROXY_NEED_CREDS reason)
         else if err = CERT_VERIFY_FAIL then stop_with (Reason_event EV_CERT_VERIFY_FAIL reason)
         else if err = TLS_VERSION_MIN then stop_with (Plain_event EV_TLS_VERSION_MIN)
         else if err = CLIENT_HALT then stop_with (Reason_event EV_CLIENT_HALT reason)
         else if err = CLIENT_RESTART then restart_with (Reason_event EV_CLIENT_RESTART reason) 2000
         else if err = INACTIVE_TIMEOUT then stop_with (Plain_event EV_INACTIVE_TIMEOUT)
         else if err = TRANSPORT_ERROR then restart_with (Reason_event EV_TRANSPORT_ERROR reason) 5000
         else if err = TUN_ERROR then restart_with (Reason_event EV_TUN_ERROR reason) 5000
         else if err = TUN_HALT then stop_with (Reason_event EV_TUN_HALT reason)
         else if err = RELAY
         then (None, queue_restart 0 (on_cn (\<lambda>p. p\<lparr>cn_transport_factory_relay := True\<rparr>)
                 (tell Cc_transport_factory_relay (report (Plain_event EV_RELAY) err w))))
         else if err = RELAY_ERROR then stop_with (Reason_event EV_RELAY_ERROR reason)
         else (Some (Ex_lib (Std_exception ''client_connect_unhandled_exception'')), w))"

definition client_proto_terminate :: "connect_options \<Rightarrow> world \<Rightarrow> connect step" where
  "client_proto_terminate co w =
     (if \<not> cn_halt (cn w)
      then (if cn_dont_restart (cn w) then (None, connect_stop co w)
            else terminate_fatal co (cs_fatal w) (cs_fatal_reason w) w)
      else (None, w))"

definition connect_notify :: "connect_options \<Rightarrow> connect notify" where
  "connect_notify co =
     \<lparr>nf_terminate = client_proto_terminate co, nf_connected = client_proto_connected co,
      nf_auth_pending_timeout = client_proto_auth_pending_timeout\<rparr>"

text \<open>The configuration of a session (\<open>client_config\<close>); the relay profile is used when there is one.\<close>

definition client_config :: "connect_options \<Rightarrow> world \<Rightarrow> connect session_config" where
  "client_config co w =
     \<lparr>sc_notify = Some (connect_notify co), sc_transport_is_relay = cn_over_relay (cn w), sc_tcp_queue_limit = co_tcp_queue_limit co,
      sc_echo = co_echo co, sc_info = co_info co, sc_autologin_sessions = co_autologin_sessions co,
      sc_relay_mode = cn_relay_mode (cn w) \<and> co_relay co, sc_filter = co_filter co\<rparr>"


section \<open>Sessions one after the other\<close>

definition new_client :: "connect_options \<Rightarrow> env \<Rightarrow> world \<Rightarrow> connect step" where
  "new_client co E w =
     (let w = on_cn (\<lambda>p. p\<lparr>cn_generation := cn_generation p + 1\<rparr>) w;
          w = tell (Cc_asio_work (co_asio_work_always_on co)) w;
          w = (if cn_client (cn w) then interim_finalize (client_stop w) else w);
          w = (if cn_generation (cn w) > 1 \<and> \<not> cn_transport_factory_relay (cn w)
               then (let w = report (Plain_event EV_RECONNECTING) N_RECONNECT w
                     in if \<not> (cn_client (cn w) \<and> cs_connected w \<noteq> None) then tell Cc_next w else w)
               else w);
          w = session_new (co_push_base co) (cs_creds w) (cs_events w) (cs_calls w) []
                ((cn w)\<lparr>cn_client := True, cn_client_finalized := False, cn_relay_mode := \<not> cn_transport_factory_relay (cn w),
                         cn_over_relay := cn_transport_factory_relay (cn w), cn_transport_factory_relay := False,
                         cn_restart_timer := None\<rparr>);
          w = (if co_server_poll_timeout_enabled co
               then (let c = Cw_server_poll (cn_generation (cn w)) (co_server_poll_timeout co)
                     in on_cn (\<lambda>p. p\<lparr>cn_server_poll_timer := Some c, cn_waits := cn_waits p @ [c]\<rparr>) w)
               else w);
          w = conn_timer_start (co_conn_timeout co) w
      in client_start (client_config co w) E w)"

definition connect_start :: "connect_options \<Rightarrow> env \<Rightarrow> world \<Rightarrow> connect step" where
  "connect_start co E w =
     (if \<not> cn_client (cn w) \<and> \<not> cn_halt (cn w)
      then (if co_lifecycle co \<and> \<not> co_network_available co
            then (Some (Ex_code NETWORK_UNAVAILABLE True ''Network Unavailable''), w)
            else if co_pre_resolve_work co
            then (None, tell Cc_pre_resolve_start
                          (on_cn (\<lambda>p. p\<lparr>cn_pre_resolve := True\<rparr>) (add_event (Plain_event EV_RESOLVE) w)))
            else new_client co E w)
      else (None, w))"

definition pre_resolve_done :: "connect_options \<Rightarrow> env \<Rightarrow> world \<Rightarrow> connect step" where
  "pre_resolve_done co E w = (if \<not> cn_halt (cn w) then new_client co E w else (None, w))"

definition connect_pause :: "string \<Rightarrow> env \<Rightarrow> world \<Rightarrow> connect step" where
  "connect_pause reason E w =
     (if \<not> cn_halt (cn w) \<and> \<not> cn_paused (cn w)
      then (let w = on_cn (\<lambda>p. p\<lparr>cn_paused := True\<rparr>) w
            in then_do
                 (if cn_client (cn w)
                  then then_do (session_send_explicit_exit_notify E w) (\<lambda>w. (None, interim_finalize (client_stop w)))
                  else (None, w))
                 (\<lambda>w. (None, report (Reason_event EV_PAUSE reason) N_PAUSE (tell (Cc_asio_work True) (cancel_timers w)))))
      else (None, w))"

definition connect_resume :: "connect_options \<Rightarrow> env \<Rightarrow> world \<Rightarrow> connect step" where
  "connect_resume co E w =
     (if \<not> cn_halt (cn w) \<and> cn_paused (cn w)
      then new_client co E (tell Cc_remote_reset_cache_item
             (add_event (Plain_event EV_RESUME) (on_cn (\<lambda>p. p\<lparr>cn_paused := False\<rparr>) w)))
      else (None, w))"

definition connect_reconnect :: "int \<Rightarrow> world \<Rightarrow> world" where
  "connect_reconnect seconds w =
     (if \<not> cn_halt (cn w)
      then arm_restart (dur_seconds (word_of_int (if seconds < 0 then 0 else seconds)))
             (tell Cc_remote_reset_cache_item (cancel_server_poll w))
      else w)"

definition dont_restart :: "world \<Rightarrow> world" where
  "dont_restart = on_cn (\<lambda>p. p\<lparr>cn_dont_restart := True\<rparr>)"

definition connect_post_cc_msg :: "connect_options \<Rightarrow> env \<Rightarrow> string \<Rightarrow> world \<Rightarrow> connect step" where
  "connect_post_cc_msg co E msg w =
     (if \<not> cn_halt (cn w) \<and> cn_client (cn w) then post_cc_msg (client_config co w) E msg w else (None, w))"

definition restart_wait_callback :: "connect_options \<Rightarrow> env \<Rightarrow> u32 \<Rightarrow> bool \<Rightarrow> world \<Rightarrow> connect step" where
  "restart_wait_callback co E gen e w =
     (if \<not> e \<and> gen = cn_generation (cn w) \<and> \<not> cn_halt (cn w)
      then (if cn_paused (cn w) then connect_resume co E w
            else then_do (if cn_client (cn w) then session_send_explicit_exit_notify E w else (None, w)) (new_client co E))
      else (None, w))"

definition server_poll_callback :: "connect_options \<Rightarrow> env \<Rightarrow> u32 \<Rightarrow> bool \<Rightarrow> world \<Rightarrow> connect step" where
  "server_poll_callback co E gen e w =
     (if \<not> e \<and> gen = cn_generation (cn w) \<and> \<not> cn_halt (cn w) \<and> \<not> cs_first_packet_received w
      then new_client co E w else (None, w))"

definition conn_timer_callback :: "connect_options \<Rightarrow> env \<Rightarrow> bool \<Rightarrow> world \<Rightarrow> connect step" where
  "conn_timer_callback co E e w =
     (if \<not> e \<and> \<not> cn_halt (cn w)
      then (let w = tell (Cc_stats_error CONNECTION_TIMEOUT) w
            in if \<not> cn_paused (cn w) \<and> co_pause_on_connection_timeout co then connect_pause [] E w
               else (None, connect_stop co (add_event (Plain_event EV_CONNECTION_TIMEOUT) w)))
      else (None, w))"

end
