(* ===== verification/Connect_Life.thy ===== *)
theory Connect_Life
  imports Client_Connect
begin

text \<open>
  \<open>ClientConnect\<close> keeps the contract of a session's parent, so that every property of the sessions holds for
  the sessions it runs. Its own steps and the states they reach: a connection that is neither stopped nor
  paused has a running session or a restart under way.
\<close>

section \<open>The contract of the parent\<close>

lemma frame_refl [simp]: "parent_frame s s"
  unfolding parent_frame_def by (intro exI [of _ "cs_parent s"] exI [of _ "[]"]) simp

lemma frame_trans: "parent_frame s t \<Longrightarrow> parent_frame t u \<Longrightarrow> parent_frame s u"
  unfolding parent_frame_def
proof (elim exE conjE)
  fix p evs cs p' evs' cs'
  assume "t = s\<lparr>cs_parent := p, cs_events := cs_events s @ evs, cs_calls := cs_calls s @ cs\<rparr>"
    "u = t\<lparr>cs_parent := p', cs_events := cs_events t @ evs', cs_calls := cs_calls t @ cs'\<rparr>"
    "\<forall>e\<in>set evs. plain_ev e" "\<forall>e\<in>set evs'. plain_ev e" "Call_terminate \<notin> set cs" "Call_terminate \<notin> set cs'"
  then show "\<exists>p evs cs. u = s\<lparr>cs_parent := p, cs_events := cs_events s @ evs, cs_calls := cs_calls s @ cs\<rparr> \<and>
      (\<forall>e\<in>set evs. plain_ev e) \<and> Call_terminate \<notin> set cs"
    by (intro exI [of _ p'] exI [of _ "evs @ evs'"] exI [of _ "cs @ cs'"]) auto
qed

lemma frame_on_cn: "parent_frame s t \<Longrightarrow> parent_frame s (on_cn f t)"
  by (erule frame_trans) (unfold parent_frame_def on_cn_def, intro exI [of _ "f (cs_parent t)"] exI [of _ "[]"], simp)

lemma frame_event: "plain_ev ev \<Longrightarrow> parent_frame s t \<Longrightarrow> parent_frame s (add_event ev t)"
  by (erule frame_trans) (unfold parent_frame_def add_event_def, intro exI [of _ "cs_parent t"] exI [of _ "[ev]"] exI [of _ "[]"], simp)

lemma frame_say: "c \<noteq> Call_terminate \<Longrightarrow> parent_frame s t \<Longrightarrow> parent_frame s (say c t)"
  by (erule frame_trans) (unfold parent_frame_def say_def, intro exI [of _ "cs_parent t"] exI [of _ "[]"] exI [of _ "[c]"], simp)

lemma frame_tell: "parent_frame s t \<Longrightarrow> parent_frame s (tell c t)"
  by (simp add: tell_def frame_on_cn)

lemma frame_disconnect: "parent_frame s t \<Longrightarrow> parent_frame s (tun_set_disconnect t)"
  by (simp add: tun_set_disconnect_def frame_say)

lemma client_stop_halted: "cs_halt w \<Longrightarrow> client_stop w = w"
  by (simp add: client_stop_def session_stop_def)

lemma halt_fields [simp]:
  "cs_halt (on_cn f w) = cs_halt w" "cs_halt (tell c w) = cs_halt w" "cs_halt (add_event ev w) = cs_halt w"
  "cs_halt (say k w) = cs_halt w" "cs_halt (tun_set_disconnect w) = cs_halt w"
  by (simp_all add: on_cn_def tell_def add_event_def say_def tun_set_disconnect_def)

lemma frame_stop:
  assumes "cs_halt w"
  shows "parent_frame w (connect_stop co w)"
  using assms unfolding connect_stop_def cancel_timers_def Let_def
  by (simp add: client_stop_halted frame_event frame_tell frame_on_cn frame_disconnect)

lemma frame_report: "plain_ev ev \<Longrightarrow> parent_frame s t \<Longrightarrow> parent_frame s (report ev err t)"
  by (simp add: report_def frame_tell frame_event)

lemma frame_restart: "parent_frame s t \<Longrightarrow> parent_frame s (queue_restart ms t)"
  by (simp add: queue_restart_def arm_restart_def interim_finalize_def cancel_server_poll_def Let_def frame_on_cn frame_tell)

lemma halt_report [simp]: "cs_halt (report ev err w) = cs_halt w" "cs_halt (queue_restart ms w) = cs_halt w"
  by (simp_all add: report_def queue_restart_def arm_restart_def interim_finalize_def cancel_server_poll_def Let_def)

lemma frame_terminate:
  assumes "cs_halt w"
  shows "parent_frame w (snd (client_proto_terminate co w))"
proof -
  have stop: "parent_frame w (connect_stop co t)" if "parent_frame w t" "cs_halt t" for t
    using that frame_stop frame_trans by blast
  show ?thesis
    unfolding client_proto_terminate_def terminate_fatal_def Let_def using assms
    by (simp add: stop frame_stop frame_event frame_restart frame_report frame_on_cn frame_tell)
qed

lemma frame_connected: "parent_frame w (client_proto_connected co w)"
  by (simp add: client_proto_connected_def Let_def frame_on_cn frame_tell)

lemma frame_auth_pending: "parent_frame w (client_proto_auth_pending_timeout t w)"
  by (simp add: client_proto_auth_pending_timeout_def conn_timer_start_def Let_def frame_on_cn)

interpretation cl: session_parent "client_config co w" for co w
  by unfold_locales
    (auto simp: client_config_def connect_notify_def frame_terminate frame_connected frame_auth_pending)


section \<open>A connection is not stuck\<close>

text \<open>The fatal errors the connection knows.\<close>

definition handled :: "error_type \<Rightarrow> bool" where
  "handled err \<longleftrightarrow> err \<in> {0, AUTH_FAILED, TUN_SETUP_FAILED, TUN_REGISTER_RINGS_ERROR, TUN_IFACE_CREATE, TUN_IFACE_DISABLED,
     PROXY_ERROR, PROXY_NEED_CREDS, CERT_VERIFY_FAIL, TLS_VERSION_MIN, CLIENT_HALT, CLIENT_RESTART, INACTIVE_TIMEOUT,
     TRANSPORT_ERROR, TUN_ERROR, TUN_HALT, RELAY, RELAY_ERROR}"

definition restart_armed :: "connect \<Rightarrow> bool" where
  "restart_armed p \<longleftrightarrow> (\<exists>d. cn_restart_timer p = Some (Cw_restart (cn_generation p) d))"

definition lively :: "world \<Rightarrow> bool" where
  "lively w \<longleftrightarrow> handled (cs_fatal w) \<and>
     (cn_client (cn w) \<and> \<not> cn_halt (cn w) \<and> \<not> cn_paused (cn w) \<and> cs_halt w \<longrightarrow> restart_armed (cn w))"

definition restarts :: "connect_options \<Rightarrow> error_type \<Rightarrow> string \<Rightarrow> bool" where
  "restarts co err reason \<longleftrightarrow>
     err \<in> {0, TUN_IFACE_DISABLED, CLIENT_RESTART, TRANSPORT_ERROR, TUN_ERROR, RELAY} \<or>
     (err = AUTH_FAILED \<and> \<not> is_dynamic reason \<and> co_retry_on_auth_failed co)"

lemma cn_fields [simp]:
  "cs_parent (on_cn f w) = f (cs_parent w)" "cs_parent (add_event ev w) = cs_parent w" "cs_parent (say k w) = cs_parent w"
  "cs_parent (tun_set_disconnect w) = cs_parent w"
  by (simp_all add: on_cn_def add_event_def say_def tun_set_disconnect_def)

lemma tell_parent: "cs_parent (tell c w) = (cs_parent w)\<lparr>cn_calls := cn_calls (cs_parent w) @ [c]\<rparr>"
  by (simp add: tell_def on_cn_def)

lemma stop_halts [simp]: "cn_halt (cn (connect_stop co w))"
proof -
  have "cn_halt (cn (client_stop v)) = cn_halt (cn v)" for v
    by (simp add: client_stop_def session_stop_def then_do_def Let_def)
  then show ?thesis by (simp add: connect_stop_def cancel_timers_def tell_parent Let_def)
qed

lemma stop_disconnected: "\<not> cn_halt (cn w) \<Longrightarrow> last (cs_events (connect_stop co w)) = Plain_event EV_DISCONNECTED"
  by (simp add: connect_stop_def add_event_def Let_def)

lemma restart_arms [simp]: "restart_armed (cn (queue_restart ms w))" "cn_halt (cn (queue_restart ms w)) = cn_halt (cn w)"
  by (simp_all add: queue_restart_def arm_restart_def restart_armed_def interim_finalize_def cancel_server_poll_def tell_parent Let_def)

lemma report_halt [simp]: "cn_halt (cn (report ev err w)) = cn_halt (cn w)"
  by (simp add: report_def tell_parent)

lemma terminate_cases:
  assumes "\<not> cn_halt (cn w)" "handled err"
  shows "fst (terminate_fatal co err reason w) = None"
    "if restarts co err reason
     then \<not> cn_halt (cn (snd (terminate_fatal co err reason w))) \<and> restart_armed (cn (snd (terminate_fatal co err reason w)))
     else cn_halt (cn (snd (terminate_fatal co err reason w))) \<and>
       last (cs_events (snd (terminate_fatal co err reason w))) = Plain_event EV_DISCONNECTED"
  using assms unfolding handled_def restarts_def terminate_fatal_def
  by (auto simp: Let_def stop_disconnected tell_parent)


lemma lively_same:
  assumes "lively w" "cs_halt t = cs_halt w" "cs_fatal t = cs_fatal w" "cn_generation (cn t) = cn_generation (cn w)"
    "cn_halt (cn t) = cn_halt (cn w)" "cn_paused (cn t) = cn_paused (cn w)" "cn_client (cn t) = cn_client (cn w)"
    "cn_restart_timer (cn t) = cn_restart_timer (cn w)"
  shows "lively t"
  using assms by (simp add: lively_def restart_armed_def)

lemma lively_halted: "cn_halt (cn w) \<Longrightarrow> handled (cs_fatal w) \<Longrightarrow> lively w"
  by (simp add: lively_def)

lemma frame_fatal: "parent_frame s t \<Longrightarrow> cs_fatal t = cs_fatal s \<and> cs_halt t = cs_halt s"
  by (auto simp: parent_frame_def)

lemma lively_terminate:
  assumes "handled (cs_fatal w)" "cs_halt w"
  shows "fst (client_proto_terminate co w) = None" "lively (snd (client_proto_terminate co w))"
proof -
  have f: "handled (cs_fatal (snd (client_proto_terminate co w)))"
    using frame_fatal [OF frame_terminate [OF assms(2)]] assms(1) by simp
  note t = terminate_cases [OF _ assms(1), of w co "cs_fatal_reason w"]
  show "fst (client_proto_terminate co w) = None" using t by (simp add: client_proto_terminate_def)
  have "cn_halt (cn (snd (client_proto_terminate co w))) \<or> restart_armed (cn (snd (client_proto_terminate co w)))"
    using t by (auto simp: client_proto_terminate_def split: if_splits)
  with f show "lively (snd (client_proto_terminate co w))" by (auto simp: lively_def)
qed

lemma lively_session_stop:
  assumes "lively s"
  shows "good lively handled (session_stop (client_config co w) True s)"
proof -
  define t where "t = say Call_terminate (say Call_cancel_timers (s\<lparr>cs_halt := True\<rparr>))"
  have t: "cs_halt t" "handled (cs_fatal t)" using assms by (simp_all add: t_def say_def lively_def)
  have "lively v \<Longrightarrow> lively (say c v)" for c v by (erule lively_same) (simp_all add: say_def)
  with lively_terminate [OF t(2,1), of co] show ?thesis
    using assms unfolding session_stop_def client_config_def connect_notify_def
    by (cases "client_proto_terminate co t") (simp add: Let_def then_do_def t_def)
qed

lemma lively_notify:
  "lively s \<Longrightarrow> lively (client_proto_connected co s)"
  "lively s \<Longrightarrow> lively (client_proto_auth_pending_timeout k s)"
  by (erule lively_same; simp add: client_proto_connected_def client_proto_auth_pending_timeout_def conn_timer_start_def on_cn_def tell_def Let_def)+

lemma handled_codes: "handled 0" "handled AUTH_FAILED" "handled CLIENT_HALT" "handled CLIENT_RESTART" "handled RELAY" "handled RELAY_ERROR"
  "handled INACTIVE_TIMEOUT"
  by (simp_all add: handled_def)

interpretation live: session_core "client_config co w" lively handled for co w
proof (unfold_locales, goal_cases)
  case (1 s t) then show ?case using lively_same [of s t] by simp
next
  case (2 s code) then show ?case by (simp add: lively_def)
next
  case (3 s) then show ?case by (rule lively_session_stop)
next
  case (4 s N k) then show ?case by (auto simp: client_config_def connect_notify_def lively_notify)
qed (simp_all add: handled_codes)


section \<open>The steps of a connection\<close>

text \<open>A timer that is armed fires without an error; a handler asio has already queued may still run late.\<close>

inductive connect_step :: "connect_options \<Rightarrow> env \<Rightarrow> world \<Rightarrow> connect step \<Rightarrow> bool" for co E where
  co_start: "connect_step co E w (connect_start co E w)"
| co_resolved: "cn_pre_resolve (cn w) \<Longrightarrow> connect_step co E w (pre_resolve_done co E w)"
| co_session: "cn_client (cn w) \<Longrightarrow> session_handler (client_config co w) handled E w m \<Longrightarrow> connect_step co E w m"
| co_stop: "connect_step co E w (None, connect_stop co w)"
| co_graceful_stop: "connect_step co E w (graceful_stop co E w)"
| co_exit_notify: "connect_step co E w (connect_send_explicit_exit_notify E w)"
| co_pause: "connect_step co E w (connect_pause reason E w)"
| co_resume: "connect_step co E w (connect_resume co E w)"
| co_reconnect: "connect_step co E w (None, connect_reconnect seconds w)"
| co_dont_restart: "connect_step co E w (None, dont_restart w)"
| co_post_cc_msg: "connect_step co E w (connect_post_cc_msg co E msg w)"
| co_restart: "cn_restart_timer (cn w) = Some (Cw_restart gen d) \<Longrightarrow>
    connect_step co E w (restart_wait_callback co E gen False (on_cn (\<lambda>p. p\<lparr>cn_restart_timer := None\<rparr>) w))"
| co_server_poll: "cn_server_poll_timer (cn w) = Some (Cw_server_poll gen d) \<Longrightarrow>
    connect_step co E w (server_poll_callback co E gen False (on_cn (\<lambda>p. p\<lparr>cn_server_poll_timer := None\<rparr>) w))"
| co_conn_timer: "cn_conn_timer (cn w) = Some c \<Longrightarrow>
    connect_step co E w (conn_timer_callback co E False (on_cn (\<lambda>p. p\<lparr>cn_conn_timer := None\<rparr>) w))"
| co_late_restart: "Cw_restart gen d \<in> set (cn_waits (cn w)) \<Longrightarrow> connect_step co E w (restart_wait_callback co E gen e w)"
| co_late_server_poll: "Cw_server_poll gen d \<in> set (cn_waits (cn w)) \<Longrightarrow> connect_step co E w (server_poll_callback co E gen e w)"
| co_late_conn_timer: "Cw_conn gen n \<in> set (cn_waits (cn w)) \<Longrightarrow> connect_step co E w (conn_timer_callback co E e w)"
| co_tick: "n \<ge> 0 \<Longrightarrow> connect_step co E w (None, on_cn (\<lambda>p. p\<lparr>cn_now := cn_now p + n\<rparr>) w)"

inductive connect_reach :: "connect_options \<Rightarrow> creds option \<Rightarrow> world \<Rightarrow> bool" for co creds where
  cr_start: "connect_reach co creds (world_new creds)"
| cr_step: "connect_reach co creds w \<Longrightarrow> known_env handled E \<Longrightarrow> connect_step co E w m \<Longrightarrow> connect_reach co creds (snd m)"

lemma lively_tell: "lively w \<Longrightarrow> lively (tell c w)"
  by (erule lively_same) (simp_all add: tell_def on_cn_def)

lemma lively_event: "lively w \<Longrightarrow> lively (add_event ev w)"
  by (erule lively_same) (simp_all add: add_event_def)

lemma lively_report: "lively w \<Longrightarrow> lively (report ev err w)"
  by (simp add: report_def lively_tell lively_event)

lemma stop_fields:
  "cs_fatal (client_stop w) = cs_fatal w" "cs_parent (client_stop w) = cs_parent w"
  by (simp_all add: client_stop_def session_stop_def then_do_def say_def Let_def)

lemma fatal_fields [simp]:
  "cs_fatal (on_cn f w) = cs_fatal w" "cs_fatal (tell c w) = cs_fatal w" "cs_fatal (add_event ev w) = cs_fatal w"
  "cs_fatal (say k w) = cs_fatal w" "cs_fatal (tun_set_disconnect w) = cs_fatal w"
  by (simp_all add: on_cn_def tell_def add_event_def say_def tun_set_disconnect_def)

lemma stop_fatal: "cs_fatal (connect_stop co w) = cs_fatal w"
  by (simp add: connect_stop_def cancel_timers_def Let_def stop_fields)

lemma lively_stop: "lively w \<Longrightarrow> lively (connect_stop co w)"
  by (rule lively_halted) (simp_all add: stop_fatal lively_def)

lemma lively_new:
  assumes "known_env handled E"
  shows "good lively handled (new_client co E w)"
proof -
  have "lively (session_new pb c evs calls [] p)" for pb c evs calls and p :: connect
    by (simp add: lively_def session_new_def handled_codes)
  moreover have "lively (on_cn (\<lambda>p. p\<lparr>cn_server_poll_timer := x p, cn_waits := y p\<rparr>) v)" if "lively v" for v x y
    using that by (rule lively_same) (simp_all add: on_cn_def)
  moreover have "lively (conn_timer_start n v)" if "lively v" for v n
    using that by (rule lively_same) (simp_all add: conn_timer_start_def on_cn_def Let_def)
  ultimately show ?thesis
    unfolding new_client_def Let_def by (auto intro!: live.P_start assms)
qed

lemma lively_exit_notify:
  "lively w \<Longrightarrow> known_env handled E \<Longrightarrow> good lively handled (session_send_explicit_exit_notify E w)"
  by (rule live.P_exit_notify)

lemma lively_pause:
  assumes "lively w" "known_env handled E"
  shows "good lively handled (connect_pause reason E w)"
proof -
  have paused: "lively v" if "cn_paused (cn v)" "handled (cs_fatal v)" for v using that by (simp add: lively_def)
  have "good (\<lambda>v. cn_paused (cn v) \<and> handled (cs_fatal v)) handled (session_send_explicit_exit_notify E v)"
    if "cn_paused (cn v) \<and> handled (cs_fatal v)" for v :: world
    using that assms(2) by (auto simp: session_send_explicit_exit_notify_def ask_def known_env_def)
  from this [of "on_cn (\<lambda>p. p\<lparr>cn_paused := True\<rparr>) w"] assms(1) show ?thesis
    unfolding connect_pause_def Let_def
    by (cases "session_send_explicit_exit_notify E (on_cn (\<lambda>p. p\<lparr>cn_paused := True\<rparr>) w)")
      (auto simp: then_do_def lively_def report_def tell_parent cancel_timers_def interim_finalize_def stop_fields split: option.split)
qed


lemma lively_resume:
  assumes "lively w" "known_env handled E"
  shows "good lively handled (connect_resume co E w)"
  using assms lively_new by (simp add: connect_resume_def)

lemma lively_running: "handled (cs_fatal w) \<Longrightarrow> \<not> cs_halt w \<Longrightarrow> lively w"
  by (simp add: lively_def)

lemma exit_notify_halted: "cs_halt w \<Longrightarrow> session_send_explicit_exit_notify E w = (None, w)"
  by (simp add: session_send_explicit_exit_notify_def)

text \<open>A restart that is due leads to a new session; when it does nothing, nothing was lost.\<close>

lemma lively_restart:
  assumes "handled (cs_fatal w)" "known_env handled E" "cn_halt (cn w) \<or> gen \<noteq> cn_generation (cn w) \<Longrightarrow> lively w"
  shows "good lively handled (restart_wait_callback co E gen False w)"
proof (cases "cn_halt (cn w) \<or> gen \<noteq> cn_generation (cn w)")
  case False
  show ?thesis
  proof (cases "cn_paused (cn w) \<or> \<not> cn_client (cn w)")
    case True
    with False assms(2) lively_new show ?thesis
      by (auto simp: restart_wait_callback_def connect_resume_def then_do_def)
  next
    case run: False
    have "good lively handled (then_do (session_send_explicit_exit_notify E w) (new_client co E))"
    proof (cases "cs_halt w")
      case True
      with assms(2) show ?thesis by (simp add: exit_notify_halted then_do_def lively_new)
    next
      case False
      then show ?thesis
        using assms(1,2) lively_running [of w]
        by (intro live.P_then_do lively_exit_notify lively_new) auto
    qed
    with run False show ?thesis by (simp add: restart_wait_callback_def)
  qed
qed (use assms(3) in \<open>auto simp: restart_wait_callback_def\<close>)

lemma lively_poll:
  "lively w \<Longrightarrow> known_env handled E \<Longrightarrow> good lively handled (server_poll_callback co E gen e w)"
  by (simp add: server_poll_callback_def lively_new)

lemma lively_conn_timer:
  "lively w \<Longrightarrow> known_env handled E \<Longrightarrow> good lively handled (conn_timer_callback co E e w)"
  by (simp add: conn_timer_callback_def Let_def lively_pause lively_tell lively_stop lively_event)

lemma lively_late_restart:
  assumes "lively w" "known_env handled E"
  shows "good lively handled (restart_wait_callback co E gen e w)"
proof (cases e)
  case False
  have "handled (cs_fatal w)" using assms(1) by (simp add: lively_def)
  from lively_restart [OF this assms(2)] False assms(1) show ?thesis by simp
qed (simp add: restart_wait_callback_def assms)

lemma lively_due_restart:
  assumes "lively w" "known_env handled E" "cn_restart_timer (cn w) = Some (Cw_restart gen d)"
  shows "good lively handled (restart_wait_callback co E gen False (on_cn (\<lambda>p. p\<lparr>cn_restart_timer := None\<rparr>) w))"
  by (rule lively_restart) (use assms in \<open>auto simp: lively_def restart_armed_def\<close>)

lemma lively_step:
  assumes "connect_step co E w m" "known_env handled E" "lively w"
  shows "lively (snd m)"
proof -
  have g: "good lively handled m \<Longrightarrow> ?thesis" by (cases m) simp
  have timers: "lively (on_cn (\<lambda>p. p\<lparr>cn_server_poll_timer := None\<rparr>) w)" "lively (on_cn (\<lambda>p. p\<lparr>cn_conn_timer := None\<rparr>) w)"
    "lively (on_cn (\<lambda>p. p\<lparr>cn_now := cn_now p + n\<rparr>) w)" "lively (dont_restart w)" for n
    using assms(3) by (auto elim!: lively_same simp: dont_restart_def)
  have pre: "lively (tell Cc_pre_resolve_start (on_cn (\<lambda>p. p\<lparr>cn_pre_resolve := True\<rparr>) (add_event (Plain_event EV_RESOLVE) w)))"
    using assms(3) by (rule lively_same) (simp_all add: tell_parent)
  have rec: "lively (connect_reconnect seconds w)" for seconds
    using assms(3) by (auto simp: lively_def connect_reconnect_def arm_restart_def restart_armed_def Let_def tell_parent cancel_server_poll_def)
  note ops = g lively_stop lively_pause lively_resume lively_poll lively_conn_timer lively_late_restart lively_due_restart
    lively_new lively_exit_notify live.P_handler
  from assms(1) show ?thesis
  proof (cases rule: connect_step.cases)
    case co_start
    then show ?thesis using g pre assms lively_new by (auto simp: connect_start_def)
  next
    case co_graceful_stop
    have "good lively handled (graceful_stop co E w)"
      unfolding graceful_stop_def connect_send_explicit_exit_notify_def
      by (rule live.P_then_do) (auto simp: assms(2,3) lively_exit_notify lively_stop)
    with co_graceful_stop g show ?thesis by simp
  next
    case (co_post_cc_msg msg)
    have "good lively handled (post_cc_msg (client_config co w) E msg w)"
      unfolding post_cc_msg_def
      by (intro live.P_then_do live.P_ask live.P_base_call) (auto simp: assms(2,3) live.P_housekeeping_timer)
    with co_post_cc_msg g show ?thesis using assms(3) by (auto simp: connect_post_cc_msg_def)
  next
    case co_exit_notify
    then show ?thesis using g assms lively_exit_notify by (auto simp: connect_send_explicit_exit_notify_def)
  qed (use ops timers rec assms(2,3) in \<open>auto simp: pre_resolve_done_def\<close>)
qed

lemma reach_lively: "connect_reach co creds w \<Longrightarrow> lively w"
proof (induction rule: connect_reach.induct)
  case cr_start
  show ?case by (simp add: lively_def world_new_def session_new_def connect_new_def handled_codes)
qed (blast intro: lively_step)

end
