(* ===== verification/Client_Props.thy ===== *)
theory Client_Props
  imports Connect_Life
begin

text \<open>
  What the client promises to the program above it: one connection report per session, INFO messages after it,
  paced push requests, and what the server's HALT and RESTART messages and a fatal error lead to, from the message
  in the session to the events and the timer of the connection.
\<close>

definition demo_env :: "string list \<Rightarrow> env" where
  "demo_env msgs =
     \<lparr>e_now = Time 1024, e_base_callbacks = (\<lambda>c. case c of Op_control_net_recv \<Rightarrow> map (\<lambda>m. Cb_control_recv (map of_char m)) msgs | _ \<Rightarrow> []),
      e_tun_callbacks = [Cb_tun_pre_tun_config, Cb_tun_connected], e_throws = (\<lambda>_. None), e_packet_type = (\<lambda>_. Pk_control),
      e_data_decrypt = id, e_data_encrypt = id, e_next_housekeeping = time_infinite, e_invalidated = False,
      e_has_send_queue = False, e_queue_size = 0, e_transport_send = (\<lambda>_. Sent), e_tun_bytes = 0, e_mss_inter = 0,
      e_icmp_ptb = id, e_tls_warnings = 0, e_bs64_cipher = False, e_comp_type = NONE, e_comp_asym = False,
      e_renegotiate = dur_seconds 3600,
      e_connection_info = \<lparr>ev_user = [], ev_server_host = ''vpn'', ev_server_port = ''1194'', ev_server_proto = ''UDP'', ev_server_ip = [],
        ev_vpn_ip4 = [], ev_vpn_ip6 = [], ev_vpn_gw4 = [], ev_vpn_gw6 = [], ev_client_ip = [], ev_tun_name = ''tun0''\<rparr>,
      e_validate_ip = Inr\<rparr>"

definition demo_options :: connect_options where
  "demo_options =
     \<lparr>co_network_available = True, co_lifecycle = False, co_pre_resolve_work = False, co_pause_on_connection_timeout = False,
      co_retry_on_auth_failed = False, co_asio_work_always_on = False, co_server_poll_timeout_enabled = False,
      co_server_poll_timeout = dur_zero, co_conn_timeout = 0, co_relay = False, co_push_base = None, co_tcp_queue_limit = 64,
      co_echo = False, co_info = True, co_autologin_sessions = False, co_filter = None\<rparr>"

text \<open>
  An environment in which nothing arrives and nothing fails: the protocol context sends packets, as
  many and whatever it likes, which the transport takes or leaves without an error.
\<close>

definition only_sends :: "env \<Rightarrow> bool" where
  "only_sends E \<longleftrightarrow> (\<forall>c. e_throws E c = None \<and> (\<forall>cb \<in> set (e_base_callbacks E c).
     case cb of Cb_control_net_send buf \<Rightarrow> e_transport_send E buf \<in> {Sent, Not_sent} | _ \<Rightarrow> False))"


section \<open>A run\<close>

text \<open>A session that is started, gets the messages and passes on what it held; the same under a connection.\<close>

definition demo_config :: "connect session_config" where
  "demo_config = client_config demo_options (world_new None)"

definition demo_session :: "string list \<Rightarrow> world" where
  "demo_session msgs =
     snd (transport_recv demo_config (demo_env msgs) [] (snd (client_start demo_config (demo_env msgs) (session_new None None [] [] [] connect_new))))"

definition demo_world :: world where
  "demo_world = snd (connect_start demo_options (demo_env []) (world_new None))"

definition demo_recv :: "string list \<Rightarrow> world" where
  "demo_recv msgs = snd (transport_recv (client_config demo_options demo_world) (demo_env msgs) [] demo_world)"

lemma demo_reach:
  assumes "Q (demo_env msgs)"
  shows "session_reach demo_config Q (session_new None None [] [] [] connect_new) (demo_session msgs)"
  unfolding demo_session_def
proof (rule sr_step [where E = "demo_env msgs"])
  show "session_reach demo_config Q (session_new None None [] [] [] connect_new)
      (snd (client_start demo_config (demo_env msgs) (session_new None None [] [] [] connect_new)))"
    by (rule sr_step [where E = "demo_env msgs"], rule sr_start, rule assms, rule ss_start)
qed (rule assms, rule ss_handler, rule sh_transport_recv)

definition demo_plain :: "string \<Rightarrow> bool" where
  "demo_plain m \<longleftrightarrow> \<not> starts_with (control_text (map of_char m)) ''INFO_PRE,''"

lemma demo_quiet: "list_all demo_plain msgs \<Longrightarrow> quiet (demo_env msgs)"
  by (auto simp: demo_plain_def quiet_def demo_env_def list_all_iff split: base_op.splits)

lemma demo_known: "known_env handled (demo_env msgs)"
  by (simp add: known_env_def demo_env_def)

definition demo_held :: "world \<Rightarrow> world" where
  "demo_held s = info_hold_callback False (fired (Wait_info (dur_seconds 1)) s)"

definition demo_connects :: "world \<Rightarrow> bool" where
  "demo_connects s \<longleftrightarrow> map ev_id (cs_events s) = [EV_CONNECTING, EV_ASSIGN_IP, EV_CONNECTED] \<and> cs_waits s = [Wait_info (dur_seconds 1)] \<and>
     cs_events (demo_held s) = cs_events s @ [Reason_event EV_INFO ''hi'']"

lemma demo_connected: "demo_connects (demo_session [''INFO,hi'', ''PUSH_REPLY,x''])"
  by code_simp

definition demo_restarting :: "world \<Rightarrow> bool" where
  "demo_restarting w \<longleftrightarrow> cn_client (cn w) \<and> \<not> cn_halt (cn w) \<and> \<not> cn_paused (cn w) \<and> cn_generation (cn w) = 1 \<and> cs_halt w"

lemma demo_restarts:
  "cn_client (cn demo_world) \<and> \<not> cs_halt demo_world \<and> \<not> cn_halt (cn demo_world) \<and> \<not> cn_dont_restart (cn demo_world) \<and>
   demo_restarting (demo_recv [''RESTART,x''])"
  by code_simp

lemma demo_not_paused: "\<not> cn_paused (cn demo_world)"
  by code_simp

text \<open>A protocol context that sends a packet whenever it is flushed.\<close>

definition flushing_env :: env where
  "flushing_env = (demo_env [])\<lparr>e_base_callbacks := (\<lambda>c. case c of Op_flush _ \<Rightarrow> [Cb_control_net_send [32, 1]] | _ \<Rightarrow> [])\<rparr>"

lemma demo_sends: "only_sends (demo_env [])" "only_sends flushing_env"
  by (auto simp: only_sends_def flushing_env_def demo_env_def split: base_op.splits)


section \<open>Halted sessions\<close>

lemma halted_handlers:
  assumes "cs_halt s"
  shows "send_push_request_callback C E d e s = (None, s)" "housekeeping_callback C E e s = (None, s)"
    "inactive_callback C E e s = (None, s)" "info_hold_callback e s = s" "client_start C E s = (None, s)"
    "session_stop C b s = (None, s)" "session_send_explicit_exit_notify E s = (None, s)"
  using assms by (simp_all add: send_push_request_callback_def housekeeping_callback_def inactive_callback_def catch_def
      info_hold_callback_def client_start_def session_stop_def session_send_explicit_exit_notify_def)


section \<open>One connection report per session\<close>

lemma inv_reached:
  assumes "session_reach (client_config co w) Q (session_new pb creds old calls [] p) s" "\<And>E. q \<Longrightarrow> Q E \<Longrightarrow> quiet E"
  shows "session_inv q old (count_list calls Call_terminate) s"
  using assms by (intro cl.reach_inv [OF assms(1) inv_new]) auto

lemma infos_wait_split:
  assumes "infos_wait (pre @ e # post)" "is_info e"
  shows "list_ex is_conn pre"
proof (rule ccontr)
  assume "\<not> list_ex is_conn pre"
  then have "takeWhile (\<lambda>e. \<not> is_conn e) (pre @ e # post) = pre @ takeWhile (\<lambda>e. \<not> is_conn e) (e # post)"
    by (intro takeWhile_append2) (auto simp: list_ex_iff)
  moreover have "\<not> is_conn e" using assms(2) by (simp add: is_conn_def is_info_def)
  ultimately show False using assms by (simp add: infos_wait_def)
qed

text \<open>C10. Whatever happens to a session, it reports a connection at most once, only after the pushed options are
  complete and the tun interface is up, and it tells its parent that it has ended at most once, when it has halted.\<close>

theorem session_connects_once:
  assumes "session_reach (client_config co w) Q (session_new pb creds old calls [] p) s"
  shows "\<exists>es. cs_events s = old @ es \<and> length (filter is_conn es) \<le> 1 \<and>
    (list_ex is_conn es \<longrightarrow> oc_complete (cs_received_options s) \<and> cs_connected s \<noteq> None) \<and>
    count_list (cs_calls s) Call_terminate \<le> count_list calls Call_terminate + (if cs_halt s then 1 else 0)"
  using inv_reached [of co w Q pb creds old calls p s False] assms by (auto simp: session_inv_def terms_def)

theorem session_connects_once_witness:
  "map ev_id (cs_events (demo_session [''INFO,hi'', ''PUSH_REPLY,x''])) = [EV_CONNECTING, EV_ASSIGN_IP, EV_CONNECTED] \<and>
    length (filter is_conn (cs_events (demo_session [''INFO,hi'', ''PUSH_REPLY,x'']))) \<le> 1"
  using demo_connected session_connects_once [OF demo_reach [of "\<lambda>_. True", unfolded demo_config_def], of "[''INFO,hi'', ''PUSH_REPLY,x'']"]
  by (auto simp: demo_connects_def)

text \<open>C20. A server's INFO messages that arrive before the connection is reported wait for it: when the server sends no
  INFO_PRE, every INFO event comes after the CONNECTED event.\<close>

theorem infos_after_connected:
  assumes "session_reach (client_config co w) Q (session_new pb creds old calls [] p) s" "\<forall>E. Q E \<longrightarrow> quiet E"
    "cs_events s = old @ pre @ e # post" "ev_id e = EV_INFO"
  shows "\<exists>c\<in>set pre. ev_id c = EV_CONNECTED"
proof -
  have "infos_wait (pre @ e # post)"
    using inv_reached [of co w Q pb creds old calls p s True] assms(1-3) by (auto simp: session_inv_def)
  then have "list_ex is_conn pre" by (rule infos_wait_split) (simp add: is_info_def assms(4))
  then show ?thesis by (auto simp: list_ex_iff is_conn_def)
qed


theorem infos_after_connected_witness:
  "\<exists>s. cs_events (demo_held s) = cs_events s @ [Reason_event EV_INFO ''hi''] \<and> (\<exists>c\<in>set (cs_events s). ev_id c = EV_CONNECTED)"
proof (intro exI conjI)
  define s where "s = demo_session [''INFO,hi'', ''PUSH_REPLY,x'']"
  have w: "cs_waits s = [Wait_info (dur_seconds 1)]" and e: "cs_events (demo_held s) = cs_events s @ [Reason_event EV_INFO ''hi'']"
    using demo_connected by (simp_all add: demo_connects_def s_def)
  have q: "quiet (demo_env [''INFO,hi'', ''PUSH_REPLY,x''])" by (rule demo_quiet) code_simp
  have "session_reach demo_config quiet (session_new None None [] [] [] connect_new) (snd (None :: cl_exn option, demo_held s))"
    unfolding demo_held_def
    by (rule sr_step [where E = "demo_env [''INFO,hi'', ''PUSH_REPLY,x'']"], unfold s_def, rule demo_reach [of quiet, OF q], rule q,
        rule ss_handler, rule sh_info) (use w in \<open>simp add: s_def\<close>)
  then have r: "session_reach (client_config demo_options (world_new None)) quiet (session_new None None [] [] [] connect_new) (demo_held s)"
    by (simp add: demo_config_def)
  show "cs_events (demo_held s) = cs_events s @ [Reason_event EV_INFO ''hi'']" by (rule e)
  show "\<exists>c\<in>set (cs_events s). ev_id c = EV_CONNECTED"
    by (rule infos_after_connected [OF r, of "cs_events s" "Reason_event EV_INFO ''hi''" "[]"]) (use e in simp_all)
qed


section \<open>Push requests\<close>

fun push_waits :: "wait list \<Rightarrow> duration list" where
  "push_waits [] = []"
| "push_waits (Wait_push d # ws) = d # push_waits ws"
| "push_waits (w # ws) = push_waits ws"

lemma push_waits_append [simp]: "push_waits (ws @ vs) = push_waits ws @ push_waits vs"
  by (induction ws rule: push_waits.induct) simp_all

text \<open>Waits for push requests that end in turn, each in the environment of its time.\<close>

fun push_rounds :: "'n session_config \<Rightarrow> env list \<Rightarrow> 'n session \<Rightarrow> 'n session" where
  "push_rounds C [] s = s"
| "push_rounds C (E # Es) s = push_rounds C Es (snd (send_push_request_callback C E (last (push_waits (cs_waits s))) False s))"

abbreviation (input) push_request :: call where "push_request \<equiv> Call_base (Op_write_control_string ''PUSH_REQUEST'')"

definition may_push :: "'n session \<Rightarrow> bool" where
  "may_push s \<longleftrightarrow> \<not> cs_halt s \<and> \<not> oc_partial (cs_received_options s)"

text \<open>What is sent leaves its calls only.\<close>

lemma sends_calls:
  assumes "\<forall>cb \<in> set cbs. case cb of Cb_control_net_send buf \<Rightarrow> e_transport_send E buf \<in> {Sent, Not_sent} | _ \<Rightarrow> False"
  shows "\<exists>cs. base_callbacks C E cbs s = (None, s\<lparr>cs_calls := cs_calls s @ cs\<rparr>) \<and> push_request \<notin> set cs"
  using assms
proof (induction cbs arbitrary: s)
  case Nil
  then show ?case by (intro exI [of _ "[]"]) simp
next
  case (Cons cb cbs)
  then obtain buf where cb: "cb = Cb_control_net_send buf" "e_transport_send E buf \<in> {Sent, Not_sent}"
    by (cases cb) auto
  then have "\<exists>cs. base_parent C E cb s = (None, s\<lparr>cs_calls := cs_calls s @ cs\<rparr>) \<and> push_request \<notin> set cs"
    by (auto simp: control_net_send_def transport_send_def say_def then_do_def)
  then obtain cs where 1: "base_parent C E cb s = (None, s\<lparr>cs_calls := cs_calls s @ cs\<rparr>)" "push_request \<notin> set cs" by blast
  obtain ds where "base_callbacks C E cbs (s\<lparr>cs_calls := cs_calls s @ cs\<rparr>) = (None, s\<lparr>cs_calls := cs_calls s @ cs @ ds\<rparr>)"
    "push_request \<notin> set ds"
    using Cons.IH [of "s\<lparr>cs_calls := cs_calls s @ cs\<rparr>"] Cons.prems by auto
  with 1 show ?case by (intro exI [of _ "cs @ ds"]) (simp add: then_do_def)
qed

text \<open>The wait after a wait of \<open>d\<close>.\<close>

definition next_wait :: "'n session \<Rightarrow> duration \<Rightarrow> duration" where
  "next_wait s d = (if cs_auth_pending s then dur_seconds 8 else dur_min (dur_add d (dur_seconds 1)) (dur_seconds 3))"

lemma push_round:
  fixes C :: "'n session_config" and d :: duration
  assumes "only_sends E" "may_push s"
  defines "t \<equiv> snd (send_push_request_callback C E d False s)"
  shows "may_push t" "cs_auth_pending t = cs_auth_pending s" "push_waits (cs_waits t) = push_waits (cs_waits s) @ [next_wait s d]"
    "count_list (cs_calls t) push_request = count_list (cs_calls s) push_request + 1"
proof -
  define s1 where "s1 = (if \<not> cs_sent_push_request s then (add_event (Plain_event EV_GET_CONFIG) s)\<lparr>cs_sent_push_request := True\<rparr> else s)"
  let ?s2 = "say (Call_base (Op_flush True)) (say push_request s1)"
  obtain cs where cs: "base_callbacks C E (e_base_callbacks E (Op_flush True)) ?s2 = (None, ?s2\<lparr>cs_calls := cs_calls ?s2 @ cs\<rparr>)"
    "push_request \<notin> set cs"
    using sends_calls [of "e_base_callbacks E (Op_flush True)" E C ?s2] assms(1) unfolding only_sends_def by blast
  have s1: "may_push s1" "cs_auth_pending s1 = cs_auth_pending s" "cs_waits s1 = cs_waits s" "cs_calls s1 = cs_calls s"
    using assms(2) by (simp_all add: s1_def add_event_def may_push_def)
  have thr: "e_throws E c = None" for c using assms(1) by (simp add: only_sends_def)
  define s3 where "s3 = set_housekeeping_timer E (?s2\<lparr>cs_calls := cs_calls ?s2 @ cs\<rparr>)"
  have s3: "may_push s3" "cs_auth_pending s3 = cs_auth_pending s" "push_waits (cs_waits s3) = push_waits (cs_waits s)"
    "cs_calls s3 = cs_calls s @ [push_request, Call_base (Op_flush True)] @ cs"
    using s1 by (auto simp: s3_def set_housekeeping_timer_def add_wait_def may_push_def say_def Let_def)
  have "t = schedule_push_request_callback (next_wait s d) s3"
    using assms(2) thr cs(1) s3(2) unfolding t_def s3_def
    by (simp add: send_push_request_callback_def catch_def then_do_def ask_def base_call_def s1_def [symmetric]
        next_wait_def may_push_def Let_def)
  with s3 cs(2) show "may_push t" "cs_auth_pending t = cs_auth_pending s"
    "push_waits (cs_waits t) = push_waits (cs_waits s) @ [next_wait s d]"
    "count_list (cs_calls t) push_request = count_list (cs_calls s) push_request + 1"
    by (simp_all add: schedule_push_request_callback_def add_wait_def may_push_def)
qed

text \<open>The wait number \<open>i\<close> of an active session.\<close>

definition push_wait :: "bool \<Rightarrow> nat \<Rightarrow> duration" where
  "push_wait pending i = (if pending \<and> i > 0 then dur_seconds 8 else dur_seconds (of_nat (min i 3)))"

lemma next_pace: "next_wait s (push_wait (cs_auth_pending s) i) = push_wait (cs_auth_pending s) (Suc i)"
proof -
  have "min i 3 = 0 \<or> min i 3 = 1 \<or> min i 3 = 2 \<or> min i 3 = (3 :: nat)" "min (Suc i) 3 = min (Suc (min i 3)) 3" by arith+
  then show ?thesis
    by (elim disjE) (simp_all add: next_wait_def push_wait_def dur_min_def dur_add_def dur_seconds_def dur_is_infinite_def
        min_def less_eq_duration_def)
qed

lemma push_rounds_pace:
  assumes "\<forall>E \<in> set Es. only_sends E" "may_push s" "push_waits (cs_waits s) = ds @ [push_wait (cs_auth_pending s) i]"
  shows "push_waits (cs_waits (push_rounds C Es s)) = ds @ map (push_wait (cs_auth_pending s)) [i..<i + length Es + 1] \<and>
    count_list (cs_calls (push_rounds C Es s)) push_request = count_list (cs_calls s) push_request + length Es"
  using assms
proof (induction Es arbitrary: s ds i)
  case (Cons E Es)
  define t where "t = snd (send_push_request_callback C E (push_wait (cs_auth_pending s) i) False s)"
  have "only_sends E" using Cons.prems(1) by simp
  note r = push_round [OF this Cons.prems(2), of C "push_wait (cs_auth_pending s) i", folded t_def]
  have "push_waits (cs_waits t) = (ds @ [push_wait (cs_auth_pending s) i]) @ [push_wait (cs_auth_pending t) (Suc i)]"
    using r(2,3) Cons.prems(3) next_pace by simp
  from Cons.IH [OF _ r(1) this] r(2,4) show ?case
    using Cons.prems(1,3) by (simp add: t_def upt_conv_Cons del: upt_Suc)
qed simp

text \<open>C22. As long as nothing arrives and nothing fails, whatever is sent and whether the transport takes it, an
  active session asks for its options at once and then after 1, 2, 3, 3, ... seconds, or every 8 seconds when the
  server has told it that the authentication is pending: one PUSH_REQUEST per wait, without end.\<close>

theorem push_requests_paced:
  fixes C :: "'n session_config" and Es :: "env list" and E0 :: env and s :: "'n session"
  assumes "\<forall>E \<in> set Es. only_sends E" "\<not> cs_halt s" "\<not> oc_partial (cs_received_options s)"
  defines "t \<equiv> push_rounds C Es (active E0 s)"
  shows "push_waits (cs_waits t) = push_waits (cs_waits s) @ dur_seconds 0 #
        map (\<lambda>j. if cs_auth_pending s then dur_seconds 8 else dur_seconds (of_nat (min j 3))) [1..<length Es + 1] \<and>
    count_list (cs_calls t) push_request = count_list (cs_calls s) push_request + length Es"
proof -
  have a: "may_push (active E0 s)" "push_waits (cs_waits (active E0 s)) = push_waits (cs_waits s) @ [push_wait (cs_auth_pending s) 0]"
    "cs_calls (active E0 s) = cs_calls s" "cs_auth_pending (active E0 s) = cs_auth_pending s"
    using assms(2,3) by (auto simp: may_push_def active_def check_tls_warnings_def Let_def add_event_def
        schedule_push_request_callback_def add_wait_def push_wait_def)
  have "map (push_wait p) [0..<length Es + 1] = dur_seconds 0 #
      map (\<lambda>j. if p then dur_seconds 8 else dur_seconds (of_nat (min j 3))) [1..<length Es + 1]" for p
    by (simp add: upt_conv_Cons push_wait_def del: upt_Suc)
  with push_rounds_pace [OF assms(1) a(1), of "push_waits (cs_waits s)" 0 C] a(2-4) show ?thesis by (simp add: t_def)
qed

theorem push_requests_paced_witness:
  "push_waits (cs_waits (push_rounds demo_config (replicate 4 flushing_env) (active (demo_env []) (session_new None None [] [] [] connect_new)))) =
    [dur_seconds 0, dur_seconds 1, dur_seconds 2, dur_seconds 3, dur_seconds 3]"
  using push_requests_paced [of "replicate 4 flushing_env" "session_new None None [] [] [] connect_new" demo_config "demo_env []"] demo_sends(2)
  by (simp add: session_new_def continuation_new_def upt_rec)


section \<open>HALT, RESTART and fatal errors\<close>

lemma halt_match_head: "halt_match msg \<Longrightarrow> msg \<noteq> [] \<and> hd msg \<in> {CHR ''H'', CHR ''R''}"
proof -
  assume m: "halt_match msg"
  have "halt_parse_msg msg ! 0 = takeWhile (\<lambda>c. c \<noteq> CHR '','') msg"
    by (auto simp: halt_pieces intro!: takeWhile_eq_all_conv [THEN iffD2, symmetric])
  with m have "takeWhile (\<lambda>c. c \<noteq> CHR '','') msg \<in> {''HALT'', ''RESTART''}"
    by (auto simp: halt_match_def is_halt_def is_restart_def Let_def)
  then show ?thesis by (cases msg) (auto split: if_splits)
qed

lemma starts_with_hd: "starts_with msg (c # s) \<Longrightarrow> hd msg = c"
  by (cases msg) (auto simp: starts_with_def split: if_splits)

lemma control_msg_halt:
  assumes "halt_match msg"
  shows "\<exists>ch. client_halt_new msg True = Inr ch \<and> control_msg C E msg s = process_halt_restart C ch s"
proof -
  from assms halt_match_ok [of msg True] obtain ch where ch: "client_halt_new msg True = Inr ch" by (auto simp: ok_def)
  have "\<not> starts_with msg ''PUSH_REPLY,''" "\<not> starts_with msg ''AUTH_FAILED''"
    using halt_match_head [OF assms] by (auto dest: starts_with_hd)
  with ch assms show ?thesis by (simp add: control_msg_def)
qed

lemma events_fields [simp]:
  "cs_events (on_cn f w) = cs_events w" "cs_events (tell c w) = cs_events w" "cs_events (say k w) = cs_events w"
  "cs_events (tun_set_disconnect w) = cs_events w" "cs_events (client_stop w) = cs_events w"
  "cs_events (add_event ev w) = cs_events w @ [ev]" "cs_events (report ev err w) = cs_events w @ [ev]"
  "cs_events (queue_restart ms w) = cs_events w"
  by (simp_all add: on_cn_def tell_def say_def tun_set_disconnect_def client_stop_def session_stop_def then_do_def Let_def add_event_def
      report_def queue_restart_def arm_restart_def interim_finalize_def cancel_server_poll_def)

lemma creds_fields [simp]:
  "cs_creds (on_cn f w) = cs_creds w" "cs_creds (tell c w) = cs_creds w" "cs_creds (say k w) = cs_creds w"
  "cs_creds (tun_set_disconnect w) = cs_creds w" "cs_creds (client_stop w) = cs_creds w" "cs_creds (add_event ev w) = cs_creds w"
  "cs_creds (report ev err w) = cs_creds w" "cs_creds (queue_restart ms w) = cs_creds w"
  by (simp_all add: on_cn_def tell_def say_def tun_set_disconnect_def client_stop_def session_stop_def then_do_def Let_def add_event_def
      report_def queue_restart_def arm_restart_def interim_finalize_def cancel_server_poll_def)

lemma stop_result:
  "cs_creds (connect_stop co w) = cs_creds w"
  "cs_events (connect_stop co w) = cs_events w @ (if cn_halt (cn w) then [] else [Plain_event EV_DISCONNECTED])"
  by (simp_all add: connect_stop_def cancel_timers_def Let_def)

text \<open>C8. A HALT or RESTART message of the server ends the session whatever its state: HALT disconnects for good, with
  the server's reason as the last events; RESTART reports the reason and arms the restart of the connection; the
  session ID in the credentials is purged unless the message says to keep it.\<close>

theorem server_halt_restart:
  assumes "halt_match msg" "\<not> cs_halt w" "\<not> cn_halt (cn w)" "\<not> cn_dont_restart (cn w)"
  shows "\<exists>ch w'. client_halt_new msg True = Inr ch \<and> control_msg (client_config co v) E msg w = (None, w') \<and> cs_halt w' \<and>
    cs_events w' = cs_events w @ (if ch_restart ch then [Reason_event EV_CLIENT_RESTART (ch_reason ch)]
      else [Reason_event EV_CLIENT_HALT (ch_reason ch), Plain_event EV_DISCONNECTED]) \<and>
    cn_halt (cn w') = (\<not> ch_restart ch) \<and> (ch_restart ch \<longrightarrow> restart_armed (cn w')) \<and>
    cs_creds w' = (if ch_psid ch then cs_creds w else map_option purge_session_id (cs_creds w))"
proof -
  from control_msg_halt [OF assms(1), of "client_config co v" E w] obtain ch where
    ch: "client_halt_new msg True = Inr ch" "control_msg (client_config co v) E msg w = process_halt_restart (client_config co v) ch w" by blast
  define u where "u = say Call_terminate (say Call_cancel_timers ((set_fatal (if ch_restart ch then CLIENT_RESTART else CLIENT_HALT) (ch_reason ch)
    (if \<not> ch_psid ch then w\<lparr>cs_creds := map_option purge_session_id (cs_creds w)\<rparr> else w))\<lparr>cs_halt := True\<rparr>))"
  have u: "cs_halt u" "cs_events u = cs_events w" "cn u = cn w" "cs_fatal u = (if ch_restart ch then CLIENT_RESTART else CLIENT_HALT)"
    "cs_fatal_reason u = ch_reason ch" "cs_creds u = (if ch_psid ch then cs_creds w else map_option purge_session_id (cs_creds w))"
    by (simp_all add: u_def say_def set_fatal_def)
  define x where "x = (if ch_restart ch then queue_restart 2000 (report (Reason_event EV_CLIENT_RESTART (ch_reason ch)) CLIENT_RESTART u)
    else connect_stop co (report (Reason_event EV_CLIENT_HALT (ch_reason ch)) CLIENT_HALT u))"
  have t: "client_proto_terminate co u = (None, x)"
    using assms(3,4) u by (simp add: client_proto_terminate_def terminate_fatal_def x_def Let_def)
  have c: "control_msg (client_config co v) E msg w =
      (None, let s = (if cs_tun x then say Call_tun_stop x else x) in if cs_transport s then say Call_transport_stop s else s)"
    using t assms(2) unfolding ch(2) process_halt_restart_def stop_or_throw_def session_stop_def u_def
    by (simp add: client_config_def connect_notify_def Let_def then_do_def set_fatal_def)
  have hx: "cs_halt x" using frame_fatal [OF frame_terminate [OF u(1), of co]] t u(1) by simp
  have rep: "cn_halt (cn (report ev err u)) = cn_halt (cn w)" for ev err using u(3) by simp
  define y where "y = (let s = (if cs_tun x then say Call_tun_stop x else x) in if cs_transport s then say Call_transport_stop s else s)"
  have y: "cs_halt y = cs_halt x" "cs_events y = cs_events x" "cn y = cn x" "cs_creds y = cs_creds x"
    by (simp_all add: y_def Let_def)
  show ?thesis
    using ch(1) c [folded y_def] hx assms(3) u
    by (intro exI [of _ ch] exI [of _ y]) (simp add: y x_def stop_result rep)
qed

theorem server_halt_restart_witness:
  "\<exists>w'. control_msg (client_config demo_options demo_world) (demo_env []) ''RESTART,[P]:later'' demo_world = (None, w') \<and>
    cs_events w' = cs_events demo_world @ [Reason_event EV_CLIENT_RESTART ''later''] \<and> restart_armed (cn w')"
proof -
  have "halt_match ''RESTART,[P]:later'' \<and>
      client_halt_new ''RESTART,[P]:later'' True = Inr \<lparr>ch_restart = True, ch_psid = True, ch_reason = ''later''\<rparr>"
    by code_simp
  with demo_restarts show ?thesis
    using server_halt_restart [of "''RESTART,[P]:later''" demo_world demo_options demo_world "demo_env []"] by auto
qed

text \<open>C9. When a session ends by an error the connection knows, it either arms its restart or stops for good with
  DISCONNECTED as its last event, as \<open>restarts\<close> says; an error it does not know leaves it with an exception
  and neither of the two.\<close>

theorem terminate_decides:
  assumes "\<not> cn_halt (cn w)" "\<not> cn_dont_restart (cn w)"
  shows "if handled (cs_fatal w)
    then \<exists>w'. client_proto_terminate co w = (None, w') \<and>
      (if restarts co (cs_fatal w) (cs_fatal_reason w) then \<not> cn_halt (cn w') \<and> restart_armed (cn w')
       else cn_halt (cn w') \<and> last (cs_events w') = Plain_event EV_DISCONNECTED)
    else client_proto_terminate co w = (Some (Ex_lib (Std_exception ''client_connect_unhandled_exception'')), w)"
proof (cases "handled (cs_fatal w)")
  case True
  from terminate_cases [OF assms(1) True, of co "cs_fatal_reason w"] assms True show ?thesis
    by (cases "terminate_fatal co (cs_fatal w) (cs_fatal_reason w) w") (auto simp: client_proto_terminate_def)
next
  case False
  with assms show ?thesis by (simp add: client_proto_terminate_def terminate_fatal_def handled_def Let_def)
qed

theorem terminate_decides_witness:
  "client_proto_terminate demo_options (demo_world\<lparr>cs_fatal := TUN_WRITE_ERROR\<rparr>) =
    (Some (Ex_lib (Std_exception ''client_connect_unhandled_exception'')), demo_world\<lparr>cs_fatal := TUN_WRITE_ERROR\<rparr>)"
proof -
  from demo_restarts terminate_decides [of "demo_world\<lparr>cs_fatal := TUN_WRITE_ERROR\<rparr>" demo_options] show ?thesis by (simp add: handled_def)
qed

text \<open>An error without a case of its own throws out of the stop of the session, before the transport is stopped.\<close>

lemma unhandled_stop:
  assumes "\<not> cs_halt w" "\<not> cn_halt (cn w)" "\<not> cn_dont_restart (cn w)" "\<not> handled err"
  shows "\<exists>w'. stop_or_throw (client_config co v) what (set_fatal err reason w) =
      (Some (Ex_lib (Std_exception ''client_connect_unhandled_exception'')), w') \<and> cs_halt w' \<and> cn w' = cn w"
proof -
  define u where "u = say Call_terminate (say Call_cancel_timers ((set_fatal err reason w)\<lparr>cs_halt := True\<rparr>))"
  have u: "cs_halt u" "cn u = cn w" "cs_fatal u = err" by (simp_all add: u_def say_def set_fatal_def)
  then have "client_proto_terminate co u = (Some (Ex_lib (Std_exception ''client_connect_unhandled_exception'')), u)"
    using assms(2-4) by (simp add: client_proto_terminate_def terminate_fatal_def handled_def Let_def)
  then show ?thesis
    using assms(1) u by (simp add: stop_or_throw_def session_stop_def client_config_def connect_notify_def Let_def then_do_def
        set_fatal_def u_def)
qed

text \<open>C7. A connection is not stuck as long as its transport, its tun interface and the protocol report only errors
  the connection has a case for: in every state it can then be in, a client that has halted, unless the connection is
  stopped or paused, has the restart timer armed for this very session, and when it fires a new session is started.
  The first error without a case, TUN_WRITE_ERROR or KEY_EXPANSION_ERROR say, whether the transport or the tun
  interface reports it, does get it stuck: the session is halted, an exception is thrown and no timer is armed.\<close>

theorem connection_not_stuck:
  assumes "connect_reach co creds w" "cn_client (cn w)" "\<not> cn_halt (cn w)" "\<not> cn_paused (cn w)"
  shows "(cs_halt w \<longrightarrow>
      (\<exists>d. cn_restart_timer (cn w) = Some (Cw_restart (cn_generation (cn w)) d) \<and>
        (\<forall>E. restart_wait_callback co E (cn_generation (cn w)) False (on_cn (\<lambda>p. p\<lparr>cn_restart_timer := None\<rparr>) w) =
           new_client co E (on_cn (\<lambda>p. p\<lparr>cn_restart_timer := None\<rparr>) w)))) \<and>
    (\<not> cs_halt w \<and> \<not> cn_dont_restart (cn w) \<and> err \<noteq> 0 \<and> \<not> handled err \<longrightarrow>
      (\<forall>m \<in> {transport_error (client_config co v) err reason w, tun_error (client_config co v) E err reason w}.
        \<exists>w'. m = (Some (Ex_lib (Std_exception ''client_connect_unhandled_exception'')), w') \<and> cs_halt w' \<and> cn w' = cn w))"
proof (intro conjI impI)
  assume h: "cs_halt w"
  from reach_lively [OF assms(1)] assms(2-4) h obtain d where "cn_restart_timer (cn w) = Some (Cw_restart (cn_generation (cn w)) d)"
    by (auto simp: lively_def restart_armed_def)
  with assms h show "\<exists>d. cn_restart_timer (cn w) = Some (Cw_restart (cn_generation (cn w)) d) \<and>
        (\<forall>E. restart_wait_callback co E (cn_generation (cn w)) False (on_cn (\<lambda>p. p\<lparr>cn_restart_timer := None\<rparr>) w) =
           new_client co E (on_cn (\<lambda>p. p\<lparr>cn_restart_timer := None\<rparr>) w))"
    by (auto simp: restart_wait_callback_def exit_notify_halted then_do_def)
next
  assume u: "\<not> cs_halt w \<and> \<not> cn_dont_restart (cn w) \<and> err \<noteq> 0 \<and> \<not> handled err"
  have "err \<noteq> TUN_HALT" using u by (auto simp: handled_def)
  with u unhandled_stop [of w err co v _ reason] assms(3)
  show "\<forall>m \<in> {transport_error (client_config co v) err reason w, tun_error (client_config co v) E err reason w}.
      \<exists>w'. m = (Some (Ex_lib (Std_exception ''client_connect_unhandled_exception'')), w') \<and> cs_halt w' \<and> cn w' = cn w"
    by (auto simp: transport_error_def tun_error_def then_do_def)
qed

theorem connection_not_stuck_witness:
  "(\<exists>d. cn_restart_timer (cn (demo_recv [''RESTART,x''])) = Some (Cw_restart 1 d)) \<and>
   (\<exists>w'. tun_error (client_config demo_options demo_world) (demo_env []) TUN_WRITE_ERROR [] demo_world =
      (Some (Ex_lib (Std_exception ''client_connect_unhandled_exception'')), w') \<and> cs_halt w' \<and> cn w' = cn demo_world)"
proof
  have 1: "connect_reach demo_options None demo_world"
    unfolding demo_world_def by (rule cr_step [OF cr_start demo_known co_start])
  note e = demo_restarts
  then have "connect_reach demo_options None (demo_recv [''RESTART,x''])"
    unfolding demo_recv_def by (blast intro: cr_step [OF 1 demo_known co_session [OF _ sh_transport_recv]])
  with e show "\<exists>d. cn_restart_timer (cn (demo_recv [''RESTART,x''])) = Some (Cw_restart 1 d)"
    using connection_not_stuck [of demo_options None "demo_recv [''RESTART,x'']"] by (auto simp: demo_restarting_def)
  have "\<not> handled TUN_WRITE_ERROR" "TUN_WRITE_ERROR \<noteq> (0 :: error_type)" by (simp_all add: handled_def)
  with 1 e demo_not_paused show "\<exists>w'. tun_error (client_config demo_options demo_world) (demo_env []) TUN_WRITE_ERROR [] demo_world =
      (Some (Ex_lib (Std_exception ''client_connect_unhandled_exception'')), w') \<and> cs_halt w' \<and> cn w' = cn demo_world"
    using connection_not_stuck [of demo_options None demo_world TUN_WRITE_ERROR demo_world "[]" "demo_env []"] by simp
qed


section \<open>Where the code does something else than it means to\<close>

text \<open>Error codes the tun drivers and the key exchange report as fatal are not among those the connection knows.\<close>

lemma unhandled_codes: "\<not> handled TUN_WRITE_ERROR" "\<not> handled KEY_EXPANSION_ERROR"
  by (simp_all add: handled_def)

text \<open>A connection paused while it resolves names starts a session all the same when the names are there.\<close>

lemma paused_but_running:
  "(let co = demo_options\<lparr>co_pre_resolve_work := True\<rparr>; E = demo_env [];
        w = snd (pre_resolve_done co E (snd (connect_pause [] E (snd (connect_start co E (world_new None))))))
    in cn_paused (cn w) \<and> cn_client (cn w) \<and> \<not> cs_halt w)"
  by code_simp

text \<open>A timeout of AUTH_PENDING that is no number is ignored, one of more than 20 characters ends the session.\<close>

lemma auth_pending_long_timeout:
  "(let s = session_new None None [] [] [] connect_new
    in fst (recv_auth_pending demo_config (demo_env []) ''AUTH_PENDING,timeout x'' s) = None \<and>
       fst (recv_auth_pending demo_config (demo_env []) ''AUTH_PENDING,timeout 000000000000000000060'' s) \<noteq> None)"
  by code_simp

text \<open>The event of TUN_IFACE_DISABLED is a fatal one, but the connection is restarted.\<close>

lemma iface_disabled_restarts: "restarts co TUN_IFACE_DISABLED reason" "ev_is_fatal (Reason_event EV_TUN_IFACE_DISABLED reason)"
  by (simp_all add: restarts_def ev_is_fatal_def)

end
