(* ===== verification/Spec2Isabelle.thy ===== *)
theory Spec2Isabelle
  imports Reliable_Channel Pkt_Stream Data_Limit Text_Codecs Control_Wire Key_Material Mss_Fix Compression Data_Path Transport_Protocol Session_Props Client_Props
begin

text \<open>
  This development models the protocol core of the OpenVPN 3 client library as vendored in
  \<^verbatim>\<open>src/Sources/OpenVPN3/openvpn\<close> (all paths below are relative to it): the code that turns a
  stream of bytes or datagrams into a reliable, replay-protected control channel, and the data
  structures it rests on. ASIO, mbedTLS and LZ4 are third-party; the Objective-C++ adapter only
  forwards to the client API.

  Reading order. Each theory follows one part of the program, in the order the code builds them.

  \<^item> \<^verbatim>\<open>Vpn_Prelude\<close>: the result type \<open>res\<close> (\<open>Inl\<close> an exception, \<open>Inr\<close> a value), its bind, big-endian
    byte conversions and word lemmas.
  \<^item> \<^verbatim>\<open>Buffers\<close> (\<^verbatim>\<open>buffer/buffer.hpp\<close>): a buffer is a byte list for the allocation with offset and
    size; every operation of \<^verbatim>\<open>BufferType\<close> and \<^verbatim>\<open>BufferAllocatedType\<close> with its exceptions. The locale
    \<open>byte_queue\<close> states what the protocol relies on (what is written or prepended is read back).
  \<^item> \<^verbatim>\<open>Error_Types\<close> (\<^verbatim>\<open>error/error.hpp\<close>), \<^verbatim>\<open>Vpn_Time\<close> (\<^verbatim>\<open>time/time.hpp\<close>): error codes with their
    name table; times in 1/1024 s on 64-bit words with an infinite value.
  \<^item> \<^verbatim>\<open>Packet_Id\<close> (\<^verbatim>\<open>crypto/packet_id.hpp\<close>): the sender's counter, the wire format and the sliding
    bitmap window. The abstract window is a set of accepted IDs; the refinement relates the two,
    and the locale \<open>replay_filter\<close> gives at-most-once acceptance.
  \<^item> \<^verbatim>\<open>Reliable\<close> (\<^verbatim>\<open>reliable/*.hpp\<close>, \<^verbatim>\<open>common/msgwin.hpp\<close>): message windows, the sending and the
    receiving side and the acknowledgement list. \<^verbatim>\<open>Reliable_Channel\<close> composes two ends over a
    network that loses, duplicates and reorders (an inductive step relation).
  \<^item> \<^verbatim>\<open>Frames\<close> (\<^verbatim>\<open>frame/*.hpp\<close>): head room, payload size and alignment of working buffers.
  \<^item> \<^verbatim>\<open>Pkt_Stream\<close> (\<^verbatim>\<open>transport/pktstream.hpp\<close>, \<^verbatim>\<open>put_pktstream\<close> of \<^verbatim>\<open>transport/tcplinkcommon.hpp\<close>):
    packets over TCP, refining the specification \<open>deframe\<close> on byte streams.
  \<^item> \<^verbatim>\<open>Data_Limit\<close> (\<^verbatim>\<open>ssl/datalimit.hpp\<close>): byte counters of 64-bit block ciphers.
  \<^item> \<^verbatim>\<open>Text_Codecs\<close> (\<^verbatim>\<open>common/base64.hpp\<close>, \<^verbatim>\<open>common/hexstr.hpp\<close>, \<^verbatim>\<open>common/number.hpp\<close>).
  \<^item> \<^verbatim>\<open>Proto_Stack\<close> (\<^verbatim>\<open>ssl/protostack.hpp\<close>): the layer that drives the SSL object over the reliable
    windows. The SSL object, encapsulation and the network are the fields of \<open>callbacks\<close>.
  \<^item> \<^verbatim>\<open>Proto_Packets\<close> (\<^verbatim>\<open>ssl/psid.hpp\<close> and the packet heads and strings of \<^verbatim>\<open>ssl/proto.hpp\<close>).
  \<^item> \<^verbatim>\<open>Control_Wire\<close> (\<^verbatim>\<open>KeyContext\<close> of \<^verbatim>\<open>ssl/proto.hpp\<close>, \<^verbatim>\<open>crypto/ovpnhmac.hpp\<close>): encapsulation and
    decapsulation of control packets, in the clear and under tls-auth.
  \<^item> \<^verbatim>\<open>Split_Lines\<close> (\<^verbatim>\<open>common/splitlines.hpp\<close>), \<^verbatim>\<open>Buffer_Composed\<close> (\<^verbatim>\<open>buffer/bufcomplete.hpp\<close>,
    \<^verbatim>\<open>buffer/bufcomposed.hpp\<close>, \<^verbatim>\<open>buffer/buflist.hpp\<close>): a text cut into lines, and a message that
    arrives in fragments with the parser steps over it, each shown to be a step on the flat bytes.
  \<^item> \<^verbatim>\<open>Key_Material\<close> (\<^verbatim>\<open>crypto/static_key.hpp\<close>, \<^verbatim>\<open>ssl/tlsprf.hpp\<close>): static keys, the PRF and the key
    expansion of the data channel. HMAC and the random bytes are arguments; \<open>hmac_sized\<close> says only
    that digests have their nominal size.
  \<^item> \<^verbatim>\<open>Mss_Fix\<close> (\<^verbatim>\<open>transport/mssfix.hpp\<close>, \<^verbatim>\<open>ip/*.hpp\<close>): the clamp on TCP segment sizes.
  \<^item> \<^verbatim>\<open>Compression\<close> (\<^verbatim>\<open>compress/*.hpp\<close>): the framing of compressed packets; LZ4 and LZO are the fields
    of \<open>comp_env\<close>, and \<open>lz4_inverse\<close> states that LZ4 restores what it has compressed.
  \<^item> \<^verbatim>\<open>Crypto_Algs\<close> (\<^verbatim>\<open>crypto/cryptoalgs.hpp\<close>), \<^verbatim>\<open>Crypto_Dc\<close> (\<^verbatim>\<open>crypto/cryptodc.hpp\<close>,
    \<^verbatim>\<open>crypto/cryptodcsel.hpp\<close>): the algorithms, the settings of the data channel, and the locale
    \<open>data_channel\<close>: what a sender and a receiver of packets under one key promise together.
  \<^item> \<^verbatim>\<open>Aead\<close> (\<^verbatim>\<open>crypto/crypto_aead.hpp\<close>, \<^verbatim>\<open>mbedtls/crypto/cipheraead.hpp\<close>) and \<^verbatim>\<open>Crypto_Chm\<close>
    (\<^verbatim>\<open>crypto/crypto_chm.hpp\<close>, \<^verbatim>\<open>encrypt_chm.hpp\<close>, \<^verbatim>\<open>decrypt_chm.hpp\<close>, \<^verbatim>\<open>cipher.hpp\<close>): the two data
    channels, each an interpretation of that locale. \<open>aead_inverse\<close> and \<open>cipher_pair\<close> say of the
    library's ciphers only that decryption undoes encryption. The AEAD theory also models the
    wrapper of the library, which does not check the tag it is given.

  \<^item> \<^verbatim>\<open>Transport_Protocol\<close> (\<^verbatim>\<open>transport/protocol.hpp\<close>, \<^verbatim>\<open>tun/layer.hpp\<close>): the protocols and their names.
  \<^item> \<^verbatim>\<open>Key_Events\<close>, \<^verbatim>\<open>Key_Exchange\<close> and \<^verbatim>\<open>Key_Context\<close> (\<^verbatim>\<open>KeyContext\<close> of \<^verbatim>\<open>ssl/proto.hpp\<close>): the timed events of
    a key, the message the two sides authenticate with, and the key itself: the protocol stack with
    its callbacks written out, the keyed data channel and all the calls its owner makes.
  \<^item> \<^verbatim>\<open>Stack_Parent\<close>: the locale \<open>stack_parent\<close>, what every operation of the protocol stack keeps when each
    callback keeps it. \<^verbatim>\<open>Key_Life\<close> interprets it on the callbacks of a key: \<open>key_step\<close> is any call on a key,
    and a key only moves forward through its states.
  \<^item> \<^verbatim>\<open>Data_Path\<close>: a data packet from \<open>encrypt\<close> of one key to \<open>decrypt\<close> of the other, through MSS fix,
    compressor, cipher and head, for the two data channels of \<open>dc_object\<close> (locale \<open>key_channel\<close>).
  \<^item> \<^verbatim>\<open>Proto_Context\<close> (\<^verbatim>\<open>ProtoContext\<close> of \<^verbatim>\<open>ssl/proto.hpp\<close>): the session with its two keys; \<^verbatim>\<open>Session_Life\<close>: every
    operation of a session is a sequence of calls on its keys (\<open>session_step\<close>), so its keys stay keys
    in the sense of \<^verbatim>\<open>Key_Life\<close> and no data passes before authentication; \<^verbatim>\<open>Session_Props\<close>: key IDs, the way
    packets find their key, keepalive and handshake timeouts.

  \<^item> \<^verbatim>\<open>Unicode\<close> (\<^verbatim>\<open>common/unicode.hpp\<close>), \<^verbatim>\<open>Lex_Split\<close> (\<^verbatim>\<open>common/lex.hpp\<close>, \<^verbatim>\<open>common/split.hpp\<close>): UTF-8 tests and
    printable strings; the lexers and splitters. The locale \<open>quoting_lexer\<close> says what makes escaped text
    readable, and the two lexers that know quotes are its interpretations.
  \<^item> \<^verbatim>\<open>Conf_Option\<close>, \<^verbatim>\<open>Option_List\<close>, \<^verbatim>\<open>Option_Lookup\<close> (\<^verbatim>\<open>common/options.hpp\<close>): an option, the list with its index
    map, limits and parsers, and the lookups, which are shown to find what a search of the list finds;
    \<^verbatim>\<open>Option_Files\<close>: rendered lists and configuration files are read back, limits hold.
  \<^item> \<^verbatim>\<open>Push_Options\<close> (\<^verbatim>\<open>options/continuation*.hpp\<close>, \<^verbatim>\<open>options/servpush.hpp\<close>, \<^verbatim>\<open>client/optfilt.hpp\<close>): a PUSH_REPLY cut up
    by the server and put together by the client.

  \<^item> \<^verbatim>\<open>Challenge\<close> (\<^verbatim>\<open>auth/cr.hpp\<close>), \<^verbatim>\<open>Client_Creds\<close> (\<^verbatim>\<open>client/clicreds.hpp\<close>), \<^verbatim>\<open>Client_Event\<close>
    (\<^verbatim>\<open>client/clievent.hpp\<close>, \<^verbatim>\<open>client/clihalt.hpp\<close>): challenges and their responses, the credentials with the
    session ID that stands in for the password, the events, and the HALT and RESTART messages.
  \<^item> \<^verbatim>\<open>Client_Session\<close> (\<^verbatim>\<open>client/cliproto.hpp\<close>, \<^verbatim>\<open>time/coarsetime.hpp\<close>, \<^verbatim>\<open>time/durhelper.hpp\<close>): the client's session:
    control messages, pushed options, tun interface, timers. What the protocol context, the transport and the tun
    interface do while they are called (what they throw, call back and return) is the environment \<open>env\<close> of a
    step; what they are told is kept in order in \<open>cs_calls\<close>. Its parent is any \<open>notify\<close>.
  \<^item> \<^verbatim>\<open>Client_Run\<close>: the locale \<open>session_parent\<close>, what a session relies on in its parent, and the invariant that every
    handler keeps then; \<^verbatim>\<open>Client_Reach\<close>: \<open>client_step\<close> is any call on a session or timer that fires, and the
    invariant holds of what it reaches; \<^verbatim>\<open>Client_Core\<close>: the locale \<open>session_core\<close>, by which the parent's own
    invariant survives the session's handlers.
  \<^item> \<^verbatim>\<open>Client_Connect\<close> (\<^verbatim>\<open>client/cliconnect.hpp\<close>): the connection, which starts one session after another. It is the
    parent of the session: \<^verbatim>\<open>Connect_Life\<close> interprets both locales on it, and \<open>connect_step\<close> is anything that can
    happen to it. \<^verbatim>\<open>Client_Props\<close>: what the server's messages do to a connection, that it reports a connection
    once, and that it is not stuck as long as only errors it has a case for are reported.

  Termination. Loops over buffers and windows are structural or have a measure. Where the code's
  loop depends on what a parameter does (\<open>read_cleartext_loop\<close> and \<open>send_acks_loop\<close> of \<^verbatim>\<open>Proto_Stack\<close>,
  \<open>prf_hash_loop\<close> for an arbitrary HMAC), on the input (\<open>put_pktstream\<close>) or on events that may raise
  others (\<open>flush_loop\<close> of \<^verbatim>\<open>Proto_Context\<close>) the model is an option whose \<open>None\<close> is a loop that does not
  end, and the properties that speak of a result prove that there is one; the invariants hold of the
  states that calls leave when they return. No fuel is used elsewhere.

  Not modelled: sockets, timers and the event loop (ASIO); TLS, ciphers, digests and LZ4
  (third-party; parameters where the code relies on them); what \<^verbatim>\<open>ProtoContext::Config\<close> and
  \<^verbatim>\<open>client/cliopt.hpp\<close> read from a profile (the connection reads their results through \<open>connect_options\<close>), the
  list of remotes (\<^verbatim>\<open>client/remotelist.hpp\<close>), addresses and routes; HTTP and web socket proxies; tunnel
  devices (operating system calls); tls-crypt; the LZO decompressor, which works on pointers.
\<close>

end
